(* ===== verification/Js_Prelude.thy ===== *)
theory Js_Prelude
  imports Complex_Main "HOL-Library.Word"
begin

text \<open>
  The vocabulary the component theories share.

  \<^item> A \<open>Uint8Array\<close> is a \<open>byte list\<close>, its elements 8-bit words: storing a number
    keeps its low eight bits (\<open>word_of_nat\<close>), as the typed array does.
  \<^item> A JavaScript \<open>BigInt\<close> is an \<open>int\<close>; a count, an offset or a length is a \<open>nat\<close>.
  \<^item> A JavaScript \<open>Number\<close> whose non-finite or fractional values the code distinguishes is
    a \<open>js_num\<close>: a finite value is the rational it denotes.
  \<^item> A string is the list of the symbols its iterator yields (code points, a lone
    surrogate counting as one symbol).
  \<^item> A throw is a value: \<open>Inl\<close> of a \<open>js_error\<close>, whose constructor is the class of the
    error the code throws and whose argument is the fixed part of its message.
\<close>

section \<open>Errors as values\<close>

datatype js_error =
    TypeError string
  | RangeError string
  | JsError string

type_synonym 'a res = "js_error + 'a"

named_theorems res_simps \<open>how a result flows through the operations that may throw\<close>
named_theorems byte_simps \<open>big-endian bytes and their value\<close>

text \<open>\<open>andThen m f\<close> runs \<open>f\<close> on the value of \<open>m\<close>, or stops at its error.\<close>

fun andThen :: "'e + 'a \<Rightarrow> ('a \<Rightarrow> 'e + 'b) \<Rightarrow> 'e + 'b" where
  "andThen (Inl e) f = Inl e"
| "andThen (Inr x) f = f x"

lemma andThen_Inr_iff [res_simps]:
  "andThen m f = Inr y \<longleftrightarrow> (\<exists>x. m = Inr x \<and> f x = Inr y)"
  by (cases m) auto

lemma andThen_Inl_iff [res_simps]:
  "andThen m f = Inl e \<longleftrightarrow> m = Inl e \<or> (\<exists>x. m = Inr x \<and> f x = Inl e)"
  by (cases m) auto

lemma andThen_cong [fundef_cong]:
  assumes "m = m'" and "\<And>x. m' = Inr x \<Longrightarrow> f x = g x"
  shows "andThen m f = andThen m' g"
  using assms by (cases m') auto

lemma andThen_assoc:
  "andThen (andThen m f) g = andThen m (\<lambda>x. andThen (f x) g)"
  by (cases m) auto

text \<open>\<open>guard c e m\<close> is the early throw \<open>if (!c) throw e\<close> before \<open>m\<close>.\<close>

definition guard :: "bool \<Rightarrow> 'e \<Rightarrow> 'e + 'a \<Rightarrow> 'e + 'a" where
  "guard c e m = (if c then m else Inl e)"

lemma guard_Inr_iff [res_simps]: "guard c e m = Inr y \<longleftrightarrow> c \<and> m = Inr y"
  by (simp add: guard_def)

lemma guard_True [simp]: "guard True e m = m"
  by (simp add: guard_def)

lemma guard_False [simp]: "guard False e m = Inl e"
  by (simp add: guard_def)

text \<open>A loop whose body may throw, collecting the values (\<open>Array.prototype.map\<close>).\<close>

fun mapRes :: "('a \<Rightarrow> 'e + 'b) \<Rightarrow> 'a list \<Rightarrow> 'e + 'b list" where
  "mapRes f [] = Inr []"
| "mapRes f (x # xs) = andThen (f x) (\<lambda>y. andThen (mapRes f xs) (\<lambda>ys. Inr (y # ys)))"

lemma mapRes_total:
  "(\<And>x. x \<in> set xs \<Longrightarrow> f x = Inr (g x)) \<Longrightarrow> mapRes f xs = Inr (map g xs)"
  by (induction xs) auto

lemma mapRes_length: "mapRes f xs = Inr ys \<Longrightarrow> length ys = length xs"
  by (induction xs arbitrary: ys) (auto simp: res_simps)

section \<open>Numbers\<close>

datatype js_num = NaN | PosInf | NegInf | Fin rat

definition js_of_nat :: "nat \<Rightarrow> js_num" where
  "js_of_nat n = Fin (of_nat n)"

definition js_of_int :: "int \<Rightarrow> js_num" where
  "js_of_int n = Fin (of_int n)"

definition MAX_SAFE_INTEGER :: int where
  "MAX_SAFE_INTEGER = 9007199254740991"

fun isFiniteNum :: "js_num \<Rightarrow> bool" where
  "isFiniteNum (Fin r) = True"
| "isFiniteNum _ = False"

fun isInteger :: "js_num \<Rightarrow> bool" where
  "isInteger (Fin r) = (of_int \<lfloor>r\<rfloor> = r)"
| "isInteger _ = False"

fun isSafeInteger :: "js_num \<Rightarrow> bool" where
  "isSafeInteger (Fin r) = (of_int \<lfloor>r\<rfloor> = r \<and> \<bar>\<lfloor>r\<rfloor>\<bar> \<le> MAX_SAFE_INTEGER)"
| "isSafeInteger _ = False"

text \<open>The integer an integral number denotes (0 where it denotes none).\<close>

fun intOf :: "js_num \<Rightarrow> int" where
  "intOf (Fin r) = \<lfloor>r\<rfloor>"
| "intOf _ = 0"

lemma js_of_nat_simps [simp]:
  "isFiniteNum (js_of_nat n)" "isInteger (js_of_nat n)" "intOf (js_of_nat n) = int n"
  by (simp_all add: js_of_nat_def)

lemma js_of_int_simps [simp]:
  "isFiniteNum (js_of_int i)" "isInteger (js_of_int i)" "intOf (js_of_int i) = i"
  by (simp_all add: js_of_int_def)

section \<open>Bytes\<close>

type_synonym byte = "8 word"
type_synonym bytes = "byte list"

lemma unat_byte_less [simp]: "unat (b :: byte) < 256"
  using unsigned_less [of b] by simp

lemma unat_byte_div16 [simp]: "unat (b :: byte) div 16 < 16"
  using unat_byte_less [of b] by (simp add: less_mult_imp_div_less del: unat_byte_less)

lemma unat_word_of_nat_byte [byte_simps]: "unat (word_of_nat n :: byte) = n mod 256"
  by (simp add: unat_of_nat)

lemma unat_small_byte: "n < 256 \<Longrightarrow> unat (word_of_nat n :: byte) = n"
  by (simp only: unat_word_of_nat_byte mod_less)

lemma byte_of_unat [simp]: "(word_of_nat (unat b) :: byte) = b"
  by simp

text \<open>
  The big-endian bytes of a number, written from the last byte to the first as the code's
  loops do, and the number a byte sequence denotes.
\<close>

fun be_bytes :: "nat \<Rightarrow> nat \<Rightarrow> bytes" where
  "be_bytes 0 v = []"
| "be_bytes (Suc n) v = be_bytes n (v div 256) @ [word_of_nat v]"

definition be_value :: "bytes \<Rightarrow> nat" where
  "be_value bs = foldl (\<lambda>acc b. acc * 256 + unat b) 0 bs"

lemma length_be_bytes [simp]: "length (be_bytes n v) = n"
  by (induction n arbitrary: v) auto

lemma be_value_Nil [simp]: "be_value [] = 0"
  by (simp add: be_value_def)

lemma be_value_snoc [byte_simps]: "be_value (bs @ [b]) = be_value bs * 256 + unat b"
  by (simp add: be_value_def)

lemma be_value_be_bytes [byte_simps]: "be_value (be_bytes n v) = v mod 256 ^ n"
proof (induction n arbitrary: v)
  case 0
  then show ?case by simp
next
  case (Suc n)
  have "be_value (be_bytes (Suc n) v) = v div 256 mod 256 ^ n * 256 + v mod 256"
    by (simp add: Suc.IH byte_simps)
  also have "\<dots> = v mod (256 * 256 ^ n)"
    by (subst mod_mult2_eq) simp
  finally show ?case by simp
qed

lemma be_value_less: "be_value bs < 256 ^ length bs"
proof (induction bs rule: rev_induct)
  case Nil
  then show ?case by simp
next
  case (snoc b bs)
  have "be_value bs * 256 + unat b < (be_value bs + 1) * 256"
    using unat_byte_less [of b] by simp
  also have "\<dots> \<le> 256 ^ length bs * 256"
    using snoc.IH by (intro mult_right_mono) auto
  finally show ?case by (simp add: byte_simps mult.commute)
qed

lemma be_bytes_be_value [byte_simps]: "be_bytes (length bs) (be_value bs) = bs"
proof (induction bs rule: rev_induct)
  case Nil
  then show ?case by simp
next
  case (snoc b bs)
  have "(be_value bs * 256 + unat b) div 256 = be_value bs"
    using unat_byte_less [of b] by simp
  moreover have "(word_of_nat (be_value bs * 256 + unat b) :: byte) = b"
    by (intro unsigned_word_eqI) (subst unat_word_of_nat_byte, simp)
  ultimately show ?case
    using snoc.IH by (simp add: byte_simps)
qed

lemma be_bytes_inj:
  "v < 256 ^ n \<Longrightarrow> w < 256 ^ n \<Longrightarrow> be_bytes n v = be_bytes n w \<Longrightarrow> v = w"
  by (metis be_value_be_bytes mod_less)

text \<open>The slice \<open>bytes.subarray(from, to)\<close> of a byte array.\<close>

definition slice :: "nat \<Rightarrow> nat \<Rightarrow> 'a list \<Rightarrow> 'a list" where
  "slice a b xs = take (b - a) (drop a xs)"

lemma length_slice [simp]: "length (slice a b xs) = min (b - a) (length xs - a)"
  by (simp add: slice_def)

lemma slice_append_skip [simp]: "slice (length xs + a) (length xs + b) (xs @ ys) = slice a b ys"
  by (simp add: slice_def)

lemma slice_0_append [simp]: "slice 0 (length xs) (xs @ ys) = xs"
  by (simp add: slice_def)

lemma slice_self [simp]: "slice 0 (length xs) xs = xs"
  by (simp add: slice_def)

text \<open>The first field of a record of fields laid out one after another.\<close>

lemma slice_field:
  "a = length xs \<Longrightarrow> b = length xs + length ys \<Longrightarrow> slice a b (xs @ ys @ zs) = ys"
  by (simp add: slice_def)

lemma nth_field: "a = length xs \<Longrightarrow> (xs @ y # ys) ! a = y"
  by simp

lemma drop_field: "a = length xs \<Longrightarrow> drop a (xs @ ys) = ys"
  by simp

text \<open>Pieces of \<open>n\<close> elements, the last one with what is left.\<close>

function chunks :: "nat \<Rightarrow> 'a list \<Rightarrow> 'a list list" where
  "chunks n xs = (if n = 0 \<or> xs = [] then [] else take n xs # chunks n (drop n xs))"
  by pat_completeness auto
termination
  by (relation "measure (\<lambda>(n, xs). length xs)") auto

declare chunks.simps [simp del]

lemma chunks_Nil [simp]: "chunks n [] = []"
  by (simp add: chunks.simps)

lemma chunks_step: "0 < n \<Longrightarrow> xs \<noteq> [] \<Longrightarrow> chunks n xs = take n xs # chunks n (drop n xs)"
  by (subst chunks.simps) simp

lemma concat_chunks: "0 < n \<Longrightarrow> concat (chunks n xs) = xs"
proof (induction n xs rule: chunks.induct)
  case (1 n xs)
  then show ?case by (cases "xs = []") (simp_all add: chunks_step)
qed

lemma chunks_length_le: "c \<in> set (chunks n xs) \<Longrightarrow> length c \<le> n"
proof (induction n xs rule: chunks.induct)
  case (1 n xs)
  then show ?case by (cases "n = 0 \<or> xs = []") (auto simp: chunks.simps [of n xs])
qed

lemma chunks_nonempty: "c \<in> set (chunks n xs) \<Longrightarrow> c \<noteq> []"
proof (induction n xs rule: chunks.induct)
  case (1 n xs)
  then show ?case by (cases "n = 0 \<or> xs = []") (auto simp: chunks.simps [of n xs])
qed

lemma length_chunks: "0 < n \<Longrightarrow> length (chunks n xs) = (length xs + n - 1) div n"
proof (induction n xs rule: chunks.induct)
  case (1 n xs)
  show ?case
  proof (cases "xs = []")
    case True
    with "1.prems" show ?thesis by simp
  next
    case False
    have "length (chunks n xs) = Suc ((length xs - n + n - 1) div n)"
      using "1" False by (simp add: chunks_step)
    also have "\<dots> = (length xs + n - 1) div n"
    proof (cases "n \<le> length xs")
      case True
      then have "length xs + n - 1 = n + (length xs - n + n - 1)" using "1.prems" by simp
      moreover have "(n + k) div n = Suc (k div n)" for k using "1.prems" by simp
      ultimately show ?thesis by presburger
    next
      case False
      have "length xs + n - 1 = n + (length xs - 1)" "length xs - 1 < n"
        using \<open>xs \<noteq> []\<close> False by (cases xs; simp)+
      moreover have "(n + k) div n = 1" if "k < n" for k using that by simp
      ultimately have "(length xs + n - 1) div n = 1" by metis
      with False "1.prems" show ?thesis by simp
    qed
    finally show ?thesis .
  qed
qed

text \<open>\<open>Array.prototype.indexOf\<close> of an element that occurs.\<close>

fun index_of :: "'a list \<Rightarrow> 'a \<Rightarrow> nat" where
  "index_of [] y = 0"
| "index_of (x # xs) y = (if x = y then 0 else Suc (index_of xs y))"

lemma index_of_nth: "x \<in> set xs \<Longrightarrow> index_of xs x < length xs \<and> xs ! index_of xs x = x"
  by (induction xs) auto

lemma index_of_distinct: "distinct xs \<Longrightarrow> i < length xs \<Longrightarrow> index_of xs (xs ! i) = i"
proof (induction xs arbitrary: i)
  case (Cons x xs)
  then show ?case by (cases i) auto
qed simp

text \<open>Reading the big-endian number at an offset, and throwing past the end.\<close>

definition readBigUintBytes :: "bytes \<Rightarrow> nat \<Rightarrow> nat \<Rightarrow> nat res" where
  "readBigUintBytes bytes off n =
     guard (\<not> off + n > length bytes) (JsError ''is truncated'')
       (Inr (be_value (slice off (off + n) bytes)))"

lemma drop_prefix:
  assumes "drop off bs = xs @ ys"
  shows "drop (off + length xs) bs = ys" "slice off (off + length xs) bs = xs"
    "xs \<noteq> [] \<Longrightarrow> off + length xs \<le> length bs"
proof -
  show "drop (off + length xs) bs = ys"
    using assms by (metis add.commute append_eq_conv_conj drop_drop)
  show "slice off (off + length xs) bs = xs" using assms by (simp add: slice_def)
  have "length bs - off = length xs + length ys" using arg_cong [OF assms, of length] by simp
  then show "xs \<noteq> [] \<Longrightarrow> off + length xs \<le> length bs" by (cases xs) auto
qed

lemma readBigUintBytes_drop:
  assumes "drop off bs = be_bytes n v @ ys" "v < 256 ^ n" "0 < n"
  shows "readBigUintBytes bs off n = Inr v" "drop (off + n) bs = ys"
proof -
  note d = drop_prefix [OF assms(1), unfolded length_be_bytes]
  show "drop (off + n) bs = ys" by (rule d(1))
  have "be_bytes n v \<noteq> []" using assms(3) by (metis length_be_bytes list.size(3) less_irrefl)
  then have "off + n \<le> length bs" by (rule d(3))
  then show "readBigUintBytes bs off n = Inr v"
    using assms(2) by (simp add: readBigUintBytes_def d(2) be_value_be_bytes)
qed

section \<open>Strings\<close>

type_synonym symbol = nat
type_synonym js_string = "symbol list"

text \<open>A string literal of the source, as code points.\<close>

definition str :: "string \<Rightarrow> js_string" where
  "str s = map of_char s"

text \<open>White space as \<open>String.prototype.trim\<close> strips it.\<close>

definition is_space :: "symbol \<Rightarrow> bool" where
  "is_space c \<longleftrightarrow> (9 \<le> c \<and> c \<le> 13) \<or> c = 32 \<or> c = 0xA0 \<or> c = 0x1680
     \<or> (0x2000 \<le> c \<and> c \<le> 0x200A) \<or> c = 0x2028 \<or> c = 0x2029 \<or> c = 0x202F \<or> c = 0x205F
     \<or> c = 0x3000 \<or> c = 0xFEFF"

definition trim :: "js_string \<Rightarrow> js_string" where
  "trim s = rev (dropWhile is_space (rev (dropWhile is_space s)))"

lemma set_trim_subset: "set (trim s) \<subseteq> set s"
  unfolding trim_def by (auto dest!: set_dropWhileD)

lemma trim_id:
  assumes "\<forall>c \<in> set s. \<not> is_space c"
  shows "trim s = s"
proof -
  have "dropWhile is_space xs = xs" if "set xs \<subseteq> set s" for xs
    using that assms by (cases xs) auto
  from this [of s] this [of "rev s"] show ?thesis by (simp add: trim_def)
qed

text \<open>The character classes of the source's regular expressions.\<close>

definition is_digit :: "symbol \<Rightarrow> bool" where
  "is_digit c \<longleftrightarrow> 48 \<le> c \<and> c \<le> 57"

definition is_upper :: "symbol \<Rightarrow> bool" where
  "is_upper c \<longleftrightarrow> 65 \<le> c \<and> c \<le> 90"

definition is_lower :: "symbol \<Rightarrow> bool" where
  "is_lower c \<longleftrightarrow> 97 \<le> c \<and> c \<le> 122"

definition is_hex_lower :: "symbol \<Rightarrow> bool" where
  "is_hex_lower c \<longleftrightarrow> is_digit c \<or> (97 \<le> c \<and> c \<le> 102)"

lemmas char_class_defs = is_digit_def is_upper_def is_lower_def is_hex_lower_def

text \<open>The value of a hexadecimal digit, and the two digits of a byte.\<close>

definition hex_val :: "symbol \<Rightarrow> nat" where
  "hex_val c = (if is_digit c then c - 48 else c - 87)"

definition hex_digit :: "nat \<Rightarrow> symbol" where
  "hex_digit n = (if n < 10 then n + 48 else n + 87)"

lemma hex_val_digit [simp]: "n < 16 \<Longrightarrow> hex_val (hex_digit n) = n"
  by (simp add: hex_val_def hex_digit_def is_digit_def)

lemma hex_digit_val [simp]: "is_hex_lower c \<Longrightarrow> hex_digit (hex_val c) = c"
  by (auto simp: hex_val_def hex_digit_def char_class_defs)

lemma hex_val_less [simp]: "is_hex_lower c \<Longrightarrow> hex_val c < 16"
  by (auto simp: hex_val_def char_class_defs)

lemma is_hex_lower_digit [simp]: "n < 16 \<Longrightarrow> is_hex_lower (hex_digit n)"
  by (auto simp: hex_digit_def char_class_defs)

text \<open>\<open>bytesToHex\<close>: two lower-case digits per byte; and the bytes of such a string.\<close>

definition bytes_hex :: "bytes \<Rightarrow> js_string" where
  "bytes_hex bs = concat (map (\<lambda>b. [hex_digit (unat b div 16), hex_digit (unat b mod 16)]) bs)"

fun hex_bytes :: "js_string \<Rightarrow> bytes" where
  "hex_bytes (a # b # cs) = word_of_nat (hex_val a * 16 + hex_val b) # hex_bytes cs"
| "hex_bytes _ = []"

lemma bytes_hex_simps [simp]:
  "bytes_hex [] = []"
  "bytes_hex (b # bs) = hex_digit (unat b div 16) # hex_digit (unat b mod 16) # bytes_hex bs"
  by (simp_all add: bytes_hex_def)

lemma length_bytes_hex [simp]: "length (bytes_hex bs) = 2 * length bs"
  by (induction bs) auto

lemma hex_bytes_bytes_hex [byte_simps]: "hex_bytes (bytes_hex bs) = bs"
proof (induction bs)
  case (Cons b bs)
  then show ?case by simp
qed simp

lemma length_hex_bytes [simp]: "length (hex_bytes cs) = length cs div 2"
  by (induction cs rule: hex_bytes.induct) auto

lemma bytes_hex_hex_bytes [byte_simps]:
  "even (length cs) \<Longrightarrow> \<forall>c \<in> set cs. is_hex_lower c \<Longrightarrow> bytes_hex (hex_bytes cs) = cs"
proof (induction cs rule: hex_bytes.induct)
  case (1 a b cs)
  have "hex_val a < 16" "hex_val b < 16"
    using "1.prems" by simp_all
  then have "unat (word_of_nat (hex_val a * 16 + hex_val b) :: byte) = hex_val a * 16 + hex_val b"
    by (subst unat_word_of_nat_byte) simp
  moreover have "(hex_val a * 16 + hex_val b) div 16 = hex_val a"
    "(hex_val a * 16 + hex_val b) mod 16 = hex_val b"
    using \<open>hex_val b < 16\<close> by auto
  ultimately show ?case using "1" by simp
qed auto

lemma bytes_hex_lower: "\<forall>c \<in> set (bytes_hex bs). is_hex_lower c"
proof (induction bs)
  case (Cons b bs)
  then show ?case by simp
qed simp

text \<open>\<open>BigInt.prototype.toString\<close> in base ten, and \<open>BigInt\<close> of a digit string.\<close>

fun dec_string :: "nat \<Rightarrow> js_string" where
  "dec_string n = (if n < 10 then [48 + n] else dec_string (n div 10) @ [48 + n mod 10])"

declare dec_string.simps [simp del]

definition dec_value :: "js_string \<Rightarrow> nat" where
  "dec_value s = foldl (\<lambda>acc c. acc * 10 + (c - 48)) 0 s"

lemma dec_value_snoc [simp]: "dec_value (s @ [c]) = dec_value s * 10 + (c - 48)"
  by (simp add: dec_value_def)

lemma dec_value_dec_string [simp]: "dec_value (dec_string n) = n"
proof (induction n rule: dec_string.induct)
  case (1 n)
  show ?case
  proof (cases "n < 10")
    case True
    then show ?thesis by (subst dec_string.simps) (simp add: dec_value_def)
  next
    case False
    with "1" show ?thesis by (subst dec_string.simps) simp
  qed
qed

lemma dec_string_digits: "c \<in> set (dec_string n) \<Longrightarrow> is_digit c"
proof (induction n rule: dec_string.induct)
  case (1 n)
  then show ?case
    by (cases "n < 10") (auto simp: is_digit_def dec_string.simps [of n])
qed

lemma dec_string_nonempty [simp]: "dec_string n \<noteq> []"
  by (subst dec_string.simps) simp

text \<open>\<open>toLowerCase\<close> on ASCII; the code also calls it on other text, where it is a parameter.\<close>

definition is_ascii :: "js_string \<Rightarrow> bool" where
  "is_ascii s \<longleftrightarrow> (\<forall>c \<in> set s. c < 128)"

definition ascii_lower :: "js_string \<Rightarrow> js_string" where
  "ascii_lower s = map (\<lambda>c. if is_upper c then c + 32 else c) s"

definition lowers_ascii :: "(js_string \<Rightarrow> js_string) \<Rightarrow> bool" where
  "lowers_ascii lower \<longleftrightarrow> (\<forall>s. is_ascii s \<longrightarrow> lower s = ascii_lower s)"

lemma lowers_ascii_ascii_lower: "lowers_ascii ascii_lower"
  by (simp add: lowers_ascii_def)

lemma ascii_lower_id: "\<forall>c \<in> set s. \<not> is_upper c \<Longrightarrow> ascii_lower s = s"
  by (simp add: ascii_lower_def map_idI)

lemma lower_id:
  "lowers_ascii lower \<Longrightarrow> is_ascii s \<Longrightarrow> \<forall>c \<in> set s. \<not> is_upper c \<Longrightarrow> lower s = s"
  by (simp add: lowers_ascii_def ascii_lower_id)

text \<open>A string of exactly \<open>n\<close> lower-case hexadecimal digits: \<open>/^[0-9a-f]{n}$/\<close>.\<close>

definition is_hex_of_length :: "nat \<Rightarrow> js_string \<Rightarrow> bool" where
  "is_hex_of_length n s \<longleftrightarrow> length s = n \<and> (\<forall>c \<in> set s. is_hex_lower c)"

lemma hex_ascii: "is_hex_lower c \<Longrightarrow> c < 128 \<and> \<not> is_upper c \<and> \<not> is_space c"
  by (auto simp: char_class_defs is_space_def)

lemma is_hex_of_length_bytes_hex: "length bs * 2 = n \<Longrightarrow> is_hex_of_length n (bytes_hex bs)"
  using bytes_hex_lower [of bs] by (simp add: is_hex_of_length_def)

section \<open>Defaults, indexing and sequencing\<close>

text \<open>\<open>v ?? d\<close>\<close>

definition or_default :: "'a option \<Rightarrow> 'a \<Rightarrow> 'a" where
  "or_default v d = (case v of None \<Rightarrow> d | Some x \<Rightarrow> x)"

text \<open>\<open>bytes[i]\<close>, undefined past the end.\<close>

definition byte_at :: "bytes \<Rightarrow> nat \<Rightarrow> byte option" where
  "byte_at bs i = (if i < length bs then Some (bs ! i) else None)"

lemma slice_cat: "a \<le> b \<Longrightarrow> b \<le> c \<Longrightarrow> slice a b xs @ slice b c xs = slice a c xs"
proof -
  assume ab: "a \<le> b" "b \<le> c"
  have "take (c - a) (drop a xs) = take (b - a) (drop a xs) @ take (c - b) (drop (b - a) (drop a xs))"
    using ab by (metis le_add_diff_inverse take_add add_diff_cancel_left' diff_add_assoc2 diff_diff_left Nat.diff_diff_right)
  with ab show ?thesis by (simp add: slice_def)
qed

lemma slice_one: "a < length xs \<Longrightarrow> slice a (Suc a) xs = [xs ! a]"
  by (simp add: slice_def take_Suc_conv_app_nth [of 0, simplified] hd_drop_conv_nth take_Suc)

lemma prefix_slices:
  assumes "8 \<le> length header"
  shows "slice 0 8 header = slice 0 4 header @ [header ! 4, header ! 5, header ! 6, header ! 7]"
proof -
  have "slice 0 8 header = slice 0 4 header @ slice 4 5 header @ slice 5 6 header @ slice 6 7 header @ slice 7 8 header"
    by (simp add: slice_cat)
  moreover have "slice 4 5 header = [header ! 4]" "slice 5 6 header = [header ! 5]" "slice 6 7 header = [header ! 6]"
    "slice 7 8 header = [header ! 7]"
    using assms slice_one [of 4 header] slice_one [of 5 header] slice_one [of 6 header] slice_one [of 7 header]
    by (simp_all add: eval_nat_numeral)
  ultimately show ?thesis by simp
qed

text \<open>Sequencing of steps that may throw or run out of fuel.\<close>

definition thenF :: "'a res option \<Rightarrow> ('a \<Rightarrow> 'b res option) \<Rightarrow> 'b res option" where
  "thenF m f = (case m of None \<Rightarrow> None | Some (Inl e) \<Rightarrow> Some (Inl e) | Some (Inr x) \<Rightarrow> f x)"

lemma thenF_simps [simp]:
  "thenF (Some (Inr x)) f = f x" "thenF (Some (Inl e)) f = Some (Inl e)" "thenF None f = None"
  by (simp_all add: thenF_def)

lemma thenF_Inr [res_simps]: "thenF m f = Some (Inr y) \<longleftrightarrow> (\<exists>x. m = Some (Inr x) \<and> f x = Some (Inr y))"
  by (auto simp: thenF_def split: option.splits sum.splits)

section \<open>Collisions of a hash function\<close>

text \<open>
  What a digest commits to is stated relative to the messages that were hashed: two different messages
  of the given lists have one digest. (That some two messages collide is true of every digest of bounded
  length and would say nothing.)
\<close>

definition collision :: "(bytes \<Rightarrow> bytes) \<Rightarrow> bytes list \<Rightarrow> bytes list \<Rightarrow> bool" where
  "collision sha xs ys \<longleftrightarrow> (\<exists>x \<in> set xs. \<exists>y \<in> set ys. x \<noteq> y \<and> sha x = sha y)"

lemma no_collision: "\<not> collision sha xs ys \<Longrightarrow> x \<in> set xs \<Longrightarrow> y \<in> set ys \<Longrightarrow> sha x = sha y \<Longrightarrow> x = y"
  by (auto simp: collision_def)

lemma collision_mono: "collision sha xs ys \<Longrightarrow> set xs \<subseteq> set xs' \<Longrightarrow> set ys \<subseteq> set ys' \<Longrightarrow> collision sha xs' ys'"
  by (auto simp: collision_def)

end
