(* ===== verification/Utf8.thy ===== *)
theory Utf8
  imports Js_Prelude
begin

text \<open>
  The platform's \<open>TextEncoder\<close> and \<open>TextDecoder\<close> (WHATWG Encoding Standard), which every
  content block of the client goes through, and the two byte-counting helpers of
  \<^verbatim>\<open>src/web/capsule-part-policy.mjs\<close> that rest on them.

  A string is a list of symbols. A lone surrogate is a symbol of its own and is encoded as
  the replacement character, as the encoder does. The decoder is the non-fatal one the
  code creates: each maximal ill-formed prefix becomes one U+FFFD, and a byte order mark at
  the very start is dropped.
\<close>

section \<open>The encoder\<close>

definition is_surrogate :: "symbol \<Rightarrow> bool" where
  "is_surrogate c \<longleftrightarrow> 0xD800 \<le> c \<and> c \<le> 0xDFFF"

definition is_scalar :: "symbol \<Rightarrow> bool" where
  "is_scalar c \<longleftrightarrow> c < 0x110000 \<and> \<not> is_surrogate c"

definition utf8_symbol :: "symbol \<Rightarrow> bytes" where
  "utf8_symbol c0 =
     (let c = (if is_surrogate c0 then 0xFFFD else c0) in
      if c < 0x80 then [word_of_nat c]
      else if c < 0x800 then [word_of_nat (0xC0 + c div 64), word_of_nat (0x80 + c mod 64)]
      else if c < 0x10000 then
        [word_of_nat (0xE0 + c div 4096), word_of_nat (0x80 + c div 64 mod 64),
         word_of_nat (0x80 + c mod 64)]
      else
        [word_of_nat (0xF0 + c div 262144), word_of_nat (0x80 + c div 4096 mod 64),
         word_of_nat (0x80 + c div 64 mod 64), word_of_nat (0x80 + c mod 64)])"

definition utf8_encode :: "js_string \<Rightarrow> bytes" where
  "utf8_encode s = concat (map utf8_symbol s)"

lemma utf8_encode_simps [simp]:
  "utf8_encode [] = []"
  "utf8_encode (c # s) = utf8_symbol c @ utf8_encode s"
  "utf8_encode (s @ t) = utf8_encode s @ utf8_encode t"
  by (simp_all add: utf8_encode_def)

lemma utf8_symbol_length: "1 \<le> length (utf8_symbol c)" "length (utf8_symbol c) \<le> 4"
  by (simp_all add: utf8_symbol_def Let_def)

lemma utf8_symbol_nonempty [simp]: "utf8_symbol c \<noteq> []"
  using utf8_symbol_length(1) [of c] by auto

lemma utf8_encode_Nil_iff [simp]: "utf8_encode s = [] \<longleftrightarrow> s = []"
  by (cases s) auto

lemma utf8_symbol_ascii [simp]: "c < 128 \<Longrightarrow> utf8_symbol c = [word_of_nat c]"
  by (simp add: utf8_symbol_def is_surrogate_def)

lemma utf8_encode_ascii: "\<forall>c \<in> set s. c < 128 \<Longrightarrow> utf8_encode s = map word_of_nat s"
  by (induction s) auto

lemma length_utf8_encode_le: "length (utf8_encode s) \<le> 4 * length s"
proof (induction s)
  case (Cons c s)
  then show ?case using utf8_symbol_length(2) [of c] by simp
qed simp

lemma length_le_utf8_encode: "length s \<le> length (utf8_encode s)"
proof (induction s)
  case (Cons c s)
  then show ?case using utf8_symbol_length(1) [of c] by simp
qed simp

section \<open>The decoder\<close>

text \<open>
  The state of the decoder: how many continuation bytes are still needed, the code point
  collected so far, and the range the next continuation byte must lie in. A byte out of
  range ends the sequence with U+FFFD and is read again as a first byte.
\<close>

function utf8_run :: "nat \<Rightarrow> nat \<Rightarrow> nat \<Rightarrow> nat \<Rightarrow> bytes \<Rightarrow> js_string" where
  "utf8_run need cp lo hi [] = (if need = 0 then [] else [0xFFFD])"
| "utf8_run need cp lo hi (w # ws) =
     (let b = unat w in
      if need = 0 then
        (if b \<le> 0x7F then b # utf8_run 0 0 0x80 0xBF ws
         else if 0xC2 \<le> b \<and> b \<le> 0xDF then utf8_run 1 (b - 0xC0) 0x80 0xBF ws
         else if 0xE0 \<le> b \<and> b \<le> 0xEF then
           utf8_run 2 (b - 0xE0) (if b = 0xE0 then 0xA0 else 0x80) (if b = 0xED then 0x9F else 0xBF) ws
         else if 0xF0 \<le> b \<and> b \<le> 0xF4 then
           utf8_run 3 (b - 0xF0) (if b = 0xF0 then 0x90 else 0x80) (if b = 0xF4 then 0x8F else 0xBF) ws
         else 0xFFFD # utf8_run 0 0 0x80 0xBF ws)
      else if lo \<le> b \<and> b \<le> hi then
        (if need = 1 then (cp * 64 + (b - 0x80)) # utf8_run 0 0 0x80 0xBF ws
         else utf8_run (need - 1) (cp * 64 + (b - 0x80)) 0x80 0xBF ws)
      else 0xFFFD # utf8_run 0 0 0x80 0xBF (w # ws))"
  by pat_completeness auto
termination
  by (relation "measures [\<lambda>(need, cp, lo, hi, ws). length ws,
                          \<lambda>(need, cp, lo, hi, ws). if need = 0 then 0 else 1]") auto

declare utf8_run.simps(2) [simp del]

abbreviation utf8_start :: "bytes \<Rightarrow> js_string" where
  "utf8_start \<equiv> utf8_run 0 0 0x80 0xBF"

definition utf8_decode :: "bytes \<Rightarrow> js_string" where
  "utf8_decode ws =
     (case utf8_start ws of c # s \<Rightarrow> if c = 0xFEFF then s else c # s | [] \<Rightarrow> [])"

lemma utf8_run_first:
  "unat w \<le> 0x7F \<Longrightarrow> utf8_start (w # ws) = unat w # utf8_start ws"
  "0xC2 \<le> unat w \<Longrightarrow> unat w \<le> 0xDF \<Longrightarrow> utf8_start (w # ws) = utf8_run 1 (unat w - 0xC0) 0x80 0xBF ws"
  "0xE0 \<le> unat w \<Longrightarrow> unat w \<le> 0xEF \<Longrightarrow> utf8_start (w # ws) =
     utf8_run 2 (unat w - 0xE0) (if unat w = 0xE0 then 0xA0 else 0x80)
       (if unat w = 0xED then 0x9F else 0xBF) ws"
  "0xF0 \<le> unat w \<Longrightarrow> unat w \<le> 0xF4 \<Longrightarrow> utf8_start (w # ws) =
     utf8_run 3 (unat w - 0xF0) (if unat w = 0xF0 then 0x90 else 0x80)
       (if unat w = 0xF4 then 0x8F else 0xBF) ws"
  by (simp_all add: utf8_run.simps(2) Let_def)

lemma utf8_run_next:
  "lo \<le> unat w \<Longrightarrow> unat w \<le> hi \<Longrightarrow> 1 < need \<Longrightarrow>
     utf8_run need cp lo hi (w # ws) = utf8_run (need - 1) (cp * 64 + (unat w - 0x80)) 0x80 0xBF ws"
  "lo \<le> unat w \<Longrightarrow> unat w \<le> hi \<Longrightarrow>
     utf8_run 1 cp lo hi (w # ws) = (cp * 64 + (unat w - 0x80)) # utf8_start ws"
  by (simp_all add: utf8_run.simps(2) Let_def)

lemma base64_digits:
  fixes c :: nat
  shows "c div 4096 * 64 + c div 64 mod 64 = c div 64"
    and "c div 64 * 64 + c mod 64 = c"
    and "c div 262144 * 64 + c div 4096 mod 64 = c div 4096"
proof -
  have "c div 4096 = c div 64 div 64" "c div 262144 = c div 4096 div 64"
    by (simp_all add: div_mult2_eq [symmetric])
  then show "c div 4096 * 64 + c div 64 mod 64 = c div 64"
    and "c div 64 * 64 + c mod 64 = c"
    and "c div 262144 * 64 + c div 4096 mod 64 = c div 4096"
    by (simp_all only: div_mult_mod_eq)
qed

text \<open>
  A well-formed sequence is consumed whole. The sequences of two, three and four bytes are
  stated over the digits of the code point, then instantiated with the encoder's bytes.
\<close>

lemma utf8_run_two:
  assumes "unat w1 = 0xC0 + h" "unat w2 = 0x80 + l" "2 \<le> h" "h < 32" "l < 64"
  shows "utf8_start (w1 # w2 # ws) = (h * 64 + l) # utf8_start ws"
proof -
  have "utf8_start (w1 # w2 # ws) = utf8_run 1 h 0x80 0xBF (w2 # ws)"
    using utf8_run_first(2) [of w1 "w2 # ws"] assms by simp
  also have "\<dots> = (h * 64 + l) # utf8_start ws"
    using utf8_run_next(2) [of "0x80" w2 "0xBF" h ws] assms by simp
  finally show ?thesis .
qed

lemma utf8_run_three:
  assumes "unat w1 = 0xE0 + h" "unat w2 = 0x80 + m" "unat w3 = 0x80 + l"
    and "h < 16" "m < 64" "l < 64" "h = 0 \<Longrightarrow> 32 \<le> m" "h = 13 \<Longrightarrow> m < 32"
  shows "utf8_start (w1 # w2 # w3 # ws) = ((h * 64 + m) * 64 + l) # utf8_start ws"
proof -
  have lo: "(if h = 0 then 0xA0 else 0x80) \<le> unat w2" and hi: "unat w2 \<le> (if h = 13 then 0x9F else 0xBF)"
    using assms by auto
  have "utf8_start (w1 # w2 # w3 # ws)
      = utf8_run 2 h (if h = 0 then 0xA0 else 0x80) (if h = 13 then 0x9F else 0xBF) (w2 # w3 # ws)"
    using utf8_run_first(3) [of w1 "w2 # w3 # ws"] assms by simp
  also have "\<dots> = utf8_run 1 (h * 64 + m) 0x80 0xBF (w3 # ws)"
    using utf8_run_next(1) [OF lo hi, of 2] assms(2) by simp
  also have "\<dots> = ((h * 64 + m) * 64 + l) # utf8_start ws"
    using utf8_run_next(2) [of "0x80" w3 "0xBF" "h * 64 + m" ws] assms by simp
  finally show ?thesis .
qed

lemma utf8_run_four:
  assumes "unat w1 = 0xF0 + h" "unat w2 = 0x80 + m" "unat w3 = 0x80 + k" "unat w4 = 0x80 + l"
    and "h < 5" "m < 64" "k < 64" "l < 64" "h = 0 \<Longrightarrow> 16 \<le> m" "h = 4 \<Longrightarrow> m < 16"
  shows "utf8_start (w1 # w2 # w3 # w4 # ws) = (((h * 64 + m) * 64 + k) * 64 + l) # utf8_start ws"
proof -
  have lo: "(if h = 0 then 0x90 else 0x80) \<le> unat w2" and hi: "unat w2 \<le> (if h = 4 then 0x8F else 0xBF)"
    using assms by auto
  have "utf8_start (w1 # w2 # w3 # w4 # ws)
      = utf8_run 3 h (if h = 0 then 0x90 else 0x80) (if h = 4 then 0x8F else 0xBF) (w2 # w3 # w4 # ws)"
    using utf8_run_first(4) [of w1 "w2 # w3 # w4 # ws"] assms by simp
  also have "\<dots> = utf8_run 2 (h * 64 + m) 0x80 0xBF (w3 # w4 # ws)"
    using utf8_run_next(1) [OF lo hi, of 3] assms(2) by simp
  also have "\<dots> = utf8_run 1 ((h * 64 + m) * 64 + k) 0x80 0xBF (w4 # ws)"
    using utf8_run_next(1) [of "0x80" w3 "0xBF" 2 "h * 64 + m" "w4 # ws"] assms by simp
  also have "\<dots> = (((h * 64 + m) * 64 + k) * 64 + l) # utf8_start ws"
    using utf8_run_next(2) [of "0x80" w4 "0xBF" "(h * 64 + m) * 64 + k" ws] assms by simp
  finally show ?thesis .
qed

lemma utf8_start_symbol:
  assumes "is_scalar c"
  shows "utf8_start (utf8_symbol c @ ws) = c # utf8_start ws"
proof -
  have ns: "\<not> is_surrogate c" and lt: "c < 0x110000"
    using assms by (simp_all add: is_scalar_def)
  consider "c < 0x80" | "0x80 \<le> c" "c < 0x800" | "0x800 \<le> c" "c < 0x10000" | "0x10000 \<le> c"
    by linarith
  then show ?thesis
  proof cases
    case 1
    then show ?thesis
      using utf8_run_first(1) [of "word_of_nat c" ws] by (simp add: unat_small_byte)
  next
    case 2
    have "utf8_start (word_of_nat (0xC0 + c div 64) # word_of_nat (0x80 + c mod 64) # ws)
        = (c div 64 * 64 + c mod 64) # utf8_start ws"
      by (rule utf8_run_two; (rule unat_small_byte)?; use 2 in linarith)
    then show ?thesis
      using 2 ns by (simp add: utf8_symbol_def base64_digits del: of_nat_add)
  next
    case 3
    have lo: "32 \<le> c div 64 mod 64" if "c div 4096 = 0"
    proof -
      from that have "c div 64 div 64 = 0" by (simp add: div_mult2_eq [symmetric])
      with 3 show ?thesis by (auto simp: div_eq_0_iff)
    qed
    have hi: "c div 64 mod 64 < 32" if "c div 4096 = 13"
    proof -
      have "c div 64 div 64 = 13" using that by (simp add: div_mult2_eq [symmetric])
      then have "c div 64 = 13 * 64 + c div 64 mod 64" using div_mult_mod_eq [of "c div 64" 64] by simp
      moreover have "c < 0xD800" using that ns by (simp add: is_surrogate_def) linarith
      ultimately show ?thesis by linarith
    qed
    have "utf8_start (word_of_nat (0xE0 + c div 4096) # word_of_nat (0x80 + c div 64 mod 64)
          # word_of_nat (0x80 + c mod 64) # ws)
        = ((c div 4096 * 64 + c div 64 mod 64) * 64 + c mod 64) # utf8_start ws"
      by (rule utf8_run_three; (rule unat_small_byte)?; (erule lo hi)?; use 3 in linarith)
    then show ?thesis
      using 3 ns by (simp add: utf8_symbol_def base64_digits del: of_nat_add)
  next
    case 4
    have lo: "16 \<le> c div 4096 mod 64" if "c div 262144 = 0"
    proof -
      from that have "c div 4096 div 64 = 0" by (simp add: div_mult2_eq [symmetric])
      with 4 show ?thesis by (auto simp: div_eq_0_iff)
    qed
    have hi: "c div 4096 mod 64 < 16" if "c div 262144 = 4"
    proof -
      have "c div 4096 div 64 = 4" using that by (simp add: div_mult2_eq [symmetric])
      then have "c div 4096 = 4 * 64 + c div 4096 mod 64"
        using div_mult_mod_eq [of "c div 4096" 64] by simp
      with lt show ?thesis by linarith
    qed
    have "utf8_start (word_of_nat (0xF0 + c div 262144) # word_of_nat (0x80 + c div 4096 mod 64)
          # word_of_nat (0x80 + c div 64 mod 64) # word_of_nat (0x80 + c mod 64) # ws)
        = (((c div 262144 * 64 + c div 4096 mod 64) * 64 + c div 64 mod 64) * 64 + c mod 64)
            # utf8_start ws"
      by (rule utf8_run_four; (rule unat_small_byte)?; (erule lo hi)?; use 4 lt in linarith)
    then show ?thesis
      using 4 ns by (simp add: utf8_symbol_def base64_digits del: of_nat_add)
  qed
qed

lemma utf8_start_encode:
  "\<forall>c \<in> set s. is_scalar c \<Longrightarrow> utf8_start (utf8_encode s @ ws) = s @ utf8_start ws"
  by (induction s) (auto simp: utf8_start_symbol)

text \<open>Text without lone surrogates survives the wire, up to a byte order mark in front.\<close>

definition well_formed_text :: "js_string \<Rightarrow> bool" where
  "well_formed_text s \<longleftrightarrow> (\<forall>c \<in> set s. is_scalar c) \<and> (case s of [] \<Rightarrow> True | c # _ \<Rightarrow> c \<noteq> 0xFEFF)"

lemma utf8_decode_encode:
  "well_formed_text s \<Longrightarrow> utf8_decode (utf8_encode s) = s"
  using utf8_start_encode [of s "[]"]
  by (auto simp: well_formed_text_def utf8_decode_def split: list.splits)

lemma utf8_decode_bom:
  "\<forall>c \<in> set s. is_scalar c \<Longrightarrow> utf8_decode (utf8_encode (0xFEFF # s)) = s"
  using utf8_start_encode [of "0xFEFF # s" "[]"]
  by (simp add: utf8_decode_def is_scalar_def is_surrogate_def del: utf8_encode_simps)

end
