(* ===== verification/Capsule_Parts.thy ===== *)
theory Capsule_Parts
  imports Utf8
begin

text \<open>
  How a message is cut into capsules: the first half of
  \<^verbatim>\<open>src/web/capsule-part-policy.mjs\<close>. A capsule carries one of six useful sizes;
  text is cut between symbols, bytes anywhere, and every part is given the smallest
  capsule that holds it with its overhead.
\<close>

section \<open>Sizes\<close>

definition SINGLE_CAPSULE_USEFUL_BYTES :: nat where
  "SINGLE_CAPSULE_USEFUL_BYTES = 1024"

definition MAX_MESSAGE_PARTS :: nat where
  "MAX_MESSAGE_PARTS = 8"

definition CAPSULE_USEFUL_SIZE_BYTES :: "nat list" where
  "CAPSULE_USEFUL_SIZE_BYTES = [1024, 2048, 4096, 8192, 16384, 32768]"

definition MAX_CAPSULE_USEFUL_BYTES :: nat where
  "MAX_CAPSULE_USEFUL_BYTES = CAPSULE_USEFUL_SIZE_BYTES ! (length CAPSULE_USEFUL_SIZE_BYTES - 1)"

lemmas capsule_sizes = SINGLE_CAPSULE_USEFUL_BYTES_def CAPSULE_USEFUL_SIZE_BYTES_def

lemma MAX_CAPSULE_USEFUL_BYTES [simp]: "MAX_CAPSULE_USEFUL_BYTES = 32768"
  by (simp add: MAX_CAPSULE_USEFUL_BYTES_def CAPSULE_USEFUL_SIZE_BYTES_def)

definition utf8ByteLength :: "js_string \<Rightarrow> nat" where
  "utf8ByteLength s = length (utf8_encode s)"

lemma utf8ByteLength_simps [simp]:
  "utf8ByteLength [] = 0"
  "utf8ByteLength (c # s) = utf8ByteLength [c] + utf8ByteLength s"
  "utf8ByteLength (s @ t) = utf8ByteLength s + utf8ByteLength t"
  by (simp_all add: utf8ByteLength_def)

declare utf8ByteLength_simps(2) [simp del]

lemma utf8ByteLength_Cons: "utf8ByteLength (c # s) = utf8ByteLength [c] + utf8ByteLength s"
  by (rule utf8ByteLength_simps(2))

lemma utf8ByteLength_symbol: "1 \<le> utf8ByteLength [c]" "utf8ByteLength [c] \<le> 4"
  using utf8_symbol_length [of c] by (simp_all add: utf8ByteLength_def)

section \<open>Truncation\<close>

fun truncate_loop :: "nat \<Rightarrow> js_string \<Rightarrow> nat \<Rightarrow> js_string \<Rightarrow> js_string" where
  "truncate_loop maxBytes output usedBytes [] = output"
| "truncate_loop maxBytes output usedBytes (symbol # rest) =
     (let symbolBytes = utf8ByteLength [symbol] in
      if usedBytes + symbolBytes > maxBytes then output
      else truncate_loop maxBytes (output @ [symbol]) (usedBytes + symbolBytes) rest)"

definition truncateUtf8ToBytes :: "js_string \<Rightarrow> js_num \<Rightarrow> js_string res" where
  "truncateUtf8ToBytes text maxBytes =
     guard (isSafeInteger maxBytes \<and> \<not> intOf maxBytes < 0)
       (JsError ''maxBytes must be a non-negative safe integer'')
       (Inr (truncate_loop (nat (intOf maxBytes)) [] 0 text))"

text \<open>The same with the constant limits the codecs pass, where the guard holds.\<close>

definition truncated :: "nat \<Rightarrow> js_string \<Rightarrow> js_string" where
  "truncated maxBytes text = truncate_loop maxBytes [] 0 text"

lemma truncateUtf8ToBytes_const:
  "int n \<le> MAX_SAFE_INTEGER \<Longrightarrow> truncateUtf8ToBytes text (js_of_nat n) = Inr (truncated n text)"
  by (simp add: truncateUtf8ToBytes_def truncated_def js_of_nat_def)

lemma truncate_loop_prefix:
  "used \<le> maxBytes \<Longrightarrow> \<exists>s t. text = s @ t \<and> truncate_loop maxBytes out used text = out @ s
     \<and> used + utf8ByteLength s \<le> maxBytes
     \<and> (\<forall>c t'. t = c # t' \<longrightarrow> maxBytes < used + utf8ByteLength (s @ [c]))"
proof (induction maxBytes out used "text" rule: truncate_loop.induct)
  case (1 maxBytes out used)
  then show ?case by auto
next
  case (2 maxBytes out used c s0)
  show ?case
  proof (cases "used + utf8ByteLength [c] > maxBytes")
    case True
    with "2.prems" show ?thesis by (intro exI [of _ "[]"] exI [of _ "c # s0"]) auto
  next
    case False
    then obtain s t where "s0 = s @ t"
      "truncate_loop maxBytes (out @ [c]) (used + utf8ByteLength [c]) s0 = out @ [c] @ s"
      "used + utf8ByteLength [c] + utf8ByteLength s \<le> maxBytes"
      "\<forall>d t'. t = d # t' \<longrightarrow> maxBytes < used + utf8ByteLength [c] + utf8ByteLength (s @ [d])"
      using "2.IH" [OF refl False] by auto
    with False show ?thesis
      by (intro exI [of _ "c # s"] exI [of _ t]) (auto simp: Let_def utf8ByteLength_Cons [of c s] utf8ByteLength_Cons [of c "s @ [d]" for d])
  qed
qed

lemma truncated_spec:
  obtains t where "text = truncated n text @ t" "utf8ByteLength (truncated n text) \<le> n"
    "\<And>c t'. t = c # t' \<Longrightarrow> n < utf8ByteLength (truncated n text @ [c])"
  using truncate_loop_prefix [of 0 n "text" "[]"] unfolding truncated_def by auto

lemma truncated_le: "utf8ByteLength (truncated n text) \<le> n"
  by (rule truncated_spec [of "text" n])

lemma truncated_id: "utf8ByteLength text \<le> n \<Longrightarrow> truncated n text = text"
proof (rule truncated_spec [of "text" n])
  fix t assume le: "utf8ByteLength text \<le> n" and tx: "text = truncated n text @ t"
    and cut: "\<And>c t'. t = c # t' \<Longrightarrow> n < utf8ByteLength (truncated n text @ [c])"
  show "truncated n text = text"
  proof (cases t)
    case Nil
    with tx show ?thesis by simp
  next
    case (Cons c t')
    have "utf8ByteLength text = utf8ByteLength (truncated n text @ [c]) + utf8ByteLength t'"
      using tx Cons by (metis append.assoc append_Cons append_Nil utf8ByteLength_simps(3))
    with cut [OF Cons] le show ?thesis by simp
  qed
qed

lemma truncated_idem [simp]: "truncated n (truncated n text) = truncated n text"
  by (rule truncated_id [OF truncated_le])

lemma truncated_set: "set (truncated n text) \<subseteq> set text"
  by (rule truncated_spec [of "text" n]) (metis Un_upper1 set_append)

lemma well_formed_truncated:
  assumes "well_formed_text s"
  shows "well_formed_text (truncated n s)"
proof -
  have "\<forall>c \<in> set (truncated n s). is_scalar c"
    using assms truncated_set [of n s] by (auto simp: well_formed_text_def)
  moreover have "case truncated n s of [] \<Rightarrow> True | c # _ \<Rightarrow> c \<noteq> 0xFEFF"
    by (rule truncated_spec [of s n]) (use assms in \<open>auto simp: well_formed_text_def split: list.splits\<close>)
  ultimately show ?thesis by (simp add: well_formed_text_def)
qed

lemma length_utf8_truncated: "length (utf8_encode (truncated n s)) \<le> n"
  using truncated_le [of n s] by (simp add: utf8ByteLength_def)

lemma decode_truncated [simp]:
  "well_formed_text s \<Longrightarrow> truncated n (utf8_decode (utf8_encode (truncated n s))) = truncated n s"
  by (simp add: utf8_decode_encode well_formed_truncated)

section \<open>How many parts, and which capsule\<close>

definition messagePartCountForBytes :: "js_num \<Rightarrow> js_num \<Rightarrow> int res" where
  "messagePartCountForBytes byteLength partBytes =
     guard (isSafeInteger partBytes \<and> \<not> intOf partBytes \<le> 0)
       (JsError ''partBytes must be a positive safe integer'')
       (case byteLength of
          Fin len \<Rightarrow> Inr (if len \<le> 0 then 1 else max 1 \<lceil>len / of_int (intOf partBytes)\<rceil>)
        | _ \<Rightarrow> Inr 1)"

definition capsuleSizeClassForUsefulBytes :: "nat \<Rightarrow> nat res" where
  "capsuleSizeClassForUsefulBytes usefulBytes =
     guard (usefulBytes \<in> set CAPSULE_USEFUL_SIZE_BYTES) (JsError ''unsupported capsule useful byte size'')
       (Inr (usefulBytes div SINGLE_CAPSULE_USEFUL_BYTES))"

fun first_fitting :: "rat \<Rightarrow> nat list \<Rightarrow> nat" where
  "first_fitting len [] = MAX_CAPSULE_USEFUL_BYTES"
| "first_fitting len (usefulBytes # rest) =
     (if len \<le> of_nat usefulBytes then usefulBytes else first_fitting len rest)"

definition minimalCapsuleUsefulBytesForLength :: "js_num \<Rightarrow> nat" where
  "minimalCapsuleUsefulBytesForLength byteLength =
     (case byteLength of
        Fin len \<Rightarrow> if len \<le> 0 then SINGLE_CAPSULE_USEFUL_BYTES
                   else first_fitting len CAPSULE_USEFUL_SIZE_BYTES
      | _ \<Rightarrow> SINGLE_CAPSULE_USEFUL_BYTES)"

definition messagePartCount :: "js_string \<Rightarrow> js_num \<Rightarrow> int res" where
  "messagePartCount text partBytes =
     messagePartCountForBytes (js_of_nat (utf8ByteLength text)) partBytes"

lemma minimalCapsule_mem: "minimalCapsuleUsefulBytesForLength n \<in> set CAPSULE_USEFUL_SIZE_BYTES"
  by (simp add: minimalCapsuleUsefulBytesForLength_def capsule_sizes split: js_num.split)

lemma minimalCapsule_nat:
  "minimalCapsuleUsefulBytesForLength (js_of_nat n) =
     (if n \<le> 1024 then 1024 else if n \<le> 2048 then 2048 else if n \<le> 4096 then 4096
      else if n \<le> 8192 then 8192 else if n \<le> 16384 then 16384 else 32768)"
  by (simp add: minimalCapsuleUsefulBytesForLength_def js_of_nat_def capsule_sizes)

lemma minimalCapsule_fits:
  "n \<le> MAX_CAPSULE_USEFUL_BYTES \<Longrightarrow> n \<le> minimalCapsuleUsefulBytesForLength (js_of_nat n)"
  by (simp add: minimalCapsule_nat)

lemma minimalCapsule_least:
  "u \<in> set CAPSULE_USEFUL_SIZE_BYTES \<Longrightarrow> n \<le> u \<Longrightarrow>
     minimalCapsuleUsefulBytesForLength (js_of_nat n) \<le> u"
  by (auto simp: minimalCapsule_nat capsule_sizes)


section \<open>Cutting text\<close>

fun split_loop :: "nat \<Rightarrow> js_string list \<Rightarrow> js_string \<Rightarrow> nat \<Rightarrow> js_string \<Rightarrow> js_string list res" where
  "split_loop partBytes parts current usedBytes [] =
     Inr (if current \<noteq> [] \<or> parts = [] then parts @ [current] else parts)"
| "split_loop partBytes parts current usedBytes (symbol # rest) =
     (let symbolBytes = utf8ByteLength [symbol] in
      if symbolBytes > partBytes then Inl (JsError ''single UTF-8 symbol exceeds part size'')
      else if usedBytes + symbolBytes > partBytes then
        split_loop partBytes (parts @ [current]) [symbol] symbolBytes rest
      else split_loop partBytes parts (current @ [symbol]) (usedBytes + symbolBytes) rest)"

definition splitUtf8ToParts :: "js_string \<Rightarrow> js_num \<Rightarrow> js_string list res" where
  "splitUtf8ToParts text partBytes =
     guard (isSafeInteger partBytes \<and> \<not> intOf partBytes \<le> 0)
       (JsError ''partBytes must be a positive safe integer'')
       (if text = [] then Inr [[]] else split_loop (nat (intOf partBytes)) [] [] 0 text)"

record text_part =
  tp_text :: js_string
  tp_bytes :: bytes
  tp_usefulBytes :: nat
  tp_sizeClass :: nat

definition text_part_for :: "nat \<Rightarrow> nat \<Rightarrow> js_string \<Rightarrow> text_part res" where
  "text_part_for overheadBytes usedBytes current =
     (let usefulBytes = minimalCapsuleUsefulBytesForLength (js_of_nat (usedBytes + overheadBytes)) in
      andThen (capsuleSizeClassForUsefulBytes usefulBytes) (\<lambda>sizeClass.
        Inr \<lparr>tp_text = current, tp_bytes = utf8_encode current, tp_usefulBytes = usefulBytes,
             tp_sizeClass = sizeClass\<rparr>))"

fun capsule_loop ::
  "nat \<Rightarrow> nat \<Rightarrow> text_part list \<Rightarrow> js_string \<Rightarrow> nat \<Rightarrow> js_string \<Rightarrow> text_part list res" where
  "capsule_loop maxContentBytes overheadBytes parts current usedBytes [] =
     (if current \<noteq> [] \<or> parts = [] then
        andThen (text_part_for overheadBytes usedBytes current) (\<lambda>p. Inr (parts @ [p]))
      else Inr parts)"
| "capsule_loop maxContentBytes overheadBytes parts current usedBytes (symbol # rest) =
     (let symbolBytes = utf8ByteLength [symbol] in
      if symbolBytes > maxContentBytes then Inl (JsError ''single UTF-8 symbol exceeds capsule size'')
      else if usedBytes + symbolBytes > maxContentBytes then
        andThen (text_part_for overheadBytes usedBytes current) (\<lambda>p.
          capsule_loop maxContentBytes overheadBytes (parts @ [p]) [symbol] symbolBytes rest)
      else capsule_loop maxContentBytes overheadBytes parts (current @ [symbol])
             (usedBytes + symbolBytes) rest)"

text \<open>\<open>Number(x) || d\<close> on a number, and \<open>Math.min\<close> with a finite bound.\<close>

fun num_or :: "js_num \<Rightarrow> nat \<Rightarrow> js_num" where
  "num_or NaN d = js_of_nat d"
| "num_or (Fin r) d = (if r = 0 then js_of_nat d else Fin r)"
| "num_or n d = n"

fun num_min_nat :: "js_num \<Rightarrow> nat \<Rightarrow> js_num" where
  "num_min_nat (Fin r) d = Fin (min r (of_nat d))"
| "num_min_nat PosInf d = js_of_nat d"
| "num_min_nat n d = n"

text \<open>The options object: the overhead under either of its names, or neither.\<close>

record overhead_options =
  perPartOverheadBytes :: "js_num option"
  overheadBytes_alias :: "js_num option"

definition normalizePerPartOverheadBytes :: "overhead_options \<Rightarrow> nat res" where
  "normalizePerPartOverheadBytes options =
     (let overhead = (case perPartOverheadBytes options of
                        Some n \<Rightarrow> n
                      | None \<Rightarrow> (case overheadBytes_alias options of Some n \<Rightarrow> n | None \<Rightarrow> js_of_nat 0))
      in guard (isSafeInteger overhead \<and> \<not> intOf overhead < 0)
           (JsError ''perPartOverheadBytes must be a non-negative safe integer'')
           (Inr (nat (intOf overhead))))"

text \<open>The checks both capsule splitters start with: the content bytes of one part and its overhead.\<close>

definition capsule_limits :: "js_num \<Rightarrow> overhead_options \<Rightarrow> (nat \<times> nat) res" where
  "capsule_limits maxPartBytes options =
     (let maxBytes = num_min_nat (num_or maxPartBytes MAX_CAPSULE_USEFUL_BYTES) MAX_CAPSULE_USEFUL_BYTES in
      guard (isSafeInteger maxBytes \<and> \<not> intOf maxBytes \<le> 0)
        (JsError ''maxPartBytes must be a positive safe integer'')
        (andThen (normalizePerPartOverheadBytes options) (\<lambda>overheadBytes.
          let maxContentBytes = intOf maxBytes - int overheadBytes in
          guard (\<not> maxContentBytes \<le> 0) (JsError ''per-part overhead exceeds capsule size'')
            (Inr (nat maxContentBytes, overheadBytes)))))"

definition splitUtf8ToCapsuleParts :: "js_string \<Rightarrow> js_num \<Rightarrow> overhead_options \<Rightarrow> text_part list res" where
  "splitUtf8ToCapsuleParts text maxPartBytes options =
     andThen (capsule_limits maxPartBytes options) (\<lambda>(maxContentBytes, overheadBytes).
       if text = [] then andThen (text_part_for overheadBytes 0 []) (\<lambda>p. Inr [p])
       else capsule_loop maxContentBytes overheadBytes [] [] 0 text)"

text \<open>
  The reference both loops implement: cut greedily, starting a new part at the first
  symbol that does not fit.
\<close>

fun cuts :: "nat \<Rightarrow> js_string \<Rightarrow> nat \<Rightarrow> js_string \<Rightarrow> js_string list" where
  "cuts limit current used [] = [current]"
| "cuts limit current used (c # s) =
     (if used + utf8ByteLength [c] > limit then current # cuts limit [c] (utf8ByteLength [c]) s
      else cuts limit (current @ [c]) (used + utf8ByteLength [c]) s)"

definition symbols_fit :: "nat \<Rightarrow> js_string \<Rightarrow> bool" where
  "symbols_fit limit s \<longleftrightarrow> (\<forall>c \<in> set s. utf8ByteLength [c] \<le> limit)"

lemma symbols_fit_Cons [simp]:
  "symbols_fit limit (c # s) \<longleftrightarrow> utf8ByteLength [c] \<le> limit \<and> symbols_fit limit s"
  by (simp add: symbols_fit_def)

lemma symbols_fit_4: "4 \<le> limit \<Longrightarrow> symbols_fit limit s"
  using utf8ByteLength_symbol(2) order_trans unfolding symbols_fit_def by blast

lemma concat_cuts: "concat (cuts limit current used s) = current @ s"
  by (induction s arbitrary: current used) auto

lemma cuts_fit:
  "symbols_fit limit s \<Longrightarrow> utf8ByteLength current = used \<Longrightarrow> used \<le> limit \<Longrightarrow>
     p \<in> set (cuts limit current used s) \<Longrightarrow> utf8ByteLength p \<le> limit"
  by (induction s arbitrary: current used)
     (auto simp: not_less split: if_splits simp flip: utf8ByteLength_simps(3))

lemma cuts_nonempty:
  "current \<noteq> [] \<or> used = 0 \<and> s \<noteq> [] \<and> symbols_fit limit s \<Longrightarrow> [] \<notin> set (cuts limit current used s)"
  by (induction s arbitrary: current used) auto

text \<open>
  No partition of the text into fitting pieces has fewer of them. The competing partition
  may start earlier (by \<open>t\<close>) than the part being filled.
\<close>

lemma cuts_fewest:
  assumes "concat qs = t @ current @ s" "\<forall>q \<in> set qs. utf8ByteLength q \<le> limit"
    and "utf8ByteLength current = used" "current @ s \<noteq> []"
  shows "length (cuts limit current used s) \<le> length qs"
  using assms
proof (induction s arbitrary: qs t current used)
  case Nil
  then show ?case by (cases qs) auto
next
  case (Cons c s)
  show ?case
  proof (cases "used + utf8ByteLength [c] > limit")
    case False
    then show ?thesis
      using Cons.IH [of qs t "current @ [c]" "used + utf8ByteLength [c]"] Cons.prems by simp
  next
    case True
    obtain q qs' where qs: "qs = q # qs'"
      using Cons.prems(1) by (cases qs) auto
    have "\<exists>u. q @ u = t @ current"
    proof (rule ccontr)
      assume none: "\<nexists>u. q @ u = t @ current"
      have "q @ concat qs' = (t @ current) @ c # s" using Cons.prems(1) qs by simp
      then obtain u where u: "q = (t @ current) @ u" "u @ concat qs' = c # s"
        using none by (auto simp: append_eq_append_conv2 simp del: append_assoc)
      then have "u \<noteq> []" using none by (metis append_Nil2)
      with u(2) obtain u' where "u = c # u'" by (cases u) auto
      with u(1) have "utf8ByteLength q \<ge> used + utf8ByteLength [c]"
        using Cons.prems(3) utf8ByteLength_Cons [of c u'] by simp
      with True Cons.prems(2) qs show False by simp
    qed
    then obtain u where "q @ u = t @ current" ..
    then have "concat qs' = u @ [c] @ s"
      using Cons.prems(1) qs by (metis append.assoc append_Cons append_Nil concat.simps(2) same_append_eq)
    then have "length (cuts limit [c] (utf8ByteLength [c]) s) \<le> length qs'"
      using Cons.prems(2) qs by (intro Cons.IH) auto
    with True qs show ?thesis by simp
  qed
qed

lemma split_loop_cuts:
  "symbols_fit limit s \<Longrightarrow> current \<noteq> [] \<or> s \<noteq> [] \<or> parts = [] \<Longrightarrow>
     split_loop limit parts current used s = Inr (parts @ cuts limit current used s)"
  by (induction s arbitrary: parts current used) (auto simp: Let_def)

lemma split_loop_error:
  "\<not> symbols_fit limit s \<Longrightarrow>
     split_loop limit parts current used s = Inl (JsError ''single UTF-8 symbol exceeds part size'')"
  by (induction s arbitrary: parts current used) (auto simp: Let_def symbols_fit_def)

text \<open>A capsule's record is determined by its text and the overhead.\<close>

definition text_part_of :: "nat \<Rightarrow> js_string \<Rightarrow> text_part" where
  "text_part_of ov s =
     (let u = minimalCapsuleUsefulBytesForLength (js_of_nat (utf8ByteLength s + ov)) in
      \<lparr>tp_text = s, tp_bytes = utf8_encode s, tp_usefulBytes = u, tp_sizeClass = u div 1024\<rparr>)"

lemma text_part_for [simp]:
  "utf8ByteLength current = used \<Longrightarrow> text_part_for ov used current = Inr (text_part_of ov current)"
  by (simp add: text_part_for_def text_part_of_def Let_def capsuleSizeClassForUsefulBytes_def
      minimalCapsule_mem SINGLE_CAPSULE_USEFUL_BYTES_def)

lemma capsule_loop_cuts:
  "symbols_fit limit s \<Longrightarrow> utf8ByteLength current = used \<Longrightarrow> current \<noteq> [] \<or> s \<noteq> [] \<or> parts = [] \<Longrightarrow>
     capsule_loop limit ov parts current used s
       = Inr (parts @ map (text_part_of ov) (cuts limit current used s))"
  by (induction s arbitrary: parts current used)
     (auto simp: Let_def simp flip: utf8ByteLength_simps(3))

lemma capsule_loop_error:
  "\<not> symbols_fit limit s \<Longrightarrow> utf8ByteLength current = used \<Longrightarrow>
     capsule_loop limit ov parts current used s = Inl (JsError ''single UTF-8 symbol exceeds capsule size'')"
proof (induction s arbitrary: parts current used)
  case (Cons c s)
  show ?case
  proof (cases "limit < utf8ByteLength [c]")
    case False
    then have "\<not> symbols_fit limit s" using Cons.prems(1) by simp
    with False Cons.prems(2) show ?thesis by (simp add: Let_def Cons.IH)
  qed (simp add: Let_def)
qed (simp add: symbols_fit_def)


section \<open>Cutting bytes\<close>

text \<open>
  The guard \<open>0 < partBytes\<close> is the one the callers have thrown on; with it the offset
  grows at every turn.
\<close>

function split_bytes_loop :: "nat \<Rightarrow> bytes \<Rightarrow> nat \<Rightarrow> bytes list" where
  "split_bytes_loop partBytes bytes offset =
     (if offset < length bytes \<and> 0 < partBytes then
        slice offset (min (length bytes) (offset + partBytes)) bytes
          # split_bytes_loop partBytes bytes (offset + partBytes)
      else [])"
  by pat_completeness auto
termination
  by (relation "measure (\<lambda>(partBytes, bytes, offset). length bytes - offset)") auto

declare split_bytes_loop.simps [simp del]

definition splitBytesToParts :: "bytes \<Rightarrow> js_num \<Rightarrow> bytes list res" where
  "splitBytesToParts bytes partBytes =
     guard (isSafeInteger partBytes \<and> \<not> intOf partBytes \<le> 0)
       (JsError ''partBytes must be a positive safe integer'')
       (Inr (if bytes = [] then [[]] else split_bytes_loop (nat (intOf partBytes)) bytes 0))"

record byte_part =
  bp_bytes :: bytes
  bp_usefulBytes :: nat
  bp_sizeClass :: nat

definition capsulePart :: "bytes \<Rightarrow> nat \<Rightarrow> byte_part res" where
  "capsulePart bytes usefulBytes =
     andThen (capsuleSizeClassForUsefulBytes usefulBytes) (\<lambda>sizeClass.
       Inr \<lparr>bp_bytes = bytes, bp_usefulBytes = usefulBytes, bp_sizeClass = sizeClass\<rparr>)"

function capsule_bytes_loop :: "nat \<Rightarrow> nat \<Rightarrow> bytes \<Rightarrow> nat \<Rightarrow> byte_part list res" where
  "capsule_bytes_loop maxContentBytes overheadBytes bytes offset =
     (if offset < length bytes \<and> 0 < maxContentBytes then
        (let remaining = length bytes - offset;
             taken = min maxContentBytes remaining;
             last = offset + taken;
             usefulBytes = minimalCapsuleUsefulBytesForLength (js_of_nat (taken + overheadBytes))
         in andThen (capsulePart (slice offset last bytes) usefulBytes) (\<lambda>p.
              andThen (capsule_bytes_loop maxContentBytes overheadBytes bytes last) (\<lambda>ps. Inr (p # ps))))
      else Inr [])"
  by pat_completeness auto
termination
  by (relation "measure (\<lambda>(maxContentBytes, overheadBytes, bytes, offset). length bytes - offset)") auto

declare capsule_bytes_loop.simps [simp del]

definition splitBytesToCapsuleParts :: "bytes \<Rightarrow> js_num \<Rightarrow> overhead_options \<Rightarrow> byte_part list res" where
  "splitBytesToCapsuleParts bytes maxPartBytes options =
     andThen (capsule_limits maxPartBytes options) (\<lambda>(maxContentBytes, overheadBytes).
       if bytes = [] then
         andThen (capsulePart [] (minimalCapsuleUsefulBytesForLength (js_of_nat overheadBytes)))
           (\<lambda>p. Inr [p])
       else capsule_bytes_loop maxContentBytes overheadBytes bytes 0)"

definition singleCapsuleMessageFits :: "js_string \<Rightarrow> bool \<Rightarrow> bool" where
  "singleCapsuleMessageFits text walletFunded \<longleftrightarrow>
     walletFunded \<or> utf8ByteLength text \<le> SINGLE_CAPSULE_USEFUL_BYTES"

lemma split_bytes_loop_chunks:
  "0 < n \<Longrightarrow> split_bytes_loop n bs offset = chunks n (drop offset bs)"
proof (induction n bs offset rule: split_bytes_loop.induct)
  case (1 n bs offset)
  show ?case
  proof (cases "offset < length bs")
    case True
    then show ?thesis
      using "1" by (subst split_bytes_loop.simps) (simp add: chunks_step slice_def min_def add.commute)
  next
    case False
    then show ?thesis by (simp add: split_bytes_loop.simps)
  qed
qed

definition byte_part_of :: "nat \<Rightarrow> bytes \<Rightarrow> byte_part" where
  "byte_part_of ov bs =
     (let u = minimalCapsuleUsefulBytesForLength (js_of_nat (length bs + ov)) in
      \<lparr>bp_bytes = bs, bp_usefulBytes = u, bp_sizeClass = u div 1024\<rparr>)"

lemma capsulePart [simp]:
  "capsulePart bs (minimalCapsuleUsefulBytesForLength (js_of_nat n)) =
     Inr \<lparr>bp_bytes = bs, bp_usefulBytes = minimalCapsuleUsefulBytesForLength (js_of_nat n),
          bp_sizeClass = minimalCapsuleUsefulBytesForLength (js_of_nat n) div 1024\<rparr>"
  by (simp add: capsulePart_def capsuleSizeClassForUsefulBytes_def minimalCapsule_mem
      SINGLE_CAPSULE_USEFUL_BYTES_def)

lemma capsule_bytes_loop_chunks:
  "0 < n \<Longrightarrow> capsule_bytes_loop n ov bs offset = Inr (map (byte_part_of ov) (chunks n (drop offset bs)))"
proof (induction n ov bs offset rule: capsule_bytes_loop.induct)
  case (1 n ov bs offset)
  show ?case
  proof (cases "offset < length bs")
    case True
    define taken where "taken = min n (length bs - offset)"
    have "slice offset (offset + taken) bs = take n (drop offset bs)"
      "length (take n (drop offset bs)) = taken" "drop (offset + taken) bs = drop n (drop offset bs)"
      by (auto simp: slice_def taken_def min_def add.commute)
    then show ?thesis
      using "1.IH" [OF _ refl refl refl refl] "1.prems" True
      by (subst capsule_bytes_loop.simps) (simp add: Let_def chunks_step byte_part_of_def flip: taken_def)
  next
    case False
    then show ?thesis by (simp add: capsule_bytes_loop.simps)
  qed
qed

section \<open>The contract of a splitter\<close>

text \<open>
  What the publishing code relies on, whichever splitter it calls: the pieces join back
  to the message, in order, and each fits. Two messages cut into the same pieces are the
  same message, and the number of pieces is at least the message's weight over the limit.
\<close>

locale splitter =
  fixes split :: "'a list \<Rightarrow> 'e + 'p list"
    and content :: "'p \<Rightarrow> 'a list"
    and weight :: "'a list \<Rightarrow> nat"
    and limit :: nat
  assumes joins: "split xs = Inr ps \<Longrightarrow> concat (map content ps) = xs"
    and fits: "split xs = Inr ps \<Longrightarrow> p \<in> set ps \<Longrightarrow> weight (content p) \<le> limit"
    and weight_Nil: "weight [] = 0"
    and weight_append: "weight (xs @ ys) = weight xs + weight ys"
begin

lemma split_injective: "split xs = Inr ps \<Longrightarrow> split ys = Inr ps \<Longrightarrow> xs = ys"
  using joins by metis

lemma weight_concat_le:
  "\<forall>p \<in> set ps. weight (content p) \<le> limit \<Longrightarrow> weight (concat (map content ps)) \<le> length ps * limit"
  by (induction ps) (auto simp: weight_Nil weight_append)

lemma enough_parts: "split xs = Inr ps \<Longrightarrow> weight xs \<le> length ps * limit"
  using weight_concat_le [of ps] joins [of xs ps] fits [of xs ps] by auto

end

text \<open>The limits of a call that passes the checks.\<close>

lemma capsule_limits_pos: "capsule_limits m opts = Inr (n, ov) \<Longrightarrow> 0 < n"
  by (auto simp: capsule_limits_def Let_def res_simps)

lemma capsule_limits_bound:
  assumes "capsule_limits m opts = Inr (n, ov)"
  shows "n + ov \<le> MAX_CAPSULE_USEFUL_BYTES"
proof -
  define b where "b = num_min_nat (num_or m MAX_CAPSULE_USEFUL_BYTES) MAX_CAPSULE_USEFUL_BYTES"
  have "intOf b \<le> 32768"
    unfolding b_def by (cases "num_or m MAX_CAPSULE_USEFUL_BYTES") (auto simp: js_of_nat_def floor_le_iff)
  then show ?thesis
    using assms unfolding capsule_limits_def Let_def b_def [symmetric] by (auto simp: res_simps)
qed

lemma splitUtf8ToParts_cuts:
  assumes "splitUtf8ToParts s m = Inr ps"
  defines "n \<equiv> nat (intOf m)"
  shows "0 < n" "ps = cuts n [] 0 s" "symbols_fit n s"
proof -
  have m: "isSafeInteger m" "0 < intOf m"
    and ps: "(if s = [] then Inr [[]] else split_loop n [] [] 0 s) = Inr ps"
    using assms by (auto simp: splitUtf8ToParts_def res_simps)
  show "0 < n" using m by (simp add: n_def)
  show "symbols_fit n s"
    using ps split_loop_error [of n s "[]" "[]" 0] by (cases "s = []") (auto simp: symbols_fit_def)
  then show "ps = cuts n [] 0 s"
    using ps split_loop_cuts [of n s "[]" "[]" 0] by (cases "s = []") auto
qed

lemma splitUtf8ToCapsuleParts_cuts:
  assumes "splitUtf8ToCapsuleParts s m opts = Inr ps" "capsule_limits m opts = Inr (n, ov)"
  shows "ps = map (text_part_of ov) (cuts n [] 0 s)" "symbols_fit n s"
proof -
  have ps: "(if s = [] then andThen (text_part_for ov 0 []) (\<lambda>p. Inr [p])
       else capsule_loop n ov [] [] 0 s) = Inr ps"
    using assms by (auto simp: splitUtf8ToCapsuleParts_def res_simps)
  show "symbols_fit n s"
    using ps capsule_loop_error [of n s "[]" 0 ov "[]"] by (cases "s = []") (auto simp: symbols_fit_def)
  then show "ps = map (text_part_of ov) (cuts n [] 0 s)"
    using ps capsule_loop_cuts [of n s "[]" 0 "[]" ov] by (cases "s = []") auto
qed

lemma splitBytesToCapsuleParts_chunks:
  assumes "splitBytesToCapsuleParts bs m opts = Inr ps" "capsule_limits m opts = Inr (n, ov)"
  shows "ps = map (byte_part_of ov) (if bs = [] then [[]] else chunks n bs)"
  using assms capsule_limits_pos [OF assms(2)]
  by (auto simp: splitBytesToCapsuleParts_def res_simps capsule_bytes_loop_chunks byte_part_of_def Let_def
      split: if_splits)

interpretation text_parts: splitter "\<lambda>s. splitUtf8ToParts s m" "\<lambda>p. p" utf8ByteLength "nat (intOf m)"
  for m
proof unfold_locales
  fix s ps
  assume sp: "splitUtf8ToParts s m = Inr ps"
  note cut = splitUtf8ToParts_cuts [OF sp]
  show "concat (map (\<lambda>p. p) ps) = s" by (simp add: cut(2) concat_cuts)
  show "utf8ByteLength p \<le> nat (intOf m)" if "p \<in> set ps" for p
    using that cut(3) by (auto simp: cut(2) intro!: cuts_fit [where s = s and current = "[]" and used = 0])
qed auto

lemma tp_text_part_of [simp]: "tp_text (text_part_of ov s) = s"
  by (simp add: text_part_of_def Let_def)

lemma bp_bytes_part_of [simp]: "bp_bytes (byte_part_of ov bs) = bs"
  by (simp add: byte_part_of_def Let_def)

interpretation capsule_texts: splitter
  "\<lambda>s. andThen (capsule_limits m opts) (\<lambda>_. splitUtf8ToCapsuleParts s m opts)" tp_text utf8ByteLength
  "case capsule_limits m opts of Inr (n, ov) \<Rightarrow> n | _ \<Rightarrow> 0" for m opts
proof unfold_locales
  fix s ps
  assume "andThen (capsule_limits m opts) (\<lambda>_. splitUtf8ToCapsuleParts s m opts) = Inr ps"
  then obtain n ov where lim: "capsule_limits m opts = Inr (n, ov)"
    and sp: "splitUtf8ToCapsuleParts s m opts = Inr ps"
    by (auto simp: res_simps)
  note cut = splitUtf8ToCapsuleParts_cuts [OF sp lim]
  show "concat (map tp_text ps) = s" by (simp add: cut(1) comp_def concat_cuts)
  show "utf8ByteLength (tp_text p) \<le> (case capsule_limits m opts of Inr (n, ov) \<Rightarrow> n | _ \<Rightarrow> 0)"
    if "p \<in> set ps" for p
    using that cut(2) by (auto simp: lim cut(1) intro!: cuts_fit [where s = s and current = "[]" and used = 0])
qed auto

interpretation capsule_bytes: splitter
  "\<lambda>bs. andThen (capsule_limits m opts) (\<lambda>_. splitBytesToCapsuleParts bs m opts)" bp_bytes length
  "case capsule_limits m opts of Inr (n, ov) \<Rightarrow> n | _ \<Rightarrow> 0" for m opts
proof unfold_locales
  fix bs ps
  assume "andThen (capsule_limits m opts) (\<lambda>_. splitBytesToCapsuleParts bs m opts) = Inr ps"
  then obtain n ov where lim: "capsule_limits m opts = Inr (n, ov)"
    and sp: "splitBytesToCapsuleParts bs m opts = Inr ps"
    by (auto simp: res_simps)
  note cut = splitBytesToCapsuleParts_chunks [OF sp lim]
  show "concat (map bp_bytes ps) = bs"
    by (simp add: cut comp_def concat_chunks [OF capsule_limits_pos [OF lim]])
  show "length (bp_bytes p) \<le> (case capsule_limits m opts of Inr (n, ov) \<Rightarrow> n | _ \<Rightarrow> 0)"
    if "p \<in> set ps" for p
    using that by (auto simp: lim cut chunks_length_le split: if_splits)
qed auto

section \<open>Properties\<close>

text \<open>
  C24: a text split into capsules joins back to the text, symbol for symbol and in order; every
  part carries the UTF-8 bytes of its text, and its capsule is the smallest useful size that
  holds those bytes together with the per-part overhead.
\<close>

theorem splitUtf8ToCapsuleParts_correct:
  assumes "splitUtf8ToCapsuleParts s m opts = Inr ps"
    and "capsule_limits m opts = Inr (n, ov)"
  shows "concat (map tp_text ps) = s \<and>
    (\<forall>p \<in> set ps. tp_bytes p = utf8_encode (tp_text p)
       \<and> length (tp_bytes p) + ov \<le> tp_usefulBytes p
       \<and> tp_usefulBytes p \<in> set CAPSULE_USEFUL_SIZE_BYTES
       \<and> (\<forall>u \<in> set CAPSULE_USEFUL_SIZE_BYTES. length (tp_bytes p) + ov \<le> u \<longrightarrow> tp_usefulBytes p \<le> u)
       \<and> tp_usefulBytes p = 1024 * tp_sizeClass p)"
proof (intro conjI ballI)
  note cut = splitUtf8ToCapsuleParts_cuts [OF assms]
  show "concat (map tp_text ps) = s" by (simp add: cut(1) comp_def concat_cuts)
  fix p assume "p \<in> set ps"
  then obtain t where p: "p = text_part_of ov t" and t: "t \<in> set (cuts n [] 0 s)"
    by (auto simp: cut(1))
  have len: "utf8ByteLength t \<le> n" using cuts_fit [OF cut(2) _ _ t] by simp
  with capsule_limits_bound [OF assms(2)] have le: "utf8ByteLength t + ov \<le> MAX_CAPSULE_USEFUL_BYTES"
    by simp
  show "tp_bytes p = utf8_encode (tp_text p)" by (simp add: p text_part_of_def Let_def)
  show "length (tp_bytes p) + ov \<le> tp_usefulBytes p"
    using minimalCapsule_fits [OF le] by (simp add: p text_part_of_def Let_def utf8ByteLength_def)
  show mem: "tp_usefulBytes p \<in> set CAPSULE_USEFUL_SIZE_BYTES"
    by (simp add: p text_part_of_def Let_def minimalCapsule_mem)
  show "length (tp_bytes p) + ov \<le> u \<longrightarrow> tp_usefulBytes p \<le> u" if "u \<in> set CAPSULE_USEFUL_SIZE_BYTES" for u
    using minimalCapsule_least [OF that] by (simp add: p text_part_of_def Let_def utf8ByteLength_def)
  have "1024 dvd tp_usefulBytes p"
    using mem by (auto simp: CAPSULE_USEFUL_SIZE_BYTES_def)
  then show "tp_usefulBytes p = 1024 * tp_sizeClass p"
    by (simp add: p text_part_of_def Let_def)
qed

definition no_overhead :: overhead_options where
  "no_overhead = \<lparr>perPartOverheadBytes = None, overheadBytes_alias = None\<rparr>"

definition sample_overhead :: overhead_options where
  "sample_overhead = \<lparr>perPartOverheadBytes = Some (Fin 2), overheadBytes_alias = None\<rparr>"

lemma sample_limits: "capsule_limits (Fin 6) sample_overhead = Inr (4, 2)"
  by (simp add: capsule_limits_def normalizePerPartOverheadBytes_def sample_overhead_def Let_def
      MAX_SAFE_INTEGER_def js_of_nat_def)

theorem splitUtf8ToCapsuleParts_correct_witness:
  "\<exists>ps. splitUtf8ToCapsuleParts [0x1F600, 0x61, 0x62] (Fin 6) sample_overhead = Inr ps
     \<and> length ps = 2 \<and> concat (map tp_text ps) = [0x1F600, 0x61, 0x62]"
proof -
  obtain ps where ps: "splitUtf8ToCapsuleParts [0x1F600, 0x61, 0x62] (Fin 6) sample_overhead = Inr ps"
    and len: "length ps = 2"
    by (simp add: splitUtf8ToCapsuleParts_def sample_limits Let_def utf8ByteLength_def utf8_symbol_def
        is_surrogate_def)
  from splitUtf8ToCapsuleParts_correct [OF ps sample_limits] ps len show ?thesis by blast
qed

text \<open>
  Splitting text into capsules fails for no text at all once a part has room for one
  symbol, the four bytes of the longest UTF-8 sequence.
\<close>

theorem splitUtf8ToCapsuleParts_total:
  assumes "capsule_limits m opts = Inr (n, ov)" and "4 \<le> n"
  shows "\<exists>ps. splitUtf8ToCapsuleParts s m opts = Inr ps"
  using symbols_fit_4 [OF assms(2), of s]
  by (auto simp: splitUtf8ToCapsuleParts_def assms(1) capsule_loop_cuts)

theorem splitUtf8ToCapsuleParts_total_witness:
  "\<exists>ps. splitUtf8ToCapsuleParts [0x20AC, 0x1F600] (Fin 6) sample_overhead = Inr ps"
  using splitUtf8ToCapsuleParts_total [OF sample_limits] by simp

text \<open>
  C25: the greedy split is optimal: no way of cutting the text between symbols into pieces that
  fit uses fewer pieces than \<open>splitUtf8ToParts\<close> does.
\<close>

theorem splitUtf8ToParts_fewest:
  assumes "splitUtf8ToParts s m = Inr ps" and "s \<noteq> []"
    and "concat qs = s" and "\<forall>q \<in> set qs. int (utf8ByteLength q) \<le> intOf m"
  shows "length ps \<le> length qs"
proof -
  note cut = splitUtf8ToParts_cuts [OF assms(1)]
  have "\<forall>q \<in> set qs. utf8ByteLength q \<le> nat (intOf m)" using assms(4) by auto
  then show ?thesis
    using cuts_fewest [of qs "[]" "[]" s "nat (intOf m)" 0] assms(2,3) by (simp add: cut(2))
qed

theorem splitUtf8ToParts_fewest_witness:
  "\<exists>ps. splitUtf8ToParts [97, 0x20AC, 98] (Fin 4) = Inr ps \<and> length ps = 2
     \<and> length ps \<le> length [[97], [0x20AC], [98 :: nat]]"
proof -
  obtain ps where ps: "splitUtf8ToParts [97, 0x20AC, 98] (Fin 4) = Inr ps" and len: "length ps = 2"
    by (simp add: splitUtf8ToParts_def Let_def utf8ByteLength_def utf8_symbol_def is_surrogate_def
        MAX_SAFE_INTEGER_def)
  have "length ps \<le> length [[97], [0x20AC], [98 :: nat]]"
    by (rule splitUtf8ToParts_fewest [OF ps])
       (simp_all add: utf8ByteLength_def utf8_symbol_def is_surrogate_def)
  with ps len show ?thesis by blast
qed

text \<open>
  Truncation keeps the longest prefix that fits: the result is a prefix of the text, within
  the limit, and one more symbol of the text would exceed it.
\<close>

theorem truncateUtf8ToBytes_longest_prefix:
  assumes "truncateUtf8ToBytes s (js_of_int n) = Inr r"
  shows "\<exists>t. s = r @ t \<and> int (utf8ByteLength r) \<le> n
    \<and> (case t of [] \<Rightarrow> True | c # _ \<Rightarrow> n < int (utf8ByteLength (r @ [c])))"
proof -
  have n: "0 \<le> n" and r: "r = truncated (nat n) s"
    using assms by (auto simp: truncateUtf8ToBytes_def truncated_def res_simps js_of_int_def)
  obtain t where "s = truncated (nat n) s @ t" "utf8ByteLength (truncated (nat n) s) \<le> nat n"
    "\<And>c t'. t = c # t' \<Longrightarrow> nat n < utf8ByteLength (truncated (nat n) s @ [c])"
    using truncated_spec [of s "nat n"] by blast
  with n r show ?thesis by (intro exI [of _ t]) (fastforce split: list.split)
qed

theorem truncateUtf8ToBytes_longest_prefix_witness:
  "truncateUtf8ToBytes [97, 0x20AC, 98] (js_of_int 3) = Inr [97]
   \<and> (\<exists>t. [97, 0x20AC, 98] = [97] @ t \<and> int (utf8ByteLength [97]) \<le> 3
     \<and> (case t of [] \<Rightarrow> True | c # _ \<Rightarrow> 3 < int (utf8ByteLength ([97] @ [c]))))"
proof -
  have h: "truncateUtf8ToBytes [97, 0x20AC, 98] (js_of_int 3) = Inr [97]"
    by (simp add: truncateUtf8ToBytes_def js_of_int_def MAX_SAFE_INTEGER_def Let_def utf8ByteLength_def
        utf8_symbol_def is_surrogate_def)
  from truncateUtf8ToBytes_longest_prefix [OF h] h show ?thesis by blast
qed

text \<open>
  Bytes split into capsules join back to the bytes; there are as many parts as the length
  needs (one for no bytes at all), every part fits its capsule with the overhead, and the
  capsule is the smallest that does.
\<close>

theorem splitBytesToCapsuleParts_correct:
  assumes "splitBytesToCapsuleParts bs m opts = Inr ps"
    and "capsule_limits m opts = Inr (n, ov)"
  shows "concat (map bp_bytes ps) = bs
    \<and> length ps = max 1 ((length bs + n - 1) div n)
    \<and> (\<forall>p \<in> set ps. length (bp_bytes p) \<le> n \<and> length (bp_bytes p) + ov \<le> bp_usefulBytes p
        \<and> (\<forall>u \<in> set CAPSULE_USEFUL_SIZE_BYTES. length (bp_bytes p) + ov \<le> u \<longrightarrow> bp_usefulBytes p \<le> u))"
proof -
  have n: "0 < n" by (rule capsule_limits_pos [OF assms(2)])
  note cut = splitBytesToCapsuleParts_chunks [OF assms]
  have join: "concat (map bp_bytes ps) = bs" by (simp add: cut comp_def concat_chunks [OF n])
  have count: "length ps = max 1 ((length bs + n - 1) div n)"
  proof (cases "bs = []")
    case False
    then have "n \<le> length bs + n - 1" by (cases bs) auto
    then have "1 \<le> (length bs + n - 1) div n" using n by (simp add: Suc_le_eq div_greater_zero_iff)
    with False show ?thesis by (simp add: cut length_chunks [OF n])
  qed (use n in \<open>simp add: cut\<close>)
  have parts: "length (bp_bytes p) \<le> n \<and> length (bp_bytes p) + ov \<le> bp_usefulBytes p
        \<and> (\<forall>u \<in> set CAPSULE_USEFUL_SIZE_BYTES. length (bp_bytes p) + ov \<le> u \<longrightarrow> bp_usefulBytes p \<le> u)"
    if mem: "p \<in> set ps" for p
  proof -
    obtain c where p: "p = byte_part_of ov c" and c: "c \<in> set (if bs = [] then [[]] else chunks n bs)"
      using mem unfolding cut set_map by blast
    have len: "length c \<le> n" using c chunks_length_le by (auto split: if_splits)
    with capsule_limits_bound [OF assms(2)] have "length c + ov \<le> MAX_CAPSULE_USEFUL_BYTES" by simp
    from minimalCapsule_fits [OF this] len show ?thesis
      by (auto simp: p byte_part_of_def Let_def intro: minimalCapsule_least)
  qed
  from join count parts show ?thesis by blast
qed

theorem splitBytesToCapsuleParts_correct_witness:
  "\<exists>ps. splitBytesToCapsuleParts [1, 2, 3, 4, 5] (Fin 6) sample_overhead = Inr ps
     \<and> concat (map bp_bytes ps) = [1, 2, 3, 4, 5] \<and> length ps = 2"
proof -
  obtain ps where ps: "splitBytesToCapsuleParts [1, 2, 3, 4, 5] (Fin 6) sample_overhead = Inr ps"
    by (simp add: splitBytesToCapsuleParts_def sample_limits capsule_bytes_loop_chunks)
  from splitBytesToCapsuleParts_correct [OF ps sample_limits] ps show ?thesis by simp
qed

end
