(* ===== verification/Content_Blocks.thy ===== *)
theory Content_Blocks
  imports Capsule_Parts
begin

text \<open>
  The reply, file and share blocks of a message: the second half of
  \<^verbatim>\<open>src/web/capsule-part-policy.mjs\<close>. Each block has an encoder that fills a
  \<open>Uint8Array\<close> field by field and a decoder that answers null (\<open>None\<close>) on bytes it does
  not accept. The fields of the objects the encoders take are options where the code gives
  a default (\<open>??\<close>).
\<close>

section \<open>Reply blocks\<close>

definition REPLY_BLOCK_CONTENT_VERSION :: byte where
  "REPLY_BLOCK_CONTENT_VERSION = 1"

definition REPLY_BLOCK_CONTENT_VERSION_TEXT_ID :: byte where
  "REPLY_BLOCK_CONTENT_VERSION_TEXT_ID = 2"

definition REPLY_AUTHOR_MAX_BYTES :: nat where "REPLY_AUTHOR_MAX_BYTES = 64"
definition REPLY_SNIPPET_MAX_BYTES :: nat where "REPLY_SNIPPET_MAX_BYTES = 160"
definition REPLY_ENTRY_ID_MAX_BYTES :: nat where "REPLY_ENTRY_ID_MAX_BYTES = 80"

lemmas reply_consts = REPLY_BLOCK_CONTENT_VERSION_def REPLY_BLOCK_CONTENT_VERSION_TEXT_ID_def
  REPLY_AUTHOR_MAX_BYTES_def REPLY_SNIPPET_MAX_BYTES_def REPLY_ENTRY_ID_MAX_BYTES_def

text \<open>\<open>REPLY_TEXT_ENTRY_ID\<close>: \<^verbatim>\<open>/^[0-9A-Za-z][0-9A-Za-z._:-]{0,79}$/\<close>.\<close>

definition is_alnum :: "symbol \<Rightarrow> bool" where
  "is_alnum c \<longleftrightarrow> is_digit c \<or> is_upper c \<or> is_lower c"

definition REPLY_TEXT_ENTRY_ID :: "js_string \<Rightarrow> bool" where
  "REPLY_TEXT_ENTRY_ID s \<longleftrightarrow>
     (case s of [] \<Rightarrow> False
      | c # cs \<Rightarrow> is_alnum c \<and> length cs \<le> 79
          \<and> (\<forall>d \<in> set cs. is_alnum d \<or> d \<in> {46, 95, 58, 45}))"

record reply =
  r_refEntryId :: "js_string option"
  r_author :: "js_string option"
  r_snippet :: "js_string option"

abbreviation or_empty :: "js_string option \<Rightarrow> js_string" where
  "or_empty x \<equiv> case x of None \<Rightarrow> [] | Some s \<Rightarrow> s"

definition encodeReplyBlockContent :: "reply \<Rightarrow> bytes res" where
  "encodeReplyBlockContent reply =
     (let idText = trim (or_empty (r_refEntryId reply));
          author = utf8_encode (truncated REPLY_AUTHOR_MAX_BYTES (or_empty (r_author reply)));
          snippet = utf8_encode (truncated REPLY_SNIPPET_MAX_BYTES (or_empty (r_snippet reply)))
      in if idText \<noteq> [] \<and> (\<forall>c \<in> set idText. is_digit c) then
           (let refEntryId = dec_value idText in
            guard (\<not> refEntryId > 0xFFFFFFFFFFFFFFFF) (JsError ''reply refEntryId must fit uint64'')
              (Inr ([REPLY_BLOCK_CONTENT_VERSION] @ be_bytes 8 refEntryId
                    @ [word_of_nat (length author)] @ author @ snippet)))
         else
           guard (REPLY_TEXT_ENTRY_ID idText) (JsError ''reply refEntryId is not an entry id'')
             (let id = utf8_encode idText in
              Inr ([REPLY_BLOCK_CONTENT_VERSION_TEXT_ID, word_of_nat (length id)] @ id
                   @ [word_of_nat (length author)] @ author @ snippet)))"

record reply_quote =
  q_refEntryId :: js_string
  q_author :: js_string
  q_snippet :: js_string

definition reply_quote_at :: "bytes \<Rightarrow> js_string \<Rightarrow> nat \<Rightarrow> nat \<Rightarrow> reply_quote" where
  "reply_quote_at bytes refEntryId authorStart authorLength =
     \<lparr>q_refEntryId = refEntryId,
      q_author = truncated REPLY_AUTHOR_MAX_BYTES
        (utf8_decode (slice authorStart (authorStart + authorLength) bytes)),
      q_snippet = truncated REPLY_SNIPPET_MAX_BYTES
        (utf8_decode (drop (authorStart + authorLength) bytes))\<rparr>"

definition decodeReplyBlockContent :: "bytes \<Rightarrow> reply_quote option" where
  "decodeReplyBlockContent bytes =
     (if bytes \<noteq> [] \<and> bytes ! 0 = REPLY_BLOCK_CONTENT_VERSION then
        (if length bytes < 10 then None
         else
           (let refEntryId = be_value (slice 1 9 bytes); authorLength = unat (bytes ! 9) in
            if 10 + authorLength > length bytes then None
            else Some (reply_quote_at bytes (dec_string refEntryId) 10 authorLength)))
      else if bytes \<noteq> [] \<and> bytes ! 0 = REPLY_BLOCK_CONTENT_VERSION_TEXT_ID then
        (let idLength = (if 1 < length bytes then unat (bytes ! 1) else 0) in
         if idLength = 0 \<or> idLength > REPLY_ENTRY_ID_MAX_BYTES \<or> 2 + idLength + 1 > length bytes then None
         else
           (let refEntryId = utf8_decode (slice 2 (2 + idLength) bytes) in
            if \<not> REPLY_TEXT_ENTRY_ID refEntryId then None
            else
              (let authorLength = unat (bytes ! (2 + idLength)) in
               if 3 + idLength + authorLength > length bytes then None
               else Some (reply_quote_at bytes refEntryId (3 + idLength) authorLength))))
      else None)"

text \<open>What a decoder reads back of a reply: a numeric id in canonical decimal, the rest truncated.\<close>

definition quoted :: "reply \<Rightarrow> reply_quote" where
  "quoted reply =
     (let idText = trim (or_empty (r_refEntryId reply)) in
      \<lparr>q_refEntryId = (if \<forall>c \<in> set idText. is_digit c then dec_string (dec_value idText) else idText),
       q_author = truncated REPLY_AUTHOR_MAX_BYTES (or_empty (r_author reply)),
       q_snippet = truncated REPLY_SNIPPET_MAX_BYTES (or_empty (r_snippet reply))\<rparr>)"

lemma unat_length_byte: "n < 256 \<Longrightarrow> unat (word_of_nat n :: byte) = n"
  by (rule unat_small_byte)

lemma entry_id_ascii:
  assumes "REPLY_TEXT_ENTRY_ID s"
  shows "utf8_encode s = map word_of_nat s" "utf8_decode (utf8_encode s) = s"
    "1 \<le> length s" "length s \<le> 80"
proof -
  have a: "\<forall>c \<in> set s. c < 128"
    using assms by (auto simp: REPLY_TEXT_ENTRY_ID_def is_alnum_def char_class_defs split: list.splits)
  then show "utf8_encode s = map word_of_nat s" by (rule utf8_encode_ascii)
  have "well_formed_text s"
    using a by (fastforce simp: well_formed_text_def is_scalar_def is_surrogate_def split: list.split)
  then show "utf8_decode (utf8_encode s) = s" by (rule utf8_decode_encode)
  show "1 \<le> length s" "length s \<le> 80"
    using assms by (auto simp: REPLY_TEXT_ENTRY_ID_def split: list.splits)
qed

lemma reply_quote_fields:
  assumes "well_formed_text au" "well_formed_text sn"
  defines "a \<equiv> utf8_encode (truncated REPLY_AUTHOR_MAX_BYTES au)"
    and "s \<equiv> utf8_encode (truncated REPLY_SNIPPET_MAX_BYTES sn)"
  shows "reply_quote_at (pre @ a @ s) i (length pre) (length a)
    = \<lparr>q_refEntryId = i, q_author = truncated REPLY_AUTHOR_MAX_BYTES au,
       q_snippet = truncated REPLY_SNIPPET_MAX_BYTES sn\<rparr>"
  using assms by (simp add: reply_quote_at_def slice_def)

lemma decode_reply_numeric:
  assumes "v < 2 ^ 64" "length a < 256"
  shows "decodeReplyBlockContent ([REPLY_BLOCK_CONTENT_VERSION] @ be_bytes 8 v
      @ [word_of_nat (length a)] @ a @ s)
    = Some (reply_quote_at (([REPLY_BLOCK_CONTENT_VERSION] @ be_bytes 8 v @ [word_of_nat (length a)]) @ a @ s)
        (dec_string v) 10 (length a))"
proof -
  let ?bs = "[REPLY_BLOCK_CONTENT_VERSION] @ be_bytes 8 v @ [word_of_nat (length a)] @ a @ s"
  have "slice 1 9 ?bs = be_bytes 8 v" by (rule slice_field) simp_all
  moreover have "?bs ! 9 = word_of_nat (length a)"
    using nth_field [of 9 "[REPLY_BLOCK_CONTENT_VERSION] @ be_bytes 8 v" "word_of_nat (length a)" "a @ s"]
    by simp
  moreover have "be_value (be_bytes 8 v) = v" using assms by (simp add: byte_simps)
  ultimately show ?thesis
    using assms(2) by (simp add: decodeReplyBlockContent_def unat_length_byte Let_def)
qed

lemma decode_reply_text:
  assumes "REPLY_TEXT_ENTRY_ID t" "length a < 256"
  defines "pre \<equiv> [REPLY_BLOCK_CONTENT_VERSION_TEXT_ID, word_of_nat (length (utf8_encode t))] @ utf8_encode t
    @ [word_of_nat (length a)]"
  shows "decodeReplyBlockContent (pre @ a @ s)
    = Some (reply_quote_at (pre @ a @ s) t (length pre) (length a))"
proof -
  note id = entry_id_ascii [OF assms(1)]
  define bs n where "bs = pre @ a @ s" and "n = length (utf8_encode t)"
  have n: "1 \<le> n" "n \<le> 80" using id by (simp_all add: n_def)
  have bs: "bs = [REPLY_BLOCK_CONTENT_VERSION_TEXT_ID, word_of_nat n] @ utf8_encode t
      @ [word_of_nat (length a)] @ a @ s"
    by (simp add: bs_def pre_def n_def)
  have f: "slice 2 (2 + n) bs = utf8_encode t"
    unfolding bs by (rule slice_field) (simp_all add: n_def)
  have "bs ! (2 + n) = word_of_nat (length a)"
    using nth_field [of "2 + n" "[REPLY_BLOCK_CONTENT_VERSION_TEXT_ID, word_of_nat n] @ utf8_encode t"]
    by (simp add: bs n_def)
  then have g: "unat (bs ! (2 + n)) = length a"
    using assms(2) by (simp add: unat_length_byte)
  have h: "unat (bs ! 1) = n" using n by (simp add: bs unat_length_byte)
  have k: "bs \<noteq> []" "bs ! 0 = REPLY_BLOCK_CONTENT_VERSION_TEXT_ID" "length bs = 3 + n + length a + length s"
    by (simp_all add: bs n_def)
  have "length pre = 3 + n" by (simp add: pre_def n_def)
  then show ?thesis
    unfolding bs_def [symmetric] decodeReplyBlockContent_def
    using n assms(1) id(2) by (simp add: k f g h Let_def REPLY_ENTRY_ID_MAX_BYTES_def
        REPLY_BLOCK_CONTENT_VERSION_TEXT_ID_def REPLY_BLOCK_CONTENT_VERSION_def
        del: One_nat_def add_2_eq_Suc add_2_eq_Suc')
qed

text \<open>
  A reply block decodes to what was encoded: the entry id (a numeric id in canonical
  decimal), the author cut to 64 bytes and the snippet cut to 160.
\<close>

theorem reply_block_roundtrip:
  assumes "encodeReplyBlockContent r = Inr bs"
    and "well_formed_text (or_empty (r_author r))" and "well_formed_text (or_empty (r_snippet r))"
  shows "decodeReplyBlockContent bs = Some (quoted r)"
proof -
  define t a s where "t = trim (or_empty (r_refEntryId r))"
    and "a = utf8_encode (truncated REPLY_AUTHOR_MAX_BYTES (or_empty (r_author r)))"
    and "s = utf8_encode (truncated REPLY_SNIPPET_MAX_BYTES (or_empty (r_snippet r)))"
  note enc = assms(1) [unfolded encodeReplyBlockContent_def Let_def, folded t_def a_def s_def]
  have a: "length a < 256"
    using length_utf8_truncated [of REPLY_AUTHOR_MAX_BYTES "or_empty (r_author r)"]
    by (simp add: a_def REPLY_AUTHOR_MAX_BYTES_def)
  note fields = reply_quote_fields [OF assms(2,3), folded a_def s_def]
  show ?thesis
  proof (cases "t \<noteq> [] \<and> (\<forall>c \<in> set t. is_digit c)")
    case True
    define pre where "pre = [REPLY_BLOCK_CONTENT_VERSION] @ be_bytes 8 (dec_value t) @ [word_of_nat (length a)]"
    have "bs = pre @ a @ s" "dec_value t < 2 ^ 64"
      using enc True by (auto simp: pre_def guard_def split: if_splits)
    then have "decodeReplyBlockContent bs = Some (reply_quote_at (pre @ a @ s) (dec_string (dec_value t)) 10 (length a))"
      using decode_reply_numeric [OF _ a, of "dec_value t" s] by (simp add: pre_def)
    moreover have "length pre = 10" by (simp add: pre_def)
    ultimately show ?thesis
      using True fields [of pre] by (simp add: quoted_def Let_def t_def)
  next
    case False
    define pre where "pre = [REPLY_BLOCK_CONTENT_VERSION_TEXT_ID, word_of_nat (length (utf8_encode t))]
      @ utf8_encode t @ [word_of_nat (length a)]"
    have t: "REPLY_TEXT_ENTRY_ID t" and bs: "bs = pre @ a @ s"
      using enc False by (auto simp: pre_def guard_def split: if_splits)
    have "decodeReplyBlockContent bs = Some (reply_quote_at (pre @ a @ s) t (length pre) (length a))"
      unfolding bs pre_def by (rule decode_reply_text [OF t a])
    moreover have "t \<noteq> []" using t by (auto simp: REPLY_TEXT_ENTRY_ID_def)
    ultimately show ?thesis
      using False fields [of pre] by (auto simp: quoted_def Let_def simp flip: t_def)
  qed
qed

definition sample_reply :: reply where
  "sample_reply = \<lparr>r_refEntryId = Some [48, 55], r_author = Some [0x41], r_snippet = Some [0x20AC]\<rparr>"

theorem reply_block_roundtrip_witness:
  "\<exists>bs. encodeReplyBlockContent sample_reply = Inr bs \<and> decodeReplyBlockContent bs = Some (quoted sample_reply)"
proof -
  obtain bs where bs: "encodeReplyBlockContent sample_reply = Inr bs"
    by (simp add: encodeReplyBlockContent_def sample_reply_def Let_def trim_def is_space_def is_digit_def
        dec_value_def)
  have "well_formed_text (or_empty (r_author sample_reply))" "well_formed_text (or_empty (r_snippet sample_reply))"
    by (simp_all add: sample_reply_def well_formed_text_def is_scalar_def is_surrogate_def)
  from reply_block_roundtrip [OF bs this] bs show ?thesis by blast
qed

section \<open>File blocks\<close>

definition FILE_BLOCK_CONTENT_VERSION :: byte where "FILE_BLOCK_CONTENT_VERSION = 1"
definition FILE_NAME_MAX_BYTES :: nat where "FILE_NAME_MAX_BYTES = 512"
definition FILE_MIME_MAX_BYTES :: nat where "FILE_MIME_MAX_BYTES = 128"

text \<open>
  The media type pattern: two names of 1 to 64 characters around a slash, each starting with
  a letter or digit. The slash is in neither class, so it splits the text at its first slash.
\<close>

definition is_media_char :: "symbol \<Rightarrow> bool" where
  "is_media_char c \<longleftrightarrow> is_lower c \<or> is_digit c \<or> c \<in> {33, 35, 36, 38, 94, 95, 46, 43, 45}"

definition is_media_name :: "js_string \<Rightarrow> bool" where
  "is_media_name s \<longleftrightarrow>
     (case s of [] \<Rightarrow> False
      | c # cs \<Rightarrow> (is_lower c \<or> is_digit c) \<and> length cs \<le> 63 \<and> (\<forall>d \<in> set cs. is_media_char d))"

definition is_media_type :: "js_string \<Rightarrow> bool" where
  "is_media_type s \<longleftrightarrow>
     is_media_name (takeWhile (\<lambda>c. c \<noteq> 47) s)
     \<and> (case dropWhile (\<lambda>c. c \<noteq> 47) s of [] \<Rightarrow> False | _ # t \<Rightarrow> is_media_name t)"

definition OCTET_STREAM :: js_string where
  "OCTET_STREAM = str ''application/octet-stream''"

definition mediaTypeIn :: "(js_string \<Rightarrow> js_string) \<Rightarrow> js_string \<Rightarrow> js_string" where
  "mediaTypeIn lower value =
     (let text = lower (trim value) in if is_media_type text then text else OCTET_STREAM)"

record file_block =
  fb_name :: "js_string option"
  fb_mime :: "js_string option"
  fb_bytes :: bytes

definition encodeFileBlockContent :: "file_block \<Rightarrow> bytes res" where
  "encodeFileBlockContent file =
     (let name = utf8_encode (truncated FILE_NAME_MAX_BYTES (case fb_name file of None \<Rightarrow> str ''file'' | Some s \<Rightarrow> s));
          mime = utf8_encode (truncated FILE_MIME_MAX_BYTES (case fb_mime file of None \<Rightarrow> OCTET_STREAM | Some s \<Rightarrow> s));
          bytes = fb_bytes file
      in guard (name \<noteq> []) (JsError ''file block needs a name'')
          (guard (bytes \<noteq> []) (JsError ''file block needs bytes'')
            (Inr ([FILE_BLOCK_CONTENT_VERSION] @ [word_of_nat (length name div 256), word_of_nat (length name)]
                  @ name @ [word_of_nat (length mime)] @ mime @ bytes))))"

record file_content =
  fc_name :: js_string
  fc_mime :: js_string
  fc_bytes :: bytes

definition decodeFileBlockContent :: "(js_string \<Rightarrow> js_string) \<Rightarrow> bytes \<Rightarrow> file_content option" where
  "decodeFileBlockContent lower bytes =
     (if length bytes < 5 \<or> bytes ! 0 \<noteq> FILE_BLOCK_CONTENT_VERSION then None
      else
        (let nameLength = unat (bytes ! 1) * 256 + unat (bytes ! 2) in
         if nameLength = 0 \<or> 3 + nameLength + 1 > length bytes then None
         else
           (let mimeLength = unat (bytes ! (3 + nameLength));
                payloadStart = 4 + nameLength + mimeLength
            in if payloadStart > length bytes then None
               else Some
                 \<lparr>fc_name = utf8_decode (slice 3 (3 + nameLength) bytes),
                  fc_mime = mediaTypeIn lower (utf8_decode (slice (4 + nameLength) (4 + nameLength + mimeLength) bytes)),
                  fc_bytes = drop payloadStart bytes\<rparr>)))"

lemma length_two_bytes:
  "n < 65536 \<Longrightarrow> unat (word_of_nat (n div 256) :: byte) * 256 + unat (word_of_nat n :: byte) = n"
  by (simp only: unat_word_of_nat_byte) (simp add: less_mult_imp_div_less)

lemma decode_file_layout:
  assumes "length name < 65536" "name \<noteq> []" "length mime < 256" "data \<noteq> []"
  shows "decodeFileBlockContent lower
      ([FILE_BLOCK_CONTENT_VERSION] @ [word_of_nat (length name div 256), word_of_nat (length name)]
        @ name @ [word_of_nat (length mime)] @ mime @ data)
    = Some \<lparr>fc_name = utf8_decode name, fc_mime = mediaTypeIn lower (utf8_decode mime), fc_bytes = data\<rparr>"
proof -
  define h :: bytes where "h = [FILE_BLOCK_CONTENT_VERSION, word_of_nat (length name div 256), word_of_nat (length name)]"
  define bs n where "bs = h @ name @ [word_of_nat (length mime)] @ mime @ data" and "n = length name"
  have h: "length h = 3" by (simp add: h_def)
  have len: "length bs = 4 + n + length mime + length data" by (simp add: bs_def n_def h)
  have n: "1 \<le> n" "1 \<le> length data" using assms by (simp_all add: n_def Suc_le_eq)
  have hd: "bs ! 0 = FILE_BLOCK_CONTENT_VERSION" and nl: "unat (bs ! 1) * 256 + unat (bs ! 2) = n"
    using length_two_bytes [OF assms(1)] by (simp_all add: bs_def h_def n_def)
  have ml: "unat (bs ! (3 + n)) = length mime"
    using nth_field [of "3 + n" "h @ name" "word_of_nat (length mime)" "mime @ data"] assms(3)
    by (simp add: bs_def n_def h unat_length_byte)
  have f1: "slice 3 (3 + n) bs = name"
    unfolding bs_def by (rule slice_field) (simp_all add: h n_def)
  have f2: "slice (4 + n) (4 + n + length mime) bs = mime"
    using slice_field [of "4 + n" "h @ name @ [word_of_nat (length mime)]" "4 + n + length mime" mime data]
    by (simp add: bs_def h n_def)
  have f3: "drop (4 + n + length mime) bs = data"
    using drop_field [of "4 + n + length mime" "h @ name @ [word_of_nat (length mime)] @ mime" data]
    by (simp add: bs_def h n_def)
  have "decodeFileBlockContent lower bs
    = Some \<lparr>fc_name = utf8_decode name, fc_mime = mediaTypeIn lower (utf8_decode mime), fc_bytes = data\<rparr>"
    unfolding decodeFileBlockContent_def nl Let_def ml f1 f2 f3 using n by (simp add: len hd)
  then show ?thesis by (simp add: bs_def h_def)
qed

text \<open>
  C26: a file block decodes to the name cut to 512 bytes, the same bytes, and a media type that
  is the encoded one where it is well formed and \<^verbatim>\<open>application/octet-stream\<close> where it is not.
\<close>

theorem file_block_roundtrip:
  assumes "encodeFileBlockContent f = Inr bs"
    and "fb_name f = Some nm" and "well_formed_text nm"
    and "fb_mime f = Some mt" and "well_formed_text mt"
  shows "decodeFileBlockContent lower bs =
    Some \<lparr>fc_name = truncated FILE_NAME_MAX_BYTES nm,
          fc_mime = mediaTypeIn lower (truncated FILE_MIME_MAX_BYTES mt),
          fc_bytes = fb_bytes f\<rparr>"
proof -
  define name where "name = utf8_encode (truncated FILE_NAME_MAX_BYTES nm)"
  define mime where "mime = utf8_encode (truncated FILE_MIME_MAX_BYTES mt)"
  have ne: "name \<noteq> []" "fb_bytes f \<noteq> []"
    and bs: "bs = [FILE_BLOCK_CONTENT_VERSION] @ [word_of_nat (length name div 256), word_of_nat (length name)]
      @ name @ [word_of_nat (length mime)] @ mime @ fb_bytes f"
    using assms(1) by (auto simp: encodeFileBlockContent_def Let_def res_simps assms(2,4) name_def mime_def)
  have "length name < 65536" "length mime < 256"
    using length_utf8_truncated [of 512 nm] length_utf8_truncated [of 128 mt]
    by (simp_all add: name_def mime_def FILE_NAME_MAX_BYTES_def FILE_MIME_MAX_BYTES_def)
  with ne have "decodeFileBlockContent lower bs
    = Some \<lparr>fc_name = utf8_decode name, fc_mime = mediaTypeIn lower (utf8_decode mime), fc_bytes = fb_bytes f\<rparr>"
    unfolding bs by (intro decode_file_layout)
  then show ?thesis
    using assms(3,5) by (simp add: name_def mime_def utf8_decode_encode well_formed_truncated)
qed

definition sample_file :: file_block where
  "sample_file = \<lparr>fb_name = Some [0x41, 0x20AC], fb_mime = Some [0x61, 0x2F, 0x62], fb_bytes = [1, 2]\<rparr>"

theorem file_block_roundtrip_witness:
  "\<exists>bs. encodeFileBlockContent sample_file = Inr bs \<and> decodeFileBlockContent ascii_lower bs =
     Some \<lparr>fc_name = [0x41, 0x20AC], fc_mime = [0x61, 0x2F, 0x62], fc_bytes = [1, 2]\<rparr>"
proof -
  have cut: "truncated 512 [0x41, 0x20AC] = [0x41, 0x20AC]" "truncated 128 [0x61, 0x2F, 0x62] = [0x61, 0x2F, 0x62]"
    by (rule truncated_id, simp add: utf8ByteLength_def utf8_symbol_def is_surrogate_def)+
  obtain bs where bs: "encodeFileBlockContent sample_file = Inr bs"
    by (simp add: encodeFileBlockContent_def sample_file_def Let_def FILE_NAME_MAX_BYTES_def cut)
  have wf: "well_formed_text [0x41, 0x20AC]" "well_formed_text [0x61, 0x2F, 0x62]"
    by (simp_all add: well_formed_text_def is_scalar_def is_surrogate_def)
  have "decodeFileBlockContent ascii_lower bs =
    Some \<lparr>fc_name = truncated FILE_NAME_MAX_BYTES [0x41, 0x20AC],
          fc_mime = mediaTypeIn ascii_lower (truncated FILE_MIME_MAX_BYTES [0x61, 0x2F, 0x62]),
          fc_bytes = fb_bytes sample_file\<rparr>"
    by (rule file_block_roundtrip [OF bs _ wf(1) _ wf(2)]) (simp_all add: sample_file_def)
  then show ?thesis
    using bs by (simp add: sample_file_def FILE_NAME_MAX_BYTES_def FILE_MIME_MAX_BYTES_def cut mediaTypeIn_def
        trim_def is_space_def ascii_lower_def is_upper_def is_media_type_def is_media_name_def is_lower_def Let_def)
qed

section \<open>Share blocks\<close>

definition SHARE_BLOCK_CONTENT_VERSION :: byte where "SHARE_BLOCK_CONTENT_VERSION = 2"
definition SHARE_ENTRY_ID_MAX_BYTES :: nat where "SHARE_ENTRY_ID_MAX_BYTES = 64"
definition SHARE_AUTHOR_MAX_BYTES :: nat where "SHARE_AUTHOR_MAX_BYTES = 64"
definition SHARE_TITLE_MAX_BYTES :: nat where "SHARE_TITLE_MAX_BYTES = 96"
definition SHARE_WALLET_MAX_BYTES :: nat where "SHARE_WALLET_MAX_BYTES = 80"
definition SHARE_SNIPPET_MAX_BYTES :: nat where "SHARE_SNIPPET_MAX_BYTES = 4096"

lemmas share_consts = SHARE_ENTRY_ID_MAX_BYTES_def SHARE_AUTHOR_MAX_BYTES_def SHARE_TITLE_MAX_BYTES_def
  SHARE_WALLET_MAX_BYTES_def SHARE_SNIPPET_MAX_BYTES_def

text \<open>The flag byte: bit 0 says the share has an image, bit 1 that its text is cut.\<close>

definition share_flags :: "bool \<Rightarrow> bool \<Rightarrow> byte" where
  "share_flags hasImage textTruncated = (if hasImage then 1 else 0) + (if textTruncated then 2 else 0)"

definition utf16_length :: "js_string \<Rightarrow> nat" where
  "utf16_length s = sum_list (map (\<lambda>c. if c < 0x10000 then 1 else 2) s)"

definition strip_0x :: "js_string \<Rightarrow> js_string" where
  "strip_0x s = (case s of a # b # t \<Rightarrow> if a = 48 \<and> b \<in> {120, 88} then t else s | _ \<Rightarrow> s)"

record share =
  s_entryId :: "js_string option"
  s_bodyHash :: "js_string option"
  s_authorWallet :: "js_string option"
  s_author :: "js_string option"
  s_title :: "js_string option"
  s_snippet :: "js_string option"
  s_hasImage :: bool
  s_textTruncated :: bool

definition share_cut :: "share \<Rightarrow> bool" where
  "share_cut share \<longleftrightarrow> s_textTruncated share
     \<or> utf16_length (truncated SHARE_SNIPPET_MAX_BYTES (or_empty (s_snippet share))) < utf16_length (or_empty (s_snippet share))"

definition encodeShareBlockContent :: "(js_string \<Rightarrow> js_string) \<Rightarrow> share \<Rightarrow> bytes res" where
  "encodeShareBlockContent lower share =
     (let entryIdText = trim (or_empty (s_entryId share)) in
      guard (entryIdText \<noteq> []) (JsError ''share block needs the entry id'')
       (let entryId = utf8_encode (truncated SHARE_ENTRY_ID_MAX_BYTES entryIdText) in
        guard (length entryId = length (utf8_encode entryIdText)) (JsError ''share entryId is too long'')
         (let bodyHashHex = lower (strip_0x (or_empty (s_bodyHash share))) in
          guard (is_hex_of_length 64 bodyHashHex) (JsError ''share bodyHash must be 32 hex bytes'')
           (let wallet = utf8_encode (truncated SHARE_WALLET_MAX_BYTES (trim (or_empty (s_authorWallet share)))) in
            guard (wallet \<noteq> []) (JsError ''share block needs the author wallet'')
             (let author = utf8_encode (truncated SHARE_AUTHOR_MAX_BYTES (or_empty (s_author share)));
                  title = utf8_encode (truncated SHARE_TITLE_MAX_BYTES (or_empty (s_title share)));
                  snippet = utf8_encode (truncated SHARE_SNIPPET_MAX_BYTES (or_empty (s_snippet share)));
                  flags = share_flags (s_hasImage share) (share_cut share)
              in Inr ([SHARE_BLOCK_CONTENT_VERSION, flags, word_of_nat (length entryId)] @ entryId
                   @ hex_bytes bodyHashHex
                   @ [word_of_nat (length wallet)] @ wallet
                   @ [word_of_nat (length author)] @ author
                   @ [word_of_nat (length title)] @ title @ snippet))))))"

record share_content =
  sc_entryId :: js_string
  sc_bodyHash :: js_string
  sc_authorWallet :: js_string
  sc_author :: js_string
  sc_title :: js_string
  sc_snippet :: js_string
  sc_hasImage :: bool
  sc_textTruncated :: bool

definition decodeShareBlockContent :: "bytes \<Rightarrow> share_content option" where
  "decodeShareBlockContent bytes =
     (if length bytes < 45 \<or> bytes ! 0 \<noteq> SHARE_BLOCK_CONTENT_VERSION then None
      else
       (let flags = bytes ! 1; entryIdLength = unat (bytes ! 2) in
        if entryIdLength = 0 \<or> 3 + entryIdLength + 32 + 1 > length bytes then None
        else
         (let entryId = utf8_decode (slice 3 (3 + entryIdLength) bytes);
              at_hash = 3 + entryIdLength;
              bodyHash = [48, 120] @ bytes_hex (slice at_hash (at_hash + 32) bytes);
              at_wallet = at_hash + 32;
              walletLength = unat (bytes ! at_wallet)
          in if walletLength = 0 \<or> at_wallet + 1 + walletLength + 1 > length bytes then None
             else
              (let authorWallet = utf8_decode (slice (at_wallet + 1) (at_wallet + 1 + walletLength) bytes);
                   at_author = at_wallet + (1 + walletLength);
                   authorLength = unat (bytes ! at_author)
               in if at_author + 1 + authorLength + 1 > length bytes then None
                  else
                   (let author = utf8_decode (slice (at_author + 1) (at_author + 1 + authorLength) bytes);
                        at_title = at_author + (1 + authorLength);
                        titleLength = unat (bytes ! at_title)
                    in if at_title + 1 + titleLength > length bytes then None
                       else
                        (let title = utf8_decode (slice (at_title + 1) (at_title + 1 + titleLength) bytes);
                             at_snippet = at_title + (1 + titleLength)
                         in Some \<lparr>sc_entryId = entryId, sc_bodyHash = bodyHash, sc_authorWallet = authorWallet,
                                  sc_author = truncated SHARE_AUTHOR_MAX_BYTES author,
                                  sc_title = truncated SHARE_TITLE_MAX_BYTES title,
                                  sc_snippet = truncated SHARE_SNIPPET_MAX_BYTES (utf8_decode (drop at_snippet bytes)),
                                  sc_hasImage = (unat flags mod 2 = 1),
                                  sc_textTruncated = (unat flags div 2 mod 2 = 1)\<rparr>))))))"

text \<open>The layout read back, over the fields as bytes.\<close>

lemma decode_share_layout:
  assumes "length eid < 256" "eid \<noteq> []" "length hash = 32" "length w < 256" "w \<noteq> []" "length a < 256"
    "length t < 256" "45 \<le> 38 + length s + length t + length a + length w + length eid"
  shows "decodeShareBlockContent ([SHARE_BLOCK_CONTENT_VERSION, f, word_of_nat (length eid)] @ eid @ hash
      @ [word_of_nat (length w)] @ w @ [word_of_nat (length a)] @ a @ [word_of_nat (length t)] @ t @ s)
    = Some \<lparr>sc_entryId = utf8_decode eid, sc_bodyHash = [48, 120] @ bytes_hex hash,
            sc_authorWallet = utf8_decode w, sc_author = truncated SHARE_AUTHOR_MAX_BYTES (utf8_decode a),
            sc_title = truncated SHARE_TITLE_MAX_BYTES (utf8_decode t),
            sc_snippet = truncated SHARE_SNIPPET_MAX_BYTES (utf8_decode s),
            sc_hasImage = (unat f mod 2 = 1), sc_textTruncated = (unat f div 2 mod 2 = 1)\<rparr>"
    (is "?lhs = Some ?out")
proof -
  define h where "h = [SHARE_BLOCK_CONTENT_VERSION, f, word_of_nat (length eid)]"
  define p1 p2 p3 p4 where "p1 = h @ eid" and "p2 = p1 @ hash" and "p3 = p2 @ [word_of_nat (length w)] @ w"
    and "p4 = p3 @ [word_of_nat (length a)] @ a"
  define bs where "bs = p4 @ [word_of_nat (length t)] @ t @ s"
  have l: "length h = 3" "length p1 = 3 + length eid" "length p2 = 3 + length eid + 32"
    "length p3 = 3 + length eid + 32 + (1 + length w)"
    "length p4 = 3 + length eid + 32 + (1 + length w) + (1 + length a)"
    using assms(3) by (simp_all add: h_def p1_def p2_def p3_def p4_def)
  have len: "length bs = length p4 + 1 + length t + length s" by (simp add: bs_def)
  have n: "bs ! 0 = SHARE_BLOCK_CONTENT_VERSION" "bs ! 1 = f" "unat (bs ! 2) = length eid"
    using assms(1) by (simp_all add: bs_def p4_def p3_def p2_def p1_def h_def unat_length_byte)
  have nw: "unat (bs ! (3 + length eid + 32)) = length w"
    using nth_field [OF l(3) [symmetric]] assms(4) by (simp add: bs_def p4_def p3_def unat_length_byte)
  have na: "unat (bs ! (3 + length eid + 32 + (1 + length w))) = length a"
    using nth_field [OF l(4) [symmetric]] assms(6) by (simp add: bs_def p4_def unat_length_byte)
  have nt: "unat (bs ! (3 + length eid + 32 + (1 + length w) + (1 + length a))) = length t"
    using nth_field [OF l(5) [symmetric]] assms(7) by (simp add: bs_def unat_length_byte)
  have f1: "slice 3 (3 + length eid) bs = eid"
    using slice_field [of 3 h "3 + length eid" eid] l by (simp add: bs_def p4_def p3_def p2_def p1_def)
  have f2: "slice (3 + length eid) (3 + length eid + 32) bs = hash"
    using slice_field [of "3 + length eid" p1 "3 + length eid + 32" hash] l assms(3)
    by (simp add: bs_def p4_def p3_def p2_def)
  have f3: "slice (3 + length eid + 32 + 1) (3 + length eid + 32 + 1 + length w) bs = w"
    using slice_field [of "3 + length eid + 32 + 1" "p2 @ [word_of_nat (length w)]" _ w] l
    by (simp add: bs_def p4_def p3_def)
  have f4: "slice (3 + length eid + 32 + (1 + length w) + 1) (3 + length eid + 32 + (1 + length w) + 1 + length a) bs = a"
    using slice_field [of "3 + length eid + 32 + (1 + length w) + 1" "p3 @ [word_of_nat (length a)]" _ a] l
    by (simp add: bs_def p4_def)
  have f5: "slice (3 + length eid + 32 + (1 + length w) + (1 + length a) + 1)
      (3 + length eid + 32 + (1 + length w) + (1 + length a) + 1 + length t) bs = t"
    using slice_field [of "3 + length eid + 32 + (1 + length w) + (1 + length a) + 1" "p4 @ [word_of_nat (length t)]" _ t] l
    by (simp add: bs_def)
  have f6: "drop (3 + length eid + 32 + (1 + length w) + (1 + length a) + (1 + length t)) bs = s"
    using drop_field [of _ "p4 @ [word_of_nat (length t)] @ t" s] l by (simp add: bs_def)
  have g: "\<not> length bs < 45" "length eid \<noteq> 0" "length w \<noteq> 0"
    using assms(2,5,8) by (simp_all add: len l)
  have "decodeShareBlockContent bs = Some ?out"
    unfolding decodeShareBlockContent_def Let_def n f1 f2 nw f3 na f4 nt f5 f6
    using g by (simp add: len l)
  then show ?thesis by (simp add: bs_def p4_def p3_def p2_def p1_def h_def)
qed

lemma share_flags_bits:
  "unat (share_flags i c) mod 2 = 1 \<longleftrightarrow> i" "unat (share_flags i c) div 2 mod 2 = 1 \<longleftrightarrow> c"
  by (simp_all add: share_flags_def)

text \<open>
  C27: a share block of at least 45 bytes, the length the decoder asks for, decodes to the share:
  the entry eid whole, the body hash as lower-case hex, the wallet, author, title and snippet
  cut to their limits, and the flag that the text was cut set whenever it was.
\<close>

theorem share_block_roundtrip:
  assumes "encodeShareBlockContent lower sh = Inr bs" and "45 \<le> length bs"
    and "well_formed_text (trim (or_empty (s_entryId sh)))"
    and "well_formed_text (trim (or_empty (s_authorWallet sh)))"
    and "well_formed_text (or_empty (s_author sh))" and "well_formed_text (or_empty (s_title sh))"
    and "well_formed_text (or_empty (s_snippet sh))"
  shows "decodeShareBlockContent bs = Some
    \<lparr>sc_entryId = trim (or_empty (s_entryId sh)),
     sc_bodyHash = [48, 120] @ lower (strip_0x (or_empty (s_bodyHash sh))),
     sc_authorWallet = truncated SHARE_WALLET_MAX_BYTES (trim (or_empty (s_authorWallet sh))),
     sc_author = truncated SHARE_AUTHOR_MAX_BYTES (or_empty (s_author sh)),
     sc_title = truncated SHARE_TITLE_MAX_BYTES (or_empty (s_title sh)),
     sc_snippet = truncated SHARE_SNIPPET_MAX_BYTES (or_empty (s_snippet sh)),
     sc_hasImage = s_hasImage sh, sc_textTruncated = share_cut sh\<rparr>"
proof -
  define idt hash wt aut tt st where "idt = trim (or_empty (s_entryId sh))"
    and "hash = lower (strip_0x (or_empty (s_bodyHash sh)))"
    and "wt = truncated SHARE_WALLET_MAX_BYTES (trim (or_empty (s_authorWallet sh)))"
    and "aut = truncated SHARE_AUTHOR_MAX_BYTES (or_empty (s_author sh))"
    and "tt = truncated SHARE_TITLE_MAX_BYTES (or_empty (s_title sh))"
    and "st = truncated SHARE_SNIPPET_MAX_BYTES (or_empty (s_snippet sh))"
  define eid where "eid = utf8_encode (truncated SHARE_ENTRY_ID_MAX_BYTES idt)"
  note enc = assms(1) [unfolded encodeShareBlockContent_def Let_def, folded idt_def hash_def wt_def aut_def tt_def
      st_def, folded eid_def]
  from enc have c: "idt \<noteq> []" "length eid = length (utf8_encode idt)" "is_hex_of_length 64 hash" "utf8_encode wt \<noteq> []"
    and bs: "bs = [SHARE_BLOCK_CONTENT_VERSION, share_flags (s_hasImage sh) (share_cut sh), word_of_nat (length eid)] @ eid
      @ hex_bytes hash @ [word_of_nat (length (utf8_encode wt))] @ utf8_encode wt
      @ [word_of_nat (length (utf8_encode aut))] @ utf8_encode aut
      @ [word_of_nat (length (utf8_encode tt))] @ utf8_encode tt @ utf8_encode st"
    by (auto simp: res_simps)
  have hash: "length (hex_bytes hash) = 32" "bytes_hex (hex_bytes hash) = hash"
    using c(3) by (simp_all add: is_hex_of_length_def byte_simps)
  have lens: "length eid \<le> 64" "length (utf8_encode wt) \<le> 80" "length (utf8_encode aut) \<le> 64"
    "length (utf8_encode tt) \<le> 96"
    unfolding eid_def wt_def aut_def tt_def share_consts by (rule length_utf8_truncated)+
  have "utf8ByteLength idt \<le> SHARE_ENTRY_ID_MAX_BYTES"
    using c(2) lens(1) by (simp add: utf8ByteLength_def share_consts)
  then have eid: "eid = utf8_encode idt" by (simp add: eid_def truncated_id)
  have ne: "eid \<noteq> []" using c(1) eid by simp
  have "length bs = 38 + length (utf8_encode st) + length (utf8_encode tt) + length (utf8_encode aut)
      + length (utf8_encode wt) + length eid"
    using hash(1) by (simp add: bs)
  with assms(2) have "45 \<le> 38 + length (utf8_encode st) + length (utf8_encode tt) + length (utf8_encode aut)
      + length (utf8_encode wt) + length eid" by simp
  note layout = decode_share_layout [OF _ ne hash(1) _ c(4) _ _ this,
      of "share_flags (s_hasImage sh) (share_cut sh)", folded bs]
  have wf: "well_formed_text idt" "well_formed_text wt" "well_formed_text aut" "well_formed_text tt" "well_formed_text st"
    using assms(3-7) by (simp_all add: idt_def wt_def aut_def tt_def st_def well_formed_truncated)
  have tr: "truncated SHARE_AUTHOR_MAX_BYTES aut = aut" "truncated SHARE_TITLE_MAX_BYTES tt = tt"
    "truncated SHARE_SNIPPET_MAX_BYTES st = st"
    by (simp_all add: aut_def tt_def st_def)
  show ?thesis
    using layout lens wf
    by (simp add: eid hash(2) utf8_decode_encode share_flags_bits [unfolded One_nat_def] tr flip: idt_def hash_def wt_def aut_def tt_def st_def)
qed

definition sample_share :: share where
  "sample_share = \<lparr>s_entryId = Some [0x37, 0x2E, 0x31], s_bodyHash = Some ([48, 120] @ replicate 64 0x61),
     s_authorWallet = Some [0x45, 0x51, 0x41], s_author = Some [0x42], s_title = None,
     s_snippet = Some [0x68, 0x69], s_hasImage = True, s_textTruncated = False\<rparr>"

lemma truncated_short:
  "4 * length s \<le> n \<Longrightarrow> truncated n s = s"
  using length_utf8_encode_le [of s] by (intro truncated_id) (simp add: utf8ByteLength_def)

lemmas share_eval = encodeShareBlockContent_def Let_def trim_def is_space_def strip_0x_def
  ascii_lower_def is_upper_def is_hex_of_length_def is_hex_lower_def is_digit_def share_consts
  truncated_short

theorem share_block_roundtrip_witness:
  "\<exists>bs c. encodeShareBlockContent ascii_lower sample_share = Inr bs \<and> decodeShareBlockContent bs = Some c
     \<and> sc_entryId c = [0x37, 0x2E, 0x31] \<and> sc_hasImage c \<and> \<not> sc_textTruncated c"
proof -
  obtain bs where bs: "encodeShareBlockContent ascii_lower sample_share = Inr bs" and len: "length bs = 47"
    by (simp add: share_eval sample_share_def)
  have cut: "\<not> share_cut sample_share"
    by (simp add: share_cut_def sample_share_def share_consts truncated_short)
  let ?c = "\<lparr>sc_entryId = trim (or_empty (s_entryId sample_share)),
     sc_bodyHash = [48, 120] @ ascii_lower (strip_0x (or_empty (s_bodyHash sample_share))),
     sc_authorWallet = truncated SHARE_WALLET_MAX_BYTES (trim (or_empty (s_authorWallet sample_share))),
     sc_author = truncated SHARE_AUTHOR_MAX_BYTES (or_empty (s_author sample_share)),
     sc_title = truncated SHARE_TITLE_MAX_BYTES (or_empty (s_title sample_share)),
     sc_snippet = truncated SHARE_SNIPPET_MAX_BYTES (or_empty (s_snippet sample_share)),
     sc_hasImage = s_hasImage sample_share, sc_textTruncated = share_cut sample_share\<rparr>"
  have "decodeShareBlockContent bs = Some ?c"
    by (rule share_block_roundtrip [OF bs])
       (simp_all add: len sample_share_def trim_def is_space_def well_formed_text_def is_scalar_def is_surrogate_def)
  moreover have "sc_entryId ?c = [0x37, 0x2E, 0x31]" "sc_hasImage ?c" "\<not> sc_textTruncated ?c"
    by (simp_all only: share_content.select_convs cut) (simp_all add: sample_share_def trim_def is_space_def)
  ultimately show ?thesis using bs by blast
qed

text \<open>
  The encoder accepts shares the decoder then refuses: with few enough characters in all
  fields together the block is shorter than 45 bytes.
\<close>

definition short_share :: share where
  "short_share = \<lparr>s_entryId = Some [0x37], s_bodyHash = Some ([48, 120] @ replicate 64 0x61),
     s_authorWallet = Some [0x45], s_author = None, s_title = None, s_snippet = None,
     s_hasImage = False, s_textTruncated = False\<rparr>"

theorem short_share_is_lost:
  "\<exists>bs. encodeShareBlockContent ascii_lower short_share = Inr bs \<and> decodeShareBlockContent bs = None"
proof -
  obtain bs where bs: "encodeShareBlockContent ascii_lower short_share = Inr bs" and "length bs = 40"
    by (simp add: share_eval short_share_def)
  then have "decodeShareBlockContent bs = None" by (simp add: decodeShareBlockContent_def)
  with bs show ?thesis by blast
qed

end
