(* ===== verification/Profile_Block.thy ===== *)
theory Profile_Block
  imports Content_Blocks
begin

text \<open>
  The profile block of \<^verbatim>\<open>src/web/capsule-part-policy.mjs\<close>: the public page a
  user publishes (description, tags, username, appearance, worn gift, groups, flags). The
  decoder walks one offset forward through immutable bytes; here it consumes the remaining
  suffix, so \<open>offset < bytes.length\<close> is "the suffix is not empty". The lower-casing of
  arbitrary text is the parameter \<open>lower\<close>.
\<close>

section \<open>Normalising the fields\<close>

definition PROFILE_BLOCK_CONTENT_VERSION :: byte where "PROFILE_BLOCK_CONTENT_VERSION = 1"
definition PROFILE_DESCRIPTION_MAX_BYTES :: nat where "PROFILE_DESCRIPTION_MAX_BYTES = 1536"
definition PROFILE_TAG_MAX_BYTES :: nat where "PROFILE_TAG_MAX_BYTES = 64"
definition PROFILE_MAX_TAGS :: nat where "PROFILE_MAX_TAGS = 12"
definition PROFILE_USERNAME_MAX_BYTES :: nat where "PROFILE_USERNAME_MAX_BYTES = 20"
definition PROFILE_GROUPS_MAX :: nat where "PROFILE_GROUPS_MAX = 8"
definition PROFILE_GROUP_NAME_MAX_BYTES :: nat where "PROFILE_GROUP_NAME_MAX_BYTES = 96"
definition PROFILE_FLAGS_MARKER :: byte where "PROFILE_FLAGS_MARKER = 0xf1"
definition PROFILE_FLAG_BALANCE_CARD :: byte where "PROFILE_FLAG_BALANCE_CARD = 0x01"
definition PROFILE_APPEARANCE_KIND_TELEGRAM_GIFT :: byte where
  "PROFILE_APPEARANCE_KIND_TELEGRAM_GIFT = 1"
definition PROFILE_APPEARANCE_KIND_LOOK :: byte where "PROFILE_APPEARANCE_KIND_LOOK = 2"

lemmas profile_limits = PROFILE_DESCRIPTION_MAX_BYTES_def PROFILE_TAG_MAX_BYTES_def
  PROFILE_MAX_TAGS_def PROFILE_USERNAME_MAX_BYTES_def PROFILE_GROUPS_MAX_def
  PROFILE_GROUP_NAME_MAX_BYTES_def

text \<open>\<open>normalizeProfileTags\<close>: the set \<open>seen\<close> of the loop holds exactly the elements of \<open>out\<close>.\<close>

definition profile_tag :: "(js_string \<Rightarrow> js_string) \<Rightarrow> js_string option \<Rightarrow> js_string" where
  "profile_tag lower raw = trim (truncated PROFILE_TAG_MAX_BYTES (lower (trim (or_empty raw))))"

fun tags_loop ::
  "(js_string \<Rightarrow> js_string) \<Rightarrow> js_string list \<Rightarrow> js_string option list \<Rightarrow> js_string list" where
  "tags_loop lower out [] = out"
| "tags_loop lower out (raw # rest) =
     (let tag = profile_tag lower raw in
      if tag = [] \<or> tag \<in> set out then tags_loop lower out rest
      else if length (out @ [tag]) \<ge> PROFILE_MAX_TAGS then out @ [tag]
      else tags_loop lower (out @ [tag]) rest)"

definition normalizeProfileTags ::
  "(js_string \<Rightarrow> js_string) \<Rightarrow> js_string option list \<Rightarrow> js_string list" where
  "normalizeProfileTags lower tags = tags_loop lower [] tags"

definition profileGroupKeyHex ::
  "(js_string \<Rightarrow> js_string) \<Rightarrow> js_string option \<Rightarrow> js_string option" where
  "profileGroupKeyHex lower value =
     (let hex = lower (trim (or_empty value)) in
      if is_hex_of_length 64 hex \<and> hex \<noteq> replicate 64 48 then Some hex else None)"

record group_entry =
  ge_groupId :: "js_string option"
  ge_name :: "js_string option"
  ge_founder :: "js_string option"
  ge_owner :: "js_string option"

record profile_group =
  pg_groupId :: js_string
  pg_name :: js_string
  pg_founder :: "js_string option"
  pg_owner :: "js_string option"

fun groups_loop ::
  "(js_string \<Rightarrow> js_string) \<Rightarrow> profile_group list \<Rightarrow> group_entry list \<Rightarrow> profile_group list" where
  "groups_loop lower out [] = out"
| "groups_loop lower out (entry # rest) =
     (let groupId = lower (trim (or_empty (ge_groupId entry))) in
      if \<not> is_hex_of_length 64 groupId then groups_loop lower out rest
      else if \<exists>held \<in> set out. pg_groupId held = groupId then groups_loop lower out rest
      else
        (let out' = out @ [\<lparr>pg_groupId = groupId,
               pg_name = truncated PROFILE_GROUP_NAME_MAX_BYTES (trim (or_empty (ge_name entry))),
               pg_founder = profileGroupKeyHex lower (ge_founder entry),
               pg_owner = profileGroupKeyHex lower (ge_owner entry)\<rparr>] in
         if length out' \<ge> PROFILE_GROUPS_MAX then out' else groups_loop lower out' rest))"

definition normalizeProfileGroups ::
  "(js_string \<Rightarrow> js_string) \<Rightarrow> group_entry list \<Rightarrow> profile_group list" where
  "normalizeProfileGroups lower value = groups_loop lower [] value"

text \<open>\<open>RAW_ADDRESS_RE\<close>: \<^verbatim>\<open>/^-?\d{1,3}:[0-9a-f]{64}$/i\<close>.\<close>

definition RAW_ADDRESS_RE :: "js_string \<Rightarrow> bool" where
  "RAW_ADDRESS_RE s \<longleftrightarrow>
     (let body = (case s of [] \<Rightarrow> [] | c # r \<Rightarrow> if c = 45 then r else s);
          digits = takeWhile is_digit body; rest = dropWhile is_digit body
      in 1 \<le> length digits \<and> length digits \<le> 3
         \<and> (case rest of [] \<Rightarrow> False
            | c # h \<Rightarrow> c = 58 \<and> length h = 64
                \<and> (\<forall>d \<in> set h. is_hex_lower d \<or> (65 \<le> d \<and> d \<le> 70))))"

definition normalizeProfileWornGift ::
  "(js_string \<Rightarrow> js_string) \<Rightarrow> js_string option \<Rightarrow> js_string option" where
  "normalizeProfileWornGift lower value =
     (let address = lower (trim (or_empty value)) in
      if RAW_ADDRESS_RE address then Some address else None)"

section \<open>The appearance\<close>

definition THEME_DARK :: js_string where "THEME_DARK = str ''dark''"
definition THEME_LIGHT :: js_string where "THEME_LIGHT = str ''light''"
definition BG_NONE :: js_string where "BG_NONE = str ''none''"
definition BG_PLASMA :: js_string where "BG_PLASMA = str ''plasma''"
definition BG_NODES :: js_string where "BG_NODES = str ''nodes''"

definition PROFILE_LOOK_THEMES :: "js_string list" where
  "PROFILE_LOOK_THEMES = [THEME_DARK, THEME_LIGHT]"

definition PROFILE_LOOK_BACKGROUNDS :: "js_string list" where
  "PROFILE_LOOK_BACKGROUNDS = [BG_NONE, BG_PLASMA, BG_NODES]"

definition PROFILE_LOOK_SETTING_RANGES :: "js_string \<Rightarrow> (int \<times> int \<times> int) list" where
  "PROFILE_LOOK_SETTING_RANGES background =
     (if background = BG_PLASMA then [(0, 100, 30), (1, 16, 5), (25, 600, 175), (0, 200, 50)]
      else if background = BG_NODES then [(0, 300, 100), (0, 300, 100), (25, 300, 100), (0, 300, 100)]
      else [])"

text \<open>One setting: \<open>raw\<close> is \<open>Number\<close> of the entry (NaN where the array has none).\<close>

fun look_setting :: "int \<times> int \<times> int \<Rightarrow> js_num \<Rightarrow> int" where
  "look_setting (least, most, fallback) (Fin r) = max least (min most \<lfloor>r + 1 / 2\<rfloor>)"
| "look_setting (least, most, fallback) _ = fallback"

definition normalizeLookSettings :: "js_string \<Rightarrow> js_num list option \<Rightarrow> int list" where
  "normalizeLookSettings background values =
     (let ranges = PROFILE_LOOK_SETTING_RANGES background in
      map (\<lambda>index. look_setting (ranges ! index)
            (case values of None \<Rightarrow> NaN
             | Some vs \<Rightarrow> if index < length vs then vs ! index else NaN))
          [0..<length ranges])"

record appearance_value =
  av_kind :: js_string
  av_theme :: "js_string option"
  av_background :: "js_string option"
  av_settings :: "js_num list option"
  av_itemAddress :: "js_string option"

datatype appearance =
    TelegramGift js_string
  | Look js_string "js_string option" "int list" "js_string option"

definition normalizeProfileAppearance ::
  "(js_string \<Rightarrow> js_string) \<Rightarrow> appearance_value option \<Rightarrow> appearance option" where
  "normalizeProfileAppearance lower value =
     (case value of None \<Rightarrow> None
      | Some v \<Rightarrow>
          if av_kind v = str ''telegram-gift'' then
            (let itemAddress = lower (trim (or_empty (av_itemAddress v))) in
             if RAW_ADDRESS_RE itemAddress then Some (TelegramGift itemAddress) else None)
          else if av_kind v \<noteq> str ''look'' then None
          else
            (let theme = (case av_theme v of None \<Rightarrow> THEME_DARK
                   | Some t \<Rightarrow> if t \<in> set PROFILE_LOOK_THEMES then t else THEME_DARK);
                 background = (case av_background v of None \<Rightarrow> None
                   | Some b \<Rightarrow> if b \<in> set PROFILE_LOOK_BACKGROUNDS then Some b else None);
                 settings = (case background of None \<Rightarrow> []
                   | Some b \<Rightarrow> normalizeLookSettings b (av_settings v));
                 address = lower (trim (or_empty (av_itemAddress v)))
             in Some (Look theme background settings
                  (if RAW_ADDRESS_RE address then Some address else None))))"

text \<open>The bytes of an appearance that is already normal.\<close>

fun appearance_bytes :: "appearance \<Rightarrow> bytes" where
  "appearance_bytes (TelegramGift itemAddress) =
     PROFILE_APPEARANCE_KIND_TELEGRAM_GIFT # utf8_encode itemAddress"
| "appearance_bytes (Look theme background settings itemAddress) =
     (let gift = utf8_encode (or_empty itemAddress) in
      [PROFILE_APPEARANCE_KIND_LOOK, word_of_nat (index_of PROFILE_LOOK_THEMES theme),
       (case background of None \<Rightarrow> 0 | Some b \<Rightarrow> word_of_nat (index_of PROFILE_LOOK_BACKGROUNDS b)),
       word_of_nat (length settings)]
      @ concat (map (\<lambda>s. be_bytes 2 (nat s)) settings)
      @ [word_of_nat (length gift)] @ gift)"

definition encodeProfileAppearance ::
  "(js_string \<Rightarrow> js_string) \<Rightarrow> appearance_value option \<Rightarrow> bytes option" where
  "encodeProfileAppearance lower value = map_option appearance_bytes (normalizeProfileAppearance lower value)"

definition decodeProfileLook :: "(js_string \<Rightarrow> js_string) \<Rightarrow> bytes \<Rightarrow> appearance option" where
  "decodeProfileLook lower bytes =
     (if length bytes < 4 then None
      else
        (let themeIndex = unat (bytes ! 0); backgroundIndex = unat (bytes ! 1); count = unat (bytes ! 2) in
         if 3 + count * 2 + 1 > length bytes then None
         else
           (let settings = map (\<lambda>i. be_value (slice (3 + 2 * i) (3 + 2 * i + 2) bytes)) [0..<count];
                offset = 3 + count * 2;
                giftLength = unat (bytes ! offset)
            in if offset + 1 + giftLength > length bytes then None
               else normalizeProfileAppearance lower (Some
                 \<lparr>av_kind = str ''look'',
                  av_theme = Some (if themeIndex < length PROFILE_LOOK_THEMES
                    then PROFILE_LOOK_THEMES ! themeIndex else THEME_DARK),
                  av_background = Some (if backgroundIndex < length PROFILE_LOOK_BACKGROUNDS
                    then PROFILE_LOOK_BACKGROUNDS ! backgroundIndex else str ''unknown''),
                  av_settings = Some (map js_of_nat settings),
                  av_itemAddress = (if giftLength > 0
                    then Some (utf8_decode (slice (offset + 1) (offset + 1 + giftLength) bytes))
                    else None)\<rparr>))))"

section \<open>The block\<close>

record profile =
  p_description :: "js_string option"
  p_tags :: "js_string option list"
  p_ownerUsername :: "js_string option"
  p_appearance :: "appearance_value option"
  p_wornGift :: "js_string option"
  p_groups :: "group_entry list"
  p_balanceCard :: bool

text \<open>A field behind a byte that holds its length.\<close>

abbreviation sized :: "bytes \<Rightarrow> bytes" where
  "sized bs \<equiv> word_of_nat (length bs) # bs"

definition group_bytes :: "profile_group \<Rightarrow> bytes" where
  "group_bytes g = hex_bytes (pg_groupId g) @ sized (utf8_encode (pg_name g))"

definition key_bytes :: "js_string option \<Rightarrow> bytes" where
  "key_bytes key = (case key of None \<Rightarrow> replicate 32 0 | Some k \<Rightarrow> hex_bytes k)"

definition founder_bytes :: "profile_group \<Rightarrow> bytes" where
  "founder_bytes g = key_bytes (pg_founder g) @ key_bytes (pg_owner g)"

definition has_founder :: "profile_group list \<Rightarrow> bool" where
  "has_founder groups \<longleftrightarrow> (\<exists>g \<in> set groups. pg_founder g \<noteq> None \<or> pg_owner g \<noteq> None)"

definition profile_description :: "profile \<Rightarrow> js_string" where
  "profile_description p = truncated PROFILE_DESCRIPTION_MAX_BYTES (or_empty (p_description p))"

definition profile_username :: "profile \<Rightarrow> js_string" where
  "profile_username p = truncated PROFILE_USERNAME_MAX_BYTES (trim (or_empty (p_ownerUsername p)))"

definition encodeProfileBlockContent :: "(js_string \<Rightarrow> js_string) \<Rightarrow> profile \<Rightarrow> bytes" where
  "encodeProfileBlockContent lower p =
     (let description = utf8_encode (profile_description p);
          tags = map utf8_encode (normalizeProfileTags lower (p_tags p));
          ownerUsername = utf8_encode (profile_username p);
          appearance = encodeProfileAppearance lower (p_appearance p);
          wornGift = utf8_encode (or_empty (normalizeProfileWornGift lower (p_wornGift p)));
          groups = normalizeProfileGroups lower (p_groups p);
          flagged = p_balanceCard p
      in [PROFILE_BLOCK_CONTENT_VERSION] @ be_bytes 2 (length description) @ description
         @ [word_of_nat (length tags)] @ concat (map sized tags)
         @ sized ownerUsername
         @ (case appearance of Some a \<Rightarrow> sized a
            | None \<Rightarrow> if wornGift \<noteq> [] \<or> groups \<noteq> [] \<or> flagged then [0] else [])
         @ (if wornGift \<noteq> [] then sized wornGift
            else if groups \<noteq> [] \<or> flagged then [0] else [])
         @ (if groups \<noteq> [] then word_of_nat (length groups) # concat (map group_bytes groups)
            else if flagged then [0] else [])
         @ (if groups \<noteq> [] \<and> has_founder groups
            then word_of_nat (length groups) # concat (map founder_bytes groups) else [])
         @ (if flagged then [PROFILE_FLAGS_MARKER, 1, PROFILE_FLAG_BALANCE_CARD] else []))"

text \<open>The size \<open>total\<close> of the buffer the encoder allocates before it fills it.\<close>

definition profile_block_total :: "(js_string \<Rightarrow> js_string) \<Rightarrow> profile \<Rightarrow> nat" where
  "profile_block_total lower p =
     (let description = utf8_encode (profile_description p);
          tags = map utf8_encode (normalizeProfileTags lower (p_tags p));
          ownerUsername = utf8_encode (profile_username p);
          wornGift = utf8_encode (or_empty (normalizeProfileWornGift lower (p_wornGift p)));
          groups = normalizeProfileGroups lower (p_groups p);
          groupsBytes = (if groups \<noteq> []
            then 1 + sum_list (map (\<lambda>g. 32 + 1 + length (utf8_encode (pg_name g))) groups) else 0);
          foundersBytes = (if groupsBytes > 0 \<and> has_founder groups then 1 + length groups * 64 else 0);
          flagsBytes = (if p_balanceCard p then 3 else 0)
      in 1 + 2 + length description + 1
         + sum_list (map (\<lambda>tag. 1 + length tag) tags)
         + (1 + length ownerUsername)
         + (case encodeProfileAppearance lower (p_appearance p) of Some a \<Rightarrow> 1 + length a
            | None \<Rightarrow> if length wornGift > 0 \<or> groupsBytes > 0 \<or> flagsBytes > 0 then 1 else 0)
         + (if length wornGift > 0 then 1 + length wornGift
            else if groupsBytes > 0 \<or> flagsBytes > 0 then 1 else 0)
         + (groupsBytes + foundersBytes)
         + (if flagsBytes > 0 \<and> groupsBytes = 0 then 1 else 0)
         + flagsBytes)"

record profile_content =
  pc_description :: js_string
  pc_tags :: "js_string list"
  pc_ownerUsername :: js_string
  pc_appearance :: "appearance option"
  pc_wornGift :: "js_string option"
  pc_groups :: "profile_group list"
  pc_balanceCard :: bool

fun decode_tags :: "nat \<Rightarrow> bytes \<Rightarrow> (js_string list \<times> bytes) option" where
  "decode_tags 0 rest = Some ([], rest)"
| "decode_tags (Suc n) [] = None"
| "decode_tags (Suc n) (len # rest) =
     (if unat len > length rest then None
      else map_option (\<lambda>(tags, rest'). (utf8_decode (take (unat len) rest) # tags, rest'))
             (decode_tags n (drop (unat len) rest)))"

text \<open>
  The optional fields: nothing left leaves the default; a length byte below \<open>least\<close>, or one
  that runs past the end, is skipped alone.
\<close>

fun optional_field :: "nat \<Rightarrow> (bytes \<Rightarrow> 'a) \<Rightarrow> 'a \<Rightarrow> bytes \<Rightarrow> 'a \<times> bytes" where
  "optional_field least read absent [] = (absent, [])"
| "optional_field least read absent (len # rest) =
     (if least \<le> unat len \<and> unat len \<le> length rest
      then (read (take (unat len) rest), drop (unat len) rest)
      else (absent, rest))"

definition read_appearance :: "(js_string \<Rightarrow> js_string) \<Rightarrow> bytes \<Rightarrow> appearance option" where
  "read_appearance lower bs =
     (if bs ! 0 = PROFILE_APPEARANCE_KIND_TELEGRAM_GIFT then
        normalizeProfileAppearance lower (Some
          \<lparr>av_kind = str ''telegram-gift'', av_theme = None, av_background = None,
           av_settings = None, av_itemAddress = Some (utf8_decode (drop 1 bs))\<rparr>)
      else if bs ! 0 = PROFILE_APPEARANCE_KIND_LOOK then decodeProfileLook lower (drop 1 bs)
      else None)"

fun decode_groups :: "nat \<Rightarrow> bytes \<Rightarrow> profile_group list \<times> bytes" where
  "decode_groups 0 rest = ([], rest)"
| "decode_groups (Suc n) rest =
     (if 33 > length rest then ([], rest)
      else
        (let nameLength = unat (rest ! 32); after = drop 33 rest in
         if nameLength > length after then ([], after)
         else
           (let (groups, rest') = decode_groups n (drop nameLength after) in
            (\<lparr>pg_groupId = bytes_hex (take 32 rest), pg_name = utf8_decode (take nameLength after),
              pg_founder = None, pg_owner = None\<rparr> # groups, rest'))))"

definition key_at :: "bytes \<Rightarrow> js_string option" where
  "key_at bs = (if \<forall>b \<in> set bs. b = 0 then None else Some (bytes_hex bs))"

fun attach_founders :: "profile_group list \<Rightarrow> bytes \<Rightarrow> profile_group list" where
  "attach_founders [] rest = []"
| "attach_founders (g # gs) rest =
     g\<lparr>pg_founder := key_at (take 32 rest), pg_owner := key_at (take 32 (drop 32 rest))\<rparr>
     # attach_founders gs (drop 64 rest)"

definition decode_founders :: "profile_group list \<Rightarrow> bytes \<Rightarrow> profile_group list \<times> bytes" where
  "decode_founders groups rest =
     (if rest \<noteq> [] \<and> unat (rest ! 0) = length groups \<and> 1 + length groups * 64 \<le> length rest
      then (attach_founders groups (drop 1 rest), drop (1 + length groups * 64) rest)
      else (groups, rest))"

definition decode_flags :: "bytes \<Rightarrow> bool" where
  "decode_flags rest \<longleftrightarrow>
     3 \<le> length rest \<and> rest ! 0 = PROFILE_FLAGS_MARKER \<and> 1 \<le> unat (rest ! 1)
     \<and> 2 + unat (rest ! 1) \<le> length rest \<and> and (rest ! 2) PROFILE_FLAG_BALANCE_CARD \<noteq> 0"

definition decodeProfileBlockContent ::
  "(js_string \<Rightarrow> js_string) \<Rightarrow> bytes \<Rightarrow> profile_content option" where
  "decodeProfileBlockContent lower bytes =
     (if length bytes < 4 \<or> bytes ! 0 \<noteq> PROFILE_BLOCK_CONTENT_VERSION then None
      else
        (let descLength = be_value (slice 1 3 bytes) in
         if 3 + descLength + 1 > length bytes then None
         else
           (let description = truncated PROFILE_DESCRIPTION_MAX_BYTES
                  (utf8_decode (slice 3 (3 + descLength) bytes));
                tagCount = unat (bytes ! (3 + descLength))
            in (case decode_tags tagCount (drop (3 + descLength + 1) bytes) of
                  None \<Rightarrow> None
                | Some (rawTags, rest) \<Rightarrow>
                    (let (ownerUsername, rest) = optional_field 1 utf8_decode [] rest;
                         (appearance, rest) = optional_field 2 (read_appearance lower) None rest;
                         (wornGift, rest) = optional_field 1
                            (\<lambda>bs. normalizeProfileWornGift lower (Some (utf8_decode bs))) None rest;
                         (groups, rest) = (case rest of [] \<Rightarrow> ([], [])
                            | count # rest' \<Rightarrow> decode_groups (min (unat count) PROFILE_GROUPS_MAX) rest');
                         (groups, rest) = decode_founders groups rest
                     in Some \<lparr>pc_description = description,
                          pc_tags = normalizeProfileTags lower (map Some rawTags),
                          pc_ownerUsername = ownerUsername, pc_appearance = appearance,
                          pc_wornGift = wornGift, pc_groups = groups,
                          pc_balanceCard = decode_flags rest\<rparr>)))))"

section \<open>Normal values stay as they are\<close>

text \<open>
  What the code relies on of \<open>toLowerCase\<close>: text made of symbols lower-casing has produced
  is left unchanged by it.
\<close>

definition lower_stable :: "(js_string \<Rightarrow> js_string) \<Rightarrow> bool" where
  "lower_stable lower \<longleftrightarrow> (\<forall>s t. set t \<subseteq> set (lower s) \<longrightarrow> lower t = t)"

lemma lower_stableD: "lower_stable lower \<Longrightarrow> set t \<subseteq> set (lower s) \<Longrightarrow> lower t = t"
  by (auto simp: lower_stable_def)

lemma lower_stable_ascii_lower: "lower_stable ascii_lower"
proof (unfold lower_stable_def, intro allI impI)
  fix s t assume "set t \<subseteq> set (ascii_lower s)"
  then have "\<forall>c \<in> set t. \<not> is_upper c"
    by (auto simp: ascii_lower_def is_upper_def split: if_splits)
  then show "ascii_lower t = t" by (rule ascii_lower_id)
qed

lemma dropWhile_idem [simp]: "dropWhile P (dropWhile P xs) = dropWhile P xs"
  by (induction xs) auto

lemma trim_split: obtains a b where "s = a @ trim s @ b"
proof -
  let ?l = "dropWhile is_space s"
  have "rev ?l = takeWhile is_space (rev ?l) @ dropWhile is_space (rev ?l)" by simp
  then have "?l = trim s @ rev (takeWhile is_space (rev ?l))"
    unfolding trim_def by (metis rev_append rev_rev_ident)
  then have "s = takeWhile is_space s @ trim s @ rev (takeWhile is_space (rev ?l))"
    by (metis takeWhile_dropWhile_id)
  then show ?thesis by (rule that)
qed

lemma trim_idem [simp]: "trim (trim s) = trim s"
proof -
  let ?l = "dropWhile is_space s"
  have "dropWhile is_space (trim s) = trim s"
  proof (cases "trim s")
    case (Cons c cs)
    obtain b where "?l = trim s @ b"
      using takeWhile_dropWhile_id [of is_space "rev ?l"] unfolding trim_def
      by (metis rev_append rev_rev_ident)
    with Cons have "?l = c # cs @ b" by simp
    then have "\<not> is_space c" by (metis hd_dropWhile list.discI list.sel(1))
    with Cons show ?thesis by simp
  qed simp
  then have "trim (trim s) = rev (dropWhile is_space (rev (trim s)))"
    by (simp add: trim_def [of "trim s"])
  also have "\<dots> = trim s" by (simp add: trim_def)
  finally show ?thesis .
qed

lemma utf8ByteLength_trim: "utf8ByteLength (trim s) \<le> utf8ByteLength s"
proof -
  obtain a b where "s = a @ trim s @ b" by (rule trim_split)
  then have "utf8_encode s = utf8_encode a @ utf8_encode (trim s) @ utf8_encode b"
    by (metis utf8_encode_simps(3))
  then show ?thesis by (simp add: utf8ByteLength_def)
qed

lemma profile_tag_idem:
  assumes "lower_stable lower"
  shows "profile_tag lower (Some (profile_tag lower raw)) = profile_tag lower raw"
proof -
  define t where "t = profile_tag lower raw"
  have "set t \<subseteq> set (lower (trim (or_empty raw)))"
    unfolding t_def profile_tag_def using set_trim_subset truncated_set by (meson order_trans)
  then have "lower t = t" by (rule lower_stableD [OF assms])
  moreover have "trim t = t" by (simp add: t_def profile_tag_def)
  moreover have "truncated PROFILE_TAG_MAX_BYTES t = t"
    unfolding t_def profile_tag_def
    by (intro truncated_id order_trans [OF utf8ByteLength_trim truncated_le])
  ultimately have "profile_tag lower (Some t) = t" by (simp add: profile_tag_def)
  then show ?thesis by (simp add: t_def)
qed

lemma tags_loop_spec:
  assumes "distinct out" "length out < 12" "\<forall>t \<in> set out. t \<noteq> [] \<and> (\<exists>raw. t = profile_tag lower raw)"
    and res: "res = tags_loop lower out tags"
  shows "distinct res \<and> length res \<le> 12 \<and> (\<forall>t \<in> set res. t \<noteq> [] \<and> (\<exists>raw. t = profile_tag lower raw))"
  using assms(1-3) unfolding res
proof (induction lower out tags rule: tags_loop.induct)
  case (2 lower out raw rest)
  define tag where "tag = profile_tag lower raw"
  show ?case
  proof (cases "tag = [] \<or> tag \<in> set out")
    case True
    then have "tags_loop lower out (raw # rest) = tags_loop lower out rest"
      by (auto simp: tag_def Let_def)
    then show ?thesis using "2.IH"(1) [OF tag_def True "2.prems"] by simp
  next
    case False
    have inv: "distinct (out @ [tag])" "length (out @ [tag]) \<le> 12"
        "\<forall>t \<in> set (out @ [tag]). t \<noteq> [] \<and> (\<exists>raw. t = profile_tag lower raw)"
      using "2.prems" False by (auto simp: tag_def)
    show ?thesis
    proof (cases "length (out @ [tag]) \<ge> PROFILE_MAX_TAGS")
      case True
      with False have "tags_loop lower out (raw # rest) = out @ [tag]" by (simp add: tag_def)
      then show ?thesis using inv by simp
    next
      case more: False
      with False have "tags_loop lower out (raw # rest) = tags_loop lower (out @ [tag]) rest"
        by (simp add: tag_def)
      moreover have "length (out @ [tag]) < 12" using more by (simp add: PROFILE_MAX_TAGS_def)
      ultimately show ?thesis using "2.IH"(2) [OF tag_def False more inv(1) _ inv(3)] by simp
    qed
  qed
qed auto

lemma tags_loop_normal:
  assumes "\<forall>t \<in> set ts. t \<noteq> [] \<and> profile_tag lower (Some t) = t" "distinct (out @ ts)"
    "length (out @ ts) \<le> 12"
  shows "tags_loop lower out (map Some ts) = out @ ts"
  using assms
proof (induction ts arbitrary: out)
  case (Cons t ts)
  then have "tags_loop lower (out @ [t]) (map Some ts) = out @ t # ts" by simp
  with Cons.prems show ?case by (cases ts) (auto simp: Let_def PROFILE_MAX_TAGS_def)
qed simp

lemma normal_tags:
  shows "length (normalizeProfileTags lower tags) \<le> 12"
    and "distinct (normalizeProfileTags lower tags)"
    and "t \<in> set (normalizeProfileTags lower tags) \<Longrightarrow> t \<noteq> [] \<and> (\<exists>raw. t = profile_tag lower raw)"
  using tags_loop_spec [where out = "[]" and lower = lower and tags = tags, OF _ _ _ refl] by (auto simp: normalizeProfileTags_def)

lemma normalizeProfileTags_idem:
  assumes "lower_stable lower"
  shows "normalizeProfileTags lower (map Some (normalizeProfileTags lower tags)) = normalizeProfileTags lower tags"
proof -
  let ?ts = "normalizeProfileTags lower tags"
  have "tags_loop lower [] (map Some ?ts) = [] @ ?ts"
  proof (rule tags_loop_normal)
    show "\<forall>t \<in> set ?ts. t \<noteq> [] \<and> profile_tag lower (Some t) = t"
    proof
      fix t assume "t \<in> set ?ts"
      then obtain raw where "t \<noteq> []" "t = profile_tag lower raw" using normal_tags(3) by blast
      then show "t \<noteq> [] \<and> profile_tag lower (Some t) = t" using profile_tag_idem [OF assms] by simp
    qed
  qed (simp_all add: normal_tags)
  then show ?thesis by (simp add: normalizeProfileTags_def)
qed

lemma utf8_profile_tag: "length (utf8_encode (profile_tag lower raw)) \<le> 64"
  using order_trans [OF utf8ByteLength_trim truncated_le [of 64]]
  by (simp add: profile_tag_def PROFILE_TAG_MAX_BYTES_def utf8ByteLength_def)

definition normal_group :: "profile_group \<Rightarrow> bool" where
  "normal_group g \<longleftrightarrow> is_hex_of_length 64 (pg_groupId g) \<and> utf8ByteLength (pg_name g) \<le> 96
     \<and> (\<forall>k. pg_founder g = Some k \<or> pg_owner g = Some k \<longrightarrow> is_hex_of_length 64 k \<and> k \<noteq> replicate 64 48)"

lemma groups_loop_spec:
  assumes "length out < 8" "\<forall>g \<in> set out. normal_group g" "distinct (map pg_groupId out)"
    and res: "res = groups_loop lower out entries"
  shows "length res \<le> 8 \<and> (\<forall>g \<in> set res. normal_group g) \<and> distinct (map pg_groupId res)" (is "?P res")
  using assms(1-3) unfolding res
proof (induction lower out entries rule: groups_loop.induct)
  case (2 lower out entry rest)
  define g where "g = \<lparr>pg_groupId = lower (trim (or_empty (ge_groupId entry))),
               pg_name = truncated PROFILE_GROUP_NAME_MAX_BYTES (trim (or_empty (ge_name entry))),
               pg_founder = profileGroupKeyHex lower (ge_founder entry),
               pg_owner = profileGroupKeyHex lower (ge_owner entry)\<rparr>"
  have n: "normal_group g" if "is_hex_of_length 64 (pg_groupId g)"
    using that truncated_le [of 96 "trim (or_empty (ge_name entry))"]
    by (auto simp: normal_group_def g_def PROFILE_GROUP_NAME_MAX_BYTES_def profileGroupKeyHex_def
        Let_def split: if_splits)
  show ?case
  proof (cases "\<not> is_hex_of_length 64 (pg_groupId g) \<or> (\<exists>held \<in> set out. pg_groupId held = pg_groupId g)")
    case True
    then have "groups_loop lower out (entry # rest) = groups_loop lower out rest"
      by (auto simp: g_def Let_def)
    moreover have "?P (groups_loop lower out rest)"
      using True "2.IH"(1) [OF refl _ "2.prems"] "2.IH"(2) [OF refl _ _ "2.prems"]
      by (cases "is_hex_of_length 64 (pg_groupId g)") (simp_all add: g_def)
    ultimately show ?thesis by simp
  next
    case False
    then have inv: "length (out @ [g]) \<le> 8" "\<forall>h \<in> set (out @ [g]). normal_group h"
        "distinct (map pg_groupId (out @ [g]))"
      using "2.prems" n by auto
    have hex: "is_hex_of_length 64 (lower (trim (or_empty (ge_groupId entry))))"
      and new: "\<not> (\<exists>held \<in> set out. pg_groupId held = lower (trim (or_empty (ge_groupId entry))))"
      using False by (simp_all add: g_def)
    have step: "groups_loop lower out (entry # rest)
        = (if length (out @ [g]) \<ge> PROFILE_GROUPS_MAX then out @ [g] else groups_loop lower (out @ [g]) rest)"
      using hex new unfolding groups_loop.simps Let_def by (simp only: g_def if_False not_not simp_thms)
    show ?thesis
    proof (cases "length (out @ [g]) \<ge> PROFILE_GROUPS_MAX")
      case True
      then show ?thesis using step inv by simp
    next
      case more: False
      then have "length (out @ [g]) < 8" by (simp add: PROFILE_GROUPS_MAX_def)
      then have "?P (groups_loop lower (out @ [g]) rest)"
        using "2.IH"(3) [OF refl _ new g_def [THEN arg_cong [of _ _ "\<lambda>g. out @ [g]"]]] hex more inv by blast
      then show ?thesis using step more by simp
    qed
  qed
qed auto

lemma normal_groups:
  shows "length (normalizeProfileGroups lower entries) \<le> 8"
    and "g \<in> set (normalizeProfileGroups lower entries) \<Longrightarrow> normal_group g"
    and "distinct (map pg_groupId (normalizeProfileGroups lower entries))"
  using groups_loop_spec [where out = "[]" and lower = lower and entries = entries, OF _ _ _ refl] by (auto simp: normalizeProfileGroups_def)

text \<open>A raw address is plain ASCII without white space.\<close>

lemma raw_address_ascii:
  assumes "RAW_ADDRESS_RE s"
  shows "\<forall>c \<in> set s. c < 128 \<and> \<not> is_space c" "s \<noteq> []" "length s \<le> 69"
proof -
  let ?body = "case s of [] \<Rightarrow> [] | c # r \<Rightarrow> if c = 45 then r else s"
  obtain h where h: "dropWhile is_digit ?body = 58 # h" "length h = 64"
      "\<forall>d \<in> set h. is_hex_lower d \<or> (65 \<le> d \<and> d \<le> 70)" "length (takeWhile is_digit ?body) \<le> 3"
    using assms by (auto simp: RAW_ADDRESS_RE_def Let_def split: list.splits)
  have b: "?body = takeWhile is_digit ?body @ 58 # h"
    using takeWhile_dropWhile_id [of is_digit ?body] h(1) by simp
  have "\<forall>c \<in> set ?body. c < 128 \<and> \<not> is_space c"
  proof
    fix c assume "c \<in> set ?body"
    then consider "c \<in> set (takeWhile is_digit ?body)" | "c = 58" | "c \<in> set h"
      by (subst (asm) b) auto
    then show "c < 128 \<and> \<not> is_space c"
      using h(3) by cases (auto dest!: set_takeWhileD simp: char_class_defs is_space_def)
  qed
  moreover have "set s \<subseteq> {45} \<union> set ?body" by (cases s) auto
  moreover have "\<not> is_space 45" by (simp add: is_space_def)
  ultimately show "\<forall>c \<in> set s. c < 128 \<and> \<not> is_space c" by force
  have "length ?body = length (takeWhile is_digit ?body) + 65" by (subst b) (simp add: h(2))
  then have lb: "length ?body \<le> 68" "?body \<noteq> []" using h(4) by auto
  then show "s \<noteq> []" by auto
  show "length s \<le> 69" using lb(1) by (cases s) (auto split: if_splits)
qed

lemma raw_address_text:
  assumes "RAW_ADDRESS_RE s"
  shows "utf8_decode (utf8_encode s) = s" "trim s = s" "utf8_encode s = map word_of_nat s"
proof -
  note a = raw_address_ascii [OF assms]
  have "well_formed_text s"
    using a(1) by (fastforce simp: well_formed_text_def is_scalar_def is_surrogate_def split: list.split)
  then show "utf8_decode (utf8_encode s) = s" by (rule utf8_decode_encode)
  show "trim s = s" using a(1) by (intro trim_id) auto
  show "utf8_encode s = map word_of_nat s" using a(1) by (intro utf8_encode_ascii) auto
qed

lemma normal_address:
  assumes "lower_stable lower" "RAW_ADDRESS_RE (lower (trim x))"
  shows "lower (trim (lower (trim x))) = lower (trim x)"
  using lower_stableD [OF assms(1), of "lower (trim x)" "trim x"] raw_address_text(2) [OF assms(2)]
  by simp

section \<open>Every field is read back\<close>

lemma sized_len: "length bs < 256 \<Longrightarrow> unat (word_of_nat (length bs) :: byte) = length bs"
  by (rule unat_small_byte)

lemma optional_field_sized:
  "least \<le> length bs \<Longrightarrow> length bs < 256 \<Longrightarrow>
     optional_field least read absent (sized bs @ rest) = (read bs, rest)"
  by (simp add: sized_len)

lemma optional_field_zero: "0 < least \<Longrightarrow> optional_field least read absent (0 # rest) = (absent, rest)"
  by simp

lemma decode_tags_sized:
  assumes "\<forall>t \<in> set ts. well_formed_text t \<and> length (utf8_encode t) < 256"
  shows "decode_tags (length ts) (concat (map sized (map utf8_encode ts)) @ rest) = Some (ts, rest)"
  using assms by (induction ts) (simp_all add: sized_len utf8_decode_encode)

lemma group_bytes_split:
  assumes "is_hex_of_length 64 (pg_groupId g)" "length (utf8_encode (pg_name g)) < 256"
    and bs: "bs = group_bytes g @ rest"
  shows "33 \<le> length bs" "take 32 bs = hex_bytes (pg_groupId g)"
    "unat (bs ! 32) = length (utf8_encode (pg_name g))" "drop 33 bs = utf8_encode (pg_name g) @ rest"
  using assms by (simp_all add: group_bytes_def is_hex_of_length_def nth_append sized_len)

lemma is_hex_roundtrip: "is_hex_of_length 64 s \<Longrightarrow> bytes_hex (hex_bytes s) = s"
  by (simp add: is_hex_of_length_def bytes_hex_hex_bytes)

lemma decode_groups_bytes:
  assumes "\<forall>g \<in> set gs. is_hex_of_length 64 (pg_groupId g) \<and> length (utf8_encode (pg_name g)) < 256
      \<and> well_formed_text (pg_name g)"
  shows "decode_groups (length gs) (concat (map group_bytes gs) @ rest)
    = (map (\<lambda>g. g\<lparr>pg_founder := None, pg_owner := None\<rparr>) gs, rest)"
  using assms
proof (induction gs)
  case (Cons g gs)
  let ?rest = "concat (map group_bytes gs) @ rest"
  have g: "is_hex_of_length 64 (pg_groupId g)" "length (utf8_encode (pg_name g)) < 256"
      "well_formed_text (pg_name g)"
    using Cons.prems by auto
  define bs where "bs = group_bytes g @ ?rest"
  note split = group_bytes_split [OF g(1,2) bs_def]
  have bs: "concat (map group_bytes (g # gs)) @ rest = bs" by (simp add: bs_def)
  have "decode_groups (length gs) ?rest = (map (\<lambda>g. g\<lparr>pg_founder := None, pg_owner := None\<rparr>) gs, rest)"
    using Cons by simp
  then show ?case
    using split(1) unfolding bs
    by (simp add: split(2-4) Let_def is_hex_roundtrip [OF g(1)] utf8_decode_encode [OF g(3)])
qed simp

lemma bytes_hex_zero: "bytes_hex (replicate n 0) = replicate (2 * n) 48"
  by (induction n) (simp_all add: hex_digit_def)

lemma hex_bytes_zero:
  assumes "is_hex_of_length 64 s" "\<forall>b \<in> set (hex_bytes s). b = 0"
  shows "s = replicate 64 48"
proof -
  have "length (hex_bytes s) = 32" using assms(1) by (simp add: is_hex_of_length_def)
  then have "hex_bytes s = replicate 32 0" using assms(2) by (intro replicate_eqI) auto
  then have "s = bytes_hex (replicate 32 0)" using is_hex_roundtrip [OF assms(1)] by metis
  then show ?thesis by (simp only: bytes_hex_zero) simp
qed

lemma key_roundtrip:
  assumes "\<forall>k. key = Some k \<longrightarrow> is_hex_of_length 64 k \<and> k \<noteq> replicate 64 48"
  shows "length (key_bytes key) = 32" "key_at (key_bytes key) = key"
proof -
  show "length (key_bytes key) = 32"
    using assms by (auto simp: key_bytes_def is_hex_of_length_def split: option.split)
  show "key_at (key_bytes key) = key"
  proof (cases key)
    case (Some k)
    then have "\<not> (\<forall>b \<in> set (hex_bytes k). b = 0)" using assms hex_bytes_zero by blast
    then show ?thesis using Some assms by (auto simp: key_at_def key_bytes_def is_hex_roundtrip)
  qed (simp add: key_at_def key_bytes_def)
qed

lemma attach_founders_bytes:
  assumes "\<forall>g \<in> set gs. normal_group g"
  shows "attach_founders (map (\<lambda>g. g\<lparr>pg_founder := None, pg_owner := None\<rparr>) gs)
      (concat (map founder_bytes gs) @ rest) = gs
    \<and> length (concat (map founder_bytes gs)) = length gs * 64"
  using assms
proof (induction gs)
  case (Cons g gs)
  have k: "length (key_bytes (pg_founder g)) = 32" "length (key_bytes (pg_owner g)) = 32"
      "key_at (key_bytes (pg_founder g)) = pg_founder g" "key_at (key_bytes (pg_owner g)) = pg_owner g"
    using key_roundtrip [of "pg_founder g"] key_roundtrip [of "pg_owner g"] Cons.prems
    by (auto simp: normal_group_def)
  from Cons k show ?case by (simp add: founder_bytes_def)
qed simp

lemma without_founders: "\<not> has_founder gs \<Longrightarrow> map (\<lambda>g. g\<lparr>pg_founder := None, pg_owner := None\<rparr>) gs = gs"
  by (rule map_idI) (auto simp: has_founder_def)

lemma decode_flags_bytes:
  "decode_flags (if flagged then [PROFILE_FLAGS_MARKER, 1, PROFILE_FLAG_BALANCE_CARD] else []) = flagged"
  by (simp add: decode_flags_def PROFILE_FLAG_BALANCE_CARD_def)

lemma decode_founders_bytes:
  assumes "\<forall>g \<in> set gs. normal_group g" "length gs \<le> 8" "gs \<noteq> []"
    and tail: "tail = (if flagged then [PROFILE_FLAGS_MARKER, 1, PROFILE_FLAG_BALANCE_CARD] else [])"
  shows "decode_founders (map (\<lambda>g. g\<lparr>pg_founder := None, pg_owner := None\<rparr>) gs)
     ((if has_founder gs then word_of_nat (length gs) # concat (map founder_bytes gs) else []) @ tail)
     = (gs, tail)"
proof (cases "has_founder gs")
  case True
  note a = attach_founders_bytes [OF assms(1), of tail]
  have "unat (word_of_nat (length gs) :: byte) = length gs" using assms(2) by (intro unat_small_byte) simp
  with True a show ?thesis by (simp add: decode_founders_def)
next
  case False
  have "unat PROFILE_FLAGS_MARKER \<noteq> length gs" using assms(2) by (simp add: PROFILE_FLAGS_MARKER_def)
  with False show ?thesis by (auto simp: decode_founders_def tail without_founders)
qed

text \<open>The appearance; a look without a known background is written, and read back, as one with none.\<close>

fun shown_appearance :: "appearance \<Rightarrow> appearance" where
  "shown_appearance (TelegramGift a) = TelegramGift a"
| "shown_appearance (Look theme background settings a) =
     Look theme (Some (case background of None \<Rightarrow> BG_NONE | Some b \<Rightarrow> b)) settings a"

lemma slice_pairs:
  "i < length ns \<Longrightarrow> slice (2 * i) (2 * i + 2) (concat (map (be_bytes 2) ns) @ rest) = be_bytes 2 (ns ! i)"
proof (induction ns arbitrary: i)
  case (Cons n ns)
  show ?case
  proof (cases i)
    case 0
    then show ?thesis by (simp add: slice_def del: be_bytes.simps)
  next
    case (Suc j)
    with Cons show ?thesis by (simp add: slice_def del: be_bytes.simps)
  qed
qed simp

lemma length_pairs [simp]: "length (concat (map (be_bytes 2) ns)) = 2 * length ns"
  by (induction ns) (simp_all del: be_bytes.simps)

lemma look_setting_range:
  assumes "least \<le> fallback" "fallback \<le> most"
  shows "least \<le> look_setting (least, most, fallback) v" "look_setting (least, most, fallback) v \<le> most"
  using assms by (cases v; simp)+

lemma look_setting_normal:
  assumes "least \<le> v" "v \<le> most" "0 \<le> v"
  shows "look_setting (least, most, fallback) (js_of_nat (nat v)) = v"
proof -
  have "\<lfloor>(of_nat (nat v) :: rat) + 1 / 2\<rfloor> = v" using assms(3) by (simp add: floor_unique)
  with assms show ?thesis by (simp add: js_of_nat_def)
qed

definition setting_ok :: "int \<times> int \<times> int \<Rightarrow> bool" where
  "setting_ok r = (case r of (least, most, fallback) \<Rightarrow>
     0 \<le> least \<and> least \<le> fallback \<and> fallback \<le> most \<and> most < 65536)"

lemma ranges_ok: "r \<in> set (PROFILE_LOOK_SETTING_RANGES b) \<Longrightarrow> setting_ok r"
  by (auto simp: PROFILE_LOOK_SETTING_RANGES_def setting_ok_def split: if_splits)

lemma length_ranges: "length (PROFILE_LOOK_SETTING_RANGES b) \<le> 4"
  by (simp add: PROFILE_LOOK_SETTING_RANGES_def)

lemma settings_range:
  assumes "v \<in> set (normalizeLookSettings b values)"
  shows "0 \<le> v" "v < 65536"
proof -
  obtain i x where i: "i < length (PROFILE_LOOK_SETTING_RANGES b)"
      "v = look_setting (PROFILE_LOOK_SETTING_RANGES b ! i) x"
    using assms by (auto simp: normalizeLookSettings_def Let_def)
  obtain least most fallback where r: "PROFILE_LOOK_SETTING_RANGES b ! i = (least, most, fallback)"
    by (cases "PROFILE_LOOK_SETTING_RANGES b ! i")
  have ok: "setting_ok (least, most, fallback)" using ranges_ok nth_mem [OF i(1)] r by metis
  then show "0 \<le> v" "v < 65536"
    using look_setting_range [of least fallback most x] i(2) r by (auto simp: setting_ok_def)
qed

lemma normalizeLookSettings_idem:
  "normalizeLookSettings b (Some (map js_of_nat (map nat (normalizeLookSettings b values))))
     = normalizeLookSettings b values"
proof -
  let ?R = "PROFILE_LOOK_SETTING_RANGES b" and ?S = "normalizeLookSettings b values"
  have len: "length ?S = length ?R" by (simp add: normalizeLookSettings_def Let_def)
  show ?thesis
  proof (rule nth_equalityI)
    fix i assume "i < length (normalizeLookSettings b (Some (map js_of_nat (map nat ?S))))"
    then have i: "i < length ?R" by (simp add: normalizeLookSettings_def Let_def)
    obtain least most fallback where r: "?R ! i = (least, most, fallback)" by (cases "?R ! i")
    have ok: "setting_ok (least, most, fallback)" using ranges_ok nth_mem [OF i] r by metis
    obtain x where x: "?S ! i = look_setting (least, most, fallback) x"
      using i r by (simp add: normalizeLookSettings_def Let_def)
    have "look_setting (?R ! i) (js_of_nat (nat (?S ! i))) = ?S ! i"
      unfolding r using ok look_setting_range [of least fallback most x]
      by (intro look_setting_normal) (auto simp: x setting_ok_def)
    then show "normalizeLookSettings b (Some (map js_of_nat (map nat ?S))) ! i = ?S ! i"
      using i len by (simp add: normalizeLookSettings_def [of b "Some _"] Let_def)
  qed (simp add: normalizeLookSettings_def Let_def)
qed

lemma settings_of_none: "normalizeLookSettings BG_NONE values = []"
  by (simp add: normalizeLookSettings_def PROFILE_LOOK_SETTING_RANGES_def BG_NONE_def BG_PLASMA_def
      BG_NODES_def str_def)

lemma decode_look:
  assumes "theme \<in> set PROFILE_LOOK_THEMES"
    and "b = (case background of None \<Rightarrow> BG_NONE | Some b \<Rightarrow> b)" "b \<in> set PROFILE_LOOK_BACKGROUNDS"
    and "settings = (case background of None \<Rightarrow> [] | Some b \<Rightarrow> normalizeLookSettings b values)"
    and stable: "lower_stable lower"
    and gift: "gift = lower (trim x)" "itemAddress = (if RAW_ADDRESS_RE gift then Some gift else None)"
  shows "decodeProfileLook lower (drop 1 (appearance_bytes (Look theme background settings itemAddress)))
    = Some (Look theme (Some b) settings itemAddress)"
proof -
  let ?ti = "index_of PROFILE_LOOK_THEMES theme" and ?bi = "index_of PROFILE_LOOK_BACKGROUNDS b"
  let ?ns = "map nat settings" and ?g = "utf8_encode (or_empty itemAddress)"
  define n where "n = length settings"
  have n4: "n \<le> 4"
    using length_ranges assms(4) by (auto simp: n_def normalizeLookSettings_def Let_def split: option.splits)
  have ti: "?ti < 2" "PROFILE_LOOK_THEMES ! ?ti = theme"
    and bi: "?bi < 3" "PROFILE_LOOK_BACKGROUNDS ! ?bi = b"
    using index_of_nth [OF assms(1)] index_of_nth [OF assms(3)]
    by (simp_all add: PROFILE_LOOK_THEMES_def PROFILE_LOOK_BACKGROUNDS_def)
  have g69: "length ?g < 256"
    using gift raw_address_ascii(3) [of gift] raw_address_text(3) [of gift] by (auto split: if_splits)
  have bg: "(case background of None \<Rightarrow> 0 | Some b \<Rightarrow> word_of_nat (index_of PROFILE_LOOK_BACKGROUNDS b))
      = (word_of_nat ?bi :: byte)"
    using assms(2) by (simp add: PROFILE_LOOK_BACKGROUNDS_def split: option.split)
  define P where "P = concat (map (be_bytes 2) ?ns)"
  have pl [simp]: "length P = 2 * n" by (simp only: P_def length_pairs length_map n_def)
  define bs where "bs = [word_of_nat ?ti, word_of_nat ?bi, word_of_nat n]
      @ P @ word_of_nat (length ?g) # ?g"
  have bs: "drop 1 (appearance_bytes (Look theme background settings itemAddress)) = bs"
    unfolding appearance_bytes.simps Let_def bg bs_def n_def P_def by (simp add: comp_def del: be_bytes.simps)
  have len: "length bs = 4 + 2 * n + length ?g" by (simp add: bs_def)
  have hd: "unat (bs ! 0) = ?ti" "unat (bs ! 1) = ?bi" "unat (bs ! 2) = n"
    using ti(1) bi(1) n4 by (simp_all add: bs_def unat_small_byte del: One_nat_def)
  have gl: "unat (bs ! (3 + n * 2)) = length ?g"
    using g69 by (subst unat_small_byte [symmetric]) (simp_all add: bs_def nth_append)
  have settings: "be_value (slice (3 + 2 * i) (3 + 2 * i + 2) bs) = ?ns ! i" if "i < n" for i
  proof -
    have "slice (3 + 2 * i) (3 + 2 * i + 2) bs
        = slice (2 * i) (2 * i + 2) (P @ word_of_nat (length ?g) # ?g)"
      using slice_append_skip [of "[word_of_nat ?ti, word_of_nat ?bi, word_of_nat n]" "2 * i" "2 * i + 2"]
      by (simp only: bs_def list.size) (simp add: numeral_eq_Suc)
    also have "\<dots> = be_bytes 2 (?ns ! i)" unfolding P_def using that by (intro slice_pairs) (simp add: n_def)
    finally have "be_value (slice (3 + 2 * i) (3 + 2 * i + 2) bs) = ?ns ! i mod 65536"
      by (simp add: be_value_be_bytes)
    moreover have "?ns ! i < 65536"
    proof -
      have "settings ! i \<in> set settings" using that by (simp add: n_def)
      then have "settings ! i < 65536" "0 \<le> settings ! i"
        using settings_range assms(4) by (auto split: option.splits)
      then show ?thesis using that by (simp add: n_def)
    qed
    ultimately show ?thesis by simp
  qed
  then have ms: "map (\<lambda>i. be_value (slice (3 + 2 * i) (3 + 2 * i + 2) bs)) [0..<n] = ?ns"
    by (intro nth_equalityI) (simp_all add: n_def)
  have sl: "slice (3 + n * 2 + 1) (3 + n * 2 + 1 + length ?g) bs = ?g"
  proof -
    have bs3: "bs = ([word_of_nat ?ti, word_of_nat ?bi, word_of_nat n] @ P @ [word_of_nat (length ?g)]) @ ?g @ []"
      by (simp add: bs_def)
    show ?thesis unfolding bs3 by (rule slice_field) simp_all
  qed
  have "normalizeLookSettings b (Some (map js_of_nat ?ns)) = settings"
  proof (cases background)
    case None
    then show ?thesis using assms(2,4) by (simp add: settings_of_none)
  next
    case (Some b')
    then show ?thesis using assms(2,4) normalizeLookSettings_idem [of b "values"] by simp
  qed
  moreover have "lower (trim (or_empty itemAddress)) = or_empty itemAddress \<or> itemAddress = None"
    using normal_address [OF stable, of x] gift by auto
  moreover have "\<not> RAW_ADDRESS_RE (lower (trim []))"
  proof
    assume r: "RAW_ADDRESS_RE (lower (trim []))"
    have "lower [] = []" using lower_stableD [OF stable, of "[]"] by simp
    with r show False using raw_address_ascii(2) [of "[]"] by (simp add: trim_def)
  qed
  moreover have "utf8_decode (utf8_encode (or_empty itemAddress)) = or_empty itemAddress"
    using gift raw_address_text(1) by (auto simp: utf8_decode_def split: if_splits)
  moreover have "\<not> length ?g = 0" if "itemAddress \<noteq> None"
    using that gift raw_address_ascii(2) by (auto split: if_splits)
  moreover have "length PROFILE_LOOK_THEMES = 2" "length PROFILE_LOOK_BACKGROUNDS = 3"
    by (simp_all add: PROFILE_LOOK_THEMES_def PROFILE_LOOK_BACKGROUNDS_def)
  moreover have "str ''look'' \<noteq> str ''telegram-gift''" by (simp add: str_def)
  ultimately show ?thesis
    using assms(1,3) gift ti bi unfolding bs decodeProfileLook_def Let_def hd gl ms sl
    by (cases itemAddress) (auto simp: len normalizeProfileAppearance_def Let_def split: if_splits)
qed


lemma normal_appearance:
  assumes stable: "lower_stable lower" and a: "normalizeProfileAppearance lower v = Some a"
  shows "2 \<le> length (appearance_bytes a)" "length (appearance_bytes a) < 256"
    and "read_appearance lower (appearance_bytes a) = Some (shown_appearance a)"
proof -
  have "2 \<le> length (appearance_bytes a) \<and> length (appearance_bytes a) < 256
      \<and> read_appearance lower (appearance_bytes a) = Some (shown_appearance a)"
  proof (cases a)
    case (TelegramGift s)
    with a obtain x where s: "s = lower (trim x)" "RAW_ADDRESS_RE s"
      by (auto simp: normalizeProfileAppearance_def Let_def split: option.splits if_splits)
    have "lower (trim s) = s" using normal_address [OF stable, of x] s by simp
    then show ?thesis
      using TelegramGift s(2) raw_address_ascii(2,3) [OF s(2)] raw_address_text [OF s(2)]
      by (cases s) (simp_all add: read_appearance_def normalizeProfileAppearance_def)
  next
    case (Look theme background settings itemAddress)
    obtain w where w: "v = Some w" using a by (cases v) (simp_all add: normalizeProfileAppearance_def)
    then have v: "v = Some w" "av_kind w = str ''look''"
      using a unfolding w normalizeProfileAppearance_def Look option.case Let_def
      by (auto simp only: appearance.distinct option.inject option.distinct split: if_splits)
    define b where "b = (case background of None \<Rightarrow> BG_NONE | Some b \<Rightarrow> b)"
    have n: "theme \<in> set PROFILE_LOOK_THEMES" "b \<in> set PROFILE_LOOK_BACKGROUNDS"
        "settings = (case background of None \<Rightarrow> [] | Some b \<Rightarrow> normalizeLookSettings b (av_settings w))"
        "itemAddress = (if RAW_ADDRESS_RE (lower (trim (or_empty (av_itemAddress w))))
           then Some (lower (trim (or_empty (av_itemAddress w)))) else None)"
      using a v Look
      by (auto simp: normalizeProfileAppearance_def Let_def b_def str_def PROFILE_LOOK_THEMES_def
          PROFILE_LOOK_BACKGROUNDS_def split: option.splits if_splits)
    have d: "decodeProfileLook lower (drop 1 (appearance_bytes a)) = Some (shown_appearance a)"
      unfolding Look shown_appearance.simps b_def [symmetric]
      by (rule decode_look [OF n(1) b_def n(2,3) stable refl n(4)])
    have "length settings \<le> 4"
      using n(3) length_ranges by (auto simp: normalizeLookSettings_def Let_def split: option.splits)
    moreover have "length (concat (map (\<lambda>s. be_bytes 2 (nat s)) settings)) = 2 * length settings"
      by (induction settings) (simp_all del: be_bytes.simps)
    moreover have "length (utf8_encode (or_empty itemAddress)) \<le> 69"
      using n(4) raw_address_ascii(3) raw_address_text(3) by (auto split: if_splits)
    ultimately have "2 \<le> length (appearance_bytes a) \<and> length (appearance_bytes a) < 256"
      unfolding Look appearance_bytes.simps Let_def by (simp del: be_bytes.simps)
    moreover have "appearance_bytes a ! 0 = PROFILE_APPEARANCE_KIND_LOOK"
      by (simp add: Look Let_def)
    ultimately show ?thesis
      using d by (simp add: read_appearance_def PROFILE_APPEARANCE_KIND_TELEGRAM_GIFT_def
          PROFILE_APPEARANCE_KIND_LOOK_def)
  qed
  then show "2 \<le> length (appearance_bytes a)" "length (appearance_bytes a) < 256"
    "read_appearance lower (appearance_bytes a) = Some (shown_appearance a)" by auto
qed

lemma length_group_bytes:
  "normal_group g \<Longrightarrow> length (group_bytes g) = 32 + 1 + length (utf8_encode (pg_name g))"
  by (simp add: group_bytes_def normal_group_def is_hex_of_length_def)

lemma length_concat_sized: "length (concat (map sized ts)) = sum_list (map (\<lambda>t. 1 + length t) ts)"
  by (induction ts) simp_all

text \<open>
  The buffer \<open>encodeProfileBlockContent\<close> allocates has exactly the size of what it writes: no
  write falls outside it and no byte is left over, for every profile.
\<close>

theorem profile_block_length:
  "length (encodeProfileBlockContent lower p) = profile_block_total lower p"
proof -
  define gs where "gs = normalizeProfileGroups lower (p_groups p)"
  have normal: "\<forall>g \<in> set gs. normal_group g" using normal_groups(2) by (simp add: gs_def)
  have g: "length (concat (map group_bytes gs)) = sum_list (map (\<lambda>g. 32 + 1 + length (utf8_encode (pg_name g))) gs)"
    using normal by (induction gs) (simp_all add: length_group_bytes)
  have f: "length (concat (map founder_bytes gs)) = length gs * 64"
    using attach_founders_bytes [OF normal] by blast
  define ts where "ts = map utf8_encode (normalizeProfileTags lower (p_tags p))"
  have t: "length (concat (map sized ts)) = sum_list (map (\<lambda>tag. 1 + length tag) ts)"
    by (rule length_concat_sized)
  show ?thesis
    unfolding encodeProfileBlockContent_def profile_block_total_def Let_def
      gs_def [symmetric] ts_def [symmetric]
    by (auto simp: g f t split: option.split)
qed

definition profile_shown :: "(js_string \<Rightarrow> js_string) \<Rightarrow> profile \<Rightarrow> profile_content" where
  "profile_shown lower p =
     \<lparr>pc_description = profile_description p, pc_tags = normalizeProfileTags lower (p_tags p),
      pc_ownerUsername = profile_username p,
      pc_appearance = map_option shown_appearance (normalizeProfileAppearance lower (p_appearance p)),
      pc_wornGift = normalizeProfileWornGift lower (p_wornGift p),
      pc_groups = normalizeProfileGroups lower (p_groups p), pc_balanceCard = p_balanceCard p\<rparr>"


lemma username_stage:
  assumes "well_formed_text (profile_username p)"
  shows "optional_field 1 utf8_decode [] (sized (utf8_encode (profile_username p)) @ tail)
    = (profile_username p, tail)"
proof (cases "profile_username p")
  case Nil
  then show ?thesis by simp
next
  case (Cons c s)
  have "length (utf8_encode (profile_username p)) \<le> 20"
    using truncated_le [of 20] by (simp add: profile_username_def PROFILE_USERNAME_MAX_BYTES_def utf8ByteLength_def)
  moreover have "1 \<le> length (utf8_encode (profile_username p))"
    using Cons utf8_symbol_length(1) [of c] by simp
  ultimately show ?thesis
    using utf8_decode_encode [OF assms] by (subst optional_field_sized) simp_all
qed

lemma appearance_stage:
  assumes "lower_stable lower"
    and "field = (case encodeProfileAppearance lower v of Some a \<Rightarrow> sized a
           | None \<Rightarrow> if later then [0] else [])"
    and "\<not> later \<Longrightarrow> tail = []"
  shows "optional_field 2 (read_appearance lower) None (field @ tail)
    = (map_option shown_appearance (normalizeProfileAppearance lower v), tail)"
proof (cases "normalizeProfileAppearance lower v")
  case None
  then show ?thesis using assms(2,3) by (cases later) (simp_all add: encodeProfileAppearance_def)
next
  case (Some a)
  then have "field = sized (appearance_bytes a)" using assms(2) by (simp add: encodeProfileAppearance_def)
  then show ?thesis
    using Some normal_appearance [OF assms(1) Some] by (simp add: sized_len)
qed

lemma worn_stage:
  assumes "lower_stable lower" and "worn = utf8_encode (or_empty (normalizeProfileWornGift lower v))"
    and "field = (if worn \<noteq> [] then sized worn else if later then [0] else [])"
    and "\<not> later \<Longrightarrow> tail = []"
  shows "optional_field 1 (\<lambda>bs. normalizeProfileWornGift lower (Some (utf8_decode bs))) None (field @ tail)
    = (normalizeProfileWornGift lower v, tail)"
proof (cases "normalizeProfileWornGift lower v")
  case None
  then show ?thesis using assms(2-4) by (cases later) simp_all
next
  case (Some s)
  then have s: "s = lower (trim (or_empty v))" "RAW_ADDRESS_RE s"
    by (auto simp: normalizeProfileWornGift_def Let_def split: if_splits)
  have "normalizeProfileWornGift lower (Some s) = Some s"
    using normal_address [OF assms(1), of "or_empty v"] s by (simp add: normalizeProfileWornGift_def)
  moreover have "field = sized (utf8_encode s)" "length (utf8_encode s) < 256" "1 \<le> length (utf8_encode s)"
    using assms(2,3) Some raw_address_ascii(2,3) [OF s(2)] raw_address_text(3) [OF s(2)]
    by (cases s; simp)+
  ultimately show ?thesis
    using Some raw_address_text(1) [OF s(2)] by (simp add: sized_len)
qed

lemma groups_stage:
  assumes "\<forall>g \<in> set gs. normal_group g \<and> well_formed_text (pg_name g)" "length gs \<le> 8"
    and "field = (if gs \<noteq> [] then word_of_nat (length gs) # concat (map group_bytes gs)
           else if flagged then [0] else [])"
    and "gs = [] \<Longrightarrow> \<not> flagged \<Longrightarrow> tail = []"
  shows "(case field @ tail of [] \<Rightarrow> ([], [])
      | count # rest' \<Rightarrow> decode_groups (min (unat count) PROFILE_GROUPS_MAX) rest')
    = (map (\<lambda>g. g\<lparr>pg_founder := None, pg_owner := None\<rparr>) gs, tail)"
proof (cases "gs = []")
  case True
  then show ?thesis using assms(3,4) by (cases flagged) simp_all
next
  case False
  have "unat (word_of_nat (length gs) :: byte) = length gs" using assms(2) by (intro unat_small_byte) simp
  moreover have "min (length gs) PROFILE_GROUPS_MAX = length gs"
    using assms(2) by (simp add: PROFILE_GROUPS_MAX_def)
  moreover have "decode_groups (length gs) (concat (map group_bytes gs) @ tail)
      = (map (\<lambda>g. g\<lparr>pg_founder := None, pg_owner := None\<rparr>) gs, tail)"
    using assms(1) by (intro decode_groups_bytes) (auto simp: normal_group_def utf8ByteLength_def)
  ultimately show ?thesis using assms(3) False by simp
qed

lemma founders_stage:
  assumes "\<forall>g \<in> set gs. normal_group g" "length gs \<le> 8"
    and "tail = (if flagged then [PROFILE_FLAGS_MARKER, 1, PROFILE_FLAG_BALANCE_CARD] else [])"
  shows "decode_founders (map (\<lambda>g. g\<lparr>pg_founder := None, pg_owner := None\<rparr>) gs)
     ((if gs \<noteq> [] \<and> has_founder gs then word_of_nat (length gs) # concat (map founder_bytes gs) else []) @ tail)
     = (gs, tail)"
proof (cases "gs = []")
  case True
  then show ?thesis using assms(3) by (simp add: decode_founders_def PROFILE_FLAGS_MARKER_def)
next
  case False
  then show ?thesis using decode_founders_bytes [OF assms(1,2) False assms(3)] by simp
qed


text \<open>
  C28: A profile block is read back as published: the decoder recovers from the encoder's bytes
  every field in its normal form (description and username cut to their limits, tags and groups
  deduplicated and capped, only valid addresses), whatever combination of optional fields is
  present. A look whose background is unknown is read as one without background.
\<close>

theorem profile_block_roundtrip:
  assumes stable: "lower_stable lower"
    and wf: "well_formed_text (profile_description p)" "well_formed_text (profile_username p)"
      "\<forall>t \<in> set (normalizeProfileTags lower (p_tags p)). well_formed_text t"
      "\<forall>g \<in> set (normalizeProfileGroups lower (p_groups p)). well_formed_text (pg_name g)"
  shows "decodeProfileBlockContent lower (encodeProfileBlockContent lower p) = Some (profile_shown lower p)"
proof -
  let ?gs = "normalizeProfileGroups lower (p_groups p)" and ?ts = "normalizeProfileTags lower (p_tags p)"
  let ?flagged = "p_balanceCard p" and ?app = "encodeProfileAppearance lower (p_appearance p)"
  define desc where "desc = utf8_encode (profile_description p)"
  define un where "un = utf8_encode (profile_username p)"
  define tb where "tb = concat (map sized (map utf8_encode ?ts))"
  define worn where "worn = utf8_encode (or_empty (normalizeProfileWornGift lower (p_wornGift p)))"
  define fl where "fl = (if ?flagged then [PROFILE_FLAGS_MARKER, 1, PROFILE_FLAG_BALANCE_CARD] else [])"
  define fo where "fo = (if ?gs \<noteq> [] \<and> has_founder ?gs
    then word_of_nat (length ?gs) # concat (map founder_bytes ?gs) else [])"
  define gr where "gr = (if ?gs \<noteq> [] then word_of_nat (length ?gs) # concat (map group_bytes ?gs)
    else if ?flagged then [0] else [])"
  define wo where "wo = (if worn \<noteq> [] then sized worn else if ?gs \<noteq> [] \<or> ?flagged then [0] else [])"
  define ap where "ap = (case ?app of Some a \<Rightarrow> sized a
    | None \<Rightarrow> if worn \<noteq> [] \<or> ?gs \<noteq> [] \<or> ?flagged then [0] else [])"
  define bs where "bs = encodeProfileBlockContent lower p"
  have bs: "bs = [PROFILE_BLOCK_CONTENT_VERSION] @ be_bytes 2 (length desc) @ desc
      @ [word_of_nat (length ?ts)] @ tb @ sized un @ ap @ wo @ gr @ fo @ fl"
    unfolding bs_def encodeProfileBlockContent_def Let_def desc_def un_def tb_def worn_def fl_def fo_def
      gr_def wo_def ap_def by (simp del: be_bytes.simps)
  have dl: "length desc \<le> 1536"
    using truncated_le [of 1536]
    by (simp add: desc_def profile_description_def PROFILE_DESCRIPTION_MAX_BYTES_def utf8ByteLength_def)
  have gs: "\<forall>g \<in> set ?gs. normal_group g" "length ?gs \<le> 8" using normal_groups by blast+
  have tl: "unat (word_of_nat (length ?ts) :: byte) = length ?ts"
    using normal_tags(1) [of lower "p_tags p"] by (intro unat_small_byte) simp
  have tags: "decode_tags (length ?ts) (tb @ rest) = Some (?ts, rest)" for rest
    unfolding tb_def
  proof (rule decode_tags_sized, rule ballI)
    fix t assume t: "t \<in> set ?ts"
    then have "length (utf8_encode t) \<le> 64" using normal_tags(3) utf8_profile_tag by blast
    with t wf(3) show "well_formed_text t \<and> length (utf8_encode t) < 256" by simp
  qed
  have v: "bs ! 0 = PROFILE_BLOCK_CONTENT_VERSION" and l2: "slice 1 3 bs = be_bytes 2 (length desc)"
    and len: "length bs = 4 + length desc + length (tb @ sized un @ ap @ wo @ gr @ fo @ fl)"
    unfolding bs by (simp, rule slice_field, simp_all)
  have dv: "be_value (be_bytes 2 (length desc)) = length desc"
    using dl by (simp add: be_value_be_bytes del: be_bytes.simps)
  have bs3: "bs = ([PROFILE_BLOCK_CONTENT_VERSION] @ be_bytes 2 (length desc)) @ desc
      @ word_of_nat (length ?ts) # tb @ sized un @ ap @ wo @ gr @ fo @ fl"
    and bs4: "bs = ([PROFILE_BLOCK_CONTENT_VERSION] @ be_bytes 2 (length desc) @ desc)
      @ word_of_nat (length ?ts) # tb @ sized un @ ap @ wo @ gr @ fo @ fl"
    and bs5: "bs = ([PROFILE_BLOCK_CONTENT_VERSION] @ be_bytes 2 (length desc) @ desc @ [word_of_nat (length ?ts)])
      @ tb @ sized un @ ap @ wo @ gr @ fo @ fl"
    unfolding bs by (simp_all del: be_bytes.simps)
  have d: "slice 3 (3 + length desc) bs = desc"
    unfolding bs3 by (rule slice_field) simp_all
  have n: "bs ! (3 + length desc) = word_of_nat (length ?ts)"
    unfolding bs4 by (rule nth_field) simp
  have r: "drop (3 + length desc + 1) bs = tb @ sized un @ ap @ wo @ gr @ fo @ fl"
    unfolding bs5 by (rule drop_field) simp
  have f1: "optional_field 1 utf8_decode [] (sized un @ ap @ wo @ gr @ fo @ fl)
      = (profile_username p, ap @ wo @ gr @ fo @ fl)"
    unfolding un_def by (rule username_stage [OF wf(2)])
  have f2: "optional_field 2 (read_appearance lower) None (ap @ wo @ gr @ fo @ fl)
      = (map_option shown_appearance (normalizeProfileAppearance lower (p_appearance p)), wo @ gr @ fo @ fl)"
    by (rule appearance_stage [OF stable ap_def]) (simp add: wo_def gr_def fo_def fl_def)
  have f3: "optional_field 1 (\<lambda>bs. normalizeProfileWornGift lower (Some (utf8_decode bs))) None (wo @ gr @ fo @ fl)
      = (normalizeProfileWornGift lower (p_wornGift p), gr @ fo @ fl)"
    by (rule worn_stage [OF stable worn_def wo_def]) (simp add: gr_def fo_def fl_def)
  have f4: "(case gr @ fo @ fl of [] \<Rightarrow> ([], [])
      | count # rest' \<Rightarrow> decode_groups (min (unat count) PROFILE_GROUPS_MAX) rest')
    = (map (\<lambda>g. g\<lparr>pg_founder := None, pg_owner := None\<rparr>) ?gs, fo @ fl)"
    using gs wf(4) by (intro groups_stage [OF _ _ gr_def]) (auto simp: fo_def fl_def)
  have f5: "decode_founders (map (\<lambda>g. g\<lparr>pg_founder := None, pg_owner := None\<rparr>) ?gs) (fo @ fl) = (?gs, fl)"
    unfolding fo_def by (rule founders_stage [OF gs fl_def])
  have f6: "decode_flags fl = ?flagged" unfolding fl_def by (rule decode_flags_bytes)
  have dd: "truncated PROFILE_DESCRIPTION_MAX_BYTES (utf8_decode desc) = profile_description p"
    unfolding desc_def by (simp add: utf8_decode_encode [OF wf(1)]) (simp add: profile_description_def)
  have "\<not> (length bs < 4 \<or> bs ! 0 \<noteq> PROFILE_BLOCK_CONTENT_VERSION)"
    "\<not> 3 + length desc + 1 > length bs" using v len by simp_all
  then have "decodeProfileBlockContent lower bs = Some (profile_shown lower p)"
    unfolding decodeProfileBlockContent_def Let_def l2 dv d n r tl tags
    by (simp only: if_False option.case prod.case f1 f2 f3 f4 f5 f6 dd
        normalizeProfileTags_idem [OF stable] profile_shown_def)
  then show ?thesis by (simp add: bs_def)
qed

definition sample_profile :: profile where
  "sample_profile = \<lparr>p_description = Some [72, 105], p_tags = [Some [65, 98], Some [97, 98]],
     p_ownerUsername = Some [97], p_appearance = None, p_wornGift = None,
     p_groups = [\<lparr>ge_groupId = Some (replicate 64 97), ge_name = Some [71],
       ge_founder = Some (replicate 64 49), ge_owner = None\<rparr>], p_balanceCard = True\<rparr>"

lemma trim_replicate: "\<not> is_space c \<Longrightarrow> trim (replicate n c) = replicate n c" by (rule trim_id) auto
lemma sample_tags: "normalizeProfileTags ascii_lower (p_tags sample_profile) = [[97, 98]]"
  by (simp add: normalizeProfileTags_def sample_profile_def profile_tag_def trim_def is_space_def ascii_lower_def
   is_upper_def truncated_short PROFILE_TAG_MAX_BYTES_def PROFILE_MAX_TAGS_def)
lemma sample_groups: "normalizeProfileGroups ascii_lower (p_groups sample_profile) = [\<lparr>pg_groupId = replicate 64 97,
   pg_name = [71], pg_founder = Some (replicate 64 49), pg_owner = None\<rparr>]"
proof -
  have "replicate 64 (49::nat) \<noteq> replicate 64 48" by (simp add: replicate_eq_replicate)
  then show ?thesis
  by (simp add: normalizeProfileGroups_def sample_profile_def trim_replicate ascii_lower_def 
   is_upper_def truncated_short PROFILE_GROUP_NAME_MAX_BYTES_def PROFILE_GROUPS_MAX_def profileGroupKeyHex_def
   is_hex_of_length_def is_hex_lower_def is_digit_def is_space_def trim_def[of "[_]"]  trim_def[of "[]"])
qed
lemma sample_d: "profile_description sample_profile = [72,105]" "profile_username sample_profile = [97]"
by (simp_all add: profile_description_def profile_username_def sample_profile_def truncated_short trim_def is_space_def
  PROFILE_DESCRIPTION_MAX_BYTES_def PROFILE_USERNAME_MAX_BYTES_def)
lemmas sample_fields = sample_tags sample_groups sample_d

theorem profile_block_roundtrip_witness:
  "\<exists>c. decodeProfileBlockContent ascii_lower (encodeProfileBlockContent ascii_lower sample_profile) = Some c
     \<and> pc_tags c = [[97, 98]] \<and> map pg_groupId (pc_groups c) = [replicate 64 97] \<and> pc_balanceCard c"
proof -
  have "decodeProfileBlockContent ascii_lower (encodeProfileBlockContent ascii_lower sample_profile)
      = Some (profile_shown ascii_lower sample_profile)"
    by (rule profile_block_roundtrip [OF lower_stable_ascii_lower])
       (simp_all add: sample_fields well_formed_text_def is_scalar_def is_surrogate_def)
  moreover have "p_balanceCard sample_profile" by (simp add: sample_profile_def)
  ultimately show ?thesis
    by (simp add: profile_shown_def sample_fields)
qed
end
