(* ===== verification/Bits.thy ===== *)
theory Bits
  imports Js_Prelude
begin

text \<open>
  Byte arrays as bit strings, most significant bit first: the numbering \<open>readBit\<close>,
  \<open>writeBit\<close> and \<open>clearBit\<close> of \<^verbatim>\<open>src/web/pwa-contract-transactions.mjs\<close> use. The
  operations are the code's, on bytes and offsets; \<open>bits_of\<close> is the bit string they act on.
\<close>

named_theorems cell_bits \<open>byte arrays as bit strings\<close>

definition byte_bits :: "byte \<Rightarrow> bool list" where
  "byte_bits b = map (\<lambda>i. bit b (7 - i)) [0..<8]"

definition bits_of :: "bytes \<Rightarrow> bool list" where
  "bits_of bs = concat (map byte_bits bs)"

definition readBit :: "bytes \<Rightarrow> nat \<Rightarrow> bool" where
  "readBit bytes off = bit (bytes ! (off div 8)) (7 - off mod 8)"

definition writeBit :: "bytes \<Rightarrow> nat \<Rightarrow> bool \<Rightarrow> bytes \<times> nat" where
  "writeBit bytes off b =
     ((if b then bytes[off div 8 := or (bytes ! (off div 8)) (push_bit (7 - off mod 8) 1)] else bytes),
      off + 1)"

definition clearBit :: "bytes \<Rightarrow> nat \<Rightarrow> bytes" where
  "clearBit bytes off = bytes[off div 8 := and (bytes ! (off div 8)) (not (push_bit (7 - off mod 8) 1))]"

text \<open>The bits \<open>uint\<close> writes: bit \<open>n - 1\<close> of the value first, bit 0 last.\<close>

fun nat_bits :: "nat \<Rightarrow> nat \<Rightarrow> bool list" where
  "nat_bits 0 v = []"
| "nat_bits (Suc n) v = bit v n # nat_bits n v"

definition bits_value :: "bool list \<Rightarrow> nat" where
  "bits_value ws = foldl (\<lambda>acc b. 2 * acc + of_bool b) 0 ws"

lemma length_byte_bits [simp]: "length (byte_bits b) = 8"
  by (simp add: byte_bits_def)

lemma bits_of_simps [simp]:
  "bits_of [] = []" "bits_of (b # bs) = byte_bits b @ bits_of bs" "bits_of (xs @ ys) = bits_of xs @ bits_of ys"
  by (simp_all add: bits_of_def)

lemma length_bits_of [simp]: "length (bits_of bs) = 8 * length bs"
  by (induction bs) simp_all

lemma byte_bits_nth: "i < 8 \<Longrightarrow> byte_bits b ! i = bit b (7 - i)"
  by (simp add: byte_bits_def)

lemma bits_of_nth: "i < 8 * length bs \<Longrightarrow> bits_of bs ! i = bit (bs ! (i div 8)) (7 - i mod 8)"
proof (induction bs arbitrary: i)
  case (Cons b bs)
  show ?case
  proof (cases "i < 8")
    case True
    then show ?thesis by (simp add: nth_append byte_bits_nth)
  next
    case False
    then have "i div 8 = Suc ((i - 8) div 8)" "(i - 8) mod 8 = i mod 8"
      by (simp_all add: le_div_geq le_mod_geq)
    with False Cons.IH [of "i - 8"] Cons.prems show ?thesis by (simp add: nth_append)
  qed
qed simp

lemma readBit_nth: "i < 8 * length bs \<Longrightarrow> readBit bs i = bits_of bs ! i"
  by (simp add: readBit_def bits_of_nth)

lemma byte_bits_inj: "byte_bits a = byte_bits b \<Longrightarrow> a = b"
proof (rule bit_eqI)
  fix n assume eq: "byte_bits a = byte_bits b" and "possible_bit TYPE(8 word) n"
  then have "n < 8" by (simp add: possible_bit_word)
  then have "bit a n = byte_bits a ! (7 - n)" "bit b n = byte_bits b ! (7 - n)"
    by (simp_all add: byte_bits_nth)
  with eq show "bit a n = bit b n" by simp
qed

lemma bits_of_inj: "bits_of xs = bits_of ys \<Longrightarrow> xs = ys"
proof (induction xs arbitrary: ys)
  case Nil
  then show ?case by (cases ys) (auto dest: arg_cong [of _ _ length])
next
  case (Cons x xs)
  then have "length (bits_of ys) = length (bits_of (x # xs))" by simp
  then obtain y ys' where ys: "ys = y # ys'" by (cases ys) auto
  with Cons show ?case by (auto dest: byte_bits_inj)
qed

lemma length_writeBit [simp]: "length (fst (writeBit bs off b)) = length bs"
  by (simp add: writeBit_def)

lemma bit_mask_byte: "bit (push_bit k 1 :: byte) n \<longleftrightarrow> n = k \<and> k < 8"
  by (auto simp: bit_exp_iff possible_bit_word)

lemma div_mod_8: "i div 8 = j div 8 \<Longrightarrow> 7 - i mod 8 = 7 - j mod 8 \<Longrightarrow> i = (j :: nat)"
proof -
  assume d: "i div 8 = j div 8" and m: "7 - i mod 8 = 7 - j mod 8"
  have "i mod 8 < 8" "j mod 8 < 8" by simp_all
  with m have "i mod 8 = j mod 8" by linarith
  with d show "i = j" by (metis div_mult_mod_eq)
qed

lemma bits_of_writeBit [cell_bits]:
  assumes "off < 8 * length bs"
  shows "bits_of (fst (writeBit bs off b)) = (bits_of bs)[off := b \<or> bits_of bs ! off]"
proof (rule nth_equalityI)
  fix i assume "i < length (bits_of (fst (writeBit bs off b)))"
  then have i: "i < 8 * length bs" by simp
  have "off div 8 < length bs" using assms by (simp add: less_mult_imp_div_less mult.commute)
  moreover have "bit (if i div 8 = off div 8 then or (bs ! (off div 8)) (push_bit (7 - off mod 8) 1) else bs ! (i div 8))
      (7 - i mod 8) = (bit (bs ! (i div 8)) (7 - i mod 8) \<or> i = off)"
    using div_mod_8 [of i off] by (auto simp: bit_or_iff bit_mask_byte simp del: push_bit_of_1)
  ultimately show "bits_of (fst (writeBit bs off b)) ! i = (bits_of bs)[off := b \<or> bits_of bs ! off] ! i"
    using i assms by (auto simp: bits_of_nth writeBit_def nth_list_update)
qed simp

lemma length_clearBit [simp]: "length (clearBit bs off) = length bs"
  by (simp add: clearBit_def)

lemma bits_of_clearBit [cell_bits]:
  assumes "off < 8 * length bs"
  shows "bits_of (clearBit bs off) = (bits_of bs)[off := False]"
proof (rule nth_equalityI)
  fix i assume "i < length (bits_of (clearBit bs off))"
  then have i: "i < 8 * length bs" by simp
  have "off div 8 < length bs" using assms by (simp add: less_mult_imp_div_less mult.commute)
  moreover have "bit (if i div 8 = off div 8 then and (bs ! (off div 8)) (not (push_bit (7 - off mod 8) 1)) else bs ! (i div 8))
      (7 - i mod 8) = (bit (bs ! (i div 8)) (7 - i mod 8) \<and> i \<noteq> off)"
    using div_mod_8 [of i off] by (auto simp: bit_and_iff bit_not_iff bit_mask_byte possible_bit_word simp del: push_bit_of_1)
  ultimately show "bits_of (clearBit bs off) ! i = (bits_of bs)[off := False] ! i"
    using i assms by (auto simp: bits_of_nth clearBit_def nth_list_update)
qed simp

lemma length_nat_bits [simp]: "length (nat_bits n v) = n"
  by (induction n) simp_all

lemma bits_value_snoc [simp]: "bits_value (ws @ [b]) = 2 * bits_value ws + of_bool b"
  by (simp add: bits_value_def)

lemma bits_value_Nil [simp]: "bits_value [] = 0"
  by (simp add: bits_value_def)

lemma nat_bits_snoc: "nat_bits (Suc n) v = nat_bits n (v div 2) @ [odd v]"
proof (induction n)
  case 0
  then show ?case by (simp add: bit_0)
next
  case (Suc n)
  have "nat_bits (Suc (Suc n)) v = bit v (Suc n) # nat_bits n (v div 2) @ [odd v]"
    using Suc by simp
  then show ?case by (simp add: bit_Suc)
qed

lemma bits_value_nat_bits [cell_bits]: "bits_value (nat_bits n v) = v mod 2 ^ n"
proof (induction n arbitrary: v)
  case (Suc n)
  have "bits_value (nat_bits (Suc n) v) = 2 * (v div 2 mod 2 ^ n) + v mod 2"
    using Suc [of "v div 2"] by (simp only: nat_bits_snoc bits_value_snoc) (simp add: mod_2_eq_odd)
  also have "\<dots> = v mod 2 ^ Suc n" by (simp add: mod_mult2_eq)
  finally show ?case .
qed simp

lemma bits_value_less: "bits_value ws < 2 ^ length ws"
proof (induction ws rule: rev_induct)
  case (snoc b ws)
  then show ?case by (cases b) auto
qed simp

lemma nat_bits_bits_value [cell_bits]: "nat_bits (length ws) (bits_value ws) = ws"
proof (induction ws rule: rev_induct)
  case (snoc b ws)
  then show ?case by (simp add: nat_bits_snoc del: nat_bits.simps)
qed simp

lemma nat_bits_mod: "nat_bits n (v mod 2 ^ n) = nat_bits n v"
  by (metis bits_value_nat_bits length_nat_bits nat_bits_bits_value)

lemma nat_bits_append: "nat_bits (m + n) v = nat_bits m (v div 2 ^ n) @ nat_bits n v"
  by (induction m) (simp_all add: bit_iff_odd power_add mult.commute flip: div_mult2_eq)

lemma byte_bits_word_of_nat: "byte_bits (word_of_nat v) = nat_bits 8 v"
proof -
  have "nat_bits 8 v = map (\<lambda>i. bit v (7 - i)) [0..<8]" by (simp add: numeral_eq_Suc)
  moreover have "bit (word_of_nat v :: byte) (7 - i) = bit v (7 - i)" for i
  proof -
    have "7 - i < (8 :: nat)" by linarith
    then show ?thesis by (simp add: bit_of_nat_iff possible_bit_word)
  qed
  ultimately show ?thesis by (simp add: byte_bits_def)
qed

lemma bits_of_be_bytes [cell_bits]: "bits_of (be_bytes n v) = nat_bits (8 * n) v"
proof (induction n arbitrary: v)
  case (Suc n)
  have "nat_bits (8 * Suc n) v = nat_bits (8 * n + 8) v" by (simp add: add.commute)
  also have "\<dots> = nat_bits (8 * n) (v div 256) @ nat_bits 8 v" by (simp add: nat_bits_append)
  finally show ?case using Suc by (simp add: byte_bits_word_of_nat)
qed simp

text \<open>Bytes whose bits are a given string padded with zeros.\<close>

definition pack_byte :: "bool list \<Rightarrow> byte" where
  "pack_byte ws = word_of_nat (bits_value (ws @ replicate (8 - length ws) False))"

definition pack :: "bool list \<Rightarrow> bytes" where
  "pack ws = map pack_byte (chunks 8 ws)"

lemma bits_of_pack_byte: "length ws \<le> 8 \<Longrightarrow> byte_bits (pack_byte ws) = ws @ replicate (8 - length ws) False"
  using nat_bits_bits_value [of "ws @ replicate (8 - length ws) False"]
  by (simp add: pack_byte_def byte_bits_word_of_nat)

lemma length_pack [simp]: "length (pack ws) = (length ws + 7) div 8"
  by (simp add: pack_def length_chunks)

lemma bits_of_pack [cell_bits]:
  "bits_of (pack ws) = ws @ replicate (8 * ((length ws + 7) div 8) - length ws) False"
proof (induction "length ws" arbitrary: ws rule: less_induct)
  case less
  show ?case
  proof (cases "length ws \<le> 8")
    case True
    show ?thesis
    proof (cases "ws = []")
      case False
      then have "1 \<le> length ws" by (cases ws) auto
      with True have "(length ws + 7) div 8 = 1" by (simp add: div_nat_eqI)
      with True False show ?thesis by (simp add: pack_def chunks_step bits_of_pack_byte)
    qed (simp add: pack_def)
  next
    case False
    let ?t = "drop 8 ws"
    have "ws \<noteq> []" "length ?t < length ws" using False by auto
    have "bits_of (pack ws) = take 8 ws @ bits_of (pack ?t)"
      using \<open>ws \<noteq> []\<close> False by (simp add: pack_def chunks_step bits_of_pack_byte)
    also have "\<dots> = take 8 ws @ ?t @ replicate (8 * ((length ?t + 7) div 8) - length ?t) False"
      using less [OF \<open>length ?t < length ws\<close>] by simp
    also have "8 * ((length ?t + 7) div 8) - length ?t = 8 * ((length ws + 7) div 8) - length ws"
    proof -
      have "(length ws + 7) div 8 = Suc ((length ws - 8 + 7) div 8)"
        using False by (simp add: le_div_geq)
      with False show ?thesis by simp
    qed
    finally show ?thesis by simp
  qed
qed

lemma pack_bits_of [cell_bits]: "pack (bits_of bs) = bs"
  by (rule bits_of_inj) (simp add: bits_of_pack div_nat_eqI)

lemma pack_eqI:
  assumes "bits_of bs = ws @ replicate k False" "length bs = (length ws + 7) div 8"
  shows "bs = pack ws"
proof (rule bits_of_inj)
  have "8 * length bs = length ws + k" using assms(1) by (metis length_append length_bits_of length_replicate)
  then show "bits_of bs = bits_of (pack ws)" using assms by (simp add: bits_of_pack)
qed

end
