(* ===== verification/Cells.thy ===== *)
theory Cells
  imports Bits
begin

text \<open>
  TON cells and their builder: \<open>TinyCellBuilder\<close> of
  \<^verbatim>\<open>src/web/pwa-contract-transactions.mjs\<close>. A cell is the object \<open>endCell\<close>
  returns (data bytes, bit length, references). The builder is the code's growing buffer and
  offset; \<open>holds b w rs\<close> says that it holds the bit string \<open>w\<close> and the references \<open>rs\<close>, the
  abstract value every operation is specified on.
\<close>

section \<open>Cells\<close>

datatype cell = Cell (cell_data: bytes) (bitLength: nat) (cell_refs: "cell list")

text \<open>The cell of a bit string.\<close>

definition cell_of :: "bool list \<Rightarrow> cell list \<Rightarrow> cell" where
  "cell_of w rs = Cell (pack w) (length w) rs"

definition cell_bits :: "cell \<Rightarrow> bool list" where
  "cell_bits c = take (bitLength c) (bits_of (cell_data c))"

lemma cell_of_simps [simp]:
  "cell_data (cell_of w rs) = pack w" "bitLength (cell_of w rs) = length w" "cell_refs (cell_of w rs) = rs"
  by (simp_all add: cell_of_def)

lemma cell_bits_cell_of [simp]: "cell_bits (cell_of w rs) = w"
  by (simp add: cell_bits_def bits_of_pack)

text \<open>The cells the builder makes: whole bytes, zero padding, at most four references.\<close>

definition well_packed :: "cell \<Rightarrow> bool" where
  "well_packed c \<longleftrightarrow> c = cell_of (cell_bits c) (cell_refs c) \<and> length (cell_refs c) \<le> 4"

lemma well_packed_cell_of [simp]: "length rs \<le> 4 \<Longrightarrow> well_packed (cell_of w rs)"
  by (simp add: well_packed_def)

section \<open>Checked integers\<close>

definition assertUint :: "int \<Rightarrow> nat \<Rightarrow> nat res" where
  "assertUint v n =
     guard (\<not> v < 0) (RangeError ''must be unsigned'')
       (guard (\<not> n < 1) (RangeError ''bit length must be positive'')
         (guard (\<not> v \<ge> 2 ^ n) (RangeError ''does not fit uint'')
           (Inr (nat v))))"

lemma assertUint_ok: "0 < n \<Longrightarrow> v < 2 ^ n \<Longrightarrow> assertUint (int v) n = Inr v"
  by (simp add: assertUint_def flip: of_nat_power)

lemma assertUint_Inr:
  "assertUint v n = Inr u \<longleftrightarrow> 0 < n \<and> 0 \<le> v \<and> v < 2 ^ n \<and> u = nat v"
  by (auto simp: assertUint_def guard_def)

function minimal_from :: "nat \<Rightarrow> nat \<Rightarrow> nat" where
  "minimal_from bytes v = (if v \<ge> 2 ^ (bytes * 8) then minimal_from (bytes + 1) v else bytes)"
  by pat_completeness auto
termination
proof (relation "measure (\<lambda>(bytes, v). v - bytes)")
  fix bytes v :: nat assume "v \<ge> 2 ^ (bytes * 8)"
  moreover have "bytes < 2 ^ (bytes * 8)"
    using less_exp [of "bytes * 8"] by (rule order.strict_trans1 [rotated]) simp
  ultimately show "((bytes + 1, v), bytes, v) \<in> measure (\<lambda>(bytes, v). v - bytes)" by simp
qed simp

declare minimal_from.simps [simp del]

definition minimalUintByteLength :: "nat \<Rightarrow> nat" where
  "minimalUintByteLength v = minimal_from 1 v"

lemma minimal_from_spec:
  "v < 2 ^ (minimal_from k v * 8) \<and> k \<le> minimal_from k v
     \<and> (minimal_from k v = k \<or> 2 ^ ((minimal_from k v - 1) * 8) \<le> v)"
proof (induction k v rule: minimal_from.induct)
  case (1 k v)
  show ?case
  proof (cases "v \<ge> 2 ^ (k * 8)")
    case True
    then have "minimal_from k v = minimal_from (k + 1) v" by (simp add: minimal_from.simps [of k])
    with "1" [OF True] True show ?thesis by auto
  next
    case False
    then show ?thesis by (simp add: minimal_from.simps [of k])
  qed
qed

lemma minimalUintByteLength_spec:
  "v < 2 ^ (minimalUintByteLength v * 8)" "1 \<le> minimalUintByteLength v"
  "minimalUintByteLength v = 1 \<or> 2 ^ ((minimalUintByteLength v - 1) * 8) \<le> v"
  using minimal_from_spec [of v 1] by (auto simp: minimalUintByteLength_def)

lemma minimalUintByteLength_le:
  assumes "v < 2 ^ (k * 8)" "1 \<le> k"
  shows "minimalUintByteLength v \<le> k"
proof (rule ccontr)
  assume n: "\<not> minimalUintByteLength v \<le> k"
  then have "2 ^ ((minimalUintByteLength v - 1) * 8) \<le> v"
    using minimalUintByteLength_spec(3) [of v] assms(2) by auto
  moreover have "(2 :: nat) ^ (k * 8) \<le> 2 ^ ((minimalUintByteLength v - 1) * 8)"
    using n by (intro power_increasing) auto
  ultimately show False using assms(1) by linarith
qed

definition bigintToBytes :: "int \<Rightarrow> nat \<Rightarrow> bytes res" where
  "bigintToBytes v len = andThen (assertUint v (len * 8)) (\<lambda>u. Inr (be_bytes len u))"

section \<open>The builder\<close>

record builder =
  b_bytes :: bytes
  b_bitLength :: nat
  b_refs :: "cell list"

definition beginCell :: builder where
  "beginCell = \<lparr>b_bytes = replicate 128 0, b_bitLength = 0, b_refs = []\<rparr>"

function grow_size :: "nat \<Rightarrow> nat \<Rightarrow> nat" where
  "grow_size sz required = (if 0 < sz \<and> sz < required then grow_size (sz * 2) required else sz)"
  by pat_completeness auto
termination
  by (relation "measure (\<lambda>(sz, required). required - sz)") auto

declare grow_size.simps [simp del]

lemma grow_size_ge: "0 < sz \<Longrightarrow> required \<le> grow_size sz required \<and> sz \<le> grow_size sz required"
proof (induction sz required rule: grow_size.induct)
  case (1 sz required)
  then show ?case by (cases "sz < required") (auto simp: grow_size.simps [of sz])
qed

definition ensureBits :: "nat \<Rightarrow> builder \<Rightarrow> builder" where
  "ensureBits extraBits b =
     (let requiredBytes = (b_bitLength b + extraBits + 1 + 7) div 8 in
      if requiredBytes \<le> length (b_bytes b) then b
      else b\<lparr>b_bytes := b_bytes b
             @ replicate (grow_size (length (b_bytes b)) requiredBytes - length (b_bytes b)) 0\<rparr>)"

text \<open>The loops of \<open>uint\<close> (over \<open>shift\<close>) and \<open>cell\<close> (over \<open>offset\<close>).\<close>

fun uint_loop :: "nat \<Rightarrow> nat \<Rightarrow> bytes \<times> nat \<Rightarrow> bytes \<times> nat" where
  "uint_loop 0 v st = st"
| "uint_loop (Suc shift) v (bytes, off) = uint_loop shift v (writeBit bytes off (bit v shift))"

definition b_uint :: "int \<Rightarrow> nat \<Rightarrow> builder \<Rightarrow> builder res" where
  "b_uint value n b =
     andThen (assertUint value n) (\<lambda>v.
       (let b1 = ensureBits n b; (bytes, off) = uint_loop n v (b_bytes b1, b_bitLength b1)
        in Inr (b1\<lparr>b_bytes := bytes, b_bitLength := off\<rparr>)))"

text \<open>A sequence of chained builder calls, each on the builder the previous one returned.\<close>

fun chain :: "('b \<Rightarrow> 'e + 'b) list \<Rightarrow> 'b \<Rightarrow> 'e + 'b" where
  "chain [] b = Inr b"
| "chain (f # fs) b = andThen (f b) (chain fs)"

definition b_bytesValue :: "bytes \<Rightarrow> nat \<Rightarrow> builder \<Rightarrow> builder res" where
  "b_bytesValue value len b =
     guard (length value = len) (RangeError ''must be bytes of the given length'')
       (chain (map (\<lambda>byte. b_uint (uint byte) 8) value) b)"

record ton_address =
  a_workchain :: int
  a_hash :: bytes

definition signedWorkchainByte :: "int \<Rightarrow> int res" where
  "signedWorkchainByte workchain =
     guard (\<not> (workchain < - 128 \<or> workchain > 127)) (RangeError ''TON workchain must fit int8'')
       (Inr (if workchain < 0 then 0x100 + workchain else workchain))"

text \<open>\<open>address\<close> on the parsed address; parsing the text is \<open>parseTonAddress\<close>.\<close>

definition b_address :: "ton_address \<Rightarrow> builder \<Rightarrow> builder res" where
  "b_address parsed b =
     andThen (chain [b_uint 2 2, b_uint 0 1] b) (\<lambda>b.
       andThen (signedWorkchainByte (a_workchain parsed)) (\<lambda>wc.
         chain (b_uint wc 8 # map (\<lambda>byte. b_uint (uint byte) 8) (a_hash parsed)) b))"

definition b_ref :: "cell \<Rightarrow> builder \<Rightarrow> builder res" where
  "b_ref c b =
     guard (\<not> length (b_refs b) \<ge> 4) (RangeError ''TON cell can have at most 4 refs'')
       (Inr (b\<lparr>b_refs := b_refs b @ [c]\<rparr>))"

fun copy_bits :: "nat \<Rightarrow> nat \<Rightarrow> bytes \<Rightarrow> bytes \<times> nat \<Rightarrow> bytes \<times> nat" where
  "copy_bits offset 0 data st = st"
| "copy_bits offset (Suc n) data (bytes, off) =
     copy_bits (offset + 1) n data (writeBit bytes off (readBit data offset))"

definition b_cell :: "cell \<Rightarrow> builder \<Rightarrow> builder res" where
  "b_cell c b =
     (let b1 = ensureBits (bitLength c) b;
          (bytes, off) = copy_bits 0 (bitLength c) (cell_data c) (b_bytes b1, b_bitLength b1)
      in chain (map b_ref (cell_refs c)) (b1\<lparr>b_bytes := bytes, b_bitLength := off\<rparr>))"

definition b_coins :: "int \<Rightarrow> builder \<Rightarrow> builder res" where
  "b_coins value b =
     andThen (assertUint value 128) (\<lambda>amount.
       if amount = 0 then b_uint 0 4 b
       else
         (let byteLength = minimalUintByteLength amount in
          guard (\<not> byteLength > 15) (RangeError ''does not fit VarUInteger16'')
            (andThen (b_uint (int byteLength) 4 b) (\<lambda>b.
               andThen (bigintToBytes (int amount) byteLength) (\<lambda>bytes.
                 b_bytesValue bytes byteLength b)))))"

definition b_customPayloadMaybe :: "cell option \<Rightarrow> builder \<Rightarrow> builder res" where
  "b_customPayloadMaybe c b =
     (case c of None \<Rightarrow> b_uint 0 1 b | Some c \<Rightarrow> chain [b_uint 1 1, b_ref c] b)"

definition b_maybeRef :: "cell option \<Rightarrow> builder \<Rightarrow> builder res" where
  "b_maybeRef c b =
     (case c of None \<Rightarrow> b_uint 0 1 b | Some c \<Rightarrow> chain [b_uint 1 1, b_uint 1 1, b_ref c] b)"

definition endCell :: "builder \<Rightarrow> cell" where
  "endCell b = Cell (take ((b_bitLength b + 7) div 8) (b_bytes b)) (b_bitLength b) (b_refs b)"

section \<open>What a builder holds\<close>

definition holds :: "builder \<Rightarrow> bool list \<Rightarrow> cell list \<Rightarrow> bool" where
  "holds b w rs \<longleftrightarrow> 0 < length (b_bytes b) \<and> b_bitLength b = length w \<and> b_refs b = rs \<and> length rs \<le> 4
     \<and> length w \<le> 8 * length (b_bytes b)
     \<and> bits_of (b_bytes b) = w @ replicate (8 * length (b_bytes b) - length w) False"

lemma bits_of_zeros [simp]: "bits_of (replicate n 0) = replicate (8 * n) False"
  by (induction n) (simp_all add: byte_bits_def map_replicate_trivial numeral_eq_Suc)

lemma holds_beginCell: "holds beginCell [] []"
  by (simp add: holds_def beginCell_def)

lemma holds_ensureBits:
  assumes "holds b w rs"
  shows "holds (ensureBits n b) w rs \<and> length w + n \<le> 8 * length (b_bytes (ensureBits n b))"
proof (cases "(b_bitLength b + n + 1 + 7) div 8 \<le> length (b_bytes b)")
  case True
  then have "length w + n \<le> 8 * length (b_bytes b)" using assms by (simp add: holds_def)
  with True assms show ?thesis by (simp add: ensureBits_def)
next
  case False
  define req where "req = (b_bitLength b + n + 1 + 7) div 8"
  define sz where "sz = grow_size (length (b_bytes b)) req"
  have "req \<le> sz" "length (b_bytes b) \<le> sz"
    using grow_size_ge [of "length (b_bytes b)" req] assms by (simp_all add: sz_def holds_def)
  moreover have "length w + n \<le> 8 * req" using assms by (simp add: req_def holds_def)
  moreover have "ensureBits n b = b\<lparr>b_bytes := b_bytes b @ replicate (sz - length (b_bytes b)) 0\<rparr>"
    using False by (simp add: ensureBits_def Let_def req_def sz_def)
  ultimately show ?thesis
    using assms by (auto simp: holds_def replicate_add [symmetric] simp del: length_greater_0_conv)
qed

lemma write_next:
  assumes "bits_of bytes = w @ replicate k False" "0 < k"
  shows "bits_of (fst (writeBit bytes (length w) b)) = (w @ [b]) @ replicate (k - 1) False"
proof -
  have len: "8 * length bytes = length w + k"
    using arg_cong [OF assms(1), of length] by simp
  then have "length w < 8 * length bytes" using assms(2) by simp
  then have "bits_of (fst (writeBit bytes (length w) b)) = (w @ replicate k False)[length w := b]"
    using assms by (simp add: bits_of_writeBit nth_append)
  also have "\<dots> = (w @ [b]) @ replicate (k - 1) False"
    using assms(2) by (cases k) (simp_all add: list_update_append)
  finally show ?thesis .
qed

lemma writeBit_snd [simp]: "snd (writeBit bytes off b) = off + 1"
  by (simp add: writeBit_def)

lemma uint_loop_bits:
  assumes "bits_of bytes = w @ replicate k False" "n \<le> k"
  shows "bits_of (fst (uint_loop n v (bytes, length w))) = (w @ nat_bits n v) @ replicate (k - n) False
    \<and> snd (uint_loop n v (bytes, length w)) = length w + n
    \<and> length (fst (uint_loop n v (bytes, length w))) = length bytes"
  using assms
proof (induction n arbitrary: bytes w k)
  case (Suc n)
  let ?bytes = "fst (writeBit bytes (length w) (bit v n))" and ?w = "w @ [bit v n]"
  have "bits_of ?bytes = ?w @ replicate (k - 1) False" using Suc.prems by (intro write_next) auto
  then have ih: "bits_of (fst (uint_loop n v (?bytes, length ?w))) = (?w @ nat_bits n v) @ replicate (k - 1 - n) False
    \<and> snd (uint_loop n v (?bytes, length ?w)) = length ?w + n
    \<and> length (fst (uint_loop n v (?bytes, length ?w))) = length ?bytes"
    using Suc.prems(2) by (intro Suc.IH) auto
  have "uint_loop (Suc n) v (bytes, length w) = uint_loop n v (?bytes, length ?w)"
    by (simp add: writeBit_def)
  with ih show ?case by simp
qed simp

text \<open>Each operation appends: \<open>appends f w rs\<close> describes \<open>f\<close> on the bit string and references held.\<close>

definition appends :: "(builder \<Rightarrow> builder res) \<Rightarrow> bool list \<Rightarrow> cell list \<Rightarrow> bool" where
  "appends f w rs \<longleftrightarrow> (\<forall>b u qs. holds b u qs \<and> length (qs @ rs) \<le> 4
     \<longrightarrow> (\<exists>b'. f b = Inr b' \<and> holds b' (u @ w) (qs @ rs)))"

lemma appendsI:
  "(\<And>b u qs. holds b u qs \<Longrightarrow> length (qs @ rs) \<le> 4 \<Longrightarrow> \<exists>b'. f b = Inr b' \<and> holds b' (u @ w) (qs @ rs))
    \<Longrightarrow> appends f w rs"
  by (auto simp: appends_def)

lemma appendsD:
  "appends f w rs \<Longrightarrow> holds b u qs \<Longrightarrow> length (qs @ rs) \<le> 4
    \<Longrightarrow> \<exists>b'. f b = Inr b' \<and> holds b' (u @ w) (qs @ rs)"
  by (auto simp: appends_def)

named_theorems appends_intros \<open>what each builder call appends\<close>

lemma appends_uint [appends_intros]:
  assumes "0 \<le> v" "v < 2 ^ n" "0 < n"
  shows "appends (b_uint v n) (nat_bits n (nat v)) []"
proof (rule appendsI)
  fix b u qs assume h: "holds b u qs"
  define b1 where "b1 = ensureBits n b"
  define r where "r = uint_loop n (nat v) (b_bytes b1, b_bitLength b1)"
  have h1: "holds b1 u qs" "length u + n \<le> 8 * length (b_bytes b1)"
    using holds_ensureBits [OF h] by (simp_all add: b1_def)
  then have "bits_of (fst r) = (u @ nat_bits n (nat v)) @ replicate (8 * length (b_bytes b1) - length u - n) False"
    "snd r = length u + n" "length (fst r) = length (b_bytes b1)"
    using uint_loop_bits [of "b_bytes b1" u "8 * length (b_bytes b1) - length u" n "nat v"]
    unfolding r_def holds_def by auto
  moreover have "b_uint v n b = Inr (b1\<lparr>b_bytes := fst r, b_bitLength := snd r\<rparr>)"
  proof -
    have "assertUint v n = Inr (nat v)" using assms by (simp add: assertUint_Inr)
    then show ?thesis by (simp add: b_uint_def Let_def b1_def r_def split: prod.split)
  qed
  ultimately show "\<exists>b'. b_uint v n b = Inr b' \<and> holds b' (u @ nat_bits n (nat v)) (qs @ [])"
    using h1 by (simp add: holds_def del: length_greater_0_conv)
qed

lemma chain_abs: "chain [] = Inr" "chain (f # fs) = (\<lambda>b. andThen (f b) (chain fs))"
  by (rule ext, simp)+

lemma appends_Nil: "appends (chain []) [] []"
  by (rule appendsI) simp

lemma appends_then [appends_intros]:
  assumes "appends f w rs" "appends g w' rs'"
  shows "appends (\<lambda>b. andThen (f b) g) (w @ w') (rs @ rs')"
proof (rule appendsI)
  fix b u qs assume h: "holds b u qs" and l: "length (qs @ rs @ rs') \<le> 4"
  obtain b1 where b1: "f b = Inr b1" "holds b1 (u @ w) (qs @ rs)"
    using appendsD [OF assms(1) h] l by auto
  obtain b2 where "g b1 = Inr b2" "holds b2 ((u @ w) @ w') ((qs @ rs) @ rs')"
    using appendsD [OF assms(2) b1(2)] l by auto
  with b1 show "\<exists>b'. andThen (f b) g = Inr b' \<and> holds b' (u @ w @ w') (qs @ rs @ rs')" by simp
qed

lemma appends_chain_Cons [appends_intros]:
  "appends f w rs \<Longrightarrow> appends (chain fs) w' rs' \<Longrightarrow> appends (chain (f # fs)) (w @ w') (rs @ rs')"
  using appends_then [of f w rs "chain fs" w' rs'] by (simp add: chain_abs(2))

lemma appends_bytes:
  "appends (chain (map (\<lambda>byte. b_uint (uint byte) 8) bs)) (bits_of bs) []"
proof (induction bs)
  case Nil
  then show ?case using appends_Nil by (simp del: chain.simps)
next
  case (Cons b bs)
  have "appends (b_uint (uint b) 8) (nat_bits 8 (nat (uint b))) []"
    using unsigned_less [of b, where 'a = int] by (intro appends_uint) simp_all
  moreover have "nat_bits 8 (nat (uint b)) = byte_bits b"
    using byte_bits_word_of_nat [of "unat b"] unfolding byte_of_unat by (simp only: unat_eq_nat_uint)
  ultimately show ?case
    using appends_chain_Cons [OF _ Cons.IH, of "b_uint (uint b) 8" "byte_bits b" "[]"] by (simp del: chain.simps)
qed

lemma appends_bytesValue [appends_intros]:
  "length bs = n \<Longrightarrow> appends (b_bytesValue bs n) (bits_of bs) []"
  using appends_bytes [of bs] by (simp add: b_bytesValue_def [abs_def])

lemma appends_ref [appends_intros]: "appends (b_ref c) [] [c]"
  by (rule appendsI) (auto simp: b_ref_def holds_def)

text \<open>The bits of an address, of an amount and of an optional reference.\<close>

definition address_bits :: "ton_address \<Rightarrow> bool list" where
  "address_bits a = [True, False, False] @ nat_bits 8 (nat (a_workchain a mod 256)) @ bits_of (a_hash a)"

definition coins_bits :: "nat \<Rightarrow> bool list" where
  "coins_bits n = (if n = 0 then [False, False, False, False]
     else nat_bits 4 (minimalUintByteLength n) @ nat_bits (8 * minimalUintByteLength n) n)"

lemma signedWorkchainByte_ok:
  "- 128 \<le> wc \<Longrightarrow> wc \<le> 127 \<Longrightarrow> signedWorkchainByte wc = Inr (wc mod 256)"
proof -
  assume wc: "- 128 \<le> wc" "wc \<le> 127"
  then have "wc mod 256 = (if wc < 0 then 256 + wc else wc)"
  proof (cases "wc < 0")
    case True
    then have "(256 + wc) mod 256 = 256 + wc" using wc by (intro mod_pos_pos_trivial) auto
    with True show ?thesis by simp
  next
    case False
    then show ?thesis using wc by (simp add: mod_pos_pos_trivial)
  qed
  with wc show ?thesis by (simp add: signedWorkchainByte_def)
qed

lemma appends_address [appends_intros]:
  assumes "- 128 \<le> a_workchain a" "a_workchain a \<le> 127"
  shows "appends (b_address a) (address_bits a) []"
proof -
  let ?wc = "a_workchain a mod 256"
  have two: "appends (chain [b_uint 2 2, b_uint 0 1]) [True, False, False] []"
    using appends_chain_Cons [OF appends_uint [of 2 2]
        appends_chain_Cons [OF appends_uint [of 0 1] appends_Nil]]
    by (simp add: numeral_eq_Suc bit_0 bit_Suc del: chain.simps)
  have "appends (b_uint ?wc 8) (nat_bits 8 (nat ?wc)) []"
    by (rule appends_uint) simp_all
  then have "appends (chain (b_uint ?wc 8 # map (\<lambda>byte. b_uint (uint byte) 8) (a_hash a)))
      (nat_bits 8 (nat ?wc) @ bits_of (a_hash a)) ([] @ [])"
    by (rule appends_chain_Cons [OF _ appends_bytes])
  from appends_then [OF two this] show ?thesis
    by (simp add: b_address_def [abs_def] signedWorkchainByte_ok [OF assms] address_bits_def del: chain.simps)
qed

lemma appends_coins [appends_intros]:
  assumes "n < 2 ^ 120"
  shows "appends (b_coins (int n)) (coins_bits n) []"
proof (cases "n = 0")
  case True
  then show ?thesis
    using appends_uint [of 0 4] by (simp add: b_coins_def [abs_def] assertUint_def coins_bits_def numeral_eq_Suc)
next
  case False
  let ?k = "minimalUintByteLength n"
  have k: "?k \<le> 15" using minimalUintByteLength_le [of n 15] assms by simp
  have n: "n < 2 ^ (?k * 8)" "1 \<le> ?k" using minimalUintByteLength_spec [of n] by simp_all
  have "assertUint (int n) 128 = Inr n" using assms by (intro assertUint_ok) simp_all
  moreover have "bigintToBytes (int n) ?k = Inr (be_bytes ?k n)"
    using n by (simp add: bigintToBytes_def assertUint_ok)
  ultimately have "b_coins (int n) = (\<lambda>b. andThen (b_uint (int ?k) 4 b) (b_bytesValue (be_bytes ?k n) ?k))"
    using False k by (simp add: b_coins_def [abs_def] Let_def guard_def)
  moreover have "appends (b_uint (int ?k) 4) (nat_bits 4 ?k) []"
    using appends_uint [of "int ?k" 4] k by simp
  moreover have "appends (b_bytesValue (be_bytes ?k n) ?k) (nat_bits (8 * ?k) n) []"
    using appends_bytesValue [of "be_bytes ?k n" ?k] by (simp add: bits_of_be_bytes)
  ultimately show ?thesis
    using False appends_then [of "b_uint (int ?k) 4" "nat_bits 4 ?k" "[]"] by (simp add: coins_bits_def)
qed

lemma endCell_holds:
  assumes "holds b w rs"
  shows "endCell b = cell_of w rs"
proof -
  let ?n = "(length w + 7) div 8"
  have le: "?n \<le> length (b_bytes b)" using assms by (auto simp: holds_def)
  have "bits_of (b_bytes b) = bits_of (take ?n (b_bytes b)) @ bits_of (drop ?n (b_bytes b))"
    by (metis append_take_drop_id bits_of_simps(3))
  then have "bits_of (take ?n (b_bytes b)) = take (8 * ?n) (bits_of (b_bytes b))"
    using le by simp
  also have "\<dots> = w @ replicate (8 * ?n - length w) False"
    using assms le by (auto simp: holds_def)
  finally have "take ?n (b_bytes b) = pack w"
    using le by (intro pack_eqI) simp_all
  with assms show ?thesis by (simp add: endCell_def cell_of_def holds_def)
qed

end
