(* ===== verification/Boc.thy ===== *)
theory Boc
  imports Cells
begin

text \<open>
  Bags of cells: \<open>flattenCellTree\<close>, \<open>serializeBoc\<close>, \<open>computeCellHashAndDepth\<close> and the parser
  of \<open>parseBocBase64\<close> in \<^verbatim>\<open>src/web/pwa-contract-transactions.mjs\<close>. These functions
  work on cell objects by identity (\<open>WeakSet\<close>, \<open>WeakMap\<close>): a shared cell is written once. So
  the objects live in an explicit store, a list indexed by address, whose references may be
  shared; \<open>denotes h a t\<close> says that the object at \<open>a\<close> unfolds to the cell tree \<open>t\<close>.
\<close>

section \<open>The store of cell objects\<close>

type_synonym addr = nat

record cobj =
  o_data :: bytes
  o_bitLength :: nat
  o_refs :: "addr list"

type_synonym heap = "cobj list"

inductive denotes :: "heap \<Rightarrow> addr \<Rightarrow> cell \<Rightarrow> bool" for h where
  node: "a < length h \<Longrightarrow> list_all2 (denotes h) (o_refs (h ! a)) ts
    \<Longrightarrow> denotes h a (Cell (o_data (h ! a)) (o_bitLength (h ! a)) ts)"

inductive_cases denotesE: "denotes h a t"

inductive_simps denotes_Cell: "denotes h a (Cell d n ts)"

lemma denotes_unique: "denotes h a t \<Longrightarrow> denotes h a t' \<Longrightarrow> t = t'"
proof (induction arbitrary: t' rule: denotes.induct)
  case (node a ts)
  from node.prems obtain ts' where t': "t' = Cell (o_data (h ! a)) (o_bitLength (h ! a)) ts'"
      "list_all2 (denotes h) (o_refs (h ! a)) ts'" by (auto elim: denotesE)
  have "ts = ts'"
    using node.IH t'(2)
    by (intro nth_equalityI) (auto simp: list_all2_conv_all_nth)
  with t' show ?case by simp
qed

text \<open>Every tree has a store that holds it: each node is a fresh object, as \<open>endCell\<close> returns one.\<close>

fun alloc :: "cell \<Rightarrow> heap \<Rightarrow> heap \<times> addr"
  and alloc_all :: "cell list \<Rightarrow> heap \<Rightarrow> heap \<times> addr list" where
  "alloc (Cell d n ts) h =
     (let (h', as) = alloc_all ts h in (h' @ [\<lparr>o_data = d, o_bitLength = n, o_refs = as\<rparr>], length h'))"
| "alloc_all [] h = (h, [])"
| "alloc_all (t # ts) h =
     (let (h1, a) = alloc t h; (h2, as) = alloc_all ts h1 in (h2, a # as))"

lemma denotes_append: "denotes h a t \<Longrightarrow> denotes (h @ h') a t"
proof (induction rule: denotes.induct)
  case (node a ts)
  have "list_all2 (denotes (h @ h')) (o_refs ((h @ h') ! a)) ts"
    using node by (auto simp: nth_append list_all2_conv_all_nth)
  then have "denotes (h @ h') a (Cell (o_data ((h @ h') ! a)) (o_bitLength ((h @ h') ! a)) ts)"
    using node.hyps(1) by (intro denotes.node) auto
  with node.hyps(1) show ?case by (simp add: nth_append)
qed

lemma alloc_denotes:
  "(\<exists>k. fst (alloc t h) = h @ k) \<and> denotes (fst (alloc t h)) (snd (alloc t h)) t"
  "(\<exists>k. fst (alloc_all ts h) = h @ k) \<and> list_all2 (denotes (fst (alloc_all ts h))) (snd (alloc_all ts h)) ts"
proof (induction t h and ts h rule: alloc_alloc_all.induct)
  case (1 d n ts h)
  obtain h' as where e: "alloc_all ts h = (h', as)" by (cases "alloc_all ts h")
  let ?o = "\<lparr>o_data = d, o_bitLength = n, o_refs = as\<rparr>"
  have "list_all2 (denotes (h' @ [?o])) as ts"
    using 1 e by (auto intro: list_all2_mono denotes_append)
  then have "denotes (h' @ [?o]) (length h') (Cell d n ts)"
    using denotes.node [of "length h'" "h' @ [?o]" ts] by simp
  with 1 e show ?case by auto
next
  case (3 t ts h)
  obtain h1 a where e1: "alloc t h = (h1, a)" by (cases "alloc t h")
  obtain h2 as where e2: "alloc_all ts h1 = (h2, as)" by (cases "alloc_all ts h1")
  have ih1: "(\<exists>k. h1 = h @ k) \<and> denotes h1 a t" using "3.IH"(1) e1 by simp
  have ih2: "(\<exists>k. h2 = h1 @ k) \<and> list_all2 (denotes h2) as ts" using "3.IH"(2) [OF e1 [symmetric] refl] e2 by simp
  from ih1 ih2 have "denotes h2 a t" by (auto intro: denotes_append)
  with ih1 ih2 e1 e2 show ?case by auto
qed simp

section \<open>Flattening\<close>

text \<open>A loop over a list that runs \<open>g\<close> on the state; \<open>None\<close> when the fuel of \<open>g\<close> runs out.\<close>

fun run_all :: "('a \<Rightarrow> 's \<Rightarrow> 's option) \<Rightarrow> 'a list \<Rightarrow> 's \<Rightarrow> 's option" where
  "run_all g [] s = Some s"
| "run_all g (x # xs) s = (case g x s of None \<Rightarrow> None | Some s' \<Rightarrow> run_all g xs s')"

text \<open>\<open>visit\<close> of \<open>flattenCellTree\<close> on \<open>(seen, postorder)\<close>; references from the last to the first.\<close>

fun visit :: "nat \<Rightarrow> heap \<Rightarrow> addr \<Rightarrow> addr list \<times> addr list \<Rightarrow> (addr list \<times> addr list) option" where
  "visit 0 h a st = None"
| "visit (Suc fuel) h a (seen, postorder) =
     (if a \<in> set seen then Some (seen, postorder)
      else
        (case run_all (visit fuel h) (rev (o_refs (h ! a))) (a # seen, postorder) of
           None \<Rightarrow> None
         | Some (seen', postorder') \<Rightarrow> Some (seen', postorder' @ [a])))"

definition flattenCellTree :: "heap \<Rightarrow> addr \<Rightarrow> addr list option" where
  "flattenCellTree h a =
     (case visit (length h) h a ([], []) of None \<Rightarrow> None | Some (seen, postorder) \<Rightarrow> Some (rev postorder))"

fun height :: "cell \<Rightarrow> nat" where
  "height (Cell d n ts) = (if ts = [] then 0 else Suc (foldr max (map height ts) 0))"

lemma foldr_max_ge: "x \<in> set xs \<Longrightarrow> x \<le> foldr max xs (0 :: nat)"
  by (induction xs) auto

lemma foldr_max_in: "xs \<noteq> [] \<Longrightarrow> foldr max xs (0 :: nat) \<in> set xs"
proof (induction xs)
  case (Cons x xs)
  then show ?case by (cases "xs = []") (auto simp: max_def)
qed simp

lemma height_ref: "t \<in> set ts \<Longrightarrow> height t < height (Cell d n ts)"
  using foldr_max_ge [of "height t" "map height ts"] by (auto simp: less_Suc_eq_le)

text \<open>A tree of height \<open>k\<close> has nodes of every height below, at different addresses.\<close>

lemma denotes_heights:
  "denotes h a t \<Longrightarrow> k \<le> height t \<Longrightarrow> \<exists>b u. b < length h \<and> denotes h b u \<and> height u = k"
proof (induction arbitrary: k rule: denotes.induct)
  case (node a ts)
  let ?t = "Cell (o_data (h ! a)) (o_bitLength (h ! a)) ts"
  have self: "denotes h a ?t" using node by (auto intro: denotes.node list_all2_mono)
  show ?case
  proof (cases "k = height ?t")
    case True
    with self node.hyps(1) show ?thesis by blast
  next
    case False
    with node.prems have ne: "ts \<noteq> []" and k: "k \<le> foldr max (map height ts) 0" by (auto split: if_splits)
    then have "foldr max (map height ts) 0 \<in> set (map height ts)" by (intro foldr_max_in) simp
    then obtain i where i: "i < length ts" "height (ts ! i) = foldr max (map height ts) 0"
      by (auto simp: in_set_conv_nth)
    have "\<forall>k \<le> height (ts ! i). \<exists>b u. b < length h \<and> denotes h b u \<and> height u = k"
      using node.IH i(1) by (auto simp: list_all2_conv_all_nth)
    with i k show ?thesis by simp
  qed
qed

lemma height_less_heap:
  assumes "denotes h a t"
  shows "height t < length h"
proof -
  obtain f where f: "\<forall>k \<le> height t. f k < length h \<and> (\<exists>u. denotes h (f k) u \<and> height u = k)"
    using denotes_heights [OF assms] by metis
  have "inj_on f {..height t}"
  proof (rule inj_onI)
    fix i j assume "i \<in> {..height t}" "j \<in> {..height t}" "f i = f j"
    then show "i = j" using f denotes_unique by (metis atMost_iff)
  qed
  moreover have "f ` {..height t} \<subseteq> {..<length h}" using f by auto
  ultimately have "card {..height t} \<le> card {..<length h}" by (intro card_inj_on_le) auto
  then show ?thesis by simp
qed

text \<open>Postorder: every object after all its references, each once.\<close>

definition postordered :: "heap \<Rightarrow> addr list \<Rightarrow> bool" where
  "postordered h post \<longleftrightarrow> distinct post \<and>
     (\<forall>ys a zs. post = ys @ a # zs \<longrightarrow> set (o_refs (h ! a)) \<subseteq> set ys \<and> (\<exists>t. denotes h a t))"

lemma postordered_Nil [simp]: "postordered h []"
  by (simp add: postordered_def)

lemma postordered_snoc:
  assumes "postordered h post" "a \<notin> set post" "set (o_refs (h ! a)) \<subseteq> set post" "denotes h a t"
  shows "postordered h (post @ [a])"
proof -
  have "set (o_refs (h ! b)) \<subseteq> set ys \<and> (\<exists>t. denotes h b t)" if "post @ [a] = ys @ b # zs" for ys b zs
  proof (cases zs rule: rev_cases)
    case Nil
    with that assms show ?thesis by auto
  next
    case (snoc zs' z)
    with that have "post = ys @ b # zs'" by simp
    with assms(1) show ?thesis unfolding postordered_def by blast
  qed
  with assms show ?thesis unfolding postordered_def by auto
qed

definition above :: "heap \<Rightarrow> nat \<Rightarrow> addr set \<Rightarrow> bool" where
  "above h k S \<longleftrightarrow> (\<forall>s \<in> S. \<exists>t. denotes h s t \<and> k < height t)"

lemma visit_spec:
  assumes "denotes h a t" "height t < fuel" "set seen = set post \<union> S" "above h (height t) S" "postordered h post"
  shows "\<exists>seen' new. visit fuel h a (seen, post) = Some (seen', post @ new)
    \<and> set seen' = set (post @ new) \<union> S \<and> postordered h (post @ new) \<and> set new \<inter> S = {}
    \<and> a \<in> set (post @ new) \<and> (a \<notin> set post \<longrightarrow> (\<exists>new'. new = new' @ [a]))"
  using assms
proof (induction fuel arbitrary: a t seen post S)
  case 0
  then show ?case by simp
next
  case (Suc fuel)
  from Suc.prems(1) obtain ts where ts: "list_all2 (denotes h) (o_refs (h ! a)) ts"
      and t: "t = Cell (o_data (h ! a)) (o_bitLength (h ! a)) ts"
    by (auto elim: denotesE)
  have notS: "a \<notin> S"
    using Suc.prems(1,4) denotes_unique unfolding above_def by fastforce
  have loop: "\<exists>seen' new. run_all (visit fuel h) rs (seen, post) = Some (seen', post @ new)
      \<and> set seen' = set (post @ new) \<union> insert a S \<and> postordered h (post @ new) \<and> set rs \<subseteq> set (post @ new)
      \<and> set new \<inter> insert a S = {}"
    if "set rs \<subseteq> set (o_refs (h ! a))" "set seen = set post \<union> insert a S" "postordered h post"
    for rs seen post
    using that
  proof (induction rs arbitrary: seen post)
    case Nil
    then show ?case by (intro exI [of _ seen] exI [of _ "[]"]) auto
  next
    case (Cons r rs)
    obtain i where i: "i < length (o_refs (h ! a))" "o_refs (h ! a) ! i = r"
      using Cons.prems(1) by (auto simp: in_set_conv_nth)
    have r: "denotes h r (ts ! i)" "ts ! i \<in> set ts" using ts i by (auto simp: list_all2_conv_all_nth)
    have hr: "height (ts ! i) < height t" unfolding t by (rule height_ref [OF r(2)])
    have ab: "above h (height (ts ! i)) (insert a S)"
      using Suc.prems(1,4) hr unfolding above_def by (auto intro: less_trans)
    have "height (ts ! i) < fuel" using hr Suc.prems(2) by simp
    from Suc.IH [OF r(1) this Cons.prems(2) ab Cons.prems(3)]
    obtain seen1 new1 where v: "visit fuel h r (seen, post) = Some (seen1, post @ new1)"
        "set seen1 = set (post @ new1) \<union> insert a S" "postordered h (post @ new1)" "r \<in> set (post @ new1)"
        "set new1 \<inter> insert a S = {}"
      by blast
    have "set rs \<subseteq> set (o_refs (h ! a))" using Cons.prems(1) by simp
    from Cons.IH [OF this v(2,3)]
    obtain seen2 new2 where l: "run_all (visit fuel h) rs (seen1, post @ new1) = Some (seen2, (post @ new1) @ new2)"
        "set seen2 = set ((post @ new1) @ new2) \<union> insert a S" "postordered h ((post @ new1) @ new2)"
        "set rs \<subseteq> set ((post @ new1) @ new2)" "set new2 \<inter> insert a S = {}"
      by blast
    show ?case
      using v l by (intro exI [of _ seen2] exI [of _ "new1 @ new2"]) auto
  qed
  show ?case
  proof (cases "a \<in> set seen")
    case True
    with notS Suc.prems(3) have "a \<in> set post" by auto
    with True Suc.prems show ?thesis by (intro exI [of _ seen] exI [of _ "[]"]) auto
  next
    case False
    with Suc.prems(3) have post: "a \<notin> set post" by auto
    obtain seen' new where l: "run_all (visit fuel h) (rev (o_refs (h ! a))) (a # seen, post) = Some (seen', post @ new)"
        "set seen' = set (post @ new) \<union> insert a S" "postordered h (post @ new)"
        "set (rev (o_refs (h ! a))) \<subseteq> set (post @ new)" "set new \<inter> insert a S = {}"
      using loop [of "rev (o_refs (h ! a))" "a # seen" post] Suc.prems(3,5) by auto
    have "postordered h ((post @ new) @ [a])"
      using l post Suc.prems(1) by (intro postordered_snoc) auto
    then show ?thesis
      using l post False notS by (intro exI [of _ seen'] exI [of _ "new @ [a]"]) auto
  qed
qed

lemma flatten_spec:
  assumes "denotes h a t"
  obtains post where "flattenCellTree h a = Some (a # post)" "postordered h (rev post @ [a])"
proof -
  obtain seen' new where v: "visit (length h) h a ([], []) = Some (seen', new)" "postordered h new"
      "\<exists>new'. new = new' @ [a]"
    using visit_spec [OF assms height_less_heap [OF assms], of "[]" "[]" "{}"]
    by (auto simp: above_def)
  then obtain new' where "new = new' @ [a]" by blast
  with v have "flattenCellTree h a = Some (a # rev new')" "postordered h (rev (rev new') @ [a])"
    by (simp_all add: flattenCellTree_def)
  then show ?thesis by (rule that)
qed

section \<open>Serialising\<close>

definition cellBitsDescriptor :: "nat \<Rightarrow> nat" where
  "cellBitsDescriptor n = n div 8 + (n + 7) div 8"

definition cellDataWithTerminator :: "bytes \<Rightarrow> nat \<Rightarrow> bytes" where
  "cellDataWithTerminator data n = (if n mod 8 \<noteq> 0 then fst (writeBit data n True) else data)"

definition serializeCellForBoc :: "cobj \<Rightarrow> (addr \<Rightarrow> nat) \<Rightarrow> nat \<Rightarrow> bytes res" where
  "serializeCellForBoc c indexes sizeBytes =
     guard (\<not> length (o_refs c) > 4) (JsError ''TON cell can have at most 4 refs'')
       (andThen (mapRes (\<lambda>r. bigintToBytes (int (indexes r)) sizeBytes) (o_refs c)) (\<lambda>refs.
          Inr ([word_of_nat (length (o_refs c)), word_of_nat (cellBitsDescriptor (o_bitLength c))]
            @ cellDataWithTerminator (o_data c) (o_bitLength c) @ concat refs)))"

definition BOC_MAGIC :: bytes where
  "BOC_MAGIC = [0xb5, 0xee, 0x9c, 0x72]"

text \<open>The bytes around the cells, the counters and the payloads given.\<close>

definition boc_bytes :: "nat \<Rightarrow> bytes list \<Rightarrow> bytes res" where
  "boc_bytes count payloads =
     (let sizeBytes = minimalUintByteLength count;
          totalCellsSize = sum_list (map length payloads);
          offsetBytes = minimalUintByteLength totalCellsSize
      in andThen (bigintToBytes (int count) sizeBytes) (\<lambda>cells.
         andThen (bigintToBytes 1 sizeBytes) (\<lambda>roots.
         andThen (bigintToBytes 0 sizeBytes) (\<lambda>absent.
         andThen (bigintToBytes (int totalCellsSize) offsetBytes) (\<lambda>total.
         andThen (bigintToBytes 0 sizeBytes) (\<lambda>rootIndex.
           Inr (BOC_MAGIC @ [word_of_nat sizeBytes, word_of_nat offsetBytes]
             @ cells @ roots @ absent @ total @ rootIndex @ concat payloads)))))))"

text \<open>\<open>None\<close> would mean that the fuel of \<open>visit\<close> ran out: \<open>flatten_spec\<close> excludes it.\<close>

definition serializeBoc :: "heap \<Rightarrow> addr \<Rightarrow> bytes res option" where
  "serializeBoc h a =
     (case flattenCellTree h a of
        None \<Rightarrow> None
      | Some cells \<Rightarrow> Some
          (andThen (mapRes (\<lambda>c. serializeCellForBoc (h ! c) (index_of cells) (minimalUintByteLength (length cells))) cells)
             (\<lambda>payloads. boc_bytes (length cells) payloads)))"

section \<open>Parsing\<close>

record parsed_cell =
  pc_data :: bytes
  pc_bitLength :: nat
  pc_refIndexes :: "nat list"

text \<open>The loop that looks for the terminator bit from the last bit down.\<close>

fun terminator_below :: "nat \<Rightarrow> bytes \<Rightarrow> nat option" where
  "terminator_below 0 data = None"
| "terminator_below (Suc b) data = (if readBit data b then Some b else terminator_below b data)"

fun read_refs :: "nat \<Rightarrow> bytes \<Rightarrow> nat \<Rightarrow> nat \<Rightarrow> (nat list \<times> nat) res" where
  "read_refs 0 bytes off sizeBytes = Inr ([], off)"
| "read_refs (Suc n) bytes off sizeBytes =
     andThen (readBigUintBytes bytes off sizeBytes) (\<lambda>r.
       andThen (read_refs n bytes (off + sizeBytes) sizeBytes) (\<lambda>(rs, off'). Inr (r # rs, off')))"

definition unpad :: "bytes \<Rightarrow> nat \<Rightarrow> (bytes \<times> nat) res" where
  "unpad data d2 =
     (if d2 mod 2 \<noteq> 0 then
        (case terminator_below (length data * 8) data of
           None \<Rightarrow> Inl (JsError ''BOC non-byte-aligned cell is missing terminator bit'')
         | Some b \<Rightarrow> Inr (take ((b + 7) div 8) (clearBit data b), b))
      else Inr (data, length data * 8))"

definition parse_cell :: "nat \<Rightarrow> bytes \<Rightarrow> nat \<Rightarrow> (parsed_cell \<times> nat) res" where
  "parse_cell sizeBytes bytes off =
     guard (\<not> off + 2 > length bytes) (JsError ''BOC cell descriptor is truncated'')
       (let d1 = bytes ! off; d2 = unat (bytes ! (off + 1)); off = off + 2;
            refsCount = unat (and d1 0x07) in
        guard (\<not> and d1 0xf8 \<noteq> 0) (JsError ''Exotic or levelled cells are not supported'')
          (let dataLength = (d2 + 1) div 2 in
           guard (\<not> off + dataLength > length bytes) (JsError ''BOC cell data is truncated'')
             (andThen (unpad (slice off (off + dataLength) bytes) d2) (\<lambda>(data, n).
                andThen (read_refs refsCount bytes (off + dataLength) sizeBytes) (\<lambda>(rs, off).
                  Inr (\<lparr>pc_data = data, pc_bitLength = n, pc_refIndexes = rs\<rparr>, off))))))"

fun parse_cells :: "nat \<Rightarrow> nat \<Rightarrow> bytes \<Rightarrow> nat \<Rightarrow> (parsed_cell list \<times> nat) res" where
  "parse_cells 0 sizeBytes bytes off = Inr ([], off)"
| "parse_cells (Suc n) sizeBytes bytes off =
     andThen (parse_cell sizeBytes bytes off) (\<lambda>(c, off).
       andThen (parse_cells n sizeBytes bytes off) (\<lambda>(cs, off). Inr (c # cs, off)))"

text \<open>The second pass: each index becomes a reference to the cell object at that place.\<close>

definition link_cells :: "parsed_cell list \<Rightarrow> heap res" where
  "link_cells parsed =
     mapRes (\<lambda>c. andThen (mapRes (\<lambda>r. guard (r < length parsed) (JsError ''BOC cell ref index out of range'') (Inr r))
                    (pc_refIndexes c))
               (\<lambda>refs. Inr \<lparr>o_data = pc_data c, o_bitLength = pc_bitLength c, o_refs = refs\<rparr>))
       parsed"

text \<open>\<open>parseBocBase64\<close> on the decoded bytes: the store of the parsed objects and the root.\<close>

definition parseBoc :: "bytes \<Rightarrow> (heap \<times> addr) res" where
  "parseBoc bytes =
     guard (\<not> (length bytes < 10 \<or> take 4 bytes \<noteq> BOC_MAGIC)) (JsError ''Invalid BoC magic'')
       (let flags = bytes ! 4;
            hasIndex = and flags 0x80 \<noteq> 0; hasCrc32 = and flags 0x40 \<noteq> 0; hasCacheBits = and flags 0x20 \<noteq> 0;
            bocFlags = and (drop_bit 3 flags) 0x03;
            sizeBytes = unat (and flags 0x07); offsetBytes = unat (bytes ! 5); off = 6 in
        guard (\<not> (hasCacheBits \<or> bocFlags \<noteq> 0)) (JsError ''Unsupported BoC flags'')
       (guard (\<not> (sizeBytes < 1 \<or> sizeBytes > 4 \<or> offsetBytes < 1 \<or> offsetBytes > 4))
          (JsError ''Unsupported BoC counter width'')
       (andThen (readBigUintBytes bytes off sizeBytes) (\<lambda>cellsCount.
        andThen (readBigUintBytes bytes (off + sizeBytes) sizeBytes) (\<lambda>rootsCount.
        andThen (readBigUintBytes bytes (off + 2 * sizeBytes) sizeBytes) (\<lambda>absentCount.
        andThen (readBigUintBytes bytes (off + 3 * sizeBytes) offsetBytes) (\<lambda>totalCellsSize.
        guard (\<not> (rootsCount \<noteq> 1 \<or> absentCount \<noteq> 0)) (JsError ''Unsupported BoC root/absent count'')
       (andThen (readBigUintBytes bytes (off + 3 * sizeBytes + offsetBytes) sizeBytes) (\<lambda>rootIndex.
          (let off = off + 4 * sizeBytes + offsetBytes;
               indexBytes = (if hasIndex then cellsCount * offsetBytes else 0) in
           guard (\<not> off + indexBytes > length bytes) (JsError ''BOC index table is truncated'')
             (let cellsStart = off + indexBytes; cellsEnd = cellsStart + totalCellsSize;
                  trailerBytes = (if hasCrc32 then 4 else 0) in
              guard (\<not> cellsEnd + trailerBytes > length bytes) (JsError ''BOC cells data is truncated'')
                (andThen (parse_cells cellsCount sizeBytes bytes cellsStart) (\<lambda>(parsed, off).
                 guard (off = cellsEnd) (JsError ''BOC cell size mismatch'')
                (guard (length bytes = cellsEnd + trailerBytes) (JsError ''BOC trailing data mismatch'')
                (andThen (link_cells parsed) (\<lambda>cells.
                 guard (rootIndex < length cells) (JsError ''BOC root index out of range'')
                   (Inr (cells, rootIndex))))))))))))))))))"

section \<open>What is written is what is read\<close>

definition packed_obj :: "cobj \<Rightarrow> bool" where
  "packed_obj c \<longleftrightarrow> (\<exists>w. o_data c = pack w \<and> o_bitLength c = length w \<and> length w \<le> 1023) \<and> length (o_refs c) \<le> 4"

lemma bigintToBytes_ok: "v < 256 ^ n \<Longrightarrow> 0 < n \<Longrightarrow> bigintToBytes (int v) n = Inr (be_bytes n v)"
proof -
  assume v: "v < 256 ^ n" "0 < n"
  have "(256 :: nat) ^ n = 2 ^ (n * 8)" by (simp add: mult.commute [of n] power_mult)
  with v show ?thesis by (simp add: bigintToBytes_def assertUint_ok)
qed

lemma terminator_found:
  assumes "bits_of data = w @ True # replicate k False"
  shows "terminator_below (length data * 8) data = Some (length w)"
proof -
  have len: "length data * 8 = length w + 1 + k"
    using arg_cong [OF assms, of length] by simp
  have rd: "readBit data i = (w @ True # replicate k False) ! i" if "i < length w + 1 + k" for i
    using that len by (subst readBit_nth) (simp_all add: assms mult.commute)
  have "terminator_below (length w + 1 + j) data = Some (length w)" if "j \<le> k" for j
    using that
  proof (induction j)
    case 0
    have "readBit data (length w)" using rd [of "length w"] by simp
    then show ?case by simp
  next
    case (Suc j)
    have "\<not> readBit data (length w + 1 + j)" using rd [of "length w + 1 + j"] Suc.prems by (simp add: nth_append)
    with Suc show ?case by simp
  qed
  then show ?thesis using len by simp
qed

lemma split8: obtains q r where "n = 8 * q + (r :: nat)" "r < 8" "n div 8 = q" "n mod 8 = r"
  by (rule that [of "n div 8" "n mod 8"]) simp_all

lemma ceil_div8: "(n + 7) div 8 = n div 8 + (if n mod 8 = 0 then 0 else 1 :: nat)"
proof -
  obtain q r where n: "n = 8 * q + r" "r < 8" "n div 8 = q" "n mod 8 = r" by (rule split8)
  show ?thesis
  proof (cases "r = 0")
    case True
    then have "(n + 7) div 8 = q" using n by (intro div_nat_eqI) auto
    with True n show ?thesis by simp
  next
    case False
    then have "(n + 7) div 8 = q + 1" using n by (intro div_nat_eqI) auto
    with False n show ?thesis by simp
  qed
qed

lemma descriptor_parity:
  "cellBitsDescriptor n mod 2 = (if n mod 8 = 0 then 0 else 1)"
  "(cellBitsDescriptor n + 1) div 2 = (n + 7) div 8"
  "n \<le> 1023 \<Longrightarrow> cellBitsDescriptor n < 256"
proof -
  obtain q r where n: "n = 8 * q + r" "r < 8" "n div 8 = q" "n mod 8 = r" by (rule split8)
  have d: "cellBitsDescriptor n = 2 * q + (if r = 0 then 0 else 1)"
    using n by (simp add: cellBitsDescriptor_def ceil_div8)
  show "cellBitsDescriptor n mod 2 = (if n mod 8 = 0 then 0 else 1)"
    "(cellBitsDescriptor n + 1) div 2 = (n + 7) div 8"
    unfolding d ceil_div8 n(3,4) by simp_all
  show "n \<le> 1023 \<Longrightarrow> cellBitsDescriptor n < 256" unfolding d using n(3) div_le_mono [of n 1023 8] by auto
qed

lemma padding:
  "n mod 8 \<noteq> 0 \<Longrightarrow> 8 * ((n + 7) div 8) - n = Suc (7 - n mod 8)"
  "n mod 8 = 0 \<Longrightarrow> (n + 7) div 8 * 8 = n"
proof -
  obtain q r where n: "n = 8 * q + r" "r < 8" "n div 8 = q" "n mod 8 = r" by (rule split8)
  show "n mod 8 \<noteq> 0 \<Longrightarrow> 8 * ((n + 7) div 8) - n = Suc (7 - n mod 8)"
    "n mod 8 = 0 \<Longrightarrow> (n + 7) div 8 * 8 = n"
    using n(1,2) by (simp_all add: ceil_div8 n(3,4))
qed

lemma unpad_terminated:
  "unpad (cellDataWithTerminator (pack w) (length w)) (cellBitsDescriptor (length w)) = Inr (pack w, length w)"
proof (cases "length w mod 8 = 0")
  case True
  then show ?thesis
    by (simp add: unpad_def cellDataWithTerminator_def descriptor_parity padding(2))
next
  case False
  define data where "data = fst (writeBit (pack w) (length w) True)"
  let ?k = "7 - length w mod 8"
  have "bits_of (pack w) = w @ replicate (Suc ?k) False"
    by (simp only: bits_of_pack padding(1) [OF False])
  then have bits: "bits_of data = w @ True # replicate ?k False"
    unfolding data_def using write_next [of "pack w" w "Suc ?k" True] by simp
  have "length w < 8 * length data"
    using arg_cong [OF bits, of length] by simp
  then have "bits_of (clearBit data (length w)) = bits_of (pack w)"
    using bits_of_clearBit [of "length w" data]
    by (simp only: bits bits_of_pack padding(1) [OF False]) (simp add: list_update_append)
  then have "clearBit data (length w) = pack w" by (rule bits_of_inj)
  then show ?thesis
    using False terminator_found [OF bits]
    by (simp add: unpad_def cellDataWithTerminator_def descriptor_parity data_def)
qed

definition payload :: "cobj \<Rightarrow> (addr \<Rightarrow> nat) \<Rightarrow> nat \<Rightarrow> bytes" where
  "payload c idx k =
     [word_of_nat (length (o_refs c)), word_of_nat (cellBitsDescriptor (o_bitLength c))]
     @ cellDataWithTerminator (o_data c) (o_bitLength c) @ concat (map (\<lambda>r. be_bytes k (idx r)) (o_refs c))"

lemma serializeCell_payload:
  assumes "length (o_refs c) \<le> 4" "\<forall>r \<in> set (o_refs c). idx r < 256 ^ k" "0 < k"
  shows "serializeCellForBoc c idx k = Inr (payload c idx k)"
proof -
  have "mapRes (\<lambda>r. bigintToBytes (int (idx r)) k) (o_refs c) = Inr (map (\<lambda>r. be_bytes k (idx r)) (o_refs c))"
    using assms by (intro mapRes_total) (simp add: bigintToBytes_ok)
  then show ?thesis using assms(1) by (simp add: serializeCellForBoc_def payload_def)
qed

lemma read_refs_written:
  assumes "drop off bs = concat (map (be_bytes k) rs) @ rest" "\<forall>r \<in> set rs. r < 256 ^ k" "0 < k"
  shows "read_refs (length rs) bs off k = Inr (rs, off + k * length rs) \<and> drop (off + k * length rs) bs = rest"
  using assms
proof (induction rs arbitrary: off)
  case (Cons r rs)
  have d: "drop off bs = be_bytes k r @ (concat (map (be_bytes k) rs) @ rest)" using Cons.prems(1) by simp
  have "readBigUintBytes bs off k = Inr r" "drop (off + k) bs = concat (map (be_bytes k) rs) @ rest"
    using readBigUintBytes_drop [OF d] Cons.prems(2,3) by simp_all
  then show ?case using Cons.IH [of "off + k"] Cons.prems by (simp add: algebra_simps)
qed simp

lemma refs_descriptor:
  "n \<le> 4 \<Longrightarrow> unat (and (word_of_nat n :: byte) 0x07) = n \<and> and (word_of_nat n :: byte) 0xf8 = 0"
proof -
  assume "n \<le> 4"
  then have "n \<in> {0, 1, 2, 3, 4}" by auto
  then show ?thesis by auto
qed

lemma length_cellDataWithTerminator [simp]: "length (cellDataWithTerminator d n) = length d"
  by (simp add: cellDataWithTerminator_def)

lemma length_concat_be_bytes: "length (concat (map (be_bytes k) rs)) = k * length rs"
  by (induction rs) (simp_all add: algebra_simps)

lemma parse_payload:
  assumes c: "packed_obj c" "\<forall>r \<in> set (o_refs c). idx r < 256 ^ k" "0 < k"
    and d: "drop off bs = payload c idx k @ rest"
  shows "parse_cell k bs off = Inr (\<lparr>pc_data = o_data c, pc_bitLength = o_bitLength c,
      pc_refIndexes = map idx (o_refs c)\<rparr>, off + length (payload c idx k))
    \<and> drop (off + length (payload c idx k)) bs = rest"
proof -
  obtain w where w: "o_data c = pack w" "o_bitLength c = length w" "length w \<le> 1023" and n4: "length (o_refs c) \<le> 4"
    using c(1) by (auto simp: packed_obj_def)
  define data where "data = cellDataWithTerminator (pack w) (length w)"
  define rb where "rb = concat (map (be_bytes k) (map idx (o_refs c)))"
  define d1 :: byte where "d1 = word_of_nat (length (o_refs c))"
  define d2 :: byte where "d2 = word_of_nat (cellBitsDescriptor (length w))"
  have p: "payload c idx k = [d1, d2] @ data @ rb"
    by (simp add: payload_def w data_def rb_def d1_def d2_def comp_def)
  have dl: "length data = (length w + 7) div 8" by (simp add: data_def)
  have u2: "unat d2 = cellBitsDescriptor (length w)"
    unfolding d2_def using descriptor_parity(3) [OF w(3)] by (intro unat_small_byte)
  have d0: "drop off bs = [d1, d2] @ (data @ rb @ rest)" using d p by simp
  have hd: "bs ! off = d1" "bs ! (off + 1) = d2" "off + 2 \<le> length bs"
  proof -
    have "bs ! (off + i) = drop off bs ! i" if "i < length (drop off bs)" for i
      using that by (intro nth_drop [symmetric]) auto
    from this [of 0] this [of 1] show "bs ! off = d1" "bs ! (off + 1) = d2"
      by (simp_all add: d0)
    show "off + 2 \<le> length bs" using drop_prefix(3) [OF d0] by simp
  qed
  have s1: "drop (off + 2) bs = data @ (rb @ rest)" using drop_prefix(1) [OF d0] by simp
  have sl: "slice (off + 2) (off + 2 + length data) bs = data" "drop (off + 2 + length data) bs = rb @ rest"
    using drop_prefix [OF s1] by simp_all
  have lb: "off + 2 + length data \<le> length bs"
    using drop_prefix(3) [OF s1] hd(3) by (cases "data = []") auto
  have up: "unpad data (unat d2) = Inr (pack w, length w)"
    unfolding data_def u2 by (rule unpad_terminated)
  have dlen: "(unat d2 + 1) div 2 = length data" unfolding u2 dl by (rule descriptor_parity(2))
  have rr: "read_refs (length (o_refs c)) bs (off + 2 + length data) k
      = Inr (map idx (o_refs c), off + 2 + length data + k * length (o_refs c))
    \<and> drop (off + 2 + length data + k * length (o_refs c)) bs = rest"
    using read_refs_written [of "off + 2 + length data" bs k "map idx (o_refs c)" rest] sl(2) c(2,3)
    by (simp add: rb_def)
  have d1: "unat (and d1 0x07) = length (o_refs c)" "and d1 0xf8 = 0"
    using refs_descriptor [OF n4] by (simp_all add: d1_def)
  have "length (payload c idx k) = 2 + length data + k * length (o_refs c)"
    using length_concat_be_bytes [of k "map idx (o_refs c)"] by (simp add: p rb_def)
  then show ?thesis
    using rr up lb hd unfolding parse_cell_def Let_def hd(1,2) d1 dlen sl(1)
    by (simp add: w(1,2) add.assoc)
qed

lemma parse_payloads:
  assumes "\<forall>c \<in> set cs. packed_obj c \<and> (\<forall>r \<in> set (o_refs c). idx r < 256 ^ k)" "0 < k"
    and "drop off bs = concat (map (\<lambda>c. payload c idx k) cs) @ rest"
  shows "parse_cells (length cs) k bs off
    = Inr (map (\<lambda>c. \<lparr>pc_data = o_data c, pc_bitLength = o_bitLength c, pc_refIndexes = map idx (o_refs c)\<rparr>) cs,
        off + sum_list (map (\<lambda>c. length (payload c idx k)) cs))"
  using assms
proof (induction cs arbitrary: off)
  case (Cons c cs)
  have d: "drop off bs = payload c idx k @ (concat (map (\<lambda>c. payload c idx k) cs) @ rest)"
    using Cons.prems(3) by simp
  have "parse_cell k bs off = Inr (\<lparr>pc_data = o_data c, pc_bitLength = o_bitLength c,
      pc_refIndexes = map idx (o_refs c)\<rparr>, off + length (payload c idx k))"
    "drop (off + length (payload c idx k)) bs = concat (map (\<lambda>c. payload c idx k) cs) @ rest"
    using parse_payload [OF _ _ Cons.prems(2) d] Cons.prems(1) by auto
  then show ?case
    using Cons.IH [of "off + length (payload c idx k)"] Cons.prems by (simp add: add.assoc)
qed simp

lemma size_flags:
  "1 \<le> k \<Longrightarrow> k \<le> 4 \<Longrightarrow> unat (and (word_of_nat k :: byte) 0x07) = k \<and> and (word_of_nat k :: byte) 0x80 = 0
     \<and> and (word_of_nat k :: byte) 0x40 = 0 \<and> and (word_of_nat k :: byte) 0x20 = 0
     \<and> and (drop_bit 3 (word_of_nat k :: byte)) 0x03 = 0"
proof -
  assume "1 \<le> k" "k \<le> 4"
  then have "k \<in> {1, 2, 3, 4}" by auto
  then show ?thesis by auto
qed

lemma pow256: "(256 :: nat) ^ k = 2 ^ (k * 8)"
  by (simp add: mult.commute [of k] power_mult)

lemma minimal_width:
  "v < 256 ^ minimalUintByteLength v" "0 < minimalUintByteLength v" "1 < (256 :: nat) ^ minimalUintByteLength v"
proof -
  have m: "1 \<le> minimalUintByteLength v" by (rule minimalUintByteLength_spec)
  then show "0 < minimalUintByteLength v" by simp
  show "v < 256 ^ minimalUintByteLength v"
    unfolding pow256 by (rule minimalUintByteLength_spec)
  show "1 < (256 :: nat) ^ minimalUintByteLength v" using m by (intro one_less_power) auto
qed

lemma boc_bytes_ok:
  assumes "k = minimalUintByteLength n" "tot = sum_list (map length ps)" "w = minimalUintByteLength tot"
  shows "boc_bytes n ps = Inr (BOC_MAGIC @ [word_of_nat k, word_of_nat w] @ be_bytes k n @ be_bytes k 1
    @ be_bytes k 0 @ be_bytes w tot @ be_bytes k 0 @ concat ps)"
  using minimal_width [of n] minimal_width [of tot]
    bigintToBytes_ok [of n k] bigintToBytes_ok [of 1 k] bigintToBytes_ok [of 0 k] bigintToBytes_ok [of tot w]
  by (simp add: boc_bytes_def Let_def assms [symmetric])

text \<open>The parser on a bag of cells, given what the cell payloads parse to.\<close>

lemma parseBoc_written:
  assumes "k = minimalUintByteLength n" "tot = sum_list (map length ps)" "w = minimalUintByteLength tot"
    and bytes: "boc_bytes n ps = Inr bs" and small: "n < 2 ^ 32" "tot < 2 ^ 32"
    and cells: "\<And>off. drop off bs = concat ps @ [] \<Longrightarrow> parse_cells n k bs off = Inr (parsed, off + tot)"
    and linked: "link_cells parsed = Inr h'" "0 < length h'"
  shows "parseBoc bs = Inr (h', 0)"
proof -
  have k: "1 \<le> k" "k \<le> 4" "n < 256 ^ k" "1 < (256 :: nat) ^ k"
    using minimalUintByteLength_spec [of n] minimalUintByteLength_le [of n 4] small(1) minimal_width [of n]
    by (simp_all add: assms(1))
  have w: "1 \<le> w" "w \<le> 4" "tot < 256 ^ w"
    using minimalUintByteLength_spec [of tot] minimalUintByteLength_le [of tot 4] small(2) minimal_width [of tot]
    by (simp_all add: assms(3))
  have bs: "bs = BOC_MAGIC @ [word_of_nat k, word_of_nat w] @ be_bytes k n @ be_bytes k 1
      @ be_bytes k 0 @ be_bytes w tot @ be_bytes k 0 @ concat ps"
    using bytes boc_bytes_ok [OF assms(1-3)] by simp
  have len: "length bs = 6 + 4 * k + w + tot"
    by (simp add: bs BOC_MAGIC_def length_concat assms(2))
  have hd: "take 4 bs = BOC_MAGIC" "bs ! 4 = word_of_nat k" "bs ! 5 = word_of_nat w"
    by (simp_all add: bs BOC_MAGIC_def)
  have d1: "drop 6 bs = be_bytes k n @ (be_bytes k 1 @ be_bytes k 0 @ be_bytes w tot @ be_bytes k 0 @ concat ps)"
    by (simp add: bs BOC_MAGIC_def)
  have e: "6 + k + k = 6 + 2 * k" "6 + 2 * k + k = 6 + 3 * k" "6 + 3 * k + w + k = 6 + 4 * k + w" by simp_all
  have p: "1 < (256 :: nat) ^ k" "0 < (256 :: nat) ^ k" "0 < k" "0 < w" using k w by simp_all
  have r1: "readBigUintBytes bs 6 k = Inr n"
    and d2: "drop (6 + k) bs = be_bytes k 1 @ (be_bytes k 0 @ be_bytes w tot @ be_bytes k 0 @ concat ps)"
    using readBigUintBytes_drop [OF d1, unfolded e] k(3) p(3) by blast+
  have r2: "readBigUintBytes bs (6 + k) k = Inr 1"
    and d3: "drop (6 + 2 * k) bs = be_bytes k 0 @ (be_bytes w tot @ be_bytes k 0 @ concat ps)"
    using readBigUintBytes_drop [OF d2, unfolded e] p(1,3) by blast+
  have r3: "readBigUintBytes bs (6 + 2 * k) k = Inr 0"
    and d4: "drop (6 + 3 * k) bs = be_bytes w tot @ (be_bytes k 0 @ concat ps)"
    using readBigUintBytes_drop [OF d3, unfolded e] p(2,3) by blast+
  have r4: "readBigUintBytes bs (6 + 3 * k) w = Inr tot"
    and d5: "drop (6 + 3 * k + w) bs = be_bytes k 0 @ concat ps"
    using readBigUintBytes_drop [OF d4, unfolded e] w(3) p(4) by blast+
  have r5: "readBigUintBytes bs (6 + 3 * k + w) k = Inr 0"
    and d6: "drop (6 + 4 * k + w) bs = concat ps"
    using readBigUintBytes_drop [OF d5, unfolded e] p(2,3) by blast+
  have u: "unat (word_of_nat w :: byte) = w" using w by (intro unat_small_byte) simp
  note f = size_flags [OF k(1,2)]
  have pc: "parse_cells n k bs (6 + 4 * k + w + 0) = Inr (parsed, 6 + 4 * k + w + 0 + tot)"
    using cells [of "6 + 4 * k + w"] d6 by simp
  have g: "\<not> length bs < 10" using len k by simp
  show ?thesis
    unfolding parseBoc_def Let_def hd u
    using g f k w linked
    by (simp add: r1 r2 r3 r4 r5 len pc [simplified])
qed

text \<open>The store a parser builds from cells in an order: each reference becomes a position.\<close>

definition relabel :: "heap \<Rightarrow> addr list \<Rightarrow> heap" where
  "relabel h cells = map (\<lambda>b. (h ! b)\<lparr>o_refs := map (index_of cells) (o_refs (h ! b))\<rparr>) cells"

lemma link_parsed:
  assumes "\<forall>b \<in> set cells. set (o_refs (h ! b)) \<subseteq> set cells"
  shows "link_cells (map (\<lambda>c. \<lparr>pc_data = o_data c, pc_bitLength = o_bitLength c,
      pc_refIndexes = map (index_of cells) (o_refs c)\<rparr>) (map ((!) h) cells)) = Inr (relabel h cells)"
proof -
  have "mapRes (\<lambda>r. guard (r < length cells) e (Inr r)) (map (index_of cells) (o_refs (h ! b)))
      = Inr (map (index_of cells) (o_refs (h ! b)))" if b: "b \<in> set cells" for b and e :: js_error
  proof -
    have "index_of cells r < length cells" if "r \<in> set (o_refs (h ! b))" for r
      using that assms b index_of_nth by fastforce
    then have "mapRes (\<lambda>r. guard (r < length cells) e (Inr r)) (map (index_of cells) (o_refs (h ! b)))
        = Inr (map id (map (index_of cells) (o_refs (h ! b))))"
      by (intro mapRes_total) auto
    then show ?thesis by simp
  qed
  note inner = this
  have "link_cells (map (\<lambda>c. \<lparr>pc_data = o_data c, pc_bitLength = o_bitLength c,
      pc_refIndexes = map (index_of cells) (o_refs c)\<rparr>) (map ((!) h) cells))
    = Inr (map (\<lambda>c. \<lparr>o_data = pc_data c, o_bitLength = pc_bitLength c, o_refs = pc_refIndexes c\<rparr>)
        (map (\<lambda>c. \<lparr>pc_data = o_data c, pc_bitLength = o_bitLength c,
          pc_refIndexes = map (index_of cells) (o_refs c)\<rparr>) (map ((!) h) cells)))"
    unfolding link_cells_def
    by (rule mapRes_total) (use inner in \<open>auto simp del: map_map\<close>)
  also have "\<dots> = Inr (relabel h cells)" by (simp add: relabel_def)
  finally show ?thesis .
qed

lemma denotes_relabel:
  assumes "\<forall>b \<in> set cells. set (o_refs (h ! b)) \<subseteq> set cells"
  shows "denotes h b t \<Longrightarrow> b \<in> set cells \<Longrightarrow> denotes (relabel h cells) (index_of cells b) t"
proof (induction rule: denotes.induct)
  case (node b ts)
  note i = index_of_nth [OF node.prems]
  let ?h = "relabel h cells" and ?i = "index_of cells b"
  have o: "?h ! ?i = (h ! b)\<lparr>o_refs := map (index_of cells) (o_refs (h ! b))\<rparr>" "?i < length ?h"
    using i by (simp_all add: relabel_def)
  have sub: "set (o_refs (h ! b)) \<subseteq> set cells" using assms node.prems by blast
  have "list_all2 (denotes ?h) (o_refs (?h ! ?i)) ts"
    unfolding o(1) using node.IH sub by (auto simp: list_all2_conv_all_nth subset_iff)
  then have "denotes ?h ?i (Cell (o_data (?h ! ?i)) (o_bitLength (?h ! ?i)) ts)"
    by (intro denotes.node o(2))
  then show ?case by (simp add: o(1))
qed

lemma postordered_cells:
  assumes "postordered h (rev cells)"
  shows "distinct cells" "b \<in> set cells \<Longrightarrow> set (o_refs (h ! b)) \<subseteq> set cells"
    "i < length cells \<Longrightarrow> r \<in> set (o_refs (h ! (cells ! i))) \<Longrightarrow> i < index_of cells r"
    "b \<in> set cells \<Longrightarrow> b < length h"
proof -
  show d: "distinct cells" using assms by (simp add: postordered_def)
  have *: "set (o_refs (h ! b)) \<subseteq> set zs" "b < length h" if "cells = ys @ b # zs" for ys b zs
  proof -
    have "rev cells = rev zs @ b # rev ys" using that by simp
    then have "set (o_refs (h ! b)) \<subseteq> set (rev zs) \<and> (\<exists>t. denotes h b t)"
      using assms unfolding postordered_def by blast
    then show "set (o_refs (h ! b)) \<subseteq> set zs" "b < length h" by (auto elim: denotesE)
  qed
  show "b \<in> set cells \<Longrightarrow> set (o_refs (h ! b)) \<subseteq> set cells" "b \<in> set cells \<Longrightarrow> b < length h"
  proof -
    assume "b \<in> set cells"
    then obtain ys zs where c: "cells = ys @ b # zs" by (meson split_list)
    then show "b < length h" by (rule *(2))
    have "set zs \<subseteq> set cells" unfolding c by auto
    with *(1) [OF c] show "set (o_refs (h ! b)) \<subseteq> set cells" by (rule order_trans)
  qed
  assume i: "i < length cells" and r: "r \<in> set (o_refs (h ! (cells ! i)))"
  have "cells = take i cells @ cells ! i # drop (Suc i) cells" by (rule id_take_nth_drop [OF i])
  then have "r \<in> set (drop (Suc i) cells)" using *(1) r by blast
  then obtain j where "j < length cells - Suc i" "r = cells ! (Suc i + j)"
    by (auto simp: in_set_conv_nth)
  then show "i < index_of cells r" using index_of_distinct [OF d, of "Suc i + j"] by simp
qed

lemma boc_roundtrip_aux:
  assumes "denotes h a t" and "\<forall>c \<in> set h. packed_obj c" and "length h \<le> 2 ^ 24"
  shows "\<exists>bs h'. serializeBoc h a = Some (Inr bs) \<and> parseBoc bs = Inr (h', 0) \<and> denotes h' 0 t
    \<and> length h' \<le> length h \<and> (\<forall>i < length h'. \<forall>r \<in> set (o_refs (h' ! i)). i < r)"
proof -
  obtain post where f: "flattenCellTree h a = Some (a # post)" and po: "postordered h (rev post @ [a])"
    using flatten_spec [OF assms(1)] by blast
  define cells where "cells = a # post"
  have po: "postordered h (rev cells)" using po by (simp add: cells_def)
  note cs = postordered_cells [OF po]
  define n k where "n = length cells" and "k = minimalUintByteLength n"
  have nh: "n \<le> length h"
    unfolding n_def using cs(1,4) by (metis distinct_card card_mono finite_lessThan lessThan_iff card_lessThan subsetI)
  then have n: "n \<le> 2 ^ 24" using assms(3) by simp
  have kw: "n < 256 ^ k" "0 < k" using minimal_width [of n] by (simp_all add: k_def)
  have obj: "packed_obj (h ! b)" "\<forall>r \<in> set (o_refs (h ! b)). index_of cells r < 256 ^ k" if "b \<in> set cells" for b
  proof -
    show "packed_obj (h ! b)" using that cs(4) assms(2) by simp
    show "\<forall>r \<in> set (o_refs (h ! b)). index_of cells r < 256 ^ k"
      using that cs(2) index_of_nth kw(1) unfolding n_def by (meson less_trans subset_iff)
  qed
  define p where "p c = payload c (index_of cells) k" for c
  define ps where "ps = map (\<lambda>b. p (h ! b)) cells"
  have ser: "mapRes (\<lambda>c. serializeCellForBoc (h ! c) (index_of cells) k) cells = Inr ps"
    unfolding ps_def p_def
    using obj kw(2) by (intro mapRes_total serializeCell_payload) (auto simp: packed_obj_def)
  have k4: "k \<le> 4" unfolding k_def using n by (intro minimalUintByteLength_le) simp_all
  have len_p: "length (p (h ! b)) \<le> 146" if "b \<in> set cells" for b
  proof -
    have o: "packed_obj (h ! b)" by (rule obj(1) [OF that])
    obtain w where w: "o_data (h ! b) = pack w" "length w \<le> 1023" and r4: "length (o_refs (h ! b)) \<le> 4"
      using o by (auto simp: packed_obj_def)
    have "length (o_data (h ! b)) \<le> 128" using w div_le_mono [of "length w + 7" 1030 8] by simp
    moreover have "k * length (o_refs (h ! b)) \<le> 4 * 4"
      using k4 r4 by (intro mult_le_mono)
    moreover have "length (concat (map (\<lambda>r. be_bytes k (index_of cells r)) (o_refs (h ! b)))) = k * length (o_refs (h ! b))"
      using length_concat_be_bytes [of k "map (index_of cells) (o_refs (h ! b))"] by (simp add: comp_def)
    ultimately show ?thesis by (simp add: p_def payload_def)
  qed
  have "sum_list (map length ps) \<le> 146 * n"
  proof -
    have "sum_list (map (\<lambda>b. length (p (h ! b))) xs) \<le> 146 * length xs" if "set xs \<subseteq> set cells" for xs
      using that len_p by (induction xs) fastforce+
    from this [of cells] show ?thesis by (simp add: ps_def n_def comp_def)
  qed
  then have small: "n < 2 ^ 32" "sum_list (map length ps) < 2 ^ 32" using n by simp_all
  obtain bs where bs: "boc_bytes n ps = Inr bs" using boc_bytes_ok [OF refl refl refl] by blast
  define parsed where "parsed = map (\<lambda>c. \<lparr>pc_data = o_data c, pc_bitLength = o_bitLength c,
      pc_refIndexes = map (index_of cells) (o_refs c)\<rparr>) (map ((!) h) cells)"
  have pc: "parse_cells n k bs off = Inr (parsed, off + sum_list (map length ps))"
    if "drop off bs = concat ps @ []" for off
    using parse_payloads [of "map ((!) h) cells" "index_of cells" k off bs "[]"] that obj kw(2)
    by (simp add: ps_def p_def comp_def n_def parsed_def)
  have "parseBoc bs = Inr (relabel h cells, 0)"
    using parseBoc_written [OF k_def refl refl bs small pc] link_parsed [of cells h] cs(2)
    by (simp add: parsed_def relabel_def cells_def del: map_map)
  moreover have "serializeBoc h a = Some (Inr bs)"
    using ser bs by (simp add: serializeBoc_def f cells_def [symmetric] k_def n_def)
  moreover have "denotes (relabel h cells) (index_of cells a) t"
    using cs(2) assms(1) by (intro denotes_relabel) (auto simp: cells_def)
  moreover have "\<forall>i < length (relabel h cells). \<forall>r \<in> set (o_refs (relabel h cells ! i)). i < r"
    using cs(3) by (auto simp: relabel_def)
  ultimately show ?thesis using nh by (auto simp: cells_def relabel_def n_def)
qed

text \<open>
  C10: A bag of cells is read back as the tree that was written. Whatever sharing the store has,
  \<open>serializeBoc\<close> terminates, writes each reachable cell once, and \<open>parseBoc\<close> rebuilds a store whose
  root unfolds to the same tree; in it every reference points to a later cell, the order TON
  demands.
\<close>

theorem boc_roundtrip:
  assumes "denotes h a t" and "\<forall>c \<in> set h. packed_obj c" and "length h \<le> 2 ^ 24"
  shows "\<exists>bs h'. serializeBoc h a = Some (Inr bs) \<and> parseBoc bs = Inr (h', 0) \<and> denotes h' 0 t
    \<and> length h' \<le> length h \<and> (\<forall>i < length h'. \<forall>r \<in> set (o_refs (h' ! i)). i < r)"
  by (rule boc_roundtrip_aux [OF assms])

text \<open>A cell referenced twice: written once, read back as the same tree.\<close>

definition shared_store :: heap where
  "shared_store = [\<lparr>o_data = pack [True, False, True], o_bitLength = 3, o_refs = []\<rparr>,
     \<lparr>o_data = pack [], o_bitLength = 0, o_refs = [0, 0]\<rparr>]"

theorem boc_roundtrip_witness:
  "\<exists>bs h'. serializeBoc shared_store 1 = Some (Inr bs) \<and> parseBoc bs = Inr (h', 0)
     \<and> denotes h' 0 (cell_of [] [cell_of [True, False, True] [], cell_of [True, False, True] []])
     \<and> length h' \<le> 2"
proof -
  have leaf: "denotes shared_store 0 (cell_of [True, False, True] [])"
    using denotes.node [of 0 shared_store "[]"] by (simp add: shared_store_def cell_of_def numeral_eq_Suc)
  have "denotes shared_store 1 (cell_of [] [cell_of [True, False, True] [], cell_of [True, False, True] []])"
    using denotes.node [of 1 shared_store "[cell_of [True, False, True] [], cell_of [True, False, True] []]"] leaf
    by (simp add: shared_store_def cell_of_def)
  moreover have "\<forall>c \<in> set shared_store. packed_obj c"
  proof
    fix c assume "c \<in> set shared_store"
    then have "o_data c = pack [True, False, True] \<and> o_bitLength c = length [True, False, True] \<and> length (o_refs c) \<le> 4
        \<or> o_data c = pack [] \<and> o_bitLength c = length ([] :: bool list) \<and> length (o_refs c) \<le> 4"
      by (auto simp: shared_store_def)
    then show "packed_obj c" unfolding packed_obj_def
      by (elim disjE conjE) (intro conjI exI, assumption+, simp_all)
  qed
  moreover have "length shared_store \<le> 2 ^ 24" by (simp add: shared_store_def)
  ultimately show ?thesis
    using boc_roundtrip [of shared_store 1 "cell_of [] [cell_of [True, False, True] [], cell_of [True, False, True] []]"]
    by (auto simp: shared_store_def numeral_2_eq_2)
qed

end
