(* ===== verification/Cell_Hash.thy ===== *)
theory Cell_Hash
  imports Boc
begin

text \<open>
  \<open>computeCellHashAndDepth\<close> of \<^verbatim>\<open>src/web/pwa-contract-transactions.mjs\<close>: the
  representation hash of a cell, memoised by object identity in a \<open>WeakMap\<close>. SHA-256 is the
  parameter \<open>sha\<close>. \<open>tree_hash\<close> is the hash without the cache, by recursion on the tree.
\<close>

definition uint16Bytes :: "nat \<Rightarrow> bytes res" where
  "uint16Bytes v = guard (\<not> v > 0xffff) (RangeError ''must fit uint16'') (Inr (be_bytes 2 v))"

definition hash_and_depth :: "(bytes \<Rightarrow> bytes) \<Rightarrow> bytes \<Rightarrow> nat \<Rightarrow> (bytes \<times> nat) list \<Rightarrow> (bytes \<times> nat) res" where
  "hash_and_depth sha data n refs =
     (let depth = (if refs = [] then 0 else foldr max (map snd refs) 0 + 1) in
      andThen (mapRes (\<lambda>r. uint16Bytes (snd r)) refs) (\<lambda>depths.
        Inr (sha ([word_of_nat (length refs), word_of_nat (cellBitsDescriptor n)]
               @ cellDataWithTerminator data n @ concat depths @ concat (map fst refs)), depth)))"

lemma mapRes_cong [fundef_cong]:
  "xs = ys \<Longrightarrow> (\<And>x. x \<in> set ys \<Longrightarrow> f x = g x) \<Longrightarrow> mapRes f xs = mapRes g ys"
  by (induction xs arbitrary: ys) auto

fun tree_hash :: "(bytes \<Rightarrow> bytes) \<Rightarrow> cell \<Rightarrow> (bytes \<times> nat) res" where
  "tree_hash sha (Cell d n ts) = andThen (mapRes (tree_hash sha) ts) (hash_and_depth sha d n)"

type_synonym hash_cache = "addr \<rightharpoonup> bytes \<times> nat"

text \<open>A loop that may throw, may run out of fuel, and hands a state on from step to step.\<close>

fun collect :: "('a \<Rightarrow> 's \<Rightarrow> ('e + ('b \<times> 's)) option) \<Rightarrow> 'a list \<Rightarrow> 's \<Rightarrow> ('e + ('b list \<times> 's)) option" where
  "collect g [] s = Some (Inr ([], s))"
| "collect g (x # xs) s =
     (case g x s of
        None \<Rightarrow> None
      | Some (Inl e) \<Rightarrow> Some (Inl e)
      | Some (Inr (y, s')) \<Rightarrow>
          (case collect g xs s' of
             None \<Rightarrow> None
           | Some (Inl e) \<Rightarrow> Some (Inl e)
           | Some (Inr (ys, s'')) \<Rightarrow> Some (Inr (y # ys, s''))))"

fun computeCellHashAndDepth ::
  "(bytes \<Rightarrow> bytes) \<Rightarrow> nat \<Rightarrow> heap \<Rightarrow> addr \<Rightarrow> hash_cache \<Rightarrow> (js_error + ((bytes \<times> nat) \<times> hash_cache)) option" where
  "computeCellHashAndDepth sha 0 h a cache = None"
| "computeCellHashAndDepth sha (Suc fuel) h a cache =
     (case cache a of
        Some cached \<Rightarrow> Some (Inr (cached, cache))
      | None \<Rightarrow>
          (case collect (computeCellHashAndDepth sha fuel h) (o_refs (h ! a)) cache of
             None \<Rightarrow> None
           | Some (Inl e) \<Rightarrow> Some (Inl e)
           | Some (Inr (refs, cache')) \<Rightarrow>
               Some (andThen (hash_and_depth sha (o_data (h ! a)) (o_bitLength (h ! a)) refs)
                 (\<lambda>result. Inr (result, cache'(a \<mapsto> result))))))"

definition cache_ok :: "(bytes \<Rightarrow> bytes) \<Rightarrow> heap \<Rightarrow> hash_cache \<Rightarrow> bool" where
  "cache_ok sha h cache \<longleftrightarrow> (\<forall>b r t. cache b = Some r \<longrightarrow> denotes h b t \<longrightarrow> tree_hash sha t = Inr r)"

lemma collect_hashes:
  assumes "list_all2 (\<lambda>r t. \<forall>cache. cache_ok sha h cache \<longrightarrow>
      (case tree_hash sha t of
         Inl e \<Rightarrow> g r cache = Some (Inl e)
       | Inr x \<Rightarrow> \<exists>cache'. g r cache = Some (Inr (x, cache')) \<and> cache_ok sha h cache')) rs ts"
    and "cache_ok sha h cache"
  shows "case mapRes (tree_hash sha) ts of
      Inl e \<Rightarrow> collect g rs cache = Some (Inl e)
    | Inr xs \<Rightarrow> \<exists>cache'. collect g rs cache = Some (Inr (xs, cache')) \<and> cache_ok sha h cache'"
  using assms
proof (induction rs ts arbitrary: cache rule: list_all2_induct)
  case (Cons r rs t ts)
  show ?case
  proof (cases "tree_hash sha t")
    case (Inl e)
    with Cons show ?thesis by auto
  next
    case (Inr x)
    with Cons obtain cache' where g: "g r cache = Some (Inr (x, cache'))" "cache_ok sha h cache'" by auto
    from Cons.IH [OF g(2)] g(1) Inr show ?thesis by (cases "mapRes (tree_hash sha) ts") auto
  qed
qed simp

lemma hash_memo:
  assumes "denotes h a t" "height t < fuel" "cache_ok sha h cache"
  shows "case tree_hash sha t of
      Inl e \<Rightarrow> computeCellHashAndDepth sha fuel h a cache = Some (Inl e)
    | Inr x \<Rightarrow> \<exists>cache'. computeCellHashAndDepth sha fuel h a cache = Some (Inr (x, cache')) \<and> cache_ok sha h cache'"
  using assms
proof (induction fuel arbitrary: a t cache)
  case (Suc fuel)
  from Suc.prems(1) obtain ts where ts: "list_all2 (denotes h) (o_refs (h ! a)) ts"
      and t: "t = Cell (o_data (h ! a)) (o_bitLength (h ! a)) ts"
    by (auto elim: denotesE)
  show ?case
  proof (cases "cache a")
    case (Some r)
    then have "tree_hash sha t = Inr r" using Suc.prems unfolding cache_ok_def by blast
    with Some Suc.prems(3) show ?thesis by auto
  next
    case None
    have "list_all2 (\<lambda>r t. \<forall>cache. cache_ok sha h cache \<longrightarrow>
      (case tree_hash sha t of
         Inl e \<Rightarrow> computeCellHashAndDepth sha fuel h r cache = Some (Inl e)
       | Inr x \<Rightarrow> \<exists>cache'. computeCellHashAndDepth sha fuel h r cache = Some (Inr (x, cache')) \<and> cache_ok sha h cache'))
      (o_refs (h ! a)) ts"
    proof (rule list_all2_all_nthI)
      show "length (o_refs (h ! a)) = length ts" using ts by (rule list_all2_lengthD)
      fix i assume i: "i < length (o_refs (h ! a))"
      have d: "denotes h (o_refs (h ! a) ! i) (ts ! i)" using ts i by (auto simp: list_all2_conv_all_nth)
      have "ts ! i \<in> set ts" using ts i by (auto simp: list_all2_conv_all_nth)
      then have "height (ts ! i) < fuel" using height_ref Suc.prems(2) t by fastforce
      from Suc.IH [OF d this]
      show "\<forall>cache. cache_ok sha h cache \<longrightarrow>
        (case tree_hash sha (ts ! i) of
           Inl e \<Rightarrow> computeCellHashAndDepth sha fuel h (o_refs (h ! a) ! i) cache = Some (Inl e)
         | Inr x \<Rightarrow> \<exists>cache'. computeCellHashAndDepth sha fuel h (o_refs (h ! a) ! i) cache = Some (Inr (x, cache'))
             \<and> cache_ok sha h cache')" by blast
    qed
    note c = collect_hashes [OF this Suc.prems(3)]
    show ?thesis
    proof (cases "mapRes (tree_hash sha) ts")
      case (Inl e)
      with c None t show ?thesis by simp
    next
      case (Inr xs)
      with c obtain cache' where l: "collect (computeCellHashAndDepth sha fuel h) (o_refs (h ! a)) cache = Some (Inr (xs, cache'))"
          "cache_ok sha h cache'" by auto
      have th: "tree_hash sha t = hash_and_depth sha (o_data (h ! a)) (o_bitLength (h ! a)) xs"
        using Inr by (simp add: t)
      show ?thesis
      proof (cases "tree_hash sha t")
        case bad: (Inl e)
        with l None show ?thesis by (simp add: th [symmetric])
      next
        case good: (Inr x)
        have "cache_ok sha h (cache'(a \<mapsto> x))"
          using l(2) good denotes_unique [OF Suc.prems(1)] unfolding cache_ok_def by auto
        with l None show ?thesis by (simp add: good th [symmetric])
      qed
    qed
  qed
qed simp

text \<open>
  C22: The memoised hash is the hash. On any store and with any cache of earlier correct results
  (the empty one to begin with), \<open>computeCellHashAndDepth\<close> terminates with the representation
  hash and depth of the tree its root unfolds to, and leaves only correct results in the cache;
  where a depth does not fit 16 bits both throw the same error.
\<close>

theorem cell_hash_memoised:
  assumes "denotes h a t" and "cache_ok sha h cache"
  shows "case tree_hash sha t of
      Inl e \<Rightarrow> computeCellHashAndDepth sha (length h) h a cache = Some (Inl e)
    | Inr x \<Rightarrow> \<exists>cache'. computeCellHashAndDepth sha (length h) h a cache = Some (Inr (x, cache'))
        \<and> cache_ok sha h cache'"
  using hash_memo [OF assms(1) height_less_heap [OF assms(1)] assms(2)] .

theorem cell_hash_memoised_witness:
  "\<exists>cache'. computeCellHashAndDepth (\<lambda>bs. be_bytes 2 (length bs)) 2 shared_store 1 Map.empty
     = Some (Inr (([0, 10], 1), cache'))"
proof -
  let ?sha = "\<lambda>bs :: bytes. be_bytes 2 (length bs)"
  let ?leaf = "cell_of [True, False, True] []"
  have leaf: "denotes shared_store 0 ?leaf"
    using denotes.node [of 0 shared_store "[]"] by (simp add: shared_store_def cell_of_def numeral_eq_Suc)
  have d: "denotes shared_store 1 (cell_of [] [?leaf, ?leaf])"
    using denotes.node [of 1 shared_store "[?leaf, ?leaf]"] leaf
    by (simp add: shared_store_def cell_of_def)
  have "tree_hash ?sha ?leaf = Inr (be_bytes 2 3, 0)"
    by (simp add: cell_of_def hash_and_depth_def numeral_3_eq_3)
  then have "tree_hash ?sha (cell_of [] [?leaf, ?leaf]) = Inr ([0, 10], 1)"
    by (simp add: cell_of_def hash_and_depth_def uint16Bytes_def cellDataWithTerminator_def numeral_2_eq_2)
  moreover have len: "length shared_store = 2" by (simp add: shared_store_def)
  ultimately show ?thesis
    using cell_hash_memoised [OF d, of ?sha Map.empty] len
    by (auto simp: cache_ok_def simp del: computeCellHashAndDepth.simps tree_hash.simps)
qed

end
