(* ===== verification/Snake.thy ===== *)
theory Snake
  imports Cell_Hash
begin

text \<open>
  Byte strings as chains of cells ("snakes"): \<open>snakeCellFromBytes\<close> and
  \<open>readSnakeCellBytes\<close> of \<^verbatim>\<open>src/web/pwa-contract-transactions.mjs\<close>. The
  writer cuts chunks of 127 bytes from the end, so that the first cell may be short; the reader
  follows references through the store, refusing cycles, forks and odd bits.
\<close>

section \<open>Trees the builder makes, in a store\<close>

fun ok_cell :: "cell \<Rightarrow> bool" where
  "ok_cell (Cell d n ts) \<longleftrightarrow> (\<exists>w. d = pack w \<and> n = length w \<and> length w \<le> 1023) \<and> length ts \<le> 4
     \<and> list_all ok_cell ts"

fun cell_count :: "cell \<Rightarrow> nat" where
  "cell_count (Cell d n ts) = Suc (sum_list (map cell_count ts))"

lemma alloc_ok:
  "ok_cell t \<Longrightarrow> (\<forall>c \<in> set h. packed_obj c) \<Longrightarrow>
     (\<forall>c \<in> set (fst (alloc t h)). packed_obj c) \<and> length (fst (alloc t h)) = length h + cell_count t"
  "list_all ok_cell ts \<Longrightarrow> (\<forall>c \<in> set h. packed_obj c) \<Longrightarrow>
     (\<forall>c \<in> set (fst (alloc_all ts h)). packed_obj c)
     \<and> length (fst (alloc_all ts h)) = length h + sum_list (map cell_count ts)
     \<and> length (snd (alloc_all ts h)) = length ts"
proof (induction t h and ts h rule: alloc_alloc_all.induct)
  case (1 d n ts h)
  obtain h' as where e: "alloc_all ts h = (h', as)" by (cases "alloc_all ts h")
  have ih: "(\<forall>c \<in> set h'. packed_obj c) \<and> length h' = length h + sum_list (map cell_count ts) \<and> length as = length ts"
    using 1 e by simp
  have "packed_obj \<lparr>o_data = d, o_bitLength = n, o_refs = as\<rparr>"
    using "1.prems"(1) ih by (simp add: packed_obj_def)
  with ih e show ?case by simp
next
  case (3 t ts h)
  obtain h1 a where e1: "alloc t h = (h1, a)" by (cases "alloc t h")
  obtain h2 as where e2: "alloc_all ts h1 = (h2, as)" by (cases "alloc_all ts h1")
  have ih1: "(\<forall>c \<in> set h1. packed_obj c) \<and> length h1 = length h + cell_count t"
    using "3.IH"(1) "3.prems" e1 by simp
  have ih2: "(\<forall>c \<in> set h2. packed_obj c) \<and> length h2 = length h1 + sum_list (map cell_count ts) \<and> length as = length ts"
    using "3.IH"(2) [OF e1 [symmetric] refl] "3.prems"(1) ih1 e2 by simp
  with ih1 e1 e2 show ?case by simp
qed simp

text \<open>\<open>toBocBase64\<close> up to the base64: the bag of the freshly allocated tree.\<close>

definition tree_boc :: "cell \<Rightarrow> bytes res option" where
  "tree_boc t = (let (h, a) = alloc t [] in serializeBoc h a)"

lemma tree_boc_roundtrip:
  assumes "ok_cell t" "cell_count t \<le> 2 ^ 24"
  shows "\<exists>bs h. tree_boc t = Some (Inr bs) \<and> parseBoc bs = Inr (h, 0) \<and> denotes h 0 t
    \<and> (\<forall>i < length h. \<forall>r \<in> set (o_refs (h ! i)). i < r)"
proof -
  obtain h a where e: "alloc t [] = (h, a)" by (cases "alloc t []")
  have "denotes h a t" using alloc_denotes(1) [of t "[]"] e by simp
  moreover have "\<forall>c \<in> set h. packed_obj c" "length h \<le> 2 ^ 24"
    using alloc_ok(1) [of t "[]"] assms e by simp_all
  ultimately show ?thesis using boc_roundtrip_aux [of h a t] e unfolding tree_boc_def by auto
qed

section \<open>Writing\<close>

function snake_loop :: "nat \<Rightarrow> bytes \<Rightarrow> cell option \<Rightarrow> cell option res" where
  "snake_loop offset bytes tail =
     (if offset = 0 then Inr tail
      else
        (let start = offset - 127 in
         andThen (b_bytesValue (slice start offset bytes) (offset - start) beginCell) (\<lambda>b.
           andThen (case tail of None \<Rightarrow> Inr b | Some c \<Rightarrow> b_ref c b) (\<lambda>b.
             snake_loop start bytes (Some (endCell b))))))"
  by pat_completeness auto
termination
  by (relation "measure (\<lambda>(offset, bytes, tail). offset)") auto

declare snake_loop.simps [simp del]

definition snakeCellFromBytes :: "bytes \<Rightarrow> cell res" where
  "snakeCellFromBytes bytes =
     andThen (snake_loop (length bytes) bytes None) (\<lambda>tail.
       Inr (case tail of None \<Rightarrow> endCell beginCell | Some c \<Rightarrow> c))"

text \<open>The chain of chunks; the bytes it carries.\<close>

fun snake_of :: "bytes list \<Rightarrow> cell" where
  "snake_of [] = cell_of [] []"
| "snake_of [c] = cell_of (bits_of c) []"
| "snake_of (c # cs) = cell_of (bits_of c) [snake_of cs]"

lemma snake_of_Cons: "cs \<noteq> [] \<Longrightarrow> snake_of (c # cs) = cell_of (bits_of c) [snake_of cs]"
  by (cases cs) simp_all

lemma snake_step:
  assumes "length chunk = n"
  shows "\<exists>b. b_bytesValue chunk n beginCell = Inr b \<and>
    (\<exists>b'. (case tail of None \<Rightarrow> Inr b | Some c \<Rightarrow> b_ref c b) = Inr b'
      \<and> endCell b' = cell_of (bits_of chunk) (case tail of None \<Rightarrow> [] | Some c \<Rightarrow> [c]))"
proof -
  obtain b where b: "b_bytesValue chunk n beginCell = Inr b" "holds b (bits_of chunk) []"
    using appendsD [OF appends_bytesValue [OF assms] holds_beginCell] by auto
  show ?thesis
  proof (cases tail)
    case None
    with b endCell_holds [OF b(2)] show ?thesis by simp
  next
    case (Some c)
    obtain b' where "b_ref c b = Inr b'" "holds b' (bits_of chunk) [c]"
      using appendsD [OF appends_ref b(2), of c] by auto
    with b Some endCell_holds show ?thesis by auto
  qed
qed

lemma snake_loop_spec:
  assumes "offset \<le> length bytes"
  shows "\<exists>cs. concat cs = take offset bytes \<and> (\<forall>c \<in> set cs. length c \<le> 127 \<and> c \<noteq> []) \<and> length cs \<le> offset
    \<and> (cs = [] \<longrightarrow> offset = 0)
    \<and> (\<forall>ds. snake_loop offset bytes (if ds = [] then None else Some (snake_of ds))
        = Inr (if cs @ ds = [] then None else Some (snake_of (cs @ ds))))"
  using assms
proof (induction offset rule: less_induct)
  case (less offset)
  show ?case
  proof (cases "offset = 0")
    case True
    then show ?thesis by (intro exI [of _ "[]"]) (simp add: snake_loop.simps)
  next
    case False
    let ?start = "offset - 127" and ?chunk = "slice (offset - 127) offset bytes"
    have len: "length ?chunk = offset - ?start" using less.prems by simp
    obtain cs where cs: "concat cs = take ?start bytes" "\<forall>c \<in> set cs. length c \<le> 127 \<and> c \<noteq> []"
        "length cs \<le> ?start"
        "\<And>ds. snake_loop ?start bytes (if ds = [] then None else Some (snake_of ds))
          = Inr (if cs @ ds = [] then None else Some (snake_of (cs @ ds)))"
    proof -
      have "?start < offset" "?start \<le> length bytes" using less.prems False by simp_all
      from less.IH [OF this] show ?thesis using that by blast
    qed
    have "snake_loop offset bytes (if ds = [] then None else Some (snake_of ds))
        = Inr (Some (snake_of (cs @ ?chunk # ds)))" for ds
    proof -
      let ?tail = "if ds = [] then None else Some (snake_of ds)"
      have "cell_of (bits_of ?chunk) (case ?tail of None \<Rightarrow> [] | Some c \<Rightarrow> [c]) = snake_of (?chunk # ds)"
        using snake_of_Cons [of ds] by (cases ds) auto
      then obtain b b' where "b_bytesValue ?chunk (offset - ?start) beginCell = Inr b"
          "(case ?tail of None \<Rightarrow> Inr b | Some c \<Rightarrow> b_ref c b) = Inr b'" "endCell b' = snake_of (?chunk # ds)"
        using snake_step [OF len, of ?tail] by metis
      then show ?thesis
        using False cs(4) [of "?chunk # ds"] by (subst snake_loop.simps) (simp add: Let_def)
    qed
    moreover have "concat (cs @ [?chunk]) = take offset bytes"
      using cs(1) by (simp add: slice_def) (metis diff_le_self le_add_diff_inverse take_add)
    moreover have "?chunk \<noteq> []" using len False by (cases ?chunk) auto
    moreover have "length ?chunk \<le> 127" using len by (simp only: len)
    moreover have "length cs < offset" using cs(3) False by simp
    ultimately show ?thesis
      using cs(2) by (intro exI [of _ "cs @ [?chunk]"]) auto
  qed
qed

lemma snakeCellFromBytes_spec:
  obtains cs where "snakeCellFromBytes bytes = Inr (snake_of cs)" "concat cs = bytes"
    "\<forall>c \<in> set cs. length c \<le> 127 \<and> c \<noteq> []" "length cs \<le> length bytes"
proof -
  obtain cs where cs: "concat cs = take (length bytes) bytes" "\<forall>c \<in> set cs. length c \<le> 127 \<and> c \<noteq> []"
      "length cs \<le> length bytes"
      "\<And>ds. snake_loop (length bytes) bytes (if ds = [] then None else Some (snake_of ds))
        = Inr (if cs @ ds = [] then None else Some (snake_of (cs @ ds)))"
    using snake_loop_spec [of "length bytes" bytes] by auto
  have "snakeCellFromBytes bytes = Inr (snake_of cs)"
    using cs(4) [of "[]"] endCell_holds [OF holds_beginCell] by (simp add: snakeCellFromBytes_def)
  with cs show ?thesis by (intro that) simp_all
qed

section \<open>Reading\<close>

text \<open>The loop of \<open>readSnakeCellBytes\<close>; \<open>seen\<close> is its set of visited cells.\<close>

fun read_snake :: "nat \<Rightarrow> heap \<Rightarrow> addr \<Rightarrow> addr list \<Rightarrow> bytes list res option" where
  "read_snake 0 h a seen = None"
| "read_snake (Suc fuel) h a seen =
     (if a \<in> set seen then Some (Inl (JsError ''has a cycle''))
      else if o_bitLength (h ! a) mod 8 \<noteq> 0 then Some (Inl (JsError ''must be byte-aligned''))
      else if length (o_refs (h ! a)) > 1 then Some (Inl (JsError ''can have at most one ref per chunk''))
      else
        (let chunk = take (o_bitLength (h ! a) div 8) (o_data (h ! a)) in
         case o_refs (h ! a) of
           [] \<Rightarrow> Some (Inr [chunk])
         | r # rs \<Rightarrow>
             map_option (\<lambda>res. andThen res (\<lambda>chunks. Inr (chunk # chunks))) (read_snake fuel h r (a # seen))))"

definition readSnakeCellBytes :: "heap \<Rightarrow> addr \<Rightarrow> nat \<Rightarrow> bytes res option" where
  "readSnakeCellBytes h a maxBytes =
     map_option (\<lambda>res. andThen res (\<lambda>chunks.
         guard (\<not> length (concat chunks) > maxBytes) (RangeError ''exceeds the byte limit'') (Inr (concat chunks))))
       (read_snake (length h + 1) h a [])"

definition closed_heap :: "heap \<Rightarrow> bool" where
  "closed_heap h \<longleftrightarrow> (\<forall>c \<in> set h. \<forall>r \<in> set (o_refs c). r < length h)"

lemma read_snake_terminates:
  assumes "closed_heap h" "a < length h" "distinct seen" "set seen \<subseteq> {..<length h}"
    and "length h < fuel + length seen"
  shows "read_snake fuel h a seen \<noteq> None"
  using assms(2-5)
proof (induction fuel arbitrary: a seen)
  case 0
  have "length seen \<le> length h" using 0 by (metis card_lessThan card_mono distinct_card finite_lessThan)
  with 0 show ?case by simp
next
  case (Suc fuel)
  show ?case
  proof (cases "a \<in> set seen \<or> o_bitLength (h ! a) mod 8 \<noteq> 0 \<or> length (o_refs (h ! a)) > 1 \<or> o_refs (h ! a) = []")
    case True
    then show ?thesis by auto
  next
    case False
    then obtain r where r: "o_refs (h ! a) = [r]" by (cases "o_refs (h ! a)") auto
    then have "r < length h" using assms(1) Suc.prems(1) unfolding closed_heap_def by (metis list.set_intros(1) nth_mem)
    then have "read_snake fuel h r (a # seen) \<noteq> None"
      using Suc.prems False by (intro Suc.IH) auto
    with False r show ?thesis by auto
  qed
qed

text \<open>
  C29: \<open>readSnakeCellBytes\<close> returns on every store whose references stay inside it, cyclic ones
  included: each step visits a cell not seen before or throws.
\<close>

theorem readSnakeCellBytes_terminates:
  assumes "closed_heap h" "a < length h"
  shows "readSnakeCellBytes h a maxBytes \<noteq> None"
  using read_snake_terminates [OF assms(1,2), of "[]" "length h + 1"] by (simp add: readSnakeCellBytes_def)

definition cyclic_store :: heap where
  "cyclic_store = [\<lparr>o_data = [1], o_bitLength = 8, o_refs = [1]\<rparr>, \<lparr>o_data = [2], o_bitLength = 8, o_refs = [0]\<rparr>]"

theorem readSnakeCellBytes_terminates_witness:
  "readSnakeCellBytes cyclic_store 0 100 \<noteq> None
    \<and> readSnakeCellBytes cyclic_store 0 100 = Some (Inl (JsError ''has a cycle''))"
proof
  show "readSnakeCellBytes cyclic_store 0 100 \<noteq> None"
    by (rule readSnakeCellBytes_terminates) (simp_all add: cyclic_store_def closed_heap_def)
  show "readSnakeCellBytes cyclic_store 0 100 = Some (Inl (JsError ''has a cycle''))"
    by (simp add: readSnakeCellBytes_def cyclic_store_def)
qed

lemma read_snake_chain:
  assumes "denotes h a (snake_of cs)" "\<forall>c \<in> set cs. length c \<le> 127" "height (snake_of cs) < fuel"
    and "\<forall>s \<in> set seen. \<exists>t. denotes h s t \<and> height (snake_of cs) < height t"
  shows "read_snake fuel h a seen = Some (Inr (if cs = [] then [[]] else cs))"
  using assms
proof (induction cs arbitrary: a fuel seen)
  case Nil
  then obtain f where f: "fuel = Suc f" by (cases fuel) auto
  have o: "o_data (h ! a) = []" "o_bitLength (h ! a) = 0" "o_refs (h ! a) = []"
    using Nil.prems(1) by (auto elim!: denotesE simp: cell_of_def pack_def)
  have "a \<notin> set seen" using Nil.prems(1,4) denotes_unique by fastforce
  with f o show ?case by simp
next
  case (Cons c cs)
  then obtain f where f: "fuel = Suc f" by (cases fuel) auto
  have notin: "a \<notin> set seen" using Cons.prems(1,4) denotes_unique by fastforce
  show ?case
  proof (cases "cs = []")
    case True
    have "o_data (h ! a) = c" "o_bitLength (h ! a) = 8 * length c" "o_refs (h ! a) = []"
      using Cons.prems(1) True by (auto elim!: denotesE simp: cell_of_def pack_bits_of)
    with f notin True show ?thesis by simp
  next
    case False
    have d: "denotes h a (cell_of (bits_of c) [snake_of cs])"
      using Cons.prems(1) snake_of_Cons [OF False] by simp
    then obtain r where r: "o_data (h ! a) = c" "o_bitLength (h ! a) = 8 * length c" "o_refs (h ! a) = [r]"
        "denotes h r (snake_of cs)"
      by (auto simp: cell_of_def pack_bits_of list_all2_Cons2 denotes_Cell [of _ a])
    have hh: "height (snake_of (c # cs)) = Suc (height (snake_of cs))"
      unfolding snake_of_Cons [OF False] by (simp add: cell_of_def)
    have "\<forall>s \<in> set (a # seen). \<exists>t. denotes h s t \<and> height (snake_of cs) < height t"
      using Cons.prems(1,4) hh by (auto intro: Suc_lessD)
    then have "read_snake f h r (a # seen) = Some (Inr cs)"
      using Cons.IH [OF r(4), of f "a # seen"] Cons.prems(2,3) f hh False by simp
    with f notin r show ?thesis by (simp add: Let_def)
  qed
qed

lemma readSnake_snake:
  assumes "denotes h a (snake_of cs)" "\<forall>c \<in> set cs. length c \<le> 127" "length (concat cs) \<le> maxBytes"
  shows "readSnakeCellBytes h a maxBytes = Some (Inr (concat cs))"
proof -
  have "height (snake_of cs) < length h + 1" using height_less_heap [OF assms(1)] by simp
  then have "read_snake (length h + 1) h a [] = Some (Inr (if cs = [] then [[]] else cs))"
    using assms by (intro read_snake_chain) auto
  with assms(3) show ?thesis by (auto simp: readSnakeCellBytes_def)
qed

lemma ok_chunk:
  "length c \<le> 127 \<Longrightarrow> \<exists>w. pack (bits_of c) = pack w \<and> 8 * length c = length w \<and> length w \<le> 1023"
  by (intro exI [of _ "bits_of c"]) simp

lemma ok_snake:
  assumes "\<forall>c \<in> set cs. length c \<le> 127"
  shows "ok_cell (snake_of cs) \<and> cell_count (snake_of cs) = max 1 (length cs)"
  using assms
proof (induction cs rule: snake_of.induct)
  case (2 c)
  then show ?case using ok_chunk [of c] by (simp add: cell_of_def)
next
  case (3 c d cs)
  then have "ok_cell (snake_of (d # cs))" "cell_count (snake_of (d # cs)) = Suc (length cs)" by simp_all
  then show ?case
    using ok_chunk [of c] 3(2) by (simp add: cell_of_def del: snake_of.simps(2,3)) (simp add: cell_of_def)
qed (auto simp: cell_of_def intro: exI [of _ "[]"])

text \<open>
  C30: Bytes survive the trip through the chain: a byte string put into a snake cell, serialised to a
  bag of cells, parsed and read back is the byte string, whatever its length up to 16 MiB.
\<close>

theorem snake_boc_roundtrip:
  assumes "length bytes \<le> 2 ^ 24" "length bytes \<le> maxBytes"
  shows "\<exists>c boc h. snakeCellFromBytes bytes = Inr c \<and> tree_boc c = Some (Inr boc)
    \<and> parseBoc boc = Inr (h, 0) \<and> readSnakeCellBytes h 0 maxBytes = Some (Inr bytes)"
proof -
  obtain cs where cs: "snakeCellFromBytes bytes = Inr (snake_of cs)" "concat cs = bytes"
      "\<forall>c \<in> set cs. length c \<le> 127 \<and> c \<noteq> []" "length cs \<le> length bytes"
    by (rule snakeCellFromBytes_spec)
  have "ok_cell (snake_of cs)" "cell_count (snake_of cs) \<le> 2 ^ 24"
    using ok_snake [of cs] cs(3,4) assms(1) by auto
  then obtain boc h where "tree_boc (snake_of cs) = Some (Inr boc)" "parseBoc boc = Inr (h, 0)"
      "denotes h 0 (snake_of cs)"
    using tree_boc_roundtrip by blast
  moreover from this have "readSnakeCellBytes h 0 maxBytes = Some (Inr (concat cs))"
    using cs assms(2) by (intro readSnake_snake) auto
  ultimately show ?thesis using cs by blast
qed

theorem snake_boc_roundtrip_witness:
  "\<exists>c boc h. snakeCellFromBytes (replicate 300 7) = Inr c \<and> tree_boc c = Some (Inr boc)
    \<and> parseBoc boc = Inr (h, 0) \<and> readSnakeCellBytes h 0 300 = Some (Inr (replicate 300 7))"
  by (rule snake_boc_roundtrip) simp_all

end
