(* ===== verification/Base64.thy ===== *)
theory Base64
  imports Bits
begin

text \<open>
  Base64 and base64url as \<^verbatim>\<open>src/web/crypto/platho-crypto.mjs\<close> and
  \<^verbatim>\<open>src/web/pwa-contract-transactions.mjs\<close> use them in the browser:
  \<open>btoa\<close>/\<open>atob\<close>, with the url alphabet and without padding in the url variant. A string is
  cut into sextets of bits; \<open>atob\<close> refuses a length that leaves one character over and drops
  the bits of an incomplete byte.
\<close>

definition sextet_char :: "symbol \<Rightarrow> symbol \<Rightarrow> nat \<Rightarrow> symbol" where
  "sextet_char c62 c63 v =
     (if v < 26 then v + 65 else if v < 52 then v + 71 else if v < 62 then v - 4
      else if v = 62 then c62 else c63)"

definition char_sextet :: "symbol \<Rightarrow> symbol \<Rightarrow> symbol \<Rightarrow> nat option" where
  "char_sextet c62 c63 c =
     (if is_upper c then Some (c - 65) else if is_lower c then Some (c - 71)
      else if is_digit c then Some (c + 4) else if c = c62 then Some 62
      else if c = c63 then Some 63 else None)"

lemma char_sextet_char:
  assumes "c62 \<notin> {48..57} \<union> {65..90} \<union> {97..122}" "c63 \<notin> {48..57} \<union> {65..90} \<union> {97..122}" "c62 \<noteq> c63" "v < 64"
  shows "char_sextet c62 c63 (sextet_char c62 c63 v) = Some v"
proof -
  consider "v < 26" | "26 \<le> v" "v < 52" | "52 \<le> v" "v < 62" | "v = 62" | "v = 63" using assms(4) by linarith
  then show ?thesis
  proof cases
    case 3
    then have "is_digit (v - 4) \<and> \<not> is_upper (v - 4) \<and> \<not> is_lower (v - 4)" by (simp add: char_class_defs) linarith
    with 3 show ?thesis by (simp add: char_sextet_def sextet_char_def)
  next
    case 4
    moreover have "\<not> is_upper c62 \<and> \<not> is_lower c62 \<and> \<not> is_digit c62" using assms(1) by (auto simp: char_class_defs)
    ultimately show ?thesis by (simp add: char_sextet_def sextet_char_def)
  next
    case 5
    moreover have "\<not> is_upper c63 \<and> \<not> is_lower c63 \<and> \<not> is_digit c63" using assms(2) by (auto simp: char_class_defs)
    ultimately show ?thesis using assms(3) by (simp add: char_sextet_def sextet_char_def)
  qed (simp_all add: char_sextet_def sextet_char_def char_class_defs)
qed

text \<open>The sextets of a byte string, the last one filled with zero bits.\<close>

definition sextets :: "bytes \<Rightarrow> nat list" where
  "sextets bs = map bits_value (chunks 6 (bits_of bs @ replicate (6 * ((8 * length bs + 5) div 6) - 8 * length bs) False))"

definition unsextets :: "nat list \<Rightarrow> bytes" where
  "unsextets vs = (let w = concat (map (nat_bits 6) vs) in pack (take (8 * (length w div 8)) w))"

lemma chunks_exact:
  assumes "0 < n" "length xs = n * k"
  shows "\<forall>c \<in> set (chunks n xs). length c = n" "length (chunks n xs) = k"
proof -
  show "length (chunks n xs) = k" using assms by (simp add: length_chunks div_nat_eqI)
  show "\<forall>c \<in> set (chunks n xs). length c = n"
    using assms(2)
  proof (induction k arbitrary: xs)
    case (Suc k)
    then have len: "length xs = n + n * k" by simp
    then have "xs \<noteq> []" using assms(1) by auto
    then have "chunks n xs = take n xs # chunks n (drop n xs)" by (intro chunks_step assms(1))
    moreover have "\<forall>c \<in> set (chunks n (drop n xs)). length c = n" using len by (intro Suc.IH) simp
    ultimately show ?case using len by simp
  qed simp
qed

lemma sextet_count: "6 * ((8 * n + 5) div 6) div 8 = (n :: nat)" "8 * n \<le> 6 * ((8 * n + 5) div 6)"
  "((8 * n + 5) div 6) mod 4 \<noteq> 1"
proof -
  define q r where "q = n div 3" and "r = n mod 3"
  then have n: "n = 3 * q + r" "r < 3" by simp_all
  have c: "(8 * n + 5) div 6 = 4 * q + (if r = 0 then 0 else if r = 1 then 2 else 3)"
    using n by (intro div_nat_eqI) auto
  show "6 * ((8 * n + 5) div 6) div 8 = n" unfolding c using n by (intro div_nat_eqI) auto
  show "8 * n \<le> 6 * ((8 * n + 5) div 6)" unfolding c using n by auto
  show "((8 * n + 5) div 6) mod 4 \<noteq> 1" unfolding c using n(2) by simp
qed

lemma length_sextets: "length (sextets bs) = (8 * length bs + 5) div 6"
  using sextet_count(2) [of "length bs"] by (simp add: sextets_def chunks_exact(2) [where k = "(8 * length bs + 5) div 6"])

lemma sextets_less: "\<forall>v \<in> set (sextets bs). v < 64"
proof -
  let ?w = "bits_of bs @ replicate (6 * ((8 * length bs + 5) div 6) - 8 * length bs) False"
  have "\<forall>c \<in> set (chunks 6 ?w). length c = 6"
    using sextet_count(2) [of "length bs"] by (intro chunks_exact(1)) auto
  then have "bits_value c < 64" if "c \<in> set (chunks 6 ?w)" for c using that bits_value_less [of c] by simp
  then show ?thesis by (simp add: sextets_def)
qed

lemma unsextets_sextets: "unsextets (sextets bs) = bs"
proof -
  let ?w = "bits_of bs @ replicate (6 * ((8 * length bs + 5) div 6) - 8 * length bs) False"
  have len: "length ?w = 6 * ((8 * length bs + 5) div 6)" using sextet_count(2) [of "length bs"] by simp
  have "\<forall>c \<in> set (chunks 6 ?w). length c = 6" using len by (intro chunks_exact(1)) auto
  then have "map (nat_bits 6) (map bits_value (chunks 6 ?w)) = chunks 6 ?w"
    using nat_bits_bits_value by (auto intro!: map_idI) metis
  then have "concat (map (nat_bits 6) (sextets bs)) = ?w" by (simp only: sextets_def) (simp add: concat_chunks)
  then show ?thesis
    by (simp only: unsextets_def Let_def len sextet_count(1)) (simp add: pack_bits_of)
qed

text \<open>The url variant, without padding: \<open>base64urlEncode\<close>, \<open>base64urlDecode\<close>.\<close>

definition base64urlEncode :: "bytes \<Rightarrow> js_string" where
  "base64urlEncode bs = map (sextet_char 45 95) (sextets bs)"

definition is_base64url :: "js_string \<Rightarrow> bool" where
  "is_base64url s \<longleftrightarrow> (\<forall>c \<in> set s. char_sextet 45 95 c \<noteq> None)"

definition base64urlDecode :: "js_string \<Rightarrow> bytes res" where
  "base64urlDecode s =
     guard (is_base64url s) (JsError ''Invalid base64url encoding'')
       (guard (length s mod 4 \<noteq> 1) (JsError ''InvalidCharacterError'')
         (Inr (unsextets (map (\<lambda>c. the (char_sextet 45 95 c)) s))))"

text \<open>The padded variant: \<open>bytesToBase64\<close>/\<open>base64Encode\<close>, \<open>base64ToBytes\<close>/\<open>base64Decode\<close>.\<close>

definition base64Encode :: "bytes \<Rightarrow> js_string" where
  "base64Encode bs =
     (let s = map (sextet_char 43 47) (sextets bs) in s @ replicate ((4 - length s mod 4) mod 4) 61)"

definition strip_padding :: "js_string \<Rightarrow> js_string" where
  "strip_padding s = rev (dropWhile (\<lambda>c. c = 61) (rev s))"

definition base64Decode :: "js_string \<Rightarrow> bytes res" where
  "base64Decode s =
     (let body = strip_padding s; padding = length s - length body in
      guard ((\<forall>c \<in> set body. char_sextet 43 47 c \<noteq> None) \<and> padding \<le> 2) (JsError ''Invalid base64 encoding'')
        (guard (length body mod 4 \<noteq> 1 \<and> (padding = 0 \<or> length s mod 4 = 0)) (JsError ''InvalidCharacterError'')
          (Inr (unsextets (map (\<lambda>c. the (char_sextet 43 47 c)) body)))))"

lemma base64url_roundtrip [simp]: "base64urlDecode (base64urlEncode bs) = Inr bs"
proof -
  have "char_sextet 45 95 (sextet_char 45 95 v) = Some v" if "v \<in> set (sextets bs)" for v
    using that sextets_less by (intro char_sextet_char) auto
  then have "is_base64url (base64urlEncode bs)"
    "map (\<lambda>c. the (char_sextet 45 95 c)) (base64urlEncode bs) = sextets bs"
    by (auto simp: is_base64url_def base64urlEncode_def map_idI)
  moreover have "length (base64urlEncode bs) mod 4 \<noteq> 1"
    using sextet_count(3) [of "length bs"] by (simp add: base64urlEncode_def length_sextets)
  ultimately show ?thesis by (simp add: base64urlDecode_def unsextets_sextets)
qed

lemma base64urlEncode_inj: "base64urlEncode xs = base64urlEncode ys \<Longrightarrow> xs = ys"
  by (metis base64url_roundtrip sum.inject(2))

lemma sextet_char_not_padding: "sextet_char 43 47 v \<noteq> 61"
  by (auto simp: sextet_char_def)

lemma base64_roundtrip [simp]: "base64Decode (base64Encode bs) = Inr bs"
proof -
  define s where "s = map (sextet_char 43 47) (sextets bs)"
  define k where "k = (4 - length s mod 4) mod 4"
  have m: "length s mod 4 \<noteq> 1" using sextet_count(3) [of "length bs"] by (simp add: s_def length_sextets)
  have sx: "char_sextet 43 47 (sextet_char 43 47 v) = Some v" if "v \<in> set (sextets bs)" for v
    using that sextets_less by (intro char_sextet_char) auto
  have ne: "\<forall>c \<in> set (rev s). c \<noteq> 61" using sextet_char_not_padding by (auto simp: s_def)
  then have "dropWhile (\<lambda>c. c = 61) (rev s) = rev s" by (cases "rev s") auto
  then have "strip_padding (s @ replicate k 61) = s"
    by (simp add: strip_padding_def dropWhile_append)
  moreover have "k \<le> 2 \<and> (length s + k) mod 4 = 0"
  proof -
    define q r where "q = length s div 4" and "r = length s mod 4"
    have "length s = 4 * q + r" "r < 4" "r \<noteq> 1" using m by (simp_all add: q_def r_def)
    moreover from this have "r = 0 \<or> r = 2 \<or> r = 3" by linarith
    ultimately show ?thesis unfolding k_def by auto
  qed
  moreover have "map (\<lambda>c. the (char_sextet 43 47 c)) s = sextets bs" "\<forall>c \<in> set s. char_sextet 43 47 c \<noteq> None"
    using sx by (auto simp: s_def map_idI)
  ultimately show ?thesis
    using m by (simp add: base64Encode_def Let_def s_def [symmetric] k_def [symmetric] base64Decode_def unsextets_sextets)
qed

end
