(* ===== verification/Ton_Address.thy ===== *)
theory Ton_Address
  imports Base64 Cells
begin

text \<open>
  TON addresses: \<open>parseTonAddress\<close> and what it calls in
  \<^verbatim>\<open>src/web/crypto/platho-crypto.mjs\<close>. A raw address is \<open>workchain:hex\<close>; a
  user-friendly one is 36 bytes in base64 with a CRC-16 checksum. The result's field \<open>raw\<close>, its
  canonical text, is \<open>rawAddress\<close> of the other two.
\<close>

section \<open>Raw addresses\<close>

definition is_hex_any :: "symbol \<Rightarrow> bool" where
  "is_hex_any c \<longleftrightarrow> is_hex_lower c \<or> (65 \<le> c \<and> c \<le> 70)"

text \<open>\<open>Number.parseInt\<close> of each pair of digits, in either case.\<close>

definition hexToBytes :: "js_string \<Rightarrow> nat \<Rightarrow> bytes res" where
  "hexToBytes value len =
     (let hex = (if take 2 value = [48, 120] then drop 2 value else value) in
      guard (hex \<noteq> [] \<and> (\<forall>c \<in> set hex. is_hex_any c) \<and> length hex = len * 2) (JsError ''must be hex bytes'')
        (Inr (hex_bytes (ascii_lower hex))))"

definition int_string :: "int \<Rightarrow> js_string" where
  "int_string i = (if i < 0 then 45 # dec_string (nat (- i)) else dec_string (nat i))"

definition rawAddress :: "ton_address \<Rightarrow> js_string" where
  "rawAddress a = int_string (a_workchain a) @ [58] @ bytes_hex (a_hash a)"

definition parseTonRawAddress :: "js_string \<Rightarrow> ton_address res" where
  "parseTonRawAddress address =
     (let s = trim address; neg = (take 1 s = [45]); body = (if neg then drop 1 s else s);
          digits = takeWhile is_digit body; rest = dropWhile is_digit body in
      guard (digits \<noteq> [] \<and> take 1 rest = [58] \<and> length (drop 1 rest) = 64 \<and> (\<forall>c \<in> set (drop 1 rest). is_hex_any c))
        (JsError ''TON proof verification requires a raw address in workchain:hex format'')
        (let workchain = (if neg then - int (dec_value digits) else int (dec_value digits)) in
         guard (\<bar>workchain\<bar> \<le> MAX_SAFE_INTEGER) (JsError ''must be a safe integer'')
           (andThen (hexToBytes (drop 1 rest) 32) (\<lambda>hash. Inr \<lparr>a_workchain = workchain, a_hash = hash\<rparr>))))"

section \<open>User-friendly addresses\<close>

type_synonym crc = "16 word"

definition crc_shift :: "crc \<Rightarrow> crc" where
  "crc_shift c = (if and c 0x8000 \<noteq> 0 then xor (push_bit 1 c) 0x1021 else push_bit 1 c)"

definition crc_byte :: "crc \<Rightarrow> byte \<Rightarrow> crc" where
  "crc_byte c b = (crc_shift ^^ 8) (xor c (push_bit 8 (ucast b)))"

definition crc16Ccitt :: "bytes \<Rightarrow> crc" where
  "crc16Ccitt bs = foldl crc_byte 0 bs"

text \<open>\<open>parseTonFriendlyAddress\<close> on the decoded bytes.\<close>

definition friendlyFromBytes :: "bytes \<Rightarrow> ton_address res" where
  "friendlyFromBytes bytes =
     guard (length bytes = 36) (JsError ''TON user-friendly address must decode to 36 bytes'')
       (let body = take 34 bytes; checksum = be_value (slice 34 36 bytes) in
        guard (unat (crc16Ccitt body) = checksum) (JsError ''TON user-friendly address checksum mismatch'')
          (guard (bytes ! 0 \<in> {0x11, 0x51, 0x91, 0xd1}) (JsError ''TON user-friendly address has unsupported flags'')
            (let b = uint (bytes ! 1) in
             Inr \<lparr>a_workchain = (if b = 0xff then - 1 else if b > 0x7f then b - 0x100 else b),
                  a_hash = slice 2 34 bytes\<rparr>)))"

fun orElse :: "'e + 'a \<Rightarrow> 'e + 'a \<Rightarrow> 'e + 'a" where
  "orElse (Inr x) m = Inr x"
| "orElse (Inl e) m = m"

definition base64urlMaybeDecode :: "js_string \<Rightarrow> bytes res" where
  "base64urlMaybeDecode value = orElse (base64urlDecode value) (base64Decode value)"

definition parseTonFriendlyAddress :: "js_string \<Rightarrow> ton_address res" where
  "parseTonFriendlyAddress address = andThen (base64urlMaybeDecode (trim address)) friendlyFromBytes"

definition parseTonAddress :: "js_string \<Rightarrow> ton_address res" where
  "parseTonAddress address =
     (case parseTonRawAddress address of
        Inr a \<Rightarrow> Inr a
      | Inl rawError \<Rightarrow>
          (case parseTonFriendlyAddress address of Inr a \<Rightarrow> Inr a | Inl _ \<Rightarrow> Inl rawError))"

section \<open>Properties\<close>

lemma possible_bit_crc: "possible_bit TYPE(crc) n \<longleftrightarrow> n < 16"
  by (simp add: possible_bit_word)

lemma bit_1021: "bit (0x1021 :: crc) n \<longleftrightarrow> n \<in> {0, 5, 12}"
proof -
  have m: "(0x1021 :: crc) = or (push_bit 12 1) (or (push_bit 5 1) 1)" by simp
  show ?thesis
    unfolding m by (simp only: bit_or_iff bit_push_bit_iff bit_1_iff possible_bit_crc) auto
qed

lemma bit_8000: "and c 0x8000 \<noteq> (0 :: crc) \<longleftrightarrow> bit c 15"
proof -
  have m: "(0x8000 :: crc) = push_bit 15 1" by simp
  have b: "bit (and c 0x8000) n \<longleftrightarrow> n = 15 \<and> bit c 15" for n
    unfolding m by (simp only: bit_and_iff bit_push_bit_iff bit_1_iff possible_bit_crc) auto
  show ?thesis
  proof
    assume "and c 0x8000 \<noteq> 0"
    then obtain n where "bit (and c 0x8000) n" by (metis bit_eqI bit_0_eq bot_apply bot_bool_def)
    then show "bit c 15" by (simp only: b)
  next
    assume "bit c 15"
    then have "bit (and c 0x8000) 15" by (simp only: b)
    then show "and c 0x8000 \<noteq> 0" by (metis bit_0_eq bot_apply bot_bool_def)
  qed
qed

lemma crc_shift_bit: "bit (crc_shift c) n \<longleftrightarrow> n < 16 \<and> ((0 < n \<and> bit c (n - 1)) \<noteq> (bit c 15 \<and> n \<in> {0, 5, 12}))"
proof -
  have p: "bit (push_bit 1 c) n \<longleftrightarrow> 0 < n \<and> n < 16 \<and> bit c (n - 1)"
    by (simp only: bit_push_bit_iff possible_bit_crc) auto
  show ?thesis
    unfolding crc_shift_def bit_8000 if_distrib [of "\<lambda>x. bit x n"] bit_xor_iff bit_1021 p by auto
qed

lemma crc_shift_inj: "crc_shift c = crc_shift d \<Longrightarrow> c = d"
proof (rule bit_eqI)
  fix n assume eq: "crc_shift c = crc_shift d" and "possible_bit TYPE(16 word) n"
  then have n: "n < 16" by (simp add: possible_bit_word)
  have b: "((0 < k \<and> bit c (k - 1)) \<noteq> (bit c 15 \<and> k \<in> {0, 5, 12}))
      = ((0 < k \<and> bit d (k - 1)) \<noteq> (bit d 15 \<and> k \<in> {0, 5, 12}))" if "k < 16" for k
    using crc_shift_bit [of c k] crc_shift_bit [of d k] eq that by simp
  have top: "bit c 15 = bit d 15" using b [of 0] by simp
  show "bit c n = bit d n"
  proof (cases "n = 15")
    case False
    with n have "n + 1 < 16" by simp
    from b [OF this] top show ?thesis by auto
  qed (simp add: top)
qed

lemma xor_cancel: "xor x z = xor y z \<Longrightarrow> x = (y :: 'a :: semiring_bit_operations)"
proof -
  assume "xor x z = xor y z"
  then have "xor (xor x z) z = xor (xor y z) z" by simp
  then show "x = y" by (simp add: xor.assoc)
qed

lemma crc_byte_inj:
  "crc_byte c b = crc_byte d b \<Longrightarrow> c = d"
  "crc_byte c a = crc_byte c b \<Longrightarrow> a = b"
proof -
  have inj: "(crc_shift ^^ k) x = (crc_shift ^^ k) y \<Longrightarrow> x = y" for k x y
    by (induction k) (auto dest: crc_shift_inj)
  show "c = d" if "crc_byte c b = crc_byte d b"
    by (rule xor_cancel, rule inj, rule that [unfolded crc_byte_def])
  assume "crc_byte c a = crc_byte c b"
  then have "xor c (push_bit 8 (ucast a)) = xor c (push_bit 8 (ucast b :: crc))"
    unfolding crc_byte_def by (rule inj)
  then have "push_bit 8 (ucast a :: crc) = push_bit 8 (ucast b)"
    by (simp only: xor.commute [of c]) (rule xor_cancel)
  then have e: "bit (push_bit 8 (ucast a :: crc)) (n + 8) = bit (push_bit 8 (ucast b :: crc)) (n + 8)" for n
    by simp
  show "a = b"
  proof (rule bit_eqI)
    fix n assume "possible_bit TYPE(8 word) n"
    then have "n < 8" by (simp add: possible_bit_word)
    moreover have "bit (push_bit 8 (ucast c :: crc)) (n + 8) \<longleftrightarrow> n < 8 \<and> bit c n" for c :: byte
      by (simp only: bit_push_bit_iff bit_ucast_iff possible_bit_crc possible_bit_word) auto
    ultimately show "bit a n = bit b n" using e [of n] by (simp only: simp_thms)
  qed
qed

lemma crc_one_byte:
  assumes "a \<noteq> b"
  shows "crc16Ccitt (xs @ a # ys) \<noteq> crc16Ccitt (xs @ b # ys)"
proof -
  have "foldl crc_byte c ys \<noteq> foldl crc_byte d ys" if "c \<noteq> d" for c d
    using that
  proof (induction ys arbitrary: c d)
    case (Cons y ys)
    have "crc_byte c y \<noteq> crc_byte d y" using Cons.prems crc_byte_inj(1) by blast
    then show ?case using Cons.IH by simp
  qed simp
  moreover have "crc_byte (foldl crc_byte 0 xs) a \<noteq> crc_byte (foldl crc_byte 0 xs) b"
    using assms crc_byte_inj(2) by blast
  ultimately show ?thesis by (simp add: crc16Ccitt_def)
qed

text \<open>
  C31: The checksum catches every corruption of a single byte: of two 36-byte user-friendly addresses
  that differ in exactly one byte, at most one is accepted.
\<close>

theorem friendly_address_one_byte:
  assumes "friendlyFromBytes (xs @ a # ys) = Inr p" and "a \<noteq> b"
  shows "\<exists>e. friendlyFromBytes (xs @ b # ys) = Inl e"
proof -
  let ?s = "xs @ a # ys" and ?t = "xs @ b # ys"
  have len: "length ?s = 36" and sum: "unat (crc16Ccitt (take 34 ?s)) = be_value (slice 34 36 ?s)"
    using assms(1) by (auto simp: friendlyFromBytes_def res_simps Let_def)
  have "unat (crc16Ccitt (take 34 ?t)) \<noteq> be_value (slice 34 36 ?t)"
  proof (cases "length xs < 34")
    case True
    then have t: "take 34 (xs @ c # ys) = xs @ c # take (33 - length xs) ys"
      and s: "slice 34 36 (xs @ c # ys) = slice (33 - length xs) (35 - length xs) ys" for c
      by (simp_all add: slice_def take_Cons' drop_Cons' flip: diff_Suc_eq_diff_pred)
    have "crc16Ccitt (take 34 ?s) \<noteq> crc16Ccitt (take 34 ?t)"
      unfolding t by (rule crc_one_byte [OF assms(2)])
    then show ?thesis using sum unfolding s by (metis word_unat_eq_iff)
  next
    case False
    then have "take 34 ?s = take 34 ?t" by simp
    moreover have "be_value (slice 34 36 ?s) \<noteq> be_value (slice 34 36 ?t)"
    proof
      assume "be_value (slice 34 36 ?s) = be_value (slice 34 36 ?t)"
      then have "slice 34 36 ?s = slice 34 36 ?t"
        using be_bytes_be_value [of "slice 34 36 ?s"] be_bytes_be_value [of "slice 34 36 ?t"] len by simp
      then have "drop 34 xs @ a # ys = drop 34 xs @ b # ys"
        using False len by (simp add: slice_def)
      with assms(2) show False by simp
    qed
    ultimately show ?thesis using sum by metis
  qed
  then show ?thesis using len by (simp add: friendlyFromBytes_def Let_def guard_def)
qed

definition sample_friendly_body :: bytes where
  "sample_friendly_body = 0x11 # replicate 33 0"

definition sample_friendly :: bytes where
  "sample_friendly = sample_friendly_body @ be_bytes 2 (unat (crc16Ccitt sample_friendly_body))"

lemma sample_friendly_ok:
  "friendlyFromBytes sample_friendly = Inr \<lparr>a_workchain = 0, a_hash = replicate 32 0\<rparr>"
proof -
  have u: "unat (crc16Ccitt sample_friendly_body) < 65536"
    using unsigned_less [of "crc16Ccitt sample_friendly_body", where 'a = nat] by simp
  define cs where "cs = be_bytes 2 (unat (crc16Ccitt sample_friendly_body))"
  have cs: "length cs = 2" "be_value cs = unat (crc16Ccitt sample_friendly_body)"
    using u by (simp_all add: cs_def be_value_be_bytes del: be_bytes.simps)
  have l: "length sample_friendly_body = 34" by (simp add: sample_friendly_body_def)
  have s: "slice 34 36 (sample_friendly_body @ cs) = cs" "take 34 (sample_friendly_body @ cs) = sample_friendly_body"
    using l cs(1) by (simp_all add: slice_def)
  have h: "(sample_friendly_body @ cs) ! 0 = 0x11" "(sample_friendly_body @ cs) ! 1 = 0"
    "slice 2 34 (sample_friendly_body @ cs) = replicate 32 0"
    by (simp_all add: sample_friendly_body_def slice_def nth_append)
  show ?thesis
    unfolding sample_friendly_def cs_def [symmetric] friendlyFromBytes_def Let_def s h
    using l cs by simp
qed

theorem friendly_address_one_byte_witness:
  "\<exists>e. friendlyFromBytes (0x51 # drop 1 sample_friendly) = Inl e"
proof -
  have "sample_friendly = [] @ 0x11 # drop 1 sample_friendly"
    by (simp add: sample_friendly_def sample_friendly_body_def)
  then have "friendlyFromBytes ([] @ 0x11 # drop 1 sample_friendly) = Inr \<lparr>a_workchain = 0, a_hash = replicate 32 0\<rparr>"
    using sample_friendly_ok by simp
  from friendly_address_one_byte [OF this] show ?thesis by simp
qed

lemma int_string_parts:
  assumes s: "s = int_string i"
  shows "(if i < 0 then drop 1 (s @ 58 # h) else s @ 58 # h) = dec_string (nat \<bar>i\<bar>) @ 58 # h"
    "take 1 (s @ 58 # h) = [45] \<longleftrightarrow> i < 0"
proof -
  obtain c cs where d: "dec_string (nat \<bar>i\<bar>) = c # cs" by (cases "dec_string (nat \<bar>i\<bar>)") auto
  have "c \<noteq> 45" using dec_string_digits [of c "nat \<bar>i\<bar>"] d by (auto simp: is_digit_def)
  with d show "(if i < 0 then drop 1 (s @ 58 # h) else s @ 58 # h) = dec_string (nat \<bar>i\<bar>) @ 58 # h"
    "take 1 (s @ 58 # h) = [45] \<longleftrightarrow> i < 0"
    by (auto simp: s int_string_def)
qed

lemma parse_formatted:
  assumes "\<bar>a_workchain p\<bar> \<le> MAX_SAFE_INTEGER" "length (a_hash p) = 32"
  shows "parseTonRawAddress (rawAddress p) = Inr p"
proof -
  let ?i = "a_workchain p" and ?h = "bytes_hex (a_hash p)"
  let ?d = "dec_string (nat \<bar>?i\<bar>)"
  have hex: "is_hex_lower c" if "c \<in> set ?h" for c using that bytes_hex_lower by blast
  have digits: "\<forall>c \<in> set ?d. is_digit c" using dec_string_digits by blast
  have raw: "rawAddress p = int_string ?i @ 58 # ?h" by (simp add: rawAddress_def)
  have "\<forall>c \<in> set (rawAddress p). \<not> is_space c"
  proof
    fix c assume "c \<in> set (rawAddress p)"
    then consider "c = 45" | "c = 58" | "is_digit c" | "is_hex_lower c"
      using hex dec_string_digits by (auto simp: raw int_string_def split: if_splits)
    then show "\<not> is_space c" by cases (auto simp: is_space_def char_class_defs)
  qed
  then have t: "trim (int_string ?i @ 58 # ?h) = int_string ?i @ 58 # ?h" unfolding raw by (rule trim_id)
  have tw: "takeWhile is_digit (?d @ 58 # ?h) = ?d" "dropWhile is_digit (?d @ 58 # ?h) = 58 # ?h"
    using digits by (simp_all add: takeWhile_append2 dropWhile_append2 is_digit_def)
  have v: "(if ?i < 0 then - int (dec_value ?d) else int (dec_value ?d)) = ?i" by simp
  have any: "\<forall>c \<in> set ?h. is_hex_any c" using hex by (simp add: is_hex_any_def)
  have "take 2 ?h \<noteq> [48, 120]"
  proof
    assume "take 2 ?h = [48, 120]"
    then have "120 \<in> set ?h" using set_take_subset [of 2 ?h] by auto
    from hex [OF this] show False by (simp add: char_class_defs)
  qed
  moreover have "ascii_lower ?h = ?h" using hex hex_ascii by (intro ascii_lower_id) auto
  moreover have "?h \<noteq> []" using assms(2) by (metis length_bytes_hex list.size(3) mult_eq_0_iff zero_neq_numeral)
  ultimately have hb: "hexToBytes ?h 32 = Inr (a_hash p)"
    using any assms(2) by (simp add: hexToBytes_def hex_bytes_bytes_hex)
  show ?thesis
    unfolding raw parseTonRawAddress_def t Let_def int_string_parts [OF refl] tw
    using any assms v hb by simp
qed

lemma parsed_address_range:
  assumes "parseTonAddress address = Inr p"
  shows "\<bar>a_workchain p\<bar> \<le> MAX_SAFE_INTEGER \<and> length (a_hash p) = 32"
proof (cases "parseTonRawAddress address")
  case (Inr q)
  then have "parseTonRawAddress address = Inr p" using assms by (simp add: parseTonAddress_def)
  then show ?thesis
    by (auto simp: parseTonRawAddress_def hexToBytes_def Let_def res_simps split: if_splits simp: ascii_lower_def)
next
  case (Inl e)
  then obtain bs where "friendlyFromBytes bs = Inr p"
    using assms by (auto simp: parseTonAddress_def parseTonFriendlyAddress_def res_simps split: sum.splits)
  then have p: "length bs = 36" "a_workchain p = (if uint (bs ! 1) = 0xff then - 1 else if uint (bs ! 1) > 0x7f
      then uint (bs ! 1) - 0x100 else uint (bs ! 1))" "a_hash p = slice 2 34 bs"
    by (auto simp: friendlyFromBytes_def Let_def res_simps)
  have "uint (bs ! 1) < 256" using unsigned_less [of "bs ! 1", where 'a = int] by simp
  moreover have "0 \<le> uint (bs ! 1)" by simp
  ultimately have "\<bar>a_workchain p\<bar> \<le> 256" unfolding p(2) by auto
  with p show ?thesis by (simp add: MAX_SAFE_INTEGER_def)
qed

text \<open>
  Parsing an address is canonical: the raw text of whatever \<open>parseTonAddress\<close> accepts, in the
  raw or the user-friendly form, parses to the same workchain and hash. Two texts of one address
  therefore compare equal by their raw forms.
\<close>

theorem parseTonAddress_canonical:
  assumes "parseTonAddress address = Inr p"
  shows "parseTonAddress (rawAddress p) = Inr p"
  using parsed_address_range [OF assms] by (simp add: parseTonAddress_def parse_formatted)

theorem parseTonAddress_canonical_witness:
  "parseTonAddress (base64urlEncode sample_friendly) = Inr \<lparr>a_workchain = 0, a_hash = replicate 32 0\<rparr>
   \<and> parseTonAddress (rawAddress \<lparr>a_workchain = 0, a_hash = replicate 32 0\<rparr>)
     = Inr \<lparr>a_workchain = 0, a_hash = replicate 32 0\<rparr>"
proof -
  let ?p = "\<lparr>a_workchain = 0, a_hash = replicate 32 0\<rparr>" and ?t = "base64urlEncode sample_friendly"
  have ch: "sextet_char 45 95 v \<noteq> 58 \<and> \<not> is_space (sextet_char 45 95 v)" for v
    by (auto simp: sextet_char_def is_space_def)
  then have trim: "trim ?t = ?t" by (intro trim_id) (auto simp: base64urlEncode_def)
  have no: "58 \<notin> set ?t" using ch by (auto simp: base64urlEncode_def)
  have "take 1 (dropWhile is_digit w) \<noteq> [58]" if "set w \<subseteq> set ?t" for w
  proof
    assume "take 1 (dropWhile is_digit w) = [58]"
    then have "58 \<in> set (dropWhile is_digit w)" by (cases "dropWhile is_digit w") auto
    then have "58 \<in> set w" using set_dropWhileD by fast
    with no that show False by auto
  qed
  then have "\<exists>e. parseTonRawAddress ?t = Inl e"
    using set_drop_subset [of 1 ?t] by (auto simp: parseTonRawAddress_def trim Let_def guard_def)
  moreover have "parseTonFriendlyAddress ?t = Inr ?p"
    by (simp add: parseTonFriendlyAddress_def trim base64urlMaybeDecode_def sample_friendly_ok)
  ultimately have "parseTonAddress ?t = Inr ?p" by (auto simp: parseTonAddress_def)
  from this parseTonAddress_canonical [OF this] show ?thesis ..
qed

end
