(* ===== verification/Messages.thy ===== *)
theory Messages
  imports Snake Ton_Address
begin

text \<open>
  The wallet messages of \<open>web/pwa-contract-transactions.mjs\<close>: the bodies sent to the ATH jetton
  wallet and to the two registries, the value attached to them, and the transaction that carries
  them. A parameter object is a record whose absent fields are \<open>None\<close>; an address is the text the
  caller passes and is parsed by \<open>parseTonAddress\<close>.

  The layout lemma says what the receiving contract reads: the body is the bag of a cell whose bits
  are the fields one after another, each at the width the contract loads.
\<close>

section \<open>Constants\<close>

definition ATH_OP_JettonTransfer :: int where "ATH_OP_JettonTransfer = 0x0F8A7EA5"
definition ATH_OP_ATHBurn :: int where "ATH_OP_ATHBurn = 1096042497"
definition ATH_OP_ATHTransferRequest :: int where "ATH_OP_ATHTransferRequest = 1096042512"
definition ATH_OP_ATHTransferRequestWithNotify :: int where "ATH_OP_ATHTransferRequestWithNotify = 1096042516"
definition ATH_OP_RegistryProfileAvatar :: int where "ATH_OP_RegistryProfileAvatar = 1096042522"
definition ATH_OP_RegistryMintUsername :: int where "ATH_OP_RegistryMintUsername = 1096042524"
definition OP_FlushBurnAthDue :: int where "OP_FlushBurnAthDue = 0xE9A2C2CB"
definition OP_FlushProfileBurnAthDue :: int where "OP_FlushProfileBurnAthDue = 0x50A61111"

definition REGISTRY_BURN_FLUSH_MESSAGE_VALUE_NANOTONS :: nat where
  "REGISTRY_BURN_FLUSH_MESSAGE_VALUE_NANOTONS = 20000000"

lemmas op_defs = ATH_OP_JettonTransfer_def ATH_OP_ATHBurn_def ATH_OP_ATHTransferRequest_def
  ATH_OP_ATHTransferRequestWithNotify_def ATH_OP_RegistryProfileAvatar_def ATH_OP_RegistryMintUsername_def
  OP_FlushBurnAthDue_def OP_FlushProfileBurnAthDue_def

definition internalTransferAckValue :: nat where "internalTransferAckValue = 3000000"
definition internalTransferSourceAckValue :: nat where "internalTransferSourceAckValue = 4000000"
definition internalTransferFwdFeeAllowance :: nat where "internalTransferFwdFeeAllowance = 8000000"
definition transferNotifyAckValue :: nat where "transferNotifyAckValue = 1000000"
definition transferNotifyMinValue :: nat where "transferNotifyMinValue = 45000000"
definition transferNotifyStorageEndowment :: nat where "transferNotifyStorageEndowment = 20000000"
definition internalTransferExec :: nat where "internalTransferExec = 2000000"
definition burnNotificationExec :: nat where "burnNotificationExec = 2000000"
definition transferNotifyExec :: nat where "transferNotifyExec = 7000000"
definition ownerRequestExec :: nat where "ownerRequestExec = 2000000"
definition notifyOwnerRequestExec :: nat where "notifyOwnerRequestExec = 10000000"

lemmas reserve_defs = internalTransferAckValue_def internalTransferSourceAckValue_def
  internalTransferFwdFeeAllowance_def transferNotifyAckValue_def transferNotifyMinValue_def
  transferNotifyStorageEndowment_def internalTransferExec_def burnNotificationExec_def
  transferNotifyExec_def ownerRequestExec_def notifyOwnerRequestExec_def

section \<open>Parameters\<close>

record ath_params =
  query_id :: "int option"
  amount :: "int option"
  destination :: "js_string option"
  recipient :: "js_string option"
  response_destination :: "js_string option"
  custom_payload :: "cell option"
  forward_ton_amount :: "int option"
  notify_destination :: "js_string option"
  notify_value :: "int option"
  owner_wallet :: "js_string option"
  avatar_hash :: "int option"
  avatar_entry_id :: "int option"
  avatar_stream_id :: "int option"
  avatar_part_count :: "int option"
  media_format :: "int option"
  username :: "bytes option"

text \<open>A builder call on a field: an absent number or text is a \<open>TypeError\<close>.\<close>

definition toBigInt :: "int option \<Rightarrow> int res" where
  "toBigInt v = (case v of None \<Rightarrow> Inl (TypeError ''must be an integer'') | Some i \<Rightarrow> Inr i)"

definition assertString :: "js_string option \<Rightarrow> js_string res" where
  "assertString v =
     (case v of None \<Rightarrow> Inl (TypeError ''must be a non-empty string'')
      | Some s \<Rightarrow> guard (s \<noteq> []) (TypeError ''must be a non-empty string'') (Inr s))"

definition p_uint :: "int option \<Rightarrow> nat \<Rightarrow> builder \<Rightarrow> builder res" where
  "p_uint v n b = andThen (toBigInt v) (\<lambda>i. b_uint i n b)"

definition p_coins :: "int option \<Rightarrow> builder \<Rightarrow> builder res" where
  "p_coins v b = andThen (toBigInt v) (\<lambda>i. b_coins i b)"

definition p_address :: "js_string option \<Rightarrow> builder \<Rightarrow> builder res" where
  "p_address v b = andThen (assertString v) (\<lambda>s. andThen (parseTonAddress s) (\<lambda>a. b_address a b))"

text \<open>A nested cell, built while the call is evaluated: \<open>.ref(beginCell() ... .endCell())\<close>.\<close>

definition p_nested :: "(builder \<Rightarrow> builder res) list \<Rightarrow> builder \<Rightarrow> builder res" where
  "p_nested fs b = andThen (chain fs beginCell) (\<lambda>n. b_ref (endCell n) b)"

section \<open>Message bodies\<close>

definition beginAthWalletBody :: "int \<Rightarrow> builder res" where
  "beginAthWalletBody op = b_uint op 32 beginCell"

definition toBocBase64 :: "builder \<Rightarrow> js_string res option" where
  "toBocBase64 b = map_option (\<lambda>r. andThen r (\<lambda>boc. Inr (base64Encode boc))) (tree_boc (endCell b))"

text \<open>\<open>new Body(op)...calls....toBocBase64()\<close>\<close>

definition finish_body :: "builder res \<Rightarrow> (builder \<Rightarrow> builder res) list \<Rightarrow> js_string res option" where
  "finish_body b0 calls = (case andThen b0 (chain calls) of Inl e \<Rightarrow> Some (Inl e) | Inr b \<Rightarrow> toBocBase64 b)"

definition ath_calls :: "string \<Rightarrow> ath_params \<Rightarrow> (int \<times> (builder \<Rightarrow> builder res) list) res" where
  "ath_calls type params =
    (if type = ''JettonTransfer'' then Inr (ATH_OP_JettonTransfer,
       [p_uint (query_id params) 64,
        p_coins (amount params),
        p_address (destination params),
        p_address (response_destination params),
        b_customPayloadMaybe (custom_payload params),
        p_coins (forward_ton_amount params)])
     else if type = ''ATHTransferRequest'' then Inr (ATH_OP_ATHTransferRequest,
       [p_uint (query_id params) 64,
        p_uint (amount params) 128,
        p_address (recipient params),
        p_address (response_destination params)])
     else if type = ''ATHTransferRequestWithNotify'' then Inr (ATH_OP_ATHTransferRequestWithNotify,
       [p_uint (query_id params) 64,
        p_uint (amount params) 128,
        p_address (recipient params),
        p_address (response_destination params),
        p_nested [p_address (notify_destination params), p_uint (notify_value params) 128]])
     else if type = ''ATHBurn'' then Inr (ATH_OP_ATHBurn,
       [p_uint (query_id params) 64,
        p_uint (amount params) 128,
        p_address (response_destination params)])
     else if type = ''ATHTransferRequestRegistryProfileAvatar'' then Inr (ATH_OP_RegistryProfileAvatar,
       [p_uint (query_id params) 64,
        p_uint (amount params) 128,
        p_address (recipient params),
        p_address (response_destination params),
        p_uint (notify_value params) 128,
        p_nested [p_address (owner_wallet params),
          p_uint (avatar_hash params) 256,
          p_uint (avatar_entry_id params) 64,
          p_uint (avatar_stream_id params) 128,
          p_uint (avatar_part_count params) 16,
          p_uint (media_format params) 8]])
     else if type = ''ATHTransferRequestRegistryMintUsername'' then
       (let usernameBytes = (case username params of None \<Rightarrow> [] | Some bs \<Rightarrow> bs) in
        Inr (ATH_OP_RegistryMintUsername,
       [p_uint (query_id params) 64,
        p_uint (amount params) 128,
        p_address (recipient params),
        p_address (response_destination params),
        p_uint (notify_value params) 128,
        p_nested [p_address (owner_wallet params),
          b_uint (int (length usernameBytes)) 8,
          b_bytesValue usernameBytes (length usernameBytes)]]))
     else Inl (JsError ''Unsupported ATHWallet message type''))"

definition buildAthWalletMessageBody :: "string \<Rightarrow> ath_params \<Rightarrow> js_string res option" where
  "buildAthWalletMessageBody type params =
     (case ath_calls type params of
        Inl e \<Rightarrow> Some (Inl e)
      | Inr (op, calls) \<Rightarrow> finish_body (beginAthWalletBody op) calls)"

definition buildUsernameRegistryMessageBody :: "string \<Rightarrow> ath_params \<Rightarrow> js_string res option" where
  "buildUsernameRegistryMessageBody type params =
     (if type = ''FlushBurnAthDue''
      then finish_body (b_uint OP_FlushBurnAthDue 32 beginCell) [p_uint (query_id params) 64]
      else Some (Inl (JsError ''Unsupported UsernameRegistry message type'')))"

definition buildProfileRegistryMessageBody :: "string \<Rightarrow> ath_params \<Rightarrow> js_string res option" where
  "buildProfileRegistryMessageBody type params =
     (if type = ''FlushProfileBurnAthDue''
      then finish_body (b_uint OP_FlushProfileBurnAthDue 32 beginCell) [p_uint (query_id params) 64]
      else Some (Inl (JsError ''Unsupported ProfileRegistry message type'')))"

definition externalInMessageCell :: "js_string option \<Rightarrow> cell \<Rightarrow> cell res" where
  "externalInMessageCell destinationAddress bodyCell =
     andThen (chain [b_uint 2 2, b_uint 0 2, p_address destinationAddress, b_coins 0, b_uint 0 1, b_uint 1 1,
                     b_ref bodyCell] beginCell)
       (\<lambda>b. Inr (endCell b))"

section \<open>Attached value and transactions\<close>

definition athInternalTransferArrivalMin :: nat where
  "athInternalTransferArrivalMin = internalTransferExec + internalTransferAckValue
     + internalTransferSourceAckValue + transferNotifyStorageEndowment"

definition athNotifyTransferValue :: "int \<Rightarrow> nat res" where
  "athNotifyTransferValue notifyValue =
     andThen (assertUint notifyValue 128) (\<lambda>v. Inr (v + transferNotifyAckValue
       + internalTransferSourceAckValue + transferNotifyExec + transferNotifyStorageEndowment))"

definition estimateAthWalletAttachedValueNanotons :: "string \<Rightarrow> ath_params \<Rightarrow> nat res" where
  "estimateAthWalletAttachedValueNanotons type params =
     guard (type \<noteq> '''') (TypeError ''must be a non-empty string'')
      (if type = ''JettonTransfer'' then
         andThen (toBigInt (forward_ton_amount params)) (\<lambda>v.
         andThen (assertUint v 128) (\<lambda>forward. Inr (ownerRequestExec + forward
           + internalTransferSourceAckValue + transferNotifyExec + transferNotifyStorageEndowment
           + internalTransferFwdFeeAllowance + internalTransferFwdFeeAllowance)))
       else if type = ''ATHTransferRequest'' then
         Inr (ownerRequestExec + athInternalTransferArrivalMin + internalTransferFwdFeeAllowance)
       else if type = ''ATHBurn'' then Inr (burnNotificationExec + ownerRequestExec)
       else if type = ''ATHTransferRequestWithNotify'' then
         (let notifyValue = (case notify_value params of None \<Rightarrow> int transferNotifyMinValue | Some v \<Rightarrow> v) in
          andThen (athNotifyTransferValue notifyValue) (\<lambda>v. Inr (v + notifyOwnerRequestExec)))
       else Inl (JsError ''Unsupported ATHWallet message type''))"

record ton_message =
  m_address :: js_string
  m_amount :: js_string
  m_payload :: js_string

text \<open>The three \<open>create...Message\<close> functions share their shape: address, amount, payload, in this order.\<close>

definition create_message ::
    "js_string option \<Rightarrow> int option \<Rightarrow> nat res \<Rightarrow> js_string res option \<Rightarrow> ton_message res option" where
  "create_message address valueNanotons estimate body =
     (case andThen (assertString address) (\<lambda>a.
              andThen (case valueNanotons of None \<Rightarrow> estimate | Some v \<Rightarrow> assertUint v 128) (\<lambda>n. Inr (a, n))) of
        Inl e \<Rightarrow> Some (Inl e)
      | Inr (a, n) \<Rightarrow> map_option (\<lambda>r. andThen r (\<lambda>p.
            Inr \<lparr>m_address = a, m_amount = dec_string n, m_payload = p\<rparr>)) body)"

definition createAthWalletMessage ::
    "string \<Rightarrow> ath_params \<Rightarrow> js_string option \<Rightarrow> int option \<Rightarrow> ton_message res option" where
  "createAthWalletMessage type params athWalletAddress valueNanotons =
     create_message athWalletAddress valueNanotons
       (estimateAthWalletAttachedValueNanotons type params) (buildAthWalletMessageBody type params)"

definition createUsernameRegistryMessage ::
    "string \<Rightarrow> ath_params \<Rightarrow> js_string option \<Rightarrow> int option \<Rightarrow> ton_message res option" where
  "createUsernameRegistryMessage type params address valueNanotons =
     create_message address valueNanotons
       (Inr REGISTRY_BURN_FLUSH_MESSAGE_VALUE_NANOTONS) (buildUsernameRegistryMessageBody type params)"

definition createProfileRegistryMessage ::
    "string \<Rightarrow> ath_params \<Rightarrow> js_string option \<Rightarrow> int option \<Rightarrow> ton_message res option" where
  "createProfileRegistryMessage type params address valueNanotons =
     create_message address valueNanotons
       (Inr REGISTRY_BURN_FLUSH_MESSAGE_VALUE_NANOTONS) (buildProfileRegistryMessageBody type params)"

record ton_transaction =
  validUntil :: "int option"
  messages :: "ton_message list"

text \<open>\<open>validUntil\<close> wins over \<open>nowMs\<close>; the default time to live is 300 seconds.\<close>

definition createWalletTransaction ::
    "ton_message list \<Rightarrow> int option \<Rightarrow> int option \<Rightarrow> int option \<Rightarrow> ton_transaction" where
  "createWalletTransaction list valid nowMs ttlSeconds =
     \<lparr>validUntil = (case valid of Some v \<Rightarrow> Some v
        | None \<Rightarrow> map_option (\<lambda>ms. ms div 1000 + (case ttlSeconds of None \<Rightarrow> 300 | Some t \<Rightarrow> t)) nowMs),
      messages = list\<rparr>"

definition normalizeUsernameBytes :: "js_string \<Rightarrow> bytes res" where
  "normalizeUsernameBytes value =
     guard (value \<noteq> []) (TypeError ''must be a non-empty string'')
      (let raw = (if drop (length value - 4) (ascii_lower value) = [46, 97, 116, 104] then take (length value - 4) value
                  else value) in
       guard (\<not> (length raw < 4 \<or> length raw > 16)) (RangeError ''username must be 4-16 ASCII chars'')
        (guard (\<forall>c \<in> set raw. is_lower c \<or> is_digit c \<or> c = 95 \<or> c = 45)
          (RangeError ''username must contain only lowercase ASCII letters, digits, underscores, or hyphens'')
          (Inr (map word_of_nat raw))))"

end
