(* ===== verification/Message_Layout.thy ===== *)
theory Message_Layout
  imports Messages
begin

text \<open>
  What a contract reads from a message body. A field is one of the values a cell can carry; its bits
  and references are what the builder appends for it; a schema is the list of loads the receiving
  contract performs, and \<open>read_kinds\<close> performs them. The properties relate the message builders
  to this specification: a body is built exactly when every parameter is in its range, and the
  contract's loads on the parsed body give the parameters back.
\<close>

section \<open>Fields and schemas\<close>

datatype field =
    FUint nat nat
  | FCoins nat
  | FAddr ton_address
  | FMaybe "cell option"
  | FBytes bytes
  | FNested "field list"

datatype kind = KUint nat | KCoins | KAddr | KMaybe | KBytes nat | KNested "kind list"

fun field_bits :: "field \<Rightarrow> bool list" where
  "field_bits (FUint n v) = nat_bits n v"
| "field_bits (FCoins v) = coins_bits v"
| "field_bits (FAddr a) = address_bits a"
| "field_bits (FMaybe c) = [c \<noteq> None]"
| "field_bits (FBytes bs) = bits_of bs"
| "field_bits (FNested fs) = []"

fun field_refs :: "field \<Rightarrow> cell list" where
  "field_refs (FMaybe (Some c)) = [c]"
| "field_refs (FNested fs) = [cell_of (concat (map field_bits fs)) (concat (map field_refs fs))]"
| "field_refs _ = []"

definition layout :: "field list \<Rightarrow> cell" where
  "layout fs = cell_of (concat (map field_bits fs)) (concat (map field_refs fs))"

fun kind_of :: "field \<Rightarrow> kind" where
  "kind_of (FUint n v) = KUint n"
| "kind_of (FCoins v) = KCoins"
| "kind_of (FAddr a) = KAddr"
| "kind_of (FMaybe c) = KMaybe"
| "kind_of (FBytes bs) = KBytes (length bs)"
| "kind_of (FNested fs) = KNested (map kind_of fs)"

fun field_ok :: "field \<Rightarrow> bool" where
  "field_ok (FUint n v) = (0 < n \<and> v < 2 ^ n)"
| "field_ok (FCoins v) = (v < 2 ^ 120)"
| "field_ok (FAddr a) = (- 128 \<le> a_workchain a \<and> a_workchain a \<le> 127 \<and> length (a_hash a) = 32)"
| "field_ok (FMaybe c) = True"
| "field_ok (FBytes bs) = True"
| "field_ok (FNested fs) = list_all field_ok fs"

section \<open>The contract's loads\<close>

definition load_bits :: "nat \<Rightarrow> bool list \<Rightarrow> (bool list \<times> bool list) option" where
  "load_bits n w = (if n \<le> length w then Some (take n w, drop n w) else None)"

definition load_uint :: "nat \<Rightarrow> bool list \<Rightarrow> (nat \<times> bool list) option" where
  "load_uint n w = map_option (\<lambda>(a, b). (bits_value a, b)) (load_bits n w)"

definition load_coins :: "bool list \<Rightarrow> (nat \<times> bool list) option" where
  "load_coins w = Option.bind (load_uint 4 w) (\<lambda>(len, w). load_uint (8 * len) w)"

definition load_address :: "bool list \<Rightarrow> (ton_address \<times> bool list) option" where
  "load_address w = Option.bind (load_uint 3 w) (\<lambda>(tag, w). if tag \<noteq> 4 then None else
     Option.bind (load_uint 8 w) (\<lambda>(wc, w). map_option (\<lambda>(h, w).
       (\<lparr>a_workchain = (if wc < 128 then int wc else int wc - 256), a_hash = pack h\<rparr>, w)) (load_bits 256 w)))"

fun read_kind :: "kind \<Rightarrow> bool list \<times> cell list \<Rightarrow> (field \<times> bool list \<times> cell list) option"
  and read_kinds :: "kind list \<Rightarrow> bool list \<times> cell list \<Rightarrow> (field list \<times> bool list \<times> cell list) option" where
  "read_kind (KUint n) (w, rs) = map_option (\<lambda>(v, w). (FUint n v, w, rs)) (load_uint n w)"
| "read_kind KCoins (w, rs) = map_option (\<lambda>(v, w). (FCoins v, w, rs)) (load_coins w)"
| "read_kind KAddr (w, rs) = map_option (\<lambda>(v, w). (FAddr v, w, rs)) (load_address w)"
| "read_kind KMaybe (w, rs) = (case w of [] \<Rightarrow> None
     | b # w \<Rightarrow> if b then (case rs of [] \<Rightarrow> None | r # rs \<Rightarrow> Some (FMaybe (Some r), w, rs))
               else Some (FMaybe None, w, rs))"
| "read_kind (KBytes n) (w, rs) = map_option (\<lambda>(v, w). (FBytes (pack v), w, rs)) (load_bits (8 * n) w)"
| "read_kind (KNested ks) (w, rs) = (case rs of [] \<Rightarrow> None
     | r # rs \<Rightarrow> (case read_kinds ks (cell_bits r, cell_refs r) of
          Some (fs, [], []) \<Rightarrow> Some (FNested fs, w, rs) | _ \<Rightarrow> None))"
| "read_kinds [] s = Some ([], s)"
| "read_kinds (k # ks) s = Option.bind (read_kind k s) (\<lambda>(f, s).
     map_option (\<lambda>(fs, s). (f # fs, s)) (read_kinds ks s))"

text \<open>The whole cell, with nothing left over.\<close>

definition read_cell :: "kind list \<Rightarrow> cell \<Rightarrow> field list option" where
  "read_cell ks c = (case read_kinds ks (cell_bits c, cell_refs c) of Some (fs, [], []) \<Rightarrow> Some fs | _ \<Rightarrow> None)"

lemma load_bits_append: "length a = n \<Longrightarrow> load_bits n (a @ w) = Some (a, w)"
  by (simp add: load_bits_def)

lemma load_uint_append: "v < 2 ^ n \<Longrightarrow> load_uint n (nat_bits n v @ w) = Some (v, w)"
  by (simp add: load_uint_def load_bits_append bits_value_nat_bits)

lemma load_coins_append:
  assumes "v < 2 ^ 120"
  shows "load_coins (coins_bits v @ w) = Some (v, w)"
proof (cases "v = 0")
  case True
  have "load_uint 4 ([False, False, False, False] @ w) = Some (0, w)"
    by (simp add: load_uint_def load_bits_def bits_value_def)
  moreover have "load_uint 0 w = Some (0, w)" by (simp add: load_uint_def load_bits_def)
  ultimately show ?thesis using True by (simp add: load_coins_def coins_bits_def)
next
  case False
  let ?k = "minimalUintByteLength v"
  have "?k \<le> 15" using minimalUintByteLength_le [of v 15] assms by simp
  then have "?k < 2 ^ 4" by simp
  moreover have "v < 2 ^ (8 * ?k)" using minimalUintByteLength_spec(1) [of v] by (simp add: mult.commute)
  ultimately show ?thesis using False by (simp add: load_coins_def coins_bits_def load_uint_append)
qed

lemma load_address_append:
  assumes "field_ok (FAddr a)"
  shows "load_address (address_bits a @ w) = Some (a, w)"
proof -
  let ?wc = "nat (a_workchain a mod 256)"
  have wc: "- 128 \<le> a_workchain a" "a_workchain a \<le> 127" and h: "length (bits_of (a_hash a)) = 256"
    using assms by simp_all
  have mod: "a_workchain a mod 256 = (if a_workchain a < 0 then a_workchain a + 256 else a_workchain a)"
  proof (cases "a_workchain a < 0")
    case True
    then have "(a_workchain a + 256) mod 256 = a_workchain a + 256"
      using wc by (intro mod_pos_pos_trivial) simp_all
    with True show ?thesis by simp
  next
    case False
    with wc show ?thesis by (simp add: mod_pos_pos_trivial)
  qed
  have t: "load_uint 3 ([True, False, False] @ x) = Some (4, x)" for x
    by (simp add: load_uint_def load_bits_def bits_value_def)
  have u: "load_uint 8 (nat_bits 8 ?wc @ x) = Some (?wc, x)" for x
    using wc by (intro load_uint_append) (auto simp: mod nat_less_iff)
  have wcb: "(if ?wc < 128 then int ?wc else int ?wc - 256) = a_workchain a"
    using wc by (simp add: mod) arith
  show ?thesis
    by (simp only: load_address_def address_bits_def append_assoc t u load_bits_append [OF h] bind.simps split
        option.map pack_bits_of wcb) simp
qed

lemma read_kind_append:
  "field_ok f \<Longrightarrow> read_kind (kind_of f) (field_bits f @ w, field_refs f @ rs) = Some (f, w, rs)"
proof (induction f arbitrary: w rs)
  case (FMaybe c)
  then show ?case by (cases c) simp_all
next
  case (FNested fs)
  have "read_kinds (map kind_of gs) (concat (map field_bits gs) @ w, concat (map field_refs gs) @ rs) = Some (gs, w, rs)"
    if "set gs \<subseteq> set fs" for gs w rs
    using that FNested by (induction gs arbitrary: w rs) (auto simp: list_all_iff)
  from this [of fs "[]" "[]"] show ?case by simp
qed (simp_all add: load_uint_append load_coins_append load_address_append load_bits_append pack_bits_of
    del: field_ok.simps(3))

lemma read_kinds_append:
  "list_all field_ok fs \<Longrightarrow> read_kinds (map kind_of fs) (concat (map field_bits fs) @ w, concat (map field_refs fs) @ rs)
     = Some (fs, w, rs)"
  by (induction fs arbitrary: w rs) (simp_all add: read_kind_append)

lemma read_layout: "list_all field_ok fs \<Longrightarrow> read_cell (map kind_of fs) (layout fs) = Some fs"
  using read_kinds_append [of fs "[]" "[]"] by (simp add: read_cell_def layout_def)

section \<open>Parameters in range\<close>

definition f_uint :: "nat \<Rightarrow> int option \<Rightarrow> field option" where
  "f_uint n v = (case v of None \<Rightarrow> None
     | Some i \<Rightarrow> if 0 \<le> i \<and> i < 2 ^ n \<and> 0 < n then Some (FUint n (nat i)) else None)"

definition f_coins :: "int option \<Rightarrow> field option" where
  "f_coins v = (case v of None \<Rightarrow> None
     | Some i \<Rightarrow> if 0 \<le> i \<and> i < 2 ^ 120 then Some (FCoins (nat i)) else None)"

definition f_addr :: "js_string option \<Rightarrow> field option" where
  "f_addr v = (case v of None \<Rightarrow> None
     | Some s \<Rightarrow> (case parseTonAddress s of Inl e \<Rightarrow> None
         | Inr a \<Rightarrow> if s \<noteq> [] \<and> - 128 \<le> a_workchain a \<and> a_workchain a \<le> 127 then Some (FAddr a) else None))"

fun those_opt :: "'a option list \<Rightarrow> 'a list option" where
  "those_opt [] = Some []"
| "those_opt (x # xs) = Option.bind x (\<lambda>y. map_option (Cons y) (those_opt xs))"

definition f_nested :: "field option list \<Rightarrow> field option" where
  "f_nested fs = map_option FNested (those_opt fs)"

text \<open>The fields of a message, by its type; \<open>None\<close> when a parameter is absent or out of range.\<close>

definition ath_specs :: "string \<Rightarrow> ath_params \<Rightarrow> field option list option" where
  "ath_specs type p =
    (if type = ''JettonTransfer'' then Some
       [f_uint 32 (Some ATH_OP_JettonTransfer), f_uint 64 (query_id p), f_coins (amount p), f_addr (destination p),
        f_addr (response_destination p), Some (FMaybe (custom_payload p)), f_coins (forward_ton_amount p)]
     else if type = ''ATHTransferRequest'' then Some
       [f_uint 32 (Some ATH_OP_ATHTransferRequest), f_uint 64 (query_id p), f_uint 128 (amount p),
        f_addr (recipient p), f_addr (response_destination p)]
     else if type = ''ATHTransferRequestWithNotify'' then Some
       [f_uint 32 (Some ATH_OP_ATHTransferRequestWithNotify), f_uint 64 (query_id p), f_uint 128 (amount p),
        f_addr (recipient p), f_addr (response_destination p),
        f_nested [f_addr (notify_destination p), f_uint 128 (notify_value p)]]
     else if type = ''ATHBurn'' then Some
       [f_uint 32 (Some ATH_OP_ATHBurn), f_uint 64 (query_id p), f_uint 128 (amount p), f_addr (response_destination p)]
     else if type = ''ATHTransferRequestRegistryProfileAvatar'' then Some
       [f_uint 32 (Some ATH_OP_RegistryProfileAvatar), f_uint 64 (query_id p), f_uint 128 (amount p),
        f_addr (recipient p), f_addr (response_destination p), f_uint 128 (notify_value p),
        f_nested [f_addr (owner_wallet p), f_uint 256 (avatar_hash p), f_uint 64 (avatar_entry_id p),
          f_uint 128 (avatar_stream_id p), f_uint 16 (avatar_part_count p), f_uint 8 (media_format p)]]
     else if type = ''ATHTransferRequestRegistryMintUsername'' then
       (let bs = (case username p of None \<Rightarrow> [] | Some bs \<Rightarrow> bs) in Some
       [f_uint 32 (Some ATH_OP_RegistryMintUsername), f_uint 64 (query_id p), f_uint 128 (amount p),
        f_addr (recipient p), f_addr (response_destination p), f_uint 128 (notify_value p),
        f_nested [f_addr (owner_wallet p), f_uint 8 (Some (int (length bs))), Some (FBytes bs)]])
     else None)"

definition ath_fields :: "string \<Rightarrow> ath_params \<Rightarrow> field list option" where
  "ath_fields type p = Option.bind (ath_specs type p) those_opt"

section \<open>The builder calls realise the fields\<close>

text \<open>A call either appends the field, or fails on every builder when the field is out of range.\<close>

definition realises :: "(builder \<Rightarrow> builder res) \<Rightarrow> field option \<Rightarrow> bool" where
  "realises f x \<longleftrightarrow> (case x of Some y \<Rightarrow> appends f (field_bits y) (field_refs y)
     | None \<Rightarrow> (\<forall>b. \<exists>e. f b = Inl e))"

named_theorems realises_intros \<open>the field each builder call appends\<close>

lemma b_uint_cases: "(0 \<le> i \<and> i < 2 ^ n \<and> 0 < n) \<or> (\<forall>b. \<exists>e. b_uint i n b = Inl e)"
proof (cases "assertUint i n")
  case (Inl e)
  then show ?thesis by (auto simp: b_uint_def)
next
  case (Inr u)
  then show ?thesis by (auto simp: assertUint_Inr)
qed

lemma realises_uint [realises_intros]: "realises (b_uint i n) (f_uint n (Some i))"
  using b_uint_cases [of i n] appends_uint [of i n] by (auto simp: realises_def f_uint_def)

lemma realises_p_uint [realises_intros]: "realises (p_uint v n) (f_uint n v)"
proof (cases v)
  case None
  then show ?thesis by (simp add: realises_def f_uint_def p_uint_def toBigInt_def)
next
  case (Some i)
  then show ?thesis using realises_uint [of i n] by (simp add: p_uint_def [abs_def] toBigInt_def)
qed

lemma minimalUintByteLength_large:
  assumes "2 ^ 120 \<le> n"
  shows "15 < minimalUintByteLength n"
proof (rule ccontr)
  assume "\<not> 15 < minimalUintByteLength n"
  then have "n < 2 ^ (15 * 8)"
    using minimalUintByteLength_spec(1) [of n] power_increasing [of "minimalUintByteLength n * 8" "15 * 8" "2 :: nat"]
    by simp
  with assms show False by simp
qed

lemma realises_p_coins [realises_intros]: "realises (p_coins v) (f_coins v)"
proof (cases v)
  case None
  then show ?thesis by (simp add: realises_def f_coins_def p_coins_def toBigInt_def)
next
  case (Some i)
  show ?thesis
  proof (cases "0 \<le> i \<and> i < 2 ^ 120")
    case True
    then have "appends (b_coins (int (nat i))) (coins_bits (nat i)) []"
      by (intro appends_coins) (simp add: nat_less_iff)
    with True Some show ?thesis by (simp add: realises_def f_coins_def p_coins_def [abs_def] toBigInt_def)
  next
    case False
    have "\<exists>e. b_coins i b = Inl e" for b
    proof (cases "assertUint i 128")
      case (Inr n)
      then have n: "n = nat i" "0 \<le> i" by (simp_all add: assertUint_Inr)
      with False have "2 ^ 120 \<le> n" by (simp add: le_nat_iff)
      with minimalUintByteLength_large have "15 < minimalUintByteLength n" "n \<noteq> 0" by auto
      with Inr show ?thesis by (simp add: b_coins_def guard_def)
    qed (simp add: b_coins_def)
    with False Some show ?thesis by (auto simp: realises_def f_coins_def p_coins_def toBigInt_def)
  qed
qed

lemma realises_p_address [realises_intros]: "realises (p_address v) (f_addr v)"
proof (cases v)
  case None
  then show ?thesis by (simp add: realises_def f_addr_def p_address_def assertString_def)
next
  case (Some s)
  show ?thesis
  proof (cases "parseTonAddress s")
    case (Inl e)
    then show ?thesis using Some by (simp add: realises_def f_addr_def p_address_def assertString_def guard_def)
  next
    case (Inr a)
    show ?thesis
    proof (cases "s \<noteq> [] \<and> - 128 \<le> a_workchain a \<and> a_workchain a \<le> 127")
      case True
      with Some Inr show ?thesis
        using appends_address [of a]
        by (simp add: realises_def f_addr_def p_address_def [abs_def] assertString_def guard_def)
    next
      case False
      then have "\<exists>e. p_address v b = Inl e" for b
      proof (cases "s = []")
        case False
        have "\<exists>e. b_address a b = Inl e"
          using \<open>\<not> (s \<noteq> [] \<and> _)\<close> False
          by (cases "chain [b_uint 2 2, b_uint 0 1] b")
            (auto simp: b_address_def signedWorkchainByte_def guard_def simp del: chain.simps)
        with Some Inr False show ?thesis by (simp add: p_address_def assertString_def)
      qed (simp add: Some p_address_def assertString_def)
      with False Some Inr show ?thesis by (auto simp: realises_def f_addr_def)
    qed
  qed
qed

lemma realises_bytes [realises_intros]: "realises (b_bytesValue bs (length bs)) (Some (FBytes bs))"
  using appends_bytesValue [of bs] by (simp add: realises_def)

lemma realises_maybe [realises_intros]: "realises (b_customPayloadMaybe c) (Some (FMaybe c))"
proof (cases c)
  case None
  then show ?thesis using appends_uint [of 0 1]
    by (simp add: realises_def b_customPayloadMaybe_def [abs_def])
next
  case (Some r)
  have "appends (chain [b_uint 1 1, b_ref r]) ([True] @ [] @ []) ([] @ [r] @ [])"
    using appends_uint [of 1 1] by (intro appends_chain_Cons appends_Nil appends_ref) (simp_all add: bit_0)
  with Some show ?thesis by (simp add: realises_def b_customPayloadMaybe_def [abs_def] del: chain.simps)
qed

lemma chain_fails: "f \<in> set fs \<Longrightarrow> \<forall>b. \<exists>e. f b = Inl e \<Longrightarrow> \<exists>e. chain fs b = Inl e"
proof (induction fs arbitrary: b)
  case (Cons g gs)
  then show ?case
  proof (cases "g = f")
    case True
    then show ?thesis using Cons.prems(2) by (metis andThen.simps(1) chain.simps(2))
  next
    case False
    with Cons show ?thesis by (cases "g b") auto
  qed
qed simp

lemma those_opt_None: "those_opt xs = None \<longleftrightarrow> None \<in> set xs"
  by (induction xs) (auto simp: bind_eq_None_conv)

lemma those_opt_Some: "those_opt xs = Some ys \<longleftrightarrow> xs = map Some ys"
  by (induction xs arbitrary: ys) (auto simp: bind_eq_Some_conv Cons_eq_map_conv)

lemma chain_realises:
  assumes "list_all2 realises fs xs"
  shows "case those_opt xs of
      Some ys \<Rightarrow> appends (chain fs) (concat (map field_bits ys)) (concat (map field_refs ys))
    | None \<Rightarrow> \<forall>b. \<exists>e. chain fs b = Inl e"
proof (cases "those_opt xs")
  case None
  then have "None \<in> set xs" by (simp add: those_opt_None)
  then obtain i where "i < length xs" "xs ! i = None" by (auto simp: in_set_conv_nth)
  then have "fs ! i \<in> set fs" "\<forall>b. \<exists>e. (fs ! i) b = Inl e"
    using assms by (auto simp: list_all2_conv_all_nth realises_def split: option.splits)
  then have "\<forall>b. \<exists>e. chain fs b = Inl e" using chain_fails [of "fs ! i" fs] by blast
  with None show ?thesis by simp
next
  case (Some ys)
  then have "list_all2 realises fs (map Some ys)" using assms by (simp add: those_opt_Some)
  then have "appends (chain fs) (concat (map field_bits ys)) (concat (map field_refs ys))"
  proof (induction fs "map Some ys" arbitrary: ys rule: list_all2_induct)
    case Nil
    then show ?case using appends_Nil by (simp del: chain.simps)
  next
    case (Cons f fs x xs)
    then obtain y zs where "ys = y # zs" "x = Some y" "xs = map Some zs" by (auto simp: Cons_eq_map_conv)
    with Cons show ?case by (auto simp: realises_def simp del: chain.simps intro!: appends_chain_Cons)
  qed
  with Some show ?thesis by simp
qed

lemma realises_nested [realises_intros]:
  assumes "list_all2 realises fs xs"
    and "\<And>ys. those_opt xs = Some ys \<Longrightarrow> length (concat (map field_refs ys)) \<le> 4"
  shows "realises (p_nested fs) (f_nested xs)"
proof (cases "those_opt xs")
  case None
  with chain_realises [OF assms(1)] show ?thesis
    by (auto simp: realises_def f_nested_def p_nested_def) (metis andThen.simps(1))
next
  case (Some ys)
  then have "appends (chain fs) (concat (map field_bits ys)) (concat (map field_refs ys))"
    using chain_realises [OF assms(1)] by simp
  then obtain n where n: "chain fs beginCell = Inr n" "holds n (concat (map field_bits ys)) (concat (map field_refs ys))"
    using appendsD [OF _ holds_beginCell] assms(2) [OF Some] by fastforce
  then have "p_nested fs = b_ref (cell_of (concat (map field_bits ys)) (concat (map field_refs ys)))"
    using endCell_holds [OF n(2)] by (simp add: p_nested_def [abs_def])
  with Some appends_ref show ?thesis by (simp add: realises_def f_nested_def)
qed

section \<open>Every message fits a cell\<close>

definition bounded_list :: "field option list \<Rightarrow> nat \<Rightarrow> nat \<Rightarrow> nat \<Rightarrow> bool" where
  "bounded_list xs n r c \<longleftrightarrow> (\<forall>ys. those_opt xs = Some ys \<longrightarrow>
     length (concat (map field_bits ys)) \<le> n \<and> length (concat (map field_refs ys)) \<le> r
     \<and> list_all field_ok ys \<and> list_all ok_cell (concat (map field_refs ys))
     \<and> sum_list (map cell_count (concat (map field_refs ys))) \<le> c)"

named_theorems bounded_intros \<open>bits, references and cells of a field\<close>

lemma bounded_Nil [bounded_intros]: "bounded_list [] 0 0 0"
  by (simp add: bounded_list_def)

lemma those_opt_Cons:
  "those_opt (x # zs) = Some ys \<longleftrightarrow> (\<exists>u us. ys = u # us \<and> x = Some u \<and> those_opt zs = Some us)"
  by (auto simp: bind_eq_Some_conv)

lemma bounded_single:
  "bounded_list [x] n r c \<longleftrightarrow> (\<forall>y. x = Some y \<longrightarrow> length (field_bits y) \<le> n \<and> length (field_refs y) \<le> r
     \<and> field_ok y \<and> list_all ok_cell (field_refs y) \<and> sum_list (map cell_count (field_refs y)) \<le> c)"
  by (cases x) (simp_all add: bounded_list_def)

lemma bounded_append [bounded_intros]:
  assumes "bounded_list [x] n r c" "bounded_list (y # xs) m q d"
  shows "bounded_list (x # y # xs) (n + m) (r + q) (c + d)"
  unfolding bounded_list_def
proof (rule allI, rule impI)
  fix ys assume "those_opt (x # y # xs) = Some ys"
  then obtain u us where ys: "ys = u # us" "x = Some u" "those_opt (y # xs) = Some us"
    unfolding those_opt_Cons [of x] by blast
  have "length (field_bits u) \<le> n \<and> length (field_refs u) \<le> r \<and> field_ok u
      \<and> list_all ok_cell (field_refs u) \<and> sum_list (map cell_count (field_refs u)) \<le> c"
    using assms(1) ys(2) by (simp add: bounded_single)
  moreover have "length (concat (map field_bits us)) \<le> m \<and> length (concat (map field_refs us)) \<le> q
      \<and> list_all field_ok us \<and> list_all ok_cell (concat (map field_refs us))
      \<and> sum_list (map cell_count (concat (map field_refs us))) \<le> d"
    using assms(2) ys(3) unfolding bounded_list_def by blast
  ultimately show "length (concat (map field_bits ys)) \<le> n + m \<and> length (concat (map field_refs ys)) \<le> r + q
      \<and> list_all field_ok ys \<and> list_all ok_cell (concat (map field_refs ys))
      \<and> sum_list (map cell_count (concat (map field_refs ys))) \<le> c + d"
    unfolding ys(1) by simp
qed

lemma bounded_uint [bounded_intros]: "bounded_list [f_uint n v] n 0 0"
proof -
  have "nat i < 2 ^ n" if "0 \<le> i" "i < 2 ^ n" for i :: int
    using that by (simp add: nat_less_iff)
  then show ?thesis by (cases v) (simp_all add: bounded_single f_uint_def)
qed

lemma bounded_addr [bounded_intros]: "bounded_list [f_addr v] 267 0 0"
  by (auto simp: bounded_single f_addr_def address_bits_def parsed_address_range split: option.splits sum.splits if_splits)

lemma bounded_coins [bounded_intros]: "bounded_list [f_coins v] 124 0 0"
proof -
  have "length (coins_bits n) \<le> 124" if "n < 2 ^ 120" for n
    using minimalUintByteLength_le [of n 15] that by (simp add: coins_bits_def)
  then show ?thesis by (auto simp: bounded_single f_coins_def nat_less_iff split: option.splits if_splits)
qed

lemma bounded_bytes [bounded_intros]: "bounded_list [Some (FBytes bs)] (8 * length bs) 0 0"
  by (simp add: bounded_list_def)

lemma bounded_maybe:
  "case m of None \<Rightarrow> True | Some t \<Rightarrow> ok_cell t \<and> cell_count t \<le> c \<Longrightarrow> bounded_list [Some (FMaybe m)] 1 1 c"
  by (cases m) (simp_all add: bounded_list_def)

lemma bounded_nested [bounded_intros]:
  assumes "bounded_list xs n r c" "n \<le> 1023" "r \<le> 4"
  shows "bounded_list [f_nested xs] 0 1 (Suc c)"
  using assms by (auto simp: bounded_list_def f_nested_def cell_of_def bind_eq_Some_conv intro!: exI)

lemma bounded_mono:
  "bounded_list xs n r c \<Longrightarrow> n \<le> n' \<Longrightarrow> r \<le> r' \<Longrightarrow> c \<le> c' \<Longrightarrow> bounded_list xs n' r' c'"
  unfolding bounded_list_def by (meson le_trans)

lemma finish_realises:
  assumes "list_all2 realises (b_uint op 32 # calls) xs" "bounded_list xs 1023 4 (2 ^ 20)"
  shows "case those_opt xs of
      None \<Rightarrow> \<exists>e. finish_body (beginAthWalletBody op) calls = Some (Inl e)
    | Some fs \<Rightarrow> \<exists>s boc h. finish_body (beginAthWalletBody op) calls = Some (Inr s)
        \<and> base64Decode s = Inr boc \<and> parseBoc boc = Inr (h, 0) \<and> denotes h 0 (layout fs)
        \<and> list_all field_ok fs \<and> bitLength (layout fs) \<le> 1023"
proof -
  have run: "andThen (beginAthWalletBody op) (chain calls) = chain (b_uint op 32 # calls) beginCell"
    by (simp add: beginAthWalletBody_def)
  show ?thesis
  proof (cases "those_opt xs")
    case None
    with chain_realises [OF assms(1)] obtain e where "chain (b_uint op 32 # calls) beginCell = Inl e" by auto
    with None run show ?thesis by (simp add: finish_body_def del: chain.simps)
  next
    case (Some fs)
    have b: "length (concat (map field_bits fs)) \<le> 1023" "length (concat (map field_refs fs)) \<le> 4"
        "list_all field_ok fs" "list_all ok_cell (concat (map field_refs fs))"
        "sum_list (map cell_count (concat (map field_refs fs))) \<le> 2 ^ 20"
      using assms(2) Some unfolding bounded_list_def by blast+
    have "appends (chain (b_uint op 32 # calls)) (concat (map field_bits fs)) (concat (map field_refs fs))"
      using chain_realises [OF assms(1)] Some by (simp del: chain.simps)
    then obtain b where b': "chain (b_uint op 32 # calls) beginCell = Inr b"
        "holds b (concat (map field_bits fs)) (concat (map field_refs fs))"
      using appendsD [OF _ holds_beginCell] b(2) by fastforce
    have e: "endCell b = layout fs" using endCell_holds [OF b'(2)] by (simp add: layout_def)
    have "ok_cell (layout fs)" "cell_count (layout fs) \<le> 2 ^ 24"
      using b by (auto simp: layout_def cell_of_def)
    then obtain boc h where "tree_boc (layout fs) = Some (Inr boc)" "parseBoc boc = Inr (h, 0)" "denotes h 0 (layout fs)"
      using tree_boc_roundtrip by blast
    then show ?thesis
      using Some run b' e b(1,3) by (auto simp: finish_body_def toBocBase64_def layout_def simp del: chain.simps)
  qed
qed

definition body_params_small :: "ath_params \<Rightarrow> bool" where
  "body_params_small p \<longleftrightarrow>
     (case custom_payload p of None \<Rightarrow> True | Some t \<Rightarrow> ok_cell t \<and> cell_count t \<le> 2 ^ 20 - 1)
     \<and> (case username p of None \<Rightarrow> True | Some bs \<Rightarrow> length bs \<le> 90)"

definition calls_meet :: "int \<Rightarrow> (builder \<Rightarrow> builder res) list \<Rightarrow> field option list \<Rightarrow> bool" where
  "calls_meet op calls xs \<longleftrightarrow>
     list_all2 realises (b_uint op 32 # calls) xs \<and> bounded_list xs 1023 4 (2 ^ 20)"

lemma calls_meetI:
  assumes "bounded_list (f_uint 32 (Some op) # xs) n r c" "list_all2 realises calls xs"
    "n \<le> 1023" "r \<le> 4" "c \<le> 2 ^ 20"
  shows "calls_meet op calls (f_uint 32 (Some op) # xs)"
  using assms realises_uint bounded_mono [OF assms(1,3,4,5)] by (simp add: calls_meet_def)

lemma nested_meets:
  assumes "bounded_list xs n r c" "list_all2 realises calls xs" "n \<le> 1023" "r \<le> 4"
  shows "realises (p_nested calls) (f_nested xs)"
proof (rule realises_nested [OF assms(2)])
  fix ys assume "those_opt xs = Some ys"
  then show "length (concat (map field_refs ys)) \<le> 4"
    using assms(1,4) le_trans unfolding bounded_list_def by blast
qed

lemmas flat_bounds = bounded_append bounded_uint bounded_addr bounded_coins bounded_bytes bounded_Nil

lemma ath_transfer_meets:
  assumes "bounded_list [Some (FMaybe m)] 1 1 (2 ^ 20)"
  shows "calls_meet op [p_uint a 64, p_coins b, p_address c, p_address d, b_customPayloadMaybe m, p_coins e]
    [f_uint 32 (Some op), f_uint 64 a, f_coins b, f_addr c, f_addr d, Some (FMaybe m), f_coins e]"
  by (rule calls_meetI, (rule flat_bounds assms)+, simp_all add: realises_intros)

lemma ath_plain_meets:
  "calls_meet op [p_uint a 64, p_uint b 128, p_address c, p_address d]
    [f_uint 32 (Some op), f_uint 64 a, f_uint 128 b, f_addr c, f_addr d]"
  "calls_meet op [p_uint a 64, p_uint b 128, p_address c] [f_uint 32 (Some op), f_uint 64 a, f_uint 128 b, f_addr c]"
  by (rule calls_meetI, (rule flat_bounds)+, simp_all add: realises_intros)+

lemma ath_nested_meets:
  assumes "bounded_list ns n r c" "list_all2 realises calls ns" "n \<le> 1023" "r \<le> 4" "c < 2 ^ 20"
  shows "calls_meet op [p_uint a 64, p_uint b 128, p_address d, p_address e, p_nested calls]
    [f_uint 32 (Some op), f_uint 64 a, f_uint 128 b, f_addr d, f_addr e, f_nested ns]"
    "calls_meet op [p_uint a 64, p_uint b 128, p_address d, p_address e, p_uint v 128, p_nested calls]
    [f_uint 32 (Some op), f_uint 64 a, f_uint 128 b, f_addr d, f_addr e, f_uint 128 v, f_nested ns]"
proof -
  note n = bounded_nested [OF assms(1,3,4)] and m = nested_meets [OF assms(1,2,3,4)]
  show "calls_meet op [p_uint a 64, p_uint b 128, p_address d, p_address e, p_nested calls]
    [f_uint 32 (Some op), f_uint 64 a, f_uint 128 b, f_addr d, f_addr e, f_nested ns]"
    by (rule calls_meetI, (rule flat_bounds n)+, simp_all add: realises_intros m) (use assms(5) in simp)
  show "calls_meet op [p_uint a 64, p_uint b 128, p_address d, p_address e, p_uint v 128, p_nested calls]
    [f_uint 32 (Some op), f_uint 64 a, f_uint 128 b, f_addr d, f_addr e, f_uint 128 v, f_nested ns]"
    by (rule calls_meetI, (rule flat_bounds n)+, simp_all add: realises_intros m) (use assms(5) in simp)
qed

lemma six_cases:
  obtains "x = a" | "x = b" | "x = c" | "x = d" | "x = e" | "x = f" | "x \<notin> {a, b, c, d, e, f}"
  by auto

lemma ath_calls_specs:
  assumes "body_params_small p"
  shows "case ath_calls type p of
      Inl e \<Rightarrow> ath_specs type p = None
    | Inr (op, calls) \<Rightarrow> (\<exists>xs. ath_specs type p = Some xs \<and> calls_meet op calls xs)"
proof -
  let ?notify = "[f_addr (notify_destination p), f_uint 128 (notify_value p)]"
  have notify: "bounded_list ?notify (267 + 128) (0 + 0) (0 + 0)" by (rule flat_bounds)+
  let ?avatar = "[f_addr (owner_wallet p), f_uint 256 (avatar_hash p), f_uint 64 (avatar_entry_id p),
    f_uint 128 (avatar_stream_id p), f_uint 16 (avatar_part_count p), f_uint 8 (media_format p)]"
  have avatar: "bounded_list ?avatar (267 + (256 + (64 + (128 + (16 + 8)))))
      (0 + (0 + (0 + (0 + (0 + 0))))) (0 + (0 + (0 + (0 + (0 + 0)))))" by (rule flat_bounds)+
  let ?bs = "case username p of None \<Rightarrow> [] | Some bs \<Rightarrow> bs"
  let ?mint = "[f_addr (owner_wallet p), f_uint 8 (Some (int (length ?bs))), Some (FBytes ?bs)]"
  have mint: "bounded_list ?mint (267 + (8 + 8 * length ?bs)) (0 + (0 + 0)) (0 + (0 + 0))" by (rule flat_bounds)+
  have len: "length ?bs \<le> 90" using assms by (auto simp: body_params_small_def split: option.splits)
  have payload: "bounded_list [Some (FMaybe (custom_payload p))] 1 1 (2 ^ 20)"
    using assms by (intro bounded_maybe) (auto simp: body_params_small_def split: option.splits)
  show ?thesis
  proof (cases rule: six_cases [where x = type and a = "''JettonTransfer''" and b = "''ATHTransferRequest''"
        and c = "''ATHTransferRequestWithNotify''" and d = "''ATHBurn''"
        and e = "''ATHTransferRequestRegistryProfileAvatar''" and f = "''ATHTransferRequestRegistryMintUsername''"])
    case 1
    then show ?thesis using ath_transfer_meets [OF payload] by (simp add: ath_calls_def ath_specs_def)
  next
    case 2
    then show ?thesis using ath_plain_meets(1) by (simp add: ath_calls_def ath_specs_def)
  next
    case 3
    then show ?thesis
      using ath_nested_meets(1) [OF notify] by (simp add: ath_calls_def ath_specs_def realises_intros)
  next
    case 4
    then show ?thesis using ath_plain_meets(2) by (simp add: ath_calls_def ath_specs_def)
  next
    case 5
    then show ?thesis
      using ath_nested_meets(2) [OF avatar] by (simp add: ath_calls_def ath_specs_def realises_intros)
  next
    case 6
    then show ?thesis
      using ath_nested_meets(2) [OF mint] len by (simp add: ath_calls_def ath_specs_def realises_intros Let_def)
  next
    case 7
    then show ?thesis by (simp add: ath_calls_def ath_specs_def)
  qed
qed

section \<open>Properties\<close>

text \<open>
  C11: A wallet message is what its parameters say. \<open>buildAthWalletMessageBody\<close> returns a body exactly
  when the type is known and every parameter is present and in its range, and fails otherwise; a
  returned body is the base64 of a bag of cells that parses, its root fits a cell (1023 bits), and
  the receiving contract's loads on it give the operation code and the parameters back, with no bits
  and no references left over.
\<close>

theorem ath_body_correct:
  assumes "body_params_small p"
  shows "case ath_fields type p of
      None \<Rightarrow> \<exists>e. buildAthWalletMessageBody type p = Some (Inl e)
    | Some fs \<Rightarrow> \<exists>s boc h t. buildAthWalletMessageBody type p = Some (Inr s)
        \<and> base64Decode s = Inr boc \<and> parseBoc boc = Inr (h, 0) \<and> denotes h 0 t \<and> bitLength t \<le> 1023
        \<and> read_cell (map kind_of fs) t = Some fs"
proof (cases "ath_calls type p")
  case (Inl e)
  then show ?thesis
    using ath_calls_specs [OF assms, of type] by (simp add: ath_fields_def buildAthWalletMessageBody_def)
next
  case (Inr oc)
  obtain op calls where oc: "oc = (op, calls)" by (cases oc)
  obtain xs where xs: "ath_specs type p = Some xs" "calls_meet op calls xs"
    using ath_calls_specs [OF assms, of type] Inr oc by auto
  have b: "buildAthWalletMessageBody type p = finish_body (beginAthWalletBody op) calls"
    using Inr oc by (simp add: buildAthWalletMessageBody_def)
  note fin = finish_realises [OF xs(2) [unfolded calls_meet_def, THEN conjunct1]
      xs(2) [unfolded calls_meet_def, THEN conjunct2]]
  show ?thesis
  proof (cases "those_opt xs")
    case None
    with fin xs(1) b show ?thesis by (simp add: ath_fields_def)
  next
    case (Some fs)
    with fin xs(1) b read_layout [of fs] show ?thesis by (simp add: ath_fields_def) blast
  qed
qed

definition sample_burn :: ath_params where
  "sample_burn = \<lparr>query_id = Some 7, amount = Some (10 ^ 9), destination = None, recipient = None,
     response_destination = Some (rawAddress \<lparr>a_workchain = 0, a_hash = replicate 32 9\<rparr>),
     custom_payload = None, forward_ton_amount = None, notify_destination = None, notify_value = None,
     owner_wallet = None, avatar_hash = None, avatar_entry_id = None, avatar_stream_id = None,
     avatar_part_count = None, media_format = None, username = None\<rparr>"

theorem ath_body_correct_witness:
  "(\<exists>s boc h t. buildAthWalletMessageBody ''ATHBurn'' sample_burn = Some (Inr s)
      \<and> base64Decode s = Inr boc \<and> parseBoc boc = Inr (h, 0) \<and> denotes h 0 t \<and> bitLength t \<le> 1023
      \<and> read_cell [KUint 32, KUint 64, KUint 128, KAddr] t = Some [FUint 32 1096042497, FUint 64 7,
          FUint 128 (10 ^ 9), FAddr \<lparr>a_workchain = 0, a_hash = replicate 32 9\<rparr>])
   \<and> (\<exists>e. buildAthWalletMessageBody ''ATHTransferRequest'' sample_burn = Some (Inl e))"
proof -
  let ?a = "\<lparr>a_workchain = 0, a_hash = replicate 32 9\<rparr> :: ton_address"
  have s: "body_params_small sample_burn" by (simp add: body_params_small_def sample_burn_def)
  have "parseTonAddress (rawAddress ?a) = Inr ?a"
    using parse_formatted [of ?a] by (simp add: parseTonAddress_def MAX_SAFE_INTEGER_def)
  moreover have "rawAddress ?a \<noteq> []" by (simp add: rawAddress_def)
  ultimately have "ath_fields ''ATHBurn'' sample_burn = Some [FUint 32 1096042497, FUint 64 7, FUint 128 (10 ^ 9), FAddr ?a]"
    by (simp add: ath_fields_def ath_specs_def sample_burn_def f_uint_def f_addr_def op_defs)
  moreover have "ath_fields ''ATHTransferRequest'' sample_burn = None"
    by (simp add: ath_fields_def ath_specs_def sample_burn_def f_addr_def bind_eq_None_conv)
  ultimately show ?thesis
    using ath_body_correct [OF s, of "''ATHBurn''"] ath_body_correct [OF s, of "''ATHTransferRequest''"] by simp
qed

end
