(* ===== verification/Public_Header.thy ===== *)
theory Public_Header
  imports Message_Layout Utf8
begin

text \<open>
  Public posts, comments and avatars: the header codecs of both versions and the payload builders of
  \<open>web/pwa-contract-transactions.mjs\<close>. The input object is a record of the fields the code looks at,
  aliases already coalesced (\<open>partIndex ?? part_index\<close> is one field); a value the code accepts in
  several types is a datatype with one constructor per type. \<open>dateParse\<close> (\<open>Date.parse\<close>),
  \<open>random\<close> (the 16 bytes \<open>randomBytes\<close> returns) and \<open>sha\<close> are parameters.
\<close>

section \<open>Constants\<close>

definition PUBLIC_POST_BODY_MAX_BYTES :: nat where "PUBLIC_POST_BODY_MAX_BYTES = 32 * 1024"
definition PUBLIC_HEADER_MAGIC :: bytes where "PUBLIC_HEADER_MAGIC = [80, 80, 72, 49]"
definition PUBLIC_HEADER_MAGIC_V2 :: bytes where "PUBLIC_HEADER_MAGIC_V2 = [80, 80, 72, 50]"
definition PUBLIC_BODY_VERSION :: byte where "PUBLIC_BODY_VERSION = 1"
definition PUBLIC_HEADER_VERSION_V2 :: byte where "PUBLIC_HEADER_VERSION_V2 = 2"
definition PUBLIC_HEADER_BYTES_V2 :: nat where "PUBLIC_HEADER_BYTES_V2 = 32"
definition PUBLIC_POST_HEADER_BYTES :: nat where "PUBLIC_POST_HEADER_BYTES = 68"
definition PUBLIC_COMMENT_HEADER_BYTES :: nat where "PUBLIC_COMMENT_HEADER_BYTES = 72"
definition COMMENTS_DISABLED :: byte where "COMMENTS_DISABLED = 1"
definition MEDIA_NONE :: byte where "MEDIA_NONE = 0"
definition MEDIA_WEBP :: byte where "MEDIA_WEBP = 1"

lemmas public_consts = PUBLIC_HEADER_MAGIC_def PUBLIC_HEADER_MAGIC_V2_def PUBLIC_BODY_VERSION_def
  PUBLIC_HEADER_VERSION_V2_def PUBLIC_HEADER_BYTES_V2_def PUBLIC_POST_HEADER_BYTES_def
  PUBLIC_COMMENT_HEADER_BYTES_def COMMENTS_DISABLED_def MEDIA_NONE_def MEDIA_WEBP_def

datatype body_kind = POST | COMMENT | IMAGE_POST | IMAGE_COMMENT | AVATAR | DOCUMENT_POST | DOCUMENT_COMMENT

fun kind_byte :: "body_kind \<Rightarrow> byte" where
  "kind_byte POST = 1"
| "kind_byte COMMENT = 2"
| "kind_byte IMAGE_POST = 3"
| "kind_byte IMAGE_COMMENT = 4"
| "kind_byte AVATAR = 5"
| "kind_byte DOCUMENT_POST = 6"
| "kind_byte DOCUMENT_COMMENT = 7"

definition kind_of_byte :: "byte \<Rightarrow> body_kind option" where
  "kind_of_byte b = (if b = 1 then Some POST else if b = 2 then Some COMMENT else if b = 3 then Some IMAGE_POST
     else if b = 4 then Some IMAGE_COMMENT else if b = 5 then Some AVATAR else if b = 6 then Some DOCUMENT_POST
     else if b = 7 then Some DOCUMENT_COMMENT else None)"

lemma kind_of_byte_kind_byte [simp]: "kind_of_byte (kind_byte k) = Some k"
  by (cases k) (simp_all add: kind_of_byte_def)

lemma kind_of_byte_Some: "kind_of_byte b = Some k \<Longrightarrow> b = kind_byte k"
  by (auto simp: kind_of_byte_def split: if_splits)

definition is_image :: "body_kind \<Rightarrow> bool" where
  "is_image k \<longleftrightarrow> k = IMAGE_POST \<or> k = IMAGE_COMMENT"

definition is_document :: "body_kind \<Rightarrow> bool" where
  "is_document k \<longleftrightarrow> k = DOCUMENT_POST \<or> k = DOCUMENT_COMMENT"

section \<open>The input\<close>

datatype stream_value = StreamBytes bytes | StreamText js_string | NoStream
datatype parent_value = ParentBytes bytes | ParentInt int | ParentText js_string | NoParent

record public_input =
  i_type :: "js_string option"
  i_kind :: "js_num option"
  i_streamId :: stream_value
  i_partIndex :: "int option"
  i_partCount :: "int option"
  i_createdAtSec :: "int option"
  i_createdAtMs :: "js_num option"
  i_createdAt :: "js_string option"
  i_commentsAllowed :: "bool option"
  i_comments :: "js_string option"
  i_mediaFormat :: "js_num option"
  i_profileVersion :: "int option"
  i_avatarHash :: "int option"
  i_parentEntryId :: "int option"
  i_parentHash :: parent_value
  i_text :: js_string
  i_bytes :: "bytes option"

definition ascii :: "string \<Rightarrow> js_string" where
  "ascii s = map of_char s"

text \<open>
  \<open>String(input.type ?? input.kind ?? 'post').toLowerCase()\<close>; the text of a numeric kind is none
  of the names it is compared with, so its digits are not spelt out.
\<close>

definition type_name :: "public_input \<Rightarrow> js_string" where
  "type_name input = (case i_type input of Some t \<Rightarrow> ascii_lower t
     | None \<Rightarrow> (case i_kind input of Some n \<Rightarrow> [] | None \<Rightarrow> ascii ''post''))"

definition publicPayloadKind :: "public_input \<Rightarrow> body_kind" where
  "publicPayloadKind input =
     (let type = type_name input; kind = (\<lambda>k. i_kind input = Some (js_of_nat (unat (kind_byte k)))) in
      if type = ascii ''comment'' \<or> kind COMMENT then COMMENT
      else if type = ascii ''image_comment'' \<or> type = ascii ''comment_image'' \<or> kind IMAGE_COMMENT then IMAGE_COMMENT
      else if type = ascii ''image'' \<or> type = ascii ''image_post'' \<or> type = ascii ''post_image'' \<or> kind IMAGE_POST
      then IMAGE_POST
      else if type = ascii ''avatar'' \<or> type = ascii ''profile_avatar'' \<or> kind AVATAR then AVATAR
      else if type = ascii ''document_comment'' \<or> type = ascii ''comment_document'' \<or> kind DOCUMENT_COMMENT
      then DOCUMENT_COMMENT
      else if type = ascii ''document'' \<or> type = ascii ''document_post'' \<or> type = ascii ''post_document''
        \<or> kind DOCUMENT_POST then DOCUMENT_POST
      else POST)"

definition publicCommentsAllowed :: "public_input \<Rightarrow> bool" where
  "publicCommentsAllowed input =
     (if i_commentsAllowed input = Some False then False
      else
        (let value = ascii_lower (case i_comments input of None \<Rightarrow> [] | Some s \<Rightarrow> s) in
         value \<notin> {ascii ''disabled'', ascii ''closed'', ascii ''off'', ascii ''false'', ascii ''0''}))"

definition strip_0x :: "js_string \<Rightarrow> js_string" where
  "strip_0x s = (if take 2 (trim s) = [48, 120] then drop 2 (trim s) else trim s)"

text \<open>\<open>hexToBytes\<close> of this file: it trims, and takes the length as a further check.\<close>

definition hexToBytes_trimmed :: "js_string \<Rightarrow> nat \<Rightarrow> bytes res" where
  "hexToBytes_trimmed value len =
     (let text = trim value in
      guard ((\<forall>c \<in> set text. is_hex_any c) \<and> length text mod 2 = 0) (TypeError ''must be an even-length hex string'')
        (guard (length text div 2 = len) (RangeError ''must be bytes of the given length'')
          (Inr (hex_bytes (ascii_lower text)))))"

definition assertBytes :: "bytes \<Rightarrow> nat \<Rightarrow> bytes res" where
  "assertBytes bs len = guard (length bs = len) (RangeError ''must be bytes of the given length'') (Inr bs)"

definition publicStreamIdBytes :: "bytes \<Rightarrow> public_input \<Rightarrow> bytes res" where
  "publicStreamIdBytes random input =
     (case i_streamId input of
        StreamBytes bs \<Rightarrow> assertBytes bs 16
      | StreamText s \<Rightarrow> if trim s \<noteq> [] then hexToBytes_trimmed (strip_0x s) 16 else Inr random
      | NoStream \<Rightarrow> Inr random)"

definition publicParentHashBytes :: "parent_value \<Rightarrow> bytes res" where
  "publicParentHashBytes value =
     (case value of
        ParentBytes bs \<Rightarrow> assertBytes bs 32
      | ParentInt i \<Rightarrow> bigintToBytes i 32
      | ParentText s \<Rightarrow> hexToBytes_trimmed (strip_0x s) 32
      | NoParent \<Rightarrow> Inl (TypeError ''parent_hash is required for public comments''))"

definition publicPartNumber :: "int \<Rightarrow> nat res" where
  "publicPartNumber value = assertUint value 16"

text \<open>A date in milliseconds, as seconds that fit 32 bits.\<close>

definition seconds_of_ms :: "js_num \<Rightarrow> js_error \<Rightarrow> nat res" where
  "seconds_of_ms ms e =
     (case ms of Fin r \<Rightarrow> guard (\<not> r < 0) e (assertUint \<lfloor>r / 1000\<rfloor> 32) | _ \<Rightarrow> Inl e)"

definition publicCreatedAtSeconds :: "(js_string \<Rightarrow> js_num) \<Rightarrow> public_input \<Rightarrow> nat res" where
  "publicCreatedAtSeconds dateParse input =
     (case i_createdAtSec input of
        Some direct \<Rightarrow> assertUint direct 32
      | None \<Rightarrow>
          (case i_createdAtMs input of
             Some ms \<Rightarrow> seconds_of_ms ms (RangeError ''public createdAtMs must be non-negative'')
           | None \<Rightarrow>
               (case i_createdAt input of
                  Some s \<Rightarrow> if trim s \<noteq> []
                    then seconds_of_ms (dateParse s) (RangeError ''public createdAt must be a valid date'') else Inr 0
                | None \<Rightarrow> Inr 0)))"

definition publicProfilePointerBytes :: "public_input \<Rightarrow> bytes res" where
  "publicProfilePointerBytes input =
     andThen (assertUint (or_default (i_profileVersion input) 0) 32) (\<lambda>v.
     andThen (bigintToBytes (int v) 4) (\<lambda>version.
     andThen (assertUint (or_default (i_avatarHash input) 0) 256) (\<lambda>a.
     andThen (bigintToBytes (int a) 32) (\<lambda>avatar. Inr (version @ avatar)))))"

text \<open>Storing a number in a byte: \<open>ToUint8\<close>.\<close>

definition toUint8 :: "js_num \<Rightarrow> byte" where
  "toUint8 n = (case n of Fin r \<Rightarrow> word_of_int (if r < 0 then - \<lfloor>- r\<rfloor> else \<lfloor>r\<rfloor>) | _ \<Rightarrow> 0)"

definition media_value :: "public_input \<Rightarrow> js_num" where
  "media_value input = or_default (i_mediaFormat input) (js_of_nat (unat MEDIA_WEBP))"

section \<open>Version 1 header\<close>

definition public_part_bytes :: "bytes \<Rightarrow> nat \<Rightarrow> nat \<Rightarrow> nat \<Rightarrow> bytes res" where
  "public_part_bytes streamId partIndex partCount createdAtSec =
     andThen (bigintToBytes (int partIndex) 2) (\<lambda>i.
     andThen (bigintToBytes (int partCount) 2) (\<lambda>c.
     andThen (bigintToBytes (int createdAtSec) 4) (\<lambda>t. Inr (streamId @ i @ c @ t))))"

definition public_flags :: "public_input \<Rightarrow> byte" where
  "public_flags input = (if publicCommentsAllowed input then 0 else COMMENTS_DISABLED)"

definition publicHeaderBytes :: "(js_string \<Rightarrow> js_num) \<Rightarrow> bytes \<Rightarrow> public_input \<Rightarrow> bytes res" where
  "publicHeaderBytes dateParse random input =
    (let kind = publicPayloadKind input in
     andThen (publicStreamIdBytes random input) (\<lambda>streamId.
     andThen (publicPartNumber (or_default (i_partIndex input) 0)) (\<lambda>partIndex.
     andThen (publicPartNumber (or_default (i_partCount input) 1)) (\<lambda>partCount.
     andThen (publicCreatedAtSeconds dateParse input) (\<lambda>createdAtSec.
      (let mediaFormat = (if is_image kind then toUint8 (media_value input) else MEDIA_NONE) in
       guard (\<not> (partCount \<le> 0 \<or> partIndex \<ge> partCount)) (RangeError ''public part index mismatch'')
      (andThen (public_part_bytes streamId partIndex partCount createdAtSec) (\<lambda>partBytes.
       andThen (publicProfilePointerBytes input) (\<lambda>profileBytes.
        if kind = POST then
          Inr (PUBLIC_HEADER_MAGIC @ [PUBLIC_BODY_VERSION, kind_byte POST, public_flags input, MEDIA_NONE]
            @ partBytes @ profileBytes)
        else if kind = IMAGE_POST then
          Inr (PUBLIC_HEADER_MAGIC @ [PUBLIC_BODY_VERSION, kind_byte IMAGE_POST, public_flags input, mediaFormat]
            @ partBytes @ profileBytes)
        else if kind = DOCUMENT_POST then
          Inr (PUBLIC_HEADER_MAGIC @ [PUBLIC_BODY_VERSION, kind_byte DOCUMENT_POST, public_flags input, MEDIA_NONE]
            @ partBytes @ profileBytes)
        else if kind = AVATAR then
          Inr (PUBLIC_HEADER_MAGIC @ [PUBLIC_BODY_VERSION, kind_byte AVATAR, 0,
              if mediaFormat \<noteq> 0 then mediaFormat else MEDIA_WEBP] @ partBytes @ profileBytes)
        else
          andThen (toBigInt (i_parentEntryId input)) (\<lambda>p.
          andThen (bigintToBytes p 8) (\<lambda>parentEntryId.
          andThen (publicParentHashBytes (i_parentHash input)) (\<lambda>parentHash.
           (let commentKind = (if kind = IMAGE_COMMENT then IMAGE_COMMENT
                  else if is_document kind then DOCUMENT_COMMENT else COMMENT) in
            Inr (PUBLIC_HEADER_MAGIC @ [PUBLIC_BODY_VERSION, kind_byte commentKind, 0, mediaFormat]
              @ partBytes @ parentEntryId @ parentHash))))))))))))))"

definition publicTextBytes :: "js_string \<Rightarrow> nat \<Rightarrow> bytes res" where
  "publicTextBytes text maxBytes =
     (let bytes = utf8_encode text in
      guard (bytes \<noteq> []) (RangeError ''public text must not be empty'')
        (guard (\<not> length bytes > maxBytes) (RangeError ''public text exceeds the byte limit'') (Inr bytes)))"

definition publicBodyBytes :: "public_input \<Rightarrow> bytes res" where
  "publicBodyBytes input =
     (let kind = publicPayloadKind input; bytes = or_default (i_bytes input) [] in
      if kind = POST then publicTextBytes (i_text input) PUBLIC_POST_BODY_MAX_BYTES
      else if is_document kind then
        guard (\<not> length bytes > PUBLIC_POST_BODY_MAX_BYTES)
          (RangeError ''public document bytes exceed public body cap'') (Inr bytes)
      else if is_image kind \<or> kind = AVATAR then
        guard (\<not> length bytes > PUBLIC_POST_BODY_MAX_BYTES)
          (RangeError ''public image bytes exceed public body cap'') (Inr bytes)
      else publicTextBytes (i_text input) PUBLIC_POST_BODY_MAX_BYTES)"

end
