(* ===== verification/Public_Reader.thy ===== *)
theory Public_Reader
  imports Public_Header
begin

text \<open>
  Reading public headers back: \<open>readPublicBodyBytes\<close> (version 1), \<open>publicHeaderBytesV2\<close>,
  \<open>readPublicBodyBytesV2\<close> (version 2) and \<open>readPublicPartHeaderInfo\<close>, the lenient reader that
  groups the parts of a stream. The object the readers return is a record; its fields that repeat
  another under a second name (snake case, lengths, hex forms) are not repeated.
\<close>

record part_info =
  streamId :: bytes
  partIndex :: nat
  partCount :: nat
  createdAtSec :: nat

record public_body =
  pb_kind :: body_kind
  pb_flags :: byte
  pb_mediaFormat :: byte
  pb_part :: part_info
  pb_profile :: "(nat \<times> bytes) option"
  pb_parent :: "(nat \<times> bytes) option"
  pb_commentsAllowed :: "bool option"
  pb_data :: bytes
  pb_text :: "js_string option"

section \<open>Version 1\<close>

definition readMultipart :: "bytes \<Rightarrow> part_info res" where
  "readMultipart header =
     andThen (readBigUintBytes header 24 2) (\<lambda>i.
     andThen (readBigUintBytes header 26 2) (\<lambda>c.
     guard (\<not> (c \<le> 0 \<or> i \<ge> c)) (JsError ''Public part index mismatch'')
       (andThen (readBigUintBytes header 28 4) (\<lambda>t.
         Inr \<lparr>streamId = slice 8 24 header, partIndex = i, partCount = c, createdAtSec = t\<rparr>))))"

definition readProfilePointer :: "bytes \<Rightarrow> (nat \<times> bytes) res" where
  "readProfilePointer header =
     guard (length header = PUBLIC_POST_HEADER_BYTES) (JsError ''Public profile pointer header length mismatch'')
       (andThen (readBigUintBytes header 32 4) (\<lambda>v. Inr (v, slice 36 68 header)))"

definition is_text :: "body_kind \<Rightarrow> bool" where
  "is_text k \<longleftrightarrow> k = POST \<or> k = COMMENT"

text \<open>
  The branches of \<open>readPublicBodyBytes\<close>: those with a profile pointer (posts and the avatar) and
  those with a parent (comments); each checks the header length, the media format and the flags, in
  this order, and only the messages of the three errors differ from kind to kind.
\<close>

definition read_post_branch :: "body_kind \<Rightarrow> byte \<Rightarrow> byte \<Rightarrow> bytes \<Rightarrow> bytes \<Rightarrow> public_body res" where
  "read_post_branch kind media allowedFlags header data =
     guard (length header = PUBLIC_POST_HEADER_BYTES) (JsError ''Public post header length mismatch'')
       (let flags = header ! 6; mediaFormat = header ! 7 in
        guard (mediaFormat = media) (JsError ''Unsupported public post media format'')
          (guard (and flags (not allowedFlags) = 0) (JsError ''Unsupported public post body flags'')
            (andThen (readMultipart header) (\<lambda>part.
             andThen (readProfilePointer header) (\<lambda>profile.
              Inr \<lparr>pb_kind = kind, pb_flags = flags, pb_mediaFormat = mediaFormat, pb_part = part,
                   pb_profile = Some profile, pb_parent = None,
                   pb_commentsAllowed = (if kind = AVATAR then None else Some (and flags COMMENTS_DISABLED = 0)),
                   pb_data = data, pb_text = (if is_text kind then Some (utf8_decode data) else None)\<rparr>)))))"

definition read_comment_branch :: "body_kind \<Rightarrow> byte \<Rightarrow> bytes \<Rightarrow> bytes \<Rightarrow> public_body res" where
  "read_comment_branch kind media header data =
     guard (length header = PUBLIC_COMMENT_HEADER_BYTES) (JsError ''Public comment header length mismatch'')
       (let flags = header ! 6; mediaFormat = header ! 7 in
        guard (mediaFormat = media) (JsError ''Unsupported public comment media format'')
          (guard (flags = 0) (JsError ''Unsupported public comment body flags'')
            (andThen (readMultipart header) (\<lambda>part.
             andThen (readBigUintBytes header 32 8) (\<lambda>parentEntryId.
              Inr \<lparr>pb_kind = kind, pb_flags = flags, pb_mediaFormat = mediaFormat, pb_part = part,
                   pb_profile = None, pb_parent = Some (parentEntryId, slice 40 72 header),
                   pb_commentsAllowed = None, pb_data = data,
                   pb_text = (if is_text kind then Some (utf8_decode data) else None)\<rparr>)))))"

definition readPublicBodyBytes :: "bytes \<Rightarrow> bytes \<Rightarrow> public_body res" where
  "readPublicBodyBytes header data =
     guard (slice 0 4 header = PUBLIC_HEADER_MAGIC) (JsError ''Unsupported public header magic'')
       (guard (byte_at header 4 = Some PUBLIC_BODY_VERSION) (JsError ''Unsupported public header version'')
         (case Option.bind (byte_at header 5) kind_of_byte of
            Some POST \<Rightarrow> read_post_branch POST MEDIA_NONE COMMENTS_DISABLED header data
          | Some COMMENT \<Rightarrow> read_comment_branch COMMENT MEDIA_NONE header data
          | Some IMAGE_POST \<Rightarrow> read_post_branch IMAGE_POST MEDIA_WEBP COMMENTS_DISABLED header data
          | Some DOCUMENT_POST \<Rightarrow> read_post_branch DOCUMENT_POST MEDIA_NONE COMMENTS_DISABLED header data
          | Some IMAGE_COMMENT \<Rightarrow> read_comment_branch IMAGE_COMMENT MEDIA_WEBP header data
          | Some DOCUMENT_COMMENT \<Rightarrow> read_comment_branch DOCUMENT_COMMENT MEDIA_NONE header data
          | Some AVATAR \<Rightarrow> read_post_branch AVATAR MEDIA_WEBP 0 header data
          | None \<Rightarrow> Inl (JsError ''Unsupported public body kind'')))"

section \<open>Version 2\<close>

definition is_post_kind :: "body_kind \<Rightarrow> bool" where
  "is_post_kind k \<longleftrightarrow> k = POST \<or> k = IMAGE_POST \<or> k = DOCUMENT_POST"

definition is_media_kind :: "body_kind \<Rightarrow> bool" where
  "is_media_kind k \<longleftrightarrow> k = IMAGE_POST \<or> k = IMAGE_COMMENT \<or> k = AVATAR"

definition publicHeaderBytesV2 :: "(js_string \<Rightarrow> js_num) \<Rightarrow> bytes \<Rightarrow> public_input \<Rightarrow> bytes res" where
  "publicHeaderBytesV2 dateParse random input =
    (let kind = publicPayloadKind input in
     andThen (publicStreamIdBytes random input) (\<lambda>streamId.
     andThen (publicPartNumber (or_default (i_partIndex input) 0)) (\<lambda>partIndex.
     andThen (publicPartNumber (or_default (i_partCount input) 1)) (\<lambda>partCount.
     guard (\<not> (partCount \<le> 0 \<or> partIndex \<ge> partCount)) (RangeError ''public part index mismatch'')
     (andThen (publicCreatedAtSeconds dateParse input) (\<lambda>createdAtSec.
      (let mediaFormat = (if is_media_kind kind then (if kind = AVATAR then MEDIA_WEBP else toUint8 (media_value input))
             else MEDIA_NONE);
           flags = (if is_post_kind kind \<and> \<not> publicCommentsAllowed input then COMMENTS_DISABLED else 0) in
       andThen (public_part_bytes streamId partIndex partCount createdAtSec) (\<lambda>partBytes.
         Inr (PUBLIC_HEADER_MAGIC_V2 @ [PUBLIC_HEADER_VERSION_V2, kind_byte kind, flags, mediaFormat] @ partBytes)))))))))"

definition readPublicBodyBytesV2 :: "bytes \<Rightarrow> bytes \<Rightarrow> public_body res" where
  "readPublicBodyBytesV2 header data =
     guard (length header = PUBLIC_HEADER_BYTES_V2) (JsError ''Public header length mismatch'')
     (guard (slice 0 4 header = PUBLIC_HEADER_MAGIC_V2) (JsError ''Unsupported public header magic'')
      (guard (header ! 4 = PUBLIC_HEADER_VERSION_V2) (JsError ''Unsupported public header version'')
       (let flags = header ! 6; mediaFormat = header ! 7 in
        case kind_of_byte (header ! 5) of
          None \<Rightarrow> Inl (JsError ''Unsupported public body kind'')
        | Some kind \<Rightarrow>
            guard (mediaFormat = (if is_media_kind kind then MEDIA_WEBP else MEDIA_NONE))
              (JsError ''Unsupported public media format'')
            (guard (if is_post_kind kind then and flags (not COMMENTS_DISABLED) = 0 else flags = 0)
              (JsError ''Unsupported public body flags'')
             (andThen (readMultipart header) (\<lambda>part.
               Inr \<lparr>pb_kind = kind, pb_flags = flags, pb_mediaFormat = mediaFormat, pb_part = part,
                    pb_profile = None, pb_parent = None,
                    pb_commentsAllowed = (if is_post_kind kind then Some (and flags COMMENTS_DISABLED = 0) else None),
                    pb_data = data,
                    pb_text = (if is_text kind then Some (utf8_decode data) else None)\<rparr>))))))"

section \<open>The lenient reader\<close>

record part_header_info =
  hi_kind :: byte
  hi_streamId :: bytes
  hi_partIndex :: nat
  hi_partCount :: nat

definition part_header_of_bytes :: "bytes \<Rightarrow> part_header_info option" where
  "part_header_of_bytes header =
     (if length header < 28 then None
      else
        (let magic = slice 0 4 header; version = header ! 4;
             isV1 = (magic = PUBLIC_HEADER_MAGIC \<and> version = PUBLIC_BODY_VERSION);
             isV2 = (magic = PUBLIC_HEADER_MAGIC_V2 \<and> version = PUBLIC_HEADER_VERSION_V2) in
         if \<not> isV1 \<and> \<not> isV2 then None
         else
           (case andThen (readBigUintBytes header 24 2) (\<lambda>i. andThen (readBigUintBytes header 26 2) (\<lambda>c. Inr (i, c))) of
              Inl e \<Rightarrow> None
            | Inr (i, c) \<Rightarrow>
                if c \<le> 0 \<or> i \<ge> c then None
                else Some \<lparr>hi_kind = header ! 5, hi_streamId = slice 8 24 header,
                           hi_partIndex = i, hi_partCount = c\<rparr>)))"

text \<open>On a cell of a store; every throw is caught and answered with null.\<close>

definition readPublicPartHeaderInfo :: "heap \<Rightarrow> addr \<Rightarrow> part_header_info option option" where
  "readPublicPartHeaderInfo h a =
     map_option (\<lambda>r. case r of Inl e \<Rightarrow> None | Inr header \<Rightarrow> part_header_of_bytes header)
       (readSnakeCellBytes h a PUBLIC_COMMENT_HEADER_BYTES)"

section \<open>Fields of a written header\<close>

lemma readBigUintBytes_at:
  assumes "bs = xs @ be_bytes n v @ ys" "off = length xs" "v < 256 ^ n"
  shows "readBigUintBytes bs off n = Inr v"
  using assms by (simp add: readBigUintBytes_def slice_def be_value_be_bytes)

lemma bigintToBytes_fits: "v < 2 ^ (n * 8) \<Longrightarrow> 0 < n \<Longrightarrow> bigintToBytes (int v) n = Inr (be_bytes n v)"
  by (simp add: bigintToBytes_def assertUint_ok)

lemma part_bytes_ok:
  assumes "length s = 16" "i < 2 ^ 16" "c < 2 ^ 16" "t < 2 ^ 32"
  shows "public_part_bytes s i c t = Inr (s @ be_bytes 2 i @ be_bytes 2 c @ be_bytes 4 t)"
  using assms by (simp add: public_part_bytes_def bigintToBytes_fits del: be_bytes.simps)

text \<open>The 32 bytes both versions begin with.\<close>

definition header_prefix :: "bytes \<Rightarrow> byte \<Rightarrow> byte \<Rightarrow> byte \<Rightarrow> byte \<Rightarrow> part_info \<Rightarrow> bytes" where
  "header_prefix magic version kind flags media p =
     magic @ [version, kind, flags, media] @ streamId p @ be_bytes 2 (partIndex p) @ be_bytes 2 (partCount p)
       @ be_bytes 4 (createdAtSec p)"

definition part_ok :: "part_info \<Rightarrow> bool" where
  "part_ok p \<longleftrightarrow> length (streamId p) = 16 \<and> partIndex p < partCount p \<and> partCount p < 2 ^ 16
     \<and> createdAtSec p < 2 ^ 32"

lemma length_header_prefix [simp]:
  "length magic = 4 \<Longrightarrow> length (streamId p) = 16 \<Longrightarrow> length (header_prefix magic v k f m p) = 32"
  by (simp add: header_prefix_def)

lemma header_prefix_read:
  assumes "length magic = 4" "part_ok p" "header = header_prefix magic v k f m p @ rest"
  shows "slice 0 4 header = magic" "header ! 4 = v" "header ! 5 = k" "header ! 6 = f" "header ! 7 = m"
    "slice 8 24 header = streamId p" "readMultipart header = Inr p"
    "readBigUintBytes header 24 2 = Inr (partIndex p)" "readBigUintBytes header 26 2 = Inr (partCount p)"
proof -
  let ?h8 = "magic @ [v, k, f, m]"
  have p4: "partIndex p < partCount p" using assms(2) by (simp add: part_ok_def)
  have p2: "partCount p < 256 ^ 2" using assms(2) by (simp add: part_ok_def)
  have len: "length (streamId p) = 16" using assms(2) by (simp add: part_ok_def)
  have p3: "createdAtSec p < 256 ^ 4" using assms(2) by (simp add: part_ok_def)
  note p = less_trans [OF p4 p2] p2 p3 p4
  have h: "header = ?h8 @ streamId p @ be_bytes 2 (partIndex p) @ be_bytes 2 (partCount p) @ be_bytes 4 (createdAtSec p) @ rest"
    by (simp add: assms(3) header_prefix_def del: be_bytes.simps)
  show "slice 0 4 header = magic" using assms(1) by (simp add: h slice_def)
  show "header ! 4 = v" "header ! 5 = k" "header ! 6 = f" "header ! 7 = m"
    using assms(1) by (simp_all add: h nth_append)
  show s: "slice 8 24 header = streamId p" using assms(1) len by (simp add: h slice_def)
  show i: "readBigUintBytes header 24 2 = Inr (partIndex p)"
    by (rule readBigUintBytes_at [of _ "?h8 @ streamId p" _ _ "be_bytes 2 (partCount p) @ be_bytes 4 (createdAtSec p) @ rest"])
      (use p(1) in \<open>simp_all add: h assms(1) len del: be_bytes.simps\<close>)
  show c: "readBigUintBytes header 26 2 = Inr (partCount p)"
    by (rule readBigUintBytes_at [of _ "?h8 @ streamId p @ be_bytes 2 (partIndex p)" _ _ "be_bytes 4 (createdAtSec p) @ rest"])
      (use p(2) in \<open>simp_all add: h assms(1) len del: be_bytes.simps\<close>)
  have t: "readBigUintBytes header 28 4 = Inr (createdAtSec p)"
    by (rule readBigUintBytes_at [of _ "?h8 @ streamId p @ be_bytes 2 (partIndex p) @ be_bytes 2 (partCount p)" _ _ rest])
      (use p(3) in \<open>simp_all add: h assms(1) len del: be_bytes.simps\<close>)
  show "readMultipart header = Inr p"
    using p(4) by (simp add: readMultipart_def i c t s)
qed

section \<open>What the writers write\<close>

lemma streamId_length:
  "publicStreamIdBytes random input = Inr s \<Longrightarrow> length random = 16 \<Longrightarrow> length s = 16"
  by (auto simp: publicStreamIdBytes_def assertBytes_def hexToBytes_trimmed_def Let_def res_simps ascii_lower_def
      split: stream_value.splits if_splits)

lemma createdAt_less: "publicCreatedAtSeconds dateParse input = Inr t \<Longrightarrow> t < 2 ^ 32"
  by (auto simp: publicCreatedAtSeconds_def seconds_of_ms_def assertUint_Inr nat_less_iff res_simps
      split: option.splits js_num.splits if_splits)

text \<open>The multipart fields of an input, where the writers accept them.\<close>

definition input_part :: "(js_string \<Rightarrow> js_num) \<Rightarrow> bytes \<Rightarrow> public_input \<Rightarrow> part_info res" where
  "input_part dateParse random input =
     andThen (publicStreamIdBytes random input) (\<lambda>s.
     andThen (publicPartNumber (or_default (i_partIndex input) 0)) (\<lambda>i.
     andThen (publicPartNumber (or_default (i_partCount input) 1)) (\<lambda>c.
     andThen (publicCreatedAtSeconds dateParse input) (\<lambda>t.
     guard (i < c) (RangeError ''public part index mismatch'')
       (Inr \<lparr>streamId = s, partIndex = i, partCount = c, createdAtSec = t\<rparr>)))))"

lemma input_part_ok: "input_part dateParse random input = Inr p \<Longrightarrow> length random = 16 \<Longrightarrow> part_ok p"
  using streamId_length createdAt_less
  by (fastforce simp: input_part_def part_ok_def publicPartNumber_def assertUint_Inr nat_less_iff res_simps)

lemma write_part:
  "part_ok p \<Longrightarrow> public_part_bytes (streamId p) (partIndex p) (partCount p) (createdAtSec p)
     = Inr (streamId p @ be_bytes 2 (partIndex p) @ be_bytes 2 (partCount p) @ be_bytes 4 (createdAtSec p))"
  by (rule part_bytes_ok) (auto simp: part_ok_def)

definition flags_of :: "public_input \<Rightarrow> byte" where
  "flags_of input = (if is_post_kind (publicPayloadKind input) \<and> \<not> publicCommentsAllowed input then COMMENTS_DISABLED else 0)"

definition media_of :: "public_input \<Rightarrow> byte" where
  "media_of input = (if publicPayloadKind input = AVATAR then MEDIA_WEBP
     else if is_media_kind (publicPayloadKind input) then toUint8 (media_value input) else MEDIA_NONE)"

lemma publicHeaderBytesV2_Inr:
  assumes "length random = 16"
  shows "publicHeaderBytesV2 dateParse random input = Inr header \<longleftrightarrow>
    (\<exists>p. input_part dateParse random input = Inr p
      \<and> header = header_prefix PUBLIC_HEADER_MAGIC_V2 PUBLIC_HEADER_VERSION_V2 (kind_byte (publicPayloadKind input))
          (flags_of input) (media_of input) p)" (is "?l \<longleftrightarrow> ?r")
proof -
  have pb: "public_part_bytes s i c t = Inr b \<longleftrightarrow> b = s @ be_bytes 2 i @ be_bytes 2 c @ be_bytes 4 t"
    if "input_part dateParse random input = Inr \<lparr>streamId = s, partIndex = i, partCount = c, createdAtSec = t\<rparr>" for s i c t b
    using write_part [OF input_part_ok [OF that assms]] by (auto simp del: be_bytes.simps)
  have m: "(if is_media_kind k then if k = AVATAR then MEDIA_WEBP else x else MEDIA_NONE)
      = (if k = AVATAR then MEDIA_WEBP else if is_media_kind k then x else MEDIA_NONE)" for k x
    by (simp add: is_media_kind_def)
  show ?thesis
  proof
    assume ?l
    then obtain s i c t b where *: "publicStreamIdBytes random input = Inr s"
        "publicPartNumber (or_default (i_partIndex input) 0) = Inr i"
        "publicPartNumber (or_default (i_partCount input) 1) = Inr c" "\<not> (c \<le> 0 \<or> i \<ge> c)"
        "publicCreatedAtSeconds dateParse input = Inr t" "public_part_bytes s i c t = Inr b"
        "header = PUBLIC_HEADER_MAGIC_V2 @ [PUBLIC_HEADER_VERSION_V2, kind_byte (publicPayloadKind input), flags_of input,
            media_of input] @ b"
      unfolding publicHeaderBytesV2_def Let_def res_simps flags_of_def media_of_def m by blast
    then have ip: "input_part dateParse random input = Inr \<lparr>streamId = s, partIndex = i, partCount = c, createdAtSec = t\<rparr>"
      by (simp add: input_part_def)
    show ?r using * pb [OF ip] ip by (auto simp: header_prefix_def simp del: be_bytes.simps)
  next
    assume ?r
    then obtain p where p: "input_part dateParse random input = Inr p"
        "header = header_prefix PUBLIC_HEADER_MAGIC_V2 PUBLIC_HEADER_VERSION_V2 (kind_byte (publicPayloadKind input))
          (flags_of input) (media_of input) p" by blast
    then obtain s i c t where *: "publicStreamIdBytes random input = Inr s"
        "publicPartNumber (or_default (i_partIndex input) 0) = Inr i"
        "publicPartNumber (or_default (i_partCount input) 1) = Inr c" "i < c"
        "publicCreatedAtSeconds dateParse input = Inr t" "p = \<lparr>streamId = s, partIndex = i, partCount = c, createdAtSec = t\<rparr>"
      by (auto simp: input_part_def res_simps)
    then have "public_part_bytes s i c t = Inr (s @ be_bytes 2 i @ be_bytes 2 c @ be_bytes 4 t)"
      using pb [of s i c t] p by blast
    with * p(2) show ?l
      unfolding publicHeaderBytesV2_def Let_def m flags_of_def media_of_def header_prefix_def
      by (simp del: be_bytes.simps)
  qed
qed

lemma comments_flag: "and COMMENTS_DISABLED (not COMMENTS_DISABLED) = 0" "and COMMENTS_DISABLED COMMENTS_DISABLED \<noteq> 0"
  "and 0 x = (0 :: byte)" "COMMENTS_DISABLED \<noteq> 0" "MEDIA_WEBP \<noteq> MEDIA_NONE"
  by (simp_all add: COMMENTS_DISABLED_def MEDIA_WEBP_def MEDIA_NONE_def)

lemma public_header_v2_roundtrip_aux:
  assumes "publicHeaderBytesV2 dateParse random input = Inr header" "length random = 16"
    and "is_media_kind (publicPayloadKind input) \<longrightarrow> media_of input = MEDIA_WEBP"
  shows "\<exists>b p. readPublicBodyBytesV2 header data = Inr b \<and> input_part dateParse random input = Inr p
    \<and> pb_kind b = publicPayloadKind input \<and> pb_part b = p \<and> pb_data b = data
    \<and> pb_commentsAllowed b = (if is_post_kind (publicPayloadKind input) then Some (publicCommentsAllowed input) else None)"
proof -
  obtain p where p: "input_part dateParse random input = Inr p"
      "header = header_prefix PUBLIC_HEADER_MAGIC_V2 PUBLIC_HEADER_VERSION_V2 (kind_byte (publicPayloadKind input))
          (flags_of input) (media_of input) p @ []"
    using publicHeaderBytesV2_Inr [OF assms(2)] assms(1) by auto
  have ok: "part_ok p" using input_part_ok p(1) assms(2) by blast
  note r = header_prefix_read [OF _ ok p(2)]
  have m4: "length PUBLIC_HEADER_MAGIC_V2 = 4" by (simp add: PUBLIC_HEADER_MAGIC_V2_def)
  have len: "length header = PUBLIC_HEADER_BYTES_V2"
    using ok m4 by (simp add: p(2) part_ok_def PUBLIC_HEADER_BYTES_V2_def)
  have media: "media_of input = (if is_media_kind (publicPayloadKind input) then MEDIA_WEBP else MEDIA_NONE)"
    using assms(3) by (auto simp: media_of_def is_media_kind_def)
  have flags: "if is_post_kind (publicPayloadKind input) then and (flags_of input) (not COMMENTS_DISABLED) = 0 else flags_of input = 0"
    "is_post_kind (publicPayloadKind input) \<Longrightarrow> (and (flags_of input) COMMENTS_DISABLED = 0) = publicCommentsAllowed input"
    by (simp_all add: flags_of_def comments_flag)
  have "readPublicBodyBytesV2 header data = Inr
      \<lparr>pb_kind = publicPayloadKind input, pb_flags = flags_of input, pb_mediaFormat = media_of input, pb_part = p,
       pb_profile = None, pb_parent = None,
       pb_commentsAllowed = (if is_post_kind (publicPayloadKind input)
          then Some (and (flags_of input) COMMENTS_DISABLED = 0) else None), pb_data = data,
       pb_text = (if is_text (publicPayloadKind input) then Some (utf8_decode data) else None)\<rparr>"
    unfolding readPublicBodyBytesV2_def Let_def r [OF m4] len kind_of_byte_kind_byte media
    using flags(1) by simp
  with p(1) flags(2) show ?thesis by simp
qed

text \<open>
  The version 2 header survives the trip. Whatever input the writer accepts (its media format being
  the one the reader supports), the reader returns the kind, the multipart fields, the time and the
  comments switch of the input, with the body it was given.
\<close>

theorem public_header_v2_roundtrip:
  assumes "publicHeaderBytesV2 dateParse random input = Inr header" "length random = 16"
    and "is_media_kind (publicPayloadKind input) \<longrightarrow> media_of input = MEDIA_WEBP"
  shows "\<exists>b p. readPublicBodyBytesV2 header data = Inr b \<and> input_part dateParse random input = Inr p
    \<and> pb_kind b = publicPayloadKind input \<and> pb_part b = p \<and> pb_data b = data
    \<and> pb_commentsAllowed b = (if is_post_kind (publicPayloadKind input) then Some (publicCommentsAllowed input) else None)"
  using public_header_v2_roundtrip_aux [OF assms] .

lemma header_consts [simp]:
  "length PUBLIC_HEADER_MAGIC = 4" "length PUBLIC_HEADER_MAGIC_V2 = 4"
  by (simp_all add: PUBLIC_HEADER_MAGIC_def PUBLIC_HEADER_MAGIC_V2_def)

text \<open>A header that starts with the fields read from it.\<close>

lemma readMultipart_Inr:
  assumes "readMultipart header = Inr p" "32 \<le> length header"
  shows "part_ok p \<and> slice 8 32 header = streamId p @ be_bytes 2 (partIndex p) @ be_bytes 2 (partCount p) @ be_bytes 4 (createdAtSec p)"
proof -
  have p: "p = \<lparr>streamId = slice 8 24 header, partIndex = be_value (slice 24 26 header),
      partCount = be_value (slice 26 28 header), createdAtSec = be_value (slice 28 32 header)\<rparr>"
    "be_value (slice 24 26 header) < be_value (slice 26 28 header)"
    using assms(1) by (auto simp: readMultipart_def readBigUintBytes_def res_simps)
  have b: "be_bytes n (be_value s) = s" if "length s = n" for s n
    using that be_bytes_be_value by blast
  have "be_value (slice 26 28 header) < 256 ^ 2" "be_value (slice 28 32 header) < 256 ^ 4"
    using be_value_less [of "slice 26 28 header"] be_value_less [of "slice 28 32 header"] assms(2) by simp_all
  with p have "part_ok p" using assms(2) by (simp add: part_ok_def)
  moreover have "slice 8 32 header = slice 8 24 header @ slice 24 26 header @ slice 26 28 header @ slice 28 32 header"
    by (simp add: slice_cat)
  ultimately show ?thesis
    unfolding p using assms(2) b [of "slice 24 26 header" 2] b [of "slice 26 28 header" 2] b [of "slice 28 32 header" 4]
    by (simp del: be_bytes.simps)
qed

lemma header_prefix_back:
  assumes "readMultipart header = Inr p" "32 \<le> length header" "slice 0 4 header = magic" "header ! 4 = v"
  shows "header = header_prefix magic v (header ! 5) (header ! 6) (header ! 7) p @ drop 32 header"
proof -
  have "header = slice 0 8 header @ slice 8 32 header @ drop 32 header"
    using slice_cat [of 0 8 32 header] append_take_drop_id [of 32 header] by (simp add: slice_def flip: append_assoc)
  then show ?thesis
    using prefix_slices [of header] readMultipart_Inr [OF assms(1,2)] assms(2-4)
    by (simp add: header_prefix_def del: be_bytes.simps)
qed

text \<open>
  C33: The version 2 header has one encoding. A header the reader accepts is the writer's encoding of
  exactly the kind, flags, media format and multipart fields it returns: no two headers are read as
  the same post, so nobody can rewrite the header of a post without changing what is read.
\<close>

theorem public_header_v2_canonical:
  assumes "readPublicBodyBytesV2 header data = Inr b"
  shows "header = header_prefix PUBLIC_HEADER_MAGIC_V2 PUBLIC_HEADER_VERSION_V2 (kind_byte (pb_kind b))
      (pb_flags b) (pb_mediaFormat b) (pb_part b) \<and> part_ok (pb_part b)"
proof -
  obtain kind part where k: "length header = 32" "slice 0 4 header = PUBLIC_HEADER_MAGIC_V2"
      "header ! 4 = PUBLIC_HEADER_VERSION_V2" "kind_of_byte (header ! 5) = Some kind" "readMultipart header = Inr part"
      "pb_kind b = kind" "pb_flags b = header ! 6" "pb_mediaFormat b = header ! 7" "pb_part b = part"
    using assms by (auto simp: readPublicBodyBytesV2_def Let_def res_simps PUBLIC_HEADER_BYTES_V2_def split: option.splits)
  then show ?thesis
    using header_prefix_back [OF k(5) _ k(2,3)] readMultipart_Inr [OF k(5)] kind_of_byte_Some by simp
qed

section \<open>The version 1 trip\<close>

text \<open>What follows the first 32 bytes: a profile pointer, or the parent of a comment.\<close>

definition input_profile :: "public_input \<Rightarrow> (nat \<times> nat) res" where
  "input_profile input =
     andThen (assertUint (or_default (i_profileVersion input) 0) 32) (\<lambda>v.
     andThen (assertUint (or_default (i_avatarHash input) 0) 256) (\<lambda>a. Inr (v, a)))"

definition input_parent :: "public_input \<Rightarrow> (nat \<times> bytes) res" where
  "input_parent input =
     andThen (toBigInt (i_parentEntryId input)) (\<lambda>p.
     andThen (assertUint p 64) (\<lambda>e.
     andThen (publicParentHashBytes (i_parentHash input)) (\<lambda>h. Inr (e, h))))"

definition is_comment_kind :: "body_kind \<Rightarrow> bool" where
  "is_comment_kind k \<longleftrightarrow> k = COMMENT \<or> k = IMAGE_COMMENT \<or> k = DOCUMENT_COMMENT"

lemma profile_bytes:
  "publicProfilePointerBytes input = Inr bs \<longleftrightarrow>
     (\<exists>v a. input_profile input = Inr (v, a) \<and> bs = be_bytes 4 v @ be_bytes 32 a)"
  by (auto simp: publicProfilePointerBytes_def input_profile_def res_simps bigintToBytes_def assertUint_Inr
      simp del: be_bytes.simps)

lemma parentHash_length: "publicParentHashBytes v = Inr h \<Longrightarrow> length h = 32"
  by (auto simp: publicParentHashBytes_def assertBytes_def hexToBytes_trimmed_def bigintToBytes_def Let_def res_simps
      ascii_lower_def split: parent_value.splits)

definition v1_rest :: "public_input \<Rightarrow> bytes \<Rightarrow> bool" where
  "v1_rest input rest \<longleftrightarrow>
     (if is_comment_kind (publicPayloadKind input)
      then \<exists>e h. input_parent input = Inr (e, h) \<and> rest = be_bytes 8 e @ h
      else \<exists>v a. input_profile input = Inr (v, a) \<and> rest = be_bytes 4 v @ be_bytes 32 a)"

lemma publicHeaderBytes_Inr:
  assumes "publicHeaderBytes dateParse random input = Inr header" "length random = 16"
  obtains p rest where "input_part dateParse random input = Inr p" "v1_rest input rest"
    "header = header_prefix PUBLIC_HEADER_MAGIC PUBLIC_BODY_VERSION (kind_byte (publicPayloadKind input))
        (flags_of input) (media_of input) p @ rest"
proof -
  let ?k = "publicPayloadKind input"
  obtain s i c t b w where a: "publicStreamIdBytes random input = Inr s"
      "publicPartNumber (or_default (i_partIndex input) 0) = Inr i"
      "publicPartNumber (or_default (i_partCount input) 1) = Inr c"
      "publicCreatedAtSeconds dateParse input = Inr t" "i < c"
      "public_part_bytes s i c t = Inr b" "publicProfilePointerBytes input = Inr w"
    and tail: "(if ?k = POST then
          Inr (PUBLIC_HEADER_MAGIC @ [PUBLIC_BODY_VERSION, kind_byte POST, public_flags input, MEDIA_NONE] @ b @ w)
        else if ?k = IMAGE_POST then
          Inr (PUBLIC_HEADER_MAGIC @ [PUBLIC_BODY_VERSION, kind_byte IMAGE_POST, public_flags input,
              if is_image ?k then toUint8 (media_value input) else MEDIA_NONE] @ b @ w)
        else if ?k = DOCUMENT_POST then
          Inr (PUBLIC_HEADER_MAGIC @ [PUBLIC_BODY_VERSION, kind_byte DOCUMENT_POST, public_flags input, MEDIA_NONE] @ b @ w)
        else if ?k = AVATAR then
          Inr (PUBLIC_HEADER_MAGIC @ [PUBLIC_BODY_VERSION, kind_byte AVATAR, 0,
              if (if is_image ?k then toUint8 (media_value input) else MEDIA_NONE) \<noteq> 0
              then (if is_image ?k then toUint8 (media_value input) else MEDIA_NONE) else MEDIA_WEBP] @ b @ w)
        else
          andThen (toBigInt (i_parentEntryId input)) (\<lambda>p.
          andThen (bigintToBytes p 8) (\<lambda>e.
          andThen (publicParentHashBytes (i_parentHash input)) (\<lambda>h.
            Inr (PUBLIC_HEADER_MAGIC @ [PUBLIC_BODY_VERSION, kind_byte (if ?k = IMAGE_COMMENT then IMAGE_COMMENT
                  else if is_document ?k then DOCUMENT_COMMENT else COMMENT), 0,
                  if is_image ?k then toUint8 (media_value input) else MEDIA_NONE]
              @ b @ e @ h))))) = (Inr header :: bytes res)"
    using assms(1) unfolding publicHeaderBytes_def Let_def res_simps(1,3) not_le de_Morgan_disj by blast
  let ?p = "\<lparr>streamId = s, partIndex = i, partCount = c, createdAtSec = t\<rparr>"
  have ip: "input_part dateParse random input = Inr ?p" using a by (simp add: input_part_def)
  have b: "b = s @ be_bytes 2 i @ be_bytes 2 c @ be_bytes 4 t"
    using write_part [OF input_part_ok [OF ip assms(2)]] a(6) by (simp del: be_bytes.simps)
  define f where "f = flags_of input" define m where "m = media_of input"
  have "\<exists>rest. v1_rest input rest \<and> header = PUBLIC_HEADER_MAGIC @ [PUBLIC_BODY_VERSION, kind_byte ?k, f, m] @ b @ rest"
  proof (cases "is_comment_kind ?k")
    case False
    then have "header = PUBLIC_HEADER_MAGIC @ [PUBLIC_BODY_VERSION, kind_byte ?k, f, m] @ b @ w"
      using tail by (cases ?k) (auto simp: is_comment_kind_def f_def m_def flags_of_def media_of_def public_flags_def
          is_post_kind_def is_media_kind_def is_image_def MEDIA_NONE_def)
    with False a(7) profile_bytes show ?thesis by (auto simp: v1_rest_def)
  next
    case True
    then obtain q e h where q: "toBigInt (i_parentEntryId input) = Inr q" "bigintToBytes q 8 = Inr e"
        "publicParentHashBytes (i_parentHash input) = Inr h"
        "header = PUBLIC_HEADER_MAGIC @ [PUBLIC_BODY_VERSION, kind_byte ?k, f, m] @ b @ e @ h"
      using tail by (cases ?k) (auto simp: is_comment_kind_def f_def m_def flags_of_def media_of_def
          is_post_kind_def is_media_kind_def is_image_def is_document_def res_simps)
    then obtain n where "assertUint q 64 = Inr n" "e = be_bytes 8 n"
      by (auto simp: bigintToBytes_def res_simps)
    with q True show ?thesis by (auto simp: v1_rest_def input_parent_def)
  qed
  then show thesis using that [OF ip] b by (auto simp: header_prefix_def f_def m_def simp del: be_bytes.simps)
qed

text \<open>
  The version 1 header survives the trip. Whatever input the writer accepts (its media format being
  the one the reader supports), the reader returns the kind, the multipart fields and time, the comments
  switch, and the profile pointer of a post or the parent of a comment.
\<close>

theorem public_header_v1_roundtrip:
  assumes "publicHeaderBytes dateParse random input = Inr header" "length random = 16"
    and "is_media_kind (publicPayloadKind input) \<longrightarrow> media_of input = MEDIA_WEBP"
  shows "\<exists>b. readPublicBodyBytes header data = Inr b \<and> pb_kind b = publicPayloadKind input \<and> pb_data b = data
    \<and> input_part dateParse random input = Inr (pb_part b)
    \<and> (if is_comment_kind (pb_kind b) then map_option Inr (pb_parent b) = Some (input_parent input)
       else (\<exists>v a. input_profile input = Inr (v, a) \<and> pb_profile b = Some (v, be_bytes 32 a)))
    \<and> (is_post_kind (pb_kind b) \<longrightarrow> pb_commentsAllowed b = Some (publicCommentsAllowed input))"
proof -
  let ?k = "publicPayloadKind input"
  obtain p rest where ip: "input_part dateParse random input = Inr p" and rest: "v1_rest input rest"
    and h: "header = header_prefix PUBLIC_HEADER_MAGIC PUBLIC_BODY_VERSION (kind_byte ?k) (flags_of input) (media_of input) p @ rest"
    using publicHeaderBytes_Inr [OF assms(1,2)] by metis
  have ok: "part_ok p" using input_part_ok ip assms(2) by blast
  note r = header_prefix_read [OF header_consts(1) ok h]
  let ?pre = "header_prefix PUBLIC_HEADER_MAGIC PUBLIC_BODY_VERSION (kind_byte ?k) (flags_of input) (media_of input) p"
  have l32: "length ?pre = 32" using ok by (simp add: part_ok_def)
  have at: "byte_at header 4 = Some PUBLIC_BODY_VERSION" "byte_at header 5 = Some (kind_byte ?k)"
    using r(2,3) l32 by (simp_all add: byte_at_def h)
  have media: "media_of input = (if is_media_kind ?k then MEDIA_WEBP else MEDIA_NONE)"
    using assms(3) by (auto simp: media_of_def is_media_kind_def)
  have flags: "is_post_kind ?k \<Longrightarrow> and (flags_of input) (not COMMENTS_DISABLED) = 0"
    "\<not> is_post_kind ?k \<Longrightarrow> flags_of input = 0"
    "is_post_kind ?k \<Longrightarrow> (and (flags_of input) COMMENTS_DISABLED = 0) = publicCommentsAllowed input"
    by (simp_all add: flags_of_def comments_flag)
  show ?thesis
  proof (cases "is_comment_kind ?k")
    case True
    then obtain e hash where e: "input_parent input = Inr (e, hash)" "rest = be_bytes 8 e @ hash"
      using rest by (auto simp: v1_rest_def)
    then have hl: "length hash = 32" "e < 256 ^ 8"
      using parentHash_length by (auto simp: input_parent_def res_simps assertUint_Inr nat_less_iff)
    have re: "readBigUintBytes header 32 8 = Inr e"
      by (rule readBigUintBytes_at [of _ ?pre _ _ hash]) (use l32 hl in \<open>simp_all add: h e(2) del: be_bytes.simps\<close>)
    have len: "length header = PUBLIC_COMMENT_HEADER_BYTES" "slice 40 72 header = hash"
      using l32 hl(1) by (simp_all add: h e(2) PUBLIC_COMMENT_HEADER_BYTES_def slice_def del: be_bytes.simps)
    have "read_comment_branch ?k (if is_media_kind ?k then MEDIA_WEBP else MEDIA_NONE) header data = Inr
        \<lparr>pb_kind = ?k, pb_flags = 0, pb_mediaFormat = media_of input, pb_part = p, pb_profile = None,
         pb_parent = Some (e, hash), pb_commentsAllowed = None, pb_data = data,
         pb_text = (if is_text ?k then Some (utf8_decode data) else None)\<rparr>"
      using True flags(2) media
      by (auto simp: read_comment_branch_def Let_def r len re is_comment_kind_def is_post_kind_def)
    moreover have "readPublicBodyBytes header data
        = read_comment_branch ?k (if is_media_kind ?k then MEDIA_WEBP else MEDIA_NONE) header data"
      using True by (auto simp: readPublicBodyBytes_def r at is_comment_kind_def is_media_kind_def
          simp del: kind_byte.simps)
    ultimately show ?thesis using True e ip by (auto simp: is_comment_kind_def is_post_kind_def)
  next
    case False
    then obtain v a where va: "input_profile input = Inr (v, a)" "rest = be_bytes 4 v @ be_bytes 32 a"
      using rest by (auto simp: v1_rest_def)
    then have vl: "v < 256 ^ 4"
      by (auto simp: input_profile_def res_simps assertUint_Inr nat_less_iff)
    have rv: "readBigUintBytes header 32 4 = Inr v"
      by (rule readBigUintBytes_at [of _ ?pre _ _ "be_bytes 32 a"])
        (use l32 vl in \<open>simp_all add: h va(2) del: be_bytes.simps\<close>)
    have len: "length header = PUBLIC_POST_HEADER_BYTES" "slice 36 68 header = be_bytes 32 a"
      using l32 by (simp_all add: h va(2) PUBLIC_POST_HEADER_BYTES_def slice_def del: be_bytes.simps)
    have "read_post_branch ?k (if is_media_kind ?k then MEDIA_WEBP else MEDIA_NONE)
         (if is_post_kind ?k then COMMENTS_DISABLED else 0) header data = Inr
        \<lparr>pb_kind = ?k, pb_flags = flags_of input, pb_mediaFormat = media_of input, pb_part = p,
         pb_profile = Some (v, be_bytes 32 a), pb_parent = None,
         pb_commentsAllowed = (if ?k = AVATAR then None else Some (and (flags_of input) COMMENTS_DISABLED = 0)),
         pb_data = data, pb_text = (if is_text ?k then Some (utf8_decode data) else None)\<rparr>"
      using flags(1,2) media
      by (auto simp: read_post_branch_def Let_def r len readProfilePointer_def rv simp del: be_bytes.simps)
    moreover have "readPublicBodyBytes header data
        = read_post_branch ?k (if is_media_kind ?k then MEDIA_WEBP else MEDIA_NONE)
           (if is_post_kind ?k then COMMENTS_DISABLED else 0) header data"
      using False by (cases ?k) (simp_all add: readPublicBodyBytes_def r at is_comment_kind_def is_media_kind_def
          is_post_kind_def del: kind_byte.simps)
    ultimately show ?thesis using False va ip flags(3) by (auto simp: is_comment_kind_def is_post_kind_def simp del: be_bytes.simps)
  qed
qed

section \<open>The lenient reader agrees\<close>

text \<open>
  Parts are grouped by what they are. Where a header is accepted by the reader of either version,
  \<open>readPublicPartHeaderInfo\<close> sees the same kind, stream, part index and part count, so a stream
  assembled from the lenient view consists of the parts the strict readers return.
\<close>

theorem part_header_info_agrees:
  assumes "readPublicBodyBytes header data = Inr b \<or> readPublicBodyBytesV2 header data = Inr b"
  shows "part_header_of_bytes header = Some \<lparr>hi_kind = kind_byte (pb_kind b), hi_streamId = streamId (pb_part b),
    hi_partIndex = partIndex (pb_part b), hi_partCount = partCount (pb_part b)\<rparr>"
proof -
  have multi: "part_header_of_bytes header = Some \<lparr>hi_kind = header ! 5, hi_streamId = streamId p,
      hi_partIndex = partIndex p, hi_partCount = partCount p\<rparr>"
    if "readMultipart header = Inr p" "28 \<le> length header"
      "slice 0 4 header = PUBLIC_HEADER_MAGIC \<and> header ! 4 = PUBLIC_BODY_VERSION
       \<or> slice 0 4 header = PUBLIC_HEADER_MAGIC_V2 \<and> header ! 4 = PUBLIC_HEADER_VERSION_V2" for p
    using that by (auto simp: part_header_of_bytes_def readMultipart_def res_simps Let_def)
  from assms show ?thesis
  proof
    assume v1: "readPublicBodyBytes header data = Inr b"
    then obtain k where k: "slice 0 4 header = PUBLIC_HEADER_MAGIC" "byte_at header 4 = Some PUBLIC_BODY_VERSION"
        "Option.bind (byte_at header 5) kind_of_byte = Some k"
      by (auto simp: readPublicBodyBytes_def res_simps split: option.splits)
    have "read_post_branch k m f header data = Inr b \<or> read_comment_branch k m header data = Inr b
        \<Longrightarrow> readMultipart header = Inr (pb_part b) \<and> 68 \<le> length header \<and> pb_kind b = k" for m f
      by (auto simp: read_post_branch_def read_comment_branch_def res_simps Let_def PUBLIC_POST_HEADER_BYTES_def
          PUBLIC_COMMENT_HEADER_BYTES_def)
    then have "readMultipart header = Inr (pb_part b) \<and> 68 \<le> length header \<and> pb_kind b = k"
      using v1 k by (cases k) (auto simp: readPublicBodyBytes_def)
    moreover have "header ! 4 = PUBLIC_BODY_VERSION" "header ! 5 = kind_byte k"
      using k(2,3) kind_of_byte_Some by (auto simp: byte_at_def split: if_splits)
    ultimately show ?thesis using multi [of "pb_part b"] k(1) by simp
  next
    assume "readPublicBodyBytesV2 header data = Inr b"
    then obtain k where "length header = 32" "slice 0 4 header = PUBLIC_HEADER_MAGIC_V2"
        "header ! 4 = PUBLIC_HEADER_VERSION_V2" "kind_of_byte (header ! 5) = Some k"
        "readMultipart header = Inr (pb_part b)" "pb_kind b = k"
      by (auto simp: readPublicBodyBytesV2_def Let_def res_simps PUBLIC_HEADER_BYTES_V2_def split: option.splits)
    then show ?thesis using multi [of "pb_part b"] kind_of_byte_Some by simp
  qed
qed

section \<open>Witnesses\<close>

definition sample_public :: public_input where
  "sample_public = \<lparr>i_type = Some (ascii ''image''), i_kind = None, i_streamId = StreamBytes (replicate 16 7),
     i_partIndex = Some 1, i_partCount = Some 3, i_createdAtSec = Some 1700000000, i_createdAtMs = None,
     i_createdAt = None, i_commentsAllowed = Some False, i_comments = None, i_mediaFormat = None,
     i_profileVersion = Some 5, i_avatarHash = Some 77, i_parentEntryId = None, i_parentHash = NoParent,
     i_text = [], i_bytes = Some [1, 2, 3]\<rparr>"

lemma ascii_neq: "ascii ''image'' \<noteq> ascii ''comment''" "ascii ''image'' \<noteq> ascii ''image_comment''"
  "ascii ''image'' \<noteq> ascii ''comment_image''"
  by (simp_all add: ascii_def)

lemma sample_public_kind: "publicPayloadKind sample_public = IMAGE_POST"
proof -
  have "type_name sample_public = ascii ''image''"
    by (simp add: type_name_def sample_public_def ascii_lower_def ascii_def is_upper_def)
  then show ?thesis using ascii_neq by (simp add: publicPayloadKind_def Let_def sample_public_def)
qed

lemma sample_public_part:
  "input_part d r sample_public
     = Inr \<lparr>streamId = replicate 16 7, partIndex = 1, partCount = 3, createdAtSec = 1700000000\<rparr>"
  by (simp add: input_part_def sample_public_def publicStreamIdBytes_def assertBytes_def publicPartNumber_def
      or_default_def assertUint_def publicCreatedAtSeconds_def)

lemma sample_public_media: "media_of sample_public = MEDIA_WEBP"
  unfolding media_of_def sample_public_kind
  by (simp add: is_media_kind_def media_value_def or_default_def sample_public_def toUint8_def js_of_nat_def MEDIA_WEBP_def)

theorem public_header_v2_roundtrip_witness:
  "\<exists>header b. publicHeaderBytesV2 (\<lambda>s. NaN) (replicate 16 0) sample_public = Inr header
    \<and> readPublicBodyBytesV2 header [1, 2, 3] = Inr b \<and> pb_kind b = IMAGE_POST
    \<and> partIndex (pb_part b) = 1 \<and> pb_commentsAllowed b = Some False"
proof -
  obtain header where h: "publicHeaderBytesV2 (\<lambda>s. NaN) (replicate 16 0) sample_public = Inr header"
    using publicHeaderBytesV2_Inr [of "replicate 16 0" "\<lambda>s. NaN" sample_public] sample_public_part by auto
  have "\<not> publicCommentsAllowed sample_public" by (simp add: publicCommentsAllowed_def sample_public_def)
  with public_header_v2_roundtrip [OF h, of "[1, 2, 3]"] h show ?thesis
    by (auto simp: sample_public_kind sample_public_part sample_public_media is_post_kind_def)
qed

lemma sample_public_v1:
  "\<exists>header. publicHeaderBytes (\<lambda>s. NaN) (replicate 16 0) sample_public = Inr header"
  unfolding publicHeaderBytes_def sample_public_kind Let_def
  by (simp add: sample_public_def publicStreamIdBytes_def assertBytes_def publicPartNumber_def or_default_def
      assertUint_def publicCreatedAtSeconds_def publicProfilePointerBytes_def bigintToBytes_def public_part_bytes_def
      del: be_bytes.simps)

theorem public_header_v1_roundtrip_witness:
  "\<exists>header b. publicHeaderBytes (\<lambda>s. NaN) (replicate 16 0) sample_public = Inr header
    \<and> readPublicBodyBytes header [1, 2, 3] = Inr b \<and> pb_kind b = IMAGE_POST
    \<and> pb_profile b = Some (5, be_bytes 32 77)"
proof -
  obtain header where h: "publicHeaderBytes (\<lambda>s. NaN) (replicate 16 0) sample_public = Inr header"
    using sample_public_v1 by auto
  have "input_profile sample_public = Inr (5, 77)"
    by (simp add: input_profile_def sample_public_def or_default_def assertUint_def)
  with public_header_v1_roundtrip [OF h, of "[1, 2, 3]"] h show ?thesis
    by (auto simp: sample_public_kind sample_public_media is_comment_kind_def simp del: be_bytes.simps)
qed

definition sample_header_v2 :: bytes where
  "sample_header_v2 = header_prefix PUBLIC_HEADER_MAGIC_V2 PUBLIC_HEADER_VERSION_V2 2 0 0
     \<lparr>streamId = replicate 16 7, partIndex = 0, partCount = 1, createdAtSec = 9\<rparr>"

lemma sample_header_v2_read:
  "readPublicBodyBytesV2 sample_header_v2 [65] = Inr \<lparr>pb_kind = COMMENT, pb_flags = 0, pb_mediaFormat = 0,
     pb_part = \<lparr>streamId = replicate 16 7, partIndex = 0, partCount = 1, createdAtSec = 9\<rparr>, pb_profile = None,
     pb_parent = None, pb_commentsAllowed = None, pb_data = [65], pb_text = Some (utf8_decode [65])\<rparr>"
proof -
  let ?p = "\<lparr>streamId = replicate 16 7, partIndex = 0, partCount = 1, createdAtSec = 9\<rparr>"
  have ok: "part_ok ?p" by (simp add: part_ok_def)
  have h: "sample_header_v2 = header_prefix PUBLIC_HEADER_MAGIC_V2 PUBLIC_HEADER_VERSION_V2 2 0 0 ?p @ []"
    by (simp add: sample_header_v2_def)
  have "length sample_header_v2 = 32" unfolding sample_header_v2_def by (intro length_header_prefix) simp_all
  then show ?thesis
    using header_prefix_read [OF header_consts(2) ok h]
    by (simp add: readPublicBodyBytesV2_def PUBLIC_HEADER_BYTES_V2_def kind_of_byte_def is_media_kind_def is_post_kind_def
        is_text_def MEDIA_NONE_def)
qed

theorem public_header_v2_canonical_witness:
  "sample_header_v2 = header_prefix PUBLIC_HEADER_MAGIC_V2 PUBLIC_HEADER_VERSION_V2 (kind_byte COMMENT) 0 0
     \<lparr>streamId = replicate 16 7, partIndex = 0, partCount = 1, createdAtSec = 9\<rparr>"
  using public_header_v2_canonical [OF sample_header_v2_read] by simp

theorem part_header_info_agrees_witness:
  "part_header_of_bytes sample_header_v2
     = Some \<lparr>hi_kind = 2, hi_streamId = replicate 16 7, hi_partIndex = 0, hi_partCount = 1\<rparr>"
  using part_header_info_agrees [OF disjI2, OF sample_header_v2_read] by simp

end
