(* ===== verification/Public_Payload.thy ===== *)
theory Public_Payload
  imports Public_Reader
begin

text \<open>
  The on-chain payload of a public post: \<open>createPublicPostPayload\<close>, \<open>createPublicPostPayloadV2\<close>
  and their readers in \<open>web/pwa-contract-transactions.mjs\<close>, with the size classes. A payload carries
  header and body as base64 bags of cells with the hashes of their cells; \<open>sha\<close> is SHA-256.
\<close>

section \<open>Size classes\<close>

definition PUBLIC_SIZE_CLASSES :: "nat list" where
  "PUBLIC_SIZE_CLASSES = [1, 2, 4, 8, 16, 32]"

definition normalizePublicSizeClass :: "int option \<Rightarrow> nat res" where
  "normalizePublicSizeClass value =
     (let sizeClass = or_default value 1 in
      guard (sizeClass \<in> int ` set PUBLIC_SIZE_CLASSES) (RangeError ''must be one of the size classes'')
        (Inr (nat sizeClass)))"

definition publicSizeClassForBodyBytes :: "nat \<Rightarrow> nat res" where
  "publicSizeClassForBodyBytes len =
     (if len = 0 then Inr 1
      else (case find (\<lambda>sizeClass. len \<le> sizeClass * 1024) PUBLIC_SIZE_CLASSES of
              Some sizeClass \<Rightarrow> Inr sizeClass
            | None \<Rightarrow> Inl (RangeError ''public body exceeds the limit'')))"

definition publicUsefulBytesForSizeClass :: "nat \<Rightarrow> nat res" where
  "publicUsefulBytesForSizeClass sizeClass = andThen (normalizePublicSizeClass (Some (int sizeClass))) (\<lambda>c. Inr (c * 1024))"

section \<open>Cells of byte strings\<close>

definition cell_hash :: "(bytes \<Rightarrow> bytes) \<Rightarrow> cell \<Rightarrow> bytes res option" where
  "cell_hash sha t = (let (h, a) = alloc t [] in
     thenF (computeCellHashAndDepth sha (length h) h a Map.empty) (\<lambda>r. Some (Inr (fst (fst r)))))"

definition cell_boc64 :: "cell \<Rightarrow> js_string res option" where
  "cell_boc64 t = thenF (tree_boc t) (\<lambda>boc. Some (Inr (base64Encode boc)))"

definition parseBocBase64 :: "js_string \<Rightarrow> (heap \<times> addr) res" where
  "parseBocBase64 value =
     guard (value \<noteq> []) (TypeError ''BoC must be a non-empty string'') (andThen (base64Decode value) parseBoc)"

definition readSnakeBoc :: "js_string \<Rightarrow> nat \<Rightarrow> bytes res option" where
  "readSnakeBoc value maxBytes =
     thenF (Some (parseBocBase64 value)) (\<lambda>(h, a). readSnakeCellBytes h a maxBytes)"

section \<open>The payload\<close>

record public_payload =
  pp_parsed :: public_body
  pp_bytes :: nat
  pp_sizeClass :: nat
  pp_usefulBytes :: nat
  pp_headerHash :: bytes
  pp_bodyHash :: bytes
  pp_headerBoc :: js_string
  pp_bodyBoc :: js_string

text \<open>The steps both versions share, after the header writer and before the result.\<close>

definition finish_payload ::
    "(bytes \<Rightarrow> bytes) \<Rightarrow> (bytes \<Rightarrow> bytes \<Rightarrow> public_body res) \<Rightarrow> int option \<Rightarrow> nat option \<Rightarrow> bytes \<Rightarrow> bytes
      \<Rightarrow> public_payload res option" where
  "finish_payload sha read givenSizeClass givenMaxBytes headerBytes bodyBytes =
     thenF (Some (case givenSizeClass of Some s \<Rightarrow> normalizePublicSizeClass (Some s)
        | None \<Rightarrow> andThen (publicSizeClassForBodyBytes (length bodyBytes)) (\<lambda>c. normalizePublicSizeClass (Some (int c)))))
      (\<lambda>sizeClass.
     thenF (Some (publicUsefulBytesForSizeClass sizeClass)) (\<lambda>usefulBytes.
     (let maxBytes = or_default givenMaxBytes usefulBytes in
      thenF (Some (guard (\<not> length bodyBytes > maxBytes) (RangeError ''public body exceeds the limit'') (Inr ()))) (\<lambda>_.
      thenF (Some (snakeCellFromBytes headerBytes)) (\<lambda>headerCell.
      thenF (Some (snakeCellFromBytes bodyBytes)) (\<lambda>bodyCell.
      thenF (cell_hash sha headerCell) (\<lambda>headerHash.
      thenF (cell_hash sha bodyCell) (\<lambda>bodyHash.
      thenF (cell_boc64 headerCell) (\<lambda>headerBoc.
      thenF (cell_boc64 bodyCell) (\<lambda>bodyBoc.
      thenF (Some (read headerBytes bodyBytes)) (\<lambda>parsed.
        Some (Inr \<lparr>pp_parsed = parsed, pp_bytes = length bodyBytes, pp_sizeClass = sizeClass,
          pp_usefulBytes = usefulBytes, pp_headerHash = headerHash, pp_bodyHash = bodyHash,
          pp_headerBoc = headerBoc, pp_bodyBoc = bodyBoc\<rparr>))))))))))))"

definition createPublicPostPayload ::
    "(bytes \<Rightarrow> bytes) \<Rightarrow> (js_string \<Rightarrow> js_num) \<Rightarrow> bytes \<Rightarrow> public_input \<Rightarrow> int option \<Rightarrow> nat option
      \<Rightarrow> public_payload res option" where
  "createPublicPostPayload sha dateParse random input givenSizeClass givenMaxBytes =
     thenF (Some (publicHeaderBytes dateParse random input)) (\<lambda>headerBytes.
     thenF (Some (publicBodyBytes input)) (\<lambda>bodyBytes.
       finish_payload sha readPublicBodyBytes givenSizeClass givenMaxBytes headerBytes bodyBytes))"

definition createPublicPostPayloadV2 ::
    "(bytes \<Rightarrow> bytes) \<Rightarrow> (js_string \<Rightarrow> js_num) \<Rightarrow> bytes \<Rightarrow> public_input \<Rightarrow> int option \<Rightarrow> nat option
      \<Rightarrow> public_payload res option" where
  "createPublicPostPayloadV2 sha dateParse random input givenSizeClass givenMaxBytes =
     thenF (Some (publicHeaderBytesV2 dateParse random input)) (\<lambda>headerBytes.
     thenF (Some (publicBodyBytes input)) (\<lambda>bodyBytes.
       finish_payload sha readPublicBodyBytesV2 givenSizeClass givenMaxBytes headerBytes bodyBytes))"

definition readPublicPostPayload :: "js_string \<Rightarrow> js_string \<Rightarrow> nat option \<Rightarrow> public_body res option" where
  "readPublicPostPayload headerPayload bodyPayload maxBytes =
     thenF (readSnakeBoc headerPayload PUBLIC_COMMENT_HEADER_BYTES) (\<lambda>headerBytes.
     thenF (readSnakeBoc bodyPayload (or_default maxBytes PUBLIC_POST_BODY_MAX_BYTES)) (\<lambda>bodyBytes.
       Some (readPublicBodyBytes headerBytes bodyBytes)))"

definition readPublicPostPayloadV2 :: "js_string \<Rightarrow> js_string \<Rightarrow> nat option \<Rightarrow> public_body res option" where
  "readPublicPostPayloadV2 headerPayload bodyPayload maxBytes =
     thenF (readSnakeBoc headerPayload PUBLIC_HEADER_BYTES_V2) (\<lambda>headerBytes.
     thenF (readSnakeBoc bodyPayload (or_default maxBytes PUBLIC_POST_BODY_MAX_BYTES)) (\<lambda>bodyBytes.
       Some (readPublicBodyBytesV2 headerBytes bodyBytes)))"

section \<open>Properties\<close>

lemma snake_boc64:
  assumes "length bytes \<le> 2 ^ 24" "length bytes \<le> maxBytes" "snakeCellFromBytes bytes = Inr c"
  shows "\<exists>s. cell_boc64 c = Some (Inr s) \<and> readSnakeBoc s maxBytes = Some (Inr bytes)"
proof -
  obtain cs where cs0: "snakeCellFromBytes bytes = Inr (snake_of cs)" "concat cs = bytes"
      "\<forall>c \<in> set cs. length c \<le> 127 \<and> c \<noteq> []" "length cs \<le> length bytes"
    by (rule snakeCellFromBytes_spec)
  have "c = snake_of cs" using assms(3) cs0(1) by simp
  note cs = this cs0(2-4)
  have "ok_cell c" "cell_count c \<le> 2 ^ 24" using ok_snake [of cs] cs assms(1) by auto
  then obtain boc h where b: "tree_boc c = Some (Inr boc)" "parseBoc boc = Inr (h, 0)" "denotes h 0 c"
    using tree_boc_roundtrip by blast
  have "readSnakeCellBytes h 0 maxBytes = Some (Inr (concat cs))"
    using cs b(3) assms(2) by (intro readSnake_snake) auto
  moreover have "base64Encode boc \<noteq> []"
  proof
    assume e: "base64Encode boc = []"
    have "boc = []" using base64_roundtrip [of boc] base64_roundtrip [of "[]"]
      unfolding e by (simp add: base64Encode_def sextets_def)
    with b(2) show False by (simp add: parseBoc_def BOC_MAGIC_def slice_def guard_def res_simps Let_def)
  qed
  ultimately show ?thesis
    using b(1,2) cs(2) by (simp add: cell_boc64_def readSnakeBoc_def parseBocBase64_def)
qed

lemma cell_hash_tree: "cell_hash sha t = Some (andThen (tree_hash sha t) (\<lambda>r. Inr (fst r)))"
proof -
  obtain h a where e: "alloc t [] = (h, a)" by (cases "alloc t []")
  have "denotes h a t" using alloc_denotes(1) [of t "[]"] e by simp
  from hash_memo [OF this height_less_heap [OF this], of sha Map.empty] show ?thesis
    by (cases "tree_hash sha t") (auto simp: cell_hash_def e cache_ok_def)
qed

lemma publicBodyBytes_le: "publicBodyBytes input = Inr bs \<Longrightarrow> length bs \<le> 32768"
  by (auto simp: publicBodyBytes_def Let_def res_simps publicTextBytes_def PUBLIC_POST_BODY_MAX_BYTES_def split: if_splits)

lemma finish_payload_Inr:
  assumes "finish_payload sha read gs gm header body = Some (Inr pp)" "length header \<le> 72" "length body \<le> 32768"
  shows "read header body = Inr (pp_parsed pp)"
    "length header \<le> hmax \<Longrightarrow> readSnakeBoc (pp_headerBoc pp) hmax = Some (Inr header)"
    "length body \<le> bmax \<Longrightarrow> readSnakeBoc (pp_bodyBoc pp) bmax = Some (Inr body)"
    "pp_usefulBytes pp = pp_sizeClass pp * 1024" "pp_bytes pp = length body" "pp_sizeClass pp \<in> set PUBLIC_SIZE_CLASSES"
    "gm = None \<Longrightarrow> length body \<le> pp_usefulBytes pp"
proof -
  obtain sc hc bc where *: "publicUsefulBytesForSizeClass sc = Inr (pp_usefulBytes pp)" "pp_sizeClass pp = sc"
      "snakeCellFromBytes header = Inr hc" "snakeCellFromBytes body = Inr bc"
      "cell_boc64 hc = Some (Inr (pp_headerBoc pp))" "cell_boc64 bc = Some (Inr (pp_bodyBoc pp))"
      "read header body = Inr (pp_parsed pp)" "pp_bytes pp = length body"
      "\<not> length body > or_default gm (pp_usefulBytes pp)"
    using assms(1) unfolding finish_payload_def Let_def by (auto simp: res_simps)
  show "read header body = Inr (pp_parsed pp)" "pp_bytes pp = length body" by (rule *)+
  show "length header \<le> hmax \<Longrightarrow> readSnakeBoc (pp_headerBoc pp) hmax = Some (Inr header)"
    using snake_boc64 [OF _ _ *(3), of hmax] *(5) assms(2) by auto
  show "length body \<le> bmax \<Longrightarrow> readSnakeBoc (pp_bodyBoc pp) bmax = Some (Inr body)"
    using snake_boc64 [OF _ _ *(4), of bmax] *(6) assms(3) by auto
  have "nat (or_default (Some (int sc)) 1) = sc" by (simp add: or_default_def)
  with *(1,2) show "pp_usefulBytes pp = pp_sizeClass pp * 1024" "pp_sizeClass pp \<in> set PUBLIC_SIZE_CLASSES"
    by (auto simp: publicUsefulBytesForSizeClass_def normalizePublicSizeClass_def res_simps Let_def or_default_def)
  show "gm = None \<Longrightarrow> length body \<le> pp_usefulBytes pp" using *(9) by (simp add: or_default_def)
qed

lemma rest_length: "v1_rest input rest \<Longrightarrow> length rest \<le> 40"
  using parentHash_length by (auto simp: v1_rest_def input_parent_def res_simps simp del: be_bytes.simps split: if_splits)

text \<open>What both readers say of a header and a body they accept.\<close>

lemma read_shape:
  assumes "readPublicBodyBytes header data = Inr b \<or> readPublicBodyBytesV2 header data = Inr b" "8 \<le> length header"
  shows "pb_data b = data" "pb_text b = (if is_text (pb_kind b) then Some (utf8_decode data) else None)"
    "pb_mediaFormat b = (if is_media_kind (pb_kind b) then MEDIA_WEBP else MEDIA_NONE)" "header ! 7 = pb_mediaFormat b"
    "\<not> is_post_kind (pb_kind b) \<Longrightarrow> pb_commentsAllowed b = None" "kind_of_byte (header ! 5) = Some (pb_kind b)"
  using assms
  by (auto simp: readPublicBodyBytes_def readPublicBodyBytesV2_def read_post_branch_def read_comment_branch_def Let_def res_simps byte_at_def
      is_text_def is_media_kind_def is_post_kind_def split: option.splits body_kind.splits if_splits)

lemma body_of_input:
  "publicBodyBytes input = Inr body \<Longrightarrow>
   body = (if is_text (publicPayloadKind input) then utf8_encode (i_text input) else or_default (i_bytes input) [])"
  by (cases "publicPayloadKind input")
    (auto simp: publicBodyBytes_def publicTextBytes_def Let_def res_simps is_text_def is_document_def is_image_def split: if_splits)

lemma part_of_input:
  assumes "input_part dateParse random input = Inr p"
  shows "publicStreamIdBytes random input = Inr (streamId p)" "int (partIndex p) = or_default (i_partIndex input) 0"
    "int (partCount p) = or_default (i_partCount input) 1" "publicCreatedAtSeconds dateParse input = Inr (createdAtSec p)"
  using assms by (auto simp: input_part_def publicPartNumber_def assertUint_Inr res_simps)

text \<open>A post says what its input says: every field, in the terms of the input.\<close>

definition says_input :: "(js_string \<Rightarrow> js_num) \<Rightarrow> bytes \<Rightarrow> public_input \<Rightarrow> public_body \<Rightarrow> bool" where
  "says_input dateParse random input b \<longleftrightarrow>
     (let kind = publicPayloadKind input; part = pb_part b in
      pb_kind b = kind
      \<and> publicStreamIdBytes random input = Inr (streamId part)
      \<and> int (partIndex part) = or_default (i_partIndex input) 0 \<and> int (partCount part) = or_default (i_partCount input) 1
      \<and> publicCreatedAtSeconds dateParse input = Inr (createdAtSec part)
      \<and> pb_mediaFormat b = (if is_media_kind kind then MEDIA_WEBP else MEDIA_NONE)
      \<and> pb_commentsAllowed b = (if is_post_kind kind then Some (publicCommentsAllowed input) else None)
      \<and> pb_data b = (if is_text kind then utf8_encode (i_text input) else or_default (i_bytes input) [])
      \<and> (well_formed_text (i_text input) \<longrightarrow> pb_text b = (if is_text kind then Some (i_text input) else None)))"

text \<open>What a version 1 header adds: the profile of the author, or what is commented on.\<close>

definition says_pointer :: "public_input \<Rightarrow> public_body \<Rightarrow> bool" where
  "says_pointer input b \<longleftrightarrow>
     (if is_comment_kind (publicPayloadKind input)
      then \<exists>e h. pb_parent b = Some (e, h) \<and> i_parentEntryId input = Some (int e) \<and> publicParentHashBytes (i_parentHash input) = Inr h
      else \<exists>v h. pb_profile b = Some (v, h) \<and> int v = or_default (i_profileVersion input) 0
        \<and> length h = 32 \<and> int (be_value h) = or_default (i_avatarHash input) 0)"

lemma pointer_of_input:
  assumes "if is_comment_kind (pb_kind b) then map_option Inr (pb_parent b) = Some (input_parent input)
       else (\<exists>v a. input_profile input = Inr (v, a) \<and> pb_profile b = Some (v, be_bytes 32 a))"
    and "pb_kind b = publicPayloadKind input"
  shows "says_pointer input b"
proof -
  have r: "be_value (be_bytes 32 (nat a)) = nat a" "length (be_bytes 32 (nat a)) = 32" if "a < 2 ^ 256" for a
    using that be_value_be_bytes [of 32 "nat a"] by (simp_all add: nat_less_iff del: be_bytes.simps)
  show ?thesis
  proof (cases "is_comment_kind (publicPayloadKind input)")
    case True
    then obtain e h where "pb_parent b = Some (e, h)" "input_parent input = Inr (e, h)"
      using assms by (cases "pb_parent b") (auto simp: eq_commute [of "Inr _" "input_parent input"])
    with True show ?thesis
      by (auto simp: says_pointer_def input_parent_def toBigInt_def res_simps assertUint_Inr split: option.splits)
  next
    case False
    with assms r show ?thesis
      by (auto simp: says_pointer_def input_profile_def res_simps assertUint_Inr simp del: be_bytes.simps)
  qed
qed

lemma says_input_read:
  assumes "publicBodyBytes input = Inr body" "input_part dateParse random input = Inr (pb_part b)" "pb_kind b = publicPayloadKind input"
    and "readPublicBodyBytes header body = Inr b \<or> readPublicBodyBytesV2 header body = Inr b" "8 \<le> length header"
    and "is_post_kind (pb_kind b) \<longrightarrow> pb_commentsAllowed b = Some (publicCommentsAllowed input)"
  shows "says_input dateParse random input b"
  using read_shape [OF assms(4,5)] body_of_input [OF assms(1)] part_of_input [OF assms(2)] assms(3,6) utf8_decode_encode [of "i_text input"]
  by (auto simp: says_input_def Let_def)

text \<open>
  C23: A public post reads back from its cells as the caller gave it. Whatever payload is created, of version 2 or
  of version 1, reading its two bags of cells returns one post: its kind, stream, part number and count, time,
  media format, comments switch, bytes and text (of well-formed Unicode) are those of the input, and in version 1 the profile of the
  author or the entry that is commented on as well; the body fits the size class that is paid for, one of the six.
\<close>

theorem public_payload_roundtrip:
  assumes "(if v2 then createPublicPostPayloadV2 else createPublicPostPayload) sha dateParse random input sizeClass None = Some (Inr pp)"
    and "length random = 16"
  shows "(if v2 then readPublicPostPayloadV2 else readPublicPostPayload) (pp_headerBoc pp) (pp_bodyBoc pp) None = Some (Inr (pp_parsed pp))
    \<and> says_input dateParse random input (pp_parsed pp) \<and> (\<not> v2 \<longrightarrow> says_pointer input (pp_parsed pp))
    \<and> pp_bytes pp = length (pb_data (pp_parsed pp)) \<and> pp_bytes pp \<le> pp_sizeClass pp * 1024 \<and> pp_sizeClass pp \<in> {1, 2, 4, 8, 16, 32}"
proof (cases v2)
  case True
  then obtain header body where hb: "publicHeaderBytesV2 dateParse random input = Inr header" "publicBodyBytes input = Inr body"
      "finish_payload sha readPublicBodyBytesV2 sizeClass None header body = Some (Inr pp)"
    using assms(1) by (auto simp: createPublicPostPayloadV2_def res_simps)
  obtain p where p: "input_part dateParse random input = Inr p"
      "header = header_prefix PUBLIC_HEADER_MAGIC_V2 PUBLIC_HEADER_VERSION_V2 (kind_byte (publicPayloadKind input))
          (flags_of input) (media_of input) p @ []"
    using publicHeaderBytesV2_Inr [OF assms(2)] hb(1) by auto
  have ok: "part_ok p" using input_part_ok p(1) assms(2) by blast
  then have len: "length header = 32" using p(2) by (simp add: part_ok_def)
  note fin = finish_payload_Inr [OF hb(3)]
  have b: "length body \<le> 32768" using publicBodyBytes_le hb(2) by blast
  have rd: "readPublicBodyBytesV2 header body = Inr (pp_parsed pp)" using fin(1) len b by simp
  note sh = read_shape [OF disjI2 [OF rd]]
  have "is_media_kind (publicPayloadKind input) \<longrightarrow> media_of input = MEDIA_WEBP"
    using sh(3,4,6) header_prefix_read(3,5) [OF header_consts(2) ok p(2)] len by auto
  from public_header_v2_roundtrip_aux [OF hb(1) assms(2) this, of body] rd p(1)
  have q: "input_part dateParse random input = Inr (pb_part (pp_parsed pp))" "pb_kind (pp_parsed pp) = publicPayloadKind input"
      "is_post_kind (pb_kind (pp_parsed pp)) \<longrightarrow> pb_commentsAllowed (pp_parsed pp) = Some (publicCommentsAllowed input)"
    by auto
  have "says_input dateParse random input (pp_parsed pp)"
    by (rule says_input_read [OF hb(2) q(1,2) disjI2 [OF rd] _ q(3)]) (simp add: len)
  then show ?thesis
    using fin(1,4-7) fin(2) [of PUBLIC_HEADER_BYTES_V2] fin(3) [of PUBLIC_POST_BODY_MAX_BYTES] len b True sh(1)
    by (simp add: readPublicPostPayloadV2_def or_default_def PUBLIC_HEADER_BYTES_V2_def PUBLIC_POST_BODY_MAX_BYTES_def
        PUBLIC_SIZE_CLASSES_def)
next
  case False
  then obtain header body where hb: "publicHeaderBytes dateParse random input = Inr header" "publicBodyBytes input = Inr body"
      "finish_payload sha readPublicBodyBytes sizeClass None header body = Some (Inr pp)"
    using assms(1) by (auto simp: createPublicPostPayload_def res_simps)
  obtain p rest where p: "input_part dateParse random input = Inr p" "v1_rest input rest"
      "header = header_prefix PUBLIC_HEADER_MAGIC PUBLIC_BODY_VERSION (kind_byte (publicPayloadKind input))
          (flags_of input) (media_of input) p @ rest"
    using publicHeaderBytes_Inr [OF hb(1) assms(2)] by metis
  have ok: "part_ok p" using input_part_ok p(1) assms(2) by blast
  have len: "32 \<le> length header" "length header \<le> 72"
    using ok p(2) rest_length [OF p(2)] by (simp_all add: p(3) part_ok_def)
  note fin = finish_payload_Inr [OF hb(3)]
  have b: "length body \<le> 32768" using publicBodyBytes_le hb(2) by blast
  have rd: "readPublicBodyBytes header body = Inr (pp_parsed pp)" using fin(1) len b by simp
  note sh = read_shape [OF disjI1 [OF rd]]
  have "is_media_kind (publicPayloadKind input) \<longrightarrow> media_of input = MEDIA_WEBP"
    using sh(3,4,6) header_prefix_read(3,5) [OF header_consts(1) ok p(3)] len by auto
  from public_header_v1_roundtrip [OF hb(1) assms(2) this, of body] rd
  have q: "input_part dateParse random input = Inr (pb_part (pp_parsed pp))" "pb_kind (pp_parsed pp) = publicPayloadKind input"
      "is_post_kind (pb_kind (pp_parsed pp)) \<longrightarrow> pb_commentsAllowed (pp_parsed pp) = Some (publicCommentsAllowed input)"
      "if is_comment_kind (pb_kind (pp_parsed pp)) then map_option Inr (pb_parent (pp_parsed pp)) = Some (input_parent input)
       else (\<exists>v a. input_profile input = Inr (v, a) \<and> pb_profile (pp_parsed pp) = Some (v, be_bytes 32 a))"
    by auto
  have "says_input dateParse random input (pp_parsed pp)"
    by (rule says_input_read [OF hb(2) q(1,2) disjI1 [OF rd] _ q(3)]) (use len in simp)
  then show ?thesis
    using fin(1,4-7) fin(2) [of PUBLIC_COMMENT_HEADER_BYTES] fin(3) [of PUBLIC_POST_BODY_MAX_BYTES] len b False sh(1) pointer_of_input [OF q(4,2)]
    by (simp add: readPublicPostPayload_def or_default_def PUBLIC_COMMENT_HEADER_BYTES_def PUBLIC_POST_BODY_MAX_BYTES_def
        PUBLIC_SIZE_CLASSES_def)
qed

lemma tree_hash_snake:
  "length cs \<le> 65536 \<Longrightarrow> \<exists>x. tree_hash sha (snake_of cs) = Inr (x, length cs - 1)"
proof (induction cs rule: snake_of.induct)
  case (3 c d cs)
  then obtain x where x: "tree_hash sha (snake_of (d # cs)) = Inr (x, length cs)" by auto
  show ?case
    using 3(2) unfolding snake_of.simps(3) cell_of_def
    by (simp add: x hash_and_depth_def uint16Bytes_def del: snake_of.simps be_bytes.simps)
qed (simp_all add: cell_of_def hash_and_depth_def)

lemma snake_steps:
  assumes "length bytes \<le> 32768"
  obtains c x s where "snakeCellFromBytes bytes = Inr c" "cell_hash sha c = Some (Inr x)" "cell_boc64 c = Some (Inr s)"
proof -
  obtain cs where cs: "snakeCellFromBytes bytes = Inr (snake_of cs)" "length cs \<le> length bytes"
    using snakeCellFromBytes_spec by metis
  then obtain x where "tree_hash sha (snake_of cs) = Inr (x, length cs - 1)" using tree_hash_snake [of cs] assms by auto
  then have "cell_hash sha (snake_of cs) = Some (Inr x)" by (simp add: cell_hash_tree)
  moreover obtain s where "cell_boc64 (snake_of cs) = Some (Inr s)" using snake_boc64 [OF _ le_refl cs(1)] assms by auto
  ultimately show thesis using that cs(1) by blast
qed

lemma finish_payload_total:
  assumes "length header \<le> 72" "length body \<le> 32768" "read header body = Inr b"
    and "sizeClass = None \<or> (\<exists>c \<in> {1, 2, 4, 8, 16, 32}. sizeClass = Some c \<and> int (length body) \<le> c * 1024)"
  shows "\<exists>pp. finish_payload sha read sizeClass None header body = Some (Inr pp)"
proof -
  have lh: "length header \<le> 32768" using assms(1) by simp
  obtain hc hx hs where h: "snakeCellFromBytes header = Inr hc" "cell_hash sha hc = Some (Inr hx)" "cell_boc64 hc = Some (Inr hs)"
    by (rule snake_steps [OF lh, of sha])
  obtain bc bx bs where bc: "snakeCellFromBytes body = Inr bc" "cell_hash sha bc = Some (Inr bx)" "cell_boc64 bc = Some (Inr bs)"
    by (rule snake_steps [OF assms(2), of sha])
  obtain c where c: "(case sizeClass of Some s \<Rightarrow> normalizePublicSizeClass (Some s)
      | None \<Rightarrow> andThen (publicSizeClassForBodyBytes (length body)) (\<lambda>c. normalizePublicSizeClass (Some (int c)))) = Inr c"
      "publicUsefulBytesForSizeClass c = Inr (c * 1024)" "length body \<le> c * 1024"
  proof (cases sizeClass)
    case None
    have "\<exists>c \<in> {1, 2, 4, 8, 16, 32}. publicSizeClassForBodyBytes (length body) = Inr c \<and> length body \<le> c * 1024"
      using assms(2) by (simp add: publicSizeClassForBodyBytes_def PUBLIC_SIZE_CLASSES_def)
    then show ?thesis using that None
      by (auto simp: publicUsefulBytesForSizeClass_def normalizePublicSizeClass_def or_default_def PUBLIC_SIZE_CLASSES_def)
  next
    case (Some v)
    then obtain k where "k \<in> {1, 2, 4, 8, 16, 32 :: int}" "v = k" "int (length body) \<le> k * 1024" using assms(4) by auto
    then show ?thesis using that [of "nat k"] Some
      by (auto simp: publicUsefulBytesForSizeClass_def normalizePublicSizeClass_def or_default_def PUBLIC_SIZE_CLASSES_def)
  qed
  show ?thesis using h bc c(2,3) assms(3) unfolding finish_payload_def Let_def c(1) by (simp add: or_default_def)
qed

lemma public_payload_v2_created:
  assumes "publicHeaderBytesV2 dateParse random input = Inr header" "publicBodyBytes input = Inr body"
    and "length random = 16" "is_media_kind (publicPayloadKind input) \<longrightarrow> media_of input = MEDIA_WEBP"
    and "sizeClass = None \<or> (\<exists>c \<in> {1, 2, 4, 8, 16, 32}. sizeClass = Some c \<and> int (length body) \<le> c * 1024)"
  shows "\<exists>pp. createPublicPostPayloadV2 sha dateParse random input sizeClass None = Some (Inr pp)"
proof -
  obtain b where b: "readPublicBodyBytesV2 header body = Inr b"
    using public_header_v2_roundtrip_aux [OF assms(1,3,4)] by blast
  then have "length header \<le> 72" by (auto simp: readPublicBodyBytesV2_def res_simps PUBLIC_HEADER_BYTES_V2_def)
  from finish_payload_total [of header body readPublicBodyBytesV2 b sizeClass sha, OF this publicBodyBytes_le [OF assms(2)] b assms(5)]
  show ?thesis
    by (simp add: createPublicPostPayloadV2_def assms(1,2))
qed

text \<open>
  C32: Creating a payload ends, and fails only for a reason the caller can see: the input's header or body
  is refused, the size class is unknown or too small, or the written header is not one the reader
  supports. Writing the cells, hashing them and serialising them never fails.
\<close>

theorem public_payload_v2_total:
  assumes "publicHeaderBytesV2 dateParse random input = Inr header" "publicBodyBytes input = Inr body"
    and "length random = 16" "is_media_kind (publicPayloadKind input) \<longrightarrow> media_of input = MEDIA_WEBP"
    and "sizeClass = None \<or> (\<exists>c \<in> {1, 2, 4, 8, 16, 32}. sizeClass = Some c \<and> int (length body) \<le> c * 1024)"
  shows "\<exists>pp. createPublicPostPayloadV2 sha dateParse random input sizeClass None = Some (Inr pp)"
  using public_payload_v2_created [OF assms] .

lemma sample_public_body: "publicBodyBytes sample_public = Inr [1, 2, 3]"
  by (simp add: publicBodyBytes_def sample_public_kind is_document_def is_image_def)
    (simp add: sample_public_def or_default_def PUBLIC_POST_BODY_MAX_BYTES_def)

theorem public_payload_v2_total_witness:
  "\<exists>pp. createPublicPostPayloadV2 (\<lambda>bs. [7]) (\<lambda>s. NaN) (replicate 16 0) sample_public (Some 2) None = Some (Inr pp)"
proof -
  obtain header where h: "publicHeaderBytesV2 (\<lambda>s. NaN) (replicate 16 0) sample_public = Inr header"
    using publicHeaderBytesV2_Inr [of "replicate 16 0" "\<lambda>s. NaN" sample_public] sample_public_part by auto
  show ?thesis
    by (rule public_payload_v2_total [OF h sample_public_body]) (simp_all add: sample_public_media)
qed

theorem public_payload_roundtrip_witness:
  "\<exists>pp. createPublicPostPayloadV2 (\<lambda>bs. [7]) (\<lambda>s. NaN) (replicate 16 0) sample_public None None = Some (Inr pp)
    \<and> readPublicPostPayloadV2 (pp_headerBoc pp) (pp_bodyBoc pp) None = Some (Inr (pp_parsed pp))
    \<and> pb_kind (pp_parsed pp) = IMAGE_POST \<and> pb_data (pp_parsed pp) = [1, 2, 3]"
proof -
  obtain header where h: "publicHeaderBytesV2 (\<lambda>s. NaN) (replicate 16 0) sample_public = Inr header"
    using publicHeaderBytesV2_Inr [of "replicate 16 0" "\<lambda>s. NaN" sample_public] sample_public_part by auto
  have "\<exists>pp. createPublicPostPayloadV2 (\<lambda>bs. [7]) (\<lambda>s. NaN) (replicate 16 0) sample_public None None = Some (Inr pp)"
    by (rule public_payload_v2_created [OF h sample_public_body]) (simp_all add: sample_public_media)
  then obtain pp where pp: "createPublicPostPayloadV2 (\<lambda>bs. [7]) (\<lambda>s. NaN) (replicate 16 0) sample_public None None = Some (Inr pp)"
    by blast
  have "i_bytes sample_public = Some [1, 2, 3]" by (simp add: sample_public_def)
  with pp public_payload_roundtrip [of True, simplified, OF pp] show ?thesis
    by (auto simp: sample_public_kind says_input_def Let_def is_text_def or_default_def)
qed

end
