(* ===== verification/Compact_Payload.thy ===== *)
theory Compact_Payload
  imports Ton_Address Utf8
begin

text \<open>
  The plaintext of a private capsule: the compact payload of \<open>web/crypto/platho-crypto.mjs\<close>, a
  32-byte prefix, metadata naming the sender's wallet, the sender's username and the recipient's wallet,
  the content, and zero padding up to the capsule's size class less the bytes reserved for what is
  sealed beside it. \<open>lower\<close> is \<open>toLowerCase\<close>, \<open>random\<close> the 16 bytes \<open>randomBytes\<close> returns.
\<close>

section \<open>Constants\<close>

definition COMPACT_PAYLOAD_MAGIC :: bytes where "COMPACT_PAYLOAD_MAGIC = [0x50, 0x43, 0x50, 0x31]"
definition COMPACT_SENDER_WALLET_MAGIC :: bytes where "COMPACT_SENDER_WALLET_MAGIC = [0x50, 0x53, 0x57, 0x31]"
definition COMPACT_SENDER_USERNAME_MAGIC :: bytes where "COMPACT_SENDER_USERNAME_MAGIC = [0x50, 0x53, 0x4e, 0x31]"
definition COMPACT_RECIPIENT_WALLET_MAGIC :: bytes where "COMPACT_RECIPIENT_WALLET_MAGIC = [0x50, 0x52, 0x57, 0x31]"
definition PROTOCOL_VERSION :: byte where "PROTOCOL_VERSION = 1"
definition PLATHO_COMPACT_PAYLOAD_PREFIX_BYTES :: nat where "PLATHO_COMPACT_PAYLOAD_PREFIX_BYTES = 32"
definition PLATHO_COMPACT_TEXT_BLOCK_BYTES :: nat where "PLATHO_COMPACT_TEXT_BLOCK_BYTES = 1024"
definition PLATHO_COMPACT_IDENTITY_BYTES :: nat where "PLATHO_COMPACT_IDENTITY_BYTES = 68"
definition PLATHO_COMPACT_SENDER_RECOVERY_BYTES :: nat where "PLATHO_COMPACT_SENDER_RECOVERY_BYTES = 64"
definition SENDER_WALLET_METADATA_BYTES :: nat where "SENDER_WALLET_METADATA_BYTES = 69"
definition SENDER_USERNAME_METADATA_PREFIX_BYTES :: nat where "SENDER_USERNAME_METADATA_PREFIX_BYTES = 5"
definition SENDER_USERNAME_METADATA_MAX_BYTES :: nat where "SENDER_USERNAME_METADATA_MAX_BYTES = 25"
definition RECIPIENT_WALLET_METADATA_BYTES :: nat where "RECIPIENT_WALLET_METADATA_BYTES = 37"
definition FLAG_SENDER_WALLET :: byte where "FLAG_SENDER_WALLET = 1"
definition FLAG_RECIPIENT_WALLET :: byte where "FLAG_RECIPIENT_WALLET = 2"
definition FLAG_SENDER_USERNAME :: byte where "FLAG_SENDER_USERNAME = 4"
definition CONTENT_TEXT :: byte where "CONTENT_TEXT = 1"
definition CONTENT_IMAGE :: byte where "CONTENT_IMAGE = 2"
definition CONTENT_DOCUMENT :: byte where "CONTENT_DOCUMENT = 4"
definition FORMAT_WEBP :: int where "FORMAT_WEBP = 1"
definition PLATHO_CAPSULE_USEFUL_SIZE_CLASSES :: "nat list" where
  "PLATHO_CAPSULE_USEFUL_SIZE_CLASSES = [1024, 2048, 4096, 8192, 16384, 32768]"
definition CAPSULE_SIZE_CLASS :: "int list" where
  "CAPSULE_SIZE_CLASS = [1, 2, 4, 8, 16, 32]"

lemmas compact_magics = COMPACT_PAYLOAD_MAGIC_def COMPACT_SENDER_WALLET_MAGIC_def COMPACT_SENDER_USERNAME_MAGIC_def
  COMPACT_RECIPIENT_WALLET_MAGIC_def

lemmas compact_sizes = PLATHO_COMPACT_PAYLOAD_PREFIX_BYTES_def PLATHO_COMPACT_TEXT_BLOCK_BYTES_def
  SENDER_WALLET_METADATA_BYTES_def SENDER_USERNAME_METADATA_PREFIX_BYTES_def SENDER_USERNAME_METADATA_MAX_BYTES_def
  RECIPIENT_WALLET_METADATA_BYTES_def

section \<open>Fixed-width numbers\<close>

definition uint8Byte :: "int \<Rightarrow> byte res" where
  "uint8Byte value = guard (\<not> (value < 0 \<or> value > 0xff)) (JsError ''must be a uint8'') (Inr (word_of_int value))"

definition uint16Be :: "int \<Rightarrow> bytes res" where
  "uint16Be value = guard (\<not> (value < 0 \<or> value > 0xffff)) (JsError ''must be a uint16'') (Inr (be_bytes 2 (nat value)))"

definition readUint16 :: "bytes \<Rightarrow> nat \<Rightarrow> nat res" where
  "readUint16 bytes off = guard (\<not> off + 2 > length bytes) (JsError ''is truncated'')
     (Inr (be_value (slice off (off + 2) bytes)))"

definition writeBigUintBytes :: "int \<Rightarrow> nat \<Rightarrow> bytes res" where
  "writeBigUintBytes value n =
     guard (\<not> value < 0) (JsError ''must be an unsigned integer'')
       (guard (\<not> value \<ge> 2 ^ (n * 8)) (JsError ''does not fit'') (Inr (be_bytes n (nat value))))"

section \<open>Size classes\<close>

definition normalizeCapsuleSizeClass :: "int \<Rightarrow> nat res" where
  "normalizeCapsuleSizeClass value =
     guard (value \<in> set CAPSULE_SIZE_CLASS) (JsError ''Unsupported private capsule size class'') (Inr (nat value))"

definition usefulBytesForCapsuleSizeClass :: "int \<Rightarrow> nat res" where
  "usefulBytesForCapsuleSizeClass sizeClass =
     andThen (normalizeCapsuleSizeClass sizeClass) (\<lambda>n. Inr (n * PLATHO_COMPACT_TEXT_BLOCK_BYTES))"

definition sizeClassForPayloadByteLength :: "nat \<Rightarrow> nat res" where
  "sizeClassForPayloadByteLength len =
     guard (int len \<le> MAX_SAFE_INTEGER) (JsError ''must be a safe integer'')
     (case find (\<lambda>usefulBytes. len \<le> usefulBytes) PLATHO_CAPSULE_USEFUL_SIZE_CLASSES of
        Some usefulBytes \<Rightarrow> Inr (usefulBytes div PLATHO_COMPACT_TEXT_BLOCK_BYTES)
      | None \<Rightarrow> Inl (JsError ''Compact payload exceeds largest capsule size''))"

record compact_options =
  co_senderWallet :: "js_string option"
  co_senderVaultKeyId :: "int option"
  co_senderUsername :: "js_string option"
  co_recipientWallet :: "js_string option"
  co_streamId :: "bytes option"
  co_partIndex :: "int option"
  co_partCount :: "int option"
  co_sizeClass :: "int option"
  co_reservedTailBytes :: "int option"
  co_mediaFormat :: "int option"

definition normalizeCompactPayloadReservedTailBytes :: "int option \<Rightarrow> nat res" where
  "normalizeCompactPayloadReservedTailBytes raw =
     (let value = or_default raw 0 in
      guard (\<not> (\<not> \<bar>value\<bar> \<le> MAX_SAFE_INTEGER \<or> value < 0))
        (JsError ''Compact payload reserved tail bytes must be a non-negative safe integer'') (Inr (nat value)))"

record payload_room =
  r_sizeClass :: nat
  r_usefulBytes :: nat
  r_availableBytes :: nat
  r_reservedTailBytes :: nat

definition compactPayloadUsefulBytes :: "nat \<Rightarrow> compact_options \<Rightarrow> payload_room res" where
  "compactPayloadUsefulBytes contentLength options =
     andThen (normalizeCompactPayloadReservedTailBytes (co_reservedTailBytes options)) (\<lambda>reserved.
     andThen (case co_sizeClass options of
          None \<Rightarrow> sizeClassForPayloadByteLength (contentLength + reserved)
        | Some c \<Rightarrow> normalizeCapsuleSizeClass c) (\<lambda>sizeClass.
     andThen (usefulBytesForCapsuleSizeClass (int sizeClass)) (\<lambda>useful.
     guard (\<not> int useful - int reserved < 0) (JsError ''Compact payload reserved tail exceeds selected capsule size'')
       (let available = useful - reserved in
        guard (\<not> contentLength > available) (JsError ''Compact payload exceeds selected capsule size'')
          (Inr \<lparr>r_sizeClass = sizeClass, r_usefulBytes = useful, r_availableBytes = available,
                r_reservedTailBytes = reserved\<rparr>)))))"

section \<open>Writing\<close>

definition assertLength :: "bytes \<Rightarrow> nat \<Rightarrow> bytes res" where
  "assertLength bs n = guard (length bs = n) (JsError ''must be bytes of the given length'') (Inr bs)"

definition encodeFixedCompactPayload ::
    "bytes \<Rightarrow> byte \<Rightarrow> byte \<Rightarrow> int \<Rightarrow> bytes \<Rightarrow> compact_options \<Rightarrow> bytes res" where
  "encodeFixedCompactPayload random type flags mediaFormat contentBytes options =
     andThen (compactPayloadUsefulBytes (length contentBytes) options) (\<lambda>room.
     andThen (case co_streamId options of None \<Rightarrow> Inr random | Some s \<Rightarrow> assertLength s 16) (\<lambda>streamId.
     andThen (uint8Byte mediaFormat) (\<lambda>media.
     andThen (uint16Be (or_default (co_partIndex options) 0)) (\<lambda>partIndex.
     andThen (uint16Be (or_default (co_partCount options) 1)) (\<lambda>partCount.
     andThen (uint16Be (int (length contentBytes))) (\<lambda>contentLength.
       Inr (COMPACT_PAYLOAD_MAGIC @ [PROTOCOL_VERSION, type, flags, media] @ streamId @ partIndex @ partCount
            @ contentLength @ [0, 0] @ contentBytes
            @ replicate (r_availableBytes room - length contentBytes) 0)))))))"

definition wallet_given :: "js_string option \<Rightarrow> js_string option" where
  "wallet_given w = (case w of None \<Rightarrow> None | Some s \<Rightarrow> if s = [] then None else Some s)"

definition walletHashBytes :: "bytes \<Rightarrow> js_string \<Rightarrow> bytes res" where
  "walletHashBytes magic wallet =
     andThen (parseTonAddress wallet) (\<lambda>parsed.
     guard (\<not> (a_workchain parsed < -128 \<or> a_workchain parsed > 127)) (JsError ''wallet workchain must fit int8'')
     (andThen (assertLength (a_hash parsed) 32) (\<lambda>hash.
       Inr (magic @ [word_of_int (a_workchain parsed)] @ hash))))"

definition compactSenderWalletMetadataBytes :: "compact_options \<Rightarrow> bytes option res" where
  "compactSenderWalletMetadataBytes options =
     (case wallet_given (co_senderWallet options) of
        None \<Rightarrow> Inr None
      | Some wallet \<Rightarrow>
          andThen (walletHashBytes COMPACT_SENDER_WALLET_MAGIC wallet) (\<lambda>w.
          andThen (writeBigUintBytes (or_default (co_senderVaultKeyId options) 0) 32) (\<lambda>key. Inr (Some (w @ key)))))"

definition compactRecipientWalletMetadataBytes :: "compact_options \<Rightarrow> bytes option res" where
  "compactRecipientWalletMetadataBytes options =
     (case wallet_given (co_recipientWallet options) of
        None \<Rightarrow> Inr None
      | Some wallet \<Rightarrow> andThen (walletHashBytes COMPACT_RECIPIENT_WALLET_MAGIC wallet) (\<lambda>w. Inr (Some w)))"

definition dot_ath :: js_string where "dot_ath = [46, 97, 116, 104]"

definition is_username_symbol :: "symbol \<Rightarrow> bool" where
  "is_username_symbol c \<longleftrightarrow> is_lower c \<or> is_digit c \<or> c = 95 \<or> c = 45"

text \<open>\<open>/^[a-z0-9_-]{4,16}\.ath$/\<close>\<close>

definition is_username :: "js_string \<Rightarrow> bool" where
  "is_username label \<longleftrightarrow>
     (let name = take (length label - 4) label in
      label = name @ dot_ath \<and> 4 \<le> length name \<and> length name \<le> 16 \<and> (\<forall>c \<in> set name. is_username_symbol c))"

definition normalizeCompactPlathoUsername :: "(js_string \<Rightarrow> js_string) \<Rightarrow> js_string option \<Rightarrow> js_string option res" where
  "normalizeCompactPlathoUsername lower value =
     (let raw = lower (trim (or_default value [])) in
      if raw = [] then Inr None
      else
        (let label = (if drop (length raw - 4) raw = dot_ath \<and> 4 \<le> length raw then raw else raw @ dot_ath) in
         guard (is_username label) (JsError ''sender username must be a valid .ath name'') (Inr (Some label))))"

definition compactSenderUsernameMetadataBytes :: "(js_string \<Rightarrow> js_string) \<Rightarrow> compact_options \<Rightarrow> bytes option res" where
  "compactSenderUsernameMetadataBytes lower options =
     andThen (normalizeCompactPlathoUsername lower (co_senderUsername options)) (\<lambda>username.
     case username of
       None \<Rightarrow> Inr None
     | Some name \<Rightarrow>
         (let bytes = utf8_encode name in
          guard (\<not> length bytes > SENDER_USERNAME_METADATA_MAX_BYTES - SENDER_USERNAME_METADATA_PREFIX_BYTES)
            (JsError ''sender username metadata is too long'')
            (Inr (Some (COMPACT_SENDER_USERNAME_MAGIC @ [word_of_nat (length bytes)] @ bytes)))))"

definition flag_if :: "byte \<Rightarrow> 'a option \<Rightarrow> byte" where
  "flag_if f v = (case v of None \<Rightarrow> 0 | Some _ \<Rightarrow> f)"

definition encodeCompactPayloadContentWithMetadata ::
    "(js_string \<Rightarrow> js_string) \<Rightarrow> bytes \<Rightarrow> compact_options \<Rightarrow> (byte \<times> bytes) res" where
  "encodeCompactPayloadContentWithMetadata lower content options =
     andThen (compactSenderWalletMetadataBytes options) (\<lambda>wallet.
     andThen (compactSenderUsernameMetadataBytes lower options) (\<lambda>username.
     andThen (compactRecipientWalletMetadataBytes options) (\<lambda>recipient.
       Inr (or (or (flag_if FLAG_SENDER_WALLET wallet) (flag_if FLAG_SENDER_USERNAME username))
              (flag_if FLAG_RECIPIENT_WALLET recipient),
            or_default wallet [] @ or_default username [] @ or_default recipient [] @ content))))"

datatype compact_input =
    TextInput js_string
  | ImageInput bytes "int option"
  | DocumentInput bytes
  | OtherInput

definition encodeCompactPayload ::
    "(js_string \<Rightarrow> js_string) \<Rightarrow> bytes \<Rightarrow> compact_input \<Rightarrow> compact_options \<Rightarrow> bytes res" where
  "encodeCompactPayload lower random payload options =
     (case payload of
        TextInput text \<Rightarrow>
          andThen (encodeCompactPayloadContentWithMetadata lower (utf8_encode text) options) (\<lambda>(flags, content).
            encodeFixedCompactPayload random CONTENT_TEXT flags (or_default (co_mediaFormat options) 0) content options)
      | ImageInput bytes format \<Rightarrow>
          andThen (encodeCompactPayloadContentWithMetadata lower bytes options) (\<lambda>(flags, content).
            encodeFixedCompactPayload random CONTENT_IMAGE flags (or_default format FORMAT_WEBP) content options)
      | DocumentInput bytes \<Rightarrow>
          andThen (encodeCompactPayloadContentWithMetadata lower bytes options) (\<lambda>(flags, content).
            encodeFixedCompactPayload random CONTENT_DOCUMENT flags (or_default (co_mediaFormat options) 0) content options)
      | OtherInput \<Rightarrow> Inl (JsError ''Unsupported Platho compact payload type''))"

section \<open>Reading\<close>

record payload_metadata =
  md_senderWallet :: "js_string option"
  md_senderVaultKeyId :: "js_string option"
  md_senderUsername :: "js_string option"
  md_recipientWallet :: "js_string option"

definition no_metadata :: payload_metadata where
  "no_metadata = \<lparr>md_senderWallet = None, md_senderVaultKeyId = None, md_senderUsername = None, md_recipientWallet = None\<rparr>"

definition wallet_text :: "bytes \<Rightarrow> js_string" where
  "wallet_text prefix =
     (let b = uint (prefix ! 4) in
      rawAddress \<lparr>a_workchain = (if b \<ge> 0x80 then b - 0x100 else b), a_hash = slice 5 37 prefix\<rparr>)"

definition decode_sender_wallet :: "byte \<Rightarrow> bytes \<times> payload_metadata \<Rightarrow> (bytes \<times> payload_metadata) res" where
  "decode_sender_wallet flags st =
     (case st of (remaining, md) \<Rightarrow>
      if and flags FLAG_SENDER_WALLET = 0 then Inr st
      else
        guard (\<not> length remaining < SENDER_WALLET_METADATA_BYTES)
          (JsError ''Compact payload sender wallet metadata is truncated'')
          (let prefix = take SENDER_WALLET_METADATA_BYTES remaining in
           guard (slice 0 4 prefix = COMPACT_SENDER_WALLET_MAGIC)
             (JsError ''Compact payload sender wallet metadata magic mismatch'')
             (let key = be_value (slice 37 69 prefix) in
              Inr (drop SENDER_WALLET_METADATA_BYTES remaining,
                   md\<lparr>md_senderWallet := Some (wallet_text prefix),
                      md_senderVaultKeyId := (if key \<noteq> 0 then Some (dec_string key) else None)\<rparr>))))"

definition decode_sender_username ::
    "(js_string \<Rightarrow> js_string) \<Rightarrow> byte \<Rightarrow> bytes \<times> payload_metadata \<Rightarrow> (bytes \<times> payload_metadata) res" where
  "decode_sender_username lower flags st =
     (case st of (remaining, md) \<Rightarrow>
      if and flags FLAG_SENDER_USERNAME = 0 then Inr st
      else
        guard (\<not> length remaining < SENDER_USERNAME_METADATA_PREFIX_BYTES)
          (JsError ''Compact payload sender username metadata is truncated'')
          (guard (slice 0 4 remaining = COMPACT_SENDER_USERNAME_MAGIC)
            (JsError ''Compact payload sender username metadata magic mismatch'')
            (let usernameLength = unat (remaining ! 4);
                 metadataLength = SENDER_USERNAME_METADATA_PREFIX_BYTES + usernameLength in
             guard (\<not> (usernameLength \<le> 0 \<or> metadataLength > SENDER_USERNAME_METADATA_MAX_BYTES
                 \<or> length remaining < metadataLength))
               (JsError ''Compact payload sender username metadata has invalid length'')
               (andThen (normalizeCompactPlathoUsername lower
                    (Some (utf8_decode (slice SENDER_USERNAME_METADATA_PREFIX_BYTES metadataLength remaining)))) (\<lambda>name.
                 Inr (drop metadataLength remaining, md\<lparr>md_senderUsername := name\<rparr>)))))) "

definition decode_recipient_wallet :: "byte \<Rightarrow> bytes \<times> payload_metadata \<Rightarrow> (bytes \<times> payload_metadata) res" where
  "decode_recipient_wallet flags st =
     (case st of (remaining, md) \<Rightarrow>
      if and flags FLAG_RECIPIENT_WALLET = 0 then Inr st
      else
        guard (\<not> length remaining < RECIPIENT_WALLET_METADATA_BYTES)
          (JsError ''Compact payload recipient wallet metadata is truncated'')
          (let prefix = take RECIPIENT_WALLET_METADATA_BYTES remaining in
           guard (slice 0 4 prefix = COMPACT_RECIPIENT_WALLET_MAGIC)
             (JsError ''Compact payload recipient wallet metadata magic mismatch'')
             (Inr (drop RECIPIENT_WALLET_METADATA_BYTES remaining,
                   md\<lparr>md_recipientWallet := Some (wallet_text prefix)\<rparr>))))"

definition decodeCompactPayloadMetadata ::
    "(js_string \<Rightarrow> js_string) \<Rightarrow> bytes \<Rightarrow> byte \<Rightarrow> (bytes \<times> payload_metadata) res" where
  "decodeCompactPayloadMetadata lower content flags =
     guard (and flags (not (or (or FLAG_SENDER_WALLET FLAG_RECIPIENT_WALLET) FLAG_SENDER_USERNAME)) = 0)
       (JsError ''Unsupported compact payload flags'')
       (andThen (decode_sender_wallet flags (content, no_metadata)) (\<lambda>st.
        andThen (decode_sender_username lower flags st) (\<lambda>st.
          decode_recipient_wallet flags st)))"

record payload_fields =
  pf_type :: byte
  pf_flags :: byte
  pf_mediaFormat :: byte
  pf_streamId :: bytes
  pf_partIndex :: nat
  pf_partCount :: nat
  pf_content :: bytes
  pf_sizeClass :: nat

definition compactPayloadContent :: "bytes \<Rightarrow> int option \<Rightarrow> payload_fields res" where
  "compactPayloadContent bytes reservedTail =
     andThen (normalizeCompactPayloadReservedTailBytes reservedTail) (\<lambda>reserved.
      (let useful = int (length bytes) - int PLATHO_COMPACT_PAYLOAD_PREFIX_BYTES + int reserved in
       guard (useful \<in> int ` set PLATHO_CAPSULE_USEFUL_SIZE_CLASSES)
         (JsError ''Compact payload must use a supported useful slot size'')
       (guard (slice 0 4 bytes = COMPACT_PAYLOAD_MAGIC) (JsError ''Invalid Platho compact payload magic'')
       (guard (byte_at bytes 4 = Some PROTOCOL_VERSION) (JsError ''Unsupported compact payload version'')
       (andThen (readUint16 bytes 24) (\<lambda>partIndex.
        andThen (readUint16 bytes 26) (\<lambda>partCount.
        andThen (readUint16 bytes 28) (\<lambda>contentLength.
        guard (\<not> (partCount \<le> 0 \<or> partIndex \<ge> partCount)) (JsError ''Compact payload part index mismatch'')
       (guard (byte_at bytes 30 = Some 0 \<and> byte_at bytes 31 = Some 0) (JsError ''Compact payload reserved bytes must be zero'')
        (let contentStart = PLATHO_COMPACT_PAYLOAD_PREFIX_BYTES; contentEnd = contentStart + contentLength in
         guard (\<not> contentEnd > length bytes) (JsError ''Compact payload content is truncated'')
        (guard (\<forall>b \<in> set (drop contentEnd bytes). b = 0) (JsError ''Compact payload padding must be zero'')
          (Inr \<lparr>pf_type = bytes ! 5, pf_flags = bytes ! 6, pf_mediaFormat = bytes ! 7, pf_streamId = slice 8 24 bytes,
                pf_partIndex = partIndex, pf_partCount = partCount, pf_content = slice contentStart contentEnd bytes,
                pf_sizeClass = nat useful div PLATHO_COMPACT_TEXT_BLOCK_BYTES\<rparr>)))))))))))) "

definition assertCompactPayloadBytes :: "bytes \<Rightarrow> int option \<Rightarrow> int option \<Rightarrow> bytes res" where
  "assertCompactPayloadBytes bytes reservedTail requestedSizeClass =
     andThen (compactPayloadContent bytes reservedTail) (\<lambda>payload.
       case requestedSizeClass of
         None \<Rightarrow> Inr bytes
       | Some c \<Rightarrow> andThen (normalizeCapsuleSizeClass c) (\<lambda>n.
           guard (pf_sizeClass payload = n) (JsError ''Compact payload size class mismatch'') (Inr bytes)))"

datatype decoded_content =
    DecodedText js_string
  | DecodedImage byte bytes
  | DecodedDocument bytes

record decoded_payload =
  dp_content :: decoded_content
  dp_streamId :: bytes
  dp_partIndex :: nat
  dp_partCount :: nat
  dp_metadata :: payload_metadata

text \<open>
  \<open>decodeCompactPayloadBytes\<close> tags the errors of \<open>decodeCompactPayloadBytesInner\<close> with the code of an
  unreadable capsule and rethrows them; the tag is not part of an error here.
\<close>

definition decodeCompactPayloadBytesInner ::
    "(js_string \<Rightarrow> js_string) \<Rightarrow> bytes \<Rightarrow> int option \<Rightarrow> decoded_payload res" where
  "decodeCompactPayloadBytesInner lower bytes reservedTail =
     andThen (compactPayloadContent bytes reservedTail) (\<lambda>f.
     andThen (decodeCompactPayloadMetadata lower (pf_content f) (pf_flags f)) (\<lambda>(content, md).
      (let result = (\<lambda>c. \<lparr>dp_content = c, dp_streamId = pf_streamId f, dp_partIndex = pf_partIndex f,
             dp_partCount = pf_partCount f, dp_metadata = md\<rparr>) in
       if pf_type f = CONTENT_TEXT then Inr (result (DecodedText (utf8_decode content)))
       else if pf_type f = CONTENT_IMAGE then Inr (result (DecodedImage (pf_mediaFormat f) content))
       else if pf_type f = CONTENT_DOCUMENT then Inr (result (DecodedDocument content))
       else Inl (JsError ''Unsupported Platho compact payload type''))))"

section \<open>The written prefix, read\<close>

lemma uint16Be_Inr: "uint16Be v = Inr b \<longleftrightarrow> 0 \<le> v \<and> v < 65536 \<and> b = be_bytes 2 (nat v)"
  by (auto simp: uint16Be_def guard_def)

lemma readUint16_at:
  assumes "bs = xs @ be_bytes 2 v @ ys" "off = length xs" "v < 65536"
  shows "readUint16 bs off = Inr v"
  using assms by (simp add: readUint16_def slice_def be_value_be_bytes)

definition payload_bytes :: "byte \<Rightarrow> byte \<Rightarrow> byte \<Rightarrow> bytes \<Rightarrow> nat \<Rightarrow> nat \<Rightarrow> bytes \<Rightarrow> nat \<Rightarrow> bytes" where
  "payload_bytes type flags media s i c content pad =
     COMPACT_PAYLOAD_MAGIC @ [PROTOCOL_VERSION, type, flags, media] @ s @ be_bytes 2 i @ be_bytes 2 c
       @ be_bytes 2 (length content) @ [0, 0] @ content @ replicate pad 0"

lemma length_payload_bytes: "length s = 16 \<Longrightarrow> length (payload_bytes type flags media s i c content pad) = 32 + length content + pad"
  by (simp add: payload_bytes_def COMPACT_PAYLOAD_MAGIC_def)

lemma compactPayloadContent_written:
  assumes "length s = 16" "i < c" "c < 65536" "length content < 65536" "0 \<le> rt" "rt \<le> MAX_SAFE_INTEGER"
    and "length content + pad + nat rt = sizeClass * 1024" "sizeClass \<in> {1, 2, 4, 8, 16, 32}"
  shows "compactPayloadContent (payload_bytes type flags media s i c content pad) (Some rt) = Inr
    \<lparr>pf_type = type, pf_flags = flags, pf_mediaFormat = media, pf_streamId = s, pf_partIndex = i, pf_partCount = c,
     pf_content = content, pf_sizeClass = sizeClass\<rparr>"
proof -
  define bs where "bs = payload_bytes type flags media s i c content pad"
  let ?h8 = "COMPACT_PAYLOAD_MAGIC @ [PROTOCOL_VERSION, type, flags, media]"
  have bs: "bs = ?h8 @ s @ be_bytes 2 i @ be_bytes 2 c @ be_bytes 2 (length content) @ [0, 0] @ content @ replicate pad 0"
    by (simp add: bs_def payload_bytes_def)
  have len: "length bs = 32 + length content + pad" using assms(1) by (simp add: bs_def length_payload_bytes)
  have r1: "readUint16 bs 24 = Inr i"
    by (rule readUint16_at [of _ "?h8 @ s" _ "be_bytes 2 c @ be_bytes 2 (length content) @ [0, 0] @ content @ replicate pad 0"])
      (use assms in \<open>simp_all add: bs COMPACT_PAYLOAD_MAGIC_def del: be_bytes.simps\<close>)
  have r2: "readUint16 bs 26 = Inr c"
    by (rule readUint16_at [of _ "?h8 @ s @ be_bytes 2 i" _ "be_bytes 2 (length content) @ [0, 0] @ content @ replicate pad 0"])
      (use assms in \<open>simp_all add: bs COMPACT_PAYLOAD_MAGIC_def del: be_bytes.simps\<close>)
  have r3: "readUint16 bs 28 = Inr (length content)"
    by (rule readUint16_at [of _ "?h8 @ s @ be_bytes 2 i @ be_bytes 2 c" _ "[0, 0] @ content @ replicate pad 0"])
      (use assms in \<open>simp_all add: bs COMPACT_PAYLOAD_MAGIC_def del: be_bytes.simps\<close>)
  let ?h30 = "?h8 @ s @ be_bytes 2 i @ be_bytes 2 c @ be_bytes 2 (length content)"
  have z: "byte_at bs 30 = Some 0" "byte_at bs 31 = Some 0"
    using nth_field [of 30 ?h30 0 "0 # content @ replicate pad 0"] nth_field [of 31 "?h30 @ [0]" 0 "content @ replicate pad 0"]
      assms(1) len by (simp_all add: bs byte_at_def COMPACT_PAYLOAD_MAGIC_def del: be_bytes.simps)
  have f: "bs ! 5 = type" "bs ! 6 = flags" "bs ! 7 = media" "byte_at bs 4 = Some PROTOCOL_VERSION"
      "slice 0 4 bs = COMPACT_PAYLOAD_MAGIC"
    using len by (simp_all add: bs byte_at_def COMPACT_PAYLOAD_MAGIC_def slice_def)
  have st: "slice 8 24 bs = s" using assms(1) by (simp add: bs slice_def COMPACT_PAYLOAD_MAGIC_def)
  have d: "drop 32 bs = content @ replicate pad 0"
    using drop_field [of 32 "?h30 @ [0, 0]" "content @ replicate pad 0"] assms(1)
    by (simp add: bs COMPACT_PAYLOAD_MAGIC_def del: be_bytes.simps)
  then have ct: "slice 32 (32 + length content) bs = content" "drop (32 + length content) bs = replicate pad 0"
    by (simp_all add: slice_def flip: drop_drop add: add.commute)
  have useful: "int (length bs) - 32 + rt = int (sizeClass * 1024)"
    using assms(5,7) by (simp add: len)
  then have mem: "int (length bs) - 32 + rt \<in> int ` set PLATHO_CAPSULE_USEFUL_SIZE_CLASSES"
    using assms(8) by (auto simp: PLATHO_CAPSULE_USEFUL_SIZE_CLASSES_def)
  show ?thesis
    unfolding bs_def [symmetric] compactPayloadContent_def normalizeCompactPayloadReservedTailBytes_def Let_def
      compact_sizes r1 r2 r3
    using assms(2,5,6) f z st ct mem useful len by (simp add: or_default_def)
qed

section \<open>Metadata survives\<close>

lemma flag_bits:
  assumes "a \<in> {0, FLAG_SENDER_WALLET}" "u \<in> {0, FLAG_SENDER_USERNAME}" "r \<in> {0, FLAG_RECIPIENT_WALLET}"
  shows "and (or (or a u) r) (not (or (or FLAG_SENDER_WALLET FLAG_RECIPIENT_WALLET) FLAG_SENDER_USERNAME)) = 0"
    "and (or (or a u) r) FLAG_SENDER_WALLET = a" "and (or (or a u) r) FLAG_SENDER_USERNAME = u"
    "and (or (or a u) r) FLAG_RECIPIENT_WALLET = r"
  using assms by (auto simp: FLAG_SENDER_WALLET_def FLAG_SENDER_USERNAME_def FLAG_RECIPIENT_WALLET_def)

lemma flags_nonzero: "FLAG_SENDER_WALLET \<noteq> 0" "FLAG_SENDER_USERNAME \<noteq> 0" "FLAG_RECIPIENT_WALLET \<noteq> 0"
  by (simp_all add: FLAG_SENDER_WALLET_def FLAG_SENDER_USERNAME_def FLAG_RECIPIENT_WALLET_def)

lemma wallet_text_written:
  assumes "walletHashBytes magic w = Inr bs" "length magic = 4"
  obtains a where "parseTonAddress w = Inr a" "length bs = 37" "take 4 bs = magic"
    "\<And>rest. wallet_text (bs @ rest) = rawAddress a"
proof -
  obtain a where a: "parseTonAddress w = Inr a" "- 128 \<le> a_workchain a" "a_workchain a \<le> 127" "length (a_hash a) = 32"
      "bs = magic @ [word_of_int (a_workchain a)] @ a_hash a"
    using assms(1) by (auto simp: walletHashBytes_def assertLength_def res_simps)
  have u: "uint (word_of_int (a_workchain a) :: byte) = a_workchain a mod 256"
    by (simp add: uint_word_of_int)
  have m: "a_workchain a mod 256 = (if a_workchain a < 0 then a_workchain a + 256 else a_workchain a)"
  proof (cases "a_workchain a < 0")
    case True
    then have "(a_workchain a + 256) mod 256 = a_workchain a + 256"
      using a(2) by (intro mod_pos_pos_trivial) simp_all
    with True show ?thesis by simp
  next
    case False
    with a(3) show ?thesis by (simp add: mod_pos_pos_trivial)
  qed
  have "wallet_text (bs @ rest) = rawAddress a" for rest
  proof -
    have "(bs @ rest) ! 4 = word_of_int (a_workchain a)" "slice 5 37 (bs @ rest) = a_hash a"
      using assms(2) a(4) by (simp_all add: a(5) nth_append slice_def)
    moreover have "a = \<lparr>a_workchain = a_workchain a, a_hash = a_hash a\<rparr>" by simp
    ultimately show ?thesis using a(2,3) by (auto simp: wallet_text_def u m Let_def rawAddress_def)
  qed
  then show thesis using that a(1,4,5) assms(2) by simp
qed

lemma magic_lengths [simp]:
  "length COMPACT_SENDER_WALLET_MAGIC = 4" "length COMPACT_RECIPIENT_WALLET_MAGIC = 4"
  "length COMPACT_SENDER_USERNAME_MAGIC = 4"
  by (simp_all add: compact_magics)

definition wallet_shown :: "js_string option \<Rightarrow> js_string option" where
  "wallet_shown w = (case wallet_given w of None \<Rightarrow> None
     | Some s \<Rightarrow> (case parseTonAddress s of Inl e \<Rightarrow> None | Inr a \<Rightarrow> Some (rawAddress a)))"

definition key_shown :: "compact_options \<Rightarrow> js_string option" where
  "key_shown options = (case wallet_given (co_senderWallet options) of None \<Rightarrow> None
     | Some s \<Rightarrow> (let k = nat (or_default (co_senderVaultKeyId options) 0) in if k \<noteq> 0 then Some (dec_string k) else None))"

lemma decode_sender_wallet_written:
  assumes "compactSenderWalletMetadataBytes options = Inr w"
    and "and flags FLAG_SENDER_WALLET = flag_if FLAG_SENDER_WALLET w"
    and "md_senderWallet md = None" "md_senderVaultKeyId md = None"
  shows "decode_sender_wallet flags (or_default w [] @ rest, md)
    = Inr (rest, md\<lparr>md_senderWallet := wallet_shown (co_senderWallet options), md_senderVaultKeyId := key_shown options\<rparr>)"
proof (cases "wallet_given (co_senderWallet options)")
  case None
  then show ?thesis using assms
    by (simp add: compactSenderWalletMetadataBytes_def decode_sender_wallet_def flag_if_def or_default_def
        wallet_shown_def key_shown_def)
next
  case (Some s)
  let ?k = "or_default (co_senderVaultKeyId options) 0"
  obtain h key where h: "walletHashBytes COMPACT_SENDER_WALLET_MAGIC s = Inr h" "writeBigUintBytes ?k 32 = Inr key"
      "w = Some (h @ key)"
    using assms(1) Some by (auto simp: compactSenderWalletMetadataBytes_def res_simps)
  then have k: "length key = 32" "be_value key = nat ?k"
    by (auto simp: writeBigUintBytes_def res_simps be_value_be_bytes nat_less_iff simp del: be_bytes.simps)
  from wallet_text_written [OF h(1)] obtain a where a: "parseTonAddress s = Inr a" "length h = 37"
      "take 4 h = COMPACT_SENDER_WALLET_MAGIC" "wallet_text (h @ key) = rawAddress a" by auto
  have t: "take SENDER_WALLET_METADATA_BYTES ((h @ key) @ rest) = h @ key" "drop SENDER_WALLET_METADATA_BYTES ((h @ key) @ rest) = rest"
    using a(2) k(1) by (simp_all add: SENDER_WALLET_METADATA_BYTES_def)
  have sl: "slice 0 4 (h @ key) = COMPACT_SENDER_WALLET_MAGIC" "slice 37 69 (h @ key) = key"
    using a(2,3) k(1) by (simp_all add: slice_def)
  have "\<not> length ((h @ key) @ rest) < SENDER_WALLET_METADATA_BYTES" using a(2) k(1) by (simp add: SENDER_WALLET_METADATA_BYTES_def)
  then show ?thesis
    using assms(2) flags_nonzero(1) unfolding h(3) decode_sender_wallet_def or_default_def option.case prod.case t Let_def sl a(4)
    by (simp add: flag_if_def k(2) wallet_shown_def key_shown_def Some a(1) or_default_def Let_def)
qed

lemma decode_recipient_wallet_written:
  assumes "compactRecipientWalletMetadataBytes options = Inr w"
    and "and flags FLAG_RECIPIENT_WALLET = flag_if FLAG_RECIPIENT_WALLET w"
    and "md_recipientWallet md = None"
  shows "decode_recipient_wallet flags (or_default w [] @ rest, md)
    = Inr (rest, md\<lparr>md_recipientWallet := wallet_shown (co_recipientWallet options)\<rparr>)"
proof (cases "wallet_given (co_recipientWallet options)")
  case None
  then show ?thesis using assms
    by (simp add: compactRecipientWalletMetadataBytes_def decode_recipient_wallet_def flag_if_def or_default_def wallet_shown_def)
next
  case (Some s)
  obtain h where h: "walletHashBytes COMPACT_RECIPIENT_WALLET_MAGIC s = Inr h" "w = Some h"
    using assms(1) Some by (auto simp: compactRecipientWalletMetadataBytes_def res_simps)
  from wallet_text_written [OF h(1)] obtain a where a: "parseTonAddress s = Inr a" "length h = 37"
      "take 4 h = COMPACT_RECIPIENT_WALLET_MAGIC" "\<And>rest. wallet_text (h @ rest) = rawAddress a"
    by (metis magic_lengths(2))
  have t: "take RECIPIENT_WALLET_METADATA_BYTES (h @ rest) = h" "drop RECIPIENT_WALLET_METADATA_BYTES (h @ rest) = rest"
    using a(2) by (simp_all add: RECIPIENT_WALLET_METADATA_BYTES_def)
  have sl: "slice 0 4 h = COMPACT_RECIPIENT_WALLET_MAGIC" using a(3) by (simp add: slice_def)
  have "\<not> length (h @ rest) < RECIPIENT_WALLET_METADATA_BYTES" using a(2) by (simp add: RECIPIENT_WALLET_METADATA_BYTES_def)
  then show ?thesis
    using assms(2) flags_nonzero(3) a(4) [of "[]"]
    unfolding h(2) decode_recipient_wallet_def or_default_def option.case prod.case t Let_def sl
    by (simp add: flag_if_def wallet_shown_def Some a(1))
qed

lemma username_ascii:
  assumes "is_username label"
  shows "\<forall>c \<in> set label. c < 128 \<and> \<not> is_upper c \<and> \<not> is_space c" "label \<noteq> []" "8 \<le> length label" "length label \<le> 20"
proof -
  let ?name = "take (length label - 4) label"
  have l: "label = ?name @ dot_ath" "4 \<le> length ?name" "length ?name \<le> 16" "\<forall>c \<in> set ?name. is_username_symbol c"
    using assms by (simp_all add: is_username_def Let_def)
  have "set label = set ?name \<union> set dot_ath" using arg_cong [OF l(1), of set] by simp
  moreover have "\<forall>c \<in> set dot_ath. c < 128 \<and> \<not> is_upper c \<and> \<not> is_space c"
    by (simp add: dot_ath_def is_upper_def is_space_def)
  moreover have "is_username_symbol c \<Longrightarrow> c < 128 \<and> \<not> is_upper c \<and> \<not> is_space c" for c
    by (auto simp: is_username_symbol_def char_class_defs is_space_def)
  ultimately show "\<forall>c \<in> set label. c < 128 \<and> \<not> is_upper c \<and> \<not> is_space c" using l(4) by blast
  have "length label = length ?name + 4" using arg_cong [OF l(1), of length] by (simp add: dot_ath_def)
  then show "label \<noteq> []" "8 \<le> length label" "length label \<le> 20" using l(2,3) by auto
qed

lemma normalize_username_idem:
  assumes "lowers_ascii lower" "is_username label"
  shows "normalizeCompactPlathoUsername lower (Some label) = Inr (Some label)"
proof -
  note u = username_ascii [OF assms(2)]
  have "trim label = label" using u(1) by (intro trim_id) auto
  moreover have "lower label = label" using u(1) assms(1) by (intro lower_id) (auto simp: is_ascii_def)
  moreover have "drop (length label - 4) label = dot_ath"
  proof -
    have "label = take (length label - 4) label @ dot_ath" using assms(2) by (simp add: is_username_def Let_def)
    then have "take (length label - 4) label @ drop (length label - 4) label = take (length label - 4) label @ dot_ath" by simp
    then show ?thesis by (rule iffD1 [OF same_append_eq])
  qed
  ultimately show ?thesis using u assms(2) by (simp add: normalizeCompactPlathoUsername_def or_default_def)
qed

lemma decode_sender_username_written:
  assumes "lowers_ascii lower" "compactSenderUsernameMetadataBytes lower options = Inr w"
    and "and flags FLAG_SENDER_USERNAME = flag_if FLAG_SENDER_USERNAME w" "md_senderUsername md = None"
  shows "\<exists>name. normalizeCompactPlathoUsername lower (co_senderUsername options) = Inr name
    \<and> decode_sender_username lower flags (or_default w [] @ rest, md) = Inr (rest, md\<lparr>md_senderUsername := name\<rparr>)"
proof -
  obtain name where n: "normalizeCompactPlathoUsername lower (co_senderUsername options) = Inr name"
    using assms(2) by (auto simp: compactSenderUsernameMetadataBytes_def res_simps)
  show ?thesis
  proof (cases name)
    case None
    then show ?thesis using assms n
      by (simp add: compactSenderUsernameMetadataBytes_def decode_sender_username_def flag_if_def or_default_def)
  next
    case (Some label)
    have lab: "is_username label"
      using n Some by (auto simp: normalizeCompactPlathoUsername_def Let_def res_simps split: if_splits)
    note u = username_ascii [OF lab]
    have enc: "utf8_encode label = map word_of_nat label" using u(1) by (intro utf8_encode_ascii) auto
    then have elen: "length (utf8_encode label) = length label" by simp
    have c128: "c < 128" if "c \<in> set label" for c using u(1) that by blast
    have "is_scalar c \<and> c \<noteq> 0xFEFF" if "c \<in> set label" for c
      using c128 [OF that] by (simp add: is_scalar_def is_surrogate_def)
    then have wf: "well_formed_text label" by (auto simp: well_formed_text_def split: list.splits)
    have w: "w = Some (COMPACT_SENDER_USERNAME_MAGIC @ [word_of_nat (length label)] @ utf8_encode label)"
      using assms(2) n Some elen by (auto simp: compactSenderUsernameMetadataBytes_def Let_def res_simps)
    define blk where "blk = COMPACT_SENDER_USERNAME_MAGIC @ [word_of_nat (length label)] @ utf8_encode label"
    have f: "slice 0 4 (blk @ rest) = COMPACT_SENDER_USERNAME_MAGIC" "(blk @ rest) ! 4 = word_of_nat (length label)"
        "slice 5 (5 + length label) (blk @ rest) = utf8_encode label" "drop (5 + length label) (blk @ rest) = rest"
        "length blk = 5 + length label"
      using elen by (simp_all add: blk_def slice_def nth_append)
    have un: "unat (word_of_nat (length label) :: byte) = length label" using u(4) by (intro unat_small_byte) simp
    show ?thesis
      using assms(3) n Some flags_nonzero(2) u(2,4) elen normalize_username_idem [OF assms(1) lab]
      unfolding w blk_def [symmetric] decode_sender_username_def or_default_def option.case prod.case Let_def f(1,2) un compact_sizes f(3,4)
      by (simp add: flag_if_def f(5) utf8_decode_encode [OF wf])
  qed
qed

section \<open>Properties\<close>

definition content_of :: "compact_input \<Rightarrow> decoded_content" where
  "content_of payload = (case payload of TextInput t \<Rightarrow> DecodedText (utf8_decode (utf8_encode t))
     | ImageInput bs format \<Rightarrow> DecodedImage (word_of_int (or_default format FORMAT_WEBP)) bs
     | DocumentInput bs \<Rightarrow> DecodedDocument bs | OtherInput \<Rightarrow> DecodedDocument [])"

lemma encode_metadata_Inr:
  assumes "encodeCompactPayloadContentWithMetadata lower body options = Inr (flags, content)" "lowers_ascii lower"
  shows "\<exists>name. normalizeCompactPlathoUsername lower (co_senderUsername options) = Inr name
    \<and> decodeCompactPayloadMetadata lower content flags = Inr (body,
        \<lparr>md_senderWallet = wallet_shown (co_senderWallet options), md_senderVaultKeyId = key_shown options,
         md_senderUsername = name, md_recipientWallet = wallet_shown (co_recipientWallet options)\<rparr>)"
proof -
  obtain w u r where m: "compactSenderWalletMetadataBytes options = Inr w"
      "compactSenderUsernameMetadataBytes lower options = Inr u" "compactRecipientWalletMetadataBytes options = Inr r"
      "flags = or (or (flag_if FLAG_SENDER_WALLET w) (flag_if FLAG_SENDER_USERNAME u)) (flag_if FLAG_RECIPIENT_WALLET r)"
      "content = or_default w [] @ or_default u [] @ or_default r [] @ body"
    using assms(1) by (auto simp: encodeCompactPayloadContentWithMetadata_def res_simps)
  have in3: "flag_if FLAG_SENDER_WALLET w \<in> {0, FLAG_SENDER_WALLET}" "flag_if FLAG_SENDER_USERNAME u \<in> {0, FLAG_SENDER_USERNAME}"
    "flag_if FLAG_RECIPIENT_WALLET r \<in> {0, FLAG_RECIPIENT_WALLET}"
    by (simp_all add: flag_if_def split: option.split)
  note fb = flag_bits [OF in3, folded m(4)]
  have s1: "decode_sender_wallet flags (content, no_metadata) = Inr (or_default u [] @ or_default r [] @ body,
      no_metadata\<lparr>md_senderWallet := wallet_shown (co_senderWallet options), md_senderVaultKeyId := key_shown options\<rparr>)"
    unfolding m(5) by (rule decode_sender_wallet_written [OF m(1) fb(2)]) (simp_all add: no_metadata_def)
  let ?md = "no_metadata\<lparr>md_senderWallet := wallet_shown (co_senderWallet options), md_senderVaultKeyId := key_shown options\<rparr>"
  obtain name where n: "normalizeCompactPlathoUsername lower (co_senderUsername options) = Inr name"
      "decode_sender_username lower flags (or_default u [] @ or_default r [] @ body, ?md)
        = Inr (or_default r [] @ body, ?md\<lparr>md_senderUsername := name\<rparr>)"
    using decode_sender_username_written [OF assms(2) m(2) fb(3), of ?md "or_default r [] @ body"] by (auto simp: no_metadata_def)
  have s3: "decode_recipient_wallet flags (or_default r [] @ body, ?md\<lparr>md_senderUsername := name\<rparr>)
      = Inr (body, (?md\<lparr>md_senderUsername := name\<rparr>)\<lparr>md_recipientWallet := wallet_shown (co_recipientWallet options)\<rparr>)"
    by (rule decode_recipient_wallet_written [OF m(3) fb(4)]) (simp add: no_metadata_def)
  show ?thesis using n(1) unfolding decodeCompactPayloadMetadata_def fb(1)
    by (simp add: s1 n(2) s3)
qed

lemma compact_room:
  assumes "compactPayloadUsefulBytes n options = Inr room"
  shows "n + (r_availableBytes room - n) + nat (or_default (co_reservedTailBytes options) 0) = r_sizeClass room * 1024"
    "r_sizeClass room \<in> {1, 2, 4, 8, 16, 32}" "0 \<le> or_default (co_reservedTailBytes options) 0"
    "or_default (co_reservedTailBytes options) 0 \<le> MAX_SAFE_INTEGER" "n \<le> 32768"
    "r_availableBytes room = r_sizeClass room * 1024 - nat (or_default (co_reservedTailBytes options) 0)"
proof -
  let ?r = "or_default (co_reservedTailBytes options) 0"
  obtain c where c: "normalizeCompactPayloadReservedTailBytes (co_reservedTailBytes options) = Inr (nat ?r)"
      "usefulBytesForCapsuleSizeClass (int c) = Inr (r_usefulBytes room)" "r_sizeClass room = c"
      "\<not> int (r_usefulBytes room) - int (nat ?r) < 0" "\<not> n > r_usefulBytes room - nat ?r"
      "r_availableBytes room = r_usefulBytes room - nat ?r" "0 \<le> ?r" "?r \<le> MAX_SAFE_INTEGER"
    using assms by (auto simp: compactPayloadUsefulBytes_def Let_def res_simps normalizeCompactPayloadReservedTailBytes_def)
  from c(2) have u: "r_usefulBytes room = c * 1024" "int c \<in> set CAPSULE_SIZE_CLASS"
    by (auto simp: usefulBytesForCapsuleSizeClass_def normalizeCapsuleSizeClass_def res_simps PLATHO_COMPACT_TEXT_BLOCK_BYTES_def)
  then have m: "c \<in> {1, 2, 4, 8, 16, 32}" by (auto simp: CAPSULE_SIZE_CLASS_def)
  show "n + (r_availableBytes room - n) + nat ?r = r_sizeClass room * 1024" using c u by simp
  show "r_sizeClass room \<in> {1, 2, 4, 8, 16, 32}" "0 \<le> ?r" "?r \<le> MAX_SAFE_INTEGER" using c m by simp_all
  show "n \<le> 32768" using c(5) u m by auto
  show "r_availableBytes room = r_sizeClass room * 1024 - nat ?r" using c(3,6) u by simp
qed

lemma encodeFixed_Inr:
  assumes "encodeFixedCompactPayload random type flags mediaFormat content options = Inr bs" "length random = 16"
    and "or_default (co_partIndex options) 0 < or_default (co_partCount options) 1"
  shows "\<exists>room s. compactPayloadUsefulBytes (length content) options = Inr room
    \<and> length bs = 32 + r_availableBytes room \<and> 0 \<le> mediaFormat \<and> mediaFormat \<le> 255
    \<and> (case co_streamId options of None \<Rightarrow> s = random | Some t \<Rightarrow> s = t)
    \<and> compactPayloadContent bs (Some (or_default (co_reservedTailBytes options) 0)) = Inr
        \<lparr>pf_type = type, pf_flags = flags, pf_mediaFormat = word_of_int mediaFormat, pf_streamId = s,
         pf_partIndex = nat (or_default (co_partIndex options) 0), pf_partCount = nat (or_default (co_partCount options) 1),
         pf_content = content, pf_sizeClass = r_sizeClass room\<rparr>"
proof -
  let ?i = "or_default (co_partIndex options) 0" and ?c = "or_default (co_partCount options) 1"
  obtain room s where r: "compactPayloadUsefulBytes (length content) options = Inr room"
      "case co_streamId options of None \<Rightarrow> s = random | Some t \<Rightarrow> s = t" "length s = 16"
      "0 \<le> mediaFormat" "mediaFormat \<le> 255" "0 \<le> ?i" "0 \<le> ?c" "?c < 65536"
      "bs = payload_bytes type flags (word_of_int mediaFormat) s (nat ?i) (nat ?c) content (r_availableBytes room - length content)"
    using assms(1,2) unfolding encodeFixedCompactPayload_def payload_bytes_def
    by (auto simp: res_simps uint16Be_Inr uint8Byte_def assertLength_def simp del: be_bytes.simps split: option.splits)
  note k = compact_room [OF r(1)]
  have "length content \<le> r_availableBytes room" using r(1) by (auto simp: compactPayloadUsefulBytes_def Let_def res_simps)
  then have "length bs = 32 + r_availableBytes room" using r(3) by (simp add: r(9) length_payload_bytes)
  moreover have "compactPayloadContent bs (Some (or_default (co_reservedTailBytes options) 0)) = Inr
        \<lparr>pf_type = type, pf_flags = flags, pf_mediaFormat = word_of_int mediaFormat, pf_streamId = s,
         pf_partIndex = nat ?i, pf_partCount = nat ?c, pf_content = content, pf_sizeClass = r_sizeClass room\<rparr>"
    unfolding r(9) by (rule compactPayloadContent_written) (use assms(3) r k in auto)
  ultimately show ?thesis using r(1,2,4,5) by blast
qed

lemma compact_payload_roundtrip_aux:
  assumes "encodeCompactPayload lower random payload options = Inr bs"
    and "length random = 16" "lowers_ascii lower"
    and "or_default (co_partIndex options) 0 < or_default (co_partCount options) 1"
  shows "\<exists>d name c. decodeCompactPayloadBytesInner lower bs (Some (or_default (co_reservedTailBytes options) 0)) = Inr d
    \<and> dp_content d = content_of payload
    \<and> dp_streamId d = or_default (co_streamId options) random
    \<and> int (dp_partIndex d) = or_default (co_partIndex options) 0 \<and> int (dp_partCount d) = or_default (co_partCount options) 1
    \<and> normalizeCompactPlathoUsername lower (co_senderUsername options) = Inr name
    \<and> dp_metadata d = \<lparr>md_senderWallet = wallet_shown (co_senderWallet options), md_senderVaultKeyId = key_shown options,
         md_senderUsername = name, md_recipientWallet = wallet_shown (co_recipientWallet options)\<rparr>
    \<and> c \<in> {1, 2, 4, 8, 16, 32}
    \<and> length bs + nat (or_default (co_reservedTailBytes options) 0) = 32 + c * 1024"
proof -
  obtain body type media flags content where e:
      "encodeCompactPayloadContentWithMetadata lower body options = Inr (flags, content)"
      "encodeFixedCompactPayload random type flags media content options = Inr bs"
    and c: "(type, content_of payload) \<in> {(CONTENT_TEXT, DecodedText (utf8_decode body)),
        (CONTENT_IMAGE, DecodedImage (word_of_int media) body), (CONTENT_DOCUMENT, DecodedDocument body)}"
    using assms(1) by (cases payload) (auto simp: encodeCompactPayload_def res_simps content_of_def)
  obtain name where n: "normalizeCompactPlathoUsername lower (co_senderUsername options) = Inr name"
      "decodeCompactPayloadMetadata lower content flags = Inr (body,
        \<lparr>md_senderWallet = wallet_shown (co_senderWallet options), md_senderVaultKeyId = key_shown options,
         md_senderUsername = name, md_recipientWallet = wallet_shown (co_recipientWallet options)\<rparr>)"
    using encode_metadata_Inr [OF e(1) assms(3)] by blast
  obtain room s where r: "compactPayloadUsefulBytes (length content) options = Inr room" "length bs = 32 + r_availableBytes room"
      "case co_streamId options of None \<Rightarrow> s = random | Some t \<Rightarrow> s = t"
      "compactPayloadContent bs (Some (or_default (co_reservedTailBytes options) 0)) = Inr
        \<lparr>pf_type = type, pf_flags = flags, pf_mediaFormat = word_of_int media, pf_streamId = s,
         pf_partIndex = nat (or_default (co_partIndex options) 0), pf_partCount = nat (or_default (co_partCount options) 1),
         pf_content = content, pf_sizeClass = r_sizeClass room\<rparr>"
    using encodeFixed_Inr [OF e(2) assms(2,4)] by blast
  have p: "0 \<le> or_default (co_partIndex options) 0"
    using e(2) by (auto simp: encodeFixedCompactPayload_def res_simps uint16Be_Inr)
  have s: "s = or_default (co_streamId options) random" using r(3) by (simp add: or_default_def split: option.splits)
  note k = compact_room [OF r(1)]
  have neq: "CONTENT_IMAGE \<noteq> CONTENT_TEXT" "CONTENT_DOCUMENT \<noteq> CONTENT_TEXT" "CONTENT_DOCUMENT \<noteq> CONTENT_IMAGE"
    by (simp_all add: CONTENT_TEXT_def CONTENT_IMAGE_def CONTENT_DOCUMENT_def)
  have dec: "decodeCompactPayloadBytesInner lower bs (Some (or_default (co_reservedTailBytes options) 0)) = Inr
      \<lparr>dp_content = content_of payload, dp_streamId = s, dp_partIndex = nat (or_default (co_partIndex options) 0),
       dp_partCount = nat (or_default (co_partCount options) 1),
       dp_metadata = \<lparr>md_senderWallet = wallet_shown (co_senderWallet options), md_senderVaultKeyId = key_shown options,
         md_senderUsername = name, md_recipientWallet = wallet_shown (co_recipientWallet options)\<rparr>\<rparr>"
    using c neq by (auto simp: decodeCompactPayloadBytesInner_def r(4) n(2) Let_def)
  have "length bs + nat (or_default (co_reservedTailBytes options) 0) = 32 + r_sizeClass room * 1024"
    using r(2) k(1,6) by (simp add: algebra_simps)
  then show ?thesis using dec n(1) p assms(4) s k(2) by (intro exI [of _ "_ :: decoded_payload"] exI [of _ name] exI [of _ "r_sizeClass room"]) auto
qed

text \<open>
  C34: What a capsule carries survives the trip. Whatever payload \<open>encodeCompactPayload\<close> accepts (its part
  index being below its part count, which the writer does not check), the bytes have exactly the length
  of the prefix and the size class less the reserved tail, and the reader returns the content, the
  stream and part numbers, the two wallets in their raw form, the vault key and the normal form of the
  sender's username.
\<close>

theorem compact_payload_roundtrip:
  assumes "encodeCompactPayload lower random payload options = Inr bs"
    and "length random = 16" "lowers_ascii lower"
    and "or_default (co_partIndex options) 0 < or_default (co_partCount options) 1"
  shows "\<exists>d name c. decodeCompactPayloadBytesInner lower bs (Some (or_default (co_reservedTailBytes options) 0)) = Inr d
    \<and> dp_content d = content_of payload
    \<and> dp_streamId d = or_default (co_streamId options) random
    \<and> int (dp_partIndex d) = or_default (co_partIndex options) 0 \<and> int (dp_partCount d) = or_default (co_partCount options) 1
    \<and> normalizeCompactPlathoUsername lower (co_senderUsername options) = Inr name
    \<and> dp_metadata d = \<lparr>md_senderWallet = wallet_shown (co_senderWallet options), md_senderVaultKeyId = key_shown options,
         md_senderUsername = name, md_recipientWallet = wallet_shown (co_recipientWallet options)\<rparr>
    \<and> c \<in> {1, 2, 4, 8, 16, 32}
    \<and> length bs + nat (or_default (co_reservedTailBytes options) 0) = 32 + c * 1024"
  by (rule compact_payload_roundtrip_aux [OF assms])

definition sample_options :: compact_options where
  "sample_options = \<lparr>co_senderWallet = Some (rawAddress \<lparr>a_workchain = - 1, a_hash = replicate 32 5\<rparr>),
     co_senderVaultKeyId = Some 9, co_senderUsername = None, co_recipientWallet = None, co_streamId = None,
     co_partIndex = Some 1, co_partCount = Some 2, co_sizeClass = None, co_reservedTailBytes = Some 132, co_mediaFormat = None\<rparr>"

lemma sample_wallet:
  "parseTonAddress (rawAddress \<lparr>a_workchain = - 1, a_hash = replicate 32 5\<rparr>) = Inr \<lparr>a_workchain = - 1, a_hash = replicate 32 5\<rparr>"
  using parse_formatted [of "\<lparr>a_workchain = - 1, a_hash = replicate 32 5\<rparr>"]
  by (simp add: parseTonAddress_def MAX_SAFE_INTEGER_def)

theorem compact_payload_roundtrip_witness:
  "\<exists>bs d. encodeCompactPayload ascii_lower (replicate 16 3) (DocumentInput [1, 2, 3]) sample_options = Inr bs
    \<and> decodeCompactPayloadBytesInner ascii_lower bs (Some 132) = Inr d \<and> dp_content d = DecodedDocument [1, 2, 3]
    \<and> md_senderWallet (dp_metadata d) = Some (rawAddress \<lparr>a_workchain = - 1, a_hash = replicate 32 5\<rparr>)"
proof -
  let ?w = "rawAddress \<lparr>a_workchain = - 1, a_hash = replicate 32 5\<rparr>"
  have ne: "wallet_given (Some ?w) = Some ?w" by (simp add: wallet_given_def rawAddress_def)
  have k: "writeBigUintBytes 9 32 = Inr (be_bytes 32 9)" by (simp add: writeBigUintBytes_def del: be_bytes.simps)
  obtain h where h: "walletHashBytes COMPACT_SENDER_WALLET_MAGIC ?w = Inr h" "length h = 37"
    using sample_wallet by (simp add: walletHashBytes_def assertLength_def)
  have w: "compactSenderWalletMetadataBytes sample_options = Inr (Some (h @ be_bytes 32 9))"
    using h k ne by (simp add: compactSenderWalletMetadataBytes_def sample_options_def or_default_def del: be_bytes.simps)
  have u: "compactSenderUsernameMetadataBytes ascii_lower sample_options = Inr None"
    by (simp add: compactSenderUsernameMetadataBytes_def normalizeCompactPlathoUsername_def sample_options_def or_default_def
        trim_def ascii_lower_def)
  have r: "compactRecipientWalletMetadataBytes sample_options = Inr None"
    by (simp add: compactRecipientWalletMetadataBytes_def sample_options_def wallet_given_def)
  have "\<exists>bs. encodeCompactPayload ascii_lower (replicate 16 3) (DocumentInput [1, 2, 3]) sample_options = Inr bs"
    using w u r h(2)
    by (simp add: encodeCompactPayload_def encodeCompactPayloadContentWithMetadata_def encodeFixedCompactPayload_def
        compactPayloadUsefulBytes_def normalizeCompactPayloadReservedTailBytes_def sizeClassForPayloadByteLength_def
        PLATHO_CAPSULE_USEFUL_SIZE_CLASSES_def usefulBytesForCapsuleSizeClass_def normalizeCapsuleSizeClass_def
        CAPSULE_SIZE_CLASS_def PLATHO_COMPACT_TEXT_BLOCK_BYTES_def uint16Be_def uint8Byte_def or_default_def
        sample_options_def MAX_SAFE_INTEGER_def Let_def del: be_bytes.simps)
  then obtain bs where bs: "encodeCompactPayload ascii_lower (replicate 16 3) (DocumentInput [1, 2, 3]) sample_options = Inr bs" by blast
  have ws: "wallet_shown (Some ?w) = Some ?w" using ne sample_wallet by (simp add: wallet_shown_def)
  from compact_payload_roundtrip [OF bs _ lowers_ascii_ascii_lower]
  show ?thesis using bs ws by (auto simp: sample_options_def or_default_def content_of_def)
qed

end
