(* ===== verification/Capsule_Headers.thy ===== *)
theory Capsule_Headers
  imports Compact_Payload
begin

text \<open>
  The headers of a private capsule (\<open>web/crypto/platho-crypto.mjs\<close>): header 0 in its three wire forms
  (private, conversation and introduction), header 1 with the two timestamps, the identity section,
  the timestamp policy, and the arithmetic of suites and body sizes.
\<close>

section \<open>Suites and sizes\<close>

definition CLASSICAL_V1 :: js_string where "CLASSICAL_V1 = str ''classical-v1''"
definition HYBRID_V1 :: js_string where "HYBRID_V1 = str ''hybrid-v1''"
definition CONTRACT_CLASSICAL :: int where "CONTRACT_CLASSICAL = 1"
definition CONTRACT_HYBRID :: int where "CONTRACT_HYBRID = 2"
definition PUBLISH_PRIVATE :: int where "PUBLISH_PRIVATE = 1"
definition PUBLISH_CONV :: int where "PUBLISH_CONV = 1"
definition PUBLISH_INTRO :: int where "PUBLISH_INTRO = 3"
definition MLKEM768_PUBLIC_KEY_BYTES :: nat where "MLKEM768_PUBLIC_KEY_BYTES = 1184"
definition MLKEM768_CIPHERTEXT_BYTES :: nat where "MLKEM768_CIPHERTEXT_BYTES = 1088"
definition COMPACT_STANDARD_CHUNK_WIRE_BYTES :: nat where "COMPACT_STANDARD_CHUNK_WIRE_BYTES = 2048"
definition COMPACT_HYBRID_CHUNK_WIRE_BYTES :: nat where "COMPACT_HYBRID_CHUNK_WIRE_BYTES = 4096"
definition COMPACT_CHUNK_HEADER_BYTES :: nat where "COMPACT_CHUNK_HEADER_BYTES = 24"
definition COMPACT_BODY_BASE_PREFIX_BYTES :: nat where "COMPACT_BODY_BASE_PREFIX_BYTES = 68"
definition COMPACT_BODY_TAG_BYTES :: nat where "COMPACT_BODY_TAG_BYTES = 16"
definition PLATHO_ONCHAIN_HEADER_MAX_BYTES :: nat where "PLATHO_ONCHAIN_HEADER_MAX_BYTES = 4096"
definition PLATHO_ONCHAIN_BODY_MAX_BYTES :: nat where "PLATHO_ONCHAIN_BODY_MAX_BYTES = 40 * 1024"
definition MAX_CAPSULE_TTL_MS :: int where "MAX_CAPSULE_TTL_MS = 30 * 24 * 60 * 60 * 1000"
definition DEFAULT_CLOCK_SKEW_MS :: int where "DEFAULT_CLOCK_SKEW_MS = 5 * 60 * 1000"
definition HEADER0_BYTES :: nat where "HEADER0_BYTES = 74"
definition HEADER0_BYTES_CONV :: nat where "HEADER0_BYTES_CONV = 40"
definition HEADER0_BYTES_INTRO :: nat where "HEADER0_BYTES_INTRO = 42"
definition HEADER1_BYTES :: nat where "HEADER1_BYTES = 30"
definition HEADER0_MAGIC :: bytes where "HEADER0_MAGIC = [0x50, 0x48, 0x30, 0x43]"
definition HEADER1_MAGIC :: bytes where "HEADER1_MAGIC = [0x50, 0x48, 0x31, 0x42]"

lemmas suite_defs = CONTRACT_CLASSICAL_def CONTRACT_HYBRID_def PUBLISH_PRIVATE_def PUBLISH_CONV_def PUBLISH_INTRO_def
lemmas header_sizes = HEADER0_BYTES_def HEADER0_BYTES_CONV_def HEADER0_BYTES_INTRO_def HEADER1_BYTES_def

lemma suites_differ [simp]: "CLASSICAL_V1 \<noteq> HYBRID_V1" "HYBRID_V1 \<noteq> CLASSICAL_V1"
  by (simp_all add: CLASSICAL_V1_def HYBRID_V1_def str_def)

definition suiteByteForSuite :: "js_string \<Rightarrow> int res" where
  "suiteByteForSuite suite =
     (if suite = CLASSICAL_V1 then Inr CONTRACT_CLASSICAL
      else if suite = HYBRID_V1 then Inr CONTRACT_HYBRID
      else Inl (JsError ''Unsupported Platho compact suite''))"

definition suiteForByte :: "int \<Rightarrow> js_string res" where
  "suiteForByte byte =
     (if byte = CONTRACT_CLASSICAL then Inr CLASSICAL_V1
      else if byte = CONTRACT_HYBRID then Inr HYBRID_V1
      else Inl (JsError ''Unsupported Platho compact suite byte''))"

definition assertSupportedPrivateSuite :: "js_string \<Rightarrow> js_string res" where
  "assertSupportedPrivateSuite suite =
     guard (suite = CLASSICAL_V1 \<or> suite = HYBRID_V1) (JsError ''Unsupported Platho capsule suite'') (Inr suite)"

definition assertAllowedPrivateCapsulePair :: "int \<Rightarrow> int \<Rightarrow> unit res" where
  "assertAllowedPrivateCapsulePair sizeClass cryptoSuite =
     (let validSize = sizeClass \<in> set CAPSULE_SIZE_CLASS; validSuite = cryptoSuite = CONTRACT_HYBRID in
      guard (\<not> (\<not> validSize \<or> \<not> validSuite))
        (JsError ''Private capsule size class and crypto suite do not match the protocol rules'') (Inr ()))"

definition compactMaxChunkWireBytesForSuite :: "js_string \<Rightarrow> nat res" where
  "compactMaxChunkWireBytesForSuite suite =
     (if suite = CLASSICAL_V1 then Inr COMPACT_STANDARD_CHUNK_WIRE_BYTES
      else if suite = HYBRID_V1 then Inr COMPACT_HYBRID_CHUNK_WIRE_BYTES
      else Inl (JsError ''Unsupported Platho compact suite''))"

definition compactBodyPrefixBytesForSuite :: "js_string \<Rightarrow> nat" where
  "compactBodyPrefixBytesForSuite suite =
     COMPACT_BODY_BASE_PREFIX_BYTES + (if suite = HYBRID_V1 then MLKEM768_CIPHERTEXT_BYTES else 0)"

definition compactBodyBytesForUsefulBytes :: "js_string \<Rightarrow> nat \<Rightarrow> nat" where
  "compactBodyBytesForUsefulBytes suite usefulBytes =
     compactBodyPrefixBytesForSuite suite + PLATHO_COMPACT_PAYLOAD_PREFIX_BYTES + usefulBytes + COMPACT_BODY_TAG_BYTES"

definition compactBodyBytesForPayloadBlocks :: "js_string \<Rightarrow> nat \<Rightarrow> nat" where
  "compactBodyBytesForPayloadBlocks suite blocks =
     compactBodyBytesForUsefulBytes suite (blocks * PLATHO_COMPACT_TEXT_BLOCK_BYTES)"

definition compactPayloadReservedTailBytes :: "bool \<Rightarrow> nat" where
  "compactPayloadReservedTailBytes senderRecovery =
     PLATHO_COMPACT_IDENTITY_BYTES + (if senderRecovery then PLATHO_COMPACT_SENDER_RECOVERY_BYTES else 0)"

record capsule_capacity =
  cap_sizeClass :: nat
  cap_maxChunks :: nat
  cap_maxChunkWireBytes :: nat
  cap_oneChunkPlaintextBytes :: nat
  cap_oneChunkBodyBytes :: nat
  cap_maxBodyBytes :: nat
  cap_maxEncryptedPayloadBytes :: nat
  cap_maxUsefulPayloadBytes :: nat
  cap_maxTextBytes :: nat
  cap_maxImageBytes :: nat

definition COMPACT_IMAGE_CONTENT_HEADER_BYTES :: nat where "COMPACT_IMAGE_CONTENT_HEADER_BYTES = 0"

definition getCompactCapsuleCapacity :: "js_string \<Rightarrow> int option \<Rightarrow> nat option \<Rightarrow> capsule_capacity res" where
  "getCompactCapsuleCapacity suite requestedClass maxOnChainBodyBytes =
     andThen (assertSupportedPrivateSuite suite) (\<lambda>_.
     andThen (normalizeCapsuleSizeClass (or_default requestedClass 1)) (\<lambda>sizeClass.
     andThen (usefulBytesForCapsuleSizeClass (int sizeClass)) (\<lambda>useful.
     andThen (compactMaxChunkWireBytesForSuite suite) (\<lambda>wire.
       (let maxBody = compactBodyBytesForUsefulBytes suite useful in
        guard (\<not> maxBody > or_default maxOnChainBodyBytes PLATHO_ONCHAIN_BODY_MAX_BYTES)
          (JsError ''Compact capsule capacity exceeds on-chain body cap'')
          (Inr \<lparr>cap_sizeClass = sizeClass, cap_maxChunks = useful div PLATHO_COMPACT_TEXT_BLOCK_BYTES,
             cap_maxChunkWireBytes = wire,
             cap_oneChunkPlaintextBytes = PLATHO_COMPACT_PAYLOAD_PREFIX_BYTES + PLATHO_COMPACT_TEXT_BLOCK_BYTES,
             cap_oneChunkBodyBytes = compactBodyBytesForPayloadBlocks suite 1,
             cap_maxBodyBytes = maxBody,
             cap_maxEncryptedPayloadBytes = PLATHO_COMPACT_PAYLOAD_PREFIX_BYTES + useful,
             cap_maxUsefulPayloadBytes = useful, cap_maxTextBytes = useful,
             cap_maxImageBytes = useful - COMPACT_IMAGE_CONTENT_HEADER_BYTES\<rparr>))))))"

section \<open>Fields\<close>

definition uint32Bytes :: "int \<Rightarrow> bytes res" where
  "uint32Bytes value =
     guard (\<not> (value < 0 \<or> value > 0xffffffff)) (JsError ''must be an unsigned 32-bit integer'') (Inr (be_bytes 4 (nat value)))"

definition readUint32 :: "bytes \<Rightarrow> nat \<Rightarrow> nat res" where
  "readUint32 bytes off = guard (\<not> off + 4 > length bytes) (JsError ''is truncated'')
     (Inr (be_value (slice off (off + 4) bytes)))"

definition base64urlFixedBytes :: "js_string option \<Rightarrow> nat \<Rightarrow> bytes res" where
  "base64urlFixedBytes value n =
     (case value of None \<Rightarrow> Inl (TypeError ''Expected base64url string'')
      | Some s \<Rightarrow> andThen (base64urlDecode s) (\<lambda>bs. assertLength bs n))"

text \<open>A 256-bit value as its callers pass it: bytes, a text in hex or base64, or an integer.\<close>

datatype u256 = U256Bytes bytes | U256Text js_string | U256Int int

text \<open>\<open>/^(0x)?[0-9a-fA-F]{64}$/\<close>\<close>

definition is_hash_text :: "js_string \<Rightarrow> bool" where
  "is_hash_text t \<longleftrightarrow>
     (let digits = (if take 2 t = [48, 120] then drop 2 t else t) in
      length digits = 64 \<and> (\<forall>c \<in> set digits. is_hex_any c))"

definition uint256Bytes :: "u256 option \<Rightarrow> bytes res" where
  "uint256Bytes value =
     (case value of
        None \<Rightarrow> writeBigUintBytes 0 32
      | Some (U256Bytes bs) \<Rightarrow> assertLength bs 32
      | Some (U256Text s) \<Rightarrow>
          (let t = trim s in
           if is_hash_text t then hexToBytes t 32
           else andThen (base64urlMaybeDecode t) (\<lambda>bs. assertLength bs 32))
      | Some (U256Int i) \<Rightarrow> writeBigUintBytes i 32)"

text \<open>\<open>bigintHex256\<close> of the number 32 bytes denote: \<open>0x\<close> and 64 digits.\<close>

definition hex256 :: "bytes \<Rightarrow> js_string" where
  "hex256 bs = [48, 120] @ bytes_hex bs"

text \<open>\<open>assertHashHex\<close>: \<open>/^0x[0-9a-f]{64}$/\<close>, not zero.\<close>

definition assertHashHex :: "js_string \<Rightarrow> js_string res" where
  "assertHashHex value =
     guard (take 2 value = [48, 120] \<and> is_hex_of_length 64 (drop 2 value))
       (JsError ''must be a canonical uint256 hex string'')
       (guard (be_value (hex_bytes (drop 2 value)) \<noteq> 0) (JsError ''must not be zero'') (Inr value))"

definition compactHashBytes :: "js_string \<Rightarrow> bytes res" where
  "compactHashBytes hashHex = andThen (assertHashHex hashHex) (\<lambda>h. hexToBytes h 32)"

section \<open>The identity section\<close>

record capsule_identity =
  id_signingPublicKey :: bytes
  id_profileVersion :: int
  id_avatarHash :: js_string

definition privateCapsuleIdentityBytes :: "bytes \<Rightarrow> int option \<Rightarrow> bytes \<Rightarrow> bytes res" where
  "privateCapsuleIdentityBytes signingPublicKey profileVersion avatarHash =
     andThen (assertLength signingPublicKey 32) (\<lambda>key.
     andThen (uint32Bytes (or_default profileVersion 0)) (\<lambda>version.
     andThen (assertLength avatarHash 32) (\<lambda>avatar.
       (let bytes = key @ version @ avatar in
        guard (length bytes = PLATHO_COMPACT_IDENTITY_BYTES) (JsError ''Private capsule identity section size drift'')
          (Inr bytes)))))"

definition privateCapsuleIdentityFromBytes :: "bytes \<Rightarrow> capsule_identity res" where
  "privateCapsuleIdentityFromBytes bytes =
     andThen (assertLength bytes PLATHO_COMPACT_IDENTITY_BYTES) (\<lambda>bytes.
     andThen (readUint32 bytes 32) (\<lambda>version.
       Inr \<lparr>id_signingPublicKey = slice 0 32 bytes, id_profileVersion = int version,
            id_avatarHash = hex256 (slice 36 68 bytes)\<rparr>))"

section \<open>Timestamps\<close>

definition capsuleTimestampSecond :: "js_num \<Rightarrow> nat res" where
  "capsuleTimestampSecond value =
     guard (isSafeInteger value \<and> \<not> intOf value < 0 \<and> intOf value mod 1000 = 0)
       (JsError ''must be second-aligned milliseconds'')
       (guard (\<not> intOf value div 1000 > 0xffffffff) (JsError ''must fit uint32 seconds'')
         (Inr (nat (intOf value div 1000))))"

definition alignCapsuleTimestampMs :: "js_num \<Rightarrow> bool \<Rightarrow> int res" where
  "alignCapsuleTimestampMs value up =
     guard (isSafeInteger value \<and> \<not> intOf value < 0) (JsError ''must be safe integer milliseconds'')
       (let seconds = (if up then (intOf value + 999) div 1000 else intOf value div 1000) in
        guard (\<not> seconds > 0xffffffff) (JsError ''must fit uint32 seconds'') (Inr (seconds * 1000)))"

record timestamp_options =
  to_now :: int
  to_maxTtlMs :: "int option"
  to_clockSkewMs :: "int option"
  to_enforceExpiry :: "bool option"

record capsule_header1 =
  h1_version :: int
  h1_flags :: "int option"
  h1_createdAt :: js_num
  h1_expiresAt :: js_num
  h1_clientNonce :: "js_string option"

definition assertCapsuleTimestampPolicy :: "capsule_header1 \<Rightarrow> timestamp_options \<Rightarrow> unit res" where
  "assertCapsuleTimestampPolicy header1 options =
     (let now = to_now options;
          maxTtl = or_default (to_maxTtlMs options) MAX_CAPSULE_TTL_MS;
          skew = or_default (to_clockSkewMs options) DEFAULT_CLOCK_SKEW_MS;
          created = intOf (h1_createdAt header1); expires = intOf (h1_expiresAt header1) in
      guard (\<not> (\<not> isSafeInteger (h1_createdAt header1) \<or> \<not> isSafeInteger (h1_expiresAt header1)))
        (JsError ''Private capsule timestamps must be safe integer milliseconds'')
      (guard (\<not> created > now + skew) (JsError ''Private capsule was created too far in the future'')
      (guard (\<not> expires \<le> created) (JsError ''Private capsule expiry must be after creation time'')
      (guard (\<not> expires - created > maxTtl) (JsError ''Private capsule TTL exceeds policy'')
      (guard (\<not> (to_enforceExpiry options \<noteq> Some False \<and> expires \<le> now)) (JsError ''Private capsule is expired'')
        (Inr ()))))))"

definition DEFAULT_CAPSULE_TTL_MS :: int where "DEFAULT_CAPSULE_TTL_MS = 24 * 60 * 60 * 1000"

text \<open>
  Header 1 of a new private or conversation capsule: the requested times with their defaults, aligned
  outwards to seconds, under the policy. \<open>random\<close> is the 16 bytes of \<open>randomBytes\<close>.
\<close>

record header1_request =
  hr_createdAt :: "int option"
  hr_expiresAt :: "int option"
  hr_ttlMs :: "int option"
  hr_clientNonce :: "js_string option"

definition aligned_times :: "header1_request \<Rightarrow> int \<Rightarrow> (int \<times> int) res" where
  "aligned_times request now =
     (let requestedCreatedAt = or_default (hr_createdAt request) now;
          requestedExpiresAt = or_default (hr_expiresAt request)
            (requestedCreatedAt + or_default (hr_ttlMs request) DEFAULT_CAPSULE_TTL_MS) in
      andThen (alignCapsuleTimestampMs (js_of_int requestedCreatedAt) False) (\<lambda>createdAt.
      andThen (alignCapsuleTimestampMs (js_of_int requestedExpiresAt) True) (\<lambda>expiresAt.
        Inr (createdAt, expiresAt))))"

definition new_header1 :: "header1_request \<Rightarrow> bytes \<Rightarrow> int \<Rightarrow> int \<Rightarrow> capsule_header1" where
  "new_header1 request random createdAt expiresAt =
     \<lparr>h1_version = 1, h1_flags = Some 0, h1_createdAt = js_of_int createdAt, h1_expiresAt = js_of_int expiresAt,
      h1_clientNonce = Some (or_default (hr_clientNonce request) (base64urlEncode random))\<rparr>"

definition header1_for :: "header1_request \<Rightarrow> bytes \<Rightarrow> timestamp_options \<Rightarrow> capsule_header1 res" where
  "header1_for request random options =
     andThen (aligned_times request (to_now options)) (\<lambda>(createdAt, expiresAt).
       (let header1 = new_header1 request random createdAt expiresAt in
        andThen (assertCapsuleTimestampPolicy header1 options) (\<lambda>_. Inr header1)))"

section \<open>Header 1\<close>

definition privateCapsuleHeader1Bytes :: "capsule_header1 \<Rightarrow> bytes res" where
  "privateCapsuleHeader1Bytes header1 =
     guard (h1_version header1 = 1) (JsError ''Invalid Platho private capsule header1'')
     (andThen (uint8Byte (or_default (h1_flags header1) 0)) (\<lambda>flags.
      guard (flags = 0) (JsError ''Private capsule header1 flags must be zero in v1'')
     (andThen (capsuleTimestampSecond (h1_createdAt header1)) (\<lambda>created.
      andThen (uint32Bytes (int created)) (\<lambda>createdBytes.
      andThen (capsuleTimestampSecond (h1_expiresAt header1)) (\<lambda>expires.
      andThen (uint32Bytes (int expires)) (\<lambda>expiresBytes.
      andThen (base64urlFixedBytes (h1_clientNonce header1) 16) (\<lambda>nonce.
        (let bytes = HEADER1_MAGIC @ [PROTOCOL_VERSION, flags] @ createdBytes @ expiresBytes @ nonce in
         guard (length bytes = HEADER1_BYTES) (JsError ''Private capsule header1 binary size drift'') (Inr bytes))))))))))"

definition privateCapsuleHeader1ObjectFromBytes :: "bytes \<Rightarrow> capsule_header1 res" where
  "privateCapsuleHeader1ObjectFromBytes bytes =
     guard (length bytes = HEADER1_BYTES) (JsError ''Private capsule header1 binary size drift'')
     (guard (slice 0 4 bytes = HEADER1_MAGIC) (JsError ''Private capsule header1 magic mismatch'')
     (guard (bytes ! 4 = PROTOCOL_VERSION) (JsError ''Unsupported private capsule header1 version'')
     (guard (bytes ! 5 = 0) (JsError ''Private capsule header1 flags must be zero in v1'')
     (andThen (readUint32 bytes 6) (\<lambda>created.
      andThen (readUint32 bytes 10) (\<lambda>expires.
        Inr \<lparr>h1_version = uint (bytes ! 4), h1_flags = Some (uint (bytes ! 5)),
             h1_createdAt = js_of_int (int created * 1000), h1_expiresAt = js_of_int (int expires * 1000),
             h1_clientNonce = Some (base64urlEncode (slice 14 30 bytes))\<rparr>)))))) "

definition introCanonicalHeader1 :: capsule_header1 where
  "introCanonicalHeader1 =
     \<lparr>h1_version = 1, h1_flags = Some 0, h1_createdAt = js_of_int 0, h1_expiresAt = js_of_int MAX_CAPSULE_TTL_MS,
      h1_clientNonce = Some (base64urlEncode (replicate 16 0))\<rparr>"

section \<open>Header 0\<close>

record capsule_header0 =
  h0_version :: int
  h0_kind :: js_string
  h0_publishKind :: int
  h0_sizeClass :: int
  h0_cryptoSuite :: int
  h0_suite :: js_string
  h0_senderKeyId :: "js_string option"
  h0_ephemeralScanPub :: "js_string option"
  h0_viewTag :: "int option"
  h0_bucketKey :: "u256 option"
  h0_ephemeralR :: "u256 option"

definition KIND_PRIVATE :: js_string where "KIND_PRIVATE = str ''private''"
definition KIND_CONV :: js_string where "KIND_CONV = str ''conv''"
definition KIND_INTRO :: js_string where "KIND_INTRO = str ''intro''"

text \<open>What the three writers share: the suite checks and the eight leading bytes.\<close>

definition header0_start :: "capsule_header0 \<Rightarrow> string \<Rightarrow> bytes res" where
  "header0_start h mismatch =
     andThen (assertAllowedPrivateCapsulePair (h0_sizeClass h) (h0_cryptoSuite h)) (\<lambda>_.
     andThen (suiteByteForSuite (h0_suite h)) (\<lambda>suiteByte.
     guard (h0_cryptoSuite h = suiteByte) (JsError mismatch)
    (andThen (uint8Byte (h0_publishKind h)) (\<lambda>publishKind.
     andThen (uint8Byte (h0_sizeClass h)) (\<lambda>sizeClass.
     andThen (uint8Byte (h0_cryptoSuite h)) (\<lambda>cryptoSuite.
       Inr (HEADER0_MAGIC @ [PROTOCOL_VERSION, publishKind, sizeClass, cryptoSuite])))))))"

definition privateCapsuleHeader0Bytes :: "capsule_header0 \<Rightarrow> bytes res" where
  "privateCapsuleHeader0Bytes h =
     guard (h0_version h = 1 \<and> h0_kind h = KIND_PRIVATE) (JsError ''Invalid Platho private capsule header0'')
     (guard (h0_publishKind h = PUBLISH_PRIVATE) (JsError ''Legacy private capsule header0 publishKind must be 1 (PRIVATE)'')
     (andThen (header0_start h ''Private capsule header0 suite byte mismatch'') (\<lambda>start.
      andThen (base64urlFixedBytes (h0_senderKeyId h) 32) (\<lambda>sender.
      andThen (base64urlFixedBytes (h0_ephemeralScanPub h) 32) (\<lambda>scan.
      andThen (uint16Be (or_default (h0_viewTag h) 0)) (\<lambda>tag.
        (let bytes = start @ sender @ scan @ tag in
         guard (length bytes = HEADER0_BYTES) (JsError ''Private capsule header0 binary size drift'') (Inr bytes))))))))"

definition convCapsuleHeader0Bytes :: "capsule_header0 \<Rightarrow> bytes res" where
  "convCapsuleHeader0Bytes h =
     guard (h0_version h = 1) (JsError ''Invalid Platho CONV capsule header0'')
     (guard (h0_publishKind h = PUBLISH_CONV) (JsError ''CONV capsule header0 publishKind must be 1'')
     (andThen (header0_start h ''CONV capsule header0 suite byte mismatch'') (\<lambda>start.
      andThen (uint256Bytes (h0_bucketKey h)) (\<lambda>bucket.
        (let bytes = start @ bucket in
         guard (length bytes = HEADER0_BYTES_CONV) (JsError ''CONV capsule header0 binary size drift'') (Inr bytes))))))"

definition introCapsuleHeader0Bytes :: "capsule_header0 \<Rightarrow> bytes res" where
  "introCapsuleHeader0Bytes h =
     guard (h0_version h = 1) (JsError ''Invalid Platho INTRO capsule header0'')
     (guard (h0_publishKind h = PUBLISH_INTRO) (JsError ''INTRO capsule header0 publishKind must be 3'')
     (andThen (header0_start h ''INTRO capsule header0 suite byte mismatch'') (\<lambda>start.
      andThen (uint256Bytes (h0_ephemeralR h)) (\<lambda>r.
      andThen (uint16Be (or_default (h0_viewTag h) 0)) (\<lambda>tag.
        (let bytes = start @ r @ tag in
         guard (length bytes = HEADER0_BYTES_INTRO) (JsError ''INTRO capsule header0 binary size drift'') (Inr bytes)))))))"

text \<open>What the three readers share: length, magic, version, publish kind and the suite checks.\<close>

definition read_header0_start :: "nat \<Rightarrow> int \<Rightarrow> string list \<Rightarrow> bytes \<Rightarrow> js_string res" where
  "read_header0_start n kind messages bytes =
     guard (length bytes = n) (JsError (messages ! 0))
     (guard (slice 0 4 bytes = HEADER0_MAGIC) (JsError (messages ! 1))
     (guard (bytes ! 4 = PROTOCOL_VERSION) (JsError (messages ! 2))
     (guard (uint (bytes ! 5) = kind) (JsError (messages ! 3))
     (andThen (assertAllowedPrivateCapsulePair (uint (bytes ! 6)) (uint (bytes ! 7))) (\<lambda>_.
        suiteForByte (uint (bytes ! 7)))))))"

definition header0_read :: "js_string \<Rightarrow> bytes \<Rightarrow> js_string \<Rightarrow> capsule_header0" where
  "header0_read kind bytes suite =
     \<lparr>h0_version = uint (bytes ! 4), h0_kind = kind, h0_publishKind = uint (bytes ! 5),
      h0_sizeClass = uint (bytes ! 6), h0_cryptoSuite = uint (bytes ! 7), h0_suite = suite,
      h0_senderKeyId = None, h0_ephemeralScanPub = None, h0_viewTag = None, h0_bucketKey = None, h0_ephemeralR = None\<rparr>"

definition privateCapsuleHeader0ObjectFromBytes :: "bytes \<Rightarrow> capsule_header0 res" where
  "privateCapsuleHeader0ObjectFromBytes bytes =
     andThen (read_header0_start HEADER0_BYTES PUBLISH_PRIVATE
       [''Private capsule header0 binary size drift'', ''Private capsule header0 magic mismatch'',
        ''Unsupported private capsule header0 version'', ''Legacy private capsule header0 publishKind mismatch (expected 1)''] bytes) (\<lambda>suite.
     andThen (readUint16 bytes 72) (\<lambda>tag.
       Inr ((header0_read KIND_PRIVATE bytes suite)\<lparr>h0_senderKeyId := Some (base64urlEncode (slice 8 40 bytes)),
          h0_ephemeralScanPub := Some (base64urlEncode (slice 40 72 bytes)), h0_viewTag := Some (int tag)\<rparr>)))"

definition convCapsuleHeader0ObjectFromBytes :: "bytes \<Rightarrow> capsule_header0 res" where
  "convCapsuleHeader0ObjectFromBytes bytes =
     andThen (read_header0_start HEADER0_BYTES_CONV PUBLISH_CONV
       [''CONV capsule header0 binary size drift'', ''CONV capsule header0 magic mismatch'',
        ''Unsupported CONV capsule header0 version'', ''CONV capsule header0 publishKind mismatch''] bytes) (\<lambda>suite.
       Inr ((header0_read KIND_CONV bytes suite)\<lparr>h0_bucketKey := Some (U256Text (base64urlEncode (slice 8 40 bytes)))\<rparr>))"

definition introCapsuleHeader0ObjectFromBytes :: "bytes \<Rightarrow> capsule_header0 res" where
  "introCapsuleHeader0ObjectFromBytes bytes =
     andThen (read_header0_start HEADER0_BYTES_INTRO PUBLISH_INTRO
       [''INTRO capsule header0 binary size drift'', ''INTRO capsule header0 magic mismatch'',
        ''Unsupported INTRO capsule header0 version'', ''INTRO capsule header0 publishKind mismatch''] bytes) (\<lambda>suite.
     andThen (readUint16 bytes 40) (\<lambda>tag.
       Inr ((header0_read KIND_INTRO bytes suite)\<lparr>h0_ephemeralR := Some (U256Text (base64urlEncode (slice 8 40 bytes))),
          h0_viewTag := Some (int tag)\<rparr>)))"

definition capsuleHeader0Bytes :: "capsule_header0 \<Rightarrow> bytes res" where
  "capsuleHeader0Bytes h =
     (if h0_kind h = KIND_CONV then convCapsuleHeader0Bytes h
      else if h0_kind h = KIND_INTRO then introCapsuleHeader0Bytes h
      else privateCapsuleHeader0Bytes h)"

definition capsuleHeader0ObjectFromBytes :: "bytes \<Rightarrow> capsule_header0 res" where
  "capsuleHeader0ObjectFromBytes bytes =
     (if length bytes = HEADER0_BYTES_CONV then convCapsuleHeader0ObjectFromBytes bytes
      else if length bytes = HEADER0_BYTES_INTRO then introCapsuleHeader0ObjectFromBytes bytes
      else privateCapsuleHeader0ObjectFromBytes bytes)"

section \<open>Fields written and read\<close>

lemma assertLength_Inr [res_simps]: "assertLength bs n = Inr r \<longleftrightarrow> length bs = n \<and> r = bs"
  by (auto simp: assertLength_def guard_def)

lemma uint32Bytes_Inr: "uint32Bytes v = Inr b \<longleftrightarrow> 0 \<le> v \<and> v < 4294967296 \<and> b = be_bytes 4 (nat v)"
  by (auto simp: uint32Bytes_def guard_def)

lemma uint8Byte_Inr: "uint8Byte v = Inr b \<longleftrightarrow> 0 \<le> v \<and> v < 256 \<and> b = word_of_int v"
  by (auto simp: uint8Byte_def guard_def)

lemma uint8Byte_uint: "uint8Byte (uint (b :: byte)) = Inr b"
  using unsigned_less [of b] by (simp add: uint8Byte_Inr)

lemma readUint32_at:
  assumes "bs = xs @ be_bytes 4 v @ ys" "off = length xs" "v < 4294967296"
  shows "readUint32 bs off = Inr v"
  using assms by (simp add: readUint32_def slice_def be_value_be_bytes del: be_bytes.simps)

text \<open>A field read back is the bytes it was read from.\<close>

lemma readUint32_back:
  assumes "readUint32 bs off = Inr v"
  shows "be_bytes 4 v = slice off (off + 4) bs" "v < 4294967296"
proof -
  have v: "v = be_value (slice off (off + 4) bs)" "length (slice off (off + 4) bs) = 4"
    using assms by (auto simp: readUint32_def res_simps)
  show "be_bytes 4 v = slice off (off + 4) bs" by (metis v be_bytes_be_value)
  show "v < 4294967296" using be_value_less [of "slice off (off + 4) bs"] unfolding v(2) by (simp add: v(1))
qed

lemma readUint16_back:
  assumes "readUint16 bs off = Inr v"
  shows "uint16Be (int v) = Inr (slice off (off + 2) bs)"
proof -
  have v: "v = be_value (slice off (off + 2) bs)" "length (slice off (off + 2) bs) = 2"
    using assms by (auto simp: readUint16_def res_simps)
  have "v < 65536" using be_value_less [of "slice off (off + 2) bs"] unfolding v(2) by (simp add: v(1))
  moreover have "be_bytes 2 v = slice off (off + 2) bs" by (metis v be_bytes_be_value)
  ultimately show ?thesis by (simp add: uint16Be_Inr del: be_bytes.simps)
qed

lemma base64urlFixedBytes_encoded [simp]:
  "base64urlFixedBytes (Some (base64urlEncode bs)) n = assertLength bs n"
  by (simp add: base64urlFixedBytes_def)

lemma length_base64urlEncode: "length (base64urlEncode bs) = (8 * length bs + 5) div 6"
  by (simp add: base64urlEncode_def length_sextets)

lemma base64url_no_space: "\<forall>c \<in> set (base64urlEncode bs). \<not> is_space c"
proof -
  have "\<not> is_space (sextet_char 45 95 v)" if "v < 64" for v
    using that by (auto simp: sextet_char_def is_space_def)
  with sextets_less [of bs] show ?thesis by (auto simp: base64urlEncode_def)
qed

lemma uint256Bytes_encoded:
  assumes "length bs = 32"
  shows "uint256Bytes (Some (U256Text (base64urlEncode bs))) = Inr bs"
proof -
  have t: "trim (base64urlEncode bs) = base64urlEncode bs" by (rule trim_id) (rule base64url_no_space)
  have "length (base64urlEncode bs) = 43" using assms by (simp add: length_base64urlEncode)
  then have "\<not> is_hash_text (base64urlEncode bs)" by (simp add: is_hash_text_def)
  then show ?thesis using assms by (simp add: uint256Bytes_def t base64urlMaybeDecode_def assertLength_def)
qed

lemma uint256Bytes_length: "uint256Bytes v = Inr bs \<Longrightarrow> length bs = 32"
  by (auto simp: uint256Bytes_def writeBigUintBytes_def hexToBytes_def Let_def res_simps ascii_lower_def
      simp del: be_bytes.simps split: option.splits u256.splits if_splits)

section \<open>The eight leading bytes of header 0\<close>

lemma header0_start_Inr:
  "header0_start h e = Inr start \<longleftrightarrow> h0_sizeClass h \<in> {1, 2, 4, 8, 16, 32} \<and> h0_cryptoSuite h = 2 \<and> h0_suite h = HYBRID_V1
     \<and> 0 \<le> h0_publishKind h \<and> h0_publishKind h < 256
     \<and> start = HEADER0_MAGIC @ [PROTOCOL_VERSION, word_of_int (h0_publishKind h), word_of_int (h0_sizeClass h), 2]"
  by (auto simp: header0_start_def res_simps assertAllowedPrivateCapsulePair_def Let_def suiteByteForSuite_def
      suite_defs CAPSULE_SIZE_CLASS_def uint8Byte_Inr split: if_splits)

lemma header0_start_length: "header0_start h e = Inr start \<Longrightarrow> length start = 8"
  by (auto simp: header0_start_Inr HEADER0_MAGIC_def)

lemma read_header0_start_Inr:
  "read_header0_start n kind es bytes = Inr suite \<longleftrightarrow> length bytes = n \<and> slice 0 4 bytes = HEADER0_MAGIC
     \<and> bytes ! 4 = PROTOCOL_VERSION \<and> uint (bytes ! 5) = kind \<and> uint (bytes ! 6) \<in> {1, 2, 4, 8, 16, 32}
     \<and> bytes ! 7 = 2 \<and> suite = HYBRID_V1"
proof -
  have "uint (b :: byte) = 2 \<longleftrightarrow> b = 2" for b using word_uint_eq_iff [of b 2] by simp
  then show ?thesis
    by (auto simp: read_header0_start_def res_simps assertAllowedPrivateCapsulePair_def Let_def suiteForByte_def
        suite_defs CAPSULE_SIZE_CLASS_def split: if_splits)
qed

lemma read_header0_start_back:
  assumes "read_header0_start n kind es bytes = Inr suite" "8 \<le> n" "h0_publishKind h = uint (bytes ! 5)"
    "h0_sizeClass h = uint (bytes ! 6)" "h0_cryptoSuite h = uint (bytes ! 7)" "h0_suite h = suite"
  shows "header0_start h e = Inr (slice 0 8 bytes)"
proof -
  note r = assms(1) [unfolded read_header0_start_Inr]
  have "slice 0 8 bytes = HEADER0_MAGIC @ [PROTOCOL_VERSION, bytes ! 5, bytes ! 6, 2]"
    using prefix_slices [of bytes] r assms(2) by simp
  moreover have "uint (bytes ! 5) < 256" using unsigned_less [of "bytes ! 5"] by simp
  moreover have "word_of_int kind = bytes ! 5" "0 \<le> kind" using r by auto
  ultimately show ?thesis unfolding header0_start_Inr assms(3-6) using r by simp
qed

lemma header0_start_read:
  assumes "header0_start h e = Inr start" "length rest = n - 8" "8 \<le> n" "h0_publishKind h = kind"
  shows "read_header0_start n kind es (start @ rest) = Inr (h0_suite h)"
    "h0_sizeClass (header0_read k (start @ rest) s) = h0_sizeClass h"
    "h0_cryptoSuite (header0_read k (start @ rest) s) = h0_cryptoSuite h"
    "h0_publishKind (header0_read k (start @ rest) s) = h0_publishKind h"
    "h0_version (header0_read k (start @ rest) s) = 1"
proof -
  note r = assms(1) [unfolded header0_start_Inr]
  have b: "(start @ rest) ! 4 = PROTOCOL_VERSION" "(start @ rest) ! 5 = word_of_int (h0_publishKind h)"
      "(start @ rest) ! 6 = word_of_int (h0_sizeClass h)" "(start @ rest) ! 7 = 2" "slice 0 4 (start @ rest) = HEADER0_MAGIC"
    using r by (simp_all add: HEADER0_MAGIC_def nth_append slice_def)
  have u: "uint (word_of_int (h0_publishKind h) :: byte) = h0_publishKind h" "uint (word_of_int (h0_sizeClass h) :: byte) = h0_sizeClass h"
    using r by (auto simp: uint_word_of_int)
  show "read_header0_start n kind es (start @ rest) = Inr (h0_suite h)"
    using b u r assms(2-4) header0_start_length [OF assms(1)] by (simp add: read_header0_start_Inr)
  show "h0_sizeClass (header0_read k (start @ rest) s) = h0_sizeClass h"
    "h0_cryptoSuite (header0_read k (start @ rest) s) = h0_cryptoSuite h"
    "h0_publishKind (header0_read k (start @ rest) s) = h0_publishKind h"
    "h0_version (header0_read k (start @ rest) s) = 1"
    using b u r by (simp_all add: header0_read_def PROTOCOL_VERSION_def)
qed

lemma kinds_differ [simp]: "KIND_PRIVATE \<noteq> KIND_CONV" "KIND_CONV \<noteq> KIND_PRIVATE" "KIND_PRIVATE \<noteq> KIND_INTRO" "KIND_INTRO \<noteq> KIND_PRIVATE" "KIND_CONV \<noteq> KIND_INTRO"
  "KIND_INTRO \<noteq> KIND_CONV"
  by (simp_all add: KIND_PRIVATE_def KIND_CONV_def KIND_INTRO_def str_def)

lemma slice_to_end: "n = length xs \<Longrightarrow> slice a n xs = drop a xs"
  by (simp add: slice_def)

lemma private_header0_back:
  assumes "privateCapsuleHeader0ObjectFromBytes bytes = Inr h"
  shows "capsuleHeader0Bytes h = Inr bytes" "length bytes = 74"
proof -
  obtain suite tag es where r: "read_header0_start HEADER0_BYTES PUBLISH_PRIVATE es bytes = Inr suite"
      "readUint16 bytes 72 = Inr tag"
      "h = (header0_read KIND_PRIVATE bytes suite)\<lparr>h0_senderKeyId := Some (base64urlEncode (slice 8 40 bytes)),
          h0_ephemeralScanPub := Some (base64urlEncode (slice 40 72 bytes)), h0_viewTag := Some (int tag)\<rparr>"
    using assms unfolding privateCapsuleHeader0ObjectFromBytes_def res_simps by blast
  note f = r(1) [unfolded read_header0_start_Inr]
  have start: "header0_start h e = Inr (slice 0 8 bytes)" for e
    by (rule read_header0_start_back [OF r(1)]) (simp_all add: r(3) header0_read_def HEADER0_BYTES_def)
  have "slice 0 8 bytes @ slice 8 40 bytes @ slice 40 72 bytes @ slice 72 74 bytes = bytes"
    using f by (simp add: slice_cat HEADER0_BYTES_def) (simp add: slice_to_end)
  moreover have "h0_version h = 1" "h0_kind h = KIND_PRIVATE" "h0_publishKind h = PUBLISH_PRIVATE"
    using f by (simp_all add: r(3) header0_read_def PROTOCOL_VERSION_def)
  ultimately show "capsuleHeader0Bytes h = Inr bytes" "length bytes = 74"
    using f readUint16_back [OF r(2)] start
    by (simp_all add: capsuleHeader0Bytes_def privateCapsuleHeader0Bytes_def r(3) or_default_def assertLength_def HEADER0_BYTES_def)
qed

lemma conv_header0_back:
  assumes "convCapsuleHeader0ObjectFromBytes bytes = Inr h"
  shows "capsuleHeader0Bytes h = Inr bytes" "length bytes = 40"
proof -
  obtain suite es where r: "read_header0_start HEADER0_BYTES_CONV PUBLISH_CONV es bytes = Inr suite"
      "h = (header0_read KIND_CONV bytes suite)\<lparr>h0_bucketKey := Some (U256Text (base64urlEncode (slice 8 40 bytes)))\<rparr>"
    using assms unfolding convCapsuleHeader0ObjectFromBytes_def res_simps by blast
  note f = r(1) [unfolded read_header0_start_Inr]
  have start: "header0_start h e = Inr (slice 0 8 bytes)" for e
    by (rule read_header0_start_back [OF r(1)]) (simp_all add: r(2) header0_read_def HEADER0_BYTES_CONV_def)
  have "slice 0 8 bytes @ slice 8 40 bytes = bytes"
    using f by (simp add: slice_cat HEADER0_BYTES_CONV_def) (simp add: slice_to_end)
  moreover have "h0_version h = 1" "h0_kind h = KIND_CONV" "h0_publishKind h = PUBLISH_CONV"
    using f by (simp_all add: r(2) header0_read_def PROTOCOL_VERSION_def)
  moreover have "uint256Bytes (h0_bucketKey h) = Inr (slice 8 40 bytes)"
    using f uint256Bytes_encoded [of "slice 8 40 bytes"] by (simp add: r(2) HEADER0_BYTES_CONV_def)
  ultimately show "capsuleHeader0Bytes h = Inr bytes" "length bytes = 40"
    using f start by (simp_all add: capsuleHeader0Bytes_def convCapsuleHeader0Bytes_def HEADER0_BYTES_CONV_def)
qed

lemma intro_header0_back:
  assumes "introCapsuleHeader0ObjectFromBytes bytes = Inr h"
  shows "capsuleHeader0Bytes h = Inr bytes" "length bytes = 42"
proof -
  obtain suite tag es where r: "read_header0_start HEADER0_BYTES_INTRO PUBLISH_INTRO es bytes = Inr suite"
      "readUint16 bytes 40 = Inr tag"
      "h = (header0_read KIND_INTRO bytes suite)\<lparr>h0_ephemeralR := Some (U256Text (base64urlEncode (slice 8 40 bytes))),
          h0_viewTag := Some (int tag)\<rparr>"
    using assms unfolding introCapsuleHeader0ObjectFromBytes_def res_simps by blast
  note f = r(1) [unfolded read_header0_start_Inr]
  have start: "header0_start h e = Inr (slice 0 8 bytes)" for e
    by (rule read_header0_start_back [OF r(1)]) (simp_all add: r(3) header0_read_def HEADER0_BYTES_INTRO_def)
  have "slice 0 8 bytes @ slice 8 40 bytes @ slice 40 42 bytes = bytes"
    using f by (simp add: slice_cat HEADER0_BYTES_INTRO_def) (simp add: slice_to_end)
  moreover have "h0_version h = 1" "h0_kind h = KIND_INTRO" "h0_publishKind h = PUBLISH_INTRO"
    using f by (simp_all add: r(3) header0_read_def PROTOCOL_VERSION_def)
  moreover have "uint256Bytes (h0_ephemeralR h) = Inr (slice 8 40 bytes)"
    using f uint256Bytes_encoded [of "slice 8 40 bytes"] by (simp add: r(3) HEADER0_BYTES_INTRO_def)
  ultimately show "capsuleHeader0Bytes h = Inr bytes" "length bytes = 42"
    using f readUint16_back [OF r(2)] start
    by (simp_all add: capsuleHeader0Bytes_def introCapsuleHeader0Bytes_def r(3) or_default_def HEADER0_BYTES_INTRO_def)
qed

lemma header0_back:
  assumes "capsuleHeader0ObjectFromBytes bytes = Inr h"
  shows "capsuleHeader0Bytes h = Inr bytes"
  using assms private_header0_back(1) conv_header0_back(1) intro_header0_back(1)
  by (auto simp: capsuleHeader0ObjectFromBytes_def split: if_splits)

section \<open>Header 1\<close>

lemma capsuleTimestampSecond_Inr:
  "capsuleTimestampSecond v = Inr s \<longleftrightarrow> isSafeInteger v \<and> intOf v = int s * 1000 \<and> s < 4294967296"
proof -
  have "(\<not> i < 0 \<and> i mod 1000 = 0 \<and> \<not> i div 1000 > 0xffffffff \<and> s = nat (i div 1000)) \<longleftrightarrow> i = int s * 1000 \<and> s < 4294967296" for i
    by auto
  from this [of "intOf v"] show ?thesis by (auto simp: capsuleTimestampSecond_def res_simps)
qed

lemma js_second_safe: "s < 4294967296 \<Longrightarrow> isSafeInteger (js_of_int (int s * 1000))"
  by (simp add: js_of_int_def MAX_SAFE_INTEGER_def)

lemma header1_back:
  assumes "privateCapsuleHeader1ObjectFromBytes bytes = Inr h"
  shows "privateCapsuleHeader1Bytes h = Inr bytes"
proof -
  obtain c e where r: "length bytes = 30" "slice 0 4 bytes = HEADER1_MAGIC" "bytes ! 4 = PROTOCOL_VERSION" "bytes ! 5 = 0"
      "readUint32 bytes 6 = Inr c" "readUint32 bytes 10 = Inr e"
      "h = \<lparr>h1_version = uint (bytes ! 4), h1_flags = Some (uint (bytes ! 5)),
             h1_createdAt = js_of_int (int c * 1000), h1_expiresAt = js_of_int (int e * 1000),
             h1_clientNonce = Some (base64urlEncode (slice 14 30 bytes))\<rparr>"
    using assms unfolding privateCapsuleHeader1ObjectFromBytes_def res_simps HEADER1_BYTES_def by blast
  note c = readUint32_back [OF r(5)] and e = readUint32_back [OF r(6)]
  have t: "capsuleTimestampSecond (js_of_int (int c * 1000)) = Inr c" "capsuleTimestampSecond (js_of_int (int e * 1000)) = Inr e"
    using js_second_safe c(2) e(2) by (simp_all add: capsuleTimestampSecond_Inr)
  have u: "uint32Bytes (int c) = Inr (slice 6 10 bytes)" "uint32Bytes (int e) = Inr (slice 10 14 bytes)"
    using c e by (simp_all add: uint32Bytes_Inr)
  have "slice 0 4 bytes @ slice 4 5 bytes @ slice 5 6 bytes @ slice 6 10 bytes @ slice 10 14 bytes @ slice 14 30 bytes = bytes"
    using r(1) by (simp add: slice_cat) (simp add: slice_to_end)
  moreover have "slice 4 5 bytes = [PROTOCOL_VERSION]" "slice 5 6 bytes = [0]"
    using slice_one [of 4 bytes] slice_one [of 5 bytes] r(1,3,4) by (simp_all add: eval_nat_numeral)
  ultimately have "HEADER1_MAGIC @ [PROTOCOL_VERSION, 0] @ slice 6 10 bytes @ slice 10 14 bytes @ slice 14 30 bytes = bytes"
    using r(2) by simp
  then show ?thesis
    using r(1,3,4) t u by (simp add: privateCapsuleHeader1Bytes_def r(7) PROTOCOL_VERSION_def or_default_def uint8Byte_def
        assertLength_def HEADER1_BYTES_def HEADER1_MAGIC_def)
qed

text \<open>
  C14: Both headers have one encoding. What the readers accept, in any of the three forms of header 0
  and for header 1, the writers produce again from the object the readers return, byte for byte; so the
  hashes computed from a header that was read are the hashes of the bytes that were read, and a
  capsule's header cannot be altered without changing what is read from it.
\<close>

theorem capsule_headers_canonical:
  assumes "capsuleHeader0ObjectFromBytes bytes0 = Inr h0" "privateCapsuleHeader1ObjectFromBytes bytes1 = Inr h1"
  shows "capsuleHeader0Bytes h0 = Inr bytes0 \<and> privateCapsuleHeader1Bytes h1 = Inr bytes1"
  using header0_back [OF assms(1)] header1_back [OF assms(2)] by blast

text \<open>The decoded value of a base64url text is its only part the wire keeps.\<close>

definition same_text :: "js_string option \<Rightarrow> js_string option \<Rightarrow> bool" where
  "same_text a b \<longleftrightarrow> base64urlFixedBytes a 32 = base64urlFixedBytes b 32"

lemma readUint16_end:
  assumes "bs = xs @ be_bytes 2 v" "off = length xs" "v < 65536"
  shows "readUint16 bs off = Inr v"
  using readUint16_at [of bs xs v "[]" off] assms by simp

lemma base64urlFixedBytes_Inr: "base64urlFixedBytes v n = Inr b \<Longrightarrow> length b = n"
  by (auto simp: base64urlFixedBytes_def res_simps split: option.splits)

lemma private_header0_written:
  assumes "privateCapsuleHeader0Bytes h = Inr bytes"
  shows "\<exists>h'. privateCapsuleHeader0ObjectFromBytes bytes = Inr h' \<and> length bytes = 74
    \<and> h0_kind h' = h0_kind h \<and> h0_publishKind h' = h0_publishKind h \<and> h0_sizeClass h' = h0_sizeClass h
    \<and> h0_cryptoSuite h' = h0_cryptoSuite h \<and> h0_suite h' = h0_suite h
    \<and> same_text (h0_senderKeyId h') (h0_senderKeyId h) \<and> same_text (h0_ephemeralScanPub h') (h0_ephemeralScanPub h)
    \<and> h0_viewTag h' = Some (or_default (h0_viewTag h) 0)"
proof -
  obtain start sender scan tag where w: "h0_kind h = KIND_PRIVATE" "h0_publishKind h = PUBLISH_PRIVATE"
      "header0_start h ''Private capsule header0 suite byte mismatch'' = Inr start"
      "base64urlFixedBytes (h0_senderKeyId h) 32 = Inr sender" "base64urlFixedBytes (h0_ephemeralScanPub h) 32 = Inr scan"
      "uint16Be (or_default (h0_viewTag h) 0) = Inr tag" "bytes = start @ sender @ scan @ tag"
    using assms unfolding privateCapsuleHeader0Bytes_def Let_def res_simps by blast
  let ?v = "or_default (h0_viewTag h) 0"
  note len = header0_start_length [OF w(3)] base64urlFixedBytes_Inr [OF w(4)] base64urlFixedBytes_Inr [OF w(5)]
  have t: "0 \<le> ?v" "nat ?v < 65536" "tag = be_bytes 2 (nat ?v)" using w(6) by (auto simp: uint16Be_Inr)
  have tag: "readUint16 bytes 72 = Inr (nat ?v)"
    by (rule readUint16_end [of _ "start @ sender @ scan"]) (use len t w(7) in simp_all)
  note r = header0_start_read [OF w(3), of "sender @ scan @ tag" HEADER0_BYTES PUBLISH_PRIVATE, folded w(7)]
  have f: "slice 8 40 bytes = sender" "slice 40 72 bytes = scan" "length bytes = 74"
    using slice_field [of 8 start 40 sender "scan @ tag"] slice_field [of 40 "start @ sender" 72 scan tag] len t(3)
    by (simp_all add: w(7))
  show ?thesis
    using r w(1,2) len t f tag by (simp add: privateCapsuleHeader0ObjectFromBytes_def HEADER0_BYTES_def same_text_def w(4,5)
        assertLength_def) (simp add: header0_read_def)
qed

lemma conv_header0_written:
  assumes "convCapsuleHeader0Bytes h = Inr bytes"
  shows "\<exists>h'. convCapsuleHeader0ObjectFromBytes bytes = Inr h' \<and> length bytes = 40
    \<and> h0_kind h' = KIND_CONV \<and> h0_publishKind h' = h0_publishKind h \<and> h0_sizeClass h' = h0_sizeClass h
    \<and> h0_cryptoSuite h' = h0_cryptoSuite h \<and> h0_suite h' = h0_suite h
    \<and> uint256Bytes (h0_bucketKey h') = uint256Bytes (h0_bucketKey h)"
proof -
  obtain start bucket where w: "h0_publishKind h = PUBLISH_CONV"
      "header0_start h ''CONV capsule header0 suite byte mismatch'' = Inr start"
      "uint256Bytes (h0_bucketKey h) = Inr bucket" "bytes = start @ bucket"
    using assms unfolding convCapsuleHeader0Bytes_def Let_def res_simps by blast
  note len = header0_start_length [OF w(2)] uint256Bytes_length [OF w(3)]
  note r = header0_start_read [OF w(2), of bucket HEADER0_BYTES_CONV PUBLISH_CONV, folded w(4)]
  have f: "slice 8 40 bytes = bucket" "length bytes = 40"
    using slice_field [of 8 start 40 bucket "[]"] len by (simp_all add: w(4))
  show ?thesis
    using r w(1) len f uint256Bytes_encoded [OF len(2)]
    by (simp add: convCapsuleHeader0ObjectFromBytes_def HEADER0_BYTES_CONV_def w(3)) (simp add: header0_read_def)
qed

lemma intro_header0_written:
  assumes "introCapsuleHeader0Bytes h = Inr bytes"
  shows "\<exists>h'. introCapsuleHeader0ObjectFromBytes bytes = Inr h' \<and> length bytes = 42
    \<and> h0_kind h' = KIND_INTRO \<and> h0_publishKind h' = h0_publishKind h \<and> h0_sizeClass h' = h0_sizeClass h
    \<and> h0_cryptoSuite h' = h0_cryptoSuite h \<and> h0_suite h' = h0_suite h
    \<and> uint256Bytes (h0_ephemeralR h') = uint256Bytes (h0_ephemeralR h)
    \<and> h0_viewTag h' = Some (or_default (h0_viewTag h) 0)"
proof -
  obtain start e tag where w: "h0_publishKind h = PUBLISH_INTRO"
      "header0_start h ''INTRO capsule header0 suite byte mismatch'' = Inr start"
      "uint256Bytes (h0_ephemeralR h) = Inr e" "uint16Be (or_default (h0_viewTag h) 0) = Inr tag" "bytes = start @ e @ tag"
    using assms unfolding introCapsuleHeader0Bytes_def Let_def res_simps by blast
  let ?v = "or_default (h0_viewTag h) 0"
  note len = header0_start_length [OF w(2)] uint256Bytes_length [OF w(3)]
  have t: "0 \<le> ?v" "nat ?v < 65536" "tag = be_bytes 2 (nat ?v)" using w(4) by (auto simp: uint16Be_Inr)
  have tag: "readUint16 bytes 40 = Inr (nat ?v)"
    by (rule readUint16_end [of _ "start @ e"]) (use len t w(5) in simp_all)
  note r = header0_start_read [OF w(2), of "e @ tag" HEADER0_BYTES_INTRO PUBLISH_INTRO, folded w(5)]
  have f: "slice 8 40 bytes = e" "length bytes = 42"
    using slice_field [of 8 start 40 e tag] len t(3) by (simp_all add: w(5))
  show ?thesis
    using r w(1) len t f tag uint256Bytes_encoded [OF len(2)]
    by (simp add: introCapsuleHeader0ObjectFromBytes_def HEADER0_BYTES_INTRO_def w(3)) (simp add: header0_read_def)
qed

lemma header1_written:
  assumes "privateCapsuleHeader1Bytes h = Inr bytes"
  shows "\<exists>h'. privateCapsuleHeader1ObjectFromBytes bytes = Inr h' \<and> length bytes = 30
    \<and> intOf (h1_createdAt h') = intOf (h1_createdAt h) \<and> intOf (h1_expiresAt h') = intOf (h1_expiresAt h)
    \<and> base64urlFixedBytes (h1_clientNonce h') 16 = base64urlFixedBytes (h1_clientNonce h) 16"
proof -
  obtain flags c cb e eb nonce where w: "flags = 0" "capsuleTimestampSecond (h1_createdAt h) = Inr c" "uint32Bytes (int c) = Inr cb"
      "capsuleTimestampSecond (h1_expiresAt h) = Inr e" "uint32Bytes (int e) = Inr eb"
      "base64urlFixedBytes (h1_clientNonce h) 16 = Inr nonce"
      "bytes = HEADER1_MAGIC @ [PROTOCOL_VERSION, flags] @ cb @ eb @ nonce"
    using assms unfolding privateCapsuleHeader1Bytes_def Let_def res_simps by blast
  note c = w(2) [unfolded capsuleTimestampSecond_Inr] and e = w(4) [unfolded capsuleTimestampSecond_Inr]
  have b: "cb = be_bytes 4 c" "eb = be_bytes 4 e" using w(3,5) by (simp_all add: uint32Bytes_Inr)
  have len: "length HEADER1_MAGIC = 4" "length nonce = 16" using base64urlFixedBytes_Inr [OF w(6)] by (simp_all add: HEADER1_MAGIC_def)
  have rc: "readUint32 bytes 6 = Inr c"
    by (rule readUint32_at [of _ "HEADER1_MAGIC @ [PROTOCOL_VERSION, flags]" _ "eb @ nonce"]) (use c b len in \<open>simp_all add: w(7)\<close>)
  have re: "readUint32 bytes 10 = Inr e"
    by (rule readUint32_at [of _ "HEADER1_MAGIC @ [PROTOCOL_VERSION, flags] @ cb" _ nonce])
      (use e b len in \<open>simp_all add: w(7)\<close>)
  have f: "slice 0 4 bytes = HEADER1_MAGIC" "bytes ! 4 = PROTOCOL_VERSION" "bytes ! 5 = 0" "length bytes = 30" "slice 14 30 bytes = nonce"
    using len b w(1) slice_field [of 14 "HEADER1_MAGIC @ [PROTOCOL_VERSION, flags] @ cb @ eb" 30 nonce "[]"]
    by (simp_all add: w(7) slice_def HEADER1_MAGIC_def del: be_bytes.simps)
  show ?thesis using f rc re c e len
    by (simp add: privateCapsuleHeader1ObjectFromBytes_def HEADER1_BYTES_def w(6) assertLength_def)
qed

text \<open>
  The headers round-trip. Whatever header 0 the writer accepts is read back, its kind told by the
  length of the bytes alone (74, 40 or 42), with the same publish kind, size class and suite, the same
  32-byte values (sender key and scan key, bucket key, or introduction key) and view tag; header 1 is
  read back with the same timestamps to the millisecond and the same nonce.
\<close>

theorem capsule_headers_roundtrip:
  assumes "capsuleHeader0Bytes h0 = Inr bytes0" "privateCapsuleHeader1Bytes h1 = Inr bytes1"
  shows "\<exists>h0' h1'. capsuleHeader0ObjectFromBytes bytes0 = Inr h0' \<and> privateCapsuleHeader1ObjectFromBytes bytes1 = Inr h1'
    \<and> h0_kind h0' = h0_kind h0 \<and> h0_publishKind h0' = h0_publishKind h0 \<and> h0_sizeClass h0' = h0_sizeClass h0
    \<and> h0_cryptoSuite h0' = h0_cryptoSuite h0 \<and> h0_suite h0' = h0_suite h0
    \<and> (h0_kind h0 = KIND_PRIVATE \<longrightarrow> length bytes0 = 74 \<and> same_text (h0_senderKeyId h0') (h0_senderKeyId h0)
        \<and> same_text (h0_ephemeralScanPub h0') (h0_ephemeralScanPub h0))
    \<and> (h0_kind h0 = KIND_CONV \<longrightarrow> length bytes0 = 40 \<and> uint256Bytes (h0_bucketKey h0') = uint256Bytes (h0_bucketKey h0))
    \<and> (h0_kind h0 = KIND_INTRO \<longrightarrow> length bytes0 = 42 \<and> uint256Bytes (h0_ephemeralR h0') = uint256Bytes (h0_ephemeralR h0))
    \<and> (h0_kind h0 \<noteq> KIND_CONV \<longrightarrow> h0_viewTag h0' = Some (or_default (h0_viewTag h0) 0))
    \<and> intOf (h1_createdAt h1') = intOf (h1_createdAt h1) \<and> intOf (h1_expiresAt h1') = intOf (h1_expiresAt h1)
    \<and> base64urlFixedBytes (h1_clientNonce h1') 16 = base64urlFixedBytes (h1_clientNonce h1) 16"
proof -
  have priv: "h0_kind h0 = KIND_PRIVATE" if "privateCapsuleHeader0Bytes h0 = Inr bytes0"
    using that by (auto simp: privateCapsuleHeader0Bytes_def res_simps)
  obtain h1' where h1': "privateCapsuleHeader1ObjectFromBytes bytes1 = Inr h1'"
      "intOf (h1_createdAt h1') = intOf (h1_createdAt h1)" "intOf (h1_expiresAt h1') = intOf (h1_expiresAt h1)"
      "base64urlFixedBytes (h1_clientNonce h1') 16 = base64urlFixedBytes (h1_clientNonce h1) 16"
    using header1_written [OF assms(2)] by blast
  consider "h0_kind h0 = KIND_CONV" "convCapsuleHeader0Bytes h0 = Inr bytes0"
    | "h0_kind h0 = KIND_INTRO" "introCapsuleHeader0Bytes h0 = Inr bytes0"
    | "h0_kind h0 = KIND_PRIVATE" "privateCapsuleHeader0Bytes h0 = Inr bytes0"
    using assms(1) priv by (auto simp: capsuleHeader0Bytes_def split: if_splits)
  then show ?thesis
  proof cases
    case 1
    with conv_header0_written [OF 1(2)] h1' show ?thesis
      by (auto simp: capsuleHeader0ObjectFromBytes_def header_sizes)
  next
    case 2
    with intro_header0_written [OF 2(2)] h1' show ?thesis
      by (auto simp: capsuleHeader0ObjectFromBytes_def header_sizes)
  next
    case 3
    with private_header0_written [OF 3(2)] h1' show ?thesis
      by (auto simp: capsuleHeader0ObjectFromBytes_def header_sizes)
  qed
qed

section \<open>Timestamps\<close>

lemma alignCapsuleTimestampMs_Inr:
  "alignCapsuleTimestampMs (js_of_int v) up = Inr t \<longleftrightarrow> 0 \<le> v \<and> v \<le> MAX_SAFE_INTEGER
     \<and> t = (if up then (v + 999) div 1000 else v div 1000) * 1000 \<and> t \<le> 4294967295000"
  by (auto simp: alignCapsuleTimestampMs_def res_simps js_of_int_def Let_def)

lemma round_up_1000: "(a + 999) div 1000 = a div 1000 + (if a mod 1000 = 0 then 0 else 1 :: int)"
proof -
  have "(r + 999) div 1000 = 1" if "0 < r" "r < 1000" for r :: int using that by (simp add: div_pos_geq)
  from this [of "a mod 1000"] show ?thesis
    using div_add1_eq [of a 999 1000] pos_mod_bound [of 1000 a] pos_mod_sign [of 1000 a] by auto
qed

lemma second_written:
  assumes "0 \<le> s" "s < 4294967296"
  shows "capsuleTimestampSecond (js_of_int (s * 1000)) = Inr (nat s)" "uint32Bytes (int (nat s)) = Inr (be_bytes 4 (nat s))"
  using assms js_second_safe [of "nat s"] by (simp_all add: capsuleTimestampSecond_Inr uint32Bytes_Inr del: be_bytes.simps)

lemma safe_js_of_int: "isSafeInteger (js_of_int v) \<longleftrightarrow> \<bar>v\<bar> \<le> MAX_SAFE_INTEGER"
  by (simp add: js_of_int_def)

lemma policy_Inr:
  "assertCapsuleTimestampPolicy h options = Inr u \<longleftrightarrow>
     isSafeInteger (h1_createdAt h) \<and> isSafeInteger (h1_expiresAt h)
     \<and> intOf (h1_createdAt h) \<le> to_now options + or_default (to_clockSkewMs options) DEFAULT_CLOCK_SKEW_MS
     \<and> intOf (h1_createdAt h) < intOf (h1_expiresAt h)
     \<and> intOf (h1_expiresAt h) - intOf (h1_createdAt h) \<le> or_default (to_maxTtlMs options) MAX_CAPSULE_TTL_MS
     \<and> (to_enforceExpiry options = Some False \<or> to_now options < intOf (h1_expiresAt h))"
  by (auto simp: assertCapsuleTimestampPolicy_def Let_def res_simps)

definition plain_policy :: "int \<Rightarrow> timestamp_options" where
  "plain_policy now = \<lparr>to_now = now, to_maxTtlMs = None, to_clockSkewMs = None, to_enforceExpiry = None\<rparr>"

lemma header1_for_plain:
  assumes "hr_createdAt request = None" "hr_expiresAt request = None"
    "ttl = or_default (hr_ttlMs request) DEFAULT_CAPSULE_TTL_MS"
    "0 \<le> now" "0 < ttl" "now + ttl \<le> 4294967295000"
    "c = now div 1000 * 1000" "e = (now + ttl + 999) div 1000 * 1000"
  shows "header1_for request random (plain_policy now) =
     (if e - c \<le> MAX_CAPSULE_TTL_MS
      then Inr \<lparr>h1_version = 1, h1_flags = Some 0, h1_createdAt = js_of_int c, h1_expiresAt = js_of_int e,
              h1_clientNonce = Some (or_default (hr_clientNonce request) (base64urlEncode random))\<rparr>
      else Inl (JsError ''Private capsule TTL exceeds policy''))"
proof -
  have le: "e \<le> 4294967295000" using assms(6) by (simp add: assms(8))
  have a: "alignCapsuleTimestampMs (js_of_int now) False = Inr c" "alignCapsuleTimestampMs (js_of_int (now + ttl)) True = Inr e"
    using assms(4-6) le by (simp_all add: alignCapsuleTimestampMs_Inr MAX_SAFE_INTEGER_def assms(7,8))
  have o: "c < e" "c \<le> now" "now < e" "0 \<le> c" using assms(4,5) by (simp_all add: assms(7,8))
  then have "\<bar>c\<bar> \<le> MAX_SAFE_INTEGER" "\<bar>e\<bar> \<le> MAX_SAFE_INTEGER" using le by (simp_all add: MAX_SAFE_INTEGER_def)
  then show ?thesis using o
    by (simp add: header1_for_def aligned_times_def new_header1_def Let_def plain_policy_def or_default_def assms(1,2) a assms(3) [unfolded or_default_def, symmetric])
      (simp add: assertCapsuleTimestampPolicy_def safe_js_of_int Let_def or_default_def DEFAULT_CLOCK_SKEW_MS_def)
qed

text \<open>
  C35: A capsule created now, with a lifetime at least one second under the thirty-day policy, gets the
  header it needs: the creation second has begun and is at most a second old, the capsule does not
  expire before the lifetime it was given, and the policy the recipient applies, at any time from the
  sender's clock less the five minutes of tolerated skew until the capsule expires, accepts it.
\<close>

theorem capsule_timestamps_accepted:
  assumes "hr_createdAt request = None" "hr_expiresAt request = None" "hr_clientNonce request = None" "length random = 16"
    and "ttl = or_default (hr_ttlMs request) DEFAULT_CAPSULE_TTL_MS"
    and "0 \<le> now" "0 < ttl" "ttl + 1000 \<le> MAX_CAPSULE_TTL_MS" "now + ttl \<le> 4294967295000"
  shows "\<exists>h bytes. header1_for request random (plain_policy now) = Inr h \<and> privateCapsuleHeader1Bytes h = Inr bytes
    \<and> intOf (h1_createdAt h) \<le> now \<and> now < intOf (h1_createdAt h) + 1000
    \<and> now + ttl \<le> intOf (h1_expiresAt h) \<and> intOf (h1_expiresAt h) < now + ttl + 1000
    \<and> (\<forall>later. now - DEFAULT_CLOCK_SKEW_MS \<le> later \<longrightarrow> later < now + ttl
        \<longrightarrow> assertCapsuleTimestampPolicy h (plain_policy later) = Inr ())"
proof -
  define c where "c = now div 1000 * 1000"
  define e where "e = (now + ttl + 999) div 1000 * 1000"
  have c: "c \<le> now" "now < c + 1000" "c mod 1000 = 0" "0 \<le> c" using assms(6) by (simp_all add: c_def)
  have e: "now + ttl \<le> e" "e < now + ttl + 1000" "e mod 1000 = 0" by (simp_all add: e_def)
  have le: "e \<le> 4294967295000" using assms(9) by (simp add: e_def)
  have "1000 * ((now + ttl + 999) div 1000) < 1000 * (now div 1000) + 1000 + 2592000000"
    using c e assms(8) by (simp add: MAX_CAPSULE_TTL_MS_def c_def e_def)
  then have "(now + ttl + 999) div 1000 < now div 1000 + 1 + 2592000" by linarith
  then have diff: "e - c \<le> MAX_CAPSULE_TTL_MS" unfolding MAX_CAPSULE_TTL_MS_def c_def e_def by linarith
  let ?h = "\<lparr>h1_version = 1, h1_flags = Some 0, h1_createdAt = js_of_int c, h1_expiresAt = js_of_int e,
     h1_clientNonce = Some (base64urlEncode random)\<rparr>"
  have h: "header1_for request random (plain_policy now) = Inr ?h"
    using header1_for_plain [OF assms(1,2,5,6,7,9) c_def e_def, of random] diff assms(3) by (simp add: or_default_def)
  have ab: "\<bar>c\<bar> \<le> MAX_SAFE_INTEGER" "\<bar>e\<bar> \<le> MAX_SAFE_INTEGER" "c < e" using c e le assms(7) by (simp_all add: MAX_SAFE_INTEGER_def)
  have q: "0 \<le> now div 1000" "now div 1000 < 4294967296" "0 \<le> (now + ttl + 999) div 1000" "(now + ttl + 999) div 1000 < 4294967296"
    using assms(6,7,9) by simp_all
  note t = second_written [OF q(1,2), folded c_def] second_written [OF q(3,4), folded e_def]
  have "\<exists>bytes. privateCapsuleHeader1Bytes ?h = Inr bytes"
    using t assms(4) by (simp add: privateCapsuleHeader1Bytes_def or_default_def uint8Byte_def assertLength_def HEADER1_BYTES_def
        HEADER1_MAGIC_def del: be_bytes.simps)
  moreover have "assertCapsuleTimestampPolicy ?h (plain_policy later) = Inr ()"
    if "now - DEFAULT_CLOCK_SKEW_MS \<le> later" "later < now + ttl" for later
    using that c e ab diff by (simp add: policy_Inr plain_policy_def or_default_def safe_js_of_int)
  ultimately show ?thesis using h c e by auto
qed

text \<open>
  C36: The longest lifetime the policy names is refused for almost every clock reading. The creation
  time is rounded down and the expiry up, so a capsule asked to live exactly thirty days is only created
  when the clock stands on a whole second; otherwise the policy finds the lifetime a second too long.
\<close>

theorem thirty_day_capsule:
  assumes "hr_createdAt request = None" "hr_expiresAt request = None" "hr_ttlMs request = Some MAX_CAPSULE_TTL_MS"
    and "0 \<le> now" "now + MAX_CAPSULE_TTL_MS \<le> 4294967295000"
  shows "(header1_for request random (plain_policy now) = Inl (JsError ''Private capsule TTL exceeds policy'') \<longleftrightarrow> now mod 1000 \<noteq> 0)
    \<and> ((\<exists>h. header1_for request random (plain_policy now) = Inr h) \<longleftrightarrow> now mod 1000 = 0)"
proof -
  have ttl: "MAX_CAPSULE_TTL_MS = or_default (hr_ttlMs request) DEFAULT_CAPSULE_TTL_MS" "0 < MAX_CAPSULE_TTL_MS"
    by (simp_all add: assms(3) or_default_def MAX_CAPSULE_TTL_MS_def)
  have k: "(now + MAX_CAPSULE_TTL_MS + 999) div 1000 * 1000 - now div 1000 * 1000 \<le> MAX_CAPSULE_TTL_MS \<longleftrightarrow> now mod 1000 = 0"
  proof -
    have "(now + MAX_CAPSULE_TTL_MS + 999) div 1000 = (now + 999) div 1000 + 2592000"
      using div_mult_self1 [of 1000 "now + 999" 2592000] by (simp add: MAX_CAPSULE_TTL_MS_def algebra_simps)
    moreover have "(now + 999) div 1000 = now div 1000 + (if now mod 1000 = 0 then 0 else 1)" by (rule round_up_1000)
    ultimately show ?thesis by (simp add: MAX_CAPSULE_TTL_MS_def)
  qed
  note p = header1_for_plain [OF assms(1,2) ttl(1) assms(4) ttl(2) assms(5) refl refl, of random, unfolded k]
  show ?thesis unfolding p by (simp split: if_splits)
qed

definition sample_header1 :: capsule_header1 where
  "sample_header1 = \<lparr>h1_version = 1, h1_flags = None, h1_createdAt = js_of_int 5000, h1_expiresAt = js_of_int 9000,
     h1_clientNonce = Some (base64urlEncode (replicate 16 7))\<rparr>"

definition sample_header0 :: capsule_header0 where
  "sample_header0 = \<lparr>h0_version = 1, h0_kind = KIND_INTRO, h0_publishKind = 3, h0_sizeClass = 4, h0_cryptoSuite = 2,
     h0_suite = HYBRID_V1, h0_senderKeyId = None, h0_ephemeralScanPub = None, h0_viewTag = Some 7, h0_bucketKey = None,
     h0_ephemeralR = Some (U256Int 5)\<rparr>"

lemma sample_headers_written:
  "capsuleHeader0Bytes sample_header0 = Inr (HEADER0_MAGIC @ [1, 3, 4, 2] @ be_bytes 32 5 @ [0, 7])"
  "privateCapsuleHeader1Bytes sample_header1 = Inr (HEADER1_MAGIC @ [1, 0, 0, 0, 0, 5, 0, 0, 0, 9] @ replicate 16 7)"
proof -
  have l: "length (be_bytes 32 5) = 32" by (simp only: length_be_bytes)
  have "uint16Be 7 = Inr [0, 7]" by (simp add: uint16Be_Inr numeral_2_eq_2)
  moreover have "uint256Bytes (Some (U256Int 5)) = Inr (be_bytes 32 5)"
    by (simp add: uint256Bytes_def writeBigUintBytes_def del: be_bytes.simps)
  moreover have "header0_start sample_header0 e = Inr (HEADER0_MAGIC @ [1, 3, 4, 2])" for e
    by (simp add: header0_start_Inr sample_header0_def PROTOCOL_VERSION_def)
  moreover have "length HEADER0_MAGIC = 4" by (simp add: HEADER0_MAGIC_def)
  ultimately show "capsuleHeader0Bytes sample_header0 = Inr (HEADER0_MAGIC @ [1, 3, 4, 2] @ be_bytes 32 5 @ [0, 7])"
    by (simp add: capsuleHeader0Bytes_def introCapsuleHeader0Bytes_def sample_header0_def PUBLISH_INTRO_def or_default_def
        HEADER0_BYTES_INTRO_def l del: be_bytes.simps)
  have "capsuleTimestampSecond (js_of_int 5000) = Inr 5" "capsuleTimestampSecond (js_of_int 9000) = Inr 9"
    by (simp_all add: capsuleTimestampSecond_Inr safe_js_of_int MAX_SAFE_INTEGER_def)
  moreover have "be_bytes 4 5 = [0, 0, 0, 5]" "be_bytes 4 9 = [0, 0, 0, 9]" by code_simp+
  then have "uint32Bytes (int 5) = Inr [0, 0, 0, 5]" "uint32Bytes (int 9) = Inr [0, 0, 0, 9]"
    by (simp_all add: uint32Bytes_Inr del: be_bytes.simps)
  with calculation show "privateCapsuleHeader1Bytes sample_header1 = Inr (HEADER1_MAGIC @ [1, 0, 0, 0, 0, 5, 0, 0, 0, 9] @ replicate 16 7)"
    by (simp add: privateCapsuleHeader1Bytes_def sample_header1_def or_default_def uint8Byte_def assertLength_def PROTOCOL_VERSION_def
        HEADER1_BYTES_def HEADER1_MAGIC_def)
qed

theorem capsule_headers_canonical_witness:
  "\<exists>h0 h1. capsuleHeader0ObjectFromBytes (HEADER0_MAGIC @ [1, 3, 4, 2] @ be_bytes 32 5 @ [0, 7]) = Inr h0
    \<and> capsuleHeader0Bytes h0 = Inr (HEADER0_MAGIC @ [1, 3, 4, 2] @ be_bytes 32 5 @ [0, 7])
    \<and> privateCapsuleHeader1ObjectFromBytes (HEADER1_MAGIC @ [1, 0, 0, 0, 0, 5, 0, 0, 0, 9] @ replicate 16 7) = Inr h1
    \<and> privateCapsuleHeader1Bytes h1 = Inr (HEADER1_MAGIC @ [1, 0, 0, 0, 0, 5, 0, 0, 0, 9] @ replicate 16 7)"
proof -
  have i: "introCapsuleHeader0Bytes sample_header0 = Inr (HEADER0_MAGIC @ [1, 3, 4, 2] @ be_bytes 32 5 @ [0, 7])"
    using sample_headers_written(1) by (simp add: capsuleHeader0Bytes_def sample_header0_def del: be_bytes.simps)
  obtain h0 h1 where "capsuleHeader0ObjectFromBytes (HEADER0_MAGIC @ [1, 3, 4, 2] @ be_bytes 32 5 @ [0, 7]) = Inr h0"
      "privateCapsuleHeader1ObjectFromBytes (HEADER1_MAGIC @ [1, 0, 0, 0, 0, 5, 0, 0, 0, 9] @ replicate 16 7) = Inr h1"
    using intro_header0_written [OF i] header1_written [OF sample_headers_written(2)]
    by (auto simp: capsuleHeader0ObjectFromBytes_def header_sizes simp del: be_bytes.simps)
  with capsule_headers_canonical [OF this] show ?thesis by blast
qed

theorem capsule_headers_roundtrip_witness:
  "\<exists>h0 h1. capsuleHeader0ObjectFromBytes (HEADER0_MAGIC @ [1, 3, 4, 2] @ be_bytes 32 5 @ [0, 7]) = Inr h0
    \<and> uint256Bytes (h0_ephemeralR h0) = Inr (be_bytes 32 5) \<and> h0_viewTag h0 = Some 7
    \<and> privateCapsuleHeader1ObjectFromBytes (HEADER1_MAGIC @ [1, 0, 0, 0, 0, 5, 0, 0, 0, 9] @ replicate 16 7) = Inr h1
    \<and> intOf (h1_createdAt h1) = 5000"
proof -
  have "uint256Bytes (h0_ephemeralR sample_header0) = Inr (be_bytes 32 5)"
    by (simp add: uint256Bytes_def writeBigUintBytes_def sample_header0_def del: be_bytes.simps)
  moreover have "h0_kind sample_header0 = KIND_INTRO" "or_default (h0_viewTag sample_header0) 0 = 7"
      "intOf (h1_createdAt sample_header1) = 5000"
    by (simp_all add: sample_header0_def sample_header1_def or_default_def)
  ultimately show ?thesis using capsule_headers_roundtrip [OF sample_headers_written] kinds_differ by metis
qed

definition sample_request :: "int option \<Rightarrow> header1_request" where
  "sample_request ttl = \<lparr>hr_createdAt = None, hr_expiresAt = None, hr_ttlMs = ttl, hr_clientNonce = None\<rparr>"

theorem capsule_timestamps_accepted_witness:
  "\<exists>h. header1_for (sample_request (Some 1500)) (replicate 16 9) (plain_policy 1700000000123) = Inr h
    \<and> assertCapsuleTimestampPolicy h (plain_policy 1700000001000) = Inr ()"
  using capsule_timestamps_accepted [of "sample_request (Some 1500)" "replicate 16 9" 1500 1700000000123]
  by (auto simp: sample_request_def or_default_def MAX_CAPSULE_TTL_MS_def DEFAULT_CLOCK_SKEW_MS_def)

theorem thirty_day_capsule_witness:
  "header1_for (sample_request (Some MAX_CAPSULE_TTL_MS)) (replicate 16 9) (plain_policy 1700000000123)
     = Inl (JsError ''Private capsule TTL exceeds policy'')
   \<and> (\<exists>h. header1_for (sample_request (Some MAX_CAPSULE_TTL_MS)) (replicate 16 9) (plain_policy 1700000000000) = Inr h)"
  using thirty_day_capsule [of "sample_request (Some MAX_CAPSULE_TTL_MS)" 1700000000123 "replicate 16 9"]
    thirty_day_capsule [of "sample_request (Some MAX_CAPSULE_TTL_MS)" 1700000000000 "replicate 16 9"]
  by (simp add: sample_request_def MAX_CAPSULE_TTL_MS_def)

end
