(* ===== verification/Snake_Payload.thy ===== *)
theory Snake_Payload
  imports Snake Capsule_Headers
begin

text \<open>
  The on-chain cells of a capsule (\<open>web/crypto/platho-crypto.mjs\<close>): byte strings cut into cells of 127
  bytes from the front, chained by references, hashed, put into a bag of cells and read back. This
  module has its own, byte-aligned implementation of what the transaction code does for arbitrary
  cells (theories Boc, Cell_Hash and Snake); the main result is that the two understand each other.
  The cell objects live in a store, as in theory Boc.
\<close>

section \<open>Cells of whole bytes\<close>

definition PLATHO_ONCHAIN_CELL_DATA_BYTES :: nat where "PLATHO_ONCHAIN_CELL_DATA_BYTES = 127"

record byte_cell =
  yc_data :: bytes
  yc_refs :: "addr list"

type_synonym byte_heap = "byte_cell list"

definition createByteCell :: "bytes \<Rightarrow> addr list \<Rightarrow> byte_cell res" where
  "createByteCell data refs =
     guard (\<not> length data > PLATHO_ONCHAIN_CELL_DATA_BYTES) (JsError ''TON cell data exceeds bytes'')
       (guard (\<not> length refs > 4) (JsError ''TON cell can have at most 4 refs'') (Inr \<lparr>yc_data = data, yc_refs = refs\<rparr>))"

definition splitSnakeCellChunks :: "bytes \<Rightarrow> bytes list" where
  "splitSnakeCellChunks bytes = (if bytes = [] then [[]] else chunks PLATHO_ONCHAIN_CELL_DATA_BYTES bytes)"

text \<open>The loop of \<open>buildSnakeCell\<close>, from the last chunk to the first; \<open>root\<close> is null before it.\<close>

fun link_chunks :: "bytes list \<Rightarrow> (byte_heap \<times> addr option) res" where
  "link_chunks [] = Inr ([], None)"
| "link_chunks (c # cs) =
     andThen (link_chunks cs) (\<lambda>(h, root).
     andThen (createByteCell c (case root of None \<Rightarrow> [] | Some r \<Rightarrow> [r])) (\<lambda>cell.
       Inr (h @ [cell], Some (length h))))"

definition buildSnakeCell :: "bytes \<Rightarrow> (byte_heap \<times> addr \<times> bytes list) res" where
  "buildSnakeCell bytes =
     (let chunks = splitSnakeCellChunks bytes in
      andThen (link_chunks chunks) (\<lambda>(h, root).
        case root of None \<Rightarrow> Inl (TypeError ''root is null'') | Some r \<Rightarrow> Inr (h, r, chunks)))"

section \<open>The bag of cells\<close>

text \<open>\<open>visit\<close> of \<open>flattenCellTree\<close>, in preorder; the index of a cell is its place in the result.\<close>

fun visit_bytes :: "nat \<Rightarrow> byte_heap \<Rightarrow> addr \<Rightarrow> addr list \<Rightarrow> addr list option" where
  "visit_bytes 0 h a cells = None"
| "visit_bytes (Suc fuel) h a cells =
     (if a \<in> set cells then Some cells else run_all (visit_bytes fuel h) (yc_refs (h ! a)) (cells @ [a]))"

definition flattenCellTree_bytes :: "byte_heap \<Rightarrow> addr \<Rightarrow> addr list option" where
  "flattenCellTree_bytes h a = visit_bytes (length h) h a []"

definition cellDescriptorBytes :: "byte_cell \<Rightarrow> bytes res" where
  "cellDescriptorBytes c =
     guard (\<not> length (yc_refs c) > 4) (JsError ''TON cell can have at most 4 refs'')
       (guard (\<not> length (yc_data c) > PLATHO_ONCHAIN_CELL_DATA_BYTES) (JsError ''TON cell data exceeds bytes'')
         (Inr [word_of_nat (length (yc_refs c)), word_of_nat (length (yc_data c) * 2)]))"

definition serializeCellForBoc_bytes :: "byte_cell \<Rightarrow> (addr \<Rightarrow> nat) \<Rightarrow> nat \<Rightarrow> bytes res" where
  "serializeCellForBoc_bytes c indexes sizeBytes =
     andThen (mapRes (\<lambda>r. writeBigUintBytes (int (indexes r)) sizeBytes) (yc_refs c)) (\<lambda>refIndexes.
     andThen (cellDescriptorBytes c) (\<lambda>descriptor.
       Inr (descriptor @ yc_data c @ concat refIndexes)))"

definition serializeBoc_bytes :: "byte_heap \<Rightarrow> addr \<Rightarrow> bytes res option" where
  "serializeBoc_bytes h a =
     (case flattenCellTree_bytes h a of
        None \<Rightarrow> None
      | Some cells \<Rightarrow> Some
          (let sizeBytes = minimalUintByteLength (length cells) in
           andThen (mapRes (\<lambda>c. serializeCellForBoc_bytes (h ! c) (index_of cells) sizeBytes) cells) (\<lambda>cellPayloads.
             (let totalCellsSize = sum_list (map length cellPayloads);
                  offsetBytes = minimalUintByteLength totalCellsSize in
              andThen (writeBigUintBytes (int (length cells)) sizeBytes) (\<lambda>count.
              andThen (writeBigUintBytes 1 sizeBytes) (\<lambda>roots.
              andThen (writeBigUintBytes 0 sizeBytes) (\<lambda>absent.
              andThen (writeBigUintBytes (int totalCellsSize) offsetBytes) (\<lambda>total.
              andThen (writeBigUintBytes 0 sizeBytes) (\<lambda>rootIndex.
                Inr ([0xb5, 0xee, 0x9c, 0x72] @ [word_of_nat sizeBytes, word_of_nat offsetBytes] @ count @ roots @ absent
                  @ total @ rootIndex @ concat cellPayloads))))))))))"

section \<open>Reading the bag\<close>

definition readBocUint :: "bytes \<Rightarrow> nat \<Rightarrow> nat \<Rightarrow> (nat \<times> nat) res" where
  "readBocUint bytes off byteLength =
     guard (\<not> off + byteLength > length bytes) (JsError ''is truncated'')
       (andThen (readBigUintBytes bytes off byteLength) (\<lambda>v.
          guard (\<not> int v > MAX_SAFE_INTEGER) (JsError ''is too large'') (Inr (v, off + byteLength))))"

fun read_refs_bytes :: "nat \<Rightarrow> bytes \<Rightarrow> nat \<Rightarrow> nat \<Rightarrow> (nat list \<times> nat) res" where
  "read_refs_bytes 0 bytes off sizeBytes = Inr ([], off)"
| "read_refs_bytes (Suc n) bytes off sizeBytes =
     andThen (readBocUint bytes off sizeBytes) (\<lambda>(r, off).
     andThen (read_refs_bytes n bytes off sizeBytes) (\<lambda>(rs, off). Inr (r # rs, off)))"

definition parse_cell_bytes :: "nat \<Rightarrow> bytes \<Rightarrow> nat \<Rightarrow> nat \<Rightarrow> (byte_cell \<times> nat) res" where
  "parse_cell_bytes sizeBytes bytes cellsEnd off =
     guard (\<not> off + 2 > cellsEnd) (JsError ''cell descriptor is truncated'')
       (let d1 = bytes ! off; d2 = unat (bytes ! (off + 1)); off = off + 2; refsCount = unat (and d1 0x07);
            exotic = and d1 0x08 \<noteq> 0; levelMask = and d1 0xe0 in
        guard (\<not> (exotic \<or> levelMask \<noteq> 0 \<or> refsCount > 4)) (JsError ''contains unsupported cell type'')
       (guard (\<not> d2 mod 2 \<noteq> 0) (JsError ''contains non-byte-aligned cell data'')
         (let dataBytes = d2 div 2 in
          guard (\<not> off + dataBytes + refsCount * sizeBytes > cellsEnd) (JsError ''cell payload is truncated'')
            (andThen (read_refs_bytes refsCount bytes (off + dataBytes) sizeBytes) (\<lambda>(refIndexes, off').
               Inr (\<lparr>yc_data = slice off (off + dataBytes) bytes, yc_refs = refIndexes\<rparr>, off'))))))"

fun parse_cells_bytes :: "nat \<Rightarrow> nat \<Rightarrow> bytes \<Rightarrow> nat \<Rightarrow> nat \<Rightarrow> (byte_cell list \<times> nat) res" where
  "parse_cells_bytes 0 sizeBytes bytes cellsEnd off = Inr ([], off)"
| "parse_cells_bytes (Suc n) sizeBytes bytes cellsEnd off =
     andThen (parse_cell_bytes sizeBytes bytes cellsEnd off) (\<lambda>(c, off).
     andThen (parse_cells_bytes n sizeBytes bytes cellsEnd off) (\<lambda>(cs, off). Inr (c # cs, off)))"

text \<open>The second pass keeps the indexes as addresses; a reference must point to a later cell.\<close>

definition check_refs :: "byte_cell list \<Rightarrow> unit res" where
  "check_refs parsed =
     guard (\<forall>i < length parsed. \<forall>r \<in> set (yc_refs (parsed ! i)). \<not> (r \<le> i \<or> r \<ge> length parsed))
       (JsError ''has invalid cell ref order'') (Inr ())"

definition parseOrdinaryByteCellBoc :: "bytes \<Rightarrow> (byte_heap \<times> addr) res" where
  "parseOrdinaryByteCellBoc bytes =
     guard (\<not> length bytes < 8) (JsError ''is truncated'')
     (guard (take 4 bytes = BOC_MAGIC) (JsError ''has invalid magic'')
       (let flagsByte = bytes ! 4;
            hasIndex = and flagsByte 0x80 \<noteq> 0; hasCrc32c = and flagsByte 0x40 \<noteq> 0; hasCacheBits = and flagsByte 0x20 \<noteq> 0;
            bocFlags = and (drop_bit 3 flagsByte) 0x03; sizeBytes = unat (and flagsByte 0x07) in
        guard (\<not> (hasCacheBits \<or> bocFlags \<noteq> 0 \<or> sizeBytes \<le> 0 \<or> sizeBytes > 4)) (JsError ''uses unsupported BOC flags'')
       (let offsetBytes = unat (bytes ! 5) in
        guard (\<not> (offsetBytes \<le> 0 \<or> offsetBytes > 4)) (JsError ''has invalid offset size'')
       (andThen (readBocUint bytes 6 sizeBytes) (\<lambda>(cellsCount, off).
        andThen (readBocUint bytes off sizeBytes) (\<lambda>(rootsCount, off).
        andThen (readBocUint bytes off sizeBytes) (\<lambda>(absentCount, off).
        andThen (readBocUint bytes off offsetBytes) (\<lambda>(totalCellsSize, off).
        guard (\<not> (cellsCount \<le> 0 \<or> rootsCount \<noteq> 1 \<or> absentCount \<noteq> 0)) (JsError ''must contain one ordinary root'')
       (andThen (readBocUint bytes off sizeBytes) (\<lambda>(rootIndex, off).
        guard (\<not> rootIndex \<ge> cellsCount) (JsError ''root index is out of range'')
         (let indexBytes = (if hasIndex then cellsCount * offsetBytes else 0) in
          guard (\<not> off + indexBytes > length bytes) (JsError ''BOC index table is truncated'')
         (let off = off + indexBytes; cellsEnd = off + totalCellsSize; trailerBytes = (if hasCrc32c then 4 else 0) in
          guard (\<not> cellsEnd + trailerBytes > length bytes) (JsError ''cell payload is truncated'')
         (andThen (parse_cells_bytes cellsCount sizeBytes bytes cellsEnd off) (\<lambda>(parsed, off).
          guard (off = cellsEnd) (JsError ''has trailing cell bytes'')
         (guard (length bytes = cellsEnd + trailerBytes) (JsError ''has trailing bytes'')
         (andThen (check_refs parsed) (\<lambda>_. Inr (parsed, rootIndex))))))))))))))))))"

text \<open>A bag comes as base64 text or as bytes.\<close>

datatype boc_like = BocText js_string | BocBytes bytes

definition boc_like_bytes :: "boc_like \<Rightarrow> bytes res" where
  "boc_like_bytes b = (case b of BocText s \<Rightarrow> base64Decode s | BocBytes bs \<Rightarrow> Inr bs)"

text \<open>The loop of \<open>snakeBytesFromBoc\<close>; \<open>left\<close> is 1024 less the counter \<open>guard\<close> of the code.\<close>

fun walk_snake :: "nat \<Rightarrow> byte_heap \<Rightarrow> addr \<Rightarrow> bytes list res" where
  "walk_snake left h a =
     guard (\<not> length (yc_data (h ! a)) > PLATHO_ONCHAIN_CELL_DATA_BYTES) (JsError ''cell exceeds Platho byte-cell limit'')
     (guard (\<not> length (yc_refs (h ! a)) > 1) (JsError ''is not a Platho snake byte cell'')
       (case left of
          0 \<Rightarrow> Inl (JsError ''snake cell is too deep'')
        | Suc left' \<Rightarrow>
            (case yc_refs (h ! a) of
               [] \<Rightarrow> Inr [yc_data (h ! a)]
             | r # rs \<Rightarrow> andThen (walk_snake left' h r) (\<lambda>chunks. Inr (yc_data (h ! a) # chunks)))))"

declare walk_snake.simps [simp del]

definition snakeBytesFromBoc :: "boc_like \<Rightarrow> bytes res" where
  "snakeBytesFromBoc bocLike =
     andThen (boc_like_bytes bocLike) (\<lambda>bytes.
     andThen (parseOrdinaryByteCellBoc bytes) (\<lambda>(h, root).
     andThen (walk_snake 1024 h root) (\<lambda>chunks. Inr (concat chunks))))"

section \<open>The hash and the payload\<close>

definition byte_hash_and_depth :: "(bytes \<Rightarrow> bytes) \<Rightarrow> byte_cell \<Rightarrow> (bytes \<times> nat) list \<Rightarrow> (bytes \<times> nat) res" where
  "byte_hash_and_depth sha c refs =
     (let depth = (if refs = [] then 0 else foldr max (map snd refs) 0 + 1) in
      andThen (cellDescriptorBytes c) (\<lambda>descriptor.
      andThen (mapRes (\<lambda>r. uint16Bytes (snd r)) refs) (\<lambda>depths.
        Inr (sha (descriptor @ yc_data c @ concat depths @ concat (map fst refs)), depth))))"

fun computeTonCellHashAndDepth ::
  "(bytes \<Rightarrow> bytes) \<Rightarrow> nat \<Rightarrow> byte_heap \<Rightarrow> addr \<Rightarrow> hash_cache \<Rightarrow> (js_error + ((bytes \<times> nat) \<times> hash_cache)) option" where
  "computeTonCellHashAndDepth sha 0 h a cache = None"
| "computeTonCellHashAndDepth sha (Suc fuel) h a cache =
     (case cache a of
        Some cached \<Rightarrow> Some (Inr (cached, cache))
      | None \<Rightarrow>
          (case collect (computeTonCellHashAndDepth sha fuel h) (yc_refs (h ! a)) cache of
             None \<Rightarrow> None
           | Some (Inl e) \<Rightarrow> Some (Inl e)
           | Some (Inr (refs, cache')) \<Rightarrow>
               Some (andThen (byte_hash_and_depth sha (h ! a) refs) (\<lambda>result. Inr (result, cache'(a \<mapsto> result))))))"

record chain_cell =
  cc_layout :: js_string
  cc_bytes :: nat
  cc_bits :: nat
  cc_cells :: nat
  cc_refs :: nat
  cc_hash :: js_string
  cc_boc :: js_string
  cc_chunks :: "js_string list"

definition PLATHO_ONCHAIN_CELL_LAYOUT :: js_string where
  "PLATHO_ONCHAIN_CELL_LAYOUT = str ''ton-snake-byte-cell.v1''"

definition createSnakeCellPayload :: "(bytes \<Rightarrow> bytes) \<Rightarrow> bytes \<Rightarrow> nat \<Rightarrow> chain_cell res option" where
  "createSnakeCellPayload sha bytes maxBytes =
     thenF (Some (guard (\<not> length bytes > maxBytes) (JsError ''exceeds on-chain payload cap'') (buildSnakeCell bytes))) (\<lambda>(h, root, chunks).
     case flattenCellTree_bytes h root of
       None \<Rightarrow> None
     | Some cells \<Rightarrow>
         thenF (computeTonCellHashAndDepth sha (length h) h root Map.empty) (\<lambda>((hash, depth), cache).
         thenF (serializeBoc_bytes h root) (\<lambda>boc.
           Some (Inr \<lparr>cc_layout = PLATHO_ONCHAIN_CELL_LAYOUT, cc_bytes = length bytes, cc_bits = length bytes * 8,
             cc_cells = length cells, cc_refs = length cells - 1, cc_hash = hex256 hash, cc_boc = base64Encode boc,
             cc_chunks = map base64urlEncode chunks\<rparr>))))"

section \<open>The chain in its store\<close>

fun chain_heap :: "bytes list \<Rightarrow> byte_heap" where
  "chain_heap [] = []"
| "chain_heap (c # cs) = chain_heap cs @ [\<lparr>yc_data = c, yc_refs = (if cs = [] then [] else [length cs - 1])\<rparr>]"

lemma length_chain_heap [simp]: "length (chain_heap cs) = length cs"
  by (induction cs) auto

lemma link_chunks_chain:
  "\<forall>c \<in> set cs. length c \<le> 127 \<Longrightarrow> link_chunks cs = Inr (chain_heap cs, if cs = [] then None else Some (length cs - 1))"
  by (induction cs) (auto simp: createByteCell_def PLATHO_ONCHAIN_CELL_DATA_BYTES_def)

lemma chain_heap_refs: "i < length cs \<Longrightarrow> yc_refs (chain_heap cs ! i) = (if i = 0 then [] else [i - 1])"
  by (induction cs arbitrary: i) (auto simp: nth_append less_Suc_eq)

lemma chain_heap_data: "\<forall>c \<in> set cs. length c \<le> 127 \<Longrightarrow> \<forall>y \<in> set (chain_heap cs). length (yc_data y) \<le> 127"
  by (induction cs) auto

text \<open>The same objects as the transaction code would hold them.\<close>

definition to_cobj :: "byte_cell \<Rightarrow> cobj" where
  "to_cobj c = \<lparr>o_data = yc_data c, o_bitLength = 8 * length (yc_data c), o_refs = yc_refs c\<rparr>"

lemma to_cobj_simps [simp]:
  "o_data (to_cobj c) = yc_data c" "o_bitLength (to_cobj c) = 8 * length (yc_data c)" "o_refs (to_cobj c) = yc_refs c"
  by (simp_all add: to_cobj_def)

definition small_cells :: "byte_heap \<Rightarrow> bool" where
  "small_cells h \<longleftrightarrow> (\<forall>c \<in> set h. length (yc_data c) \<le> 127 \<and> length (yc_refs c) \<le> 4 \<and> (\<forall>r \<in> set (yc_refs c). r < length h))"

lemma small_cellsD:
  "small_cells h \<Longrightarrow> a < length h \<Longrightarrow> length (yc_data (h ! a)) \<le> 127 \<and> length (yc_refs (h ! a)) \<le> 4
     \<and> (\<forall>r \<in> set (yc_refs (h ! a)). r < length h)"
  unfolding small_cells_def by (meson nth_mem)

lemma packed_to_cobj: "length (yc_data c) \<le> 127 \<Longrightarrow> length (yc_refs c) \<le> 4 \<Longrightarrow> packed_obj (to_cobj c)"
  unfolding packed_obj_def by (intro conjI exI [of _ "bits_of (yc_data c)"]) (simp_all add: pack_bits_of)

lemma small_chain:
  assumes "\<forall>c \<in> set cs. length c \<le> 127"
  shows "small_cells (chain_heap cs)"
proof -
  have "length (yc_refs (chain_heap cs ! i)) \<le> 4 \<and> (\<forall>r \<in> set (yc_refs (chain_heap cs ! i)). r < length cs)" if "i < length cs" for i
    using that by (auto simp: chain_heap_refs)
  then show ?thesis using chain_heap_data [OF assms] unfolding small_cells_def by (metis in_set_conv_nth length_chain_heap)
qed

lemma chain_denotes:
  "cs \<noteq> [] \<Longrightarrow> denotes (map to_cobj (chain_heap cs)) (length cs - 1) (snake_of cs)"
proof (induction cs)
  case (Cons c cs)
  let ?H = "map to_cobj (chain_heap (c # cs))"
  have H: "?H = map to_cobj (chain_heap cs) @ [to_cobj \<lparr>yc_data = c, yc_refs = (if cs = [] then [] else [length cs - 1])\<rparr>]" by simp
  have y: "?H ! length cs = to_cobj \<lparr>yc_data = c, yc_refs = (if cs = [] then [] else [length cs - 1])\<rparr>"
    by (simp add: nth_append)
  have t: "snake_of (c # cs) = Cell c (8 * length c) (if cs = [] then [] else [snake_of cs])"
    by (cases cs) (simp_all add: cell_of_def pack_bits_of)
  have "list_all2 (denotes ?H) (if cs = [] then [] else [length cs - 1]) (if cs = [] then [] else [snake_of cs])"
    using Cons.IH unfolding H by (auto intro: denotes_append)
  then have "denotes ?H (length cs) (Cell (o_data (?H ! length cs)) (o_bitLength (?H ! length cs)) (if cs = [] then [] else [snake_of cs]))"
    by (intro denotes.node) (simp_all only: y to_cobj_simps byte_cell.simps, simp)
  then show ?case using y t by simp
qed simp

section \<open>Both implementations write one bag\<close>

lemma visit_bytes_chain:
  assumes "\<forall>j < length h. yc_refs (h ! j) = (if j = 0 then [] else [j - 1])"
  shows "i < fuel \<Longrightarrow> i < length h \<Longrightarrow> \<forall>x \<in> set cells. i < x \<Longrightarrow> visit_bytes fuel h i cells = Some (cells @ rev [0..<Suc i])"
proof (induction fuel arbitrary: i cells)
  case (Suc fuel)
  then have ni: "i \<notin> set cells" by auto
  show ?case
  proof (cases i)
    case 0
    with ni assms Suc.prems show ?thesis by simp
  next
    case (Suc j)
    have "visit_bytes fuel h j (cells @ [i]) = Some ((cells @ [i]) @ rev [0..<Suc j])"
      using Suc.prems Suc by (intro Suc.IH) auto
    with ni assms Suc.prems Suc show ?thesis by simp
  qed
qed simp

lemma visit_chain:
  assumes "\<forall>j < length h. o_refs (h ! j) = (if j = 0 then [] else [j - 1])"
  shows "i < fuel \<Longrightarrow> i < length h \<Longrightarrow> \<forall>x \<in> set seen. i < x \<Longrightarrow>
    visit fuel h i (seen, post) = Some ([0..<Suc i] @ seen, post @ [0..<Suc i])"
proof (induction fuel arbitrary: i seen)
  case (Suc fuel)
  then have ni: "i \<notin> set seen" by auto
  show ?case
  proof (cases i)
    case 0
    with ni assms Suc.prems show ?thesis by simp
  next
    case (Suc j)
    have "visit fuel h j (i # seen, post) = Some ([0..<Suc j] @ i # seen, post @ [0..<Suc j])"
      using Suc.prems Suc by (intro Suc.IH) auto
    with ni assms Suc.prems Suc show ?thesis by simp
  qed
qed simp

lemma flatten_chain:
  assumes "cs \<noteq> []"
  shows "flattenCellTree_bytes (chain_heap cs) (length cs - 1) = Some (rev [0..<length cs])"
    "flattenCellTree (map to_cobj (chain_heap cs)) (length cs - 1) = Some (rev [0..<length cs])"
proof -
  have l: "Suc (length cs - 1) = length cs" "length cs - 1 < length cs" using assms by (cases cs; simp)+
  show "flattenCellTree_bytes (chain_heap cs) (length cs - 1) = Some (rev [0..<length cs])"
    using visit_bytes_chain [of "chain_heap cs" "length cs - 1" "length cs" "[]", unfolded l(1)] l(2)
    by (simp add: flattenCellTree_bytes_def chain_heap_refs)
  show "flattenCellTree (map to_cobj (chain_heap cs)) (length cs - 1) = Some (rev [0..<length cs])"
    using visit_chain [of "map to_cobj (chain_heap cs)" "length cs - 1" "length cs" "[]" "[]", unfolded l(1)] l(2)
    by (simp add: flattenCellTree_def chain_heap_refs)
qed

lemma writeBigUintBytes_ok: "v < 256 ^ n \<Longrightarrow> writeBigUintBytes (int v) n = Inr (be_bytes n v)"
proof -
  assume v: "v < 256 ^ n"
  have "(256 :: nat) ^ n = 2 ^ (n * 8)" by (simp add: mult.commute [of n] power_mult)
  then have "int v < 2 ^ (n * 8)" using v by (simp flip: of_nat_power)
  then show ?thesis by (simp add: writeBigUintBytes_def)
qed

lemma serializeCell_bytes_payload:
  assumes "length (yc_data c) \<le> 127" "length (yc_refs c) \<le> 4" "\<forall>r \<in> set (yc_refs c). idx r < 256 ^ k"
  shows "serializeCellForBoc_bytes c idx k = Inr (payload (to_cobj c) idx k)"
proof -
  have "mapRes (\<lambda>r. writeBigUintBytes (int (idx r)) k) (yc_refs c) = Inr (map (\<lambda>r. be_bytes k (idx r)) (yc_refs c))"
    using assms(3) by (intro mapRes_total) (simp add: writeBigUintBytes_ok)
  moreover have "cellBitsDescriptor (8 * n) = n * 2" for n by (simp add: cellBitsDescriptor_def)
  ultimately show ?thesis using assms(1,2)
    by (simp add: serializeCellForBoc_bytes_def cellDescriptorBytes_def payload_def cellDataWithTerminator_def
        PLATHO_ONCHAIN_CELL_DATA_BYTES_def)
qed

text \<open>The payloads of the cells of a chain, first cell first.\<close>

definition chain_payloads :: "bytes list \<Rightarrow> bytes list" where
  "chain_payloads cs = map (\<lambda>b. payload (to_cobj (chain_heap cs ! b)) (index_of (rev [0..<length cs]))
     (minimalUintByteLength (length cs))) (rev [0..<length cs])"

lemma chain_index: "r < n \<Longrightarrow> index_of (rev [0..<n]) r = n - 1 - r"
proof -
  assume r: "r < n"
  have "rev [0..<n] ! (n - 1 - r) = r" using r by (simp add: rev_nth)
  then show ?thesis using index_of_distinct [of "rev [0..<n]" "n - 1 - r"] r by simp
qed

lemma chain_cells_written:
  assumes "\<forall>c \<in> set cs. length c \<le> 127" "cs \<noteq> []" "k = minimalUintByteLength (length cs)"
  shows "mapRes (\<lambda>c. serializeCellForBoc_bytes (chain_heap cs ! c) (index_of (rev [0..<length cs])) k) (rev [0..<length cs])
      = Inr (chain_payloads cs)"
    "mapRes (\<lambda>c. serializeCellForBoc (map to_cobj (chain_heap cs) ! c) (index_of (rev [0..<length cs])) k) (rev [0..<length cs])
      = Inr (chain_payloads cs)"
proof -
  have w: "length cs < 256 ^ k" "0 < k" using minimal_width [of "length cs"] by (simp_all add: assms(3))
  have c: "length (yc_data (chain_heap cs ! b)) \<le> 127 \<and> length (yc_refs (chain_heap cs ! b)) \<le> 4
      \<and> (\<forall>r \<in> set (yc_refs (chain_heap cs ! b)). index_of (rev [0..<length cs]) r < 256 ^ k)" if "b < length cs" for b
    using small_cellsD [OF small_chain [OF assms(1)], of b] that w(1) by (auto simp: chain_index)
  show "mapRes (\<lambda>c. serializeCellForBoc_bytes (chain_heap cs ! c) (index_of (rev [0..<length cs])) k) (rev [0..<length cs])
      = Inr (chain_payloads cs)"
    unfolding chain_payloads_def assms(3) [symmetric]
    using c by (intro mapRes_total serializeCell_bytes_payload) auto
  show "mapRes (\<lambda>c. serializeCellForBoc (map to_cobj (chain_heap cs) ! c) (index_of (rev [0..<length cs])) k) (rev [0..<length cs])
      = Inr (chain_payloads cs)"
    unfolding chain_payloads_def assms(3) [symmetric]
    using c w(2) by (intro mapRes_total) (simp add: serializeCell_payload)
qed

lemma serialize_agree:
  assumes "\<forall>c \<in> set cs. length c \<le> 127" "cs \<noteq> []"
  shows "serializeBoc_bytes (chain_heap cs) (length cs - 1) = Some (boc_bytes (length cs) (chain_payloads cs))"
    "serializeBoc (map to_cobj (chain_heap cs)) (length cs - 1) = Some (boc_bytes (length cs) (chain_payloads cs))"
proof -
  note f = flatten_chain [OF assms(2)]
  note p = chain_cells_written [OF assms refl]
  let ?k = "minimalUintByteLength (length cs)" and ?t = "sum_list (map length (chain_payloads cs))"
  have w: "writeBigUintBytes (int (length cs)) ?k = Inr (be_bytes ?k (length cs))" "writeBigUintBytes 1 ?k = Inr (be_bytes ?k 1)"
      "writeBigUintBytes 0 ?k = Inr (be_bytes ?k 0)"
      "writeBigUintBytes (int ?t) (minimalUintByteLength ?t) = Inr (be_bytes (minimalUintByteLength ?t) ?t)"
    using writeBigUintBytes_ok [of "length cs" ?k] writeBigUintBytes_ok [of 1 ?k] writeBigUintBytes_ok [of 0 ?k]
      writeBigUintBytes_ok [of ?t "minimalUintByteLength ?t"] minimal_width by simp_all
  show "serializeBoc_bytes (chain_heap cs) (length cs - 1) = Some (boc_bytes (length cs) (chain_payloads cs))"
    unfolding serializeBoc_bytes_def f(1) by (simp only: option.case length_rev length_upt diff_zero Let_def p(1) w andThen.simps
        boc_bytes_ok [OF refl refl refl] BOC_MAGIC_def)
  show "serializeBoc (map to_cobj (chain_heap cs)) (length cs - 1) = Some (boc_bytes (length cs) (chain_payloads cs))"
    unfolding serializeBoc_def f(2) by (simp only: option.case length_rev length_upt diff_zero p(2) andThen.simps)
qed

section \<open>Reading what was written\<close>

lemma readBocUint_drop:
  assumes "drop off bs = be_bytes n v @ ys" "v < 256 ^ n" "0 < n" "n \<le> 4"
  shows "readBocUint bs off n = Inr (v, off + n)" "drop (off + n) bs = ys"
proof -
  note r = readBigUintBytes_drop [OF assms(1-3)]
  show "drop (off + n) bs = ys" by (rule r(2))
  have "(256 :: nat) ^ n \<le> 256 ^ 4" using assms(4) by (intro power_increasing) simp_all
  then have "int v \<le> MAX_SAFE_INTEGER" using assms(2) by (simp add: MAX_SAFE_INTEGER_def)
  then show "readBocUint bs off n = Inr (v, off + n)"
    using r(1) by (auto simp: readBocUint_def readBigUintBytes_def res_simps)
qed

lemma read_refs_bytes_written:
  assumes "drop off bs = concat (map (be_bytes k) rs) @ rest" "\<forall>r \<in> set rs. r < 256 ^ k" "0 < k" "k \<le> 4"
  shows "read_refs_bytes (length rs) bs off k = Inr (rs, off + k * length rs) \<and> drop (off + k * length rs) bs = rest"
  using assms
proof (induction rs arbitrary: off)
  case (Cons r rs)
  have d: "drop off bs = be_bytes k r @ (concat (map (be_bytes k) rs) @ rest)" using Cons.prems(1) by simp
  have "readBocUint bs off k = Inr (r, off + k)" "drop (off + k) bs = concat (map (be_bytes k) rs) @ rest"
    using readBocUint_drop [OF d] Cons.prems(2,3,4) by simp_all
  then show ?case using Cons.IH [of "off + k"] Cons.prems by (simp add: algebra_simps)
qed simp

lemma refs_descriptor_bytes:
  "n \<le> 4 \<Longrightarrow> unat (and (word_of_nat n :: byte) 0x07) = n \<and> and (word_of_nat n :: byte) 0x08 = 0 \<and> and (word_of_nat n :: byte) 0xe0 = 0"
proof -
  assume "n \<le> 4"
  then have "n \<in> {0, 1, 2, 3, 4}" by auto
  then show ?thesis by auto
qed

lemma parse_payload_bytes:
  assumes c: "length (yc_data c) \<le> 127" "length (yc_refs c) \<le> 4" "\<forall>r \<in> set (yc_refs c). idx r < 256 ^ k"
    and k: "0 < k" "k \<le> 4"
    and d: "drop off bs = payload (to_cobj c) idx k @ rest"
    and e: "off + length (payload (to_cobj c) idx k) \<le> cellsEnd"
  shows "parse_cell_bytes k bs cellsEnd off = Inr (\<lparr>yc_data = yc_data c, yc_refs = map idx (yc_refs c)\<rparr>,
      off + length (payload (to_cobj c) idx k))
    \<and> drop (off + length (payload (to_cobj c) idx k)) bs = rest"
proof -
  define rb where "rb = concat (map (be_bytes k) (map idx (yc_refs c)))"
  define d1 :: byte where "d1 = word_of_nat (length (yc_refs c))"
  define d2 :: byte where "d2 = word_of_nat (length (yc_data c) * 2)"
  have "cellBitsDescriptor (8 * n) = n * 2" for n by (simp add: cellBitsDescriptor_def)
  then have p: "payload (to_cobj c) idx k = [d1, d2] @ yc_data c @ rb"
    by (simp add: payload_def rb_def d1_def d2_def comp_def cellDataWithTerminator_def)
  have u2: "unat d2 = length (yc_data c) * 2" unfolding d2_def using c(1) by (intro unat_small_byte) simp
  have d0: "drop off bs = [d1, d2] @ (yc_data c @ rb @ rest)" using d p by simp
  have hd: "bs ! off = d1" "bs ! (off + 1) = d2"
  proof -
    have "bs ! (off + i) = drop off bs ! i" if "i < length (drop off bs)" for i
      using that by (intro nth_drop [symmetric]) auto
    from this [of 0] this [of 1] show "bs ! off = d1" "bs ! (off + 1) = d2" by (simp_all add: d0)
  qed
  have s1: "drop (off + 2) bs = yc_data c @ (rb @ rest)" using drop_prefix(1) [OF d0] by simp
  have sl: "slice (off + 2) (off + 2 + length (yc_data c)) bs = yc_data c" "drop (off + 2 + length (yc_data c)) bs = rb @ rest"
    using drop_prefix [OF s1] by simp_all
  have rr: "read_refs_bytes (length (yc_refs c)) bs (off + 2 + length (yc_data c)) k
      = Inr (map idx (yc_refs c), off + 2 + length (yc_data c) + k * length (yc_refs c))
    \<and> drop (off + 2 + length (yc_data c) + k * length (yc_refs c)) bs = rest"
    using read_refs_bytes_written [of "off + 2 + length (yc_data c)" bs k "map idx (yc_refs c)" rest] sl(2) c(3) k
    by (simp add: rb_def)
  have f: "unat (and d1 0x07) = length (yc_refs c)" "and d1 0x08 = 0" "and d1 0xe0 = 0"
    using refs_descriptor_bytes [OF c(2)] by (simp_all add: d1_def)
  have l: "length (payload (to_cobj c) idx k) = 2 + length (yc_data c) + k * length (yc_refs c)"
    using length_concat_be_bytes [of k "map idx (yc_refs c)"] by (simp add: p rb_def)
  then have "off + 2 + length (yc_data c) + length (yc_refs c) * k \<le> cellsEnd" using e by (simp add: mult.commute)
  then show ?thesis
    using rr c(2) unfolding parse_cell_bytes_def Let_def hd f u2 by (simp add: sl(1) [simplified] l add.assoc)
qed

lemma parse_payloads_bytes:
  assumes "\<forall>c \<in> set cs. length (yc_data c) \<le> 127 \<and> length (yc_refs c) \<le> 4 \<and> (\<forall>r \<in> set (yc_refs c). idx r < 256 ^ k)"
    and "0 < k" "k \<le> 4" "drop off bs = concat (map (\<lambda>c. payload (to_cobj c) idx k) cs) @ rest"
    and "off + sum_list (map (\<lambda>c. length (payload (to_cobj c) idx k)) cs) \<le> cellsEnd"
  shows "parse_cells_bytes (length cs) k bs cellsEnd off
    = Inr (map (\<lambda>c. \<lparr>yc_data = yc_data c, yc_refs = map idx (yc_refs c)\<rparr>) cs,
        off + sum_list (map (\<lambda>c. length (payload (to_cobj c) idx k)) cs))"
  using assms
proof (induction cs arbitrary: off)
  case (Cons c cs)
  have d: "drop off bs = payload (to_cobj c) idx k @ (concat (map (\<lambda>c. payload (to_cobj c) idx k) cs) @ rest)"
    using Cons.prems(4) by simp
  have "parse_cell_bytes k bs cellsEnd off = Inr (\<lparr>yc_data = yc_data c, yc_refs = map idx (yc_refs c)\<rparr>,
      off + length (payload (to_cobj c) idx k))
    \<and> drop (off + length (payload (to_cobj c) idx k)) bs = concat (map (\<lambda>c. payload (to_cobj c) idx k) cs) @ rest"
    by (rule parse_payload_bytes [OF _ _ _ Cons.prems(2,3) d]) (use Cons.prems(1,5) in auto)
  then show ?case using Cons.IH [of "off + length (payload (to_cobj c) idx k)"] Cons.prems by (simp add: add.assoc)
qed simp

text \<open>The parser on a written bag, given what the payloads of its cells parse to.\<close>

lemma parseOrdinary_written:
  assumes "k = minimalUintByteLength n" "tot = sum_list (map length ps)" "w = minimalUintByteLength tot"
    and bytes: "boc_bytes n ps = Inr bs" and small: "0 < n" "n < 2 ^ 32" "tot < 2 ^ 32"
    and cells: "\<And>off. drop off bs = concat ps @ [] \<Longrightarrow> parse_cells_bytes n k bs (off + tot) off = Inr (parsed, off + tot)"
    and refs: "check_refs parsed = Inr ()"
  shows "parseOrdinaryByteCellBoc bs = Inr (parsed, 0)"
proof -
  have k: "1 \<le> k" "k \<le> 4" "n < 256 ^ k" "1 < (256 :: nat) ^ k"
    using minimalUintByteLength_spec [of n] minimalUintByteLength_le [of n 4] small(2) minimal_width [of n]
    by (simp_all add: assms(1))
  have w: "1 \<le> w" "w \<le> 4" "tot < 256 ^ w"
    using minimalUintByteLength_spec [of tot] minimalUintByteLength_le [of tot 4] small(3) minimal_width [of tot]
    by (simp_all add: assms(3))
  have bs: "bs = BOC_MAGIC @ [word_of_nat k, word_of_nat w] @ be_bytes k n @ be_bytes k 1
      @ be_bytes k 0 @ be_bytes w tot @ be_bytes k 0 @ concat ps"
    using bytes boc_bytes_ok [OF assms(1-3)] by simp
  have len: "length bs = 6 + 4 * k + w + tot"
    by (simp add: bs BOC_MAGIC_def length_concat assms(2))
  have hd: "take 4 bs = BOC_MAGIC" "bs ! 4 = word_of_nat k" "bs ! 5 = word_of_nat w"
    by (simp_all add: bs BOC_MAGIC_def)
  have d1: "drop 6 bs = be_bytes k n @ (be_bytes k 1 @ be_bytes k 0 @ be_bytes w tot @ be_bytes k 0 @ concat ps)"
    by (simp add: bs BOC_MAGIC_def)
  have p: "1 < (256 :: nat) ^ k" "0 < (256 :: nat) ^ k" "0 < k" "0 < w" using k w by simp_all
  define o1 o2 o3 o4 off where "o1 = 6 + k" and "o2 = o1 + k" and "o3 = o2 + k" and "o4 = o3 + w" and "off = o4 + k"
  note r1 = readBocUint_drop [OF d1 k(3) p(3) k(2), folded o1_def]
  note r2 = readBocUint_drop [OF r1(2) p(1,3) k(2), folded o2_def]
  note r3 = readBocUint_drop [OF r2(2) p(2,3) k(2), folded o3_def]
  note r4 = readBocUint_drop [OF r3(2) w(3) p(4) w(2), folded o4_def]
  note r5 = readBocUint_drop [OF r4(2) p(2,3) k(2), folded off_def]
  have u: "unat (word_of_nat w :: byte) = w" using w by (intro unat_small_byte) simp
  note f = size_flags [OF k(1,2)]
  have pc: "parse_cells_bytes n k bs (off + tot) off = Inr (parsed, off + tot)"
    using cells [of off] r5(2) by simp
  have len': "length bs = off + tot" using len by (simp add: off_def o4_def o3_def o2_def o1_def)
  have g: "\<not> length bs < 8" using len k by simp
  show ?thesis
    unfolding parseOrdinaryByteCellBoc_def Let_def hd u
    using g f k w small(1) refs pc len'
    by (simp add: r1(1) r2(1) r3(1) r4(1) r5(1))
qed

text \<open>The store the parser builds from a chain: first cell first.\<close>

definition read_chain :: "bytes list \<Rightarrow> byte_heap" where
  "read_chain cs = map (\<lambda>i. \<lparr>yc_data = cs ! i, yc_refs = (if Suc i = length cs then [] else [Suc i])\<rparr>) [0..<length cs]"

lemma chain_heap_data_nth: "i < length cs \<Longrightarrow> yc_data (chain_heap cs ! i) = cs ! (length cs - 1 - i)"
proof (induction cs)
  case (Cons c cs)
  show ?case
  proof (cases "i < length cs")
    case True
    then have "length cs - i = Suc (length cs - 1 - i)" by simp
    with True Cons.IH show ?thesis by (simp add: nth_append)
  next
    case False
    with Cons.prems show ?thesis by (simp add: nth_append)
  qed
qed simp

lemma read_chain_eq:
  "map (\<lambda>c. \<lparr>yc_data = yc_data c, yc_refs = map (index_of (rev [0..<length cs])) (yc_refs c)\<rparr>)
     (map ((!) (chain_heap cs)) (rev [0..<length cs])) = read_chain cs"
proof (rule nth_equalityI)
  fix i assume "i < length (map (\<lambda>c. \<lparr>yc_data = yc_data c, yc_refs = map (index_of (rev [0..<length cs])) (yc_refs c)\<rparr>)
     (map ((!) (chain_heap cs)) (rev [0..<length cs])))"
  then have i: "i < length cs" by simp
  let ?j = "length cs - 1 - i"
  have j: "rev [0..<length cs] ! i = ?j" "?j < length cs" "length cs - 1 - ?j = i" "?j = 0 \<longleftrightarrow> Suc i = length cs"
    using i by (auto simp: rev_nth)
  have "map (index_of (rev [0..<length cs])) (yc_refs (chain_heap cs ! ?j)) = (if Suc i = length cs then [] else [Suc i])"
    using i j chain_index [of "?j - 1" "length cs"] by (auto simp: chain_heap_refs)
  then show "map (\<lambda>c. \<lparr>yc_data = yc_data c, yc_refs = map (index_of (rev [0..<length cs])) (yc_refs c)\<rparr>)
     (map ((!) (chain_heap cs)) (rev [0..<length cs])) ! i = read_chain cs ! i"
    using i j chain_heap_data_nth [OF j(2)] by (simp add: read_chain_def)
qed (simp add: read_chain_def)

lemma payload_small:
  assumes "length (yc_data c) \<le> 127" "length (yc_refs c) \<le> 4" "k \<le> 4"
  shows "length (payload (to_cobj c) idx k) \<le> 145"
proof -
  have "k * length (yc_refs c) \<le> 4 * 4" using assms(2,3) by (intro mult_le_mono)
  then show ?thesis using assms(1) length_concat_be_bytes [of k "map idx (yc_refs c)"]
    by (simp add: payload_def comp_def)
qed

lemma sum_lengths_le: "(\<And>x. x \<in> set xs \<Longrightarrow> length x \<le> n) \<Longrightarrow> sum_list (map length xs) \<le> n * length xs"
proof (induction xs)
  case (Cons x xs)
  then have "length x \<le> n" "sum_list (map length xs) \<le> n * length xs" by simp_all
  then show ?case by simp
qed simp

lemma chain_payloads_small:
  assumes "\<forall>c \<in> set cs. length c \<le> 127" "minimalUintByteLength (length cs) \<le> 4"
  shows "sum_list (map length (chain_payloads cs)) \<le> 145 * length cs"
proof -
  have "length p \<le> 145" if "p \<in> set (chain_payloads cs)" for p
    using that small_cellsD [OF small_chain [OF assms(1)]] assms(2) by (auto simp: chain_payloads_def intro!: payload_small)
  then have "sum_list (map length (chain_payloads cs)) \<le> 145 * length (chain_payloads cs)" by (intro sum_lengths_le) blast
  then show ?thesis by (simp add: chain_payloads_def)
qed

lemma walk_chain:
  "i < length cs \<Longrightarrow> length cs - i \<le> left \<Longrightarrow> \<forall>c \<in> set cs. length c \<le> 127 \<Longrightarrow> walk_snake left (read_chain cs) i = Inr (drop i cs)"
proof (induction left arbitrary: i)
  case (Suc left)
  have d: "drop i cs = cs ! i # drop (Suc i) cs" using Suc.prems(1) by (rule Cons_nth_drop_Suc [symmetric])
  have l: "\<not> length (cs ! i) > 127" using Suc.prems(1,3) by (simp add: not_less)
  show ?case
  proof (cases "Suc i = length cs")
    case True
    with d l Suc.prems(1) show ?thesis
      by (simp add: walk_snake.simps [of "Suc left"] read_chain_def PLATHO_ONCHAIN_CELL_DATA_BYTES_def)
  next
    case False
    then have "walk_snake left (read_chain cs) (Suc i) = Inr (drop (Suc i) cs)" using Suc.prems by (intro Suc.IH) auto
    with False d l Suc.prems(1) show ?thesis
      by (simp add: walk_snake.simps [of "Suc left"] read_chain_def PLATHO_ONCHAIN_CELL_DATA_BYTES_def)
  qed
qed simp

lemma chain_parsed:
  assumes "\<forall>c \<in> set cs. length c \<le> 127" "cs \<noteq> []" "length cs \<le> 2 ^ 24" "boc_bytes (length cs) (chain_payloads cs) = Inr bs"
  shows "parseOrdinaryByteCellBoc bs = Inr (read_chain cs, 0)"
proof -
  define k where "k = minimalUintByteLength (length cs)"
  have k: "0 < k" "k \<le> 4" "length cs < 256 ^ k"
    using minimalUintByteLength_le [of "length cs" 4] assms(3) minimal_width [of "length cs"] by (simp_all add: k_def)
  have sm: "sum_list (map length (chain_payloads cs)) < 2 ^ 32"
    using chain_payloads_small [OF assms(1)] k(2) assms(3) by (simp add: k_def)
  let ?os = "map ((!) (chain_heap cs)) (rev [0..<length cs])" and ?idx = "index_of (rev [0..<length cs])"
  have os: "\<forall>c \<in> set ?os. length (yc_data c) \<le> 127 \<and> length (yc_refs c) \<le> 4 \<and> (\<forall>r \<in> set (yc_refs c). ?idx r < 256 ^ k)"
    using small_cellsD [OF small_chain [OF assms(1)]] k(3) by (auto simp: chain_index)
  have ps: "chain_payloads cs = map (\<lambda>c. payload (to_cobj c) ?idx k) ?os" by (simp add: chain_payloads_def k_def)
  have pc: "parse_cells_bytes (length cs) k bs (off + sum_list (map length (chain_payloads cs))) off
      = Inr (read_chain cs, off + sum_list (map length (chain_payloads cs)))"
    if "drop off bs = concat (chain_payloads cs) @ []" for off
    using parse_payloads_bytes [OF os k(1,2), of off bs "[]"] that unfolding ps read_chain_eq
    by (simp add: comp_def)
  have "check_refs (read_chain cs) = Inr ()" by (simp add: check_refs_def read_chain_def guard_def)
  from parseOrdinary_written [OF k_def refl refl assms(4) _ _ sm pc this] show ?thesis using assms(2,3) by simp
qed

section \<open>Both implementations hash alike\<close>

lemma collect_same:
  "(\<And>x s. x \<in> set xs \<Longrightarrow> f x s = g x s) \<Longrightarrow> collect f xs s = collect g xs s"
  by (induction xs arbitrary: s) (auto split: option.splits sum.splits)

lemma collect_length: "collect f xs s = Some (Inr (ys, s')) \<Longrightarrow> length ys = length xs"
  by (induction xs arbitrary: s ys s') (auto split: option.splits sum.splits)

lemma byte_hash_same:
  assumes "length (yc_data c) \<le> 127" "length (yc_refs c) \<le> 4" "length refs = length (yc_refs c)"
  shows "byte_hash_and_depth sha c refs = hash_and_depth sha (yc_data c) (8 * length (yc_data c)) refs"
proof -
  have "cellBitsDescriptor (8 * n) = n * 2" for n by (simp add: cellBitsDescriptor_def)
  then show ?thesis using assms
    by (simp add: byte_hash_and_depth_def hash_and_depth_def cellDescriptorBytes_def cellDataWithTerminator_def
        PLATHO_ONCHAIN_CELL_DATA_BYTES_def)
qed

lemma hash_implementations_agree:
  assumes "small_cells h"
  shows "a < length h \<Longrightarrow> computeTonCellHashAndDepth sha fuel h a cache = computeCellHashAndDepth sha fuel (map to_cobj h) a cache"
proof (induction fuel arbitrary: a cache)
  case (Suc fuel)
  note sm = small_cellsD [OF assms Suc.prems]
  have c: "collect (computeTonCellHashAndDepth sha fuel h) (yc_refs (h ! a)) s
      = collect (computeCellHashAndDepth sha fuel (map to_cobj h)) (yc_refs (h ! a)) s" for s
    using Suc.IH sm by (intro collect_same) blast
  have "byte_hash_and_depth sha (h ! a) refs = hash_and_depth sha (yc_data (h ! a)) (8 * length (yc_data (h ! a))) refs"
    if "collect (computeCellHashAndDepth sha fuel (map to_cobj h)) (yc_refs (h ! a)) s = Some (Inr (refs, s'))" for refs s s'
    using byte_hash_same sm collect_length [OF that] by blast
  then show ?case using Suc.prems by (auto simp: c split: option.splits sum.splits)
qed simp

lemma snake_hash_cons:
  assumes "tree_hash sha (snake_of cs) = Inr (d, n)" "cs \<noteq> []" "n < 65536"
  shows "tree_hash sha (snake_of (c # cs)) = Inr (sha ([1, word_of_nat (2 * length c)] @ c @ be_bytes 2 n @ d), Suc n)"
proof -
  have "cellBitsDescriptor (8 * length c) = 2 * length c" by (simp add: cellBitsDescriptor_def)
  then show ?thesis using assms
    by (simp add: snake_of_Cons cell_of_def pack_bits_of hash_and_depth_def uint16Bytes_def cellDataWithTerminator_def del: be_bytes.simps)
qed

lemma snake_hash_single: "tree_hash sha (snake_of [c]) = Inr (sha ([0, word_of_nat (2 * length c)] @ c), 0)"
proof -
  have "cellBitsDescriptor (8 * length c) = 2 * length c" by (simp add: cellBitsDescriptor_def)
  then show ?thesis by (simp add: cell_of_def pack_bits_of hash_and_depth_def cellDataWithTerminator_def)
qed

lemma snake_hash_exists:
  "cs \<noteq> [] \<Longrightarrow> length cs \<le> 65536 \<Longrightarrow> \<exists>d. tree_hash sha (snake_of cs) = Inr (d, length cs - 1)"
proof (induction cs)
  case (Cons c cs)
  show ?case
  proof (cases "cs = []")
    case True
    then show ?thesis using snake_hash_single [of sha c] by auto
  next
    case False
    then obtain d where "tree_hash sha (snake_of cs) = Inr (d, length cs - 1)" using Cons by auto
    from snake_hash_cons [OF this False, of c] Cons.prems(2) False show ?thesis by (cases cs) auto
  qed
qed simp

section \<open>A capsule's cells\<close>

lemma snake_chunks:
  assumes "length bytes \<le> 1024 * 127"
  shows "splitSnakeCellChunks bytes \<noteq> []" "\<forall>c \<in> set (splitSnakeCellChunks bytes). length c \<le> 127"
    "concat (splitSnakeCellChunks bytes) = bytes" "length (splitSnakeCellChunks bytes) \<le> 1024"
proof -
  have n: "(0 :: nat) < 127" by simp
  show "splitSnakeCellChunks bytes \<noteq> []" "concat (splitSnakeCellChunks bytes) = bytes"
    using concat_chunks [OF n, of bytes] by (auto simp: splitSnakeCellChunks_def PLATHO_ONCHAIN_CELL_DATA_BYTES_def chunks_step)
  show "\<forall>c \<in> set (splitSnakeCellChunks bytes). length c \<le> 127"
    using chunks_length_le [of _ 127 bytes] by (auto simp: splitSnakeCellChunks_def PLATHO_ONCHAIN_CELL_DATA_BYTES_def)
  have "(length bytes + 127 - 1) div 127 \<le> (1024 * 127 + 126) div 127" using assms by (intro div_le_mono) simp
  then show "length (splitSnakeCellChunks bytes) \<le> 1024"
    using length_chunks [OF n, of bytes] by (auto simp: splitSnakeCellChunks_def PLATHO_ONCHAIN_CELL_DATA_BYTES_def)
qed

lemma snake_payload_made:
  assumes "length bytes \<le> maxBytes" "length bytes \<le> 1024 * 127"
  assumes cs: "cs = splitSnakeCellChunks bytes"
  shows "\<exists>p boc h d. createSnakeCellPayload sha bytes maxBytes = Some (Inr p) \<and> snakeBytesFromBoc (BocText (cc_boc p)) = Inr bytes
    \<and> base64Decode (cc_boc p) = Inr boc \<and> parseBoc boc = Inr (h, 0) \<and> denotes h 0 (snake_of cs)
    \<and> tree_hash sha (snake_of cs) = Inr (d, cc_refs p) \<and> cc_hash p = hex256 d
    \<and> cc_layout p = PLATHO_ONCHAIN_CELL_LAYOUT \<and> cc_bytes p = length bytes"
proof -
  note c = snake_chunks [OF assms(2), folded cs]
  let ?h = "chain_heap cs" and ?r = "length cs - 1"
  have r: "?r < length ?h" using c(1) by (cases cs) simp_all
  have b: "buildSnakeCell bytes = Inr (?h, ?r, cs)"
    using link_chunks_chain [OF c(2)] c(1) by (simp add: buildSnakeCell_def cs [symmetric])
  obtain d where d: "tree_hash sha (snake_of cs) = Inr (d, ?r)" using snake_hash_exists [OF c(1), of sha] c(4) by auto
  have den: "denotes (map to_cobj ?h) ?r (snake_of cs)" by (rule chain_denotes [OF c(1)])
  have hh: "height (snake_of cs) < length ?h" using height_less_heap [OF den] by simp
  have "cache_ok sha (map to_cobj ?h) Map.empty" by (simp add: cache_ok_def)
  from hash_memo [OF den hh this] d
  obtain cache where hash: "computeTonCellHashAndDepth sha (length ?h) ?h ?r Map.empty = Some (Inr ((d, ?r), cache))"
    using hash_implementations_agree [OF small_chain [OF c(2)] r] by auto
  obtain boc where boc: "boc_bytes (length cs) (chain_payloads cs) = Inr boc" using boc_bytes_ok [OF refl refl refl] by blast
  note ser = serialize_agree [OF c(2,1), unfolded boc]
  have "\<forall>o' \<in> set (map to_cobj ?h). packed_obj o'"
    using small_chain [OF c(2)] by (auto simp: small_cells_def intro: packed_to_cobj)
  with boc_roundtrip_aux [OF den] c(4) ser(2) obtain h where h: "parseBoc boc = Inr (h, 0)" "denotes h 0 (snake_of cs)" by auto
  have pr: "parseOrdinaryByteCellBoc boc = Inr (read_chain cs, 0)" using chain_parsed [OF c(2,1) _ boc] c(4) by simp
  have "walk_snake 1024 (read_chain cs) 0 = Inr cs" using walk_chain [of 0 cs 1024] c by simp
  then have "snakeBytesFromBoc (BocText (base64Encode boc)) = Inr bytes"
    by (simp add: snakeBytesFromBoc_def boc_like_bytes_def pr c(3))
  then show ?thesis
    using b flatten_chain(1) [OF c(1)] hash ser(1) h d assms(1) by (simp add: createSnakeCellPayload_def)
qed

text \<open>
  C9: What a capsule puts on chain is read back by both implementations. Up to 1024 cells, far more than
  the 40 KiB a body may have, \<open>createSnakeCellPayload\<close> succeeds; its bag of cells is read by the capsule
  code's own byte-cell parser and by the transaction code's general one, both returning exactly the bytes
  written; and the hash it names is the representation hash of the cell tree the bag holds.
\<close>

theorem snake_payload_roundtrip:
  assumes "length bytes \<le> maxBytes" "length bytes \<le> 1024 * 127"
  shows "\<exists>p boc h t d. createSnakeCellPayload sha bytes maxBytes = Some (Inr p) \<and> snakeBytesFromBoc (BocText (cc_boc p)) = Inr bytes
    \<and> base64Decode (cc_boc p) = Inr boc \<and> parseBoc boc = Inr (h, 0) \<and> denotes h 0 t
    \<and> readSnakeCellBytes h 0 maxBytes = Some (Inr bytes) \<and> tree_hash sha t = Inr (d, cc_refs p) \<and> cc_hash p = hex256 d"
  using snake_payload_made [OF assms refl, of sha] readSnake_snake [of _ 0 "splitSnakeCellChunks bytes" maxBytes]
    snake_chunks(2,3) [OF assms(2)] assms(1) by fastforce

theorem snake_payload_roundtrip_witness:
  "\<exists>p boc h t d. createSnakeCellPayload (\<lambda>m. rev m) (replicate 300 7) 4096 = Some (Inr p)
    \<and> snakeBytesFromBoc (BocText (cc_boc p)) = Inr (replicate 300 7)
    \<and> base64Decode (cc_boc p) = Inr boc \<and> parseBoc boc = Inr (h, 0) \<and> denotes h 0 t
    \<and> readSnakeCellBytes h 0 4096 = Some (Inr (replicate 300 7)) \<and> tree_hash (\<lambda>m. rev m) t = Inr (d, cc_refs p) \<and> cc_hash p = hex256 d"
  by (rule snake_payload_roundtrip) simp_all

text \<open>
  The hash binds the bytes, unless two of the representations hashed on the way collide. \<open>chain_inputs\<close>
  are those representations: of each cell of the chain its descriptors, its data and, but for the last,
  the depth and the hash of the next.
\<close>

definition chain_representation :: "(bytes \<Rightarrow> bytes) \<Rightarrow> bytes \<Rightarrow> bytes list \<Rightarrow> bytes" where
  "chain_representation sha c cs =
     (if cs = [] then [0, word_of_nat (2 * length c)] @ c
      else case tree_hash sha (snake_of cs) of
        Inr (d, n) \<Rightarrow> [1, word_of_nat (2 * length c)] @ c @ be_bytes 2 n @ d
      | Inl e \<Rightarrow> [])"

fun chain_inputs :: "(bytes \<Rightarrow> bytes) \<Rightarrow> bytes list \<Rightarrow> bytes list" where
  "chain_inputs sha [] = []"
| "chain_inputs sha (c # cs) = chain_representation sha c cs # chain_inputs sha cs"

lemma representation_hash:
  assumes "tree_hash sha (snake_of (c # cs)) = Inr (d, n)" "length cs \<le> 1024"
  shows "d = sha (chain_representation sha c cs)"
proof (cases "cs = []")
  case True
  then show ?thesis using assms(1) unfolding True snake_hash_single by (simp add: chain_representation_def)
next
  case False
  obtain t where t: "tree_hash sha (snake_of cs) = Inr (t, length cs - 1)" using snake_hash_exists [OF False, of sha] assms(2) by auto
  then show ?thesis using snake_hash_cons [OF t False] assms by (auto simp: chain_representation_def False simp del: be_bytes.simps)
qed

lemma descriptor_inj:
  "length c \<le> 127 \<Longrightarrow> length e \<le> 127 \<Longrightarrow> (word_of_nat (2 * length c) :: byte) = word_of_nat (2 * length e) \<Longrightarrow> length c = length (e :: bytes)"
proof -
  assume a: "length c \<le> 127" "length e \<le> 127" "(word_of_nat (2 * length c) :: byte) = word_of_nat (2 * length e)"
  have "2 * length c < 256" "2 * length e < 256" using a(1,2) by linarith+
  then show ?thesis using unat_small_byte a(3) by (metis mult_left_cancel zero_neq_numeral)
qed

lemma representation_parts:
  assumes "length cs \<le> 1024"
  shows "hd (chain_representation sha c cs) = (if cs = [] then 0 else 1)" "chain_representation sha c cs ! 1 = word_of_nat (2 * length c)"
    "take (length c) (drop 2 (chain_representation sha c cs)) = c"
    "cs \<noteq> [] \<Longrightarrow> tree_hash sha (snake_of cs) = Inr (d, n) \<Longrightarrow> drop (length c + 4) (chain_representation sha c cs) = d"
proof -
  have t: "\<exists>t k. tree_hash sha (snake_of cs) = Inr (t, k)" if "cs \<noteq> []" using snake_hash_exists [OF that, of sha] assms by auto
  then show "hd (chain_representation sha c cs) = (if cs = [] then 0 else 1)" "chain_representation sha c cs ! 1 = word_of_nat (2 * length c)"
      "take (length c) (drop 2 (chain_representation sha c cs)) = c"
    by (cases "cs = []"; auto simp: chain_representation_def simp del: be_bytes.simps)+
  assume h: "cs \<noteq> []" "tree_hash sha (snake_of cs) = Inr (d, n)"
  let ?p = "[1, word_of_nat (2 * length c)] @ c @ be_bytes 2 n"
  have "length ?p = length c + 4" by (simp del: be_bytes.simps)
  moreover have "chain_representation sha c cs = ?p @ d" using h by (simp add: chain_representation_def del: be_bytes.simps)
  ultimately show "drop (length c + 4) (chain_representation sha c cs) = d" by (metis append_eq_conv_conj)
qed

lemma representation_inj:
  assumes "chain_representation sha c cs = chain_representation sha e es" "length c \<le> 127" "length e \<le> 127"
    "length cs \<le> 1024" "length es \<le> 1024"
  shows "c = e" "cs = [] \<longleftrightarrow> es = []"
    "cs \<noteq> [] \<Longrightarrow> tree_hash sha (snake_of cs) = Inr (d, n) \<Longrightarrow> tree_hash sha (snake_of es) = Inr (d', n') \<Longrightarrow> d = d'"
proof -
  note x = representation_parts [OF assms(4), where sha = sha] and y = representation_parts [OF assms(5), where sha = sha]
  have l: "length c = length e" using x(2) [of c] y(2) [of e] assms(1) by (intro descriptor_inj [OF assms(2,3)]) simp
  have "c = take (length c) (drop 2 (chain_representation sha c cs))" by (rule x(3) [symmetric])
  also have "\<dots> = take (length e) (drop 2 (chain_representation sha e es))" by (simp only: l assms(1))
  also have "\<dots> = e" by (rule y(3))
  finally show "c = e" .
  show n: "cs = [] \<longleftrightarrow> es = []" using x(1) [of c] y(1) [of e] assms(1) by (simp split: if_splits)
  show "cs \<noteq> [] \<Longrightarrow> tree_hash sha (snake_of cs) = Inr (d, n) \<Longrightarrow> tree_hash sha (snake_of es) = Inr (d', n') \<Longrightarrow> d = d'"
    using x(4) [where c = c] y(4) [where c = e] assms(1) l n by auto
qed

lemma chain_hash_binds:
  assumes "tree_hash sha (snake_of cs) = Inr (d, n)" "tree_hash sha (snake_of ds) = Inr (d, m)" "cs \<noteq> []" "ds \<noteq> []"
    and "length cs \<le> 1024" "length ds \<le> 1024" "\<forall>c \<in> set cs. length c \<le> 127" "\<forall>c \<in> set ds. length c \<le> 127"
    and "\<not> collision sha (chain_inputs sha cs) (chain_inputs sha ds)"
  shows "cs = ds"
  using assms
proof (induction cs arbitrary: ds d n m)
  case (Cons c cs)
  obtain e es where ds: "ds = e # es" using Cons.prems(4) by (cases ds) auto
  have l: "length cs \<le> 1024" "length es \<le> 1024" "length c \<le> 127" "length e \<le> 127" using Cons.prems(5-8) ds by auto
  have "sha (chain_representation sha c cs) = sha (chain_representation sha e es)"
    using representation_hash [OF Cons.prems(1) l(1)] representation_hash [OF Cons.prems(2) [unfolded ds] l(2)] by simp
  then have "chain_representation sha c cs = chain_representation sha e es" using Cons.prems(9) ds by (auto simp: collision_def)
  note r = representation_inj [OF this l(3,4,1,2)]
  show ?case
  proof (cases "cs = []")
    case False
    then have "es \<noteq> []" using r(2) by blast
    obtain d' d'' where t: "tree_hash sha (snake_of cs) = Inr (d', length cs - 1)" "tree_hash sha (snake_of es) = Inr (d'', length es - 1)"
      using snake_hash_exists [OF False, of sha] snake_hash_exists [OF \<open>es \<noteq> []\<close>, of sha] l by auto
    then have "d'' = d'" using r(3) [OF False] by metis
    have "cs = es"
      by (rule Cons.IH [OF t(1) t(2) [unfolded \<open>d'' = d'\<close>] False \<open>es \<noteq> []\<close> l(1,2)])
        (use Cons.prems(7-9) ds in \<open>auto simp: collision_def\<close>)
    then show ?thesis using r(1) ds by blast
  qed (use r(1,2) ds in blast)
qed simp

end
