(* ===== verification/Crypto_Primitives.thy ===== *)
theory Crypto_Primitives
  imports Capsule_Headers
begin

text \<open>
  The cryptographic primitives the capsule code calls: SHA-256, HKDF, AES-GCM of the Web Crypto API,
  X25519 and Ed25519 of the vendored noble-curves and ML-KEM-768 of noble-post-quantum. They are a
  parameter of the model, a record of functions; \<open>crypto_laws\<close> states of them what their documentation
  promises, with no word on secrecy: lengths, that opening undoes sealing, that both sides of a key
  agreement compute one secret, and that a signature made verifies. The rest is what
  \<open>web/crypto/platho-crypto.mjs\<close> builds directly on them.
\<close>

section \<open>The primitives\<close>

record prims =
  p_sha256 :: "bytes \<Rightarrow> bytes"
  p_hkdf :: "bytes \<Rightarrow> bytes \<Rightarrow> bytes \<Rightarrow> nat \<Rightarrow> bytes"
  p_seal :: "bytes \<Rightarrow> bytes \<Rightarrow> bytes \<Rightarrow> bytes \<Rightarrow> bytes"
  p_open :: "bytes \<Rightarrow> bytes \<Rightarrow> bytes \<Rightarrow> bytes \<Rightarrow> bytes option"
  p_x25519_public :: "bytes \<Rightarrow> bytes"
  p_x25519 :: "bytes \<Rightarrow> bytes \<Rightarrow> bytes"
  p_mlkem_keygen :: "bytes \<Rightarrow> bytes \<times> bytes"
  p_mlkem_encapsulate :: "bytes \<Rightarrow> bytes \<Rightarrow> bytes \<times> bytes"
  p_mlkem_decapsulate :: "bytes \<Rightarrow> bytes \<Rightarrow> bytes"
  p_ed_public :: "bytes \<Rightarrow> bytes"
  p_sign :: "bytes \<Rightarrow> bytes \<Rightarrow> bytes"
  p_verify :: "bytes \<Rightarrow> bytes \<Rightarrow> bytes \<Rightarrow> bool"

definition hash_laws :: "prims \<Rightarrow> bool" where
  "hash_laws P \<longleftrightarrow> (\<forall>m. length (p_sha256 P m) = 32) \<and> (\<forall>ikm salt info n. length (p_hkdf P ikm salt info n) = n)"

definition aead_laws :: "prims \<Rightarrow> bool" where
  "aead_laws P \<longleftrightarrow> (\<forall>key nonce aad m. p_open P key nonce aad (p_seal P key nonce aad m) = Some m
     \<and> length (p_seal P key nonce aad m) = length m + 16)"

definition agreement_laws :: "prims \<Rightarrow> bool" where
  "agreement_laws P \<longleftrightarrow>
     (\<forall>a. length (p_x25519_public P a) = 32)
     \<and> (\<forall>a b. length a = 32 \<longrightarrow> length b = 32 \<longrightarrow>
          p_x25519 P a (p_x25519_public P b) = p_x25519 P b (p_x25519_public P a))
     \<and> (\<forall>a p. length a = 32 \<longrightarrow> length p = 32 \<longrightarrow> length (p_x25519 P a p) = 32)"

definition kem_laws :: "prims \<Rightarrow> bool" where
  "kem_laws P \<longleftrightarrow>
     (\<forall>seed. length (fst (p_mlkem_keygen P seed)) = 1184 \<and> length (snd (p_mlkem_keygen P seed)) = 2400)
     \<and> (\<forall>pk r. length pk = 1184 \<longrightarrow> length (fst (p_mlkem_encapsulate P pk r)) = 1088 \<and> length (snd (p_mlkem_encapsulate P pk r)) = 32)
     \<and> (\<forall>seed r. p_mlkem_decapsulate P (fst (p_mlkem_encapsulate P (fst (p_mlkem_keygen P seed)) r)) (snd (p_mlkem_keygen P seed))
          = snd (p_mlkem_encapsulate P (fst (p_mlkem_keygen P seed)) r))"

definition signature_laws :: "prims \<Rightarrow> bool" where
  "signature_laws P \<longleftrightarrow> (\<forall>sk. length (p_ed_public P sk) = 32)
     \<and> (\<forall>m sk. length (p_sign P m sk) = 64 \<and> p_verify P (p_sign P m sk) m (p_ed_public P sk))"

definition crypto_laws :: "prims \<Rightarrow> bool" where
  "crypto_laws P \<longleftrightarrow> hash_laws P \<and> aead_laws P \<and> agreement_laws P \<and> kem_laws P \<and> signature_laws P"

lemmas crypto_law_defs = crypto_laws_def hash_laws_def aead_laws_def agreement_laws_def kem_laws_def signature_laws_def

text \<open>Functions with these laws, of no cryptographic worth, for the witnesses.\<close>

definition pad_to :: "nat \<Rightarrow> bytes \<Rightarrow> bytes" where
  "pad_to n bs = take n (bs @ replicate n 1)"

lemma length_pad_to [simp]: "length (pad_to n bs) = n"
  by (simp add: pad_to_def)

definition toy_tag :: "bytes \<Rightarrow> bytes \<Rightarrow> bytes" where
  "toy_tag key nonce = pad_to 16 (map2 (+) key nonce)"

definition toy_prims :: prims where
  "toy_prims = \<lparr>
     p_sha256 = (\<lambda>m. 1 # pad_to 31 (rev m)),
     p_hkdf = (\<lambda>ikm salt info n. pad_to n (map2 (+) ikm (rev info))),
     p_seal = (\<lambda>key nonce aad m. m @ toy_tag key nonce),
     p_open = (\<lambda>key nonce aad c. let n = length c - 16 in if drop n c = toy_tag key nonce then Some (take n c) else None),
     p_x25519_public = (\<lambda>a. pad_to 32 a),
     p_x25519 = (\<lambda>a p. map2 (+) a p),
     p_mlkem_keygen = (\<lambda>seed. (pad_to 1184 seed, pad_to 2400 seed)),
     p_mlkem_encapsulate = (\<lambda>pk r. (pad_to 1088 r, pad_to 32 r)),
     p_mlkem_decapsulate = (\<lambda>c sk. take 32 c),
     p_ed_public = (\<lambda>sk. pad_to 32 sk),
     p_sign = (\<lambda>m sk. pad_to 64 m),
     p_verify = (\<lambda>s m pk. s = pad_to 64 m)\<rparr>"

lemma pad_to_id: "length bs = n \<Longrightarrow> pad_to n bs = bs"
  by (simp add: pad_to_def)

lemma take_pad_to: "m \<le> n \<Longrightarrow> take m (pad_to n bs) = pad_to m bs"
  by (simp add: pad_to_def min_def take_append)

lemma toy_laws: "crypto_laws toy_prims"
proof -
  have "map2 (+) a (b :: bytes) = map2 (+) b a" for a b
    by (rule nth_equalityI) (auto simp: add.commute)
  then show ?thesis
    by (simp add: crypto_law_defs toy_prims_def toy_tag_def Let_def pad_to_id take_pad_to)
qed

section \<open>Key agreement and key derivation\<close>

definition assertNonZeroSharedSecret :: "bytes \<Rightarrow> bytes res" where
  "assertNonZeroSharedSecret bs =
     guard (\<not> (\<forall>b \<in> set bs. b = 0)) (JsError ''must not be the all-zero X25519 shared secret'') (Inr bs)"

text \<open>Both the native and the library path check the lengths and refuse the zero secret.\<close>

definition sharedSecretX25519 :: "prims \<Rightarrow> bytes \<Rightarrow> bytes \<Rightarrow> bytes res" where
  "sharedSecretX25519 P secretKey publicKey =
     andThen (assertLength secretKey 32) (\<lambda>sk.
     andThen (assertLength publicKey 32) (\<lambda>pk.
     andThen (assertLength (p_x25519 P sk pk) 32) assertNonZeroSharedSecret))"

definition ascii :: "string \<Rightarrow> bytes" where
  "ascii s = utf8_encode (str s)"

definition deriveStealthViewTag :: "prims \<Rightarrow> bytes \<Rightarrow> bytes \<Rightarrow> nat res" where
  "deriveStealthViewTag P scanSharedSecret ephemeralPublicKey =
     andThen (assertLength scanSharedSecret 32) (\<lambda>ikm.
     andThen (assertLength ephemeralPublicKey 32) (\<lambda>eph.
       Inr (be_value (p_hkdf P ikm (ascii ''PLATHO.STEALTH.VIEWTAG.SALT.V1'')
              (ascii ''PLATHO.STEALTH.VIEWTAG.V1'' @ eph) 2))))"

definition deriveStealthViewTagForRecipient :: "prims \<Rightarrow> bytes \<Rightarrow> bytes \<Rightarrow> bytes \<Rightarrow> nat res" where
  "deriveStealthViewTagForRecipient P ephemeralSecretKey ephemeralPublicKey recipientScanPublicKey =
     andThen (sharedSecretX25519 P ephemeralSecretKey recipientScanPublicKey) (\<lambda>scanShared.
       deriveStealthViewTag P scanShared ephemeralPublicKey)"

definition computePrivateScanViewTag :: "prims \<Rightarrow> bytes \<Rightarrow> bytes \<Rightarrow> nat res" where
  "computePrivateScanViewTag P scanSecretKey ephemeralScanPublicKey =
     andThen (sharedSecretX25519 P scanSecretKey ephemeralScanPublicKey) (\<lambda>scanShared.
       deriveStealthViewTag P scanShared ephemeralScanPublicKey)"

definition privateScanViewTagOrNull :: "prims \<Rightarrow> bytes \<Rightarrow> bytes \<Rightarrow> nat option res" where
  "privateScanViewTagOrNull P scanSecretKey ephemeralScanPublicKey =
     andThen (assertLength scanSecretKey 32) (\<lambda>sk.
     andThen (assertLength ephemeralScanPublicKey 32) (\<lambda>eph.
       case sharedSecretX25519 P sk eph of
         Inl e \<Rightarrow> Inr None
       | Inr scanShared \<Rightarrow> andThen (deriveStealthViewTag P scanShared eph) (\<lambda>t. Inr (Some t))))"

definition MESSAGE_SALT_DOMAIN :: bytes where "MESSAGE_SALT_DOMAIN = ascii ''PLATHO.MESSAGE.SALT.V1''"
definition MESSAGE_KEY_DOMAIN :: bytes where "MESSAGE_KEY_DOMAIN = ascii ''PLATHO.MESSAGE.KEY.V1''"
definition SENDER_RECOVERY_SALT_DOMAIN :: bytes where "SENDER_RECOVERY_SALT_DOMAIN = ascii ''PLATHO.SENDER_RECOVERY.SALT.V1''"
definition SENDER_RECOVERY_KEY_DOMAIN :: bytes where "SENDER_RECOVERY_KEY_DOMAIN = ascii ''PLATHO.SENDER_RECOVERY.KEY.V1''"

text \<open>
  \<open>deriveAesGcmKeyFromTranscriptHash\<close> keeps the key inside the Web Crypto API, its namesake with
  \<open>Bytes\<close> derives the same 256 bits; both are HKDF with the salt and info of their domains.
\<close>

definition deriveAesGcmKeyBytes :: "prims \<Rightarrow> bytes \<Rightarrow> bytes \<Rightarrow> bytes list \<Rightarrow> bytes \<Rightarrow> bytes" where
  "deriveAesGcmKeyBytes P saltDomain keyDomain sharedParts transcriptHash =
     p_hkdf P (concat sharedParts) (p_sha256 P (saltDomain @ transcriptHash)) (keyDomain @ transcriptHash) 32"

definition deriveAesGcmKeyFromTranscriptHash :: "prims \<Rightarrow> bytes list \<Rightarrow> bytes \<Rightarrow> bytes" where
  "deriveAesGcmKeyFromTranscriptHash P sharedParts transcriptHash =
     p_hkdf P (concat sharedParts) (p_sha256 P (MESSAGE_SALT_DOMAIN @ transcriptHash)) (MESSAGE_KEY_DOMAIN @ transcriptHash) 32"

lemma view_tag_agrees:
  assumes "agreement_laws P" "length e = 32" "length s = 32"
  shows "computePrivateScanViewTag P s (p_x25519_public P e)
    = deriveStealthViewTagForRecipient P e (p_x25519_public P e) (p_x25519_public P s)"
  using assms by (simp add: computePrivateScanViewTag_def deriveStealthViewTagForRecipient_def sharedSecretX25519_def
      agreement_laws_def assertLength_def)

lemma view_tag_range:
  assumes "hash_laws P" "deriveStealthViewTag P s e = Inr tag"
  shows "tag < 65536"
proof -
  obtain ikm info salt where t: "tag = be_value (p_hkdf P ikm salt info 2)"
    using assms(2) by (auto simp: deriveStealthViewTag_def res_simps)
  show ?thesis using be_value_less [of "p_hkdf P ikm salt info 2"] assms(1) by (simp add: t hash_laws_def)
qed

text \<open>
  A capsule is found by its addressee. The view tag a sender computes from an ephemeral key and the
  recipient's published scan key is the one the recipient's scan computes from the scan secret and the
  ephemeral public key on chain, and it fits the two bytes of header 0.
\<close>

theorem stealth_tag_found:
  assumes "hash_laws P" "agreement_laws P" "length ephemeralSecret = 32" "length scanSecret = 32"
    and "deriveStealthViewTagForRecipient P ephemeralSecret (p_x25519_public P ephemeralSecret) (p_x25519_public P scanSecret) = Inr tag"
  shows "privateScanViewTagOrNull P scanSecret (p_x25519_public P ephemeralSecret) = Inr (Some tag)
    \<and> uint16Be (int tag) = Inr (be_bytes 2 tag)"
proof -
  have c: "computePrivateScanViewTag P scanSecret (p_x25519_public P ephemeralSecret) = Inr tag"
    using view_tag_agrees [OF assms(2-4)] assms(5) by simp
  then obtain k where k: "sharedSecretX25519 P scanSecret (p_x25519_public P ephemeralSecret) = Inr k"
      "deriveStealthViewTag P k (p_x25519_public P ephemeralSecret) = Inr tag"
    unfolding computePrivateScanViewTag_def res_simps by blast
  have "privateScanViewTagOrNull P scanSecret (p_x25519_public P ephemeralSecret) = Inr (Some tag)"
    using k assms(2,4) by (simp add: privateScanViewTagOrNull_def assertLength_def agreement_laws_def)
  moreover have "uint16Be (int tag) = Inr (be_bytes 2 tag)"
    using view_tag_range [OF assms(1) k(2)] by (simp add: uint16Be_Inr del: be_bytes.simps)
  ultimately show ?thesis by blast
qed

theorem stealth_tag_found_witness:
  "\<exists>tag. privateScanViewTagOrNull toy_prims (replicate 32 3) (replicate 32 2) = Inr (Some tag)"
proof -
  have p: "p_x25519_public toy_prims (replicate 32 2) = replicate 32 2" "p_x25519_public toy_prims (replicate 32 3) = replicate 32 3"
    by (simp_all add: toy_prims_def pad_to_def)
  have z: "map2 (+) (replicate 32 2) (replicate 32 (3 :: byte)) = replicate 32 5" by (simp add: zip_replicate)
  have "p_x25519 toy_prims (replicate 32 2) (replicate 32 3) = replicate 32 5" using z by (simp add: toy_prims_def)
  then have "\<exists>tag. deriveStealthViewTagForRecipient toy_prims (replicate 32 2) (replicate 32 2) (replicate 32 3) = Inr tag"
    by (simp add: deriveStealthViewTagForRecipient_def sharedSecretX25519_def deriveStealthViewTag_def assertLength_def
        assertNonZeroSharedSecret_def)
  then show ?thesis
    using stealth_tag_found [of toy_prims "replicate 32 2" "replicate 32 3"] toy_laws by (auto simp: p crypto_laws_def)
qed

end
