(* ===== verification/Stable_Json.thy ===== *)
theory Stable_Json
  imports Js_Prelude
begin

text \<open>
  \<open>stableStringify\<close> of \<open>web/crypto/platho-crypto.mjs\<close>: the text that is signed and hashed. Objects are
  lists of fields in insertion order; a field whose value is undefined is dropped and the others are
  sorted by \<open>localeCompare\<close>, which is the parameter \<open>le\<close>.
\<close>

datatype json =
    JNull
  | JBool bool
  | JInt int
  | JStr js_string
  | JArr "json list"
  | JObj "(js_string \<times> json option) list"

text \<open>\<open>JSON.stringify\<close> of a string: the quote, the backslash and control characters are escaped.\<close>

definition json_escape :: "symbol \<Rightarrow> js_string" where
  "json_escape c =
     (if c = 34 then [92, 34] else if c = 92 then [92, 92]
      else if c = 8 then [92, 98] else if c = 9 then [92, 116] else if c = 10 then [92, 110]
      else if c = 12 then [92, 102] else if c = 13 then [92, 114]
      else if c < 32 \<or> (0xD800 \<le> c \<and> c \<le> 0xDFFF) then
        [92, 117] @ [hex_digit (c div 4096), hex_digit (c div 256 mod 16), hex_digit (c div 16 mod 16), hex_digit (c mod 16)]
      else [c])"

definition json_string :: "js_string \<Rightarrow> js_string" where
  "json_string s = [34] @ concat (map json_escape s) @ [34]"

definition json_int :: "int \<Rightarrow> js_string" where
  "json_int i = (if i < 0 then 45 # dec_string (nat (- i)) else dec_string (nat i))"

fun join :: "js_string list \<Rightarrow> js_string" where
  "join [] = []"
| "join [s] = s"
| "join (s # t # ss) = s @ [44] @ join (t # ss)"

text \<open>A stable sort by the collation (\<open>Array.prototype.sort\<close>).\<close>

fun insert_by :: "('k \<Rightarrow> 'k \<Rightarrow> bool) \<Rightarrow> 'k \<times> 'v \<Rightarrow> ('k \<times> 'v) list \<Rightarrow> ('k \<times> 'v) list" where
  "insert_by le e [] = [e]"
| "insert_by le e (f # fs) = (if le (fst e) (fst f) then e # f # fs else f # insert_by le e fs)"

definition sort_by :: "('k \<Rightarrow> 'k \<Rightarrow> bool) \<Rightarrow> ('k \<times> 'v) list \<Rightarrow> ('k \<times> 'v) list" where
  "sort_by le es = foldr (insert_by le) es []"

fun stableStringify :: "(js_string \<Rightarrow> js_string \<Rightarrow> bool) \<Rightarrow> json \<Rightarrow> js_string" where
  "stableStringify le JNull = str ''null''"
| "stableStringify le (JBool b) = (if b then str ''true'' else str ''false'')"
| "stableStringify le (JInt i) = json_int i"
| "stableStringify le (JStr s) = json_string s"
| "stableStringify le (JArr xs) = [91] @ join (map (stableStringify le) xs) @ [93]"
| "stableStringify le (JObj es) =
     [123] @ join (map (\<lambda>(k, t). json_string k @ [58] @ t)
       (sort_by le (concat (map (\<lambda>(k, v). case v of None \<Rightarrow> [] | Some j \<Rightarrow> [(k, stableStringify le j)]) es)))) @ [125]"

text \<open>
  What is relied on of \<open>localeCompare\<close>: it is a consistent comparison, total and transitive. It may call two
  different keys equal (texts that are canonically equivalent, say); the keys of one object are told apart if it
  does so for no two of them.
\<close>

definition collates :: "(js_string \<Rightarrow> js_string \<Rightarrow> bool) \<Rightarrow> bool" where
  "collates le \<longleftrightarrow> (\<forall>a b. le a b \<or> le b a) \<and> (\<forall>a b c. le a b \<longrightarrow> le b c \<longrightarrow> le a c)"

definition told_apart :: "('k \<Rightarrow> 'k \<Rightarrow> bool) \<Rightarrow> 'k list \<Rightarrow> bool" where
  "told_apart le ks \<longleftrightarrow> (\<forall>a \<in> set ks. \<forall>b \<in> set ks. le a b \<longrightarrow> le b a \<longrightarrow> a = b)"

lemma insert_by_commute:
  assumes "\<And>a b. le a b \<or> le b a" "\<And>a b c. le a b \<Longrightarrow> le b c \<Longrightarrow> le a c" "\<not> (le (fst e) (fst f) \<and> le (fst f) (fst e))"
  shows "insert_by le e (insert_by le f es) = insert_by le f (insert_by le e es)"
proof (induction es)
  case Nil
  show ?case using assms(1) [of "fst e" "fst f"] assms(3) by auto
next
  case (Cons g gs)
  have t: "le (fst f) (fst e) \<Longrightarrow> le (fst e) (fst g) \<Longrightarrow> le (fst f) (fst g)"
    "le (fst e) (fst f) \<Longrightarrow> le (fst f) (fst g) \<Longrightarrow> le (fst e) (fst g)"
    by (blast intro: assms(2))+
  have n: "le (fst e) (fst f) \<longleftrightarrow> \<not> le (fst f) (fst e)" using assms(1,3) by blast
  show ?case using Cons n t by auto
qed

lemma sort_by_permutation:
  assumes le: "\<And>a b. le a b \<or> le b a" "\<And>a b c. le a b \<Longrightarrow> le b c \<Longrightarrow> le a c"
    and "told_apart le (map fst es)" "distinct (map fst es)" "distinct es'" "set es = set es'"
  shows "sort_by le es = sort_by le es'"
  using assms(3-6)
proof (induction es arbitrary: es')
  case Nil
  then show ?case by simp
next
  case (Cons e es)
  obtain us vs where s: "es' = us @ e # vs" using Cons.prems(4) by (metis list.set_intros(1) split_list)
  have d: "distinct (map fst es)" "distinct (us @ vs)" "fst e \<notin> fst ` set es" "e \<notin> set (us @ vs)"
    using Cons.prems(2,3) s by auto
  then have st: "set es = set (us @ vs)" using Cons.prems(4) s by (auto simp: image_iff)
  have apart: "told_apart le (map fst es)" "\<And>k. k \<in> fst ` set es \<Longrightarrow> \<not> (le (fst e) k \<and> le k (fst e))"
    using Cons.prems(1) d(3) by (auto simp: told_apart_def)
  have front: "foldr (insert_by le) (ws @ e # vs) [] = insert_by le e (foldr (insert_by le) (ws @ vs) [])"
    if "fst ` set ws \<subseteq> fst ` set es" for ws
    using that
  proof (induction ws)
    case (Cons w ws)
    then have "fst w \<in> fst ` set es" by auto
    from insert_by_commute [OF le, where e = w and f = e] apart(2) [OF this] Cons show ?case by auto
  qed simp
  have "fst ` set us \<subseteq> fst ` set es" using st by auto
  from front [OF this] Cons.IH [OF apart(1) d(1,2) st] show ?case by (simp add: sort_by_def s)
qed

section \<open>The order of the fields\<close>

text \<open>The fields of an object that are not undefined.\<close>

definition given_fields :: "(js_string \<times> json option) list \<Rightarrow> (js_string \<times> json) list" where
  "given_fields es = concat (map (\<lambda>(k, v). case v of None \<Rightarrow> [] | Some j \<Rightarrow> [(k, j)]) es)"

text \<open>
  Two values are the same but for the order in which the fields of their objects, at any depth, were inserted
  and for fields that are undefined.
\<close>

inductive same_json :: "(js_string \<Rightarrow> js_string \<Rightarrow> bool) \<Rightarrow> json \<Rightarrow> json \<Rightarrow> bool" for le where
  same_refl: "same_json le j j"
| same_array: "list_all2 (same_json le) xs ys \<Longrightarrow> same_json le (JArr xs) (JArr ys)"
| same_object: "told_apart le (map fst (given_fields es)) \<Longrightarrow> distinct (map fst (given_fields es)) \<Longrightarrow> distinct (map fst (given_fields es'))
    \<Longrightarrow> fst ` set (given_fields es) = fst ` set (given_fields es')
    \<Longrightarrow> (\<And>k v w. (k, v) \<in> set (given_fields es) \<Longrightarrow> (k, w) \<in> set (given_fields es') \<Longrightarrow> same_json le v w)
    \<Longrightarrow> same_json le (JObj es) (JObj es')"

lemma written_present:
  "concat (map (\<lambda>(k, v). case v of None \<Rightarrow> [] | Some j \<Rightarrow> [(k, stableStringify le j)]) es)
    = map (\<lambda>(k, j). (k, stableStringify le j)) (given_fields es)"
  by (induction es) (auto simp: given_fields_def split: option.splits)

lemma distinct_by_fst: "distinct (map fst es) \<Longrightarrow> distinct (map (\<lambda>(k, j). (k, f j)) es)"
  by (induction es) (auto simp: image_iff)

text \<open>
  C37: The signed text of a value does not depend on the order in which fields were written. Two values that
  differ only in the order of the fields of their objects, however deep, and in fields that are undefined,
  have the same text: what one client signs, another verifies from an object it built itself. Of the collation
  only a total and transitive comparison is asked; the keys it must tell apart are those of each object,
  since tied ones stay in the order they were inserted.
\<close>

theorem stable_order_independent:
  assumes "collates le" "same_json le j j'"
  shows "stableStringify le j = stableStringify le j'"
  using assms(2)
proof induction
  case (same_array xs ys)
  then have "map (stableStringify le) xs = map (stableStringify le) ys" by (induction rule: list_all2_induct) auto
  then show ?case by (simp del: map_eq_conv)
next
  case (same_object es es')
  let ?t = "map (\<lambda>(k, j). (k, stableStringify le j))"
  have keys: "map fst (?t fs) = map fst fs" for fs by (induction fs) auto
  have sub: "set (?t fs) \<subseteq> set (?t gs)"
    if "fst ` set fs = fst ` set gs" "\<And>k v w. (k, v) \<in> set fs \<Longrightarrow> (k, w) \<in> set gs \<Longrightarrow> stableStringify le v = stableStringify le w" for fs gs
  proof
    fix x assume "x \<in> set (?t fs)"
    then obtain k v where x: "x = (k, stableStringify le v)" "(k, v) \<in> set fs" by auto
    then have "k \<in> fst ` set gs" using that(1) by force
    then obtain w where w: "(k, w) \<in> set gs" by auto
    with that(2) [OF x(2)] x(1) show "x \<in> set (?t gs)" by force
  qed
  have "set (?t (given_fields es)) = set (?t (given_fields es'))"
    using sub [of "given_fields es" "given_fields es'"] sub [of "given_fields es'" "given_fields es"] same_object.hyps(4) same_object.IH by (metis subset_antisym)
  moreover have "distinct (?t (given_fields es'))" by (rule distinct_by_fst [OF same_object.hyps(3)])
  moreover have "told_apart le (map fst (?t (given_fields es)))" "distinct (map fst (?t (given_fields es)))"
    using same_object.hyps(1,2) by (simp_all only: keys)
  ultimately have "sort_by le (?t (given_fields es)) = sort_by le (?t (given_fields es'))"
    using assms(1) unfolding collates_def by (intro sort_by_permutation) blast+
  then show ?case by (simp add: written_present)
qed simp

text \<open>The collation of keys that differ only in ASCII lower-case letters is the lexicographic order.\<close>

fun lex_le :: "js_string \<Rightarrow> js_string \<Rightarrow> bool" where
  "lex_le [] ys = True"
| "lex_le (x # xs) [] = False"
| "lex_le (x # xs) (y # ys) = (x < y \<or> (x = y \<and> lex_le xs ys))"

lemma lex_le_collates: "collates lex_le"
proof -
  have total: "lex_le a b \<or> lex_le b a" for a b by (induction a b rule: lex_le.induct) auto
  have trans: "lex_le a b \<Longrightarrow> lex_le b c \<Longrightarrow> lex_le a c" for a b c
  proof (induction a b arbitrary: c rule: lex_le.induct)
    case (3 x xs y ys)
    then show ?case by (cases c) auto
  qed auto
  show ?thesis using total trans unfolding collates_def by blast
qed

lemma lex_le_apart: "told_apart lex_le ks"
proof -
  have "lex_le a b \<Longrightarrow> lex_le b a \<Longrightarrow> a = b" for a b by (induction a b rule: lex_le.induct) (auto elim: lex_le.elims)
  then show ?thesis by (simp add: told_apart_def)
qed

theorem stable_order_independent_witness:
  "stableStringify lex_le (JObj [(str ''b'', Some (JObj [(str ''d'', Some (JInt 1)), (str ''c'', Some (JInt 2))])), (str ''e'', None),
       (str ''a'', Some (JStr (str ''x'')))])
     = stableStringify lex_le (JObj [(str ''a'', Some (JStr (str ''x''))), (str ''b'', Some (JObj [(str ''c'', Some (JInt 2)), (str ''d'', Some (JInt 1))]))])"
proof (rule stable_order_independent [OF lex_le_collates])
  have "same_json lex_le (JObj [(str ''d'', Some (JInt 1)), (str ''c'', Some (JInt 2))]) (JObj [(str ''c'', Some (JInt 2)), (str ''d'', Some (JInt 1))])"
    by (rule same_json.same_object) (auto simp: given_fields_def str_def lex_le_apart intro: same_json.same_refl)
  then show "same_json lex_le (JObj [(str ''b'', Some (JObj [(str ''d'', Some (JInt 1)), (str ''c'', Some (JInt 2))])), (str ''e'', None),
       (str ''a'', Some (JStr (str ''x'')))])
     (JObj [(str ''a'', Some (JStr (str ''x''))), (str ''b'', Some (JObj [(str ''c'', Some (JInt 2)), (str ''d'', Some (JInt 1))]))])"
    by (intro same_json.same_object) (auto simp: given_fields_def str_def lex_le_apart intro: same_json.same_refl)
qed

end
