(* ===== verification/Key_Bundles.thy ===== *)
theory Key_Bundles
  imports Crypto_Primitives Stable_Json
begin

text \<open>
  Messaging keys of \<open>web/crypto/platho-crypto.mjs\<close>: key identifiers, key pairs, the public bundle a
  sender encrypts to, its normalisation, the vault key record on chain and the draft that registers
  it, and the signed bundle. \<open>P\<close> is the record of primitives, \<open>seed\<close> what the random source returns.
\<close>

section \<open>Key identifiers and key pairs\<close>

definition computeClassicalKeyId :: "prims \<Rightarrow> bytes \<Rightarrow> js_string res" where
  "computeClassicalKeyId P x25519PublicKey =
     andThen (assertLength x25519PublicKey 32) (\<lambda>pk.
       Inr (base64urlEncode (p_sha256 P (ascii ''PLATHO.KEYID.CLASSICAL.V1'' @ pk))))"

definition computeHybridKeyId :: "prims \<Rightarrow> bytes \<Rightarrow> bytes \<Rightarrow> js_string res" where
  "computeHybridKeyId P x25519PublicKey mlKem768PublicKey =
     andThen (assertLength mlKem768PublicKey MLKEM768_PUBLIC_KEY_BYTES) (\<lambda>pq.
     andThen (assertLength x25519PublicKey 32) (\<lambda>pk.
       Inr (base64urlEncode (p_sha256 P (ascii ''PLATHO.KEYID.HYBRID.V1'' @ pk @ p_sha256 P pq
         @ utf8_encode (dec_string MLKEM768_PUBLIC_KEY_BYTES))))))"

record key_pair =
  kp_suite :: js_string
  kp_contractSuite :: int
  kp_keyId :: js_string
  kp_x25519SecretKey :: "bytes option"
  kp_x25519PublicKey :: bytes
  kp_mlKem768SecretKey :: "bytes option"
  kp_mlKem768PublicKey :: "bytes option"
  kp_mlKem768PublicKeyHash :: "bytes option"
  kp_scanSecretKey :: "bytes option"
  kp_scanPublicKey :: "bytes option"

definition createClassicalKeyPair :: "prims \<Rightarrow> bytes \<Rightarrow> key_pair res" where
  "createClassicalKeyPair P secretKey =
     (let publicKey = p_x25519_public P secretKey in
      andThen (computeClassicalKeyId P publicKey) (\<lambda>keyId.
        Inr \<lparr>kp_suite = CLASSICAL_V1, kp_contractSuite = CONTRACT_CLASSICAL, kp_keyId = keyId,
             kp_x25519SecretKey = Some secretKey, kp_x25519PublicKey = publicKey, kp_mlKem768SecretKey = None,
             kp_mlKem768PublicKey = None, kp_mlKem768PublicKeyHash = None, kp_scanSecretKey = None, kp_scanPublicKey = None\<rparr>))"

definition createHybridKeyPair :: "prims \<Rightarrow> bytes \<Rightarrow> bytes \<Rightarrow> key_pair res" where
  "createHybridKeyPair P secretKey seed =
     (let publicKey = p_x25519_public P secretKey; mlKem = p_mlkem_keygen P seed in
      andThen (assertLength (fst mlKem) MLKEM768_PUBLIC_KEY_BYTES) (\<lambda>pqPublic.
      andThen (assertLength (snd mlKem) 2400) (\<lambda>pqSecret.
      andThen (computeHybridKeyId P publicKey pqPublic) (\<lambda>keyId.
        Inr \<lparr>kp_suite = HYBRID_V1, kp_contractSuite = CONTRACT_HYBRID, kp_keyId = keyId,
             kp_x25519SecretKey = Some secretKey, kp_x25519PublicKey = publicKey, kp_mlKem768SecretKey = Some pqSecret,
             kp_mlKem768PublicKey = Some pqPublic, kp_mlKem768PublicKeyHash = Some (p_sha256 P pqPublic),
             kp_scanSecretKey = None, kp_scanPublicKey = None\<rparr>))))"

record messaging_identity =
  mi_encryptionKeyPair :: key_pair
  mi_signingSecretKey :: bytes
  mi_signingPublicKey :: bytes

text \<open>
  \<open>createMessagingIdentity\<close>; the keys the options may carry are arguments, and each random value is
  used only where an option is absent. The scan keys are written into the key pair.
\<close>

definition createMessagingIdentity ::
    "prims \<Rightarrow> key_pair option \<Rightarrow> js_string option \<Rightarrow> bytes option \<Rightarrow> bytes option \<Rightarrow> bytes \<Rightarrow> bytes \<Rightarrow> bytes \<Rightarrow> bytes \<Rightarrow> messaging_identity res" where
  "createMessagingIdentity P encryptionKeyPair suite signingSecret scanSecret r1 r2 r3 seed =
     andThen (case encryptionKeyPair of
          Some kp \<Rightarrow> Inr kp
        | None \<Rightarrow> if suite = Some CLASSICAL_V1 then createClassicalKeyPair P r1 else createHybridKeyPair P r1 seed) (\<lambda>kp.
     andThen (case signingSecret of Some s \<Rightarrow> assertLength s 32 | None \<Rightarrow> Inr r2) (\<lambda>signSecret.
     andThen (assertLength (p_ed_public P signSecret) 32) (\<lambda>signPublic.
     andThen (case scanSecret of Some s \<Rightarrow> assertLength s 32 | None \<Rightarrow> Inr r3) (\<lambda>scanSecretKey.
     andThen (assertLength (p_x25519_public P scanSecretKey) 32) (\<lambda>scanPublicKey.
       Inr \<lparr>mi_encryptionKeyPair = kp\<lparr>kp_scanSecretKey := Some scanSecretKey, kp_scanPublicKey := Some scanPublicKey\<rparr>,
            mi_signingSecretKey = signSecret, mi_signingPublicKey = signPublic\<rparr>)))))"

section \<open>Public bundles\<close>

record key_bundle =
  kb_version :: int
  kb_suite :: js_string
  kb_contractSuite :: int
  kb_keyId :: js_string
  kb_x25519PublicKey :: "js_string option"
  kb_scanPublicKey :: "js_string option"
  kb_mlKem768PublicKey :: "js_string option"
  kb_mlKem768PublicKeyHash :: "js_string option"
  kb_mlKem768PublicKeyLen :: "nat option"

definition suiteContract :: "js_string \<Rightarrow> int res" where
  "suiteContract suite =
     (if suite = CLASSICAL_V1 then Inr CONTRACT_CLASSICAL else if suite = HYBRID_V1 then Inr CONTRACT_HYBRID
      else Inl (JsError ''Unsupported Platho crypto suite''))"

definition assertSome :: "bytes option \<Rightarrow> nat \<Rightarrow> bytes res" where
  "assertSome v n = (case v of None \<Rightarrow> Inl (TypeError ''Expected bytes'') | Some bs \<Rightarrow> assertLength bs n)"

definition exportPublicKeyBundle :: "key_pair \<Rightarrow> key_bundle res" where
  "exportPublicKeyBundle kp =
     andThen (suiteContract (kp_suite kp)) (\<lambda>contract.
     andThen (assertLength (kp_x25519PublicKey kp) 32) (\<lambda>pk.
       (let bundle = \<lparr>kb_version = 1, kb_suite = kp_suite kp, kb_contractSuite = contract, kb_keyId = kp_keyId kp,
              kb_x25519PublicKey = Some (base64urlEncode pk), kb_scanPublicKey = None, kb_mlKem768PublicKey = None,
              kb_mlKem768PublicKeyHash = None, kb_mlKem768PublicKeyLen = None\<rparr> in
        andThen (case kp_scanPublicKey kp of
            None \<Rightarrow> Inr bundle
          | Some scan \<Rightarrow> andThen (assertLength scan 32) (\<lambda>scan. Inr (bundle\<lparr>kb_scanPublicKey := Some (base64urlEncode scan)\<rparr>))) (\<lambda>bundle.
        if kp_suite kp = HYBRID_V1 then
          andThen (assertSome (kp_mlKem768PublicKey kp) MLKEM768_PUBLIC_KEY_BYTES) (\<lambda>pq.
          andThen (assertSome (kp_mlKem768PublicKeyHash kp) 32) (\<lambda>pqHash.
            Inr (bundle\<lparr>kb_mlKem768PublicKey := Some (base64urlEncode pq),
                   kb_mlKem768PublicKeyHash := Some (base64urlEncode pqHash),
                   kb_mlKem768PublicKeyLen := Some MLKEM768_PUBLIC_KEY_BYTES\<rparr>)))
        else Inr bundle))))"

record recipient =
  rk_bundle :: key_bundle
  rk_x25519PublicKey :: bytes
  rk_scanPublicKey :: "bytes option"
  rk_mlKem768PublicKey :: "bytes option"

definition normalizeRecipientBundle :: "prims \<Rightarrow> key_bundle \<Rightarrow> recipient res" where
  "normalizeRecipientBundle P b =
     guard (\<not> kb_version b \<noteq> 1) (JsError ''Invalid Platho public key bundle'')
     (andThen (suiteContract (kb_suite b)) (\<lambda>contract.
      guard (kb_contractSuite b = contract) (JsError ''Public key bundle contract suite does not match'')
     (andThen (base64urlFixedBytes (kb_x25519PublicKey b) 32) (\<lambda>pk.
      andThen (case kb_scanPublicKey b of None \<Rightarrow> Inr None
          | Some s \<Rightarrow> andThen (base64urlFixedBytes (Some s) 32) (\<lambda>scan. Inr (Some scan))) (\<lambda>scan.
      if kb_suite b = CLASSICAL_V1 then
        guard (\<not> (kb_mlKem768PublicKey b \<noteq> None \<or> kb_mlKem768PublicKeyHash b \<noteq> None \<or> kb_mlKem768PublicKeyLen b \<noteq> None))
          (JsError ''classical-v1 public key bundle must not carry ML-KEM fields'')
        (andThen (computeClassicalKeyId P pk) (\<lambda>expected.
         guard (kb_keyId b = expected) (JsError ''classical-v1 public key bundle id does not match key material'')
           (Inr \<lparr>rk_bundle = b, rk_x25519PublicKey = pk, rk_scanPublicKey = scan, rk_mlKem768PublicKey = None\<rparr>)))
      else
        guard (kb_mlKem768PublicKeyLen b = Some MLKEM768_PUBLIC_KEY_BYTES)
          (JsError ''hybrid-v1 public key bundle has an invalid ML-KEM public key length'')
        (andThen (base64urlFixedBytes (kb_mlKem768PublicKey b) MLKEM768_PUBLIC_KEY_BYTES) (\<lambda>pq.
         andThen (base64urlFixedBytes (kb_mlKem768PublicKeyHash b) 32) (\<lambda>advertised.
         guard (base64urlEncode (p_sha256 P pq) = base64urlEncode advertised)
           (JsError ''hybrid-v1 public key bundle ML-KEM hash does not match key material'')
        (andThen (computeHybridKeyId P pk pq) (\<lambda>expected.
         guard (kb_keyId b = expected) (JsError ''hybrid-v1 public key bundle id does not match key material'')
           (Inr \<lparr>rk_bundle = b, rk_x25519PublicKey = pk, rk_scanPublicKey = scan, rk_mlKem768PublicKey = Some pq\<rparr>)))))))))))"

section \<open>The identifier a key pair answers to in a suite\<close>

definition normalizeRequestedSuite :: "js_string option \<Rightarrow> js_string option res" where
  "normalizeRequestedSuite value =
     (case value of None \<Rightarrow> Inr None
      | Some s \<Rightarrow> guard (s = CLASSICAL_V1 \<or> s = HYBRID_V1) (JsError ''Unsupported requested Platho crypto suite'') (Inr (Some s)))"

definition recipientKeyIdForSuite :: "prims \<Rightarrow> key_pair \<Rightarrow> js_string \<Rightarrow> js_string res" where
  "recipientKeyIdForSuite P kp suite =
     guard (kp_suite kp \<noteq> []) (JsError ''Recipient key suite is unavailable'')
     (if kp_suite kp = suite then Inr (kp_keyId kp)
      else if kp_suite kp = HYBRID_V1 \<and> suite = CLASSICAL_V1 then computeClassicalKeyId P (kp_x25519PublicKey kp)
      else Inl (JsError ''Recipient key suite cannot decrypt''))"

section \<open>The vault key record\<close>

datatype pq_value = PqBytes bytes | PqText js_string

record vault_key_record =
  vk_exists :: bool
  vk_revoked_lt :: "int option"
  vk_enc_pubkey :: "int option"
  vk_sign_pubkey :: "int option"
  vk_crypto_suite_mask :: "int option"
  vk_pq_kem_pubkey_len :: "int option"
  vk_pq_kem_pubkey_hash :: "int option"
  vk_pq_kem_pubkey :: "pq_value option"
  vk_scan_pubkey :: "int option"

definition recordField :: "int option \<Rightarrow> int res" where
  "recordField v = (case v of None \<Rightarrow> Inl (JsError ''Vault key record missing'') | Some i \<Rightarrow> Inr i)"

definition recordPqKemPubkeyBytes :: "vault_key_record \<Rightarrow> nat \<Rightarrow> bytes res" where
  "recordPqKemPubkeyBytes r expectedLen =
     (if expectedLen = 0 then
        (case vk_pq_kem_pubkey r of
           None \<Rightarrow> Inr []
         | Some (PqBytes bs) \<Rightarrow>
             guard (bs = []) (JsError ''Vault key record pq_kem_pubkey must be empty for classical-v1'') (Inr bs)
         | Some (PqText s) \<Rightarrow>
             guard (s = []) (JsError ''Vault key record pq_kem_pubkey must be empty for classical-v1'') (Inr []))
      else
        (case vk_pq_kem_pubkey r of
           None \<Rightarrow> Inl (JsError ''Vault key record missing pq_kem_pubkey'')
         | Some (PqBytes bs) \<Rightarrow> assertLength bs expectedLen
         | Some (PqText s) \<Rightarrow> base64urlFixedBytes (Some s) expectedLen))"

definition classical_bundle :: "js_string \<Rightarrow> bytes \<Rightarrow> key_bundle" where
  "classical_bundle keyId pk =
     \<lparr>kb_version = 1, kb_suite = CLASSICAL_V1, kb_contractSuite = CONTRACT_CLASSICAL, kb_keyId = keyId,
      kb_x25519PublicKey = Some (base64urlEncode pk), kb_scanPublicKey = None, kb_mlKem768PublicKey = None,
      kb_mlKem768PublicKeyHash = None, kb_mlKem768PublicKeyLen = None\<rparr>"

definition publicKeyBundleFromVaultKeyRecord :: "prims \<Rightarrow> vault_key_record \<Rightarrow> js_string option \<Rightarrow> key_bundle res" where
  "publicKeyBundleFromVaultKeyRecord P r suite =
     guard (vk_exists r) (JsError ''Vault key record does not exist'')
     (andThen (normalizeRequestedSuite suite) (\<lambda>requestedSuite.
      andThen (recordField (vk_revoked_lt r)) (\<lambda>revoked.
      guard (\<not> revoked \<noteq> 0) (JsError ''Vault key record is revoked'')
     (andThen (recordField (vk_enc_pubkey r)) (\<lambda>enc.
      andThen (writeBigUintBytes enc 32) (\<lambda>pk.
      andThen (recordField (vk_crypto_suite_mask r)) (\<lambda>mask.
      andThen (recordField (vk_pq_kem_pubkey_len r)) (\<lambda>pqLen.
      andThen (recordField (vk_pq_kem_pubkey_hash r)) (\<lambda>pqHash.
      if mask = CONTRACT_CLASSICAL then
        guard (\<not> requestedSuite = Some HYBRID_V1) (JsError ''Recipient has not activated postquantum receive keys'')
        (guard (\<not> (pqLen \<noteq> 0 \<or> pqHash \<noteq> 0)) (JsError ''classical-v1 Vault key record must not carry ML-KEM fields'')
        (andThen (recordPqKemPubkeyBytes r 0) (\<lambda>emptyPq.
         guard (\<not> emptyPq \<noteq> []) (JsError ''classical-v1 Vault key record pq_kem_pubkey must be empty'')
        (andThen (computeClassicalKeyId P pk) (\<lambda>keyId. Inr (classical_bundle keyId pk))))))
      else if mask = CONTRACT_HYBRID then
        guard (\<not> pqLen \<noteq> int MLKEM768_PUBLIC_KEY_BYTES) (JsError ''hybrid-v1 Vault key record has invalid ML-KEM length'')
        (andThen (recordPqKemPubkeyBytes r MLKEM768_PUBLIC_KEY_BYTES) (\<lambda>pq.
         guard (\<not> int (be_value (p_sha256 P pq)) \<noteq> pqHash) (JsError ''Vault key record pq_kem_pubkey hash does not match key material'')
        (if requestedSuite = Some CLASSICAL_V1 then
           andThen (computeClassicalKeyId P pk) (\<lambda>keyId. Inr (classical_bundle keyId pk))
         else
           (let scan = or_default (vk_scan_pubkey r) 0 in
            andThen (computeHybridKeyId P pk pq) (\<lambda>keyId.
            andThen (if scan \<noteq> 0 then andThen (writeBigUintBytes scan 32) (\<lambda>s. Inr (Some (base64urlEncode s))) else Inr None) (\<lambda>scanText.
              Inr \<lparr>kb_version = 1, kb_suite = HYBRID_V1, kb_contractSuite = CONTRACT_HYBRID, kb_keyId = keyId,
                   kb_x25519PublicKey = Some (base64urlEncode pk), kb_scanPublicKey = scanText,
                   kb_mlKem768PublicKey = Some (base64urlEncode pq),
                   kb_mlKem768PublicKeyHash = Some (base64urlEncode (p_sha256 P pq)),
                   kb_mlKem768PublicKeyLen = Some MLKEM768_PUBLIC_KEY_BYTES\<rparr>))))))
      else Inl (JsError ''Vault key record has unsupported crypto suite'')))))))))) "

record vault_draft =
  vd_enc_pubkey :: nat
  vd_sign_pubkey :: nat
  vd_auth_pubkey :: "nat option"
  vd_pq_kem_pubkey_hash :: nat
  vd_pq_kem_pubkey_len :: nat
  vd_pq_kem_pubkey :: bytes
  vd_crypto_suite_mask :: int
  vd_scan_pubkey :: nat

definition createVaultMessagingKeyDraft :: "prims \<Rightarrow> key_bundle \<Rightarrow> bytes \<Rightarrow> bytes option \<Rightarrow> vault_draft res" where
  "createVaultMessagingKeyDraft P publicBundle signingPublicKey authPublicKey =
     andThen (normalizeRecipientBundle P publicBundle) (\<lambda>r.
     guard (\<not> kb_suite (rk_bundle r) \<noteq> HYBRID_V1) (JsError ''Platho v1 messaging keys require hybrid-v1'')
    (andThen (assertLength signingPublicKey 32) (\<lambda>sign.
     andThen (case authPublicKey of None \<Rightarrow> Inr None | Some a \<Rightarrow> andThen (assertLength a 32) (\<lambda>a. Inr (Some a))) (\<lambda>auth.
     guard (\<not> auth = Some sign) (JsError ''Vault auth public key must be separate from messaging signing key'')
    (andThen (assertLength (rk_x25519PublicKey r) 32) (\<lambda>enc.
     andThen (base64urlFixedBytes (kb_mlKem768PublicKeyHash (rk_bundle r)) 32) (\<lambda>pqHash.
     andThen (assertSome (rk_mlKem768PublicKey r) MLKEM768_PUBLIC_KEY_BYTES) (\<lambda>pq.
     andThen (case rk_scanPublicKey r of None \<Rightarrow> Inl (JsError ''Platho v1 messaging keys require a stealth scan pubkey'')
         | Some s \<Rightarrow> assertLength s 32) (\<lambda>scan.
       Inr \<lparr>vd_enc_pubkey = be_value enc, vd_sign_pubkey = be_value sign, vd_auth_pubkey = map_option be_value auth,
            vd_pq_kem_pubkey_hash = be_value pqHash, vd_pq_kem_pubkey_len = MLKEM768_PUBLIC_KEY_BYTES,
            vd_pq_kem_pubkey = pq, vd_crypto_suite_mask = kb_contractSuite (rk_bundle r),
            vd_scan_pubkey = be_value scan\<rparr>)))))))))"

section \<open>Well-formed key pairs\<close>

text \<open>
  A key pair's identifier is that of its public keys, its suite numbers agree, and every key has its
  length; \<open>secret\<close> is the X25519 secret it was made from.
\<close>

definition key_pair_ok :: "prims \<Rightarrow> key_pair \<Rightarrow> bool" where
  "key_pair_ok P kp \<longleftrightarrow>
     suiteContract (kp_suite kp) = Inr (kp_contractSuite kp)
     \<and> (\<exists>sk. kp_x25519SecretKey kp = Some sk \<and> kp_x25519PublicKey kp = p_x25519_public P sk) \<and> length (kp_x25519PublicKey kp) = 32
     \<and> (kp_suite kp = CLASSICAL_V1 \<longrightarrow> computeClassicalKeyId P (kp_x25519PublicKey kp) = Inr (kp_keyId kp)
          \<and> kp_mlKem768PublicKey kp = None \<and> kp_mlKem768SecretKey kp = None)
     \<and> (kp_suite kp = HYBRID_V1 \<longrightarrow> (\<exists>seed pq. p_mlkem_keygen P seed = (pq, the (kp_mlKem768SecretKey kp))
          \<and> kp_mlKem768SecretKey kp \<noteq> None \<and> kp_mlKem768PublicKey kp = Some pq \<and> length pq = 1184
          \<and> length (the (kp_mlKem768SecretKey kp)) = 2400
          \<and> kp_mlKem768PublicKeyHash kp = Some (p_sha256 P pq) \<and> computeHybridKeyId P (kp_x25519PublicKey kp) pq = Inr (kp_keyId kp)))
     \<and> (\<forall>scan. kp_scanPublicKey kp = Some scan \<longrightarrow> length scan = 32)"

lemma computeClassicalKeyId_length: "computeClassicalKeyId P pk = Inr k \<Longrightarrow> length pk = 32"
  by (auto simp: computeClassicalKeyId_def res_simps)

lemma computeHybridKeyId_length: "computeHybridKeyId P pk pq = Inr k \<Longrightarrow> length pk = 32 \<and> length pq = 1184"
  by (auto simp: computeHybridKeyId_def res_simps MLKEM768_PUBLIC_KEY_BYTES_def)

lemma createClassicalKeyPair_ok: "createClassicalKeyPair P sk = Inr kp \<Longrightarrow> key_pair_ok P kp \<and> kp_suite kp = CLASSICAL_V1"
  using computeClassicalKeyId_length by (auto simp: createClassicalKeyPair_def Let_def res_simps key_pair_ok_def suiteContract_def)

lemma createHybridKeyPair_ok: "createHybridKeyPair P sk seed = Inr kp \<Longrightarrow> key_pair_ok P kp \<and> kp_suite kp = HYBRID_V1"
  using computeHybridKeyId_length
  by (auto simp: createHybridKeyPair_def Let_def res_simps key_pair_ok_def suiteContract_def)

lemma key_pair_ok_scan: "key_pair_ok P kp \<Longrightarrow> length s = 32 \<Longrightarrow> key_pair_ok P (kp\<lparr>kp_scanSecretKey := t, kp_scanPublicKey := Some s\<rparr>)"
  by (simp add: key_pair_ok_def)

text \<open>
  C38: Messaging identities are well formed. Whatever combination of options and random values
  \<open>createMessagingIdentity\<close> is given, the identity it returns has a key pair whose identifier is the one
  computed from its public keys, whose suite and contract numbers agree, whose keys have their lengths
  and belong together, and which carries the scan key; a given key pair only has to be well formed itself.
\<close>

theorem messaging_identity_ok:
  assumes "createMessagingIdentity P given suite signing scan r1 r2 r3 seed = Inr mi"
    and "\<And>kp. given = Some kp \<Longrightarrow> key_pair_ok P kp"
  shows "key_pair_ok P (mi_encryptionKeyPair mi) \<and> length (mi_signingPublicKey mi) = 32
    \<and> mi_signingPublicKey mi = p_ed_public P (mi_signingSecretKey mi)
    \<and> (\<exists>s. kp_scanSecretKey (mi_encryptionKeyPair mi) = Some s
        \<and> kp_scanPublicKey (mi_encryptionKeyPair mi) = Some (p_x25519_public P s))
    \<and> (given = None \<longrightarrow> kp_suite (mi_encryptionKeyPair mi) = (if suite = Some CLASSICAL_V1 then CLASSICAL_V1 else HYBRID_V1))"
proof -
  obtain kp signSecret scanSecret where k:
      "(case given of Some kp \<Rightarrow> Inr kp
        | None \<Rightarrow> if suite = Some CLASSICAL_V1 then createClassicalKeyPair P r1 else createHybridKeyPair P r1 seed) = Inr kp"
      "length (p_ed_public P signSecret) = 32" "length (p_x25519_public P scanSecret) = 32"
      "mi = \<lparr>mi_encryptionKeyPair = kp\<lparr>kp_scanSecretKey := Some scanSecret, kp_scanPublicKey := Some (p_x25519_public P scanSecret)\<rparr>,
            mi_signingSecretKey = signSecret, mi_signingPublicKey = p_ed_public P signSecret\<rparr>"
    using assms(1) unfolding createMessagingIdentity_def res_simps by blast
  have "key_pair_ok P kp \<and> (given = None \<longrightarrow> kp_suite kp = (if suite = Some CLASSICAL_V1 then CLASSICAL_V1 else HYBRID_V1))"
    using k(1) assms(2) createClassicalKeyPair_ok createHybridKeyPair_ok by (auto split: option.splits if_splits)
  then show ?thesis using k(2-4) key_pair_ok_scan by simp
qed

section \<open>Bundles exported and read\<close>

lemma export_Inr:
  assumes "key_pair_ok P kp" "hash_laws P"
  shows "exportPublicKeyBundle kp = Inr \<lparr>kb_version = 1, kb_suite = kp_suite kp, kb_contractSuite = kp_contractSuite kp,
      kb_keyId = kp_keyId kp, kb_x25519PublicKey = Some (base64urlEncode (kp_x25519PublicKey kp)),
      kb_scanPublicKey = map_option base64urlEncode (kp_scanPublicKey kp),
      kb_mlKem768PublicKey = (if kp_suite kp = HYBRID_V1 then map_option base64urlEncode (kp_mlKem768PublicKey kp) else None),
      kb_mlKem768PublicKeyHash = (if kp_suite kp = HYBRID_V1 then Some (base64urlEncode (p_sha256 P (the (kp_mlKem768PublicKey kp)))) else None),
      kb_mlKem768PublicKeyLen = (if kp_suite kp = HYBRID_V1 then Some 1184 else None)\<rparr>"
  using assms by (auto simp: exportPublicKeyBundle_def key_pair_ok_def assertLength_def assertSome_def Let_def hash_laws_def
      MLKEM768_PUBLIC_KEY_BYTES_def split: option.splits)

lemma normalize_exported:
  assumes "key_pair_ok P kp" "hash_laws P" "exportPublicKeyBundle kp = Inr b"
  shows "normalizeRecipientBundle P b = Inr \<lparr>rk_bundle = b, rk_x25519PublicKey = kp_x25519PublicKey kp,
     rk_scanPublicKey = kp_scanPublicKey kp,
     rk_mlKem768PublicKey = (if kp_suite kp = HYBRID_V1 then kp_mlKem768PublicKey kp else None)\<rparr>"
proof -
  note b = assms(3) [unfolded export_Inr [OF assms(1,2)], simplified, symmetric]
  have s: "kp_suite kp = CLASSICAL_V1 \<or> kp_suite kp = HYBRID_V1" "suiteContract (kp_suite kp) = Inr (kp_contractSuite kp)"
    using assms(1) by (auto simp: key_pair_ok_def suiteContract_def split: if_splits)
  have scan: "(case kb_scanPublicKey b of None \<Rightarrow> Inr None
      | Some s \<Rightarrow> andThen (base64urlFixedBytes (Some s) 32) (\<lambda>scan. Inr (Some scan))) = Inr (kp_scanPublicKey kp)"
    using assms(1) by (auto simp: b key_pair_ok_def assertLength_def split: option.splits)
  have v: "kb_version b = 1" "kb_suite b = kp_suite kp" "kb_contractSuite b = kp_contractSuite kp" "kb_keyId b = kp_keyId kp"
      "base64urlFixedBytes (kb_x25519PublicKey b) 32 = Inr (kp_x25519PublicKey kp)"
    using assms(1) by (simp_all add: b assertLength_def key_pair_ok_def)
  from s(1) show ?thesis
  proof
    assume "kp_suite kp = CLASSICAL_V1"
    then show ?thesis using assms(1) s(2) scan
      by (simp add: normalizeRecipientBundle_def v) (simp add: b key_pair_ok_def)
  next
    assume h: "kp_suite kp = HYBRID_V1"
    obtain pq where pq: "kp_mlKem768PublicKey kp = Some pq" "length pq = 1184"
        "computeHybridKeyId P (kp_x25519PublicKey kp) pq = Inr (kp_keyId kp)"
      using assms(1) h by (auto simp: key_pair_ok_def)
    show ?thesis using s(2) scan h assms(2)
      by (simp add: normalizeRecipientBundle_def v pq) (simp add: b pq assertLength_def MLKEM768_PUBLIC_KEY_BYTES_def hash_laws_def)
  qed
qed

text \<open>The record the vault stores for a registered draft.\<close>

definition record_of_draft :: "vault_draft \<Rightarrow> vault_key_record" where
  "record_of_draft d =
     \<lparr>vk_exists = True, vk_revoked_lt = Some 0, vk_enc_pubkey = Some (int (vd_enc_pubkey d)),
      vk_sign_pubkey = Some (int (vd_sign_pubkey d)), vk_crypto_suite_mask = Some (vd_crypto_suite_mask d),
      vk_pq_kem_pubkey_len = Some (int (vd_pq_kem_pubkey_len d)), vk_pq_kem_pubkey_hash = Some (int (vd_pq_kem_pubkey_hash d)),
      vk_pq_kem_pubkey = Some (PqBytes (vd_pq_kem_pubkey d)), vk_scan_pubkey = Some (int (vd_scan_pubkey d))\<rparr>"

lemma writeBigUint_value: "length bs = n \<Longrightarrow> writeBigUintBytes (int (be_value bs)) n = Inr bs"
proof -
  assume n: "length bs = n"
  have "int (be_value bs) < 2 ^ (n * 8)"
  proof -
    have "be_value bs < 256 ^ n" using be_value_less [of bs] n by simp
    also have "(256 :: nat) ^ n = 2 ^ (n * 8)" by (simp add: power_mult mult.commute [of n 8])
    finally show ?thesis using of_nat_less_iff [where 'a = int, of "be_value bs" "2 ^ (n * 8)"] by simp
  qed
  then show ?thesis using be_bytes_be_value [of bs] n by (simp add: writeBigUintBytes_def del: be_bytes.simps)
qed

lemma draft_fields:
  assumes "key_pair_ok P kp" "hash_laws P" "kp_suite kp = HYBRID_V1" "exportPublicKeyBundle kp = Inr b"
    "createVaultMessagingKeyDraft P b sign auth = Inr d"
  shows "\<exists>pq scan. kp_mlKem768PublicKey kp = Some pq \<and> length pq = 1184 \<and> kp_scanPublicKey kp = Some scan \<and> length scan = 32
    \<and> vd_enc_pubkey d = be_value (kp_x25519PublicKey kp) \<and> vd_pq_kem_pubkey d = pq
    \<and> vd_pq_kem_pubkey_hash d = be_value (p_sha256 P pq) \<and> vd_pq_kem_pubkey_len d = 1184
    \<and> vd_crypto_suite_mask d = 2 \<and> vd_scan_pubkey d = be_value scan \<and> vd_sign_pubkey d = be_value sign \<and> length sign = 32"
proof -
  note b = assms(4) [unfolded export_Inr [OF assms(1,2)], simplified, symmetric]
  obtain pq where pq: "kp_mlKem768PublicKey kp = Some pq" "length pq = 1184" using assms(1,3) by (auto simp: key_pair_ok_def)
  have c: "kp_contractSuite kp = 2" using assms(1,3) by (simp add: key_pair_ok_def suiteContract_def CONTRACT_HYBRID_def)
  have h: "base64urlFixedBytes (kb_mlKem768PublicKeyHash b) 32 = Inr (p_sha256 P pq)"
    using assms(2,3) by (simp add: b pq assertLength_def hash_laws_def)
  have "assertSome (Some pq) MLKEM768_PUBLIC_KEY_BYTES = Inr pq"
    using pq(2) by (simp add: assertSome_def assertLength_def MLKEM768_PUBLIC_KEY_BYTES_def)
  with assms(5) show ?thesis
    unfolding createVaultMessagingKeyDraft_def normalize_exported [OF assms(1,2,4)]
    by (auto simp: res_simps assms(3) h pq MLKEM768_PUBLIC_KEY_BYTES_def split: option.splits) (simp_all add: b c assms(3))
qed

text \<open>
  Registering keys in the vault loses nothing. A hybrid key pair's bundle is turned into the draft the
  vault stores; from the stored record any client rebuilds exactly the bundle that was exported, text for
  text, and its normalisation gives back the three public keys, so that what a sender encrypts to is what
  the owner holds the secrets of. The one key the record cannot carry is the all-zero scan key.
\<close>

theorem vault_bundle_roundtrip:
  assumes "key_pair_ok P kp" "hash_laws P" "kp_suite kp = HYBRID_V1" "exportPublicKeyBundle kp = Inr b"
    and "createVaultMessagingKeyDraft P b sign auth = Inr d" "vd_scan_pubkey d \<noteq> 0"
  shows "publicKeyBundleFromVaultKeyRecord P (record_of_draft d) None = Inr b
    \<and> normalizeRecipientBundle P b = Inr \<lparr>rk_bundle = b, rk_x25519PublicKey = kp_x25519PublicKey kp,
       rk_scanPublicKey = kp_scanPublicKey kp, rk_mlKem768PublicKey = kp_mlKem768PublicKey kp\<rparr>"
proof -
  note b = assms(4) [unfolded export_Inr [OF assms(1,2)], simplified, symmetric]
  obtain pq scan where f: "kp_mlKem768PublicKey kp = Some pq" "length pq = 1184" "kp_scanPublicKey kp = Some scan" "length scan = 32"
      "vd_enc_pubkey d = be_value (kp_x25519PublicKey kp)" "vd_pq_kem_pubkey d = pq"
      "vd_pq_kem_pubkey_hash d = be_value (p_sha256 P pq)" "vd_pq_kem_pubkey_len d = 1184" "vd_crypto_suite_mask d = 2"
      "vd_scan_pubkey d = be_value scan"
    using draft_fields [OF assms(1-5)] by blast
  have k: "computeHybridKeyId P (kp_x25519PublicKey kp) pq = Inr (kp_keyId kp)" "length (kp_x25519PublicKey kp) = 32"
      "kp_contractSuite kp = CONTRACT_HYBRID"
    using assms(1,3) f(1) by (auto simp: key_pair_ok_def suiteContract_def)
  note w = writeBigUint_value [OF k(2)] writeBigUint_value [OF f(4)]
  have "recordPqKemPubkeyBytes (record_of_draft d) MLKEM768_PUBLIC_KEY_BYTES = Inr pq"
    using f(2,6) by (simp add: recordPqKemPubkeyBytes_def record_of_draft_def assertLength_def MLKEM768_PUBLIC_KEY_BYTES_def)
  moreover have "be_value scan \<noteq> 0" using assms(6) f(10) by simp
  ultimately have "publicKeyBundleFromVaultKeyRecord P (record_of_draft d) None = Inr b"
    using w k by (simp add: publicKeyBundleFromVaultKeyRecord_def normalizeRequestedSuite_def recordField_def Let_def suite_defs)
      (simp add: record_of_draft_def f suite_defs MLKEM768_PUBLIC_KEY_BYTES_def b or_default_def assms(3) k)
  then show ?thesis using normalize_exported [OF assms(1,2,4)] assms(3) by simp
qed

section \<open>What a key identifier commits to\<close>

lemma key_id_domains: "take 14 (ascii ''PLATHO.KEYID.CLASSICAL.V1'' @ xs) \<noteq> take 14 (ascii ''PLATHO.KEYID.HYBRID.V1'' @ ys)"
proof -
  have a: "ascii ''PLATHO.KEYID.CLASSICAL.V1'' = map word_of_nat (str ''PLATHO.KEYID.CLASSICAL.V1'')"
    "ascii ''PLATHO.KEYID.HYBRID.V1'' = map word_of_nat (str ''PLATHO.KEYID.HYBRID.V1'')"
    unfolding ascii_def by (rule utf8_encode_ascii, simp add: str_def)+
  have "(map word_of_nat (str ''PLATHO.KEYID.CLASSICAL.V1'') :: bytes) ! 13 = 67"
    "(map word_of_nat (str ''PLATHO.KEYID.HYBRID.V1'') :: bytes) ! 13 = 72"
    by (simp_all add: str_def)
  moreover have "13 < length (str ''PLATHO.KEYID.CLASSICAL.V1'')" "13 < length (str ''PLATHO.KEYID.HYBRID.V1'')"
    by (simp_all add: str_def)
  ultimately have "take 14 (ascii ''PLATHO.KEYID.CLASSICAL.V1'' @ xs) ! 13 = 67" "take 14 (ascii ''PLATHO.KEYID.HYBRID.V1'' @ ys) ! 13 = 72"
    unfolding a by (simp_all only: nth_append length_map nth_take if_True)
  then show ?thesis by auto
qed

lemma normalize_key_id:
  assumes "normalizeRecipientBundle P b = Inr r"
  shows "(kb_suite b = CLASSICAL_V1 \<and> rk_mlKem768PublicKey r = None \<and> length (rk_x25519PublicKey r) = 32
      \<and> kb_keyId b = base64urlEncode (p_sha256 P (ascii ''PLATHO.KEYID.CLASSICAL.V1'' @ rk_x25519PublicKey r)))
    \<or> (\<exists>pq. kb_suite b = HYBRID_V1 \<and> rk_mlKem768PublicKey r = Some pq \<and> length (rk_x25519PublicKey r) = 32
      \<and> kb_keyId b = base64urlEncode (p_sha256 P (ascii ''PLATHO.KEYID.HYBRID.V1'' @ rk_x25519PublicKey r @ p_sha256 P pq
          @ utf8_encode (dec_string MLKEM768_PUBLIC_KEY_BYTES))))"
proof -
  have c: "kb_suite b = CLASSICAL_V1 \<or> kb_suite b = HYBRID_V1"
    using assms by (auto simp: normalizeRecipientBundle_def res_simps suiteContract_def split: if_splits)
  show ?thesis
    using assms c unfolding normalizeRecipientBundle_def
    by (auto simp: res_simps computeClassicalKeyId_def computeHybridKeyId_def split: if_splits)
qed

text \<open>The messages hashed to check a bundle's key identifier.\<close>

definition key_id_inputs :: "prims \<Rightarrow> recipient \<Rightarrow> bytes list" where
  "key_id_inputs P r =
     (case rk_mlKem768PublicKey r of
        None \<Rightarrow> [ascii ''PLATHO.KEYID.CLASSICAL.V1'' @ rk_x25519PublicKey r]
      | Some pq \<Rightarrow> [ascii ''PLATHO.KEYID.HYBRID.V1'' @ rk_x25519PublicKey r @ p_sha256 P pq
          @ utf8_encode (dec_string MLKEM768_PUBLIC_KEY_BYTES), pq])"

text \<open>
  C13: A key identifier commits to the keys. If two bundles the sender's checks accept carry the same key
  identifier, they have the same suite, the same X25519 key and the same ML-KEM key, or two different
  messages hashed in checking the one and the other have the same SHA-256; nobody can keep a recipient's
  identifier and slip in other keys.
\<close>

theorem key_id_binds_keys:
  assumes "normalizeRecipientBundle P b = Inr r" "normalizeRecipientBundle P b' = Inr r'" "kb_keyId b = kb_keyId b'"
  shows "kb_suite b = kb_suite b' \<and> rk_x25519PublicKey r = rk_x25519PublicKey r' \<and> rk_mlKem768PublicKey r = rk_mlKem768PublicKey r'
    \<or> collision (p_sha256 P) (key_id_inputs P r) (key_id_inputs P r')"
proof (cases "collision (p_sha256 P) (key_id_inputs P r) (key_id_inputs P r')")
  case False
  note inj = no_collision [OF False]
  let ?c = "ascii ''PLATHO.KEYID.CLASSICAL.V1''" and ?h = "ascii ''PLATHO.KEYID.HYBRID.V1''"
  let ?m = "\<lambda>r pq. ?h @ rk_x25519PublicKey r @ p_sha256 P pq @ utf8_encode (dec_string MLKEM768_PUBLIC_KEY_BYTES)"
  have e: "p_sha256 P m = p_sha256 P m'" if "kb_keyId b = base64urlEncode (p_sha256 P m)" "kb_keyId b' = base64urlEncode (p_sha256 P m')" for m m'
    using that assms(3) by (intro base64urlEncode_inj) metis
  have d: "?c @ xs \<noteq> ?h @ ys" for xs ys using key_id_domains [of xs ys] by metis
  from normalize_key_id [OF assms(1)] normalize_key_id [OF assms(2)] show ?thesis
  proof (elim disjE exE conjE)
    assume k: "kb_suite b = CLASSICAL_V1" "rk_mlKem768PublicKey r = None" "kb_keyId b = base64urlEncode (p_sha256 P (?c @ rk_x25519PublicKey r))"
      "kb_suite b' = CLASSICAL_V1" "rk_mlKem768PublicKey r' = None" "kb_keyId b' = base64urlEncode (p_sha256 P (?c @ rk_x25519PublicKey r'))"
    have "?c @ rk_x25519PublicKey r = ?c @ rk_x25519PublicKey r'"
      by (rule inj [OF _ _ e [OF k(3,6)]]) (simp_all add: key_id_inputs_def k(2,5))
    then show ?thesis using k(1,2,4,5) by simp
  next
    fix pq
    assume k: "rk_mlKem768PublicKey r = None" "kb_keyId b = base64urlEncode (p_sha256 P (?c @ rk_x25519PublicKey r))"
      "rk_mlKem768PublicKey r' = Some pq" "kb_keyId b' = base64urlEncode (p_sha256 P (?m r' pq))"
    have "?c @ rk_x25519PublicKey r = ?m r' pq"
      by (rule inj [OF _ _ e [OF k(2,4)]]) (simp_all add: key_id_inputs_def k(1,3))
    then show ?thesis using d by blast
  next
    fix pq
    assume k: "rk_mlKem768PublicKey r = Some pq" "kb_keyId b = base64urlEncode (p_sha256 P (?m r pq))"
      "rk_mlKem768PublicKey r' = None" "kb_keyId b' = base64urlEncode (p_sha256 P (?c @ rk_x25519PublicKey r'))"
    have "?m r pq = ?c @ rk_x25519PublicKey r'"
      by (rule inj [OF _ _ e [OF k(2,4)]]) (simp_all add: key_id_inputs_def k(1,3))
    then show ?thesis using d by metis
  next
    fix pq pq'
    assume k: "kb_suite b = HYBRID_V1" "rk_mlKem768PublicKey r = Some pq" "kb_keyId b = base64urlEncode (p_sha256 P (?m r pq))"
      "kb_suite b' = HYBRID_V1" "rk_mlKem768PublicKey r' = Some pq'" "kb_keyId b' = base64urlEncode (p_sha256 P (?m r' pq'))"
      and l: "length (rk_x25519PublicKey r) = 32" "length (rk_x25519PublicKey r') = 32"
    have "?m r pq = ?m r' pq'"
      by (rule inj [OF _ _ e [OF k(3,6)]]) (simp_all add: key_id_inputs_def k(2,5))
    then have x: "rk_x25519PublicKey r = rk_x25519PublicKey r'" "p_sha256 P pq = p_sha256 P pq'" using l by simp_all
    have "pq = pq'" by (rule inj [OF _ _ x(2)]) (simp_all add: key_id_inputs_def k(2,5))
    then show ?thesis using x(1) k(1,2,4,5) by simp
  qed
qed blast

section \<open>A concrete identity\<close>

definition sample_identity :: messaging_identity where
  "sample_identity = (case createMessagingIdentity toy_prims None None None None (replicate 32 2) (replicate 32 4) (replicate 32 3) [] of
     Inr mi \<Rightarrow> mi | Inl e \<Rightarrow> undefined)"

lemma sample_identity_created:
  "createMessagingIdentity toy_prims None None None None (replicate 32 2) (replicate 32 4) (replicate 32 3) [] = Inr sample_identity"
proof -
  have l: "length (p_x25519_public toy_prims x) = 32" "length (fst (p_mlkem_keygen toy_prims y)) = 1184"
      "length (snd (p_mlkem_keygen toy_prims y)) = 2400" "length (p_ed_public toy_prims z) = 32" for x y z
    using toy_laws by (simp_all add: crypto_law_defs)
  have "\<exists>mi. createMessagingIdentity toy_prims None None None None (replicate 32 2) (replicate 32 4) (replicate 32 3) [] = Inr mi"
    by (simp add: createMessagingIdentity_def createHybridKeyPair_def computeHybridKeyId_def assertLength_def l Let_def
        MLKEM768_PUBLIC_KEY_BYTES_def)
  then show ?thesis by (auto simp: sample_identity_def)
qed

abbreviation sample_pair :: key_pair where "sample_pair \<equiv> mi_encryptionKeyPair sample_identity"

lemma sample_pair_ok:
  "key_pair_ok toy_prims sample_pair" "kp_suite sample_pair = HYBRID_V1"
  "kp_scanPublicKey sample_pair = Some (replicate 32 3)" "kp_x25519PublicKey sample_pair = replicate 32 2"
  "kp_x25519SecretKey sample_pair = Some (replicate 32 2)" "hash_laws toy_prims"
proof -
  obtain kp where k: "createHybridKeyPair toy_prims (replicate 32 2) [] = Inr kp"
      "sample_pair = kp\<lparr>kp_scanSecretKey := Some (replicate 32 3), kp_scanPublicKey := Some (replicate 32 3)\<rparr>"
  proof -
    have pub: "p_x25519_public toy_prims (replicate 32 3) = replicate 32 3" by (simp add: toy_prims_def pad_to_def)
    obtain kp where kp: "createHybridKeyPair toy_prims (replicate 32 2) [] = Inr kp"
      using sample_identity_created by (auto simp: createMessagingIdentity_def res_simps)
    have "\<lparr>mi_encryptionKeyPair = kp\<lparr>kp_scanSecretKey := Some (replicate 32 3), kp_scanPublicKey := Some (replicate 32 3)\<rparr>,
        mi_signingSecretKey = replicate 32 4, mi_signingPublicKey = p_ed_public toy_prims (replicate 32 4)\<rparr> = sample_identity"
      using sample_identity_created kp by (auto simp: createMessagingIdentity_def res_simps pub)
    from arg_cong [OF this, of mi_encryptionKeyPair]
    have "mi_encryptionKeyPair sample_identity = kp\<lparr>kp_scanSecretKey := Some (replicate 32 3), kp_scanPublicKey := Some (replicate 32 3)\<rparr>"
      by simp
    with kp show ?thesis by (rule that)
  qed
  note ok = createHybridKeyPair_ok [OF k(1)]
  show "key_pair_ok toy_prims sample_pair" "kp_suite sample_pair = HYBRID_V1" "kp_scanPublicKey sample_pair = Some (replicate 32 3)"
    using ok key_pair_ok_scan by (simp_all add: k(2))
  show "kp_x25519PublicKey sample_pair = replicate 32 2" "kp_x25519SecretKey sample_pair = Some (replicate 32 2)"
    using k(1) by (auto simp: k(2) createHybridKeyPair_def Let_def res_simps) (simp_all add: toy_prims_def pad_to_def)
  show "hash_laws toy_prims" using toy_laws by (simp add: crypto_laws_def)
qed

theorem messaging_identity_ok_witness:
  "key_pair_ok toy_prims sample_pair \<and> kp_suite sample_pair = HYBRID_V1"
  using messaging_identity_ok [OF sample_identity_created] by simp

lemma sample_bundle: "\<exists>b. exportPublicKeyBundle sample_pair = Inr b"
  using export_Inr [OF sample_pair_ok(1,6)] by blast

lemma sample_draft:
  assumes "exportPublicKeyBundle sample_pair = Inr b"
  shows "\<exists>d. createVaultMessagingKeyDraft toy_prims b (replicate 32 4) None = Inr d \<and> vd_scan_pubkey d \<noteq> 0"
proof -
  note b = assms [unfolded export_Inr [OF sample_pair_ok(1,6)], simplified, symmetric]
  obtain pq where pq: "kp_mlKem768PublicKey sample_pair = Some pq" "length pq = 1184"
    using sample_pair_ok(1,2) by (auto simp: key_pair_ok_def)
  have "base64urlFixedBytes (kb_mlKem768PublicKeyHash b) 32 = Inr (p_sha256 toy_prims pq)"
    using sample_pair_ok(2,6) by (simp add: b pq assertLength_def hash_laws_def)
  moreover have "be_value (replicate 32 (3 :: byte)) \<noteq> 0"
  proof -
    have "replicate 32 (3 :: byte) = replicate 31 3 @ [3]" by (subst replicate_append_same) (simp flip: replicate_Suc)
    then show ?thesis using be_value_snoc [of "replicate 31 3" 3] by simp
  qed
  ultimately show ?thesis
    unfolding createVaultMessagingKeyDraft_def normalize_exported [OF sample_pair_ok(1,6) assms]
    by (simp add: assertLength_def sample_pair_ok pq assertSome_def MLKEM768_PUBLIC_KEY_BYTES_def) (simp add: b sample_pair_ok(2))
qed

theorem vault_bundle_roundtrip_witness:
  "\<exists>b d. exportPublicKeyBundle sample_pair = Inr b \<and> createVaultMessagingKeyDraft toy_prims b (replicate 32 4) None = Inr d
    \<and> publicKeyBundleFromVaultKeyRecord toy_prims (record_of_draft d) None = Inr b"
proof -
  obtain b where b: "exportPublicKeyBundle sample_pair = Inr b" using sample_bundle by blast
  obtain d where d: "createVaultMessagingKeyDraft toy_prims b (replicate 32 4) None = Inr d" "vd_scan_pubkey d \<noteq> 0"
    using sample_draft [OF b] by blast
  show ?thesis using vault_bundle_roundtrip [OF sample_pair_ok(1,6,2) b d] b d(1) by blast
qed

theorem key_id_binds_keys_witness:
  "\<exists>b b' r r'. b \<noteq> b' \<and> normalizeRecipientBundle toy_prims b = Inr r \<and> normalizeRecipientBundle toy_prims b' = Inr r'
    \<and> kb_keyId b = kb_keyId b'
    \<and> (kb_suite b = kb_suite b' \<and> rk_x25519PublicKey r = rk_x25519PublicKey r' \<and> rk_mlKem768PublicKey r = rk_mlKem768PublicKey r'
       \<or> collision (p_sha256 toy_prims) (key_id_inputs toy_prims r) (key_id_inputs toy_prims r'))"
proof -
  let ?kp = "sample_pair\<lparr>kp_scanPublicKey := None\<rparr>"
  have ok: "key_pair_ok toy_prims ?kp" using sample_pair_ok(1) by (simp add: key_pair_ok_def)
  obtain b b' where b: "exportPublicKeyBundle sample_pair = Inr b" "exportPublicKeyBundle ?kp = Inr b'"
    using sample_bundle export_Inr [OF ok sample_pair_ok(6)] by blast
  have d: "kb_keyId b = kb_keyId b'" "kb_scanPublicKey b \<noteq> None" "kb_scanPublicKey b' = None"
    using b unfolding export_Inr [OF sample_pair_ok(1,6)] export_Inr [OF ok sample_pair_ok(6)] by (auto simp: sample_pair_ok(3))
  note n = normalize_exported [OF sample_pair_ok(1,6) b(1)] normalize_exported [OF ok sample_pair_ok(6) b(2)]
  have "b \<noteq> b'" using d(2,3) by auto
  then show ?thesis using key_id_binds_keys [OF n d(1)] n d(1) by blast
qed

end
