(* ===== verification/Capsule_Body.thy ===== *)
theory Capsule_Body
  imports Key_Bundles
begin

text \<open>
  The encrypted body of a capsule (\<open>web/crypto/platho-crypto.mjs\<close>): a prefix with the ephemeral key and
  the ML-KEM ciphertext, optionally a section that wraps the payload key for the sender, and the sealed
  payload; its inspection, decryption as recipient or as sender, and its split into chunks.
\<close>

section \<open>The sender recovery section\<close>

definition COMPACT_BODY_MAGIC :: bytes where "COMPACT_BODY_MAGIC = [0x50, 0x4c, 0x42, 0x31]"
definition COMPACT_CHUNK_MAGIC :: bytes where "COMPACT_CHUNK_MAGIC = [0x50, 0x4c, 0x43, 0x31]"
definition COMPACT_SENDER_RECOVERY_MAGIC :: bytes where "COMPACT_SENDER_RECOVERY_MAGIC = [0x50, 0x53, 0x52, 0x31]"
definition COMPACT_BODY_FLAG_SENDER_RECOVERY :: byte where "COMPACT_BODY_FLAG_SENDER_RECOVERY = 1"
definition PLATHO_COMPACT_MAX_CHUNKS :: nat where "PLATHO_COMPACT_MAX_CHUNKS = 1"

record body_hashes =
  bh_header0Hash :: js_string
  bh_header1Hash :: js_string
  bh_senderKeyId :: "js_string option"

definition compactBodyAad :: "bytes \<Rightarrow> body_hashes \<Rightarrow> bytes res" where
  "compactBodyAad bodyPrefix hashes =
     andThen (compactHashBytes (bh_header0Hash hashes)) (\<lambda>h0.
     andThen (compactHashBytes (bh_header1Hash hashes)) (\<lambda>h1.
       Inr (ascii ''PLATHO.COMPACT_BODY.AAD.V1'' @ bodyPrefix @ h0 @ h1)))"

definition compactSenderRecoveryAad :: "bytes \<Rightarrow> body_hashes \<Rightarrow> bytes res" where
  "compactSenderRecoveryAad bodyPrefix hashes =
     andThen (compactHashBytes (bh_header0Hash hashes)) (\<lambda>h0.
     andThen (compactHashBytes (bh_header1Hash hashes)) (\<lambda>h1.
     andThen (base64urlFixedBytes (bh_senderKeyId hashes) 32) (\<lambda>sender.
       Inr (ascii ''PLATHO.COMPACT_BODY.SENDER_RECOVERY.AAD.V1'' @ bodyPrefix @ h0 @ h1 @ sender))))"

definition compactSenderRecoverySection :: "bytes \<Rightarrow> (bytes \<times> bytes) res" where
  "compactSenderRecoverySection sectionBytes =
     andThen (assertLength sectionBytes PLATHO_COMPACT_SENDER_RECOVERY_BYTES) (\<lambda>s.
     guard (slice 0 4 s = COMPACT_SENDER_RECOVERY_MAGIC) (JsError ''Compact sender recovery magic mismatch'')
       (Inr (slice 4 16 s, slice 16 64 s)))"

definition senderRecoverySecretParts :: "key_pair option \<Rightarrow> js_string \<Rightarrow> bytes list res" where
  "senderRecoverySecretParts keyPair suite =
     (case keyPair of None \<Rightarrow> Inl (JsError ''Sender recovery key pair is required'')
      | Some kp \<Rightarrow>
         guard (\<not> kp_suite kp \<noteq> suite) (JsError ''Sender recovery key suite mismatch'')
         (andThen (assertSome (kp_x25519SecretKey kp) 32) (\<lambda>x.
          if suite = HYBRID_V1 then andThen (assertSome (kp_mlKem768SecretKey kp) 2400) (\<lambda>pq. Inr [x, pq]) else Inr [x])))"

definition deriveSenderRecoveryKey :: "prims \<Rightarrow> key_pair option \<Rightarrow> js_string \<Rightarrow> bytes \<Rightarrow> bytes res" where
  "deriveSenderRecoveryKey P keyPair suite aad =
     andThen (senderRecoverySecretParts keyPair suite) (\<lambda>parts.
       assertLength (deriveAesGcmKeyBytes P SENDER_RECOVERY_SALT_DOMAIN SENDER_RECOVERY_KEY_DOMAIN parts (p_sha256 P aad)) 32)"

definition encryptSenderRecoverySection ::
    "prims \<Rightarrow> bytes \<Rightarrow> bytes \<Rightarrow> key_pair option \<Rightarrow> js_string \<Rightarrow> bytes \<Rightarrow> body_hashes \<Rightarrow> bytes res" where
  "encryptSenderRecoverySection P nonce payloadKey keyPair suite bodyPrefix hashes =
     andThen (compactSenderRecoveryAad bodyPrefix hashes) (\<lambda>aad.
     andThen (deriveSenderRecoveryKey P keyPair suite aad) (\<lambda>key.
     andThen (assertLength payloadKey 32) (\<lambda>payloadKey.
       (let wrapped = p_seal P key nonce aad payloadKey in
        guard (\<not> length wrapped \<noteq> 48) (JsError ''Sender recovery wrapped key size drift'')
          (Inr (COMPACT_SENDER_RECOVERY_MAGIC @ nonce @ wrapped))))))"

section \<open>Encrypting\<close>

record body_options =
  en_hashes :: body_hashes
  en_messageId :: "bytes option"
  en_ephemeralSecretKey :: "bytes option"
  en_ephemeralPublicKey :: "bytes option"
  en_identityBytes :: "bytes option"
  en_mlKemEncapsulation :: "(bytes \<times> bytes) option"
  en_senderRecovery :: bool
  en_senderKeyPair :: "key_pair option"

record body_random =
  rn_nonce :: bytes
  rn_messageId :: bytes
  rn_ephemeral :: bytes
  rn_recoveryNonce :: bytes
  rn_kemSeed :: bytes

definition given_or :: "bytes option \<Rightarrow> nat \<Rightarrow> bytes \<Rightarrow> bytes res" where
  "given_or v n d = (case v of None \<Rightarrow> Inr d | Some bs \<Rightarrow> assertLength bs n)"

text \<open>The ML-KEM part: nothing for a classical recipient, else the ciphertext and the secret.\<close>

definition kem_part :: "prims \<Rightarrow> recipient \<Rightarrow> body_options \<Rightarrow> bytes \<Rightarrow> (bytes \<times> bytes list) res" where
  "kem_part P r options seed =
     (if kb_suite (rk_bundle r) = HYBRID_V1 then
        andThen (case en_mlKemEncapsulation options of
            Some (ct, ss) \<Rightarrow> andThen (assertLength ct MLKEM768_CIPHERTEXT_BYTES) (\<lambda>ct. andThen (assertLength ss 32) (\<lambda>ss. Inr (ct, ss)))
          | None \<Rightarrow> Inr (p_mlkem_encapsulate P (or_default (rk_mlKem768PublicKey r) []) seed)) (\<lambda>(ct, ss).
        andThen (assertLength ct MLKEM768_CIPHERTEXT_BYTES) (\<lambda>ct.
        andThen (assertLength ss 32) (\<lambda>ss. Inr (ct, [ss]))))
      else Inr ([], []))"

definition encryptCompactPayloadBytes ::
    "prims \<Rightarrow> body_random \<Rightarrow> bytes \<Rightarrow> key_bundle \<Rightarrow> body_options \<Rightarrow> bytes res" where
  "encryptCompactPayloadBytes P random payloadBytes recipientBundle options =
     andThen (normalizeRecipientBundle P recipientBundle) (\<lambda>r.
       (let suite = kb_suite (rk_bundle r); nonce = rn_nonce random in
     andThen (suiteByteForSuite suite) (\<lambda>suiteByte.
     andThen (given_or (en_messageId options) 16 (rn_messageId random)) (\<lambda>messageId.
     andThen (given_or (en_ephemeralSecretKey options) 32 (rn_ephemeral random)) (\<lambda>ephSecret.
     andThen (given_or (en_ephemeralPublicKey options) 32 (p_x25519_public P ephSecret)) (\<lambda>ephPublic.
     andThen (sharedSecretX25519 P ephSecret (rk_x25519PublicKey r)) (\<lambda>x25519Shared.
     andThen (case en_identityBytes options of None \<Rightarrow> Inr None
         | Some i \<Rightarrow> andThen (assertLength i PLATHO_COMPACT_IDENTITY_BYTES) (\<lambda>i. Inr (Some i))) (\<lambda>identity.
     andThen (kem_part P r options (rn_kemSeed random)) (\<lambda>(ciphertext, kemShared).
       (let senderRecovery = en_senderRecovery options \<and> en_senderKeyPair options \<noteq> None;
            sharedParts = x25519Shared # kemShared;
            flags = (if senderRecovery then COMPACT_BODY_FLAG_SENDER_RECOVERY else 0) in
     andThen (assertLength ephPublic 32) (\<lambda>ephPublic.
       (let bodyPrefix = COMPACT_BODY_MAGIC @ [PROTOCOL_VERSION, word_of_int suiteByte, flags, 0]
              @ messageId @ nonce @ ephPublic @ ciphertext in
     andThen (compactBodyAad bodyPrefix (en_hashes options)) (\<lambda>aad.
       (let transcriptHash = p_sha256 P aad;
            keyBytes = deriveAesGcmKeyBytes P MESSAGE_SALT_DOMAIN MESSAGE_KEY_DOMAIN sharedParts transcriptHash;
            key = (if senderRecovery then keyBytes else deriveAesGcmKeyFromTranscriptHash P sharedParts transcriptHash);
            plaintext = (case identity of None \<Rightarrow> payloadBytes | Some i \<Rightarrow> i @ payloadBytes) in
     andThen (if senderRecovery then assertLength keyBytes 32 else Inr key) (\<lambda>key.
       (let sealed = p_seal P key nonce aad plaintext in
     andThen (if senderRecovery
         then encryptSenderRecoverySection P (rn_recoveryNonce random) keyBytes (en_senderKeyPair options) suite bodyPrefix (en_hashes options)
         else Inr []) (\<lambda>recovery.
       Inr (bodyPrefix @ recovery @ sealed))))))))))))))))))"

section \<open>Inspecting\<close>

record body_info =
  bi_suite :: js_string
  bi_suiteByte :: byte
  bi_hasSenderRecovery :: bool
  bi_messageId :: bytes
  bi_nonce :: bytes
  bi_ephemeralPublicKey :: bytes
  bi_mlKem768Ciphertext :: "bytes option"
  bi_prefix :: bytes
  bi_senderRecoverySection :: "bytes option"
  bi_ciphertext :: bytes

definition inspectCompactBodyBytes :: "bytes \<Rightarrow> body_info res" where
  "inspectCompactBodyBytes body =
     guard (\<not> length body < COMPACT_BODY_BASE_PREFIX_BYTES + COMPACT_BODY_TAG_BYTES) (JsError ''Compact body is truncated'')
     (guard (slice 0 4 body = COMPACT_BODY_MAGIC) (JsError ''Invalid Platho compact body magic'')
     (guard (body ! 4 = PROTOCOL_VERSION) (JsError ''Unsupported Platho compact body version'')
     (andThen (suiteForByte (uint (body ! 5))) (\<lambda>suite.
       (let prefixBytes = compactBodyPrefixBytesForSuite suite in
        guard (\<not> length body < prefixBytes + COMPACT_BODY_TAG_BYTES) (JsError ''Compact body is truncated'')
       (let flags = body ! 6 in
        guard (and flags (not COMPACT_BODY_FLAG_SENDER_RECOVERY) = 0) (JsError ''Unsupported Platho compact body flags'')
       (let hasSenderRecovery = and flags COMPACT_BODY_FLAG_SENDER_RECOVERY \<noteq> 0;
            off = prefixBytes + (if hasSenderRecovery then PLATHO_COMPACT_SENDER_RECOVERY_BYTES else 0) in
        guard (\<not> length body < off + COMPACT_BODY_TAG_BYTES) (JsError ''Compact body is truncated'')
          (Inr \<lparr>bi_suite = suite, bi_suiteByte = body ! 5, bi_hasSenderRecovery = hasSenderRecovery,
             bi_messageId = slice 8 24 body, bi_nonce = slice 24 36 body, bi_ephemeralPublicKey = slice 36 68 body,
             bi_mlKem768Ciphertext = (if suite = HYBRID_V1 then Some (slice 68 (68 + MLKEM768_CIPHERTEXT_BYTES) body) else None),
             bi_prefix = slice 0 prefixBytes body,
             bi_senderRecoverySection = (if hasSenderRecovery then Some (slice prefixBytes off body) else None),
             bi_ciphertext = drop off body\<rparr>))))))))"

section \<open>Decrypting\<close>

text \<open>\<open>opened P key nonce aad c\<close>: the call of \<open>subtle.decrypt\<close>, which rejects what was not sealed so.\<close>

definition opened :: "prims \<Rightarrow> bytes \<Rightarrow> bytes \<Rightarrow> bytes \<Rightarrow> bytes \<Rightarrow> string \<Rightarrow> bytes res" where
  "opened P key nonce aad c message = (case p_open P key nonce aad c of Some m \<Rightarrow> Inr m | None \<Rightarrow> Inl (JsError message))"

definition decryptSenderRecoveryPayloadKey :: "prims \<Rightarrow> body_info \<Rightarrow> key_pair \<Rightarrow> body_hashes \<Rightarrow> bytes res" where
  "decryptSenderRecoveryPayloadKey P info kp hashes =
     andThen (recipientKeyIdForSuite P kp (bi_suite info)) (\<lambda>expected.
     guard (\<not> (bh_senderKeyId hashes = None \<or> Some expected \<noteq> bh_senderKeyId hashes)) (JsError ''Compact body sender key mismatch'')
    (andThen (compactSenderRecoverySection (or_default (bi_senderRecoverySection info) [])) (\<lambda>(nonce, wrapped).
     andThen (compactSenderRecoveryAad (bi_prefix info) hashes) (\<lambda>aad.
     andThen (deriveSenderRecoveryKey P (Some kp) (bi_suite info) aad) (\<lambda>key.
       opened P key nonce aad wrapped ''OperationError'')))))"

datatype opened_as = AsSender | AsRecipient

record opened_body =
  ob_payload :: decoded_payload
  ob_identity :: "capsule_identity option"
  ob_openedAs :: opened_as
  ob_keyId :: js_string

text \<open>The key the body is opened with, either unwrapped by the sender or agreed by the recipient.\<close>

definition body_key :: "prims \<Rightarrow> body_info \<Rightarrow> key_pair \<Rightarrow> body_hashes \<Rightarrow> bytes \<Rightarrow> bool \<Rightarrow> bytes \<Rightarrow> bytes res" where
  "body_key P info kp hashes aad asSender kemSecret =
     (if asSender then andThen (decryptSenderRecoveryPayloadKey P info kp hashes) (\<lambda>k. assertLength k 32)
      else
        andThen (sharedSecretX25519 P (or_default (kp_x25519SecretKey kp) []) (bi_ephemeralPublicKey info)) (\<lambda>x25519Shared.
        andThen (if bi_suite info = HYBRID_V1
            then andThen (assertSome (bi_mlKem768Ciphertext info) MLKEM768_CIPHERTEXT_BYTES) (\<lambda>ct.
              Inr [x25519Shared, p_mlkem_decapsulate P ct kemSecret])
            else Inr [x25519Shared]) (\<lambda>sharedParts.
          (let transcriptHash = p_sha256 P aad in
           if bi_hasSenderRecovery info
           then assertLength (deriveAesGcmKeyBytes P MESSAGE_SALT_DOMAIN MESSAGE_KEY_DOMAIN sharedParts transcriptHash) 32
           else Inr (deriveAesGcmKeyFromTranscriptHash P sharedParts transcriptHash)))))"

text \<open>Any failure of the key agreement is one error.\<close>

definition agreed :: "bytes res \<Rightarrow> bytes res" where
  "agreed m = (case m of Inl e \<Rightarrow> Inl (JsError ''Compact body key agreement failed'') | Inr key \<Rightarrow> Inr key)"

definition decryptCompactBodyBytes ::
    "prims \<Rightarrow> (js_string \<Rightarrow> js_string) \<Rightarrow> bytes \<Rightarrow> key_pair \<Rightarrow> body_hashes \<Rightarrow> nat \<Rightarrow> opened_body res" where
  "decryptCompactBodyBytes P lower body kp hashes identitySectionBytes =
     andThen (inspectCompactBodyBytes body) (\<lambda>info.
     andThen (recipientKeyIdForSuite P kp (bi_suite info)) (\<lambda>expectedKeyId.
       (let openedAsSender = (bi_hasSenderRecovery info \<and> bh_senderKeyId hashes = Some expectedKeyId) in
     andThen (compactBodyAad (bi_prefix info) hashes) (\<lambda>aad.
     guard (\<not> (\<not> openedAsSender \<and> kp_x25519SecretKey kp = None))
       (JsError ''Compact body decrypt: the recipient X25519 secret is unavailable'')
    (andThen (if \<not> openedAsSender \<and> bi_suite info = HYBRID_V1 then assertSome (kp_mlKem768SecretKey kp) 2400 else Inr []) (\<lambda>kemSecret.
     andThen (agreed (body_key P info kp hashes aad openedAsSender kemSecret)) (\<lambda>key.
     andThen (opened P key (bi_nonce info) aad (bi_ciphertext info)
         ''Compact body could not be decrypted for this recipient key (view_tag/decrypt mismatch)'') (\<lambda>plaintext.
     guard (\<not> (0 < identitySectionBytes \<and> length plaintext < identitySectionBytes)) (JsError ''Compact body identity section is truncated'')
    (andThen (if 0 < identitySectionBytes
         then andThen (privateCapsuleIdentityFromBytes (take identitySectionBytes plaintext)) (\<lambda>i. Inr (Some i))
         else Inr None) (\<lambda>identity.
     andThen (decodeCompactPayloadBytesInner lower (drop identitySectionBytes plaintext)
         (Some (int ((if bi_hasSenderRecovery info then PLATHO_COMPACT_SENDER_RECOVERY_BYTES else 0) + identitySectionBytes)))) (\<lambda>payload.
       Inr \<lparr>ob_payload = payload, ob_identity = identity,
            ob_openedAs = (if openedAsSender then AsSender else AsRecipient), ob_keyId = expectedKeyId\<rparr>)))))))))))"

section \<open>Chunks\<close>

definition compactChunkDataBytesForSuite :: "js_string \<Rightarrow> nat res" where
  "compactChunkDataBytesForSuite suite =
     andThen (compactMaxChunkWireBytesForSuite suite) (\<lambda>n. Inr (n - COMPACT_CHUNK_HEADER_BYTES))"

definition splitCompactBodyBytes :: "bytes \<Rightarrow> bytes list res" where
  "splitCompactBodyBytes body =
     andThen (inspectCompactBodyBytes body) (\<lambda>info.
     andThen (compactChunkDataBytesForSuite (bi_suite info)) (\<lambda>dataBytes.
       (let total = (length body + dataBytes - 1) div dataBytes in
        guard (\<not> (total \<le> 0 \<or> total > PLATHO_COMPACT_MAX_CHUNKS)) (JsError ''Compact body needs too many chunks'')
          (Inr (map (\<lambda>i. COMPACT_CHUNK_MAGIC @ [PROTOCOL_VERSION, bi_suiteByte info, word_of_nat i, word_of_nat total]
                 @ bi_messageId info @ slice (i * dataBytes) (min (i * dataBytes + dataBytes) (length body)) body)
             [0..<total])))))"

record chunk_fields =
  ck_suite :: js_string
  ck_suiteByte :: byte
  ck_index :: nat
  ck_total :: nat
  ck_messageId :: bytes
  ck_data :: bytes

definition parse_chunk :: "bytes \<Rightarrow> chunk_fields res" where
  "parse_chunk chunk =
     guard (\<not> length chunk < COMPACT_CHUNK_HEADER_BYTES) (JsError ''Compact chunk is truncated'')
     (guard (slice 0 4 chunk = COMPACT_CHUNK_MAGIC) (JsError ''Invalid Platho compact chunk magic'')
     (guard (chunk ! 4 = PROTOCOL_VERSION) (JsError ''Unsupported compact chunk version'')
     (andThen (suiteForByte (uint (chunk ! 5))) (\<lambda>suite.
      andThen (compactMaxChunkWireBytesForSuite suite) (\<lambda>maxWire.
      guard (\<not> length chunk > maxWire) (JsError ''Compact chunk exceeds suite wire limit'')
        (Inr \<lparr>ck_suite = suite, ck_suiteByte = chunk ! 5, ck_index = unat (chunk ! 6), ck_total = unat (chunk ! 7),
              ck_messageId = slice 8 24 chunk, ck_data = drop COMPACT_CHUNK_HEADER_BYTES chunk\<rparr>))))))"

text \<open>The loop over the chunks: each agrees with the first, and no index is out of range or seen.\<close>

fun check_chunks :: "chunk_fields \<Rightarrow> nat set \<Rightarrow> chunk_fields list \<Rightarrow> unit res" where
  "check_chunks first seen [] = Inr ()"
| "check_chunks first seen (c # cs) =
     guard (\<not> (ck_suite c \<noteq> ck_suite first \<or> ck_suiteByte c \<noteq> ck_suiteByte first)) (JsError ''Compact chunk suite mismatch'')
     (guard (\<not> ck_total c \<noteq> ck_total first) (JsError ''Compact chunk total mismatch'')
     (guard (ck_messageId c = ck_messageId first) (JsError ''Compact chunk message id mismatch'')
     (guard (\<not> (ck_index c \<ge> ck_total first \<or> ck_index c \<in> seen)) (JsError ''Compact chunk index mismatch'')
       (check_chunks first (insert (ck_index c) seen) cs))))"

definition assembleCompactBodyChunks :: "bytes list \<Rightarrow> bytes res" where
  "assembleCompactBodyChunks pieces =
     guard (\<not> length pieces = 0) (JsError ''Compact chunks must be a non-empty array'')
     (guard (\<not> length pieces > PLATHO_COMPACT_MAX_CHUNKS) (JsError ''Too many Platho compact chunks'')
     (andThen (mapRes parse_chunk pieces) (\<lambda>parsed.
       (let first = hd parsed in
        guard (\<not> (ck_total first \<noteq> length pieces \<or> ck_total first = 0 \<or> ck_total first > PLATHO_COMPACT_MAX_CHUNKS))
          (JsError ''Compact chunk total mismatch'')
        (andThen (check_chunks first {} parsed) (\<lambda>_.
          (let body = concat (map ck_data (sort_key ck_index parsed)) in
           andThen (inspectCompactBodyBytes body) (\<lambda>info.
           guard (\<not> (bi_suite info \<noteq> ck_suite first \<or> bi_messageId info \<noteq> ck_messageId first))
             (JsError ''Compact chunk body identity mismatch'') (Inr body)))))))))"

section \<open>The body object of a capsule\<close>

record capsule_body =
  bo_version :: int
  bo_kind :: js_string
  bo_layout :: js_string
  bo_suite :: js_string
  bo_messageId :: js_string
  bo_byteLength :: nat
  bo_bodyBytes :: "js_string option"
  bo_chunks :: "js_string list"
  bo_chunkCount :: "nat option"

definition PLATHO_COMPACT_BODY_LAYOUT :: js_string where "PLATHO_COMPACT_BODY_LAYOUT = str ''platho.byte-layout.v1''"

definition check_body :: "capsule_body \<Rightarrow> bytes \<Rightarrow> bytes res" where
  "check_body body bytes =
     andThen (inspectCompactBodyBytes bytes) (\<lambda>info.
     guard (\<not> bo_suite body \<noteq> bi_suite info) (JsError ''Compact body suite mismatch'')
    (guard (\<not> bo_messageId body \<noteq> base64urlEncode (bi_messageId info)) (JsError ''Compact body message id mismatch'')
    (guard (\<not> bo_byteLength body \<noteq> length bytes) (JsError ''Compact body byte length mismatch'') (Inr bytes))))"

definition compactBodyBytesFromCapsuleBody :: "capsule_body \<Rightarrow> bytes res" where
  "compactBodyBytesFromCapsuleBody body =
     guard (\<not> (bo_version body \<noteq> 1 \<or> bo_kind body \<noteq> KIND_PRIVATE \<or> bo_layout body \<noteq> PLATHO_COMPACT_BODY_LAYOUT))
       (JsError ''Invalid Platho compact private capsule body'')
     (case bo_bodyBytes body of
        Some encoded \<Rightarrow> andThen (base64urlDecode encoded) (check_body body)
      | None \<Rightarrow>
          andThen (mapRes base64urlDecode (bo_chunks body)) (\<lambda>pieces.
          guard (bo_chunkCount body = Some (length pieces)) (JsError ''Compact body chunk count mismatch'')
            (andThen (assembleCompactBodyChunks pieces) (check_body body))))"

definition compactBodyObjectFromBytes :: "bytes \<Rightarrow> capsule_body res" where
  "compactBodyObjectFromBytes bytes =
     andThen (inspectCompactBodyBytes bytes) (\<lambda>info.
       Inr \<lparr>bo_version = 1, bo_kind = KIND_PRIVATE, bo_layout = PLATHO_COMPACT_BODY_LAYOUT, bo_suite = bi_suite info,
            bo_messageId = base64urlEncode (bi_messageId info), bo_byteLength = length bytes,
            bo_bodyBytes = Some (base64urlEncode bytes), bo_chunks = [], bo_chunkCount = None\<rparr>)"

definition expectedPrivateBodyBytes :: "int \<Rightarrow> int \<Rightarrow> nat res" where
  "expectedPrivateBodyBytes sizeClass cryptoSuite =
     andThen (suiteForByte cryptoSuite) (\<lambda>suite.
     andThen (usefulBytesForCapsuleSizeClass sizeClass) (\<lambda>useful.
       Inr (compactBodyBytesForUsefulBytes suite useful)))"

definition assertPrivateBodyMatchesHeader :: "capsule_header0 \<Rightarrow> bytes \<Rightarrow> unit res" where
  "assertPrivateBodyMatchesHeader h bytes =
     andThen (expectedPrivateBodyBytes (h0_sizeClass h) (h0_cryptoSuite h)) (\<lambda>expected.
     guard (\<not> length bytes \<noteq> expected) (JsError ''Private capsule body size mismatch'')
    (andThen (inspectCompactBodyBytes bytes) (\<lambda>info.
     andThen (suiteByteForSuite (bi_suite info)) (\<lambda>suiteByte.
     guard (\<not> (bi_suite info \<noteq> h0_suite h \<or> suiteByte \<noteq> h0_cryptoSuite h))
       (JsError ''Private capsule compact body suite mismatch'') (Inr ())))))"

section \<open>The layout of a body\<close>

definition body_prefix :: "byte \<Rightarrow> byte \<Rightarrow> bytes \<Rightarrow> bytes \<Rightarrow> bytes \<Rightarrow> bytes \<Rightarrow> bytes" where
  "body_prefix sb flags mid nonce eph ct = COMPACT_BODY_MAGIC @ [PROTOCOL_VERSION, sb, flags, 0] @ mid @ nonce @ eph @ ct"

definition suite_layout :: "js_string \<Rightarrow> byte \<Rightarrow> nat \<Rightarrow> bool" where
  "suite_layout suite sb n \<longleftrightarrow> suite = CLASSICAL_V1 \<and> sb = 1 \<and> n = 0 \<or> suite = HYBRID_V1 \<and> sb = 2 \<and> n = 1088"

lemma length_body_prefix:
  "length mid = 16 \<Longrightarrow> length nonce = 12 \<Longrightarrow> length eph = 32 \<Longrightarrow> length (body_prefix sb flags mid nonce eph ct) = 68 + length ct"
  by (simp add: body_prefix_def COMPACT_BODY_MAGIC_def)

lemma suite_layout_prefix:
  "suite_layout suite sb n \<Longrightarrow> compactBodyPrefixBytesForSuite suite = 68 + n \<and> suiteForByte (uint sb) = Inr suite"
  by (auto simp: suite_layout_def compactBodyPrefixBytesForSuite_def COMPACT_BODY_BASE_PREFIX_BYTES_def
      MLKEM768_CIPHERTEXT_BYTES_def suiteForByte_def suite_defs)

lemma flag_values:
  "and (0 :: byte) (not COMPACT_BODY_FLAG_SENDER_RECOVERY) = 0" "and (1 :: byte) (not COMPACT_BODY_FLAG_SENDER_RECOVERY) = 0"
  "and (0 :: byte) COMPACT_BODY_FLAG_SENDER_RECOVERY = 0" "and (1 :: byte) COMPACT_BODY_FLAG_SENDER_RECOVERY = 1"
  by (simp_all add: COMPACT_BODY_FLAG_SENDER_RECOVERY_def)

lemma inspect_layout:
  assumes "length mid = 16" "length nonce = 12" "length eph = 32" "suite_layout suite sb (length ct)"
    and "length recovery = (if recover then 64 else 0)" "16 \<le> length sealed"
    and p: "prefix = body_prefix sb (if recover then 1 else 0) mid nonce eph ct"
  shows "inspectCompactBodyBytes (prefix @ recovery @ sealed) = Inr \<lparr>bi_suite = suite, bi_suiteByte = sb, bi_hasSenderRecovery = recover,
      bi_messageId = mid, bi_nonce = nonce, bi_ephemeralPublicKey = eph,
      bi_mlKem768Ciphertext = (if suite = HYBRID_V1 then Some ct else None), bi_prefix = prefix,
      bi_senderRecoverySection = (if recover then Some recovery else None), bi_ciphertext = sealed\<rparr>"
proof -
  let ?b = "prefix @ recovery @ sealed"
  let ?m = "COMPACT_BODY_MAGIC @ [PROTOCOL_VERSION, sb, if recover then 1 else 0, 0]"
  have lp: "length prefix = 68 + length ct" unfolding p by (rule length_body_prefix [OF assms(1-3)])
  have m: "length ?m = 8" "?b = ?m @ mid @ nonce @ eph @ ct @ recovery @ sealed" by (simp_all add: p body_prefix_def COMPACT_BODY_MAGIC_def)
  have f: "slice 0 4 ?b = COMPACT_BODY_MAGIC" "?b ! 4 = PROTOCOL_VERSION" "?b ! 5 = sb" "?b ! 6 = (if recover then 1 else 0)"
    by (simp_all add: p body_prefix_def COMPACT_BODY_MAGIC_def slice_def)
  have g: "slice 8 24 ?b = mid" "slice 24 36 ?b = nonce" "slice 36 68 ?b = eph"
    using slice_field [of 8 ?m 24 mid "nonce @ eph @ ct @ recovery @ sealed"]
      slice_field [of 24 "?m @ mid" 36 nonce "eph @ ct @ recovery @ sealed"]
      slice_field [of 36 "?m @ mid @ nonce" 68 eph "ct @ recovery @ sealed"] m assms(1-3) by simp_all
  have ct: "suite = HYBRID_V1 \<Longrightarrow> slice 68 (68 + MLKEM768_CIPHERTEXT_BYTES) ?b = ct"
    using slice_field [of 68 "?m @ mid @ nonce @ eph" "68 + MLKEM768_CIPHERTEXT_BYTES" ct "recovery @ sealed"] m assms(1-4)
    by (auto simp: suite_layout_def MLKEM768_CIPHERTEXT_BYTES_def)
  have pr: "slice 0 (68 + length ct) ?b = prefix" using slice_field [of 0 "[]" "68 + length ct" prefix "recovery @ sealed"] lp by simp
  have rc: "recover \<Longrightarrow> slice (68 + length ct) (68 + length ct + 64) ?b = recovery"
    using slice_field [of "68 + length ct" prefix "68 + length ct + 64" recovery sealed] lp assms(5) by simp
  have se: "drop (68 + length ct + (if recover then 64 else 0)) ?b = sealed"
    using drop_field [of _ "prefix @ recovery" sealed] lp assms(5) by auto
  note s = suite_layout_prefix [OF assms(4)]
  show ?thesis
    unfolding inspectCompactBodyBytes_def Let_def f g conjunct1 [OF s] conjunct2 [OF s] andThen.simps COMPACT_BODY_BASE_PREFIX_BYTES_def
      COMPACT_BODY_TAG_BYTES_def PLATHO_COMPACT_SENDER_RECOVERY_BYTES_def
    using lp assms(5,6) pr rc se ct by (cases recover) (simp_all add: flag_values)
qed

lemma message_key_same:
  "deriveAesGcmKeyFromTranscriptHash P parts h = deriveAesGcmKeyBytes P MESSAGE_SALT_DOMAIN MESSAGE_KEY_DOMAIN parts h"
  by (simp add: deriveAesGcmKeyFromTranscriptHash_def deriveAesGcmKeyBytes_def)

text \<open>What an encryption that succeeds has computed.\<close>

definition plaintext_of :: "bytes option \<Rightarrow> bytes \<Rightarrow> bytes" where
  "plaintext_of identity payload = (case identity of None \<Rightarrow> payload | Some i \<Rightarrow> i @ payload)"

lemma encrypt_Inr:
  assumes "encryptCompactPayloadBytes P random payload b options = Inr body" "normalizeRecipientBundle P b = Inr r"
    and "hash_laws P" "recover = (en_senderRecovery options \<and> en_senderKeyPair options \<noteq> None)"
  shows "\<exists>sb mid secret eph shared ct kss prefix aad key recovery.
    suiteByteForSuite (kb_suite (rk_bundle r)) = Inr sb \<and> given_or (en_messageId options) 16 (rn_messageId random) = Inr mid
    \<and> given_or (en_ephemeralSecretKey options) 32 (rn_ephemeral random) = Inr secret
    \<and> given_or (en_ephemeralPublicKey options) 32 (p_x25519_public P secret) = Inr eph \<and> length eph = 32
    \<and> sharedSecretX25519 P secret (rk_x25519PublicKey r) = Inr shared
    \<and> (\<forall>i. en_identityBytes options = Some i \<longrightarrow> length i = PLATHO_COMPACT_IDENTITY_BYTES)
    \<and> kem_part P r options (rn_kemSeed random) = Inr (ct, kss)
    \<and> prefix = body_prefix (word_of_int sb) (if recover then 1 else 0) mid (rn_nonce random) eph ct
    \<and> compactBodyAad prefix (en_hashes options) = Inr aad
    \<and> key = deriveAesGcmKeyBytes P MESSAGE_SALT_DOMAIN MESSAGE_KEY_DOMAIN (shared # kss) (p_sha256 P aad)
    \<and> (if recover then encryptSenderRecoverySection P (rn_recoveryNonce random) key (en_senderKeyPair options)
           (kb_suite (rk_bundle r)) prefix (en_hashes options) = Inr recovery else recovery = [])
    \<and> body = prefix @ recovery @ p_seal P key (rn_nonce random) aad (plaintext_of (en_identityBytes options) payload)"
proof -
  have l: "length (deriveAesGcmKeyBytes P sd kd parts h) = 32" for sd kd parts h
    using assms(3) by (simp add: deriveAesGcmKeyBytes_def hash_laws_def)
  show ?thesis
    using assms(1)
    unfolding encryptCompactPayloadBytes_def assms(2) Let_def andThen.simps message_key_same assms(4) [symmetric]
    by (auto simp: res_simps body_prefix_def COMPACT_BODY_FLAG_SENDER_RECOVERY_def plaintext_of_def l
        split: prod.splits option.splits if_splits)
qed

section \<open>Decryption undoes encryption\<close>

lemma kem_part_Inr:
  assumes "kem_part P r options seed = Inr (ct, kss)" "suiteByteForSuite (kb_suite (rk_bundle r)) = Inr sb"
  shows "suite_layout (kb_suite (rk_bundle r)) (word_of_int sb) (length ct)"
    "kb_suite (rk_bundle r) = HYBRID_V1 \<Longrightarrow> \<exists>ss. kss = [ss] \<and> length ct = 1088
       \<and> (ct, ss) = (case en_mlKemEncapsulation options of Some e \<Rightarrow> e | None \<Rightarrow> p_mlkem_encapsulate P (or_default (rk_mlKem768PublicKey r) []) seed)"
    "kb_suite (rk_bundle r) \<noteq> HYBRID_V1 \<Longrightarrow> ct = [] \<and> kss = []"
  using assms
  by (auto simp: kem_part_def res_simps suite_layout_def suiteByteForSuite_def suite_defs MLKEM768_CIPHERTEXT_BYTES_def
      split: if_splits option.splits prod.splits)

lemma suite_nonempty [simp]: "HYBRID_V1 \<noteq> []" "CLASSICAL_V1 \<noteq> []"
  by (simp_all add: HYBRID_V1_def CLASSICAL_V1_def str_def)

lemma own_key_id: "kp_suite kp \<noteq> [] \<Longrightarrow> recipientKeyIdForSuite P kp (kp_suite kp) = Inr (kp_keyId kp)"
  by (simp add: recipientKeyIdForSuite_def)

lemma recovery_section:
  assumes "encryptSenderRecoverySection P rn key (Some kp) suite prefix hashes = Inr recovery" "length rn = 12" "aead_laws P"
  shows "length recovery = 64" "kp_suite kp = suite" "length key = 32"
    "suite \<noteq> [] \<Longrightarrow> bh_senderKeyId hashes = Some (kp_keyId kp) \<Longrightarrow> bi_suite info = suite \<Longrightarrow> bi_prefix info = prefix
      \<Longrightarrow> bi_senderRecoverySection info = Some recovery \<Longrightarrow> decryptSenderRecoveryPayloadKey P info kp hashes = Inr key"
proof -
  obtain aad k wrapped where e: "compactSenderRecoveryAad prefix hashes = Inr aad" "deriveSenderRecoveryKey P (Some kp) suite aad = Inr k"
      "length key = 32" "wrapped = p_seal P k rn aad key" "length wrapped = 48" "recovery = COMPACT_SENDER_RECOVERY_MAGIC @ rn @ wrapped"
    using assms(1) by (auto simp: encryptSenderRecoverySection_def res_simps Let_def)
  have m: "length COMPACT_SENDER_RECOVERY_MAGIC = 4" by (simp add: COMPACT_SENDER_RECOVERY_MAGIC_def)
  show len: "length recovery = 64" using e(5,6) m assms(2) by simp
  show "length key = 32" by (rule e(3))
  show ks: "kp_suite kp = suite" using e(2) by (auto simp: deriveSenderRecoveryKey_def senderRecoverySecretParts_def res_simps split: if_splits)
  have sec: "compactSenderRecoverySection recovery = Inr (rn, wrapped)"
    using len slice_field [of 0 "[]" 4 COMPACT_SENDER_RECOVERY_MAGIC "rn @ wrapped"] slice_field [of 4 COMPACT_SENDER_RECOVERY_MAGIC 16 rn wrapped]
      slice_field [of 16 "COMPACT_SENDER_RECOVERY_MAGIC @ rn" 64 wrapped "[]"] m assms(2) e(5)
    by (simp add: compactSenderRecoverySection_def assertLength_def PLATHO_COMPACT_SENDER_RECOVERY_BYTES_def e(6))
  show "decryptSenderRecoveryPayloadKey P info kp hashes = Inr key"
    if "suite \<noteq> []" "bh_senderKeyId hashes = Some (kp_keyId kp)" "bi_suite info = suite" "bi_prefix info = prefix"
      "bi_senderRecoverySection info = Some recovery"
    using that own_key_id [of kp P] ks e(1,2) sec assms(3)
    by (simp add: decryptSenderRecoveryPayloadKey_def or_default_def opened_def aead_laws_def e(4))
qed

text \<open>The recipient's side of the key agreement computes the sender's secrets.\<close>

definition honest_options :: "prims \<Rightarrow> recipient \<Rightarrow> body_options \<Rightarrow> body_random \<Rightarrow> bool" where
  "honest_options P r options random \<longleftrightarrow>
     length (rn_nonce random) = 12 \<and> length (rn_messageId random) = 16 \<and> length (rn_ephemeral random) = 32
     \<and> length (rn_recoveryNonce random) = 12
     \<and> (\<forall>pub. en_ephemeralPublicKey options = Some pub \<longrightarrow>
          pub = p_x25519_public P (or_default (en_ephemeralSecretKey options) (rn_ephemeral random)))
     \<and> (\<forall>e. en_mlKemEncapsulation options = Some e \<longrightarrow>
          (\<exists>seed. e = p_mlkem_encapsulate P (or_default (rk_mlKem768PublicKey r) []) seed))"

lemma given_or_Inr: "given_or v n d = Inr x \<Longrightarrow> length d = n \<Longrightarrow> length x = n \<and> x = or_default v d"
  by (auto simp: given_or_def res_simps or_default_def split: option.splits)

lemma recipient_key:
  assumes "agreement_laws P" "kem_laws P" "key_pair_ok P kp" "kp_x25519SecretKey kp = Some sk" "length sk = 32"
    and "honest_options P r options random" "rk_x25519PublicKey r = kp_x25519PublicKey kp"
      "rk_mlKem768PublicKey r = (if kp_suite kp = HYBRID_V1 then kp_mlKem768PublicKey kp else None)" "kb_suite (rk_bundle r) = kp_suite kp"
    and "given_or (en_ephemeralSecretKey options) 32 (rn_ephemeral random) = Inr secret"
      "given_or (en_ephemeralPublicKey options) 32 (p_x25519_public P secret) = Inr eph"
      "sharedSecretX25519 P secret (rk_x25519PublicKey r) = Inr shared" "kem_part P r options (rn_kemSeed random) = Inr (ct, kss)"
    and info: "bi_suite info = kp_suite kp" "bi_ephemeralPublicKey info = eph" "bi_mlKem768Ciphertext info = (if kp_suite kp = HYBRID_V1 then Some ct else None)"
    and "hash_laws P" "kp_suite kp = HYBRID_V1 \<Longrightarrow> kp_mlKem768SecretKey kp = Some kemSecret"
  shows "body_key P info kp hashes aad False kemSecret
    = Inr (deriveAesGcmKeyBytes P MESSAGE_SALT_DOMAIN MESSAGE_KEY_DOMAIN (shared # kss) (p_sha256 P aad))"
proof -
  have h: "length (rn_ephemeral random) = 32" using assms(6) by (simp add: honest_options_def)
  note sec = given_or_Inr [OF assms(10) h]
  have eph: "eph = p_x25519_public P secret"
    using assms(6) given_or_Inr [OF assms(11)] assms(1) sec
    by (cases "en_ephemeralPublicKey options") (auto simp: honest_options_def agreement_laws_def or_default_def)
  have pk: "kp_x25519PublicKey kp = p_x25519_public P sk" using assms(3,4) by (auto simp: key_pair_ok_def)
  have dh: "p_x25519 P sk eph = p_x25519 P secret (rk_x25519PublicKey r)"
    using assms(1,5) conjunct1 [OF sec] unfolding eph assms(7) pk agreement_laws_def by blast
  have x: "length (p_x25519 P secret (rk_x25519PublicKey r)) = 32"
      "assertNonZeroSharedSecret (p_x25519 P secret (rk_x25519PublicKey r)) = Inr shared"
    using assms(12) by (auto simp: sharedSecretX25519_def res_simps)
  have "length eph = 32" using assms(1) by (simp add: eph agreement_laws_def)
  then have sh: "sharedSecretX25519 P sk eph = Inr shared"
    using assms(5) x by (simp add: sharedSecretX25519_def assertLength_def dh)
  have kl: "length (deriveAesGcmKeyBytes P sd kd parts h) = 32" for sd kd parts h
    using assms(17) by (simp add: deriveAesGcmKeyBytes_def hash_laws_def)
  have kem: "p_mlkem_decapsulate P ct kemSecret = hd kss \<and> kss = [hd kss] \<and> length ct = 1088" if hy: "kp_suite kp = HYBRID_V1"
  proof -
    obtain ss where ss: "kss = [ss]" "length ct = 1088"
        "(ct, ss) = (case en_mlKemEncapsulation options of Some e \<Rightarrow> e | None \<Rightarrow> p_mlkem_encapsulate P (or_default (rk_mlKem768PublicKey r) []) (rn_kemSeed random))"
      using kem_part_Inr(2) [OF assms(13), of CONTRACT_HYBRID] hy by (auto simp: assms(9) suiteByteForSuite_def)
    obtain seed pq where g: "p_mlkem_keygen P seed = (pq, kemSecret)" "kp_mlKem768PublicKey kp = Some pq"
      using assms(3) hy assms(18) by (auto simp: key_pair_ok_def)
    have "\<exists>s. (ct, ss) = p_mlkem_encapsulate P pq s"
      using ss(3) assms(6) g(2) hy by (auto simp: honest_options_def assms(8) or_default_def split: option.splits)
    then obtain s where "(ct, ss) = p_mlkem_encapsulate P (fst (p_mlkem_keygen P seed)) s" using g(1) by auto
    then have "p_mlkem_decapsulate P ct kemSecret = ss" using assms(2) g(1) by (metis kem_laws_def fst_conv snd_conv)
    then show ?thesis using ss by simp
  qed
  show ?thesis
  proof (cases "kp_suite kp = HYBRID_V1")
    case True
    then show ?thesis using kem [OF True] sh
      by (simp add: body_key_def info assms(4) or_default_def assertSome_def assertLength_def MLKEM768_CIPHERTEXT_BYTES_def
          message_key_same kl Let_def)
  next
    case False
    then have "kss = []" using kem_part_Inr(3) [OF assms(13), of CONTRACT_CLASSICAL] assms(3)
      by (auto simp: assms(9) suiteByteForSuite_def key_pair_ok_def suiteContract_def split: if_splits)
    then show ?thesis using False sh
      by (simp add: body_key_def info assms(4) or_default_def assertLength_def message_key_same kl Let_def)
  qed
qed

lemma sealed_opens:
  "aead_laws P \<Longrightarrow> opened P key nonce aad (p_seal P key nonce aad m) e = Inr m"
  "aead_laws P \<Longrightarrow> length (p_seal P key nonce aad m) = length m + 16"
  by (simp_all add: opened_def aead_laws_def)

lemma reserved_tail:
  "(if recover then PLATHO_COMPACT_SENDER_RECOVERY_BYTES else 0) + PLATHO_COMPACT_IDENTITY_BYTES = compactPayloadReservedTailBytes recover"
  by (simp add: compactPayloadReservedTailBytes_def)

text \<open>What \<open>decryptCompactBodyBytes\<close> does once the body is laid out and the key is known.\<close>

lemma decrypt_with_key:
  assumes "inspectCompactBodyBytes body = Inr info" "recipientKeyIdForSuite P kp (bi_suite info) = Inr kid"
    and "asSender = (bi_hasSenderRecovery info \<and> bh_senderKeyId hashes = Some kid)"
    and "compactBodyAad (bi_prefix info) hashes = Inr aad" "kp_x25519SecretKey kp = Some sk"
    and "(if \<not> asSender \<and> bi_suite info = HYBRID_V1 then assertSome (kp_mlKem768SecretKey kp) 2400 else Inr []) = Inr kemSecret"
    and "body_key P info kp hashes aad asSender kemSecret = Inr key"
    and "bi_ciphertext info = p_seal P key (bi_nonce info) aad (i @ payload)" "aead_laws P"
    and "length i = PLATHO_COMPACT_IDENTITY_BYTES" "privateCapsuleIdentityFromBytes i = Inr identity"
    and "decodeCompactPayloadBytesInner lower payload (Some (int (compactPayloadReservedTailBytes (bi_hasSenderRecovery info)))) = Inr dp"
  shows "decryptCompactBodyBytes P lower body kp hashes PLATHO_COMPACT_IDENTITY_BYTES = Inr \<lparr>ob_payload = dp, ob_identity = Some identity,
      ob_openedAs = (if asSender then AsSender else AsRecipient), ob_keyId = kid\<rparr>"
proof -
  have o: "opened P key (bi_nonce info) aad (bi_ciphertext info) e = Inr (i @ payload)" for e
    unfolding assms(8) by (rule sealed_opens(1) [OF assms(9)])
  have d: "decodeCompactPayloadBytesInner lower payload
      (Some (int ((if bi_hasSenderRecovery info then PLATHO_COMPACT_SENDER_RECOVERY_BYTES else 0) + PLATHO_COMPACT_IDENTITY_BYTES))) = Inr dp"
    using assms(12) by (simp only: reserved_tail)
  have tk: "take PLATHO_COMPACT_IDENTITY_BYTES (i @ payload) = i" "drop PLATHO_COMPACT_IDENTITY_BYTES (i @ payload) = payload"
    "\<not> length (i @ payload) < PLATHO_COMPACT_IDENTITY_BYTES" "0 < PLATHO_COMPACT_IDENTITY_BYTES"
    using assms(10) by (simp_all add: PLATHO_COMPACT_IDENTITY_BYTES_def)
  show ?thesis
    unfolding decryptCompactBodyBytes_def Let_def assms(1,2,4) andThen.simps assms(3) [symmetric] assms(6,7) agreed_def sum.case o tk(1,2) d
    using tk(3,4) assms(5,11) by (simp add: guard_def)
qed

lemma body_opens_aux:
  assumes P: "crypto_laws P" and kp: "key_pair_ok P kp" "kp_x25519SecretKey kp = Some sk" "length sk = 32" "exportPublicKeyBundle kp = Inr b"
    and r: "normalizeRecipientBundle P b = Inr r" and o: "honest_options P r options random"
    and e: "encryptCompactPayloadBytes P random payload b options = Inr body"
    and i: "en_identityBytes options = Some i" "privateCapsuleIdentityFromBytes i = Inr identity"
    and rec: "recover = (en_senderRecovery options \<and> en_senderKeyPair options \<noteq> None)"
    and dp: "decodeCompactPayloadBytesInner lower payload (Some (int (compactPayloadReservedTailBytes recover))) = Inr dp"
    and h: "bh_header0Hash hashes = bh_header0Hash (en_hashes options)" "bh_header1Hash hashes = bh_header1Hash (en_hashes options)"
  shows "\<not> (recover \<and> bh_senderKeyId hashes = Some (kp_keyId kp)) \<Longrightarrow>
      decryptCompactBodyBytes P lower body kp hashes PLATHO_COMPACT_IDENTITY_BYTES = Inr \<lparr>ob_payload = dp, ob_identity = Some identity,
        ob_openedAs = AsRecipient, ob_keyId = kp_keyId kp\<rparr>" (is "?recipient_claim \<Longrightarrow> _")
    and "\<lbrakk>recover; en_senderKeyPair options = Some skp; bh_senderKeyId (en_hashes options) = Some (kp_keyId skp);
        bh_senderKeyId hashes = Some (kp_keyId skp)\<rbrakk> \<Longrightarrow>
      decryptCompactBodyBytes P lower body skp hashes PLATHO_COMPACT_IDENTITY_BYTES = Inr \<lparr>ob_payload = dp, ob_identity = Some identity,
        ob_openedAs = AsSender, ob_keyId = kp_keyId skp\<rparr>"
    and "length body = compactBodyPrefixBytesForSuite (kp_suite kp) + compactPayloadReservedTailBytes recover + length payload + COMPACT_BODY_TAG_BYTES"
    and "\<exists>info. inspectCompactBodyBytes body = Inr info \<and> bi_suite info = kp_suite kp \<and> bi_hasSenderRecovery info = recover
      \<and> (kp_suite kp = HYBRID_V1 \<longrightarrow> (\<forall>e. en_mlKemEncapsulation options = Some e \<longrightarrow> bi_mlKem768Ciphertext info = Some (fst e)))"
proof -
  have laws: "hash_laws P" "aead_laws P" "agreement_laws P" "kem_laws P" using P by (simp_all add: crypto_laws_def)
  have R: "r = \<lparr>rk_bundle = b, rk_x25519PublicKey = kp_x25519PublicKey kp, rk_scanPublicKey = kp_scanPublicKey kp,
     rk_mlKem768PublicKey = (if kp_suite kp = HYBRID_V1 then kp_mlKem768PublicKey kp else None)\<rparr>"
    using normalize_exported [OF kp(1) laws(1) kp(4)] r by simp
  have sb: "kb_suite (rk_bundle r) = kp_suite kp"
    using kp(4) unfolding R export_Inr [OF kp(1) laws(1)] by auto
  have ne: "kp_suite kp \<noteq> []" using kp(1) by (auto simp: key_pair_ok_def suiteContract_def split: if_splits)
  obtain s8 mid secret eph shared ct kss prefix aad key recovery where w:
      "suiteByteForSuite (kb_suite (rk_bundle r)) = Inr s8" "given_or (en_messageId options) 16 (rn_messageId random) = Inr mid"
      "given_or (en_ephemeralSecretKey options) 32 (rn_ephemeral random) = Inr secret"
      "given_or (en_ephemeralPublicKey options) 32 (p_x25519_public P secret) = Inr eph" "length eph = 32"
      "sharedSecretX25519 P secret (rk_x25519PublicKey r) = Inr shared"
      "\<forall>i. en_identityBytes options = Some i \<longrightarrow> length i = PLATHO_COMPACT_IDENTITY_BYTES"
      "kem_part P r options (rn_kemSeed random) = Inr (ct, kss)"
      "prefix = body_prefix (word_of_int s8) (if recover then 1 else 0) mid (rn_nonce random) eph ct"
      "compactBodyAad prefix (en_hashes options) = Inr aad"
      "key = deriveAesGcmKeyBytes P MESSAGE_SALT_DOMAIN MESSAGE_KEY_DOMAIN (shared # kss) (p_sha256 P aad)"
      "if recover then encryptSenderRecoverySection P (rn_recoveryNonce random) key (en_senderKeyPair options)
           (kb_suite (rk_bundle r)) prefix (en_hashes options) = Inr recovery else recovery = []"
      "body = prefix @ recovery @ p_seal P key (rn_nonce random) aad (plaintext_of (en_identityBytes options) payload)"
    using encrypt_Inr [OF e r laws(1) rec] by blast
  note on = o [unfolded honest_options_def]
  have l: "length mid = 16" "length (rn_nonce random) = 12" "length (rn_recoveryNonce random) = 12" "length i = 68"
    using given_or_Inr [OF w(2)] on w(7) i(1) by (auto simp: PLATHO_COMPACT_IDENTITY_BYTES_def)
  have pt: "plaintext_of (en_identityBytes options) payload = i @ payload" by (simp add: plaintext_of_def i(1))
  have rl: "length recovery = (if recover then 64 else 0)"
    using w(12) recovery_section(1) [OF _ l(3) laws(2)] rec by (auto split: if_splits)
  have lay: "suite_layout (kp_suite kp) (word_of_int s8) (length ct)" using kem_part_Inr(1) [OF w(8,1)] sb by simp
  let ?sealed = "p_seal P key (rn_nonce random) aad (i @ payload)"
  have sl: "length ?sealed = 68 + length payload + 16" using sealed_opens(2) [OF laws(2)] l(4) by simp
  note ins = inspect_layout [OF l(1,2) w(5) lay rl _ w(9), of ?sealed, folded w(13) [unfolded pt]]
  define info where "info = \<lparr>bi_suite = kp_suite kp, bi_suiteByte = word_of_int s8, bi_hasSenderRecovery = recover,
      bi_messageId = mid, bi_nonce = rn_nonce random, bi_ephemeralPublicKey = eph,
      bi_mlKem768Ciphertext = (if kp_suite kp = HYBRID_V1 then Some ct else None), bi_prefix = prefix,
      bi_senderRecoverySection = (if recover then Some recovery else None), bi_ciphertext = ?sealed\<rparr>"
  have I: "inspectCompactBodyBytes body = Inr info" using ins sl by (simp add: info_def)
  have "fst e = ct" if "kp_suite kp = HYBRID_V1" "en_mlKemEncapsulation options = Some e" for e
    using kem_part_Inr(2) [OF w(8,1)] that sb by auto
  with I show "\<exists>info. inspectCompactBodyBytes body = Inr info \<and> bi_suite info = kp_suite kp \<and> bi_hasSenderRecovery info = recover
      \<and> (kp_suite kp = HYBRID_V1 \<longrightarrow> (\<forall>e. en_mlKemEncapsulation options = Some e \<longrightarrow> bi_mlKem768Ciphertext info = Some (fst e)))"
    by (simp add: info_def)
  have A: "compactBodyAad (bi_prefix info) hashes = Inr aad" using w(10) h by (simp add: compactBodyAad_def info_def)
  have D: "decodeCompactPayloadBytesInner lower payload (Some (int (compactPayloadReservedTailBytes (bi_hasSenderRecovery info)))) = Inr dp"
    using dp by (simp add: info_def)
  have L: "length i = PLATHO_COMPACT_IDENTITY_BYTES" using l(4) by (simp add: PLATHO_COMPACT_IDENTITY_BYTES_def)
  have C: "bi_ciphertext info = p_seal P key (bi_nonce info) aad (i @ payload)" by (simp add: info_def)
  show "length body = compactBodyPrefixBytesForSuite (kp_suite kp) + compactPayloadReservedTailBytes recover + length payload + COMPACT_BODY_TAG_BYTES"
    using sl rl length_body_prefix [OF l(1,2) w(5)] suite_layout_prefix [OF lay]
    by (simp add: w(13) pt w(9) compactPayloadReservedTailBytes_def PLATHO_COMPACT_IDENTITY_BYTES_def
        PLATHO_COMPACT_SENDER_RECOVERY_BYTES_def COMPACT_BODY_TAG_BYTES_def)
  show "decryptCompactBodyBytes P lower body kp hashes PLATHO_COMPACT_IDENTITY_BYTES = Inr \<lparr>ob_payload = dp, ob_identity = Some identity,
        ob_openedAs = AsRecipient, ob_keyId = kp_keyId kp\<rparr>" if ns: "\<not> (recover \<and> bh_senderKeyId hashes = Some (kp_keyId kp))"
  proof -
    obtain ks where ks: "kp_suite kp = HYBRID_V1 \<Longrightarrow> kp_mlKem768SecretKey kp = Some ks"
        "(if \<not> False \<and> bi_suite info = HYBRID_V1 then assertSome (kp_mlKem768SecretKey kp) 2400 else Inr []) = Inr ks"
      using kp(1) by (cases "kp_suite kp = HYBRID_V1") (auto simp: key_pair_ok_def info_def assertSome_def assertLength_def)
    have bk: "body_key P info kp hashes aad False ks = Inr key"
      unfolding w(11)
      by (rule recipient_key [OF laws(3,4) kp(1-3) o _ _ sb w(3,4,6,8) _ _ _ laws(1) ks(1)]) (simp_all add: R info_def)
    have kid: "recipientKeyIdForSuite P kp (bi_suite info) = Inr (kp_keyId kp)" using own_key_id [OF ne] by (simp add: info_def)
    have as: "False = (bi_hasSenderRecovery info \<and> bh_senderKeyId hashes = Some (kp_keyId kp))" using ns by (simp add: info_def)
    show ?thesis using decrypt_with_key [OF I kid as A kp(2) ks(2) bk C laws(2) L i(2) D] by simp
  qed
  show "decryptCompactBodyBytes P lower body skp hashes PLATHO_COMPACT_IDENTITY_BYTES = Inr \<lparr>ob_payload = dp, ob_identity = Some identity,
        ob_openedAs = AsSender, ob_keyId = kp_keyId skp\<rparr>"
    if s: "recover" "en_senderKeyPair options = Some skp" "bh_senderKeyId (en_hashes options) = Some (kp_keyId skp)"
      "bh_senderKeyId hashes = Some (kp_keyId skp)"
  proof -
    have enc: "encryptSenderRecoverySection P (rn_recoveryNonce random) key (Some skp) (kp_suite kp) prefix (en_hashes options) = Inr recovery"
      using w(12) s sb by simp
    have heq: "hashes = en_hashes options" using h s(3,4) by simp
    note rs = recovery_section [OF enc l(3) laws(2)]
    have dk: "decryptSenderRecoveryPayloadKey P info skp hashes = Inr key"
      unfolding heq by (rule rs(4)) (use ne s in \<open>simp_all add: info_def\<close>)
    then have bk: "body_key P info skp hashes aad True [] = Inr key" using rs(3) by (simp add: body_key_def assertLength_def)
    have kid: "recipientKeyIdForSuite P skp (bi_suite info) = Inr (kp_keyId skp)"
      using own_key_id [of skp P] ne rs(2) by (simp add: info_def)
    have as: "True = (bi_hasSenderRecovery info \<and> bh_senderKeyId hashes = Some (kp_keyId skp))" using s by (simp add: info_def)
    have xs: "\<exists>t. kp_x25519SecretKey skp = Some t" using enc
      by (cases "kp_x25519SecretKey skp") (auto simp: encryptSenderRecoverySection_def deriveSenderRecoveryKey_def
          senderRecoverySecretParts_def assertSome_def res_simps split: if_splits)
    then obtain t where t: "kp_x25519SecretKey skp = Some t" by blast
    have nk: "(if \<not> True \<and> bi_suite info = HYBRID_V1 then assertSome (kp_mlKem768SecretKey skp) 2400 else Inr []) = Inr []" by simp
    show ?thesis using decrypt_with_key [OF I kid as A t nk bk C laws(2) L i(2) D] by simp
  qed
qed

text \<open>
  C8: An encrypted body is opened by the recipient and, when it carries the recovery section, by its
  sender. For every recipient with a well-formed key pair, classical or hybrid, what is sealed to the
  bundle that pair exports decrypts, under the same header hashes, to the payload and the sender identity
  that were put in: with the recipient's secrets as the recipient, and with the sender's own secrets as
  the sender, the two never being confused. Only documented laws of the primitives are used.
\<close>

theorem capsule_body_opens:
  assumes "crypto_laws P" "key_pair_ok P kp" "kp_x25519SecretKey kp = Some sk" "length sk = 32" "exportPublicKeyBundle kp = Inr b"
    and "normalizeRecipientBundle P b = Inr r" "honest_options P r options random"
    and "encryptCompactPayloadBytes P random payload b options = Inr body"
    and "en_identityBytes options = Some i" "privateCapsuleIdentityFromBytes i = Inr identity"
    and "recover = (en_senderRecovery options \<and> en_senderKeyPair options \<noteq> None)"
    and "decodeCompactPayloadBytesInner lower payload (Some (int (compactPayloadReservedTailBytes recover))) = Inr dp"
    and "bh_header0Hash hashes = bh_header0Hash (en_hashes options)" "bh_header1Hash hashes = bh_header1Hash (en_hashes options)"
  shows "(\<not> (recover \<and> bh_senderKeyId hashes = Some (kp_keyId kp)) \<longrightarrow>
      decryptCompactBodyBytes P lower body kp hashes PLATHO_COMPACT_IDENTITY_BYTES = Inr \<lparr>ob_payload = dp, ob_identity = Some identity,
        ob_openedAs = AsRecipient, ob_keyId = kp_keyId kp\<rparr>)
    \<and> (\<forall>skp. recover \<longrightarrow> en_senderKeyPair options = Some skp \<longrightarrow> bh_senderKeyId (en_hashes options) = Some (kp_keyId skp) \<longrightarrow>
        bh_senderKeyId hashes = Some (kp_keyId skp) \<longrightarrow>
      decryptCompactBodyBytes P lower body skp hashes PLATHO_COMPACT_IDENTITY_BYTES = Inr \<lparr>ob_payload = dp, ob_identity = Some identity,
        ob_openedAs = AsSender, ob_keyId = kp_keyId skp\<rparr>)"
  using body_opens_aux(1) [OF assms] body_opens_aux(2) [OF assms] by blast

section \<open>Sizes\<close>

lemma payload_length:
  assumes "compactPayloadContent payload (Some (int reserved)) = Inr pf"
  shows "length payload + reserved = 32 + pf_sizeClass pf * 1024" "pf_sizeClass pf \<in> {1, 2, 4, 8, 16, 32}"
proof -
  obtain n u where n: "normalizeCompactPayloadReservedTailBytes (Some (int reserved)) = Inr n"
      "int (length payload) - 32 + int n = int u" "u \<in> set PLATHO_CAPSULE_USEFUL_SIZE_CLASSES" "pf_sizeClass pf = u div 1024"
    using assms by (auto simp: compactPayloadContent_def Let_def res_simps compact_sizes)
  have "n = reserved" using n(1) by (auto simp: normalizeCompactPayloadReservedTailBytes_def Let_def res_simps or_default_def)
  then have "length payload + reserved = 32 + u" using n(2) by simp
  then show "length payload + reserved = 32 + pf_sizeClass pf * 1024" "pf_sizeClass pf \<in> {1, 2, 4, 8, 16, 32}"
    using n(3,4) by (auto simp: PLATHO_CAPSULE_USEFUL_SIZE_CLASSES_def)
qed

lemma decode_content: "decodeCompactPayloadBytesInner lower payload v = Inr dp \<Longrightarrow> \<exists>pf. compactPayloadContent payload v = Inr pf"
  by (auto simp: decodeCompactPayloadBytesInner_def res_simps)

lemma private_body_size_aux:
  assumes "crypto_laws P" "key_pair_ok P kp" "kp_x25519SecretKey kp = Some sk" "length sk = 32" "exportPublicKeyBundle kp = Inr b"
    and "normalizeRecipientBundle P b = Inr r" "honest_options P r options random"
    and "encryptCompactPayloadBytes P random payload b options = Inr body"
    and "en_identityBytes options = Some i" "privateCapsuleIdentityFromBytes i = Inr identity"
    and "recover = (en_senderRecovery options \<and> en_senderKeyPair options \<noteq> None)"
    and "decodeCompactPayloadBytesInner lower payload (Some (int (compactPayloadReservedTailBytes recover))) = Inr dp"
    and "compactPayloadContent payload (Some (int (compactPayloadReservedTailBytes recover))) = Inr pf"
    and "h0_sizeClass h = int (pf_sizeClass pf)" "h0_suite h = kp_suite kp" "h0_cryptoSuite h = kp_contractSuite kp"
  shows "assertPrivateBodyMatchesHeader h body = Inr ()
    \<and> length body = compactBodyBytesForUsefulBytes (kp_suite kp) (pf_sizeClass pf * 1024)"
proof -
  note a = body_opens_aux(3,4) [OF assms(1-12) refl refl]
  note p = payload_length [OF assms(13)]
  have len: "length body = compactBodyBytesForUsefulBytes (kp_suite kp) (pf_sizeClass pf * 1024)"
    using a(1) p(1) by (simp add: compactBodyBytesForUsefulBytes_def PLATHO_COMPACT_PAYLOAD_PREFIX_BYTES_def)
  obtain info where info: "inspectCompactBodyBytes body = Inr info" "bi_suite info = kp_suite kp" using a(2) by blast
  have c: "suiteByteForSuite (kp_suite kp) = Inr (kp_contractSuite kp)" "suiteForByte (kp_contractSuite kp) = Inr (kp_suite kp)"
    using assms(2) by (auto simp: key_pair_ok_def suiteContract_def suiteByteForSuite_def suiteForByte_def suite_defs split: if_splits)
  have "normalizeCapsuleSizeClass (int (pf_sizeClass pf)) = Inr (pf_sizeClass pf)"
    using p(2) by (auto simp: normalizeCapsuleSizeClass_def CAPSULE_SIZE_CLASS_def)
  then have "assertPrivateBodyMatchesHeader h body = Inr ()"
    using len c info assms(14-16) by (simp add: assertPrivateBodyMatchesHeader_def expectedPrivateBodyBytes_def
        usefulBytesForCapsuleSizeClass_def PLATHO_COMPACT_TEXT_BLOCK_BYTES_def)
  with len show ?thesis by blast
qed

text \<open>
  C39: The body has the size the header announces. Encrypting a payload written for a size class gives a
  body of exactly the number of bytes the chain and the recipient expect of that class and suite, with the
  recovery section or without it, since the payload gives up in padding what the identity and the recovery
  section take; the check of the body against its header accepts it.
\<close>

theorem private_body_size:
  assumes "crypto_laws P" "key_pair_ok P kp" "kp_x25519SecretKey kp = Some sk" "length sk = 32" "exportPublicKeyBundle kp = Inr b"
    and "normalizeRecipientBundle P b = Inr r" "honest_options P r options random"
    and "encryptCompactPayloadBytes P random payload b options = Inr body"
    and "en_identityBytes options = Some i" "privateCapsuleIdentityFromBytes i = Inr identity"
    and "recover = (en_senderRecovery options \<and> en_senderKeyPair options \<noteq> None)"
    and "decodeCompactPayloadBytesInner lower payload (Some (int (compactPayloadReservedTailBytes recover))) = Inr dp"
    and "compactPayloadContent payload (Some (int (compactPayloadReservedTailBytes recover))) = Inr pf"
    and "h0_sizeClass h = int (pf_sizeClass pf)" "h0_suite h = kp_suite kp" "h0_cryptoSuite h = kp_contractSuite kp"
  shows "assertPrivateBodyMatchesHeader h body = Inr ()
    \<and> length body = compactBodyBytesForUsefulBytes (kp_suite kp) (pf_sizeClass pf * 1024)"
  by (rule private_body_size_aux [OF assms])

section \<open>Chunks and the body object\<close>

lemma inspect_suite_byte:
  assumes "inspectCompactBodyBytes body = Inr info"
  shows "suiteForByte (uint (bi_suiteByte info)) = Inr (bi_suite info)" "length (bi_messageId info) = 16"
    "bi_suite info = CLASSICAL_V1 \<or> bi_suite info = HYBRID_V1"
  using assms by (auto simp: inspectCompactBodyBytes_def Let_def res_simps suiteForByte_def COMPACT_BODY_BASE_PREFIX_BYTES_def
      COMPACT_BODY_TAG_BYTES_def split: if_splits)

lemma body_object_back: "compactBodyObjectFromBytes bytes = Inr body \<Longrightarrow> compactBodyBytesFromCapsuleBody body = Inr bytes"
  by (auto simp: compactBodyObjectFromBytes_def compactBodyBytesFromCapsuleBody_def check_body_def res_simps)

lemma chunks_back:
  assumes "splitCompactBodyBytes body = Inr cs"
  shows "assembleCompactBodyChunks cs = Inr body \<and> length cs = 1 \<and> (\<forall>c \<in> set cs. length c = length body + 24)"
proof -
  obtain info d total where s: "inspectCompactBodyBytes body = Inr info" "compactChunkDataBytesForSuite (bi_suite info) = Inr d"
      "total = (length body + d - 1) div d" "\<not> (total \<le> 0 \<or> total > 1)"
      "cs = map (\<lambda>i. COMPACT_CHUNK_MAGIC @ [PROTOCOL_VERSION, bi_suiteByte info, word_of_nat i, word_of_nat total]
                 @ bi_messageId info @ slice (i * d) (min (i * d + d) (length body)) body) [0..<total]"
    using assms by (auto simp: splitCompactBodyBytes_def Let_def res_simps PLATHO_COMPACT_MAX_CHUNKS_def)
  note i = inspect_suite_byte [OF s(1)]
  obtain wire where w: "compactMaxChunkWireBytesForSuite (bi_suite info) = Inr wire" "d = wire - 24" "24 < wire"
    using s(2) i(3) by (auto simp: compactChunkDataBytesForSuite_def compactMaxChunkWireBytesForSuite_def res_simps
        COMPACT_CHUNK_HEADER_BYTES_def COMPACT_STANDARD_CHUNK_WIRE_BYTES_def COMPACT_HYBRID_CHUNK_WIRE_BYTES_def)
  have t: "total = 1" using s(4) by simp
  have ld: "length body \<le> d"
  proof (rule ccontr)
    assume "\<not> length body \<le> d"
    then have "2 * d \<le> length body + d - 1" by simp
    then have "2 \<le> (length body + d - 1) div d" using w(2,3) by (subst less_eq_div_iff_mult_less_eq) auto
    then show False using s(3) t by simp
  qed
  define c where "c = COMPACT_CHUNK_MAGIC @ [PROTOCOL_VERSION, bi_suiteByte info, 0, 1] @ bi_messageId info @ body"
  have cs: "cs = [c]" using s(5) t ld by (simp add: slice_def c_def)
  have len: "length c = length body + 24" using i(2) by (simp add: COMPACT_CHUNK_MAGIC_def c_def)
  have f: "slice 0 4 c = COMPACT_CHUNK_MAGIC" "c ! 4 = PROTOCOL_VERSION" "c ! 5 = bi_suiteByte info" "c ! 6 = 0" "c ! 7 = 1"
    "slice 8 24 c = bi_messageId info" "drop 24 c = body"
    using i(2) by (simp_all add: COMPACT_CHUNK_MAGIC_def slice_def c_def)
  have nl: "\<not> length c > wire" using len ld w(2,3) by simp
  have "parse_chunk c = Inr \<lparr>ck_suite = bi_suite info, ck_suiteByte = bi_suiteByte info, ck_index = 0, ck_total = 1,
      ck_messageId = bi_messageId info, ck_data = body\<rparr>"
    unfolding parse_chunk_def f COMPACT_CHUNK_HEADER_BYTES_def i(1) andThen.simps w(1) using nl len by simp
  then have "assembleCompactBodyChunks cs = Inr body"
    using s(1) by (simp add: assembleCompactBodyChunks_def cs PLATHO_COMPACT_MAX_CHUNKS_def)
  then show ?thesis using len by (simp add: cs)
qed

text \<open>
  A body survives its transport forms. Split into chunks, a body is put together again from them, and
  the object a capsule carries it in gives back its bytes, through every check of suite, message number,
  index and length on the way; the limit of one chunk means that a body is split only when it fits a single
  chunk of its suite.
\<close>

theorem body_transport_roundtrip:
  assumes "splitCompactBodyBytes body = Inr cs" "compactBodyObjectFromBytes body = Inr object"
  shows "assembleCompactBodyChunks cs = Inr body \<and> length cs = 1 \<and> compactBodyBytesFromCapsuleBody object = Inr body"
  using chunks_back [OF assms(1)] body_object_back [OF assms(2)] by blast

section \<open>Encryption succeeds on good input\<close>

lemma hexToBytes_hex256: "length bs = n \<Longrightarrow> 0 < n \<Longrightarrow> hexToBytes (hex256 bs) n = Inr bs"
proof -
  assume n: "length bs = n" "0 < n"
  have low: "\<forall>c \<in> set (bytes_hex bs). is_hex_lower c" by (rule bytes_hex_lower)
  then have "ascii_lower (bytes_hex bs) = bytes_hex bs" by (intro ascii_lower_id) (auto dest: hex_ascii)
  moreover have "bytes_hex bs \<noteq> []" using n by (metis length_bytes_hex list.size(3) mult_is_0 less_irrefl zero_neq_numeral)
  ultimately show ?thesis using low n by (simp add: hexToBytes_def hex256_def is_hex_any_def hex_bytes_bytes_hex)
qed

lemma assertHashHex_hex256: "length bs = 32 \<Longrightarrow> be_value bs \<noteq> 0 \<Longrightarrow> assertHashHex (hex256 bs) = Inr (hex256 bs)"
  by (simp add: assertHashHex_def hex256_def is_hex_of_length_bytes_hex hex_bytes_bytes_hex)

lemma compactHashBytes_hex256: "length bs = 32 \<Longrightarrow> be_value bs \<noteq> 0 \<Longrightarrow> compactHashBytes (hex256 bs) = Inr bs"
  by (simp add: compactHashBytes_def assertHashHex_hex256 hexToBytes_hex256)

lemma encrypt_succeeds:
  assumes P: "crypto_laws P" and r: "normalizeRecipientBundle P b = Inr r" "kb_suite (rk_bundle r) = HYBRID_V1"
      "rk_mlKem768PublicKey r = Some pq" "length pq = 1184"
    and opt: "given_or (en_messageId options) 16 (rn_messageId random) = Inr mid"
      "given_or (en_ephemeralSecretKey options) 32 (rn_ephemeral random) = Inr secret"
      "given_or (en_ephemeralPublicKey options) 32 (p_x25519_public P secret) = Inr (p_x25519_public P secret)"
      "\<And>e. en_mlKemEncapsulation options = Some e \<Longrightarrow> \<exists>seed. e = p_mlkem_encapsulate P pq seed" "en_identityBytes options = Some i" "length i = 68"
    and rn: "length (rn_recoveryNonce random) = 12"
    and shared: "sharedSecretX25519 P secret (rk_x25519PublicKey r) = Inr shared"
    and skp: "en_senderKeyPair options = Some skp" "kp_suite skp = HYBRID_V1" "kp_x25519SecretKey skp = Some xs" "length xs = 32"
      "kp_mlKem768SecretKey skp = Some qs" "length qs = 2400"
    and h: "compactHashBytes (bh_header0Hash (en_hashes options)) = Inr h0" "compactHashBytes (bh_header1Hash (en_hashes options)) = Inr h1"
      "base64urlFixedBytes (bh_senderKeyId (en_hashes options)) 32 = Inr sender"
  shows "\<exists>body. encryptCompactPayloadBytes P random payload b options = Inr body"
proof -
  have l: "length (fst (p_mlkem_encapsulate P pq s)) = 1088" "length (snd (p_mlkem_encapsulate P pq s)) = 32"
      "length (p_x25519_public P a) = 32" "length (deriveAesGcmKeyBytes P sd kd parts t) = 32"
      "length (p_seal P k n a m) = length m + 16" for s a sd kd parts t k n m
    using P r(4) by (simp_all add: crypto_law_defs deriveAesGcmKeyBytes_def)
  have aad: "\<exists>a. compactBodyAad p (en_hashes options) = Inr a" "\<exists>a. compactSenderRecoveryAad p (en_hashes options) = Inr a" for p
    by (simp_all add: compactBodyAad_def compactSenderRecoveryAad_def h)
  have rec: "\<exists>sec. encryptSenderRecoverySection P (rn_recoveryNonce random) key (Some skp) HYBRID_V1 prefix (en_hashes options) = Inr sec"
    if "length key = 32" for key prefix
    using aad(2) [of prefix] that
    by (auto simp: encryptSenderRecoverySection_def deriveSenderRecoveryKey_def senderRecoverySecretParts_def assertSome_def assertLength_def
        skp l Let_def)
  have "\<exists>seed. kem_part P r options (rn_kemSeed random) = Inr (fst (p_mlkem_encapsulate P pq seed), [snd (p_mlkem_encapsulate P pq seed)])"
  proof (cases "en_mlKemEncapsulation options")
    case None
    then show ?thesis using l(1,2)
      by (intro exI [of _ "rn_kemSeed random"])
        (simp add: kem_part_def r or_default_def assertLength_def MLKEM768_CIPHERTEXT_BYTES_def case_prod_beta)
  next
    case (Some e)
    then obtain seed where "e = p_mlkem_encapsulate P pq seed" using opt(4) by blast
    then show ?thesis using l(1,2) Some
      by (intro exI [of _ seed]) (simp add: kem_part_def r assertLength_def MLKEM768_CIPHERTEXT_BYTES_def case_prod_beta)
  qed
  then obtain ct ss where k: "kem_part P r options (rn_kemSeed random) = Inr (ct, [ss])" by blast
  let ?eph = "p_x25519_public P secret"
  obtain a where a: "compactBodyAad (COMPACT_BODY_MAGIC @ [PROTOCOL_VERSION, word_of_int CONTRACT_HYBRID, if en_senderRecovery options then 1 else 0, 0]
      @ mid @ rn_nonce random @ ?eph @ ct) (en_hashes options) = Inr a" using aad(1) by blast
  obtain sec where sec: "encryptSenderRecoverySection P (rn_recoveryNonce random)
      (deriveAesGcmKeyBytes P MESSAGE_SALT_DOMAIN MESSAGE_KEY_DOMAIN [shared, ss] (p_sha256 P a)) (Some skp) HYBRID_V1
      (COMPACT_BODY_MAGIC @ [PROTOCOL_VERSION, word_of_int CONTRACT_HYBRID, 1, 0] @ mid @ rn_nonce random @ ?eph @ ct)
      (en_hashes options) = Inr sec"
    using rec [OF l(4)] by blast
  show ?thesis
    using sec a by (cases "en_senderRecovery options")
      (simp_all add: encryptCompactPayloadBytes_def r suiteByteForSuite_def opt k shared assertLength_def l Let_def
        skp(1) PLATHO_COMPACT_IDENTITY_BYTES_def COMPACT_BODY_FLAG_SENDER_RECOVERY_def)
qed

section \<open>A concrete body\<close>

definition sample_payload :: bytes where
  "sample_payload = payload_bytes CONTENT_DOCUMENT 0 0 (replicate 16 7) 0 1 [1, 2, 3] 889"

definition sample_decoded :: decoded_payload where
  "sample_decoded = \<lparr>dp_content = DecodedDocument [1, 2, 3], dp_streamId = replicate 16 7, dp_partIndex = 0, dp_partCount = 1,
     dp_metadata = no_metadata\<rparr>"

lemma sample_payload_read:
  "compactPayloadContent sample_payload (Some (int (compactPayloadReservedTailBytes True))) = Inr
    \<lparr>pf_type = CONTENT_DOCUMENT, pf_flags = 0, pf_mediaFormat = 0, pf_streamId = replicate 16 7, pf_partIndex = 0, pf_partCount = 1,
     pf_content = [1, 2, 3], pf_sizeClass = 1\<rparr>"
  "decodeCompactPayloadBytesInner lower sample_payload (Some (int (compactPayloadReservedTailBytes True))) = Inr sample_decoded"
proof -
  have t: "int (compactPayloadReservedTailBytes True) = 132"
    by (simp add: compactPayloadReservedTailBytes_def PLATHO_COMPACT_IDENTITY_BYTES_def PLATHO_COMPACT_SENDER_RECOVERY_BYTES_def)
  show c: "compactPayloadContent sample_payload (Some (int (compactPayloadReservedTailBytes True))) = Inr
    \<lparr>pf_type = CONTENT_DOCUMENT, pf_flags = 0, pf_mediaFormat = 0, pf_streamId = replicate 16 7, pf_partIndex = 0, pf_partCount = 1,
     pf_content = [1, 2, 3], pf_sizeClass = 1\<rparr>"
    unfolding t sample_payload_def by (rule compactPayloadContent_written) (simp_all add: MAX_SAFE_INTEGER_def)
  show "decodeCompactPayloadBytesInner lower sample_payload (Some (int (compactPayloadReservedTailBytes True))) = Inr sample_decoded"
    unfolding decodeCompactPayloadBytesInner_def c
    by (simp add: decodeCompactPayloadMetadata_def decode_sender_wallet_def decode_sender_username_def decode_recipient_wallet_def
        CONTENT_DOCUMENT_def CONTENT_TEXT_def CONTENT_IMAGE_def sample_decoded_def Let_def)
qed

definition sample_identity_bytes :: bytes where
  "sample_identity_bytes = replicate 32 4 @ be_bytes 4 6 @ replicate 32 8"

definition sample_capsule_identity :: capsule_identity where
  "sample_capsule_identity = \<lparr>id_signingPublicKey = replicate 32 4, id_profileVersion = 6, id_avatarHash = hex256 (replicate 32 8)\<rparr>"

lemma sample_identity_bytes_read:
  "privateCapsuleIdentityFromBytes sample_identity_bytes = Inr sample_capsule_identity" "length sample_identity_bytes = 68"
proof -
  show l: "length sample_identity_bytes = 68" by (simp add: sample_identity_bytes_def del: be_bytes.simps)
  have "readUint32 sample_identity_bytes 32 = Inr 6"
    by (rule readUint32_at [of _ "replicate 32 4" _ "replicate 32 8"]) (simp_all add: sample_identity_bytes_def)
  moreover have "slice 0 32 sample_identity_bytes = replicate 32 4" "slice 36 68 sample_identity_bytes = replicate 32 8"
    by (simp_all add: sample_identity_bytes_def slice_def del: be_bytes.simps)
  ultimately show "privateCapsuleIdentityFromBytes sample_identity_bytes = Inr sample_capsule_identity"
    using l by (simp add: privateCapsuleIdentityFromBytes_def assertLength_def PLATHO_COMPACT_IDENTITY_BYTES_def sample_capsule_identity_def)
qed

definition sample_options :: body_options where
  "sample_options = \<lparr>en_hashes = \<lparr>bh_header0Hash = hex256 (replicate 32 1), bh_header1Hash = hex256 (replicate 32 2),
       bh_senderKeyId = Some (kp_keyId sample_pair)\<rparr>, en_messageId = None, en_ephemeralSecretKey = None, en_ephemeralPublicKey = None,
     en_identityBytes = Some sample_identity_bytes, en_mlKemEncapsulation = None, en_senderRecovery = True,
     en_senderKeyPair = Some sample_pair\<rparr>"

definition sample_random :: body_random where
  "sample_random = \<lparr>rn_nonce = replicate 12 1, rn_messageId = replicate 16 2, rn_ephemeral = replicate 32 9,
     rn_recoveryNonce = replicate 12 3, rn_kemSeed = []\<rparr>"

lemma be_value_replicate: "0 < n \<Longrightarrow> b \<noteq> 0 \<Longrightarrow> be_value (replicate n b) \<noteq> 0"
proof -
  assume n: "0 < n" "b \<noteq> 0"
  then obtain m where "n = Suc m" by (cases n) auto
  then have "be_value (replicate n b) = be_value (replicate m b) * 256 + unat b"
    using be_value_snoc [of "replicate m b" b] replicate_append_same [of m b] by simp
  then show ?thesis using n(2) by (simp add: unat_eq_zero)
qed

lemma key_id_text: "computeHybridKeyId P pk pq = Inr k \<Longrightarrow> \<exists>m. k = base64urlEncode (p_sha256 P m)"
  by (auto simp: computeHybridKeyId_def res_simps)

lemma sample_encrypts:
  "\<exists>b r body. exportPublicKeyBundle sample_pair = Inr b \<and> normalizeRecipientBundle toy_prims b = Inr r
    \<and> kb_suite (rk_bundle r) = HYBRID_V1 \<and> honest_options toy_prims r sample_options sample_random
    \<and> encryptCompactPayloadBytes toy_prims sample_random sample_payload b sample_options = Inr body"
proof -
  obtain b where b: "exportPublicKeyBundle sample_pair = Inr b" using sample_bundle by blast
  obtain pq qs where pq: "kp_mlKem768PublicKey sample_pair = Some pq" "length pq = 1184" "kp_mlKem768SecretKey sample_pair = Some qs" "length qs = 2400"
    using sample_pair_ok(1,2) by (auto simp: key_pair_ok_def)
  note n = normalize_exported [OF sample_pair_ok(1,6) b]
  let ?r = "\<lparr>rk_bundle = b, rk_x25519PublicKey = kp_x25519PublicKey sample_pair, rk_scanPublicKey = kp_scanPublicKey sample_pair,
     rk_mlKem768PublicKey = if kp_suite sample_pair = HYBRID_V1 then kp_mlKem768PublicKey sample_pair else None\<rparr>"
  have suite: "kb_suite b = HYBRID_V1" using b sample_pair_ok(2) unfolding export_Inr [OF sample_pair_ok(1,6)] by auto
  have "map2 (+) (replicate 32 9) (replicate 32 (2 :: byte)) = replicate 32 11" by (simp add: zip_replicate)
  then have sh: "sharedSecretX25519 toy_prims (replicate 32 9) (replicate 32 2) = Inr (replicate 32 11)"
    by (simp add: sharedSecretX25519_def assertLength_def assertNonZeroSharedSecret_def toy_prims_def)
  have "\<exists>pk q. computeHybridKeyId toy_prims pk q = Inr (kp_keyId sample_pair)" using sample_pair_ok(1,2) by (auto simp: key_pair_ok_def)
  then obtain m where m: "kp_keyId sample_pair = base64urlEncode (p_sha256 toy_prims m)" using key_id_text by blast
  have kid: "base64urlFixedBytes (Some (kp_keyId sample_pair)) 32 = Inr (p_sha256 toy_prims m)"
    using sample_pair_ok(6) unfolding m by (simp add: assertLength_def hash_laws_def)
  have hs: "compactHashBytes (hex256 (replicate 32 1)) = Inr (replicate 32 1)" "compactHashBytes (hex256 (replicate 32 2)) = Inr (replicate 32 2)"
    by (simp_all add: compactHashBytes_hex256 be_value_replicate)
  have "\<exists>body. encryptCompactPayloadBytes toy_prims sample_random sample_payload b sample_options = Inr body"
    by (rule encrypt_succeeds [OF toy_laws n, of pq sample_options sample_random "replicate 16 2" "replicate 32 9" sample_identity_bytes "replicate 32 11" sample_pair "replicate 32 2" qs
          "replicate 32 1" "replicate 32 2"])
      (simp_all add: suite sample_pair_ok pq sample_options_def sample_random_def sample_identity_bytes_read sh hs kid given_or_def)
  moreover have "honest_options toy_prims ?r sample_options sample_random"
    by (simp add: honest_options_def sample_options_def sample_random_def)
  ultimately show ?thesis using b n suite by auto
qed

theorem capsule_body_opens_witness:
  "\<exists>b body. exportPublicKeyBundle sample_pair = Inr b
    \<and> encryptCompactPayloadBytes toy_prims sample_random sample_payload b sample_options = Inr body
    \<and> decryptCompactBodyBytes toy_prims ascii_lower body sample_pair ((en_hashes sample_options)\<lparr>bh_senderKeyId := None\<rparr>) PLATHO_COMPACT_IDENTITY_BYTES
      = Inr \<lparr>ob_payload = sample_decoded, ob_identity = Some sample_capsule_identity, ob_openedAs = AsRecipient, ob_keyId = kp_keyId sample_pair\<rparr>
    \<and> decryptCompactBodyBytes toy_prims ascii_lower body sample_pair (en_hashes sample_options) PLATHO_COMPACT_IDENTITY_BYTES
      = Inr \<lparr>ob_payload = sample_decoded, ob_identity = Some sample_capsule_identity, ob_openedAs = AsSender, ob_keyId = kp_keyId sample_pair\<rparr>"
proof -
  obtain b r body where e: "exportPublicKeyBundle sample_pair = Inr b" "normalizeRecipientBundle toy_prims b = Inr r"
      "honest_options toy_prims r sample_options sample_random"
      "encryptCompactPayloadBytes toy_prims sample_random sample_payload b sample_options = Inr body"
    using sample_encrypts by blast
  have o: "en_identityBytes sample_options = Some sample_identity_bytes"
      "True = (en_senderRecovery sample_options \<and> en_senderKeyPair sample_options \<noteq> None)"
      "bh_senderKeyId (en_hashes sample_options) = Some (kp_keyId sample_pair)" "en_senderKeyPair sample_options = Some sample_pair"
    by (simp_all add: sample_options_def)
  have l: "length (replicate 32 2 :: bytes) = 32" by simp
  note c = capsule_body_opens [OF toy_laws sample_pair_ok(1,5) l e o(1) sample_identity_bytes_read(1) o(2) sample_payload_read(2)]
  show ?thesis
    using c [of "(en_hashes sample_options)\<lparr>bh_senderKeyId := None\<rparr>"] c [of "en_hashes sample_options"] o(3,4) e by auto
qed

definition sample_body_header :: capsule_header0 where
  "sample_body_header = \<lparr>h0_version = 1, h0_kind = KIND_CONV, h0_publishKind = 1, h0_sizeClass = 1, h0_cryptoSuite = 2,
     h0_suite = HYBRID_V1, h0_senderKeyId = None, h0_ephemeralScanPub = None, h0_viewTag = None,
     h0_bucketKey = Some (U256Bytes (replicate 32 5)), h0_ephemeralR = None\<rparr>"

theorem private_body_size_witness:
  "\<exists>b body. encryptCompactPayloadBytes toy_prims sample_random sample_payload b sample_options = Inr body
    \<and> assertPrivateBodyMatchesHeader sample_body_header body = Inr () \<and> length body = 2228"
proof -
  obtain b r body where e: "exportPublicKeyBundle sample_pair = Inr b" "normalizeRecipientBundle toy_prims b = Inr r"
      "honest_options toy_prims r sample_options sample_random"
      "encryptCompactPayloadBytes toy_prims sample_random sample_payload b sample_options = Inr body"
    using sample_encrypts by blast
  have o: "en_identityBytes sample_options = Some sample_identity_bytes"
      "True = (en_senderRecovery sample_options \<and> en_senderKeyPair sample_options \<noteq> None)"
    by (simp_all add: sample_options_def)
  have l: "length (replicate 32 2 :: bytes) = 32" by simp
  have cs: "kp_contractSuite sample_pair = 2" using sample_pair_ok(1,2) by (simp add: key_pair_ok_def suiteContract_def CONTRACT_HYBRID_def)
  note c = private_body_size [OF toy_laws sample_pair_ok(1,5) l e o(1) sample_identity_bytes_read(1) o(2) sample_payload_read(2,1), of sample_body_header]
  show ?thesis
    using c e(4) cs by (auto simp: sample_body_header_def sample_pair_ok(2) compactBodyBytesForUsefulBytes_def
        compactBodyPrefixBytesForSuite_def COMPACT_BODY_BASE_PREFIX_BYTES_def MLKEM768_CIPHERTEXT_BYTES_def
        PLATHO_COMPACT_PAYLOAD_PREFIX_BYTES_def COMPACT_BODY_TAG_BYTES_def)
qed

definition sample_small_body :: bytes where
  "sample_small_body = body_prefix 1 0 (replicate 16 2) (replicate 12 1) (replicate 32 3) [] @ [] @ replicate 20 9"

theorem body_transport_roundtrip_witness:
  "\<exists>cs object. splitCompactBodyBytes sample_small_body = Inr cs \<and> assembleCompactBodyChunks cs = Inr sample_small_body
    \<and> compactBodyObjectFromBytes sample_small_body = Inr object \<and> compactBodyBytesFromCapsuleBody object = Inr sample_small_body"
proof -
  have "suite_layout CLASSICAL_V1 1 (length ([] :: bytes))" by (simp add: suite_layout_def)
  note i = inspect_layout [of "replicate 16 2" "replicate 12 1" "replicate 32 3", OF _ _ _ this, of "[]" False "replicate 20 9", simplified if_False, OF _ _ _ _ _ refl]
  obtain info where info: "inspectCompactBodyBytes sample_small_body = Inr info" "bi_suite info = CLASSICAL_V1"
    using i by (auto simp: sample_small_body_def)
  have "length sample_small_body = 88" by (simp add: sample_small_body_def body_prefix_def COMPACT_BODY_MAGIC_def)
  then have "\<exists>cs. splitCompactBodyBytes sample_small_body = Inr cs" "\<exists>object. compactBodyObjectFromBytes sample_small_body = Inr object"
    using info by (simp_all add: splitCompactBodyBytes_def compactChunkDataBytesForSuite_def compactMaxChunkWireBytesForSuite_def
        COMPACT_STANDARD_CHUNK_WIRE_BYTES_def COMPACT_CHUNK_HEADER_BYTES_def PLATHO_COMPACT_MAX_CHUNKS_def Let_def compactBodyObjectFromBytes_def)
  then show ?thesis using body_transport_roundtrip by blast
qed

end
