(* ===== verification/Signed_Bundles.thy ===== *)
theory Signed_Bundles
  imports Key_Bundles
begin

text \<open>
  The signed public key bundle of \<open>web/crypto/platho-crypto.mjs\<close> and its binding to the vault key
  record: the payload that is signed, its text, signing, verification, and the comparison with what
  the chain says of the key. \<open>le\<close> is the collation \<open>stableStringify\<close> sorts by.
\<close>

section \<open>The signed payload\<close>

record bundle_claims =
  bc_issuedAt :: "int option"
  bc_expiresAt :: "int option"
  bc_ownerWallet :: "js_string option"
  bc_vaultAddress :: "js_string option"
  bc_purpose :: "js_string option"

record signed_bundle =
  sb_domain :: js_string
  sb_version :: int
  sb_claims :: bundle_claims
  sb_bundle :: key_bundle
  sb_signingPublicKey :: js_string
  sb_signature :: js_string

definition SIGNED_BUNDLE_DOMAIN :: js_string where
  "SIGNED_BUNDLE_DOMAIN = str ''PLATHO.MESSAGING.KEY_BUNDLE.SIGNATURE.V1''"

definition nullable :: "('a \<Rightarrow> json) \<Rightarrow> 'a option \<Rightarrow> json" where
  "nullable f v = (case v of None \<Rightarrow> JNull | Some x \<Rightarrow> f x)"

definition json_of_bundle :: "key_bundle \<Rightarrow> json" where
  "json_of_bundle b = JObj
     [(str ''version'', Some (JInt (kb_version b))), (str ''suite'', Some (JStr (kb_suite b))),
      (str ''contractSuite'', Some (JInt (kb_contractSuite b))), (str ''keyId'', Some (JStr (kb_keyId b))),
      (str ''x25519PublicKey'', map_option JStr (kb_x25519PublicKey b)),
      (str ''scanPublicKey'', map_option JStr (kb_scanPublicKey b)),
      (str ''mlKem768PublicKey'', map_option JStr (kb_mlKem768PublicKey b)),
      (str ''mlKem768PublicKeyHash'', map_option JStr (kb_mlKem768PublicKeyHash b)),
      (str ''mlKem768PublicKeyLen'', map_option (\<lambda>n. JInt (int n)) (kb_mlKem768PublicKeyLen b))]"

definition signedBundlePayload :: "key_bundle \<Rightarrow> bytes \<Rightarrow> bundle_claims \<Rightarrow> json res" where
  "signedBundlePayload publicBundle signingPublicKey claims =
     andThen (assertLength signingPublicKey 32) (\<lambda>pk.
       Inr (JObj
         [(str ''domain'', Some (JStr SIGNED_BUNDLE_DOMAIN)), (str ''version'', Some (JInt 1)),
          (str ''issuedAt'', map_option JInt (bc_issuedAt claims)),
          (str ''expiresAt'', Some (nullable JInt (bc_expiresAt claims))),
          (str ''ownerWallet'', Some (nullable JStr (bc_ownerWallet claims))),
          (str ''vaultAddress'', Some (nullable JStr (bc_vaultAddress claims))),
          (str ''purpose'', Some (JStr (or_default (bc_purpose claims) (str ''messaging'')))),
          (str ''bundle'', Some (json_of_bundle publicBundle)),
          (str ''signingPublicKey'', Some (JStr (base64urlEncode pk)))]))"

definition payload_bytes_of :: "(js_string \<Rightarrow> js_string \<Rightarrow> bool) \<Rightarrow> json \<Rightarrow> bytes" where
  "payload_bytes_of le j = utf8_encode (stableStringify le j)"

section \<open>Signing and verifying\<close>

definition exportSignedPublicKeyBundle ::
    "prims \<Rightarrow> (js_string \<Rightarrow> js_string \<Rightarrow> bool) \<Rightarrow> messaging_identity \<Rightarrow> int \<Rightarrow> bundle_claims \<Rightarrow> signed_bundle res" where
  "exportSignedPublicKeyBundle P le identity now claims =
     andThen (exportPublicKeyBundle (mi_encryptionKeyPair identity)) (\<lambda>bundle.
       (let claims' = claims\<lparr>bc_issuedAt := Some (or_default (bc_issuedAt claims) now),
                bc_purpose := Some (or_default (bc_purpose claims) (str ''messaging''))\<rparr> in
        andThen (signedBundlePayload bundle (mi_signingPublicKey identity) claims') (\<lambda>payload.
        andThen (assertLength (p_sign P (payload_bytes_of le payload) (mi_signingSecretKey identity)) 64) (\<lambda>signature.
          Inr \<lparr>sb_domain = SIGNED_BUNDLE_DOMAIN, sb_version = 1, sb_claims = claims', sb_bundle = bundle,
               sb_signingPublicKey = base64urlEncode (mi_signingPublicKey identity),
               sb_signature = base64urlEncode signature\<rparr>))))"

record verified_bundle =
  vb_bundle :: key_bundle
  vb_signingPublicKey :: bytes
  vb_claims :: bundle_claims

definition verifySignedPublicKeyBundle ::
    "prims \<Rightarrow> (js_string \<Rightarrow> js_string \<Rightarrow> bool) \<Rightarrow> signed_bundle \<Rightarrow> int option \<Rightarrow> verified_bundle res" where
  "verifySignedPublicKeyBundle P le sb now =
     guard (\<not> (sb_domain sb \<noteq> SIGNED_BUNDLE_DOMAIN \<or> sb_version sb \<noteq> 1)) (JsError ''Invalid Platho signed public key bundle'')
     (guard (\<not> (case (now, bc_expiresAt (sb_claims sb)) of (Some t, Some e) \<Rightarrow> e < t | _ \<Rightarrow> False))
        (JsError ''Platho signed public key bundle is expired'')
     (andThen (normalizeRecipientBundle P (sb_bundle sb)) (\<lambda>_.
      andThen (base64urlFixedBytes (Some (sb_signingPublicKey sb)) 32) (\<lambda>pk.
      andThen (base64urlFixedBytes (Some (sb_signature sb)) 64) (\<lambda>signature.
      andThen (signedBundlePayload (sb_bundle sb) pk (sb_claims sb)) (\<lambda>payload.
      guard (p_verify P signature (payload_bytes_of le payload) pk) (JsError ''Platho signed public key bundle signature is invalid'')
        (Inr \<lparr>vb_bundle = sb_bundle sb, vb_signingPublicKey = pk, vb_claims = sb_claims sb\<rparr>)))))))"

section \<open>Binding to the vault key record\<close>

record binding_options =
  bo_now :: "int option"
  bo_ownerWallet :: "js_string option"
  bo_currentKeyId :: "int option"
  bo_recordKeyId :: "int option"

record key_binding =
  bd_bundle :: verified_bundle
  bd_wallet :: "js_string option"
  bd_draft :: vault_draft

definition check_field :: "int option \<Rightarrow> int \<Rightarrow> unit res" where
  "check_field actual expected =
     andThen (recordField actual) (\<lambda>a.
       guard (a = expected) (JsError ''Vault key record does not match signed bundle'') (Inr ()))"

definition verifyVaultKeyRecordBinding ::
    "prims \<Rightarrow> (js_string \<Rightarrow> js_string \<Rightarrow> bool) \<Rightarrow> signed_bundle \<Rightarrow> vault_key_record \<Rightarrow> binding_options \<Rightarrow> key_binding res" where
  "verifyVaultKeyRecordBinding P le sb r options =
     andThen (verifySignedPublicKeyBundle P le sb (bo_now options)) (\<lambda>v.
     guard (vk_exists r) (JsError ''Vault key record does not exist'')
    (andThen (createVaultMessagingKeyDraft P (vb_bundle v) (vb_signingPublicKey v) None) (\<lambda>draft.
     guard (\<not> (case (bo_currentKeyId options, bo_recordKeyId options) of (Some c, Some k) \<Rightarrow> c \<noteq> k | _ \<Rightarrow> False))
       (JsError ''Vault current key id does not point to this key record'')
    (andThen (check_field (vk_enc_pubkey r) (int (vd_enc_pubkey draft))) (\<lambda>_.
     andThen (check_field (vk_sign_pubkey r) (int (vd_sign_pubkey draft))) (\<lambda>_.
     andThen (check_field (vk_pq_kem_pubkey_hash r) (int (vd_pq_kem_pubkey_hash draft))) (\<lambda>_.
     andThen (check_field (vk_pq_kem_pubkey_len r) (int (vd_pq_kem_pubkey_len draft))) (\<lambda>_.
     andThen (check_field (vk_crypto_suite_mask r) (vd_crypto_suite_mask draft)) (\<lambda>_.
     andThen (check_field (vk_scan_pubkey r) (int (vd_scan_pubkey draft))) (\<lambda>_.
     andThen (recordPqKemPubkeyBytes r (vd_pq_kem_pubkey_len draft)) (\<lambda>pq.
     guard (pq = vd_pq_kem_pubkey draft) (JsError ''Vault key record pq_kem_pubkey does not match signed bundle'')
    (guard (\<not> be_value (p_sha256 P pq) \<noteq> vd_pq_kem_pubkey_hash draft)
       (JsError ''Vault key record pq_kem_pubkey hash does not match key material'')
    (andThen (recordField (vk_revoked_lt r)) (\<lambda>revoked.
     guard (\<not> revoked \<noteq> 0) (JsError ''Vault key record is revoked'')
    (case (case bo_ownerWallet options of Some w \<Rightarrow> Some w | None \<Rightarrow> bc_ownerWallet (sb_claims sb)) of
       None \<Rightarrow> Inr \<lparr>bd_bundle = v, bd_wallet = None, bd_draft = draft\<rparr>
     | Some w \<Rightarrow> if w = [] then Inr \<lparr>bd_bundle = v, bd_wallet = None, bd_draft = draft\<rparr>
         else andThen (parseTonAddress w) (\<lambda>a. Inr \<lparr>bd_bundle = v, bd_wallet = Some (rawAddress a), bd_draft = draft\<rparr>)))))))))))))))) "

section \<open>Correctness\<close>

lemma signed_bundle_verifies_aux:
  assumes "signature_laws P" "hash_laws P" "key_pair_ok P (mi_encryptionKeyPair identity)"
    and "mi_signingPublicKey identity = p_ed_public P (mi_signingSecretKey identity)"
    and "exportSignedPublicKeyBundle P le identity now claims = Inr sb"
    and "\<And>t e. later = Some t \<Longrightarrow> bc_expiresAt claims = Some e \<Longrightarrow> t \<le> e"
  shows "verifySignedPublicKeyBundle P le sb later = Inr \<lparr>vb_bundle = sb_bundle sb,
      vb_signingPublicKey = mi_signingPublicKey identity, vb_claims = sb_claims sb\<rparr>
    \<and> exportPublicKeyBundle (mi_encryptionKeyPair identity) = Inr (sb_bundle sb)
    \<and> bc_issuedAt (sb_claims sb) = Some (or_default (bc_issuedAt claims) now) \<and> bc_expiresAt (sb_claims sb) = bc_expiresAt claims
    \<and> bc_ownerWallet (sb_claims sb) = bc_ownerWallet claims"
proof -
  let ?pk = "mi_signingPublicKey identity"
  obtain pb claims' payload signature where x: "exportPublicKeyBundle (mi_encryptionKeyPair identity) = Inr pb"
      "claims' = claims\<lparr>bc_issuedAt := Some (or_default (bc_issuedAt claims) now),
                bc_purpose := Some (or_default (bc_purpose claims) (str ''messaging''))\<rparr>"
      "signedBundlePayload pb ?pk claims' = Inr payload"
      "signature = p_sign P (payload_bytes_of le payload) (mi_signingSecretKey identity)" "length signature = 64"
      "sb = \<lparr>sb_domain = SIGNED_BUNDLE_DOMAIN, sb_version = 1, sb_claims = claims', sb_bundle = pb,
               sb_signingPublicKey = base64urlEncode ?pk, sb_signature = base64urlEncode signature\<rparr>"
    using assms(5) unfolding exportSignedPublicKeyBundle_def Let_def res_simps by blast
  have l: "length ?pk = 32" using assms(1,4) by (simp add: signature_laws_def)
  have v: "p_verify P signature (payload_bytes_of le payload) ?pk"
    using assms(1) unfolding x(4) assms(4) by (simp add: signature_laws_def)
  note n = normalize_exported [OF assms(3,2) x(1)]
  have e: "\<not> (case (later, bc_expiresAt claims') of (Some t, Some e) \<Rightarrow> e < t | _ \<Rightarrow> False)"
    using assms(6) by (cases later; cases "bc_expiresAt claims") (simp_all add: x(2) not_less)
  have "verifySignedPublicKeyBundle P le sb later = Inr \<lparr>vb_bundle = pb, vb_signingPublicKey = ?pk, vb_claims = claims'\<rparr>"
    using e v l x(5) by (simp add: verifySignedPublicKeyBundle_def x(6) n assertLength_def x(3))
  then show ?thesis using x(1,2,6) by simp
qed

lemma expired_bundle:
  assumes "exportSignedPublicKeyBundle P le identity now claims = Inr sb" "bc_expiresAt claims = Some e" "e < t"
  shows "\<exists>err. verifySignedPublicKeyBundle P le sb (Some t) = Inl err"
  using assms by (auto simp: exportSignedPublicKeyBundle_def verifySignedPublicKeyBundle_def res_simps Let_def guard_def)

text \<open>A vault record carries the keys of a draft; the ML-KEM key may be given as bytes or in base64url.\<close>

definition carries_draft :: "vault_draft \<Rightarrow> vault_key_record \<Rightarrow> bool" where
  "carries_draft d r \<longleftrightarrow> vk_exists r \<and> vk_enc_pubkey r = Some (int (vd_enc_pubkey d)) \<and> vk_sign_pubkey r = Some (int (vd_sign_pubkey d))
     \<and> vk_crypto_suite_mask r = Some (vd_crypto_suite_mask d) \<and> vk_pq_kem_pubkey_len r = Some (int (vd_pq_kem_pubkey_len d))
     \<and> vk_pq_kem_pubkey_hash r = Some (int (vd_pq_kem_pubkey_hash d)) \<and> vk_scan_pubkey r = Some (int (vd_scan_pubkey d))
     \<and> (case vk_pq_kem_pubkey r of None \<Rightarrow> False | Some (PqBytes bs) \<Rightarrow> bs = vd_pq_kem_pubkey d
        | Some (PqText s) \<Rightarrow> base64urlFixedBytes (Some s) 1184 = Inr (vd_pq_kem_pubkey d))"

lemma check_field_Inr: "check_field v i = Inr u \<longleftrightarrow> v = Some i"
  by (cases v) (auto simp: check_field_def recordField_def res_simps)

lemma record_field_Inr: "recordField v = Inr i \<longleftrightarrow> v = Some i"
  by (cases v) (auto simp: recordField_def)

lemma record_pq_Inr:
  "length pq = 1184 \<Longrightarrow> recordPqKemPubkeyBytes r 1184 = Inr pq \<longleftrightarrow>
    (case vk_pq_kem_pubkey r of None \<Rightarrow> False | Some (PqBytes bs) \<Rightarrow> bs = pq | Some (PqText s) \<Rightarrow> base64urlFixedBytes (Some s) 1184 = Inr pq)"
  by (auto simp: recordPqKemPubkeyBytes_def assertLength_def res_simps split: option.splits pq_value.splits)

text \<open>
  The wallet of a binding: the one the caller names, else the one the bundle was signed with, in raw form; a name
  that is no address is an error, and an empty one is none.
\<close>

definition bound_wallet :: "js_string option \<Rightarrow> js_string option \<Rightarrow> js_string option res" where
  "bound_wallet given claimed =
     (let owner = (case given of Some w \<Rightarrow> Some w | None \<Rightarrow> claimed) in
      if owner = None \<or> owner = Some [] then Inr None else andThen (parseTonAddress (the owner)) (\<lambda>a. Inr (Some (rawAddress a))))"

lemma bound_wallet_case:
  "(case (case given of Some w \<Rightarrow> Some w | None \<Rightarrow> claimed) of
       None \<Rightarrow> Inr (f None)
     | Some w \<Rightarrow> if w = [] then Inr (f None) else andThen (parseTonAddress w) (\<lambda>a. Inr (f (Some (rawAddress a)))))
   = andThen (bound_wallet given claimed) (\<lambda>w. Inr (f w))"
proof -
  have "andThen (parseTonAddress x) (\<lambda>a. Inr (f (Some (rawAddress a))))
      = andThen (andThen (parseTonAddress x) (\<lambda>a. Inr (Some (rawAddress a)))) (\<lambda>w. Inr (f w))" for x
    by (cases "parseTonAddress x") simp_all
  then show ?thesis by (auto simp: bound_wallet_def Let_def split: option.splits)
qed

lemma binding_steps:
  assumes "verifySignedPublicKeyBundle P le sb (bo_now options) = Inr v" "createVaultMessagingKeyDraft P (vb_bundle v) (vb_signingPublicKey v) None = Inr d"
    and "vd_pq_kem_pubkey_len d = 1184" "length (vd_pq_kem_pubkey d) = 1184" "vd_pq_kem_pubkey_hash d = be_value (p_sha256 P (vd_pq_kem_pubkey d))"
    and ids: "ids \<longleftrightarrow> (\<forall>c k. bo_currentKeyId options = Some c \<longrightarrow> bo_recordKeyId options = Some k \<longrightarrow> c = k)"
  shows "verifyVaultKeyRecordBinding P le sb r options = Inr bd \<longleftrightarrow>
      carries_draft d r \<and> vk_revoked_lt r = Some 0 \<and> ids
      \<and> (\<exists>w. bound_wallet (bo_ownerWallet options) (bc_ownerWallet (sb_claims sb)) = Inr w
          \<and> bd = \<lparr>bd_bundle = v, bd_wallet = w, bd_draft = d\<rparr>)"
    "carries_draft d r \<Longrightarrow> ids \<Longrightarrow> vk_revoked_lt r = Some lt \<Longrightarrow> verifyVaultKeyRecordBinding P le sb r options =
      (if lt = 0 then andThen (bound_wallet (bo_ownerWallet options) (bc_ownerWallet (sb_claims sb)))
          (\<lambda>w. Inr \<lparr>bd_bundle = v, bd_wallet = w, bd_draft = d\<rparr>)
       else Inl (JsError ''Vault key record is revoked''))"
proof -
  let ?clash = "case (bo_currentKeyId options, bo_recordKeyId options) of (Some c, Some k) \<Rightarrow> c \<noteq> k | _ \<Rightarrow> False"
  have clash: "\<not> ?clash \<longleftrightarrow> ids" by (auto simp: ids split: option.splits)
  note def = verifyVaultKeyRecordBinding_def [of P le sb r options, unfolded bound_wallet_case [where f = "\<lambda>w. \<lparr>bd_bundle = _, bd_wallet = w, bd_draft = _\<rparr>"]]
  note pq = record_pq_Inr [OF assms(4), of r]
  show "verifyVaultKeyRecordBinding P le sb r options = Inr bd \<longleftrightarrow>
      carries_draft d r \<and> vk_revoked_lt r = Some 0 \<and> ids
      \<and> (\<exists>w. bound_wallet (bo_ownerWallet options) (bc_ownerWallet (sb_claims sb)) = Inr w
          \<and> bd = \<lparr>bd_bundle = v, bd_wallet = w, bd_draft = d\<rparr>)"
    unfolding def res_simps clash check_field_Inr record_field_Inr carries_draft_def pq [symmetric]
    using assms(1-5) by auto
  show "verifyVaultKeyRecordBinding P le sb r options =
      (if lt = 0 then andThen (bound_wallet (bo_ownerWallet options) (bc_ownerWallet (sb_claims sb)))
          (\<lambda>w. Inr \<lparr>bd_bundle = v, bd_wallet = w, bd_draft = d\<rparr>)
       else Inl (JsError ''Vault key record is revoked''))"
    if c: "carries_draft d r" "ids" "vk_revoked_lt r = Some lt"
  proof -
    have "recordPqKemPubkeyBytes r 1184 = Inr (vd_pq_kem_pubkey d)" using c(1) by (simp add: pq carries_draft_def)
    moreover have "check_field (Some i) i = Inr ()" for i by (simp add: check_field_Inr)
    moreover have "\<not> ?clash" using clash c(2) by simp
    ultimately show ?thesis using c assms(1-3,5) by (simp add: def carries_draft_def recordField_def)
  qed
qed

text \<open>
  C12: A signed bundle binds to its vault record. The bundle an owner signs is accepted by every client against a
  record exactly if it has not expired, the record exists, carries the very keys that were signed, with the
  ML-KEM key and its hash, and is not revoked, the key numbers given do not differ, and the wallet named by the
  caller, or else the one the owner signed, is an address or empty. The binding then has that wallet in raw form,
  the owner's signing key and the bundle that was signed; a record revoked since is refused as such.
\<close>

theorem signed_bundle_binds:
  assumes "signature_laws P" "hash_laws P" "key_pair_ok P (mi_encryptionKeyPair identity)"
    and "mi_signingPublicKey identity = p_ed_public P (mi_signingSecretKey identity)"
    and "kp_suite (mi_encryptionKeyPair identity) = HYBRID_V1"
    and "exportSignedPublicKeyBundle P le identity now claims = Inr sb"
    and "createVaultMessagingKeyDraft P (sb_bundle sb) (mi_signingPublicKey identity) None = Inr d"
    and "live \<longleftrightarrow> (\<forall>t e. bo_now options = Some t \<longrightarrow> bc_expiresAt claims = Some e \<longrightarrow> t \<le> e)"
    and "ids \<longleftrightarrow> (\<forall>c k. bo_currentKeyId options = Some c \<longrightarrow> bo_recordKeyId options = Some k \<longrightarrow> c = k)"
  shows "(verifyVaultKeyRecordBinding P le sb r options = Inr bd \<longleftrightarrow>
      live \<and> carries_draft d r \<and> vk_revoked_lt r = Some 0 \<and> ids
      \<and> bound_wallet (bo_ownerWallet options) (bc_ownerWallet claims) = Inr (bd_wallet bd) \<and> bd_draft bd = d
      \<and> bd_bundle bd = \<lparr>vb_bundle = sb_bundle sb, vb_signingPublicKey = mi_signingPublicKey identity, vb_claims = sb_claims sb\<rparr>)
    \<and> (live \<and> carries_draft d r \<and> ids \<and> vk_revoked_lt r = Some lt \<and> lt \<noteq> 0 \<longrightarrow>
       verifyVaultKeyRecordBinding P le sb r options = Inl (JsError ''Vault key record is revoked''))"
proof (cases live)
  case True
  note v = signed_bundle_verifies_aux [OF assms(1-4,6), of "bo_now options"]
  have l: "\<And>t e. bo_now options = Some t \<Longrightarrow> bc_expiresAt claims = Some e \<Longrightarrow> t \<le> e" using True assms(8) by blast
  obtain pq where f: "length pq = 1184" "vd_pq_kem_pubkey d = pq" "vd_pq_kem_pubkey_hash d = be_value (p_sha256 P pq)"
      "vd_pq_kem_pubkey_len d = 1184"
    using draft_fields [OF assms(3,2,5) _ assms(7)] v l by blast
  have w: "bc_ownerWallet (sb_claims sb) = bc_ownerWallet claims" using v l by blast
  note b = binding_steps [OF conjunct1 [OF v [OF l]] _ f(4) _ _ assms(9), simplified, OF assms(7)]
  show ?thesis using b(1) [of r bd] b(2) [of r lt] f True by (cases bd) (auto simp: w)
next
  case False
  then obtain t e where "bo_now options = Some t" "bc_expiresAt claims = Some e" "e < t" using assms(8) by (auto simp: not_le)
  from expired_bundle [OF assms(6) this(2,3)] this(1) False show ?thesis by (auto simp: verifyVaultKeyRecordBinding_def)
qed

definition sample_claims :: bundle_claims where
  "sample_claims = \<lparr>bc_issuedAt = None, bc_expiresAt = Some 90, bc_ownerWallet = None, bc_vaultAddress = None, bc_purpose = None\<rparr>"

lemma sample_identity_keys:
  "mi_signingPublicKey sample_identity = p_ed_public toy_prims (mi_signingSecretKey sample_identity)"
  "length (mi_signingPublicKey sample_identity) = 32" "mi_signingPublicKey sample_identity = replicate 32 4"
proof -
  obtain kp where "sample_identity = \<lparr>mi_encryptionKeyPair = kp, mi_signingSecretKey = replicate 32 4,
      mi_signingPublicKey = p_ed_public toy_prims (replicate 32 4)\<rparr>"
    using sample_identity_created by (auto simp: createMessagingIdentity_def res_simps eq_commute [of _ sample_identity])
  then have "mi_signingSecretKey sample_identity = replicate 32 4" "mi_signingPublicKey sample_identity = p_ed_public toy_prims (replicate 32 4)"
    by (metis messaging_identity.select_convs(2), metis messaging_identity.select_convs(3))
  moreover have "p_ed_public toy_prims (replicate 32 4) = replicate 32 4" by (simp add: toy_prims_def pad_to_def)
  ultimately show "mi_signingPublicKey sample_identity = p_ed_public toy_prims (mi_signingSecretKey sample_identity)"
    "length (mi_signingPublicKey sample_identity) = 32" "mi_signingPublicKey sample_identity = replicate 32 4"
    by simp_all
qed

definition sample_owner :: js_string where
  "sample_owner = rawAddress \<lparr>a_workchain = - 1, a_hash = replicate 32 5\<rparr>"

lemma sample_owner_bound: "bound_wallet None (Some sample_owner) = Inr (Some sample_owner)"
  using sample_wallet by (simp add: bound_wallet_def sample_owner_def) (simp add: rawAddress_def)

theorem signed_bundle_binds_witness:
  "\<exists>sb d bd. exportSignedPublicKeyBundle toy_prims lex_le sample_identity 50 (sample_claims\<lparr>bc_ownerWallet := Some sample_owner\<rparr>) = Inr sb
    \<and> verifyVaultKeyRecordBinding toy_prims lex_le sb (record_of_draft d)
        \<lparr>bo_now = Some 60, bo_ownerWallet = None, bo_currentKeyId = Some 3, bo_recordKeyId = Some 3\<rparr> = Inr bd
    \<and> bd_wallet bd = Some sample_owner
    \<and> verifyVaultKeyRecordBinding toy_prims lex_le sb ((record_of_draft d)\<lparr>vk_revoked_lt := Some 7\<rparr>)
        \<lparr>bo_now = Some 60, bo_ownerWallet = None, bo_currentKeyId = Some 3, bo_recordKeyId = Some 3\<rparr>
      = Inl (JsError ''Vault key record is revoked'')"
proof -
  let ?claims = "sample_claims\<lparr>bc_ownerWallet := Some sample_owner\<rparr>"
  let ?o = "\<lparr>bo_now = Some 60, bo_ownerWallet = None, bo_currentKeyId = Some 3, bo_recordKeyId = Some 3\<rparr>"
  obtain pb where b: "exportPublicKeyBundle sample_pair = Inr pb" using sample_bundle by blast
  have s: "length (p_sign toy_prims m sk) = 64" "signature_laws toy_prims" for m sk
    using toy_laws by (simp_all add: crypto_law_defs)
  have "\<exists>sb. exportSignedPublicKeyBundle toy_prims lex_le sample_identity 50 ?claims = Inr sb \<and> sb_bundle sb = pb"
    using b sample_identity_keys by (simp add: exportSignedPublicKeyBundle_def signedBundlePayload_def assertLength_def s Let_def)
  then obtain sb where sb: "exportSignedPublicKeyBundle toy_prims lex_le sample_identity 50 ?claims = Inr sb" "sb_bundle sb = pb"
    by blast
  obtain d where d: "createVaultMessagingKeyDraft toy_prims (sb_bundle sb) (mi_signingPublicKey sample_identity) None = Inr d"
    using sample_draft [OF b] sb(2) sample_identity_keys(3) by auto
  note binds = signed_bundle_binds [OF s(2) sample_pair_ok(6,1) sample_identity_keys(1) sample_pair_ok(2) sb(1) d refl refl, where options = ?o]
  define bd where "bd = \<lparr>bd_bundle = \<lparr>vb_bundle = sb_bundle sb, vb_signingPublicKey = mi_signingPublicKey sample_identity, vb_claims = sb_claims sb\<rparr>,
    bd_wallet = Some sample_owner, bd_draft = d\<rparr>"
  have c: "carries_draft d (record_of_draft d)" "carries_draft d ((record_of_draft d)\<lparr>vk_revoked_lt := Some 7\<rparr>)"
    by (simp_all add: carries_draft_def record_of_draft_def)
  have "verifyVaultKeyRecordBinding toy_prims lex_le sb (record_of_draft d) ?o = Inr bd"
    using binds [where r = "record_of_draft d" and bd = bd] c(1) sample_owner_bound by (simp add: bd_def sample_claims_def record_of_draft_def)
  moreover have "verifyVaultKeyRecordBinding toy_prims lex_le sb ((record_of_draft d)\<lparr>vk_revoked_lt := Some 7\<rparr>) ?o
      = Inl (JsError ''Vault key record is revoked'')"
    using binds [where r = "(record_of_draft d)\<lparr>vk_revoked_lt := Some 7\<rparr>" and lt = 7] c(2) by (simp add: sample_claims_def)
  moreover have "bd_wallet bd = Some sample_owner" by (simp add: bd_def)
  ultimately show ?thesis using sb(1) by blast
qed

end
