(* ===== verification/Capsule.thy ===== *)
theory Capsule
  imports Snake_Payload Capsule_Body Signed_Bundles
begin

text \<open>
  The capsule itself (\<open>web/crypto/platho-crypto.mjs\<close>): the chain cells of its two headers and its body,
  their hashes and the identifier, the signed payload, creation for a recipient (private capsules found
  by a view tag, conversation capsules found by a bucket key), verification, opening, and the way back
  from the entry on chain. \<open>P\<close> are the primitives, \<open>le\<close> the collation of \<open>stableStringify\<close>, \<open>lower\<close>
  is \<open>toLowerCase\<close>; clocks and random bytes are arguments.
\<close>

section \<open>Chain cells, hashes and the identifier\<close>

record chain_cells =
  hc_header0 :: chain_cell
  hc_header1 :: chain_cell
  hc_body :: chain_cell

record capsule_hashes =
  ch_header0Hash :: js_string
  ch_header1Hash :: js_string
  ch_bodyHash :: js_string

text \<open>
  \<open>createSnakeCellPayload\<close> on a value within the caps of a capsule; with these caps its fuel never runs
  out (\<open>cell_payload_made\<close>, \<open>cell_payload_refused\<close>).
\<close>

definition cell_payload :: "prims \<Rightarrow> bytes \<Rightarrow> nat \<Rightarrow> chain_cell res" where
  "cell_payload P bytes maxBytes =
     (case createSnakeCellPayload (p_sha256 P) bytes maxBytes of None \<Rightarrow> Inl (JsError ''out of fuel'') | Some r \<Rightarrow> r)"

definition privateCapsuleBodyBytes :: "capsule_body \<Rightarrow> bytes res" where
  "privateCapsuleBodyBytes body =
     guard (\<not> bo_layout body \<noteq> PLATHO_COMPACT_BODY_LAYOUT) (JsError ''Private capsule body must use platho.byte-layout.v1'')
       (compactBodyBytesFromCapsuleBody body)"

definition computePrivateCapsuleChainCells :: "prims \<Rightarrow> capsule_header0 \<Rightarrow> capsule_header1 \<Rightarrow> capsule_body \<Rightarrow> chain_cells res" where
  "computePrivateCapsuleChainCells P header0 header1 body =
     andThen (capsuleHeader0Bytes header0) (\<lambda>bytes0.
     andThen (cell_payload P bytes0 PLATHO_ONCHAIN_HEADER_MAX_BYTES) (\<lambda>cell0.
     andThen (privateCapsuleHeader1Bytes header1) (\<lambda>bytes1.
     andThen (cell_payload P bytes1 PLATHO_ONCHAIN_HEADER_MAX_BYTES) (\<lambda>cell1.
     andThen (privateCapsuleBodyBytes body) (\<lambda>bodyBytes.
     andThen (cell_payload P bodyBytes PLATHO_ONCHAIN_BODY_MAX_BYTES) (\<lambda>cellb.
       Inr \<lparr>hc_header0 = cell0, hc_header1 = cell1, hc_body = cellb\<rparr>))))))"

definition computePrivateCapsuleHeaderHashes :: "prims \<Rightarrow> capsule_header0 \<Rightarrow> capsule_header1 \<Rightarrow> (js_string \<times> js_string) res" where
  "computePrivateCapsuleHeaderHashes P header0 header1 =
     andThen (capsuleHeader0Bytes header0) (\<lambda>bytes0.
     andThen (cell_payload P bytes0 PLATHO_ONCHAIN_HEADER_MAX_BYTES) (\<lambda>cell0.
     andThen (privateCapsuleHeader1Bytes header1) (\<lambda>bytes1.
     andThen (cell_payload P bytes1 PLATHO_ONCHAIN_HEADER_MAX_BYTES) (\<lambda>cell1.
     andThen (assertHashHex (cc_hash cell0)) (\<lambda>hash0.
     andThen (assertHashHex (cc_hash cell1)) (\<lambda>hash1. Inr (hash0, hash1)))))))"

definition privateCapsuleHashesFromChainCells :: "chain_cells \<Rightarrow> capsule_hashes res" where
  "privateCapsuleHashesFromChainCells cells =
     andThen (assertHashHex (cc_hash (hc_header0 cells))) (\<lambda>hash0.
     andThen (assertHashHex (cc_hash (hc_header1 cells))) (\<lambda>hash1.
     andThen (assertHashHex (cc_hash (hc_body cells))) (\<lambda>hashb.
       Inr \<lparr>ch_header0Hash = hash0, ch_header1Hash = hash1, ch_bodyHash = hashb\<rparr>)))"

definition PRIVATE_CAPSULE_ID_DOMAIN :: js_string where "PRIVATE_CAPSULE_ID_DOMAIN = str ''PLATHO.PRIVATE_CAPSULE.ID.V1''"

definition stableJsonHashId :: "prims \<Rightarrow> (js_string \<Rightarrow> js_string \<Rightarrow> bool) \<Rightarrow> json \<Rightarrow> js_string" where
  "stableJsonHashId P le j =
     base64urlEncode (p_sha256 P (utf8_encode PRIVATE_CAPSULE_ID_DOMAIN @ utf8_encode (stableStringify le j)))"

definition computePrivateCapsuleId :: "prims \<Rightarrow> (js_string \<Rightarrow> js_string \<Rightarrow> bool) \<Rightarrow> capsule_hashes \<Rightarrow> js_string res" where
  "computePrivateCapsuleId P le hashes =
     andThen (assertHashHex (ch_header0Hash hashes)) (\<lambda>hash0.
     andThen (assertHashHex (ch_header1Hash hashes)) (\<lambda>hash1.
     andThen (assertHashHex (ch_bodyHash hashes)) (\<lambda>hashb.
       Inr (stableJsonHashId P le (JObj [(str ''header0Hash'', Some (JStr hash0)), (str ''header1Hash'', Some (JStr hash1)),
         (str ''bodyHash'', Some (JStr hashb))])))))"

section \<open>The signed payload\<close>

record capsule =
  cp_version :: int
  cp_kind :: js_string
  cp_id :: js_string
  cp_header0 :: capsule_header0
  cp_header1 :: capsule_header1
  cp_body :: capsule_body
  cp_hashes :: capsule_hashes
  cp_cell0 :: "chain_cell option"
  cp_cell1 :: "chain_cell option"
  cp_cellb :: "chain_cell option"
  cp_senderSignature :: "js_string option"

text \<open>
  A 256-bit field as \<open>JSON.stringify\<close> shows it: a \<open>BigInt\<close> throws, a \<open>Uint8Array\<close> is an object of
  its indexes.
\<close>

definition json_of_u256 :: "u256 option \<Rightarrow> json option res" where
  "json_of_u256 v =
     (case v of
        None \<Rightarrow> Inr None
      | Some (U256Text s) \<Rightarrow> Inr (Some (JStr s))
      | Some (U256Bytes bs) \<Rightarrow> Inr (Some (JObj (map (\<lambda>(i, b). (dec_string i, Some (JInt (uint b)))) (enumerate 0 bs))))
      | Some (U256Int i) \<Rightarrow> Inl (TypeError ''Do not know how to serialize a BigInt''))"

definition PRIVATE_CAPSULE_SIGNATURE_DOMAIN :: js_string where
  "PRIVATE_CAPSULE_SIGNATURE_DOMAIN = str ''PLATHO.PRIVATE_CAPSULE.SIGNATURE.V1''"

definition privateCapsuleSignaturePayload :: "capsule \<Rightarrow> int \<Rightarrow> js_string \<Rightarrow> json res" where
  "privateCapsuleSignaturePayload c profileVersion avatarHash =
     (let h = cp_header0 c;
          base = [(str ''domain'', Some (JStr PRIVATE_CAPSULE_SIGNATURE_DOMAIN)), (str ''version'', Some (JInt 1)),
            (str ''id'', Some (JStr (cp_id c))), (str ''header0Hash'', Some (JStr (ch_header0Hash (cp_hashes c)))),
            (str ''header1Hash'', Some (JStr (ch_header1Hash (cp_hashes c)))),
            (str ''bodyHash'', Some (JStr (ch_bodyHash (cp_hashes c)))), (str ''profileVersion'', Some (JInt profileVersion)),
            (str ''avatarHash'', Some (JStr avatarHash)), (str ''createdAt'', Some (JInt (intOf (h1_createdAt (cp_header1 c))))),
            (str ''expiresAt'', Some (JInt (intOf (h1_expiresAt (cp_header1 c)))))] in
      if h0_kind h = KIND_CONV then
        andThen (json_of_u256 (h0_bucketKey h)) (\<lambda>bucket. Inr (JObj (base @ [(str ''bucketKey'', bucket)])))
      else if h0_kind h = KIND_INTRO then
        andThen (json_of_u256 (h0_ephemeralR h)) (\<lambda>r.
          Inr (JObj (base @ [(str ''ephemeralR'', r), (str ''viewTag'', Some (JInt (or_default (h0_viewTag h) 0)))])))
      else
        Inr (JObj (base @ [(str ''senderKeyId'', map_option JStr (h0_senderKeyId h)),
          (str ''viewTag'', Some (JInt (or_default (h0_viewTag h) 0)))])))"

definition assertChainCellPayloadMatches :: "chain_cell option \<Rightarrow> chain_cell \<Rightarrow> unit res" where
  "assertChainCellPayloadMatches actual expected =
     (case actual of
        None \<Rightarrow> Inr ()
      | Some a \<Rightarrow>
          guard (cc_layout a = cc_layout expected \<and> cc_bytes a = cc_bytes expected \<and> cc_bits a = cc_bits expected
              \<and> cc_cells a = cc_cells expected \<and> cc_refs a = cc_refs expected \<and> cc_hash a = cc_hash expected
              \<and> cc_boc a = cc_boc expected)
            (JsError ''does not match deterministic on-chain cell'') (Inr ()))"

record publish_draft =
  pd_publish_kind :: int
  pd_size_class :: int
  pd_crypto_suite :: int
  pd_header_0_hash :: js_string
  pd_header_1_hash :: js_string
  pd_body_hash :: js_string
  pd_header_0_cell :: chain_cell
  pd_header_1_cell :: chain_cell
  pd_body_cell :: chain_cell
  pd_valid_until :: int

definition privateCapsulePublishDraft :: "capsule \<Rightarrow> publish_draft res" where
  "privateCapsulePublishDraft c =
     (case (cp_cell0 c, cp_cell1 c, cp_cellb c) of
        (Some cell0, Some cell1, Some cellb) \<Rightarrow>
          Inr \<lparr>pd_publish_kind = h0_publishKind (cp_header0 c), pd_size_class = h0_sizeClass (cp_header0 c),
            pd_crypto_suite = h0_cryptoSuite (cp_header0 c), pd_header_0_hash = ch_header0Hash (cp_hashes c),
            pd_header_1_hash = ch_header1Hash (cp_hashes c), pd_body_hash = ch_bodyHash (cp_hashes c),
            pd_header_0_cell = cell0, pd_header_1_cell = cell1, pd_body_cell = cellb,
            pd_valid_until = intOf (h1_expiresAt (cp_header1 c)) div 1000\<rparr>
      | _ \<Rightarrow> Inl (JsError ''Private capsule is missing on-chain payload cells''))"

section \<open>Creating\<close>

record capsule_options =
  ca_policy :: timestamp_options
  ca_times :: header1_request
  ca_payloadBytes :: "bytes option"
  ca_payload :: compact_input
  ca_compact :: compact_options
  ca_profileVersion :: "int option"
  ca_avatarHash :: "u256 option"
  ca_messageId :: "bytes option"
  ca_senderRecovery :: "bool option"

record capsule_random =
  cr_streamId :: bytes
  cr_clientNonce :: bytes
  cr_ephemeral :: bytes
  cr_body :: body_random

text \<open>The recipient a capsule is made for, checked either by signature or by normalisation alone.\<close>

record capsule_recipient =
  cq_bundle :: key_bundle
  cq_suite :: js_string
  cq_contractSuite :: int

definition privateProfilePointer :: "int option \<Rightarrow> u256 option \<Rightarrow> (int \<times> bytes) res" where
  "privateProfilePointer profileVersion avatarHash =
     (let version = or_default profileVersion 0 in
      guard (\<bar>version\<bar> \<le> MAX_SAFE_INTEGER) (JsError ''profile_version must be a safe integer'')
        (andThen (uint256Bytes avatarHash) (\<lambda>avatar. Inr (version, avatar))))"

text \<open>The payload to seal and the size class it has, the same steps for every kind of capsule.\<close>

definition capsule_payload ::
    "(js_string \<Rightarrow> js_string) \<Rightarrow> bytes \<Rightarrow> capsule_options \<Rightarrow> bool \<Rightarrow> int \<Rightarrow> (bytes \<times> nat) res" where
  "capsule_payload lower random options senderRecovery cryptoSuite =
     (let reserved = int (compactPayloadReservedTailBytes senderRecovery); co = ca_compact options in
      andThen (case ca_payloadBytes options of
          Some bytes \<Rightarrow> assertCompactPayloadBytes bytes (Some reserved) (co_sizeClass co)
        | None \<Rightarrow> encodeCompactPayload lower random (ca_payload options) (co\<lparr>co_reservedTailBytes := Some reserved\<rparr>)) (\<lambda>payloadBytes.
      andThen (compactPayloadContent payloadBytes (Some reserved)) (\<lambda>info.
      andThen (normalizeCapsuleSizeClass (or_default (co_sizeClass co) (int (pf_sizeClass info)))) (\<lambda>sizeClass.
      guard (\<not> pf_sizeClass info \<noteq> sizeClass) (JsError ''capsule payload size class mismatch'')
     (andThen (assertAllowedPrivateCapsulePair (int sizeClass) cryptoSuite) (\<lambda>_. Inr (payloadBytes, sizeClass)))))))"

text \<open>
  From the finished headers on: seal the payload under their hashes, build the cells, the identifier, the
  signature and the draft. The three create functions repeat this text.
\<close>

definition seal_capsule ::
    "prims \<Rightarrow> (js_string \<Rightarrow> js_string \<Rightarrow> bool) \<Rightarrow> messaging_identity \<Rightarrow> js_string \<Rightarrow> capsule_header0 \<Rightarrow> capsule_header1
      \<Rightarrow> int \<times> bytes \<Rightarrow> bytes \<Rightarrow> key_bundle \<Rightarrow> body_random \<Rightarrow> (body_options \<Rightarrow> body_options) \<Rightarrow> (capsule \<times> publish_draft) res" where
  "seal_capsule P le identity kind header0 header1 pointer payloadBytes bundle random extra =
     andThen (privateCapsuleIdentityBytes (mi_signingPublicKey identity) (Some (fst pointer)) (snd pointer)) (\<lambda>identityBytes.
     andThen (computePrivateCapsuleHeaderHashes P header0 header1) (\<lambda>(hash0, hash1).
     andThen (encryptCompactPayloadBytes P random payloadBytes bundle
         (extra \<lparr>en_hashes = \<lparr>bh_header0Hash = hash0, bh_header1Hash = hash1, bh_senderKeyId = Some (kp_keyId (mi_encryptionKeyPair identity))\<rparr>,
            en_messageId = None, en_ephemeralSecretKey = None, en_ephemeralPublicKey = None, en_identityBytes = Some identityBytes,
            en_mlKemEncapsulation = None, en_senderRecovery = True, en_senderKeyPair = Some (mi_encryptionKeyPair identity)\<rparr>)) (\<lambda>bodyBytes.
     andThen (assertPrivateBodyMatchesHeader header0 bodyBytes) (\<lambda>_.
     andThen (compactBodyObjectFromBytes bodyBytes) (\<lambda>body.
     andThen (computePrivateCapsuleChainCells P header0 header1 body) (\<lambda>cells.
     andThen (privateCapsuleHashesFromChainCells cells) (\<lambda>hashes.
     andThen (computePrivateCapsuleId P le hashes) (\<lambda>id.
       (let unsigned = \<lparr>cp_version = 1, cp_kind = kind, cp_id = id, cp_header0 = header0, cp_header1 = header1, cp_body = body,
              cp_hashes = hashes, cp_cell0 = Some (hc_header0 cells), cp_cell1 = Some (hc_header1 cells), cp_cellb = Some (hc_body cells),
              cp_senderSignature = None\<rparr> in
     andThen (privateCapsuleSignaturePayload unsigned (fst pointer) (hex256 (snd pointer))) (\<lambda>payload.
     andThen (assertLength (p_sign P (payload_bytes_of le payload) (mi_signingSecretKey identity)) 64) (\<lambda>signature.
       (let c = unsigned\<lparr>cp_senderSignature := Some (base64urlEncode signature)\<rparr> in
     andThen (privateCapsulePublishDraft c) (\<lambda>draft. Inr (c, draft))))))))))))))"

definition blank_header0 :: "js_string \<Rightarrow> int \<Rightarrow> nat \<Rightarrow> int \<Rightarrow> js_string \<Rightarrow> capsule_header0" where
  "blank_header0 kind publishKind sizeClass cryptoSuite suite =
     \<lparr>h0_version = 1, h0_kind = kind, h0_publishKind = publishKind, h0_sizeClass = int sizeClass, h0_cryptoSuite = cryptoSuite,
      h0_suite = suite, h0_senderKeyId = None, h0_ephemeralScanPub = None, h0_viewTag = None, h0_bucketKey = None, h0_ephemeralR = None\<rparr>"

definition createEncryptedPrivateCapsuleForVerifiedRecipient ::
    "prims \<Rightarrow> (js_string \<Rightarrow> js_string) \<Rightarrow> (js_string \<Rightarrow> js_string \<Rightarrow> bool) \<Rightarrow> capsule_recipient \<Rightarrow> messaging_identity
      \<Rightarrow> capsule_options \<Rightarrow> capsule_random \<Rightarrow> (capsule \<times> publish_draft) res" where
  "createEncryptedPrivateCapsuleForVerifiedRecipient P lower le recipient identity options random =
     andThen (assertSupportedPrivateSuite (cq_suite recipient)) (\<lambda>suite.
       (let cryptoSuite = cq_contractSuite recipient; senderRecovery = ca_senderRecovery options \<noteq> Some False in
     andThen (capsule_payload lower (cr_streamId random) options senderRecovery cryptoSuite) (\<lambda>(payloadBytes, sizeClass).
     andThen (aligned_times (ca_times options) (to_now (ca_policy options))) (\<lambda>(createdAt, expiresAt).
     andThen (privateProfilePointer (ca_profileVersion options) (ca_avatarHash options)) (\<lambda>pointer.
     andThen (normalizeRecipientBundle P (cq_bundle recipient)) (\<lambda>r.
     andThen (case rk_scanPublicKey r of Some scan \<Rightarrow> Inr scan
         | None \<Rightarrow> Inl (JsError ''Recipient public key bundle is missing the stealth scan pubkey'')) (\<lambda>scan.
       (let ephemeral = cr_ephemeral random; ephemeralPublic = p_x25519_public P ephemeral in
     andThen (deriveStealthViewTagForRecipient P ephemeral ephemeralPublic scan) (\<lambda>viewTag.
       (let header0 = (blank_header0 KIND_PRIVATE PUBLISH_PRIVATE sizeClass cryptoSuite suite)
              \<lparr>h0_senderKeyId := Some (kp_keyId (mi_encryptionKeyPair identity)),
               h0_ephemeralScanPub := Some (base64urlEncode ephemeralPublic), h0_viewTag := Some (int viewTag)\<rparr>;
            header1 = new_header1 (ca_times options) (cr_clientNonce random) createdAt expiresAt in
     andThen (assertCapsuleTimestampPolicy header1 (ca_policy options)) (\<lambda>_.
       seal_capsule P le identity KIND_PRIVATE header0 header1 pointer payloadBytes (cq_bundle recipient) (cr_body random)
         (\<lambda>o'. o'\<lparr>en_messageId := ca_messageId options, en_senderRecovery := senderRecovery,
            en_ephemeralSecretKey := Some ephemeral, en_ephemeralPublicKey := Some ephemeralPublic\<rparr>))))))))))))"

definition createEncryptedPrivateCapsule ::
    "prims \<Rightarrow> (js_string \<Rightarrow> js_string) \<Rightarrow> (js_string \<Rightarrow> js_string \<Rightarrow> bool) \<Rightarrow> signed_bundle \<Rightarrow> messaging_identity
      \<Rightarrow> capsule_options \<Rightarrow> capsule_random \<Rightarrow> (capsule \<times> publish_draft) res" where
  "createEncryptedPrivateCapsule P lower le recipientSignedBundle identity options random =
     andThen (verifySignedPublicKeyBundle P le recipientSignedBundle (Some (to_now (ca_policy options)))) (\<lambda>v.
       createEncryptedPrivateCapsuleForVerifiedRecipient P lower le
         \<lparr>cq_bundle = vb_bundle v, cq_suite = kb_suite (vb_bundle v), cq_contractSuite = kb_contractSuite (vb_bundle v)\<rparr>
         identity options random)"

definition createEncryptedPrivateCapsuleFromPublicBundle ::
    "prims \<Rightarrow> (js_string \<Rightarrow> js_string) \<Rightarrow> (js_string \<Rightarrow> js_string \<Rightarrow> bool) \<Rightarrow> key_bundle \<Rightarrow> messaging_identity
      \<Rightarrow> capsule_options \<Rightarrow> capsule_random \<Rightarrow> (capsule \<times> publish_draft) res" where
  "createEncryptedPrivateCapsuleFromPublicBundle P lower le recipientPublicBundle identity options random =
     andThen (normalizeRecipientBundle P recipientPublicBundle) (\<lambda>r.
       createEncryptedPrivateCapsuleForVerifiedRecipient P lower le
         \<lparr>cq_bundle = recipientPublicBundle, cq_suite = kb_suite (rk_bundle r), cq_contractSuite = kb_contractSuite (rk_bundle r)\<rparr>
         identity options random)"

definition createEncryptedConvCapsule ::
    "prims \<Rightarrow> (js_string \<Rightarrow> js_string) \<Rightarrow> (js_string \<Rightarrow> js_string \<Rightarrow> bool) \<Rightarrow> key_bundle \<Rightarrow> messaging_identity \<Rightarrow> bytes
      \<Rightarrow> capsule_options \<Rightarrow> capsule_random \<Rightarrow> (capsule \<times> publish_draft) res" where
  "createEncryptedConvCapsule P lower le recipientPublicBundle identity bucketKey options random =
     andThen (assertLength bucketKey 32) (\<lambda>bucketKeyBytes.
     andThen (normalizeRecipientBundle P recipientPublicBundle) (\<lambda>r.
     andThen (assertSupportedPrivateSuite (kb_suite (rk_bundle r))) (\<lambda>suite.
       (let cryptoSuite = kb_contractSuite (rk_bundle r); senderRecovery = ca_senderRecovery options \<noteq> Some False in
     andThen (capsule_payload lower (cr_streamId random) options senderRecovery cryptoSuite) (\<lambda>(payloadBytes, sizeClass).
     andThen (aligned_times (ca_times options) (to_now (ca_policy options))) (\<lambda>(createdAt, expiresAt).
     andThen (privateProfilePointer (ca_profileVersion options) (ca_avatarHash options)) (\<lambda>pointer.
       (let header0 = (blank_header0 KIND_CONV PUBLISH_CONV sizeClass cryptoSuite suite)
              \<lparr>h0_bucketKey := Some (U256Text (base64urlEncode bucketKeyBytes))\<rparr>;
            header1 = new_header1 (ca_times options) (cr_clientNonce random) createdAt expiresAt;
            ephemeral = cr_ephemeral random in
     andThen (assertCapsuleTimestampPolicy header1 (ca_policy options)) (\<lambda>_.
       seal_capsule P le identity KIND_CONV header0 header1 pointer payloadBytes recipientPublicBundle (cr_body random)
         (\<lambda>o'. o'\<lparr>en_messageId := ca_messageId options, en_senderRecovery := senderRecovery,
            en_ephemeralSecretKey := Some ephemeral, en_ephemeralPublicKey := Some (p_x25519_public P ephemeral)\<rparr>))))))))))"

section \<open>Verifying\<close>

record verified_capsule =
  vc_capsule :: capsule
  vc_publish :: publish_draft
  vc_bodyBytes :: bytes

definition capsule_kinds :: "js_string list" where "capsule_kinds = [KIND_PRIVATE, KIND_CONV, KIND_INTRO]"

definition verifyEncryptedPrivateCapsule ::
    "prims \<Rightarrow> (js_string \<Rightarrow> js_string \<Rightarrow> bool) \<Rightarrow> capsule \<Rightarrow> timestamp_options \<Rightarrow> verified_capsule res" where
  "verifyEncryptedPrivateCapsule P le c options =
     guard (\<not> (cp_version c \<noteq> 1 \<or> cp_kind c \<notin> set capsule_kinds)) (JsError ''Invalid Platho private capsule'')
     (guard (\<not> (h0_version (cp_header0 c) \<noteq> 1 \<or> h0_kind (cp_header0 c) \<notin> set capsule_kinds)) (JsError ''Invalid Platho private capsule header0'')
     (guard (\<not> cp_kind c \<noteq> h0_kind (cp_header0 c)) (JsError ''Private capsule kind does not match header0 kind'')
     (guard (\<not> h1_version (cp_header1 c) \<noteq> 1) (JsError ''Invalid Platho private capsule header1'')
     (andThen (assertAllowedPrivateCapsulePair (h0_sizeClass (cp_header0 c)) (h0_cryptoSuite (cp_header0 c))) (\<lambda>_.
      andThen (suiteContract (h0_suite (cp_header0 c))) (\<lambda>expectedContractSuite.
      guard (\<not> h0_cryptoSuite (cp_header0 c) \<noteq> expectedContractSuite) (JsError ''Private capsule header suite does not match crypto suite'')
     (andThen (assertCapsuleTimestampPolicy (cp_header1 c) options) (\<lambda>_.
      andThen (computePrivateCapsuleChainCells P (cp_header0 c) (cp_header1 c) (cp_body c)) (\<lambda>cells.
      andThen (assertChainCellPayloadMatches (cp_cell0 c) (hc_header0 cells)) (\<lambda>_.
      andThen (assertChainCellPayloadMatches (cp_cell1 c) (hc_header1 cells)) (\<lambda>_.
      andThen (assertChainCellPayloadMatches (cp_cellb c) (hc_body cells)) (\<lambda>_.
      andThen (privateCapsuleHashesFromChainCells cells) (\<lambda>hashes.
      andThen (assertHashHex (ch_header0Hash (cp_hashes c))) (\<lambda>hash0.
      guard (\<not> ch_header0Hash hashes \<noteq> hash0) (JsError ''Private capsule header0 hash mismatch'')
     (andThen (assertHashHex (ch_header1Hash (cp_hashes c))) (\<lambda>hash1.
      guard (\<not> ch_header1Hash hashes \<noteq> hash1) (JsError ''Private capsule header1 hash mismatch'')
     (andThen (assertHashHex (ch_bodyHash (cp_hashes c))) (\<lambda>hashb.
      guard (\<not> ch_bodyHash hashes \<noteq> hashb) (JsError ''Private capsule body hash mismatch'')
     (andThen (computePrivateCapsuleId P le hashes) (\<lambda>expectedId.
      guard (\<not> cp_id c \<noteq> expectedId) (JsError ''Private capsule id mismatch'')
     (andThen (compactBodyBytesFromCapsuleBody (cp_body c)) (\<lambda>bodyBytes.
      andThen (assertPrivateBodyMatchesHeader (cp_header0 c) bodyBytes) (\<lambda>_.
      andThen (base64urlFixedBytes (cp_senderSignature c) 64) (\<lambda>_.
        (let normalized = c\<lparr>cp_hashes := hashes, cp_cell0 := Some (hc_header0 cells), cp_cell1 := Some (hc_header1 cells),
               cp_cellb := Some (hc_body cells)\<rparr> in
         andThen (privateCapsulePublishDraft normalized) (\<lambda>draft.
           Inr \<lparr>vc_capsule = normalized, vc_publish = draft, vc_bodyBytes = bodyBytes\<rparr>))))))))))))))))))))))))))"

definition verifyPrivateCapsuleSenderSignature ::
    "prims \<Rightarrow> (js_string \<Rightarrow> js_string \<Rightarrow> bool) \<Rightarrow> capsule \<Rightarrow> capsule_identity \<Rightarrow> bytes res" where
  "verifyPrivateCapsuleSenderSignature P le c identity =
     andThen (assertLength (id_signingPublicKey identity) 32) (\<lambda>pk.
     andThen (base64urlFixedBytes (cp_senderSignature c) 64) (\<lambda>signature.
     andThen (privateCapsuleSignaturePayload c (id_profileVersion identity) (id_avatarHash identity)) (\<lambda>payload.
     guard (p_verify P signature (payload_bytes_of le payload) pk) (JsError ''Private capsule sender signature is invalid'')
       (Inr pk))))"

section \<open>Opening\<close>

text \<open>
  A replay cache is what the caller passes, a store with two operations: \<open>has\<close> may also forget, so it
  returns the store, and \<open>add\<close> takes an identifier and the time until which to remember it.
\<close>

record 'c replay_ops =
  rc_has :: "'c \<Rightarrow> js_string \<Rightarrow> bool \<times> 'c"
  rc_add :: "'c \<Rightarrow> js_string \<Rightarrow> js_num \<Rightarrow> 'c"

definition seen_before :: "'c replay_ops \<Rightarrow> 'c option \<Rightarrow> js_string \<Rightarrow> bool \<times> 'c option" where
  "seen_before ops cache cid =
     (case cache of None \<Rightarrow> (False, None) | Some c \<Rightarrow> (let (hit, c') = rc_has ops c cid in (hit, Some c')))"

definition remember :: "'c replay_ops \<Rightarrow> 'c option \<Rightarrow> js_string \<Rightarrow> js_num \<Rightarrow> 'c option" where
  "remember ops cache cid expiresAt = map_option (\<lambda>c. rc_add ops c cid expiresAt) cache"

record opened_capsule =
  oc_payload :: decoded_payload
  oc_plaintext :: js_string
  oc_openedAs :: opened_as
  oc_openedKeyId :: js_string
  oc_capsule :: capsule
  oc_publish :: publish_draft
  oc_senderSigningPublicKey :: bytes
  oc_profileVersion :: int
  oc_avatarHash :: js_string

text \<open>Decryption under the hashes of a verified capsule, as either role.\<close>

definition decrypt_verified ::
    "prims \<Rightarrow> (js_string \<Rightarrow> js_string) \<Rightarrow> verified_capsule \<Rightarrow> key_pair \<Rightarrow> js_string option \<Rightarrow> (opened_body \<times> capsule_identity) res" where
  "decrypt_verified P lower v kp openAsSenderKeyId =
     andThen (decryptCompactBodyBytes P lower (vc_bodyBytes v) kp
        \<lparr>bh_header0Hash = ch_header0Hash (cp_hashes (vc_capsule v)), bh_header1Hash = ch_header1Hash (cp_hashes (vc_capsule v)),
         bh_senderKeyId = (case openAsSenderKeyId of Some k \<Rightarrow> Some k | None \<Rightarrow> h0_senderKeyId (cp_header0 (vc_capsule v)))\<rparr>
        PLATHO_COMPACT_IDENTITY_BYTES) (\<lambda>decrypted.
     case ob_identity decrypted of
       None \<Rightarrow> Inl (JsError ''Private capsule is missing its in-body sender identity section'')
     | Some identity \<Rightarrow> Inr (decrypted, identity))"

definition opened_result :: "verified_capsule \<Rightarrow> opened_body \<Rightarrow> capsule_identity \<Rightarrow> bytes \<Rightarrow> opened_capsule" where
  "opened_result v decrypted identity pk =
     \<lparr>oc_payload = ob_payload decrypted,
      oc_plaintext = (case dp_content (ob_payload decrypted) of DecodedText t \<Rightarrow> t | _ \<Rightarrow> []),
      oc_openedAs = ob_openedAs decrypted, oc_openedKeyId = ob_keyId decrypted, oc_capsule = vc_capsule v, oc_publish = vc_publish v,
      oc_senderSigningPublicKey = pk, oc_profileVersion = id_profileVersion identity, oc_avatarHash = id_avatarHash identity\<rparr>"

definition openEncryptedPrivateCapsule ::
    "prims \<Rightarrow> (js_string \<Rightarrow> js_string) \<Rightarrow> (js_string \<Rightarrow> js_string \<Rightarrow> bool) \<Rightarrow> 'c replay_ops \<Rightarrow> 'c option \<Rightarrow> capsule \<Rightarrow> key_pair
      \<Rightarrow> timestamp_options \<Rightarrow> js_string option \<Rightarrow> opened_capsule res \<times> 'c option" where
  "openEncryptedPrivateCapsule P lower le ops cache c kp options openAsSenderKeyId =
     (case verifyEncryptedPrivateCapsule P le c options of
        Inl e \<Rightarrow> (Inl e, cache)
      | Inr v \<Rightarrow>
          (let (seen, cache') = seen_before ops cache (cp_id (vc_capsule v)) in
           if seen then (Inl (JsError ''Private capsule replay detected''), cache')
           else
             (case andThen (decrypt_verified P lower v kp openAsSenderKeyId) (\<lambda>(decrypted, identity).
                  andThen (verifyPrivateCapsuleSenderSignature P le (vc_capsule v) identity) (\<lambda>pk.
                    Inr (opened_result v decrypted identity pk))) of
                Inl e \<Rightarrow> (Inl e, cache')
              | Inr result \<Rightarrow> (Inr result, remember ops cache' (cp_id (vc_capsule v)) (h1_expiresAt (cp_header1 (vc_capsule v)))))))"

section \<open>The entry on chain\<close>

record chain_entry =
  ce_exists :: bool
  ce_header_0_boc :: boc_like
  ce_header_1_boc :: boc_like
  ce_body_boc :: boc_like
  ce_size_class :: "int option"
  ce_crypto_suite :: "int option"
  ce_header_0_hash :: "int option"
  ce_header_1_hash :: "int option"
  ce_body_hash :: "int option"

definition bigintHex256 :: "int \<Rightarrow> js_string res" where
  "bigintHex256 value =
     guard (\<not> (value < 0 \<or> value \<ge> 2 ^ 256)) (JsError ''uint256 value is out of range'') (Inr (hex256 (be_bytes 32 (nat value))))"

definition entryHashHex :: "int option \<Rightarrow> js_string option res" where
  "entryHashHex v = (case v of None \<Rightarrow> Inr None | Some i \<Rightarrow> andThen (bigintHex256 i) (\<lambda>s. Inr (Some s)))"

definition check_entry_hash :: "js_string option \<Rightarrow> js_string \<Rightarrow> unit res" where
  "check_entry_hash expected actual =
     guard (\<not> (expected \<noteq> None \<and> Some actual \<noteq> expected)) (JsError ''Private chain entry hash mismatch'') (Inr ())"

definition privateCapsuleFromChainEntry ::
    "prims \<Rightarrow> (js_string \<Rightarrow> js_string \<Rightarrow> bool) \<Rightarrow> chain_entry \<Rightarrow> timestamp_options \<Rightarrow> verified_capsule res" where
  "privateCapsuleFromChainEntry P le entry options =
     guard (ce_exists entry) (JsError ''Private chain entry does not exist'')
     (andThen (snakeBytesFromBoc (ce_header_0_boc entry)) (\<lambda>bytes0.
      andThen (snakeBytesFromBoc (ce_header_1_boc entry)) (\<lambda>bytes1.
      andThen (snakeBytesFromBoc (ce_body_boc entry)) (\<lambda>bodyBytes.
      andThen (capsuleHeader0ObjectFromBytes bytes0) (\<lambda>header0.
      andThen (privateCapsuleHeader1ObjectFromBytes bytes1) (\<lambda>header1.
      andThen (compactBodyObjectFromBytes bodyBytes) (\<lambda>body.
      guard (\<not> (case ce_size_class entry of Some s \<Rightarrow> s \<noteq> h0_sizeClass header0 | None \<Rightarrow> False)) (JsError ''Private chain entry size class mismatch'')
     (guard (\<not> (case ce_crypto_suite entry of Some s \<Rightarrow> s \<noteq> h0_cryptoSuite header0 | None \<Rightarrow> False)) (JsError ''Private chain entry crypto suite mismatch'')
     (andThen (assertCapsuleTimestampPolicy header1 (options\<lparr>to_enforceExpiry := Some (or_default (to_enforceExpiry options) False)\<rparr>)) (\<lambda>_.
      andThen (assertPrivateBodyMatchesHeader header0 bodyBytes) (\<lambda>_.
      andThen (computePrivateCapsuleChainCells P header0 header1 body) (\<lambda>cells.
      andThen (privateCapsuleHashesFromChainCells cells) (\<lambda>hashes.
      andThen (entryHashHex (ce_header_0_hash entry)) (\<lambda>expected0.
      andThen (entryHashHex (ce_header_1_hash entry)) (\<lambda>expected1.
      andThen (entryHashHex (ce_body_hash entry)) (\<lambda>expectedb.
      andThen (check_entry_hash expected0 (ch_header0Hash hashes)) (\<lambda>_.
      andThen (check_entry_hash expected1 (ch_header1Hash hashes)) (\<lambda>_.
      andThen (check_entry_hash expectedb (ch_bodyHash hashes)) (\<lambda>_.
      andThen (computePrivateCapsuleId P le hashes) (\<lambda>id.
        (let c = \<lparr>cp_version = 1, cp_kind = h0_kind header0, cp_id = id, cp_header0 = header0, cp_header1 = header1, cp_body = body,
               cp_hashes = hashes, cp_cell0 = Some (hc_header0 cells), cp_cell1 = Some (hc_header1 cells), cp_cellb = Some (hc_body cells),
               cp_senderSignature = None\<rparr> in
         andThen (privateCapsulePublishDraft c) (\<lambda>draft.
           Inr \<lparr>vc_capsule = c, vc_publish = draft, vc_bodyBytes = bodyBytes\<rparr>))))))))))))))))))))))"

definition openPrivateCapsuleChainEntry ::
    "prims \<Rightarrow> (js_string \<Rightarrow> js_string) \<Rightarrow> (js_string \<Rightarrow> js_string \<Rightarrow> bool) \<Rightarrow> 'c replay_ops \<Rightarrow> 'c option \<Rightarrow> chain_entry \<Rightarrow> key_pair
      \<Rightarrow> timestamp_options \<Rightarrow> js_string option \<Rightarrow> opened_capsule res \<times> 'c option" where
  "openPrivateCapsuleChainEntry P lower le ops cache entry kp options openAsSenderKeyId =
     (case privateCapsuleFromChainEntry P le entry options of
        Inl e \<Rightarrow> (Inl e, cache)
      | Inr v \<Rightarrow>
          (let (seen, cache') = seen_before ops cache (cp_id (vc_capsule v)) in
           if seen then (Inl (JsError ''Private capsule replay detected''), cache')
           else
             (case andThen (decrypt_verified P lower v kp openAsSenderKeyId) (\<lambda>(decrypted, identity).
                  andThen (assertLength (id_signingPublicKey identity) 32) (\<lambda>pk.
                    Inr (opened_result v decrypted identity pk))) of
                Inl e \<Rightarrow> (Inl e, cache')
              | Inr result \<Rightarrow> (Inr result, remember ops cache' (cp_id (vc_capsule v)) (h1_expiresAt (cp_header1 (vc_capsule v)))))))"

section \<open>Cells of bounded size\<close>

lemma cell_payload_made:
  assumes "length bytes \<le> maxBytes" "maxBytes \<le> 1024 * 127"
  shows "\<exists>p d. cell_payload P bytes maxBytes = Inr p \<and> snakeBytesFromBoc (BocText (cc_boc p)) = Inr bytes
    \<and> tree_hash (p_sha256 P) (snake_of (splitSnakeCellChunks bytes)) = Inr (d, cc_refs p) \<and> cc_hash p = hex256 d"
  using snake_payload_made [of bytes maxBytes _ "p_sha256 P", OF _ _ refl] assms by (fastforce simp: cell_payload_def)

lemma cell_payload_refused: "maxBytes < length bytes \<Longrightarrow> cell_payload P bytes maxBytes = Inl (JsError ''exceeds on-chain payload cap'')"
  by (simp add: cell_payload_def createSnakeCellPayload_def)

lemma cell_payload_Inr:
  assumes "cell_payload P bytes maxBytes = Inr p" "maxBytes \<le> 1024 * 127"
  shows "length bytes \<le> maxBytes \<and> snakeBytesFromBoc (BocText (cc_boc p)) = Inr bytes
    \<and> (\<exists>d. tree_hash (p_sha256 P) (snake_of (splitSnakeCellChunks bytes)) = Inr (d, cc_refs p) \<and> cc_hash p = hex256 d)"
proof -
  have l: "length bytes \<le> maxBytes" using assms(1) cell_payload_refused [of maxBytes bytes P] by (cases "maxBytes < length bytes") auto
  with cell_payload_made [OF l assms(2), of P] assms(1) show ?thesis by auto
qed

lemma onchain_caps: "PLATHO_ONCHAIN_HEADER_MAX_BYTES \<le> 1024 * 127" "PLATHO_ONCHAIN_BODY_MAX_BYTES \<le> 1024 * 127"
  by (simp_all add: PLATHO_ONCHAIN_HEADER_MAX_BYTES_def PLATHO_ONCHAIN_BODY_MAX_BYTES_def)

lemma chain_cells_Inr:
  "computePrivateCapsuleChainCells P h0 h1 body = Inr cells \<longleftrightarrow>
    (\<exists>bytes0 bytes1 bodyBytes. capsuleHeader0Bytes h0 = Inr bytes0 \<and> privateCapsuleHeader1Bytes h1 = Inr bytes1
      \<and> privateCapsuleBodyBytes body = Inr bodyBytes
      \<and> cell_payload P bytes0 PLATHO_ONCHAIN_HEADER_MAX_BYTES = Inr (hc_header0 cells)
      \<and> cell_payload P bytes1 PLATHO_ONCHAIN_HEADER_MAX_BYTES = Inr (hc_header1 cells)
      \<and> cell_payload P bodyBytes PLATHO_ONCHAIN_BODY_MAX_BYTES = Inr (hc_body cells))"
  by (auto simp: computePrivateCapsuleChainCells_def res_simps)

lemma header0_fields:
  assumes "capsuleHeader0Bytes h = Inr bytes"
  shows "h0_version h = 1" "h0_sizeClass h \<in> {1, 2, 4, 8, 16, 32}" "h0_cryptoSuite h = 2" "h0_suite h = HYBRID_V1"
    "h0_kind h \<noteq> KIND_CONV \<Longrightarrow> h0_kind h \<noteq> KIND_INTRO \<Longrightarrow> h0_kind h = KIND_PRIVATE"
  using assms by (auto simp: capsuleHeader0Bytes_def convCapsuleHeader0Bytes_def introCapsuleHeader0Bytes_def privateCapsuleHeader0Bytes_def
      res_simps header0_start_Inr split: if_splits)

lemma allowed_pair: "h \<in> {1, 2, 4, 8, 16, 32} \<Longrightarrow> assertAllowedPrivateCapsulePair h 2 = Inr ()"
  by (auto simp: assertAllowedPrivateCapsulePair_def Let_def CAPSULE_SIZE_CLASS_def CONTRACT_HYBRID_def)

lemma body_object_layout: "compactBodyObjectFromBytes bytes = Inr body \<Longrightarrow> privateCapsuleBodyBytes body = Inr bytes"
  using body_object_back [of bytes body]
  by (auto simp: privateCapsuleBodyBytes_def compactBodyObjectFromBytes_def res_simps)

lemma cells_match [simp]: "assertChainCellPayloadMatches (Some c) c = Inr ()"
  by (simp add: assertChainCellPayloadMatches_def)

lemma signature_payload_ignores [simp]:
  "privateCapsuleSignaturePayload (c\<lparr>cp_senderSignature := s\<rparr>) v a = privateCapsuleSignaturePayload c v a"
  by (simp add: privateCapsuleSignaturePayload_def)

section \<open>A sealed capsule verifies\<close>

text \<open>What sealing has computed.\<close>

definition sealed_with ::
    "prims \<Rightarrow> (js_string \<Rightarrow> js_string \<Rightarrow> bool) \<Rightarrow> messaging_identity \<Rightarrow> capsule_header0 \<Rightarrow> capsule_header1 \<Rightarrow> int \<times> bytes
      \<Rightarrow> bytes \<Rightarrow> key_bundle \<Rightarrow> body_random \<Rightarrow> (body_options \<Rightarrow> body_options) \<Rightarrow> capsule \<Rightarrow> publish_draft \<Rightarrow> bytes \<Rightarrow> bytes \<Rightarrow> body_options \<Rightarrow> bool" where
  "sealed_with P le identity header0 header1 pointer payloadBytes bundle random extra c draft identityBytes bodyBytes options \<longleftrightarrow>
     privateCapsuleIdentityBytes (mi_signingPublicKey identity) (Some (fst pointer)) (snd pointer) = Inr identityBytes
     \<and> options = extra \<lparr>en_hashes = \<lparr>bh_header0Hash = ch_header0Hash (cp_hashes c), bh_header1Hash = ch_header1Hash (cp_hashes c),
              bh_senderKeyId = Some (kp_keyId (mi_encryptionKeyPair identity))\<rparr>,
            en_messageId = None, en_ephemeralSecretKey = None, en_ephemeralPublicKey = None, en_identityBytes = Some identityBytes,
            en_mlKemEncapsulation = None, en_senderRecovery = True, en_senderKeyPair = Some (mi_encryptionKeyPair identity)\<rparr>
     \<and> encryptCompactPayloadBytes P random payloadBytes bundle options = Inr bodyBytes
     \<and> assertPrivateBodyMatchesHeader header0 bodyBytes = Inr () \<and> compactBodyObjectFromBytes bodyBytes = Inr (cp_body c)
     \<and> (\<exists>cells. computePrivateCapsuleChainCells P header0 header1 (cp_body c) = Inr cells
          \<and> privateCapsuleHashesFromChainCells cells = Inr (cp_hashes c) \<and> cp_cell0 c = Some (hc_header0 cells)
          \<and> cp_cell1 c = Some (hc_header1 cells) \<and> cp_cellb c = Some (hc_body cells))
     \<and> computePrivateCapsuleId P le (cp_hashes c) = Inr (cp_id c)
     \<and> cp_version c = 1 \<and> cp_header0 c = header0 \<and> cp_header1 c = header1
     \<and> (\<exists>payload. privateCapsuleSignaturePayload c (fst pointer) (hex256 (snd pointer)) = Inr payload
          \<and> cp_senderSignature c = Some (base64urlEncode (p_sign P (payload_bytes_of le payload) (mi_signingSecretKey identity)))
          \<and> length (p_sign P (payload_bytes_of le payload) (mi_signingSecretKey identity)) = 64)
     \<and> privateCapsulePublishDraft c = Inr draft"

lemma header_hashes_same:
  assumes "computePrivateCapsuleHeaderHashes P h0 h1 = Inr (x, y)" "computePrivateCapsuleChainCells P h0 h1 body = Inr cells"
    "privateCapsuleHashesFromChainCells cells = Inr hashes"
  shows "ch_header0Hash hashes = x" "ch_header1Hash hashes = y"
  using assms by (auto simp: computePrivateCapsuleHeaderHashes_def chain_cells_Inr privateCapsuleHashesFromChainCells_def res_simps)

lemma seal_capsule_Inr:
  assumes "seal_capsule P le identity kind header0 header1 pointer payloadBytes bundle random extra = Inr (c, draft)"
  shows "\<exists>identityBytes bodyBytes options. sealed_with P le identity header0 header1 pointer payloadBytes bundle random extra c draft
      identityBytes bodyBytes options \<and> cp_kind c = kind"
proof -
  obtain identityBytes hash0 hash1 bodyBytes body cells hashes cid unsigned payload signature u where
    x: "privateCapsuleIdentityBytes (mi_signingPublicKey identity) (Some (fst pointer)) (snd pointer) = Inr identityBytes"
      "computePrivateCapsuleHeaderHashes P header0 header1 = Inr (hash0, hash1)"
      "encryptCompactPayloadBytes P random payloadBytes bundle
         (extra \<lparr>en_hashes = \<lparr>bh_header0Hash = hash0, bh_header1Hash = hash1, bh_senderKeyId = Some (kp_keyId (mi_encryptionKeyPair identity))\<rparr>,
            en_messageId = None, en_ephemeralSecretKey = None, en_ephemeralPublicKey = None, en_identityBytes = Some identityBytes,
            en_mlKemEncapsulation = None, en_senderRecovery = True, en_senderKeyPair = Some (mi_encryptionKeyPair identity)\<rparr>) = Inr bodyBytes"
      "assertPrivateBodyMatchesHeader header0 bodyBytes = Inr u" "compactBodyObjectFromBytes bodyBytes = Inr body"
      "computePrivateCapsuleChainCells P header0 header1 body = Inr cells" "privateCapsuleHashesFromChainCells cells = Inr hashes"
      "computePrivateCapsuleId P le hashes = Inr cid"
    and c: "unsigned = \<lparr>cp_version = 1, cp_kind = kind, cp_id = cid, cp_header0 = header0, cp_header1 = header1, cp_body = body,
              cp_hashes = hashes, cp_cell0 = Some (hc_header0 cells), cp_cell1 = Some (hc_header1 cells), cp_cellb = Some (hc_body cells),
              cp_senderSignature = None\<rparr>"
      "privateCapsuleSignaturePayload unsigned (fst pointer) (hex256 (snd pointer)) = Inr payload"
      "signature = p_sign P (payload_bytes_of le payload) (mi_signingSecretKey identity)" "length signature = 64"
      "c = unsigned\<lparr>cp_senderSignature := Some (base64urlEncode signature)\<rparr>" "privateCapsulePublishDraft c = Inr draft"
    using assms unfolding seal_capsule_def Let_def res_simps by (auto simp: res_simps)
  note hs = header_hashes_same [OF x(2,6,7)]
  have "c = \<lparr>cp_version = 1, cp_kind = kind, cp_id = cid, cp_header0 = header0, cp_header1 = header1, cp_body = body,
              cp_hashes = hashes, cp_cell0 = Some (hc_header0 cells), cp_cell1 = Some (hc_header1 cells), cp_cellb = Some (hc_body cells),
              cp_senderSignature = Some (base64urlEncode signature)\<rparr>"
    by (simp add: c(1,5))
  then have f: "cp_version c = 1" "cp_kind c = kind" "cp_id c = cid" "cp_header0 c = header0" "cp_header1 c = header1" "cp_body c = body"
      "cp_hashes c = hashes" "cp_cell0 c = Some (hc_header0 cells)" "cp_cell1 c = Some (hc_header1 cells)" "cp_cellb c = Some (hc_body cells)"
      "cp_senderSignature c = Some (base64urlEncode signature)"
    by simp_all
  have p: "privateCapsuleSignaturePayload c (fst pointer) (hex256 (snd pointer)) = Inr payload" using c(2) by (simp add: c(5))
  show ?thesis
    unfolding sealed_with_def f using x c(3,4,6) p f(2) hs
    by (intro exI [of _ identityBytes] exI [of _ bodyBytes] exI conjI refl) (auto simp: f)
qed

lemma sealed_verifies:
  assumes s: "sealed_with P le identity header0 header1 pointer payloadBytes bundle random extra c draft identityBytes bodyBytes options"
    and k: "cp_kind c = h0_kind header0" "h0_kind header0 \<in> set capsule_kinds" "h1_version header1 = 1"
    and t: "assertCapsuleTimestampPolicy header1 later = Inr ()"
  shows "verifyEncryptedPrivateCapsule P le c later = Inr \<lparr>vc_capsule = c, vc_publish = draft, vc_bodyBytes = bodyBytes\<rparr>"
proof -
  obtain cells payload where x: "assertPrivateBodyMatchesHeader header0 bodyBytes = Inr ()" "compactBodyObjectFromBytes bodyBytes = Inr (cp_body c)"
      "computePrivateCapsuleChainCells P header0 header1 (cp_body c) = Inr cells" "privateCapsuleHashesFromChainCells cells = Inr (cp_hashes c)"
      "cp_cell0 c = Some (hc_header0 cells)" "cp_cell1 c = Some (hc_header1 cells)" "cp_cellb c = Some (hc_body cells)"
      "computePrivateCapsuleId P le (cp_hashes c) = Inr (cp_id c)" "cp_version c = 1" "cp_header0 c = header0" "cp_header1 c = header1"
      "cp_senderSignature c = Some (base64urlEncode (p_sign P (payload_bytes_of le payload) (mi_signingSecretKey identity)))"
      "length (p_sign P (payload_bytes_of le payload) (mi_signingSecretKey identity)) = 64" "privateCapsulePublishDraft c = Inr draft"
    using s unfolding sealed_with_def by blast
  obtain b0 where "capsuleHeader0Bytes header0 = Inr b0" using x(3) by (auto simp: chain_cells_Inr)
  note h = header0_fields(1-4) [OF this]
  have hs: "assertHashHex (ch_header0Hash (cp_hashes c)) = Inr (ch_header0Hash (cp_hashes c))"
      "assertHashHex (ch_header1Hash (cp_hashes c)) = Inr (ch_header1Hash (cp_hashes c))"
      "assertHashHex (ch_bodyHash (cp_hashes c)) = Inr (ch_bodyHash (cp_hashes c))"
    using x(8) by (auto simp: computePrivateCapsuleId_def res_simps assertHashHex_def)
  have same: "c\<lparr>cp_cell0 := Some (hc_header0 cells), cp_cell1 := Some (hc_header1 cells), cp_cellb := Some (hc_body cells)\<rparr> = c"
    using x(5-7) by simp
  have sc: "suiteContract HYBRID_V1 = Inr 2" by (simp add: suiteContract_def CONTRACT_HYBRID_def)
  have bl: "base64urlFixedBytes (cp_senderSignature c) 64 = Inr (p_sign P (payload_bytes_of le payload) (mi_signingSecretKey identity))"
    using x(12,13) by (simp add: assertLength_def)
  show ?thesis
    unfolding verifyEncryptedPrivateCapsule_def x(10,11)
    using k h(1) t by (simp add: x(9) h(3,4) allowed_pair [OF h(2)] sc x(3,4) x(5-7) hs x(8) body_object_back [OF x(2)] x(1) bl Let_def same x(14))
qed

section \<open>What is sealed is opened\<close>

lemma identity_section_back:
  assumes "privateCapsuleIdentityBytes pk (Some v) avatar = Inr bs"
  shows "privateCapsuleIdentityFromBytes bs = Inr \<lparr>id_signingPublicKey = pk, id_profileVersion = v, id_avatarHash = hex256 avatar\<rparr>"
    "length pk = 32"
proof -
  obtain version where x: "length pk = 32" "0 \<le> v" "v < 4294967296" "version = be_bytes 4 (nat v)" "length avatar = 32" "bs = pk @ version @ avatar"
    using assms by (auto simp: privateCapsuleIdentityBytes_def res_simps Let_def or_default_def uint32Bytes_Inr simp del: be_bytes.simps)
  show "length pk = 32" by (rule x(1))
  have r: "readUint32 bs 32 = Inr (nat v)" using x by (intro readUint32_at [of bs pk _ avatar]) (simp_all del: be_bytes.simps)
  have "length version = 4" by (simp only: x(4) length_be_bytes)
  then have "slice 0 32 bs = pk" "slice 36 68 bs = avatar" "length bs = 68"
    using x(1,5) by (simp_all add: x(6) slice_def)
  then show "privateCapsuleIdentityFromBytes bs = Inr \<lparr>id_signingPublicKey = pk, id_profileVersion = v, id_avatarHash = hex256 avatar\<rparr>"
    using r x(2) by (simp add: privateCapsuleIdentityFromBytes_def assertLength_def PLATHO_COMPACT_IDENTITY_BYTES_def)
qed

definition honest_random :: "capsule_random \<Rightarrow> bool" where
  "honest_random random \<longleftrightarrow> length (cr_ephemeral random) = 32 \<and> length (rn_nonce (cr_body random)) = 12
     \<and> length (rn_messageId (cr_body random)) = 16 \<and> length (rn_ephemeral (cr_body random)) = 32 \<and> length (rn_recoveryNonce (cr_body random)) = 12"

text \<open>The options both create functions pass to \<open>encryptCompactPayloadBytes\<close>.\<close>

definition create_extra :: "prims \<Rightarrow> capsule_options \<Rightarrow> bytes \<Rightarrow> bool \<Rightarrow> body_options \<Rightarrow> body_options" where
  "create_extra P options ephemeral senderRecovery o' = o'\<lparr>en_messageId := ca_messageId options, en_senderRecovery := senderRecovery,
     en_ephemeralSecretKey := Some ephemeral, en_ephemeralPublicKey := Some (p_x25519_public P ephemeral)\<rparr>"

text \<open>The two ways a capsule is created, and what they have in common.\<close>

definition created ::
    "prims \<Rightarrow> (js_string \<Rightarrow> js_string) \<Rightarrow> (js_string \<Rightarrow> js_string \<Rightarrow> bool) \<Rightarrow> key_bundle \<Rightarrow> messaging_identity \<Rightarrow> bytes option
      \<Rightarrow> capsule_options \<Rightarrow> capsule_random \<Rightarrow> (capsule \<times> publish_draft) res" where
  "created P lower le bundle identity bucketKey options random =
     (case bucketKey of
        None \<Rightarrow> createEncryptedPrivateCapsuleFromPublicBundle P lower le bundle identity options random
      | Some key \<Rightarrow> createEncryptedConvCapsule P lower le bundle identity key options random)"

lemma created_Inr:
  assumes "created P lower le b identity bucketKey options random = Inr (c, draft)" "normalizeRecipientBundle P b = Inr r"
  shows "\<exists>header0 header1 pointer payload sizeClass identityBytes bodyBytes o' recover.
    recover = (ca_senderRecovery options \<noteq> Some False)
    \<and> capsule_payload lower (cr_streamId random) options recover (kb_contractSuite (rk_bundle r)) = Inr (payload, sizeClass)
    \<and> privateProfilePointer (ca_profileVersion options) (ca_avatarHash options) = Inr pointer
    \<and> sealed_with P le identity header0 header1 pointer payload b (cr_body random) (create_extra P options (cr_ephemeral random) recover) c draft
        identityBytes bodyBytes o'
    \<and> cp_kind c = h0_kind header0 \<and> h0_kind header0 = (if bucketKey = None then KIND_PRIVATE else KIND_CONV) \<and> h1_version header1 = 1
    \<and> h0_senderKeyId header0 = (if bucketKey = None then Some (kp_keyId (mi_encryptionKeyPair identity)) else None)"
proof (cases bucketKey)
  case None
  obtain payload sizeClass createdAt expiresAt pointer scan viewTag where x:
      "capsule_payload lower (cr_streamId random) options (ca_senderRecovery options \<noteq> Some False) (kb_contractSuite (rk_bundle r)) = Inr (payload, sizeClass)"
      "privateProfilePointer (ca_profileVersion options) (ca_avatarHash options) = Inr pointer"
      "seal_capsule P le identity KIND_PRIVATE
         ((blank_header0 KIND_PRIVATE PUBLISH_PRIVATE sizeClass (kb_contractSuite (rk_bundle r)) (kb_suite (rk_bundle r)))
              \<lparr>h0_senderKeyId := Some (kp_keyId (mi_encryptionKeyPair identity)),
               h0_ephemeralScanPub := Some (base64urlEncode (p_x25519_public P (cr_ephemeral random))), h0_viewTag := Some (int viewTag)\<rparr>)
         (new_header1 (ca_times options) (cr_clientNonce random) createdAt expiresAt) pointer payload b (cr_body random)
         (create_extra P options (cr_ephemeral random) (ca_senderRecovery options \<noteq> Some False)) = Inr (c, draft)"
    using assms None
    by (auto simp: created_def createEncryptedPrivateCapsuleFromPublicBundle_def createEncryptedPrivateCapsuleForVerifiedRecipient_def
        res_simps Let_def assertSupportedPrivateSuite_def create_extra_def [abs_def] split: option.splits)
  from seal_capsule_Inr [OF x(3)] x(1,2) None show ?thesis
    by (fastforce simp: blank_header0_def new_header1_def)
next
  case (Some key)
  obtain payload sizeClass createdAt expiresAt pointer where x:
      "capsule_payload lower (cr_streamId random) options (ca_senderRecovery options \<noteq> Some False) (kb_contractSuite (rk_bundle r)) = Inr (payload, sizeClass)"
      "privateProfilePointer (ca_profileVersion options) (ca_avatarHash options) = Inr pointer"
      "seal_capsule P le identity KIND_CONV
         ((blank_header0 KIND_CONV PUBLISH_CONV sizeClass (kb_contractSuite (rk_bundle r)) (kb_suite (rk_bundle r)))
              \<lparr>h0_bucketKey := Some (U256Text (base64urlEncode key))\<rparr>)
         (new_header1 (ca_times options) (cr_clientNonce random) createdAt expiresAt) pointer payload b (cr_body random)
         (create_extra P options (cr_ephemeral random) (ca_senderRecovery options \<noteq> Some False)) = Inr (c, draft)"
    using assms Some
    by (auto simp: created_def createEncryptedConvCapsule_def
        res_simps Let_def assertSupportedPrivateSuite_def create_extra_def [abs_def] split: option.splits)
  from seal_capsule_Inr [OF x(3)] x(1,2) Some show ?thesis
    by (fastforce simp: blank_header0_def new_header1_def)
qed

lemma honest_create:
  assumes "honest_random random" "sealed_with P le identity header0 header1 pointer plain b (cr_body random)
      (create_extra P options (cr_ephemeral random) recover) c draft identityBytes bodyBytes o'"
  shows "honest_options P r o' (cr_body random)" "en_identityBytes o' = Some identityBytes"
    "en_senderRecovery o' = recover" "en_senderKeyPair o' = Some (mi_encryptionKeyPair identity)"
    "bh_senderKeyId (en_hashes o') = Some (kp_keyId (mi_encryptionKeyPair identity))"
    "bh_header0Hash (en_hashes o') = ch_header0Hash (cp_hashes c)" "bh_header1Hash (en_hashes o') = ch_header1Hash (cp_hashes c)"
  using assms by (auto simp: honest_options_def honest_random_def sealed_with_def create_extra_def or_default_def)

text \<open>Whatever further options the create function passes on, as long as they are honest.\<close>

lemma options_decrypt:
  assumes P: "crypto_laws P" and kp: "key_pair_ok P kp" "kp_x25519SecretKey kp = Some sk" "length sk = 32" "exportPublicKeyBundle kp = Inr b"
    and r: "normalizeRecipientBundle P b = Inr r"
    and s: "sealed_with P le identity header0 header1 pointer plain b random extra c draft identityBytes bodyBytes o'"
    and h: "honest_options P r o' random" "en_identityBytes o' = Some identityBytes"
      "en_senderRecovery o' = recover" "en_senderKeyPair o' = Some (mi_encryptionKeyPair identity)"
      "bh_senderKeyId (en_hashes o') = Some (kp_keyId (mi_encryptionKeyPair identity))"
      "bh_header0Hash (en_hashes o') = ch_header0Hash (cp_hashes c)" "bh_header1Hash (en_hashes o') = ch_header1Hash (cp_hashes c)"
    and dp: "decodeCompactPayloadBytesInner lower plain (Some (int (compactPayloadReservedTailBytes recover))) = Inr dp"
    and v: "cp_hashes (vc_capsule v) = cp_hashes c" "vc_bodyBytes v = bodyBytes"
    and k: "sender = (case own of Some k \<Rightarrow> Some k | None \<Rightarrow> h0_senderKeyId (cp_header0 (vc_capsule v)))"
    and i: "ident = \<lparr>id_signingPublicKey = mi_signingPublicKey identity, id_profileVersion = fst pointer, id_avatarHash = hex256 (snd pointer)\<rparr>"
  shows "sender \<noteq> Some (kp_keyId kp) \<Longrightarrow> decrypt_verified P lower v kp own = Inr (\<lparr>ob_payload = dp, ob_identity = Some ident,
        ob_openedAs = AsRecipient, ob_keyId = kp_keyId kp\<rparr>, ident)"
    and "recover \<Longrightarrow> sender = Some (kp_keyId (mi_encryptionKeyPair identity)) \<Longrightarrow>
      decrypt_verified P lower v (mi_encryptionKeyPair identity) own = Inr (\<lparr>ob_payload = dp, ob_identity = Some ident,
        ob_openedAs = AsSender, ob_keyId = kp_keyId (mi_encryptionKeyPair identity)\<rparr>, ident)"
proof -
  have e: "encryptCompactPayloadBytes P random plain b o' = Inr bodyBytes"
    and ib: "privateCapsuleIdentityBytes (mi_signingPublicKey identity) (Some (fst pointer)) (snd pointer) = Inr identityBytes"
    using s unfolding sealed_with_def by blast+
  have rec: "recover = (en_senderRecovery o' \<and> en_senderKeyPair o' \<noteq> None)" using h(3,4) by simp
  note b = body_opens_aux [OF P kp r h(1) e h(2) identity_section_back(1) [OF ib] rec dp,
      of "\<lparr>bh_header0Hash = ch_header0Hash (cp_hashes c), bh_header1Hash = ch_header1Hash (cp_hashes c), bh_senderKeyId = sender\<rparr>"]
  show "sender \<noteq> Some (kp_keyId kp) \<Longrightarrow> decrypt_verified P lower v kp own = Inr (\<lparr>ob_payload = dp, ob_identity = Some ident,
        ob_openedAs = AsRecipient, ob_keyId = kp_keyId kp\<rparr>, ident)"
    using b(1) h(6,7) by (simp add: decrypt_verified_def v k [symmetric] i)
  show "recover \<Longrightarrow> sender = Some (kp_keyId (mi_encryptionKeyPair identity)) \<Longrightarrow>
      decrypt_verified P lower v (mi_encryptionKeyPair identity) own = Inr (\<lparr>ob_payload = dp, ob_identity = Some ident,
        ob_openedAs = AsSender, ob_keyId = kp_keyId (mi_encryptionKeyPair identity)\<rparr>, ident)"
    using b(2) [of "mi_encryptionKeyPair identity"] h(4-7) by (simp add: decrypt_verified_def v k [symmetric] i)
qed

lemma sealed_decrypts:
  assumes P: "crypto_laws P" and kp: "key_pair_ok P kp" "kp_x25519SecretKey kp = Some sk" "length sk = 32" "exportPublicKeyBundle kp = Inr b"
    and r: "normalizeRecipientBundle P b = Inr r" and rn: "honest_random random"
    and s: "sealed_with P le identity header0 header1 pointer plain b (cr_body random)
      (create_extra P options (cr_ephemeral random) recover) c draft identityBytes bodyBytes o'"
    and dp: "decodeCompactPayloadBytesInner lower plain (Some (int (compactPayloadReservedTailBytes recover))) = Inr dp"
    and v: "cp_hashes (vc_capsule v) = cp_hashes c" "vc_bodyBytes v = bodyBytes"
    and k: "sender = (case own of Some k \<Rightarrow> Some k | None \<Rightarrow> h0_senderKeyId (cp_header0 (vc_capsule v)))"
    and i: "ident = \<lparr>id_signingPublicKey = mi_signingPublicKey identity, id_profileVersion = fst pointer, id_avatarHash = hex256 (snd pointer)\<rparr>"
  shows "sender \<noteq> Some (kp_keyId kp) \<Longrightarrow> decrypt_verified P lower v kp own = Inr (\<lparr>ob_payload = dp, ob_identity = Some ident,
        ob_openedAs = AsRecipient, ob_keyId = kp_keyId kp\<rparr>, ident)"
    and "recover \<Longrightarrow> sender = Some (kp_keyId (mi_encryptionKeyPair identity)) \<Longrightarrow>
      decrypt_verified P lower v (mi_encryptionKeyPair identity) own = Inr (\<lparr>ob_payload = dp, ob_identity = Some ident,
        ob_openedAs = AsSender, ob_keyId = kp_keyId (mi_encryptionKeyPair identity)\<rparr>, ident)"
  by (rule options_decrypt [OF P kp r s honest_create [OF rn s] dp v k i]; assumption)+

lemma sealed_signature:
  assumes "signature_laws P" "mi_signingPublicKey identity = p_ed_public P (mi_signingSecretKey identity)"
    and "sealed_with P le identity header0 header1 pointer plain b rnd extra c draft identityBytes bodyBytes o'"
    and i: "ident = \<lparr>id_signingPublicKey = mi_signingPublicKey identity, id_profileVersion = fst pointer, id_avatarHash = hex256 (snd pointer)\<rparr>"
  shows "verifyPrivateCapsuleSenderSignature P le c ident = Inr (mi_signingPublicKey identity)"
proof -
  obtain pl where p: "privateCapsuleSignaturePayload c (fst pointer) (hex256 (snd pointer)) = Inr pl"
      "cp_senderSignature c = Some (base64urlEncode (p_sign P (payload_bytes_of le pl) (mi_signingSecretKey identity)))"
      "length (p_sign P (payload_bytes_of le pl) (mi_signingSecretKey identity)) = 64"
    using assms(3) unfolding sealed_with_def by blast
  have "length (mi_signingPublicKey identity) = 32" using assms(1,2) by (simp add: signature_laws_def)
  then show ?thesis using p assms(1,2)
    by (simp add: verifyPrivateCapsuleSenderSignature_def i assertLength_def signature_laws_def)
qed

section \<open>The entry the draft becomes\<close>

text \<open>What the contract stores of a published draft: the three cells and the hashes of them.\<close>

definition hash_value :: "js_string \<Rightarrow> int" where
  "hash_value h = int (be_value (hex_bytes (drop 2 h)))"

definition entry_of_draft :: "publish_draft \<Rightarrow> chain_entry" where
  "entry_of_draft d = \<lparr>ce_exists = True, ce_header_0_boc = BocText (cc_boc (pd_header_0_cell d)),
     ce_header_1_boc = BocText (cc_boc (pd_header_1_cell d)), ce_body_boc = BocText (cc_boc (pd_body_cell d)),
     ce_size_class = Some (pd_size_class d), ce_crypto_suite = Some (pd_crypto_suite d),
     ce_header_0_hash = Some (hash_value (pd_header_0_hash d)), ce_header_1_hash = Some (hash_value (pd_header_1_hash d)),
     ce_body_hash = Some (hash_value (pd_body_hash d))\<rparr>"

lemma hash_value_back:
  assumes "assertHashHex h = Inr h'"
  shows "entryHashHex (Some (hash_value h)) = Inr (Some h)"
proof -
  have h: "take 2 h = [48, 120]" "length (drop 2 h) = 64" "\<forall>c \<in> set (drop 2 h). is_hex_lower c"
    using assms by (auto simp: assertHashHex_def res_simps is_hex_of_length_def)
  have l: "length (hex_bytes (drop 2 h)) = 32" using h(2) by (simp add: length_hex_bytes)
  have "be_value (hex_bytes (drop 2 h)) < 256 ^ 32" using be_value_less [of "hex_bytes (drop 2 h)"] unfolding l .
  then have "int (be_value (hex_bytes (drop 2 h))) < int (256 ^ 32)" by (simp only: of_nat_less_iff)
  then have "int (be_value (hex_bytes (drop 2 h))) < 256 ^ 32" by (simp only: of_nat_power of_nat_numeral)
  moreover have "(256 :: int) ^ 32 = 2 ^ 256" using power_mult [of "2 :: int" 8 32] by simp
  ultimately have "int (be_value (hex_bytes (drop 2 h))) < 2 ^ 256" by (simp only:)
  moreover have "be_bytes 32 (be_value (hex_bytes (drop 2 h))) = hex_bytes (drop 2 h)" by (metis l be_bytes_be_value)
  moreover have "bytes_hex (hex_bytes (drop 2 h)) = drop 2 h" using h(2,3) by (intro bytes_hex_hex_bytes) auto
  moreover have "[48, 120] @ drop 2 h = h" using h(1) append_take_drop_id [of 2 h] by simp
  ultimately show ?thesis by (simp add: entryHashHex_def bigintHex256_def hash_value_def hex256_def not_le del: be_bytes.simps)
qed

lemma header0_read_back:
  assumes "capsuleHeader0Bytes h = Inr bytes" "h0_kind h = KIND_PRIVATE \<or> h0_kind h = KIND_CONV"
  shows "\<exists>h'. capsuleHeader0ObjectFromBytes bytes = Inr h' \<and> capsuleHeader0Bytes h' = Inr bytes \<and> h0_kind h' = h0_kind h
    \<and> h0_sizeClass h' = h0_sizeClass h \<and> h0_cryptoSuite h' = h0_cryptoSuite h \<and> h0_suite h' = h0_suite h
    \<and> (h0_kind h = KIND_CONV \<longrightarrow> h0_senderKeyId h' = None)
    \<and> (h0_kind h = KIND_PRIVATE \<longrightarrow> (\<forall>m. h0_senderKeyId h = Some (base64urlEncode m) \<longrightarrow> h0_senderKeyId h' = Some (base64urlEncode m)))"
  using assms(2)
proof
  assume k: "h0_kind h = KIND_PRIVATE"
  then have "privateCapsuleHeader0Bytes h = Inr bytes" using assms(1) by (simp add: capsuleHeader0Bytes_def)
  then obtain h' where h': "privateCapsuleHeader0ObjectFromBytes bytes = Inr h'" "length bytes = 74" "h0_kind h' = h0_kind h"
      "h0_sizeClass h' = h0_sizeClass h" "h0_cryptoSuite h' = h0_cryptoSuite h" "h0_suite h' = h0_suite h"
      "same_text (h0_senderKeyId h') (h0_senderKeyId h)"
    using private_header0_written by blast
  have s: "h0_senderKeyId h' = Some (base64urlEncode (slice 8 40 bytes))"
    using h'(1) by (auto simp: privateCapsuleHeader0ObjectFromBytes_def res_simps)
  have "h0_senderKeyId h' = Some (base64urlEncode m)" if m: "h0_senderKeyId h = Some (base64urlEncode m)" for m
  proof -
    have "assertLength (slice 8 40 bytes) 32 = assertLength m 32" using h'(7) by (simp add: same_text_def s m)
    moreover have "length (slice 8 40 bytes) = 32" using h'(2) by simp
    ultimately have "slice 8 40 bytes = m" by (auto simp: assertLength_def guard_def split: if_splits)
    then show ?thesis by (simp add: s)
  qed
  then show ?thesis using h' k private_header0_back(1) [OF h'(1)] by (auto simp: capsuleHeader0ObjectFromBytes_def header_sizes)
next
  assume k: "h0_kind h = KIND_CONV"
  then have "convCapsuleHeader0Bytes h = Inr bytes" using assms(1) by (simp add: capsuleHeader0Bytes_def)
  then obtain h' where h': "convCapsuleHeader0ObjectFromBytes bytes = Inr h'" "length bytes = 40" "h0_kind h' = KIND_CONV"
      "h0_sizeClass h' = h0_sizeClass h" "h0_cryptoSuite h' = h0_cryptoSuite h" "h0_suite h' = h0_suite h"
    using conv_header0_written by blast
  have "h0_senderKeyId h' = None" using h'(1) by (auto simp: convCapsuleHeader0ObjectFromBytes_def res_simps header0_read_def)
  then show ?thesis using h' k conv_header0_back(1) [OF h'(1)] by (auto simp: capsuleHeader0ObjectFromBytes_def header_sizes)
qed

lemma policy_same_times:
  assumes "assertCapsuleTimestampPolicy h later = Inr ()" "isSafeInteger (h1_createdAt h')" "isSafeInteger (h1_expiresAt h')"
    "intOf (h1_createdAt h') = intOf (h1_createdAt h)" "intOf (h1_expiresAt h') = intOf (h1_expiresAt h)"
  shows "assertCapsuleTimestampPolicy h' (later\<lparr>to_enforceExpiry := Some (or_default (to_enforceExpiry later) False)\<rparr>) = Inr ()"
  using assms unfolding policy_Inr by (auto simp: or_default_def split: option.splits)

lemma sealed_from_chain:
  assumes s: "sealed_with P le identity header0 header1 pointer plain bundle random extra c draft identityBytes bodyBytes o'"
    and k: "h0_kind header0 = KIND_PRIVATE \<or> h0_kind header0 = KIND_CONV"
    and t: "assertCapsuleTimestampPolicy header1 later = Inr ()"
    and n: "h0_kind header0 = KIND_PRIVATE \<Longrightarrow> h0_senderKeyId header0 = Some (base64urlEncode m)"
  shows "\<exists>v. privateCapsuleFromChainEntry P le (entry_of_draft draft) later = Inr v \<and> vc_bodyBytes v = bodyBytes
    \<and> cp_id (vc_capsule v) = cp_id c \<and> cp_hashes (vc_capsule v) = cp_hashes c
    \<and> h0_senderKeyId (cp_header0 (vc_capsule v)) = (if h0_kind header0 = KIND_PRIVATE then Some (base64urlEncode m) else None)
    \<and> intOf (h1_expiresAt (cp_header1 (vc_capsule v))) = intOf (h1_expiresAt header1)"
proof -
  obtain cells where x: "assertPrivateBodyMatchesHeader header0 bodyBytes = Inr ()" "compactBodyObjectFromBytes bodyBytes = Inr (cp_body c)"
      "computePrivateCapsuleChainCells P header0 header1 (cp_body c) = Inr cells" "privateCapsuleHashesFromChainCells cells = Inr (cp_hashes c)"
      "cp_cell0 c = Some (hc_header0 cells)" "cp_cell1 c = Some (hc_header1 cells)" "cp_cellb c = Some (hc_body cells)"
      "computePrivateCapsuleId P le (cp_hashes c) = Inr (cp_id c)" "cp_header0 c = header0" "privateCapsulePublishDraft c = Inr draft"
    using s unfolding sealed_with_def by blast
  obtain bytes0 bytes1 bb where w: "capsuleHeader0Bytes header0 = Inr bytes0" "privateCapsuleHeader1Bytes header1 = Inr bytes1"
      "privateCapsuleBodyBytes (cp_body c) = Inr bb" "cell_payload P bytes0 PLATHO_ONCHAIN_HEADER_MAX_BYTES = Inr (hc_header0 cells)"
      "cell_payload P bytes1 PLATHO_ONCHAIN_HEADER_MAX_BYTES = Inr (hc_header1 cells)"
      "cell_payload P bb PLATHO_ONCHAIN_BODY_MAX_BYTES = Inr (hc_body cells)"
    using x(3) by (auto simp: chain_cells_Inr)
  have bb: "bb = bodyBytes" using w(3) body_object_layout [OF x(2)] by simp
  have d: "draft = \<lparr>pd_publish_kind = h0_publishKind header0, pd_size_class = h0_sizeClass header0,
            pd_crypto_suite = h0_cryptoSuite header0, pd_header_0_hash = ch_header0Hash (cp_hashes c),
            pd_header_1_hash = ch_header1Hash (cp_hashes c), pd_body_hash = ch_bodyHash (cp_hashes c),
            pd_header_0_cell = hc_header0 cells, pd_header_1_cell = hc_header1 cells, pd_body_cell = hc_body cells,
            pd_valid_until = intOf (h1_expiresAt (cp_header1 c)) div 1000\<rparr>"
    using x(10) by (simp add: privateCapsulePublishDraft_def x(5-7,9))
  have boc: "snakeBytesFromBoc (BocText (cc_boc (hc_header0 cells))) = Inr bytes0" "snakeBytesFromBoc (BocText (cc_boc (hc_header1 cells))) = Inr bytes1"
      "snakeBytesFromBoc (BocText (cc_boc (hc_body cells))) = Inr bodyBytes"
    using cell_payload_Inr [OF w(4) onchain_caps(1)] cell_payload_Inr [OF w(5) onchain_caps(1)] cell_payload_Inr [OF w(6) onchain_caps(2)] bb by simp_all
  obtain h0 where h0: "capsuleHeader0ObjectFromBytes bytes0 = Inr h0" "capsuleHeader0Bytes h0 = Inr bytes0" "h0_kind h0 = h0_kind header0"
      "h0_sizeClass h0 = h0_sizeClass header0" "h0_cryptoSuite h0 = h0_cryptoSuite header0" "h0_suite h0 = h0_suite header0"
      "h0_kind header0 = KIND_CONV \<longrightarrow> h0_senderKeyId h0 = None"
      "h0_kind header0 = KIND_PRIVATE \<longrightarrow> h0_senderKeyId h0 = Some (base64urlEncode m)"
    using header0_read_back [OF w(1) k] n by blast
  obtain h1 where h1: "privateCapsuleHeader1ObjectFromBytes bytes1 = Inr h1" "intOf (h1_createdAt h1) = intOf (h1_createdAt header1)"
      "intOf (h1_expiresAt h1) = intOf (h1_expiresAt header1)"
    using header1_written [OF w(2)] by blast
  have h1b: "privateCapsuleHeader1Bytes h1 = Inr bytes1" by (rule header1_back [OF h1(1)])
  then have "isSafeInteger (h1_createdAt h1)" "isSafeInteger (h1_expiresAt h1)"
    by (auto simp: privateCapsuleHeader1Bytes_def res_simps capsuleTimestampSecond_Inr)
  note pol = policy_same_times [OF t this h1(2,3)]
  have body: "assertPrivateBodyMatchesHeader h0 bodyBytes = Inr ()" using x(1) by (simp add: assertPrivateBodyMatchesHeader_def h0(4-6))
  have cells: "computePrivateCapsuleChainCells P h0 h1 (cp_body c) = Inr cells" using w h0(2) h1b by (simp add: chain_cells_Inr)
  have "\<exists>u. assertHashHex (ch_header0Hash (cp_hashes c)) = Inr u" "\<exists>u. assertHashHex (ch_header1Hash (cp_hashes c)) = Inr u"
      "\<exists>u. assertHashHex (ch_bodyHash (cp_hashes c)) = Inr u"
    using x(8) by (auto simp: computePrivateCapsuleId_def res_simps)
  then have hv: "entryHashHex (Some (hash_value (ch_header0Hash (cp_hashes c)))) = Inr (Some (ch_header0Hash (cp_hashes c)))"
      "entryHashHex (Some (hash_value (ch_header1Hash (cp_hashes c)))) = Inr (Some (ch_header1Hash (cp_hashes c)))"
      "entryHashHex (Some (hash_value (ch_bodyHash (cp_hashes c)))) = Inr (Some (ch_bodyHash (cp_hashes c)))"
    using hash_value_back by blast+
  have kk: "h0_kind header0 \<noteq> KIND_PRIVATE \<Longrightarrow> h0_kind header0 = KIND_CONV" using k by blast
  show ?thesis
    unfolding privateCapsuleFromChainEntry_def entry_of_draft_def d
    using h0(3-8) h1(3) kk
    by (simp add: boc h0(1) h1(1) x(2) pol body cells x(4) hv check_entry_hash_def x(8) Let_def privateCapsulePublishDraft_def)
qed

end
