(* ===== verification/Capsule_Identity.thy ===== *)
theory Capsule_Identity
  imports Capsule
begin

text \<open>
  The identifier of a capsule commits to what the capsule carries: the text of its three hashes can be
  read back, a cell hash commits to the bytes of its chain, and so two accepted capsules with one
  identifier have the same headers and the same body, or exhibit a collision of SHA-256.
\<close>

section \<open>The text of the hashes determines the hashes\<close>

lemma insert_by_natural:
  "insert_by le (k, g k v) (map (\<lambda>(k, v). (k, g k v)) es) = map (\<lambda>(k, v). (k, g k v)) (insert_by le (k, v) es)"
  by (induction es) auto

lemma sort_by_natural: "sort_by le (map (\<lambda>(k, v). (k, g k v)) es) = map (\<lambda>(k, v). (k, g k v)) (sort_by le es)"
  by (induction es) (auto simp: sort_by_def insert_by_natural)

lemma set_insert_by: "set (insert_by le e es) = insert e (set es)"
  by (induction es) auto

lemma set_sort_by: "set (sort_by le es) = set es"
  by (induction es) (auto simp: sort_by_def set_insert_by)

lemma join_same_lengths:
  "list_all2 (\<lambda>s t. length s = length t) ss ts \<Longrightarrow> join ss = join ts \<Longrightarrow> ss = ts"
proof (induction ss ts rule: list_all2_induct)
  case (Cons s ss t ts)
  show ?case
  proof (cases ss)
    case Nil
    then show ?thesis using Cons by simp
  next
    case (Cons u us)
    then obtain w ws where "ts = w # ws" using Cons.hyps(2) by (cases ts) auto
    then show ?thesis using Cons Cons.prems Cons.hyps Cons.IH by simp
  qed
qed simp

lemma plain_text: "\<forall>c \<in> set s. 32 \<le> c \<and> c < 128 \<and> c \<noteq> 34 \<and> c \<noteq> 92 \<Longrightarrow> concat (map json_escape s) = s"
  by (induction s) (auto simp: json_escape_def)

lemma hash_text:
  assumes "assertHashHex h = Inr h'"
  shows "json_string h = [34] @ h @ [34]" "length h = 66" "is_ascii h"
proof -
  have h: "take 2 h = [48, 120]" "length (drop 2 h) = 64" "\<forall>c \<in> set (drop 2 h). is_hex_lower c"
    using assms by (auto simp: assertHashHex_def res_simps is_hex_of_length_def)
  have s: "h = [48, 120] @ drop 2 h" using h(1) append_take_drop_id [of 2 h] by simp
  have "\<forall>c \<in> set h. 32 \<le> c \<and> c < 128 \<and> c \<noteq> 34 \<and> c \<noteq> 92"
    by (subst s) (use h(3) in \<open>auto simp: char_class_defs\<close>)
  then show "json_string h = [34] @ h @ [34]" "is_ascii h" by (simp_all add: json_string_def plain_text is_ascii_def)
  have "length ([48, 120] @ drop 2 h) = 66" using h(2) by (simp del: length_drop)
  then show "length h = 66" by (simp only: s [symmetric])
qed

lemma utf8_encode_ascii_inj:
  assumes "is_ascii s" "is_ascii t" "utf8_encode s = utf8_encode t" shows "s = t"
proof -
  have m: "map (word_of_nat :: nat \<Rightarrow> byte) s = map word_of_nat t"
    using assms by (simp add: is_ascii_def utf8_encode_ascii)
  have b: "a = b" if "a < 128" "b < 128" "(word_of_nat a :: byte) = word_of_nat b" for a b
    using that by (simp add: word_of_nat_eq_iff take_bit_eq_mod)
  show ?thesis
  proof (rule nth_equalityI)
    show l: "length s = length t" using m by (metis length_map)
    fix i assume "i < length s"
    then show "s ! i = t ! i" using b [of "s ! i" "t ! i"] assms(1,2) l arg_cong [OF m, of "\<lambda>x. x ! i"] by (simp add: is_ascii_def)
  qed
qed

text \<open>The hashed text, with the keys in the one order the collation gives.\<close>

definition hash_fields :: "(js_string \<times> (capsule_hashes \<Rightarrow> js_string)) list" where
  "hash_fields = [(str ''header0Hash'', ch_header0Hash), (str ''header1Hash'', ch_header1Hash), (str ''bodyHash'', ch_bodyHash)]"

definition hashes_text :: "(js_string \<Rightarrow> js_string \<Rightarrow> bool) \<Rightarrow> capsule_hashes \<Rightarrow> js_string" where
  "hashes_text le hs = [123] @ join (map (\<lambda>(k, f). json_string k @ [58] @ json_string (f hs)) (sort_by le hash_fields)) @ [125]"

lemma stringify_hashes:
  "stableStringify le (JObj [(str ''header0Hash'', Some (JStr (ch_header0Hash hs))), (str ''header1Hash'', Some (JStr (ch_header1Hash hs))),
     (str ''bodyHash'', Some (JStr (ch_bodyHash hs)))]) = hashes_text le hs"
  using sort_by_natural [of le "\<lambda>k f. json_string (f hs)" hash_fields]
  by (simp add: hashes_text_def hash_fields_def comp_def case_prod_unfold)

definition good_hashes :: "capsule_hashes \<Rightarrow> bool" where
  "good_hashes hs \<longleftrightarrow> (\<forall>h \<in> {ch_header0Hash hs, ch_header1Hash hs, ch_bodyHash hs}. \<exists>h'. assertHashHex h = Inr h')"

lemma good_fields: "good_hashes hs \<Longrightarrow> (k, f) \<in> set (sort_by le hash_fields) \<Longrightarrow> \<exists>h'. assertHashHex (f hs) = Inr h'"
  by (auto simp: set_sort_by hash_fields_def good_hashes_def)

lemma hashes_text_binds:
  assumes "good_hashes hs" "good_hashes hs'" "hashes_text le hs = hashes_text le hs'"
  shows "hs = hs'"
proof -
  let ?t = "\<lambda>hs (k :: js_string, f). json_string k @ [58] @ json_string (f hs)"
  have len: "list_all2 (\<lambda>s t. length s = length t) (map (?t hs) (sort_by le hash_fields)) (map (?t hs') (sort_by le hash_fields))"
    unfolding list_all2_map1 list_all2_map2
  proof (rule list_all2_same [THEN iffD2], clarify)
    fix k f assume m: "(k, f) \<in> set (sort_by le hash_fields)"
    obtain h h' where "assertHashHex (f hs) = Inr h" "assertHashHex (f hs') = Inr h'"
      using good_fields [OF assms(1) m] good_fields [OF assms(2) m] by blast
    then show "length (json_string k @ [58] @ json_string (f hs)) = length (json_string k @ [58] @ json_string (f hs'))"
      by (simp add: hash_text(1,2))
  qed
  have "map (?t hs) (sort_by le hash_fields) = map (?t hs') (sort_by le hash_fields)"
    using join_same_lengths [OF len] assms(3) by (simp add: hashes_text_def)
  then have eq: "f hs = f hs'" if "(k, f) \<in> set (sort_by le hash_fields)" for k f
    using that good_fields [OF assms(1) that] good_fields [OF assms(2) that] by (auto simp: hash_text(1))
  show ?thesis
    using eq [of "str ''header0Hash''" ch_header0Hash] eq [of "str ''header1Hash''" ch_header1Hash] eq [of "str ''bodyHash''" ch_bodyHash]
    by (simp add: set_sort_by hash_fields_def)
qed

lemma ascii_join: "\<forall>s \<in> set ss. is_ascii s \<Longrightarrow> is_ascii (join ss)"
  by (induction ss rule: join.induct) (auto simp: is_ascii_def)

lemma hashes_text_ascii:
  assumes "good_hashes hs" shows "is_ascii (hashes_text le hs)"
proof -
  have k: "json_string k = [34] @ k @ [34] \<and> is_ascii k" if "k \<in> {str ''header0Hash'', str ''header1Hash'', str ''bodyHash''}" for k
    using that by (auto simp: json_string_def str_def json_escape_def is_ascii_def)
  have "is_ascii (json_string k @ [58] @ json_string (f hs))" if m: "(k, f) \<in> set (sort_by le hash_fields)" for k f
  proof -
    obtain h where "assertHashHex (f hs) = Inr h" using good_fields [OF assms m] by blast
    moreover have "k \<in> {str ''header0Hash'', str ''header1Hash'', str ''bodyHash''}" using m by (auto simp: set_sort_by hash_fields_def)
    ultimately show ?thesis using k hash_text(1,3) by (auto simp: is_ascii_def)
  qed
  then have "is_ascii (join (map (\<lambda>(k, f). json_string k @ [58] @ json_string (f hs)) (sort_by le hash_fields)))"
    by (intro ascii_join) auto
  then show ?thesis by (simp add: hashes_text_def is_ascii_def)
qed

section \<open>The hashes determine the bytes\<close>

lemma capsule_id_Inr:
  "computePrivateCapsuleId P le hs = Inr cid \<longleftrightarrow> good_hashes hs
     \<and> cid = base64urlEncode (p_sha256 P (utf8_encode PRIVATE_CAPSULE_ID_DOMAIN @ utf8_encode (hashes_text le hs)))"
proof -
  have h: "andThen (assertHashHex h) f = Inr r \<longleftrightarrow> (\<exists>x. assertHashHex h = Inr x) \<and> f h = Inr r" for h and f :: "js_string \<Rightarrow> js_string res" and r
  proof (cases "assertHashHex h")
    case (Inr x)
    then have "x = h" by (auto simp: assertHashHex_def res_simps)
    then show ?thesis using Inr by simp
  qed simp
  show ?thesis
    unfolding computePrivateCapsuleId_def h good_hashes_def stableJsonHashId_def stringify_hashes by auto
qed

lemma hex256_inj: "hex256 d = hex256 d' \<Longrightarrow> d = d'"
  unfolding hex256_def by (drule arg_cong [of _ _ "\<lambda>s. hex_bytes (drop 2 s)"]) (simp add: hex_bytes_bytes_hex)

lemma cell_payload_binds:
  assumes "\<not> collision (p_sha256 P) (chain_inputs (p_sha256 P) (splitSnakeCellChunks x)) (chain_inputs (p_sha256 P) (splitSnakeCellChunks y))"
    and "cell_payload P x n = Inr p" "cell_payload P y m = Inr q" "n \<le> 1024 * 127" "m \<le> 1024 * 127"
    and "cc_hash p = cc_hash q"
  shows "x = y"
proof -
  note a = cell_payload_Inr [OF assms(2,4)] and b = cell_payload_Inr [OF assms(3,5)]
  obtain d e where d: "tree_hash (p_sha256 P) (snake_of (splitSnakeCellChunks x)) = Inr (d, cc_refs p)" "cc_hash p = hex256 d"
      and e: "tree_hash (p_sha256 P) (snake_of (splitSnakeCellChunks y)) = Inr (e, cc_refs q)" "cc_hash q = hex256 e"
    using a b by blast
  have "e = d" using d(2) e(2) assms(6) hex256_inj by metis
  have lx: "length x \<le> 1024 * 127" using a assms(4) by linarith
  have ly: "length y \<le> 1024 * 127" using b assms(5) by linarith
  note cx = snake_chunks [OF lx] and cy = snake_chunks [OF ly]
  have "splitSnakeCellChunks x = splitSnakeCellChunks y"
    by (rule chain_hash_binds [OF d(1) e(1) [unfolded \<open>e = d\<close>] cx(1) cy(1) cx(4) cy(4) cx(2) cy(2) assms(1)])
  then show ?thesis using cx(3) cy(3) by metis
qed

text \<open>The messages hashed for a capsule's identifier: the cells of its three chains and the text of their hashes.\<close>

definition capsule_inputs ::
    "prims \<Rightarrow> (js_string \<Rightarrow> js_string \<Rightarrow> bool) \<Rightarrow> capsule_header0 \<Rightarrow> capsule_header1 \<Rightarrow> capsule_body \<Rightarrow> bytes list" where
  "capsule_inputs P le h0 h1 body =
     (case (capsuleHeader0Bytes h0, privateCapsuleHeader1Bytes h1, privateCapsuleBodyBytes body, computePrivateCapsuleChainCells P h0 h1 body) of
        (Inr b0, Inr b1, Inr bb, Inr cells) \<Rightarrow>
          concat (map (\<lambda>bs. chain_inputs (p_sha256 P) (splitSnakeCellChunks bs)) [b0, b1, bb])
          @ [utf8_encode PRIVATE_CAPSULE_ID_DOMAIN @ utf8_encode (hashes_text le
               \<lparr>ch_header0Hash = cc_hash (hc_header0 cells), ch_header1Hash = cc_hash (hc_header1 cells), ch_bodyHash = cc_hash (hc_body cells)\<rparr>)]
      | _ \<Rightarrow> [])"

lemma verified_hashes:
  assumes "verifyEncryptedPrivateCapsule P le c options = Inr v"
  shows "\<exists>cells. computePrivateCapsuleChainCells P (cp_header0 c) (cp_header1 c) (cp_body c) = Inr cells
    \<and> privateCapsuleHashesFromChainCells cells = Inr (cp_hashes (vc_capsule v))
    \<and> computePrivateCapsuleId P le (cp_hashes (vc_capsule v)) = Inr (cp_id c)
    \<and> compactBodyBytesFromCapsuleBody (cp_body c) = Inr (vc_bodyBytes v)
    \<and> cp_id (vc_capsule v) = cp_id c \<and> cp_header0 (vc_capsule v) = cp_header0 c \<and> cp_header1 (vc_capsule v) = cp_header1 c
    \<and> cp_body (vc_capsule v) = cp_body c"
  using assms unfolding verifyEncryptedPrivateCapsule_def Let_def
  by (auto simp: res_simps)

lemma cell_hashes:
  "privateCapsuleHashesFromChainCells cells = Inr hs \<Longrightarrow>
    hs = \<lparr>ch_header0Hash = cc_hash (hc_header0 cells), ch_header1Hash = cc_hash (hc_header1 cells), ch_bodyHash = cc_hash (hc_body cells)\<rparr>"
  by (auto simp: privateCapsuleHashesFromChainCells_def res_simps assertHashHex_def)

lemma same_id_same_bytes:
  assumes nc: "\<not> collision (p_sha256 P) (capsule_inputs P le h0 h1 body) (capsule_inputs P le h0' h1' body')"
    and x: "computePrivateCapsuleChainCells P h0 h1 body = Inr cells" "privateCapsuleHashesFromChainCells cells = Inr hs"
      "computePrivateCapsuleId P le hs = Inr cid"
    and y: "computePrivateCapsuleChainCells P h0' h1' body' = Inr cells'" "privateCapsuleHashesFromChainCells cells' = Inr hs'"
      "computePrivateCapsuleId P le hs' = Inr cid"
  shows "capsuleHeader0Bytes h0 = capsuleHeader0Bytes h0' \<and> privateCapsuleHeader1Bytes h1 = privateCapsuleHeader1Bytes h1'
    \<and> privateCapsuleBodyBytes body = privateCapsuleBodyBytes body'"
proof -
  let ?sha = "p_sha256 P" and ?in = "\<lambda>bs. chain_inputs (p_sha256 P) (splitSnakeCellChunks bs)"
  obtain a0 a1 ab b0 b1 bb where w: "capsuleHeader0Bytes h0 = Inr a0" "privateCapsuleHeader1Bytes h1 = Inr a1" "privateCapsuleBodyBytes body = Inr ab"
      "cell_payload P a0 PLATHO_ONCHAIN_HEADER_MAX_BYTES = Inr (hc_header0 cells)"
      "cell_payload P a1 PLATHO_ONCHAIN_HEADER_MAX_BYTES = Inr (hc_header1 cells)"
      "cell_payload P ab PLATHO_ONCHAIN_BODY_MAX_BYTES = Inr (hc_body cells)"
      "capsuleHeader0Bytes h0' = Inr b0" "privateCapsuleHeader1Bytes h1' = Inr b1" "privateCapsuleBodyBytes body' = Inr bb"
      "cell_payload P b0 PLATHO_ONCHAIN_HEADER_MAX_BYTES = Inr (hc_header0 cells')"
      "cell_payload P b1 PLATHO_ONCHAIN_HEADER_MAX_BYTES = Inr (hc_header1 cells')"
      "cell_payload P bb PLATHO_ONCHAIN_BODY_MAX_BYTES = Inr (hc_body cells')"
    using x(1) y(1) unfolding chain_cells_Inr by blast
  have i: "capsule_inputs P le h0 h1 body = ?in a0 @ ?in a1 @ ?in ab @ [utf8_encode PRIVATE_CAPSULE_ID_DOMAIN @ utf8_encode (hashes_text le hs)]"
      "capsule_inputs P le h0' h1' body' = ?in b0 @ ?in b1 @ ?in bb @ [utf8_encode PRIVATE_CAPSULE_ID_DOMAIN @ utf8_encode (hashes_text le hs')]"
    using w x(1) y(1) by (simp_all add: capsule_inputs_def cell_hashes [OF x(2)] cell_hashes [OF y(2)])
  have nc': "\<not> collision ?sha (?in a0) (?in b0)" "\<not> collision ?sha (?in a1) (?in b1)" "\<not> collision ?sha (?in ab) (?in bb)"
      "\<not> collision ?sha [utf8_encode PRIVATE_CAPSULE_ID_DOMAIN @ utf8_encode (hashes_text le hs)]
         [utf8_encode PRIVATE_CAPSULE_ID_DOMAIN @ utf8_encode (hashes_text le hs')]"
    using nc unfolding i collision_def by (simp_all add: ball_Un)
  have g: "good_hashes hs" "good_hashes hs'" using x(3) y(3) unfolding capsule_id_Inr by blast+
  have "base64urlEncode (?sha (utf8_encode PRIVATE_CAPSULE_ID_DOMAIN @ utf8_encode (hashes_text le hs)))
      = base64urlEncode (?sha (utf8_encode PRIVATE_CAPSULE_ID_DOMAIN @ utf8_encode (hashes_text le hs')))"
    using x(3) y(3) unfolding capsule_id_Inr by simp
  then have "utf8_encode (hashes_text le hs) = utf8_encode (hashes_text le hs')"
    using nc'(4) by (auto simp: collision_def dest!: base64urlEncode_inj)
  then have "hs = hs'" by (intro hashes_text_binds [OF g] utf8_encode_ascii_inj hashes_text_ascii g)
  then have e: "cc_hash (hc_header0 cells) = cc_hash (hc_header0 cells')" "cc_hash (hc_header1 cells) = cc_hash (hc_header1 cells')"
      "cc_hash (hc_body cells) = cc_hash (hc_body cells')"
    using cell_hashes [OF x(2)] cell_hashes [OF y(2)] by simp_all
  have "a0 = b0" by (rule cell_payload_binds [OF nc'(1) w(4,10) onchain_caps(1,1) e(1)])
  moreover have "a1 = b1" by (rule cell_payload_binds [OF nc'(2) w(5,11) onchain_caps(1,1) e(2)])
  moreover have "ab = bb" by (rule cell_payload_binds [OF nc'(3) w(6,12) onchain_caps(2,2) e(3)])
  ultimately show ?thesis using w by simp
qed

end
