(* ===== verification/Capsule_Inputs.thy ===== *)
theory Capsule_Inputs
  imports Capsule_Identity
begin

text \<open>
  The inputs a capsule can be made from, described by what the caller passes and not by what the code
  answers: messages, times and profile pointers that fit, and the proof that the encoder, the alignment
  of times and the policy accept every one of them.
\<close>

section \<open>Messages\<close>

lemma or_default_Some: "or_default (Some x) y = x" by (simp add: or_default_def)

definition wallet_fits :: "js_string option \<Rightarrow> bool" where
  "wallet_fits w \<longleftrightarrow> (case wallet_given w of None \<Rightarrow> True
     | Some s \<Rightarrow> (case parseTonAddress s of Inl e \<Rightarrow> False | Inr a \<Rightarrow> - 128 \<le> a_workchain a \<and> a_workchain a \<le> 127))"

text \<open>A username with or without its \<open>.ath\<close>, in lower case; none, or the empty one, is written as nothing.\<close>

definition username_written :: "js_string option \<Rightarrow> js_string" where
  "username_written u = (case u of None \<Rightarrow> []
     | Some s \<Rightarrow> if s = [] then [] else if drop (length s - 4) s = dot_ath \<and> 4 \<le> length s then s else s @ dot_ath)"

definition username_fits :: "js_string option \<Rightarrow> bool" where
  "username_fits u \<longleftrightarrow> username_written u = [] \<or> is_username (username_written u)"

definition message_body :: "compact_input \<Rightarrow> bytes" where
  "message_body message = (case message of TextInput t \<Rightarrow> utf8_encode t | ImageInput bs f \<Rightarrow> bs | DocumentInput bs \<Rightarrow> bs | OtherInput \<Rightarrow> [])"

definition message_format :: "compact_input \<Rightarrow> compact_options \<Rightarrow> int" where
  "message_format message co = (case message of ImageInput bs f \<Rightarrow> or_default f FORMAT_WEBP | _ \<Rightarrow> or_default (co_mediaFormat co) 0)"

definition message_size :: "compact_input \<Rightarrow> compact_options \<Rightarrow> nat" where
  "message_size message co =
     (if wallet_given (co_senderWallet co) = None then 0 else 69)
     + (if username_written (co_senderUsername co) = [] then 0 else 5 + length (username_written (co_senderUsername co)))
     + (if wallet_given (co_recipientWallet co) = None then 0 else 37)
     + length (message_body message)"

definition message_fits :: "compact_input \<Rightarrow> compact_options \<Rightarrow> nat \<Rightarrow> bool" where
  "message_fits message co reserved \<longleftrightarrow> message \<noteq> OtherInput
     \<and> 0 \<le> message_format message co \<and> message_format message co \<le> 255
     \<and> wallet_fits (co_senderWallet co) \<and> wallet_fits (co_recipientWallet co) \<and> username_fits (co_senderUsername co)
     \<and> 0 \<le> or_default (co_senderVaultKeyId co) 0 \<and> or_default (co_senderVaultKeyId co) 0 < 2 ^ 256
     \<and> (co_streamId co = None \<or> length (or_default (co_streamId co) []) = 16)
     \<and> 0 \<le> or_default (co_partIndex co) 0 \<and> or_default (co_partIndex co) 0 < or_default (co_partCount co) 1
     \<and> or_default (co_partCount co) 1 \<le> 65535
     \<and> (case co_sizeClass co of None \<Rightarrow> message_size message co + reserved \<le> 32768
        | Some c \<Rightarrow> c \<in> {1, 2, 4, 8, 16, 32} \<and> int (message_size message co + reserved) \<le> c * 1024)"

lemma wallet_bytes:
  assumes "wallet_fits w" "wallet_given w = Some s" "length magic = 4"
  shows "\<exists>h. walletHashBytes magic s = Inr h \<and> length h = 37"
proof -
  obtain a where a: "parseTonAddress s = Inr a" "- 128 \<le> a_workchain a" "a_workchain a \<le> 127"
    using assms(1,2) by (auto simp: wallet_fits_def split: sum.splits)
  then show ?thesis using parsed_address_range [OF a(1)] assms(3) by (simp add: walletHashBytes_def assertLength_def)
qed

lemma sender_wallet_bytes:
  assumes "wallet_fits (co_senderWallet co)" "0 \<le> or_default (co_senderVaultKeyId co) 0" "or_default (co_senderVaultKeyId co) 0 < 2 ^ 256"
  shows "\<exists>w. compactSenderWalletMetadataBytes co = Inr w
    \<and> length (or_default w []) = (if wallet_given (co_senderWallet co) = None then 0 else 69)"
proof (cases "wallet_given (co_senderWallet co)")
  case None
  then show ?thesis by (simp add: compactSenderWalletMetadataBytes_def or_default_def)
next
  case (Some s)
  obtain h where h: "walletHashBytes COMPACT_SENDER_WALLET_MAGIC s = Inr h" "length h = 37"
    using wallet_bytes [OF assms(1) Some, of COMPACT_SENDER_WALLET_MAGIC] by auto
  have "writeBigUintBytes (or_default (co_senderVaultKeyId co) 0) 32 = Inr (be_bytes 32 (nat (or_default (co_senderVaultKeyId co) 0)))"
    using assms(2,3) by (simp add: writeBigUintBytes_def del: be_bytes.simps)
  then show ?thesis using Some h
    by (simp add: compactSenderWalletMetadataBytes_def or_default_Some del: be_bytes.simps)
qed

lemma recipient_wallet_bytes:
  assumes "wallet_fits (co_recipientWallet co)"
  shows "\<exists>w. compactRecipientWalletMetadataBytes co = Inr w
    \<and> length (or_default w []) = (if wallet_given (co_recipientWallet co) = None then 0 else 37)"
proof (cases "wallet_given (co_recipientWallet co)")
  case None
  then show ?thesis by (simp add: compactRecipientWalletMetadataBytes_def or_default_def)
next
  case (Some s)
  then show ?thesis using wallet_bytes [OF assms Some, of COMPACT_RECIPIENT_WALLET_MAGIC]
    by (auto simp: compactRecipientWalletMetadataBytes_def or_default_def)
qed

lemma username_normal:
  assumes "username_fits u" "lowers_ascii lower"
  shows "normalizeCompactPlathoUsername lower u = Inr (if username_written u = [] then None else Some (username_written u))"
proof (cases "username_written u = []")
  case True
  have "trim [] = []" "lower [] = []" using assms(2) by (simp_all add: trim_def lower_id is_ascii_def)
  then show ?thesis using True
    by (cases u) (auto simp: username_written_def normalizeCompactPlathoUsername_def or_default_def split: if_splits)
next
  case False
  then have w: "is_username (username_written u)" using assms(1) by (simp add: username_fits_def)
  obtain s where s: "u = Some s" "s \<noteq> []" using False by (auto simp: username_written_def split: option.splits if_splits)
  have "set s \<subseteq> set (username_written u)" using s by (auto simp: username_written_def)
  then have c: "\<forall>x \<in> set s. x < 128 \<and> \<not> is_upper x \<and> \<not> is_space x" using username_ascii(1) [OF w] by blast
  have "trim s = s" using c by (intro trim_id) auto
  moreover have "lower s = s" using c assms(2) by (intro lower_id) (auto simp: is_ascii_def)
  ultimately show ?thesis using s w False
    by (simp add: normalizeCompactPlathoUsername_def or_default_def username_written_def Let_def split: if_splits)
qed

lemma username_bytes:
  assumes "username_fits (co_senderUsername co)" "lowers_ascii lower"
  shows "\<exists>w. compactSenderUsernameMetadataBytes lower co = Inr w \<and> length (or_default w [])
    = (if username_written (co_senderUsername co) = [] then 0 else 5 + length (username_written (co_senderUsername co)))"
proof (cases "username_written (co_senderUsername co) = []")
  case True
  then show ?thesis by (simp add: compactSenderUsernameMetadataBytes_def username_normal [OF assms] or_default_def)
next
  case False
  let ?u = "username_written (co_senderUsername co)"
  have w: "is_username ?u" using assms(1) False by (simp add: username_fits_def)
  note a = username_ascii [OF w]
  have "length (utf8_encode ?u) = length ?u" using a(1) utf8_encode_ascii [of ?u] by auto
  then show ?thesis using a(4) False
    by (simp add: compactSenderUsernameMetadataBytes_def username_normal [OF assms] or_default_def Let_def compact_sizes)
qed

lemma size_class_found:
  assumes "len \<le> 32768"
  shows "\<exists>n. sizeClassForPayloadByteLength len = Inr n \<and> n \<in> {1, 2, 4, 8, 16, 32} \<and> len \<le> n * 1024"
  using assms by (auto simp: sizeClassForPayloadByteLength_def MAX_SAFE_INTEGER_def PLATHO_CAPSULE_USEFUL_SIZE_CLASSES_def
      PLATHO_COMPACT_TEXT_BLOCK_BYTES_def)

lemma room_found:
  assumes "co_reservedTailBytes co = Some (int reserved)" "reserved \<le> 32768"
    and "case co_sizeClass co of None \<Rightarrow> len + reserved \<le> 32768 | Some c \<Rightarrow> c \<in> {1, 2, 4, 8, 16, 32} \<and> int (len + reserved) \<le> c * 1024"
  shows "\<exists>room. compactPayloadUsefulBytes len co = Inr room \<and> (\<forall>c. co_sizeClass co = Some c \<longrightarrow> int (r_sizeClass room) = c)"
proof -
  have "\<exists>n. (case co_sizeClass co of None \<Rightarrow> sizeClassForPayloadByteLength (len + reserved) | Some c \<Rightarrow> normalizeCapsuleSizeClass c) = Inr n
      \<and> n \<in> {1, 2, 4, 8, 16, 32} \<and> len + reserved \<le> n * 1024 \<and> (\<forall>c. co_sizeClass co = Some c \<longrightarrow> int n = c)"
  proof (cases "co_sizeClass co")
    case None
    then show ?thesis using assms(3) size_class_found [of "len + reserved"] by simp
  next
    case (Some c)
    then show ?thesis using assms(3) by (auto simp: normalizeCapsuleSizeClass_def CAPSULE_SIZE_CLASS_def)
  qed
  then obtain n where n: "(case co_sizeClass co of None \<Rightarrow> sizeClassForPayloadByteLength (len + reserved) | Some c \<Rightarrow> normalizeCapsuleSizeClass c) = Inr n"
      "n \<in> {1, 2, 4, 8, 16, 32}" "len + reserved \<le> n * 1024" "\<forall>c. co_sizeClass co = Some c \<longrightarrow> int n = c" by blast
  have u: "usefulBytesForCapsuleSizeClass (int n) = Inr (n * 1024)"
    using n(2) by (auto simp: usefulBytesForCapsuleSizeClass_def normalizeCapsuleSizeClass_def CAPSULE_SIZE_CLASS_def PLATHO_COMPACT_TEXT_BLOCK_BYTES_def)
  have r: "normalizeCompactPayloadReservedTailBytes (Some (int reserved)) = Inr reserved"
    using assms(2) by (simp add: normalizeCompactPayloadReservedTailBytes_def or_default_def MAX_SAFE_INTEGER_def)
  have le: "\<not> int (n * 1024) - int reserved < 0" "\<not> n * 1024 - reserved < len" using n(3) by simp_all
  show ?thesis unfolding compactPayloadUsefulBytes_def assms(1) r using n(1,4) u le by (simp add: Let_def)
qed

lemma encodeCompactPayload_parts:
  assumes "message \<noteq> OtherInput"
  shows "\<exists>type. encodeCompactPayload lower random message co =
    andThen (encodeCompactPayloadContentWithMetadata lower (message_body message) co) (\<lambda>(flags, content).
      encodeFixedCompactPayload random type flags (message_format message co) content co)"
  using assms by (cases message) (auto simp: encodeCompactPayload_def message_body_def message_format_def)

lemma metadata_written:
  assumes "message_fits message co reserved" "lowers_ascii lower"
  shows "\<exists>flags content. encodeCompactPayloadContentWithMetadata lower (message_body message) (co\<lparr>co_reservedTailBytes := r\<rparr>) = Inr (flags, content)
    \<and> length content = message_size message co"
proof -
  let ?co = "co\<lparr>co_reservedTailBytes := r\<rparr>"
  have f: "wallet_fits (co_senderWallet ?co)" "wallet_fits (co_recipientWallet ?co)" "username_fits (co_senderUsername ?co)"
      "0 \<le> or_default (co_senderVaultKeyId ?co) 0" "or_default (co_senderVaultKeyId ?co) 0 < 2 ^ 256"
    using assms(1) by (simp_all add: message_fits_def)
  obtain w where w: "compactSenderWalletMetadataBytes ?co = Inr w"
      "length (or_default w []) = (if wallet_given (co_senderWallet ?co) = None then 0 else 69)"
    using sender_wallet_bytes [OF f(1,4,5)] by blast
  obtain v where v: "compactRecipientWalletMetadataBytes ?co = Inr v"
      "length (or_default v []) = (if wallet_given (co_recipientWallet ?co) = None then 0 else 37)"
    using recipient_wallet_bytes [OF f(2)] by blast
  obtain u where u: "compactSenderUsernameMetadataBytes lower ?co = Inr u" "length (or_default u [])
      = (if username_written (co_senderUsername ?co) = [] then 0 else 5 + length (username_written (co_senderUsername ?co)))"
    using username_bytes [OF f(3) assms(2)] by blast
  show ?thesis
    unfolding encodeCompactPayloadContentWithMetadata_def w(1) u(1) v(1)
    using w(2) u(2) v(2) by (simp add: message_size_def)
qed

text \<open>Every message that fits is encoded, in the size class asked for.\<close>

lemma message_encoded:
  assumes "message_fits message co reserved" "lowers_ascii lower" "length random = 16" "reserved \<le> 32768"
  shows "\<exists>bs pf dp. encodeCompactPayload lower random message (co\<lparr>co_reservedTailBytes := Some (int reserved)\<rparr>) = Inr bs
    \<and> compactPayloadContent bs (Some (int reserved)) = Inr pf \<and> decodeCompactPayloadBytesInner lower bs (Some (int reserved)) = Inr dp
    \<and> pf_sizeClass pf \<in> {1, 2, 4, 8, 16, 32} \<and> (\<forall>c. co_sizeClass co = Some c \<longrightarrow> int (pf_sizeClass pf) = c)"
proof -
  let ?co = "co\<lparr>co_reservedTailBytes := Some (int reserved)\<rparr>"
  note m = assms(1) [unfolded message_fits_def]
  have p: "message \<noteq> OtherInput" "0 \<le> message_format message ?co" "message_format message ?co \<le> 255"
      "co_streamId ?co = None \<or> length (or_default (co_streamId ?co) []) = 16"
      "0 \<le> or_default (co_partIndex ?co) 0" "or_default (co_partIndex ?co) 0 < or_default (co_partCount ?co) 1"
      "or_default (co_partCount ?co) 1 \<le> 65535"
    using m by (auto simp: message_format_def split: compact_input.splits)
  obtain type where e: "encodeCompactPayload lower random message ?co =
      andThen (encodeCompactPayloadContentWithMetadata lower (message_body message) ?co) (\<lambda>(flags, content).
        encodeFixedCompactPayload random type flags (message_format message ?co) content ?co)"
    using encodeCompactPayload_parts [OF p(1)] by blast
  obtain flags content where c: "encodeCompactPayloadContentWithMetadata lower (message_body message) ?co = Inr (flags, content)"
      "length content = message_size message co"
    using metadata_written [OF assms(1,2)] by blast
  obtain room where r: "compactPayloadUsefulBytes (length content) ?co = Inr room" "\<forall>k. co_sizeClass co = Some k \<longrightarrow> int (r_sizeClass room) = k"
  proof -
    have "case co_sizeClass ?co of None \<Rightarrow> length content + reserved \<le> 32768
        | Some k \<Rightarrow> k \<in> {1, 2, 4, 8, 16, 32} \<and> int (length content + reserved) \<le> k * 1024"
      using m c(2) by (cases "co_sizeClass co") simp_all
    from room_found [OF _ assms(4) this] show thesis using that by auto
  qed
  note k = compact_room [OF r(1)]
  have st: "\<exists>s. (case co_streamId ?co of None \<Rightarrow> Inr random | Some s \<Rightarrow> assertLength s 16) = Inr s"
    using p(4) by (cases "co_streamId co") (auto simp: assertLength_def or_default_def)
  have "\<exists>a. uint8Byte (message_format message ?co) = Inr a" using p(2,3) by (simp add: uint8Byte_def)
  moreover have "\<exists>a. uint16Be (or_default (co_partIndex ?co) 0) = Inr a" "\<exists>a. uint16Be (or_default (co_partCount ?co) 1) = Inr a"
    using p(5-7) by (simp_all add: uint16Be_Inr del: be_bytes.simps)
  moreover have "\<exists>a. uint16Be (int (length content)) = Inr a" using k(5) by (simp add: uint16Be_Inr del: be_bytes.simps)
  ultimately have "\<exists>bs. encodeFixedCompactPayload random type flags (message_format message ?co) content ?co = Inr bs"
    using st r(1) unfolding encodeFixedCompactPayload_def by auto
  then obtain bs where bs: "encodeFixedCompactPayload random type flags (message_format message ?co) content ?co = Inr bs" by blast
  have enc: "encodeCompactPayload lower random message ?co = Inr bs" using e c(1) bs by simp
  have d: "or_default (co_reservedTailBytes ?co) 0 = int reserved" by (simp add: or_default_def)
  obtain pf where pf: "compactPayloadContent bs (Some (int reserved)) = Inr pf" "pf_sizeClass pf = r_sizeClass room"
    using encodeFixed_Inr [OF bs assms(3) p(6)] r(1) unfolding d by auto
  obtain dp where "decodeCompactPayloadBytesInner lower bs (Some (int reserved)) = Inr dp"
    using compact_payload_roundtrip_aux [OF enc assms(3,2) p(6)] unfolding d by blast
  then show ?thesis using enc pf k(2) r(2) by auto
qed

text \<open>
  The payload of a capsule fits when it is a message that fits, or the encoding the caller made of one
  beforehand with the same reserved tail, its size class repeated or left out.
\<close>

definition payload_fits :: "(js_string \<Rightarrow> js_string) \<Rightarrow> capsule_options \<Rightarrow> nat \<Rightarrow> bool" where
  "payload_fits lower options reserved \<longleftrightarrow>
     (case ca_payloadBytes options of
        None \<Rightarrow> message_fits (ca_payload options) (ca_compact options) reserved
      | Some bs \<Rightarrow> (\<exists>message co random. message_fits message co reserved \<and> length random = 16
           \<and> encodeCompactPayload lower random message (co\<lparr>co_reservedTailBytes := Some (int reserved)\<rparr>) = Inr bs
           \<and> (co_sizeClass (ca_compact options) = None \<or> co_sizeClass (ca_compact options) = co_sizeClass co)))"

lemma class_normal: "n \<in> {1, 2, 4, 8, 16, 32} \<Longrightarrow> normalizeCapsuleSizeClass (int n) = Inr n"
  by (auto simp: normalizeCapsuleSizeClass_def CAPSULE_SIZE_CLASS_def)

lemma payload_accepted:
  assumes "payload_fits lower options (compactPayloadReservedTailBytes recover)" "lowers_ascii lower" "length random = 16"
  shows "\<exists>plain n dp. capsule_payload lower random options recover 2 = Inr (plain, n)
    \<and> decodeCompactPayloadBytesInner lower plain (Some (int (compactPayloadReservedTailBytes recover))) = Inr dp"
proof -
  let ?r = "compactPayloadReservedTailBytes recover"
  have r: "?r \<le> 32768"
    by (simp add: compactPayloadReservedTailBytes_def PLATHO_COMPACT_IDENTITY_BYTES_def PLATHO_COMPACT_SENDER_RECOVERY_BYTES_def)
  show ?thesis
  proof (cases "ca_payloadBytes options")
    case None
    then have m: "message_fits (ca_payload options) (ca_compact options) ?r" using assms(1) by (simp add: payload_fits_def)
    obtain bs pf dp where e: "encodeCompactPayload lower random (ca_payload options) ((ca_compact options)\<lparr>co_reservedTailBytes := Some (int ?r)\<rparr>) = Inr bs"
        "compactPayloadContent bs (Some (int ?r)) = Inr pf" "decodeCompactPayloadBytesInner lower bs (Some (int ?r)) = Inr dp"
        "pf_sizeClass pf \<in> {1, 2, 4, 8, 16, 32}" "\<forall>c. co_sizeClass (ca_compact options) = Some c \<longrightarrow> int (pf_sizeClass pf) = c"
      using message_encoded [OF m assms(2,3) r] by blast
    have c: "or_default (co_sizeClass (ca_compact options)) (int (pf_sizeClass pf)) = int (pf_sizeClass pf)"
      using e(5) by (cases "co_sizeClass (ca_compact options)") (simp_all add: or_default_def)
    show ?thesis unfolding capsule_payload_def Let_def None option.case e(1)
      using e(2,3) c class_normal [OF e(4)] allowed_pair [of "int (pf_sizeClass pf)"] e(4) by auto
  next
    case (Some plain)
    obtain message co rnd where s: "message_fits message co ?r" "length rnd = 16"
        "encodeCompactPayload lower rnd message (co\<lparr>co_reservedTailBytes := Some (int ?r)\<rparr>) = Inr plain"
        "co_sizeClass (ca_compact options) = None \<or> co_sizeClass (ca_compact options) = co_sizeClass co"
      using assms(1) Some by (auto simp: payload_fits_def)
    obtain pf dp where e: "compactPayloadContent plain (Some (int ?r)) = Inr pf" "decodeCompactPayloadBytesInner lower plain (Some (int ?r)) = Inr dp"
        "pf_sizeClass pf \<in> {1, 2, 4, 8, 16, 32}" "\<forall>c. co_sizeClass co = Some c \<longrightarrow> int (pf_sizeClass pf) = c"
      using message_encoded [OF s(1) assms(2) s(2) r] s(3) by auto
    have c: "or_default (co_sizeClass (ca_compact options)) (int (pf_sizeClass pf)) = int (pf_sizeClass pf)"
      using e(4) s(4) by (cases "co_sizeClass (ca_compact options)") (auto simp: or_default_def split: option.splits)
    have a: "assertCompactPayloadBytes plain (Some (int ?r)) (co_sizeClass (ca_compact options)) = Inr plain"
      using e(1,4) s(4) class_normal [OF e(3)]
      by (cases "co_sizeClass (ca_compact options)") (auto simp: assertCompactPayloadBytes_def split: option.splits)
    show ?thesis unfolding capsule_payload_def Let_def Some option.case a
      using e(1,2) c class_normal [OF e(3)] allowed_pair [of "int (pf_sizeClass pf)"] e(3) by auto
  qed
qed

section \<open>Times\<close>

definition created_asked :: "header1_request \<Rightarrow> int \<Rightarrow> int" where
  "created_asked request now = or_default (hr_createdAt request) now"

definition expires_asked :: "header1_request \<Rightarrow> int \<Rightarrow> int" where
  "expires_asked request now =
     or_default (hr_expiresAt request) (created_asked request now + or_default (hr_ttlMs request) DEFAULT_CAPSULE_TTL_MS)"

text \<open>
  The times asked for, in milliseconds: in order, the first not ahead of the clock by more than the skew,
  the second within the four bytes of a second's number and, where expiry is enforced, still to come, and
  a lifetime the policy allows once both have been rounded outwards to seconds.
\<close>

definition times_fit :: "header1_request \<Rightarrow> timestamp_options \<Rightarrow> bool" where
  "times_fit request policy \<longleftrightarrow>
     (let now = to_now policy; c = created_asked request now; e = expires_asked request now in
      0 \<le> c \<and> c < e \<and> e \<le> 4294967295000 \<and> c \<le> now + or_default (to_clockSkewMs policy) DEFAULT_CLOCK_SKEW_MS
      \<and> (e + 999) div 1000 * 1000 - c div 1000 * 1000 \<le> or_default (to_maxTtlMs policy) MAX_CAPSULE_TTL_MS
      \<and> (to_enforceExpiry policy = Some False \<or> now < e))"

lemma rounded_out:
  fixes c e :: int
  assumes "0 \<le> c" "c < e" "e \<le> 4294967295000"
  shows "0 \<le> c div 1000 * 1000" "c div 1000 * 1000 \<le> c" "e \<le> (e + 999) div 1000 * 1000" "c div 1000 * 1000 < (e + 999) div 1000 * 1000"
    "(e + 999) div 1000 * 1000 \<le> 4294967295000"
proof -
  let ?q = "c div 1000" and ?d = "(e + 999) div 1000"
  have q: "?q * 1000 \<le> c" "c < ?q * 1000 + 1000" using pos_mod_sign [of 1000 c] pos_mod_bound [of 1000 c] div_mult_mod_eq [of c 1000] by linarith+
  have d: "?d * 1000 \<le> e + 999" "e + 999 < ?d * 1000 + 1000"
    using pos_mod_sign [of 1000 "e + 999"] pos_mod_bound [of 1000 "e + 999"] div_mult_mod_eq [of "e + 999" 1000] by linarith+
  have "0 \<le> ?q" using q assms(1) by linarith
  moreover have "?d \<le> 4294967295" using d assms(3) by linarith
  ultimately show "0 \<le> ?q * 1000" "?q * 1000 \<le> c" "e \<le> ?d * 1000" "?q * 1000 < ?d * 1000" "?d * 1000 \<le> 4294967295000"
    using q d assms by linarith+
qed

lemma times_accepted:
  assumes "times_fit request policy"
  shows "\<exists>c e. aligned_times request (to_now policy) = Inr (c, e) \<and> assertCapsuleTimestampPolicy (new_header1 request nonce c e) policy = Inr ()"
proof -
  let ?c = "created_asked request (to_now policy)" and ?e = "expires_asked request (to_now policy)"
  define c e where "c = ?c div 1000 * 1000" and "e = (?e + 999) div 1000 * 1000"
  note t = assms [unfolded times_fit_def Let_def, folded c_def e_def]
  have o: "0 \<le> c" "c \<le> ?c" "?e \<le> e" "c < e" "e \<le> 4294967295000" using t rounded_out [of ?c ?e] by (simp_all only: c_def e_def)
  have "aligned_times request (to_now policy) = andThen (alignCapsuleTimestampMs (js_of_int ?c) False) (\<lambda>createdAt.
      andThen (alignCapsuleTimestampMs (js_of_int ?e) True) (\<lambda>expiresAt. Inr (createdAt, expiresAt)))"
    by (simp add: aligned_times_def created_asked_def expires_asked_def Let_def)
  moreover have "alignCapsuleTimestampMs (js_of_int ?c) False = Inr c" "alignCapsuleTimestampMs (js_of_int ?e) True = Inr e"
    using t o by (simp_all add: alignCapsuleTimestampMs_Inr MAX_SAFE_INTEGER_def c_def e_def)
  ultimately have "aligned_times request (to_now policy) = Inr (c, e)" by simp
  moreover have "\<bar>c\<bar> \<le> MAX_SAFE_INTEGER" "\<bar>e\<bar> \<le> MAX_SAFE_INTEGER" using o by (simp_all add: MAX_SAFE_INTEGER_def)
  then have "assertCapsuleTimestampPolicy (new_header1 request nonce c e) policy = Inr ()"
    using t o by (auto simp: policy_Inr new_header1_def safe_js_of_int)
  ultimately show ?thesis by blast
qed

text \<open>A nonce the caller brings is the base64url of sixteen bytes.\<close>

definition nonce_fits :: "header1_request \<Rightarrow> bool" where
  "nonce_fits request \<longleftrightarrow> (case hr_clientNonce request of None \<Rightarrow> True | Some s \<Rightarrow> (\<exists>bs. s = base64urlEncode bs \<and> length bs = 16))"

section \<open>The profile pointer\<close>

definition avatar_fits :: "u256 option \<Rightarrow> bool" where
  "avatar_fits avatar \<longleftrightarrow> (case avatar of None \<Rightarrow> True
     | Some (U256Bytes bs) \<Rightarrow> length bs = 32
     | Some (U256Int i) \<Rightarrow> 0 \<le> i \<and> i < 2 ^ 256
     | Some (U256Text s) \<Rightarrow> (\<exists>bs. length bs = 32 \<and> (s = hex256 bs \<or> s = base64urlEncode bs)))"

definition profile_fits :: "int option \<Rightarrow> u256 option \<Rightarrow> bool" where
  "profile_fits version avatar \<longleftrightarrow> 0 \<le> or_default version 0 \<and> or_default version 0 < 2 ^ 32 \<and> avatar_fits avatar"

lemma hex256_symbols: "c \<in> set (hex256 bs) \<Longrightarrow> \<not> is_space c" "c \<in> set (bytes_hex bs) \<Longrightarrow> is_hex_any c \<and> \<not> is_space c"
  using bytes_hex_lower [of bs] by (auto simp: hex256_def char_class_defs is_space_def is_hex_any_def)

lemma uint256Bytes_hex256:
  assumes "length bs = 32"
  shows "uint256Bytes (Some (U256Text (hex256 bs))) = Inr bs"
proof -
  have t: "trim (hex256 bs) = hex256 bs" using hex256_symbols(1) by (intro trim_id) blast
  have "is_hash_text (hex256 bs)" using assms hex256_symbols(2) [of _ bs] by (simp add: is_hash_text_def hex256_def Let_def)
  moreover have "ascii_lower (bytes_hex bs) = bytes_hex bs"
    using bytes_hex_lower [of bs] by (intro ascii_lower_id) (auto simp: char_class_defs)
  moreover have "bytes_hex bs \<noteq> []" using assms length_bytes_hex [of bs] by (metis list.size(3) mult_eq_0_iff zero_neq_numeral)
  ultimately have "is_hash_text (hex256 bs)" "hexToBytes (hex256 bs) 32 = Inr bs"
    using assms hex256_symbols(2) [of _ bs] by (simp_all add: hexToBytes_def hex256_def hex_bytes_bytes_hex Let_def)
  then show ?thesis by (simp add: uint256Bytes_def t Let_def)
qed

lemma profile_accepted:
  assumes "profile_fits version avatar"
  shows "\<exists>pointer. privateProfilePointer version avatar = Inr pointer \<and> 0 \<le> fst pointer \<and> fst pointer < 2 ^ 32"
proof -
  have "\<exists>bs. uint256Bytes avatar = Inr bs"
  proof (cases avatar)
    case None
    then show ?thesis by (simp add: uint256Bytes_def writeBigUintBytes_def del: be_bytes.simps)
  next
    case (Some v)
    show ?thesis
    proof (cases v)
      case (U256Text s)
      then show ?thesis using assms Some uint256Bytes_encoded uint256Bytes_hex256
        by (fastforce simp: profile_fits_def avatar_fits_def)
    qed (use assms Some in \<open>simp_all add: profile_fits_def avatar_fits_def uint256Bytes_def assertLength_def writeBigUintBytes_def
        del: be_bytes.simps\<close>)
  qed
  then show ?thesis using assms by (auto simp: privateProfilePointer_def Let_def profile_fits_def MAX_SAFE_INTEGER_def)
qed

section \<open>Key agreement\<close>

text \<open>The agreement of two keys is not the all-zero secret, which only a point of low order gives.\<close>

definition agrees :: "prims \<Rightarrow> bytes \<Rightarrow> bytes \<Rightarrow> bool" where
  "agrees P secret point \<longleftrightarrow> (\<exists>b \<in> set (p_x25519 P secret point). b \<noteq> 0)"

lemma shared_found:
  assumes "agreement_laws P" "length secret = 32" "length point = 32" "agrees P secret point"
  shows "sharedSecretX25519 P secret point = Inr (p_x25519 P secret point)"
  using assms by (auto simp: sharedSecretX25519_def assertLength_def assertNonZeroSharedSecret_def agreement_laws_def agrees_def)

end
