(* ===== verification/Capsule_Guarantees.thy ===== *)
theory Capsule_Guarantees
  imports Capsule_Inputs
begin

text \<open>
  What the capsule code promises as a whole: sealing for a valid recipient succeeds, what is sealed is
  opened by exactly the two it concerns, directly and from the entry on chain, and the identifier commits
  to everything the capsule carries.
\<close>

section \<open>Sealing succeeds\<close>

lemma tree_hash_digest: "tree_hash sha t = Inr (d, n) \<Longrightarrow> \<exists>m. d = sha m"
  by (cases t) (auto simp: hash_and_depth_def Let_def res_simps)

lemma hashHex_digest:
  assumes "hash_laws P"
  shows "assertHashHex (hex256 (p_sha256 P m)) =
    (if be_value (p_sha256 P m) = 0 then Inl (JsError ''must not be zero'') else Inr (hex256 (p_sha256 P m)))"
  using assms assertHashHex_hex256 [of "p_sha256 P m"]
  by (simp add: hash_laws_def assertHashHex_def hex256_def is_hex_of_length_bytes_hex hex_bytes_bytes_hex)

lemma cell_payload_digest:
  assumes "length bytes \<le> maxBytes" "maxBytes \<le> 1024 * 127"
  shows "\<exists>p m. cell_payload P bytes maxBytes = Inr p \<and> cc_hash p = hex256 (p_sha256 P m)"
  using cell_payload_made [OF assms, of P] tree_hash_digest by blast

lemma capsule_header0_length: "capsuleHeader0Bytes h = Inr bytes \<Longrightarrow> length bytes \<le> 4096"
  by (auto simp: capsuleHeader0Bytes_def convCapsuleHeader0Bytes_def introCapsuleHeader0Bytes_def privateCapsuleHeader0Bytes_def
      res_simps Let_def header_sizes split: if_splits)

lemma capsule_body_caps: "n \<in> {1, 2, 4, 8, 16, 32} \<Longrightarrow> compactBodyBytesForUsefulBytes HYBRID_V1 (n * 1024) \<le> PLATHO_ONCHAIN_BODY_MAX_BYTES"
  by (auto simp: compactBodyBytesForUsefulBytes_def compactBodyPrefixBytesForSuite_def COMPACT_BODY_BASE_PREFIX_BYTES_def
      MLKEM768_CIPHERTEXT_BYTES_def PLATHO_COMPACT_PAYLOAD_PREFIX_BYTES_def COMPACT_BODY_TAG_BYTES_def PLATHO_ONCHAIN_BODY_MAX_BYTES_def)

text \<open>A digest of zero bytes is the one thing that stops sealing, and the code refuses it by name.\<close>

definition sealed_or_zero :: "prims \<Rightarrow> (capsule \<times> publish_draft) res \<Rightarrow> bool" where
  "sealed_or_zero P r \<longleftrightarrow> (\<exists>c draft. r = Inr (c, draft))
     \<or> r = Inl (JsError ''must not be zero'') \<and> (\<exists>m. be_value (p_sha256 P m) = 0)"

lemma hybrid_key_id:
  assumes "key_pair_ok P kp" "kp_suite kp = HYBRID_V1"
  shows "\<exists>m. kp_keyId kp = base64urlEncode (p_sha256 P m)"
proof -
  obtain pk pq where "computeHybridKeyId P pk pq = Inr (kp_keyId kp)" using assms by (auto simp: key_pair_ok_def)
  then show ?thesis by (rule key_id_text)
qed

lemma hybrid_recipient:
  assumes "key_pair_ok P kp" "hash_laws P" "exportPublicKeyBundle kp = Inr b" "kp_suite kp = HYBRID_V1" "normalizeRecipientBundle P b = Inr r"
  shows "\<exists>pq. kb_suite (rk_bundle r) = HYBRID_V1 \<and> rk_mlKem768PublicKey r = Some pq \<and> length pq = 1184"
proof -
  have "kb_suite b = HYBRID_V1" using assms(3,4) unfolding export_Inr [OF assms(1,2)] by auto
  then show ?thesis using normalize_exported [OF assms(1-3)] assms(1,4,5) by (auto simp: key_pair_ok_def)
qed

text \<open>The options a capsule is sealed with, for the encapsulation made at sealing or brought by the caller.\<close>

definition seal_extra :: "prims \<Rightarrow> capsule_options \<Rightarrow> bytes \<Rightarrow> bool \<Rightarrow> (bytes \<times> bytes) option \<Rightarrow> body_options \<Rightarrow> body_options" where
  "seal_extra P options ephemeral recover e o' = (create_extra P options ephemeral recover o')\<lparr>en_mlKemEncapsulation := e\<rparr>"

lemma seal_without_encapsulation:
  "seal_capsule P le identity kind header0 header1 pointer plain b random (seal_extra P options ephemeral recover None)
    = seal_capsule P le identity kind header0 header1 pointer plain b random (create_extra P options ephemeral recover)"
  by (simp add: seal_capsule_def seal_extra_def create_extra_def)

lemma seal_outcome:
  assumes P: "crypto_laws P" and kp: "key_pair_ok P kp" "kp_x25519SecretKey kp = Some sk" "length sk = 32" "exportPublicKeyBundle kp = Inr b"
      "kp_suite kp = HYBRID_V1"
    and r: "normalizeRecipientBundle P b = Inr r" and rn: "honest_random random"
    and id: "key_pair_ok P (mi_encryptionKeyPair identity)" "kp_suite (mi_encryptionKeyPair identity) = HYBRID_V1"
      "kp_x25519SecretKey (mi_encryptionKeyPair identity) = Some xs" "length xs = 32"
    and ib: "privateCapsuleIdentityBytes (mi_signingPublicKey identity) (Some (fst pointer)) (snd pointer) = Inr identityBytes"
    and h: "capsuleHeader0Bytes header0 = Inr bytes0" "privateCapsuleHeader1Bytes header1 = Inr bytes1"
      "h0_sizeClass header0 = int (pf_sizeClass pf)" "\<And>c v a. cp_header0 c = header0 \<Longrightarrow> \<exists>pl. privateCapsuleSignaturePayload c v a = Inr pl"
    and dp: "decodeCompactPayloadBytesInner lower plain (Some (int (compactPayloadReservedTailBytes recover))) = Inr dp"
      "compactPayloadContent plain (Some (int (compactPayloadReservedTailBytes recover))) = Inr pf"
    and mid: "\<forall>m. ca_messageId options = Some m \<longrightarrow> length m = 16"
    and kem: "\<And>ec. e = Some ec \<Longrightarrow> \<exists>seed. ec = p_mlkem_encapsulate P (or_default (rk_mlKem768PublicKey r) []) seed"
    and sh: "sharedSecretX25519 P (cr_ephemeral random) (rk_x25519PublicKey r) = Inr shared"
  shows "sealed_or_zero P (seal_capsule P le identity kind header0 header1 pointer plain b (cr_body random)
    (seal_extra P options (cr_ephemeral random) recover e))"
proof -
  have laws: "hash_laws P" "agreement_laws P" "signature_laws P" using P by (simp_all add: crypto_laws_def)
  have cap: "length bytes0 \<le> PLATHO_ONCHAIN_HEADER_MAX_BYTES" "length bytes1 \<le> PLATHO_ONCHAIN_HEADER_MAX_BYTES"
    using capsule_header0_length [OF h(1)] header1_written [OF h(2)] by (auto simp: PLATHO_ONCHAIN_HEADER_MAX_BYTES_def)
  obtain cell0 m0 where c0: "cell_payload P bytes0 PLATHO_ONCHAIN_HEADER_MAX_BYTES = Inr cell0" "cc_hash cell0 = hex256 (p_sha256 P m0)"
    using cell_payload_digest [OF cap(1) onchain_caps(1)] by blast
  obtain cell1 m1 where c1: "cell_payload P bytes1 PLATHO_ONCHAIN_HEADER_MAX_BYTES = Inr cell1" "cc_hash cell1 = hex256 (p_sha256 P m1)"
    using cell_payload_digest [OF cap(2) onchain_caps(1)] by blast
  note hh = hashHex_digest [OF laws(1)]
  show ?thesis
  proof (cases "be_value (p_sha256 P m0) = 0 \<or> be_value (p_sha256 P m1) = 0")
    case True
    then show ?thesis
      by (auto simp: sealed_or_zero_def seal_capsule_def ib computePrivateCapsuleHeaderHashes_def h c0 c1 hh)
  next
    case False
    define o' where "o' = seal_extra P options (cr_ephemeral random) recover e
        \<lparr>en_hashes = \<lparr>bh_header0Hash = hex256 (p_sha256 P m0), bh_header1Hash = hex256 (p_sha256 P m1),
              bh_senderKeyId = Some (kp_keyId (mi_encryptionKeyPair identity))\<rparr>,
         en_messageId = None, en_ephemeralSecretKey = None, en_ephemeralPublicKey = None, en_identityBytes = Some identityBytes,
         en_mlKemEncapsulation = None, en_senderRecovery = True, en_senderKeyPair = Some (mi_encryptionKeyPair identity)\<rparr>"
    have hs: "compactHashBytes (hex256 (p_sha256 P m0)) = Inr (p_sha256 P m0)" "compactHashBytes (hex256 (p_sha256 P m1)) = Inr (p_sha256 P m1)"
      using False laws(1) by (simp_all add: compactHashBytes_hex256 hash_laws_def)
    obtain m where m: "kp_keyId (mi_encryptionKeyPair identity) = base64urlEncode (p_sha256 P m)"
      using hybrid_key_id [OF id(1,2)] by blast
    have kid: "base64urlFixedBytes (Some (kp_keyId (mi_encryptionKeyPair identity))) 32 = Inr (p_sha256 P m)"
      using laws(1) by (simp add: m assertLength_def hash_laws_def)
    obtain pq where pq: "kb_suite (rk_bundle r) = HYBRID_V1" "rk_mlKem768PublicKey r = Some pq" "length pq = 1184"
      using hybrid_recipient [OF kp(1) laws(1) kp(4,5) r] by blast
    obtain qs where qs: "kp_mlKem768SecretKey (mi_encryptionKeyPair identity) = Some qs" "length qs = 2400"
      using id(1,2) by (auto simp: key_pair_ok_def)
    have eph: "length (cr_ephemeral random) = 32" "length (p_x25519_public P (cr_ephemeral random)) = 32"
      using rn laws(2) by (simp_all add: honest_random_def agreement_laws_def)
    have il: "length identityBytes = 68"
      using identity_section_back(1) [OF ib] by (auto simp: privateCapsuleIdentityFromBytes_def assertLength_def guard_def
          PLATHO_COMPACT_IDENTITY_BYTES_def split: if_splits)
    have "\<exists>mid. given_or (ca_messageId options) 16 (rn_messageId (cr_body random)) = Inr mid"
      using mid by (cases "ca_messageId options") (auto simp: given_or_def assertLength_def)
    then obtain mid' where mid': "given_or (ca_messageId options) 16 (rn_messageId (cr_body random)) = Inr mid'" by blast
    have "\<exists>body. encryptCompactPayloadBytes P (cr_body random) plain b o' = Inr body"
      by (rule encrypt_succeeds [OF P r pq, of o' _ mid' "cr_ephemeral random" identityBytes shared "mi_encryptionKeyPair identity" xs qs])
        (use rn in \<open>simp_all add: o'_def seal_extra_def create_extra_def kem [simplified pq or_default_Some] mid' mid' [unfolded given_or_def] given_or_def assertLength_def eph il sh id qs hs kid honest_random_def\<close>)
    then obtain bodyBytes where body: "encryptCompactPayloadBytes P (cr_body random) plain b o' = Inr bodyBytes" by blast
    have ho: "honest_options P r o' (cr_body random)"
      using rn kem by (auto simp: honest_options_def honest_random_def o'_def seal_extra_def create_extra_def or_default_def)
    have o: "en_identityBytes o' = Some identityBytes" "recover = (en_senderRecovery o' \<and> en_senderKeyPair o' \<noteq> None)"
      by (simp_all add: o'_def seal_extra_def create_extra_def)
    have hf: "h0_suite header0 = kp_suite kp" "h0_cryptoSuite header0 = kp_contractSuite kp"
      using header0_fields(3,4) [OF h(1)] kp(1,5) by (auto simp: key_pair_ok_def suiteContract_def CONTRACT_HYBRID_def)
    note size = private_body_size_aux [OF P kp(1-4) r ho body o(1) identity_section_back(1) [OF ib] o(2) dp h(3) hf]
    have cl: "pf_sizeClass pf \<in> {1, 2, 4, 8, 16, 32}" by (rule payload_length(2) [OF dp(2)])
    have bc: "length bodyBytes \<le> PLATHO_ONCHAIN_BODY_MAX_BYTES" using size capsule_body_caps [OF cl] kp(5) by simp
    obtain cellb mb where cb: "cell_payload P bodyBytes PLATHO_ONCHAIN_BODY_MAX_BYTES = Inr cellb" "cc_hash cellb = hex256 (p_sha256 P mb)"
      using cell_payload_digest [OF bc onchain_caps(2)] by blast
    obtain info where "inspectCompactBodyBytes bodyBytes = Inr info"
      using body_opens_aux(4) [OF P kp(1-4) r ho body o(1) identity_section_back(1) [OF ib] o(2) dp(1) refl refl] by blast
    then obtain object where ob: "compactBodyObjectFromBytes bodyBytes = Inr object" by (auto simp: compactBodyObjectFromBytes_def)
    have cells: "computePrivateCapsuleChainCells P header0 header1 object = Inr \<lparr>hc_header0 = cell0, hc_header1 = cell1, hc_body = cellb\<rparr>"
      using h(1,2) c0(1) c1(1) cb(1) body_object_layout [OF ob] by (simp add: chain_cells_Inr)
    have sl: "length (p_sign P t k) = 64" for t k using laws(3) by (simp add: signature_laws_def)
    have hd: "computePrivateCapsuleHeaderHashes P header0 header1 = Inr (hex256 (p_sha256 P m0), hex256 (p_sha256 P m1))"
      using False by (simp add: computePrivateCapsuleHeaderHashes_def h c0 c1 hh)
    show ?thesis
    proof (cases "be_value (p_sha256 P mb) = 0")
      case True
      then show ?thesis
        using False size unfolding seal_capsule_def ib hd
        by (auto simp: sealed_or_zero_def body [unfolded o'_def] ob cells privateCapsuleHashesFromChainCells_def c0(2) c1(2) cb(2) hh)
    next
      case nz: False
      define hashes where "hashes = \<lparr>ch_header0Hash = hex256 (p_sha256 P m0), ch_header1Hash = hex256 (p_sha256 P m1),
        ch_bodyHash = hex256 (p_sha256 P mb)\<rparr>"
      have hc: "privateCapsuleHashesFromChainCells \<lparr>hc_header0 = cell0, hc_header1 = cell1, hc_body = cellb\<rparr> = Inr hashes"
        using nz False by (simp add: privateCapsuleHashesFromChainCells_def c0(2) c1(2) cb(2) hh hashes_def)
      obtain cid where cid: "computePrivateCapsuleId P le hashes = Inr cid"
        using nz False by (simp add: computePrivateCapsuleId_def hashes_def hh)
      define unsigned where "unsigned = \<lparr>cp_version = 1, cp_kind = kind, cp_id = cid, cp_header0 = header0, cp_header1 = header1,
        cp_body = object, cp_hashes = hashes, cp_cell0 = Some cell0, cp_cell1 = Some cell1, cp_cellb = Some cellb, cp_senderSignature = None\<rparr>"
      obtain pl where pl: "privateCapsuleSignaturePayload unsigned (fst pointer) (hex256 (snd pointer)) = Inr pl"
        using h(4) [of unsigned] by (auto simp: unsigned_def)
      show ?thesis
        using size unfolding seal_capsule_def ib hd
        by (simp add: sealed_or_zero_def body [unfolded o'_def] ob cells hc cid pl [unfolded unsigned_def] sl assertLength_def
            privateCapsulePublishDraft_def Let_def)
    qed
  qed
qed

lemma signature_payload_exists:
  "json_of_u256 (h0_bucketKey (cp_header0 c)) = Inr bucket \<Longrightarrow> h0_kind (cp_header0 c) = KIND_INTRO \<Longrightarrow> json_of_u256 (h0_ephemeralR (cp_header0 c)) = Inr r
    \<Longrightarrow> \<exists>pl. privateCapsuleSignaturePayload c v a = Inr pl"
  "json_of_u256 (h0_bucketKey (cp_header0 c)) = Inr bucket \<Longrightarrow> h0_kind (cp_header0 c) \<noteq> KIND_INTRO
    \<Longrightarrow> \<exists>pl. privateCapsuleSignaturePayload c v a = Inr pl"
  by (simp_all add: privateCapsuleSignaturePayload_def Let_def)

lemma aligned_whole:
  assumes "alignCapsuleTimestampMs (js_of_int v) up = Inr t"
  shows "\<exists>q. t = q * 1000 \<and> 0 \<le> q \<and> q < 4294967296"
proof -
  have "0 \<le> (v + 999) div 1000" "0 \<le> v div 1000" "t = (if up then (v + 999) div 1000 else v div 1000) * 1000" "t \<le> 4294967295000"
    using assms [unfolded alignCapsuleTimestampMs_Inr] by (auto simp: pos_imp_zdiv_nonneg_iff)
  then show ?thesis by (intro exI [of _ "if up then (v + 999) div 1000 else v div 1000"]) auto
qed

lemma aligned_header1:
  assumes "aligned_times request now = Inr (createdAt, expiresAt)" "nonce_fits request" "length nonce = 16"
  shows "\<exists>bytes. privateCapsuleHeader1Bytes (new_header1 request nonce createdAt expiresAt) = Inr bytes"
proof -
  have "\<exists>c. createdAt = c * 1000 \<and> 0 \<le> c \<and> c < 4294967296" "\<exists>e. expiresAt = e * 1000 \<and> 0 \<le> e \<and> e < 4294967296"
    using assms(1) by (auto simp: aligned_times_def res_simps Let_def dest!: aligned_whole)
  then obtain c e where t: "createdAt = c * 1000" "expiresAt = e * 1000" "0 \<le> c" "c < 4294967296" "0 \<le> e" "e < 4294967296" by blast
  obtain n where n: "or_default (hr_clientNonce request) (base64urlEncode nonce) = base64urlEncode n" "length n = 16"
    using assms(2,3) by (auto simp: nonce_fits_def or_default_def split: option.splits)
  show ?thesis using n(2) second_written [OF t(3,4)] second_written [OF t(5,6)]
    by (simp add: new_header1_def t(1,2) n(1) privateCapsuleHeader1Bytes_def uint8Byte_def assertLength_def HEADER1_BYTES_def
        HEADER1_MAGIC_def or_default_Some del: be_bytes.simps)
qed

lemma capsule_payload_class:
  assumes "capsule_payload lower sid options recover suite = Inr (plain, n)"
  shows "\<exists>pf. compactPayloadContent plain (Some (int (compactPayloadReservedTailBytes recover))) = Inr pf \<and> pf_sizeClass pf = n"
  using assms by (auto simp: capsule_payload_def Let_def res_simps)

text \<open>Both flows come down to sealing once the header is made; the view tag fits its field.\<close>

lemma conv_header0_exists:
  assumes "n \<in> {1, 2, 4, 8, 16, 32}" "length key = 32"
  shows "\<exists>bytes. capsuleHeader0Bytes ((blank_header0 KIND_CONV PUBLISH_CONV n 2 HYBRID_V1)
    \<lparr>h0_bucketKey := Some (U256Text (base64urlEncode key))\<rparr>) = Inr bytes"
proof -
  let ?h = "(blank_header0 KIND_CONV PUBLISH_CONV n 2 HYBRID_V1)\<lparr>h0_bucketKey := Some (U256Text (base64urlEncode key))\<rparr>"
  have "\<exists>start. header0_start ?h e = Inr start" for e
    using assms(1) by (auto simp: header0_start_Inr blank_header0_def PUBLISH_CONV_def)
  then obtain start where st: "header0_start ?h ''CONV capsule header0 suite byte mismatch'' = Inr start" by blast
  show ?thesis using header0_start_length [OF st] st uint256Bytes_encoded [OF assms(2)] assms(2)
    by (simp add: capsuleHeader0Bytes_def convCapsuleHeader0Bytes_def blank_header0_def header_sizes)
qed

lemma private_header0_exists:
  assumes "n \<in> {1, 2, 4, 8, 16, 32}" "length keyId = 32" "length scan = 32" "tag < 65536"
  shows "\<exists>bytes. capsuleHeader0Bytes ((blank_header0 KIND_PRIVATE PUBLISH_PRIVATE n 2 HYBRID_V1)
    \<lparr>h0_senderKeyId := Some (base64urlEncode keyId), h0_ephemeralScanPub := Some (base64urlEncode scan), h0_viewTag := Some (int tag)\<rparr>) = Inr bytes"
proof -
  let ?h = "(blank_header0 KIND_PRIVATE PUBLISH_PRIVATE n 2 HYBRID_V1)
    \<lparr>h0_senderKeyId := Some (base64urlEncode keyId), h0_ephemeralScanPub := Some (base64urlEncode scan), h0_viewTag := Some (int tag)\<rparr>"
  have "\<exists>start. header0_start ?h e = Inr start" for e
    using assms(1) by (auto simp: header0_start_Inr blank_header0_def PUBLISH_PRIVATE_def)
  then obtain start where st: "header0_start ?h ''Private capsule header0 suite byte mismatch'' = Inr start" by blast
  have "uint16Be (int tag) = Inr (be_bytes 2 tag)" using assms(4) by (simp add: uint16Be_Inr del: be_bytes.simps)
  then show ?thesis using header0_start_length [OF st] st assms(2,3)
    by (simp add: capsuleHeader0Bytes_def privateCapsuleHeader0Bytes_def blank_header0_def header_sizes assertLength_def or_default_def
        KIND_PRIVATE_def KIND_CONV_def KIND_INTRO_def str_def)
qed

lemma private_header0_found:
  assumes "key_pair_ok P ikp" "kp_suite ikp = HYBRID_V1" "crypto_laws P" "n \<in> {1, 2, 4, 8, 16, 32}"
    and "kp_scanPublicKey kp = Some scan" "sharedSecretX25519 P eph scan = Inr s"
  shows "\<exists>tag bytes. deriveStealthViewTagForRecipient P eph (p_x25519_public P eph) scan = Inr tag
    \<and> capsuleHeader0Bytes ((blank_header0 KIND_PRIVATE PUBLISH_PRIVATE n 2 HYBRID_V1)
          \<lparr>h0_senderKeyId := Some (kp_keyId ikp), h0_ephemeralScanPub := Some (base64urlEncode (p_x25519_public P eph)),
           h0_viewTag := Some (int tag)\<rparr>) = Inr bytes"
proof -
  have laws: "hash_laws P" "length (p_x25519_public P eph) = 32" using assms(3) by (simp_all add: crypto_laws_def agreement_laws_def)
  have "length s = 32" using assms(6) by (auto simp: sharedSecretX25519_def assertNonZeroSharedSecret_def res_simps)
  then obtain tag where tag: "deriveStealthViewTag P s (p_x25519_public P eph) = Inr tag"
    using laws(2) by (simp add: deriveStealthViewTag_def assertLength_def)
  obtain m where m: "kp_keyId ikp = base64urlEncode (p_sha256 P m)" using hybrid_key_id [OF assms(1,2)] by blast
  have "length (p_sha256 P m) = 32" using laws(1) by (simp add: hash_laws_def)
  from private_header0_exists [OF assms(4) this laws(2) view_tag_range [OF laws(1) tag]]
  show ?thesis using assms(6) tag by (simp add: m deriveStealthViewTagForRecipient_def)
qed

lemma capsule_created_aux:
  assumes P: "crypto_laws P" and kp: "key_pair_ok P kp" "kp_x25519SecretKey kp = Some sk" "length sk = 32" "exportPublicKeyBundle kp = Inr b"
      "kp_suite kp = HYBRID_V1"
    and id: "key_pair_ok P (mi_encryptionKeyPair identity)" "kp_suite (mi_encryptionKeyPair identity) = HYBRID_V1"
      "kp_x25519SecretKey (mi_encryptionKeyPair identity) = Some xs" "length xs = 32" "length (mi_signingPublicKey identity) = 32"
    and rn: "honest_random random" "length (cr_clientNonce random) = 16"
    and sh: "sharedSecretX25519 P (cr_ephemeral random) (kp_x25519PublicKey kp) = Inr shared"
      "bucketKey = None \<Longrightarrow> \<exists>scan. kp_scanPublicKey kp = Some scan \<and> (\<exists>s. sharedSecretX25519 P (cr_ephemeral random) scan = Inr s)"
      "\<And>key. bucketKey = Some key \<Longrightarrow> length key = 32"
    and mid: "\<And>m. ca_messageId options = Some m \<Longrightarrow> length m = 16"
    and p: "recover = (ca_senderRecovery options \<noteq> Some False)" "capsule_payload lower (cr_streamId random) options recover 2 = Inr (plain, n)"
      "decodeCompactPayloadBytesInner lower plain (Some (int (compactPayloadReservedTailBytes recover))) = Inr dp"
    and t: "aligned_times (ca_times options) (to_now (ca_policy options)) = Inr (createdAt, expiresAt)" "nonce_fits (ca_times options)"
      "assertCapsuleTimestampPolicy (new_header1 (ca_times options) (cr_clientNonce random) createdAt expiresAt) (ca_policy options) = Inr ()"
    and v: "privateProfilePointer (ca_profileVersion options) (ca_avatarHash options) = Inr pointer" "0 \<le> fst pointer" "fst pointer < 2 ^ 32"
  shows "sealed_or_zero P (created P lower le b identity bucketKey options random)"
proof -
  have hl: "hash_laws P" using P by (simp add: crypto_laws_def)
  note nb = normalize_exported [OF kp(1) hl kp(4)]
  define r where "r = \<lparr>rk_bundle = b, rk_x25519PublicKey = kp_x25519PublicKey kp, rk_scanPublicKey = kp_scanPublicKey kp,
     rk_mlKem768PublicKey = (if kp_suite kp = HYBRID_V1 then kp_mlKem768PublicKey kp else None)\<rparr>"
  have r: "normalizeRecipientBundle P b = Inr r" "rk_bundle r = b" "rk_x25519PublicKey r = kp_x25519PublicKey kp"
      "rk_scanPublicKey r = kp_scanPublicKey kp"
    using nb by (simp_all add: r_def)
  have bs: "kb_suite b = HYBRID_V1" "kb_contractSuite b = 2"
    using kp(4,5) kp(1) unfolding export_Inr [OF kp(1) hl] by (auto simp: key_pair_ok_def suiteContract_def CONTRACT_HYBRID_def)
  obtain pf where pf: "compactPayloadContent plain (Some (int (compactPayloadReservedTailBytes recover))) = Inr pf" "pf_sizeClass pf = n"
    using capsule_payload_class [OF p(2)] by blast
  have n: "n \<in> {1, 2, 4, 8, 16, 32}" using payload_length(2) [OF pf(1)] pf(2) by simp
  have eph: "length (cr_ephemeral random) = 32" using rn(1) by (simp add: honest_random_def)
  have "length (snd pointer) = 32" using v(1) by (auto simp: privateProfilePointer_def Let_def res_simps uint256Bytes_length)
  then obtain ib where ib: "privateCapsuleIdentityBytes (mi_signingPublicKey identity) (Some (fst pointer)) (snd pointer) = Inr ib"
    using id(5) v(2,3) by (simp add: privateCapsuleIdentityBytes_def assertLength_def or_default_def uint32Bytes_def
        PLATHO_COMPACT_IDENTITY_BYTES_def Let_def del: be_bytes.simps)
  obtain bytes1 where h1: "privateCapsuleHeader1Bytes (new_header1 (ca_times options) (cr_clientNonce random) createdAt expiresAt) = Inr bytes1"
    using aligned_header1 [OF t(1,2) rn(2)] by blast
  have sx: "sharedSecretX25519 P (cr_ephemeral random) (rk_x25519PublicKey r) = Inr shared" using sh(1) r(3) by simp
  note seal = seal_outcome [OF P kp r(1) rn(1) id(1-4) ib _ h1 _ _ p(3) pf(1) _ _ sx, where e = None and options = options, unfolded pf(2) seal_without_encapsulation]
  show ?thesis
  proof (cases bucketKey)
    case (Some key)
    obtain bytes0 where "capsuleHeader0Bytes ((blank_header0 KIND_CONV PUBLISH_CONV n 2 HYBRID_V1)
        \<lparr>h0_bucketKey := Some (U256Text (base64urlEncode key))\<rparr>) = Inr bytes0"
      using conv_header0_exists [OF n sh(3) [OF Some]] by blast
    from seal [OF this, unfolded create_extra_def [abs_def]] show ?thesis
      using p(2) sh(3) Some mid
      by (simp add: Let_def created_def createEncryptedConvCapsule_def assertLength_def r bs assertSupportedPrivateSuite_def p(1) t v(1)
          signature_payload_exists blank_header0_def json_of_u256_def KIND_CONV_def KIND_INTRO_def str_def)
  next
    case None
    obtain scan s where scan: "kp_scanPublicKey kp = Some scan" "sharedSecretX25519 P (cr_ephemeral random) scan = Inr s"
      using sh(2) None by blast
    obtain tag bytes0 where
        "deriveStealthViewTagForRecipient P (cr_ephemeral random) (p_x25519_public P (cr_ephemeral random)) scan = Inr tag"
        "capsuleHeader0Bytes ((blank_header0 KIND_PRIVATE PUBLISH_PRIVATE n 2 HYBRID_V1)
          \<lparr>h0_senderKeyId := Some (kp_keyId (mi_encryptionKeyPair identity)),
           h0_ephemeralScanPub := Some (base64urlEncode (p_x25519_public P (cr_ephemeral random))), h0_viewTag := Some (int tag)\<rparr>) = Inr bytes0"
      using private_header0_found [OF id(1,2) P n scan] by blast
    with seal [OF this(2), unfolded create_extra_def [abs_def]] show ?thesis
      using p(2) None scan(1) mid
      by (simp add: Let_def created_def createEncryptedPrivateCapsuleFromPublicBundle_def createEncryptedPrivateCapsuleForVerifiedRecipient_def
          assertLength_def r bs assertSupportedPrivateSuite_def p(1) t v(1) signature_payload_exists blank_header0_def json_of_u256_def KIND_PRIVATE_def KIND_INTRO_def str_def)
  qed
qed

text \<open>
  C7: A message to a valid recipient can always be sealed. Let the recipient's exported hybrid bundle and
  the sender's hybrid identity be well formed, and the random bytes have their lengths. Take any text,
  image or document whose bytes, with the wallets and the username it names, leave room in its size class
  for the reserved tail (the largest class if none is asked for), or the encoding of such a message; any
  times in order, not ahead of the clock by more than the skew, whose lifetime the policy allows once
  rounded outwards to seconds; and any profile pointer in range. Then the encoder, the alignment of the
  times, the policy, both headers, the encryption, the cells and the signature all accept it, in the flow
  with a view tag and in the one with a bucket key, and the result is the capsule with its draft. The one
  exception is a SHA-256 digest of nothing but zero bytes, which the code refuses by name. The agreement
  of the ephemeral key with the recipient's keys is supposed not to be all zero, as it is for every point
  that is not of low order.
\<close>

theorem capsule_created:
  assumes P: "crypto_laws P" "lowers_ascii lower"
    and kp: "key_pair_ok P kp" "kp_x25519SecretKey kp = Some sk" "length sk = 32" "exportPublicKeyBundle kp = Inr b" "kp_suite kp = HYBRID_V1"
    and id: "key_pair_ok P (mi_encryptionKeyPair identity)" "kp_suite (mi_encryptionKeyPair identity) = HYBRID_V1"
      "kp_x25519SecretKey (mi_encryptionKeyPair identity) = Some xs" "length xs = 32" "length (mi_signingPublicKey identity) = 32"
    and rn: "honest_random random" "length (cr_clientNonce random) = 16" "length (cr_streamId random) = 16"
    and ag: "agrees P (cr_ephemeral random) (kp_x25519PublicKey kp)"
      "bucketKey = None \<Longrightarrow> \<exists>scan. kp_scanPublicKey kp = Some scan \<and> agrees P (cr_ephemeral random) scan"
      "\<And>key. bucketKey = Some key \<Longrightarrow> length key = 32"
    and mid: "\<And>m. ca_messageId options = Some m \<Longrightarrow> length m = 16"
    and fits: "payload_fits lower options (compactPayloadReservedTailBytes (ca_senderRecovery options \<noteq> Some False))"
      "times_fit (ca_times options) (ca_policy options)" "nonce_fits (ca_times options)"
      "profile_fits (ca_profileVersion options) (ca_avatarHash options)"
  shows "sealed_or_zero P (created P lower le b identity bucketKey options random)"
proof -
  define recover where "recover = (ca_senderRecovery options \<noteq> Some False)"
  obtain plain n dp where p: "capsule_payload lower (cr_streamId random) options recover 2 = Inr (plain, n)"
      "decodeCompactPayloadBytesInner lower plain (Some (int (compactPayloadReservedTailBytes recover))) = Inr dp"
    using payload_accepted [OF fits(1) P(2) rn(3)] unfolding recover_def by blast
  obtain c e where t: "aligned_times (ca_times options) (to_now (ca_policy options)) = Inr (c, e)"
      "assertCapsuleTimestampPolicy (new_header1 (ca_times options) (cr_clientNonce random) c e) (ca_policy options) = Inr ()"
    using times_accepted [OF fits(2)] by blast
  obtain pointer where v: "privateProfilePointer (ca_profileVersion options) (ca_avatarHash options) = Inr pointer" "0 \<le> fst pointer"
      "fst pointer < 2 ^ 32"
    using profile_accepted [OF fits(4)] by blast
  have eph: "length (cr_ephemeral random) = 32" using rn(1) by (simp add: honest_random_def)
  have al: "agreement_laws P" using P(1) by (simp add: crypto_laws_def)
  have kl: "length (kp_x25519PublicKey kp) = 32" "\<And>scan. kp_scanPublicKey kp = Some scan \<Longrightarrow> length scan = 32"
    using kp(1) by (simp_all add: key_pair_ok_def)
  have scan: "\<exists>scan. kp_scanPublicKey kp = Some scan \<and> (\<exists>s. sharedSecretX25519 P (cr_ephemeral random) scan = Inr s)" if "bucketKey = None"
    using ag(2) [OF that] shared_found [OF al eph] kl(2) by blast
  show ?thesis
    by (rule capsule_created_aux [OF P(1) kp id rn(1,2) shared_found [OF al eph kl(1) ag(1)] scan ag(3) mid recover_def p t(1) fits(3) t(2) v])
qed

section \<open>End to end\<close>

lemma key_id_canonical:
  assumes "key_pair_ok P kp" shows "\<exists>m. kp_keyId kp = base64urlEncode m"
proof -
  have "kp_suite kp = CLASSICAL_V1 \<or> kp_suite kp = HYBRID_V1" using assms by (auto simp: key_pair_ok_def suiteContract_def split: if_splits)
  then show ?thesis using assms
    by (auto simp: key_pair_ok_def computeClassicalKeyId_def computeHybridKeyId_def res_simps) metis+
qed

lemma kind_members [simp]: "KIND_PRIVATE \<in> set capsule_kinds" "KIND_CONV \<in> set capsule_kinds"
  by (simp_all add: capsule_kinds_def)

lemma created_verifies:
  assumes "created P lower le b identity bucketKey options random = Inr (c, draft)" "normalizeRecipientBundle P b = Inr r"
    and "assertCapsuleTimestampPolicy (cp_header1 c) later = Inr ()"
  shows "\<exists>v. verifyEncryptedPrivateCapsule P le c later = Inr v \<and> vc_capsule v = c"
proof -
  obtain header0 header1 pointer plain identityBytes bodyBytes o' where
    s: "sealed_with P le identity header0 header1 pointer plain b (cr_body random)
        (create_extra P options (cr_ephemeral random) (ca_senderRecovery options \<noteq> Some False)) c draft identityBytes bodyBytes o'"
    and k: "cp_kind c = h0_kind header0" "h0_kind header0 = (if bucketKey = None then KIND_PRIVATE else KIND_CONV)" "h1_version header1 = 1"
    using created_Inr [OF assms(1,2)] by blast
  have "assertCapsuleTimestampPolicy header1 later = Inr ()" using s assms(3) by (simp add: sealed_with_def)
  with sealed_verifies [OF s k(1) _ k(3)] show ?thesis using k(2) by simp
qed

lemma capsule_end_to_end_aux:
  assumes P: "crypto_laws P" and kp: "key_pair_ok P kp" "kp_x25519SecretKey kp = Some sk" "length sk = 32" "exportPublicKeyBundle kp = Inr b"
    and r: "normalizeRecipientBundle P b = Inr r" "kb_contractSuite (rk_bundle r) = contract"
    and id: "mi_signingPublicKey identity = p_ed_public P (mi_signingSecretKey identity)" "key_pair_ok P (mi_encryptionKeyPair identity)"
      "kp_keyId (mi_encryptionKeyPair identity) \<noteq> kp_keyId kp"
    and rn: "honest_random random" and rec: "recover = (ca_senderRecovery options \<noteq> Some False)"
    and c: "created P lower le b identity bucketKey options random = Inr (c, draft)"
    and p: "capsule_payload lower (cr_streamId random) options recover contract = Inr (plain, n)"
      "decodeCompactPayloadBytesInner lower plain (Some (int (compactPayloadReservedTailBytes recover))) = Inr dp"
    and t: "assertCapsuleTimestampPolicy (cp_header1 c) later = Inr ()"
  shows "(\<exists>op. openEncryptedPrivateCapsule P lower le ops None c kp later None = (Inr op, None) \<and> oc_payload op = dp
      \<and> oc_openedAs op = AsRecipient \<and> oc_senderSigningPublicKey op = mi_signingPublicKey identity \<and> oc_capsule op = c \<and> oc_publish op = draft)
    \<and> (\<exists>op. openPrivateCapsuleChainEntry P lower le ops None (entry_of_draft draft) kp later None = (Inr op, None) \<and> oc_payload op = dp
      \<and> oc_openedAs op = AsRecipient \<and> oc_senderSigningPublicKey op = mi_signingPublicKey identity \<and> cp_id (oc_capsule op) = cp_id c)
    \<and> (recover \<longrightarrow> (\<exists>op. openEncryptedPrivateCapsule P lower le ops None c (mi_encryptionKeyPair identity) later
          (Some (kp_keyId (mi_encryptionKeyPair identity))) = (Inr op, None) \<and> oc_payload op = dp \<and> oc_openedAs op = AsSender))"
proof -
  obtain header0 header1 pointer identityBytes bodyBytes o' where
    s: "sealed_with P le identity header0 header1 pointer plain b (cr_body random) (create_extra P options (cr_ephemeral random) recover) c draft
        identityBytes bodyBytes o'"
    and k: "cp_kind c = h0_kind header0" "h0_kind header0 = (if bucketKey = None then KIND_PRIVATE else KIND_CONV)" "h1_version header1 = 1"
      "h0_senderKeyId header0 = (if bucketKey = None then Some (kp_keyId (mi_encryptionKeyPair identity)) else None)"
    using created_Inr [OF c r(1)] p(1) rec r(2) by auto
  have hd: "cp_header0 c = header0" "cp_header1 c = header1" using s by (simp_all add: sealed_with_def)
  obtain m where m: "kp_keyId (mi_encryptionKeyPair identity) = base64urlEncode m" using key_id_canonical [OF id(2)] by blast
  define ident where "ident = \<lparr>id_signingPublicKey = mi_signingPublicKey identity, id_profileVersion = fst pointer, id_avatarHash = hex256 (snd pointer)\<rparr>"
  have t1: "assertCapsuleTimestampPolicy header1 later = Inr ()" using t hd by simp
  have kc: "h0_kind header0 \<in> set capsule_kinds" "h0_kind header0 = KIND_PRIVATE \<or> h0_kind header0 = KIND_CONV" using k(2) by simp_all
  note v = sealed_verifies [OF s k(1) kc(1) k(3) t1]
  obtain w where w: "privateCapsuleFromChainEntry P le (entry_of_draft draft) later = Inr w" "vc_bodyBytes w = bodyBytes"
      "cp_id (vc_capsule w) = cp_id c" "cp_hashes (vc_capsule w) = cp_hashes c"
      "h0_senderKeyId (cp_header0 (vc_capsule w)) = (if h0_kind header0 = KIND_PRIVATE then Some (base64urlEncode m) else None)"
    using sealed_from_chain [OF s kc(2) t1, of m] k(2,4) m by (auto split: if_splits)
  note dv = sealed_decrypts [OF P kp r(1) rn s p(2) _ _ refl ident_def]
  have sig: "verifyPrivateCapsuleSenderSignature P le c ident = Inr (mi_signingPublicKey identity)"
    using sealed_signature [OF _ id(1) s ident_def] P by (simp add: crypto_laws_def)
  have d1: "decrypt_verified P lower \<lparr>vc_capsule = c, vc_publish = draft, vc_bodyBytes = bodyBytes\<rparr> kp None
      = Inr (\<lparr>ob_payload = dp, ob_identity = Some ident, ob_openedAs = AsRecipient, ob_keyId = kp_keyId kp\<rparr>, ident)"
    using id(3) k(4) by (intro dv(1)) (auto simp: hd)
  have d2: "decrypt_verified P lower w kp None
      = Inr (\<lparr>ob_payload = dp, ob_identity = Some ident, ob_openedAs = AsRecipient, ob_keyId = kp_keyId kp\<rparr>, ident)"
    using id(3) m by (intro dv(1)) (auto simp: w)
  have d3: "recover \<Longrightarrow> decrypt_verified P lower \<lparr>vc_capsule = c, vc_publish = draft, vc_bodyBytes = bodyBytes\<rparr>
        (mi_encryptionKeyPair identity) (Some (kp_keyId (mi_encryptionKeyPair identity)))
      = Inr (\<lparr>ob_payload = dp, ob_identity = Some ident, ob_openedAs = AsSender, ob_keyId = kp_keyId (mi_encryptionKeyPair identity)\<rparr>, ident)"
    by (rule dv(2)) simp_all
  have i: "id_signingPublicKey ident = mi_signingPublicKey identity" by (simp add: ident_def)
  have l: "length (mi_signingPublicKey identity) = 32" using P id(1) by (simp add: crypto_laws_def signature_laws_def)
  show ?thesis
    using d1 d2 d3 l w(3)
    by (simp add: openEncryptedPrivateCapsule_def openPrivateCapsuleChainEntry_def v w(1) sig seen_before_def remember_def opened_result_def
        assertLength_def i)
qed

text \<open>
  C1: What is written to somebody is read by exactly the two it concerns. A private or conversation capsule
  created for a recipient's bundle verifies, and until it expires the recipient opens it with nothing but
  the key pair, obtaining the payload, the sender's signing key and profile pointer, and the capsule itself;
  the same holds of the entry the chain keeps of its draft, which has the same identifier; and, if the
  capsule carries the recovery section, its sender opens it too.
\<close>

theorem capsule_end_to_end:
  assumes P: "crypto_laws P" and kp: "key_pair_ok P kp" "kp_x25519SecretKey kp = Some sk" "length sk = 32" "exportPublicKeyBundle kp = Inr b"
    and r: "normalizeRecipientBundle P b = Inr r" "kb_contractSuite (rk_bundle r) = contract"
    and id: "mi_signingPublicKey identity = p_ed_public P (mi_signingSecretKey identity)" "key_pair_ok P (mi_encryptionKeyPair identity)"
      "kp_keyId (mi_encryptionKeyPair identity) \<noteq> kp_keyId kp"
    and rn: "honest_random random" and rec: "recover = (ca_senderRecovery options \<noteq> Some False)"
    and c: "created P lower le b identity bucketKey options random = Inr (c, draft)"
    and p: "capsule_payload lower (cr_streamId random) options recover contract = Inr (plain, n)"
      "decodeCompactPayloadBytesInner lower plain (Some (int (compactPayloadReservedTailBytes recover))) = Inr dp"
    and t: "assertCapsuleTimestampPolicy (cp_header1 c) later = Inr ()"
  shows "(\<exists>op. openEncryptedPrivateCapsule P lower le ops None c kp later None = (Inr op, None) \<and> oc_payload op = dp
      \<and> oc_openedAs op = AsRecipient \<and> oc_senderSigningPublicKey op = mi_signingPublicKey identity \<and> oc_capsule op = c \<and> oc_publish op = draft)
    \<and> (\<exists>op. openPrivateCapsuleChainEntry P lower le ops None (entry_of_draft draft) kp later None = (Inr op, None) \<and> oc_payload op = dp
      \<and> oc_openedAs op = AsRecipient \<and> oc_senderSigningPublicKey op = mi_signingPublicKey identity \<and> cp_id (oc_capsule op) = cp_id c)
    \<and> (recover \<longrightarrow> (\<exists>op. openEncryptedPrivateCapsule P lower le ops None c (mi_encryptionKeyPair identity) later
          (Some (kp_keyId (mi_encryptionKeyPair identity))) = (Inr op, None) \<and> oc_payload op = dp \<and> oc_openedAs op = AsSender))"
  by (rule capsule_end_to_end_aux [OF assms])

section \<open>The identifier\<close>

text \<open>
  C6: A capsule's identifier commits to all it carries. Two capsules that pass verification with one
  identifier have the same header 0, the same header 1, nonce and expiry included, and the same body, or
  two different messages hashed for the one and the other have one SHA-256 digest: remembering an
  identifier is remembering the message.
\<close>

theorem capsule_id_binds:
  assumes "verifyEncryptedPrivateCapsule P le c options = Inr v" "verifyEncryptedPrivateCapsule P le c' options' = Inr v'"
    and "cp_id c = cp_id c'"
  shows "capsuleHeader0Bytes (cp_header0 c) = capsuleHeader0Bytes (cp_header0 c')
    \<and> privateCapsuleHeader1Bytes (cp_header1 c) = privateCapsuleHeader1Bytes (cp_header1 c') \<and> vc_bodyBytes v = vc_bodyBytes v'
    \<or> collision (p_sha256 P) (capsule_inputs P le (cp_header0 c) (cp_header1 c) (cp_body c))
        (capsule_inputs P le (cp_header0 c') (cp_header1 c') (cp_body c'))" (is "_ \<or> ?collision")
proof (cases ?collision)
  case False
  obtain cells cells' where x: "computePrivateCapsuleChainCells P (cp_header0 c) (cp_header1 c) (cp_body c) = Inr cells"
      "privateCapsuleHashesFromChainCells cells = Inr (cp_hashes (vc_capsule v))" "computePrivateCapsuleId P le (cp_hashes (vc_capsule v)) = Inr (cp_id c)"
      "compactBodyBytesFromCapsuleBody (cp_body c) = Inr (vc_bodyBytes v)"
    and y: "computePrivateCapsuleChainCells P (cp_header0 c') (cp_header1 c') (cp_body c') = Inr cells'"
      "privateCapsuleHashesFromChainCells cells' = Inr (cp_hashes (vc_capsule v'))"
      "computePrivateCapsuleId P le (cp_hashes (vc_capsule v')) = Inr (cp_id c)"
      "compactBodyBytesFromCapsuleBody (cp_body c') = Inr (vc_bodyBytes v')"
    using verified_hashes [OF assms(1)] verified_hashes [OF assms(2)] assms(3) by auto
  note b = same_id_same_bytes [OF False x(1-3) y(1-3)]
  have "\<exists>bs. privateCapsuleBodyBytes (cp_body c) = Inr bs" using x(1) by (auto simp: chain_cells_Inr)
  then have "vc_bodyBytes v = vc_bodyBytes v'" using b x(4) y(4) by (auto simp: privateCapsuleBodyBytes_def res_simps guard_def split: if_splits)
  then show ?thesis using b by blast
qed blast

section \<open>A concrete conversation\<close>

text \<open>A second identity with the toy primitives, as sender; the sample identity receives.\<close>

lemma toy_identity:
  assumes "length sk = 32" "length ed = 32" "length scan = 32"
  shows "\<exists>mi kp. createMessagingIdentity toy_prims None None None None sk ed scan seed = Inr mi
    \<and> createHybridKeyPair toy_prims sk seed = Inr kp
    \<and> mi_encryptionKeyPair mi = kp\<lparr>kp_scanSecretKey := Some scan, kp_scanPublicKey := Some scan\<rparr>
    \<and> mi_signingSecretKey mi = ed \<and> mi_signingPublicKey mi = p_ed_public toy_prims ed"
proof -
  have l: "length (p_x25519_public toy_prims x) = 32" "length (fst (p_mlkem_keygen toy_prims y)) = 1184"
      "length (snd (p_mlkem_keygen toy_prims y)) = 2400" "length (p_ed_public toy_prims z) = 32" for x y z
    using toy_laws by (simp_all add: crypto_law_defs)
  have "p_x25519_public toy_prims scan = scan" using assms(3) by (simp add: toy_prims_def pad_to_id)
  then show ?thesis
    by (simp add: createMessagingIdentity_def createHybridKeyPair_def computeHybridKeyId_def assertLength_def l Let_def
        MLKEM768_PUBLIC_KEY_BYTES_def)
qed

definition sender_identity :: messaging_identity where
  "sender_identity = (case createMessagingIdentity toy_prims None None None None (replicate 32 6) (replicate 32 4) (replicate 32 5)
     (replicate 1184 5) of Inr mi \<Rightarrow> mi | Inl e \<Rightarrow> undefined)"

lemma sender_identity_ok:
  "key_pair_ok toy_prims (mi_encryptionKeyPair sender_identity)" "kp_suite (mi_encryptionKeyPair sender_identity) = HYBRID_V1"
  "kp_x25519SecretKey (mi_encryptionKeyPair sender_identity) = Some (replicate 32 6)"
  "mi_signingPublicKey sender_identity = p_ed_public toy_prims (mi_signingSecretKey sender_identity)"
  "length (mi_signingPublicKey sender_identity) = 32"
proof -
  have l: "length (replicate 32 (6 :: byte)) = 32" "length (replicate 32 (4 :: byte)) = 32" "length (replicate 32 (5 :: byte)) = 32" by simp_all
  obtain mi kp where k: "createMessagingIdentity toy_prims None None None None (replicate 32 6) (replicate 32 4) (replicate 32 5) (replicate 1184 5) = Inr mi"
      "createHybridKeyPair toy_prims (replicate 32 6) (replicate 1184 5) = Inr kp"
      "mi_encryptionKeyPair mi = kp\<lparr>kp_scanSecretKey := Some (replicate 32 5), kp_scanPublicKey := Some (replicate 32 5)\<rparr>"
      "mi_signingSecretKey mi = replicate 32 4" "mi_signingPublicKey mi = p_ed_public toy_prims (replicate 32 4)"
    using toy_identity [OF l] by blast
  have s: "sender_identity = mi" unfolding sender_identity_def k(1) by simp
  note ok = createHybridKeyPair_ok [OF k(2)]
  show "key_pair_ok toy_prims (mi_encryptionKeyPair sender_identity)" "kp_suite (mi_encryptionKeyPair sender_identity) = HYBRID_V1"
    using ok key_pair_ok_scan by (simp_all add: s k(3))
  show "kp_x25519SecretKey (mi_encryptionKeyPair sender_identity) = Some (replicate 32 6)"
    using k(2) by (auto simp: s k(3) createHybridKeyPair_def Let_def res_simps)
  show "mi_signingPublicKey sender_identity = p_ed_public toy_prims (mi_signingSecretKey sender_identity)"
    by (simp only: s k(4,5))
  show "length (mi_signingPublicKey sender_identity) = 32" by (simp add: s k(5) toy_prims_def)
qed

lemma toy_key_id:
  assumes "createHybridKeyPair toy_prims sk seed = Inr kp" "pad_to 1184 seed = replicate 1184 x"
  shows "kp_keyId kp = base64urlEncode (1 # [52, 56, 49, 49] @ replicate 27 x)"
proof -
  have d: "utf8_encode (dec_string 1184) = [49, 49, 56, 52]"
    by (simp add: dec_string.simps [of 1184] dec_string.simps [of 118] dec_string.simps [of 11] dec_string.simps [of "Suc 0"])
  have q: "p_sha256 toy_prims (replicate 1184 x) = 1 # replicate 31 x" by (simp add: toy_prims_def pad_to_def)
  have t: "take 31 ([52, 56, 49, 49] @ replicate 31 x @ w) = [52, 56, 49, 49] @ replicate 27 x" for w :: bytes
    by (simp add: take_append)
  have "p_sha256 toy_prims (a @ b @ (1 # replicate 31 x) @ [49, 49, 56, 52]) = 1 # [52, 56, 49, 49] @ replicate 27 x" for a b
    using t [of "1 # rev b @ rev a @ replicate 31 1"] by (simp add: toy_prims_def pad_to_def del: take_append)
  moreover have "\<exists>pk. computeHybridKeyId toy_prims pk (replicate 1184 x) = Inr (kp_keyId kp)"
    using assms by (auto simp: createHybridKeyPair_def Let_def res_simps toy_prims_def)
  ultimately show ?thesis by (auto simp: computeHybridKeyId_def res_simps d q MLKEM768_PUBLIC_KEY_BYTES_def)
qed

lemma sample_key_ids_differ: "kp_keyId (mi_encryptionKeyPair sender_identity) \<noteq> kp_keyId sample_pair"
proof -
  have l: "length (replicate 32 (6 :: byte)) = 32" "length (replicate 32 (4 :: byte)) = 32" "length (replicate 32 (5 :: byte)) = 32"
      "length (replicate 32 (2 :: byte)) = 32" "length (replicate 32 (3 :: byte)) = 32" by simp_all
  have "kp_keyId (mi_encryptionKeyPair sender_identity) = base64urlEncode (1 # [52, 56, 49, 49] @ replicate 27 5)"
    using toy_identity [OF l(1-3), of "replicate 1184 5"] toy_key_id [of "replicate 32 6" "replicate 1184 5" _ 5]
    by (auto simp: sender_identity_def pad_to_id)
  moreover have "pad_to 1184 [] = replicate 1184 1" by (simp add: pad_to_def)
  then have "kp_keyId sample_pair = base64urlEncode (1 # [52, 56, 49, 49] @ replicate 27 1)"
    using toy_identity [OF l(4,2,5), of "[]"] toy_key_id [of "replicate 32 2" "[]" _ 1] sample_identity_created by auto
  moreover have "(1 # [52, 56, 49, 49] @ replicate 27 5) \<noteq> 1 # [52, 56, 49, 49] @ replicate 27 (1 :: byte)" by simp
  ultimately show ?thesis using base64urlEncode_inj by metis
qed

definition sample_capsule_options :: capsule_options where
  "sample_capsule_options = \<lparr>ca_policy = plain_policy 1700000000000, ca_times = sample_request (Some 60000),
     ca_payloadBytes = Some sample_payload, ca_payload = OtherInput,
     ca_compact = \<lparr>co_senderWallet = None, co_senderVaultKeyId = None, co_senderUsername = None, co_recipientWallet = None,
       co_streamId = None, co_partIndex = None, co_partCount = None, co_sizeClass = None, co_reservedTailBytes = None,
       co_mediaFormat = None\<rparr>,
     ca_profileVersion = Some 6, ca_avatarHash = Some (U256Bytes (replicate 32 8)), ca_messageId = None, ca_senderRecovery = None\<rparr>"

definition sample_capsule_random :: capsule_random where
  "sample_capsule_random = \<lparr>cr_streamId = replicate 16 7, cr_clientNonce = replicate 16 9, cr_ephemeral = replicate 32 9, cr_body = sample_random\<rparr>"

lemma sample_capsule_payload:
  "capsule_payload lower sid sample_capsule_options True 2 = Inr (sample_payload, 1)"
  by (simp add: capsule_payload_def sample_capsule_options_def assertCompactPayloadBytes_def sample_payload_read(1) or_default_def
      normalizeCapsuleSizeClass_def CAPSULE_SIZE_CLASS_def allowed_pair Let_def)

lemma sample_times:
  "aligned_times (ca_times sample_capsule_options) (to_now (plain_policy 1700000000000)) = Inr (1700000000000, 1700000060000)"
  "assertCapsuleTimestampPolicy (new_header1 (ca_times sample_capsule_options) nonce 1700000000000 1700000060000) (plain_policy 1700000000000) = Inr ()"
  "ca_policy sample_capsule_options = plain_policy 1700000000000" "nonce_fits (ca_times sample_capsule_options)"
  by (simp_all add: nonce_fits_def sample_capsule_options_def plain_policy_def sample_request_def aligned_times_def or_default_def
      alignCapsuleTimestampMs_Inr MAX_SAFE_INTEGER_def policy_Inr new_header1_def safe_js_of_int DEFAULT_CLOCK_SKEW_MS_def MAX_CAPSULE_TTL_MS_def
      res_simps)

lemma sample_honest: "honest_random sample_capsule_random" "length (cr_clientNonce sample_capsule_random) = 16"
  by (simp_all add: honest_random_def sample_capsule_random_def sample_random_def)

lemma sample_shared:
  "sharedSecretX25519 toy_prims (cr_ephemeral sample_capsule_random) (kp_x25519PublicKey sample_pair) = Inr (replicate 32 11)"
  "kp_scanPublicKey sample_pair = Some (replicate 32 3)"
  "sharedSecretX25519 toy_prims (cr_ephemeral sample_capsule_random) (replicate 32 3) = Inr (replicate 32 12)"
proof -
  have z: "map2 (+) (replicate 32 9) (replicate 32 (2 :: byte)) = replicate 32 11" "map2 (+) (replicate 32 9) (replicate 32 (3 :: byte)) = replicate 32 12"
    by (simp_all add: zip_replicate)
  show "sharedSecretX25519 toy_prims (cr_ephemeral sample_capsule_random) (kp_x25519PublicKey sample_pair) = Inr (replicate 32 11)"
      "sharedSecretX25519 toy_prims (cr_ephemeral sample_capsule_random) (replicate 32 3) = Inr (replicate 32 12)"
    using z by (simp_all add: sharedSecretX25519_def assertLength_def assertNonZeroSharedSecret_def sample_pair_ok sample_capsule_random_def)
      (simp_all add: toy_prims_def assertNonZeroSharedSecret_def)
qed (rule sample_pair_ok)

lemma sample_pointer:
  "privateProfilePointer (ca_profileVersion sample_capsule_options) (ca_avatarHash sample_capsule_options) = Inr (6, replicate 32 8)"
  by (simp add: privateProfilePointer_def sample_capsule_options_def or_default_def uint256Bytes_def assertLength_def MAX_SAFE_INTEGER_def)

lemma sample_switches: "ca_messageId sample_capsule_options = None" "ca_senderRecovery sample_capsule_options = None"
  by (simp_all add: sample_capsule_options_def)

text \<open>A message to encode: a text under a username, the sender's wallet and a size class.\<close>

definition sample_message_options :: capsule_options where
  "sample_message_options = sample_capsule_options\<lparr>ca_payloadBytes := None, ca_payload := TextInput (str ''hello''),
     ca_compact := (ca_compact sample_capsule_options)\<lparr>co_senderUsername := Some (str ''alice''), co_sizeClass := Some 2,
       co_senderWallet := Some (rawAddress \<lparr>a_workchain = - 1, a_hash = replicate 32 5\<rparr>)\<rparr>\<rparr>"

lemma sample_message_fits:
  "payload_fits lower sample_message_options (compactPayloadReservedTailBytes (ca_senderRecovery sample_message_options \<noteq> Some False))"
  "times_fit (ca_times sample_message_options) (ca_policy sample_message_options)" "nonce_fits (ca_times sample_message_options)"
  "profile_fits (ca_profileVersion sample_message_options) (ca_avatarHash sample_message_options)"
  "ca_messageId sample_message_options = None"
proof -
  have u: "username_written (Some (str ''alice'')) = str ''alice.ath''" by (simp add: username_written_def str_def dot_ath_def)
  have "is_username (str ''alice.ath'')"
    by (simp add: is_username_def str_def dot_ath_def Let_def is_username_symbol_def char_class_defs)
  then have n: "username_fits (Some (str ''alice''))" by (simp add: username_fits_def u)
  have w: "wallet_fits (Some (rawAddress \<lparr>a_workchain = - 1, a_hash = replicate 32 5\<rparr>))"
    using Compact_Payload.sample_wallet by (simp add: wallet_fits_def wallet_given_def rawAddress_def)
  have b: "length (utf8_encode (str ''hello'')) = 5" by (simp add: str_def)
  show "payload_fits lower sample_message_options (compactPayloadReservedTailBytes (ca_senderRecovery sample_message_options \<noteq> Some False))"
    by (simp add: payload_fits_def sample_message_options_def sample_capsule_options_def message_fits_def n w message_format_def or_default_def
        message_size_def message_body_def b u [unfolded str_def, simplified] n [unfolded str_def, simplified] str_def compactPayloadReservedTailBytes_def PLATHO_COMPACT_IDENTITY_BYTES_def
        PLATHO_COMPACT_SENDER_RECOVERY_BYTES_def wallet_fits_def [of None] wallet_given_def)
  show "times_fit (ca_times sample_message_options) (ca_policy sample_message_options)" "nonce_fits (ca_times sample_message_options)"
      "profile_fits (ca_profileVersion sample_message_options) (ca_avatarHash sample_message_options)"
      "ca_messageId sample_message_options = None"
    by (simp_all add: sample_message_options_def sample_capsule_options_def times_fit_def plain_policy_def sample_request_def created_asked_def
        expires_asked_def or_default_def DEFAULT_CLOCK_SKEW_MS_def MAX_CAPSULE_TTL_MS_def nonce_fits_def profile_fits_def avatar_fits_def)
qed

lemma sample_agrees:
  "agrees toy_prims (cr_ephemeral sample_capsule_random) (kp_x25519PublicKey sample_pair)"
  "agrees toy_prims (cr_ephemeral sample_capsule_random) (replicate 32 3)" "length (cr_streamId sample_capsule_random) = 16"
  using sample_shared
  by (auto simp: agrees_def sharedSecretX25519_def assertNonZeroSharedSecret_def res_simps sample_capsule_random_def)

theorem capsule_created_witness:
  "\<exists>b. exportPublicKeyBundle sample_pair = Inr b
    \<and> sealed_or_zero toy_prims (created toy_prims ascii_lower lex_le b sender_identity None sample_message_options sample_capsule_random)"
proof -
  obtain b where b: "exportPublicKeyBundle sample_pair = Inr b" using sample_bundle by blast
  have l: "length (replicate 32 (2 :: byte)) = 32" "length (replicate 32 (6 :: byte)) = 32" by simp_all
  have "sealed_or_zero toy_prims (created toy_prims ascii_lower lex_le b sender_identity None sample_message_options sample_capsule_random)"
    by (rule capsule_created [OF toy_laws lowers_ascii_ascii_lower sample_pair_ok(1,5) l(1) b sample_pair_ok(2) sender_identity_ok(1-3) l(2)
          sender_identity_ok(5) sample_honest sample_agrees(3,1)])
      (simp_all add: sample_agrees sample_shared sample_message_fits)
  with b show ?thesis by blast
qed

lemma be_value_zero_hd: "bs \<noteq> [] \<Longrightarrow> hd bs \<noteq> 0 \<Longrightarrow> be_value bs \<noteq> 0"
proof (induction bs rule: rev_induct)
  case (snoc b bs)
  then show ?case using be_value_snoc [of bs b] by (cases "bs = []") (auto simp: unat_eq_zero hd_append)
qed simp

lemma toy_digest_not_zero: "be_value (p_sha256 toy_prims m) \<noteq> 0"
proof -
  have "p_sha256 toy_prims m \<noteq> [] \<and> hd (p_sha256 toy_prims m) \<noteq> 0" by (simp add: toy_prims_def)
  then show ?thesis using be_value_zero_hd by blast
qed

lemma sample_created:
  assumes "bucketKey = None \<or> bucketKey = Some (replicate 32 7)"
  shows "\<exists>b c draft. exportPublicKeyBundle sample_pair = Inr b
    \<and> created toy_prims ascii_lower lex_le b sender_identity bucketKey sample_capsule_options sample_capsule_random = Inr (c, draft)"
proof -
  obtain b where b: "exportPublicKeyBundle sample_pair = Inr b" using sample_bundle by blast
  have l: "length (replicate 32 (2 :: byte)) = 32" "length (replicate 32 (6 :: byte)) = 32" by simp_all
  have "sealed_or_zero toy_prims (created toy_prims ascii_lower lex_le b sender_identity bucketKey sample_capsule_options sample_capsule_random)"
    by (rule capsule_created_aux [OF toy_laws sample_pair_ok(1,5) l(1) b sample_pair_ok(2) sender_identity_ok(1-3) l(2) sender_identity_ok(5)
          sample_honest sample_shared(1), where recover = True and plain = sample_payload and dp = sample_decoded
          and createdAt = 1700000000000 and expiresAt = 1700000060000 and pointer = "(6, replicate 32 8)"])
      (use assms in \<open>auto simp add: sample_shared sample_switches sample_capsule_payload sample_payload_read(2) sample_times sample_pointer\<close>)
  with b show ?thesis using toy_digest_not_zero by (auto simp: sealed_or_zero_def)
qed

text \<open>A replay store that is not asked, since the witness passes none.\<close>

definition no_store :: "unit replay_ops" where
  "no_store = \<lparr>rc_has = (\<lambda>c x. (False, c)), rc_add = (\<lambda>c x e. c)\<rparr>"

lemma sample_header1:
  assumes "created toy_prims ascii_lower lex_le b sender_identity (Some key) sample_capsule_options sample_capsule_random = Inr (c, draft)"
  shows "assertCapsuleTimestampPolicy (cp_header1 c) (plain_policy 1700000001000) = Inr ()"
  using assms
  by (auto simp: created_def createEncryptedConvCapsule_def seal_capsule_def Let_def res_simps sample_times(3) sample_times(1) [unfolded plain_policy_def, simplified] new_header1_def policy_Inr
      plain_policy_def or_default_def safe_js_of_int MAX_SAFE_INTEGER_def DEFAULT_CLOCK_SKEW_MS_def MAX_CAPSULE_TTL_MS_def)

lemma sample_recipient:
  assumes "exportPublicKeyBundle sample_pair = Inr b"
  shows "\<exists>r. normalizeRecipientBundle toy_prims b = Inr r \<and> kb_contractSuite (rk_bundle r) = 2"
  using assms normalize_exported [OF sample_pair_ok(1,6) assms] sample_pair_ok(1,2) unfolding export_Inr [OF sample_pair_ok(1,6)]
  by (auto simp: key_pair_ok_def suiteContract_def CONTRACT_HYBRID_def)

lemma sample_opens:
  assumes b: "exportPublicKeyBundle sample_pair = Inr b"
    and c: "created toy_prims ascii_lower lex_le b sender_identity (Some (replicate 32 7)) sample_capsule_options sample_capsule_random = Inr (c, draft)"
  shows "\<exists>op. openEncryptedPrivateCapsule toy_prims ascii_lower lex_le ops None c sample_pair (plain_policy 1700000001000) None = (Inr op, None)
    \<and> oc_capsule op = c"
proof -
  have l: "length (replicate 32 (2 :: byte)) = 32" by simp
  obtain r where r: "normalizeRecipientBundle toy_prims b = Inr r" "kb_contractSuite (rk_bundle r) = 2" using sample_recipient [OF b] by blast
  have rec: "True = (ca_senderRecovery sample_capsule_options \<noteq> Some False)" by (simp add: sample_switches)
  show ?thesis
    using capsule_end_to_end_aux [OF toy_laws sample_pair_ok(1,5) l b r sender_identity_ok(4,1) sample_key_ids_differ
      sample_honest(1) rec c sample_capsule_payload sample_payload_read(2) sample_header1 [OF c], of ops] by blast
qed

theorem capsule_end_to_end_witness:
  "\<exists>b c draft op. exportPublicKeyBundle sample_pair = Inr b
    \<and> created toy_prims ascii_lower lex_le b sender_identity (Some (replicate 32 7)) sample_capsule_options sample_capsule_random = Inr (c, draft)
    \<and> openEncryptedPrivateCapsule toy_prims ascii_lower lex_le no_store None c sample_pair (plain_policy 1700000001000) None = (Inr op, None)
    \<and> oc_payload op = sample_decoded"
proof -
  obtain b c draft where b: "exportPublicKeyBundle sample_pair = Inr b"
      "created toy_prims ascii_lower lex_le b sender_identity (Some (replicate 32 7)) sample_capsule_options sample_capsule_random = Inr (c, draft)"
    using sample_created [of "Some (replicate 32 7)"] by blast
  have l: "length (replicate 32 (2 :: byte)) = 32" by simp
  obtain r where r: "normalizeRecipientBundle toy_prims b = Inr r" "kb_contractSuite (rk_bundle r) = 2" using sample_recipient [OF b(1)] by blast
  have rec: "True = (ca_senderRecovery sample_capsule_options \<noteq> Some False)" by (simp add: sample_switches)
  note e = capsule_end_to_end [OF toy_laws sample_pair_ok(1,5) l b(1) r sender_identity_ok(4,1) sample_key_ids_differ
      sample_honest(1) rec b(2) sample_capsule_payload sample_payload_read(2) sample_header1 [OF b(2)], of no_store]
  show ?thesis using e b by blast
qed

lemma another_signature:
  assumes "verifyEncryptedPrivateCapsule P le c options = Inr v" "length s = 64"
  shows "\<exists>v'. verifyEncryptedPrivateCapsule P le (c\<lparr>cp_senderSignature := Some (base64urlEncode s)\<rparr>) options = Inr v'"
  using assms unfolding verifyEncryptedPrivateCapsule_def Let_def
  by (auto simp: res_simps privateCapsulePublishDraft_def)

theorem capsule_id_binds_witness:
  "\<exists>b c draft v v'. exportPublicKeyBundle sample_pair = Inr b
    \<and> created toy_prims ascii_lower lex_le b sender_identity (Some (replicate 32 7)) sample_capsule_options sample_capsule_random = Inr (c, draft)
    \<and> verifyEncryptedPrivateCapsule toy_prims lex_le c (plain_policy 1700000001000) = Inr v
    \<and> verifyEncryptedPrivateCapsule toy_prims lex_le (c\<lparr>cp_senderSignature := Some (base64urlEncode (replicate 64 0))\<rparr>) (plain_policy 1700000001000)
        = Inr v'
    \<and> (vc_bodyBytes v = vc_bodyBytes v'
       \<or> collision (p_sha256 toy_prims) (capsule_inputs toy_prims lex_le (cp_header0 c) (cp_header1 c) (cp_body c))
           (capsule_inputs toy_prims lex_le (cp_header0 c) (cp_header1 c) (cp_body c)))"
proof -
  obtain b c draft where b: "exportPublicKeyBundle sample_pair = Inr b"
      "created toy_prims ascii_lower lex_le b sender_identity (Some (replicate 32 7)) sample_capsule_options sample_capsule_random = Inr (c, draft)"
    using sample_created [of "Some (replicate 32 7)"] by blast
  obtain r where r: "normalizeRecipientBundle toy_prims b = Inr r"
    using normalize_exported [OF sample_pair_ok(1,6) b(1)] by auto
  obtain v where v: "verifyEncryptedPrivateCapsule toy_prims lex_le c (plain_policy 1700000001000) = Inr v"
    using created_verifies [OF b(2) r sample_header1 [OF b(2)]] by blast
  obtain v' where v': "verifyEncryptedPrivateCapsule toy_prims lex_le (c\<lparr>cp_senderSignature := Some (base64urlEncode (replicate 64 0))\<rparr>)
      (plain_policy 1700000001000) = Inr v'"
    using another_signature [OF v, of "replicate 64 0"] by auto
  have "cp_id c = cp_id (c\<lparr>cp_senderSignature := Some (base64urlEncode (replicate 64 0))\<rparr>)" by simp
  from capsule_id_binds [OF v v' this] have "vc_bodyBytes v = vc_bodyBytes v'
      \<or> collision (p_sha256 toy_prims) (capsule_inputs toy_prims lex_le (cp_header0 c) (cp_header1 c) (cp_body c))
           (capsule_inputs toy_prims lex_le (cp_header0 c) (cp_header1 c) (cp_body c))" by auto
  then show ?thesis using b v v' by blast
qed

end
