(* ===== verification/Replay_Store.thy ===== *)
theory Replay_Store
  imports Capsule_Guarantees
begin

text \<open>
  The replay caches (\<open>web/replay-store.mjs\<close>) and what they are for. \<open>createMemoryReplayStore\<close> is a map
  from identifiers to expiry times that forgets what has expired; the sealed guard answers from a set
  that never forgets (its rows in IndexedDB, and the sealing of them, are not modelled). A cache is an
  instance of the locale \<open>replay_cache\<close>, under whose laws a session of opens, refusals, prunings and
  passing time never opens one capsule twice.
\<close>

section \<open>The stores\<close>

definition expired :: "int \<Rightarrow> js_num \<Rightarrow> bool" where
  "expired now expiresAt = (case expiresAt of Fin r \<Rightarrow> r \<le> of_int now | _ \<Rightarrow> False)"






text \<open>The set the sealed guard answers from; its \<open>prune\<close> does nothing and its \<open>add\<close> ignores the expiry.\<close>

definition guard_has :: "js_string set \<Rightarrow> js_string \<Rightarrow> bool" where
  "guard_has seen i = (i \<in> seen)"

definition guard_add :: "js_string set \<Rightarrow> js_string \<Rightarrow> js_string set" where
  "guard_add seen i = (if i \<in> seen then seen else insert i seen)"

definition guard_ops :: "int \<Rightarrow> js_string set replay_ops" where
  "guard_ops now = \<lparr>rc_has = (\<lambda>seen i. (guard_has seen i, seen)), rc_add = (\<lambda>seen i e. guard_add seen i)\<rparr>"

definition guard_prune :: "int \<Rightarrow> js_string set \<Rightarrow> js_string set" where
  "guard_prune now seen = seen"

section \<open>A session\<close>

text \<open>
  One entry of the log: the capsule that was opened, the time on the clock the store reads, the time the
  timestamp policy was given (\<open>options.now\<close>, which the client takes from the chain), and whether the policy
  enforced the expiry: an open of a capsule does unless told otherwise, one of a chain entry only if told to.
\<close>

record logged_open =
  op_capsule :: capsule
  op_at :: int
  op_policyNow :: int
  op_enforced :: bool

record 'c replay_session =
  rs_now :: int
  rs_cache :: 'c
  rs_log :: "logged_open list"

text \<open>
  One client with one key pair. Time passes, the store is pruned, capsules and chain entries are opened
  one after the other, each with the cache and with any options; the log, newest first, keeps what was opened.
\<close>

inductive replay_step ::
    "prims \<Rightarrow> (js_string \<Rightarrow> js_string) \<Rightarrow> (js_string \<Rightarrow> js_string \<Rightarrow> bool) \<Rightarrow> (int \<Rightarrow> 'c replay_ops) \<Rightarrow> (int \<Rightarrow> 'c \<Rightarrow> 'c)
      \<Rightarrow> 'c replay_session \<Rightarrow> 'c replay_session \<Rightarrow> bool"
  for P lower le ops prune where
  tick: "rs_now s \<le> later \<Longrightarrow> replay_step P lower le ops prune s (s\<lparr>rs_now := later\<rparr>)"
| prune: "replay_step P lower le ops prune s (s\<lparr>rs_cache := prune (rs_now s) (rs_cache s)\<rparr>)"
| opened: "openEncryptedPrivateCapsule P lower le (ops (rs_now s)) (Some (rs_cache s)) c kp options own = (Inr oc, Some cache')
    \<Longrightarrow> replay_step P lower le ops prune s (s\<lparr>rs_cache := cache', rs_log :=
      \<lparr>op_capsule = oc_capsule oc, op_at = rs_now s, op_policyNow = to_now options,
        op_enforced = (to_enforceExpiry options \<noteq> Some False)\<rparr> # rs_log s\<rparr>)"
| opened_entry: "openPrivateCapsuleChainEntry P lower le (ops (rs_now s)) (Some (rs_cache s)) entry kp options own = (Inr oc, Some cache')
    \<Longrightarrow> replay_step P lower le ops prune s (s\<lparr>rs_cache := cache', rs_log :=
      \<lparr>op_capsule = oc_capsule oc, op_at = rs_now s, op_policyNow = to_now options,
        op_enforced = (to_enforceExpiry options = Some True)\<rparr> # rs_log s\<rparr>)"
| refused: "openEncryptedPrivateCapsule P lower le (ops (rs_now s)) (Some (rs_cache s)) c kp options own = (Inl e, Some cache')
    \<Longrightarrow> replay_step P lower le ops prune s (s\<lparr>rs_cache := cache'\<rparr>)"
| refused_entry: "openPrivateCapsuleChainEntry P lower le (ops (rs_now s)) (Some (rs_cache s)) entry kp options own = (Inl e, Some cache')
    \<Longrightarrow> replay_step P lower le ops prune s (s\<lparr>rs_cache := cache'\<rparr>)"

inductive_cases replay_stepE: "replay_step P lower le ops prune s s'"

inductive reachable_session ::
    "prims \<Rightarrow> (js_string \<Rightarrow> js_string) \<Rightarrow> (js_string \<Rightarrow> js_string \<Rightarrow> bool) \<Rightarrow> (int \<Rightarrow> 'c replay_ops) \<Rightarrow> (int \<Rightarrow> 'c \<Rightarrow> 'c)
      \<Rightarrow> 'c \<Rightarrow> 'c replay_session \<Rightarrow> bool"
  for P lower le ops prune c0 where
  start: "reachable_session P lower le ops prune c0 \<lparr>rs_now = now, rs_cache = c0, rs_log = []\<rparr>"
| step: "reachable_session P lower le ops prune c0 s \<Longrightarrow> replay_step P lower le ops prune s s'
    \<Longrightarrow> reachable_session P lower le ops prune c0 s'"

section \<open>An identifier has one expiry\<close>

definition expiry :: "capsule \<Rightarrow> js_num" where
  "expiry c = h1_expiresAt (cp_header1 c)"

text \<open>The identifier is the one computed from the contents, as verification and the chain reader ensure.\<close>

definition well_named :: "prims \<Rightarrow> (js_string \<Rightarrow> js_string \<Rightarrow> bool) \<Rightarrow> capsule \<Rightarrow> bool" where
  "well_named P le c \<longleftrightarrow> (\<exists>cells hs. computePrivateCapsuleChainCells P (cp_header0 c) (cp_header1 c) (cp_body c) = Inr cells
     \<and> privateCapsuleHashesFromChainCells cells = Inr hs \<and> computePrivateCapsuleId P le hs = Inr (cp_id c))"

text \<open>Two capsules of one identifier and different expiries, and the collision their hashing contains.\<close>

definition forged_pair :: "prims \<Rightarrow> (js_string \<Rightarrow> js_string \<Rightarrow> bool) \<Rightarrow> capsule \<Rightarrow> capsule \<Rightarrow> bool" where
  "forged_pair P le c c' \<longleftrightarrow> cp_id c = cp_id c' \<and> expiry c \<noteq> expiry c'
     \<and> collision (p_sha256 P) (capsule_inputs P le (cp_header0 c) (cp_header1 c) (cp_body c))
         (capsule_inputs P le (cp_header0 c') (cp_header1 c') (cp_body c'))"

lemma header1_expiry:
  assumes "privateCapsuleHeader1Bytes h = Inr bytes" "privateCapsuleHeader1Bytes h' = Inr bytes"
  shows "h1_expiresAt h = h1_expiresAt h'"
proof -
  have "intOf (h1_expiresAt h) = intOf (h1_expiresAt h')" using header1_written [OF assms(1)] header1_written [OF assms(2)] by auto
  moreover have "isSafeInteger (h1_expiresAt h)" "isSafeInteger (h1_expiresAt h')"
    using assms by (auto simp: privateCapsuleHeader1Bytes_def res_simps capsuleTimestampSecond_Inr)
  ultimately show ?thesis by (cases "h1_expiresAt h"; cases "h1_expiresAt h'") (auto simp: floor_eq_iff)
qed

lemma same_id_same_expiry:
  assumes "well_named P le c" "well_named P le c'" "cp_id c = cp_id c'" "\<not> forged_pair P le c c'"
  shows "expiry c = expiry c'"
proof (rule ccontr)
  assume ne: "expiry c \<noteq> expiry c'"
  then have nc: "\<not> collision (p_sha256 P) (capsule_inputs P le (cp_header0 c) (cp_header1 c) (cp_body c))
      (capsule_inputs P le (cp_header0 c') (cp_header1 c') (cp_body c'))"
    using assms(3,4) by (simp add: forged_pair_def)
  obtain cells hs cells' hs' where x: "computePrivateCapsuleChainCells P (cp_header0 c) (cp_header1 c) (cp_body c) = Inr cells"
      "privateCapsuleHashesFromChainCells cells = Inr hs" "computePrivateCapsuleId P le hs = Inr (cp_id c)"
    and y: "computePrivateCapsuleChainCells P (cp_header0 c') (cp_header1 c') (cp_body c') = Inr cells'"
      "privateCapsuleHashesFromChainCells cells' = Inr hs'" "computePrivateCapsuleId P le hs' = Inr (cp_id c)"
    using assms(1-3) by (auto simp: well_named_def)
  have q: "privateCapsuleHeader1Bytes (cp_header1 c) = privateCapsuleHeader1Bytes (cp_header1 c')"
    using same_id_same_bytes [OF nc x y] by blast
  obtain bytes where b: "privateCapsuleHeader1Bytes (cp_header1 c) = Inr bytes" using x(1) by (auto simp: chain_cells_Inr)
  show False using header1_expiry [OF b b [unfolded q]] ne by (simp add: expiry_def)
qed

lemma policy_not_expired:
  assumes "assertCapsuleTimestampPolicy h options = Inr u" "to_enforceExpiry options \<noteq> Some False"
  shows "\<not> expired (to_now options) (h1_expiresAt h)"
  using assms unfolding policy_Inr by (cases "h1_expiresAt h") (auto simp: expired_def le_floor_iff floor_less_iff less_le_not_le)

section \<open>What an open does to the cache\<close>

definition fresh_open :: "prims \<Rightarrow> (js_string \<Rightarrow> js_string \<Rightarrow> bool) \<Rightarrow> 'c replay_ops \<Rightarrow> 'c \<Rightarrow> logged_open \<Rightarrow> 'c \<Rightarrow> bool" where
  "fresh_open P le ops cache o' cache' \<longleftrightarrow> (let c = op_capsule o' in \<not> fst (rc_has ops cache (cp_id c))
     \<and> cache' = rc_add ops (snd (rc_has ops cache (cp_id c))) (cp_id c) (expiry c) \<and> well_named P le c
     \<and> (op_enforced o' \<longrightarrow> \<not> expired (op_policyNow o') (expiry c)))"

lemma opened_Inr:
  assumes "openEncryptedPrivateCapsule P lower le ops (Some cache) c kp options own = (Inr oc, Some cache')"
  shows "fresh_open P le ops cache \<lparr>op_capsule = oc_capsule oc, op_at = t, op_policyNow = to_now options,
      op_enforced = (to_enforceExpiry options \<noteq> Some False)\<rparr> cache'"
proof -
  obtain v where v: "verifyEncryptedPrivateCapsule P le c options = Inr v" "oc_capsule oc = vc_capsule v"
      "\<not> fst (rc_has ops cache (cp_id (vc_capsule v)))"
      "cache' = rc_add ops (snd (rc_has ops cache (cp_id (vc_capsule v)))) (cp_id (vc_capsule v)) (h1_expiresAt (cp_header1 (vc_capsule v)))"
    using assms(1) by (auto simp: openEncryptedPrivateCapsule_def seen_before_def remember_def res_simps opened_result_def
        split: sum.splits prod.splits if_splits)
  have t: "assertCapsuleTimestampPolicy (cp_header1 c) options = Inr ()"
    using v(1) by (auto simp: verifyEncryptedPrivateCapsule_def res_simps)
  show ?thesis
    using v verified_hashes [OF v(1)] policy_not_expired [OF t] by (auto simp: fresh_open_def well_named_def expiry_def)
qed

lemma opened_entry_Inr:
  assumes "openPrivateCapsuleChainEntry P lower le ops (Some cache) entry kp options own = (Inr oc, Some cache')"
  shows "fresh_open P le ops cache \<lparr>op_capsule = oc_capsule oc, op_at = t, op_policyNow = to_now options,
      op_enforced = (to_enforceExpiry options = Some True)\<rparr> cache'"
proof -
  obtain v where v: "privateCapsuleFromChainEntry P le entry options = Inr v" "oc_capsule oc = vc_capsule v"
      "\<not> fst (rc_has ops cache (cp_id (vc_capsule v)))"
      "cache' = rc_add ops (snd (rc_has ops cache (cp_id (vc_capsule v)))) (cp_id (vc_capsule v)) (h1_expiresAt (cp_header1 (vc_capsule v)))"
    using assms(1) by (auto simp: openPrivateCapsuleChainEntry_def seen_before_def remember_def res_simps opened_result_def
        split: sum.splits prod.splits if_splits)
  obtain cells hs u where x: "assertCapsuleTimestampPolicy (cp_header1 (vc_capsule v))
        (options\<lparr>to_enforceExpiry := Some (or_default (to_enforceExpiry options) False)\<rparr>) = Inr u"
      "computePrivateCapsuleChainCells P (cp_header0 (vc_capsule v)) (cp_header1 (vc_capsule v)) (cp_body (vc_capsule v)) = Inr cells"
      "privateCapsuleHashesFromChainCells cells = Inr hs" "computePrivateCapsuleId P le hs = Inr (cp_id (vc_capsule v))"
    using v(1) by (auto simp: privateCapsuleFromChainEntry_def res_simps Let_def)
  then show ?thesis using v(2-4) policy_not_expired [OF x(1)] by (auto simp: fresh_open_def well_named_def expiry_def or_default_def)
qed

lemma refused_cache:
  "openEncryptedPrivateCapsule P lower le ops (Some cache) c kp options own = (Inl e, Some cache')
    \<Longrightarrow> cache' = cache \<or> (\<exists>i. cache' = snd (rc_has ops cache i))"
  "openPrivateCapsuleChainEntry P lower le ops (Some cache) entry kp options own = (Inl e, Some cache')
    \<Longrightarrow> cache' = cache \<or> (\<exists>i. cache' = snd (rc_has ops cache i))"
  by (auto simp: openEncryptedPrivateCapsule_def openPrivateCapsuleChainEntry_def seen_before_def
      split: sum.splits prod.splits if_splits) (metis snd_conv)+

section \<open>The contract of a cache\<close>

text \<open>
  A store may forget what has expired on its clock; \<open>forgets\<close> says what it does forget. What then holds of two
  entries of the log, the later one first: if they are of one identifier, the later open came when the store had
  forgotten the capsule, and either its policy did not enforce the expiry or it was given a time before the store's.
\<close>

definition only_when :: "(int \<Rightarrow> js_num \<Rightarrow> bool) \<Rightarrow> logged_open \<Rightarrow> logged_open \<Rightarrow> bool" where
  "only_when forgets later earlier \<longleftrightarrow> (cp_id (op_capsule later) = cp_id (op_capsule earlier) \<longrightarrow>
     forgets (op_at later) (expiry (op_capsule earlier)) \<and> (op_enforced later \<longrightarrow> op_policyNow later < op_at later))"

definition remembers_log :: "(int \<Rightarrow> js_num \<Rightarrow> bool) \<Rightarrow> ('c \<Rightarrow> js_string \<Rightarrow> js_num \<Rightarrow> bool) \<Rightarrow> 'c replay_session \<Rightarrow> bool" where
  "remembers_log forgets kept s \<longleftrightarrow> sorted_wrt (only_when forgets) (rs_log s)
     \<and> (\<forall>c \<in> op_capsule ` set (rs_log s). kept (rs_cache s) (cp_id c) (expiry c) \<or> forgets (rs_now s) (expiry c))"

definition no_forgery :: "prims \<Rightarrow> (js_string \<Rightarrow> js_string \<Rightarrow> bool) \<Rightarrow> 'c replay_session \<Rightarrow> bool" where
  "no_forgery P le s \<longleftrightarrow> (\<forall>c \<in> op_capsule ` set (rs_log s). \<forall>c' \<in> op_capsule ` set (rs_log s). \<not> forged_pair P le c c')"

lemma expired_later: "expired now e \<Longrightarrow> now \<le> later \<Longrightarrow> expired later e"
  by (cases e) (auto simp: expired_def intro: order_trans)

locale replay_cache =
  fixes ops :: "int \<Rightarrow> 'c replay_ops"
    and prune :: "int \<Rightarrow> 'c \<Rightarrow> 'c"
    and forgets :: "int \<Rightarrow> js_num \<Rightarrow> bool"
    and kept :: "'c \<Rightarrow> js_string \<Rightarrow> js_num \<Rightarrow> bool"
  assumes has_kept: "kept c i e \<Longrightarrow> \<not> forgets now e \<Longrightarrow> fst (rc_has (ops now) c i)"
    and asking_keeps: "kept c i e \<Longrightarrow> \<not> forgets now e \<Longrightarrow> kept (snd (rc_has (ops now) c j)) i e"
    and added_kept: "kept (rc_add (ops now) c i e) i e"
    and adding_keeps: "kept c i e \<Longrightarrow> i \<noteq> j \<Longrightarrow> kept (rc_add (ops now) c j e') i e"
    and pruning_keeps: "kept c i e \<Longrightarrow> \<not> forgets now e \<Longrightarrow> kept (prune now c) i e"
    and forgets_expired: "forgets now e \<Longrightarrow> expired now e"
    and forgets_later: "forgets now e \<Longrightarrow> now \<le> later \<Longrightarrow> forgets later e"
begin

lemma remembers_cache:
  assumes "remembers_log forgets kept s" "\<And>i e. kept (rs_cache s) i e \<Longrightarrow> \<not> forgets (rs_now s) e \<Longrightarrow> kept cache' i e"
  shows "remembers_log forgets kept (s\<lparr>rs_cache := cache'\<rparr>)"
  using assms by (auto simp: remembers_log_def)

lemma remembers_opened:
  assumes s: "remembers_log forgets kept s" "\<forall>o'' \<in> set (rs_log s). well_named P le (op_capsule o'')"
    and f: "\<And>o''. o'' \<in> set (rs_log s) \<Longrightarrow> \<not> forged_pair P le (op_capsule o') (op_capsule o'')"
    and o: "fresh_open P le (ops (rs_now s)) (rs_cache s) o' cache'" "op_at o' = rs_now s"
  shows "remembers_log forgets kept (s\<lparr>rs_cache := cache', rs_log := o' # rs_log s\<rparr>)"
proof -
  let ?now = "rs_now s" and ?c = "op_capsule o'"
  have f': "\<not> fst (rc_has (ops ?now) (rs_cache s) (cp_id ?c))" "op_enforced o' \<longrightarrow> \<not> expired (op_policyNow o') (expiry ?c)"
      "well_named P le ?c" "cache' = rc_add (ops ?now) (snd (rc_has (ops ?now) (rs_cache s) (cp_id ?c))) (cp_id ?c) (expiry ?c)"
    using o by (simp_all add: fresh_open_def Let_def)
  have again: "expiry ?c = expiry (op_capsule o'') \<and> forgets ?now (expiry ?c)"
    if e: "o'' \<in> set (rs_log s)" "cp_id ?c = cp_id (op_capsule o'')" for o''
  proof -
    have x: "expiry ?c = expiry (op_capsule o'')"
      using same_id_same_expiry [OF f'(3) _ e(2) f [OF e(1)]] s(2) e(1) by blast
    have "kept (rs_cache s) (cp_id ?c) (expiry ?c) \<or> forgets ?now (expiry ?c)"
      using s(1) e x by (auto simp: remembers_log_def)
    then show ?thesis using has_kept f'(1) x by blast
  qed
  have "only_when forgets o' o''" if e: "o'' \<in> set (rs_log s)" for o''
    using again [OF e] f'(2) o(2) expired_later [OF forgets_expired, of ?now "expiry ?c" "op_policyNow o'"] by (fastforce simp: only_when_def not_le)
  moreover have "kept cache' (cp_id (op_capsule o'')) (expiry (op_capsule o'')) \<or> forgets ?now (expiry (op_capsule o''))"
    if e: "o'' \<in> set (rs_log s)" for o''
  proof (cases "forgets ?now (expiry (op_capsule o''))")
    case False
    then have "kept (rs_cache s) (cp_id (op_capsule o'')) (expiry (op_capsule o''))" using s(1) e by (auto simp: remembers_log_def)
    moreover have "cp_id (op_capsule o'') \<noteq> cp_id ?c" using again [OF e] False by metis
    ultimately have "kept cache' (cp_id (op_capsule o'')) (expiry (op_capsule o''))"
      unfolding f'(4) by (intro adding_keeps asking_keeps False)
    then show ?thesis by simp
  qed simp
  moreover have "kept cache' (cp_id ?c) (expiry ?c)" by (simp add: f'(4) added_kept)
  ultimately show ?thesis using s(1) by (simp add: remembers_log_def)
qed

lemma session_remembers:
  assumes "reachable_session P lower le ops prune c0 s"
  shows "(\<forall>o' \<in> set (rs_log s). well_named P le (op_capsule o')) \<and> (no_forgery P le s \<longrightarrow> remembers_log forgets kept s)"
  using assms
proof induction
  case (start now)
  show ?case by (simp add: remembers_log_def)
next
  case (step s s')
  have fo: "(\<forall>o' \<in> set (rs_log t). well_named P le (op_capsule o')) \<and> (no_forgery P le t \<longrightarrow> remembers_log forgets kept t)"
    if t: "t = s\<lparr>rs_cache := cache', rs_log := o' # rs_log s\<rparr>"
      and o: "fresh_open P le (ops (rs_now s)) (rs_cache s) o' cache'" "op_at o' = rs_now s"
    for t o' cache'
  proof -
    have "well_named P le (op_capsule o')" using o by (simp add: fresh_open_def Let_def)
    moreover have "remembers_log forgets kept t" if n: "no_forgery P le t"
    proof -
      have "no_forgery P le s" "\<And>o''. o'' \<in> set (rs_log s) \<Longrightarrow> \<not> forged_pair P le (op_capsule o') (op_capsule o'')"
        using n by (auto simp: no_forgery_def t)
      with remembers_opened [OF _ _ _ o] step.IH show ?thesis by (simp add: t)
    qed
    ultimately show ?thesis using step.IH by (auto simp: t)
  qed
  from step.hyps(2) show ?case
  proof (cases rule: replay_step.cases)
    case (tick later)
    then show ?thesis using step.IH forgets_later [of "rs_now s" _ later] by (auto simp: remembers_log_def no_forgery_def)
  next
    case prune
    then show ?thesis using step.IH remembers_cache [of s "prune (rs_now s) (rs_cache s)"] pruning_keeps by (auto simp: no_forgery_def)
  next
    case (opened c kp options own oc cache')
    show ?thesis by (rule fo [OF opened(1) opened_Inr [OF opened(2)]]) simp
  next
    case (opened_entry entry kp options own oc cache')
    show ?thesis by (rule fo [OF opened_entry(1) opened_entry_Inr [OF opened_entry(2)]]) simp
  next
    case (refused c kp options own e cache')
    then show ?thesis using step.IH remembers_cache [of s cache'] refused_cache(1) [OF refused(2)] asking_keeps by (auto simp: no_forgery_def)
  next
    case (refused_entry entry kp options own e cache')
    then show ?thesis using step.IH remembers_cache [of s cache'] refused_cache(2) [OF refused_entry(2)] asking_keeps by (auto simp: no_forgery_def)
  qed
qed

end

section \<open>Both stores keep the contract\<close>


interpretation guard_set: replay_cache guard_ops guard_prune "\<lambda>now e. False" "\<lambda>seen i e. i \<in> seen"
  by unfold_locales (auto simp: guard_ops_def guard_has_def guard_add_def guard_prune_def)



text \<open>With the set of the sealed guard, which forgets nothing, no identifier repeats whatever the options.\<close>

lemma replay_guard_at_most_once:
  assumes "reachable_session P lower le guard_ops guard_prune {} s"
  shows "distinct (map (\<lambda>o'. cp_id (op_capsule o')) (rs_log s)) \<and> (\<forall>c \<in> op_capsule ` set (rs_log s). cp_id c \<in> rs_cache s)
    \<or> (\<exists>c \<in> op_capsule ` set (rs_log s). \<exists>c' \<in> op_capsule ` set (rs_log s). forged_pair P le c c')"
proof (cases "no_forgery P le s")
  case True
  have "sorted_wrt (only_when (\<lambda>now e. False)) os \<Longrightarrow> distinct (map (\<lambda>o'. cp_id (op_capsule o')) os)" for os
    by (induction os) (auto simp: only_when_def)
  with True show ?thesis using guard_set.session_remembers [OF assms] by (simp add: remembers_log_def)
qed (auto simp: no_forgery_def)



end
