(* ===== verification/Conv_Routing.thy ===== *)
theory Conv_Routing
  imports Crypto_Primitives
begin

text \<open>
  The routing secrets of a conversation (\<open>web/crypto/conv-routing.mjs\<close>): the root key two
  correspondents agree on, the key of each day (epoch) under it, and from that the bucket key and the
  write key of each direction. A sender posts under the keys of the day and of the outgoing direction; a
  receiver looks under the incoming keys of the last days. HKDF, X25519, Ed25519 and ML-KEM are the
  parameter \<open>prims\<close>; the bytes of an encapsulation are an argument.
\<close>

section \<open>Key identifiers\<close>

text \<open>\<open>atob\<close>: white space is skipped, up to two padding characters complete a group of four.\<close>

definition atob_body :: "js_string \<Rightarrow> js_string" where
  "atob_body s =
     (let t = filter (\<lambda>c. c \<notin> {9, 10, 12, 13, 32}) s in
      if length t mod 4 = 0 then
        (if drop (length t - 2) t = [61, 61] then take (length t - 2) t
         else if drop (length t - 1) t = [61] then take (length t - 1) t else t)
      else t)"

definition atob :: "js_string \<Rightarrow> bytes res" where
  "atob s =
     (let t = atob_body s in
      guard (length t mod 4 \<noteq> 1 \<and> (\<forall>c \<in> set t. char_sextet 43 47 c \<noteq> None)) (JsError ''InvalidCharacterError'')
        (Inr (unsextets (map (\<lambda>c. the (char_sextet 43 47 c)) t))))"

definition conv_base64urlDecode :: "js_string \<Rightarrow> bytes res" where
  "conv_base64urlDecode s =
     (let plain = map (\<lambda>c. if c = 45 then 43 else if c = 95 then 47 else c) s in
      atob (plain @ replicate ((length s + 3) div 4 * 4 - length s) 61))"

datatype key_id_like = KeyText js_string | KeyBytes bytes

definition normalizeKeyId :: "key_id_like \<Rightarrow> bytes res" where
  "normalizeKeyId keyId =
     andThen (case keyId of KeyText s \<Rightarrow> conv_base64urlDecode s | KeyBytes bs \<Rightarrow> Inr bs) (\<lambda>raw. assertLength raw 32)"

fun compareBytes :: "bytes \<Rightarrow> bytes \<Rightarrow> int" where
  "compareBytes (x # xs) (y # ys) = (if x < y then -1 else if y < x then 1 else compareBytes xs ys)"
| "compareBytes [] (y # ys) = -1"
| "compareBytes (x # xs) [] = 1"
| "compareBytes [] [] = 0"

text \<open>The epoch and every index are written as four big-endian bytes.\<close>

definition u32be :: "int \<Rightarrow> bytes res" where
  "u32be n = guard (\<not> (n < 0 \<or> n > 0xffffffff)) (RangeError ''epoch out of uint32 range'') (Inr (be_bytes 4 (nat n)))"

section \<open>Order and time\<close>

definition CONV_DIR_LO_TO_HI :: byte where "CONV_DIR_LO_TO_HI = 0"
definition CONV_DIR_HI_TO_LO :: byte where "CONV_DIR_HI_TO_LO = 1"
definition CONV_EPOCH_SECONDS :: int where "CONV_EPOCH_SECONDS = 86400"
definition CONV_RECV_WINDOW_W :: int where "CONV_RECV_WINDOW_W = 2"
definition CONV_FORWARD_EPOCH_GRACE_SEC :: int where "CONV_FORWARD_EPOCH_GRACE_SEC = 3600"
definition CONV_SELF_EPOCH_SENTINEL :: int where "CONV_SELF_EPOCH_SENTINEL = 0"

record conv_order =
  vo_lo :: bytes
  vo_hi :: bytes
  vo_selfIsLo :: bool
  vo_outgoingDir :: byte
  vo_incomingDir :: byte

definition conversationOrder :: "key_id_like \<Rightarrow> key_id_like \<Rightarrow> conv_order res" where
  "conversationOrder selfKeyId peerKeyId =
     andThen (normalizeKeyId selfKeyId) (\<lambda>self.
     andThen (normalizeKeyId peerKeyId) (\<lambda>peer.
       (let cmp = compareBytes self peer; selfIsLo = cmp < 0 in
        guard (cmp \<noteq> 0) (JsError ''conversationOrder: self keyId equals peer keyId (use the self-recovery lane)'')
          (Inr \<lparr>vo_lo = if selfIsLo then self else peer, vo_hi = if selfIsLo then peer else self, vo_selfIsLo = selfIsLo,
             vo_outgoingDir = if selfIsLo then CONV_DIR_LO_TO_HI else CONV_DIR_HI_TO_LO,
             vo_incomingDir = if selfIsLo then CONV_DIR_HI_TO_LO else CONV_DIR_LO_TO_HI\<rparr>))))"

definition epochFromCreatedAtSeconds :: "js_num \<Rightarrow> int res" where
  "epochFromCreatedAtSeconds createdAtSec =
     (case createdAtSec of
        Fin s \<Rightarrow> guard (\<not> s < 0) (RangeError ''createdAtSec out of range'') (Inr \<lfloor>s / of_int CONV_EPOCH_SECONDS\<rfloor>)
      | _ \<Rightarrow> Inl (RangeError ''createdAtSec out of range''))"

text \<open>The remainder \<open>%\<close> of JavaScript has the sign of the dividend.\<close>

definition js_rem :: "rat \<Rightarrow> rat \<Rightarrow> rat" where
  "js_rem a b = a - b * of_int (if 0 \<le> a / b then \<lfloor>a / b\<rfloor> else \<lceil>a / b\<rceil>)"

definition convForwardEpochs :: "js_num \<Rightarrow> int" where
  "convForwardEpochs nowSec =
     (case nowSec of
        Fin s \<Rightarrow>
          (let day = of_int CONV_EPOCH_SECONDS; intoEpoch = js_rem (js_rem s day + day) day in
           if day - intoEpoch \<le> of_int CONV_FORWARD_EPOCH_GRACE_SEC then 1 else 0)
      | _ \<Rightarrow> 0)"

section \<open>The root key\<close>

text \<open>A key pair may lack a secret; \<open>toBytes\<close> refuses the missing value where it is first used.\<close>

definition toBytes :: "bytes option \<Rightarrow> bytes res" where
  "toBytes v = (case v of Some bs \<Rightarrow> Inr bs | None \<Rightarrow> Inl (TypeError ''Expected byte array''))"

lemma toBytes_Some [simp]: "toBytes (Some bs) = Inr bs"
  by (simp add: toBytes_def)

definition x25519Shared :: "prims \<Rightarrow> bytes option \<Rightarrow> bytes \<Rightarrow> bytes res" where
  "x25519Shared P secretKey publicKey =
     andThen (andThen (toBytes secretKey) (\<lambda>sk. assertLength sk 32)) (\<lambda>sk.
     andThen (assertLength publicKey 32) (\<lambda>pk.
     andThen (assertLength (p_x25519 P sk pk) 32) (\<lambda>ss.
       guard (\<not> (\<forall>b \<in> set ss. b = 0)) (JsError ''x25519 shared secret must not be all-zero'') (Inr ss))))"

definition deriveKRoot :: "prims \<Rightarrow> bytes \<Rightarrow> bytes \<Rightarrow> bytes \<Rightarrow> bytes \<Rightarrow> bytes res" where
  "deriveKRoot P dhShared mlKemShared lo hi =
     andThen (assertLength dhShared 32) (\<lambda>dh.
     andThen (assertLength mlKemShared 32) (\<lambda>kem.
       Inr (p_hkdf P (dh @ kem) (ascii ''PLATHO.CONV.ROOT.SALT.V1'') (ascii ''PLATHO.CONV.ROOT.V1'' @ lo @ hi) 32)))"

text \<open>The answers are the root key and, for the initiator, the ciphertext that carries its half.\<close>

definition establishConvKRootInitiator ::
    "prims \<Rightarrow> bytes \<Rightarrow> bytes option \<Rightarrow> bytes \<Rightarrow> bytes \<Rightarrow> key_id_like \<Rightarrow> key_id_like \<Rightarrow> (bytes \<times> bytes) res" where
  "establishConvKRootInitiator P random selfEncSecretKey peerEncPublicKey peerMlKem768PublicKey selfKeyId peerKeyId =
     andThen (conversationOrder selfKeyId peerKeyId) (\<lambda>order.
     andThen (x25519Shared P selfEncSecretKey peerEncPublicKey) (\<lambda>dhShared.
     andThen (assertLength peerMlKem768PublicKey 1184) (\<lambda>pk.
       (let encapsulated = p_mlkem_encapsulate P pk random in
     andThen (assertLength (fst encapsulated) 1088) (\<lambda>ctRoot.
     andThen (assertLength (snd encapsulated) 32) (\<lambda>mlKemShared.
     andThen (deriveKRoot P dhShared mlKemShared (vo_lo order) (vo_hi order)) (\<lambda>kRoot. Inr (kRoot, ctRoot))))))))"

definition establishConvKRootResponder ::
    "prims \<Rightarrow> bytes option \<Rightarrow> bytes option \<Rightarrow> bytes \<Rightarrow> bytes \<Rightarrow> key_id_like \<Rightarrow> key_id_like \<Rightarrow> bytes res" where
  "establishConvKRootResponder P selfEncSecretKey selfMlKem768SecretKey peerEncPublicKey ctRoot selfKeyId peerKeyId =
     andThen (conversationOrder selfKeyId peerKeyId) (\<lambda>order.
     andThen (x25519Shared P selfEncSecretKey peerEncPublicKey) (\<lambda>dhShared.
     andThen (assertLength ctRoot 1088) (\<lambda>ct.
     andThen (andThen (toBytes selfMlKem768SecretKey) (\<lambda>sk. assertLength sk 2400)) (\<lambda>sk.
     andThen (assertLength (p_mlkem_decapsulate P ct sk) 32) (\<lambda>mlKemShared.
       deriveKRoot P dhShared mlKemShared (vo_lo order) (vo_hi order))))))"

section \<open>The keys of a day\<close>

definition computeKEpoch :: "prims \<Rightarrow> bytes \<Rightarrow> int \<Rightarrow> bytes res" where
  "computeKEpoch P kRoot epoch =
     andThen (u32be epoch) (\<lambda>e.
     andThen (assertLength kRoot 32) (\<lambda>k.
       Inr (p_hkdf P k (ascii ''PLATHO.CONV.RATCHET.SALT.V1'') (ascii ''PLATHO.CONV.RATCHET.V1'' @ e) 32)))"

definition computeBucketKey :: "prims \<Rightarrow> bytes \<Rightarrow> byte \<Rightarrow> int \<Rightarrow> bytes res" where
  "computeBucketKey P kEpoch dirByte epoch =
     guard (\<not> (dirByte \<noteq> CONV_DIR_LO_TO_HI \<and> dirByte \<noteq> CONV_DIR_HI_TO_LO)) (RangeError ''dirByte must be 0x00 or 0x01'')
     (andThen (u32be epoch) (\<lambda>e.
      andThen (assertLength kEpoch 32) (\<lambda>k.
        Inr (p_hkdf P k (ascii ''PLATHO.CONV.BUCKET.SALT.V1'') (ascii ''PLATHO.CONV.BUCKET.V1'' @ [dirByte] @ e) 32))))"

definition convWriteSecret :: "prims \<Rightarrow> bytes \<Rightarrow> byte \<Rightarrow> int \<Rightarrow> bytes res" where
  "convWriteSecret P kEpoch dirByte epoch =
     guard (\<not> (dirByte \<noteq> CONV_DIR_LO_TO_HI \<and> dirByte \<noteq> CONV_DIR_HI_TO_LO)) (RangeError ''dirByte must be 0x00 or 0x01'')
     (andThen (u32be epoch) (\<lambda>e.
      andThen (assertLength kEpoch 32) (\<lambda>k.
        Inr (p_hkdf P k (ascii ''PLATHO.CONV.WRITE.SALT.V1'') (ascii ''PLATHO.CONV.WRITE.V1'' @ [dirByte] @ e) 32))))"

definition convWritePublicKey :: "prims \<Rightarrow> bytes \<Rightarrow> byte \<Rightarrow> int \<Rightarrow> bytes res" where
  "convWritePublicKey P kEpoch dirByte epoch = andThen (convWriteSecret P kEpoch dirByte epoch) (\<lambda>s. Inr (p_ed_public P s))"

record lane_keys =
  lk_epoch :: int
  lk_dir :: byte
  lk_bucketKey :: bytes
  lk_writePublicKey :: bytes

definition lane_keys_of :: "prims \<Rightarrow> bytes \<Rightarrow> byte \<Rightarrow> int \<Rightarrow> lane_keys res" where
  "lane_keys_of P kRoot dir e =
     andThen (computeKEpoch P kRoot e) (\<lambda>kEpoch.
     andThen (computeBucketKey P kEpoch dir e) (\<lambda>bucketKey.
     andThen (convWritePublicKey P kEpoch dir e) (\<lambda>writePublicKey.
       Inr \<lparr>lk_epoch = e, lk_dir = dir, lk_bucketKey = bucketKey, lk_writePublicKey = writePublicKey\<rparr>)))"

text \<open>The keys to post under, with the secret the post is signed with.\<close>

definition outgoingBucketKey :: "prims \<Rightarrow> bytes \<Rightarrow> key_id_like \<Rightarrow> key_id_like \<Rightarrow> js_num \<Rightarrow> (lane_keys \<times> bytes) res" where
  "outgoingBucketKey P kRoot selfKeyId peerKeyId createdAtSec =
     andThen (conversationOrder selfKeyId peerKeyId) (\<lambda>order.
     andThen (epochFromCreatedAtSeconds createdAtSec) (\<lambda>epoch.
     andThen (computeKEpoch P kRoot epoch) (\<lambda>kEpoch.
     andThen (computeBucketKey P kEpoch (vo_outgoingDir order) epoch) (\<lambda>bucketKey.
     andThen (convWriteSecret P kEpoch (vo_outgoingDir order) epoch) (\<lambda>writeSecret.
     andThen (convWritePublicKey P kEpoch (vo_outgoingDir order) epoch) (\<lambda>writePublicKey.
       Inr (\<lparr>lk_epoch = epoch, lk_dir = vo_outgoingDir order, lk_bucketKey = bucketKey, lk_writePublicKey = writePublicKey\<rparr>,
            writeSecret)))))))"

definition incomingBucketKeys ::
    "prims \<Rightarrow> bytes \<Rightarrow> key_id_like \<Rightarrow> key_id_like \<Rightarrow> int \<Rightarrow> int option \<Rightarrow> int option \<Rightarrow> lane_keys list res" where
  "incomingBucketKeys P kRoot selfKeyId peerKeyId epochNow windowW forwardEpochs =
     andThen (conversationOrder selfKeyId peerKeyId) (\<lambda>order.
       (let forward = max 0 (or_default forwardEpochs 0) in
        mapRes (lane_keys_of P kRoot (vo_incomingDir order))
          [max 0 (epochNow - or_default windowW CONV_RECV_WINDOW_W) .. epochNow + forward]))"

definition outgoingBucketKeys ::
    "prims \<Rightarrow> bytes \<Rightarrow> key_id_like \<Rightarrow> key_id_like \<Rightarrow> int \<Rightarrow> int option \<Rightarrow> lane_keys list res" where
  "outgoingBucketKeys P kRoot selfKeyId peerKeyId epochNow windowW =
     andThen (conversationOrder selfKeyId peerKeyId) (\<lambda>order.
       mapRes (lane_keys_of P kRoot (vo_outgoingDir order))
         [max 0 (epochNow - or_default windowW CONV_RECV_WINDOW_W) .. epochNow])"

section \<open>The keys of oneself\<close>

definition computeConvKRootSelf :: "prims \<Rightarrow> bytes \<Rightarrow> bytes" where
  "computeConvKRootSelf P seed = p_hkdf P seed (ascii ''PLATHO.CONV.ROOT.SELF.SALT.V1'') (ascii ''PLATHO.CONV.ROOT.SELF.V1'') 32"

definition selfRecoveryBucketKey :: "prims \<Rightarrow> bytes \<Rightarrow> bytes res" where
  "selfRecoveryBucketKey P seed =
     andThen (computeKEpoch P (computeConvKRootSelf P seed) CONV_SELF_EPOCH_SENTINEL) (\<lambda>kEpochSelf0.
       computeBucketKey P kEpochSelf0 CONV_DIR_LO_TO_HI CONV_SELF_EPOCH_SENTINEL)"

text \<open>The index is written in decimal, as \<open>String\<close> does below \<open>10^21\<close>.\<close>

definition recoveryOwnerSecret :: "prims \<Rightarrow> bytes \<Rightarrow> js_num \<Rightarrow> bytes res" where
  "recoveryOwnerSecret P seed slotIndex =
     guard (\<not> (\<not> isInteger slotIndex \<or> intOf slotIndex < 0)) (JsError ''recoveryOwnerSecret: slotIndex must be a non-negative integer'')
       (Inr (p_hkdf P seed (ascii ''PLATHO.RECOVERY.OWNER.SALT.V1'')
          (utf8_encode (str ''PLATHO.RECOVERY.OWNER.V1:'' @ dec_string (nat (intOf slotIndex)))) 32))"

definition recoveryOwnerPublicKey :: "prims \<Rightarrow> bytes \<Rightarrow> js_num \<Rightarrow> bytes res" where
  "recoveryOwnerPublicKey P seed slotIndex = andThen (recoveryOwnerSecret P seed slotIndex) (\<lambda>s. Inr (p_ed_public P s))"

section \<open>Both sides see one order\<close>

lemma atob_body_padded:
  assumes "\<forall>c \<in> set t. c \<notin> {9, 10, 12, 13, 32, 61}" "k \<le> 2" "(length t + k) mod 4 = 0"
  shows "atob_body (t @ replicate k 61) = t"
proof -
  have f: "filter (\<lambda>c. c \<notin> {9, 10, 12, 13, 32}) (t @ replicate k 61) = t @ replicate k 61"
  proof (rule filter_True, rule ballI)
    fix c :: symbol assume "c \<in> set (t @ replicate k 61)"
    then have "c \<in> set t \<or> c = 61" by (auto dest: in_set_replicate [THEN iffD1])
    then show "c \<notin> {9, 10, 12, 13, 32}" using assms(1) by (elim disjE) simp_all
  qed
  have n: "drop n t \<noteq> x # 61 # []" "drop n t \<noteq> [61]" "drop n t @ [61] \<noteq> [61, 61]" for n x
    using assms(1) set_drop_subset [of n t] by (auto simp: append_eq_Cons_conv)
  consider "k = 0" | "k = 1" | "k = 2" using assms(2) by linarith
  then show ?thesis
  proof cases
    case 1
    then show ?thesis using f n assms(3) by (simp add: atob_body_def Let_def)
  next
    case 2
    then have "1 \<le> length t" using assms(3) by (cases t) auto
    with 2 show ?thesis using f n assms(3) by (simp add: atob_body_def Let_def)
  next
    case 3
    then show ?thesis using f assms(3) by (simp add: atob_body_def Let_def numeral_2_eq_2)
  qed
qed

lemma conv_base64url_roundtrip [simp]: "conv_base64urlDecode (base64urlEncode bs) = Inr bs"
proof -
  define t where "t = map (sextet_char 43 47) (sextets bs)"
  define k where "k = (length t + 3) div 4 * 4 - length t"
  have m: "length t mod 4 \<noteq> 1" using sextet_count(3) [of "length bs"] by (simp add: t_def length_sextets)
  have k: "k \<le> 2" "(length t + k) mod 4 = 0"
  proof -
    define q r where "q = length t div 4" and "r = length t mod 4"
    have l: "length t = 4 * q + r" and "r < 4" "r \<noteq> 1" using m by (simp_all add: q_def r_def)
    then consider "r = 0" | "r = 2" | "r = 3" by linarith
    then have "k \<le> 2 \<and> (length t + k) mod 4 = 0" unfolding k_def l by cases simp_all
    then show "k \<le> 2" "(length t + k) mod 4 = 0" by simp_all
  qed
  have "v < 64" if "v \<in> set (sextets bs)" for v using that sextets_less by blast
  then have plain: "map (\<lambda>c. if c = 45 then 43 else if c = 95 then 47 else c) (base64urlEncode bs) = t"
    by (auto simp: base64urlEncode_def t_def sextet_char_def)
  have "\<forall>c \<in> set t. c \<notin> {9, 10, 12, 13, 32, 61}" by (auto simp: t_def sextet_char_def)
  then have "atob_body (t @ replicate k 61) = t" by (rule atob_body_padded) (rule k)+
  moreover have sx: "char_sextet 43 47 (sextet_char 43 47 v) = Some v" if "v \<in> set (sextets bs)" for v
    using that sextets_less by (intro char_sextet_char) auto
  then have "map (\<lambda>c. the (char_sextet 43 47 c)) t = sextets bs" "\<forall>c \<in> set t. char_sextet 43 47 c \<noteq> None"
    by (auto simp: t_def map_idI)
  moreover have "length (base64urlEncode bs) = length t" by (simp add: base64urlEncode_def t_def)
  ultimately show ?thesis using m by (simp add: conv_base64urlDecode_def Let_def plain k_def [symmetric] atob_def unsextets_sextets)
qed

lemma compareBytes_swap: "compareBytes ys xs = - compareBytes xs ys"
  by (induction xs ys rule: compareBytes.induct) auto

lemma compareBytes_0 [simp]: "compareBytes xs ys = 0 \<longleftrightarrow> xs = ys"
  by (induction xs ys rule: compareBytes.induct) (auto split: if_splits)

lemma order_swap:
  assumes "conversationOrder a b = Inr v"
  shows "conversationOrder b a = Inr (v\<lparr>vo_selfIsLo := \<not> vo_selfIsLo v, vo_outgoingDir := vo_incomingDir v, vo_incomingDir := vo_outgoingDir v\<rparr>)
    \<and> vo_outgoingDir v \<noteq> vo_incomingDir v"
proof -
  obtain x y where x: "normalizeKeyId a = Inr x" "normalizeKeyId b = Inr y" "compareBytes x y \<noteq> 0"
    and v: "v = \<lparr>vo_lo = if compareBytes x y < 0 then x else y, vo_hi = if compareBytes x y < 0 then y else x, vo_selfIsLo = compareBytes x y < 0,
             vo_outgoingDir = if compareBytes x y < 0 then CONV_DIR_LO_TO_HI else CONV_DIR_HI_TO_LO,
             vo_incomingDir = if compareBytes x y < 0 then CONV_DIR_HI_TO_LO else CONV_DIR_LO_TO_HI\<rparr>"
    using assms by (auto simp: conversationOrder_def res_simps Let_def)
  have z: "compareBytes y x < 0 \<longleftrightarrow> \<not> compareBytes x y < 0" "compareBytes y x \<noteq> 0"
    using x(3) compareBytes_swap [of y x] by linarith+
  show ?thesis using x z unfolding conversationOrder_def
    by (simp add: v Let_def CONV_DIR_LO_TO_HI_def CONV_DIR_HI_TO_LO_def)
qed

lemma order_dirs:
  "conversationOrder a b = Inr v \<Longrightarrow> {vo_outgoingDir v, vo_incomingDir v} = {CONV_DIR_LO_TO_HI, CONV_DIR_HI_TO_LO}"
  by (auto simp: conversationOrder_def res_simps Let_def)

lemma x25519Shared_sym:
  assumes "agreement_laws P" "length a = 32" "length b = 32"
  shows "x25519Shared P (Some b) (p_x25519_public P a) = x25519Shared P (Some a) (p_x25519_public P b)"
  using assms by (simp add: x25519Shared_def agreement_laws_def assertLength_def)

text \<open>The root key depends on the key identifiers only through their bytes, whatever form they come in.\<close>

lemma order_cong:
  "normalizeKeyId a' = normalizeKeyId a \<Longrightarrow> normalizeKeyId b' = normalizeKeyId b \<Longrightarrow> conversationOrder a' b' = conversationOrder a b"
  by (simp add: conversationOrder_def)

lemma roots_agree:
  assumes laws: "agreement_laws P" "kem_laws P" and a: "length a = 32" and b: "length b = 32"
    and i: "establishConvKRootInitiator P random (Some a) (p_x25519_public P b) (fst (p_mlkem_keygen P seed)) keyIdA keyIdB = Inr (kRoot, ctRoot)"
    and n: "normalizeKeyId keyIdA' = normalizeKeyId keyIdA" "normalizeKeyId keyIdB' = normalizeKeyId keyIdB"
  shows "establishConvKRootResponder P (Some b) (Some (snd (p_mlkem_keygen P seed))) (p_x25519_public P a) ctRoot keyIdB' keyIdA' = Inr kRoot"
proof -
  let ?en = "p_mlkem_encapsulate P (fst (p_mlkem_keygen P seed)) random"
  obtain v dh where v: "conversationOrder keyIdA keyIdB = Inr v" and dh: "x25519Shared P (Some a) (p_x25519_public P b) = Inr dh"
    and ct: "ctRoot = fst ?en" "length ctRoot = 1088" and k: "deriveKRoot P dh (snd ?en) (vo_lo v) (vo_hi v) = Inr kRoot"
    using i by (auto simp: establishConvKRootInitiator_def res_simps assertLength_def Let_def)
  have d: "p_mlkem_decapsulate P ctRoot (snd (p_mlkem_keygen P seed)) = snd ?en" using laws(2) by (simp add: kem_laws_def ct(1))
  have l: "length (snd ?en) = 32" "length (snd (p_mlkem_keygen P seed)) = 2400" using laws(2) by (simp_all add: kem_laws_def)
  have "conversationOrder keyIdB' keyIdA' = conversationOrder keyIdB keyIdA" by (rule order_cong) (rule n)+
  then show ?thesis using order_swap [OF v] k l ct(2)
    by (simp add: establishConvKRootResponder_def x25519Shared_sym [OF laws(1) a b] dh assertLength_def d)
qed

section \<open>The window\<close>

lemma js_rem_nonneg: "0 \<le> a \<Longrightarrow> 0 < d \<Longrightarrow> js_rem a d = a - d * of_int \<lfloor>a / d\<rfloor>"
  by (simp add: js_rem_def)

lemma into_epoch:
  assumes "0 \<le> s" "0 < d"
  shows "js_rem (js_rem s d + d) d = s - d * of_int \<lfloor>s / d\<rfloor>"
proof -
  define f where "f = \<lfloor>s / d\<rfloor>"
  have "of_int f \<le> s / d" "s / d < of_int f + 1" unfolding f_def by linarith+
  then have r: "0 \<le> s - d * of_int f" "s - d * of_int f < d" using assms(2) by (simp_all add: field_simps)
  have "(s - d * of_int f + d) / d = (s - d * of_int f) / d + 1" using assms(2) by (simp add: field_simps)
  moreover have "\<lfloor>(s - d * of_int f) / d\<rfloor> = 0" using r assms(2) by (simp add: floor_eq_iff)
  ultimately have "\<lfloor>(s - d * of_int f + d) / d\<rfloor> = 1" by linarith
  then show ?thesis using r assms js_rem_nonneg [of "s - d * of_int f + d" d] js_rem_nonneg [OF assms] by (simp add: f_def)
qed

text \<open>One more epoch is read exactly when the next day begins within the hour.\<close>

lemma forward_epoch:
  assumes "0 \<le> s"
  shows "\<lfloor>(s + 3600) / 86400\<rfloor> = \<lfloor>s / 86400\<rfloor> + convForwardEpochs (Fin s)"
proof -
  define f where "f = \<lfloor>s / 86400\<rfloor>"
  have f: "of_int f \<le> s / 86400" "s / 86400 < of_int f + 1" unfolding f_def by linarith+
  have c: "convForwardEpochs (Fin s) = (if 82800 \<le> s - 86400 * of_int f then 1 else 0)"
    using into_epoch [OF assms, of 86400]
    by (simp add: convForwardEpochs_def CONV_EPOCH_SECONDS_def CONV_FORWARD_EPOCH_GRACE_SEC_def Let_def f_def algebra_simps)
  show ?thesis
  proof (cases "82800 \<le> s - 86400 * of_int f")
    case True
    have "\<lfloor>(s + 3600) / 86400\<rfloor> = f + 1" using True f by (simp add: floor_eq_iff field_simps)
    then show ?thesis using True c by (simp add: f_def)
  next
    case False
    have "\<lfloor>(s + 3600) / 86400\<rfloor> = f" using False f by (simp add: floor_eq_iff field_simps)
    then show ?thesis using False c by (simp add: f_def)
  qed
qed

lemma lane_keys_total:
  assumes "hash_laws P" "length kRoot = 32" "dir = CONV_DIR_LO_TO_HI \<or> dir = CONV_DIR_HI_TO_LO" "0 \<le> e" "e < 2 ^ 32"
  shows "\<exists>ks. lane_keys_of P kRoot dir e = Inr ks \<and> lk_epoch ks = e \<and> lk_dir ks = dir"
  using assms by (auto simp: lane_keys_of_def computeKEpoch_def computeBucketKey_def convWritePublicKey_def convWriteSecret_def u32be_def
      assertLength_def hash_laws_def)

lemma outgoing_lane:
  assumes "outgoingBucketKey P kRoot self peer created = Inr (ks, secret)"
  shows "\<exists>v e. conversationOrder self peer = Inr v \<and> epochFromCreatedAtSeconds created = Inr e \<and> 0 \<le> e \<and> e < 2 ^ 32 \<and> length kRoot = 32
    \<and> lane_keys_of P kRoot (vo_outgoingDir v) e = Inr ks \<and> lk_writePublicKey ks = p_ed_public P secret \<and> lk_epoch ks = e \<and> lk_dir ks = vo_outgoingDir v"
  using assms by (auto simp: outgoingBucketKey_def lane_keys_of_def computeKEpoch_def convWritePublicKey_def u32be_def assertLength_def res_simps)

lemma mapRes_set:
  "(\<And>x. x \<in> set xs \<Longrightarrow> \<exists>y. f x = Inr y) \<Longrightarrow> \<exists>ys. mapRes f xs = Inr ys \<and> set ys = {y. \<exists>x \<in> set xs. f x = Inr y}"
proof (induction xs)
  case Nil
  then show ?case by simp
next
  case (Cons x xs)
  obtain ys where "mapRes f xs = Inr ys" "set ys = {y. \<exists>x \<in> set xs. f x = Inr y}" using Cons by auto
  moreover obtain y where "f x = Inr y" using Cons.prems by auto
  ultimately show ?case by auto
qed

lemma outgoing_total:
  assumes "hash_laws P" "length kRoot = 32" "conversationOrder self peer = Inr v" "0 \<le> created" "\<lfloor>created / 86400\<rfloor> < 2 ^ 32"
  shows "\<exists>ks secret. outgoingBucketKey P kRoot self peer (Fin created) = Inr (ks, secret)"
proof -
  have d: "vo_outgoingDir v = CONV_DIR_LO_TO_HI \<or> vo_outgoingDir v = CONV_DIR_HI_TO_LO" using order_dirs [OF assms(3)] by auto
  have e: "epochFromCreatedAtSeconds (Fin created) = Inr \<lfloor>created / 86400\<rfloor>" "0 \<le> \<lfloor>created / 86400\<rfloor>"
    using assms(4) by (simp_all add: epochFromCreatedAtSeconds_def CONV_EPOCH_SECONDS_def)
  have u: "u32be \<lfloor>created / 86400\<rfloor> = Inr (be_bytes 4 (nat \<lfloor>created / 86400\<rfloor>))" unfolding u32be_def using e(2) assms(5) by simp
  show ?thesis
    using assms(1,2) d by (auto simp: outgoingBucketKey_def assms(3) e(1) computeKEpoch_def computeBucketKey_def convWriteSecret_def
        convWritePublicKey_def u assertLength_def hash_laws_def simp del: be_bytes.simps)
qed

text \<open>The lanes a reader looks at: all days of the window, in the direction opposite to its own.\<close>

lemma incoming_lanes:
  assumes "hash_laws P" "length kRoot = 32" "conversationOrder peer self = Inr v" "epochNow + max 0 (or_default forward 0) < 2 ^ 32"
  shows "\<exists>lanes. incomingBucketKeys P kRoot self peer epochNow windowW forward = Inr lanes
    \<and> set lanes = {ks. \<exists>e. max 0 (epochNow - or_default windowW CONV_RECV_WINDOW_W) \<le> e \<and> e \<le> epochNow + max 0 (or_default forward 0)
        \<and> lane_keys_of P kRoot (vo_outgoingDir v) e = Inr ks}"
proof -
  have o: "conversationOrder self peer = Inr (v\<lparr>vo_selfIsLo := \<not> vo_selfIsLo v, vo_outgoingDir := vo_incomingDir v, vo_incomingDir := vo_outgoingDir v\<rparr>)"
    using order_swap [OF assms(3)] by simp
  have d: "vo_outgoingDir v = CONV_DIR_LO_TO_HI \<or> vo_outgoingDir v = CONV_DIR_HI_TO_LO" using order_dirs [OF assms(3)] by auto
  have "\<exists>y. lane_keys_of P kRoot (vo_outgoingDir v) e = Inr y"
    if "e \<in> set [max 0 (epochNow - or_default windowW CONV_RECV_WINDOW_W) .. epochNow + max 0 (or_default forward 0)]" for e
    using lane_keys_total [OF assms(1,2) d, of e] that assms(4) by auto
  then have "\<exists>ys. mapRes (lane_keys_of P kRoot (vo_outgoingDir v))
        [max 0 (epochNow - or_default windowW CONV_RECV_WINDOW_W) .. epochNow + max 0 (or_default forward 0)] = Inr ys
      \<and> set ys = {ks. \<exists>e \<in> set [max 0 (epochNow - or_default windowW CONV_RECV_WINDOW_W) .. epochNow + max 0 (or_default forward 0)].
          lane_keys_of P kRoot (vo_outgoingDir v) e = Inr ks}"
    by (rule mapRes_set)
  then show ?thesis by (simp add: incomingBucketKeys_def o Let_def Bex_def conj_assoc)
qed

text \<open>
  C15: A message is posted where its addressee looks. Once one side has established a conversation's root
  key, the other derives the same key from its own secrets and the ciphertext; and whatever either of them
  then posts, the bucket key and the write key of the post are among those the other one looks under, as
  long as the clocks are at most an hour apart in the one direction and the post is not older than two
  days in the other. What the poster signs with the write secret verifies under the write key looked for.
\<close>

theorem conv_message_found:
  assumes "crypto_laws P" "length a = 32" "length b = 32"
    and "establishConvKRootInitiator P random (Some a) (p_x25519_public P b) (fst (p_mlkem_keygen P seed)) keyIdA keyIdB = Inr (kRoot, ctRoot)"
    and "(self, peer) = (keyIdA, keyIdB) \<or> (self, peer) = (keyIdB, keyIdA)"
    and "outgoingBucketKey P kRoot self peer (Fin created) = Inr (ks, secret)"
    and "0 \<le> now" "created \<le> now + 3600" "\<lfloor>now / 86400\<rfloor> - 2 \<le> \<lfloor>created / 86400\<rfloor>" "\<lfloor>now / 86400\<rfloor> + 1 < 2 ^ 32"
  shows "\<exists>epochNow lanes.
    establishConvKRootResponder P (Some b) (Some (snd (p_mlkem_keygen P seed))) (p_x25519_public P a) ctRoot keyIdB keyIdA = Inr kRoot
    \<and> epochFromCreatedAtSeconds (Fin now) = Inr epochNow
    \<and> incomingBucketKeys P kRoot peer self epochNow None (Some (convForwardEpochs (Fin now))) = Inr lanes
    \<and> ks \<in> set lanes \<and> (\<forall>m. p_verify P (p_sign P m secret) m (lk_writePublicKey ks))"
proof -
  have laws: "hash_laws P" "agreement_laws P" "kem_laws P" "signature_laws P" using assms(1) by (simp_all add: crypto_laws_def)
  have r: "establishConvKRootResponder P (Some b) (Some (snd (p_mlkem_keygen P seed))) (p_x25519_public P a) ctRoot keyIdB keyIdA = Inr kRoot"
    by (rule roots_agree [OF laws(2,3) assms(2,3,4)]) simp_all
  obtain v e where v: "conversationOrder self peer = Inr v" "epochFromCreatedAtSeconds (Fin created) = Inr e" "0 \<le> e" "length kRoot = 32"
      "lane_keys_of P kRoot (vo_outgoingDir v) e = Inr ks" "lk_writePublicKey ks = p_ed_public P secret"
    using outgoing_lane [OF assms(6)] by auto
  have e: "e = \<lfloor>created / 86400\<rfloor>" using v(2) by (simp add: epochFromCreatedAtSeconds_def res_simps CONV_EPOCH_SECONDS_def)
  let ?now = "\<lfloor>now / 86400\<rfloor>" and ?fw = "convForwardEpochs (Fin now)"
  have n: "epochFromCreatedAtSeconds (Fin now) = Inr ?now" using assms(7) by (simp add: epochFromCreatedAtSeconds_def CONV_EPOCH_SECONDS_def)
  have "e \<le> \<lfloor>(now + 3600) / 86400\<rfloor>" unfolding e using assms(8) by (intro floor_mono) (simp add: field_simps)
  then have up: "e \<le> ?now + ?fw" by (simp add: forward_epoch [OF assms(7)])
  have fw: "0 \<le> ?fw" "?fw \<le> 1" by (simp_all add: convForwardEpochs_def Let_def)
  have w: "?now + max 0 (or_default (Some ?fw) 0) < 2 ^ 32" unfolding or_default_def option.case using assms(10) fw by linarith
  obtain lanes where lanes: "incomingBucketKeys P kRoot peer self ?now None (Some ?fw) = Inr lanes"
      "set lanes = {ks. \<exists>e. max 0 (?now - or_default None CONV_RECV_WINDOW_W) \<le> e \<and> e \<le> ?now + max 0 (or_default (Some ?fw) 0)
        \<and> lane_keys_of P kRoot (vo_outgoingDir v) e = Inr ks}"
    using incoming_lanes [OF laws(1) v(4,1) w] by blast
  have "max 0 (?now - or_default None CONV_RECV_WINDOW_W) \<le> e"
    unfolding or_default_def option.case CONV_RECV_WINDOW_W_def using v(3) assms(9) e by linarith
  moreover have "e \<le> ?now + max 0 (or_default (Some ?fw) 0)" unfolding or_default_def option.case using up fw by linarith
  ultimately have "ks \<in> set lanes" unfolding lanes(2) using v(5) by blast
  then show ?thesis using r n lanes(1) v(6) laws(4) by (auto simp: signature_laws_def)
qed

definition sample_id :: "byte \<Rightarrow> key_id_like" where
  "sample_id x = KeyBytes (replicate 32 x)"

lemma sample_order: "\<exists>v. conversationOrder (sample_id 1) (sample_id 2) = Inr v"
  by (simp add: conversationOrder_def normalizeKeyId_def sample_id_def assertLength_def Let_def guard_def compareBytes_0 del: compareBytes.simps)

lemma sample_root:
  "\<exists>kRoot ctRoot. length kRoot = 32 \<and> establishConvKRootInitiator toy_prims [] (Some (replicate 32 2)) (p_x25519_public toy_prims (replicate 32 3))
     (fst (p_mlkem_keygen toy_prims [])) (sample_id 1) (sample_id 2) = Inr (kRoot, ctRoot)"
proof -
  have p: "p_x25519_public toy_prims (replicate 32 3) = replicate 32 3" by (simp add: toy_prims_def pad_to_def)
  have z: "map2 (+) (replicate 32 2) (replicate 32 (3 :: byte)) = replicate 32 5" by (simp add: zip_replicate)
  have "p_x25519 toy_prims (replicate 32 2) (replicate 32 3) = replicate 32 5" using z by (simp add: toy_prims_def)
  then have s: "x25519Shared toy_prims (Some (replicate 32 2)) (replicate 32 3) = Inr (replicate 32 5)"
    by (simp add: x25519Shared_def assertLength_def)
  have k: "kem_laws toy_prims" "hash_laws toy_prims" using toy_laws by (simp_all add: crypto_laws_def)
  obtain v where "conversationOrder (sample_id 1) (sample_id 2) = Inr v" using sample_order by blast
  then show ?thesis using k s
    by (simp add: establishConvKRootInitiator_def p assertLength_def kem_laws_def hash_laws_def deriveKRoot_def Let_def)
qed

theorem conv_message_found_witness:
  "\<exists>kRoot ctRoot ks secret lanes. outgoingBucketKey toy_prims kRoot (sample_id 1) (sample_id 2) (Fin 1728000060) = Inr (ks, secret)
    \<and> establishConvKRootResponder toy_prims (Some (replicate 32 3)) (Some (snd (p_mlkem_keygen toy_prims []))) (p_x25519_public toy_prims (replicate 32 2))
        ctRoot (sample_id 2) (sample_id 1) = Inr kRoot
    \<and> incomingBucketKeys toy_prims kRoot (sample_id 2) (sample_id 1) 19999 None (Some 1) = Inr lanes \<and> ks \<in> set lanes"
proof -
  obtain kRoot ctRoot where k: "length kRoot = 32" "establishConvKRootInitiator toy_prims [] (Some (replicate 32 2)) (p_x25519_public toy_prims (replicate 32 3))
     (fst (p_mlkem_keygen toy_prims [])) (sample_id 1) (sample_id 2) = Inr (kRoot, ctRoot)" using sample_root by blast
  obtain v where v: "conversationOrder (sample_id 1) (sample_id 2) = Inr v" using sample_order by blast
  have h: "hash_laws toy_prims" using toy_laws by (simp add: crypto_laws_def)
  obtain ks secret where o: "outgoingBucketKey toy_prims kRoot (sample_id 1) (sample_id 2) (Fin 1728000060) = Inr (ks, secret)"
    using outgoing_total [OF h k(1) v, of 1728000060] by auto
  have n: "\<lfloor>1727999940 / 86400 :: rat\<rfloor> = 19999" "\<lfloor>1728000060 / 86400 :: rat\<rfloor> = 20000" by (simp_all add: floor_eq_iff)
  have "\<lfloor>(1727999940 + 3600) / 86400 :: rat\<rfloor> = 20000" by (simp add: floor_eq_iff)
  then have "20000 = 19999 + convForwardEpochs (Fin 1727999940)" using forward_epoch [of 1727999940] by (simp only: n)
  then have f: "convForwardEpochs (Fin 1727999940) = 1" by simp
  have m: "\<lfloor>28799999 / 1440 :: rat\<rfloor> = 19999" "\<lfloor>28800001 / 1440 :: rat\<rfloor> = 20000" by (simp_all add: floor_eq_iff)
  show ?thesis
    using conv_message_found [OF toy_laws _ _ k(2) _ o, of 1727999940] o by (auto simp: m f epochFromCreatedAtSeconds_def CONV_EPOCH_SECONDS_def)
qed

section \<open>Lanes are apart\<close>

text \<open>Two different queries to HKDF among the given ones have one answer.\<close>

definition hkdf_collision :: "prims \<Rightarrow> (bytes \<times> bytes \<times> bytes) list \<Rightarrow> (bytes \<times> bytes \<times> bytes) list \<Rightarrow> bool" where
  "hkdf_collision P qs rs \<longleftrightarrow> (\<exists>(k, s, f) \<in> set qs. \<exists>(k', s', f') \<in> set rs. (k, s, f) \<noteq> (k', s', f') \<and> p_hkdf P k s f 32 = p_hkdf P k' s' f' 32)"

text \<open>The two queries on the way to a bucket key, and the ones on the way to a root key before them.\<close>

definition bucket_queries :: "prims \<Rightarrow> bytes \<Rightarrow> byte \<Rightarrow> int \<Rightarrow> (bytes \<times> bytes \<times> bytes) list" where
  "bucket_queries P kRoot dir e =
     (let epoch = (kRoot, ascii ''PLATHO.CONV.RATCHET.SALT.V1'', ascii ''PLATHO.CONV.RATCHET.V1'' @ be_bytes 4 (nat e));
          kEpoch = (case epoch of (k, s, f) \<Rightarrow> p_hkdf P k s f 32)
      in [epoch, (kEpoch, ascii ''PLATHO.CONV.BUCKET.SALT.V1'', ascii ''PLATHO.CONV.BUCKET.V1'' @ [dir] @ be_bytes 4 (nat e))])"

lemma no_hkdf_collision:
  "\<not> hkdf_collision P qs rs \<Longrightarrow> (k, s, f) \<in> set qs \<Longrightarrow> (k', s', f') \<in> set rs \<Longrightarrow> p_hkdf P k s f 32 = p_hkdf P k' s' f' 32
    \<Longrightarrow> k = k' \<and> s = s' \<and> f = f'"
  unfolding hkdf_collision_def by blast

lemma lane_keys_queries:
  assumes "lane_keys_of P kRoot dir e = Inr ks"
  shows "0 \<le> e \<and> e < 2 ^ 32 \<and> (\<exists>kEpoch. kEpoch = p_hkdf P kRoot (ascii ''PLATHO.CONV.RATCHET.SALT.V1'') (ascii ''PLATHO.CONV.RATCHET.V1'' @ be_bytes 4 (nat e)) 32
    \<and> lk_bucketKey ks = p_hkdf P kEpoch (ascii ''PLATHO.CONV.BUCKET.SALT.V1'') (ascii ''PLATHO.CONV.BUCKET.V1'' @ [dir] @ be_bytes 4 (nat e)) 32
    \<and> bucket_queries P kRoot dir e =
      [(kRoot, ascii ''PLATHO.CONV.RATCHET.SALT.V1'', ascii ''PLATHO.CONV.RATCHET.V1'' @ be_bytes 4 (nat e)),
       (kEpoch, ascii ''PLATHO.CONV.BUCKET.SALT.V1'', ascii ''PLATHO.CONV.BUCKET.V1'' @ [dir] @ be_bytes 4 (nat e))])"
  using assms by (auto simp: lane_keys_of_def computeKEpoch_def computeBucketKey_def u32be_def assertLength_def res_simps bucket_queries_def Let_def simp del: be_bytes.simps)

text \<open>
  C16: Lanes do not mix. If the lane keys of two root keys, directions and days have one bucket key, then
  root key, direction and day are the same, or two different queries to HKDF made for the two lanes have
  one answer: neither another day, nor the other direction, nor another conversation shares a bucket.
\<close>

theorem lanes_do_not_mix:
  assumes "lane_keys_of P kRoot dir e = Inr ks" "lane_keys_of P kRoot' dir' e' = Inr ks'" "lk_bucketKey ks = lk_bucketKey ks'"
  shows "(kRoot = kRoot' \<and> dir = dir' \<and> e = e') \<or> hkdf_collision P (bucket_queries P kRoot dir e) (bucket_queries P kRoot' dir' e')"
proof (cases "hkdf_collision P (bucket_queries P kRoot dir e) (bucket_queries P kRoot' dir' e')")
  case False
  note q = lane_keys_queries [OF assms(1)] lane_keys_queries [OF assms(2)]
  obtain kE kE' where
      k: "kE = p_hkdf P kRoot (ascii ''PLATHO.CONV.RATCHET.SALT.V1'') (ascii ''PLATHO.CONV.RATCHET.V1'' @ be_bytes 4 (nat e)) 32"
         "kE' = p_hkdf P kRoot' (ascii ''PLATHO.CONV.RATCHET.SALT.V1'') (ascii ''PLATHO.CONV.RATCHET.V1'' @ be_bytes 4 (nat e')) 32"
    and b: "lk_bucketKey ks = p_hkdf P kE (ascii ''PLATHO.CONV.BUCKET.SALT.V1'') (ascii ''PLATHO.CONV.BUCKET.V1'' @ [dir] @ be_bytes 4 (nat e)) 32"
         "lk_bucketKey ks' = p_hkdf P kE' (ascii ''PLATHO.CONV.BUCKET.SALT.V1'') (ascii ''PLATHO.CONV.BUCKET.V1'' @ [dir'] @ be_bytes 4 (nat e')) 32"
    and s: "bucket_queries P kRoot dir e =
          [(kRoot, ascii ''PLATHO.CONV.RATCHET.SALT.V1'', ascii ''PLATHO.CONV.RATCHET.V1'' @ be_bytes 4 (nat e)),
           (kE, ascii ''PLATHO.CONV.BUCKET.SALT.V1'', ascii ''PLATHO.CONV.BUCKET.V1'' @ [dir] @ be_bytes 4 (nat e))]"
         "bucket_queries P kRoot' dir' e' =
          [(kRoot', ascii ''PLATHO.CONV.RATCHET.SALT.V1'', ascii ''PLATHO.CONV.RATCHET.V1'' @ be_bytes 4 (nat e')),
           (kE', ascii ''PLATHO.CONV.BUCKET.SALT.V1'', ascii ''PLATHO.CONV.BUCKET.V1'' @ [dir'] @ be_bytes 4 (nat e'))]"
    using q by blast
  have "kE = kE' \<and> ascii ''PLATHO.CONV.BUCKET.SALT.V1'' = ascii ''PLATHO.CONV.BUCKET.SALT.V1''
      \<and> ascii ''PLATHO.CONV.BUCKET.V1'' @ [dir] @ be_bytes 4 (nat e) = ascii ''PLATHO.CONV.BUCKET.V1'' @ [dir'] @ be_bytes 4 (nat e')"
    by (rule no_hkdf_collision [OF False]) (simp add: s del: be_bytes.simps, simp add: s del: be_bytes.simps, simp only: b(1) [symmetric] b(2) [symmetric] assms(3))
  then have kE: "kE = kE'" "dir = dir'" "be_bytes 4 (nat e) = be_bytes 4 (nat e')" by simp_all
  then have "nat e mod 256 ^ 4 = nat e' mod 256 ^ 4" by (metis be_value_be_bytes)
  then have e: "e = e'" using q by auto
  have "kRoot = kRoot' \<and> ascii ''PLATHO.CONV.RATCHET.SALT.V1'' = ascii ''PLATHO.CONV.RATCHET.SALT.V1''
      \<and> ascii ''PLATHO.CONV.RATCHET.V1'' @ be_bytes 4 (nat e) = ascii ''PLATHO.CONV.RATCHET.V1'' @ be_bytes 4 (nat e')"
    by (rule no_hkdf_collision [OF False]) (simp add: s del: be_bytes.simps, simp add: s del: be_bytes.simps, simp only: k(1) [symmetric] k(2) [symmetric] kE(1))
  then show ?thesis using kE(2) e by simp
qed simp

theorem lanes_do_not_mix_witness:
  "\<exists>ks. lane_keys_of toy_prims (replicate 32 1) 0 20000 = Inr ks
    \<and> (20000 = (20000 :: int) \<or> hkdf_collision toy_prims (bucket_queries toy_prims (replicate 32 1) 0 20000) (bucket_queries toy_prims (replicate 32 1) 0 20000))"
proof -
  have h: "hash_laws toy_prims" using toy_laws by (simp add: crypto_laws_def)
  obtain ks where k: "lane_keys_of toy_prims (replicate 32 1) 0 20000 = Inr ks"
    using lane_keys_total [OF h, of "replicate 32 1" 0 20000] by (auto simp: CONV_DIR_LO_TO_HI_def)
  show ?thesis using k lanes_do_not_mix [OF k k refl] by blast
qed

end
