(* ===== verification/Intro_Handshake.thy ===== *)
theory Intro_Handshake
  imports Conv_Routing Key_Bundles
begin

text \<open>
  The handshake of a first contact (\<open>web/crypto/intro-handshake.mjs\<close>): the sender establishes the root key
  of a conversation, signs a transcript that names both key identifiers, the keys they commit to, the
  capsule's ephemeral key and both ciphertexts, and proves with a tag keyed by the root key that it holds
  the secret behind its identifier. The recipient rebuilds the transcript from what it received and checks
  signature, key identifier and tag. HMAC is a parameter beside \<open>prims\<close>; the random nonce and the bytes of
  the encapsulation are arguments.
\<close>

section \<open>The transcript\<close>

definition INTRO_TRANSCRIPT_DOMAIN :: bytes where "INTRO_TRANSCRIPT_DOMAIN = ascii ''PLATHO.INTRO.TRANSCRIPT.V2''"
definition INTRO_TRANSCRIPT_DOMAIN_V3 :: bytes where "INTRO_TRANSCRIPT_DOMAIN_V3 = ascii ''PLATHO.INTRO.TRANSCRIPT.V3''"
definition INTRO_PAYLOAD_MAGIC :: bytes where "INTRO_PAYLOAD_MAGIC = [0x50, 0x49, 0x48, 0x32]"
definition INTRO_PAYLOAD_MAGIC_V3 :: bytes where "INTRO_PAYLOAD_MAGIC_V3 = [0x50, 0x49, 0x48, 0x33]"
definition INTRO_FIRST_MESSAGE_MAX_BYTES :: nat where "INTRO_FIRST_MESSAGE_MAX_BYTES = 0xffff"

definition intro_u32be :: "int \<Rightarrow> bytes res" where
  "intro_u32be n = guard (\<not> (n < 0 \<or> n > 0xffffffff)) (JsError ''introEpoch must be a uint32'') (Inr (be_bytes 4 (nat n)))"

definition intro_u16be :: "int \<Rightarrow> bytes res" where
  "intro_u16be n = guard (\<not> (n < 0 \<or> n > 0xffff)) (RangeError ''value out of uint16 range'') (Inr (be_bytes 2 (nat n)))"

definition deriveHybridKeyIdRaw :: "prims \<Rightarrow> bytes \<Rightarrow> bytes \<Rightarrow> bytes res" where
  "deriveHybridKeyIdRaw P encPublicKey mlKemPublicKeyHash =
     andThen (assertLength encPublicKey 32) (\<lambda>pk.
     andThen (assertLength mlKemPublicKeyHash 32) (\<lambda>hash.
       Inr (p_sha256 P (ascii ''PLATHO.KEYID.HYBRID.V1'' @ pk @ hash @ utf8_encode (dec_string MLKEM768_PUBLIC_KEY_BYTES)))))"

definition deriveIntroConfirmTag :: "prims \<Rightarrow> (bytes \<Rightarrow> bytes \<Rightarrow> bytes) \<Rightarrow> bytes \<Rightarrow> bytes \<Rightarrow> bytes res" where
  "deriveIntroConfirmTag P hmac kRoot transcript =
     andThen (assertLength kRoot 32) (\<lambda>k.
       assertLength (hmac (p_hkdf P k (ascii ''PLATHO.INTRO.CONFIRM.SALT.V1'') (ascii ''PLATHO.INTRO.CONFIRM.V1'') 32) transcript) 32)"

definition buildIntroTranscript ::
    "prims \<Rightarrow> key_id_like \<Rightarrow> key_id_like \<Rightarrow> bytes \<Rightarrow> bytes \<Rightarrow> bytes \<Rightarrow> bytes option \<Rightarrow> bytes \<Rightarrow> int \<Rightarrow> bytes \<Rightarrow> int option \<Rightarrow> bytes res" where
  "buildIntroTranscript P keyIdA keyIdB senderEncPublicKey senderMlKemPublicKeyHash ephemeralR bodyKemCiphertext ctRoot viewTag introNonce introEpoch =
     andThen (normalizeKeyId keyIdA) (\<lambda>a.
     andThen (normalizeKeyId keyIdB) (\<lambda>b.
     andThen (assertLength senderEncPublicKey 32) (\<lambda>enc.
     andThen (assertLength senderMlKemPublicKeyHash 32) (\<lambda>hash.
     andThen (assertLength ephemeralR 32) (\<lambda>r.
     andThen (andThen (toBytes bodyKemCiphertext) (\<lambda>k. assertLength k 1088)) (\<lambda>bodyKem.
     andThen (assertLength ctRoot 1088) (\<lambda>ct.
     andThen (intro_u16be viewTag) (\<lambda>tag.
     andThen (assertLength introNonce 16) (\<lambda>nonce.
     andThen (case introEpoch of None \<Rightarrow> Inr [] | Some e \<Rightarrow> intro_u32be e) (\<lambda>epoch.
       Inr ((if introEpoch \<noteq> None then INTRO_TRANSCRIPT_DOMAIN_V3 else INTRO_TRANSCRIPT_DOMAIN)
         @ a @ b @ enc @ hash @ r @ p_sha256 P bodyKem @ p_sha256 P ct @ tag @ nonce @ epoch)))))))))))"

definition signIntroTranscript :: "prims \<Rightarrow> bytes \<Rightarrow> bytes \<Rightarrow> bytes res" where
  "signIntroTranscript P transcript signingSecretKey =
     andThen (assertLength signingSecretKey 32) (\<lambda>sk. assertLength (p_sign P transcript sk) 64)"

definition verifyIntroTranscript :: "prims \<Rightarrow> bytes \<Rightarrow> bytes \<Rightarrow> bytes \<Rightarrow> bool res" where
  "verifyIntroTranscript P transcript signature signingPublicKey =
     andThen (assertLength signature 64) (\<lambda>s.
     andThen (assertLength signingPublicKey 32) (\<lambda>pk. Inr (p_verify P s transcript pk)))"

section \<open>The payload\<close>

record intro_payload =
  ip_keyIdA :: bytes
  ip_senderEncPublicKey :: bytes
  ip_senderMlKemPublicKeyHash :: bytes
  ip_ctRoot :: bytes
  ip_introNonce :: bytes
  ip_transcriptSignature :: bytes
  ip_introConfirmTag :: bytes
  ip_firstMessageBytes :: bytes
  ip_introEpoch :: "int option"

definition serializeIntroPayload ::
    "key_id_like \<Rightarrow> bytes \<Rightarrow> bytes \<Rightarrow> bytes \<Rightarrow> bytes \<Rightarrow> bytes \<Rightarrow> bytes \<Rightarrow> bytes option \<Rightarrow> int option \<Rightarrow> bytes res" where
  "serializeIntroPayload keyIdA senderEncPublicKey senderMlKemPublicKeyHash ctRoot introNonce transcriptSignature introConfirmTag firstMessageBytes introEpoch =
     (let msg = or_default firstMessageBytes [] in
      guard (\<not> length msg > INTRO_FIRST_MESSAGE_MAX_BYTES) (JsError ''INTRO first message too large'')
     (andThen (normalizeKeyId keyIdA) (\<lambda>a.
      andThen (assertLength senderEncPublicKey 32) (\<lambda>enc.
      andThen (assertLength senderMlKemPublicKeyHash 32) (\<lambda>hash.
      andThen (assertLength ctRoot 1088) (\<lambda>ct.
      andThen (assertLength introNonce 16) (\<lambda>nonce.
      andThen (case introEpoch of None \<Rightarrow> Inr [] | Some e \<Rightarrow> intro_u32be e) (\<lambda>epoch.
      andThen (assertLength transcriptSignature 64) (\<lambda>signature.
      andThen (assertLength introConfirmTag 32) (\<lambda>tag.
      andThen (intro_u16be (int (length msg))) (\<lambda>len.
        Inr ((if introEpoch \<noteq> None then INTRO_PAYLOAD_MAGIC_V3 else INTRO_PAYLOAD_MAGIC)
          @ a @ enc @ hash @ ct @ nonce @ epoch @ signature @ tag @ len @ msg))))))))))))"

definition parseIntroPayload :: "bytes \<Rightarrow> intro_payload res" where
  "parseIntroPayload bytes =
     (let v3 = length bytes \<ge> 4 \<and> slice 0 4 bytes = INTRO_PAYLOAD_MAGIC_V3;
          e = (if v3 then 4 else 0);
          fixed = 4 + 32 + 32 + 32 + 1088 + 16 + e + 64 + 32 + 2 in
      guard (\<not> length bytes < fixed) (JsError ''INTRO payload is truncated'')
     (guard (\<not> (\<not> v3 \<and> slice 0 4 bytes \<noteq> INTRO_PAYLOAD_MAGIC)) (JsError ''INTRO payload magic mismatch'')
     (let msgLen = be_value (slice (1300 + e) (1302 + e) bytes) in
      guard (\<not> length bytes \<noteq> fixed + msgLen) (JsError ''INTRO payload length mismatch'')
        (Inr \<lparr>ip_keyIdA = slice 4 36 bytes, ip_senderEncPublicKey = slice 36 68 bytes, ip_senderMlKemPublicKeyHash = slice 68 100 bytes,
              ip_ctRoot = slice 100 1188 bytes, ip_introNonce = slice 1188 1204 bytes,
              ip_transcriptSignature = slice (1204 + e) (1268 + e) bytes, ip_introConfirmTag = slice (1268 + e) (1300 + e) bytes,
              ip_firstMessageBytes = slice (1302 + e) (1302 + e + msgLen) bytes,
              ip_introEpoch = (if v3 then Some (int (be_value (slice 1204 1208 bytes))) else None)\<rparr>))))"

section \<open>Both ends\<close>

text \<open>The peer as the handshake sees it, and what the sender's side keeps.\<close>

record intro_peer =
  ir_keyId :: key_id_like
  ir_x25519PublicKey :: bytes
  ir_mlKem768PublicKey :: bytes

record intro_built =
  ib_introPayloadBytes :: bytes
  ib_kRoot :: bytes
  ib_ctRoot :: bytes
  ib_ephemeralR :: bytes
  ib_introNonce :: bytes
  ib_introEpoch :: "int option"

definition buildIntroHandshake ::
    "prims \<Rightarrow> (bytes \<Rightarrow> bytes \<Rightarrow> bytes) \<Rightarrow> bytes \<Rightarrow> bytes \<Rightarrow> messaging_identity \<Rightarrow> intro_peer \<Rightarrow> bytes \<Rightarrow> int \<Rightarrow> bytes
      \<Rightarrow> bytes option \<Rightarrow> bytes option \<Rightarrow> int option \<Rightarrow> intro_built res" where
  "buildIntroHandshake P hmac randomKem randomNonce senderIdentity peer ephemeralSecretKey viewTag bodyKemCiphertext introNonce firstMessageBytes introEpoch =
     (let a = mi_encryptionKeyPair senderIdentity in
      andThen (assertLength ephemeralSecretKey 32) (\<lambda>ephemeral.
        (let ephemeralR = p_x25519_public P ephemeral in
      andThen (andThen (toBytes (kp_mlKem768PublicKey a)) (\<lambda>pq. assertLength pq 1184)) (\<lambda>pq.
        (let senderMlKemPublicKeyHash = p_sha256 P pq in
      andThen (establishConvKRootInitiator P randomKem (kp_x25519SecretKey a) (ir_x25519PublicKey peer) (ir_mlKem768PublicKey peer)
          (KeyText (kp_keyId a)) (ir_keyId peer)) (\<lambda>(kRoot, ctRoot).
      andThen (case introNonce of Some n \<Rightarrow> assertLength n 16 | None \<Rightarrow> Inr randomNonce) (\<lambda>nonce.
      andThen (buildIntroTranscript P (KeyText (kp_keyId a)) (ir_keyId peer) (kp_x25519PublicKey a) senderMlKemPublicKeyHash
          ephemeralR (Some bodyKemCiphertext) ctRoot viewTag nonce introEpoch) (\<lambda>transcript.
      andThen (signIntroTranscript P transcript (mi_signingSecretKey senderIdentity)) (\<lambda>transcriptSignature.
      andThen (deriveIntroConfirmTag P hmac kRoot transcript) (\<lambda>introConfirmTag.
      andThen (serializeIntroPayload (KeyText (kp_keyId a)) (kp_x25519PublicKey a) senderMlKemPublicKeyHash ctRoot nonce
          transcriptSignature introConfirmTag firstMessageBytes introEpoch) (\<lambda>introPayloadBytes.
        Inr \<lparr>ib_introPayloadBytes = introPayloadBytes, ib_kRoot = kRoot, ib_ctRoot = ctRoot, ib_ephemeralR = ephemeralR,
             ib_introNonce = nonce, ib_introEpoch = introEpoch\<rparr>)))))))))))"

record intro_opened =
  io_kRoot :: bytes
  io_senderKeyId :: bytes
  io_senderEncPublicKey :: bytes
  io_introNonce :: bytes
  io_firstMessageBytes :: bytes
  io_introEpoch :: "int option"

definition openIntroHandshake ::
    "prims \<Rightarrow> (bytes \<Rightarrow> bytes \<Rightarrow> bytes) \<Rightarrow> bytes \<Rightarrow> key_pair \<Rightarrow> bytes \<Rightarrow> bytes \<Rightarrow> bytes option \<Rightarrow> int \<Rightarrow> intro_opened res" where
  "openIntroHandshake P hmac introPayloadBytes b senderSigningPublicKey ephemeralR bodyKemCiphertext viewTag =
     andThen (parseIntroPayload introPayloadBytes) (\<lambda>parsed.
     andThen (buildIntroTranscript P (KeyBytes (ip_keyIdA parsed)) (KeyText (kp_keyId b)) (ip_senderEncPublicKey parsed)
         (ip_senderMlKemPublicKeyHash parsed) ephemeralR bodyKemCiphertext (ip_ctRoot parsed) viewTag (ip_introNonce parsed)
         (ip_introEpoch parsed)) (\<lambda>transcript.
     andThen (verifyIntroTranscript P transcript (ip_transcriptSignature parsed) senderSigningPublicKey) (\<lambda>verified.
     guard verified (JsError ''INTRO transcript signature verification failed (UKS/tamper/replay guard)'')
    (andThen (deriveHybridKeyIdRaw P (ip_senderEncPublicKey parsed) (ip_senderMlKemPublicKeyHash parsed)) (\<lambda>expectedKeyId.
     andThen (normalizeKeyId (KeyBytes (ip_keyIdA parsed))) (\<lambda>keyIdA.
     guard (expectedKeyId = keyIdA) (JsError ''INTRO keyId_A does not bind to the sender enc + ML-KEM keys (impersonation)'')
    (andThen (establishConvKRootResponder P (kp_x25519SecretKey b) (kp_mlKem768SecretKey b) (ip_senderEncPublicKey parsed) (ip_ctRoot parsed) (KeyText (kp_keyId b))
         (KeyBytes (ip_keyIdA parsed))) (\<lambda>kRoot.
     andThen (deriveIntroConfirmTag P hmac kRoot transcript) (\<lambda>expectedConfirmTag.
     guard (expectedConfirmTag = ip_introConfirmTag parsed)
       (JsError ''INTRO K_root confirmation failed (sender does not hold the enc secret behind keyId_A)'')
       (Inr \<lparr>io_kRoot = kRoot, io_senderKeyId = ip_keyIdA parsed, io_senderEncPublicKey = ip_senderEncPublicKey parsed,
             io_introNonce = ip_introNonce parsed, io_firstMessageBytes = ip_firstMessageBytes parsed, io_introEpoch = ip_introEpoch parsed\<rparr>))))))))))"

section \<open>The payload is read as written\<close>

lemma intro_u32be_Inr: "intro_u32be n = Inr bs \<longleftrightarrow> 0 \<le> n \<and> n < 2 ^ 32 \<and> bs = be_bytes 4 (nat n)"
  by (auto simp: intro_u32be_def res_simps simp del: be_bytes.simps)

lemma intro_u16be_Inr: "intro_u16be n = Inr bs \<longleftrightarrow> 0 \<le> n \<and> n < 2 ^ 16 \<and> bs = be_bytes 2 (nat n)"
  by (auto simp: intro_u16be_def res_simps simp del: be_bytes.simps)

lemma normalizeKeyId_length: "normalizeKeyId k = Inr bs \<Longrightarrow> length bs = 32"
  by (auto simp: normalizeKeyId_def assertLength_def res_simps)

text \<open>The bytes of the optional epoch, in payload and transcript alike.\<close>

definition epoch_bytes :: "int option \<Rightarrow> bytes" where
  "epoch_bytes e = (case e of None \<Rightarrow> [] | Some n \<Rightarrow> be_bytes 4 (nat n))"

lemma epoch_case:
  "(case e of None \<Rightarrow> Inr [] | Some n \<Rightarrow> intro_u32be n) = Inr bs \<longleftrightarrow> (\<forall>n. e = Some n \<longrightarrow> 0 \<le> n \<and> n < 2 ^ 32) \<and> bs = epoch_bytes e"
  by (cases e) (auto simp: intro_u32be_Inr epoch_bytes_def)

lemma length_epoch_bytes: "length (epoch_bytes e) = (if e \<noteq> None then 4 else 0)"
  by (cases e) (simp_all add: epoch_bytes_def)

lemma serialize_Inr:
  assumes "serializeIntroPayload keyIdA enc hash ct nonce signature tag firstMessage introEpoch = Inr bytes"
  shows "\<exists>a. normalizeKeyId keyIdA = Inr a \<and> length a = 32 \<and> length enc = 32 \<and> length hash = 32 \<and> length ct = 1088 \<and> length nonce = 16
    \<and> length signature = 64 \<and> length tag = 32 \<and> length (or_default firstMessage []) < 2 ^ 16
    \<and> (\<forall>n. introEpoch = Some n \<longrightarrow> 0 \<le> n \<and> n < 2 ^ 32)
    \<and> bytes = (if introEpoch \<noteq> None then INTRO_PAYLOAD_MAGIC_V3 else INTRO_PAYLOAD_MAGIC) @ a @ enc @ hash @ ct @ nonce @ epoch_bytes introEpoch
        @ signature @ tag @ be_bytes 2 (length (or_default firstMessage [])) @ or_default firstMessage []"
proof -
  obtain a where a: "normalizeKeyId keyIdA = Inr a" using assms by (auto simp: serializeIntroPayload_def res_simps Let_def)
  show ?thesis
    using assms normalizeKeyId_length [OF a]
    by (auto simp: serializeIntroPayload_def res_simps Let_def a assertLength_def epoch_case intro_u16be_Inr simp del: be_bytes.simps split del: if_split)
qed

lemma intro_payload_roundtrip:
  assumes "serializeIntroPayload keyIdA enc hash ct nonce signature tag firstMessage introEpoch = Inr bytes" "normalizeKeyId keyIdA = Inr a"
  shows "parseIntroPayload bytes = Inr \<lparr>ip_keyIdA = a, ip_senderEncPublicKey = enc, ip_senderMlKemPublicKeyHash = hash, ip_ctRoot = ct,
    ip_introNonce = nonce, ip_transcriptSignature = signature, ip_introConfirmTag = tag, ip_firstMessageBytes = or_default firstMessage [],
    ip_introEpoch = introEpoch\<rparr>"
proof -
  define msg where "msg = or_default firstMessage []"
  define m where "m = (if introEpoch \<noteq> None then INTRO_PAYLOAD_MAGIC_V3 else INTRO_PAYLOAD_MAGIC)"
  have x: "length a = 32" "length enc = 32" "length hash = 32" "length ct = 1088" "length nonce = 16" "length signature = 64" "length tag = 32"
      "length msg < 2 ^ 16" "\<forall>n. introEpoch = Some n \<longrightarrow> 0 \<le> n \<and> n < 2 ^ 32"
      "bytes = m @ a @ enc @ hash @ ct @ nonce @ epoch_bytes introEpoch @ signature @ tag @ be_bytes 2 (length msg) @ msg"
    using serialize_Inr [OF assms(1)] assms(2) by (auto simp: msg_def m_def)
  have m4: "length m = 4" by (simp add: m_def INTRO_PAYLOAD_MAGIC_V3_def INTRO_PAYLOAD_MAGIC_def)
  have v: "m = INTRO_PAYLOAD_MAGIC_V3 \<longleftrightarrow> introEpoch \<noteq> None" by (simp add: m_def INTRO_PAYLOAD_MAGIC_V3_def INTRO_PAYLOAD_MAGIC_def)
  have l: "be_value (be_bytes 2 (length msg)) = length msg" using x(8) by (simp add: be_value_be_bytes del: be_bytes.simps)
  define e where "e = (if introEpoch \<noteq> None then 4 else (0 :: nat))"
  have el: "length (epoch_bytes introEpoch) = e" by (simp add: length_epoch_bytes e_def)
  note len = m4 x(1-7) el length_be_bytes
  have s: "slice 0 4 bytes = m" "slice 4 36 bytes = a" "slice 36 68 bytes = enc" "slice 68 100 bytes = hash" "slice 100 1188 bytes = ct"
      "slice 1188 1204 bytes = nonce" "slice 1204 (1204 + e) bytes = epoch_bytes introEpoch" "slice (1204 + e) (1268 + e) bytes = signature"
      "slice (1268 + e) (1300 + e) bytes = tag" "slice (1300 + e) (1302 + e) bytes = be_bytes 2 (length msg)"
      "slice (1302 + e) (1302 + e + length msg) bytes = msg" "length bytes = 1302 + e + length msg"
    by (simp_all add: slice_def x(10) len del: be_bytes.simps)
  have v: "(4 \<le> length bytes \<and> slice 0 4 bytes = INTRO_PAYLOAD_MAGIC_V3) = (introEpoch \<noteq> None)"
    by (simp add: s(1,12) m_def INTRO_PAYLOAD_MAGIC_V3_def INTRO_PAYLOAD_MAGIC_def)
  have m2: "\<not> (introEpoch = None \<and> slice 0 4 bytes \<noteq> INTRO_PAYLOAD_MAGIC)" by (simp add: s(1) m_def)
  have n: "(if introEpoch \<noteq> None then Some (int (be_value (slice 1204 1208 bytes))) else None) = introEpoch"
  proof (cases introEpoch)
    case (Some n)
    have "slice 1204 1208 bytes = be_bytes 4 (nat n)" using s(7) Some by (simp add: e_def epoch_bytes_def del: be_bytes.simps)
    moreover have "0 \<le> n" "nat n < 256 ^ 4" using x(9) Some by (simp_all add: nat_less_iff)
    ultimately show ?thesis using Some by (simp only: be_value_be_bytes mod_less) simp
  qed simp
  show ?thesis
    unfolding parseIntroPayload_def v Let_def e_def [symmetric] using s(2-6,8-12) l m2 n
    by (simp add: msg_def [symmetric] guard_def del: be_bytes.simps)
qed

section \<open>Both ends agree\<close>

lemma transcript_Inr:
  assumes "buildIntroTranscript P keyIdA keyIdB enc hash r (Some bodyKem) ct viewTag nonce introEpoch = Inr t"
  shows "\<exists>a b. normalizeKeyId keyIdA = Inr a \<and> normalizeKeyId keyIdB = Inr b \<and> length a = 32 \<and> length b = 32 \<and> length enc = 32 \<and> length hash = 32
    \<and> length r = 32 \<and> length bodyKem = 1088 \<and> length ct = 1088 \<and> 0 \<le> viewTag \<and> viewTag < 2 ^ 16 \<and> length nonce = 16
    \<and> (\<forall>n. introEpoch = Some n \<longrightarrow> 0 \<le> n \<and> n < 2 ^ 32)
    \<and> t = (if introEpoch \<noteq> None then INTRO_TRANSCRIPT_DOMAIN_V3 else INTRO_TRANSCRIPT_DOMAIN)
        @ a @ b @ enc @ hash @ r @ p_sha256 P bodyKem @ p_sha256 P ct @ be_bytes 2 (nat viewTag) @ nonce @ epoch_bytes introEpoch"
proof -
  obtain a b where a: "normalizeKeyId keyIdA = Inr a" "normalizeKeyId keyIdB = Inr b"
    using assms by (auto simp: buildIntroTranscript_def res_simps)
  show ?thesis
    using assms normalizeKeyId_length [OF a(1)] normalizeKeyId_length [OF a(2)]
    by (auto simp: buildIntroTranscript_def res_simps a assertLength_def epoch_case intro_u16be_Inr simp del: be_bytes.simps split del: if_split)
qed

lemma transcript_cong:
  "normalizeKeyId a' = normalizeKeyId a \<Longrightarrow> normalizeKeyId b' = normalizeKeyId b \<Longrightarrow>
    buildIntroTranscript P a' b' enc hash r bodyKem ct viewTag nonce e = buildIntroTranscript P a b enc hash r bodyKem ct viewTag nonce e"
  by (simp add: buildIntroTranscript_def)

lemma raw_key_id:
  assumes "hash_laws P" "computeHybridKeyId P pk pq = Inr keyId"
  shows "\<exists>raw. deriveHybridKeyIdRaw P pk (p_sha256 P pq) = Inr raw \<and> normalizeKeyId (KeyText keyId) = Inr raw \<and> normalizeKeyId (KeyBytes raw) = Inr raw"
  using assms by (auto simp: computeHybridKeyId_def deriveHybridKeyIdRaw_def normalizeKeyId_def assertLength_def hash_laws_def res_simps)

text \<open>The parts of a handshake that was built.\<close>

lemma build_Inr:
  assumes "buildIntroHandshake P hmac randomKem randomNonce identity peer ephemeral viewTag bodyKem introNonce firstMessage introEpoch = Inr built"
  shows "\<exists>pq transcript signature tag. kp_mlKem768PublicKey (mi_encryptionKeyPair identity) = Some pq \<and> length pq = 1184
    \<and> ib_ephemeralR built = p_x25519_public P ephemeral \<and> ib_introEpoch built = introEpoch
    \<and> establishConvKRootInitiator P randomKem (kp_x25519SecretKey (mi_encryptionKeyPair identity)) (ir_x25519PublicKey peer) (ir_mlKem768PublicKey peer)
        (KeyText (kp_keyId (mi_encryptionKeyPair identity))) (ir_keyId peer) = Inr (ib_kRoot built, ib_ctRoot built)
    \<and> buildIntroTranscript P (KeyText (kp_keyId (mi_encryptionKeyPair identity))) (ir_keyId peer) (kp_x25519PublicKey (mi_encryptionKeyPair identity))
        (p_sha256 P pq) (ib_ephemeralR built) (Some bodyKem) (ib_ctRoot built) viewTag (ib_introNonce built) introEpoch = Inr transcript
    \<and> signIntroTranscript P transcript (mi_signingSecretKey identity) = Inr signature
    \<and> deriveIntroConfirmTag P hmac (ib_kRoot built) transcript = Inr tag
    \<and> serializeIntroPayload (KeyText (kp_keyId (mi_encryptionKeyPair identity))) (kp_x25519PublicKey (mi_encryptionKeyPair identity)) (p_sha256 P pq)
        (ib_ctRoot built) (ib_introNonce built) signature tag firstMessage introEpoch = Inr (ib_introPayloadBytes built)"
  using assms unfolding buildIntroHandshake_def
  by (auto simp: res_simps Let_def assertLength_def toBytes_def split: option.splits)

lemma sign_length: "signIntroTranscript P t sk = Inr s \<Longrightarrow> length sk = 32 \<and> s = p_sign P t sk \<and> length s = 64"
  by (auto simp: signIntroTranscript_def assertLength_def res_simps)

lemma initiator_secret: "establishConvKRootInitiator P random sk pk kem a b = Inr r \<Longrightarrow> \<exists>s. sk = Some s \<and> length s = 32"
  by (auto simp: establishConvKRootInitiator_def x25519Shared_def toBytes_def assertLength_def res_simps split: option.splits)

text \<open>The recipient's view of its own keys, as the sender is given it.\<close>

definition peer_of :: "key_pair \<Rightarrow> intro_peer" where
  "peer_of b = \<lparr>ir_keyId = KeyText (kp_keyId b), ir_x25519PublicKey = kp_x25519PublicKey b, ir_mlKem768PublicKey = the (kp_mlKem768PublicKey b)\<rparr>"

lemma handshake_agrees:
  assumes laws: "crypto_laws P"
    and a: "key_pair_ok P (mi_encryptionKeyPair identity)" "kp_suite (mi_encryptionKeyPair identity) = HYBRID_V1"
    and sign: "mi_signingPublicKey identity = p_ed_public P (mi_signingSecretKey identity)"
    and b: "key_pair_ok P kp" "kp_suite kp = HYBRID_V1" "kp_x25519SecretKey kp = Some sk" "length sk = 32"
    and built: "buildIntroHandshake P hmac randomKem randomNonce identity (peer_of kp) ephemeral viewTag bodyKem introNonce firstMessage introEpoch = Inr built"
  shows "\<exists>raw. normalizeKeyId (KeyText (kp_keyId (mi_encryptionKeyPair identity))) = Inr raw
    \<and> openIntroHandshake P hmac (ib_introPayloadBytes built) kp (mi_signingPublicKey identity) (ib_ephemeralR built) (Some bodyKem) viewTag
      = Inr \<lparr>io_kRoot = ib_kRoot built, io_senderKeyId = raw, io_senderEncPublicKey = kp_x25519PublicKey (mi_encryptionKeyPair identity),
             io_introNonce = ib_introNonce built, io_firstMessageBytes = or_default firstMessage [], io_introEpoch = introEpoch\<rparr>"
proof -
  let ?a = "mi_encryptionKeyPair identity"
  have l: "hash_laws P" "agreement_laws P" "kem_laws P" "signature_laws P" using laws by (simp_all add: crypto_laws_def)
  obtain pq transcript signature tag where x:
      "kp_mlKem768PublicKey ?a = Some pq" "ib_ephemeralR built = p_x25519_public P ephemeral"
      "establishConvKRootInitiator P randomKem (kp_x25519SecretKey ?a) (kp_x25519PublicKey kp) (the (kp_mlKem768PublicKey kp))
        (KeyText (kp_keyId ?a)) (KeyText (kp_keyId kp)) = Inr (ib_kRoot built, ib_ctRoot built)"
      "buildIntroTranscript P (KeyText (kp_keyId ?a)) (KeyText (kp_keyId kp)) (kp_x25519PublicKey ?a)
        (p_sha256 P pq) (ib_ephemeralR built) (Some bodyKem) (ib_ctRoot built) viewTag (ib_introNonce built) introEpoch = Inr transcript"
      "signIntroTranscript P transcript (mi_signingSecretKey identity) = Inr signature"
      "deriveIntroConfirmTag P hmac (ib_kRoot built) transcript = Inr tag"
      "serializeIntroPayload (KeyText (kp_keyId ?a)) (kp_x25519PublicKey ?a) (p_sha256 P pq)
        (ib_ctRoot built) (ib_introNonce built) signature tag firstMessage introEpoch = Inr (ib_introPayloadBytes built)"
    using build_Inr [OF built] by (auto simp: peer_of_def)
  have "computeHybridKeyId P (kp_x25519PublicKey ?a) pq = Inr (kp_keyId ?a)" using a x(1) by (simp add: key_pair_ok_def)
  from raw_key_id [OF l(1) this] obtain raw where raw: "deriveHybridKeyIdRaw P (kp_x25519PublicKey ?a) (p_sha256 P pq) = Inr raw"
      "normalizeKeyId (KeyText (kp_keyId ?a)) = Inr raw" "normalizeKeyId (KeyBytes raw) = Inr raw" by blast
  note parsed = intro_payload_roundtrip [OF x(7) raw(2)]
  have t: "buildIntroTranscript P (KeyBytes raw) (KeyText (kp_keyId kp)) (kp_x25519PublicKey ?a)
        (p_sha256 P pq) (ib_ephemeralR built) (Some bodyKem) (ib_ctRoot built) viewTag (ib_introNonce built) introEpoch = Inr transcript"
    unfolding x(4) [symmetric] by (rule transcript_cong) (simp_all add: raw)
  obtain s where s: "kp_x25519SecretKey ?a = Some s" "length s = 32" using initiator_secret [OF x(3)] by blast
  have sa: "kp_x25519PublicKey ?a = p_x25519_public P s" using a(1) s(1) by (simp add: key_pair_ok_def)
  obtain seed where seed: "kp_mlKem768SecretKey kp = Some (snd (p_mlkem_keygen P seed))" "kp_mlKem768PublicKey kp = Some (fst (p_mlkem_keygen P seed))"
      "kp_x25519PublicKey kp = p_x25519_public P sk"
    using b(1-3) by (auto simp: key_pair_ok_def) (metis fst_conv snd_conv)
  have "establishConvKRootResponder P (Some sk) (Some (snd (p_mlkem_keygen P seed))) (p_x25519_public P s) (ib_ctRoot built) (KeyText (kp_keyId kp)) (KeyBytes raw)
      = Inr (ib_kRoot built)"
    by (rule roots_agree [OF l(2,3) s(2) b(4), where keyIdA = "KeyText (kp_keyId ?a)" and keyIdB = "KeyText (kp_keyId kp)" and random = randomKem])
      (use x(3) in \<open>simp_all add: s seed raw\<close>)
  then have k: "establishConvKRootResponder P (kp_x25519SecretKey kp) (kp_mlKem768SecretKey kp) (kp_x25519PublicKey ?a) (ib_ctRoot built)
      (KeyText (kp_keyId kp)) (KeyBytes raw) = Inr (ib_kRoot built)" by (simp add: b(3) seed(1) sa)
  have v: "verifyIntroTranscript P transcript signature (mi_signingPublicKey identity) = Inr True"
    using sign_length [OF x(5)] l(4) by (simp add: verifyIntroTranscript_def assertLength_def sign signature_laws_def)
  show ?thesis
    by (simp add: openIntroHandshake_def parsed t v raw k x(6))
qed

section \<open>What an opened handshake proves\<close>

lemma epoch_bytes_inj:
  assumes "epoch_bytes e = epoch_bytes e'" "\<forall>n. e = Some n \<longrightarrow> 0 \<le> n \<and> n < 2 ^ 32" "\<forall>n. e' = Some n \<longrightarrow> 0 \<le> n \<and> n < 2 ^ 32"
  shows "e = e'"
proof (cases e)
  case None
  then show ?thesis using arg_cong [OF assms(1), of length] by (cases e') (simp_all add: length_epoch_bytes)
next
  case (Some n)
  then obtain m where m: "e' = Some m" using arg_cong [OF assms(1), of length] by (cases e') (simp_all add: length_epoch_bytes)
  have "be_value (be_bytes 4 (nat n)) = be_value (be_bytes 4 (nat m))" using assms(1) by (simp add: epoch_bytes_def Some m del: be_bytes.simps)
  moreover have "nat n < 256 ^ 4" "nat m < 256 ^ 4" "0 \<le> n" "0 \<le> m" using assms(2,3) Some m by (simp_all add: nat_less_iff)
  ultimately show ?thesis using Some m by (simp only: be_value_be_bytes mod_less) (simp add: eq_nat_nat_iff)
qed

text \<open>
  C17: A signed intro cannot be moved. The transcript a sender signs determines everything the intro is
  about: who sends it to whom, the sender's keys, the capsule's ephemeral key, both ciphertexts, the view
  tag, the nonce and the day. Two intros with one transcript agree in all of it, or their ciphertexts are
  different messages of one SHA-256 digest.
\<close>

theorem intro_transcript_binds:
  assumes "hash_laws P"
    and "buildIntroTranscript P keyIdA keyIdB enc hash r (Some bodyKem) ct viewTag nonce introEpoch = Inr t"
    and "buildIntroTranscript P keyIdA' keyIdB' enc' hash' r' (Some bodyKem') ct' viewTag' nonce' introEpoch' = Inr t"
  shows "(normalizeKeyId keyIdA = normalizeKeyId keyIdA' \<and> normalizeKeyId keyIdB = normalizeKeyId keyIdB' \<and> enc = enc' \<and> hash = hash' \<and> r = r'
      \<and> bodyKem = bodyKem' \<and> ct = ct' \<and> viewTag = viewTag' \<and> nonce = nonce' \<and> introEpoch = introEpoch')
    \<or> collision (p_sha256 P) [bodyKem, ct] [bodyKem', ct']"
proof (cases "collision (p_sha256 P) [bodyKem, ct] [bodyKem', ct']")
  case False
  define D where "D = (\<lambda>e :: int option. if e \<noteq> None then INTRO_TRANSCRIPT_DOMAIN_V3 else INTRO_TRANSCRIPT_DOMAIN)"
  obtain a b where x: "normalizeKeyId keyIdA = Inr a" "normalizeKeyId keyIdB = Inr b" "length a = 32" "length b = 32" "length enc = 32" "length hash = 32"
      "length r = 32" "0 \<le> viewTag" "viewTag < 2 ^ 16" "length nonce = 16" "\<forall>n. introEpoch = Some n \<longrightarrow> 0 \<le> n \<and> n < 2 ^ 32"
      "t = D introEpoch @ a @ b @ enc @ hash @ r @ p_sha256 P bodyKem @ p_sha256 P ct @ be_bytes 2 (nat viewTag) @ nonce @ epoch_bytes introEpoch"
    using transcript_Inr [OF assms(2)] unfolding D_def by blast
  obtain a' b' where y: "normalizeKeyId keyIdA' = Inr a'" "normalizeKeyId keyIdB' = Inr b'" "length a' = 32" "length b' = 32" "length enc' = 32"
      "length hash' = 32" "length r' = 32" "0 \<le> viewTag'" "viewTag' < 2 ^ 16" "length nonce' = 16" "\<forall>n. introEpoch' = Some n \<longrightarrow> 0 \<le> n \<and> n < 2 ^ 32"
      "t = D introEpoch' @ a' @ b' @ enc' @ hash' @ r' @ p_sha256 P bodyKem' @ p_sha256 P ct' @ be_bytes 2 (nat viewTag') @ nonce' @ epoch_bytes introEpoch'"
    using transcript_Inr [OF assms(3)] unfolding D_def by blast
  have "ascii ''PLATHO.INTRO.TRANSCRIPT.V3'' = map word_of_nat (str ''PLATHO.INTRO.TRANSCRIPT.V3'')"
      "ascii ''PLATHO.INTRO.TRANSCRIPT.V2'' = map word_of_nat (str ''PLATHO.INTRO.TRANSCRIPT.V2'')"
    unfolding ascii_def by (rule utf8_encode_ascii, simp add: str_def)+
  then have d: "length (D e) = length (D e')" for e e'
    by (simp add: D_def INTRO_TRANSCRIPT_DOMAIN_V3_def INTRO_TRANSCRIPT_DOMAIN_def str_def)
  have h: "length (p_sha256 P m) = 32" for m using assms(1) by (simp add: hash_laws_def)
  have "D introEpoch @ a @ b @ enc @ hash @ r @ p_sha256 P bodyKem @ p_sha256 P ct @ be_bytes 2 (nat viewTag) @ nonce @ epoch_bytes introEpoch
      = D introEpoch' @ a' @ b' @ enc' @ hash' @ r' @ p_sha256 P bodyKem' @ p_sha256 P ct' @ be_bytes 2 (nat viewTag') @ nonce' @ epoch_bytes introEpoch'"
    by (rule trans [OF x(12) [symmetric] y(12)])
  then have z: "a = a'" "b = b'" "enc = enc'" "hash = hash'" "r = r'" "p_sha256 P bodyKem = p_sha256 P bodyKem'" "p_sha256 P ct = p_sha256 P ct'"
      "be_bytes 2 (nat viewTag) = be_bytes 2 (nat viewTag')" "nonce = nonce'" "epoch_bytes introEpoch = epoch_bytes introEpoch'"
    using d [of introEpoch introEpoch'] x(3-7,10) y(3-7,10) h by (simp_all del: be_bytes.simps)
  have "nat viewTag < 256 ^ 2" "nat viewTag' < 256 ^ 2" using x(9) y(9) by (simp_all add: nat_less_iff)
  then have "nat viewTag = nat viewTag'" using arg_cong [OF z(8), of be_value] by (simp only: be_value_be_bytes mod_less)
  then have v: "viewTag = viewTag'" using x(8) y(8) by simp
  have "bodyKem = bodyKem'" by (rule no_collision [OF False _ _ z(6)]) simp_all
  moreover have "ct = ct'" by (rule no_collision [OF False _ _ z(7)]) simp_all
  ultimately show ?thesis using z v x(1,2) y(1,2) epoch_bytes_inj [OF z(10) x(11) y(11)] by simp
qed simp

theorem intro_transcript_binds_witness:
  "\<exists>t. buildIntroTranscript toy_prims (sample_id 1) (sample_id 2) (replicate 32 3) (replicate 32 4) (replicate 32 5) (Some (replicate 1088 6))
      (replicate 1088 7) 9 (replicate 16 8) (Some 20800) = Inr t
    \<and> (replicate 1088 6 = replicate 1088 (6 :: byte) \<or> collision (p_sha256 toy_prims) [replicate 1088 6, replicate 1088 7] [replicate 1088 6, replicate 1088 7])"
proof -
  have h: "hash_laws toy_prims" using toy_laws by (simp add: crypto_laws_def)
  obtain t where t: "buildIntroTranscript toy_prims (sample_id 1) (sample_id 2) (replicate 32 3) (replicate 32 4) (replicate 32 5) (Some (replicate 1088 6))
      (replicate 1088 7) 9 (replicate 16 8) (Some 20800) = Inr t"
    by (simp add: buildIntroTranscript_def sample_id_def normalizeKeyId_def assertLength_def intro_u16be_def intro_u32be_def del: be_bytes.simps)
  show ?thesis using t intro_transcript_binds [OF h t t] by blast
qed

end
