(* ===== verification/Intro_Capsule.thy ===== *)
theory Intro_Capsule
  imports Capsule_Guarantees Intro_Handshake
begin

text \<open>
  The capsule of a first contact (\<open>createEncryptedIntroCapsule\<close>, \<open>openEncryptedIntroCapsule\<close> and
  \<open>openIntroCapsuleFromChainCells\<close> of \<open>web/crypto/platho-crypto.mjs\<close>): a capsule to the recipient's hybrid
  bundle whose payload is the handshake. Its header 1 is a constant, so the chain keeps only header 0 and
  the body; its ephemeral key and the ML-KEM ciphertext of its body are signed in the handshake's transcript.
\<close>

section \<open>Creating\<close>

record intro_options =
  no_introNonce :: "bytes option"
  no_firstMessageBytes :: "bytes option"
  no_introEpoch :: "int option"

record intro_random =
  nr_capsule :: capsule_random
  nr_bodyKem :: bytes
  nr_rootKem :: bytes
  nr_introNonce :: bytes

text \<open>The answer is the capsule with its draft, the root key and the nonce.\<close>

definition createEncryptedIntroCapsule ::
    "prims \<Rightarrow> (bytes \<Rightarrow> bytes \<Rightarrow> bytes) \<Rightarrow> (js_string \<Rightarrow> js_string) \<Rightarrow> (js_string \<Rightarrow> js_string \<Rightarrow> bool) \<Rightarrow> key_bundle \<Rightarrow> messaging_identity
      \<Rightarrow> capsule_options \<Rightarrow> intro_options \<Rightarrow> intro_random \<Rightarrow> ((capsule \<times> publish_draft) \<times> bytes \<times> bytes) res" where
  "createEncryptedIntroCapsule P hmac lower le recipientPublicBundle identity options intro random =
     andThen (normalizeRecipientBundle P recipientPublicBundle) (\<lambda>r.
     andThen (assertSupportedPrivateSuite (kb_suite (rk_bundle r))) (\<lambda>suite.
     guard (\<not> suite \<noteq> HYBRID_V1) (JsError ''INTRO capsule requires the hybrid suite'')
    (andThen (case rk_scanPublicKey r of Some scan \<Rightarrow> Inr scan
         | None \<Rightarrow> Inl (JsError ''Recipient bundle is missing the stealth scan pubkey'')) (\<lambda>scan.
       (let cryptoSuite = kb_contractSuite (rk_bundle r); ephemeral = cr_ephemeral (nr_capsule random);
            ephemeralPublic = p_x25519_public P ephemeral in
     andThen (deriveStealthViewTagForRecipient P ephemeral ephemeralPublic scan) (\<lambda>viewTag.
       (let pq = or_default (rk_mlKem768PublicKey r) []; bodyKem = p_mlkem_encapsulate P pq (nr_bodyKem random) in
     andThen (assertLength (fst bodyKem) 1088) (\<lambda>bodyKemCiphertext.
     andThen (buildIntroHandshake P hmac (nr_rootKem random) (nr_introNonce random) identity
         \<lparr>ir_keyId = KeyText (kb_keyId (rk_bundle r)), ir_x25519PublicKey = rk_x25519PublicKey r, ir_mlKem768PublicKey = pq\<rparr>
         ephemeral (int viewTag) bodyKemCiphertext (no_introNonce intro) (no_firstMessageBytes intro) (no_introEpoch intro)) (\<lambda>handshake.
       (let senderRecovery = ca_senderRecovery options \<noteq> Some False in
     andThen (capsule_payload lower (cr_streamId (nr_capsule random))
         (options\<lparr>ca_payloadBytes := None, ca_payload := DocumentInput (ib_introPayloadBytes handshake)\<rparr>) senderRecovery cryptoSuite)
       (\<lambda>(payloadBytes, sizeClass).
     andThen (aligned_times (ca_times options) (to_now (ca_policy options))) (\<lambda>_.
     andThen (privateProfilePointer (ca_profileVersion options) (ca_avatarHash options)) (\<lambda>pointer.
       (let header0 = (blank_header0 KIND_INTRO PUBLISH_INTRO sizeClass cryptoSuite suite)
              \<lparr>h0_ephemeralR := Some (U256Text (base64urlEncode ephemeralPublic)), h0_viewTag := Some (int viewTag)\<rparr>;
            header1 = introCanonicalHeader1 in
     andThen (assertCapsuleTimestampPolicy header1 ((ca_policy options)\<lparr>to_enforceExpiry := Some False\<rparr>)) (\<lambda>_.
     andThen (seal_capsule P le identity KIND_INTRO header0 header1 pointer payloadBytes recipientPublicBundle (cr_body (nr_capsule random))
         (\<lambda>o'. o'\<lparr>en_messageId := ca_messageId options, en_senderRecovery := senderRecovery,
            en_ephemeralSecretKey := Some ephemeral, en_ephemeralPublicKey := Some ephemeralPublic,
            en_mlKemEncapsulation := Some (bodyKemCiphertext, snd bodyKem)\<rparr>)) (\<lambda>sealed.
       Inr (sealed, ib_kRoot handshake, ib_introNonce handshake)))))))))))))))))"

section \<open>Opening\<close>

record intro_contact =
  ic_kRoot :: bytes
  ic_senderKeyId :: bytes
  ic_senderEncPublicKey :: bytes
  ic_senderSigningPublicKey :: bytes
  ic_introNonce :: bytes
  ic_introEpoch :: "int option"
  ic_firstMessageBytes :: bytes
  ic_profileVersion :: int
  ic_avatarHash :: js_string

text \<open>The handshake payload of a decoded capsule, and \<open>ephemeralR\<close> of header 0 as bytes.\<close>

definition handshake_payload :: "decoded_payload \<Rightarrow> bytes res" where
  "handshake_payload p = (case dp_content p of DecodedDocument bs \<Rightarrow> Inr bs
     | _ \<Rightarrow> Inl (JsError ''INTRO capsule is missing its handshake payload''))"

definition ephemeral_bytes :: "capsule_header0 \<Rightarrow> bytes res" where
  "ephemeral_bytes h = (case h0_ephemeralR h of Some (U256Text t) \<Rightarrow> base64urlDecode t
     | _ \<Rightarrow> Inl (TypeError ''Expected base64url string''))"

text \<open>The nonce is checked and remembered by its own guard, which keeps it without an expiry.\<close>

definition guard_nonce :: "'g replay_ops \<Rightarrow> 'g option \<Rightarrow> bytes \<Rightarrow> unit res \<times> 'g option" where
  "guard_nonce guardOps introGuard introNonce =
     (let nonceKey = base64urlEncode introNonce; (seen, introGuard') = seen_before guardOps introGuard nonceKey in
      if seen then (Inl (JsError ''INTRO replay detected (introNonce already seen)''), introGuard')
      else (Inr (), remember guardOps introGuard' nonceKey PosInf))"

definition contact_of :: "intro_opened \<Rightarrow> bytes \<Rightarrow> int \<Rightarrow> js_string \<Rightarrow> intro_contact" where
  "contact_of hs signingPublicKey profileVersion avatarHash =
     \<lparr>ic_kRoot = io_kRoot hs, ic_senderKeyId = io_senderKeyId hs, ic_senderEncPublicKey = io_senderEncPublicKey hs,
      ic_senderSigningPublicKey = signingPublicKey, ic_introNonce = io_introNonce hs, ic_introEpoch = io_introEpoch hs,
      ic_firstMessageBytes = io_firstMessageBytes hs, ic_profileVersion = profileVersion, ic_avatarHash = avatarHash\<rparr>"

definition openEncryptedIntroCapsule ::
    "prims \<Rightarrow> (bytes \<Rightarrow> bytes \<Rightarrow> bytes) \<Rightarrow> (js_string \<Rightarrow> js_string) \<Rightarrow> (js_string \<Rightarrow> js_string \<Rightarrow> bool) \<Rightarrow> 'c replay_ops \<Rightarrow> 'c option
      \<Rightarrow> 'g replay_ops \<Rightarrow> 'g option \<Rightarrow> capsule \<Rightarrow> key_pair \<Rightarrow> timestamp_options \<Rightarrow> js_string option
      \<Rightarrow> (intro_contact \<times> capsule) res \<times> 'c option \<times> 'g option" where
  "openEncryptedIntroCapsule P hmac lower le ops cache guardOps introGuard c kp options openAsSenderKeyId =
     (case openEncryptedPrivateCapsule P lower le ops cache c kp
         (options\<lparr>to_enforceExpiry := Some (or_default (to_enforceExpiry options) False)\<rparr>) openAsSenderKeyId of
        (Inl e, cache') \<Rightarrow> (Inl e, cache', introGuard)
      | (Inr oc, cache') \<Rightarrow>
          (case guard (\<not> h0_kind (cp_header0 (oc_capsule oc)) \<noteq> KIND_INTRO) (JsError ''Not an INTRO capsule'')
              (andThen (handshake_payload (oc_payload oc)) (\<lambda>introPayloadBytes.
               andThen (compactBodyBytesFromCapsuleBody (cp_body (oc_capsule oc))) (\<lambda>bodyBytes.
               andThen (inspectCompactBodyBytes bodyBytes) (\<lambda>info.
               andThen (ephemeral_bytes (cp_header0 (oc_capsule oc))) (\<lambda>ephemeralR.
                 openIntroHandshake P hmac introPayloadBytes kp (oc_senderSigningPublicKey oc) ephemeralR
                   (bi_mlKem768Ciphertext info) (or_default (h0_viewTag (cp_header0 (oc_capsule oc))) 0)))))) of
             Inl e \<Rightarrow> (Inl e, cache', introGuard)
           | Inr hs \<Rightarrow>
               (case guard_nonce guardOps introGuard (io_introNonce hs) of
                  (Inl e, introGuard') \<Rightarrow> (Inl e, cache', introGuard')
                | (Inr _, introGuard') \<Rightarrow>
                    (Inr (contact_of hs (oc_senderSigningPublicKey oc) (oc_profileVersion oc) (oc_avatarHash oc),
                       oc_capsule oc), cache', introGuard'))))"

definition openIntroCapsuleFromChainCells ::
    "prims \<Rightarrow> (bytes \<Rightarrow> bytes \<Rightarrow> bytes) \<Rightarrow> (js_string \<Rightarrow> js_string) \<Rightarrow> 'g replay_ops \<Rightarrow> 'g option \<Rightarrow> bytes \<Rightarrow> bytes \<Rightarrow> key_pair
      \<Rightarrow> intro_contact res \<times> 'g option" where
  "openIntroCapsuleFromChainCells P hmac lower guardOps introGuard header0Bytes bodyBytes kp =
     (case andThen (introCapsuleHeader0ObjectFromBytes header0Bytes) (\<lambda>header0.
           andThen (assertPrivateBodyMatchesHeader header0 bodyBytes) (\<lambda>_.
           andThen (compactBodyObjectFromBytes bodyBytes) (\<lambda>body.
           andThen (computePrivateCapsuleChainCells P header0 introCanonicalHeader1 body) (\<lambda>cells.
           andThen (privateCapsuleHashesFromChainCells cells) (\<lambda>hashes.
           andThen (decryptCompactBodyBytes P lower bodyBytes kp
               \<lparr>bh_header0Hash = ch_header0Hash hashes, bh_header1Hash = ch_header1Hash hashes, bh_senderKeyId = None\<rparr>
               PLATHO_COMPACT_IDENTITY_BYTES) (\<lambda>decrypted.
           case ob_identity decrypted of
             None \<Rightarrow> Inl (JsError ''INTRO capsule is missing its in-body sender identity section'')
           | Some identity \<Rightarrow>
               andThen (handshake_payload (ob_payload decrypted)) (\<lambda>introPayloadBytes.
               andThen (assertLength (id_signingPublicKey identity) 32) (\<lambda>signingPublicKey.
               andThen (inspectCompactBodyBytes bodyBytes) (\<lambda>info.
               andThen (ephemeral_bytes header0) (\<lambda>ephemeralR.
               andThen (openIntroHandshake P hmac introPayloadBytes kp signingPublicKey ephemeralR (bi_mlKem768Ciphertext info)
                   (or_default (h0_viewTag header0) 0)) (\<lambda>hs.
                 Inr (hs, signingPublicKey, identity)))))))))))) of
        Inl e \<Rightarrow> (Inl e, introGuard)
      | Inr (hs, signingPublicKey, identity) \<Rightarrow>
          (case guard_nonce guardOps introGuard (io_introNonce hs) of
             (Inl e, introGuard') \<Rightarrow> (Inl e, introGuard')
           | (Inr _, introGuard') \<Rightarrow>
               (Inr (contact_of hs signingPublicKey (id_profileVersion identity) (id_avatarHash identity)), introGuard')))"

section \<open>A first contact arrives\<close>

abbreviation intro_extra :: "prims \<Rightarrow> capsule_options \<Rightarrow> bytes \<Rightarrow> bool \<Rightarrow> bytes \<times> bytes \<Rightarrow> body_options \<Rightarrow> body_options" where
  "intro_extra P options ephemeral recover e \<equiv> seal_extra P options ephemeral recover (Some e)"

lemma intro_created:
  assumes "createEncryptedIntroCapsule P hmac lower le b identity options intro random = Inr ((c, draft), kRoot, nonce)"
    and "normalizeRecipientBundle P b = Inr r"
  shows "\<exists>viewTag e built plain n pointer header0 recover identityBytes bodyBytes o'.
    kb_suite (rk_bundle r) = HYBRID_V1 \<and> recover = (ca_senderRecovery options \<noteq> Some False)
    \<and> e = p_mlkem_encapsulate P (or_default (rk_mlKem768PublicKey r) []) (nr_bodyKem random)
    \<and> buildIntroHandshake P hmac (nr_rootKem random) (nr_introNonce random) identity
         \<lparr>ir_keyId = KeyText (kb_keyId (rk_bundle r)), ir_x25519PublicKey = rk_x25519PublicKey r, ir_mlKem768PublicKey = or_default (rk_mlKem768PublicKey r) []\<rparr>
         (cr_ephemeral (nr_capsule random)) (int viewTag) (fst e) (no_introNonce intro) (no_firstMessageBytes intro) (no_introEpoch intro) = Inr built
    \<and> kRoot = ib_kRoot built \<and> nonce = ib_introNonce built
    \<and> capsule_payload lower (cr_streamId (nr_capsule random))
         (options\<lparr>ca_payloadBytes := None, ca_payload := DocumentInput (ib_introPayloadBytes built)\<rparr>) recover (kb_contractSuite (rk_bundle r)) = Inr (plain, n)
    \<and> header0 = (blank_header0 KIND_INTRO PUBLISH_INTRO n (kb_contractSuite (rk_bundle r)) HYBRID_V1)
              \<lparr>h0_ephemeralR := Some (U256Text (base64urlEncode (p_x25519_public P (cr_ephemeral (nr_capsule random))))), h0_viewTag := Some (int viewTag)\<rparr>
    \<and> sealed_with P le identity header0 introCanonicalHeader1 pointer plain b (cr_body (nr_capsule random))
        (intro_extra P options (cr_ephemeral (nr_capsule random)) recover e) c draft identityBytes bodyBytes o' \<and> cp_kind c = KIND_INTRO"
proof -
  obtain scan viewTag built plain n times pointer u where x: "kb_suite (rk_bundle r) = HYBRID_V1"
      "buildIntroHandshake P hmac (nr_rootKem random) (nr_introNonce random) identity
         \<lparr>ir_keyId = KeyText (kb_keyId (rk_bundle r)), ir_x25519PublicKey = rk_x25519PublicKey r, ir_mlKem768PublicKey = or_default (rk_mlKem768PublicKey r) []\<rparr>
         (cr_ephemeral (nr_capsule random)) (int viewTag) (fst (p_mlkem_encapsulate P (or_default (rk_mlKem768PublicKey r) []) (nr_bodyKem random)))
         (no_introNonce intro) (no_firstMessageBytes intro) (no_introEpoch intro) = Inr built"
      "capsule_payload lower (cr_streamId (nr_capsule random))
         (options\<lparr>ca_payloadBytes := None, ca_payload := DocumentInput (ib_introPayloadBytes built)\<rparr>) (ca_senderRecovery options \<noteq> Some False)
         (kb_contractSuite (rk_bundle r)) = Inr (plain, n)"
      "seal_capsule P le identity KIND_INTRO ((blank_header0 KIND_INTRO PUBLISH_INTRO n (kb_contractSuite (rk_bundle r)) HYBRID_V1)
              \<lparr>h0_ephemeralR := Some (U256Text (base64urlEncode (p_x25519_public P (cr_ephemeral (nr_capsule random))))), h0_viewTag := Some (int viewTag)\<rparr>)
         introCanonicalHeader1 pointer plain b (cr_body (nr_capsule random))
         (intro_extra P options (cr_ephemeral (nr_capsule random)) (ca_senderRecovery options \<noteq> Some False)
            (p_mlkem_encapsulate P (or_default (rk_mlKem768PublicKey r) []) (nr_bodyKem random))) = Inr (c, draft)"
      "kRoot = ib_kRoot built" "nonce = ib_introNonce built"
    using assms unfolding createEncryptedIntroCapsule_def seal_extra_def create_extra_def [abs_def]
    by (auto simp: res_simps Let_def assertSupportedPrivateSuite_def assertLength_def split: option.splits)
  obtain identityBytes bodyBytes o' where z: "sealed_with P le identity ((blank_header0 KIND_INTRO PUBLISH_INTRO n (kb_contractSuite (rk_bundle r)) HYBRID_V1)
              \<lparr>h0_ephemeralR := Some (U256Text (base64urlEncode (p_x25519_public P (cr_ephemeral (nr_capsule random))))), h0_viewTag := Some (int viewTag)\<rparr>)
         introCanonicalHeader1 pointer plain b (cr_body (nr_capsule random))
         (intro_extra P options (cr_ephemeral (nr_capsule random)) (ca_senderRecovery options \<noteq> Some False)
            (p_mlkem_encapsulate P (or_default (rk_mlKem768PublicKey r) []) (nr_bodyKem random))) c draft identityBytes bodyBytes o'"
      "cp_kind c = KIND_INTRO" using seal_capsule_Inr [OF x(4)] by blast
  show ?thesis by (intro exI conjI) (rule x(1) refl x(2,5,6,3) z)+
qed

text \<open>What the chain's two cells give the recipient.\<close>

lemma intro_header_back:
  assumes "introCapsuleHeader0Bytes h = Inr bytes" "h0_ephemeralR h = Some (U256Text (base64urlEncode m))" "length m = 32"
  shows "\<exists>h'. introCapsuleHeader0ObjectFromBytes bytes = Inr h' \<and> capsuleHeader0Bytes h' = Inr bytes \<and> h0_kind h' = KIND_INTRO
    \<and> h0_sizeClass h' = h0_sizeClass h \<and> h0_cryptoSuite h' = h0_cryptoSuite h \<and> h0_suite h' = h0_suite h
    \<and> ephemeral_bytes h' = Inr m \<and> h0_viewTag h' = Some (or_default (h0_viewTag h) 0) \<and> h0_senderKeyId h' = None"
proof -
  obtain h' where h': "introCapsuleHeader0ObjectFromBytes bytes = Inr h'" "h0_kind h' = KIND_INTRO" "h0_sizeClass h' = h0_sizeClass h"
      "h0_cryptoSuite h' = h0_cryptoSuite h" "h0_suite h' = h0_suite h" "uint256Bytes (h0_ephemeralR h') = uint256Bytes (h0_ephemeralR h)"
      "h0_viewTag h' = Some (or_default (h0_viewTag h) 0)" "length bytes = 42"
    using intro_header0_written [OF assms(1)] by blast
  have e: "h0_ephemeralR h' = Some (U256Text (base64urlEncode (slice 8 40 bytes)))" "h0_senderKeyId h' = None"
    using h'(1) by (auto simp: introCapsuleHeader0ObjectFromBytes_def res_simps header0_read_def)
  have "slice 8 40 bytes = m"
    using h'(6,8) assms(3) by (simp add: e(1) assms(2) uint256Bytes_encoded)
  then show ?thesis using h' e intro_header0_back(1) [OF h'(1)] by (simp add: ephemeral_bytes_def)
qed

lemma intro_extra_honest:
  assumes "honest_random (nr_capsule random)"
    and "sealed_with P le identity header0 header1 pointer plain b (cr_body (nr_capsule random))
        (intro_extra P options (cr_ephemeral (nr_capsule random)) recover (p_mlkem_encapsulate P (or_default (rk_mlKem768PublicKey r) []) seed))
        c draft identityBytes bodyBytes o'"
  shows "honest_options P r o' (cr_body (nr_capsule random))" "en_identityBytes o' = Some identityBytes"
    "en_senderRecovery o' = recover" "en_senderKeyPair o' = Some (mi_encryptionKeyPair identity)"
    "bh_senderKeyId (en_hashes o') = Some (kp_keyId (mi_encryptionKeyPair identity))"
    "bh_header0Hash (en_hashes o') = ch_header0Hash (cp_hashes c)" "bh_header1Hash (en_hashes o') = ch_header1Hash (cp_hashes c)"
    "en_mlKemEncapsulation o' = Some (p_mlkem_encapsulate P (or_default (rk_mlKem768PublicKey r) []) seed)"
  using assms by (auto simp: honest_options_def honest_random_def sealed_with_def seal_extra_def create_extra_def or_default_def)

lemma document_payload:
  assumes "capsule_payload lower sid (options\<lparr>ca_payloadBytes := None, ca_payload := DocumentInput bytes\<rparr>) recover contract = Inr (plain, n)"
    and "length sid = 16" "lowers_ascii lower"
    and "or_default (co_partIndex (ca_compact options)) 0 < or_default (co_partCount (ca_compact options)) 1"
  shows "\<exists>dp. decodeCompactPayloadBytesInner lower plain (Some (int (compactPayloadReservedTailBytes recover))) = Inr dp
    \<and> handshake_payload dp = Inr bytes"
proof -
  have "encodeCompactPayload lower sid (DocumentInput bytes)
      ((ca_compact options)\<lparr>co_reservedTailBytes := Some (int (compactPayloadReservedTailBytes recover))\<rparr>) = Inr plain"
    using assms(1) by (auto simp: capsule_payload_def Let_def res_simps)
  from compact_payload_roundtrip_aux [OF this assms(2,3)] assms(4) show ?thesis
    by (auto simp: handshake_payload_def content_of_def or_default_def)
qed

text \<open>Both readers of the body come to the same handshake: what they decrypt, inspect and decode.\<close>

lemma intro_body:
  assumes P: "crypto_laws P" and kp: "key_pair_ok P kp" "kp_suite kp = HYBRID_V1" "kp_x25519SecretKey kp = Some sk" "length sk = 32"
      "exportPublicKeyBundle kp = Inr b" "normalizeRecipientBundle P b = Inr r"
    and rn: "honest_random (nr_capsule random)" "length (cr_streamId (nr_capsule random)) = 16" "lowers_ascii lower"
      "or_default (co_partIndex (ca_compact options)) 0 < or_default (co_partCount (ca_compact options)) 1"
    and p: "capsule_payload lower (cr_streamId (nr_capsule random))
         (options\<lparr>ca_payloadBytes := None, ca_payload := DocumentInput bytes\<rparr>) recover contract = Inr (plain, n)"
    and e: "e = p_mlkem_encapsulate P (or_default (rk_mlKem768PublicKey r) []) (nr_bodyKem random)"
    and s: "sealed_with P le identity header0 header1 pointer plain b (cr_body (nr_capsule random))
        (intro_extra P options (cr_ephemeral (nr_capsule random)) recover e) c draft identityBytes bodyBytes o'"
    and h0: "h0_senderKeyId header0 = None"
    and i: "ident = \<lparr>id_signingPublicKey = mi_signingPublicKey identity, id_profileVersion = fst pointer, id_avatarHash = hex256 (snd pointer)\<rparr>"
  shows "\<exists>dp info. handshake_payload dp = Inr bytes \<and> inspectCompactBodyBytes bodyBytes = Inr info \<and> bi_mlKem768Ciphertext info = Some (fst e)
    \<and> decryptCompactBodyBytes P lower bodyBytes kp \<lparr>bh_header0Hash = ch_header0Hash (cp_hashes c), bh_header1Hash = ch_header1Hash (cp_hashes c),
        bh_senderKeyId = None\<rparr> PLATHO_COMPACT_IDENTITY_BYTES
      = Inr \<lparr>ob_payload = dp, ob_identity = Some ident, ob_openedAs = AsRecipient, ob_keyId = kp_keyId kp\<rparr>"
proof -
  obtain dp where dp: "decodeCompactPayloadBytesInner lower plain (Some (int (compactPayloadReservedTailBytes recover))) = Inr dp" "handshake_payload dp = Inr bytes"
    using document_payload [OF p rn(2-4)] by blast
  note h = intro_extra_honest [OF rn(1) s [unfolded e]]
  have w: "encryptCompactPayloadBytes P (cr_body (nr_capsule random)) plain b o' = Inr bodyBytes"
    and ib: "privateCapsuleIdentityBytes (mi_signingPublicKey identity) (Some (fst pointer)) (snd pointer) = Inr identityBytes"
    using s unfolding sealed_with_def by blast+
  have rec: "recover = (en_senderRecovery o' \<and> en_senderKeyPair o' \<noteq> None)" using h(3,4) by simp
  note b = body_opens_aux [OF P kp(1,3,4,5,6) h(1) w h(2) identity_section_back(1) [OF ib] rec dp(1),
      of "\<lparr>bh_header0Hash = ch_header0Hash (cp_hashes c), bh_header1Hash = ch_header1Hash (cp_hashes c), bh_senderKeyId = None\<rparr>"]
  obtain info where "inspectCompactBodyBytes bodyBytes = Inr info" "bi_mlKem768Ciphertext info = Some (fst e)"
    using b(4) h(6-8) kp(2) e by auto
  with b(1) h(6,7) dp(2) show ?thesis by (auto simp: i)
qed

lemma intro_on_chain:
  assumes s: "sealed_with P le identity header0 introCanonicalHeader1 pointer plain b random extra c draft identityBytes bodyBytes o'"
    and h0: "h0_kind header0 = KIND_INTRO" "h0_ephemeralR header0 = Some (U256Text (base64urlEncode m))" "length m = 32"
  shows "\<exists>header0Bytes h cells body. snakeBytesFromBoc (BocText (cc_boc (pd_header_0_cell draft))) = Inr header0Bytes
    \<and> snakeBytesFromBoc (BocText (cc_boc (pd_body_cell draft))) = Inr bodyBytes
    \<and> introCapsuleHeader0ObjectFromBytes header0Bytes = Inr h \<and> assertPrivateBodyMatchesHeader h bodyBytes = Inr ()
    \<and> ephemeral_bytes h = Inr m \<and> h0_viewTag h = Some (or_default (h0_viewTag header0) 0)
    \<and> compactBodyObjectFromBytes bodyBytes = Inr body
    \<and> computePrivateCapsuleChainCells P h introCanonicalHeader1 body = Inr cells \<and> privateCapsuleHashesFromChainCells cells = Inr (cp_hashes c)"
proof -
  obtain cells where x: "assertPrivateBodyMatchesHeader header0 bodyBytes = Inr ()" "compactBodyObjectFromBytes bodyBytes = Inr (cp_body c)"
      "computePrivateCapsuleChainCells P header0 introCanonicalHeader1 (cp_body c) = Inr cells" "privateCapsuleHashesFromChainCells cells = Inr (cp_hashes c)"
      "cp_cell0 c = Some (hc_header0 cells)" "cp_cell1 c = Some (hc_header1 cells)" "cp_cellb c = Some (hc_body cells)"
      "privateCapsulePublishDraft c = Inr draft"
    using s unfolding sealed_with_def by blast
  obtain bytes0 bytes1 bb where w: "capsuleHeader0Bytes header0 = Inr bytes0" "privateCapsuleHeader1Bytes introCanonicalHeader1 = Inr bytes1"
      "privateCapsuleBodyBytes (cp_body c) = Inr bb" "cell_payload P bytes0 PLATHO_ONCHAIN_HEADER_MAX_BYTES = Inr (hc_header0 cells)"
      "cell_payload P bytes1 PLATHO_ONCHAIN_HEADER_MAX_BYTES = Inr (hc_header1 cells)"
      "cell_payload P bb PLATHO_ONCHAIN_BODY_MAX_BYTES = Inr (hc_body cells)"
    using x(3) by (auto simp: chain_cells_Inr)
  have bb: "bb = bodyBytes" using w(3) body_object_layout [OF x(2)] by simp
  have d: "pd_header_0_cell draft = hc_header0 cells" "pd_body_cell draft = hc_body cells"
    using x(8) by (auto simp: privateCapsulePublishDraft_def x(5-7))
  have boc: "snakeBytesFromBoc (BocText (cc_boc (hc_header0 cells))) = Inr bytes0" "snakeBytesFromBoc (BocText (cc_boc (hc_body cells))) = Inr bodyBytes"
    using cell_payload_Inr [OF w(4) onchain_caps(1)] cell_payload_Inr [OF w(6) onchain_caps(2)] bb by simp_all
  have "introCapsuleHeader0Bytes header0 = Inr bytes0"
    using w(1) h0(1) by (simp add: capsuleHeader0Bytes_def KIND_CONV_def KIND_PRIVATE_def KIND_INTRO_def str_def split: if_splits)
  from intro_header_back [OF this h0(2,3)] obtain h where h: "introCapsuleHeader0ObjectFromBytes bytes0 = Inr h" "capsuleHeader0Bytes h = Inr bytes0"
      "h0_sizeClass h = h0_sizeClass header0" "h0_cryptoSuite h = h0_cryptoSuite header0" "h0_suite h = h0_suite header0"
      "ephemeral_bytes h = Inr m" "h0_viewTag h = Some (or_default (h0_viewTag header0) 0)" by blast
  have body: "assertPrivateBodyMatchesHeader h bodyBytes = Inr ()" using x(1) by (simp add: assertPrivateBodyMatchesHeader_def h(3-5))
  have cells: "computePrivateCapsuleChainCells P h introCanonicalHeader1 (cp_body c) = Inr cells" using w h(2) by (simp add: chain_cells_Inr)
  show ?thesis using boc d h(1,6,7) body cells x(2,4) by auto
qed

text \<open>Everything the two ways of opening need of an intro that was made, with the handshake already opened.\<close>

definition intro_made ::
    "prims \<Rightarrow> (bytes \<Rightarrow> bytes \<Rightarrow> bytes) \<Rightarrow> (js_string \<Rightarrow> js_string) \<Rightarrow> (js_string \<Rightarrow> js_string \<Rightarrow> bool) \<Rightarrow> key_pair \<Rightarrow> messaging_identity
      \<Rightarrow> bytes \<Rightarrow> intro_opened \<Rightarrow> capsule \<Rightarrow> publish_draft \<Rightarrow> bytes \<Rightarrow> capsule_identity \<Rightarrow> bool" where
  "intro_made P hmac lower le kp identity m hs c draft bodyBytes ident \<longleftrightarrow>
     (\<exists>header0 pointer plain b random extra identityBytes o' dp info intro.
        sealed_with P le identity header0 introCanonicalHeader1 pointer plain b random extra c draft identityBytes bodyBytes o'
      \<and> cp_kind c = KIND_INTRO \<and> h0_kind header0 = KIND_INTRO \<and> h0_ephemeralR header0 = Some (U256Text (base64urlEncode m)) \<and> length m = 32
      \<and> h0_senderKeyId header0 = None
      \<and> ident = \<lparr>id_signingPublicKey = mi_signingPublicKey identity, id_profileVersion = fst pointer, id_avatarHash = hex256 (snd pointer)\<rparr>
      \<and> handshake_payload dp = Inr intro \<and> inspectCompactBodyBytes bodyBytes = Inr info
      \<and> openIntroHandshake P hmac intro kp (mi_signingPublicKey identity) m (bi_mlKem768Ciphertext info) (or_default (h0_viewTag header0) 0) = Inr hs
      \<and> decryptCompactBodyBytes P lower bodyBytes kp \<lparr>bh_header0Hash = ch_header0Hash (cp_hashes c), bh_header1Hash = ch_header1Hash (cp_hashes c),
          bh_senderKeyId = None\<rparr> PLATHO_COMPACT_IDENTITY_BYTES
        = Inr \<lparr>ob_payload = dp, ob_identity = Some ident, ob_openedAs = AsRecipient, ob_keyId = kp_keyId kp\<rparr>)"

lemma intro_opens_directly:
  assumes P: "signature_laws P" and made: "intro_made P hmac lower le kp identity m hs c draft bodyBytes ident"
    and id: "mi_signingPublicKey identity = p_ed_public P (mi_signingSecretKey identity)"
    and t: "assertCapsuleTimestampPolicy introCanonicalHeader1 (later\<lparr>to_enforceExpiry := Some (or_default (to_enforceExpiry later) False)\<rparr>) = Inr ()"
    and g: "guard_nonce guardOps introGuard (io_introNonce hs) = (Inr (), introGuard')"
  shows "openEncryptedIntroCapsule P hmac lower le ops None guardOps introGuard c kp later None
    = (Inr (contact_of hs (mi_signingPublicKey identity) (id_profileVersion ident) (id_avatarHash ident), c), None, introGuard')"
proof -
  obtain header0 pointer plain b random extra identityBytes o' dp info intro where
      s: "sealed_with P le identity header0 introCanonicalHeader1 pointer plain b random extra c draft identityBytes bodyBytes o'"
      and h: "cp_kind c = KIND_INTRO" "h0_kind header0 = KIND_INTRO" "h0_ephemeralR header0 = Some (U256Text (base64urlEncode m))" "length m = 32"
      "h0_senderKeyId header0 = None"
      and i: "ident = \<lparr>id_signingPublicKey = mi_signingPublicKey identity, id_profileVersion = fst pointer, id_avatarHash = hex256 (snd pointer)\<rparr>"
      and b: "handshake_payload dp = Inr intro" "inspectCompactBodyBytes bodyBytes = Inr info"
      "openIntroHandshake P hmac intro kp (mi_signingPublicKey identity) m (bi_mlKem768Ciphertext info) (or_default (h0_viewTag header0) 0) = Inr hs"
      "decryptCompactBodyBytes P lower bodyBytes kp \<lparr>bh_header0Hash = ch_header0Hash (cp_hashes c), bh_header1Hash = ch_header1Hash (cp_hashes c),
          bh_senderKeyId = None\<rparr> PLATHO_COMPACT_IDENTITY_BYTES
        = Inr \<lparr>ob_payload = dp, ob_identity = Some ident, ob_openedAs = AsRecipient, ob_keyId = kp_keyId kp\<rparr>"
    using made unfolding intro_made_def by blast
  have v: "verifyEncryptedPrivateCapsule P le c (later\<lparr>to_enforceExpiry := Some (or_default (to_enforceExpiry later) False)\<rparr>)
      = Inr \<lparr>vc_capsule = c, vc_publish = draft, vc_bodyBytes = bodyBytes\<rparr>"
    by (rule sealed_verifies [OF s _ _ _ t]) (simp_all add: h(1,2) capsule_kinds_def introCanonicalHeader1_def)
  have c: "cp_header0 c = header0" "compactBodyObjectFromBytes bodyBytes = Inr (cp_body c)" using s unfolding sealed_with_def by blast+
  have d: "decrypt_verified P lower \<lparr>vc_capsule = c, vc_publish = draft, vc_bodyBytes = bodyBytes\<rparr> kp None
      = Inr (\<lparr>ob_payload = dp, ob_identity = Some ident, ob_openedAs = AsRecipient, ob_keyId = kp_keyId kp\<rparr>, ident)"
    by (simp add: decrypt_verified_def c(1) h(5) b(4))
  have sig: "verifyPrivateCapsuleSenderSignature P le c ident = Inr (mi_signingPublicKey identity)"
    by (rule sealed_signature [OF P id s i])
  have e0: "ephemeral_bytes header0 = Inr m" by (simp add: ephemeral_bytes_def h(3))
  show ?thesis
    by (simp add: openEncryptedIntroCapsule_def openEncryptedPrivateCapsule_def v seen_before_def remember_def d sig opened_result_def c(1) h(2)
        b(1-3) body_object_back [OF c(2)] e0 g)
qed

lemma intro_opens_from_chain:
  assumes made: "intro_made P hmac lower le kp identity m hs c draft bodyBytes ident" and l: "length (mi_signingPublicKey identity) = 32"
    and g: "guard_nonce guardOps introGuard (io_introNonce hs) = (Inr (), introGuard')"
  shows "\<exists>header0Bytes. snakeBytesFromBoc (BocText (cc_boc (pd_header_0_cell draft))) = Inr header0Bytes
    \<and> snakeBytesFromBoc (BocText (cc_boc (pd_body_cell draft))) = Inr bodyBytes
    \<and> openIntroCapsuleFromChainCells P hmac lower guardOps introGuard header0Bytes bodyBytes kp
      = (Inr (contact_of hs (mi_signingPublicKey identity) (id_profileVersion ident) (id_avatarHash ident)), introGuard')"
proof -
  obtain header0 pointer plain b random extra identityBytes o' dp info intro where
      s: "sealed_with P le identity header0 introCanonicalHeader1 pointer plain b random extra c draft identityBytes bodyBytes o'"
      and h: "h0_kind header0 = KIND_INTRO" "h0_ephemeralR header0 = Some (U256Text (base64urlEncode m))" "length m = 32"
      and i: "ident = \<lparr>id_signingPublicKey = mi_signingPublicKey identity, id_profileVersion = fst pointer, id_avatarHash = hex256 (snd pointer)\<rparr>"
      and b: "handshake_payload dp = Inr intro" "inspectCompactBodyBytes bodyBytes = Inr info"
      "openIntroHandshake P hmac intro kp (mi_signingPublicKey identity) m (bi_mlKem768Ciphertext info) (or_default (h0_viewTag header0) 0) = Inr hs"
      "decryptCompactBodyBytes P lower bodyBytes kp \<lparr>bh_header0Hash = ch_header0Hash (cp_hashes c), bh_header1Hash = ch_header1Hash (cp_hashes c),
          bh_senderKeyId = None\<rparr> PLATHO_COMPACT_IDENTITY_BYTES
        = Inr \<lparr>ob_payload = dp, ob_identity = Some ident, ob_openedAs = AsRecipient, ob_keyId = kp_keyId kp\<rparr>"
    using made unfolding intro_made_def by blast
  obtain header0Bytes h' cells body where o: "snakeBytesFromBoc (BocText (cc_boc (pd_header_0_cell draft))) = Inr header0Bytes"
      "snakeBytesFromBoc (BocText (cc_boc (pd_body_cell draft))) = Inr bodyBytes"
      "introCapsuleHeader0ObjectFromBytes header0Bytes = Inr h'" "assertPrivateBodyMatchesHeader h' bodyBytes = Inr ()"
      "ephemeral_bytes h' = Inr m" "h0_viewTag h' = Some (or_default (h0_viewTag header0) 0)" "compactBodyObjectFromBytes bodyBytes = Inr body"
      "computePrivateCapsuleChainCells P h' introCanonicalHeader1 body = Inr cells" "privateCapsuleHashesFromChainCells cells = Inr (cp_hashes c)"
    using intro_on_chain [OF s h] by blast
  have p: "id_signingPublicKey ident = mi_signingPublicKey identity" by (simp add: i)
  have "openIntroCapsuleFromChainCells P hmac lower guardOps introGuard header0Bytes bodyBytes kp
      = (Inr (contact_of hs (mi_signingPublicKey identity) (id_profileVersion ident) (id_avatarHash ident)), introGuard')"
    by (simp add: openIntroCapsuleFromChainCells_def o(3-9) b or_default_Some assertLength_def l g p)
  with o(1,2) show ?thesis by blast
qed

text \<open>What creation hands out, and that it can be opened.\<close>

lemma intro_made_by_creation:
  assumes P: "crypto_laws P" and kp: "key_pair_ok P kp" "kp_suite kp = HYBRID_V1" "kp_x25519SecretKey kp = Some sk" "length sk = 32"
      "exportPublicKeyBundle kp = Inr b"
    and id: "key_pair_ok P (mi_encryptionKeyPair identity)" "kp_suite (mi_encryptionKeyPair identity) = HYBRID_V1"
      "mi_signingPublicKey identity = p_ed_public P (mi_signingSecretKey identity)"
    and rn: "honest_random (nr_capsule random)" "length (cr_streamId (nr_capsule random)) = 16" "lowers_ascii lower"
      "or_default (co_partIndex (ca_compact options)) 0 < or_default (co_partCount (ca_compact options)) 1"
    and c: "createEncryptedIntroCapsule P hmac lower le b identity options intro random = Inr ((c, draft), kRoot, nonce)"
  shows "\<exists>raw bodyBytes ident. normalizeKeyId (KeyText (kp_keyId (mi_encryptionKeyPair identity))) = Inr raw
    \<and> intro_made P hmac lower le kp identity (p_x25519_public P (cr_ephemeral (nr_capsule random)))
        \<lparr>io_kRoot = kRoot, io_senderKeyId = raw, io_senderEncPublicKey = kp_x25519PublicKey (mi_encryptionKeyPair identity),
         io_introNonce = nonce, io_firstMessageBytes = or_default (no_firstMessageBytes intro) [], io_introEpoch = no_introEpoch intro\<rparr>
        c draft bodyBytes ident"
proof -
  have hl: "hash_laws P" using P by (simp add: crypto_laws_def)
  define r where "r = \<lparr>rk_bundle = b, rk_x25519PublicKey = kp_x25519PublicKey kp, rk_scanPublicKey = kp_scanPublicKey kp,
     rk_mlKem768PublicKey = kp_mlKem768PublicKey kp\<rparr>"
  have r: "normalizeRecipientBundle P b = Inr r" using normalize_exported [OF kp(1) hl kp(5)] kp(2) by (simp add: r_def)
  have kid: "kb_keyId b = kp_keyId kp" using kp(5) unfolding export_Inr [OF kp(1) hl] by auto
  define e where "e = p_mlkem_encapsulate P (or_default (rk_mlKem768PublicKey r) []) (nr_bodyKem random)"
  let ?m = "p_x25519_public P (cr_ephemeral (nr_capsule random))"
  obtain viewTag built plain n pointer header0 recover identityBytes bodyBytes o' where x:
      "recover = (ca_senderRecovery options \<noteq> Some False)"
      "buildIntroHandshake P hmac (nr_rootKem random) (nr_introNonce random) identity
         \<lparr>ir_keyId = KeyText (kb_keyId (rk_bundle r)), ir_x25519PublicKey = rk_x25519PublicKey r, ir_mlKem768PublicKey = or_default (rk_mlKem768PublicKey r) []\<rparr>
         (cr_ephemeral (nr_capsule random)) (int viewTag) (fst e) (no_introNonce intro) (no_firstMessageBytes intro) (no_introEpoch intro) = Inr built"
      "kRoot = ib_kRoot built" "nonce = ib_introNonce built"
      "capsule_payload lower (cr_streamId (nr_capsule random))
         (options\<lparr>ca_payloadBytes := None, ca_payload := DocumentInput (ib_introPayloadBytes built)\<rparr>) recover (kb_contractSuite (rk_bundle r)) = Inr (plain, n)"
      "header0 = (blank_header0 KIND_INTRO PUBLISH_INTRO n (kb_contractSuite (rk_bundle r)) HYBRID_V1)
              \<lparr>h0_ephemeralR := Some (U256Text (base64urlEncode ?m)), h0_viewTag := Some (int viewTag)\<rparr>"
      "sealed_with P le identity header0 introCanonicalHeader1 pointer plain b (cr_body (nr_capsule random))
        (intro_extra P options (cr_ephemeral (nr_capsule random)) recover e) c draft identityBytes bodyBytes o'" "cp_kind c = KIND_INTRO"
    using intro_created [OF c r] unfolding e_def by blast
  define ident where "ident = \<lparr>id_signingPublicKey = mi_signingPublicKey identity, id_profileVersion = fst pointer, id_avatarHash = hex256 (snd pointer)\<rparr>"
  have h0: "h0_kind header0 = KIND_INTRO" "h0_ephemeralR header0 = Some (U256Text (base64urlEncode ?m))" "h0_senderKeyId header0 = None"
      "or_default (h0_viewTag header0) 0 = int viewTag" "length ?m = 32"
    using P by (simp_all add: x(6) blank_header0_def or_default_Some crypto_laws_def agreement_laws_def)
  have "kp_mlKem768PublicKey kp \<noteq> None" using kp(1,2) by (auto simp: key_pair_ok_def)
  then have peer: "\<lparr>ir_keyId = KeyText (kb_keyId (rk_bundle r)), ir_x25519PublicKey = rk_x25519PublicKey r,
      ir_mlKem768PublicKey = or_default (rk_mlKem768PublicKey r) []\<rparr> = peer_of kp"
    by (auto simp: r_def kid peer_of_def or_default_def)
  have eph: "ib_ephemeralR built = ?m" using build_Inr [OF x(2)] by blast
  obtain raw where raw: "normalizeKeyId (KeyText (kp_keyId (mi_encryptionKeyPair identity))) = Inr raw"
      "openIntroHandshake P hmac (ib_introPayloadBytes built) kp (mi_signingPublicKey identity) ?m (Some (fst e)) (int viewTag)
      = Inr \<lparr>io_kRoot = kRoot, io_senderKeyId = raw, io_senderEncPublicKey = kp_x25519PublicKey (mi_encryptionKeyPair identity),
             io_introNonce = nonce, io_firstMessageBytes = or_default (no_firstMessageBytes intro) [], io_introEpoch = no_introEpoch intro\<rparr>"
    using handshake_agrees [OF P id kp(1-4) x(2) [unfolded peer]] x(3,4) eph by auto
  obtain dp info where b: "handshake_payload dp = Inr (ib_introPayloadBytes built)" "inspectCompactBodyBytes bodyBytes = Inr info"
      "bi_mlKem768Ciphertext info = Some (fst e)"
      "decryptCompactBodyBytes P lower bodyBytes kp \<lparr>bh_header0Hash = ch_header0Hash (cp_hashes c), bh_header1Hash = ch_header1Hash (cp_hashes c),
        bh_senderKeyId = None\<rparr> PLATHO_COMPACT_IDENTITY_BYTES
      = Inr \<lparr>ob_payload = dp, ob_identity = Some ident, ob_openedAs = AsRecipient, ob_keyId = kp_keyId kp\<rparr>"
    using intro_body [OF P kp r rn x(5) e_def x(7) h0(3) ident_def] by blast
  have hs: "openIntroHandshake P hmac (ib_introPayloadBytes built) kp (mi_signingPublicKey identity) ?m (bi_mlKem768Ciphertext info)
      (or_default (h0_viewTag header0) 0) = Inr \<lparr>io_kRoot = kRoot, io_senderKeyId = raw, io_senderEncPublicKey = kp_x25519PublicKey (mi_encryptionKeyPair identity),
             io_introNonce = nonce, io_firstMessageBytes = or_default (no_firstMessageBytes intro) [], io_introEpoch = no_introEpoch intro\<rparr>"
    using raw(2) b(3) h0(4) by simp
  show ?thesis unfolding intro_made_def
    by (intro exI conjI) (rule raw(1) x(7,8) h0(1-3,5) ident_def b(1,2,4) hs)+
qed


section \<open>A first contact can be made\<close>

lemma handshake_builds:
  assumes P: "crypto_laws P" and hm: "\<And>k m. length (hmac k m) = 32"
    and id: "key_pair_ok P (mi_encryptionKeyPair identity)" "kp_suite (mi_encryptionKeyPair identity) = HYBRID_V1"
      "kp_x25519SecretKey (mi_encryptionKeyPair identity) = Some xs" "length xs = 32" "length (mi_signingSecretKey identity) = 32"
    and kp: "key_pair_ok P kp" "kp_suite kp = HYBRID_V1" "kp_keyId (mi_encryptionKeyPair identity) \<noteq> kp_keyId kp"
    and sh: "sharedSecretX25519 P xs (kp_x25519PublicKey kp) = Inr shared"
    and rn: "length ephemeral = 32" "length randomNonce = 16" "0 \<le> viewTag" "viewTag < 2 ^ 16" "length bodyKem = 1088"
    and opt: "\<And>n. introNonce = Some n \<Longrightarrow> length n = 16" "length (or_default firstMessage []) < 2 ^ 16"
      "\<And>n. introEpoch = Some n \<Longrightarrow> 0 \<le> n \<and> n < 2 ^ 32"
  shows "\<exists>built. buildIntroHandshake P hmac randomKem randomNonce identity (peer_of kp) ephemeral viewTag bodyKem introNonce firstMessage introEpoch = Inr built
    \<and> length (ib_introPayloadBytes built) = 1302 + length (epoch_bytes introEpoch) + length (or_default firstMessage [])"
proof -
  let ?a = "mi_encryptionKeyPair identity"
  have l: "hash_laws P" "agreement_laws P" "kem_laws P" "signature_laws P" using P by (simp_all add: crypto_laws_def)
  obtain pq pq' where pq: "kp_mlKem768PublicKey ?a = Some pq" "length pq = 1184" "kp_mlKem768PublicKey kp = Some pq'" "length pq' = 1184"
    using id(1,2) kp(1,2) by (auto simp: key_pair_ok_def)
  obtain ma mb where m: "kp_keyId ?a = base64urlEncode (p_sha256 P ma)" "kp_keyId kp = base64urlEncode (p_sha256 P mb)"
    using hybrid_key_id [OF id(1,2)] hybrid_key_id [OF kp(1,2)] by blast
  have n: "normalizeKeyId (KeyText (kp_keyId ?a)) = Inr (p_sha256 P ma)" "normalizeKeyId (KeyText (kp_keyId kp)) = Inr (p_sha256 P mb)"
    using l(1) by (simp_all add: m normalizeKeyId_def assertLength_def hash_laws_def)
  have ne: "p_sha256 P ma \<noteq> p_sha256 P mb" using kp(3) m by auto
  have x: "x25519Shared P (Some xs) (kp_x25519PublicKey kp) = Inr shared" "length shared = 32"
    using sh by (auto simp: sharedSecretX25519_def x25519Shared_def toBytes_def assertNonZeroSharedSecret_def res_simps)
  have len: "length (p_sha256 P t) = 32" "length (p_sign P t k) = 64" "length (p_x25519_public P k) = 32" "length (p_hkdf P t k u 32) = 32"
      "length (fst (p_mlkem_encapsulate P pq' t)) = 1088" "length (snd (p_mlkem_encapsulate P pq' t)) = 32" for t k u
    using l pq(4) by (simp_all add: crypto_law_defs)
  have enc: "length (kp_x25519PublicKey ?a) = 32" using id(1,3) len(3) by (simp add: key_pair_ok_def)
  obtain kRoot ctRoot where k: "establishConvKRootInitiator P randomKem (Some xs) (kp_x25519PublicKey kp) pq' (KeyText (kp_keyId ?a)) (KeyText (kp_keyId kp))
      = Inr (kRoot, ctRoot)" "length kRoot = 32" "length ctRoot = 1088"
    using ne by (simp add: establishConvKRootInitiator_def conversationOrder_def n ne x deriveKRoot_def assertLength_def len pq Let_def)
  obtain nonce where nonce: "(case introNonce of Some n \<Rightarrow> assertLength n 16 | None \<Rightarrow> Inr randomNonce) = Inr nonce" "length nonce = 16"
    using rn(2) opt(1) by (cases introNonce) (auto simp: assertLength_def)
  have ep: "(case introEpoch of None \<Rightarrow> Inr [] | Some e \<Rightarrow> intro_u32be e) = Inr (epoch_bytes introEpoch)"
    using opt(3) by (simp add: epoch_case)
  have u16: "intro_u16be viewTag = Inr (be_bytes 2 (nat viewTag))" "length (or_default firstMessage []) < 2 ^ 16 \<Longrightarrow>
      intro_u16be (int (length (or_default firstMessage []))) = Inr (be_bytes 2 (length (or_default firstMessage [])))"
    using rn(3,4) by (simp_all add: intro_u16be_Inr del: be_bytes.simps)
  obtain t where t: "buildIntroTranscript P (KeyText (kp_keyId ?a)) (KeyText (kp_keyId kp)) (kp_x25519PublicKey ?a) (p_sha256 P pq)
      (p_x25519_public P ephemeral) (Some bodyKem) ctRoot viewTag nonce introEpoch = Inr t"
    by (simp add: buildIntroTranscript_def n assertLength_def enc len toBytes_def rn(5) k(3) u16 nonce(2) ep)
  obtain p where p: "serializeIntroPayload (KeyText (kp_keyId ?a)) (kp_x25519PublicKey ?a) (p_sha256 P pq) ctRoot nonce (p_sign P t (mi_signingSecretKey identity))
      (hmac (p_hkdf P kRoot (ascii ''PLATHO.INTRO.CONFIRM.SALT.V1'') (ascii ''PLATHO.INTRO.CONFIRM.V1'') 32) t) firstMessage introEpoch = Inr p"
    using opt(2) by (simp add: serializeIntroPayload_def Let_def INTRO_FIRST_MESSAGE_MAX_BYTES_def n assertLength_def enc len hm k(3) u16 nonce(2) ep)
  have "length p = 1302 + length (epoch_bytes introEpoch) + length (or_default firstMessage [])"
    using serialize_Inr [OF p] by (auto simp: INTRO_PAYLOAD_MAGIC_def INTRO_PAYLOAD_MAGIC_V3_def)
  then show ?thesis
    using p by (simp add: buildIntroHandshake_def peer_of_def pq toBytes_def assertLength_def rn(1) id(3,5) k nonce(1) t signIntroTranscript_def len
        deriveIntroConfirmTag_def hm Let_def)
qed

lemma intro_header0_exists:
  assumes "n \<in> {1, 2, 4, 8, 16, 32}" "length m = 32" "tag < 65536"
  shows "\<exists>bytes. capsuleHeader0Bytes ((blank_header0 KIND_INTRO PUBLISH_INTRO n 2 HYBRID_V1)
    \<lparr>h0_ephemeralR := Some (U256Text (base64urlEncode m)), h0_viewTag := Some (int tag)\<rparr>) = Inr bytes"
proof -
  let ?h = "(blank_header0 KIND_INTRO PUBLISH_INTRO n 2 HYBRID_V1)\<lparr>h0_ephemeralR := Some (U256Text (base64urlEncode m)), h0_viewTag := Some (int tag)\<rparr>"
  have "\<exists>start. header0_start ?h e = Inr start" for e
    using assms(1) by (auto simp: header0_start_Inr blank_header0_def PUBLISH_INTRO_def)
  then obtain start where st: "header0_start ?h ''INTRO capsule header0 suite byte mismatch'' = Inr start" by blast
  have "uint16Be (int tag) = Inr (be_bytes 2 tag)" using assms(3) by (simp add: uint16Be_Inr del: be_bytes.simps)
  then show ?thesis using header0_start_length [OF st] st assms(2) uint256Bytes_encoded [OF assms(2)]
    by (simp add: capsuleHeader0Bytes_def introCapsuleHeader0Bytes_def blank_header0_def header_sizes or_default_def
        KIND_PRIVATE_def KIND_CONV_def KIND_INTRO_def str_def)
qed

lemma intro_header1_exists: "\<exists>bytes. privateCapsuleHeader1Bytes introCanonicalHeader1 = Inr bytes"
  using second_written [of 0] second_written [of "30 * 24 * 60 * 60"]
  by (simp add: introCanonicalHeader1_def privateCapsuleHeader1Bytes_def or_default_def uint8Byte_def assertLength_def HEADER1_BYTES_def
      HEADER1_MAGIC_def MAX_CAPSULE_TTL_MS_def del: be_bytes.simps)

lemma intro_can_be_made:
  assumes P: "crypto_laws P" and hm: "\<And>k m. length (hmac k m) = 32"
    and kp: "key_pair_ok P kp" "kp_x25519SecretKey kp = Some sk" "length sk = 32" "exportPublicKeyBundle kp = Inr b" "kp_suite kp = HYBRID_V1"
    and id: "key_pair_ok P (mi_encryptionKeyPair identity)" "kp_suite (mi_encryptionKeyPair identity) = HYBRID_V1"
      "kp_x25519SecretKey (mi_encryptionKeyPair identity) = Some xs" "length xs = 32"
      "length (mi_signingPublicKey identity) = 32" "length (mi_signingSecretKey identity) = 32"
    and ne: "kp_keyId (mi_encryptionKeyPair identity) \<noteq> kp_keyId kp"
    and rn: "honest_random (nr_capsule random)" "length (cr_streamId (nr_capsule random)) = 16" "length (nr_introNonce random) = 16" "lowers_ascii lower"
      "or_default (co_partIndex (ca_compact options)) 0 < or_default (co_partCount (ca_compact options)) 1"
    and sh: "sharedSecretX25519 P (cr_ephemeral (nr_capsule random)) (kp_x25519PublicKey kp) = Inr shared"
      "kp_scanPublicKey kp = Some scan" "sharedSecretX25519 P (cr_ephemeral (nr_capsule random)) scan = Inr s"
      "sharedSecretX25519 P xs (kp_x25519PublicKey kp) = Inr shared'"
    and opt: "\<And>n. no_introNonce intro = Some n \<Longrightarrow> length n = 16" "length (or_default (no_firstMessageBytes intro) []) < 2 ^ 16"
      "\<And>n. no_introEpoch intro = Some n \<Longrightarrow> 0 \<le> n \<and> n < 2 ^ 32" "\<And>m. ca_messageId options = Some m \<Longrightarrow> length m = 16"
    and p: "recover = (ca_senderRecovery options \<noteq> Some False)"
      "\<And>bytes. length bytes = 1302 + length (epoch_bytes (no_introEpoch intro)) + length (or_default (no_firstMessageBytes intro) []) \<Longrightarrow>
        \<exists>plain n. capsule_payload lower (cr_streamId (nr_capsule random))
          (options\<lparr>ca_payloadBytes := None, ca_payload := DocumentInput bytes\<rparr>) recover 2 = Inr (plain, n)"
    and t: "aligned_times (ca_times options) (to_now (ca_policy options)) = Inr aligned"
      "assertCapsuleTimestampPolicy introCanonicalHeader1 ((ca_policy options)\<lparr>to_enforceExpiry := Some False\<rparr>) = Inr ()"
    and v: "privateProfilePointer (ca_profileVersion options) (ca_avatarHash options) = Inr pointer" "0 \<le> fst pointer" "fst pointer < 2 ^ 32"
  shows "(\<exists>c draft kRoot nonce. createEncryptedIntroCapsule P hmac lower le b identity options intro random = Inr ((c, draft), kRoot, nonce))
    \<or> (\<exists>m. be_value (p_sha256 P m) = 0)"
proof -
  have hl: "hash_laws P" "kem_laws P" using P by (simp_all add: crypto_laws_def)
  define r where "r = \<lparr>rk_bundle = b, rk_x25519PublicKey = kp_x25519PublicKey kp, rk_scanPublicKey = kp_scanPublicKey kp,
     rk_mlKem768PublicKey = (if kp_suite kp = HYBRID_V1 then kp_mlKem768PublicKey kp else None)\<rparr>"
  obtain pq where pq: "kp_mlKem768PublicKey kp = Some pq" "length pq = 1184" using kp(1,5) by (auto simp: key_pair_ok_def)
  have r: "normalizeRecipientBundle P b = Inr r" using normalize_exported [OF kp(1) hl(1) kp(4)] by (simp add: r_def)
  have rf: "rk_bundle r = b" "rk_x25519PublicKey r = kp_x25519PublicKey kp" "rk_scanPublicKey r = Some scan" "rk_mlKem768PublicKey r = Some pq"
    using kp(5) sh(2) pq(1) by (simp_all add: r_def)
  have bs: "kb_suite b = HYBRID_V1" "kb_contractSuite b = 2" "kb_keyId b = kp_keyId kp"
    using kp(1,4,5) unfolding export_Inr [OF kp(1) hl(1)] by (auto simp: key_pair_ok_def suiteContract_def CONTRACT_HYBRID_def)
  let ?eph = "cr_ephemeral (nr_capsule random)" let ?m = "p_x25519_public P ?eph" let ?e = "p_mlkem_encapsulate P pq (nr_bodyKem random)"
  have eph: "length ?eph = 32" "length ?m = 32" using rn(1) P by (simp_all add: honest_random_def crypto_laws_def agreement_laws_def)
  have ec: "length (fst ?e) = 1088" using hl(2) pq(2) by (simp add: crypto_law_defs)
  have "length s = 32" using sh(3) by (auto simp: sharedSecretX25519_def assertNonZeroSharedSecret_def res_simps)
  then obtain tag where tag: "deriveStealthViewTag P s ?m = Inr tag" using eph(2) by (simp add: deriveStealthViewTag_def assertLength_def)
  have tl: "tag < 65536" by (rule view_tag_range [OF hl(1) tag])
  have "\<exists>built. buildIntroHandshake P hmac (nr_rootKem random) (nr_introNonce random) identity (peer_of kp) ?eph (int tag) (fst ?e)
      (no_introNonce intro) (no_firstMessageBytes intro) (no_introEpoch intro) = Inr built
    \<and> length (ib_introPayloadBytes built) = 1302 + length (epoch_bytes (no_introEpoch intro)) + length (or_default (no_firstMessageBytes intro) [])"
    by (rule handshake_builds [OF P hm id(1-4,6) kp(1,5) ne sh(4) eph(1) rn(3) _ _ ec opt(1-3)]) (use tl in simp_all)
  then obtain built where built: "buildIntroHandshake P hmac (nr_rootKem random) (nr_introNonce random) identity (peer_of kp) ?eph (int tag) (fst ?e)
      (no_introNonce intro) (no_firstMessageBytes intro) (no_introEpoch intro) = Inr built"
      "length (ib_introPayloadBytes built) = 1302 + length (epoch_bytes (no_introEpoch intro)) + length (or_default (no_firstMessageBytes intro) [])"
    by blast
  obtain plain n where pl: "capsule_payload lower (cr_streamId (nr_capsule random))
          (options\<lparr>ca_payloadBytes := None, ca_payload := DocumentInput (ib_introPayloadBytes built)\<rparr>) recover 2 = Inr (plain, n)"
    using p(2) [OF built(2)] by blast
  obtain dp where dp: "decodeCompactPayloadBytesInner lower plain (Some (int (compactPayloadReservedTailBytes recover))) = Inr dp"
    using document_payload [OF pl rn(2,4,5)] by blast
  obtain pf where pf: "compactPayloadContent plain (Some (int (compactPayloadReservedTailBytes recover))) = Inr pf" "pf_sizeClass pf = n"
    using capsule_payload_class [OF pl] by blast
  have n: "n \<in> {1, 2, 4, 8, 16, 32}" using payload_length(2) [OF pf(1)] pf(2) by simp
  have "length (snd pointer) = 32" using v(1) by (auto simp: privateProfilePointer_def Let_def res_simps uint256Bytes_length)
  then obtain ib where ib: "privateCapsuleIdentityBytes (mi_signingPublicKey identity) (Some (fst pointer)) (snd pointer) = Inr ib"
    using id(5) v(2,3) by (simp add: privateCapsuleIdentityBytes_def assertLength_def or_default_def uint32Bytes_def
        PLATHO_COMPACT_IDENTITY_BYTES_def Let_def del: be_bytes.simps)
  define header0 where "header0 = (blank_header0 KIND_INTRO PUBLISH_INTRO n 2 HYBRID_V1)
      \<lparr>h0_ephemeralR := Some (U256Text (base64urlEncode ?m)), h0_viewTag := Some (int tag)\<rparr>"
  obtain bytes0 where h0: "capsuleHeader0Bytes header0 = Inr bytes0" using intro_header0_exists [OF n eph(2) tl] by (auto simp: header0_def)
  obtain bytes1 where h1: "privateCapsuleHeader1Bytes introCanonicalHeader1 = Inr bytes1" using intro_header1_exists by blast
  have hf: "h0_sizeClass header0 = int (pf_sizeClass pf)" by (simp add: header0_def blank_header0_def pf(2))
  have sp: "\<exists>pl. privateCapsuleSignaturePayload c v a = Inr pl" if "cp_header0 c = header0" for c v a
    by (rule signature_payload_exists(1) [where bucket = None and r = "Some (JStr (base64urlEncode ?m))"])
      (simp_all add: that header0_def blank_header0_def json_of_u256_def)
  have sealed: "sealed_or_zero P (seal_capsule P le identity KIND_INTRO header0 introCanonicalHeader1 pointer plain b (cr_body (nr_capsule random))
      (seal_extra P options ?eph recover (Some ?e)))"
    by (rule seal_outcome [OF P kp r rn(1) id(1-4) ib h0 h1 hf sp dp pf(1) _ _ sh(1) [folded rf(2)]])
      (use opt(4) in \<open>auto simp: rf(4) or_default_Some\<close>)
  have peer: "\<lparr>ir_keyId = KeyText (kp_keyId kp), ir_x25519PublicKey = kp_x25519PublicKey kp, ir_mlKem768PublicKey = pq\<rparr> = peer_of kp"
    by (simp add: peer_of_def pq(1))
  have "createEncryptedIntroCapsule P hmac lower le b identity options intro random
      = andThen (seal_capsule P le identity KIND_INTRO header0 introCanonicalHeader1 pointer plain b (cr_body (nr_capsule random))
          (seal_extra P options ?eph recover (Some ?e))) (\<lambda>sealed. Inr (sealed, ib_kRoot built, ib_introNonce built))"
    unfolding createEncryptedIntroCapsule_def r
    by (simp add: rf bs assertSupportedPrivateSuite_def deriveStealthViewTagForRecipient_def sh(3) tag assertLength_def ec or_default_Some peer built(1) pl
        p(1) [symmetric] t v(1) header0_def [symmetric] seal_extra_def [abs_def] create_extra_def [abs_def] Let_def)
  with sealed show ?thesis by (auto simp: sealed_or_zero_def)
qed

section \<open>A first contact arrives\<close>

text \<open>
  C2: A first contact arrives. What \<open>createEncryptedIntroCapsule\<close> makes for the bundle a recipient exported
  is opened by that recipient, from the capsule object and, with the same outcome, from nothing but the
  header and body cells the chain holds; both sides then have the same root key, and the recipient learns the
  sender's key identifier, both public keys, the nonce, the day and the first message exactly as sent.
\<close>

theorem intro_arrives:
  assumes P: "crypto_laws P" and kp: "key_pair_ok P kp" "kp_suite kp = HYBRID_V1" "kp_x25519SecretKey kp = Some sk" "length sk = 32"
      "exportPublicKeyBundle kp = Inr b"
    and id: "key_pair_ok P (mi_encryptionKeyPair identity)" "kp_suite (mi_encryptionKeyPair identity) = HYBRID_V1"
      "mi_signingPublicKey identity = p_ed_public P (mi_signingSecretKey identity)"
    and rn: "honest_random (nr_capsule random)" "length (cr_streamId (nr_capsule random)) = 16" "lowers_ascii lower"
      "or_default (co_partIndex (ca_compact options)) 0 < or_default (co_partCount (ca_compact options)) 1"
    and c: "createEncryptedIntroCapsule P hmac lower le b identity options intro random = Inr ((c, draft), kRoot, nonce)"
    and t: "assertCapsuleTimestampPolicy introCanonicalHeader1 (later\<lparr>to_enforceExpiry := Some (or_default (to_enforceExpiry later) False)\<rparr>) = Inr ()"
    and g: "guard_nonce guardOps introGuard nonce = (Inr (), introGuard')"
  shows "\<exists>contact header0Bytes bodyBytes.
    openEncryptedIntroCapsule P hmac lower le ops None guardOps introGuard c kp later None = (Inr (contact, c), None, introGuard')
    \<and> snakeBytesFromBoc (BocText (cc_boc (pd_header_0_cell draft))) = Inr header0Bytes
    \<and> snakeBytesFromBoc (BocText (cc_boc (pd_body_cell draft))) = Inr bodyBytes
    \<and> openIntroCapsuleFromChainCells P hmac lower guardOps introGuard header0Bytes bodyBytes kp = (Inr contact, introGuard')
    \<and> ic_kRoot contact = kRoot \<and> ic_introNonce contact = nonce \<and> ic_introEpoch contact = no_introEpoch intro
    \<and> normalizeKeyId (KeyText (kp_keyId (mi_encryptionKeyPair identity))) = Inr (ic_senderKeyId contact)
    \<and> ic_senderEncPublicKey contact = kp_x25519PublicKey (mi_encryptionKeyPair identity)
    \<and> ic_senderSigningPublicKey contact = mi_signingPublicKey identity
    \<and> ic_firstMessageBytes contact = or_default (no_firstMessageBytes intro) []"
proof -
  have l: "signature_laws P" using P by (simp add: crypto_laws_def)
  obtain raw bodyBytes ident where raw: "normalizeKeyId (KeyText (kp_keyId (mi_encryptionKeyPair identity))) = Inr raw"
      and made: "intro_made P hmac lower le kp identity (p_x25519_public P (cr_ephemeral (nr_capsule random)))
        \<lparr>io_kRoot = kRoot, io_senderKeyId = raw, io_senderEncPublicKey = kp_x25519PublicKey (mi_encryptionKeyPair identity),
         io_introNonce = nonce, io_firstMessageBytes = or_default (no_firstMessageBytes intro) [], io_introEpoch = no_introEpoch intro\<rparr>
        c draft bodyBytes ident"
    using intro_made_by_creation [OF P kp id rn c] by blast
  have pk: "length (mi_signingPublicKey identity) = 32" using l id(3) by (simp add: signature_laws_def)
  have g': "guard_nonce guardOps introGuard (io_introNonce \<lparr>io_kRoot = kRoot, io_senderKeyId = raw,
      io_senderEncPublicKey = kp_x25519PublicKey (mi_encryptionKeyPair identity), io_introNonce = nonce,
      io_firstMessageBytes = or_default (no_firstMessageBytes intro) [], io_introEpoch = no_introEpoch intro\<rparr>) = (Inr (), introGuard')"
    using g by simp
  show ?thesis
    using raw intro_opens_directly [OF l made id(3) t g', of ops] intro_opens_from_chain [OF made pk g'] by (auto simp: contact_of_def)
qed

definition toy_hmac :: "bytes \<Rightarrow> bytes \<Rightarrow> bytes" where "toy_hmac k m = pad_to 32 (k @ m)"

definition sample_intro_options :: capsule_options where
  "sample_intro_options = sample_capsule_options\<lparr>ca_payloadBytes := None\<rparr>"

definition sample_intro :: intro_options where
  "sample_intro = \<lparr>no_introNonce = None, no_firstMessageBytes = Some [1, 2, 3], no_introEpoch = Some 20800\<rparr>"

definition sample_intro_random :: intro_random where
  "sample_intro_random = \<lparr>nr_capsule = sample_capsule_random\<lparr>cr_streamId := replicate 16 7\<rparr>, nr_bodyKem = replicate 32 1, nr_rootKem = replicate 32 2,
     nr_introNonce = replicate 16 8\<rparr>"

lemma sample_document:
  assumes "length bytes = 1309"
  shows "\<exists>plain n. capsule_payload ascii_lower (replicate 16 7) (sample_intro_options\<lparr>ca_payloadBytes := None, ca_payload := DocumentInput bytes\<rparr>) True 2
    = Inr (plain, n)"
proof -
  define co where "co = (ca_compact sample_capsule_options)\<lparr>co_reservedTailBytes := Some 132\<rparr>"
  have co: "co_senderWallet co = None" "co_senderVaultKeyId co = None" "co_senderUsername co = None" "co_recipientWallet co = None"
      "co_streamId co = None" "co_partIndex co = None" "co_partCount co = None" "co_sizeClass co = None" "co_reservedTailBytes co = Some 132"
      "co_mediaFormat co = None"
    by (simp_all add: co_def sample_capsule_options_def)
  have d: "or_default None x = x" for x :: int by (simp add: or_default_def)
  have res: "int (compactPayloadReservedTailBytes True) = 132"
    by (simp add: compactPayloadReservedTailBytes_def PLATHO_COMPACT_IDENTITY_BYTES_def PLATHO_COMPACT_SENDER_RECOVERY_BYTES_def)
  have "ascii_lower (trim []) = []" by (simp add: trim_def ascii_lower_def)
  then obtain flags where m: "encodeCompactPayloadContentWithMetadata ascii_lower bytes co = Inr (flags, bytes)"
    by (simp add: encodeCompactPayloadContentWithMetadata_def compactSenderWalletMetadataBytes_def compactSenderUsernameMetadataBytes_def
        compactRecipientWalletMetadataBytes_def co or_default_def normalizeCompactPlathoUsername_def wallet_given_def)
  have room: "compactPayloadUsefulBytes 1309 co = Inr \<lparr>r_sizeClass = 2, r_usefulBytes = 2048, r_availableBytes = 1916, r_reservedTailBytes = 132\<rparr>"
    by (simp add: compactPayloadUsefulBytes_def normalizeCompactPayloadReservedTailBytes_def co or_default_Some sizeClassForPayloadByteLength_def
        MAX_SAFE_INTEGER_def PLATHO_CAPSULE_USEFUL_SIZE_CLASSES_def CAPSULE_SIZE_CLASS_def PLATHO_COMPACT_TEXT_BLOCK_BYTES_def
        usefulBytesForCapsuleSizeClass_def normalizeCapsuleSizeClass_def Let_def)
  obtain plain where e: "encodeFixedCompactPayload (replicate 16 7) CONTENT_DOCUMENT flags 0 bytes co = Inr plain"
    by (simp add: encodeFixedCompactPayload_def assms room co d uint8Byte_def uint16Be_def)
  obtain pf where pf: "compactPayloadContent plain (Some 132) = Inr pf" "pf_sizeClass pf = 2"
    using encodeFixed_Inr [OF e] room assms by (auto simp: co d or_default_Some)
  let ?o = "sample_intro_options\<lparr>ca_payloadBytes := None, ca_payload := DocumentInput bytes\<rparr>"
  have o: "ca_payloadBytes ?o = None" "ca_payload ?o = DocumentInput bytes" "(ca_compact ?o)\<lparr>co_reservedTailBytes := Some 132\<rparr> = co"
      "co_sizeClass (ca_compact ?o) = None"
    by (simp_all add: sample_intro_options_def co_def sample_capsule_options_def)
  have n: "normalizeCapsuleSizeClass 2 = Inr 2" by (simp add: normalizeCapsuleSizeClass_def CAPSULE_SIZE_CLASS_def)
  have p: "encodeCompactPayload ascii_lower (replicate 16 7) (DocumentInput bytes) co = Inr plain"
    by (simp add: encodeCompactPayload_def m co(10) d e)
  show ?thesis
    unfolding capsule_payload_def res Let_def o by (simp add: p pf d n allowed_pair)
qed

lemma sender_signing_key: "length (mi_signingSecretKey sender_identity) = 32"
proof -
  have l: "length (replicate 32 (6 :: byte)) = 32" "length (replicate 32 (4 :: byte)) = 32" "length (replicate 32 (5 :: byte)) = 32" by simp_all
  obtain mi kp where "createMessagingIdentity toy_prims None None None None (replicate 32 6) (replicate 32 4) (replicate 32 5) (replicate 1184 5) = Inr mi"
      "mi_signingSecretKey mi = replicate 32 4"
    using toy_identity [OF l] by blast
  then show ?thesis by (simp add: sender_identity_def)
qed

lemma sample_intro_parts:
  "honest_random (nr_capsule sample_intro_random)" "cr_streamId (nr_capsule sample_intro_random) = replicate 16 7"
  "cr_ephemeral (nr_capsule sample_intro_random) = cr_ephemeral sample_capsule_random" "length (nr_introNonce sample_intro_random) = 16"
  "or_default (co_partIndex (ca_compact sample_intro_options)) 0 < or_default (co_partCount (ca_compact sample_intro_options)) 1"
  "ca_policy sample_intro_options = plain_policy 1700000000000" "ca_times sample_intro_options = ca_times sample_capsule_options"
  "ca_profileVersion sample_intro_options = ca_profileVersion sample_capsule_options"
  "ca_avatarHash sample_intro_options = ca_avatarHash sample_capsule_options"
  "ca_messageId sample_intro_options = None" "ca_senderRecovery sample_intro_options = None"
  "no_introNonce sample_intro = None" "no_firstMessageBytes sample_intro = Some [1, 2, 3]" "no_introEpoch sample_intro = Some 20800"
  by (simp_all add: honest_random_def sample_intro_random_def sample_capsule_random_def sample_random_def sample_intro_options_def
      sample_capsule_options_def or_default_def sample_intro_def)

lemma sample_sender_shared: "sharedSecretX25519 toy_prims (replicate 32 6) (kp_x25519PublicKey sample_pair) = Inr (replicate 32 8)"
proof -
  have "map2 (+) (replicate 32 6) (replicate 32 (2 :: byte)) = replicate 32 8" by (simp add: zip_replicate)
  then show ?thesis by (simp add: sharedSecretX25519_def assertLength_def assertNonZeroSharedSecret_def sample_pair_ok toy_prims_def)
qed

lemma intro_header1_policy: "now = 1700000000000 \<or> now = 1700000001000 \<Longrightarrow>
    assertCapsuleTimestampPolicy introCanonicalHeader1 ((plain_policy now)\<lparr>to_enforceExpiry := Some False\<rparr>) = Inr ()"
  by (auto simp: policy_Inr introCanonicalHeader1_def plain_policy_def or_default_def safe_js_of_int MAX_SAFE_INTEGER_def DEFAULT_CLOCK_SKEW_MS_def
      MAX_CAPSULE_TTL_MS_def)

lemma sample_intro_made:
  "\<exists>b c draft kRoot nonce. exportPublicKeyBundle sample_pair = Inr b
    \<and> createEncryptedIntroCapsule toy_prims toy_hmac ascii_lower lex_le b sender_identity sample_intro_options sample_intro sample_intro_random
      = Inr ((c, draft), kRoot, nonce)"
proof -
  obtain b where b: "exportPublicKeyBundle sample_pair = Inr b" using sample_bundle by blast
  have l: "length (replicate 32 (2 :: byte)) = 32" "length (replicate 32 (6 :: byte)) = 32" by simp_all
  have "(\<exists>c draft kRoot nonce. createEncryptedIntroCapsule toy_prims toy_hmac ascii_lower lex_le b sender_identity sample_intro_options sample_intro
      sample_intro_random = Inr ((c, draft), kRoot, nonce)) \<or> (\<exists>m. be_value (p_sha256 toy_prims m) = 0)"
    by (rule intro_can_be_made [OF toy_laws _ sample_pair_ok(1,5) l(1) b sample_pair_ok(2) sender_identity_ok(1-3) l(2) sender_identity_ok(5)
          sender_signing_key sample_key_ids_differ sample_intro_parts(1) _ sample_intro_parts(4) lowers_ascii_ascii_lower sample_intro_parts(5) _
          sample_shared(2) _ sample_sender_shared, where recover = True and aligned = "(1700000000000, 1700000060000)" and pointer = "(6, replicate 32 8)"])
      (simp_all add: toy_hmac_def sample_intro_parts sample_shared sample_times sample_pointer intro_header1_policy or_default_Some epoch_bytes_def
        sample_document del: be_bytes.simps)
  with b toy_digest_not_zero show ?thesis by blast
qed

theorem intro_arrives_witness:
  "\<exists>b c draft kRoot nonce contact. exportPublicKeyBundle sample_pair = Inr b
    \<and> createEncryptedIntroCapsule toy_prims toy_hmac ascii_lower lex_le b sender_identity sample_intro_options sample_intro sample_intro_random
      = Inr ((c, draft), kRoot, nonce)
    \<and> openEncryptedIntroCapsule toy_prims toy_hmac ascii_lower lex_le no_store None no_store None c sample_pair (plain_policy 1700000001000) None
      = (Inr (contact, c), None, None)
    \<and> ic_kRoot contact = kRoot \<and> ic_firstMessageBytes contact = [1, 2, 3]"
proof -
  obtain b c draft kRoot nonce where b: "exportPublicKeyBundle sample_pair = Inr b"
      "createEncryptedIntroCapsule toy_prims toy_hmac ascii_lower lex_le b sender_identity sample_intro_options sample_intro sample_intro_random
      = Inr ((c, draft), kRoot, nonce)" using sample_intro_made by blast
  have l: "length (replicate 32 (2 :: byte)) = 32" "length (cr_streamId (nr_capsule sample_intro_random)) = 16" by (simp_all add: sample_intro_parts)
  have t: "assertCapsuleTimestampPolicy introCanonicalHeader1
      ((plain_policy 1700000001000)\<lparr>to_enforceExpiry := Some (or_default (to_enforceExpiry (plain_policy 1700000001000)) False)\<rparr>) = Inr ()"
    using intro_header1_policy by (simp add: plain_policy_def or_default_def)
  have g: "guard_nonce no_store None nonce = (Inr (), None)" by (simp add: guard_nonce_def seen_before_def remember_def Let_def)
  note e = intro_arrives [OF toy_laws sample_pair_ok(1,2,5) l(1) b(1) sender_identity_ok(1,2,4) sample_intro_parts(1) l(2) lowers_ascii_ascii_lower
      sample_intro_parts(5) b(2) t g, of no_store]
  have f: "or_default (no_firstMessageBytes sample_intro) [] = [1, 2, 3]" by (simp add: sample_intro_parts or_default_Some)
  show ?thesis using b e unfolding f by blast
qed

end
