(* ===== verification/Conv_Key_Store.thy ===== *)
theory Conv_Key_Store
  imports Conv_Routing Stable_Json "HOL-Library.AList"
begin

text \<open>
  The conversation key store (\<open>web/conv-key-store.mjs\<close>): which root key a conversation writes under, which
  older ones it still reads, and the numbers of its outgoing messages. A JavaScript \<open>Map\<close> and an object used as
  one are association lists in insertion order, \<open>set\<close> and assignment being \<open>AList.update\<close>. Times, days and
  message numbers are integers.
\<close>

section \<open>Keys and names\<close>

text \<open>Bytes given as they are, as hex digits or in base64url (\<open>toBytes\<close>).\<close>

definition store_toBytes :: "key_id_like \<Rightarrow> nat \<Rightarrow> bytes res" where
  "store_toBytes value len =
     andThen (case value of
          KeyBytes bs \<Rightarrow> Inr bs
        | KeyText s \<Rightarrow>
            (let hex = (if take 2 s = [48, 120] then drop 2 s else s) in
             if length hex = len * 2 \<and> (\<forall>c \<in> set hex. is_hex_any c) then Inr (hex_bytes (ascii_lower hex))
             else
               (case conv_base64urlDecode s of
                  Inl _ \<Rightarrow> Inl (TypeError ''must be hex or base64url'')
                | Inr bs \<Rightarrow> guard (\<not> length bs \<noteq> len) (TypeError ''must be hex or base64url'') (Inr bs)))) (\<lambda>bs.
       guard (\<not> length bs \<noteq> len) (RangeError ''must be bytes'') (Inr bs))"

definition conversationId :: "key_id_like \<Rightarrow> key_id_like \<Rightarrow> js_string res" where
  "conversationId selfKeyId peerKeyId =
     andThen (conversationOrder selfKeyId peerKeyId) (\<lambda>order. Inr (bytes_hex (vo_lo order) @ [58] @ bytes_hex (vo_hi order)))"

text \<open>\<open>String(n).padStart(5, '0')\<close>, and the twelve groups two people compare; SHA-512 is a parameter.\<close>

definition pad5 :: "nat \<Rightarrow> js_string" where
  "pad5 n = replicate (5 - length (dec_string n)) 48 @ dec_string n"

definition SAFETY_CODE_DOMAIN :: js_string where "SAFETY_CODE_DOMAIN = str ''PLATHO.SAFETY.CODE.V1''"

definition conversationSafetyCode :: "(bytes \<Rightarrow> bytes) \<Rightarrow> key_id_like \<Rightarrow> key_id_like \<Rightarrow> js_string list res" where
  "conversationSafetyCode sha512 selfKeyId peerKeyId =
     andThen (conversationId selfKeyId peerKeyId) (\<lambda>i.
       (let digest = sha512 (utf8_encode (SAFETY_CODE_DOMAIN @ [124] @ i)) in
        Inr (map (\<lambda>group. pad5 (be_value (slice (group * 5) (group * 5 + 5) digest) mod 100000)) [0..<12])))"

section \<open>Records\<close>

record conv_record =
  ck_kRootCurrent :: bytes
  ck_kRootsForRead :: "(bytes \<times> int option) list"
  ck_peerKeyId :: bytes
  ck_peerEncPublicKey :: "bytes option"
  ck_peerWallet :: "js_string option"
  ck_peerWalletVerified :: bool
  ck_peerWalletCandidates :: "js_string list"
  ck_adoptedCreatedAt :: int
  ck_adoptedIntroNonce :: bytes
  ck_outgoingSeq :: "(int \<times> int) list"
  ck_lastScannedEpoch :: "int option"
  ck_lastScannedGeneration :: "int option"
  ck_gapFloors :: "(js_string \<times> int) list"
  ck_retiredIntroNonces :: "bytes list"

record adoption =
  ad_kRoot :: key_id_like
  ad_introNonce :: key_id_like
  ad_createdAt :: "int option"
  ad_peerKeyId :: key_id_like
  ad_peerEncPublicKey :: "key_id_like option"
  ad_peerWallet :: "js_string option"
  ad_peerWalletCandidates :: "js_string list"

datatype adoption_outcome = Created | Resourced | Duplicate | Replayed | Adopted | Retained

definition CONV_GAP_FLOORS_MAX :: nat where "CONV_GAP_FLOORS_MAX = 256"
definition CONV_KEY_MAX_READ_ROOTS :: nat where "CONV_KEY_MAX_READ_ROOTS = 16"
definition OUTGOING_SEQ_KEEP_EPOCHS :: int where "OUTGOING_SEQ_KEEP_EPOCHS = 7"
definition PEER_WALLET_CANDIDATES_MAX :: nat where "PEER_WALLET_CANDIDATES_MAX = 64"

text \<open>The last \<open>n\<close> of a list (\<open>slice(length - n)\<close> past the limit), and a \<open>Set\<close> made of a list.\<close>

definition last_n :: "nat \<Rightarrow> 'a list \<Rightarrow> 'a list" where "last_n n xs = drop (length xs - n) xs"

definition js_set :: "'a list \<Rightarrow> 'a list" where "js_set xs = rev (remdups (rev xs))"

definition compareAdoption :: "int \<Rightarrow> bytes \<Rightarrow> conv_record \<Rightarrow> int res" where
  "compareAdoption createdAt introNonce r =
     (if createdAt \<noteq> ck_adoptedCreatedAt r then Inr (if createdAt > ck_adoptedCreatedAt r then 1 else -1)
      else andThen (store_toBytes (KeyBytes introNonce) 16) (\<lambda>a.
           andThen (store_toBytes (KeyBytes (ck_adoptedIntroNonce r)) 16) (\<lambda>b. Inr (compareBytes a b))))"

text \<open>\<open>some\<close>: the elements are read one after the other until one of them is the value.\<close>

fun some_bytes :: "nat \<Rightarrow> bytes \<Rightarrow> bytes list \<Rightarrow> bool res" where
  "some_bytes len value [] = Inr False"
| "some_bytes len value (x # xs) =
     andThen (store_toBytes (KeyBytes x) len) (\<lambda>b. if b = value then Inr True else some_bytes len value xs)"

definition appendRetiredNonce :: "bytes list \<Rightarrow> bytes \<Rightarrow> bytes list res" where
  "appendRetiredNonce list nonce =
     andThen (store_toBytes (KeyBytes nonce) 16) (\<lambda>bytes.
     andThen (some_bytes 16 bytes list) (\<lambda>present.
       Inr (if present then list else last_n CONV_KEY_MAX_READ_ROOTS (list @ [bytes]))))"

definition walletList :: "js_string option list list \<Rightarrow> js_string list" where
  "walletList ws = take PEER_WALLET_CANDIDATES_MAX (js_set (filter (\<lambda>w. w \<noteq> []) (map the (filter (\<lambda>w. w \<noteq> None) (concat ws)))))"

definition appendReadRoot :: "(bytes \<times> int option) list \<Rightarrow> bytes \<Rightarrow> int \<Rightarrow> (bytes \<times> int option) list res" where
  "appendReadRoot list kRoot adoptedAt =
     andThen (store_toBytes (KeyBytes kRoot) 32) (\<lambda>bytes.
     andThen (some_bytes 32 bytes (map fst list)) (\<lambda>present.
       Inr (if present then list else last_n CONV_KEY_MAX_READ_ROOTS (list @ [(bytes, Some adoptedAt)]))))"

section \<open>Adopting a root key\<close>

text \<open>\<open>peerWallet\<close>: the held one, else the candidate's.\<close>

definition or_else :: "'a option \<Rightarrow> 'a option \<Rightarrow> 'a option" where
  "or_else a b = (case a of None \<Rightarrow> b | Some x \<Rightarrow> Some x)"

definition with_candidates :: "conv_record \<Rightarrow> js_string option \<Rightarrow> js_string list \<Rightarrow> conv_record" where
  "with_candidates existing peerWallet peerWalletCandidates =
     (let held = map Some (ck_peerWalletCandidates existing);
          candidates = walletList [[ck_peerWallet existing], held, [peerWallet], map Some peerWalletCandidates] in
      if length candidates \<noteq> length (walletList [[ck_peerWallet existing], held])
      then existing\<lparr>ck_peerWallet := or_else (ck_peerWallet existing) peerWallet, ck_peerWalletCandidates := candidates\<rparr>
      else existing)"

definition root_known :: "conv_record \<Rightarrow> bytes \<Rightarrow> bool res" where
  "root_known existing kRoot =
     andThen (store_toBytes (KeyBytes (ck_kRootCurrent existing)) 32) (\<lambda>current.
       if kRoot = current then Inr True else some_bytes 32 kRoot (map fst (ck_kRootsForRead existing)))"

definition nonce_retired :: "conv_record \<Rightarrow> bytes \<Rightarrow> bool res" where
  "nonce_retired existing introNonce = some_bytes 16 introNonce (ck_retiredIntroNonces existing)"

definition adoptKRoot :: "conv_record option \<Rightarrow> adoption \<Rightarrow> (adoption_outcome \<times> conv_record) res" where
  "adoptKRoot held candidate =
     andThen (store_toBytes (ad_kRoot candidate) 32) (\<lambda>kRoot.
     andThen (store_toBytes (ad_introNonce candidate) 16) (\<lambda>introNonce.
       (let createdAt = or_default (ad_createdAt candidate) 0 in
     andThen (store_toBytes (ad_peerKeyId candidate) 32) (\<lambda>peerKeyId.
     andThen (case ad_peerEncPublicKey candidate of None \<Rightarrow> Inr None
         | Some v \<Rightarrow> andThen (store_toBytes v 32) (\<lambda>pk. Inr (Some pk))) (\<lambda>peerEncPublicKey.
       (let peerWallet = ad_peerWallet candidate; peerWalletCandidates = walletList [map Some (ad_peerWalletCandidates candidate)] in
     case held of
       None \<Rightarrow> Inr (Created, \<lparr>ck_kRootCurrent = kRoot, ck_kRootsForRead = [], ck_peerKeyId = peerKeyId, ck_peerEncPublicKey = peerEncPublicKey,
          ck_peerWallet = peerWallet, ck_peerWalletVerified = False, ck_peerWalletCandidates = peerWalletCandidates,
          ck_adoptedCreatedAt = createdAt, ck_adoptedIntroNonce = introNonce, ck_outgoingSeq = [], ck_lastScannedEpoch = None,
          ck_lastScannedGeneration = None, ck_gapFloors = [], ck_retiredIntroNonces = []\<rparr>)
     | Some existing \<Rightarrow>
     andThen (store_toBytes (KeyBytes (ck_adoptedIntroNonce existing)) 16) (\<lambda>heldNonce.
       if introNonce = heldNonce then
         (let heldAt = ck_adoptedCreatedAt existing; grown = with_candidates existing peerWallet peerWalletCandidates in
          if createdAt > 0 \<and> (heldAt \<le> 0 \<or> createdAt < heldAt) then Inr (Resourced, grown\<lparr>ck_adoptedCreatedAt := createdAt\<rparr>)
          else Inr (if createdAt = heldAt then Duplicate else Replayed, grown))
       else
     andThen (root_known existing kRoot) (\<lambda>known.
     andThen (nonce_retired existing introNonce) (\<lambda>retired.
       if known \<or> retired then Inr (Replayed, existing)
       else
     andThen (compareAdoption createdAt introNonce existing) (\<lambda>cmp.
       if cmp > 0 then
     andThen (appendReadRoot (ck_kRootsForRead existing) (ck_kRootCurrent existing) (ck_adoptedCreatedAt existing)) (\<lambda>read.
     andThen (appendRetiredNonce (ck_retiredIntroNonces existing) (ck_adoptedIntroNonce existing)) (\<lambda>retiredNonces.
         Inr (Adopted, existing\<lparr>ck_kRootCurrent := kRoot, ck_kRootsForRead := read, ck_retiredIntroNonces := retiredNonces,
           ck_peerKeyId := peerKeyId, ck_peerEncPublicKey := or_else peerEncPublicKey (ck_peerEncPublicKey existing),
           ck_peerWallet := or_else (ck_peerWallet existing) peerWallet,
           ck_peerWalletCandidates := walletList [[ck_peerWallet existing], map Some (ck_peerWalletCandidates existing), [peerWallet],
             map Some peerWalletCandidates],
           ck_adoptedCreatedAt := createdAt, ck_adoptedIntroNonce := introNonce\<rparr>)))
       else
     andThen (appendReadRoot (ck_kRootsForRead existing) kRoot createdAt) (\<lambda>read.
     andThen (appendRetiredNonce (ck_retiredIntroNonces existing) introNonce) (\<lambda>retiredNonces.
         Inr (Retained, existing\<lparr>ck_kRootsForRead := read, ck_retiredIntroNonces := retiredNonces\<rparr>)))))))))))))"

section \<open>The safety code\<close>

lemma conversationId_same: "conversationId a b = Inr i \<Longrightarrow> conversationId b a = Inr i"
  using order_swap [of a b] by (auto simp: conversationId_def res_simps)

lemma dec_string_short: "n < 10 ^ k \<Longrightarrow> 0 < k \<Longrightarrow> length (dec_string n) \<le> k"
proof (induction k arbitrary: n)
  case (Suc k)
  show ?case
  proof (cases "n < 10")
    case False
    then have k: "0 < k" using Suc.prems(1) by (cases k) auto
    have "n div 10 < 10 ^ k" using Suc.prems(1) by (simp add: less_mult_imp_div_less mult.commute)
    from Suc.IH [OF this k] show ?thesis using False by (simp add: dec_string.simps [of n])
  qed (simp add: dec_string.simps)
qed simp

text \<open>Both people read the same twelve groups, of five digits each.\<close>

lemma safety_code_same:
  assumes "conversationSafetyCode sha512 a b = Inr code"
  shows "conversationSafetyCode sha512 b a = Inr code \<and> length code = 12 \<and> (\<forall>g \<in> set code. length g = 5)"
proof -
  have "length (pad5 (m mod 100000)) = 5" for m
    using dec_string_short [of "m mod 100000" 5] by (simp add: pad5_def)
  then show ?thesis using assms conversationId_same [of a b] by (auto simp: conversationSafetyCode_def res_simps Let_def)
qed

section \<open>What adoption keeps\<close>

lemma toBytes_given [simp]: "store_toBytes (KeyBytes bs) n = (if length bs = n then Inr bs else Inl (RangeError ''must be bytes''))"
  by (simp add: store_toBytes_def guard_def)

lemma toBytes_length: "store_toBytes v n = Inr bs \<Longrightarrow> length bs = n"
  by (auto simp: store_toBytes_def res_simps)

lemma some_bytes_ok: "\<forall>x \<in> set xs. length x = n \<Longrightarrow> some_bytes n v xs = Inr (v \<in> set xs)"
  by (induction xs) auto

lemma set_last_n: "set (last_n n xs) \<subseteq> set xs"
  by (auto simp: last_n_def dest: in_set_dropD)

lemma length_last_n [simp]: "length (last_n n xs) = min n (length xs)"
  by (simp add: last_n_def)

lemma map_last_n: "map f (last_n n xs) = last_n n (map f xs)"
  by (simp add: last_n_def drop_map)

lemma distinct_last_n: "distinct xs \<Longrightarrow> distinct (last_n n xs)"
  by (simp add: last_n_def)

lemma last_in_last_n: "0 < n \<Longrightarrow> x \<in> set (last_n n (xs @ [x]))"
  by (auto simp: last_n_def)

definition conv_record_ok :: "conv_record \<Rightarrow> bool" where
  "conv_record_ok r \<longleftrightarrow> length (ck_kRootCurrent r) = 32 \<and> length (ck_adoptedIntroNonce r) = 16
     \<and> (\<forall>x \<in> set (ck_kRootsForRead r). length (fst x) = 32) \<and> distinct (map fst (ck_kRootsForRead r)) \<and> length (ck_kRootsForRead r) \<le> 16
     \<and> ck_kRootCurrent r \<notin> fst ` set (ck_kRootsForRead r)
     \<and> (\<forall>n \<in> set (ck_retiredIntroNonces r). length n = 16) \<and> distinct (ck_retiredIntroNonces r) \<and> length (ck_retiredIntroNonces r) \<le> 16"

lemma append_read_ok:
  assumes "\<forall>x \<in> set xs. length (fst x) = 32" "length k = 32"
  shows "appendReadRoot xs k t = Inr (if k \<in> fst ` set xs then xs else last_n 16 (xs @ [(k, Some t)]))"
  using assms some_bytes_ok [of "map fst xs" 32 k] by (simp add: appendReadRoot_def CONV_KEY_MAX_READ_ROOTS_def)

lemma append_nonce_ok:
  assumes "\<forall>x \<in> set xs. length x = 16" "length k = 16"
  shows "appendRetiredNonce xs k = Inr (if k \<in> set xs then xs else last_n 16 (xs @ [k]))"
  using assms some_bytes_ok [of xs 16 k] by (simp add: appendRetiredNonce_def CONV_KEY_MAX_READ_ROOTS_def)

section \<open>Every order of arrival gives the same root\<close>

lemma compareBytes_values: "compareBytes a b \<in> {-1, 0, 1}"
  by (induction a b rule: compareBytes.induct) auto

lemma compareBytes_trans: "compareBytes a b > 0 \<Longrightarrow> compareBytes b c > 0 \<Longrightarrow> compareBytes a c > 0"
proof (induction a c arbitrary: b rule: compareBytes.induct)
  case (1 x xs z zs)
  then show ?case by (cases b) (auto split: if_splits)
next
  case (2 z zs)
  then show ?case by (cases b) auto
next
  case (3 x xs)
  then show ?case by simp
next
  case 4
  then show ?case by (cases b) auto
qed

text \<open>The bytes a candidate gives, and the order of adoption: by time, then by nonce.\<close>

definition root_of :: "adoption \<Rightarrow> bytes" where
  "root_of c = (case store_toBytes (ad_kRoot c) 32 of Inr k \<Rightarrow> k | Inl _ \<Rightarrow> [])"

definition nonce_of :: "adoption \<Rightarrow> bytes" where
  "nonce_of c = (case store_toBytes (ad_introNonce c) 16 of Inr k \<Rightarrow> k | Inl _ \<Rightarrow> [])"

definition time_of :: "adoption \<Rightarrow> int" where "time_of c = or_default (ad_createdAt c) 0"

definition valid_adoption :: "adoption \<Rightarrow> bool" where
  "valid_adoption c \<longleftrightarrow> store_toBytes (ad_kRoot c) 32 = Inr (root_of c) \<and> store_toBytes (ad_introNonce c) 16 = Inr (nonce_of c)
     \<and> (\<exists>p. store_toBytes (ad_peerKeyId c) 32 = Inr p)
     \<and> (case ad_peerEncPublicKey c of None \<Rightarrow> True | Some v \<Rightarrow> \<exists>pk. store_toBytes v 32 = Inr pk)"

definition newer :: "int \<Rightarrow> bytes \<Rightarrow> int \<Rightarrow> bytes \<Rightarrow> bool" where
  "newer t n t' n' \<longleftrightarrow> t > t' \<or> t = t' \<and> compareBytes n n' > 0"

lemma newer_total: "n \<noteq> n' \<Longrightarrow> \<not> newer t n t' n' \<Longrightarrow> newer t' n' t n"
  using compareBytes_swap [of n n'] compareBytes_0 [of n n'] compareBytes_values [of n n'] unfolding newer_def by force

lemma newer_irrefl: "\<not> newer t n t n"
proof -
  have z: "compareBytes n n = 0" by (simp only: compareBytes_0)
  show ?thesis unfolding newer_def z by simp
qed

lemma newer_trans: "newer t n t' n' \<Longrightarrow> newer t' n' t'' n'' \<Longrightarrow> newer t n t'' n''"
  unfolding newer_def using compareBytes_trans by force

lemma compareAdoption_ok:
  assumes "conv_record_ok r" "length n = 16"
  shows "\<exists>v. compareAdoption t n r = Inr v \<and> (v > 0 \<longleftrightarrow> newer t n (ck_adoptedCreatedAt r) (ck_adoptedIntroNonce r))"
  using assms by (auto simp: compareAdoption_def newer_def conv_record_ok_def)

lemma valid_lengths: "valid_adoption c \<Longrightarrow> length (root_of c) = 32 \<and> length (nonce_of c) = 16"
  by (auto simp: valid_adoption_def dest: toBytes_length)

text \<open>
  Copies of one intro have one nonce and one root, and no two intros share either. Their times may differ, since
  anybody can put a copy on the chain again later. The case where they do not (\<open>consistent\<close>) comes first.
\<close>

definition named_apart :: "adoption set \<Rightarrow> bool" where
  "named_apart C \<longleftrightarrow> (\<forall>c \<in> C. \<forall>d \<in> C. nonce_of c = nonce_of d \<longleftrightarrow> root_of c = root_of d)"

definition one_time :: "adoption set \<Rightarrow> bool" where
  "one_time C \<longleftrightarrow> (\<forall>c \<in> C. \<forall>d \<in> C. nonce_of c = nonce_of d \<longrightarrow> time_of c = time_of d)"

definition consistent :: "adoption set \<Rightarrow> bool" where
  "consistent C \<longleftrightarrow> (\<forall>c \<in> C. \<forall>d \<in> C. (nonce_of c = nonce_of d \<longleftrightarrow> root_of c = root_of d) \<and> (nonce_of c = nonce_of d \<longrightarrow> time_of c = time_of d))"

lemma consistent_parts: "consistent C \<longleftrightarrow> named_apart C \<and> one_time C"
  by (auto simp: consistent_def named_apart_def one_time_def)

definition settled :: "adoption set \<Rightarrow> conv_record \<Rightarrow> bool" where
  "settled C r \<longleftrightarrow> conv_record_ok r
     \<and> (\<exists>c \<in> C. ck_kRootCurrent r = root_of c \<and> ck_adoptedIntroNonce r = nonce_of c \<and> ck_adoptedCreatedAt r = time_of c)
     \<and> (\<forall>d \<in> C. nonce_of d = ck_adoptedIntroNonce r \<or> newer (ck_adoptedCreatedAt r) (ck_adoptedIntroNonce r) (time_of d) (nonce_of d))
     \<and> fst ` set (ck_kRootsForRead r) \<subseteq> root_of ` C \<and> set (ck_retiredIntroNonces r) \<subseteq> nonce_of ` C
     \<and> (card (root_of ` C) \<le> 17 \<longrightarrow> root_of ` C \<subseteq> insert (ck_kRootCurrent r) (fst ` set (ck_kRootsForRead r)))"

text \<open>The four ways a candidate is taken by a record that has one.\<close>

lemma adopt_held:
  assumes r: "conv_record_ok r" and c: "valid_adoption c"
  shows "\<exists>out r'. adoptKRoot (Some r) c = Inr (out, r') \<and>
    (if nonce_of c = ck_adoptedIntroNonce r then
       ck_kRootCurrent r' = ck_kRootCurrent r \<and> ck_kRootsForRead r' = ck_kRootsForRead r \<and> ck_adoptedIntroNonce r' = ck_adoptedIntroNonce r
       \<and> ck_retiredIntroNonces r' = ck_retiredIntroNonces r
       \<and> ck_adoptedCreatedAt r' = (if time_of c > 0 \<and> (ck_adoptedCreatedAt r \<le> 0 \<or> time_of c < ck_adoptedCreatedAt r)
            then time_of c else ck_adoptedCreatedAt r)
       \<and> (time_of c = ck_adoptedCreatedAt r \<longrightarrow> ck_adoptedCreatedAt r' = ck_adoptedCreatedAt r \<and> out = Duplicate)
     else if root_of c = ck_kRootCurrent r \<or> root_of c \<in> fst ` set (ck_kRootsForRead r) \<or> nonce_of c \<in> set (ck_retiredIntroNonces r)
     then out = Replayed \<and> r' = r
     else if newer (time_of c) (nonce_of c) (ck_adoptedCreatedAt r) (ck_adoptedIntroNonce r) then
       out = Adopted \<and> ck_kRootCurrent r' = root_of c \<and> ck_adoptedIntroNonce r' = nonce_of c \<and> ck_adoptedCreatedAt r' = time_of c
       \<and> ck_kRootsForRead r' = last_n 16 (ck_kRootsForRead r @ [(ck_kRootCurrent r, Some (ck_adoptedCreatedAt r))])
       \<and> ck_retiredIntroNonces r' = (if ck_adoptedIntroNonce r \<in> set (ck_retiredIntroNonces r) then ck_retiredIntroNonces r
            else last_n 16 (ck_retiredIntroNonces r @ [ck_adoptedIntroNonce r]))
     else out = Retained \<and> r' = r\<lparr>ck_kRootsForRead := last_n 16 (ck_kRootsForRead r @ [(root_of c, Some (time_of c))]),
         ck_retiredIntroNonces := last_n 16 (ck_retiredIntroNonces r @ [nonce_of c])\<rparr>)"
proof -
  note ok = r [unfolded conv_record_ok_def]
  note l = valid_lengths [OF c]
  obtain p pe where v: "store_toBytes (ad_kRoot c) 32 = Inr (root_of c)" "store_toBytes (ad_introNonce c) 16 = Inr (nonce_of c)"
      "store_toBytes (ad_peerKeyId c) 32 = Inr p"
      "(case ad_peerEncPublicKey c of None \<Rightarrow> Inr None | Some v \<Rightarrow> andThen (store_toBytes v 32) (\<lambda>pk. Inr (Some pk))) = Inr pe"
    using c unfolding valid_adoption_def by (cases "ad_peerEncPublicKey c") auto
  have known: "root_known r (root_of c) = Inr (root_of c = ck_kRootCurrent r \<or> root_of c \<in> fst ` set (ck_kRootsForRead r))"
    using ok some_bytes_ok [of "map fst (ck_kRootsForRead r)" 32 "root_of c"] by (simp add: root_known_def)
  have retired: "nonce_retired r (nonce_of c) = Inr (nonce_of c \<in> set (ck_retiredIntroNonces r))"
    using ok some_bytes_ok [of "ck_retiredIntroNonces r" 16] by (simp add: nonce_retired_def)
  obtain cmp where cmp: "compareAdoption (time_of c) (nonce_of c) r = Inr cmp"
      "cmp > 0 \<longleftrightarrow> newer (time_of c) (nonce_of c) (ck_adoptedCreatedAt r) (ck_adoptedIntroNonce r)"
    using compareAdoption_ok [OF r] l by blast
  have app: "appendReadRoot (ck_kRootsForRead r) k t = Inr (if k \<in> fst ` set (ck_kRootsForRead r) then ck_kRootsForRead r
        else last_n 16 (ck_kRootsForRead r @ [(k, Some t)]))" if "length k = 32" for k t
    using append_read_ok that ok by blast
  have apn: "appendRetiredNonce (ck_retiredIntroNonces r) n = Inr (if n \<in> set (ck_retiredIntroNonces r) then ck_retiredIntroNonces r
        else last_n 16 (ck_retiredIntroNonces r @ [n]))" if "length n = 16" for n
    using append_nonce_ok that ok by blast
  show ?thesis
    using ok l by (simp add: adoptKRoot_def v known retired cmp app apn time_of_def [symmetric] Let_def with_candidates_def) auto
qed

text \<open>The first candidate, and one more.\<close>

lemma settled_first:
  assumes "valid_adoption c"
  shows "\<exists>r. adoptKRoot None c = Inr (Created, r) \<and> settled {c} r"
proof -
  note l = valid_lengths [OF assms]
  obtain p pe where v: "store_toBytes (ad_kRoot c) 32 = Inr (root_of c)" "store_toBytes (ad_introNonce c) 16 = Inr (nonce_of c)"
      "store_toBytes (ad_peerKeyId c) 32 = Inr p"
      "(case ad_peerEncPublicKey c of None \<Rightarrow> Inr None | Some v \<Rightarrow> andThen (store_toBytes v 32) (\<lambda>pk. Inr (Some pk))) = Inr pe"
    using assms unfolding valid_adoption_def by (cases "ad_peerEncPublicKey c") auto
  show ?thesis using l by (simp add: adoptKRoot_def v Let_def settled_def conv_record_ok_def time_of_def)
qed

lemma read_after:
  assumes "conv_record_ok r" "k = ck_kRootCurrent r \<or> k \<notin> fst ` set (ck_kRootsForRead r)" "length k = 32"
  shows "distinct (map fst (last_n 16 (ck_kRootsForRead r @ [(k, t)])))" "length (last_n 16 (ck_kRootsForRead r @ [(k, t)])) \<le> 16"
    "\<forall>x \<in> set (last_n 16 (ck_kRootsForRead r @ [(k, t)])). length (fst x) = 32"
    "fst ` set (last_n 16 (ck_kRootsForRead r @ [(k, t)])) \<subseteq> insert k (fst ` set (ck_kRootsForRead r))"
    "length (ck_kRootsForRead r) < 16 \<Longrightarrow> fst ` set (last_n 16 (ck_kRootsForRead r @ [(k, t)])) = insert k (fst ` set (ck_kRootsForRead r))"
proof -
  note ok = assms(1) [unfolded conv_record_ok_def]
  show "distinct (map fst (last_n 16 (ck_kRootsForRead r @ [(k, t)])))"
  proof -
    have "ck_kRootCurrent r \<notin> fst ` set (ck_kRootsForRead r)" using ok by simp
    then have "k \<notin> fst ` set (ck_kRootsForRead r)" using assms(2) by metis
    then show ?thesis using ok unfolding map_last_n by (intro distinct_last_n) simp
  qed
  show "length (last_n 16 (ck_kRootsForRead r @ [(k, t)])) \<le> 16" by simp
  show "\<forall>x \<in> set (last_n 16 (ck_kRootsForRead r @ [(k, t)])). length (fst x) = 32"
    using set_last_n [of 16 "ck_kRootsForRead r @ [(k, t)]"] ok assms(3) by auto
  show "fst ` set (last_n 16 (ck_kRootsForRead r @ [(k, t)])) \<subseteq> insert k (fst ` set (ck_kRootsForRead r))"
    using set_last_n [of 16 "ck_kRootsForRead r @ [(k, t)]"] by auto
  show "fst ` set (last_n 16 (ck_kRootsForRead r @ [(k, t)])) = insert k (fst ` set (ck_kRootsForRead r))" if "length (ck_kRootsForRead r) < 16"
    using that by (simp add: last_n_def)
qed

lemma retired_after:
  assumes "conv_record_ok r" "length n = 16"
  shows "distinct (if n \<in> set (ck_retiredIntroNonces r) then ck_retiredIntroNonces r else last_n 16 (ck_retiredIntroNonces r @ [n]))"
    "length (if n \<in> set (ck_retiredIntroNonces r) then ck_retiredIntroNonces r else last_n 16 (ck_retiredIntroNonces r @ [n])) \<le> 16"
    "set (if n \<in> set (ck_retiredIntroNonces r) then ck_retiredIntroNonces r else last_n 16 (ck_retiredIntroNonces r @ [n]))
      \<subseteq> insert n (set (ck_retiredIntroNonces r))"
    "\<forall>x \<in> set (if n \<in> set (ck_retiredIntroNonces r) then ck_retiredIntroNonces r else last_n 16 (ck_retiredIntroNonces r @ [n])). length x = 16"
proof -
  note ok = assms(1) [unfolded conv_record_ok_def]
  show "distinct (if n \<in> set (ck_retiredIntroNonces r) then ck_retiredIntroNonces r else last_n 16 (ck_retiredIntroNonces r @ [n]))"
    using ok distinct_last_n [of "ck_retiredIntroNonces r @ [n]" 16] by auto
  show "length (if n \<in> set (ck_retiredIntroNonces r) then ck_retiredIntroNonces r else last_n 16 (ck_retiredIntroNonces r @ [n])) \<le> 16" using ok by simp
  show s: "set (if n \<in> set (ck_retiredIntroNonces r) then ck_retiredIntroNonces r else last_n 16 (ck_retiredIntroNonces r @ [n]))
      \<subseteq> insert n (set (ck_retiredIntroNonces r))"
    using set_last_n [of 16 "ck_retiredIntroNonces r @ [n]"] by auto
  show "\<forall>x \<in> set (if n \<in> set (ck_retiredIntroNonces r) then ck_retiredIntroNonces r else last_n 16 (ck_retiredIntroNonces r @ [n])). length x = 16"
    using s ok assms(2) by blast
qed

lemma few_read:
  assumes "settled C r" "finite C" "k \<notin> insert (ck_kRootCurrent r) (fst ` set (ck_kRootsForRead r))" "card (insert k (root_of ` C)) \<le> 17"
  shows "length (ck_kRootsForRead r) < 16"
proof -
  have ok: "conv_record_ok r" using assms(1) by (simp add: settled_def)
  have sub: "insert k (insert (ck_kRootCurrent r) (fst ` set (ck_kRootsForRead r))) \<subseteq> insert k (root_of ` C)"
    using assms(1) by (auto simp: settled_def)
  have "card (insert k (insert (ck_kRootCurrent r) (fst ` set (ck_kRootsForRead r)))) = 2 + card (fst ` set (ck_kRootsForRead r))"
    using ok assms(3) by (simp add: conv_record_ok_def)
  moreover have "card (fst ` set (ck_kRootsForRead r)) = length (ck_kRootsForRead r)"
    using ok distinct_card [of "map fst (ck_kRootsForRead r)"] by (simp add: conv_record_ok_def)
  moreover have "card (insert k (insert (ck_kRootCurrent r) (fst ` set (ck_kRootsForRead r)))) \<le> card (insert k (root_of ` C))"
    by (rule card_mono [OF _ sub]) (simp add: assms(2))
  ultimately show ?thesis using assms(4) by linarith
qed

text \<open>The one of \<open>C\<close> a settled record holds.\<close>

lemma settled_held:
  assumes "settled C r" "consistent C"
  shows "\<exists>b \<in> C. ck_kRootCurrent r = root_of b \<and> ck_adoptedIntroNonce r = nonce_of b \<and> ck_adoptedCreatedAt r = time_of b
    \<and> (\<forall>d \<in> C. nonce_of d = nonce_of b \<longrightarrow> time_of d = time_of b)"
  using assms unfolding settled_def consistent_def by blast

lemma few_read_after:
  assumes s: "settled C r" "finite C" "root_of c \<notin> insert (ck_kRootCurrent r) (fst ` set (ck_kRootsForRead r))" "card (root_of ` insert c C) \<le> 17"
  shows "length (ck_kRootsForRead r) < 16" "root_of ` C \<subseteq> insert (ck_kRootCurrent r) (fst ` set (ck_kRootsForRead r))"
proof -
  have "card (root_of ` C) \<le> card (root_of ` insert c C)" by (rule card_mono) (use s(2) in auto)
  then show "root_of ` C \<subseteq> insert (ck_kRootCurrent r) (fst ` set (ck_kRootsForRead r))" using s(1,4) unfolding settled_def by simp
  show "length (ck_kRootsForRead r) < 16" using few_read [OF s(1-3)] s(4) by simp
qed

lemma settled_adopted:
  assumes s: "settled C r" and C: "finite C" and c: "valid_adoption c" and k: "consistent (insert c C)"
    and new: "root_of c \<notin> insert (ck_kRootCurrent r) (fst ` set (ck_kRootsForRead r))"
    and up: "newer (time_of c) (nonce_of c) (ck_adoptedCreatedAt r) (ck_adoptedIntroNonce r)"
    and r': "ck_kRootCurrent r' = root_of c" "ck_adoptedIntroNonce r' = nonce_of c" "ck_adoptedCreatedAt r' = time_of c"
      "ck_kRootsForRead r' = last_n 16 (ck_kRootsForRead r @ [(ck_kRootCurrent r, Some (ck_adoptedCreatedAt r))])"
      "ck_retiredIntroNonces r' = (if ck_adoptedIntroNonce r \<in> set (ck_retiredIntroNonces r) then ck_retiredIntroNonces r
            else last_n 16 (ck_retiredIntroNonces r @ [ck_adoptedIntroNonce r]))"
  shows "settled (insert c C) r'"
proof -
  have "consistent C" using k unfolding consistent_def by blast
  then obtain b where b: "b \<in> C" "ck_kRootCurrent r = root_of b" "ck_adoptedIntroNonce r = nonce_of b" "ck_adoptedCreatedAt r = time_of b"
      "\<And>d. d \<in> C \<Longrightarrow> nonce_of d = nonce_of b \<Longrightarrow> time_of d = time_of b"
    using settled_held [OF s] by blast
  have ok: "conv_record_ok r" and sub: "fst ` set (ck_kRootsForRead r) \<subseteq> root_of ` C" "set (ck_retiredIntroNonces r) \<subseteq> nonce_of ` C"
    and most: "\<And>d. d \<in> C \<Longrightarrow> nonce_of d = ck_adoptedIntroNonce r \<or> newer (ck_adoptedCreatedAt r) (ck_adoptedIntroNonce r) (time_of d) (nonce_of d)"
    using s unfolding settled_def by simp_all
  have bi: "root_of b \<in> root_of ` C" "nonce_of b \<in> nonce_of ` C" using b(1) by simp_all
  have cur: "length (ck_kRootCurrent r) = 32" "length (ck_adoptedIntroNonce r) = 16" using ok by (simp_all add: conv_record_ok_def)
  note rd = read_after [OF ok disjI1 [OF refl] cur(1), of "Some (ck_adoptedCreatedAt r)"]
  note rt = retired_after [OF ok cur(2)]
  have "conv_record_ok r'" using r' rd rt valid_lengths [OF c] new unfolding conv_record_ok_def by auto
  moreover have "nonce_of d = ck_adoptedIntroNonce r' \<or> newer (ck_adoptedCreatedAt r') (ck_adoptedIntroNonce r') (time_of d) (nonce_of d)"
    if "d \<in> insert c C" for d
    using that r' up most [of d] b(3,4) b(5) [of d] newer_trans [OF up, of "time_of d" "nonce_of d"] by (cases "d = c") auto
  moreover have "fst ` set (ck_kRootsForRead r') \<subseteq> root_of ` insert c C"
  proof -
    have "fst ` set (ck_kRootsForRead r') \<subseteq> insert (root_of b) (fst ` set (ck_kRootsForRead r))" using r' rd(4) b(2) by simp
    also have "\<dots> \<subseteq> root_of ` C" using sub(1) bi(1) by (rule insert_subsetI [rotated])
    finally show ?thesis by (rule order_trans) (rule image_mono, rule subset_insertI)
  qed
  moreover have "set (ck_retiredIntroNonces r') \<subseteq> nonce_of ` insert c C"
  proof -
    have "set (ck_retiredIntroNonces r') \<subseteq> insert (nonce_of b) (set (ck_retiredIntroNonces r))" using r' rt(3) b(3) by simp
    also have "\<dots> \<subseteq> nonce_of ` C" using sub(2) bi(2) by (rule insert_subsetI [rotated])
    finally show ?thesis by (rule order_trans) (rule image_mono, rule subset_insertI)
  qed
  moreover have "card (root_of ` insert c C) \<le> 17 \<longrightarrow> root_of ` insert c C \<subseteq> insert (ck_kRootCurrent r') (fst ` set (ck_kRootsForRead r'))"
    using few_read_after [OF s C new] rd(5) r' by auto
  ultimately show ?thesis using r' unfolding settled_def by blast
qed

lemma settled_retained:
  assumes s: "settled C r" and C: "finite C" and c: "valid_adoption c" and k: "consistent (insert c C)"
    and new: "root_of c \<notin> insert (ck_kRootCurrent r) (fst ` set (ck_kRootsForRead r))" "nonce_of c \<notin> set (ck_retiredIntroNonces r)"
    and down: "newer (ck_adoptedCreatedAt r) (ck_adoptedIntroNonce r) (time_of c) (nonce_of c)"
    and r': "r' = r\<lparr>ck_kRootsForRead := last_n 16 (ck_kRootsForRead r @ [(root_of c, Some (time_of c))]),
         ck_retiredIntroNonces := last_n 16 (ck_retiredIntroNonces r @ [nonce_of c])\<rparr>"
  shows "settled (insert c C) r'"
proof -
  have ok: "conv_record_ok r" and sub: "fst ` set (ck_kRootsForRead r) \<subseteq> root_of ` C" "set (ck_retiredIntroNonces r) \<subseteq> nonce_of ` C"
    and held: "\<exists>b \<in> C. ck_kRootCurrent r = root_of b \<and> ck_adoptedIntroNonce r = nonce_of b \<and> ck_adoptedCreatedAt r = time_of b"
    and most: "\<And>d. d \<in> C \<Longrightarrow> nonce_of d = ck_adoptedIntroNonce r \<or> newer (ck_adoptedCreatedAt r) (ck_adoptedIntroNonce r) (time_of d) (nonce_of d)"
    using s unfolding settled_def by blast+
  note l = valid_lengths [OF c]
  have nk: "root_of c \<notin> fst ` set (ck_kRootsForRead r)" using new(1) by blast
  note rd = read_after [OF ok disjI2 [OF nk] l [THEN conjunct1], of "Some (time_of c)"]
  note rt = retired_after [OF ok l [THEN conjunct2], simplified new(2) if_False]
  have "conv_record_ok r'" using r' rd rt new(1) ok unfolding conv_record_ok_def by auto
  moreover have "fst ` set (ck_kRootsForRead r') \<subseteq> root_of ` insert c C" using r' subset_trans [OF rd(4) insert_mono [OF sub(1)]] by simp
  moreover have "set (ck_retiredIntroNonces r') \<subseteq> nonce_of ` insert c C" using r' subset_trans [OF rt(3) insert_mono [OF sub(2)]] by simp
  moreover have "card (root_of ` insert c C) \<le> 17 \<longrightarrow> root_of ` insert c C \<subseteq> insert (ck_kRootCurrent r') (fst ` set (ck_kRootsForRead r'))"
    using few_read_after [OF s C new(1)] rd(5) r' by auto
  ultimately show ?thesis using r' held most down unfolding settled_def by auto
qed

lemma settled_step:
  assumes s: "settled C r" and C: "finite C" and c: "valid_adoption c" and k: "consistent (insert c C)"
  shows "\<exists>out r'. adoptKRoot (Some r) c = Inr (out, r') \<and> settled (insert c C) r'"
proof -
  have ok: "conv_record_ok r" and sub: "fst ` set (ck_kRootsForRead r) \<subseteq> root_of ` C" "set (ck_retiredIntroNonces r) \<subseteq> nonce_of ` C"
    using s unfolding settled_def by simp_all
  have "consistent C" using k unfolding consistent_def by blast
  then obtain b where b: "b \<in> C" "ck_kRootCurrent r = root_of b" "ck_adoptedIntroNonce r = nonce_of b" "ck_adoptedCreatedAt r = time_of b"
    using settled_held [OF s] by blast
  have same: "nonce_of c = nonce_of d \<longleftrightarrow> root_of c = root_of d" "nonce_of c = nonce_of d \<Longrightarrow> time_of c = time_of d" if "d \<in> C" for d
    using k that unfolding consistent_def by blast+
  have seen: "settled (insert c C) r" if "d \<in> C" "nonce_of c = nonce_of d" for d
  proof -
    have "root_of ` insert c C = root_of ` C" "nonce_of ` insert c C = nonce_of ` C" "time_of c = time_of d"
      using same [OF that(1)] that by auto
    with s that show ?thesis unfolding settled_def by auto
  qed
  obtain out r' where a: "adoptKRoot (Some r) c = Inr (out, r')" and q: "if nonce_of c = ck_adoptedIntroNonce r then
       ck_kRootCurrent r' = ck_kRootCurrent r \<and> ck_kRootsForRead r' = ck_kRootsForRead r \<and> ck_adoptedIntroNonce r' = ck_adoptedIntroNonce r
       \<and> ck_retiredIntroNonces r' = ck_retiredIntroNonces r
       \<and> ck_adoptedCreatedAt r' = (if time_of c > 0 \<and> (ck_adoptedCreatedAt r \<le> 0 \<or> time_of c < ck_adoptedCreatedAt r)
            then time_of c else ck_adoptedCreatedAt r)
       \<and> (time_of c = ck_adoptedCreatedAt r \<longrightarrow> ck_adoptedCreatedAt r' = ck_adoptedCreatedAt r \<and> out = Duplicate)
     else if root_of c = ck_kRootCurrent r \<or> root_of c \<in> fst ` set (ck_kRootsForRead r) \<or> nonce_of c \<in> set (ck_retiredIntroNonces r)
     then out = Replayed \<and> r' = r
     else if newer (time_of c) (nonce_of c) (ck_adoptedCreatedAt r) (ck_adoptedIntroNonce r) then
       out = Adopted \<and> ck_kRootCurrent r' = root_of c \<and> ck_adoptedIntroNonce r' = nonce_of c \<and> ck_adoptedCreatedAt r' = time_of c
       \<and> ck_kRootsForRead r' = last_n 16 (ck_kRootsForRead r @ [(ck_kRootCurrent r, Some (ck_adoptedCreatedAt r))])
       \<and> ck_retiredIntroNonces r' = (if ck_adoptedIntroNonce r \<in> set (ck_retiredIntroNonces r) then ck_retiredIntroNonces r
            else last_n 16 (ck_retiredIntroNonces r @ [ck_adoptedIntroNonce r]))
     else out = Retained \<and> r' = r\<lparr>ck_kRootsForRead := last_n 16 (ck_kRootsForRead r @ [(root_of c, Some (time_of c))]),
         ck_retiredIntroNonces := last_n 16 (ck_retiredIntroNonces r @ [nonce_of c])\<rparr>"
    using adopt_held [OF ok c] by blast
  consider (held) "nonce_of c = ck_adoptedIntroNonce r"
    | (known) d where "nonce_of c \<noteq> ck_adoptedIntroNonce r" "r' = r" "d \<in> C" "nonce_of c = nonce_of d"
    | (new) "nonce_of c \<noteq> ck_adoptedIntroNonce r" "root_of c \<notin> insert (ck_kRootCurrent r) (fst ` set (ck_kRootsForRead r))"
        "nonce_of c \<notin> set (ck_retiredIntroNonces r)"
  proof (cases "root_of c = ck_kRootCurrent r \<or> root_of c \<in> fst ` set (ck_kRootsForRead r) \<or> nonce_of c \<in> set (ck_retiredIntroNonces r)")
    case True
    then have "root_of c \<in> root_of ` C \<or> nonce_of c \<in> nonce_of ` C" using sub b(1,2) by (metis image_eqI subsetD)
    then obtain d where "d \<in> C" "nonce_of c = nonce_of d" using same(1) by blast
    then show thesis using True q held known by (metis (full_types))
  qed (use held new in blast)
  then have "settled (insert c C) r'"
  proof cases
    case held
    then have "time_of c = ck_adoptedCreatedAt r" using same(2) [OF b(1)] b(3,4) by simp
    then have e: "ck_kRootCurrent r' = ck_kRootCurrent r" "ck_kRootsForRead r' = ck_kRootsForRead r" "ck_adoptedIntroNonce r' = ck_adoptedIntroNonce r"
        "ck_retiredIntroNonces r' = ck_retiredIntroNonces r" "ck_adoptedCreatedAt r' = ck_adoptedCreatedAt r"
      using q held by simp_all
    have "settled (insert c C) r" by (rule seen [OF b(1)]) (simp add: held b(3))
    then show ?thesis unfolding settled_def conv_record_ok_def e .
  next
    case known
    then show ?thesis using seen by simp
  next
    case new
    show ?thesis
    proof (cases "newer (time_of c) (nonce_of c) (ck_adoptedCreatedAt r) (ck_adoptedIntroNonce r)")
      case True
      show ?thesis by (rule settled_adopted [OF s C c k new(2) True]) (use q new True in auto)
    next
      case False
      show ?thesis by (rule settled_retained [OF s C c k new(2,3) newer_total [OF new(1) False]]) (use q new False in auto)
    qed
  qed
  with a show ?thesis by blast
qed

fun adopt_all :: "conv_record option \<Rightarrow> adoption list \<Rightarrow> conv_record option res" where
  "adopt_all held [] = Inr held"
| "adopt_all held (c # cs) = andThen (adoptKRoot held c) (\<lambda>(_, r). adopt_all (Some r) cs)"

lemma adopt_all_settled:
  assumes "settled C r" "finite C" "\<forall>c \<in> set cs. valid_adoption c" "consistent (set cs \<union> C)"
  shows "\<exists>r'. adopt_all (Some r) cs = Inr (Some r') \<and> settled (set cs \<union> C) r'"
  using assms
proof (induction cs arbitrary: C r)
  case (Cons c cs)
  have "consistent (insert c C)" using Cons.prems(4) unfolding consistent_def by auto
  then obtain out r' where r': "adoptKRoot (Some r) c = Inr (out, r')" "settled (insert c C) r'"
    using settled_step [OF Cons.prems(1,2) _ \<open>consistent (insert c C)\<close>] Cons.prems(3) by (meson list.set_intros(1))
  show ?case using Cons.IH [OF r'(2)] Cons.prems(2-4) r'(1) by simp
qed simp

lemma adopt_all_consistent:
  assumes "cs \<noteq> []" "\<forall>c \<in> set cs. valid_adoption c" "consistent (set cs)"
  shows "\<exists>r. adopt_all None cs = Inr (Some r) \<and> settled (set cs) r"
proof -
  obtain y ys where y: "cs = y # ys" using assms(1) by (cases cs) auto
  have "valid_adoption y" using assms(2) y by auto
  from settled_first [OF this] obtain r where r: "adoptKRoot None y = Inr (Created, r)" "settled {y} r" by blast
  have "set ys \<union> {y} = set cs" using y by auto
  with adopt_all_settled [OF r(2), of ys] assms(2,3) r(1) y show ?thesis by auto
qed

section \<open>Copies that come again\<close>

text \<open>
  The earliest time of the copies of an intro in a list of arrivals: the original, which everything later repeats.
  Where the times of the copies differ, they are times after the epoch.
\<close>

definition earliest :: "adoption list \<Rightarrow> bytes \<Rightarrow> int" where
  "earliest cs n = Min (set (map time_of (filter (\<lambda>c. nonce_of c = n) cs)))"

definition dated :: "adoption set \<Rightarrow> bool" where
  "dated C \<longleftrightarrow> (\<forall>c \<in> C. \<forall>d \<in> C. nonce_of c = nonce_of d \<longrightarrow> time_of c = time_of d \<or> 0 < time_of c \<and> 0 < time_of d)"

text \<open>
  An order of arrival is fair if an intro that is seen for the first time is as new, by the copies seen so far, as
  it is by the originals, against every intro seen before. Copies that arrive after their originals are harmless,
  and so is one that arrives first if its original arrives before the next intro.
\<close>

definition fair :: "adoption list \<Rightarrow> bool" where
  "fair cs \<longleftrightarrow> (\<forall>i < length cs. nonce_of (cs ! i) \<notin> nonce_of ` set (take i cs) \<longrightarrow>
     (\<forall>b \<in> set (take i cs).
        newer (time_of (cs ! i)) (nonce_of (cs ! i)) (earliest (take i cs) (nonce_of b)) (nonce_of b)
        = newer (earliest cs (nonce_of (cs ! i))) (nonce_of (cs ! i)) (earliest cs (nonce_of b)) (nonce_of b)))"

lemma earliest_cong: "set cs = set ds \<Longrightarrow> earliest cs n = earliest ds n"
  by (simp add: earliest_def)

lemma earliest_in: "c \<in> set cs \<Longrightarrow> \<exists>d \<in> set cs. nonce_of d = nonce_of c \<and> earliest cs (nonce_of c) = time_of d"
proof -
  let ?T = "set (map time_of (filter (\<lambda>d. nonce_of d = nonce_of c) cs))"
  assume "c \<in> set cs"
  then have "time_of c \<in> ?T" by simp
  then have "Min ?T \<in> ?T" by (metis Min_in empty_iff finite_set)
  then show ?thesis by (auto simp: earliest_def)
qed

lemma earliest_le: "c \<in> set cs \<Longrightarrow> earliest cs (nonce_of c) \<le> time_of c"
  by (auto simp: earliest_def intro: Min_le)

lemma earliest_one_time: "one_time (set cs) \<Longrightarrow> c \<in> set cs \<Longrightarrow> earliest cs (nonce_of c) = time_of c"
  using earliest_in [of c cs] unfolding one_time_def by metis

lemma earliest_snoc_other: "nonce_of c \<noteq> n \<Longrightarrow> earliest (cs @ [c]) n = earliest cs n"
  by (simp add: earliest_def)

lemma earliest_snoc_new: "nonce_of c \<notin> nonce_of ` set cs \<Longrightarrow> earliest (cs @ [c]) (nonce_of c) = time_of c"
proof -
  assume "nonce_of c \<notin> nonce_of ` set cs"
  then have "\<forall>d \<in> set cs. nonce_of d \<noteq> nonce_of c" by (metis imageI)
  then have "filter (\<lambda>d. nonce_of d = nonce_of c) cs = []" by (simp add: filter_empty_conv)
  then show ?thesis by (simp add: earliest_def)
qed

lemma earliest_snoc: "b \<in> set cs \<Longrightarrow> nonce_of b = nonce_of c \<Longrightarrow> earliest (cs @ [c]) (nonce_of c) = min (earliest cs (nonce_of c)) (time_of c)"
proof -
  let ?T = "set (map time_of (filter (\<lambda>d. nonce_of d = nonce_of c) cs))"
  assume "b \<in> set cs" "nonce_of b = nonce_of c"
  then have "time_of b \<in> ?T" by simp
  then have "?T \<noteq> {}" by (metis empty_iff)
  moreover have "set (map time_of (filter (\<lambda>d. nonce_of d = nonce_of c) (cs @ [c]))) = insert (time_of c) ?T" by simp
  ultimately show ?thesis using Min_insert [OF finite_set, of "map time_of (filter (\<lambda>d. nonce_of d = nonce_of c) cs)" "time_of c"]
    unfolding earliest_def by (metis min.commute)
qed

text \<open>Two orders that are fair: one in which no copy changes its time, and one in which the originals come first.\<close>

lemma fair_one_time: "one_time (set cs) \<Longrightarrow> fair cs"
proof -
  assume o: "one_time (set cs)"
  have "earliest (take i cs) (nonce_of b) = earliest cs (nonce_of b)" if "b \<in> set (take i cs)" for i b
  proof -
    have "one_time (set (take i cs))" using o in_set_takeD unfolding one_time_def by metis
    with earliest_one_time [OF this that] earliest_one_time [OF o in_set_takeD [OF that]] show ?thesis by simp
  qed
  then show ?thesis using earliest_one_time [OF o] by (simp add: fair_def)
qed

lemma fair_originals_first:
  assumes "\<And>i j. i < j \<Longrightarrow> j < length cs \<Longrightarrow> nonce_of (cs ! i) = nonce_of (cs ! j) \<Longrightarrow> nonce_of (cs ! i) \<notin> nonce_of ` set (take i cs)
      \<Longrightarrow> time_of (cs ! i) \<le> time_of (cs ! j)"
  shows "fair cs"
proof -
  have first: "earliest (take k cs) (nonce_of (cs ! i)) = time_of (cs ! i)"
    if i: "i < k" "k \<le> length cs" "nonce_of (cs ! i) \<notin> nonce_of ` set (take i cs)" for i k
  proof -
    have m: "cs ! i \<in> set (take k cs)" using i by (metis in_set_conv_nth length_take less_le_trans min.absorb2 nth_take)
    obtain d where d: "d \<in> set (take k cs)" "nonce_of d = nonce_of (cs ! i)" "earliest (take k cs) (nonce_of (cs ! i)) = time_of d"
      using earliest_in [OF m] by blast
    obtain j where j: "j < k" "d = cs ! j" using d(1) i(2) by (auto simp: in_set_conv_nth)
    have "\<not> j < i"
    proof
      assume "j < i"
      then have "cs ! j \<in> set (take i cs)" using i by (auto simp: in_set_conv_nth intro!: exI [of _ j])
      then show False using i(3) d(2) j(2) by (metis imageI)
    qed
    then have "time_of (cs ! i) \<le> time_of d" using assms [of i j] i j d(2) by (cases "j = i") auto
    with earliest_le [OF m] d(3) show ?thesis by simp
  qed
  have seen: "earliest (take i cs) (nonce_of b) = earliest cs (nonce_of b)" if b: "b \<in> set (take i cs)" "i < length cs" for i b
  proof -
    define l where "l = (LEAST l. l < i \<and> nonce_of (cs ! l) = nonce_of b)"
    have ex: "\<exists>l < i. nonce_of (cs ! l) = nonce_of b" using b by (auto simp: in_set_conv_nth)
    then have l: "l < i" "nonce_of (cs ! l) = nonce_of b" unfolding l_def by (metis (mono_tags, lifting) LeastI)+
    have "nonce_of (cs ! l) \<notin> nonce_of ` set (take l cs)"
    proof
      assume "nonce_of (cs ! l) \<in> nonce_of ` set (take l cs)"
      then obtain m where "m < l" "nonce_of (cs ! m) = nonce_of b" using l by (auto simp: in_set_conv_nth)
      then show False using not_less_Least [of m "\<lambda>l. l < i \<and> nonce_of (cs ! l) = nonce_of b"] l(1) by (simp add: l_def)
    qed
    from first [OF l(1) _ this] first [OF _ order_refl this] l b(2) show ?thesis by simp
  qed
  show ?thesis unfolding fair_def
  proof (intro allI impI ballI)
    fix i b assume i: "i < length cs" "nonce_of (cs ! i) \<notin> nonce_of ` set (take i cs)" "b \<in> set (take i cs)"
    show "newer (time_of (cs ! i)) (nonce_of (cs ! i)) (earliest (take i cs) (nonce_of b)) (nonce_of b)
        = newer (earliest cs (nonce_of (cs ! i))) (nonce_of (cs ! i)) (earliest cs (nonce_of b)) (nonce_of b)"
      using first [OF i(1) order_refl i(2)] seen [OF i(3,1)] by simp
  qed
qed

text \<open>
  A record that has taken the arrivals \<open>xs\<close>, the first ones of \<open>cs\<close>: it holds the root of one of them, reads the
  roots of all, and has the earliest time seen of the intro it holds, which is the newest one if the order is fair.
\<close>

definition tracked :: "adoption list \<Rightarrow> adoption list \<Rightarrow> conv_record \<Rightarrow> bool" where
  "tracked cs xs r \<longleftrightarrow> conv_record_ok r
     \<and> (\<exists>b \<in> set xs. ck_kRootCurrent r = root_of b \<and> ck_adoptedIntroNonce r = nonce_of b)
     \<and> ck_adoptedCreatedAt r = earliest xs (ck_adoptedIntroNonce r)
     \<and> insert (ck_kRootCurrent r) (fst ` set (ck_kRootsForRead r)) = root_of ` set xs
     \<and> set (ck_retiredIntroNonces r) \<subseteq> nonce_of ` set xs
     \<and> (fair cs \<longrightarrow> (\<forall>d \<in> set xs. nonce_of d = ck_adoptedIntroNonce r
          \<or> newer (earliest cs (ck_adoptedIntroNonce r)) (ck_adoptedIntroNonce r) (earliest cs (nonce_of d)) (nonce_of d)))"

lemma fair_step:
  assumes "fair cs" "cs = xs @ c # ys" "nonce_of c \<notin> nonce_of ` set xs" "b \<in> set xs"
  shows "newer (time_of c) (nonce_of c) (earliest xs (nonce_of b)) (nonce_of b)
     \<longleftrightarrow> newer (earliest cs (nonce_of c)) (nonce_of c) (earliest cs (nonce_of b)) (nonce_of b)"
proof -
  have i: "length xs < length cs" "cs ! length xs = c" "take (length xs) cs = xs" using assms(2) by simp_all
  from assms(1) [unfolded fair_def, rule_format, OF i(1), unfolded i(2,3), OF assms(3,4)] show ?thesis .
qed

lemma tracked_room:
  assumes "tracked cs xs r" "root_of c \<notin> root_of ` set xs" "card (root_of ` set (xs @ [c])) \<le> 17"
  shows "length (ck_kRootsForRead r) < 16"
proof -
  have ok: "conv_record_ok r" and R: "insert (ck_kRootCurrent r) (fst ` set (ck_kRootsForRead r)) = root_of ` set xs"
    using assms(1) by (simp_all add: tracked_def)
  have "card (root_of ` set (xs @ [c])) = Suc (card (root_of ` set xs))" using assms(2) by simp
  moreover have "card (root_of ` set xs) = Suc (card (fst ` set (ck_kRootsForRead r)))"
    using ok unfolding R [symmetric] by (simp add: conv_record_ok_def)
  moreover have "card (fst ` set (ck_kRootsForRead r)) = length (ck_kRootsForRead r)"
    using ok distinct_card [of "map fst (ck_kRootsForRead r)"] by (simp add: conv_record_ok_def)
  ultimately show ?thesis using assms(3) by simp
qed

text \<open>An arrival of an intro that is already known changes nothing but the time of the one that is held.\<close>

lemma tracked_known:
  assumes t: "tracked cs xs r" and b: "b \<in> set xs" "nonce_of c = nonce_of b" "root_of c = root_of b"
    and r': "conv_record_ok r'" "ck_kRootCurrent r' = ck_kRootCurrent r" "ck_kRootsForRead r' = ck_kRootsForRead r"
      "ck_adoptedIntroNonce r' = ck_adoptedIntroNonce r" "ck_retiredIntroNonces r' = ck_retiredIntroNonces r"
      "ck_adoptedCreatedAt r' = earliest (xs @ [c]) (ck_adoptedIntroNonce r)"
  shows "tracked cs (xs @ [c]) r'"
proof -
  have i: "root_of ` set (xs @ [c]) = root_of ` set xs" "nonce_of ` set (xs @ [c]) = nonce_of ` set xs" using b by auto
  from t obtain a where a: "a \<in> set xs" "ck_kRootCurrent r = root_of a" "ck_adoptedIntroNonce r = nonce_of a"
    by (auto simp: tracked_def)
  have "\<forall>d \<in> set (xs @ [c]). nonce_of d = ck_adoptedIntroNonce r
        \<or> newer (earliest cs (ck_adoptedIntroNonce r)) (ck_adoptedIntroNonce r) (earliest cs (nonce_of d)) (nonce_of d)"
    if f: "fair cs"
    using t f b(1,2) by (auto simp: tracked_def)
  moreover have "\<exists>b \<in> set (xs @ [c]). ck_kRootCurrent r' = root_of b \<and> ck_adoptedIntroNonce r' = nonce_of b"
    using a r'(2,4) by (intro bexI [of _ a]) simp_all
  ultimately show ?thesis using t r' unfolding tracked_def i by simp
qed

lemma tracked_step:
  assumes t: "tracked cs xs r" and cs: "cs = xs @ c # ys"
    and c: "valid_adoption c" and n: "named_apart (set cs)" and d: "dated (set cs)" and few: "card (root_of ` set cs) \<le> 17"
  shows "\<exists>out r'. adoptKRoot (Some r) c = Inr (out, r') \<and> tracked cs (xs @ [c]) r'"
proof -
  have ok: "conv_record_ok r" and R: "insert (ck_kRootCurrent r) (fst ` set (ck_kRootsForRead r)) = root_of ` set xs"
    and ret: "set (ck_retiredIntroNonces r) \<subseteq> nonce_of ` set xs" and time: "ck_adoptedCreatedAt r = earliest xs (ck_adoptedIntroNonce r)"
    using t by (simp_all add: tracked_def)
  obtain a where a: "a \<in> set xs" "ck_kRootCurrent r = root_of a" "ck_adoptedIntroNonce r = nonce_of a"
    using t by (auto simp: tracked_def)
  have sub: "c \<in> set cs" "set xs \<subseteq> set cs" using cs by auto
  have same: "nonce_of c = nonce_of b \<longleftrightarrow> root_of c = root_of b" if "b \<in> set xs" for b
    using n sub that unfolding named_apart_def by blast
  from adopt_held [OF ok c] obtain out r' where a': "adoptKRoot (Some r) c = Inr (out, r')" and q: "if nonce_of c = ck_adoptedIntroNonce r then
       ck_kRootCurrent r' = ck_kRootCurrent r \<and> ck_kRootsForRead r' = ck_kRootsForRead r \<and> ck_adoptedIntroNonce r' = ck_adoptedIntroNonce r
       \<and> ck_retiredIntroNonces r' = ck_retiredIntroNonces r
       \<and> ck_adoptedCreatedAt r' = (if time_of c > 0 \<and> (ck_adoptedCreatedAt r \<le> 0 \<or> time_of c < ck_adoptedCreatedAt r)
            then time_of c else ck_adoptedCreatedAt r)
       \<and> (time_of c = ck_adoptedCreatedAt r \<longrightarrow> ck_adoptedCreatedAt r' = ck_adoptedCreatedAt r \<and> out = Duplicate)
     else if root_of c = ck_kRootCurrent r \<or> root_of c \<in> fst ` set (ck_kRootsForRead r) \<or> nonce_of c \<in> set (ck_retiredIntroNonces r)
     then out = Replayed \<and> r' = r
     else if newer (time_of c) (nonce_of c) (ck_adoptedCreatedAt r) (ck_adoptedIntroNonce r) then
       out = Adopted \<and> ck_kRootCurrent r' = root_of c \<and> ck_adoptedIntroNonce r' = nonce_of c \<and> ck_adoptedCreatedAt r' = time_of c
       \<and> ck_kRootsForRead r' = last_n 16 (ck_kRootsForRead r @ [(ck_kRootCurrent r, Some (ck_adoptedCreatedAt r))])
       \<and> ck_retiredIntroNonces r' = (if ck_adoptedIntroNonce r \<in> set (ck_retiredIntroNonces r) then ck_retiredIntroNonces r
            else last_n 16 (ck_retiredIntroNonces r @ [ck_adoptedIntroNonce r]))
     else out = Retained \<and> r' = r\<lparr>ck_kRootsForRead := last_n 16 (ck_kRootsForRead r @ [(root_of c, Some (time_of c))]),
         ck_retiredIntroNonces := last_n 16 (ck_retiredIntroNonces r @ [nonce_of c])\<rparr>"
    by blast
  have "tracked cs (xs @ [c]) r'"
  proof (cases "nonce_of c \<in> nonce_of ` set xs")
    case True
    then obtain b where b: "b \<in> set xs" "nonce_of c = nonce_of b" by auto
    note b = b same [OF b(1), THEN iffD1, OF b(2)]
    show ?thesis
    proof (cases "nonce_of c = ck_adoptedIntroNonce r")
      case held: True
      obtain e where e: "e \<in> set xs" "nonce_of e = nonce_of a" "earliest xs (nonce_of a) = time_of e" using earliest_in [OF a(1)] by blast
      have "time_of c = time_of e \<or> 0 < time_of c \<and> 0 < time_of e"
        using d sub e(1,2) held a(3) unfolding dated_def by (metis subsetD)
      then have "ck_adoptedCreatedAt r' = min (earliest xs (nonce_of a)) (time_of c)"
        using q held time e(3) a(3) by auto
      also have "\<dots> = earliest (xs @ [c]) (nonce_of c)" using earliest_snoc [OF a(1), of c] held a(3) by simp
      finally have ct: "ck_adoptedCreatedAt r' = earliest (xs @ [c]) (ck_adoptedIntroNonce r)" using held by simp
      have e': "ck_kRootCurrent r' = ck_kRootCurrent r" "ck_kRootsForRead r' = ck_kRootsForRead r" "ck_adoptedIntroNonce r' = ck_adoptedIntroNonce r"
          "ck_retiredIntroNonces r' = ck_retiredIntroNonces r"
        using q held by simp_all
      have "conv_record_ok r'" using ok unfolding conv_record_ok_def e' .
      from tracked_known [OF t b this e' ct] show ?thesis .
    next
      case False
      have "root_of c \<in> root_of ` set xs" using b by auto
      then have "root_of c = ck_kRootCurrent r \<or> root_of c \<in> fst ` set (ck_kRootsForRead r)" using R by blast
      then have "r' = r" by (rule disjE) (use q False in simp_all)
      with tracked_known [OF t b ok refl refl refl refl] time earliest_snoc_other [OF False] show ?thesis by simp
    qed
  next
    case False
    have new: "root_of c \<notin> root_of ` set xs"
    proof
      assume "root_of c \<in> root_of ` set xs"
      then obtain b where "b \<in> set xs" "root_of c = root_of b" by auto
      with same [of b] False show False by auto
    qed
    have fresh: "nonce_of c \<noteq> ck_adoptedIntroNonce r" "root_of c \<notin> insert (ck_kRootCurrent r) (fst ` set (ck_kRootsForRead r))"
        "nonce_of c \<notin> set (ck_retiredIntroNonces r)"
      using False a R ret new by auto
    have "card (root_of ` set (xs @ [c])) \<le> card (root_of ` set cs)" by (rule card_mono) (auto simp: cs)
    then have room: "length (ck_kRootsForRead r) < 16" using tracked_room [OF t new] few by simp
    note l = valid_lengths [OF c]
    have cur: "length (ck_kRootCurrent r) = 32" "length (ck_adoptedIntroNonce r) = 16" using ok by (simp_all add: conv_record_ok_def)
    have best: "fair cs \<Longrightarrow> newer (time_of c) (nonce_of c) (ck_adoptedCreatedAt r) (ck_adoptedIntroNonce r)
        \<longleftrightarrow> newer (earliest cs (nonce_of c)) (nonce_of c) (earliest cs (ck_adoptedIntroNonce r)) (ck_adoptedIntroNonce r)"
      using fair_step [OF _ cs False a(1)] time a(3) by simp
    have most: "fair cs \<Longrightarrow> d \<in> set xs \<Longrightarrow> nonce_of d = ck_adoptedIntroNonce r
        \<or> newer (earliest cs (ck_adoptedIntroNonce r)) (ck_adoptedIntroNonce r) (earliest cs (nonce_of d)) (nonce_of d)" for d
      using t by (auto simp: tracked_def)
    show ?thesis
    proof (cases "newer (time_of c) (nonce_of c) (ck_adoptedCreatedAt r) (ck_adoptedIntroNonce r)")
      case True
      have e: "ck_kRootCurrent r' = root_of c" "ck_adoptedIntroNonce r' = nonce_of c" "ck_adoptedCreatedAt r' = time_of c"
          "ck_kRootsForRead r' = last_n 16 (ck_kRootsForRead r @ [(ck_kRootCurrent r, Some (ck_adoptedCreatedAt r))])"
          "ck_retiredIntroNonces r' = (if ck_adoptedIntroNonce r \<in> set (ck_retiredIntroNonces r) then ck_retiredIntroNonces r
            else last_n 16 (ck_retiredIntroNonces r @ [ck_adoptedIntroNonce r]))"
        using q fresh True by auto
      note rd = read_after [OF ok disjI1 [OF refl] cur(1), of "Some (ck_adoptedCreatedAt r)"]
      note rt = retired_after [OF ok cur(2)]
      have "conv_record_ok r'" using e rd rt l fresh unfolding conv_record_ok_def by auto
      moreover have "insert (ck_kRootCurrent r') (fst ` set (ck_kRootsForRead r')) = root_of ` set (xs @ [c])"
        using rd(5) [OF room] R by (simp add: e)
      moreover have "set (ck_retiredIntroNonces r') \<subseteq> nonce_of ` set (xs @ [c])"
      proof -
        have "set (ck_retiredIntroNonces r') \<subseteq> insert (ck_adoptedIntroNonce r) (set (ck_retiredIntroNonces r))" using rt(3) e(5) by simp
        then show ?thesis using ret a(1,3) by auto
      qed
      moreover have "\<forall>d \<in> set (xs @ [c]). nonce_of d = nonce_of c
          \<or> newer (earliest cs (nonce_of c)) (nonce_of c) (earliest cs (nonce_of d)) (nonce_of d)" if f: "fair cs"
      proof
        fix d assume "d \<in> set (xs @ [c])"
        then consider "d = c" | "d \<in> set xs" by auto
        then show "nonce_of d = nonce_of c \<or> newer (earliest cs (nonce_of c)) (nonce_of c) (earliest cs (nonce_of d)) (nonce_of d)"
        proof cases
          case 2
          have up: "newer (earliest cs (nonce_of c)) (nonce_of c) (earliest cs (ck_adoptedIntroNonce r)) (ck_adoptedIntroNonce r)"
            using best [OF f] True by simp
          from most [OF f 2] show ?thesis using up newer_trans [OF up] by auto
        qed simp
      qed
      ultimately show ?thesis
        using earliest_snoc_new [OF False] unfolding tracked_def e by auto
    next
      case older: False
      have e: "r' = r\<lparr>ck_kRootsForRead := last_n 16 (ck_kRootsForRead r @ [(root_of c, Some (time_of c))]),
         ck_retiredIntroNonces := last_n 16 (ck_retiredIntroNonces r @ [nonce_of c])\<rparr>"
        using q fresh older by auto
      have nk: "root_of c \<notin> fst ` set (ck_kRootsForRead r)" using fresh(2) by blast
      note rd = read_after [OF ok disjI2 [OF nk] l [THEN conjunct1], of "Some (time_of c)"]
      note rt = retired_after [OF ok l [THEN conjunct2], simplified fresh(3) if_False]
      have "conv_record_ok r'" using e rd rt fresh(2) ok unfolding conv_record_ok_def by auto
      moreover have "insert (ck_kRootCurrent r') (fst ` set (ck_kRootsForRead r')) = root_of ` set (xs @ [c])"
        unfolding e using rd(5) [OF room] R by (simp add: insert_commute [of "ck_kRootCurrent r"])
      moreover have "set (ck_retiredIntroNonces r') \<subseteq> nonce_of ` set (xs @ [c])"
        using rt(3) ret by (auto simp: e)
      moreover have "\<forall>d \<in> set (xs @ [c]). nonce_of d = ck_adoptedIntroNonce r
          \<or> newer (earliest cs (ck_adoptedIntroNonce r)) (ck_adoptedIntroNonce r) (earliest cs (nonce_of d)) (nonce_of d)" if f: "fair cs"
      proof
        fix d assume "d \<in> set (xs @ [c])"
        then consider "d = c" | "d \<in> set xs" by auto
        then show "nonce_of d = ck_adoptedIntroNonce r
          \<or> newer (earliest cs (ck_adoptedIntroNonce r)) (ck_adoptedIntroNonce r) (earliest cs (nonce_of d)) (nonce_of d)"
        proof cases
          case 1
          then show ?thesis using best [OF f] older newer_total fresh(1) by simp
        qed (rule most [OF f])
      qed
      moreover have "ck_adoptedCreatedAt r' = earliest (xs @ [c]) (ck_adoptedIntroNonce r)"
        using time earliest_snoc_other [OF fresh(1)] by (simp add: e)
      moreover have "\<exists>b \<in> set (xs @ [c]). ck_kRootCurrent r' = root_of b \<and> ck_adoptedIntroNonce r' = nonce_of b"
        using a by (intro bexI [of _ a]) (simp_all add: e)
      moreover have "ck_adoptedIntroNonce r' = ck_adoptedIntroNonce r" by (simp add: e)
      ultimately show ?thesis unfolding tracked_def by simp
    qed
  qed
  with a' show ?thesis by blast
qed

lemma adopt_all_tracked:
  assumes "tracked cs xs r" "cs = xs @ ys" "\<forall>c \<in> set cs. valid_adoption c" "named_apart (set cs)" "dated (set cs)"
    "card (root_of ` set cs) \<le> 17"
  shows "\<exists>r'. adopt_all (Some r) ys = Inr (Some r') \<and> tracked cs cs r'"
  using assms(1,2)
proof (induction ys arbitrary: xs r)
  case (Cons c ys)
  have "valid_adoption c" using Cons.prems(2) assms(3) by simp
  from tracked_step [OF Cons.prems this assms(4-6)] obtain out r' where
    r': "adoptKRoot (Some r) c = Inr (out, r')" "tracked cs (xs @ [c]) r'" by blast
  from Cons.IH [OF r'(2)] Cons.prems(2) r'(1) show ?case by simp
qed simp

lemma adopt_all_few:
  assumes "cs \<noteq> []" "\<forall>c \<in> set cs. valid_adoption c" "named_apart (set cs)" "dated (set cs)" "card (root_of ` set cs) \<le> 17"
  shows "\<exists>r. adopt_all None cs = Inr (Some r) \<and> tracked cs cs r"
proof -
  obtain y ys where y: "cs = y # ys" using assms(1) by (cases cs) auto
  have v: "valid_adoption y" using assms(2) y by auto
  note l = valid_lengths [OF v]
  obtain p pe where x: "store_toBytes (ad_kRoot y) 32 = Inr (root_of y)" "store_toBytes (ad_introNonce y) 16 = Inr (nonce_of y)"
      "store_toBytes (ad_peerKeyId y) 32 = Inr p"
      "(case ad_peerEncPublicKey y of None \<Rightarrow> Inr None | Some v \<Rightarrow> andThen (store_toBytes v 32) (\<lambda>pk. Inr (Some pk))) = Inr pe"
    using v unfolding valid_adoption_def by (cases "ad_peerEncPublicKey y") auto
  obtain r where r: "adoptKRoot None y = Inr (Created, r)" "tracked cs [y] r"
    using l by (simp add: adoptKRoot_def x Let_def tracked_def conv_record_ok_def time_of_def earliest_def)
  from adopt_all_tracked [OF r(2) _ assms(2-5), of ys] y r(1) show ?thesis by simp
qed

text \<open>What a device ends with: a record in order, all roots readable while they are few, and the newest intro if the order was fair.\<close>

lemma adopt_all_outcome:
  assumes "cs \<noteq> []" "\<forall>c \<in> set cs. valid_adoption c" "named_apart (set cs)" "dated (set cs)"
    and "card (root_of ` set cs) \<le> 17 \<or> one_time (set cs)"
  shows "\<exists>r. adopt_all None cs = Inr (Some r) \<and> conv_record_ok r
    \<and> (card (root_of ` set cs) \<le> 17 \<longrightarrow> insert (ck_kRootCurrent r) (fst ` set (ck_kRootsForRead r)) = root_of ` set cs)
    \<and> (fair cs \<longrightarrow> (\<exists>c \<in> set cs. ck_kRootCurrent r = root_of c \<and> (\<forall>d \<in> set cs. nonce_of d = nonce_of c
          \<or> newer (earliest cs (nonce_of c)) (nonce_of c) (earliest cs (nonce_of d)) (nonce_of d))))"
proof (cases "card (root_of ` set cs) \<le> 17")
  case True
  obtain r where r: "adopt_all None cs = Inr (Some r)" "tracked cs cs r" using adopt_all_few [OF assms(1-4) True] by blast
  then obtain b where b: "b \<in> set cs" "ck_kRootCurrent r = root_of b" "ck_adoptedIntroNonce r = nonce_of b" by (auto simp: tracked_def)
  have "fair cs \<longrightarrow> (\<forall>d \<in> set cs. nonce_of d = nonce_of b
      \<or> newer (earliest cs (nonce_of b)) (nonce_of b) (earliest cs (nonce_of d)) (nonce_of d))"
    using r(2) unfolding tracked_def b(3) by simp
  moreover have "conv_record_ok r" "insert (ck_kRootCurrent r) (fst ` set (ck_kRootsForRead r)) = root_of ` set cs"
    using r(2) by (simp_all add: tracked_def)
  ultimately show ?thesis using r(1) b(1,2) by (intro exI [of _ r] conjI impI) auto
next
  case False
  then have o: "one_time (set cs)" using assms(5) by simp
  then have k: "consistent (set cs)" using assms(3) by (simp add: consistent_parts)
  obtain r where r: "adopt_all None cs = Inr (Some r)" "settled (set cs) r" using adopt_all_consistent [OF assms(1,2) k] by blast
  obtain b where b: "b \<in> set cs" "ck_kRootCurrent r = root_of b" "ck_adoptedIntroNonce r = nonce_of b" "ck_adoptedCreatedAt r = time_of b"
    using settled_held [OF r(2) k] by blast
  have "\<forall>d \<in> set cs. nonce_of d = nonce_of b \<or> newer (earliest cs (nonce_of b)) (nonce_of b) (earliest cs (nonce_of d)) (nonce_of d)"
    using r(2) b earliest_one_time [OF o] unfolding settled_def by simp
  with r b False show ?thesis by (intro exI [of _ r]) (auto simp: settled_def)
qed

text \<open>
  C4: Both ends of a conversation, and every device of a user, come to the same root key. Let two devices see the
  same arrivals, each in its own order and each copy as often as it comes. Copies of an intro have its nonce and its
  root and no two intros share either (\<open>named_apart\<close>); the times of copies may differ, and are then after the epoch
  (\<open>dated\<close>). Both records are in order, and as long as
  there are at most seventeen intros both can read under the root of every one of them, whatever the orders were.
  If the orders are fair (a copy put on the chain again later does not stand in for its original when another intro
  is first seen), both write under the same root, that of the intro whose original is last by time and then by
  nonce. With more than seventeen intros this is so while no copy changes its time.
\<close>

theorem adoption_converges:
  assumes "cs \<noteq> []" "\<forall>c \<in> set cs. valid_adoption c" "named_apart (set cs)" "dated (set cs)" "set ds = set cs"
    and "card (root_of ` set cs) \<le> 17 \<or> one_time (set cs)"
  shows "\<exists>r r'. adopt_all None cs = Inr (Some r) \<and> adopt_all None ds = Inr (Some r') \<and> conv_record_ok r \<and> conv_record_ok r'
    \<and> (card (root_of ` set cs) \<le> 17 \<longrightarrow> insert (ck_kRootCurrent r) (fst ` set (ck_kRootsForRead r)) = root_of ` set cs
        \<and> insert (ck_kRootCurrent r') (fst ` set (ck_kRootsForRead r')) = root_of ` set cs)
    \<and> (fair cs \<and> fair ds \<longrightarrow> (\<exists>c \<in> set cs. ck_kRootCurrent r = root_of c \<and> ck_kRootCurrent r' = root_of c
        \<and> (\<forall>d \<in> set cs. nonce_of d = nonce_of c
            \<or> newer (earliest cs (nonce_of c)) (nonce_of c) (earliest cs (nonce_of d)) (nonce_of d))))"
proof -
  have ne: "ds \<noteq> []" using assms(1,5) by auto
  obtain r where r: "adopt_all None cs = Inr (Some r)" "conv_record_ok r"
      "card (root_of ` set cs) \<le> 17 \<longrightarrow> insert (ck_kRootCurrent r) (fst ` set (ck_kRootsForRead r)) = root_of ` set cs"
      "fair cs \<longrightarrow> (\<exists>c \<in> set cs. ck_kRootCurrent r = root_of c \<and> (\<forall>d \<in> set cs. nonce_of d = nonce_of c
          \<or> newer (earliest cs (nonce_of c)) (nonce_of c) (earliest cs (nonce_of d)) (nonce_of d)))"
    using adopt_all_outcome [OF assms(1-4,6)] by blast
  obtain r' where r': "adopt_all None ds = Inr (Some r')" "conv_record_ok r'"
      "card (root_of ` set cs) \<le> 17 \<longrightarrow> insert (ck_kRootCurrent r') (fst ` set (ck_kRootsForRead r')) = root_of ` set cs"
      "fair ds \<longrightarrow> (\<exists>c \<in> set cs. ck_kRootCurrent r' = root_of c \<and> (\<forall>d \<in> set cs. nonce_of d = nonce_of c
          \<or> newer (earliest cs (nonce_of c)) (nonce_of c) (earliest cs (nonce_of d)) (nonce_of d)))"
    using adopt_all_outcome [OF ne, unfolded assms(5) earliest_cong [OF assms(5)], OF assms(2-4,6)] by blast
  have "\<exists>c \<in> set cs. ck_kRootCurrent r = root_of c \<and> ck_kRootCurrent r' = root_of c
        \<and> (\<forall>d \<in> set cs. nonce_of d = nonce_of c \<or> newer (earliest cs (nonce_of c)) (nonce_of c) (earliest cs (nonce_of d)) (nonce_of d))"
    if f: "fair cs" "fair ds"
  proof -
    obtain b b' where b: "b \<in> set cs" "ck_kRootCurrent r = root_of b" "b' \<in> set cs" "ck_kRootCurrent r' = root_of b'"
      and m: "\<forall>d \<in> set cs. nonce_of d = nonce_of b \<or> newer (earliest cs (nonce_of b)) (nonce_of b) (earliest cs (nonce_of d)) (nonce_of d)"
        "\<forall>d \<in> set cs. nonce_of d = nonce_of b' \<or> newer (earliest cs (nonce_of b')) (nonce_of b') (earliest cs (nonce_of d)) (nonce_of d)"
      using r(4) r'(4) f by blast
    have "nonce_of b' = nonce_of b"
    proof (rule ccontr)
      assume ne: "nonce_of b' \<noteq> nonce_of b"
      have "newer (earliest cs (nonce_of b)) (nonce_of b) (earliest cs (nonce_of b')) (nonce_of b')"
          "newer (earliest cs (nonce_of b')) (nonce_of b') (earliest cs (nonce_of b)) (nonce_of b)"
        using m(1) [rule_format, OF b(3)] m(2) [rule_format, OF b(1)] ne by simp_all
      from newer_trans [OF this] show False using newer_irrefl by blast
    qed
    then have "root_of b' = root_of b" using assms(3) b(1,3) unfolding named_apart_def by blast
    with b m(1) show ?thesis by (intro bexI [of _ b]) simp_all
  qed
  with r(1-3) r'(1-3) show ?thesis by (intro exI [of _ r] exI [of _ r']) simp
qed

definition sample_adoption :: "byte \<Rightarrow> int \<Rightarrow> adoption" where
  "sample_adoption x t = \<lparr>ad_kRoot = KeyBytes (replicate 32 x), ad_introNonce = KeyBytes (replicate 16 x), ad_createdAt = Some t,
     ad_peerKeyId = KeyBytes (replicate 32 9), ad_peerEncPublicKey = None, ad_peerWallet = None, ad_peerWalletCandidates = []\<rparr>"

lemma sample_adoption_parts: "valid_adoption (sample_adoption x t)" "root_of (sample_adoption x t) = replicate 32 x"
    "nonce_of (sample_adoption x t) = replicate 16 x" "time_of (sample_adoption x t) = t"
  by (simp_all add: valid_adoption_def root_of_def nonce_of_def time_of_def sample_adoption_def or_default_def)

text \<open>An intro, a second one, and the first again later; and the copy first, its original, and then the second.\<close>

definition sample_arrivals :: "adoption list" where
  "sample_arrivals = [sample_adoption 1 100, sample_adoption 2 200, sample_adoption 1 300]"

definition sample_arrivals' :: "adoption list" where
  "sample_arrivals' = [sample_adoption 1 300, sample_adoption 1 100, sample_adoption 2 200]"

lemma all_less_3: "(\<forall>i < 3. Q i) \<longleftrightarrow> Q 0 \<and> Q 1 \<and> Q (2 :: nat)"
  by (auto simp: less_Suc_eq numeral_3_eq_3 numeral_2_eq_2)

lemma sample_newer: "newer 200 n 100 n'" "newer 200 n' 300 n = False"
  by (simp_all add: newer_def)

lemma sample_fair: "fair sample_arrivals" "fair sample_arrivals'"
proof -
  have n: "replicate 16 (1 :: byte) \<noteq> replicate 16 2" "replicate 16 (2 :: byte) \<noteq> replicate 16 1" by (simp_all add: numeral_eq_Suc)
  have e: "earliest sample_arrivals (replicate 16 1) = 100" "earliest sample_arrivals (replicate 16 2) = 200"
      "earliest sample_arrivals' (replicate 16 1) = 100" "earliest sample_arrivals' (replicate 16 2) = 200"
      "earliest [sample_adoption 1 100] (replicate 16 1) = 100" "earliest [sample_adoption 1 300, sample_adoption 1 100] (replicate 16 1) = 100"
    using n by (simp_all add: earliest_def sample_arrivals_def sample_arrivals'_def sample_adoption_parts)
  have l: "length sample_arrivals = 3" "length sample_arrivals' = 3" by (simp_all add: sample_arrivals_def sample_arrivals'_def)
  have t: "take 0 sample_arrivals = []" "take 1 sample_arrivals = [sample_adoption 1 100]"
      "take 2 sample_arrivals = [sample_adoption 1 100, sample_adoption 2 200]"
      "take 0 sample_arrivals' = []" "take 1 sample_arrivals' = [sample_adoption 1 300]"
      "take 2 sample_arrivals' = [sample_adoption 1 300, sample_adoption 1 100]"
      "sample_arrivals ! 1 = sample_adoption 2 200" "sample_arrivals ! 2 = sample_adoption 1 300"
      "sample_arrivals' ! 1 = sample_adoption 1 100" "sample_arrivals' ! 2 = sample_adoption 2 200"
    by (simp_all add: sample_arrivals_def sample_arrivals'_def numeral_2_eq_2)
  show "fair sample_arrivals" "fair sample_arrivals'"
    unfolding fair_def l all_less_3 t by (simp_all add: sample_adoption_parts e sample_newer)
qed

theorem adoption_converges_witness:
  "\<exists>r r'. adopt_all None sample_arrivals = Inr (Some r) \<and> adopt_all None sample_arrivals' = Inr (Some r')
    \<and> ck_kRootCurrent r = replicate 32 2 \<and> ck_kRootCurrent r' = replicate 32 2"
proof -
  have n: "(1 :: byte) \<noteq> 2" by simp
  have s: "set sample_arrivals' = set sample_arrivals" "set sample_arrivals = {sample_adoption 1 100, sample_adoption 2 200, sample_adoption 1 300}"
    by (auto simp: sample_arrivals_def sample_arrivals'_def)
  have "root_of ` set sample_arrivals = {replicate 32 1, replicate 32 2}" by (auto simp: s(2) sample_adoption_parts)
  then have few: "card (root_of ` set sample_arrivals) \<le> 17 \<or> one_time (set sample_arrivals)" by (simp add: card_insert_if)
  have a: "sample_arrivals \<noteq> []" "\<forall>c \<in> set sample_arrivals. valid_adoption c" "named_apart (set sample_arrivals)" "dated (set sample_arrivals)"
    using n by (simp_all add: sample_arrivals_def named_apart_def dated_def sample_adoption_parts)
  from adoption_converges [OF a s(1) few] obtain r r' where r: "adopt_all None sample_arrivals = Inr (Some r)"
      "adopt_all None sample_arrivals' = Inr (Some r')"
      "fair sample_arrivals \<and> fair sample_arrivals' \<longrightarrow> (\<exists>c \<in> set sample_arrivals. ck_kRootCurrent r = root_of c \<and> ck_kRootCurrent r' = root_of c
        \<and> (\<forall>d \<in> set sample_arrivals. nonce_of d = nonce_of c
          \<or> newer (earliest sample_arrivals (nonce_of c)) (nonce_of c) (earliest sample_arrivals (nonce_of d)) (nonce_of d)))"
    by (elim exE conjE) (rule that; assumption)
  from mp [OF r(3) conjI [OF sample_fair]] obtain c where c: "c \<in> set sample_arrivals" "ck_kRootCurrent r = root_of c" "ck_kRootCurrent r' = root_of c"
      "\<forall>d \<in> set sample_arrivals. nonce_of d = nonce_of c
        \<or> newer (earliest sample_arrivals (nonce_of c)) (nonce_of c) (earliest sample_arrivals (nonce_of d)) (nonce_of d)"
    by (elim bexE conjE) (rule that; assumption)
  have ne: "replicate 16 (1 :: byte) \<noteq> replicate 16 2" by (simp add: numeral_eq_Suc)
  have e: "earliest sample_arrivals (replicate 16 1) = 100" "earliest sample_arrivals (replicate 16 2) = 200"
    using ne by (simp_all add: earliest_def sample_arrivals_def sample_adoption_parts)
  have "sample_adoption 2 200 \<in> set sample_arrivals" by (simp add: s(2))
  from c(4) [rule_format, OF this]
  have "nonce_of c \<noteq> replicate 16 1" using ne e by (auto simp: sample_adoption_parts newer_def)
  then have "root_of c = replicate 32 2" using c(1) by (auto simp: s(2) sample_adoption_parts)
  with r(1,2) c(2,3) show ?thesis by auto
qed

text \<open>
  Fairness is needed: where a copy of the first intro is put on the chain after the second one, a device that finds
  the copy first retains the second intro and does not come back to it when the original turns up. It writes under
  another root than a device that found the three in order, though both read both.
\<close>

lemma late_copy_splits:
  "\<exists>r r'. adopt_all None [sample_adoption 1 100, sample_adoption 2 200, sample_adoption 1 300] = Inr (Some r)
    \<and> adopt_all None [sample_adoption 1 300, sample_adoption 2 200, sample_adoption 1 100] = Inr (Some r')
    \<and> ck_kRootCurrent r = replicate 32 2 \<and> ck_kRootCurrent r' = replicate 32 1"
proof -
  have ne: "replicate 16 (1 :: byte) \<noteq> replicate 16 2" "replicate 16 (2 :: byte) \<noteq> replicate 16 1"
      "replicate 32 (1 :: byte) \<noteq> replicate 32 2" "replicate 32 (2 :: byte) \<noteq> replicate 32 1"
    by (simp_all add: numeral_eq_Suc)
  show ?thesis using ne
    by (simp add: adoptKRoot_def sample_adoption_def or_default_def Let_def root_known_def nonce_retired_def compareAdoption_def
        appendReadRoot_def appendRetiredNonce_def with_candidates_def last_n_def CONV_KEY_MAX_READ_ROOTS_def walletList_def js_set_def or_else_def)
qed

end
