(* ===== verification/Conv_Key_Persist.thy ===== *)
theory Conv_Key_Persist
  imports Conv_Key_Store
begin

text \<open>
  The store of conversation keys as it is kept: the operations of \<open>createConvKeyStore\<close>, the object a map is
  written as, the merge with what another tab has written (\<open>web/conv-key-persist.mjs\<close>), and the days and
  generations of \<open>web/cutover-epoch.mjs\<close>. The sealing of the object at rest and the lock around one write are not
  modelled: a write reads the object on disk, merges, lets the caller claim a number and writes, as one step.
  The functions of the store mutate their records in place; here they return the store they leave.
\<close>

section \<open>Days and generations\<close>

definition CUTOVER_EPOCH :: int where "CUTOVER_EPOCH = 20730"
definition WRITES_GENERATION :: int where "WRITES_GENERATION = 18"

definition currentEpochUtc :: "int \<Rightarrow> int" where "currentEpochUtc nowMs = nowMs div 86400000"

definition generationForEpochAt :: "int \<Rightarrow> int \<Rightarrow> int" where
  "generationForEpochAt epoch boundary = (if boundary \<le> 0 then 17 else if epoch < boundary then 17 else 18)"

definition generationForEpoch :: "int \<Rightarrow> int" where "generationForEpoch epoch = generationForEpochAt epoch CUTOVER_EPOCH"

definition cutoverUpdateRequiredAt :: "int \<Rightarrow> int \<Rightarrow> int \<Rightarrow> bool" where
  "cutoverUpdateRequiredAt nowMs boundary writesGeneration \<longleftrightarrow> generationForEpochAt (nowMs div 86400000) boundary > writesGeneration"

definition cutoverUpdateRequired :: "int \<Rightarrow> bool" where
  "cutoverUpdateRequired nowMs = cutoverUpdateRequiredAt nowMs CUTOVER_EPOCH WRITES_GENERATION"

definition generationsForEraAt :: "int \<Rightarrow> int \<Rightarrow> int \<Rightarrow> int list" where
  "generationsForEraAt eraLengthSeconds eraIndex boundary =
     (if boundary \<le> 0 then [17]
      else (let boundarySec = boundary * 86400; startSec = eraIndex * eraLengthSeconds; endSec = (eraIndex + 1) * eraLengthSeconds in
            if endSec \<le> boundarySec then [17] else if startSec \<ge> boundarySec then [18] else [17, 18]))"

definition generationsForEra :: "int \<Rightarrow> int \<Rightarrow> int list" where
  "generationsForEra eraLengthSeconds eraIndex = generationsForEraAt eraLengthSeconds eraIndex CUTOVER_EPOCH"

definition generationForUnixSeconds :: "int \<Rightarrow> int" where
  "generationForUnixSeconds unixSeconds = generationForEpoch (unixSeconds div 86400)"

section \<open>The store\<close>

type_synonym conv_map = "(js_string \<times> conv_record) list"

text \<open>A write may claim a number: from the merged map and what was on disk it makes the map to write.\<close>

type_synonym seq_claim = "conv_map \<Rightarrow> conv_map \<Rightarrow> (conv_map \<times> int) res"
type_synonym 'd persister = "seq_claim \<Rightarrow> conv_map \<Rightarrow> 'd \<Rightarrow> (conv_map \<times> int) res \<times> 'd"

record conv_store =
  cs_byConv :: conv_map
  cs_heldChanges :: nat
  cs_writtenChanges :: nat
  cs_dirty :: bool

definition no_claim :: seq_claim where "no_claim merged onDisk = Inr (merged, 0)"

text \<open>The number the claim came to, when there is a \<open>persist\<close> to run it.\<close>

definition persistAndAdopt :: "'d persister option \<Rightarrow> seq_claim \<Rightarrow> conv_store \<Rightarrow> 'd \<Rightarrow> int option res \<times> conv_store \<times> 'd" where
  "persistAndAdopt persist claim st d =
     (case persist of
        None \<Rightarrow> (Inr None, st, d)
      | Some write \<Rightarrow>
          (case write claim (cs_byConv st) d of
             (Inl e, d') \<Rightarrow> (Inl e, st\<lparr>cs_dirty := True\<rparr>, d')
           | (Inr (merged, n), d') \<Rightarrow>
               (Inr (Some n), st\<lparr>cs_dirty := False, cs_writtenChanges := max (cs_writtenChanges st) (cs_heldChanges st), cs_byConv := merged\<rparr>, d')))"

text \<open>An operation that writes at its end answers \<open>v\<close>, or with the error of the write.\<close>

definition written :: "'d persister option \<Rightarrow> conv_store \<Rightarrow> 'd \<Rightarrow> 'a \<Rightarrow> 'a res \<times> conv_store \<times> 'd" where
  "written persist st d v =
     (case persistAndAdopt persist no_claim st d of (Inl e, st', d') \<Rightarrow> (Inl e, st', d') | (Inr _, st', d') \<Rightarrow> (Inr v, st', d'))"

definition put_conversation :: "js_string \<Rightarrow> conv_record \<Rightarrow> conv_store \<Rightarrow> conv_store" where
  "put_conversation i r st = st\<lparr>cs_byConv := AList.update i r (cs_byConv st)\<rparr>"

definition upsertConversationKRoot ::
    "'d persister option \<Rightarrow> key_id_like \<Rightarrow> key_id_like \<Rightarrow> adoption \<Rightarrow> conv_store \<Rightarrow> 'd \<Rightarrow> adoption_outcome res \<times> conv_store \<times> 'd" where
  "upsertConversationKRoot persist selfKeyId peerKeyId candidate st d =
     (case andThen (conversationId selfKeyId peerKeyId) (\<lambda>i.
           andThen (adoptKRoot (map_of (cs_byConv st) i) (candidate\<lparr>ad_peerKeyId := peerKeyId\<rparr>)) (\<lambda>adopted. Inr (i, adopted))) of
        Inl e \<Rightarrow> (Inl e, st, d)
      | Inr (i, outcome, r) \<Rightarrow>
          if outcome \<noteq> Duplicate \<and> outcome \<noteq> Replayed \<or> map_of (cs_byConv st) i \<noteq> Some r \<or> cs_dirty st
          then written persist (put_conversation i r st) d outcome
          else (Inr outcome, st, d))"

definition isDurable :: "'d persister option \<Rightarrow> conv_store \<Rightarrow> bool" where
  "isDurable persist st \<longleftrightarrow> persist \<noteq> None \<and> \<not> cs_dirty st"

text \<open>The operations on a conversation that may not be there, and answer without a write.\<close>

definition with_conversation ::
    "key_id_like \<Rightarrow> key_id_like \<Rightarrow> conv_store \<Rightarrow> 'd \<Rightarrow> 'a \<Rightarrow> (js_string \<Rightarrow> conv_record \<Rightarrow> 'a res \<times> conv_store \<times> 'd) \<Rightarrow> 'a res \<times> conv_store \<times> 'd" where
  "with_conversation selfKeyId peerKeyId st d absent f =
     (case conversationId selfKeyId peerKeyId of
        Inl e \<Rightarrow> (Inl e, st, d)
      | Inr i \<Rightarrow> (case map_of (cs_byConv st) i of None \<Rightarrow> (Inr absent, st, d) | Some r \<Rightarrow> f i r))"

definition settlePeerWallet ::
    "'d persister option \<Rightarrow> key_id_like \<Rightarrow> key_id_like \<Rightarrow> js_string \<Rightarrow> conv_store \<Rightarrow> 'd \<Rightarrow> bool res \<times> conv_store \<times> 'd" where
  "settlePeerWallet persist selfKeyId peerKeyId wallet st d =
     with_conversation selfKeyId peerKeyId st d False (\<lambda>i held.
       if wallet = [] then (Inr False, st, d)
       else if ck_peerWallet held = Some wallet \<and> ck_peerWalletVerified held then (Inr False, st, d)
       else written persist (put_conversation i (held\<lparr>ck_peerWallet := Some wallet, ck_peerWalletVerified := True,
          ck_peerWalletCandidates := walletList [[Some wallet], [ck_peerWallet held], map Some (ck_peerWalletCandidates held)]\<rparr>) st) d True)"

definition getConversation :: "key_id_like \<Rightarrow> key_id_like \<Rightarrow> conv_store \<Rightarrow> conv_record option res" where
  "getConversation selfKeyId peerKeyId st = andThen (conversationId selfKeyId peerKeyId) (\<lambda>i. Inr (map_of (cs_byConv st) i))"

definition advanceConvScanCursor ::
    "'d persister option \<Rightarrow> key_id_like \<Rightarrow> key_id_like \<Rightarrow> int \<Rightarrow> bool \<Rightarrow> conv_store \<Rightarrow> 'd \<Rightarrow> unit res \<times> conv_store \<times> 'd" where
  "advanceConvScanCursor persist selfKeyId peerKeyId e write st d =
     with_conversation selfKeyId peerKeyId st d () (\<lambda>i r.
       (let generation = generationForEpoch e; stampChanged = ck_lastScannedGeneration r \<noteq> Some generation;
            advanced = (case ck_lastScannedEpoch r of None \<Rightarrow> True | Some held \<Rightarrow> e > held);
            r' = (if advanced then r\<lparr>ck_lastScannedEpoch := Some e\<rparr> else r)\<lparr>ck_lastScannedGeneration := Some generation\<rparr>;
            st' = put_conversation i r' st in
        if \<not> (advanced \<or> stampChanged) then (Inr (), st', d)
        else if write then written persist st' d ()
        else (Inr (), st'\<lparr>cs_heldChanges := cs_heldChanges st' + 1\<rparr>, d)))"

definition flushStore :: "'d persister option \<Rightarrow> conv_store \<Rightarrow> 'd \<Rightarrow> unit res \<times> conv_store \<times> 'd" where
  "flushStore persist st d = (if cs_heldChanges st > cs_writtenChanges st \<or> cs_dirty st then written persist st d () else (Inr (), st, d))"

definition noteConvShardGap ::
    "'d persister option \<Rightarrow> key_id_like \<Rightarrow> key_id_like \<Rightarrow> js_string \<Rightarrow> js_num \<Rightarrow> conv_store \<Rightarrow> 'd \<Rightarrow> unit res \<times> conv_store \<times> 'd" where
  "noteConvShardGap persist selfKeyId peerKeyId address shardFloor st d =
     with_conversation selfKeyId peerKeyId st d () (\<lambda>i r.
       if address = [] \<or> \<not> isSafeInteger shardFloor then (Inr (), st, d)
       else
         (let f = intOf shardFloor in
          case map_of (ck_gapFloors r) address of
            Some held \<Rightarrow> if held \<le> f then (Inr (), st, d)
              else written persist (put_conversation i (r\<lparr>ck_gapFloors := last_n CONV_GAP_FLOORS_MAX (AList.update address f (ck_gapFloors r))\<rparr>) st) d ()
          | None \<Rightarrow> written persist (put_conversation i (r\<lparr>ck_gapFloors := last_n CONV_GAP_FLOORS_MAX (AList.update address f (ck_gapFloors r))\<rparr>) st) d ()))"

definition clearConvShardGap ::
    "'d persister option \<Rightarrow> key_id_like \<Rightarrow> key_id_like \<Rightarrow> js_string \<Rightarrow> conv_store \<Rightarrow> 'd \<Rightarrow> unit res \<times> conv_store \<times> 'd" where
  "clearConvShardGap persist selfKeyId peerKeyId address st d =
     with_conversation selfKeyId peerKeyId st d () (\<lambda>i r.
       if address = [] \<or> map_of (ck_gapFloors r) address = None then (Inr (), st, d)
       else written persist (put_conversation i (r\<lparr>ck_gapFloors := AList.delete address (ck_gapFloors r)\<rparr>) st) d ())"

section \<open>Numbers of outgoing messages\<close>

definition safe_int :: "int \<Rightarrow> bool" where "safe_int n \<longleftrightarrow> \<bar>n\<bar> \<le> MAX_SAFE_INTEGER"

definition seq_exhausted :: js_error where "seq_exhausted = JsError ''cannot accept another message: its sequence is exhausted''"

text \<open>What the call does before it writes: the next number of the day, kept in the record, old days dropped.\<close>

definition reserve_seq :: "conv_record \<Rightarrow> int \<Rightarrow> int \<Rightarrow> (conv_record \<times> int) res" where
  "reserve_seq r e seqFloor =
     (let base = (case map_of (ck_outgoingSeq r) e of Some held \<Rightarrow> max held seqFloor | None \<Rightarrow> seqFloor); next = base + 1 in
      guard (\<not> (\<not> safe_int base \<or> \<not> safe_int next \<or> next \<le> base)) seq_exhausted
        (Inr (r\<lparr>ck_outgoingSeq := filter (\<lambda>(k, _). \<not> k < e - OUTGOING_SEQ_KEEP_EPOCHS) (AList.update e next (ck_outgoingSeq r))\<rparr>, next)))"

text \<open>What it does while writing: past the number another tab has written meanwhile.\<close>

definition claim_seq :: "js_string \<Rightarrow> int \<Rightarrow> int \<Rightarrow> seq_claim" where
  "claim_seq i e reserved merged onDisk =
     (let taken = (case map_of onDisk i of None \<Rightarrow> None | Some r \<Rightarrow> map_of (ck_outgoingSeq r) e);
          claimed = (case taken of Some t \<Rightarrow> if t \<ge> reserved then t + 1 else reserved | None \<Rightarrow> reserved) in
      guard (\<not> \<not> safe_int claimed) seq_exhausted
        (Inr (case map_of merged i of
            None \<Rightarrow> merged
          | Some held \<Rightarrow> AList.update i (held\<lparr>ck_outgoingSeq := AList.update e claimed (ck_outgoingSeq held)\<rparr>) merged, claimed)))"

definition nextOutgoingSeq ::
    "'d persister option \<Rightarrow> key_id_like \<Rightarrow> key_id_like \<Rightarrow> int \<Rightarrow> int option \<Rightarrow> conv_store \<Rightarrow> 'd \<Rightarrow> int res \<times> conv_store \<times> 'd" where
  "nextOutgoingSeq persist selfKeyId peerKeyId e coldFloor st d =
     (case andThen (conversationId selfKeyId peerKeyId) (\<lambda>i.
           case map_of (cs_byConv st) i of
             None \<Rightarrow> Inl (JsError ''nextOutgoingSeq: no K_root for this conversation'')
           | Some r \<Rightarrow> andThen (reserve_seq r e (or_default coldFloor 0)) (\<lambda>reserved. Inr (i, reserved))) of
        Inl err \<Rightarrow> (Inl err, st, d)
      | Inr (i, r, next) \<Rightarrow>
          (case persistAndAdopt persist (claim_seq i e next) (put_conversation i r st) d of
             (Inl err, st', d') \<Rightarrow> (Inl err, st', d')
           | (Inr claimed, st', d') \<Rightarrow> (Inr (or_default claimed next), st', d')))"

section \<open>Importing and loading\<close>

text \<open>One record of an import: taken, left aside, or refused by \<open>toBytes\<close>.\<close>

definition append_retired_all :: "bytes list \<Rightarrow> bytes list res" where
  "append_retired_all nonces = fold (\<lambda>n acc. andThen acc (\<lambda>list. appendRetiredNonce list n)) nonces (Inr [])"

definition import_one :: "js_string \<Rightarrow> conv_record \<Rightarrow> conv_map \<Rightarrow> (conv_map \<times> nat) res" where
  "import_one i incoming byConv =
     (let existing = map_of byConv i in
      andThen (case existing of
          None \<Rightarrow> Inr False
        | Some held \<Rightarrow>
            andThen (store_toBytes (KeyBytes (ck_kRootCurrent incoming)) 32) (\<lambda>incomingRoot.
            andThen (some_bytes 32 incomingRoot (map fst (ck_kRootsForRead held))) (\<lambda>retiredRoot.
            andThen (case ck_retiredIntroNonces held of [] \<Rightarrow> Inr False
              | _ \<Rightarrow> andThen (store_toBytes (KeyBytes (ck_adoptedIntroNonce incoming)) 16) (\<lambda>n. some_bytes 16 n (ck_retiredIntroNonces held))) (\<lambda>retiredNonce.
              Inr (retiredRoot \<or> retiredNonce))))) (\<lambda>skip.
        (let incomingAt = ck_adoptedCreatedAt incoming; existingAt = (case existing of None \<Rightarrow> 0 | Some held \<Rightarrow> ck_adoptedCreatedAt held) in
         if skip then Inr (byConv, 0)
         else if (case existing of None \<Rightarrow> True
           | Some held \<Rightarrow> incomingAt > existingAt
               \<or> incomingAt = existingAt \<and> \<not> lex_le (bytes_hex (ck_kRootCurrent incoming)) (bytes_hex (ck_kRootCurrent held)))
         then andThen (append_retired_all (ck_retiredIntroNonces incoming
                  @ (case existing of None \<Rightarrow> [] | Some held \<Rightarrow> ck_retiredIntroNonces held))) (\<lambda>retired.
           Inr (AList.update i (incoming\<lparr>ck_lastScannedEpoch := None,
               ck_gapFloors := (case existing of None \<Rightarrow> [] | Some held \<Rightarrow> ck_gapFloors held), ck_retiredIntroNonces := retired\<rparr>) byConv, 1))
         else Inr (byConv, 0))))"

text \<open>A record that is refused stops the import; what was taken before it stays in the map, unwritten.\<close>

fun import_all :: "conv_map \<Rightarrow> conv_map \<Rightarrow> nat \<Rightarrow> nat res \<times> conv_map" where
  "import_all [] byConv changed = (Inr changed, byConv)"
| "import_all ((i, incoming) # rest) byConv changed =
     (case import_one i incoming byConv of
        Inl e \<Rightarrow> (Inl e, byConv)
      | Inr (byConv', n) \<Rightarrow> import_all rest byConv' (changed + n))"

definition importConversations :: "'d persister option \<Rightarrow> conv_map \<Rightarrow> conv_store \<Rightarrow> 'd \<Rightarrow> nat res \<times> conv_store \<times> 'd" where
  "importConversations persist incoming st d =
     (case import_all incoming (cs_byConv st) 0 of
        (Inl e, byConv) \<Rightarrow> (Inl e, st\<lparr>cs_byConv := byConv\<rparr>, d)
      | (Inr changed, byConv) \<Rightarrow>
          if changed > 0 then written persist (st\<lparr>cs_byConv := byConv\<rparr>) d changed else (Inr changed, st\<lparr>cs_byConv := byConv\<rparr>, d))"

definition loadStore :: "conv_map option \<Rightarrow> conv_store \<Rightarrow> conv_store" where
  "loadStore next st = (case next of None \<Rightarrow> st | Some m \<Rightarrow> st\<lparr>cs_byConv := m\<rparr>)"

section \<open>The object a map is written as\<close>

record conv_json =
  cj_kRootCurrent :: js_string
  cj_kRootsForRead :: "(js_string \<times> int option) list"
  cj_peerKeyId :: js_string
  cj_peerEncPublicKey :: "js_string option"
  cj_peerWallet :: "js_string option"
  cj_peerWalletCandidates :: "js_string list"
  cj_adoptedCreatedAt :: int
  cj_adoptedIntroNonce :: js_string
  cj_outgoingSeq :: "(int \<times> int) list"
  cj_lastScannedEpoch :: "int option"
  cj_lastScannedGeneration :: "int option"
  cj_gapFloors :: "(js_string \<times> int) list"
  cj_retiredIntroNonces :: "js_string list"

definition gapFloorsOf :: "(js_string \<times> int) list \<Rightarrow> (js_string \<times> int) list" where
  "gapFloorsOf floors = filter (\<lambda>(address, f). address \<noteq> [] \<and> safe_int f) floors"

definition json_of_record :: "conv_record \<Rightarrow> conv_json" where
  "json_of_record r =
     \<lparr>cj_kRootCurrent = base64Encode (ck_kRootCurrent r), cj_kRootsForRead = map (\<lambda>(k, t). (base64Encode k, t)) (ck_kRootsForRead r),
      cj_peerKeyId = base64Encode (ck_peerKeyId r), cj_peerEncPublicKey = map_option base64Encode (ck_peerEncPublicKey r),
      cj_peerWallet = ck_peerWallet r, cj_peerWalletCandidates = ck_peerWalletCandidates r, cj_adoptedCreatedAt = ck_adoptedCreatedAt r,
      cj_adoptedIntroNonce = base64Encode (ck_adoptedIntroNonce r), cj_outgoingSeq = ck_outgoingSeq r,
      cj_lastScannedEpoch = ck_lastScannedEpoch r, cj_lastScannedGeneration = ck_lastScannedGeneration r,
      cj_gapFloors = gapFloorsOf (ck_gapFloors r), cj_retiredIntroNonces = map base64Encode (ck_retiredIntroNonces r)\<rparr>"

definition serializeConvKeyMap :: "conv_map \<Rightarrow> (js_string \<times> conv_json) list" where
  "serializeConvKeyMap m = map (\<lambda>(i, r). (i, json_of_record r)) m"

definition record_of_json :: "conv_json \<Rightarrow> conv_record res" where
  "record_of_json j =
     andThen (base64Decode (cj_kRootCurrent j)) (\<lambda>kRootCurrent.
     andThen (mapRes (\<lambda>(k, t). andThen (base64Decode k) (\<lambda>kRoot. Inr (kRoot, t))) (cj_kRootsForRead j)) (\<lambda>kRootsForRead.
     andThen (base64Decode (cj_peerKeyId j)) (\<lambda>peerKeyId.
     andThen (case cj_peerEncPublicKey j of None \<Rightarrow> Inr None
         | Some s \<Rightarrow> if s = [] then Inr None else andThen (base64Decode s) (\<lambda>pk. Inr (Some pk))) (\<lambda>peerEncPublicKey.
     andThen (base64Decode (cj_adoptedIntroNonce j)) (\<lambda>adoptedIntroNonce.
     andThen (mapRes base64Decode (cj_retiredIntroNonces j)) (\<lambda>retiredIntroNonces.
       Inr \<lparr>ck_kRootCurrent = kRootCurrent, ck_kRootsForRead = kRootsForRead, ck_peerKeyId = peerKeyId,
            ck_peerEncPublicKey = peerEncPublicKey, ck_peerWallet = cj_peerWallet j, ck_peerWalletVerified = False,
            ck_peerWalletCandidates = cj_peerWalletCandidates j, ck_adoptedCreatedAt = cj_adoptedCreatedAt j,
            ck_adoptedIntroNonce = adoptedIntroNonce, ck_outgoingSeq = cj_outgoingSeq j, ck_lastScannedEpoch = cj_lastScannedEpoch j,
            ck_lastScannedGeneration = cj_lastScannedGeneration j, ck_gapFloors = gapFloorsOf (cj_gapFloors j),
            ck_retiredIntroNonces = retiredIntroNonces\<rparr>))))))"

definition deserializeConvKeyMap :: "(js_string \<times> conv_json) list \<Rightarrow> conv_map res" where
  "deserializeConvKeyMap object = mapRes (\<lambda>(i, j). andThen (record_of_json j) (\<lambda>r. Inr (i, r))) object"

section \<open>Merging with another tab\<close>

definition max_of :: "int option \<Rightarrow> int option \<Rightarrow> int option" where
  "max_of a b = (case a of None \<Rightarrow> b | Some x \<Rightarrow> (case b of None \<Rightarrow> a | Some y \<Rightarrow> if x \<ge> y then a else b))"

definition raise_seq :: "int \<times> int \<Rightarrow> (int \<times> int) list \<Rightarrow> (int \<times> int) list" where
  "raise_seq entry acc = (if snd entry > or_default (map_of acc (fst entry)) (-1) then AList.update (fst entry) (snd entry) acc else acc)"

definition merge_seqs :: "(int \<times> int) list \<Rightarrow> (int \<times> int) list \<Rightarrow> (int \<times> int) list" where
  "merge_seqs mine theirs =
     (let raised = fold raise_seq theirs mine;
          days = map fst raised in
      filter (\<lambda>(k, _). \<not> (\<exists>day \<in> set days. k < day - OUTGOING_SEQ_KEEP_EPOCHS)) raised)"

text \<open>\<open>Map\<close>s from hex text to an entry, filled in order and read as a list: the first entry of each key.\<close>

definition first_by :: "('a \<Rightarrow> bytes) \<Rightarrow> 'a list \<Rightarrow> 'a list" where
  "first_by key xs = rev (fold (\<lambda>x acc. if key x \<noteq> [] \<and> key x \<notin> key ` set acc then x # acc else acc) xs [])"

definition merge_floors :: "(js_string \<times> int) list \<Rightarrow> (js_string \<times> int) list \<Rightarrow> (js_string \<times> int) list" where
  "merge_floors mine theirs =
     fold (\<lambda>(address, f) acc. case map_of acc address of
         None \<Rightarrow> AList.update address f acc
       | Some held \<Rightarrow> if f < held then AList.update address f acc else acc) (gapFloorsOf theirs) (gapFloorsOf mine)"

definition merge_record :: "conv_record \<Rightarrow> conv_record \<Rightarrow> conv_record" where
  "merge_record mine theirs =
     (let base = (if ck_adoptedCreatedAt theirs > ck_adoptedCreatedAt mine then theirs else mine);
          epoch = max_of (ck_lastScannedEpoch mine) (ck_lastScannedEpoch theirs);
          generationSource = (if epoch = None then base
            else if ck_lastScannedEpoch theirs \<noteq> None \<and> epoch = ck_lastScannedEpoch theirs then theirs else mine);
          settledBy = (if ck_peerWalletVerified mine then Some mine else if ck_peerWalletVerified theirs then Some theirs else None);
          peerWallet = (case settledBy of Some s \<Rightarrow> ck_peerWallet s
            | None \<Rightarrow> or_else (ck_peerWallet base) (or_else (ck_peerWallet mine) (ck_peerWallet theirs))) in
      base\<lparr>ck_peerWallet := peerWallet, ck_peerWalletVerified := settledBy \<noteq> None,
        ck_peerWalletCandidates := walletList [[peerWallet], map Some (ck_peerWalletCandidates mine), [ck_peerWallet mine],
          map Some (ck_peerWalletCandidates theirs), [ck_peerWallet theirs]],
        ck_lastScannedEpoch := epoch, ck_lastScannedGeneration := ck_lastScannedGeneration generationSource,
        ck_outgoingSeq := merge_seqs (ck_outgoingSeq mine) (ck_outgoingSeq theirs),
        ck_kRootsForRead := first_by fst (ck_kRootsForRead mine @ ck_kRootsForRead theirs),
        ck_gapFloors := merge_floors (ck_gapFloors mine) (ck_gapFloors theirs),
        ck_retiredIntroNonces := last_n 16 (first_by (\<lambda>n. n) (ck_retiredIntroNonces mine @ ck_retiredIntroNonces theirs))\<rparr>)"

definition mergeConvKeyMaps :: "conv_map \<Rightarrow> conv_map \<Rightarrow> conv_map" where
  "mergeConvKeyMaps theirs mine =
     fold (\<lambda>(i, their) merged. case map_of merged i of
         None \<Rightarrow> AList.update i their merged
       | Some my \<Rightarrow> AList.update i (merge_record my their) merged) theirs mine"

section \<open>One write of the sealed store\<close>

type_synonym conv_disk = "(js_string \<times> conv_json) list option"

definition openConvKeyMap :: "conv_disk \<Rightarrow> conv_map res" where
  "openConvKeyMap d = (case d of None \<Rightarrow> Inr [] | Some object \<Rightarrow> deserializeConvKeyMap object)"

definition sealed_persist :: "conv_disk persister" where
  "sealed_persist claim byConv d =
     (case andThen (openConvKeyMap d) (\<lambda>onDisk. claim (mergeConvKeyMaps onDisk byConv) onDisk) of
        Inl e \<Rightarrow> (Inl e, d)
      | Inr (merged, n) \<Rightarrow> (Inr (merged, n), Some (serializeConvKeyMap merged)))"

definition createSealedConvKeyStore :: "conv_disk \<Rightarrow> conv_store res" where
  "createSealedConvKeyStore d =
     andThen (openConvKeyMap d) (\<lambda>m. Inr (loadStore (Some m) \<lparr>cs_byConv = [], cs_heldChanges = 0, cs_writtenChanges = 0, cs_dirty = False\<rparr>))"

section \<open>What is written is read back\<close>

text \<open>A record comes back without its wallet's verification, which is not written.\<close>

definition reread :: "conv_record \<Rightarrow> conv_record" where
  "reread r = r\<lparr>ck_peerEncPublicKey := (if ck_peerEncPublicKey r = Some [] then None else ck_peerEncPublicKey r),
     ck_peerWalletVerified := False, ck_gapFloors := gapFloorsOf (ck_gapFloors r)\<rparr>"

lemma base64Encode_nil: "base64Encode bs = [] \<longleftrightarrow> bs = []"
proof -
  have e: "base64Encode [] = []" by (simp add: base64Encode_def sextets_def)
  show ?thesis
  proof
    assume b: "base64Encode bs = []"
    have "base64Decode (base64Encode bs) = base64Decode (base64Encode [])" by (simp only: b e)
    then show "bs = []" by simp
  qed (simp add: e)
qed

lemma record_reread: "record_of_json (json_of_record r) = Inr (reread r)"
proof -
  have r: "mapRes (\<lambda>(k, t). andThen (base64Decode k) (\<lambda>kRoot. Inr (kRoot, t))) (map (\<lambda>(k, t). (base64Encode k, t)) xs) = Inr xs" for xs :: "(bytes \<times> int option) list"
    by (induction xs) auto
  have n: "mapRes base64Decode (map base64Encode xs) = Inr xs" for xs by (induction xs) auto
  have g: "gapFloorsOf (gapFloorsOf xs) = gapFloorsOf xs" for xs by (simp add: gapFloorsOf_def)
  show ?thesis
    by (cases "ck_peerEncPublicKey r")
      (auto simp: record_of_json_def json_of_record_def r n g reread_def base64Encode_nil)
qed

lemma conv_map_reread: "deserializeConvKeyMap (serializeConvKeyMap m) = Inr (map (\<lambda>(i, r). (i, reread r)) m)"
  unfolding deserializeConvKeyMap_def serializeConvKeyMap_def by (induction m) (auto simp: record_reread)

section \<open>No number twice\<close>

text \<open>Number \<open>n\<close> of day \<open>e\<close> or a later one is kept for the conversation.\<close>

definition seq_kept :: "conv_map \<Rightarrow> js_string \<Rightarrow> int \<Rightarrow> int \<Rightarrow> bool" where
  "seq_kept m i e n \<longleftrightarrow> (\<exists>r v. map_of m i = Some r \<and> map_of (ck_outgoingSeq r) e = Some v \<and> n \<le> v)"

definition days_until :: "int \<Rightarrow> conv_map \<Rightarrow> bool" where
  "days_until L m \<longleftrightarrow> (\<forall>(i, r) \<in> set m. \<forall>k \<in> fst ` set (ck_outgoingSeq r). k \<le> L)"

lemma set_alist_update: "set (AList.update k v al) \<subseteq> insert (k, v) (set al)"
  by (induction al) auto

lemma days_until_update: "days_until L m \<Longrightarrow> (\<And>k. k \<in> fst ` set (ck_outgoingSeq r) \<Longrightarrow> k \<le> L) \<Longrightarrow> days_until L (AList.update i r m)"
  using set_alist_update [of i r m] unfolding days_until_def by fast

lemma days_until_Cons [simp]: "days_until L (x # m) \<longleftrightarrow> (\<forall>k \<in> fst ` set (ck_outgoingSeq (snd x)). k \<le> L) \<and> days_until L m"
  by (simp add: days_until_def case_prod_beta)

lemma days_until_get: "days_until L m \<Longrightarrow> map_of m i = Some r \<Longrightarrow> k \<in> fst ` set (ck_outgoingSeq r) \<Longrightarrow> k \<le> L"
  unfolding days_until_def by (auto dest!: map_of_SomeD)

lemma raise_keys: "fst ` set (raise_seq x acc) \<subseteq> insert (fst x) (fst ` set acc)"
  by (auto simp: raise_seq_def dom_update)

lemma raise_keeps: "map_of acc e = Some v \<Longrightarrow> \<exists>v'. map_of (raise_seq x acc) e = Some v' \<and> v \<le> v'"
  by (auto simp: raise_seq_def update_conv or_default_def)

lemma raise_takes: "0 \<le> v \<Longrightarrow> \<exists>v'. map_of (raise_seq (e, v) acc) e = Some v' \<and> v \<le> v'"
  by (cases "map_of acc e") (auto simp: raise_seq_def update_conv or_default_def)

lemma raised_keys: "fst ` set (fold raise_seq theirs mine) \<subseteq> fst ` set mine \<union> fst ` set theirs"
proof (induction theirs arbitrary: mine)
  case (Cons x xs)
  show ?case using subset_trans [OF Cons.IH Un_mono [OF raise_keys subset_refl], of x mine] by auto
qed simp

lemma raised_keeps: "map_of mine e = Some v \<Longrightarrow> \<exists>v'. map_of (fold raise_seq theirs mine) e = Some v' \<and> v \<le> v'"
proof (induction theirs arbitrary: mine v)
  case (Cons x xs)
  obtain w where "map_of (raise_seq x mine) e = Some w" "v \<le> w" using raise_keeps [OF Cons.prems] by blast
  with Cons.IH [OF this(1)] show ?case by auto
qed simp

lemma raised_takes: "(e, v) \<in> set theirs \<Longrightarrow> 0 \<le> v \<Longrightarrow> \<exists>v'. map_of (fold raise_seq theirs mine) e = Some v' \<and> v \<le> v'"
proof (induction theirs arbitrary: mine)
  case (Cons x xs)
  show ?case
  proof (cases "x = (e, v)")
    case True
    obtain w where w: "map_of (raise_seq (e, v) mine) e = Some w" "v \<le> w" using raise_takes [OF Cons.prems(2)] by blast
    obtain v' where "map_of (fold raise_seq xs (raise_seq (e, v) mine)) e = Some v'" "w \<le> v'" using raised_keeps [OF w(1)] by blast
    then show ?thesis using w(2) True by auto
  next
    case False
    then show ?thesis using Cons.prems Cons.IH [of "raise_seq x mine"] by simp
  qed
qed simp

lemma merge_keys: "fst ` set (merge_seqs mine theirs) \<subseteq> fst ` set mine \<union> fst ` set theirs"
proof -
  have "set (merge_seqs mine theirs) \<subseteq> set (fold raise_seq theirs mine)" by (auto simp: merge_seqs_def Let_def)
  then show ?thesis using raised_keys [of theirs mine] by blast
qed

lemma map_of_filter_key: "P e \<Longrightarrow> map_of (filter (\<lambda>(k, _). P k) xs) e = map_of xs e"
  by (induction xs) auto

lemma merge_seqs_keeps:
  assumes "map_of mine e = Some v \<or> map_of theirs e = Some v" "0 \<le> v"
    and "\<And>k. k \<in> fst ` set mine \<union> fst ` set theirs \<Longrightarrow> k \<le> e + 7"
  shows "\<exists>v'. map_of (merge_seqs mine theirs) e = Some v' \<and> v \<le> v'"
proof -
  define raised where "raised = fold raise_seq theirs mine"
  obtain v' where v': "map_of raised e = Some v'" "v \<le> v'"
    using raised_keeps [of mine e v theirs] raised_takes [OF map_of_SomeD assms(2), of theirs e mine] assms(1) unfolding raised_def by blast
  have "\<not> (\<exists>day \<in> set (map fst raised). e < day - OUTGOING_SEQ_KEEP_EPOCHS)"
    using raised_keys [of theirs mine] assms(3) unfolding raised_def OUTGOING_SEQ_KEEP_EPOCHS_def by force
  from map_of_filter_key [of "\<lambda>k. \<not> (\<exists>day \<in> set (map fst raised). k < day - OUTGOING_SEQ_KEEP_EPOCHS)", OF this, of raised] v'
  show ?thesis unfolding merge_seqs_def raised_def [symmetric] Let_def by simp
qed

text \<open>The merge keeps what either side has.\<close>

lemma merge_record_seq [simp]: "ck_outgoingSeq (merge_record mine theirs) = merge_seqs (ck_outgoingSeq mine) (ck_outgoingSeq theirs)"
  by (simp add: merge_record_def Let_def)

definition merge_one :: "js_string \<times> conv_record \<Rightarrow> conv_map \<Rightarrow> conv_map" where
  "merge_one x merged = (case map_of merged (fst x) of None \<Rightarrow> AList.update (fst x) (snd x) merged
     | Some my \<Rightarrow> AList.update (fst x) (merge_record my (snd x)) merged)"

lemma merge_as_fold: "mergeConvKeyMaps theirs mine = fold merge_one theirs mine"
  unfolding mergeConvKeyMaps_def by (rule fold_cong) (auto simp: merge_one_def fun_eq_iff split: option.split)

lemma merge_one_days:
  assumes "days_until L m" "\<And>k. k \<in> fst ` set (ck_outgoingSeq (snd x)) \<Longrightarrow> k \<le> L"
  shows "days_until L (merge_one x m)"
proof (cases "map_of m (fst x)")
  case (Some my)
  have "k \<le> L" if "k \<in> fst ` set (merge_seqs (ck_outgoingSeq my) (ck_outgoingSeq (snd x)))" for k
    using subsetD [OF merge_keys that] days_until_get [OF assms(1) Some] assms(2) by blast
  then show ?thesis using days_until_update [OF assms(1), of "merge_record my (snd x)"] by (simp add: merge_one_def Some)
qed (use days_until_update [OF assms(1), of "snd x"] assms(2) in \<open>simp add: merge_one_def\<close>)

lemma merge_one_keeps:
  assumes "days_until (e + 7) m" "\<And>k. k \<in> fst ` set (ck_outgoingSeq (snd x)) \<Longrightarrow> k \<le> e + 7" "0 \<le> n"
    and "seq_kept m i e n \<or> fst x = i \<and> (\<exists>v. map_of (ck_outgoingSeq (snd x)) e = Some v \<and> n \<le> v)"
  shows "seq_kept (merge_one x m) i e n"
proof (cases "fst x = i")
  case i: True
  show ?thesis
  proof (cases "map_of m i")
    case None
    then show ?thesis using assms(4) i by (auto simp: seq_kept_def merge_one_def update_conv)
  next
    case (Some my)
    obtain v where v: "map_of (ck_outgoingSeq my) e = Some v \<or> map_of (ck_outgoingSeq (snd x)) e = Some v" "n \<le> v"
      using assms(4) Some by (auto simp: seq_kept_def)
    have "k \<le> e + 7" if "k \<in> fst ` set (ck_outgoingSeq my) \<union> fst ` set (ck_outgoingSeq (snd x))" for k
      using that days_until_get [OF assms(1) Some] assms(2) by blast
    from merge_seqs_keeps [OF v(1) _ this] v(2) assms(3) show ?thesis using i Some by (auto simp: seq_kept_def merge_one_def update_conv)
  qed
next
  case False
  then show ?thesis using assms(4) by (auto simp: seq_kept_def merge_one_def update_conv split: option.splits)
qed

lemma merge_days: "days_until L theirs \<Longrightarrow> days_until L mine \<Longrightarrow> days_until L (mergeConvKeyMaps theirs mine)"
  unfolding merge_as_fold
proof (induction theirs arbitrary: mine)
  case (Cons x xs)
  have "days_until L (merge_one x mine)" by (rule merge_one_days) (use Cons.prems in auto)
  with Cons show ?case by simp
qed simp

lemma merge_keeps:
  assumes "days_until (e + 7) theirs" "days_until (e + 7) mine" "0 \<le> n" "seq_kept mine i e n \<or> seq_kept theirs i e n"
  shows "seq_kept (mergeConvKeyMaps theirs mine) i e n"
  using assms unfolding merge_as_fold
proof (induction theirs arbitrary: mine)
  case Nil
  then show ?case by (simp add: seq_kept_def)
next
  case (Cons x xs)
  have x: "\<And>k. k \<in> fst ` set (ck_outgoingSeq (snd x)) \<Longrightarrow> k \<le> e + 7" "days_until (e + 7) xs"
    using Cons.prems(1) by auto
  have d: "days_until (e + 7) (merge_one x mine)" by (rule merge_one_days [OF Cons.prems(2) x(1)])
  have "seq_kept mine i e n \<or> fst x = i \<and> (\<exists>v. map_of (ck_outgoingSeq (snd x)) e = Some v \<and> n \<le> v) \<or> seq_kept xs i e n"
    using Cons.prems(4) by (cases x) (auto simp: seq_kept_def split: if_splits)
  then have "seq_kept (merge_one x mine) i e n \<or> seq_kept xs i e n"
    using merge_one_keeps [OF Cons.prems(2) x(1) Cons.prems(3), where i = i] by blast
  then show ?case using Cons.IH [OF x(2) d Cons.prems(3)] by simp
qed

lemma merge_has: "map_of mine i \<noteq> None \<Longrightarrow> map_of (mergeConvKeyMaps theirs mine) i \<noteq> None"
  unfolding merge_as_fold
proof (induction theirs arbitrary: mine)
  case (Cons x xs)
  have "map_of (merge_one x mine) i \<noteq> None" using Cons.prems by (auto simp: merge_one_def update_conv split: option.splits)
  with Cons.IH show ?case by simp
qed simp

section \<open>Writes in any order\<close>

text \<open>
  A store that hands out numbers: what it has recorded it keeps, and a number it hands out is above
  everything recorded and is recorded itself.
\<close>

fun grants :: "('tx \<Rightarrow> 'd \<Rightarrow> int option \<times> 'd) \<Rightarrow> 'd \<Rightarrow> 'tx list \<Rightarrow> int list" where
  "grants run d [] = []"
| "grants run d (tx # txs) =
     (case run tx d of (None, d') \<Rightarrow> grants run d' txs | (Some n, d') \<Rightarrow> n # grants run d' txs)"

locale number_store =
  fixes run :: "'tx \<Rightarrow> 'd \<Rightarrow> int option \<times> 'd"
    and recorded :: "'d \<Rightarrow> int \<Rightarrow> bool"
    and inv :: "'d \<Rightarrow> bool"
    and ok :: "'tx \<Rightarrow> bool"
  assumes stays: "inv d \<Longrightarrow> ok tx \<Longrightarrow> inv (snd (run tx d))"
    and keeps: "inv d \<Longrightarrow> ok tx \<Longrightarrow> recorded d n \<Longrightarrow> 0 \<le> n \<Longrightarrow> recorded (snd (run tx d)) n"
    and above: "inv d \<Longrightarrow> ok tx \<Longrightarrow> fst (run tx d) = Some n \<Longrightarrow> recorded d k \<Longrightarrow> k < n"
    and records: "inv d \<Longrightarrow> ok tx \<Longrightarrow> fst (run tx d) = Some n \<Longrightarrow> 0 \<le> n \<and> recorded (snd (run tx d)) n"
begin

lemma grants_above:
  "inv d \<Longrightarrow> \<forall>tx \<in> set txs. ok tx \<Longrightarrow> recorded d k \<Longrightarrow> 0 \<le> k \<Longrightarrow> n \<in> set (grants run d txs) \<Longrightarrow> k < n"
proof (induction txs arbitrary: d)
  case (Cons tx txs)
  note s = stays [OF Cons.prems(1), of tx] keeps [OF Cons.prems(1) _ Cons.prems(3,4), of tx] above [OF Cons.prems(1) _ _ Cons.prems(3), of tx]
  show ?case
  proof (cases "run tx d")
    case (Pair g d')
    then show ?thesis using s Cons.prems(2,4,5) Cons.IH [of d'] by (cases g) auto
  qed
qed simp

lemma grants_increase: "inv d \<Longrightarrow> \<forall>tx \<in> set txs. ok tx \<Longrightarrow> sorted_wrt (<) (grants run d txs)"
proof (induction txs arbitrary: d)
  case (Cons tx txs)
  note s = stays [OF Cons.prems(1), of tx] records [OF Cons.prems(1), of tx]
  show ?case
  proof (cases "run tx d")
    case (Pair g d')
    then show ?thesis using s Cons.prems(2) Cons.IH [of d'] grants_above [of d' txs] by (cases g) auto
  qed
qed simp

end

text \<open>
  A write of one tab: the map the tab has at that moment, whatever it is, with or without a number claimed
  for a conversation and a day. \<open>write_for i e\<close> gives the number when it is one of this conversation and day.
\<close>

datatype conv_write = PlainWrite conv_map | ClaimWrite conv_map js_string int int

definition write_sealed :: "conv_write \<Rightarrow> conv_disk \<Rightarrow> (js_string \<times> int \<times> int) option \<times> conv_disk" where
  "write_sealed w d =
     (case w of
        PlainWrite m \<Rightarrow> (None, snd (sealed_persist no_claim m d))
      | ClaimWrite m i e reserved \<Rightarrow>
          (case sealed_persist (claim_seq i e reserved) m d of (Inl _, d') \<Rightarrow> (None, d') | (Inr (_, n), d') \<Rightarrow> (Some (i, e, n), d')))"

definition write_for :: "js_string \<Rightarrow> int \<Rightarrow> conv_write \<Rightarrow> conv_disk \<Rightarrow> int option \<times> conv_disk" where
  "write_for i e w d =
     (case write_sealed w d of (g, d') \<Rightarrow> (case g of Some (i', e', n) \<Rightarrow> if i' = i \<and> e' = e then Some n else None | None \<Rightarrow> None, d'))"

text \<open>No day after \<open>L\<close> occurs; a claim is made for a conversation the tab holds.\<close>

definition conv_write_ok :: "int \<Rightarrow> conv_write \<Rightarrow> bool" where
  "conv_write_ok L w \<longleftrightarrow>
     (case w of PlainWrite m \<Rightarrow> days_until L m
      | ClaimWrite m i e reserved \<Rightarrow> days_until L m \<and> map_of m i \<noteq> None \<and> 0 \<le> reserved \<and> e \<le> L)"

definition disk_ok :: "int \<Rightarrow> conv_disk \<Rightarrow> bool" where
  "disk_ok L d \<longleftrightarrow> (\<exists>m. openConvKeyMap d = Inr m \<and> days_until L m)"

definition disk_kept :: "js_string \<Rightarrow> int \<Rightarrow> conv_disk \<Rightarrow> int \<Rightarrow> bool" where
  "disk_kept i e d n \<longleftrightarrow> (\<exists>m. openConvKeyMap d = Inr m \<and> seq_kept m i e n)"

lemma reread_seq [simp]: "ck_outgoingSeq (reread r) = ck_outgoingSeq r"
  by (simp add: reread_def)

lemma disk_written:
  "disk_ok L (Some (serializeConvKeyMap m)) \<longleftrightarrow> days_until L m" "disk_kept i e (Some (serializeConvKeyMap m)) n \<longleftrightarrow> seq_kept m i e n"
proof -
  have "days_until L (map (\<lambda>(i, r). (i, reread r)) m) \<longleftrightarrow> days_until L m" by (induction m) (auto simp: days_until_def)
  then show "disk_ok L (Some (serializeConvKeyMap m)) \<longleftrightarrow> days_until L m" by (simp add: disk_ok_def openConvKeyMap_def conv_map_reread)
  have "map_of (map (\<lambda>(i, r). (i, reread r)) m) i = map_option reread (map_of m i)" by (induction m) auto
  then show "disk_kept i e (Some (serializeConvKeyMap m)) n \<longleftrightarrow> seq_kept m i e n"
    by (auto simp: disk_kept_def openConvKeyMap_def conv_map_reread seq_kept_def)
qed

text \<open>What a claim makes of the merged map.\<close>

lemma claim_Inr:
  assumes "claim_seq i e reserved merged onDisk = Inr (m', n)" "map_of merged i \<noteq> None"
  shows "reserved \<le> n" "\<And>k. seq_kept onDisk i e k \<Longrightarrow> k < n" "seq_kept m' i e n"
    "\<And>i' e' k. seq_kept merged i' e' k \<Longrightarrow> (i' = i \<Longrightarrow> e' = e \<Longrightarrow> k < n) \<Longrightarrow> seq_kept m' i' e' k"
    "\<And>L. days_until L merged \<Longrightarrow> e \<le> L \<Longrightarrow> days_until L m'"
proof -
  obtain held where h: "map_of merged i = Some held" using assms(2) by blast
  define taken where "taken = (case map_of onDisk i of None \<Rightarrow> None | Some r \<Rightarrow> map_of (ck_outgoingSeq r) e)"
  have n: "n = (case taken of Some t \<Rightarrow> if t \<ge> reserved then t + 1 else reserved | None \<Rightarrow> reserved)"
    and m: "m' = AList.update i (held\<lparr>ck_outgoingSeq := AList.update e n (ck_outgoingSeq held)\<rparr>) merged"
    using assms(1) by (auto simp: claim_seq_def Let_def res_simps h taken_def)
  show "reserved \<le> n" by (auto simp: n split: option.splits)
  show "k < n" if "seq_kept onDisk i e k" for k using that by (auto simp: n taken_def seq_kept_def)
  show "seq_kept m' i e n" by (simp add: m seq_kept_def update_conv)
  show "seq_kept m' i' e' k" if "seq_kept merged i' e' k" "i' = i \<Longrightarrow> e' = e \<Longrightarrow> k < n" for i' e' k
    using that h by (auto simp: m seq_kept_def update_conv)
  show "days_until L m'" if "days_until L merged" "e \<le> L" for L
    unfolding m by (rule days_until_update [OF that(1)]) (use days_until_get [OF that(1) h] that(2) in \<open>auto simp: dom_update\<close>)
qed

text \<open>The sealed store is such a store, for every conversation and every day of the last week.\<close>

lemma write_outcome:
  assumes "disk_ok L d" "conv_write_ok L w" "L \<le> e + 7"
  shows "disk_ok L (snd (write_for i e w d))"
    "\<And>n. disk_kept i e d n \<Longrightarrow> 0 \<le> n \<Longrightarrow> disk_kept i e (snd (write_for i e w d)) n"
    "\<And>n. fst (write_for i e w d) = Some n \<Longrightarrow> 0 \<le> n \<and> disk_kept i e (snd (write_for i e w d)) n"
    "\<And>n k. fst (write_for i e w d) = Some n \<Longrightarrow> disk_kept i e d k \<Longrightarrow> k < n"
proof -
  obtain onDisk where o: "openConvKeyMap d = Inr onDisk" "days_until L onDisk" using assms(1) by (auto simp: disk_ok_def)
  have up: "days_until L m \<Longrightarrow> days_until (e + 7) m" for m using assms(3) unfolding days_until_def by fastforce
  have kept: "disk_kept i e d n \<longleftrightarrow> seq_kept onDisk i e n" for n by (simp add: disk_kept_def o(1))
  have "disk_ok L (snd (write_for i e w d)) \<and> (\<forall>n. disk_kept i e d n \<and> 0 \<le> n \<longrightarrow> disk_kept i e (snd (write_for i e w d)) n)
    \<and> (\<forall>n. fst (write_for i e w d) = Some n \<longrightarrow> 0 \<le> n \<and> disk_kept i e (snd (write_for i e w d)) n \<and> (\<forall>k. disk_kept i e d k \<longrightarrow> k < n))"
  proof (cases w)
    case (PlainWrite m)
    have m: "days_until L m" using assms(2) PlainWrite by (simp add: conv_write_ok_def)
    have "snd (write_for i e w d) = Some (serializeConvKeyMap (mergeConvKeyMaps onDisk m))" "fst (write_for i e w d) = None"
      by (simp_all add: PlainWrite write_for_def write_sealed_def sealed_persist_def o(1) no_claim_def)
    then show ?thesis using merge_days [OF o(2) m] merge_keeps [OF up [OF o(2)] up [OF m]] by (simp add: disk_written kept)
  next
    case (ClaimWrite m j f reserved)
    have m: "days_until L m" "map_of m j \<noteq> None" "0 \<le> reserved" "f \<le> L" using assms(2) ClaimWrite by (simp_all add: conv_write_ok_def)
    show ?thesis
    proof (cases "claim_seq j f reserved (mergeConvKeyMaps onDisk m) onDisk")
      case (Inl err)
      then have "write_for i e w d = (None, d)" by (simp add: ClaimWrite write_for_def write_sealed_def sealed_persist_def o(1))
      then show ?thesis using assms(1) by simp
    next
      case (Inr c)
      obtain m' n where c: "c = (m', n)" by (rule prod.exhaust)
      note x = claim_Inr [OF Inr [unfolded c] merge_has [OF m(2)]]
      have s: "snd (write_for i e w d) = Some (serializeConvKeyMap m')" "fst (write_for i e w d) = (if j = i \<and> f = e then Some n else None)"
        using Inr by (simp_all add: c ClaimWrite write_for_def write_sealed_def sealed_persist_def o(1))
      have keep: "seq_kept m' i e k" if "seq_kept onDisk i e k" "0 \<le> k" for k
        using x(4) [OF merge_keeps [OF up [OF o(2)] up [OF m(1)] that(2)], of i] x(2) that(1) by blast
      show ?thesis using x(1-3) keep x(5) [OF merge_days [OF o(2) m(1)] m(4)] m(3) by (auto simp: s disk_written kept)
    qed
  qed
  then show "disk_ok L (snd (write_for i e w d))"
    "\<And>n. disk_kept i e d n \<Longrightarrow> 0 \<le> n \<Longrightarrow> disk_kept i e (snd (write_for i e w d)) n"
    "\<And>n. fst (write_for i e w d) = Some n \<Longrightarrow> 0 \<le> n \<and> disk_kept i e (snd (write_for i e w d)) n"
    "\<And>n k. fst (write_for i e w d) = Some n \<Longrightarrow> disk_kept i e d k \<Longrightarrow> k < n" by blast+
qed

interpretation sealed_disk: number_store "write_for i e" "disk_kept i e" "disk_ok L" "\<lambda>w. conv_write_ok L w \<and> L \<le> e + 7" for i e L
  by unfold_locales
    (erule conjE, (rule write_outcome(1) | rule write_outcome(2) | rule write_outcome(4) | rule write_outcome(3)); assumption)+

text \<open>What \<open>nextOutgoingSeq\<close> answers on the sealed store is the number of such a write.\<close>

lemma nextOutgoingSeq_claims:
  assumes "nextOutgoingSeq (Some sealed_persist) selfKeyId peerKeyId e coldFloor st d = (Inr n, st', d')"
  shows "\<exists>i m reserved. conversationId selfKeyId peerKeyId = Inr i \<and> map_of m i \<noteq> None \<and> write_sealed (ClaimWrite m i e reserved) d = (Some (i, e, n), d')"
proof -
  obtain i r r' reserved where x: "conversationId selfKeyId peerKeyId = Inr i" "reserve_seq r e (or_default coldFloor 0) = Inr (r', reserved)"
      "persistAndAdopt (Some sealed_persist) (claim_seq i e reserved) (put_conversation i r' st) d = (Inr (Some n), st', d')"
    using assms
    by (auto simp: nextOutgoingSeq_def persistAndAdopt_def res_simps or_default_def split: sum.splits option.splits prod.splits)
  have "map_of (cs_byConv (put_conversation i r' st)) i \<noteq> None" by (simp add: put_conversation_def update_conv)
  moreover have "write_sealed (ClaimWrite (cs_byConv (put_conversation i r' st)) i e reserved) d = (Some (i, e, n), d')"
    using x(3) by (auto simp: write_sealed_def persistAndAdopt_def split: sum.splits prod.splits)
  ultimately show ?thesis using x(1) by blast
qed

text \<open>
  C3: No two messages of a conversation's day get the same number. Whatever the tabs of a browser hold, and in
  whatever order their writes reach the disk, plain or claiming, stale or not, the numbers claimed for one
  conversation and day strictly increase, as long as no day more than a week later has come up, after which
  the store drops the day; and the number \<open>nextOutgoingSeq\<close> answers is always one claimed by its own write.
\<close>

theorem numbers_once:
  assumes "disk_ok L d" "\<forall>w \<in> set writes. conv_write_ok L w" "L \<le> e + 7"
  shows "sorted_wrt (<) (grants (write_for i e) d writes)
    \<and> (\<forall>coldFloor st n st' d'. nextOutgoingSeq (Some sealed_persist) selfKeyId peerKeyId e coldFloor st d = (Inr n, st', d') \<longrightarrow>
        (\<exists>j m reserved. conversationId selfKeyId peerKeyId = Inr j \<and> map_of m j \<noteq> None
          \<and> write_sealed (ClaimWrite m j e reserved) d = (Some (j, e, n), d')))"
proof -
  have "sorted_wrt (<) (grants (write_for i e) d writes)"
    by (rule sealed_disk.grants_increase [OF assms(1)]) (use assms(2,3) in simp)
  then show ?thesis using nextOutgoingSeq_claims by blast
qed

definition sample_conv_record :: conv_record where
  "sample_conv_record = \<lparr>ck_kRootCurrent = replicate 32 1, ck_kRootsForRead = [], ck_peerKeyId = replicate 32 2, ck_peerEncPublicKey = None,
     ck_peerWallet = None, ck_peerWalletVerified = False, ck_peerWalletCandidates = [], ck_adoptedCreatedAt = 5,
     ck_adoptedIntroNonce = replicate 16 3, ck_outgoingSeq = [], ck_lastScannedEpoch = None, ck_lastScannedGeneration = None,
     ck_gapFloors = [], ck_retiredIntroNonces = []\<rparr>"

text \<open>Two tabs that claim from the same stale map, and a third write between them.\<close>

theorem numbers_once_witness:
  "grants (write_for [1] 100) None
      [ClaimWrite [([1], sample_conv_record)] [1] 100 1, PlainWrite [([1], sample_conv_record)], ClaimWrite [([1], sample_conv_record)] [1] 100 1] = [1, 2]
    \<and> sorted_wrt (<) (grants (write_for [1] 100) None
      [ClaimWrite [([1], sample_conv_record)] [1] 100 1, PlainWrite [([1], sample_conv_record)], ClaimWrite [([1], sample_conv_record)] [1] 100 1])"
    (is "?g = _ \<and> _")
proof -
  let ?ws = "[ClaimWrite [([1], sample_conv_record)] [1] 100 1, PlainWrite [([1], sample_conv_record)], ClaimWrite [([1], sample_conv_record)] [1] 100 1]"
  have s: "ck_outgoingSeq sample_conv_record = []" by (simp add: sample_conv_record_def)
  have "?g = [1, 2]"
    by (simp add: write_for_def write_sealed_def sealed_persist_def openConvKeyMap_def conv_map_reread merge_as_fold merge_one_def claim_seq_def s
        no_claim_def safe_int_def MAX_SAFE_INTEGER_def merge_seqs_def raise_seq_def OUTGOING_SEQ_KEEP_EPOCHS_def or_default_def Let_def)
  moreover have d: "disk_ok 100 None" by (simp add: disk_ok_def openConvKeyMap_def days_until_def)
  have w: "\<forall>w \<in> set ?ws. conv_write_ok 100 w" by (simp add: conv_write_ok_def s) (simp add: days_until_def)
  ultimately show ?thesis using numbers_once [OF d w] by simp
qed

end
