(* ===== verification/Group_Lane.thy ===== *)
theory Group_Lane
  imports Crypto_Primitives
begin

text \<open>
  The keys of a private group (\<open>web/crypto/group-lane.mjs\<close>): its founding, a new generation after a
  removal, the ratchet that moves the shared key forward day by day, and what is derived from it: the key of
  the content, of the roster and of the picture, and the lane key of each member, the member's own key shifted
  by a blind that only members can compute. The Ed25519 group is the parameter \<open>curve\<close>, a record of the
  functions of the vendored noble-curves the code calls; points are its type variable.
\<close>

section \<open>The curve\<close>

text \<open>The order of the base point, \<open>ed25519.Point.Fn.ORDER\<close>.\<close>

definition curve_order :: nat where
  "curve_order = 7237005577332262213973186563042994240857116359379907606001950938285454250989"

text \<open>\<open>c_base n\<close> is \<open>Point.BASE\<close> times \<open>n\<close>; scalar and prefix are what \<open>getExtendedPublicKey\<close> makes of a seed.\<close>

record 'p curve =
  c_base :: "nat \<Rightarrow> 'p"
  c_add :: "'p \<Rightarrow> 'p \<Rightarrow> 'p"
  c_times :: "nat \<Rightarrow> 'p \<Rightarrow> 'p"
  c_toBytes :: "'p \<Rightarrow> bytes"
  c_fromBytes :: "bytes \<Rightarrow> 'p option"
  c_scalar :: "bytes \<Rightarrow> nat"
  c_prefix :: "bytes \<Rightarrow> bytes"
  c_sha512 :: "bytes \<Rightarrow> bytes"

definition multiplyBase :: "'p curve \<Rightarrow> nat \<Rightarrow> 'p res" where
  "multiplyBase C n = guard (1 \<le> n \<and> n < curve_order) (RangeError ''invalid scalar'') (Inr (c_base C n))"

definition pointFromBytes :: "'p curve \<Rightarrow> bytes \<Rightarrow> 'p res" where
  "pointFromBytes C bs = (case c_fromBytes C bs of Some p \<Rightarrow> Inr p | None \<Rightarrow> Inl (JsError ''bad point''))"

fun scalarToBytesLE_n :: "nat \<Rightarrow> nat \<Rightarrow> bytes" where
  "scalarToBytesLE_n 0 x = []"
| "scalarToBytesLE_n (Suc n) x = word_of_nat x # scalarToBytesLE_n n (x div 256)"

definition scalarToBytesLE :: "nat \<Rightarrow> bytes" where
  "scalarToBytesLE scalar = scalarToBytesLE_n 32 scalar"

fun bytesLEToScalar :: "bytes \<Rightarrow> nat" where
  "bytesLEToScalar [] = 0"
| "bytesLEToScalar (b # bs) = bytesLEToScalar bs * 256 + unat b"

lemma length_scalarToBytesLE [simp]: "length (scalarToBytesLE s) = 32"
proof -
  have "length (scalarToBytesLE_n n x) = n" for n x by (induction n arbitrary: x) auto
  then show ?thesis by (simp add: scalarToBytesLE_def)
qed

lemma scalar_bytes: "s < curve_order \<Longrightarrow> bytesLEToScalar (scalarToBytesLE s) = s"
proof -
  have loop: "x < 256 ^ n \<Longrightarrow> bytesLEToScalar (scalarToBytesLE_n n x) = x" for n x
  proof (induction n arbitrary: x)
    case (Suc n)
    then have "x div 256 < 256 ^ n" by (simp add: less_mult_imp_div_less mult.commute)
    from Suc.IH [OF this] show ?case by (simp add: byte_simps)
  qed simp
  assume "s < curve_order"
  then show ?thesis unfolding scalarToBytesLE_def by (intro loop) (simp add: curve_order_def)
qed

text \<open>
  The laws: seeds give scalars in range and \<open>getPublicKey\<close> is the encoded point; an encoded point decodes;
  the multiples of the base point add and multiply as their scalars modulo the order; verification accepts
  what satisfies the equation of RFC 8032.
\<close>

definition challenge :: "'p curve \<Rightarrow> bytes \<Rightarrow> bytes \<Rightarrow> bytes \<Rightarrow> nat" where
  "challenge C R publicKey message = bytesLEToScalar (c_sha512 C (R @ publicKey @ message)) mod curve_order"

definition curve_laws :: "prims \<Rightarrow> 'p curve \<Rightarrow> bool" where
  "curve_laws P C \<longleftrightarrow>
     (\<forall>seed. length seed = 32 \<longrightarrow> 1 \<le> c_scalar C seed \<and> c_scalar C seed < curve_order
        \<and> p_ed_public P seed = c_toBytes C (c_base C (c_scalar C seed)))
     \<and> (\<forall>a. length (c_toBytes C (c_base C a)) = 32 \<and> c_fromBytes C (c_toBytes C (c_base C a)) = Some (c_base C a))
     \<and> (\<forall>a b. c_add C (c_base C a) (c_base C b) = c_base C ((a + b) mod curve_order)
        \<and> c_times C a (c_base C b) = c_base C (a * b mod curve_order))
     \<and> (\<forall>rb sb pk m R A. length rb = 32 \<longrightarrow> length sb = 32 \<longrightarrow> c_fromBytes C rb = Some R \<longrightarrow> c_fromBytes C pk = Some A
        \<longrightarrow> bytesLEToScalar sb < curve_order
        \<longrightarrow> c_base C (bytesLEToScalar sb) = c_add C R (c_times C (challenge C rb pk m) A)
        \<longrightarrow> p_verify P (rb @ sb) m pk)"

section \<open>Founding, generations and the ratchet\<close>

definition GROUP_EPOCH_SECONDS :: int where "GROUP_EPOCH_SECONDS = 86400"
definition GROUP_KEY_BYTES :: nat where "GROUP_KEY_BYTES = 32"
definition GROUP_ID_BYTES :: nat where "GROUP_ID_BYTES = 32"
definition GROUP_SIGNATURE_BYTES :: nat where "GROUP_SIGNATURE_BYTES = 64"
definition GROUP_AVATAR_SECRET_BYTES :: nat where "GROUP_AVATAR_SECRET_BYTES = 32"
definition GROUP_MAX_RATCHET_STEPS :: int where "GROUP_MAX_RATCHET_STEPS = 400"

definition assertBytes :: "nat \<Rightarrow> bytes \<Rightarrow> bytes res" where
  "assertBytes n value = guard (length value = n) (RangeError ''must be of the given length'') (Inr value)"

definition group_u32be :: "int \<Rightarrow> bytes res" where
  "group_u32be n = guard (\<not> (n < 0 \<or> n > 0xffffffff)) (RangeError ''u32 out of range'') (Inr (be_bytes 4 (nat n)))"

record group_state =
  gs_groupId :: bytes
  gs_key :: bytes
  gs_epoch :: int
  gs_generation :: int
  gs_rosterKey :: "bytes option"

definition groupEpochFromSeconds :: "js_num \<Rightarrow> int res" where
  "groupEpochFromSeconds createdAtSec =
     (case createdAtSec of
        Fin s \<Rightarrow> guard (\<not> s < 0) (RangeError ''createdAtSec out of range'') (Inr \<lfloor>s / of_int GROUP_EPOCH_SECONDS\<rfloor>)
      | _ \<Rightarrow> Inl (RangeError ''createdAtSec out of range''))"

text \<open>The key of an epoch: from the entropy of a generation or from the key of the epoch before.\<close>

definition ratchet_key :: "prims \<Rightarrow> bytes \<Rightarrow> bytes \<Rightarrow> int \<Rightarrow> int \<Rightarrow> bytes res" where
  "ratchet_key P ikm groupId epoch generation =
     andThen (group_u32be epoch) (\<lambda>e.
     andThen (group_u32be generation) (\<lambda>g.
       Inr (p_hkdf P ikm (ascii ''PLATHO.GROUP.RATCHET.SALT.V1'') (ascii ''PLATHO.GROUP.RATCHET.V1'' @ groupId @ e @ g) GROUP_KEY_BYTES)))"

definition groupRosterKey :: "prims \<Rightarrow> bytes \<Rightarrow> bytes \<Rightarrow> int \<Rightarrow> bytes res" where
  "groupRosterKey P key groupId generation =
     andThen (assertBytes GROUP_KEY_BYTES key) (\<lambda>key.
     andThen (assertBytes GROUP_ID_BYTES groupId) (\<lambda>groupId.
     andThen (group_u32be generation) (\<lambda>g.
       Inr (p_hkdf P key (ascii ''PLATHO.GROUP.ROSTER.KEY.SALT.V1'') (ascii ''PLATHO.GROUP.ROSTER.KEY.V1'' @ groupId @ g) GROUP_KEY_BYTES))))"

definition createGroupFounding :: "prims \<Rightarrow> bytes \<Rightarrow> js_num \<Rightarrow> int \<Rightarrow> group_state res" where
  "createGroupFounding P entropy createdAtSec generation =
     andThen (assertBytes GROUP_KEY_BYTES entropy) (\<lambda>entropy.
     andThen (groupEpochFromSeconds createdAtSec) (\<lambda>epoch.
       (let groupId = p_hkdf P entropy (ascii ''PLATHO.GROUP.ROOT.SALT.V1'') (ascii ''PLATHO.GROUP.ROOT.V1'') GROUP_ID_BYTES in
     andThen (ratchet_key P entropy groupId epoch generation) (\<lambda>key.
     andThen (groupRosterKey P key groupId generation) (\<lambda>rosterKey.
       Inr \<lparr>gs_groupId = groupId, gs_key = key, gs_epoch = epoch, gs_generation = generation, gs_rosterKey = Some rosterKey\<rparr>)))))"

definition rekeyGroup :: "prims \<Rightarrow> bytes \<Rightarrow> bytes \<Rightarrow> js_num \<Rightarrow> js_num \<Rightarrow> group_state res" where
  "rekeyGroup P groupId entropy createdAtSec generation =
     andThen (assertBytes GROUP_ID_BYTES groupId) (\<lambda>groupId.
     andThen (assertBytes GROUP_KEY_BYTES entropy) (\<lambda>entropy.
     andThen (groupEpochFromSeconds createdAtSec) (\<lambda>epoch.
       (let generation' = intOf generation in
        guard (isInteger generation \<and> 1 \<le> generation') (RangeError ''generation must be >= 1'')
       (andThen (ratchet_key P entropy groupId epoch generation') (\<lambda>key.
        andThen (groupRosterKey P key groupId generation') (\<lambda>rosterKey.
          Inr \<lparr>gs_groupId = groupId, gs_key = key, gs_epoch = epoch, gs_generation = generation', gs_rosterKey = Some rosterKey\<rparr>)))))))"

text \<open>The stepped state has no roster key of its own.\<close>

definition advanceGroupEpoch :: "prims \<Rightarrow> group_state \<Rightarrow> group_state res" where
  "advanceGroupEpoch P s =
     andThen (assertBytes GROUP_ID_BYTES (gs_groupId s)) (\<lambda>groupId.
     andThen (assertBytes GROUP_KEY_BYTES (gs_key s)) (\<lambda>key.
     andThen (ratchet_key P key groupId (gs_epoch s + 1) (gs_generation s)) (\<lambda>stepped.
       Inr \<lparr>gs_groupId = groupId, gs_key = stepped, gs_epoch = gs_epoch s + 1, gs_generation = gs_generation s, gs_rosterKey = None\<rparr>)))"

text \<open>The loop of \<open>groupEpochAt\<close>; a step raises the epoch by one.\<close>

function ratchet_to :: "prims \<Rightarrow> int \<Rightarrow> group_state \<Rightarrow> group_state res" where
  "ratchet_to P target current =
     (if gs_epoch current < target then andThen (advanceGroupEpoch P current) (ratchet_to P target) else Inr current)"
  by pat_completeness auto

lemma advance_epoch: "advanceGroupEpoch P s = Inr s' \<Longrightarrow> gs_epoch s' = gs_epoch s + 1 \<and> gs_rosterKey s' = None"
  by (auto simp: advanceGroupEpoch_def res_simps)

termination ratchet_to
  by (relation "measure (\<lambda>(P, target, s). nat (target - gs_epoch s))") (auto dest: advance_epoch)

declare ratchet_to.simps [simp del]

definition groupEpochAt :: "prims \<Rightarrow> group_state \<Rightarrow> js_num \<Rightarrow> group_state res" where
  "groupEpochAt P s targetEpoch =
     (let target = intOf targetEpoch in
      guard (isInteger targetEpoch) (RangeError ''targetEpoch must be an integer'')
     (guard (\<not> target < gs_epoch s) (RangeError ''the group ratchet is forward-only'')
     (guard (\<not> target - gs_epoch s > GROUP_MAX_RATCHET_STEPS) (RangeError ''steps away, over the guard'')
       (ratchet_to P target s))))"

section \<open>Members, lanes and derived keys\<close>

definition groupMemberSeed :: "prims \<Rightarrow> bytes \<Rightarrow> bytes \<Rightarrow> bytes res" where
  "groupMemberSeed P vaultSeed groupId =
     andThen (assertBytes GROUP_ID_BYTES groupId) (\<lambda>groupId.
       guard (\<not> length vaultSeed < 16) (RangeError ''vaultSeed is too short to derive a group identity'')
         (Inr (p_hkdf P vaultSeed (ascii ''PLATHO.GROUP.MEMBER.SALT.V1'') (ascii ''PLATHO.GROUP.MEMBER.V1'' @ groupId) GROUP_KEY_BYTES)))"

definition groupMemberPublicKey :: "prims \<Rightarrow> bytes \<Rightarrow> bytes res" where
  "groupMemberPublicKey P memberSeed = andThen (assertBytes GROUP_KEY_BYTES memberSeed) (\<lambda>seed. Inr (p_ed_public P seed))"

definition isValidGroupKey :: "'p curve \<Rightarrow> bytes \<Rightarrow> bool" where
  "isValidGroupKey C bs \<longleftrightarrow> length bs = 32 \<and> c_fromBytes C bs \<noteq> None"

text \<open>\<open>hkdfScalar\<close>: 64 bytes read as a big-endian number, modulo the order.\<close>

definition hkdfScalar :: "prims \<Rightarrow> bytes \<Rightarrow> bytes \<Rightarrow> bytes \<Rightarrow> nat" where
  "hkdfScalar P ikm salt info = be_value (p_hkdf P ikm salt info 64) mod curve_order"

definition groupLaneBlind :: "prims \<Rightarrow> group_state \<Rightarrow> bytes \<Rightarrow> nat res" where
  "groupLaneBlind P s memberPublicKey =
     andThen (assertBytes GROUP_KEY_BYTES (gs_key s)) (\<lambda>key.
     andThen (assertBytes GROUP_ID_BYTES (gs_groupId s)) (\<lambda>groupId.
     andThen (assertBytes 32 memberPublicKey) (\<lambda>pk.
     andThen (group_u32be (gs_epoch s)) (\<lambda>e.
     andThen (group_u32be (gs_generation s)) (\<lambda>g.
       Inr (hkdfScalar P key (ascii ''PLATHO.GROUP.BLIND.SALT.V1'') (ascii ''PLATHO.GROUP.BLIND.V1'' @ groupId @ pk @ e @ g)))))))"

definition groupLanePublicKey :: "prims \<Rightarrow> 'p curve \<Rightarrow> group_state \<Rightarrow> bytes \<Rightarrow> bytes res" where
  "groupLanePublicKey P C s memberPublicKey =
     andThen (groupLaneBlind P s memberPublicKey) (\<lambda>blind.
     andThen (pointFromBytes C memberPublicKey) (\<lambda>point.
     andThen (multiplyBase C blind) (\<lambda>shift.
       Inr (c_toBytes C (c_add C point shift)))))"

text \<open>What \<open>groupLaneSigner\<close> closes over; \<open>lane_sign\<close> is its method \<open>sign\<close>.\<close>

record lane_signer =
  ls_memberPublicKey :: bytes
  ls_publicKey :: bytes
  ls_scalar :: nat
  ls_noncePrefix :: bytes

definition groupLaneSigner :: "prims \<Rightarrow> 'p curve \<Rightarrow> group_state \<Rightarrow> bytes \<Rightarrow> lane_signer res" where
  "groupLaneSigner P C s memberSeed =
     andThen (assertBytes GROUP_KEY_BYTES memberSeed) (\<lambda>seed.
     andThen (multiplyBase C (c_scalar C seed)) (\<lambda>member.
       (let memberPublicKey = c_toBytes C member in
     andThen (groupLaneBlind P s memberPublicKey) (\<lambda>blind.
       (let scalar = (c_scalar C seed + blind) mod curve_order in
     andThen (multiplyBase C scalar) (\<lambda>point.
     andThen (group_u32be (gs_epoch s)) (\<lambda>e.
     andThen (group_u32be (gs_generation s)) (\<lambda>g.
       Inr \<lparr>ls_memberPublicKey = memberPublicKey, ls_publicKey = c_toBytes C point, ls_scalar = scalar,
         ls_noncePrefix = p_hkdf P (c_prefix C seed @ scalarToBytesLE blind) (ascii ''PLATHO.GROUP.NONCE.SALT.V1'')
           (ascii ''PLATHO.GROUP.NONCE.V1'' @ gs_groupId s @ e @ g) GROUP_KEY_BYTES\<rparr>))))))))"

definition lane_nonce :: "'p curve \<Rightarrow> lane_signer \<Rightarrow> bytes \<Rightarrow> nat" where
  "lane_nonce C signer message = bytesLEToScalar (c_sha512 C (ls_noncePrefix signer @ message)) mod curve_order"

definition lane_sign :: "'p curve \<Rightarrow> lane_signer \<Rightarrow> bytes \<Rightarrow> bytes res" where
  "lane_sign C signer message =
     (let r = lane_nonce C signer message in
      andThen (multiplyBase C r) (\<lambda>point.
        (let R = c_toBytes C point; k = challenge C R (ls_publicKey signer) message;
             s = (r + k * ls_scalar signer) mod curve_order in
         Inr (R @ scalarToBytesLE s))))"

definition verifyGroupLaneSignature :: "prims \<Rightarrow> bytes \<Rightarrow> bytes \<Rightarrow> bytes \<Rightarrow> bool res" where
  "verifyGroupLaneSignature P signature message publicKey =
     andThen (assertBytes GROUP_SIGNATURE_BYTES signature) (\<lambda>signature.
     andThen (assertBytes 32 publicKey) (\<lambda>publicKey.
       Inr (p_verify P signature message publicKey)))"

definition groupContentKey :: "prims \<Rightarrow> group_state \<Rightarrow> bytes res" where
  "groupContentKey P s =
     andThen (assertBytes GROUP_KEY_BYTES (gs_key s)) (\<lambda>key.
     andThen (assertBytes GROUP_ID_BYTES (gs_groupId s)) (\<lambda>groupId.
     andThen (group_u32be (gs_epoch s)) (\<lambda>e.
     andThen (group_u32be (gs_generation s)) (\<lambda>g.
       Inr (p_hkdf P key (ascii ''PLATHO.GROUP.CONTENT.SALT.V1'') (ascii ''PLATHO.GROUP.CONTENT.V1'' @ groupId @ e @ g) GROUP_KEY_BYTES)))))"

definition groupAvatarKey :: "prims \<Rightarrow> bytes \<Rightarrow> bytes option \<Rightarrow> bytes res" where
  "groupAvatarKey P groupId secret =
     andThen (assertBytes GROUP_ID_BYTES groupId) (\<lambda>groupId.
       (case secret of
          Some secret \<Rightarrow>
            andThen (assertBytes GROUP_AVATAR_SECRET_BYTES secret) (\<lambda>secret.
              Inr (p_hkdf P secret (ascii ''PLATHO.GROUP.AVATAR.KEY.SALT.V2'') (ascii ''PLATHO.GROUP.AVATAR.KEY.V2'' @ groupId) GROUP_KEY_BYTES))
        | None \<Rightarrow> Inr (p_hkdf P groupId (ascii ''PLATHO.GROUP.AVATAR.KEY.SALT.V1'') (ascii ''PLATHO.GROUP.AVATAR.KEY.V1'') GROUP_KEY_BYTES)))"

definition groupAvatarLaneSecret :: "prims \<Rightarrow> bytes \<Rightarrow> int \<Rightarrow> bytes option \<Rightarrow> bytes res" where
  "groupAvatarLaneSecret P groupId epoch secret =
     andThen (assertBytes GROUP_ID_BYTES groupId) (\<lambda>groupId.
       (case secret of
          Some secret \<Rightarrow>
            andThen (assertBytes GROUP_AVATAR_SECRET_BYTES secret) (\<lambda>secret.
            andThen (group_u32be epoch) (\<lambda>e.
              Inr (p_hkdf P secret (ascii ''PLATHO.GROUP.AVATAR.LANE.SALT.V2'') (ascii ''PLATHO.GROUP.AVATAR.LANE.V2'' @ groupId @ e) GROUP_KEY_BYTES)))
        | None \<Rightarrow>
            andThen (group_u32be epoch) (\<lambda>e.
              Inr (p_hkdf P groupId (ascii ''PLATHO.GROUP.AVATAR.LANE.SALT.V1'') (ascii ''PLATHO.GROUP.AVATAR.LANE.V1'' @ e) GROUP_KEY_BYTES))))"

definition groupAvatarLanePublicKey :: "prims \<Rightarrow> bytes \<Rightarrow> int \<Rightarrow> bytes option \<Rightarrow> bytes res" where
  "groupAvatarLanePublicKey P groupId epoch secret =
     andThen (groupAvatarLaneSecret P groupId epoch secret) (\<lambda>sk. Inr (p_ed_public P sk))"

text \<open>The signer of the picture's lane: its public key, and the signature of a message.\<close>

definition groupAvatarLaneSigner :: "prims \<Rightarrow> bytes \<Rightarrow> int \<Rightarrow> bytes option \<Rightarrow> (bytes \<times> (bytes \<Rightarrow> bytes)) res" where
  "groupAvatarLaneSigner P groupId epoch pictureSecret =
     andThen (groupAvatarLaneSecret P groupId epoch pictureSecret) (\<lambda>secret.
       Inr (p_ed_public P secret, \<lambda>message. p_sign P message secret))"

record group_lane =
  gl_memberPublicKey :: bytes
  gl_writePublicKey :: bytes
  gl_epoch :: int
  gl_generation :: int

definition groupLaneSet :: "prims \<Rightarrow> 'p curve \<Rightarrow> group_state \<Rightarrow> bytes list \<Rightarrow> group_lane list res" where
  "groupLaneSet P C s memberPublicKeys =
     mapRes (\<lambda>memberPublicKey.
       andThen (groupLanePublicKey P C s memberPublicKey) (\<lambda>writePublicKey.
         Inr \<lparr>gl_memberPublicKey = memberPublicKey, gl_writePublicKey = writePublicKey, gl_epoch = gs_epoch s,
           gl_generation = gs_generation s\<rparr>)) memberPublicKeys"

section \<open>The ratchet meets\<close>

definition group_ok :: "group_state \<Rightarrow> bool" where
  "group_ok s \<longleftrightarrow> length (gs_groupId s) = 32 \<and> length (gs_key s) = 32
     \<and> 0 \<le> gs_epoch s \<and> gs_epoch s \<le> 0xffffffff \<and> 0 \<le> gs_generation s \<and> gs_generation s \<le> 0xffffffff"

lemma hkdf_length: "hash_laws P \<Longrightarrow> length (p_hkdf P ikm salt info n) = n"
  by (simp add: hash_laws_def)

lemma ratchet_key_total:
  "0 \<le> e \<Longrightarrow> e \<le> 0xffffffff \<Longrightarrow> 0 \<le> g \<Longrightarrow> g \<le> 0xffffffff \<Longrightarrow> \<exists>k. ratchet_key P ikm gid e g = Inr k"
  by (simp add: ratchet_key_def group_u32be_def)

lemma ratchet_key_length: "hash_laws P \<Longrightarrow> ratchet_key P ikm gid e g = Inr k \<Longrightarrow> length k = 32"
  by (auto simp: ratchet_key_def res_simps hkdf_length GROUP_KEY_BYTES_def)

lemma advance_total:
  assumes "group_ok s" "gs_epoch s < 0xffffffff" "hash_laws P"
  shows "\<exists>s'. advanceGroupEpoch P s = Inr s' \<and> group_ok s'"
proof -
  obtain k where k: "ratchet_key P (gs_key s) (gs_groupId s) (gs_epoch s + 1) (gs_generation s) = Inr k"
    using assms(1,2) ratchet_key_total [of "gs_epoch s + 1" "gs_generation s" P "gs_key s" "gs_groupId s"]
    by (auto simp: group_ok_def)
  with assms ratchet_key_length [OF assms(3) k] show ?thesis
    by (simp add: advanceGroupEpoch_def assertBytes_def group_ok_def GROUP_ID_BYTES_def GROUP_KEY_BYTES_def)
qed

lemma ratchet_total:
  "group_ok s \<Longrightarrow> target \<le> 0xffffffff \<Longrightarrow> hash_laws P \<Longrightarrow> gs_epoch s \<le> target \<Longrightarrow>
     \<exists>s'. ratchet_to P target s = Inr s' \<and> group_ok s' \<and> gs_epoch s' = target"
proof (induction P target s rule: ratchet_to.induct)
  case (1 P target s)
  show ?case
  proof (cases "gs_epoch s < target")
    case True
    then obtain s1 where s1: "advanceGroupEpoch P s = Inr s1" "group_ok s1"
      using "1.prems" advance_total [of s P] by auto
    moreover have "gs_epoch s1 \<le> target" using True advance_epoch [OF s1(1)] by simp
    ultimately show ?thesis
      using "1.IH" [OF True] "1.prems" True by (subst ratchet_to.simps) auto
  next
    case False
    with "1.prems" show ?thesis by (subst ratchet_to.simps) auto
  qed
qed

lemma ratchet_reaches: "ratchet_to P t s = Inr s' \<Longrightarrow> gs_epoch s \<le> t \<Longrightarrow> gs_epoch s' = t"
proof (induction P t s rule: ratchet_to.induct)
  case (1 P t s)
  show ?case
  proof (cases "gs_epoch s < t")
    case True
    then obtain s1 where s1: "advanceGroupEpoch P s = Inr s1" "ratchet_to P t s1 = Inr s'"
      using "1.prems"(1) by (subst (asm) ratchet_to.simps) (auto simp: res_simps)
    with "1.IH" [OF True s1] True advance_epoch [OF s1(1)] show ?thesis by simp
  next
    case False
    with "1.prems" show ?thesis by (subst (asm) ratchet_to.simps) auto
  qed
qed

lemma ratchet_compose:
  "t \<le> u \<Longrightarrow> ratchet_to P u s = andThen (ratchet_to P t s) (ratchet_to P u)"
proof (induction P t s rule: ratchet_to.induct)
  case (1 P t s)
  show ?case
  proof (cases "gs_epoch s < t")
    case True
    then have "ratchet_to P u s = andThen (advanceGroupEpoch P s) (ratchet_to P u)"
      using "1.prems" by (subst ratchet_to.simps) simp
    also have "\<dots> = andThen (advanceGroupEpoch P s) (\<lambda>x. andThen (ratchet_to P t x) (ratchet_to P u))"
      using "1.IH" [OF True _ "1.prems"] by (cases "advanceGroupEpoch P s") auto
    also have "\<dots> = andThen (ratchet_to P t s) (ratchet_to P u)"
      using True by (simp add: andThen_assoc ratchet_to.simps [of P t s])
    finally show ?thesis .
  next
    case False
    then have "ratchet_to P t s = Inr s" by (subst ratchet_to.simps) simp
    then show ?thesis by simp
  qed
qed

lemma group_epoch_reaches:
  assumes "hash_laws P" "group_ok s" "gs_epoch s \<le> t" "t \<le> 0xffffffff" "t - gs_epoch s \<le> 400"
  shows "\<exists>s'. groupEpochAt P s (js_of_int t) = Inr s' \<and> gs_epoch s' = t \<and> group_ok s'"
  using ratchet_total [of s t P] assms by (auto simp: groupEpochAt_def GROUP_MAX_RATCHET_STEPS_def)

lemma group_epoch_via:
  assumes "groupEpochAt P s (js_of_int t) = Inr at_t" "t \<le> u" "u - gs_epoch s \<le> 400"
  shows "groupEpochAt P at_t (js_of_int u) = groupEpochAt P s (js_of_int u)"
proof -
  have t: "ratchet_to P t s = Inr at_t" "gs_epoch s \<le> t"
    using assms(1) by (auto simp: groupEpochAt_def res_simps)
  have "gs_epoch at_t = t" by (rule ratchet_reaches [OF t])
  moreover have "ratchet_to P u s = ratchet_to P u at_t" using ratchet_compose [OF assms(2), of P s] t(1) by simp
  ultimately show ?thesis using t(2) assms(2,3) by (simp add: groupEpochAt_def GROUP_MAX_RATCHET_STEPS_def)
qed

text \<open>
  C21: Two members who hold the key of different days of one generation meet: whoever holds the state of an
  earlier day reaches, by any stop on the way, the one state of a later day, as long as the day is within the
  400 steps and the days fit 32 bits; the state of an earlier day is refused.
\<close>

theorem group_ratchet_meets:
  assumes "hash_laws P" "group_ok s" "gs_epoch s \<le> t" "t \<le> u" "u \<le> 0xffffffff" "u - gs_epoch s \<le> 400"
  shows "\<exists>at_t at_u. groupEpochAt P s (js_of_int t) = Inr at_t \<and> gs_epoch at_t = t \<and> group_ok at_t
           \<and> groupEpochAt P s (js_of_int u) = Inr at_u \<and> gs_epoch at_u = u \<and> group_ok at_u
           \<and> groupEpochAt P at_t (js_of_int u) = Inr at_u
           \<and> (t < u \<longrightarrow> groupEpochAt P at_u (js_of_int t) = Inl (RangeError ''the group ratchet is forward-only''))"
proof -
  obtain at_t where t: "groupEpochAt P s (js_of_int t) = Inr at_t" "gs_epoch at_t = t" "group_ok at_t"
    using group_epoch_reaches [of P s t] assms by auto
  obtain at_u where u: "groupEpochAt P s (js_of_int u) = Inr at_u" "gs_epoch at_u = u" "group_ok at_u"
    using group_epoch_reaches [of P s u] assms by auto
  have "groupEpochAt P at_t (js_of_int u) = Inr at_u" using group_epoch_via [OF t(1) assms(4,6)] u(1) by simp
  moreover have "t < u \<longrightarrow> groupEpochAt P at_u (js_of_int t) = Inl (RangeError ''the group ratchet is forward-only'')"
    using u(2) by (simp add: groupEpochAt_def)
  ultimately show ?thesis using t u by blast
qed

section \<open>The lane of a member\<close>

lemma hkdfScalar_less: "hkdfScalar P ikm salt info < curve_order"
  by (simp add: hkdfScalar_def curve_order_def)

lemma blind_total:
  assumes "group_ok s" "length pk = 32"
  shows "\<exists>blind. groupLaneBlind P s pk = Inr blind \<and> blind < curve_order"
  using assms hkdfScalar_less
  by (simp add: groupLaneBlind_def assertBytes_def group_u32be_def group_ok_def GROUP_KEY_BYTES_def GROUP_ID_BYTES_def)

lemma curve_seed:
  assumes "curve_laws P C" "length seed = 32"
  shows "1 \<le> c_scalar C seed" "c_scalar C seed < curve_order" "p_ed_public P seed = c_toBytes C (c_base C (c_scalar C seed))"
  using assms by (simp_all add: curve_laws_def)

lemma curve_bytes:
  assumes "curve_laws P C"
  shows "length (c_toBytes C (c_base C a)) = 32" "c_fromBytes C (c_toBytes C (c_base C a)) = Some (c_base C a)"
  using assms by (simp_all add: curve_laws_def)

lemma curve_sums:
  assumes "curve_laws P C"
  shows "c_add C (c_base C a) (c_base C b) = c_base C ((a + b) mod curve_order)"
    "c_times C a (c_base C b) = c_base C (a * b mod curve_order)"
  using assms by (simp_all add: curve_laws_def)

lemma curve_verifies:
  assumes "curve_laws P C" "length rb = 32" "length sb = 32" "c_fromBytes C rb = Some R" "c_fromBytes C pk = Some A"
    "bytesLEToScalar sb < curve_order" "c_base C (bytesLEToScalar sb) = c_add C R (c_times C (challenge C rb pk m) A)"
  shows "p_verify P (rb @ sb) m pk"
  using assms(1) unfolding curve_laws_def using assms(2-) by blast

text \<open>A signature of scalar \<open>a\<close> with nonce \<open>r\<close> verifies under \<open>a\<close> times the base point.\<close>

lemma schnorr_verifies:
  assumes "curve_laws P C" "pk = c_toBytes C (c_base C a)" "rb = c_toBytes C (c_base C r)"
    "s = (r + challenge C rb pk m * a) mod curve_order"
  shows "p_verify P (rb @ scalarToBytesLE s) m pk"
proof (rule curve_verifies [OF assms(1)])
  have s: "s < curve_order" using assms(4) by (simp add: curve_order_def)
  show "length rb = 32" "length (scalarToBytesLE s) = 32" using assms(3) curve_bytes(1) [OF assms(1)] by simp_all
  show "c_fromBytes C rb = Some (c_base C r)" "c_fromBytes C pk = Some (c_base C a)"
    using assms(2,3) curve_bytes(2) [OF assms(1)] by simp_all
  show "bytesLEToScalar (scalarToBytesLE s) < curve_order" using s by (simp add: scalar_bytes)
  show "c_base C (bytesLEToScalar (scalarToBytesLE s)) = c_add C (c_base C r) (c_times C (challenge C rb pk m) (c_base C a))"
    by (simp only: scalar_bytes [OF s] curve_sums [OF assms(1)]) (simp add: assms(4) mod_add_right_eq)
qed

text \<open>The scalars the code refuses: a zero blind, a zero lane scalar, a zero nonce.\<close>

definition lane_degenerate :: "prims \<Rightarrow> 'p curve \<Rightarrow> group_state \<Rightarrow> bytes \<Rightarrow> bytes \<Rightarrow> bool" where
  "lane_degenerate P C s seed message \<longleftrightarrow>
     groupLaneBlind P s (p_ed_public P seed) = Inr 0
     \<or> (case groupLaneSigner P C s seed of Inl _ \<Rightarrow> True | Inr signer \<Rightarrow> lane_nonce C signer message = 0)"

lemma lane_key_agrees:
  assumes "curve_laws P C" "length seed = 32" "groupLaneSigner P C s seed = Inr signer"
    "groupLaneBlind P s (p_ed_public P seed) \<noteq> Inr 0"
  shows "groupLanePublicKey P C s (p_ed_public P seed) = Inr (ls_publicKey signer)"
    "ls_memberPublicKey signer = p_ed_public P seed" "ls_publicKey signer = c_toBytes C (c_base C (ls_scalar signer))"
proof -
  note seed = curve_seed [OF assms(1,2)]
  obtain blind where b: "groupLaneBlind P s (p_ed_public P seed) = Inr blind"
      "ls_publicKey signer = c_toBytes C (c_base C ((c_scalar C seed + blind) mod curve_order))"
      "ls_memberPublicKey signer = p_ed_public P seed" "ls_scalar signer = (c_scalar C seed + blind) mod curve_order"
    using assms(3) by (auto simp: groupLaneSigner_def multiplyBase_def assertBytes_def Let_def res_simps simp flip: seed(3))
  have "blind < curve_order" using b(1) by (auto simp: groupLaneBlind_def res_simps hkdfScalar_less)
  moreover have "blind \<noteq> 0" using assms(4) b(1) by auto
  ultimately have "multiplyBase C blind = Inr (c_base C blind)" by (simp add: multiplyBase_def)
  then show "groupLanePublicKey P C s (p_ed_public P seed) = Inr (ls_publicKey signer)"
    by (simp add: groupLanePublicKey_def b(1,2) pointFromBytes_def seed(3) curve_bytes(2) [OF assms(1)] curve_sums(1) [OF assms(1)]
        b(1) [unfolded seed(3)])
  show "ls_memberPublicKey signer = p_ed_public P seed" by (rule b(3))
  show "ls_publicKey signer = c_toBytes C (c_base C (ls_scalar signer))" by (simp add: b(2,4))
qed

lemma lane_signature_verifies:
  assumes "curve_laws P C" "length seed = 32" "\<not> lane_degenerate P C s seed message"
  shows "\<exists>signer signature. groupLaneSigner P C s seed = Inr signer \<and> lane_sign C signer message = Inr signature
           \<and> groupLanePublicKey P C s (p_ed_public P seed) = Inr (ls_publicKey signer)
           \<and> verifyGroupLaneSignature P signature message (ls_publicKey signer) = Inr True"
proof -
  obtain signer where signer: "groupLaneSigner P C s seed = Inr signer" "lane_nonce C signer message \<noteq> 0"
      "groupLaneBlind P s (p_ed_public P seed) \<noteq> Inr 0"
    using assms(3) by (auto simp: lane_degenerate_def split: sum.splits)
  note agrees = lane_key_agrees [OF assms(1,2) signer(1,3)]
  define r where "r = lane_nonce C signer message"
  define rb where "rb = c_toBytes C (c_base C r)"
  define k where "k = (r + challenge C rb (ls_publicKey signer) message * ls_scalar signer) mod curve_order"
  have "r < curve_order" by (simp add: r_def lane_nonce_def curve_order_def)
  with signer(2) have "multiplyBase C r = Inr (c_base C r)" by (simp add: multiplyBase_def r_def)
  then have "lane_sign C signer message = Inr (rb @ scalarToBytesLE k)"
    by (simp add: lane_sign_def Let_def rb_def k_def flip: r_def)
  moreover have "p_verify P (rb @ scalarToBytesLE k) message (ls_publicKey signer)"
    by (rule schnorr_verifies [OF assms(1) agrees(3) rb_def k_def])
  moreover have "length rb = 32" "length (ls_publicKey signer) = 32"
    using agrees(3) by (simp_all add: rb_def curve_bytes(1) [OF assms(1)])
  ultimately show ?thesis using signer(1) agrees(1)
    by (simp add: verifyGroupLaneSignature_def assertBytes_def GROUP_SIGNATURE_BYTES_def)
qed

text \<open>
  C18: A member's message is heard: two members whose states come from one state of the generation, held at
  whatever earlier days, have on the day of the message one content key, and the lane key the reader computes
  from the writer's public key is the one the writer signs under; the signature verifies, unless a derived
  scalar is zero, which the code refuses.
\<close>

theorem group_message_heard:
  assumes "hash_laws P" "curve_laws P C" "group_ok origin" "length seed = 32" "d \<le> 0xffffffff" "d - gs_epoch origin \<le> 400"
    "groupEpochAt P origin (js_of_int a) = Inr writer" "groupEpochAt P origin (js_of_int b) = Inr reader" "a \<le> d" "b \<le> d"
    "\<forall>s. groupEpochAt P origin (js_of_int d) = Inr s \<longrightarrow> \<not> lane_degenerate P C s seed message"
  shows "\<exists>w r member signer signature key.
           groupEpochAt P writer (js_of_int d) = Inr w \<and> groupEpochAt P reader (js_of_int d) = Inr r
           \<and> groupContentKey P w = Inr key \<and> groupContentKey P r = Inr key
           \<and> groupMemberPublicKey P seed = Inr member \<and> groupLaneSigner P C w seed = Inr signer
           \<and> lane_sign C signer message = Inr signature
           \<and> groupLanePublicKey P C r member = Inr (ls_publicKey signer)
           \<and> verifyGroupLaneSignature P signature message (ls_publicKey signer) = Inr True"
proof -
  have "gs_epoch origin \<le> a" using assms(7) by (auto simp: groupEpochAt_def res_simps)
  with assms(9) have "gs_epoch origin \<le> d" by simp
  then obtain s where s: "groupEpochAt P origin (js_of_int d) = Inr s" "group_ok s"
    using group_epoch_reaches [of P origin d] assms(1,3,5,6) by auto
  have "groupEpochAt P writer (js_of_int d) = Inr s" "groupEpochAt P reader (js_of_int d) = Inr s"
    using group_epoch_via [OF assms(7,9,6)] group_epoch_via [OF assms(8,10,6)] s(1) by simp_all
  moreover have "\<exists>key. groupContentKey P s = Inr key"
    using s(2) by (simp add: groupContentKey_def assertBytes_def group_u32be_def group_ok_def GROUP_KEY_BYTES_def GROUP_ID_BYTES_def)
  moreover have "groupMemberPublicKey P seed = Inr (p_ed_public P seed)"
    using assms(4) by (simp add: groupMemberPublicKey_def assertBytes_def GROUP_KEY_BYTES_def)
  ultimately show ?thesis using lane_signature_verifies [OF assms(2,4)] assms(11) s(1) by blast
qed

section \<open>A curve with these laws\<close>

text \<open>The integers modulo the order, for the witnesses.\<close>

definition toy_curve :: "nat curve" where
  "toy_curve = \<lparr>
     c_base = (\<lambda>n. n mod curve_order),
     c_add = (\<lambda>a b. (a + b) mod curve_order),
     c_times = (\<lambda>k a. k * a mod curve_order),
     c_toBytes = scalarToBytesLE,
     c_fromBytes = (\<lambda>bs. if length bs = 32 \<and> bytesLEToScalar bs < curve_order then Some (bytesLEToScalar bs) else None),
     c_scalar = (\<lambda>seed. be_value (take 16 seed) + 1),
     c_prefix = (\<lambda>seed. seed),
     c_sha512 = (\<lambda>m. 1 # replicate 63 0)\<rparr>"

definition toy_verify :: "bytes \<Rightarrow> bytes \<Rightarrow> bytes \<Rightarrow> bool" where
  "toy_verify signature m pk =
     (let rb = take 32 signature; s = bytesLEToScalar (drop 32 signature) in
      s mod curve_order = (bytesLEToScalar rb + challenge toy_curve rb pk m * bytesLEToScalar pk) mod curve_order)"

definition toy_curve_prims :: prims where
  "toy_curve_prims = toy_prims\<lparr>p_hkdf := \<lambda>ikm salt info n. if n = 0 then [] else replicate (n - 1) 0 @ [1],
     p_ed_public := \<lambda>seed. scalarToBytesLE (be_value (take 16 seed) + 1), p_verify := toy_verify\<rparr>"

lemma toy_curve_laws: "curve_laws toy_curve_prims toy_curve" "hash_laws toy_curve_prims"
proof -
  have small: "be_value (take 16 seed) + 1 < curve_order" for seed
  proof -
    have "be_value (take 16 seed) < 256 ^ length (take 16 seed)" by (rule be_value_less)
    also have "\<dots> \<le> 256 ^ 16" by (rule power_increasing) simp_all
    finally show ?thesis by (simp add: curve_order_def)
  qed
  have less: "n mod curve_order < curve_order" for n by (simp add: curve_order_def)
  have sums: "(a mod curve_order + b mod curve_order) mod curve_order = (a + b) mod curve_order mod curve_order"
    "a * (b mod curve_order) mod curve_order = a * b mod curve_order mod curve_order" for a b
    by (simp_all add: mod_add_eq mod_mult_right_eq)
  have verify: "toy_verify (rb @ sb) m pk"
    if "length rb = 32" "R = bytesLEToScalar rb" "A = bytesLEToScalar pk"
      "bytesLEToScalar sb mod curve_order = (R + challenge toy_curve rb pk m * A mod curve_order) mod curve_order" for rb sb m pk R A
    using that by (simp add: toy_verify_def mod_add_right_eq)
  show "curve_laws toy_curve_prims toy_curve"
    unfolding curve_laws_def
  proof (intro conjI allI impI)
    fix seed :: bytes
    show "1 \<le> c_scalar toy_curve seed" "c_scalar toy_curve seed < curve_order"
      using small [of seed] by (simp_all add: toy_curve_def)
    show "p_ed_public toy_curve_prims seed = c_toBytes toy_curve (c_base toy_curve (c_scalar toy_curve seed))"
      using small [of seed] by (simp add: toy_curve_prims_def toy_curve_def)
  next
    fix a :: nat
    show "length (c_toBytes toy_curve (c_base toy_curve a)) = 32"
      "c_fromBytes toy_curve (c_toBytes toy_curve (c_base toy_curve a)) = Some (c_base toy_curve a)"
      by (simp_all add: toy_curve_def scalar_bytes less)
  next
    fix a b :: nat
    show "c_add toy_curve (c_base toy_curve a) (c_base toy_curve b) = c_base toy_curve ((a + b) mod curve_order)"
      "c_times toy_curve a (c_base toy_curve b) = c_base toy_curve (a * b mod curve_order)"
      using sums [of a b] by (simp_all add: toy_curve_def)
  next
    fix rb sb pk m :: bytes and R A :: nat
    assume a: "length rb = 32" "length sb = 32" "c_fromBytes toy_curve rb = Some R" "c_fromBytes toy_curve pk = Some A"
      "bytesLEToScalar sb < curve_order"
      "c_base toy_curve (bytesLEToScalar sb) = c_add toy_curve R (c_times toy_curve (challenge toy_curve rb pk m) A)"
    have "R = bytesLEToScalar rb" "A = bytesLEToScalar pk"
      using a(3,4) by (simp_all add: toy_curve_def split: if_splits)
    moreover have "bytesLEToScalar sb mod curve_order = (R + challenge toy_curve rb pk m * A mod curve_order) mod curve_order"
      using a(6) by (simp add: toy_curve_def)
    ultimately have "toy_verify (rb @ sb) m pk" by (intro verify [OF a(1)])
    then show "p_verify toy_curve_prims (rb @ sb) m pk" by (simp add: toy_curve_prims_def)
  qed
  show "hash_laws toy_curve_prims"
    using toy_laws by (simp add: crypto_law_defs toy_curve_prims_def)
qed

definition toy_group :: group_state where
  "toy_group = \<lparr>gs_groupId = replicate 32 1, gs_key = replicate 32 2, gs_epoch = 20000, gs_generation = 0, gs_rosterKey = None\<rparr>"

lemma toy_group_ok: "group_ok toy_group"
  by (simp add: toy_group_def group_ok_def)

theorem group_ratchet_meets_witness:
  "\<exists>at_u. groupEpochAt toy_curve_prims toy_group (js_of_int 20003) = Inr at_u \<and> gs_epoch at_u = 20003"
  using group_ratchet_meets [OF toy_curve_laws(2) toy_group_ok, of 20001 20003] by (auto simp: toy_group_def)

definition toy_tomorrow :: group_state where
  "toy_tomorrow = toy_group\<lparr>gs_key := replicate 31 0 @ [1], gs_epoch := 20001\<rparr>"

lemma toy_days:
  "groupEpochAt toy_curve_prims toy_group (js_of_int 20001) = Inr toy_tomorrow"
  "groupEpochAt toy_curve_prims toy_group (js_of_int 20000) = Inr toy_group"
  by (simp_all add: groupEpochAt_def ratchet_to.simps GROUP_MAX_RATCHET_STEPS_def toy_group_def toy_tomorrow_def advanceGroupEpoch_def
      assertBytes_def GROUP_ID_BYTES_def GROUP_KEY_BYTES_def ratchet_key_def group_u32be_def toy_curve_prims_def)

lemma zero_bytes: "be_value (replicate n 0) = 0" "bytesLEToScalar (replicate n 0) = 0"
proof -
  show "be_value (replicate n 0) = 0"
    by (induction n) (simp_all add: be_value_def)
  show "bytesLEToScalar (replicate n 0) = 0"
    by (induction n) simp_all
qed

lemma toy_not_degenerate: "\<not> lane_degenerate toy_curve_prims toy_curve toy_tomorrow (replicate 32 0) [1]"
  by (simp add: lane_degenerate_def groupLaneSigner_def groupLaneBlind_def hkdfScalar_def multiplyBase_def assertBytes_def Let_def
      GROUP_ID_BYTES_def GROUP_KEY_BYTES_def group_u32be_def toy_curve_prims_def toy_group_def toy_tomorrow_def toy_curve_def
      lane_nonce_def zero_bytes be_value_snoc curve_order_def)

theorem group_message_heard_witness:
  "\<exists>w signature lane. groupEpochAt toy_curve_prims toy_group (js_of_int 20001) = Inr w
     \<and> verifyGroupLaneSignature toy_curve_prims signature [1] lane = Inr True"
  using group_message_heard [OF toy_curve_laws(2,1) toy_group_ok, of "replicate 32 0" 20001 20000 toy_group 20001 toy_tomorrow "[1]"]
    toy_not_degenerate
  by (auto simp: toy_days) (auto simp: toy_group_def)

end
