(* ===== verification/Group_Capsules.thy ===== *)
theory Group_Capsules
  imports Group_Lane Capsule_Body "HOL-Library.Multiset"
begin

text \<open>
  The capsules of a private group (\<open>web/group-protocol.mjs\<close>): a payload is cut into parts, each sealed under
  the content key of the day in a body shaped like that of a private capsule, opened by every member, and
  the parts put together again in whatever order they were found. The random bytes of the parts are arguments.
\<close>

section \<open>Sizes and the plan\<close>

definition GROUP_NONCE_BYTES :: nat where "GROUP_NONCE_BYTES = 12"
definition GROUP_TAG_BYTES :: nat where "GROUP_TAG_BYTES = 16"
definition GROUP_ENTRY_TAG_BYTES :: nat where "GROUP_ENTRY_TAG_BYTES = 8"
definition GROUP_WIRE_HEADER0_BYTES :: nat where "GROUP_WIRE_HEADER0_BYTES = HEADER0_BYTES_CONV"
definition GROUP_WIRE_HEADER1_BYTES :: nat where "GROUP_WIRE_HEADER1_BYTES = HEADER1_BYTES"
definition GROUP_WIRE_BODY_FLAGS :: byte where "GROUP_WIRE_BODY_FLAGS = 1"
definition GROUP_WIRE_BODY_PREFIX_BYTES :: nat where
  "GROUP_WIRE_BODY_PREFIX_BYTES = 68 + MLKEM768_CIPHERTEXT_BYTES + PLATHO_COMPACT_SENDER_RECOVERY_BYTES"
definition GROUP_WIRE_NONCE_OFFSET :: nat where "GROUP_WIRE_NONCE_OFFSET = 24"
definition GROUP_PART_HEADER_BYTES :: nat where "GROUP_PART_HEADER_BYTES = PLATHO_COMPACT_PAYLOAD_PREFIX_BYTES"
definition GROUP_SIZE_CLASSES :: "nat list" where "GROUP_SIZE_CLASSES = PLATHO_CAPSULE_USEFUL_SIZE_CLASSES"
definition GROUP_MAX_PARTS :: nat where "GROUP_MAX_PARTS = 64"
definition GROUP_CAPSULE_TTL_SECONDS :: int where "GROUP_CAPSULE_TTL_SECONDS = 86400"

definition groupPartCapacity :: "nat \<Rightarrow> nat" where
  "groupPartCapacity sizeClass = sizeClass * PLATHO_COMPACT_TEXT_BLOCK_BYTES - PLATHO_COMPACT_SENDER_RECOVERY_BYTES"

definition GROUP_PART_MAX_BYTES :: nat where
  "GROUP_PART_MAX_BYTES = groupPartCapacity (last GROUP_SIZE_CLASSES div PLATHO_COMPACT_TEXT_BLOCK_BYTES)"

text \<open>The values of \<open>GROUP_KIND\<close>.\<close>

definition KIND_VALUES :: "nat list" where "KIND_VALUES = [1, 3, 4, 5, 6, 7, 8, 9, 10, 11]"

lemmas group_sizes = GROUP_NONCE_BYTES_def GROUP_TAG_BYTES_def GROUP_WIRE_HEADER0_BYTES_def GROUP_WIRE_HEADER1_BYTES_def
  GROUP_WIRE_BODY_PREFIX_BYTES_def GROUP_WIRE_NONCE_OFFSET_def GROUP_PART_HEADER_BYTES_def HEADER0_BYTES_CONV_def HEADER1_BYTES_def
  MLKEM768_CIPHERTEXT_BYTES_def PLATHO_COMPACT_SENDER_RECOVERY_BYTES_def PLATHO_COMPACT_PAYLOAD_PREFIX_BYTES_def
  GROUP_KEY_BYTES_def GROUP_ID_BYTES_def GROUP_ENTRY_TAG_BYTES_def

lemma GROUP_PART_MAX_BYTES_eq [simp]: "GROUP_PART_MAX_BYTES = 32704"
  by (simp add: GROUP_PART_MAX_BYTES_def groupPartCapacity_def GROUP_SIZE_CLASSES_def PLATHO_CAPSULE_USEFUL_SIZE_CLASSES_def
      PLATHO_COMPACT_TEXT_BLOCK_BYTES_def PLATHO_COMPACT_SENDER_RECOVERY_BYTES_def)

fun size_class_in :: "nat list \<Rightarrow> nat \<Rightarrow> nat res" where
  "size_class_in [] chunkBytes = Inl (RangeError ''a group part exceeds the largest capsule'')"
| "size_class_in (useful # rest) chunkBytes =
     (let sizeClass = useful div PLATHO_COMPACT_TEXT_BLOCK_BYTES in
      if chunkBytes \<le> groupPartCapacity sizeClass then Inr sizeClass else size_class_in rest chunkBytes)"

definition groupSizeClassFor :: "nat \<Rightarrow> nat res" where
  "groupSizeClassFor chunkBytes = size_class_in GROUP_SIZE_CLASSES chunkBytes"

definition groupCapsuleWireBytes :: "nat \<Rightarrow> nat" where
  "groupCapsuleWireBytes sizeClass =
     GROUP_WIRE_HEADER0_BYTES + GROUP_WIRE_HEADER1_BYTES + GROUP_WIRE_BODY_PREFIX_BYTES
     + GROUP_PART_HEADER_BYTES + groupPartCapacity sizeClass + GROUP_TAG_BYTES"

record plan_part =
  pp_index :: nat
  pp_chunkBytes :: nat
  pp_sizeClass :: nat
  pp_wireBytes :: nat

record capsule_plan =
  cp_count :: nat
  cp_parts :: "plan_part list"
  cp_wireBytes :: nat

definition plan_part_at :: "nat \<Rightarrow> nat \<Rightarrow> plan_part res" where
  "plan_part_at totalBytes index =
     (let chunkBytes = min GROUP_PART_MAX_BYTES (totalBytes - index * GROUP_PART_MAX_BYTES) in
      andThen (groupSizeClassFor chunkBytes) (\<lambda>sizeClass.
        Inr \<lparr>pp_index = index, pp_chunkBytes = chunkBytes, pp_sizeClass = sizeClass, pp_wireBytes = groupCapsuleWireBytes sizeClass\<rparr>))"

definition groupCapsulePlan :: "nat \<Rightarrow> capsule_plan res" where
  "groupCapsulePlan totalBytes =
     (let howMany = max 1 ((totalBytes + GROUP_PART_MAX_BYTES - 1) div GROUP_PART_MAX_BYTES) in
      guard (\<not> howMany > GROUP_MAX_PARTS) (RangeError ''a payload needs too many parts'')
        (andThen (mapRes (plan_part_at totalBytes) [0..<howMany]) (\<lambda>parts.
           Inr \<lparr>cp_count = howMany, cp_parts = parts, cp_wireBytes = sum_list (map pp_wireBytes parts)\<rparr>)))"

section \<open>Sealing\<close>

record group_context =
  gx_groupId :: bytes
  gx_epoch :: int
  gx_generation :: int
  gx_senderGroupKey :: bytes

definition groupAad :: "group_context \<Rightarrow> int \<Rightarrow> bytes \<Rightarrow> bytes \<Rightarrow> bytes \<Rightarrow> bytes res" where
  "groupAad context seq header0 header1 bodyPrefix =
     andThen (assertBytes GROUP_ID_BYTES (gx_groupId context)) (\<lambda>groupId.
     andThen (group_u32be (gx_epoch context)) (\<lambda>e.
     andThen (group_u32be (gx_generation context)) (\<lambda>g.
     andThen (assertBytes 32 (gx_senderGroupKey context)) (\<lambda>sender.
     andThen (group_u32be seq) (\<lambda>s.
       Inr (ascii ''PGA2'' @ groupId @ e @ g @ sender @ s @ header0 @ header1 @ bodyPrefix))))))"

text \<open>What the random source returns for one part, call by call.\<close>

record part_random =
  pr_bucket :: bytes
  pr_guard :: bytes
  pr_nonce :: bytes
  pr_messageId :: bytes
  pr_ephemeral :: bytes
  pr_kemSeed :: bytes
  pr_encapsulation :: bytes
  pr_recovery :: bytes

definition privateShapedHeader0 :: "nat \<Rightarrow> part_random \<Rightarrow> bytes" where
  "privateShapedHeader0 sizeClass random =
     ascii ''PH0C'' @ [1, word_of_int PUBLISH_CONV, word_of_nat sizeClass, word_of_int CONTRACT_HYBRID] @ pr_bucket random"

definition privateShapedHeader1 :: "int \<Rightarrow> part_random \<Rightarrow> bytes res" where
  "privateShapedHeader1 createdAtSec random =
     andThen (group_u32be createdAtSec) (\<lambda>created.
     andThen (group_u32be (createdAtSec + GROUP_CAPSULE_TTL_SECONDS)) (\<lambda>expires.
       Inr (ascii ''PH1B'' @ [1, 0] @ created @ expires @ pr_guard random)))"

definition privateShapedBodyPrefix :: "prims \<Rightarrow> part_random \<Rightarrow> bytes res" where
  "privateShapedBodyPrefix P random =
     (let ephemeral = p_x25519_public P (pr_ephemeral random);
          kemCiphertext = fst (p_mlkem_encapsulate P (fst (p_mlkem_keygen P (pr_kemSeed random))) (pr_encapsulation random)) in
      andThen (assertBytes GROUP_NONCE_BYTES (pr_nonce random)) (\<lambda>nonce.
      andThen (assertBytes 32 ephemeral) (\<lambda>ephemeral.
      andThen (assertBytes MLKEM768_CIPHERTEXT_BYTES kemCiphertext) (\<lambda>kemCiphertext.
        Inr (ascii ''PLB1'' @ [1, word_of_int CONTRACT_HYBRID, GROUP_WIRE_BODY_FLAGS, 0] @ pr_messageId random
          @ nonce @ ephemeral @ kemCiphertext @ ascii ''PSR1'' @ pr_recovery random)))))"

record group_capsule =
  gp_seq :: int
  gp_sizeClass :: nat
  gp_header0 :: bytes
  gp_header1 :: bytes
  gp_body :: bytes
  gp_wireBytes :: nat

definition group_plain :: "nat \<Rightarrow> capsule_plan \<Rightarrow> plan_part \<Rightarrow> bytes \<Rightarrow> bytes \<Rightarrow> int \<Rightarrow> bytes" where
  "group_plain kind plan part msgTag payload sentAt =
     (let from = pp_index part * GROUP_PART_MAX_BYTES in
      ascii ''PGP2'' @ [word_of_nat kind, word_of_nat (pp_index part), word_of_nat (cp_count plan), 0] @ msgTag
      @ be_bytes 4 (length payload) @ be_bytes 4 (pp_chunkBytes part) @ be_bytes 4 (nat (sentAt mod 2 ^ 32)) @ replicate 8 0
      @ slice from (from + pp_chunkBytes part) payload @ replicate (groupPartCapacity (pp_sizeClass part) - pp_chunkBytes part) 0)"

definition seal_group_part ::
    "prims \<Rightarrow> bytes \<Rightarrow> nat \<Rightarrow> bytes \<Rightarrow> group_context \<Rightarrow> int \<Rightarrow> int \<Rightarrow> int \<Rightarrow> bytes \<Rightarrow> (nat \<Rightarrow> part_random) \<Rightarrow> capsule_plan \<Rightarrow> plan_part
     \<Rightarrow> group_capsule res" where
  "seal_group_part P contentKey kind payload context firstSeq sentAt createdAtSec msgTag random plan part =
     (let seq = firstSeq + int (pp_index part); r = random (pp_index part); header0 = privateShapedHeader0 (pp_sizeClass part) r in
      andThen (privateShapedHeader1 createdAtSec r) (\<lambda>header1.
      andThen (privateShapedBodyPrefix P r) (\<lambda>prefix.
      andThen (groupAad context seq header0 header1 prefix) (\<lambda>aad.
        Inr \<lparr>gp_seq = seq, gp_sizeClass = pp_sizeClass part, gp_header0 = header0, gp_header1 = header1,
          gp_body = prefix @ p_seal P contentKey (pr_nonce r) aad (group_plain kind plan part msgTag payload sentAt),
          gp_wireBytes = pp_wireBytes part\<rparr>))))"

definition sealGroupCapsules ::
    "prims \<Rightarrow> bytes \<Rightarrow> nat \<Rightarrow> bytes \<Rightarrow> group_context \<Rightarrow> int \<Rightarrow> int \<Rightarrow> int \<Rightarrow> bytes \<Rightarrow> (nat \<Rightarrow> part_random) \<Rightarrow> group_capsule list res" where
  "sealGroupCapsules P contentKey kind payload context firstSeq sentAt createdAtSec msgTag random =
     andThen (assertBytes GROUP_KEY_BYTES contentKey) (\<lambda>contentKey.
     guard (kind \<in> set KIND_VALUES) (RangeError ''unknown group capsule kind'')
    (andThen (groupCapsulePlan (length payload)) (\<lambda>plan.
       mapRes (seal_group_part P contentKey kind payload context firstSeq sentAt createdAtSec msgTag random plan) (cp_parts plan))))"

section \<open>Opening and putting together\<close>

record group_part =
  gq_kind :: nat
  gq_part :: nat
  gq_parts :: nat
  gq_msgTag :: js_string
  gq_totalBytes :: nat
  gq_chunkBytes :: nat
  gq_sentAt :: nat
  gq_seq :: int
  gq_chunk :: bytes

text \<open>A view read past the end of the buffer throws.\<close>

definition view_uint :: "nat \<Rightarrow> bytes \<Rightarrow> nat \<Rightarrow> nat res" where
  "view_uint n plain offset =
     guard (offset + n \<le> length plain) (RangeError ''Offset is outside the bounds of the DataView'')
       (Inr (be_value (slice offset (offset + n) plain)))"

definition read_group_plain :: "int \<Rightarrow> bytes \<Rightarrow> group_part res" where
  "read_group_plain seq plain =
     guard (utf8_decode (slice 0 4 plain) = str ''PGP2'') (JsError ''not a group part'')
       (andThen (view_uint 1 plain 4) (\<lambda>kind.
        guard (kind \<in> set KIND_VALUES) (RangeError ''unknown group capsule kind'')
       (andThen (view_uint 4 plain 16) (\<lambda>chunkBytes.
        guard (\<not> GROUP_PART_HEADER_BYTES + chunkBytes > length plain) (RangeError ''a part chunk overruns its capsule'')
       (andThen (view_uint 1 plain 5) (\<lambda>part.
        andThen (view_uint 1 plain 6) (\<lambda>parts.
        andThen (view_uint 4 plain 12) (\<lambda>totalBytes.
        andThen (view_uint 4 plain 20) (\<lambda>sentAt.
          Inr \<lparr>gq_kind = kind, gq_part = part, gq_parts = parts, gq_msgTag = bytes_hex (slice 8 12 plain), gq_totalBytes = totalBytes,
            gq_chunkBytes = chunkBytes, gq_sentAt = sentAt, gq_seq = seq,
            gq_chunk = slice GROUP_PART_HEADER_BYTES (GROUP_PART_HEADER_BYTES + chunkBytes) plain\<rparr>)))))))))"

definition openGroupCapsule ::
    "prims \<Rightarrow> bytes \<Rightarrow> group_context \<Rightarrow> int \<Rightarrow> bytes \<Rightarrow> bytes \<Rightarrow> bytes \<Rightarrow> group_part res" where
  "openGroupCapsule P contentKey context seq header0 header1 body =
     andThen (assertBytes GROUP_KEY_BYTES contentKey) (\<lambda>contentKey.
     andThen (assertBytes GROUP_WIRE_HEADER0_BYTES header0) (\<lambda>header0.
     andThen (assertBytes GROUP_WIRE_HEADER1_BYTES header1) (\<lambda>header1.
     guard (\<not> length body < GROUP_WIRE_BODY_PREFIX_BYTES + GROUP_PART_HEADER_BYTES + GROUP_TAG_BYTES) (RangeError ''group body too short'')
       (let prefix = slice 0 GROUP_WIRE_BODY_PREFIX_BYTES body;
            nonce = slice GROUP_WIRE_NONCE_OFFSET (GROUP_WIRE_NONCE_OFFSET + GROUP_NONCE_BYTES) body in
        andThen (groupAad context seq header0 header1 prefix) (\<lambda>aad.
        andThen (opened P contentKey nonce aad (drop GROUP_WIRE_BODY_PREFIX_BYTES body) ''OperationError'') (\<lambda>plain.
          read_group_plain seq plain))))))"

text \<open>The loop of \<open>assembleGroupParts\<close>, from \<open>index\<close> on; the pieces so far end at \<open>pos\<close>.\<close>

fun assemble_loop :: "nat \<Rightarrow> nat \<Rightarrow> js_string \<Rightarrow> nat \<Rightarrow> nat \<Rightarrow> group_part list \<Rightarrow> bytes option" where
  "assemble_loop howMany totalBytes msgTag index pos [] = (if pos = totalBytes then Some [] else None)"
| "assemble_loop howMany totalBytes msgTag index pos (piece # pieces) =
     (if gq_part piece \<noteq> index \<or> gq_parts piece \<noteq> howMany \<or> gq_totalBytes piece \<noteq> totalBytes \<or> gq_msgTag piece \<noteq> msgTag then None
      else if pos + length (gq_chunk piece) > totalBytes then None
      else map_option ((@) (gq_chunk piece)) (assemble_loop howMany totalBytes msgTag (Suc index) (pos + length (gq_chunk piece)) pieces))"

definition assembleGroupParts :: "group_part list \<Rightarrow> bytes option" where
  "assembleGroupParts parts =
     (case sort_key gq_part parts of
        [] \<Rightarrow> None
      | first # rest \<Rightarrow>
          (let ordered = first # rest; howMany = gq_parts first; totalBytes = gq_totalBytes first; msgTag = gq_msgTag first in
           if length ordered \<noteq> howMany then None
           else if totalBytes > GROUP_MAX_PARTS * last GROUP_SIZE_CLASSES then None
           else assemble_loop howMany totalBytes msgTag 0 0 ordered))"

section \<open>The plan covers the payload\<close>

lemma group_size_class:
  assumes "chunkBytes \<le> 32704"
  shows "\<exists>c. groupSizeClassFor chunkBytes = Inr c \<and> chunkBytes \<le> groupPartCapacity c \<and> c \<in> {1, 2, 4, 8, 16, 32}"
  using assms by (simp add: groupSizeClassFor_def GROUP_SIZE_CLASSES_def PLATHO_CAPSULE_USEFUL_SIZE_CLASSES_def Let_def
      groupPartCapacity_def PLATHO_COMPACT_TEXT_BLOCK_BYTES_def PLATHO_COMPACT_SENDER_RECOVERY_BYTES_def)

definition plan_count :: "nat \<Rightarrow> nat" where
  "plan_count n = max 1 ((n + 32703) div 32704)"

definition chunk_at :: "bytes \<Rightarrow> nat \<Rightarrow> bytes" where
  "chunk_at payload i = slice (i * 32704) (i * 32704 + min 32704 (length payload - i * 32704)) payload"

lemma plan_part_total:
  "\<exists>part. plan_part_at n i = Inr part \<and> pp_index part = i \<and> pp_chunkBytes part = min 32704 (n - i * 32704)
     \<and> pp_chunkBytes part \<le> groupPartCapacity (pp_sizeClass part) \<and> pp_wireBytes part = groupCapsuleWireBytes (pp_sizeClass part)"
  using group_size_class [of "min 32704 (n - i * 32704)"] by (auto simp: plan_part_at_def Let_def)

text \<open>A loop whose body never throws answers its values in order.\<close>

lemma mapRes_nth: "mapRes f xs = Inr ys \<Longrightarrow> i < length xs \<Longrightarrow> f (xs ! i) = Inr (ys ! i)"
  by (induction xs arbitrary: ys i) (auto simp: res_simps less_Suc_eq_0_disj)

lemma mapRes_ok: "(\<And>x. x \<in> set xs \<Longrightarrow> \<exists>y. f x = Inr y) \<Longrightarrow> \<exists>ys. mapRes f xs = Inr ys"
proof (induction xs)
  case (Cons x xs)
  then obtain y ys where "f x = Inr y" "mapRes f xs = Inr ys" by (metis list.set_intros)
  then show ?case by simp
qed simp

lemma group_plan:
  assumes "n \<le> 64 * 32704"
  shows "\<exists>plan. groupCapsulePlan n = Inr plan \<and> cp_count plan = plan_count n \<and> length (cp_parts plan) = plan_count n
           \<and> plan_count n \<le> 64
           \<and> (\<forall>i < plan_count n. plan_part_at n i = Inr (cp_parts plan ! i))"
proof -
  have "\<exists>ps. mapRes (plan_part_at n) [0..<plan_count n] = Inr ps"
    by (rule mapRes_ok) (meson plan_part_total)
  then obtain ps where ps: "mapRes (plan_part_at n) [0..<plan_count n] = Inr ps" ..
  have howMany: "plan_count n \<le> 64" using assms by (simp add: plan_count_def)
  have "\<forall>i < plan_count n. plan_part_at n i = Inr (ps ! i)"
    using mapRes_nth [OF ps] by simp
  moreover have "max 1 ((n + GROUP_PART_MAX_BYTES - 1) div GROUP_PART_MAX_BYTES) = plan_count n" by (simp add: plan_count_def add.commute)
  then have "groupCapsulePlan n = Inr \<lparr>cp_count = plan_count n, cp_parts = ps, cp_wireBytes = sum_list (map pp_wireBytes ps)\<rparr>"
    using howMany ps by (simp only: groupCapsulePlan_def GROUP_MAX_PARTS_def Let_def not_less guard_True andThen.simps)
  ultimately show ?thesis using howMany mapRes_length [OF ps] by simp
qed

lemma chunks_cover: "concat (map (chunk_at payload) [0..<plan_count (length payload)]) = payload"
proof -
  have part: "concat (map (chunk_at payload) [0..<k]) = take (k * 32704) payload" for k
  proof (induction k)
    case (Suc k)
    have "take (min 32704 (length payload - k * 32704)) (drop (k * 32704) payload) = take 32704 (drop (k * 32704) payload)"
      by (cases "32704 \<le> length payload - k * 32704") simp_all
    then have "chunk_at payload k = take 32704 (drop (k * 32704) payload)" by (simp add: chunk_at_def slice_def)
    with Suc show ?case by (simp add: take_add add.commute [of 32704])
  qed simp
  have "length payload \<le> plan_count (length payload) * 32704"
  proof -
    have "(length payload + 32703) div 32704 * 32704 + (length payload + 32703) mod 32704 = length payload + 32703"
      "(length payload + 32703) mod 32704 < 32704"
      by (rule div_mult_mod_eq) simp
    then have "length payload \<le> (length payload + 32703) div 32704 * 32704" by linarith
    also have "\<dots> \<le> plan_count (length payload) * 32704" by (simp add: plan_count_def)
    finally show ?thesis .
  qed
  then show ?thesis by (simp add: part)
qed

section \<open>One part\<close>

lemma magics:
  "ascii ''PGP2'' = [80, 71, 80, 50]" "length (ascii ''PH0C'') = 4" "length (ascii ''PH1B'') = 4" "length (ascii ''PLB1'') = 4"
  "length (ascii ''PSR1'') = 4"
  by (simp_all add: ascii_def str_def)

lemma decode_group_magic: "utf8_decode [80, 71, 80, 50] = str ''PGP2''"
  using utf8_decode_encode [of "str ''PGP2''"] magics(1)
  by (simp add: ascii_def well_formed_text_def str_def is_scalar_def is_surrogate_def)

lemma view_field: "length xs = a \<Longrightarrow> length ys = n \<Longrightarrow> view_uint n (xs @ ys @ zs) a = Inr (be_value ys)"
  by (auto simp: view_uint_def slice_def)

lemma be_value_byte: "be_value [b] = unat b"
  by (simp add: be_value_def)

definition group_part_of :: "int \<Rightarrow> nat \<Rightarrow> capsule_plan \<Rightarrow> plan_part \<Rightarrow> bytes \<Rightarrow> bytes \<Rightarrow> int \<Rightarrow> group_part" where
  "group_part_of seq kind plan part msgTag payload sentAt =
     \<lparr>gq_kind = kind, gq_part = pp_index part, gq_parts = cp_count plan, gq_msgTag = bytes_hex msgTag, gq_totalBytes = length payload,
       gq_chunkBytes = pp_chunkBytes part, gq_sentAt = nat (sentAt mod 2 ^ 32), gq_seq = seq,
       gq_chunk = slice (pp_index part * 32704) (pp_index part * 32704 + pp_chunkBytes part) payload\<rparr>"

lemma group_plain_read:
  assumes "kind \<in> set KIND_VALUES" "length msgTag = 4" "pp_index part < 64" "cp_count plan \<le> 64" "length payload < 2 ^ 32"
    "pp_chunkBytes part \<le> length payload - pp_index part * 32704" "pp_chunkBytes part \<le> groupPartCapacity (pp_sizeClass part)"
  shows "read_group_plain seq (group_plain kind plan part msgTag payload sentAt) = Inr (group_part_of seq kind plan part msgTag payload sentAt)"
proof -
  define ch where "ch = slice (pp_index part * 32704) (pp_index part * 32704 + pp_chunkBytes part) payload"
  define pad where "pad = replicate (groupPartCapacity (pp_sizeClass part) - pp_chunkBytes part) (0 :: byte)"
  define m where "m = ([80, 71, 80, 50] :: bytes)"
  define k :: byte where "k = word_of_nat kind"
  define i :: byte where "i = word_of_nat (pp_index part)"
  define c :: byte where "c = word_of_nat (cp_count plan)"
  define a where "a = be_bytes 4 (length payload)"
  define b where "b = be_bytes 4 (pp_chunkBytes part)"
  define t where "t = be_bytes 4 (nat (sentAt mod 2 ^ 32))"
  define z where "z = replicate 8 (0 :: byte)"
  have plain: "group_plain kind plan part msgTag payload sentAt = m @ [k] @ [i] @ [c] @ [0] @ msgTag @ a @ b @ t @ z @ ch @ pad"
    by (simp add: group_plain_def Let_def magics ch_def pad_def m_def k_def i_def c_def a_def b_def t_def z_def)
  have len: "length m = 4" "length a = 4" "length b = 4" "length t = 4" "length z = 8" "length ch = pp_chunkBytes part"
    using assms(6) by (simp_all add: m_def a_def b_def t_def z_def ch_def)
  have "\<forall>x \<in> set KIND_VALUES. unat (word_of_nat x :: byte) = x" by (simp add: KIND_VALUES_def)
  then have kv: "unat k = kind" using assms(1) by (simp add: k_def)
  have iv: "unat i = pp_index part" "unat c = cp_count plan" using assms(3,4) by (simp_all add: i_def c_def unat_small_byte)
  have sent: "nat (sentAt mod 2 ^ 32) < 2 ^ 32" by (simp add: nat_less_iff)
  have small: "be_value a = length payload" "be_value b = pp_chunkBytes part" "be_value t = nat (sentAt mod 2 ^ 32)"
    using assms(5,6) sent by (simp_all add: a_def b_def t_def be_value_be_bytes)
  have magic: "slice 0 4 (m @ [k] @ [i] @ [c] @ [0] @ msgTag @ a @ b @ t @ z @ ch @ pad) = m" by (simp add: slice_def len(1))
  have v4: "view_uint 1 (m @ [k] @ [i] @ [c] @ [0] @ msgTag @ a @ b @ t @ z @ ch @ pad) 4 = Inr kind"
    using view_field [of m 4 "[k]" 1] len kv be_value_byte by simp
  have v5: "view_uint 1 (m @ [k] @ [i] @ [c] @ [0] @ msgTag @ a @ b @ t @ z @ ch @ pad) 5 = Inr (pp_index part)"
    using view_field [of "m @ [k]" 5 "[i]" 1] len iv be_value_byte by simp
  have v6: "view_uint 1 (m @ [k] @ [i] @ [c] @ [0] @ msgTag @ a @ b @ t @ z @ ch @ pad) 6 = Inr (cp_count plan)"
    using view_field [of "m @ [k, i]" 6 "[c]" 1] len iv be_value_byte by simp
  have v12: "view_uint 4 (m @ [k] @ [i] @ [c] @ [0] @ msgTag @ a @ b @ t @ z @ ch @ pad) 12 = Inr (length payload)"
    using view_field [of "m @ [k, i, c, 0] @ msgTag" 12 a 4] len small assms(2) by simp
  have v16: "view_uint 4 (m @ [k] @ [i] @ [c] @ [0] @ msgTag @ a @ b @ t @ z @ ch @ pad) 16 = Inr (pp_chunkBytes part)"
    using view_field [of "m @ [k, i, c, 0] @ msgTag @ a" 16 b 4] len small assms(2) by simp
  have v20: "view_uint 4 (m @ [k] @ [i] @ [c] @ [0] @ msgTag @ a @ b @ t @ z @ ch @ pad) 20 = Inr (nat (sentAt mod 2 ^ 32))"
    using view_field [of "m @ [k, i, c, 0] @ msgTag @ a @ b" 20 t 4] len small assms(2) by simp
  have tag: "slice 8 12 (m @ [k] @ [i] @ [c] @ [0] @ msgTag @ a @ b @ t @ z @ ch @ pad) = msgTag"
    using slice_field [of 8 "m @ [k, i, c, 0]" 12 msgTag] len assms(2) by simp
  have chunk: "slice 32 (32 + pp_chunkBytes part) (m @ [k] @ [i] @ [c] @ [0] @ msgTag @ a @ b @ t @ z @ ch @ pad) = ch"
    using slice_field [of 32 "m @ [k, i, c, 0] @ msgTag @ a @ b @ t @ z" "32 + pp_chunkBytes part" ch pad] len assms(2) by simp
  have fits: "32 + pp_chunkBytes part \<le> length (m @ [k] @ [i] @ [c] @ [0] @ msgTag @ a @ b @ t @ z @ ch @ pad)"
    using len assms(2) by simp
  have d: "utf8_decode m = str ''PGP2''" unfolding m_def by (rule decode_group_magic)
  show ?thesis
    unfolding plain read_group_plain_def group_sizes magic v4 v5 v6 v12 v16 v20 tag
    using assms(1) d fits by (simp only: guard_True andThen.simps simp_thms not_less chunk group_part_of_def ch_def [symmetric])
qed

definition random_ok :: "part_random \<Rightarrow> bool" where
  "random_ok r \<longleftrightarrow> length (pr_bucket r) = 32 \<and> length (pr_guard r) = 16 \<and> length (pr_nonce r) = 12 \<and> length (pr_messageId r) = 16
     \<and> length (pr_recovery r) = 60"

definition u32 :: "int \<Rightarrow> bool" where
  "u32 n \<longleftrightarrow> 0 \<le> n \<and> n \<le> 0xffffffff"

lemma group_u32be_ok: "u32 n \<Longrightarrow> group_u32be n = Inr (be_bytes 4 (nat n))"
  by (simp add: u32_def group_u32be_def)

definition context_ok :: "group_context \<Rightarrow> bool" where
  "context_ok x \<longleftrightarrow> length (gx_groupId x) = 32 \<and> length (gx_senderGroupKey x) = 32 \<and> u32 (gx_epoch x) \<and> u32 (gx_generation x)"

lemma groupAad_total:
  "context_ok x \<Longrightarrow> u32 seq \<Longrightarrow> \<exists>aad. groupAad x seq h0 h1 prefix = Inr aad"
  by (simp add: groupAad_def context_ok_def assertBytes_def GROUP_ID_BYTES_def group_u32be_ok)

lemma body_prefix:
  assumes "random_ok r" "agreement_laws P" "kem_laws P"
  shows "\<exists>head tail. privateShapedBodyPrefix P r = Inr (head @ pr_nonce r @ tail) \<and> length head = 24 \<and> length tail = 1184"
proof -
  have "length (p_x25519_public P (pr_ephemeral r)) = 32" using assms(2) by (simp add: agreement_laws_def)
  moreover have "length (fst (p_mlkem_encapsulate P (fst (p_mlkem_keygen P (pr_kemSeed r))) (pr_encapsulation r))) = 1088"
    using assms(3) by (simp add: kem_laws_def)
  ultimately show ?thesis using assms(1) magics(4,5)
    by (intro exI [of _ "ascii ''PLB1'' @ [1, word_of_int CONTRACT_HYBRID, GROUP_WIRE_BODY_FLAGS, 0] @ pr_messageId r"]
        exI [of _ "p_x25519_public P (pr_ephemeral r)
          @ fst (p_mlkem_encapsulate P (fst (p_mlkem_keygen P (pr_kemSeed r))) (pr_encapsulation r)) @ ascii ''PSR1'' @ pr_recovery r"])
      (simp add: privateShapedBodyPrefix_def Let_def assertBytes_def GROUP_NONCE_BYTES_def MLKEM768_CIPHERTEXT_BYTES_def random_ok_def)
qed

text \<open>What is sealed as a part is opened to its plaintext, with the headers and the sequence number it was sealed with.\<close>

lemma group_part_opens:
  assumes "random_ok (random (pp_index part))" "agreement_laws P" "kem_laws P" "aead_laws P" "length contentKey = 32" "context_ok context"
    "u32 (firstSeq + int (pp_index part))" "u32 createdAtSec" "u32 (createdAtSec + 86400)"
    "length msgTag = 4" "pp_chunkBytes part \<le> groupPartCapacity (pp_sizeClass part)"
    "pp_chunkBytes part \<le> length payload - pp_index part * 32704" "pp_wireBytes part = groupCapsuleWireBytes (pp_sizeClass part)"
  shows "\<exists>c. seal_group_part P contentKey kind payload context firstSeq sentAt createdAtSec msgTag random plan part = Inr c
     \<and> gp_seq c = firstSeq + int (pp_index part)
     \<and> openGroupCapsule P contentKey context (gp_seq c) (gp_header0 c) (gp_header1 c) (gp_body c)
         = read_group_plain (gp_seq c) (group_plain kind plan part msgTag payload sentAt)
     \<and> gp_wireBytes c = length (gp_header0 c) + length (gp_header1 c) + length (gp_body c)"
proof -
  define r where "r = random (pp_index part)"
  define plain where "plain = group_plain kind plan part msgTag payload sentAt"
  note rok = assms(1) [folded r_def]
  have lens: "length (pr_bucket r) = 32" "length (pr_guard r) = 16" "length (pr_nonce r) = 12" using rok by (simp_all add: random_ok_def)
  define h0 where "h0 = privateShapedHeader0 (pp_sizeClass part) r"
  have h0: "length h0 = 40" by (simp add: h0_def privateShapedHeader0_def magics lens)
  obtain h1 where h1: "privateShapedHeader1 createdAtSec r = Inr h1" "length h1 = 30"
    using assms(8,9) by (simp add: privateShapedHeader1_def GROUP_CAPSULE_TTL_SECONDS_def group_u32be_ok magics lens)
  obtain hd tl where prefix: "privateShapedBodyPrefix P r = Inr (hd @ pr_nonce r @ tl)" "length hd = 24" "length tl = 1184"
    using body_prefix [OF rok assms(2,3)] by blast
  define pre where "pre = hd @ pr_nonce r @ tl"
  have pre: "length pre = 1220" "slice 24 36 pre = pr_nonce r"
    using prefix(2,3) lens(3) by (simp_all add: pre_def slice_def)
  obtain aad where aad: "groupAad context (firstSeq + int (pp_index part)) h0 h1 pre = Inr aad"
    using groupAad_total [OF assms(6,7)] by blast
  define sealed where "sealed = p_seal P contentKey (pr_nonce r) aad plain"
  have aead: "p_open P contentKey (pr_nonce r) aad sealed = Some plain" "length sealed = length plain + 16"
    using assms(4) by (simp_all add: aead_laws_def sealed_def)
  have plain_length: "length plain = 32 + groupPartCapacity (pp_sizeClass part)"
    using assms(10,11,12) by (simp add: plain_def group_plain_def Let_def magics)
  define c where "c = \<lparr>gp_seq = firstSeq + int (pp_index part), gp_sizeClass = pp_sizeClass part, gp_header0 = h0, gp_header1 = h1,
    gp_body = pre @ sealed, gp_wireBytes = pp_wireBytes part\<rparr>"
  have "seal_group_part P contentKey kind payload context firstSeq sentAt createdAtSec msgTag random plan part = Inr c"
    using h1(1) prefix(1) aad by (simp add: seal_group_part_def Let_def c_def pre_def sealed_def plain_def flip: h0_def r_def)
  moreover have "slice 0 1220 (pre @ sealed) = pre" "slice 24 36 (pre @ sealed) = pr_nonce r" "drop 1220 (pre @ sealed) = sealed"
    using pre by (simp_all add: slice_def)
  then have "openGroupCapsule P contentKey context (gp_seq c) (gp_header0 c) (gp_header1 c) (gp_body c) = read_group_plain (gp_seq c) plain"
    using assms(5) h0 h1(2) pre(1) aead plain_length aad
    by (simp add: openGroupCapsule_def c_def assertBytes_def group_sizes Let_def opened_def)
  moreover have "gp_wireBytes c = length (gp_header0 c) + length (gp_header1 c) + length (gp_body c)"
    using assms(13) h0 h1(2) pre(1) aead(2) plain_length by (simp add: c_def groupCapsuleWireBytes_def group_sizes)
  ultimately show ?thesis by (auto simp: c_def plain_def)
qed

section \<open>Putting the parts together\<close>

text \<open>Opened parts of one payload, in their order.\<close>

definition parts_of :: "bytes \<Rightarrow> js_string \<Rightarrow> group_part list \<Rightarrow> bool" where
  "parts_of payload tag ps \<longleftrightarrow> ps \<noteq> [] \<and> length payload \<le> 64 * 32768 \<and> concat (map gq_chunk ps) = payload
     \<and> (\<forall>i < length ps. gq_part (ps ! i) = i \<and> gq_parts (ps ! i) = length ps \<and> gq_totalBytes (ps ! i) = length payload
          \<and> gq_msgTag (ps ! i) = tag)"

lemma assemble_loop_all:
  "\<forall>i < length ps. gq_part (ps ! i) = index + i \<and> gq_parts (ps ! i) = howMany \<and> gq_totalBytes (ps ! i) = n \<and> gq_msgTag (ps ! i) = tag \<Longrightarrow>
   pos + length (concat (map gq_chunk ps)) = n \<Longrightarrow>
   assemble_loop howMany n tag index pos ps = Some (concat (map gq_chunk ps))"
proof (induction ps arbitrary: index pos)
  case (Cons p ps)
  have "\<forall>i < length ps. gq_part (ps ! i) = Suc index + i \<and> gq_parts (ps ! i) = howMany \<and> gq_totalBytes (ps ! i) = n \<and> gq_msgTag (ps ! i) = tag"
    using Cons.prems(1) by (auto dest: spec [of _ "Suc _"])
  moreover have "gq_part p = index" "gq_parts p = howMany" "gq_totalBytes p = n" "gq_msgTag p = tag"
    using Cons.prems(1) by (auto dest: spec [of _ 0])
  ultimately show ?case
    using Cons.IH [of "Suc index" "pos + length (gq_chunk p)"] Cons.prems(2) by simp
qed simp

lemma assemble_loop_indexes:
  "assemble_loop howMany n tag index pos ps = Some bs \<Longrightarrow> i < length ps \<Longrightarrow> gq_part (ps ! i) = index + i"
proof (induction ps arbitrary: index pos bs i)
  case (Cons p ps)
  then show ?case by (cases i) (auto split: if_splits)
qed simp

lemma parts_sorted: "parts_of payload tag ps \<Longrightarrow> sorted (map gq_part ps)"
  by (auto simp: parts_of_def sorted_iff_nth_mono)

lemma parts_distinct: "parts_of payload tag ps \<Longrightarrow> inj_on gq_part (set ps)"
  by (auto simp: parts_of_def inj_on_def in_set_conv_nth)

lemma assemble_in_order:
  assumes "parts_of payload tag ps" "sort_key gq_part qs = ps"
  shows "assembleGroupParts qs = Some payload"
proof -
  have "ps \<noteq> []" using assms(1) by (simp add: parts_of_def)
  then obtain p rest where ps: "ps = p # rest" by (cases ps) simp_all
  have p: "gq_parts p = length ps" "gq_totalBytes p = length payload" "gq_msgTag p = tag"
    using assms(1) ps by (auto simp: parts_of_def dest: spec [of _ 0])
  have "assemble_loop (length ps) (length payload) tag 0 0 ps = Some payload"
    using assemble_loop_all [of ps 0 "length ps" "length payload" tag 0] assms(1) by (simp add: parts_of_def)
  moreover have "length payload \<le> 64 * 32768" using assms(1) by (simp add: parts_of_def)
  ultimately show ?thesis
    using p ps by (simp add: assembleGroupParts_def assms(2) Let_def GROUP_MAX_PARTS_def GROUP_SIZE_CLASSES_def
        PLATHO_CAPSULE_USEFUL_SIZE_CLASSES_def)
qed

text \<open>Parts of one payload give the payload when each is there once, in any order, and nothing otherwise.\<close>

lemma assemble_exactly:
  assumes "parts_of payload tag ps" "set qs \<subseteq> set ps"
  shows "assembleGroupParts qs = (if mset qs = mset ps then Some payload else None)"
proof (cases "mset qs = mset ps")
  case True
  have "sort_key gq_part qs = ps"
    using sort_key_inj_key_eq [OF True _ parts_sorted [OF assms(1)]] parts_distinct [OF assms(1)] mset_eq_setD [OF True] by simp
  with True assms(1) show ?thesis by (simp add: assemble_in_order)
next
  case False
  have "assembleGroupParts qs = None"
  proof (rule ccontr)
    assume "assembleGroupParts qs \<noteq> None"
    then obtain bs p rest where o: "sort_key gq_part qs = p # rest" "length (p # rest) = gq_parts p"
        "assemble_loop (gq_parts p) (gq_totalBytes p) (gq_msgTag p) 0 0 (p # rest) = Some bs"
      by (auto simp: assembleGroupParts_def Let_def split: list.splits if_splits)
    have sub: "set (p # rest) \<subseteq> set ps" using assms(2) o(1) by (metis set_sort)
    then obtain j where "j < length ps" "p = ps ! j" by (auto simp: in_set_conv_nth)
    then have len: "length (p # rest) = length ps" using o(2) assms(1) by (auto simp: parts_of_def)
    have "(p # rest) ! i = ps ! i" if i: "i < length ps" for i
    proof -
      have "(p # rest) ! i \<in> set ps" using sub len i nth_mem [of i "p # rest"] by auto
      then obtain j where j: "j < length ps" "(p # rest) ! i = ps ! j" by (auto simp: in_set_conv_nth)
      then have "gq_part ((p # rest) ! i) = j" using assms(1) by (simp add: parts_of_def)
      moreover have "gq_part ((p # rest) ! i) = i" using assemble_loop_indexes [OF o(3)] len i by simp
      ultimately show ?thesis using j(2) by simp
    qed
    with len have "p # rest = ps" by (intro nth_equalityI) simp_all
    with o(1) False show False by (metis mset_sort)
  qed
  with False show ?thesis by simp
qed

section \<open>The message as a whole\<close>

definition open_group :: "prims \<Rightarrow> bytes \<Rightarrow> group_context \<Rightarrow> group_capsule \<Rightarrow> group_part res" where
  "open_group P contentKey context c = openGroupCapsule P contentKey context (gp_seq c) (gp_header0 c) (gp_header1 c) (gp_body c)"

definition opened_part :: "int \<Rightarrow> nat \<Rightarrow> bytes \<Rightarrow> bytes \<Rightarrow> int \<Rightarrow> nat \<Rightarrow> group_part" where
  "opened_part firstSeq kind msgTag payload sentAt i =
     \<lparr>gq_kind = kind, gq_part = i, gq_parts = plan_count (length payload), gq_msgTag = bytes_hex msgTag, gq_totalBytes = length payload,
       gq_chunkBytes = min 32704 (length payload - i * 32704), gq_sentAt = nat (sentAt mod 2 ^ 32), gq_seq = firstSeq + int i,
       gq_chunk = chunk_at payload i\<rparr>"

lemma mapRes_map: "mapRes f xs = Inr ys \<Longrightarrow> (\<And>i. i < length xs \<Longrightarrow> g (ys ! i) = Inr (h i)) \<Longrightarrow> mapRes g ys = Inr (map h [0..<length xs])"
proof -
  assume a: "mapRes f xs = Inr ys" "\<And>i. i < length xs \<Longrightarrow> g (ys ! i) = Inr (h i)"
  have "(\<And>i. i < length zs \<Longrightarrow> g (zs ! i) = Inr (k i)) \<Longrightarrow> mapRes g zs = Inr (map k [0..<length zs])" for zs k
  proof (induction zs arbitrary: k)
    case (Cons z zs)
    have "mapRes g zs = Inr (map (k \<circ> Suc) [0..<length zs])" by (rule Cons.IH) (use Cons.prems in force)
    moreover have "g z = Inr (k 0)" using Cons.prems [of 0] by simp
    moreover have "map k [0..<length (z # zs)] = k 0 # map (k \<circ> Suc) [0..<length zs]"
      by (simp add: map_upt_Suc o_def del: upt_Suc)
    ultimately show ?case by simp
  qed simp
  from this [of ys h] a mapRes_length [OF a(1)] show ?thesis by simp
qed

lemma opened_parts_of:
  assumes "length payload \<le> 64 * 32704"
  shows "parts_of payload (bytes_hex msgTag) (map (opened_part firstSeq kind msgTag payload sentAt) [0..<plan_count (length payload)])"
proof -
  have "map gq_chunk (map (opened_part firstSeq kind msgTag payload sentAt) [0..<plan_count (length payload)])
      = map (chunk_at payload) [0..<plan_count (length payload)]"
    by (simp add: opened_part_def)
  then have "concat (map gq_chunk (map (opened_part firstSeq kind msgTag payload sentAt) [0..<plan_count (length payload)])) = payload"
    by (simp only: chunks_cover)
  moreover have "plan_count (length payload) \<noteq> 0" by (simp add: plan_count_def)
  ultimately show ?thesis using assms by (simp add: parts_of_def opened_part_def)
qed

lemma group_seal_each:
  assumes "crypto_laws P" "length contentKey = 32" "kind \<in> set KIND_VALUES" "context_ok context" "length payload \<le> 64 * 32704"
    "0 \<le> firstSeq" "firstSeq + 63 \<le> 0xffffffff" "0 \<le> createdAtSec" "createdAtSec + 86400 \<le> 0xffffffff" "length msgTag = 4"
    "\<forall>i. random_ok (random i)" "groupCapsulePlan (length payload) = Inr plan" "cp_count plan = plan_count (length payload)"
    "plan_count (length payload) \<le> 64" "i < plan_count (length payload)" "plan_part_at (length payload) i = Inr part"
  shows "\<exists>c. seal_group_part P contentKey kind payload context firstSeq sentAt createdAtSec msgTag random plan part = Inr c
     \<and> gp_seq c = firstSeq + int i \<and> open_group P contentKey context c = Inr (opened_part firstSeq kind msgTag payload sentAt i)
     \<and> gp_wireBytes c = length (gp_header0 c) + length (gp_header1 c) + length (gp_body c)"
proof -
  have laws: "agreement_laws P" "kem_laws P" "aead_laws P" using assms(1) by (simp_all add: crypto_laws_def)
  obtain part' where part': "plan_part_at (length payload) i = Inr part'" "pp_index part' = i"
      "pp_chunkBytes part' = min 32704 (length payload - i * 32704)" "pp_chunkBytes part' \<le> groupPartCapacity (pp_sizeClass part')"
      "pp_wireBytes part' = groupCapsuleWireBytes (pp_sizeClass part')"
    using plan_part_total [of "length payload" i] by blast
  then have part: "pp_index part = i" "pp_chunkBytes part = min 32704 (length payload - i * 32704)"
      "pp_chunkBytes part \<le> groupPartCapacity (pp_sizeClass part)" "pp_wireBytes part = groupCapsuleWireBytes (pp_sizeClass part)"
    using assms(16) by simp_all
  have i: "i < 64" using assms(14,15) by simp
  then have u: "u32 (firstSeq + int (pp_index part))" "u32 createdAtSec" "u32 (createdAtSec + 86400)"
    using assms(6-9) part(1) by (simp_all add: u32_def)
  have fits: "pp_chunkBytes part \<le> length payload - pp_index part * 32704" using part(1,2) by simp
  have "random_ok (random (pp_index part))" using assms(11) by simp
  then obtain c where c: "seal_group_part P contentKey kind payload context firstSeq sentAt createdAtSec msgTag random plan part = Inr c"
      "gp_seq c = firstSeq + int (pp_index part)"
      "openGroupCapsule P contentKey context (gp_seq c) (gp_header0 c) (gp_header1 c) (gp_body c)
         = read_group_plain (gp_seq c) (group_plain kind plan part msgTag payload sentAt)"
      "gp_wireBytes c = length (gp_header0 c) + length (gp_header1 c) + length (gp_body c)"
    using group_part_opens [where random = random, OF _ laws assms(2,4) u assms(10) part(3) fits part(4)] by blast
  have "read_group_plain (gp_seq c) (group_plain kind plan part msgTag payload sentAt)
      = Inr (group_part_of (gp_seq c) kind plan part msgTag payload sentAt)"
  proof (rule group_plain_read [OF assms(3,10) _ _ _ fits part(3)])
    show "pp_index part < 64" "cp_count plan \<le> 64" using i part(1) assms(13,14) by simp_all
    show "length payload < 2 ^ 32" using assms(5) by simp
  qed
  also have "group_part_of (gp_seq c) kind plan part msgTag payload sentAt = opened_part firstSeq kind msgTag payload sentAt i"
    by (simp add: group_part_of_def opened_part_def part(1,2) assms(13) c(2) chunk_at_def)
  finally show ?thesis using c part(1) by (simp add: open_group_def)
qed

text \<open>
  C20: A message to a group of at most 64 capsules is cut, sealed and numbered consecutively, every capsule has
  the announced size, and every member with the content key of the day opens each of them. From the opened parts,
  found in any order, the payload is put together exactly when every part is there once; with a part missing,
  or one found twice in another's place, there is no payload.
\<close>

theorem group_message_reassembles:
  assumes "crypto_laws P" "length contentKey = 32" "kind \<in> set KIND_VALUES" "context_ok context" "length payload \<le> 64 * 32704"
    "0 \<le> firstSeq" "firstSeq + 63 \<le> 0xffffffff" "0 \<le> createdAtSec" "createdAtSec + 86400 \<le> 0xffffffff" "length msgTag = 4"
    "\<forall>i. random_ok (random i)"
  shows "\<exists>capsules parts.
     sealGroupCapsules P contentKey kind payload context firstSeq sentAt createdAtSec msgTag random = Inr capsules
     \<and> (\<forall>i < length capsules. gp_seq (capsules ! i) = firstSeq + int i
          \<and> gp_wireBytes (capsules ! i) = length (gp_header0 (capsules ! i)) + length (gp_header1 (capsules ! i)) + length (gp_body (capsules ! i)))
     \<and> mapRes (open_group P contentKey context) capsules = Inr parts
     \<and> (\<forall>p \<in> set parts. gq_kind p = kind \<and> gq_sentAt p = nat (sentAt mod 2 ^ 32))
     \<and> (\<forall>found. set found \<subseteq> set parts \<longrightarrow> assembleGroupParts found = (if mset found = mset parts then Some payload else None))"
proof -
  let ?n = "plan_count (length payload)" and ?opened = "opened_part firstSeq kind msgTag payload sentAt"
  let ?seal = "\<lambda>plan. seal_group_part P contentKey kind payload context firstSeq sentAt createdAtSec msgTag random plan"
  obtain plan where plan: "groupCapsulePlan (length payload) = Inr plan" "cp_count plan = ?n" "length (cp_parts plan) = ?n"
      "?n \<le> 64" "\<forall>i < ?n. plan_part_at (length payload) i = Inr (cp_parts plan ! i)"
    using group_plan [OF assms(5)] by blast
  have each: "\<exists>c. ?seal plan (cp_parts plan ! i) = Inr c \<and> gp_seq c = firstSeq + int i
      \<and> open_group P contentKey context c = Inr (?opened i)
      \<and> gp_wireBytes c = length (gp_header0 c) + length (gp_header1 c) + length (gp_body c)" if "i < ?n" for i
    by (rule group_seal_each [OF assms plan(1,2,4) that]) (use plan(5) that in blast)
  have "\<exists>cs. mapRes (?seal plan) (cp_parts plan) = Inr cs"
    by (rule mapRes_ok) (metis each in_set_conv_nth plan(3))
  then obtain cs where cs: "mapRes (?seal plan) (cp_parts plan) = Inr cs" ..
  have len: "length cs = ?n" using mapRes_length [OF cs] plan(3) by simp
  have nth: "gp_seq (cs ! i) = firstSeq + int i" "open_group P contentKey context (cs ! i) = Inr (?opened i)"
      "gp_wireBytes (cs ! i) = length (gp_header0 (cs ! i)) + length (gp_header1 (cs ! i)) + length (gp_body (cs ! i))" if "i < ?n" for i
    using each [OF that] mapRes_nth [OF cs, of i] that plan(3) by auto
  have "mapRes (open_group P contentKey context) cs = Inr (map ?opened [0..<length (cp_parts plan)])"
    by (rule mapRes_map [OF cs]) (use nth(2) plan(3) in simp)
  moreover have "sealGroupCapsules P contentKey kind payload context firstSeq sentAt createdAtSec msgTag random = Inr cs"
    using assms(2,3) plan(1) cs by (simp add: sealGroupCapsules_def assertBytes_def GROUP_KEY_BYTES_def)
  moreover note assemble_exactly [OF opened_parts_of [OF assms(5)], of _ firstSeq kind msgTag sentAt]
  ultimately show ?thesis
    using nth(1,3) len plan(3) by (intro exI [of _ cs] exI [of _ "map ?opened [0..<?n]"]) (auto simp: opened_part_def)
qed

definition toy_random :: part_random where
  "toy_random = \<lparr>pr_bucket = replicate 32 1, pr_guard = replicate 16 2, pr_nonce = replicate 12 3, pr_messageId = replicate 16 4,
     pr_ephemeral = replicate 32 5, pr_kemSeed = replicate 64 6, pr_encapsulation = replicate 32 7, pr_recovery = replicate 60 8\<rparr>"

definition toy_context :: group_context where
  "toy_context = \<lparr>gx_groupId = replicate 32 1, gx_epoch = 20000, gx_generation = 0, gx_senderGroupKey = replicate 32 9\<rparr>"

theorem group_message_reassembles_witness:
  "\<exists>capsules parts. sealGroupCapsules toy_prims (replicate 32 1) 1 [104, 105] toy_context 5 1728000000 1728000000 [1, 2, 3, 4] (\<lambda>i. toy_random)
       = Inr capsules
     \<and> mapRes (open_group toy_prims (replicate 32 1) toy_context) capsules = Inr parts \<and> assembleGroupParts parts = Some [104, 105]"
proof -
  have "context_ok toy_context" "random_ok toy_random" "1 \<in> set KIND_VALUES"
    by (simp_all add: toy_context_def context_ok_def u32_def toy_random_def random_ok_def KIND_VALUES_def)
  then show ?thesis
    using group_message_reassembles [OF toy_laws, of "replicate 32 1" 1 toy_context "[104, 105]" 5 1728000000 "[1, 2, 3, 4]" "\<lambda>i. toy_random"
        1728000000]
    by fastforce
qed

end
