(* ===== verification/Group_Rekey.thy ===== *)
theory Group_Rekey
  imports Group_Capsules
begin

text \<open>
  How a new key reaches the members of a private group after a removal (\<open>web/group-protocol.mjs\<close>): an
  envelope with one entry for each member, tagged so that the member recognises it and wrapped under a key
  that only sender and member can derive, from an ephemeral X25519 key and an ML-KEM encapsulation. A member
  whose keys cannot be used is left out. The modulus check of the encapsulation (FIPS 203) is the parameter
  \<open>validKem\<close>; the random bytes of the entries are arguments.
\<close>

section \<open>Members\<close>

record group_member =
  gm_groupKey :: bytes
  gm_wallet :: "js_string option"
  gm_keyId :: "js_string option"
  gm_name :: "js_string option"
  gm_x25519PublicKey :: "bytes option"
  gm_mlKem768PublicKey :: "bytes option"

definition GROUP_REKEY_ENTRY_BYTES :: nat where
  "GROUP_REKEY_ENTRY_BYTES = MLKEM768_CIPHERTEXT_BYTES + GROUP_NONCE_BYTES + GROUP_KEY_BYTES + GROUP_TAG_BYTES + GROUP_ENTRY_TAG_BYTES"

definition groupRekeyEnvelopeBytes :: "js_num \<Rightarrow> nat res" where
  "groupRekeyEnvelopeBytes memberCount =
     guard (isInteger memberCount \<and> 0 \<le> intOf memberCount) (RangeError ''memberCount out of range'')
       (Inr (44 + nat (intOf memberCount) * GROUP_REKEY_ENTRY_BYTES))"

section \<open>Sealing\<close>

definition rekeyEntryTag :: "prims \<Rightarrow> bytes \<Rightarrow> bytes \<Rightarrow> int \<Rightarrow> bytes res" where
  "rekeyEntryTag P groupId memberGroupKey generation =
     andThen (group_u32be generation) (\<lambda>g.
       Inr (p_hkdf P memberGroupKey (ascii ''PLATHO.GROUP.REKEY.TAG.SALT.V1'') (ascii ''PLATHO.GROUP.REKEY.TAG.V1'' @ groupId @ g)
         GROUP_ENTRY_TAG_BYTES))"

definition rekeyWrapKey :: "prims \<Rightarrow> bytes \<Rightarrow> int \<Rightarrow> bytes \<Rightarrow> bytes \<Rightarrow> bytes \<Rightarrow> bytes res" where
  "rekeyWrapKey P groupId generation kemShared dhShared memberGroupKey =
     andThen (group_u32be generation) (\<lambda>g.
       Inr (p_hkdf P (kemShared @ dhShared) (ascii ''PLATHO.GROUP.REKEY.SALT.V1'')
         (ascii ''PLATHO.GROUP.REKEY.V1'' @ groupId @ g @ memberGroupKey) GROUP_KEY_BYTES))"

text \<open>\<open>x25519.getSharedSecret\<close> refuses the zero secret; a missing key is refused as bytes are required.\<close>

definition getSharedSecret :: "prims \<Rightarrow> bytes \<Rightarrow> bytes \<Rightarrow> bytes res" where
  "getSharedSecret P sk pk =
     (let shared = p_x25519 P sk pk in
      guard (\<not> (\<forall>b \<in> set shared. b = 0)) (JsError ''invalid private or public key received'') (Inr shared))"

definition requireBytes :: "nat \<Rightarrow> bytes option \<Rightarrow> bytes res" where
  "requireBytes n v = (case v of None \<Rightarrow> Inl (TypeError ''must be a Uint8Array'') | Some bs \<Rightarrow> assertBytes n bs)"

text \<open>\<open>isValidMemberKeys\<close>; \<open>probe\<close> is the random secret it tries the agreement with.\<close>

definition isValidMemberKeys :: "prims \<Rightarrow> (bytes \<Rightarrow> bool) \<Rightarrow> bytes \<Rightarrow> bytes option \<Rightarrow> bytes option \<Rightarrow> bool" where
  "isValidMemberKeys P validKem probe x25519PublicKey mlKem768PublicKey =
     (case (x25519PublicKey, mlKem768PublicKey) of
        (None, None) \<Rightarrow> True
      | (Some x, Some k) \<Rightarrow> length x = 32 \<and> length k = 1184 \<and> (case getSharedSecret P probe x of Inl _ \<Rightarrow> False | Inr _ \<Rightarrow> validKem k)
      | _ \<Rightarrow> False)"

definition encapsulate :: "prims \<Rightarrow> (bytes \<Rightarrow> bool) \<Rightarrow> bytes \<Rightarrow> bytes \<Rightarrow> (bytes \<times> bytes) res" where
  "encapsulate P validKem pk random =
     guard (validKem pk) (JsError ''ML-KEM.encapsulate: wrong publicKey modulus'') (Inr (p_mlkem_encapsulate P pk random))"

text \<open>One entry; \<open>random\<close> are the bytes of the encapsulation and the nonce.\<close>

definition rekey_entry ::
    "prims \<Rightarrow> (bytes \<Rightarrow> bool) \<Rightarrow> bytes \<Rightarrow> int \<Rightarrow> bytes \<Rightarrow> bytes \<Rightarrow> bytes \<times> bytes \<Rightarrow> group_member \<Rightarrow> bytes res" where
  "rekey_entry P validKem groupId generation newKey eph random member =
     andThen (assertBytes 32 (gm_groupKey member)) (\<lambda>memberGroupKey.
     andThen (requireBytes 1184 (gm_mlKem768PublicKey member)) (\<lambda>mlkem.
     andThen (encapsulate P validKem mlkem (fst random)) (\<lambda>(cipherText, kemShared).
     andThen (requireBytes 32 (gm_x25519PublicKey member)) (\<lambda>x.
     andThen (getSharedSecret P eph x) (\<lambda>dhShared.
     andThen (rekeyWrapKey P groupId generation kemShared dhShared memberGroupKey) (\<lambda>wrapKey.
     andThen (rekeyEntryTag P groupId memberGroupKey generation) (\<lambda>tag.
     andThen (group_u32be generation) (\<lambda>g.
       (let wrapped = p_seal P wrapKey (snd random) (groupId @ g @ tag) newKey in
        Inr (tag @ cipherText @ snd random @ wrapped))))))))))"

fun rekey_entries ::
    "prims \<Rightarrow> (bytes \<Rightarrow> bool) \<Rightarrow> bytes \<Rightarrow> int \<Rightarrow> bytes \<Rightarrow> bytes \<Rightarrow> (group_member \<times> bytes \<times> bytes) list \<Rightarrow> bytes list" where
  "rekey_entries P validKem groupId generation newKey eph [] = []"
| "rekey_entries P validKem groupId generation newKey eph ((member, random) # rest) =
     (case rekey_entry P validKem groupId generation newKey eph random member of
        Inr e \<Rightarrow> e # rekey_entries P validKem groupId generation newKey eph rest
      | Inl _ \<Rightarrow> rekey_entries P validKem groupId generation newKey eph rest)"

text \<open>\<open>members\<close> come with the random bytes drawn for them, \<open>eph\<close> is the ephemeral secret, given or drawn.\<close>

definition sealGroupRekeyEnvelope ::
    "prims \<Rightarrow> (bytes \<Rightarrow> bool) \<Rightarrow> bytes \<Rightarrow> int \<Rightarrow> bytes \<Rightarrow> (group_member \<times> bytes \<times> bytes) list \<Rightarrow> bytes \<Rightarrow> bytes res" where
  "sealGroupRekeyEnvelope P validKem groupId generation newKey members ephemeralSecret =
     andThen (assertBytes GROUP_ID_BYTES groupId) (\<lambda>groupId.
     andThen (assertBytes GROUP_KEY_BYTES newKey) (\<lambda>newKey.
     guard (members \<noteq> []) (RangeError ''a rekey needs at least one recipient'')
    (andThen (assertBytes 32 ephemeralSecret) (\<lambda>eph.
       (let entries = rekey_entries P validKem groupId generation newKey eph members in
        guard (entries \<noteq> []) (RangeError ''a rekey could wrap to no recipient'')
       (andThen (group_u32be generation) (\<lambda>g.
        andThen (group_u32be (int (length entries))) (\<lambda>n.
          Inr (ascii ''PGR1'' @ g @ n @ p_x25519_public P eph @ concat entries)))))))))"

section \<open>Opening\<close>

record unwrapped_key =
  uk_generation :: int
  uk_key :: bytes

text \<open>The entry at \<open>at\<close>, once its tag is the member's.\<close>

definition open_rekey_entry ::
    "prims \<Rightarrow> bytes \<Rightarrow> bytes \<Rightarrow> bytes \<Rightarrow> bytes \<Rightarrow> bytes \<Rightarrow> int \<Rightarrow> bytes \<Rightarrow> bytes \<Rightarrow> nat \<Rightarrow> unwrapped_key res" where
  "open_rekey_entry P groupId envelope memberGroupKey x25519SecretKey mlKem768SecretKey generation ephPublic tag pos =
     (let kemCipherText = slice (pos + GROUP_ENTRY_TAG_BYTES) (pos + GROUP_ENTRY_TAG_BYTES + MLKEM768_CIPHERTEXT_BYTES) envelope;
          nonceAt = pos + GROUP_ENTRY_TAG_BYTES + MLKEM768_CIPHERTEXT_BYTES;
          nonce = slice nonceAt (nonceAt + GROUP_NONCE_BYTES) envelope;
          wrapped = slice (nonceAt + GROUP_NONCE_BYTES) (pos + GROUP_REKEY_ENTRY_BYTES) envelope in
      andThen (assertBytes 2400 mlKem768SecretKey) (\<lambda>kemSecret.
        (let kemShared = p_mlkem_decapsulate P kemCipherText kemSecret in
      andThen (assertBytes 32 x25519SecretKey) (\<lambda>secret.
      andThen (getSharedSecret P secret ephPublic) (\<lambda>dhShared.
      andThen (rekeyWrapKey P groupId generation kemShared dhShared memberGroupKey) (\<lambda>wrapKey.
      andThen (group_u32be generation) (\<lambda>g.
      andThen (opened P wrapKey nonce (groupId @ g @ tag) wrapped ''OperationError'') (\<lambda>key.
      andThen (assertBytes GROUP_KEY_BYTES key) (\<lambda>key.
        Inr \<lparr>uk_generation = generation, uk_key = key\<rparr>)))))))))"

text \<open>The loop over the entries; \<open>left\<close> of them are still to be looked at.\<close>

fun open_rekey_loop ::
    "prims \<Rightarrow> bytes \<Rightarrow> bytes \<Rightarrow> bytes \<Rightarrow> bytes \<Rightarrow> bytes \<Rightarrow> int \<Rightarrow> bytes \<Rightarrow> bytes \<Rightarrow> nat \<Rightarrow> nat \<Rightarrow> unwrapped_key option res" where
  "open_rekey_loop P groupId envelope memberGroupKey x25519SecretKey mlKem768SecretKey generation ephPublic tag i 0 = Inr None"
| "open_rekey_loop P groupId envelope memberGroupKey x25519SecretKey mlKem768SecretKey generation ephPublic tag i (Suc left) =
     (let pos = 44 + i * GROUP_REKEY_ENTRY_BYTES in
      if slice pos (pos + GROUP_ENTRY_TAG_BYTES) envelope = tag then
        andThen (open_rekey_entry P groupId envelope memberGroupKey x25519SecretKey mlKem768SecretKey generation ephPublic tag pos)
          (\<lambda>k. Inr (Some k))
      else open_rekey_loop P groupId envelope memberGroupKey x25519SecretKey mlKem768SecretKey generation ephPublic tag (Suc i) left)"

definition openGroupRekeyEnvelope ::
    "prims \<Rightarrow> bytes \<Rightarrow> bytes \<Rightarrow> bytes \<Rightarrow> bytes \<Rightarrow> bytes \<Rightarrow> unwrapped_key option res" where
  "openGroupRekeyEnvelope P groupId envelope memberGroupKey x25519SecretKey mlKem768SecretKey =
     andThen (assertBytes 32 memberGroupKey) (\<lambda>memberGroupKey.
     guard (\<not> length envelope < 12 + 32) (RangeError ''rekey envelope is truncated'')
    (guard (utf8_decode (slice 0 4 envelope) = str ''PGR1'') (JsError ''not a rekey envelope'')
       (let generation = int (be_value (slice 4 8 envelope)); n = be_value (slice 8 12 envelope); ephPublic = slice 12 44 envelope in
        guard (length envelope = 44 + n * GROUP_REKEY_ENTRY_BYTES) (RangeError ''rekey envelope length does not match its count'')
       (andThen (rekeyEntryTag P groupId memberGroupKey generation) (\<lambda>tag.
          open_rekey_loop P groupId envelope memberGroupKey x25519SecretKey mlKem768SecretKey generation ephPublic tag 0 n)))))"

section \<open>Entries\<close>

lemma GROUP_REKEY_ENTRY_BYTES_eq [simp]: "GROUP_REKEY_ENTRY_BYTES = 1156"
  by (simp add: GROUP_REKEY_ENTRY_BYTES_def group_sizes)

definition entry_tag :: "prims \<Rightarrow> bytes \<Rightarrow> bytes \<Rightarrow> int \<Rightarrow> bytes" where
  "entry_tag P groupId memberGroupKey generation =
     p_hkdf P memberGroupKey (ascii ''PLATHO.GROUP.REKEY.TAG.SALT.V1'') (ascii ''PLATHO.GROUP.REKEY.TAG.V1'' @ groupId @ be_bytes 4 (nat generation)) 8"

lemma rekeyEntryTag_ok: "u32 generation \<Longrightarrow> rekeyEntryTag P groupId k generation = Inr (entry_tag P groupId k generation)"
  by (simp add: rekeyEntryTag_def entry_tag_def group_u32be_ok GROUP_ENTRY_TAG_BYTES_def)

text \<open>A made entry has its length and starts with the member's tag.\<close>

lemma rekey_entry_shape:
  assumes "rekey_entry P validKem groupId generation newKey eph random member = Inr e" "crypto_laws P" "u32 generation"
    "length (snd random) = 12" "length newKey = 32"
  shows "length e = 1156" "take 8 e = entry_tag P groupId (gm_groupKey member) generation"
proof -
  obtain mlkem wrapKey g where e: "length mlkem = 1184"
      "e = entry_tag P groupId (gm_groupKey member) generation @ fst (p_mlkem_encapsulate P mlkem (fst random)) @ snd random
         @ p_seal P wrapKey (snd random) (groupId @ g @ entry_tag P groupId (gm_groupKey member) generation) newKey"
    using assms(1) rekeyEntryTag_ok [OF assms(3)]
    by (auto simp: rekey_entry_def requireBytes_def assertBytes_def encapsulate_def Let_def res_simps split_beta split: option.splits)
  have l: "length (entry_tag P groupId (gm_groupKey member) generation) = 8" "length (fst (p_mlkem_encapsulate P mlkem (fst random))) = 1088"
    "\<And>k n a. length (p_seal P k n a newKey) = 48"
    using assms(2,5) e(1) by (simp_all add: crypto_law_defs entry_tag_def)
  show "length e = 1156" "take 8 e = entry_tag P groupId (gm_groupKey member) generation"
    using l assms(4) by (simp_all add: e(2))
qed

text \<open>The entries are those of the members whose keys could be used, in order.\<close>

lemma rekey_entries_members:
  "e \<in> set (rekey_entries P validKem groupId generation newKey eph ms) \<Longrightarrow>
     \<exists>(member, random) \<in> set ms. rekey_entry P validKem groupId generation newKey eph random member = Inr e"
  by (induction P validKem groupId generation newKey eph ms rule: rekey_entries.induct) (auto split: sum.splits)

lemma rekey_entries_split:
  assumes "(member, random) \<in> set ms" "rekey_entry P validKem groupId generation newKey eph random member = Inr e"
  shows "\<exists>before after. ms = before @ (member, random) # after
     \<and> rekey_entries P validKem groupId generation newKey eph ms
        = rekey_entries P validKem groupId generation newKey eph before @ e # rekey_entries P validKem groupId generation newKey eph after"
proof -
  have split: "rekey_entries P validKem groupId generation newKey eph (xs @ ys)
      = rekey_entries P validKem groupId generation newKey eph xs @ rekey_entries P validKem groupId generation newKey eph ys" for xs ys
    by (induction P validKem groupId generation newKey eph xs rule: rekey_entries.induct) (auto split: sum.splits)
  obtain before after where "ms = before @ (member, random) # after" using assms(1) by (meson split_list)
  with assms(2) split show ?thesis by auto
qed

lemma slice_concat:
  assumes "\<forall>e \<in> set es. length e = n" "i < length es" "a \<le> b" "b \<le> n"
  shows "slice (length front + i * n + a) (length front + i * n + b) (front @ concat es) = slice a b (es ! i)"
proof -
  have "es = take i es @ es ! i # drop (Suc i) es" by (rule id_take_nth_drop [OF assms(2)])
  then have c: "concat es = concat (take i es) @ es ! i @ concat (drop (Suc i) es)"
    by (metis concat.simps(2) concat_append)
  have "length (concat (take i es)) = i * n"
  proof -
    have "\<forall>e \<in> set xs. length e = n \<Longrightarrow> length (concat xs) = length xs * n" for xs :: "'a list list"
      by (induction xs) auto
    moreover have "\<forall>e \<in> set (take i es). length e = n" using assms(1) by (meson in_set_takeD)
    ultimately show ?thesis using assms(2) by simp
  qed
  moreover have "length (es ! i) = n" using assms(1,2) by simp
  ultimately show ?thesis using assms(3,4) by (simp add: c slice_def)
qed

section \<open>The loop finds the member's entry\<close>

lemma rekey_loop_skips:
  assumes "\<forall>e \<in> set es. length e = 1156" "length front = 44" "\<forall>j < k. take 8 (es ! (i + j)) \<noteq> tag" "i + k \<le> length es"
  shows "open_rekey_loop P gid (front @ concat es) mk sk ks g eph tag i (k + left) = open_rekey_loop P gid (front @ concat es) mk sk ks g eph tag (i + k) left"
  using assms(3,4)
proof (induction k arbitrary: i)
  case (Suc k)
  have "slice (44 + i * 1156) (44 + i * 1156 + 8) (front @ concat es) = take 8 (es ! i)"
    using slice_concat [OF assms(1), of i 0 8 front] Suc.prems(2) assms(2) by (simp add: slice_def)
  moreover have "take 8 (es ! i) \<noteq> tag" using Suc.prems(1) by (auto dest: spec [of _ 0])
  moreover have "\<forall>j < k. take 8 (es ! (Suc i + j)) \<noteq> tag" using Suc.prems(1) by (auto dest: spec [of _ "Suc _"])
  ultimately show ?case using Suc.IH [of "Suc i"] Suc.prems(2) by (simp add: GROUP_ENTRY_TAG_BYTES_def)
qed simp

lemma rekey_entry_opens:
  assumes laws: "crypto_laws P" and "u32 generation" "length newKey = 32" "length eph = 32" "length sk = 32"
    "length (snd random) = 12" "gm_x25519PublicKey member = Some (p_x25519_public P sk)"
    "gm_mlKem768PublicKey member = Some (fst (p_mlkem_keygen P seed))"
    and entry: "rekey_entry P validKem groupId generation newKey eph random member = Inr e"
    and es: "\<forall>e \<in> set es. length e = 1156" "i < length es" "es ! i = e" "length front = 44"
  shows "open_rekey_entry P groupId (front @ concat es) (gm_groupKey member) sk (snd (p_mlkem_keygen P seed)) generation (p_x25519_public P eph)
      (entry_tag P groupId (gm_groupKey member) generation) (44 + i * 1156) = Inr \<lparr>uk_generation = generation, uk_key = newKey\<rparr>"
proof -
  define tag where "tag = entry_tag P groupId (gm_groupKey member) generation"
  define kem where "kem = p_mlkem_encapsulate P (fst (p_mlkem_keygen P seed)) (fst random)"
  define dh where "dh = p_x25519 P eph (p_x25519_public P sk)"
  define g where "g = be_bytes 4 (nat generation)"
  have dh': "p_x25519 P sk (p_x25519_public P eph) = dh" using laws assms(4,5) by (simp add: crypto_law_defs dh_def)
  have shared: "getSharedSecret P eph (p_x25519_public P sk) = Inr dh" "getSharedSecret P sk (p_x25519_public P eph) = Inr dh"
    using entry by (auto simp: rekey_entry_def requireBytes_def assertBytes_def assms(7,8) res_simps split_beta getSharedSecret_def Let_def
        dh_def dh' [unfolded dh_def])
  obtain wrapKey where wrap: "rekeyWrapKey P groupId generation (snd kem) dh (gm_groupKey member) = Inr wrapKey"
    using assms(2) by (simp add: rekeyWrapKey_def group_u32be_ok)
  define wrapped where "wrapped = p_seal P wrapKey (snd random) (groupId @ g @ tag) newKey"
  have e: "e = tag @ fst kem @ snd random @ wrapped"
    using entry wrap shared(1) rekeyEntryTag_ok [OF assms(2)] group_u32be_ok [OF assms(2)]
    by (auto simp: rekey_entry_def requireBytes_def assertBytes_def encapsulate_def assms(7,8) res_simps split_beta wrapped_def Let_def
        tag_def g_def simp flip: kem_def)
  have l: "length tag = 8" "length (fst kem) = 1088" "length wrapped = 48"
    using laws assms(3) by (simp_all add: crypto_law_defs entry_tag_def tag_def kem_def wrapped_def)
  have part: "slice (44 + i * 1156 + a) (44 + i * 1156 + b) (front @ concat es) = slice a b e" if "a \<le> b" "b \<le> 1156" for a b
    using slice_concat [OF es(1,2) that, of front] es(3,4) by simp
  have parts: "slice (44 + i * 1156 + 8) (44 + i * 1156 + 8 + 1088) (front @ concat es) = fst kem"
    "slice (44 + i * 1156 + 8 + 1088) (44 + i * 1156 + 8 + 1088 + 12) (front @ concat es) = snd random"
    "slice (44 + i * 1156 + 8 + 1088 + 12) (44 + i * 1156 + 1156) (front @ concat es) = wrapped"
    using part [of 8 1096] part [of 1096 1108] part [of 1108 1156] l assms(6)
    by (simp_all add: add.assoc e slice_def)
  have "p_mlkem_decapsulate P (fst kem) (snd (p_mlkem_keygen P seed)) = snd kem" "length (snd (p_mlkem_keygen P seed)) = 2400"
    using laws by (simp_all add: crypto_law_defs kem_def)
  moreover have "p_open P wrapKey (snd random) (groupId @ g @ tag) wrapped = Some newKey"
    using laws by (simp add: crypto_law_defs wrapped_def)
  ultimately show ?thesis
    using wrap shared(2) assms(3,5) group_u32be_ok [OF assms(2)]
    unfolding open_rekey_entry_def GROUP_REKEY_ENTRY_BYTES_eq group_sizes Let_def parts
    by (simp add: assertBytes_def opened_def flip: tag_def g_def)
qed

text \<open>Two members of the list, or a member and the given key, share a tag of eight bytes.\<close>

definition tag_clash :: "prims \<Rightarrow> bytes \<Rightarrow> int \<Rightarrow> bytes list \<Rightarrow> bytes \<Rightarrow> bool" where
  "tag_clash P groupId generation keys k \<longleftrightarrow>
     (\<exists>k' \<in> set keys. k' \<noteq> k \<and> entry_tag P groupId k' generation = entry_tag P groupId k generation)"

definition rekey_keys :: "(group_member \<times> bytes \<times> bytes) list \<Rightarrow> bytes list" where
  "rekey_keys members = map (\<lambda>(m, _). gm_groupKey m) members"

lemma rekey_entries_shape:
  assumes "crypto_laws P" "u32 generation" "length newKey = 32" "\<forall>(m, r) \<in> set members. length (snd r) = 12"
    "e \<in> set (rekey_entries P validKem groupId generation newKey eph members)"
  shows "length e = 1156 \<and> (\<exists>k \<in> set (rekey_keys members). take 8 e = entry_tag P groupId k generation)"
proof -
  obtain m r where mr: "(m, r) \<in> set members" "rekey_entry P validKem groupId generation newKey eph r m = Inr e"
    using rekey_entries_members [OF assms(5)] by auto
  then have "length (snd r) = 12" using assms(4) by auto
  note shape = rekey_entry_shape [OF mr(2) assms(1,2) this assms(3)]
  have "gm_groupKey m \<in> set (rekey_keys members)" using mr(1) by (force simp: rekey_keys_def)
  with shape show ?thesis by blast
qed

lemma length_rekey_entries: "length (rekey_entries P validKem groupId generation newKey eph members) \<le> length members"
  by (induction P validKem groupId generation newKey eph members rule: rekey_entries.induct) (auto split: sum.splits)

text \<open>The envelope is read as what it was made of.\<close>

lemma rekey_envelope_read:
  assumes "length (p_x25519_public P eph) = 32" "u32 generation" "n \<le> 0xffffffff" "length es = n" "\<forall>e \<in> set es. length e = 1156"
    "length k = 32"
  defines "front \<equiv> ascii ''PGR1'' @ be_bytes 4 (nat generation) @ be_bytes 4 n @ p_x25519_public P eph"
  shows "openGroupRekeyEnvelope P groupId (front @ concat es) k sk ks
      = open_rekey_loop P groupId (front @ concat es) k sk ks generation (p_x25519_public P eph) (entry_tag P groupId k generation) 0 n"
proof -
  have magic: "length (ascii ''PGR1'') = 4" "utf8_decode (ascii ''PGR1'') = str ''PGR1''"
    using utf8_decode_encode [of "str ''PGR1''"]
    by (simp_all add: ascii_def well_formed_text_def str_def is_scalar_def is_surrogate_def)
  have total: "length (concat es) = n * 1156"
  proof -
    have "\<forall>e \<in> set xs. length e = 1156 \<Longrightarrow> length (concat xs) = length xs * 1156" for xs :: "bytes list"
      by (induction xs) auto
    with assms(4,5) show ?thesis by simp
  qed
  have s: "slice 0 4 (front @ concat es) = ascii ''PGR1''" "slice 4 8 (front @ concat es) = be_bytes 4 (nat generation)"
    "slice 8 12 (front @ concat es) = be_bytes 4 n" "slice 12 44 (front @ concat es) = p_x25519_public P eph"
    "length (front @ concat es) = 44 + n * 1156"
    using magic(1) assms(1) total by (simp_all add: front_def slice_def)
  have v: "int (be_value (be_bytes 4 (nat generation))) = generation" "be_value (be_bytes 4 n) = n"
    using assms(2,3) by (simp_all add: be_value_be_bytes u32_def nat_less_iff)
  show ?thesis
    unfolding openGroupRekeyEnvelope_def s Let_def v GROUP_REKEY_ENTRY_BYTES_eq
    using assms(6) magic(2) by (simp add: assertBytes_def rekeyEntryTag_ok [OF assms(2)])
qed

text \<open>A member whose entry is there and shares its tag with no other opens it to the new key.\<close>

lemma rekey_member_opens:
  assumes "crypto_laws P" "u32 generation" "length newKey = 32" "length eph = 32" "length members \<le> 0xffffffff"
    "\<forall>(m, r) \<in> set members. length (snd r) = 12" "distinct (rekey_keys members)"
    "(member, random) \<in> set members" "length (gm_groupKey member) = 32" "length sk = 32"
    "gm_x25519PublicKey member = Some (p_x25519_public P sk)" "gm_mlKem768PublicKey member = Some (fst (p_mlkem_keygen P seed))"
    "rekey_entry P validKem groupId generation newKey eph random member = Inr e"
    "\<not> tag_clash P groupId generation (rekey_keys members) (gm_groupKey member)"
  defines "es \<equiv> rekey_entries P validKem groupId generation newKey eph members"
  shows "openGroupRekeyEnvelope P groupId
      ((ascii ''PGR1'' @ be_bytes 4 (nat generation) @ be_bytes 4 (length es) @ p_x25519_public P eph) @ concat es)
      (gm_groupKey member) sk (snd (p_mlkem_keygen P seed)) = Inr (Some \<lparr>uk_generation = generation, uk_key = newKey\<rparr>)"
proof -
  define front where "front = ascii ''PGR1'' @ be_bytes 4 (nat generation) @ be_bytes 4 (length es) @ p_x25519_public P eph"
  define tag where "tag = entry_tag P groupId (gm_groupKey member) generation"
  have eph: "length (p_x25519_public P eph) = 32" using assms(1) by (simp add: crypto_law_defs)
  have front: "length front = 44" by (simp add: front_def eph ascii_def str_def)
  have n12: "length (snd random) = 12" using assms(6,8) by auto
  have shape: "\<forall>e \<in> set es. length e = 1156"
    using rekey_entries_shape [OF assms(1,2,3,6)] by (simp add: es_def)
  have few: "length es \<le> 0xffffffff" using length_rekey_entries assms(5) unfolding es_def by (rule order_trans)
  obtain before after where ms: "members = before @ (member, random) # after"
      and split: "es = rekey_entries P validKem groupId generation newKey eph before @ e # rekey_entries P validKem groupId generation newKey eph after"
    using rekey_entries_split [OF assms(8,13)] unfolding es_def by blast
  define k where "k = length (rekey_entries P validKem groupId generation newKey eph before)"
  define left where "left = length (rekey_entries P validKem groupId generation newKey eph after)"
  have es: "length es = k + Suc left" "es ! k = e" "k < length es" by (simp_all add: split k_def left_def nth_append)
  have others: "take 8 (es ! j) \<noteq> tag" if "j < k" for j
  proof -
    have "es ! j \<in> set (rekey_entries P validKem groupId generation newKey eph before)"
      using that by (simp add: split k_def nth_append)
    moreover have "\<forall>(m, r) \<in> set before. length (snd r) = 12" using assms(6) ms by simp
    ultimately obtain other where other: "other \<in> set (rekey_keys before)" "take 8 (es ! j) = entry_tag P groupId other generation"
      using rekey_entries_shape [OF assms(1,2,3)] by blast
    have keys: "rekey_keys members = rekey_keys before @ gm_groupKey member # rekey_keys after" by (simp add: ms rekey_keys_def)
    have "other \<noteq> gm_groupKey member" using assms(7) other(1) by (auto simp: keys)
    moreover have "other \<in> set (rekey_keys members)" using other(1) by (simp add: keys)
    ultimately show ?thesis using assms(14) other(2) by (auto simp: tag_clash_def tag_def)
  qed
  have mine: "take 8 (es ! k) = tag"
    using rekey_entry_shape(2) [OF assms(13,1,2) n12 assms(3)] es(2) by (simp add: tag_def)
  have "openGroupRekeyEnvelope P groupId (front @ concat es) (gm_groupKey member) sk (snd (p_mlkem_keygen P seed))
      = open_rekey_loop P groupId (front @ concat es) (gm_groupKey member) sk (snd (p_mlkem_keygen P seed)) generation (p_x25519_public P eph) tag
          0 (k + Suc left)"
    using rekey_envelope_read [OF eph assms(2) few refl shape assms(9)] es(1) by (simp add: front_def tag_def)
  also have "\<dots> = open_rekey_loop P groupId (front @ concat es) (gm_groupKey member) sk (snd (p_mlkem_keygen P seed)) generation
      (p_x25519_public P eph) tag (0 + k) (Suc left)"
    by (rule rekey_loop_skips [OF shape front]) (use others es in auto)
  also have "\<dots> = Inr (Some \<lparr>uk_generation = generation, uk_key = newKey\<rparr>)"
  proof -
    have "slice (44 + k * 1156) (44 + k * 1156 + 8) (front @ concat es) = tag"
      using slice_concat [OF shape es(3), of 0 8 front] front mine by (simp add: slice_def)
    moreover note rekey_entry_opens [OF assms(1-4,10) n12 assms(11-13) shape es(3,2) front]
    ultimately show ?thesis by (simp add: GROUP_ENTRY_TAG_BYTES_def tag_def)
  qed
  finally show ?thesis by (simp add: front_def)
qed

text \<open>Who is not among the members finds nothing.\<close>

lemma rekey_outsider:
  fixes validKem :: "bytes \<Rightarrow> bool" and eph :: bytes
  assumes "crypto_laws P" "u32 generation" "length newKey = 32" "length members \<le> 0xffffffff"
    "\<forall>(m, r) \<in> set members. length (snd r) = 12" "length k = 32" "k \<notin> set (rekey_keys members)"
    "\<not> tag_clash P groupId generation (rekey_keys members) k"
  defines "es \<equiv> rekey_entries P validKem groupId generation newKey eph members"
  shows "openGroupRekeyEnvelope P groupId
      ((ascii ''PGR1'' @ be_bytes 4 (nat generation) @ be_bytes 4 (length es) @ p_x25519_public P eph) @ concat es) k sk ks = Inr None"
proof -
  define front where "front = ascii ''PGR1'' @ be_bytes 4 (nat generation) @ be_bytes 4 (length es) @ p_x25519_public P eph"
  have eph: "length (p_x25519_public P eph) = 32" using assms(1) by (simp add: crypto_law_defs)
  have front: "length front = 44" by (simp add: front_def eph ascii_def str_def)
  have shape: "\<forall>e \<in> set es. length e = 1156"
    using rekey_entries_shape [OF assms(1,2,3,5)] by (simp add: es_def)
  have few: "length es \<le> 0xffffffff" using length_rekey_entries assms(4) unfolding es_def by (rule order_trans)
  have others: "take 8 (es ! (0 + j)) \<noteq> entry_tag P groupId k generation" if j: "j < length es" for j
  proof -
    obtain other where "other \<in> set (rekey_keys members)" "take 8 (es ! j) = entry_tag P groupId other generation"
      using rekey_entries_shape [OF assms(1,2,3,5)] nth_mem [OF j] unfolding es_def by blast
    then show ?thesis using assms(7,8) by (auto simp: tag_clash_def)
  qed
  have "openGroupRekeyEnvelope P groupId (front @ concat es) k sk ks
      = open_rekey_loop P groupId (front @ concat es) k sk ks generation (p_x25519_public P eph) (entry_tag P groupId k generation) 0 (length es + 0)"
    using rekey_envelope_read [OF eph assms(2) few refl shape assms(6)] by (simp add: front_def)
  also have "\<dots> = open_rekey_loop P groupId (front @ concat es) k sk ks generation (p_x25519_public P eph) (entry_tag P groupId k generation) (0 + length es) 0"
    by (rule rekey_loop_skips [OF shape front]) (use others in auto)
  finally show ?thesis by (simp add: front_def)
qed

definition usable_member :: "prims \<Rightarrow> (bytes \<Rightarrow> bool) \<Rightarrow> bytes \<Rightarrow> group_member \<Rightarrow> bytes \<Rightarrow> bytes \<Rightarrow> bool" where
  "usable_member P validKem eph member sk seed \<longleftrightarrow>
     length (gm_groupKey member) = 32 \<and> length sk = 32 \<and> gm_x25519PublicKey member = Some (p_x25519_public P sk)
     \<and> gm_mlKem768PublicKey member = Some (fst (p_mlkem_keygen P seed)) \<and> validKem (fst (p_mlkem_keygen P seed))
     \<and> \<not> (\<forall>b \<in> set (p_x25519 P eph (p_x25519_public P sk)). b = 0)"

lemma usable_entry:
  assumes "crypto_laws P" "u32 generation" "usable_member P validKem eph member sk seed"
  shows "\<exists>e. rekey_entry P validKem groupId generation newKey eph random member = Inr e"
proof -
  have "length (p_x25519_public P sk) = 32" "length (fst (p_mlkem_keygen P seed)) = 1184" using assms(1) by (simp_all add: crypto_law_defs)
  with assms(3) show ?thesis
    by (simp add: rekey_entry_def usable_member_def requireBytes_def assertBytes_def encapsulate_def getSharedSecret_def Let_def split_beta
        rekeyWrapKey_def rekeyEntryTag_ok [OF assms(2)] group_u32be_ok [OF assms(2)])
qed

text \<open>
  C19: After a removal the new key reaches the members and nobody else finds an entry: the envelope is made as soon
  as one member's keys can be used, whatever the keys of the others; every such member opens it to the new key and
  its generation, and to a group key that is not on the list the envelope holds nothing. The exception is a
  clash of the eight-byte tags of two of the keys.
\<close>

theorem group_rekey_reaches:
  assumes "crypto_laws P" "length groupId = 32" "length newKey = 32" "length eph = 32" "u32 generation" "length members \<le> 0xffffffff"
    "\<forall>(m, r) \<in> set members. length (snd r) = 12" "distinct (rekey_keys members)"
    "(member, random) \<in> set members" "usable_member P validKem eph member sk seed"
  shows "\<exists>envelope. sealGroupRekeyEnvelope P validKem groupId generation newKey members eph = Inr envelope
     \<and> (\<forall>m r sk' seed'. (m, r) \<in> set members \<longrightarrow> usable_member P validKem eph m sk' seed' \<longrightarrow>
          openGroupRekeyEnvelope P groupId envelope (gm_groupKey m) sk' (snd (p_mlkem_keygen P seed'))
            = Inr (Some \<lparr>uk_generation = generation, uk_key = newKey\<rparr>)
          \<or> tag_clash P groupId generation (rekey_keys members) (gm_groupKey m))
     \<and> (\<forall>k sk' ks'. length k = 32 \<longrightarrow> k \<notin> set (rekey_keys members) \<longrightarrow>
          openGroupRekeyEnvelope P groupId envelope k sk' ks' = Inr None \<or> tag_clash P groupId generation (rekey_keys members) k)"
proof -
  define es where "es = rekey_entries P validKem groupId generation newKey eph members"
  define envelope where
    "envelope = (ascii ''PGR1'' @ be_bytes 4 (nat generation) @ be_bytes 4 (length es) @ p_x25519_public P eph) @ concat es"
  obtain e where "rekey_entry P validKem groupId generation newKey eph random member = Inr e"
    using usable_entry [OF assms(1,5,10)] by blast
  then have "es \<noteq> []" using rekey_entries_split [OF assms(9)] unfolding es_def by fastforce
  moreover have "length es \<le> 0xffffffff" using length_rekey_entries assms(6) unfolding es_def by (rule order_trans)
  then have "u32 (int (length es))" by (simp add: u32_def)
  moreover have "members \<noteq> []" using assms(9) by auto
  ultimately have seal: "sealGroupRekeyEnvelope P validKem groupId generation newKey members eph = Inr envelope"
    using assms(2-5) by (simp add: sealGroupRekeyEnvelope_def assertBytes_def Let_def GROUP_ID_BYTES_def GROUP_KEY_BYTES_def group_u32be_ok
        envelope_def flip: es_def)
  have mine: "openGroupRekeyEnvelope P groupId envelope (gm_groupKey m) sk' (snd (p_mlkem_keygen P seed'))
      = Inr (Some \<lparr>uk_generation = generation, uk_key = newKey\<rparr>)"
    if m: "(m, r) \<in> set members" "usable_member P validKem eph m sk' seed'" "\<not> tag_clash P groupId generation (rekey_keys members) (gm_groupKey m)"
    for m r sk' seed'
  proof -
    obtain e where e: "rekey_entry P validKem groupId generation newKey eph r m = Inr e" using usable_entry [OF assms(1,5) m(2)] by blast
    note u = m(2) [unfolded usable_member_def]
    show ?thesis
      using rekey_member_opens [OF assms(1,5,3,4,6,7,8) m(1) _ _ _ _ e m(3), of sk' seed'] u
      by (simp add: envelope_def es_def)
  qed
  have out: "openGroupRekeyEnvelope P groupId envelope k sk' ks' = Inr None"
    if "length k = 32" "k \<notin> set (rekey_keys members)" "\<not> tag_clash P groupId generation (rekey_keys members) k" for k sk' ks'
    using rekey_outsider [OF assms(1,5,3,6,7) that] by (simp add: envelope_def es_def)
  show ?thesis using seal mine out by blast
qed

definition toy_member :: group_member where
  "toy_member = \<lparr>gm_groupKey = replicate 32 7, gm_wallet = None, gm_keyId = None, gm_name = None,
     gm_x25519PublicKey = Some (p_x25519_public toy_prims (replicate 32 1)),
     gm_mlKem768PublicKey = Some (fst (p_mlkem_keygen toy_prims []))\<rparr>"

theorem group_rekey_reaches_witness:
  "\<exists>envelope. sealGroupRekeyEnvelope toy_prims (\<lambda>_. True) (replicate 32 1) 1 (replicate 32 2) [(toy_member, [], replicate 12 3)] (replicate 32 4)
       = Inr envelope
     \<and> openGroupRekeyEnvelope toy_prims (replicate 32 1) envelope (replicate 32 7) (replicate 32 1) (snd (p_mlkem_keygen toy_prims []))
       = Inr (Some \<lparr>uk_generation = 1, uk_key = replicate 32 2\<rparr>)"
proof -
  have u: "usable_member toy_prims (\<lambda>_. True) (replicate 32 4) toy_member (replicate 32 1) []"
    by (simp add: usable_member_def toy_member_def toy_prims_def pad_to_def map2_map_map [symmetric] zip_replicate)
  have "\<not> tag_clash toy_prims (replicate 32 1) 1 (rekey_keys [(toy_member, [], replicate 12 3)]) (gm_groupKey toy_member)"
    by (simp add: tag_clash_def rekey_keys_def)
  moreover have "gm_groupKey toy_member = replicate 32 7" by (simp add: toy_member_def)
  ultimately show ?thesis
    using group_rekey_reaches [OF toy_laws, of "replicate 32 1" "replicate 32 2" "replicate 32 4" 1 "[(toy_member, [], replicate 12 3)]"
        toy_member "([], replicate 12 3)" "\<lambda>_. True" "replicate 32 1" "[]"] u
    by (auto simp: u32_def rekey_keys_def)
qed

end
