(* ===== verification/Group_Members.thy ===== *)
theory Group_Members
  imports Group_Rekey
begin

text \<open>
  The list of members as a roster or an admission carries it (\<open>encodeGroupMembers\<close>, \<open>decodeGroupMembers\<close>,
  \<open>groupMembersBytes\<close> and the admission itself in \<open>web/group-protocol.mjs\<close>), and the rule for group names. The
  decoder walks one offset through the bytes and throws when a field would leave them.
\<close>

section \<open>Names\<close>

definition GROUP_NAME_MAX_BYTES :: nat where "GROUP_NAME_MAX_BYTES = 96"
definition GROUP_MEMBER_X25519_BYTES :: nat where "GROUP_MEMBER_X25519_BYTES = 32"
definition GROUP_MEMBER_MLKEM_BYTES :: nat where "GROUP_MEMBER_MLKEM_BYTES = 1184"

text \<open>\<open>BIDI_CONTROLS_RE\<close>: the characters that turn the direction of writing.\<close>

definition is_bidi_control :: "symbol \<Rightarrow> bool" where
  "is_bidi_control c \<longleftrightarrow> c = 0x200e \<or> c = 0x200f \<or> (0x202a \<le> c \<and> c \<le> 0x202e) \<or> (0x2066 \<le> c \<and> c \<le> 0x2069)"

definition symbol_bytes :: "symbol \<Rightarrow> nat" where
  "symbol_bytes cp = (if cp < 0x80 then 1 else if cp < 0x800 then 2 else if cp < 0x10000 then 3 else 4)"

fun name_loop :: "nat \<Rightarrow> js_string \<Rightarrow> js_string" where
  "name_loop n [] = []"
| "name_loop n (ch # rest) =
     (if n + symbol_bytes ch > GROUP_NAME_MAX_BYTES then [] else ch # name_loop (n + symbol_bytes ch) rest)"

definition groupNameIn :: "js_string option \<Rightarrow> js_string option" where
  "groupNameIn v =
     (case v of None \<Rightarrow> None
      | Some s \<Rightarrow> (let out = name_loop 0 (filter (\<lambda>c. \<not> is_bidi_control c) s) in if out = [] then None else Some out))"

section \<open>Writing\<close>

definition lenPrefixed :: "bytes \<Rightarrow> nat \<Rightarrow> bytes res" where
  "lenPrefixed bs width =
     guard (\<not> (width = 1 \<and> length bs > 255)) (RangeError ''field longer than 255 bytes'')
    (guard (\<not> (width = 2 \<and> length bs > 65535)) (RangeError ''field longer than 65535 bytes'')
       (Inr ((if width = 1 then [word_of_nat (length bs)] else be_bytes 2 (length bs)) @ bs)))"

definition text_of :: "js_string option \<Rightarrow> bytes" where
  "text_of v = utf8_encode (or_default v [])"

text \<open>A key that is absent is not written; \<open>flags\<close> says which are there.\<close>

definition key_field :: "nat \<Rightarrow> bytes option \<Rightarrow> bytes res" where
  "key_field n v = (case v of None \<Rightarrow> Inr [] | Some bs \<Rightarrow> assertBytes n bs)"

definition member_flags :: "group_member \<Rightarrow> nat" where
  "member_flags m = (if gm_x25519PublicKey m \<noteq> None then 1 else 0) + (if gm_mlKem768PublicKey m \<noteq> None then 2 else 0)"

definition encode_member :: "group_member \<Rightarrow> bytes res" where
  "encode_member m =
     andThen (assertBytes 32 (gm_groupKey m)) (\<lambda>groupKey.
     andThen (key_field GROUP_MEMBER_X25519_BYTES (gm_x25519PublicKey m)) (\<lambda>x.
     andThen (key_field GROUP_MEMBER_MLKEM_BYTES (gm_mlKem768PublicKey m)) (\<lambda>k.
     andThen (lenPrefixed (text_of (gm_wallet m)) 1) (\<lambda>wallet.
     andThen (lenPrefixed (text_of (gm_keyId m)) 1) (\<lambda>keyId.
     andThen (lenPrefixed (text_of (gm_name m)) 2) (\<lambda>name.
       Inr (groupKey @ [word_of_nat (member_flags m)] @ x @ k @ wallet @ keyId @ name)))))))"

definition encodeGroupMembers :: "group_member list \<Rightarrow> bytes res" where
  "encodeGroupMembers members =
     andThen (mapRes encode_member members) (\<lambda>out. Inr (be_bytes 2 (length members) @ concat out))"

definition groupMembersBytes :: "group_member list \<Rightarrow> nat" where
  "groupMembersBytes members =
     2 + sum_list (map (\<lambda>m. 33 + (if gm_x25519PublicKey m \<noteq> None then GROUP_MEMBER_X25519_BYTES else 0)
        + (if gm_mlKem768PublicKey m \<noteq> None then GROUP_MEMBER_MLKEM_BYTES else 0)
        + 1 + length (text_of (gm_wallet m)) + 1 + length (text_of (gm_keyId m)) + 2 + length (text_of (gm_name m))) members)"

section \<open>Reading\<close>

text \<open>\<open>need\<close> and the slice it makes room for; the answer carries the new offset.\<close>

definition take_bytes :: "nat \<Rightarrow> bytes \<Rightarrow> nat \<Rightarrow> (bytes \<times> nat) res" where
  "take_bytes n bs pos =
     guard (\<not> pos + n > length bs) (RangeError ''member record overruns the payload'') (Inr (slice pos (pos + n) bs, pos + n))"

definition text_field :: "nat \<Rightarrow> bytes \<Rightarrow> nat \<Rightarrow> (js_string \<times> nat) res" where
  "text_field width bs pos =
     andThen (take_bytes width bs pos) (\<lambda>(len, pos).
     andThen (take_bytes (be_value len) bs pos) (\<lambda>(t, pos). Inr (utf8_decode t, pos)))"

definition optional_field :: "bool \<Rightarrow> nat \<Rightarrow> bytes \<Rightarrow> nat \<Rightarrow> (bytes option \<times> nat) res" where
  "optional_field present n bs pos =
     (if present then andThen (take_bytes n bs pos) (\<lambda>(k, pos). Inr (Some k, pos)) else Inr (None, pos))"

definition or_null :: "js_string \<Rightarrow> js_string option" where
  "or_null s = (if s = [] then None else Some s)"

definition decode_member :: "bytes \<Rightarrow> nat \<Rightarrow> (group_member \<times> nat) res" where
  "decode_member bs pos =
     andThen (take_bytes 33 bs pos) (\<lambda>(head, pos).
       (let flags = unat (head ! 32) in
     andThen (optional_field (odd flags) GROUP_MEMBER_X25519_BYTES bs pos) (\<lambda>(x, pos).
     andThen (optional_field (odd (flags div 2)) GROUP_MEMBER_MLKEM_BYTES bs pos) (\<lambda>(k, pos).
     andThen (text_field 1 bs pos) (\<lambda>(wallet, pos).
     andThen (text_field 1 bs pos) (\<lambda>(keyId, pos).
     andThen (text_field 2 bs pos) (\<lambda>(name, pos).
       Inr (\<lparr>gm_groupKey = take 32 head, gm_wallet = or_null wallet, gm_keyId = or_null keyId, gm_name = groupNameIn (Some name),
         gm_x25519PublicKey = x, gm_mlKem768PublicKey = k\<rparr>, pos))))))))"

fun decode_members_loop :: "nat \<Rightarrow> bytes \<Rightarrow> nat \<Rightarrow> (group_member list \<times> nat) res" where
  "decode_members_loop 0 bs pos = Inr ([], pos)"
| "decode_members_loop (Suc n) bs pos =
     andThen (decode_member bs pos) (\<lambda>(m, pos). andThen (decode_members_loop n bs pos) (\<lambda>(ms, pos). Inr (m # ms, pos)))"

definition decodeGroupMembers :: "bytes \<Rightarrow> nat \<Rightarrow> (group_member list \<times> nat) res" where
  "decodeGroupMembers bs offset =
     andThen (take_bytes 2 bs offset) (\<lambda>(n, pos). decode_members_loop (be_value n) bs pos)"

definition encodeGroupAdmit :: "group_member list \<Rightarrow> int \<Rightarrow> bytes res" where
  "encodeGroupAdmit members sentAt =
     andThen (encodeGroupMembers members) (\<lambda>ms. Inr (be_bytes 4 (nat (sentAt mod 2 ^ 32)) @ ms))"

definition decodeGroupAdmit :: "bytes \<Rightarrow> (nat \<times> group_member list) res" where
  "decodeGroupAdmit payload =
     guard (\<not> length payload < 6) (RangeError ''admit payload too short'')
       (andThen (decodeGroupMembers payload 4) (\<lambda>(members, _). Inr (be_value (slice 0 4 payload), members)))"

section \<open>Reading back\<close>

text \<open>A member as it comes back: empty texts are null, the name is cut and freed of direction marks.\<close>

definition member_norm :: "group_member \<Rightarrow> group_member" where
  "member_norm m = m\<lparr>gm_wallet := or_null (or_default (gm_wallet m) []), gm_keyId := or_null (or_default (gm_keyId m) []),
     gm_name := groupNameIn (Some (or_default (gm_name m) []))\<rparr>"

definition text_ok :: "nat \<Rightarrow> js_string option \<Rightarrow> bool" where
  "text_ok n v \<longleftrightarrow> well_formed_text (or_default v []) \<and> length (text_of v) \<le> n"

definition member_ok :: "group_member \<Rightarrow> bool" where
  "member_ok m \<longleftrightarrow> length (gm_groupKey m) = 32 \<and> (\<forall>x. gm_x25519PublicKey m = Some x \<longrightarrow> length x = 32)
     \<and> (\<forall>k. gm_mlKem768PublicKey m = Some k \<longrightarrow> length k = 1184)
     \<and> text_ok 255 (gm_wallet m) \<and> text_ok 255 (gm_keyId m) \<and> text_ok 65535 (gm_name m)"

lemma take_bytes_drop:
  "drop pos bs = xs @ ys \<Longrightarrow> length xs = n \<Longrightarrow> pos + n \<le> length bs \<Longrightarrow> take_bytes n bs pos = Inr (xs, pos + n) \<and> drop (pos + n) bs = ys"
  using drop_prefix [of pos bs xs ys] by (auto simp: take_bytes_def)

text \<open>The suffix at an offset inside the bytes.\<close>

definition rest_at :: "bytes \<Rightarrow> nat \<Rightarrow> bytes \<Rightarrow> bool" where
  "rest_at bs pos ys \<longleftrightarrow> pos \<le> length bs \<and> drop pos bs = ys"

lemma take_bytes_rest:
  assumes "rest_at bs pos (xs @ ys)" "length xs = n"
  shows "take_bytes n bs pos = Inr (xs, pos + n)" "rest_at bs (pos + n) ys"
proof -
  have "length bs - pos = length xs + length ys" using assms(1) by (metis rest_at_def length_append length_drop)
  moreover have "pos \<le> length bs" using assms(1) by (simp add: rest_at_def)
  ultimately have "pos + n \<le> length bs" using assms(2) by linarith
  with take_bytes_drop [of pos bs xs ys n] assms
  show "take_bytes n bs pos = Inr (xs, pos + n)" "rest_at bs (pos + n) ys" by (simp_all add: rest_at_def)
qed

lemma text_field_rest:
  assumes "rest_at bs pos (f @ ys)" "lenPrefixed (text_of v) width = Inr f" "text_ok n v" "(width, n) \<in> {(1, 255), (2, 65535)}"
  shows "text_field width bs pos = Inr (or_default v [], pos + width + length (text_of v))"
    "rest_at bs (pos + width + length (text_of v)) ys"
proof -
  obtain len where f: "f = len @ text_of v" "length len = width" "be_value len = length (text_of v)"
    using assms(2,3,4)
    by (auto simp: lenPrefixed_def res_simps text_ok_def be_value_be_bytes be_value_byte unat_small_byte simp del: be_bytes.simps
        intro: that [of "[word_of_nat (length (text_of v))]"] that [of "be_bytes 2 (length (text_of v))"])
  note a = take_bytes_rest [OF assms(1) [unfolded f(1), simplified append_assoc] f(2)]
  note b = take_bytes_rest [OF a(2) refl]
  have "utf8_decode (text_of v) = or_default v []"
    using assms(3) utf8_decode_encode by (simp add: text_ok_def text_of_def)
  with a(1) b f(3) show "text_field width bs pos = Inr (or_default v [], pos + width + length (text_of v))"
    "rest_at bs (pos + width + length (text_of v)) ys"
    by (simp_all add: text_field_def)
qed

lemma optional_field_rest:
  assumes "rest_at bs pos (f @ ys)" "key_field n v = Inr f"
  shows "optional_field (v \<noteq> None) n bs pos = Inr (v, pos + length f)" "rest_at bs (pos + length f) ys"
proof -
  show "rest_at bs (pos + length f) ys" using take_bytes_rest(2) [OF assms(1) refl] .
  have "length f = n" if "v \<noteq> None" using assms(2) that by (auto simp: key_field_def assertBytes_def res_simps)
  then show "optional_field (v \<noteq> None) n bs pos = Inr (v, pos + length f)"
    using take_bytes_rest(1) [OF assms(1) refl] assms(2)
    by (auto simp: optional_field_def key_field_def assertBytes_def res_simps split: option.splits)
qed

lemma lenPrefixed_total: "text_ok n v \<Longrightarrow> (width, n) \<in> {(1, 255), (2, 65535)} \<Longrightarrow> \<exists>f. lenPrefixed (text_of v) width = Inr f"
  by (auto simp: lenPrefixed_def text_ok_def)

lemma encode_member_total:
  assumes "member_ok m"
  shows "\<exists>e. encode_member m = Inr e"
proof -
  have "\<exists>x. key_field GROUP_MEMBER_X25519_BYTES (gm_x25519PublicKey m) = Inr x"
    "\<exists>k. key_field GROUP_MEMBER_MLKEM_BYTES (gm_mlKem768PublicKey m) = Inr k"
    using assms by (auto simp: member_ok_def key_field_def assertBytes_def GROUP_MEMBER_X25519_BYTES_def GROUP_MEMBER_MLKEM_BYTES_def
        split: option.splits)
  moreover have "\<exists>f. lenPrefixed (text_of (gm_wallet m)) 1 = Inr f" "\<exists>f. lenPrefixed (text_of (gm_keyId m)) 1 = Inr f"
    "\<exists>f. lenPrefixed (text_of (gm_name m)) 2 = Inr f"
    using assms lenPrefixed_total by (auto simp: member_ok_def)
  ultimately show ?thesis using assms by (auto simp: encode_member_def assertBytes_def member_ok_def)
qed

lemma member_flags_bits:
  "unat (word_of_nat (member_flags m) :: byte) = member_flags m"
  "odd (member_flags m) \<longleftrightarrow> gm_x25519PublicKey m \<noteq> None" "odd (member_flags m div 2) \<longleftrightarrow> gm_mlKem768PublicKey m \<noteq> None"
  by (auto simp: member_flags_def)

lemma decode_member_rest:
  assumes "rest_at bs pos (e @ ys)" "encode_member m = Inr e" "member_ok m"
  shows "decode_member bs pos = Inr (member_norm m, pos + length e)" "rest_at bs (pos + length e) ys"
proof -
  obtain x k w i n where f: "key_field GROUP_MEMBER_X25519_BYTES (gm_x25519PublicKey m) = Inr x"
      "key_field GROUP_MEMBER_MLKEM_BYTES (gm_mlKem768PublicKey m) = Inr k" "lenPrefixed (text_of (gm_wallet m)) 1 = Inr w"
      "lenPrefixed (text_of (gm_keyId m)) 1 = Inr i" "lenPrefixed (text_of (gm_name m)) 2 = Inr n"
      "e = gm_groupKey m @ [word_of_nat (member_flags m)] @ x @ k @ w @ i @ n"
    using assms(2) by (auto simp: encode_member_def assertBytes_def res_simps)
  have t: "text_ok 255 (gm_wallet m)" "text_ok 255 (gm_keyId m)" "text_ok 65535 (gm_name m)" "length (gm_groupKey m) = 32"
    using assms(3) by (simp_all add: member_ok_def)
  define head where "head = gm_groupKey m @ [word_of_nat (member_flags m)]"
  have head: "length head = 33" "unat (head ! 32) = member_flags m" "take 32 head = gm_groupKey m"
    using t(4) member_flags_bits(1) by (simp_all add: head_def nth_append)
  have r0: "rest_at bs pos (head @ x @ k @ w @ i @ n @ ys)" using assms(1) f(6) by (simp add: head_def)
  note a = take_bytes_rest [OF r0 head(1)]
  note b = optional_field_rest [OF a(2) f(1)]
  note c = optional_field_rest [OF b(2) f(2)]
  note d = text_field_rest [OF c(2) f(3) t(1), simplified]
  note g = text_field_rest [OF d(2) f(4) t(2), simplified]
  note h = text_field_rest [OF g(2) f(5) t(3), simplified]
  have len: "length w = 1 + length (text_of (gm_wallet m))" "length i = 1 + length (text_of (gm_keyId m))" "length n = 2 + length (text_of (gm_name m))"
    using f(3-5) by (auto simp: lenPrefixed_def res_simps simp del: be_bytes.simps)
  have e: "length e = 33 + length x + length k + length w + length i + length n" using f(6) t(4) by simp
  have "decode_member bs pos = Inr (member_norm m, pos + 33 + length x + length k + length w + length i + length n)"
    using a(1) b(1) c(1) d(1) g(1) h(1) head
    by (simp add: decode_member_def member_flags_bits(2,3) member_norm_def len Let_def add_ac)
  then show "decode_member bs pos = Inr (member_norm m, pos + length e)" by (simp add: e add_ac)
  show "rest_at bs (pos + length e) ys" using h(2) by (simp add: e len add_ac)
qed

lemma decode_members_rest:
  assumes "rest_at bs pos (concat es @ ys)" "mapRes encode_member ms = Inr es" "\<forall>m \<in> set ms. member_ok m"
  shows "decode_members_loop (length ms) bs pos = Inr (map member_norm ms, pos + length (concat es)) \<and> rest_at bs (pos + length (concat es)) ys"
  using assms
proof (induction ms arbitrary: es pos)
  case (Cons m ms)
  obtain e es' where e: "encode_member m = Inr e" "mapRes encode_member ms = Inr es'" "es = e # es'"
    using Cons.prems(2) by (auto simp: res_simps)
  have "rest_at bs pos (e @ concat es' @ ys)" using Cons.prems(1) e(3) by simp
  from decode_member_rest [OF this e(1)] Cons.prems(3)
  have d: "decode_member bs pos = Inr (member_norm m, pos + length e)" "rest_at bs (pos + length e) (concat es' @ ys)" by simp_all
  from Cons.IH [OF d(2) e(2)] Cons.prems(3) d(1) show ?case by (simp add: e(3) add_ac)
qed simp

lemma encode_member_length:
  "encode_member m = Inr e \<Longrightarrow> length e = 33 + (if gm_x25519PublicKey m \<noteq> None then GROUP_MEMBER_X25519_BYTES else 0)
        + (if gm_mlKem768PublicKey m \<noteq> None then GROUP_MEMBER_MLKEM_BYTES else 0)
        + 1 + length (text_of (gm_wallet m)) + 1 + length (text_of (gm_keyId m)) + 2 + length (text_of (gm_name m))"
  by (auto simp: encode_member_def assertBytes_def res_simps key_field_def lenPrefixed_def simp del: be_bytes.simps split: option.splits)

lemma encode_members_length:
  assumes "encodeGroupMembers ms = Inr bs"
  shows "length bs = groupMembersBytes ms"
proof -
  obtain es where es: "mapRes encode_member ms = Inr es" "bs = be_bytes 2 (length ms) @ concat es"
    using assms by (auto simp: encodeGroupMembers_def res_simps simp del: be_bytes.simps)
  have "mapRes encode_member ms = Inr es \<Longrightarrow> length (concat es) + 2 = groupMembersBytes ms" for es
  proof (induction ms arbitrary: es)
    case (Cons m ms)
    then obtain e es' where e: "encode_member m = Inr e" "mapRes encode_member ms = Inr es'" "es = e # es'" by (auto simp: res_simps)
    with Cons.IH [OF e(2)] encode_member_length [OF e(1)] show ?case by (simp add: groupMembersBytes_def)
  qed (simp add: groupMembersBytes_def)
  with es show ?thesis by simp
qed

text \<open>
  C40: A list of members is written when every field is in its range, in exactly the announced number of bytes, and is
  read back at whatever offset it stands, with what follows left alone: keys as they were, empty texts as null, and
  names by the rule for names. The admission that carries the list gives it back with its time.
\<close>

theorem group_members_roundtrip:
  assumes "\<forall>m \<in> set members. member_ok m" "length members \<le> 65535"
  shows "\<exists>bs admit. encodeGroupMembers members = Inr bs \<and> length bs = groupMembersBytes members
     \<and> (\<forall>front after. decodeGroupMembers (front @ bs @ after) (length front) = Inr (map member_norm members, length front + length bs))
     \<and> encodeGroupAdmit members sentAt = Inr admit
     \<and> decodeGroupAdmit admit = Inr (nat (sentAt mod 2 ^ 32), map member_norm members)"
proof -
  have "\<exists>es. mapRes encode_member members = Inr es"
    by (rule mapRes_ok) (use assms(1) encode_member_total in blast)
  then obtain es where es: "mapRes encode_member members = Inr es" ..
  define bs where "bs = be_bytes 2 (length members) @ concat es"
  have enc: "encodeGroupMembers members = Inr bs" by (simp add: encodeGroupMembers_def es bs_def del: be_bytes.simps)
  have dec: "decodeGroupMembers (front @ bs @ after) (length front) = Inr (map member_norm members, length front + length bs)" for front after
  proof -
    have "rest_at (front @ bs @ after) (length front) (be_bytes 2 (length members) @ concat es @ after)"
      by (simp add: rest_at_def bs_def del: be_bytes.simps)
    note a = take_bytes_rest [OF this length_be_bytes]
    have "be_value (be_bytes 2 (length members)) = length members" using assms(2) by (simp add: be_value_be_bytes del: be_bytes.simps)
    with a(1) decode_members_rest [OF a(2) es assms(1)] show ?thesis
      by (simp add: decodeGroupMembers_def bs_def del: be_bytes.simps)
  qed
  define t where "t = be_bytes 4 (nat (sentAt mod 2 ^ 32))"
  have t: "length t = 4" "be_value t = nat (sentAt mod 2 ^ 32)"
    by (simp_all add: t_def be_value_be_bytes nat_less_iff del: be_bytes.simps)
  have "encodeGroupAdmit members sentAt = Inr (t @ bs)" by (simp add: encodeGroupAdmit_def enc t_def del: be_bytes.simps)
  moreover have "decodeGroupAdmit (t @ bs) = Inr (nat (sentAt mod 2 ^ 32), map member_norm members)"
  proof -
    have "6 \<le> length (t @ bs)" by (simp add: t(1) bs_def del: be_bytes.simps)
    moreover have "slice 0 4 (t @ bs) = t" using t(1) by (simp add: slice_def)
    ultimately show ?thesis using dec [of t "[]"] t by (simp add: decodeGroupAdmit_def)
  qed
  ultimately show ?thesis using enc dec encode_members_length [OF enc] by blast
qed

definition sample_member :: group_member where
  "sample_member = \<lparr>gm_groupKey = replicate 32 7, gm_wallet = None, gm_keyId = Some (str ''k''), gm_name = Some (0x200e # str ''Ann''),
     gm_x25519PublicKey = Some (replicate 32 1), gm_mlKem768PublicKey = None\<rparr>"

theorem group_members_roundtrip_witness:
  "\<exists>bs. encodeGroupMembers [sample_member] = Inr bs \<and> decodeGroupMembers bs 0
     = Inr ([sample_member\<lparr>gm_name := Some (str ''Ann'')\<rparr>], length bs)"
proof -
  have ok: "member_ok sample_member"
    by (simp add: member_ok_def sample_member_def text_ok_def text_of_def or_default_def well_formed_text_def str_def is_scalar_def is_surrogate_def
        utf8_symbol_def)
  have "member_norm sample_member = sample_member\<lparr>gm_name := Some (str ''Ann'')\<rparr>"
    by (simp add: member_norm_def sample_member_def or_null_def or_default_def str_def groupNameIn_def is_bidi_control_def Let_def
        symbol_bytes_def GROUP_NAME_MAX_BYTES_def)
  moreover obtain bs where "encodeGroupMembers [sample_member] = Inr bs"
      "\<forall>front after. decodeGroupMembers (front @ bs @ after) (length front) = Inr (map member_norm [sample_member], length front + length bs)"
    using group_members_roundtrip [of "[sample_member]" 0] ok by auto
  ultimately show ?thesis by (metis append_Nil append_Nil2 list.simps(8,9) list.size(3) add_0)
qed

end
