(* ===== verification/Spec2Isabelle.thy ===== *)
theory Spec2Isabelle
  imports Profile_Block Public_Payload Replay_Store Intro_Capsule Conv_Key_Persist Group_Members
begin

text \<open>
  A verification library of the Platho client, an encrypted messenger without a server: messages are
  sealed in the browser and published as cells on the TON blockchain, where their recipients find them.
  The library translates the modules under \<^verbatim>\<open>src/web\<close> that decide what is written, what is read back,
  and who can open it. File names below are relative to \<^verbatim>\<open>src/web\<close>.

  \<^bold>\<open>How the parts interact.\<close> What a user writes is encoded as a content block and cut into parts that fit
  a capsule. Each part becomes a compact payload, is sealed for the recipient's messaging keys, and gets two
  headers, a signature and an identifier. Headers and body are chains of cells, put into bags of cells for
  the transaction. The recipient recognises the capsule by its view tag or by the bucket key of the
  conversation, checks it, opens it once, and decodes the block. A first contact is a capsule of its own
  that carries a handshake; from it both sides hold the root key of the conversation, which the key store
  keeps and from which the keys of each day are derived. Public posts take the same way without sealing.
\<close>

text \<open>
  \<^bold>\<open>Theories and code.\<close>

  \<^item> \<open>Js_Prelude\<close>, \<open>Utf8\<close>, \<open>Bits\<close>: what the code uses of JavaScript. A typed array is a list of 8-bit words,
    a string the list of its symbols, a thrown error the left side of a sum (\<open>res\<close>), an absent field \<open>None\<close>.
  \<^item> \<open>Capsule_Parts\<close>, \<open>Content_Blocks\<close>, \<open>Profile_Block\<close> (\<^verbatim>\<open>capsule-part-policy.mjs\<close>): sizes and splitting; reply,
    file, share and profile blocks. Splitting loses nothing, every part fits and has the least size that
    holds it, the greedy split has the fewest parts, every block decodes to what was encoded.
  \<^item> \<open>Cells\<close>, \<open>Boc\<close>, \<open>Cell_Hash\<close>, \<open>Snake\<close> (\<^verbatim>\<open>pwa-contract-transactions.mjs\<close>): the cell builder, bags of cells, the
    hash of a cell and byte strings as chains of cells. Cell objects live in an explicit store because the
    code tells them apart by identity; \<open>denotes\<close> relates a store and an address to the tree they stand for,
    and parser, memoised hash and reader are proved against that tree.
  \<^item> \<open>Base64\<close>, \<open>Ton_Address\<close>, \<open>Messages\<close>, \<open>Message_Layout\<close>: addresses and the bodies of wallet and registry
    messages. \<open>Message_Layout\<close> states what a contract loads from a body as a schema of fields; a body is
    built exactly when its parameters are in range, and the loads give them back.
  \<^item> \<open>Public_Header\<close>, \<open>Public_Reader\<close>, \<open>Public_Payload\<close>: public posts, both versions of their header, and the
    payload that goes on chain.
  \<^item> \<open>Compact_Payload\<close>, \<open>Capsule_Headers\<close> (\<^verbatim>\<open>crypto/platho-crypto.mjs\<close>): the plaintext of a capsule, its headers,
    suites, sizes and timestamps. An accepted header has one encoding only.
  \<^item> \<open>Crypto_Primitives\<close>, \<open>Stable_Json\<close>, \<open>Key_Bundles\<close>, \<open>Signed_Bundles\<close>: key agreement, the text that is signed,
    identities and their public bundles, and the binding of a signed bundle to the key record on chain.
  \<^item> \<open>Capsule_Body\<close>, \<open>Snake_Payload\<close>, \<open>Capsule\<close>, \<open>Capsule_Identity\<close>, \<open>Capsule_Inputs\<close>, \<open>Capsule_Guarantees\<close>: sealing
    and opening the body, the cells on chain, the capsule, its identifier, the messages and times that fit
    (\<open>message_fits\<close>, \<open>times_fit\<close>), and the statements about the whole: a capsule can
    be made from all that fits, is opened by recipient and sender, from the object and from the chain, and its
    identifier binds everything in it.
  \<^item> \<open>Replay_Store\<close> (\<^verbatim>\<open>replay-store.mjs\<close>): the caches that keep a capsule from being opened twice, as instances of
    the locale \<open>replay_cache\<close>, and the sessions that use them, each open with the options it was given.
  \<^item> \<open>Conv_Routing\<close>, \<open>Intro_Handshake\<close> (\<^verbatim>\<open>crypto/conv-routing.mjs\<close>, \<^verbatim>\<open>crypto/intro-handshake.mjs\<close>), \<open>Intro_Capsule\<close>: the
    keys of a conversation and of its days, the handshake of a first contact and the capsule that carries it.
  \<^item> \<open>Conv_Key_Store\<close>, \<open>Conv_Key_Persist\<close> (\<^verbatim>\<open>conv-key-store.mjs\<close>, \<^verbatim>\<open>conv-key-persist.mjs\<close>, \<^verbatim>\<open>cutover-epoch.mjs\<close>): which
    root key a conversation writes under, which ones it still reads, the numbers of its messages, and the
    merge of what two tabs hold.
  \<^item> \<open>Group_Lane\<close>, \<open>Group_Capsules\<close>, \<open>Group_Rekey\<close>, \<open>Group_Members\<close> (\<^verbatim>\<open>crypto/group-lane.mjs\<close>,
    \<^verbatim>\<open>group-protocol.mjs\<close>): the keys of a private group from day to day, the blinded lane key a member signs
    under and its readers check, messages in parts, the envelope that takes a new key to every member, and
    the list of members. Members hear each other, a message is put together from its parts only, and the new
    key reaches those on the list.
\<close>

text \<open>
  \<^bold>\<open>Parameters.\<close> Code that is not under \<^verbatim>\<open>src\<close> or is vendored is an argument of the definitions. The record
  \<open>prims\<close> holds SHA-256, HKDF, AES-GCM, X25519, Ed25519 and ML-KEM; \<open>crypto_laws\<close> states lengths, that opening
  undoes sealing, that a key agreement has one secret and that a signature made verifies. Nothing is assumed
  of secrecy. Where a statement needs that two hashed messages are equal, it says so or exhibits the
  collision (\<open>collision\<close>, \<open>hkdf_collision\<close>). A concrete record that satisfies the laws serves the witnesses.
  The elliptic curve of the group lanes is the record \<open>curve\<close> with \<open>curve_laws\<close>, and \<open>validKem\<close> the library's
  check of an ML-KEM key. HMAC, \<open>toLowerCase\<close>, \<open>localeCompare\<close>, \<open>Date.parse\<close>, random bytes and clocks are further arguments.

  \<^bold>\<open>Bounds and fuel.\<close> The visit of a cell graph carries fuel, the length of the store, which is enough because
  a graph that denotes a tree has no cycle and is less high than the store is long. The snake reader of
  \<^verbatim>\<open>pwa-contract-transactions.mjs\<close> keeps the cells it has seen and so ends within the length of the store; the
  one of \<^verbatim>\<open>crypto/platho-crypto.mjs\<close> stops at the code's own limit of 1024 cells, which the largest body of
  40 KiB stays under, at 127 bytes a cell. The other loops are structural or have a measure. Integers of the
  code that are bounded by a field are checked against it where the code checks; typed arrays keep the low
  eight bits of what is stored in them. Numbers in signed JSON are integers.

  \<^bold>\<open>Sequential reading.\<close> An asynchronous function is one step. In a session of the replay cache the look and
  the entry of one opening are one step with one reading of the clock, not interleaved with another opening.
  One write of the conversation key store reads, merges, claims a number and writes as one step, as its lock
  provides where the browser has Web Locks; without them \<^verbatim>\<open>at-rest-seal.mjs\<close> runs the write unlocked, which
  is not modelled. What the tab holds at that moment is arbitrary. \<open>record_of_draft\<close> of theory \<open>Key_Bundles\<close>
  stands for what the vault contract stores of a draft; the round trip of a vault record and the examples use it.
\<close>

text \<open>
  \<^bold>\<open>Not modelled.\<close> The user interface (\<^verbatim>\<open>app.js\<close>) and the texts; the transport and the readers of the chain,
  which are requests to services; rows of IndexedDB and their sealing with the browser's keys; the lanes,
  which are loops over those readers; of private groups the records and control rows, the JSON of rosters,
  the tokens and the runtime; public lanes and reactions; recovery; wallet, swaps and market data; the
  vendored libraries, and the contracts, which are in another language.
\<close>

end
